(* ===== verification/Prelude.thy ===== *)
theory Prelude
  imports Main "HOL-Library.Word"
begin

text \<open>
  The shared vocabulary of the development: Python exceptions as values, the sequencing of
  fallible steps, loops over lists that may raise, Python's slices, and the integer helpers of
  \<^verbatim>\<open>vllm/utils/math_utils.py\<close>.

  A Python call that may raise is a value of type \<open>'a res\<close>: \<open>Inl e\<close> is the exception,
  \<open>Inr x\<close> the result.  The state after an exception is not modelled: every exception of the
  modelled code is an assertion or an argument check that aborts the engine step.
\<close>

section \<open>Exceptions and sequencing\<close>

datatype py_error =
    AssertionError | ValueError | RuntimeError | IndexError | KeyError | OverflowError
  | NotImplementedError | StopIteration | ZeroDivisionError | AttributeError | UnboundLocalError

type_synonym 'a res = "py_error + 'a"

named_theorems res_simps \<open>rewrite rules of fallible steps\<close>

definition rbind :: "'a res \<Rightarrow> ('a \<Rightarrow> 'b res) \<Rightarrow> 'b res" where
  "rbind m f = (case m of Inl e \<Rightarrow> Inl e | Inr x \<Rightarrow> f x)"

definition py_assert :: "bool \<Rightarrow> unit res" where
  "py_assert b = (if b then Inr () else Inl AssertionError)"

lemma rbind_Inr [simp]: "rbind (Inr x) f = f x"
  by (simp add: rbind_def)

lemma rbind_Inl [simp]: "rbind (Inl e) f = Inl e"
  by (simp add: rbind_def)

lemma rbind_Inr_right [simp]: "rbind m Inr = m"
  by (cases m) auto

lemma rbind_eq_Inr [res_simps]: "rbind m f = Inr y \<longleftrightarrow> (\<exists>x. m = Inr x \<and> f x = Inr y)"
  by (cases m) auto

lemma rbind_eq_Inl [res_simps]:
  "rbind m f = Inl e \<longleftrightarrow> m = Inl e \<or> (\<exists>x. m = Inr x \<and> f x = Inl e)"
  by (cases m) auto

lemma rbind_cong [fundef_cong]:
  "m = m' \<Longrightarrow> (\<And>x. m' = Inr x \<Longrightarrow> f x = g x) \<Longrightarrow> rbind m f = rbind m' g"
  by (cases m') auto

lemma rbind_assoc: "rbind (rbind m f) g = rbind m (\<lambda>x. rbind (f x) g)"
  by (cases m) auto

lemma py_assert_True [simp]: "py_assert True = Inr ()"
  by (simp add: py_assert_def)

lemma py_assert_False [simp]: "py_assert False = Inl AssertionError"
  by (simp add: py_assert_def)

lemma py_assert_eq_Inr [res_simps]: "py_assert b = Inr u \<longleftrightarrow> b"
  by (simp add: py_assert_def)

lemma py_assert_eq_Inl [res_simps]: "py_assert b = Inl e \<longleftrightarrow> \<not> b \<and> e = AssertionError"
  by (auto simp: py_assert_def)

section \<open>Loops that may raise\<close>

text \<open>A list comprehension whose element expression may raise.\<close>

fun rmapv :: "('a \<Rightarrow> 'b res) \<Rightarrow> 'a list \<Rightarrow> 'b list res" where
  "rmapv f [] = Inr []"
| "rmapv f (x # xs) = rbind (f x) (\<lambda>y. rbind (rmapv f xs) (\<lambda>ys. Inr (y # ys)))"

lemma rmapv_pure: "(\<And>x. x \<in> set xs \<Longrightarrow> f x = Inr (g x)) \<Longrightarrow> rmapv f xs = Inr (map g xs)"
  by (induction xs) simp_all

text \<open>\<open>for x in xs: body\<close>, the body a fallible state transformer.\<close>

primrec rfold :: "('a \<Rightarrow> 's \<Rightarrow> 's res) \<Rightarrow> 'a list \<Rightarrow> 's \<Rightarrow> 's res" where
  "rfold f [] s = Inr s"
| "rfold f (x # xs) s = rbind (f x s) (rfold f xs)"

text \<open>\<open>[body for x in xs]\<close>, the body also changing the state.\<close>

primrec rmap :: "('a \<Rightarrow> 's \<Rightarrow> ('b \<times> 's) res) \<Rightarrow> 'a list \<Rightarrow> 's \<Rightarrow> ('b list \<times> 's) res" where
  "rmap f [] s = Inr ([], s)"
| "rmap f (x # xs) s =
     rbind (f x s) (\<lambda>(y, s'). rbind (rmap f xs s') (\<lambda>(ys, s''). Inr (y # ys, s'')))"

lemma rfold_append: "rfold f (xs @ ys) s = rbind (rfold f xs s) (rfold f ys)"
  by (induction xs arbitrary: s) (simp_all add: rbind_assoc cong: rbind_cong)

lemma rfold_cong [fundef_cong]:
  assumes "xs = ys" and "s = t" and "\<And>x s. x \<in> set ys \<Longrightarrow> f x s = g x s"
  shows "rfold f xs s = rfold g ys t"
proof -
  have "(\<And>x s. x \<in> set ys \<Longrightarrow> f x s = g x s) \<Longrightarrow> rfold f ys t = rfold g ys t" for t
    by (induction ys arbitrary: t) (auto intro!: rbind_cong)
  with assms show ?thesis by simp
qed

text \<open>
  The rule of a loop: an invariant over the elements still to come that every iteration keeps
  without raising holds at the end, and the loop does not raise.
\<close>

lemma rfold_invariant:
  assumes "I xs s"
    and "\<And>x xs s. I (x # xs) s \<Longrightarrow> \<exists>s'. f x s = Inr s' \<and> I xs s'"
  shows "\<exists>s'. rfold f xs s = Inr s' \<and> I [] s'"
  using assms(1)
proof (induction xs arbitrary: s)
  case Nil
  then show ?case by simp
next
  case (Cons x xs)
  from assms(2) [OF Cons.prems] obtain s' where "f x s = Inr s'" "I xs s'" by blast
  with Cons.IH show ?case by simp
qed

lemma rfold_preserves:
  assumes "rfold f xs s = Inr s'" and "P s"
    and "\<And>x s s'. x \<in> set xs \<Longrightarrow> f x s = Inr s' \<Longrightarrow> P s \<Longrightarrow> P s'"
  shows "P s'"
  using assms
proof (induction xs arbitrary: s)
  case Nil
  then show ?case by simp
next
  case (Cons x xs)
  from Cons.prems(1) obtain t where t: "f x s = Inr t" "rfold f xs t = Inr s'"
    by (auto simp: res_simps)
  with Cons.prems have "P t" by (meson list.set_intros(1))
  with t(2) Cons.IH Cons.prems(3) show ?case by (meson list.set_intros(2))
qed

section \<open>Python lists: indexing and slices\<close>

definition py_len :: "'a list \<Rightarrow> int" where
  "py_len xs = int (length xs)"

definition py_get :: "'a list \<Rightarrow> int \<Rightarrow> 'a res" where
  "py_get xs i =
     (let n = py_len xs; j = (if i < 0 then n + i else i)
      in if 0 \<le> j \<and> j < n then Inr (xs ! nat j) else Inl IndexError)"

text \<open>\<open>xs[i] = v\<close>.\<close>

definition py_set :: "'a list \<Rightarrow> int \<Rightarrow> 'a \<Rightarrow> 'a list res" where
  "py_set xs i v =
     (let n = py_len xs; j = (if i < 0 then n + i else i)
      in if 0 \<le> j \<and> j < n then Inr (xs[nat j := v]) else Inl IndexError)"

text \<open>\<open>[x] * n\<close>: a negative count gives the empty list.\<close>

definition py_repeat :: "'a \<Rightarrow> int \<Rightarrow> 'a list" where
  "py_repeat x n = replicate (nat n) x"

definition py_clip :: "int \<Rightarrow> int \<Rightarrow> int" where
  "py_clip n i = (if i < 0 then max 0 (n + i) else min n i)"

definition py_slice :: "'a list \<Rightarrow> int \<Rightarrow> int \<Rightarrow> 'a list" where
  "py_slice xs i j =
     (let n = py_len xs; a = py_clip n i; b = py_clip n j
      in take (nat (b - a)) (drop (nat a) xs))"

definition py_from :: "'a list \<Rightarrow> int \<Rightarrow> 'a list" where
  "py_from xs i = drop (nat (py_clip (py_len xs) i)) xs"

definition py_upto :: "'a list \<Rightarrow> int \<Rightarrow> 'a list" where
  "py_upto xs j = take (nat (py_clip (py_len xs) j)) xs"

lemma py_get_nat [simp]: "0 \<le> i \<Longrightarrow> i < py_len xs \<Longrightarrow> py_get xs i = Inr (xs ! nat i)"
  by (simp add: py_get_def Let_def)

lemma py_get_nth: "i < length xs \<Longrightarrow> py_get xs (int i) = Inr (xs ! i)"
  by (simp add: py_get_def py_len_def Let_def)

lemma py_get_last: "xs \<noteq> [] \<Longrightarrow> py_get xs (-1) = Inr (last xs)"
  by (cases xs rule: rev_cases) (simp_all add: py_get_def py_len_def Let_def nth_append)

lemma py_slice_nat:
  "0 \<le> i \<Longrightarrow> 0 \<le> j \<Longrightarrow> py_slice xs i j = take (nat j - nat i) (drop (nat i) xs)"
proof -
  assume i: "0 \<le> i" and j: "0 \<le> j"
  show ?thesis
  proof (cases "i \<le> py_len xs")
    case True
    have "min (length xs - nat i) (nat j - nat i) = nat (min (py_len xs) j - i)"
      using True i j by (auto simp: py_len_def min_def)
    then have "take (nat (min (py_len xs) j - i)) (drop (nat i) xs) =
        take (min (length (drop (nat i) xs)) (nat j - nat i)) (drop (nat i) xs)"
      by simp
    also have "\<dots> = take (nat j - nat i) (drop (nat i) xs)"
      by (simp add: min_def)
    finally show ?thesis using i j True
      by (simp add: py_slice_def py_clip_def Let_def min_absorb2)
  next
    case False
    with i j show ?thesis
      by (simp add: py_slice_def py_clip_def Let_def py_len_def)
  qed
qed

lemma py_from_nat: "0 \<le> i \<Longrightarrow> py_from xs i = drop (nat i) xs"
  by (auto simp: py_from_def py_clip_def py_len_def min_def)

lemma py_upto_nat: "0 \<le> j \<Longrightarrow> py_upto xs j = take (nat j) xs"
  by (auto simp: py_upto_def py_clip_def py_len_def min_def)

section \<open>Integer helpers of \<^verbatim>\<open>vllm/utils/math_utils.py\<close>\<close>

definition cdiv :: "int \<Rightarrow> int \<Rightarrow> int" where
  "cdiv a b = - (a div (- b))"

text \<open>Floor and ceiling division as Python evaluates them: a zero divisor raises.\<close>

definition py_floordiv :: "int \<Rightarrow> int \<Rightarrow> int res" where
  "py_floordiv a b = (if b = 0 then Inl ZeroDivisionError else Inr (a div b))"

definition py_cdiv :: "int \<Rightarrow> int \<Rightarrow> int res" where
  "py_cdiv a b = (if b = 0 then Inl ZeroDivisionError else Inr (cdiv a b))"

definition round_up :: "int \<Rightarrow> int \<Rightarrow> int" where
  "round_up x y = ((x + y - 1) div y) * y"

definition round_down :: "int \<Rightarrow> int \<Rightarrow> int" where
  "round_down x y = (x div y) * y"

lemma py_div_nonzero [simp]:
  "b \<noteq> 0 \<Longrightarrow> py_floordiv a b = Inr (a div b)" "b \<noteq> 0 \<Longrightarrow> py_cdiv a b = Inr (cdiv a b)"
  by (simp_all add: py_floordiv_def py_cdiv_def)

lemma cdiv_alt: "0 < b \<Longrightarrow> cdiv a b = (a + b - 1) div b"
proof -
  assume b: "0 < b"
  have "a div (- b) = - a div b" by (metis div_minus_right)
  have *: "- a div b = - ((a + b - 1) div b)"
  proof -
    have "(a + b - 1) = b * ((a + b - 1) div b) + (a + b - 1) mod b" by simp
    then have "- a = b * (- ((a + b - 1) div b)) + (b - 1 - (a + b - 1) mod b)"
      by (simp add: algebra_simps)
    moreover have "0 \<le> b - 1 - (a + b - 1) mod b" "b - 1 - (a + b - 1) mod b < b"
      using b pos_mod_bound [of b "a + b - 1"] pos_mod_sign [of b "a + b - 1"] by linarith+
    ultimately show ?thesis
      by (metis add.commute div_pos_pos_trivial div_mult_self2 add_0_right b less_irrefl)
  qed
  show ?thesis using * \<open>a div (- b) = - a div b\<close> by (simp add: cdiv_def)
qed

text \<open>The defining property of a ceiling division: the least multiple of \<open>b\<close> above \<open>a\<close>.\<close>

lemma cdiv_bounds:
  assumes "0 < b"
  shows "a \<le> cdiv a b * b" and "cdiv a b * b < a + b"
proof -
  have "(a + b - 1) div b * b = a + b - 1 - (a + b - 1) mod b"
    by (simp add: minus_mod_eq_div_mult [symmetric])
  moreover have "0 \<le> (a + b - 1) mod b" "(a + b - 1) mod b < b" using assms by simp_all
  ultimately show "a \<le> cdiv a b * b" and "cdiv a b * b < a + b"
    unfolding cdiv_alt [OF assms] by linarith+
qed

lemma cdiv_le_iff: "0 < b \<Longrightarrow> cdiv a b \<le> n \<longleftrightarrow> a \<le> n * b"
proof
  assume b: "0 < b" and "cdiv a b \<le> n"
  then have "cdiv a b * b \<le> n * b" by simp
  with cdiv_bounds(1) [OF b, of a] show "a \<le> n * b" by linarith
next
  assume b: "0 < b" and "a \<le> n * b"
  with cdiv_bounds(2) [OF b, of a] have "cdiv a b * b < n * b + b" by linarith
  then have "cdiv a b * b < (n + 1) * b" by (simp add: algebra_simps)
  then have "cdiv a b < n + 1" using b by (simp add: mult_less_cancel_right)
  then show "cdiv a b \<le> n" by simp
qed

lemma cdiv_mult [simp]: "0 < b \<Longrightarrow> cdiv (n * b) b = n"
  using cdiv_le_iff [of b "n * b" n] cdiv_le_iff [of b "n * b" "cdiv (n * b) b"]
  by (simp add: mult_le_cancel_right)

lemma cdiv_nonneg: "0 < b \<Longrightarrow> 0 \<le> a \<Longrightarrow> 0 \<le> cdiv a b"
  by (simp add: cdiv_alt pos_imp_zdiv_nonneg_iff)

lemma cdiv_mono: "0 < b \<Longrightarrow> a \<le> c \<Longrightarrow> cdiv a b \<le> cdiv c b"
  by (simp add: cdiv_alt zdiv_mono1)

section \<open>Lists\<close>

lemma last_notin_butlast: "distinct xs \<Longrightarrow> xs \<noteq> [] \<Longrightarrow> last xs \<notin> set (butlast xs)"
  by (cases xs rule: rev_cases) auto

lemma in_set_tlD: "x \<in> set (tl xs) \<Longrightarrow> x \<in> set xs"
  by (cases xs) auto

lemma count_list_distinct: "distinct xs \<Longrightarrow> count_list xs x = (if x \<in> set xs then 1 else 0)"
  by (induction xs) auto

lemma remove1_split: "b \<notin> set as \<Longrightarrow> remove1 b (as @ b # cs) = as @ cs"
  by (simp add: remove1_append)

lemma div_pos_less_iff: "0 < (b :: int) \<Longrightarrow> a div b < c \<longleftrightarrow> a < c * b"
proof
  assume b: "0 < b" and "a div b < c"
  then have "(a div b + 1) * b \<le> c * b" by simp
  moreover have "a < (a div b + 1) * b"
    using div_mult_mod_eq [of a b] pos_mod_bound [OF b, of a] unfolding distrib_right by linarith
  ultimately show "a < c * b" by linarith
next
  assume b: "0 < b" and "a < c * b"
  moreover have "a div b * b \<le> a" using b div_mult_mod_eq [of a b] pos_mod_sign [OF b, of a] by linarith
  ultimately have "a div b * b < c * b" by linarith
  with b show "a div b < c" by simp
qed

end
