(* ===== verification/Block_Hash.thy ===== *)
theory Block_Hash
  imports Prelude
begin

text \<open>
  The hash keys of prefix caching, from \<^verbatim>\<open>vllm/v1/core/kv_cache_utils.py\<close>: a
  \<open>BlockHash\<close> is a byte string, and a \<open>BlockHashWithGroupId\<close> is the hash followed by the
  group id in four big-endian bytes.  \<open>BlockHashListWithBlockSize\<close> re-reads a list of hashes
  at a coarser block size by concatenation.
\<close>

type_synonym bytes = "8 word list"
type_synonym block_hash = bytes
type_synonym block_hash_with_group_id = bytes

section \<open>Bytes of integers\<close>

text \<open>\<open>int.to_bytes(4, "big", signed=False)\<close> raises on a negative or too large number.\<close>

definition to_bytes4 :: "int \<Rightarrow> bytes res" where
  "to_bytes4 n =
     (if n < 0 \<or> 2 ^ 32 \<le> n then Inl OverflowError
      else Inr [word_of_int (n div 2 ^ 24), word_of_int (n div 2 ^ 16),
                word_of_int (n div 2 ^ 8), word_of_int n])"

definition from_bytes_big :: "bytes \<Rightarrow> int" where
  "from_bytes_big bs = foldl (\<lambda>acc b. acc * 256 + uint b) 0 bs"

definition make_block_hash_with_group_id ::
    "block_hash \<Rightarrow> int \<Rightarrow> block_hash_with_group_id res" where
  "make_block_hash_with_group_id block_hash group_id =
     rbind (to_bytes4 group_id) (\<lambda>g. Inr (block_hash @ g))"

definition get_block_hash :: "block_hash_with_group_id \<Rightarrow> block_hash" where
  "get_block_hash key = py_upto key (-4)"

definition get_group_id :: "block_hash_with_group_id \<Rightarrow> int" where
  "get_group_id key = from_bytes_big (py_from key (-4))"

text \<open>
  \<open>maybe_convert_block_hash\<close>: the environment variable
  \<open>VLLM_KV_EVENTS_USE_INT_BLOCK_HASHES\<close> selects between the raw bytes and their low 64 bits.
\<close>

datatype external_block_hash = HashBytes bytes | HashInt int

definition maybe_convert_block_hash :: "bool \<Rightarrow> block_hash \<Rightarrow> external_block_hash" where
  "maybe_convert_block_hash use_int_block_hashes hash_bytes =
     (if \<not> use_int_block_hashes then HashBytes hash_bytes
      else HashInt (from_bytes_big hash_bytes mod 2 ^ 64))"

section \<open>Lists of hashes at two granularities\<close>

text \<open>\<open>BlockHashList = list[BlockHash] | BlockHashListWithBlockSize\<close>.\<close>

datatype block_hash_list =
    Plain "block_hash list"
  | Scaled "block_hash list" int  \<comment> \<open>the hashes and \<open>scale_factor\<close>\<close>

definition block_hash_list_with_block_size ::
    "block_hash list \<Rightarrow> int \<Rightarrow> int \<Rightarrow> block_hash_list res" where
  "block_hash_list_with_block_size block_hashes hash_block_size target_block_size =
     rbind (py_assert (target_block_size mod hash_block_size = 0))
       (\<lambda>_. Inr (Scaled block_hashes (target_block_size div hash_block_size)))"

definition scaled_len :: "block_hash list \<Rightarrow> int \<Rightarrow> int" where
  "scaled_len block_hashes scale_factor = py_len block_hashes div scale_factor"

definition get_value_at :: "block_hash list \<Rightarrow> int \<Rightarrow> int \<Rightarrow> block_hash res" where
  "get_value_at block_hashes scale_factor idx =
     (let base = idx * scale_factor; end = base + scale_factor in
      rbind (py_get block_hashes base) (\<lambda>merged_hash.
      rfold (\<lambda>i merged. rbind (py_get block_hashes i) (\<lambda>h. Inr (merged @ h)))
        [base + 1 .. end - 1] merged_hash))"

text \<open>The list operations the callers use, on either representation.\<close>

definition bhl_len :: "block_hash_list \<Rightarrow> int" where
  "bhl_len l = (case l of Plain hs \<Rightarrow> py_len hs | Scaled hs k \<Rightarrow> scaled_len hs k)"

definition bhl_get :: "block_hash_list \<Rightarrow> int \<Rightarrow> block_hash res" where
  "bhl_get l i = (case l of Plain hs \<Rightarrow> py_get hs i | Scaled hs k \<Rightarrow> get_value_at hs k i)"

text \<open>\<open>block_hashes[start:]\<close> and iteration, as the list of the values at each index.\<close>

definition bhl_from :: "block_hash_list \<Rightarrow> int \<Rightarrow> block_hash list res" where
  "bhl_from l start = (case l of
       Plain hs \<Rightarrow> Inr (py_from hs start)
     | Scaled hs k \<Rightarrow>
         rbind (rmap (\<lambda>i u. rbind (get_value_at hs k i) (\<lambda>v. Inr (v, u)))
            [py_clip (scaled_len hs k) start .. scaled_len hs k - 1] ())
           (\<lambda>(vs, _). Inr vs))"

section \<open>Round trips\<close>

lemma base256_digits:
  fixes n :: int
  assumes "n = a * 256 + r0" and "a = b * 256 + r1" and "b = c * 256 + r2"
  shows "((c * 256 + r2) * 256 + r1) * 256 + r0 = n"
  using assms by simp

lemma base256:
  fixes n :: int
  assumes "0 \<le> n" and "n < 2 ^ 32"
  shows "(((n div 2 ^ 24) mod 256 * 256 + (n div 2 ^ 16) mod 256) * 256 +
      (n div 2 ^ 8) mod 256) * 256 + n mod 256 = n"
proof -
  have c: "n div 2 ^ 24 mod 256 = n div 2 ^ 24"
    using assms by (intro mod_pos_pos_trivial) auto
  have d: "n div 2 ^ 16 = n div 2 ^ 8 div 256" "n div 2 ^ 24 = n div 2 ^ 16 div 256"
    by (simp_all flip: zdiv_zmult2_eq)
  show ?thesis
    unfolding c
  proof (rule base256_digits)
    show "n = n div 2 ^ 8 * 256 + n mod 256" by simp
    show "n div 2 ^ 8 = n div 2 ^ 16 * 256 + n div 2 ^ 8 mod 256"
      unfolding d(1) by (rule div_mult_mod_eq [symmetric])
    show "n div 2 ^ 16 = n div 2 ^ 24 * 256 + n div 2 ^ 16 mod 256"
      unfolding d(2) by (rule div_mult_mod_eq [symmetric])
  qed
qed

lemma length_to_bytes4: "to_bytes4 n = Inr bs \<Longrightarrow> length bs = 4"
  by (auto simp: to_bytes4_def split: if_splits)

lemma from_to_bytes4:
  assumes "to_bytes4 n = Inr bs"
  shows "from_bytes_big bs = n"
proof -
  from assms have n: "0 \<le> n" "n < 2 ^ 32"
    and bs: "bs = [word_of_int (n div 2 ^ 24), word_of_int (n div 2 ^ 16),
      word_of_int (n div 2 ^ 8), word_of_int n]"
    by (auto simp: to_bytes4_def split: if_splits)
  have w: "uint (word_of_int x :: 8 word) = x mod 256" for x
    by (simp add: uint_word_of_int)
  show ?thesis
    unfolding bs from_bytes_big_def foldl.simps w mult_zero_left add_0 by (rule base256 [OF n])
qed

lemma to_bytes4_inj: "to_bytes4 m = Inr bs \<Longrightarrow> to_bytes4 n = Inr bs \<Longrightarrow> m = n"
  using from_to_bytes4 by blast

lemma split_key:
  assumes "length g = 4"
  shows "get_block_hash (h @ g) = h" and "get_group_id (h @ g) = from_bytes_big g"
  using assms
  by (simp_all add: get_block_hash_def get_group_id_def py_upto_def py_from_def py_clip_def
      py_len_def)

lemma make_key_Inr:
  "make_block_hash_with_group_id h g = Inr key \<longleftrightarrow> (\<exists>bs. to_bytes4 g = Inr bs \<and> key = h @ bs)"
  by (auto simp: make_block_hash_with_group_id_def res_simps)

lemma make_key_ok:
  "0 \<le> g \<Longrightarrow> g < 2 ^ 32 \<Longrightarrow> \<exists>key. make_block_hash_with_group_id h g = Inr key"
  by (simp add: make_block_hash_with_group_id_def to_bytes4_def)

lemma make_key_components:
  assumes "make_block_hash_with_group_id h g = Inr key"
  shows "get_block_hash key = h" and "get_group_id key = g"
  using assms split_key length_to_bytes4 from_to_bytes4 by (auto simp: make_key_Inr)

lemma make_key_inj:
  assumes "make_block_hash_with_group_id h g = Inr key"
    and "make_block_hash_with_group_id h' g' = Inr key"
  shows "h = h' \<and> g = g'"
  using make_key_components [OF assms(1)] make_key_components [OF assms(2)] by simp

section \<open>The coarse view of a hash list\<close>

lemma rfold_concat_range:
  assumes "0 \<le> a" and "b \<le> py_len hs"
  shows "rfold (\<lambda>i merged. rbind (py_get hs i) (\<lambda>h. Inr (merged @ h))) [a .. b - 1] m =
    Inr (m @ concat (take (nat b - nat a) (drop (nat a) hs)))"
  using assms(1)
proof (induction "nat (b - a)" arbitrary: a m)
  case 0
  then show ?case by simp
next
  case (Suc n)
  then have ab: "a < b" by simp
  with Suc.prems assms(2) have "nat a < length hs" by (simp add: py_len_def)
  then have d: "drop (nat a) hs = hs ! nat a # drop (Suc (nat a)) hs"
    by (rule Cons_nth_drop_Suc [symmetric])
  have k: "nat b - nat a = Suc (nat b - nat (a + 1))" "nat (a + 1) = Suc (nat a)"
    using ab Suc.prems by linarith+
  have r: "[a .. b - 1] = a # [a + 1 .. b - 1]" using ab by (simp add: upto_rec1)
  have "n = nat (b - (a + 1))" using Suc.hyps(2) by linarith
  from Suc.hyps(1) [OF this, of "m @ hs ! nat a"] Suc.prems ab assms(2)
  show ?case by (simp add: r d k)
qed

text \<open>
  The value at index \<open>i\<close> of the coarse view is the concatenation of the \<open>k\<close> hashes it covers.
\<close>

lemma get_value_at_concat:
  assumes "0 < k" and "0 \<le> i" and "i < scaled_len hs k"
  shows "get_value_at hs k i = Inr (concat (take (nat k) (drop (nat (i * k)) hs)))"
proof -
  have "(i + 1) * k \<le> py_len hs div k * k"
    using assms by (intro mult_right_mono) (auto simp: scaled_len_def)
  also have "\<dots> \<le> py_len hs" using assms(1)
    by (simp add: minus_mod_eq_div_mult [symmetric])
  finally have le: "i * k + k \<le> py_len hs" by (simp add: algebra_simps)
  have ik: "0 \<le> i * k" using assms by simp
  have lt: "i * k < py_len hs" using le assms(1) by linarith
  then have "nat (i * k) < length hs" using ik by (simp add: py_len_def nat_less_iff)
  then have d: "drop (nat (i * k)) hs = hs ! nat (i * k) # drop (nat (i * k + 1)) hs"
    using ik by (simp add: Cons_nth_drop_Suc nat_add_distrib)
  have k: "nat k = Suc (nat (i * k + k) - nat (i * k + 1))" using ik assms(1) by linarith
  show ?thesis
    using rfold_concat_range [of "i * k + 1" "i * k + k" hs "hs ! nat (i * k)"] ik lt le
    by (simp add: get_value_at_def Let_def d k)
qed

text \<open>The list of hashes that either representation stands for.\<close>

definition bhl_values :: "block_hash_list \<Rightarrow> block_hash list" where
  "bhl_values l = (case l of
       Plain hs \<Rightarrow> hs
     | Scaled hs k \<Rightarrow> map (\<lambda>i. concat (take (nat k) (drop (nat (i * k)) hs)))
         [0..scaled_len hs k - 1])"

definition bhl_ok :: "block_hash_list \<Rightarrow> bool" where
  "bhl_ok l \<longleftrightarrow> (case l of Plain _ \<Rightarrow> True | Scaled _ k \<Rightarrow> 0 < k)"

lemma rmap_pure:
  "(\<And>x. x \<in> set xs \<Longrightarrow> f x u = Inr (g x, u)) \<Longrightarrow> rmap f xs u = Inr (map g xs, u)"
  by (induction xs) auto

lemma drop_upto: "drop n [a..b] = [a + int n..b]"
proof (induction n arbitrary: a)
  case 0
  then show ?case by simp
next
  case (Suc n)
  show ?case
  proof (cases "a \<le> b")
    case True
    then have "drop (Suc n) [a..b] = drop n [a + 1..b]" by (simp add: upto_rec1)
    then show ?thesis by (simp add: Suc add.assoc)
  qed simp
qed

lemma scaled_len_nonneg: "0 < k \<Longrightarrow> 0 \<le> scaled_len hs k"
  by (simp add: scaled_len_def py_len_def pos_imp_zdiv_nonneg_iff)

lemma bhl_len_values: "bhl_ok l \<Longrightarrow> bhl_len l = py_len (bhl_values l)"
  using scaled_len_nonneg
  by (auto simp: bhl_len_def bhl_values_def bhl_ok_def py_len_def split: block_hash_list.splits)

lemma bhl_get_values:
  assumes "bhl_ok l" and "0 \<le> i" and "i < bhl_len l"
  shows "bhl_get l i = Inr (bhl_values l ! nat i)"
proof (cases l)
  case (Plain hs)
  with assms show ?thesis by (simp add: bhl_get_def bhl_values_def bhl_len_def)
next
  case (Scaled hs k)
  with assms have "0 < k" "i < scaled_len hs k" by (simp_all add: bhl_ok_def bhl_len_def)
  moreover have "[0..scaled_len hs k - 1] ! nat i = i"
    using assms(2) calculation(2) by (subst nth_upto) auto
  ultimately show ?thesis using assms(2) Scaled
    by (simp add: bhl_get_def bhl_values_def get_value_at_concat)
qed

lemma bhl_from_values:
  assumes "bhl_ok l" and "0 \<le> n"
  shows "bhl_from l n = Inr (drop (nat n) (bhl_values l))"
proof (cases l)
  case (Plain hs)
  with assms show ?thesis by (simp add: bhl_from_def bhl_values_def py_from_nat)
next
  case (Scaled hs k)
  with assms have k: "0 < k" by (simp add: bhl_ok_def)
  let ?f = "\<lambda>i. concat (take (nat k) (drop (nat (i * k)) hs))"
  have le: "0 \<le> py_clip (scaled_len hs k) n"
    using assms(2) scaled_len_nonneg [OF k, of hs] by (simp add: py_clip_def)
  have "rmap (\<lambda>i u. rbind (get_value_at hs k i) (\<lambda>v. Inr (v, u)))
      [py_clip (scaled_len hs k) n .. scaled_len hs k - 1] () =
    Inr (map ?f [py_clip (scaled_len hs k) n .. scaled_len hs k - 1], ())"
    using k le by (intro rmap_pure) (simp add: get_value_at_concat)
  moreover have "[py_clip (scaled_len hs k) n .. scaled_len hs k - 1] = [n .. scaled_len hs k - 1]"
    using assms(2) by (simp add: py_clip_def min_def)
  ultimately show ?thesis
    using Scaled assms(2) by (simp add: bhl_from_def bhl_values_def drop_map drop_upto)
qed

end
