(* ===== verification/Free_Queue.thy ===== *)
theory Free_Queue
  imports Block_Hash
begin

text \<open>
  \<open>KVCacheBlock\<close> and \<open>FreeKVCacheBlockQueue\<close> of
  \<^verbatim>\<open>vllm/v1/core/kv_cache_utils.py\<close>.  The blocks are mutable objects that the queue links
  through their own \<open>prev_free_block\<close> and \<open>next_free_block\<close> fields, so they live in an
  explicit heap from references to records; \<open>Head\<close> and \<open>Tail\<close> are the two fake nodes.
  The theory shows that every operation on the links is the operation on the list of free blocks
  that it stands for.
\<close>

section \<open>Blocks and the heap\<close>

datatype bref = Head | Tail | Blk nat

record kv_block =
  block_id :: int
  ref_cnt :: int
  block_hash :: "block_hash_with_group_id option"
  prev_free_block :: "bref option"
  next_free_block :: "bref option"
  is_null :: bool

definition KVCacheBlock :: "int \<Rightarrow> kv_block" where
  "KVCacheBlock i = \<lparr>block_id = i, ref_cnt = 0, block_hash = None,
     prev_free_block = None, next_free_block = None, is_null = False\<rparr>"

type_synonym heap = "bref \<Rightarrow> kv_block"

definition upd_block :: "bref \<Rightarrow> (kv_block \<Rightarrow> kv_block) \<Rightarrow> heap \<Rightarrow> heap" where
  "upd_block b f h = h(b := f (h b))"

definition set_prev :: "bref \<Rightarrow> bref option \<Rightarrow> heap \<Rightarrow> heap" where
  "set_prev b p = upd_block b (\<lambda>blk. blk\<lparr>prev_free_block := p\<rparr>)"

definition set_next :: "bref \<Rightarrow> bref option \<Rightarrow> heap \<Rightarrow> heap" where
  "set_next b n = upd_block b (\<lambda>blk. blk\<lparr>next_free_block := n\<rparr>)"

text \<open>The \<open>block_hash\<close> setter asserts that the block has no hash; \<open>reset_hash\<close> clears it.\<close>

definition set_block_hash :: "bref \<Rightarrow> block_hash_with_group_id \<Rightarrow> heap \<Rightarrow> heap res" where
  "set_block_hash b key h =
     rbind (py_assert (block_hash (h b) = None))
       (\<lambda>_. Inr (upd_block b (\<lambda>blk. blk\<lparr>block_hash := Some key\<rparr>) h))"

definition reset_hash :: "bref \<Rightarrow> heap \<Rightarrow> heap" where
  "reset_hash b = upd_block b (\<lambda>blk. blk\<lparr>block_hash := None\<rparr>)"

record free_queue =
  heap_of :: heap
  num_free_blocks :: int

section \<open>The operations of the queue\<close>

definition link_step :: "bref list \<Rightarrow> nat \<Rightarrow> heap \<Rightarrow> heap" where
  "link_step blocks i h =
     (let h1 = (if i > 0 then set_prev (blocks ! i) (Some (blocks ! (i - 1))) h else h)
      in if i + 1 < length blocks then set_next (blocks ! i) (Some (blocks ! (i + 1))) h1 else h1)"

definition FreeKVCacheBlockQueue :: "bref list \<Rightarrow> heap \<Rightarrow> free_queue" where
  "FreeKVCacheBlockQueue blocks h =
     (let n = length blocks;
          h1 = fold (link_step blocks) [0..<n] h;
          h2 = h1(Head := KVCacheBlock (-1), Tail := KVCacheBlock (-1));
          h3 = (if n > 0
                then set_next (last blocks) (Some Tail) (set_prev Tail (Some (last blocks))
                       (set_prev (hd blocks) (Some Head) (set_next Head (Some (hd blocks)) h2)))
                else set_prev Tail (Some Head) (set_next Head (Some Tail) h2))
      in \<lparr>heap_of = h3, num_free_blocks = int n\<rparr>)"

definition popleft :: "free_queue \<Rightarrow> (bref \<times> free_queue) res" where
  "popleft q =
     (case next_free_block (heap_of q Head) of
        None \<Rightarrow> rbind (py_assert (num_free_blocks q = 0)) (\<lambda>_. Inl ValueError)
      | Some first_block \<Rightarrow>
          if first_block = Tail
          then rbind (py_assert (num_free_blocks q = 0)) (\<lambda>_. Inl ValueError)
          else (case next_free_block (heap_of q first_block) of
              None \<Rightarrow> Inl RuntimeError
            | Some second \<Rightarrow>
                let h1 = set_next Head (Some second) (heap_of q);
                    h2 = set_prev second (Some Head) h1;
                    h3 = set_next first_block None (set_prev first_block None h2)
                in Inr (first_block, \<lparr>heap_of = h3, num_free_blocks = num_free_blocks q - 1\<rparr>)))"

fun popn_loop :: "nat \<Rightarrow> bref option \<Rightarrow> bref list \<Rightarrow> heap \<Rightarrow> (bref option \<times> bref list \<times> heap) res" where
  "popn_loop 0 curr_block ret h = Inr (curr_block, ret, h)"
| "popn_loop (Suc n) curr_block ret h =
     (case curr_block of
        None \<Rightarrow> Inl AssertionError
      | Some b \<Rightarrow>
          popn_loop n (next_free_block (h b)) (ret @ [b]) (set_next b None (set_prev b None h)))"

definition popleft_n :: "int \<Rightarrow> free_queue \<Rightarrow> (bref list \<times> free_queue) res" where
  "popleft_n n q =
     (if n = 0 then Inr ([], q)
      else rbind (py_assert (num_free_blocks q \<ge> n)) (\<lambda>_.
        rbind (popn_loop (nat n) (next_free_block (heap_of q Head)) [] (heap_of q))
          (\<lambda>(curr_block, ret, h).
            let h' = (case curr_block of
                        None \<Rightarrow> h
                      | Some c \<Rightarrow> set_prev c (Some Head) (set_next Head (Some c) h))
            in Inr (ret, \<lparr>heap_of = h', num_free_blocks = num_free_blocks q - n\<rparr>))))"

definition remove :: "bref \<Rightarrow> free_queue \<Rightarrow> free_queue res" where
  "remove block q =
     (case (prev_free_block (heap_of q block), next_free_block (heap_of q block)) of
        (Some p, Some s) \<Rightarrow>
          let h1 = set_next p (Some s) (heap_of q);
              h2 = set_prev s (Some p) h1;
              h3 = set_next block None (set_prev block None h2)
          in Inr \<lparr>heap_of = h3, num_free_blocks = num_free_blocks q - 1\<rparr>
      | _ \<Rightarrow> Inl RuntimeError)"

definition append_block :: "bref \<Rightarrow> free_queue \<Rightarrow> free_queue res" where
  "append_block block q =
     (case prev_free_block (heap_of q Tail) of
        None \<Rightarrow> Inl RuntimeError
      | Some last_block \<Rightarrow>
          let h1 = set_prev block (Some last_block) (set_next last_block (Some block) (heap_of q));
              h2 = set_prev Tail (Some block) (set_next block (Some Tail) h1)
          in Inr \<lparr>heap_of = h2, num_free_blocks = num_free_blocks q + 1\<rparr>)"

fun appn_loop :: "bref list \<Rightarrow> bref \<Rightarrow> heap \<Rightarrow> bref \<times> heap" where
  "appn_loop [] last_block h = (last_block, h)"
| "appn_loop (b # bs) last_block h =
     appn_loop bs b (set_next last_block (Some b) (set_prev b (Some last_block) h))"

definition append_n :: "bref list \<Rightarrow> free_queue \<Rightarrow> free_queue res" where
  "append_n blocks q =
     (if blocks = [] then Inr q
      else (case prev_free_block (heap_of q Tail) of
          None \<Rightarrow> Inl AssertionError
        | Some last_block \<Rightarrow>
            let (l, h1) = appn_loop blocks last_block (heap_of q);
                h2 = set_prev Tail (Some l) (set_next l (Some Tail) h1)
            in Inr \<lparr>heap_of = h2, num_free_blocks = num_free_blocks q + py_len blocks\<rparr>))"

text \<open>
  \<open>get_all_free_blocks\<close> follows the links until a node without successor: on a cyclic list it
  does not return, which is the value \<open>None\<close> here.
\<close>

partial_function (option) free_walk :: "heap \<Rightarrow> bref \<Rightarrow> bref list \<Rightarrow> bref list option" where
  "free_walk h curr_block ret =
     (case next_free_block (h curr_block) of
        None \<Rightarrow> Some ret
      | Some n \<Rightarrow> free_walk h n (ret @ [curr_block]))"

definition get_all_free_blocks :: "free_queue \<Rightarrow> bref list res option" where
  "get_all_free_blocks q =
     (case next_free_block (heap_of q Head) of
        None \<Rightarrow> Some (Inl RuntimeError)
      | Some c \<Rightarrow> map_option Inr (free_walk (heap_of q) c []))"

section \<open>The abstraction: the list of free blocks\<close>

text \<open>\<open>linked h ns\<close>: consecutive nodes of \<open>ns\<close> point at each other in both directions.\<close>

fun linked :: "heap \<Rightarrow> bref list \<Rightarrow> bool" where
  "linked h (a # b # ns) \<longleftrightarrow>
     next_free_block (h a) = Some b \<and> prev_free_block (h b) = Some a \<and> linked h (b # ns)"
| "linked h _ \<longleftrightarrow> True"

definition unlinked :: "heap \<Rightarrow> bref \<Rightarrow> bool" where
  "unlinked h b \<longleftrightarrow> prev_free_block (h b) = None \<and> next_free_block (h b) = None"

definition queue_inv :: "free_queue \<Rightarrow> bref list \<Rightarrow> bool" where
  "queue_inv q xs \<longleftrightarrow>
     linked (heap_of q) (Head # xs @ [Tail]) \<and> distinct (Head # xs @ [Tail]) \<and>
     prev_free_block (heap_of q Head) = None \<and> next_free_block (heap_of q Tail) = None \<and>
     (\<forall>b. b \<notin> set (Head # xs @ [Tail]) \<longrightarrow> unlinked (heap_of q) b) \<and>
     num_free_blocks q = py_len xs"

text \<open>What the queue never touches in a block.\<close>

definition payload :: "kv_block \<Rightarrow> int \<times> int \<times> block_hash_with_group_id option \<times> bool" where
  "payload blk = (block_id blk, ref_cnt blk, block_hash blk, is_null blk)"

named_theorems heap_simps \<open>reading the heap after an update\<close>

lemma set_prev_read [heap_simps]:
  "next_free_block (set_prev b p h c) = next_free_block (h c)"
  "prev_free_block (set_prev b p h c) = (if c = b then p else prev_free_block (h c))"
  "payload (set_prev b p h c) = payload (h c)"
  by (simp_all add: set_prev_def upd_block_def payload_def)

lemma set_next_read [heap_simps]:
  "next_free_block (set_next b n h c) = (if c = b then n else next_free_block (h c))"
  "prev_free_block (set_next b n h c) = prev_free_block (h c)"
  "payload (set_next b n h c) = payload (h c)"
  by (simp_all add: set_next_def upd_block_def payload_def)

lemma linked_append: "linked h (as @ b # cs) \<longleftrightarrow> linked h (as @ [b]) \<and> linked h (b # cs)"
proof (induction as)
  case Nil
  then show ?case by simp
next
  case (Cons a as)
  then show ?case by (cases as) auto
qed

lemma linked_cong:
  "(\<And>b. b \<in> set (butlast ns) \<Longrightarrow> next_free_block (h b) = next_free_block (g b)) \<Longrightarrow>
   (\<And>b. b \<in> set (tl ns) \<Longrightarrow> prev_free_block (h b) = prev_free_block (g b)) \<Longrightarrow>
   linked h ns = linked g ns"
proof (induction h ns rule: linked.induct)
  case (1 h a b ns)
  have "linked h (b # ns) = linked g (b # ns)"
    using 1 by (cases ns) auto
  with "1.prems" show ?case by (auto split: if_splits)
qed auto

text \<open>
  The step all removals share: with the segment \<open>M\<close> between \<open>p\<close> and \<open>s\<close> cut out, the two
  ends are linked.
\<close>

lemma linked_cut:
  assumes "linked h (A @ [p])" and "linked h (s # C)" and "distinct (A @ p # s # C)"
    and "\<And>b. b \<in> set A \<Longrightarrow> next_free_block (h' b) = next_free_block (h b)"
    and "\<And>b. b \<in> set (A @ [p]) \<Longrightarrow> prev_free_block (h' b) = prev_free_block (h b)"
    and "\<And>b. b \<in> set (s # C) \<Longrightarrow> next_free_block (h' b) = next_free_block (h b)"
    and "\<And>b. b \<in> set C \<Longrightarrow> prev_free_block (h' b) = prev_free_block (h b)"
    and "next_free_block (h' p) = Some s" and "prev_free_block (h' s) = Some p"
  shows "linked h' (A @ p # s # C)"
proof -
  have "linked h' (A @ [p])"
    using assms(1) by (subst linked_cong [where g = h])
      (auto simp: assms(4) intro!: assms(5) dest: in_set_tlD)
  moreover have "linked h' (s # C)"
    using assms(2) by (subst linked_cong [where g = h]) (auto simp: assms split: if_splits
        dest: in_set_butlastD)
  ultimately show ?thesis
    using assms(8,9) by (subst linked_append) simp
qed

lemma linked_snoc:
  "ys \<noteq> [] \<Longrightarrow> linked h (ys @ [z]) \<longleftrightarrow>
     linked h ys \<and> next_free_block (h (last ys)) = Some z \<and> prev_free_block (h z) = Some (last ys)"
  using linked_append [of h "butlast ys" "last ys" "[z]"] append_butlast_last_id [of ys]
  by (metis append.assoc append_Cons append_Nil linked.simps(1,3))

lemma linked_appendD: "linked h (as @ cs) \<Longrightarrow> linked h as \<and> linked h cs"
proof (cases cs)
  case Nil
  then show "linked h (as @ cs) \<Longrightarrow> linked h as \<and> linked h cs" by simp
next
  case (Cons c cs')
  show "linked h (as @ cs) \<Longrightarrow> linked h as \<and> linked h cs"
    unfolding Cons linked_append [of h as c cs']
    by (cases "as = []") (auto simp: linked_snoc)
qed

lemma linked_edge:
  "linked h (A @ a # b # C) \<Longrightarrow> next_free_block (h a) = Some b \<and> prev_free_block (h b) = Some a"
  using linked_append [of h A a "b # C"] by simp

section \<open>Removing a segment\<close>

text \<open>
  Any heap that agrees with the old one but for the removed segment and the two nodes around it
  stands for the list without the segment.
\<close>

lemma queue_inv_cut:
  assumes inv: "queue_inv q (as @ M @ cs)"
    and p: "p = last (Head # as)" and s: "s = hd (cs @ [Tail])"
    and link: "next_free_block (h' p) = Some s" "prev_free_block (h' s) = Some p"
    and gone: "\<And>b. b \<in> set M \<Longrightarrow> unlinked h' b"
    and nxt: "\<And>b. b \<notin> set M \<Longrightarrow> b \<noteq> p \<Longrightarrow> next_free_block (h' b) = next_free_block (heap_of q b)"
    and prv: "\<And>b. b \<notin> set M \<Longrightarrow> b \<noteq> s \<Longrightarrow> prev_free_block (h' b) = prev_free_block (heap_of q b)"
    and n: "n = num_free_blocks q - py_len M"
  shows "queue_inv \<lparr>heap_of = h', num_free_blocks = n\<rparr> (as @ cs)"
proof -
  let ?h = "heap_of q"
  define A where "A = butlast (Head # as)"
  define C where "C = tl (cs @ [Tail])"
  have ps: "Head # as = A @ [p]" "cs @ [Tail] = s # C"
    by (simp_all add: A_def C_def p s)
  have dist: "distinct ((A @ [p]) @ M @ s # C)"
    using inv unfolding ps [symmetric] by (simp add: queue_inv_def)
  have "linked ?h ((Head # as) @ M @ (cs @ [Tail]))"
    using inv by (simp add: queue_inv_def)
  then have "linked ?h (A @ [p])" and "linked ?h (s # C)"
    unfolding ps by (meson linked_appendD)+
  then have "linked h' (A @ p # s # C)"
    by (rule linked_cut) (use dist link in \<open>auto intro!: nxt prv\<close>)
  then have linked: "linked h' (Head # (as @ cs) @ [Tail])"
    using ps by (metis append.assoc append_Cons append_Nil)
  have in_ps: "p \<in> set (Head # as)" "s \<in> set (cs @ [Tail])"
    unfolding ps by simp_all
  moreover have d: "distinct ((Head # as) @ M @ cs @ [Tail])" using dist ps by simp
  ultimately have out: "s \<noteq> Head" "p \<noteq> Tail" "Head \<notin> set M" "Tail \<notin> set M"
    by (auto simp only: distinct_append set_append list.set Int_iff disjoint_iff distinct.simps
        Un_iff insert_iff)
  have "prev_free_block (h' Head) = None" "next_free_block (h' Tail) = None"
    using inv out by (simp_all add: nxt prv queue_inv_def)
  moreover have "unlinked h' b" if "b \<notin> set (Head # (as @ cs) @ [Tail])" for b
  proof (cases "b \<in> set M")
    case True
    then show ?thesis by (rule gone)
  next
    case False
    moreover from that in_ps have "b \<noteq> p" "b \<noteq> s" by auto
    moreover have "unlinked (heap_of q) b"
      using inv that False by (simp add: queue_inv_def)
    ultimately show ?thesis by (simp add: unlinked_def nxt prv)
  qed
  moreover have "distinct (Head # (as @ cs) @ [Tail])" using d by auto
  moreover have "n = py_len (as @ cs)" using inv by (simp add: queue_inv_def n py_len_def)
  ultimately show ?thesis using linked by (simp add: queue_inv_def)
qed

lemma queue_inv_popleft:
  assumes "queue_inv q (x # xs)"
  shows "\<exists>q'. popleft q = Inr (x, q') \<and> queue_inv q' xs \<and>
    (\<forall>b. payload (heap_of q' b) = payload (heap_of q b))"
proof -
  let ?h = "heap_of q" and ?s = "hd (xs @ [Tail])"
  obtain C where C: "xs @ [Tail] = ?s # C" by (cases xs) auto
  have l: "linked ?h (Head # x # ?s # C)" and x: "x \<noteq> Tail" "x \<noteq> Head"
    and hs: "x \<noteq> ?s" "Head \<noteq> ?s"
    using assms C by (auto simp: queue_inv_def) (metis append_Cons list.distinct(1) list.set_intros(1) UnE set_append set_ConsD empty_iff empty_set)+
  then have n: "next_free_block (?h Head) = Some x" "next_free_block (?h x) = Some ?s" by simp_all
  show ?thesis
    using assms x hs queue_inv_cut [of q "[]" "[x]" xs Head ?s]
    by (auto simp: popleft_def n Let_def heap_simps unlinked_def py_len_def)
qed

lemma queue_inv_popleft_empty:
  assumes "queue_inv q []"
  shows "popleft q = Inl ValueError"
  using assms by (simp add: queue_inv_def popleft_def py_len_def)

lemma queue_inv_remove:
  assumes "queue_inv q xs" and "b \<in> set xs"
  shows "\<exists>q'. remove b q = Inr q' \<and> queue_inv q' (remove1 b xs) \<and>
    (\<forall>c. payload (heap_of q' c) = payload (heap_of q c))"
proof -
  let ?h = "heap_of q"
  from assms(2) obtain as cs where xs: "xs = as @ b # cs" "b \<notin> set as"
    by (meson split_list_first)
  define p where "p = last (Head # as)"
  define s where "s = hd (cs @ [Tail])"
  obtain A C where ps: "Head # as = A @ [p]" "cs @ [Tail] = s # C"
    unfolding p_def s_def by (metis append_butlast_last_id append_is_Nil_conv hd_Cons_tl list.distinct(1))
  have "linked ?h ((Head # as) @ b # (cs @ [Tail]))"
    using assms(1) by (simp add: queue_inv_def xs)
  then have "linked ?h (A @ p # b # s # C)" "linked ?h ((A @ [p]) @ b # s # C)"
    unfolding ps by simp_all
  from linked_edge [OF this(1)] linked_edge [OF this(2)]
  have n: "prev_free_block (?h b) = Some p" "next_free_block (?h b) = Some s" by simp_all
  have "distinct ((Head # as) @ b # (cs @ [Tail]))"
    using assms(1) by (simp add: queue_inv_def xs)
  then have d: "b \<noteq> p" "b \<noteq> s" "p \<noteq> s" unfolding ps by auto
  have "remove1 b xs = as @ cs" using xs by (simp add: remove1_split)
  then show ?thesis
    using assms(1) d queue_inv_cut [of q as "[b]" cs p s]
    by (auto simp: remove_def n Let_def heap_simps unlinked_def py_len_def xs(1) p_def s_def)
qed

lemma queue_inv_remove_error:
  assumes "queue_inv q xs" and "b \<notin> set xs"
  shows "remove b q = Inl RuntimeError"
proof (cases "b = Head \<or> b = Tail")
  case True
  with assms(1) show ?thesis by (auto simp: queue_inv_def remove_def split: option.splits)
next
  case False
  with assms show ?thesis by (auto simp: queue_inv_def unlinked_def remove_def)
qed

lemma popn_loop_segment:
  assumes "linked h (M @ s # C)" and "distinct (M @ s # C)"
  shows "\<exists>h'. popn_loop (length M) (Some (hd (M @ [s]))) ret h = Inr (Some s, ret @ M, h') \<and>
    (\<forall>b. next_free_block (h' b) = (if b \<in> set M then None else next_free_block (h b))) \<and>
    (\<forall>b. prev_free_block (h' b) = (if b \<in> set M then None else prev_free_block (h b))) \<and>
    (\<forall>b. payload (h' b) = payload (h b))"
  using assms
proof (induction M arbitrary: h ret)
  case Nil
  then show ?case by simp
next
  case (Cons m M)
  let ?g = "set_next m None (set_prev m None h)"
  have nm: "next_free_block (h m) = Some (hd (M @ [s]))"
    using Cons.prems(1) by (cases M) auto
  have "linked h (M @ s # C)" using Cons.prems(1) by (cases M) auto
  then have "linked ?g (M @ s # C)"
    by (subst linked_cong [where g = h])
      (use Cons.prems(2) in \<open>auto simp: heap_simps dest!: in_set_butlastD in_set_tlD\<close>)
  from Cons.IH [OF this, of "ret @ [m]"] Cons.prems(2)
  show ?case by (auto simp: nm heap_simps)
qed

lemma queue_inv_popleft_n:
  assumes "queue_inv q xs" and "n \<le> length xs"
  shows "\<exists>q'. popleft_n (int n) q = Inr (take n xs, q') \<and> queue_inv q' (drop n xs) \<and>
    (\<forall>b. payload (heap_of q' b) = payload (heap_of q b))"
proof (cases "n = 0")
  case True
  with assms show ?thesis by (simp add: popleft_n_def)
next
  case False
  let ?h = "heap_of q" and ?M = "take n xs" and ?s = "hd (drop n xs @ [Tail])"
  obtain C where C: "drop n xs @ [Tail] = ?s # C" by (cases "drop n xs") auto
  have xs: "xs @ [Tail] = ?M @ ?s # C" using C by (metis append.assoc append_take_drop_id)
  have l: "linked ?h (Head # ?M @ ?s # C)" and d: "distinct (Head # ?M @ ?s # C)"
    using assms(1) unfolding xs [symmetric] by (simp_all add: queue_inv_def)
  have M: "?M \<noteq> []" "length ?M = n" using False assms(2) by auto
  have "linked ?h (?M @ ?s # C)" using l linked_appendD [of ?h "[Head]" "?M @ ?s # C"] by simp
  from popn_loop_segment [OF this, of "[]"] d M(2) obtain h' where
    h': "popn_loop n (Some (hd (?M @ [?s]))) [] ?h = Inr (Some ?s, ?M, h')"
      "\<forall>b. next_free_block (h' b) = (if b \<in> set ?M then None else next_free_block (?h b))"
      "\<forall>b. prev_free_block (h' b) = (if b \<in> set ?M then None else prev_free_block (?h b))"
      "\<forall>b. payload (h' b) = payload (?h b)" by auto
  have hd: "next_free_block (?h Head) = Some (hd (?M @ [?s]))"
    using l M(1) by (cases ?M) auto
  have num: "int n \<le> num_free_blocks q"
    using assms by (simp add: queue_inv_def py_len_def)
  let ?q' = "\<lparr>heap_of = set_prev ?s (Some Head) (set_next Head (Some ?s) h'),
      num_free_blocks = num_free_blocks q - int n\<rparr>"
  have "popleft_n (int n) q = Inr (?M, ?q')"
    using False num by (simp add: popleft_n_def hd h'(1))
  moreover have "queue_inv ?q' ([] @ drop n xs)"
    by (rule queue_inv_cut [where M = ?M and q = q])
      (use assms d M h'(2,3) in \<open>auto simp: heap_simps unlinked_def py_len_def\<close>)
  ultimately show ?thesis using h'(4) by (simp add: heap_simps)
qed

lemma popleft_n_too_many:
  "queue_inv q xs \<Longrightarrow> py_len xs < n \<Longrightarrow> popleft_n n q = Inl AssertionError"
  by (auto simp: popleft_n_def queue_inv_def py_len_def)

section \<open>Appending\<close>

lemma appn_loop_segment:
  assumes "distinct (l # bs)"
  shows "\<exists>h'. appn_loop bs l h = (last (l # bs), h') \<and> linked h' (l # bs) \<and>
    (\<forall>b. b \<notin> set (butlast (l # bs)) \<longrightarrow> next_free_block (h' b) = next_free_block (h b)) \<and>
    (\<forall>b. b \<notin> set bs \<longrightarrow> prev_free_block (h' b) = prev_free_block (h b)) \<and>
    (\<forall>b. payload (h' b) = payload (h b))"
  using assms
proof (induction bs arbitrary: l h)
  case Nil
  then show ?case by simp
next
  case (Cons b bs)
  let ?g = "set_next l (Some b) (set_prev b (Some l) h)"
  from Cons.prems have "distinct (b # bs)" by simp
  from Cons.IH [OF this, of ?g] obtain h' where h':
    "appn_loop bs b ?g = (last (b # bs), h')" "linked h' (b # bs)"
    "\<forall>c. c \<notin> set (butlast (b # bs)) \<longrightarrow> next_free_block (h' c) = next_free_block (?g c)"
    "\<forall>c. c \<notin> set bs \<longrightarrow> prev_free_block (h' c) = prev_free_block (?g c)"
    "\<forall>c. payload (h' c) = payload (?g c)" by blast
  have "l \<notin> set (butlast (b # bs))" "b \<notin> set bs" "l \<noteq> b"
    using Cons.prems by (auto dest: in_set_butlastD split: if_splits)
  with h'(3,4) have "next_free_block (h' l) = Some b" "prev_free_block (h' b) = Some l"
    by (simp_all add: heap_simps)
  with h' show ?case by (auto simp: heap_simps)
qed

lemma queue_inv_extend:
  assumes inv: "queue_inv q xs" and bs: "bs \<noteq> []" "distinct bs" "set bs \<inter> set (Head # xs @ [Tail]) = {}"
    and l: "l = last (Head # xs)" and link: "linked h' (l # bs)"
    and tail: "next_free_block (h' (last bs)) = Some Tail" "prev_free_block (h' Tail) = Some (last bs)"
    and nxt: "\<And>b. b \<notin> set (l # bs) \<Longrightarrow> next_free_block (h' b) = next_free_block (heap_of q b)"
    and prv: "\<And>b. b \<notin> set (Tail # bs) \<Longrightarrow> prev_free_block (h' b) = prev_free_block (heap_of q b)"
    and n: "n = num_free_blocks q + py_len bs"
  shows "queue_inv \<lparr>heap_of = h', num_free_blocks = n\<rparr> (xs @ bs)"
proof -
  let ?h = "heap_of q"
  define A where "A = butlast (Head # xs)"
  have A: "Head # xs = A @ [l]" by (simp add: A_def l)
  have d: "distinct (A @ [l] @ [Tail])" using inv A by (metis append.assoc append_Cons queue_inv_def)
  have "set (A @ [l] @ [Tail]) = set ((Head # xs) @ [Tail])" unfolding A by simp
  then have dj: "set bs \<inter> set (A @ [l] @ [Tail]) = {}" using bs(3) by simp
  have "linked ?h (Head # xs)"
    using inv linked_appendD [of ?h "Head # xs" "[Tail]"] by (simp add: queue_inv_def)
  moreover have "next_free_block (h' b) = next_free_block (?h b)" if "b \<in> set A" for b
    using that d dj by (auto intro!: nxt)
  moreover have "prev_free_block (h' b) = prev_free_block (?h b)" if "b \<in> set (A @ [l])" for b
    using that d dj by (auto intro!: prv)
  ultimately have "linked h' (A @ [l])"
    unfolding A by (subst linked_cong [where g = ?h]) (auto dest: in_set_tlD)
  with link have "linked h' (A @ l # bs)" by (blast intro: linked_append [THEN iffD2])
  moreover have "last (A @ l # bs) = last bs" using bs(1) by simp
  ultimately have "linked h' ((A @ l # bs) @ [Tail])"
    using tail by (subst linked_snoc) simp_all
  moreover have "(A @ l # bs) @ [Tail] = Head # (xs @ bs) @ [Tail]"
    using A by (metis append.assoc append_Cons append_Nil)
  ultimately have linked: "linked h' (Head # (xs @ bs) @ [Tail])" by metis
  have mem: "l \<in> set (Head # xs)" unfolding A by simp
  have "prev_free_block (h' Head) = None" "next_free_block (h' Tail) = None"
    using inv d bs(3) by (subst prv nxt; force simp: queue_inv_def)+
  moreover have "unlinked h' b" if b: "b \<notin> set (Head # (xs @ bs) @ [Tail])" for b
  proof -
    from b mem have "b \<notin> set (l # bs)" "b \<notin> set (Tail # bs)" by auto
    with b inv show ?thesis by (simp add: unlinked_def nxt prv queue_inv_def)
  qed
  moreover have "distinct (Head # (xs @ bs) @ [Tail])"
    using inv bs by (auto simp: queue_inv_def)
  moreover have "n = py_len (xs @ bs)" using inv by (simp add: queue_inv_def n py_len_def)
  ultimately show ?thesis using linked by (simp add: queue_inv_def)
qed

lemma queue_inv_tail:
  assumes "queue_inv q xs"
  shows "prev_free_block (heap_of q Tail) = Some (last (Head # xs))"
proof -
  have "linked (heap_of q) ((Head # xs) @ [Tail])" using assms by (simp add: queue_inv_def)
  then show ?thesis by (subst (asm) linked_snoc) simp_all
qed

lemma queue_inv_append_n:
  assumes "queue_inv q xs" and "distinct bs" and "set bs \<inter> set (Head # xs @ [Tail]) = {}"
  shows "\<exists>q'. append_n bs q = Inr q' \<and> queue_inv q' (xs @ bs) \<and>
    (\<forall>b. payload (heap_of q' b) = payload (heap_of q b))"
proof (cases "bs = []")
  case True
  with assms show ?thesis by (simp add: append_n_def)
next
  case False
  let ?l = "last (Head # xs)"
  have l_in: "?l \<in> set (Head # xs)" by (rule last_in_set) simp
  then have "?l \<notin> set bs" using assms(3) by auto
  with assms(2) have "distinct (?l # bs)" by simp
  from appn_loop_segment [OF this, of "heap_of q"] obtain h' where h':
    "appn_loop bs ?l (heap_of q) = (last (?l # bs), h')" "linked h' (?l # bs)"
    "\<forall>c. c \<notin> set (butlast (?l # bs)) \<longrightarrow> next_free_block (h' c) = next_free_block (heap_of q c)"
    "\<forall>c. c \<notin> set bs \<longrightarrow> prev_free_block (h' c) = prev_free_block (heap_of q c)"
    "\<forall>c. payload (h' c) = payload (heap_of q c)" by blast
  let ?g = "set_prev Tail (Some (last bs)) (set_next (last bs) (Some Tail) h')"
  have last: "last bs \<in> set bs" "last bs \<noteq> Tail" using last_in_set [OF False] assms(3) by auto
  have "?l \<noteq> Tail" using l_in assms(1) by (auto simp: queue_inv_def simp del: last.simps)
  then have ne: "Tail \<notin> set (?l # bs)" using assms(3) by (auto simp del: last.simps)
  let ?q' = "\<lparr>heap_of = ?g, num_free_blocks = num_free_blocks q + py_len bs\<rparr>"
  have "append_n bs q = Inr ?q'"
    using False by (simp add: append_n_def queue_inv_tail [OF assms(1)] h'(1) del: last.simps) simp
  moreover have "linked ?g (?l # bs)"
  proof -
    have "last bs \<notin> set (butlast (?l # bs))"
      using last_notin_butlast [OF \<open>distinct (?l # bs)\<close>] False by (simp del: last.simps) simp
    moreover have "Tail \<notin> set (tl (?l # bs))" using ne by simp
    ultimately show ?thesis
      using h'(2) by (subst linked_cong [where g = h']) (auto simp: heap_simps simp del: last.simps)
  qed
  moreover have "queue_inv ?q' (xs @ bs)"
  proof (rule queue_inv_extend [OF assms(1) False assms(2,3) refl])
    show "linked ?g (?l # bs)" by fact
    fix b assume "b \<notin> set (?l # bs)"
    then have "b \<notin> set (butlast (?l # bs))" "b \<noteq> last bs"
      using last(1) by (auto dest: in_set_butlastD simp del: last.simps)
    then show "next_free_block (?g b) = next_free_block (heap_of q b)"
      by (simp add: heap_simps h'(3) del: last.simps)
  qed (use h'(4) last in \<open>auto simp: heap_simps\<close>)
  ultimately show ?thesis using h'(5) by (simp add: heap_simps)
qed

lemma queue_inv_append:
  assumes "queue_inv q xs" and "b \<notin> set (Head # xs @ [Tail])"
  shows "\<exists>q'. append_block b q = Inr q' \<and> queue_inv q' (xs @ [b]) \<and>
    (\<forall>c. payload (heap_of q' c) = payload (heap_of q c))"
proof -
  define l where "l = last (Head # xs)"
  have "l \<in> set (Head # xs)" unfolding l_def by (rule last_in_set) simp
  with assms have ne: "l \<noteq> b" "l \<noteq> Tail" "b \<noteq> Tail" by (auto simp: queue_inv_def)
  let ?h = "set_prev Tail (Some b) (set_next b (Some Tail)
    (set_prev b (Some l) (set_next l (Some b) (heap_of q))))"
  let ?q' = "\<lparr>heap_of = ?h, num_free_blocks = num_free_blocks q + 1\<rparr>"
  have "prev_free_block (heap_of q Tail) = Some l"
    unfolding l_def by (rule queue_inv_tail [OF assms(1)])
  then have "append_block b q = Inr ?q'" by (simp add: append_block_def Let_def)
  moreover have "queue_inv ?q' (xs @ [b])"
    by (rule queue_inv_extend [OF assms(1) _ _ _ l_def])
      (use assms(2) ne in \<open>auto simp: heap_simps py_len_def\<close>)
  ultimately show ?thesis by (simp add: heap_simps)
qed

section \<open>Reading the list back\<close>

lemma free_walk_linked:
  assumes "linked h (xs @ [Tail])" and "next_free_block (h Tail) = None"
  shows "free_walk h (hd (xs @ [Tail])) ret = Some (ret @ xs)"
  using assms(1)
proof (induction xs arbitrary: ret)
  case Nil
  with assms(2) show ?case by (simp add: free_walk.simps)
next
  case (Cons x xs)
  then have "next_free_block (h x) = Some (hd (xs @ [Tail]))" "linked h (xs @ [Tail])"
    by (cases xs; auto)+
  with Cons.IH show ?case by (simp add: free_walk.simps [of h x])
qed

lemma get_all_free_blocks_inv:
  assumes "queue_inv q xs"
  shows "get_all_free_blocks q = Some (Inr xs)"
proof -
  have l: "linked (heap_of q) (Head # xs @ [Tail])" and t: "next_free_block (heap_of q Tail) = None"
    using assms by (simp_all add: queue_inv_def)
  then have "next_free_block (heap_of q Head) = Some (hd (xs @ [Tail]))"
    and "linked (heap_of q) (xs @ [Tail])"
    by (cases xs; auto)+
  with free_walk_linked [of "heap_of q" xs, OF _ t] show ?thesis
    by (simp add: get_all_free_blocks_def)
qed

section \<open>The initial queue\<close>

text \<open>The heap before \<open>FreeKVCacheBlockQueue.__init__\<close>: \<open>KVCacheBlock(idx)\<close> at every index.\<close>

definition initial_heap :: heap where
  "initial_heap b = (case b of Blk i \<Rightarrow> KVCacheBlock (int i) | _ \<Rightarrow> KVCacheBlock (-1))"

lemma link_step_read [heap_simps]:
  "next_free_block (link_step blocks i h c) = (if c = blocks ! i \<and> i + 1 < length blocks
     then Some (blocks ! (i + 1)) else next_free_block (h c))"
  "prev_free_block (link_step blocks i h c) = (if c = blocks ! i \<and> 0 < i
     then Some (blocks ! (i - 1)) else prev_free_block (h c))"
  "payload (link_step blocks i h c) = payload (h c)"
  by (simp_all add: link_step_def Let_def heap_simps)

lemma link_steps:
  assumes "distinct blocks" and "\<And>b. unlinked h b" and "k \<le> length blocks"
  shows "let g = fold (link_step blocks) [0..<k] h in
    linked g (take k blocks) \<and>
    (0 < k \<longrightarrow> prev_free_block (g (blocks ! 0)) = None \<and>
       next_free_block (g (blocks ! (k - 1))) =
         (if k < length blocks then Some (blocks ! k) else None)) \<and>
    (\<forall>b. b \<notin> set (take k blocks) \<longrightarrow> unlinked g b) \<and>
    (\<forall>b. payload (g b) = payload (h b))"
  using assms(3)
proof (induction k)
  case 0
  show ?case by (auto intro: assms(2))
next
  case (Suc k)
  let ?g = "fold (link_step blocks) [0..<k] h"
  let ?b = "blocks ! k"
  let ?g' = "link_step blocks k ?g"
  have k: "k < length blocks" using Suc.prems by simp
  have tk: "take (Suc k) blocks = take k blocks @ [?b]" using k by (rule take_Suc_conv_app_nth)
  have new: "?b \<notin> set (take k blocks)"
    using assms(1) k by (auto simp: in_set_conv_nth nth_eq_iff_index_eq)
  have IH: "linked ?g (take k blocks)" "0 < k \<Longrightarrow> prev_free_block (?g (blocks ! 0)) = None"
    "0 < k \<Longrightarrow> next_free_block (?g (blocks ! (k - 1))) = Some ?b"
    "\<And>b. b \<notin> set (take k blocks) \<Longrightarrow> unlinked ?g b" "\<And>b. payload (?g b) = payload (h b)"
    using Suc.IH k by (simp_all add: Let_def)
  have "linked ?g' (take k blocks)"
    using IH(1) by (subst linked_cong [where g = ?g])
      (use new in \<open>auto simp: heap_simps dest!: in_set_butlastD in_set_tlD\<close>)
  moreover have "blocks ! (k - 1) = last (take k blocks)" if "0 < k"
  proof -
    from that k have "take k blocks \<noteq> []" by auto
    with that k show ?thesis by (simp add: last_conv_nth)
  qed
  moreover have "blocks ! (k - 1) \<noteq> ?b" if "0 < k"
    using that k assms(1) by (auto simp: nth_eq_iff_index_eq)
  moreover have first: "blocks ! 0 \<noteq> ?b" if "0 < k"
  proof -
    from k have "0 < length blocks" by linarith
    with that k show ?thesis using nth_eq_iff_index_eq [OF assms(1), of 0 k] by simp
  qed
  note facts = calculation
  have "linked ?g' (take (Suc k) blocks)"
  proof (cases "k = 0")
    case True
    then show ?thesis by (cases blocks) simp_all
  next
    case False
    then have "take k blocks \<noteq> []" using k by auto
    with False facts IH(3) show ?thesis
      unfolding tk by (subst linked_snoc) (simp_all add: heap_simps)
  qed
  moreover have "?b \<in> set (take (Suc k) blocks)" unfolding tk by simp
  ultimately show ?case
    using IH new first Suc.prems
    by (cases "k = 0") (auto simp: tk heap_simps unlinked_def Let_def)
qed

lemma queue_inv_init:
  assumes "distinct blocks" and "set blocks \<inter> {Head, Tail} = {}" and "\<And>b. unlinked h b"
  shows "queue_inv (FreeKVCacheBlockQueue blocks h) blocks"
    and "\<And>b. b \<noteq> Head \<Longrightarrow> b \<noteq> Tail \<Longrightarrow>
      payload (heap_of (FreeKVCacheBlockQueue blocks h) b) = payload (h b)"
proof -
  let ?g = "fold (link_step blocks) [0..<length blocks] h"
  let ?h2 = "?g(Head := KVCacheBlock (-1), Tail := KVCacheBlock (-1))"
  let ?q = "FreeKVCacheBlockQueue blocks h"
  from link_steps [OF assms(1,3), of "length blocks"] have g: "linked ?g blocks"
    "blocks \<noteq> [] \<Longrightarrow> prev_free_block (?g (hd blocks)) = None"
    "blocks \<noteq> [] \<Longrightarrow> next_free_block (?g (last blocks)) = None"
    "\<And>b. b \<notin> set blocks \<Longrightarrow> unlinked ?g b" "\<And>b. payload (?g b) = payload (h b)"
    by (simp_all add: Let_def hd_conv_nth last_conv_nth)
  have l2: "linked ?h2 blocks"
    using g(1) by (subst linked_cong [where g = ?g])
      (use assms(2) in \<open>auto dest: in_set_butlastD in_set_tlD\<close>)
  show "queue_inv ?q blocks"
  proof (cases "blocks = []")
    case True
    then show ?thesis
      using g(4) by (auto simp: FreeKVCacheBlockQueue_def queue_inv_def heap_simps py_len_def
          KVCacheBlock_def unlinked_def)
  next
    case False
    have hl: "hd blocks \<in> set blocks" "last blocks \<in> set blocks" using False by simp_all
    let ?h = "heap_of ?q"
    have rd: "next_free_block (?h c) = (if c = last blocks then Some Tail
        else if c = Head then Some (hd blocks) else next_free_block (?h2 c))"
      "prev_free_block (?h c) = (if c = Tail then Some (last blocks)
        else if c = hd blocks then Some Head else prev_free_block (?h2 c))" for c
      using False by (simp_all add: FreeKVCacheBlockQueue_def Let_def heap_simps)
    have hdl: "hd blocks \<notin> set (tl blocks)" using assms(1) False by (cases blocks) auto
    have "linked ?h blocks"
      using l2 by (subst linked_cong [where g = ?h2])
        (use assms(1,2) hdl hl last_notin_butlast [OF assms(1) False] in
          \<open>auto simp: rd dest: in_set_butlastD in_set_tlD\<close>)
    moreover have "Head \<noteq> last blocks" "Tail \<noteq> hd blocks" "Tail \<noteq> last blocks" "Head \<noteq> hd blocks"
      using hl assms(2) by auto
    ultimately have edges: "linked ?h blocks" "next_free_block (?h Head) = Some (hd blocks)"
      "prev_free_block (?h (hd blocks)) = Some Head" "next_free_block (?h (last blocks)) = Some Tail"
      "prev_free_block (?h Tail) = Some (last blocks)"
      by (simp_all add: rd)
    obtain x xs where "blocks = x # xs" using False by (cases blocks) auto
    with edges(1-3) have "linked ?h (Head # blocks)" by simp
    then have "linked ?h ((Head # blocks) @ [Tail])"
      using False edges(4,5) by (subst linked_snoc) simp_all
    moreover have "distinct (Head # blocks @ [Tail])" using assms(1,2) by auto
    moreover have "prev_free_block (?h Head) = None" "next_free_block (?h Tail) = None"
      using hl assms(2) by (auto simp: rd KVCacheBlock_def)
    moreover have "unlinked ?h b" if "b \<notin> set (Head # blocks @ [Tail])" for b
    proof -
      from that hl have "b \<noteq> Head" "b \<noteq> Tail" "b \<noteq> hd blocks" "b \<noteq> last blocks" by auto
      moreover have "unlinked ?g b" using that by (intro g(4)) simp
      ultimately show ?thesis by (simp add: unlinked_def rd)
    qed
    moreover have "num_free_blocks ?q = py_len blocks"
      by (simp add: FreeKVCacheBlockQueue_def Let_def py_len_def)
    ultimately show ?thesis by (simp add: queue_inv_def)
  qed
  show "\<And>b. b \<noteq> Head \<Longrightarrow> b \<noteq> Tail \<Longrightarrow> payload (heap_of ?q b) = payload (h b)"
    using g(5) by (auto simp: FreeKVCacheBlockQueue_def Let_def heap_simps)
qed

section \<open>The interface of the free queue\<close>

text \<open>
  What the block pool relies on: the queue stands for a list of distinct blocks, allocation
  takes a prefix, a block can be taken out anywhere, freed blocks go to the end, and no operation
  changes what the blocks carry (\<open>data\<close>).
\<close>

locale block_queue =
  fixes pop_n :: "int \<Rightarrow> 'q \<Rightarrow> ('b list \<times> 'q) res"
    and take_out :: "'b \<Rightarrow> 'q \<Rightarrow> 'q res"
    and put_n :: "'b list \<Rightarrow> 'q \<Rightarrow> 'q res"
    and stands_for :: "'q \<Rightarrow> 'b list \<Rightarrow> bool"
    and valid :: "'b \<Rightarrow> bool"
    and data :: "'q \<Rightarrow> 'b \<Rightarrow> 'd"
  assumes stands_for_distinct: "stands_for q xs \<Longrightarrow> distinct xs"
    and stands_for_valid: "stands_for q xs \<Longrightarrow> b \<in> set xs \<Longrightarrow> valid b"
    and pop_n_law: "stands_for q xs \<Longrightarrow> n \<le> length xs \<Longrightarrow>
      \<exists>q'. pop_n (int n) q = Inr (take n xs, q') \<and> stands_for q' (drop n xs) \<and> data q' = data q"
    and take_out_law: "stands_for q xs \<Longrightarrow> b \<in> set xs \<Longrightarrow>
      \<exists>q'. take_out b q = Inr q' \<and> stands_for q' (remove1 b xs) \<and> data q' = data q"
    and put_n_law: "stands_for q xs \<Longrightarrow> distinct bs \<Longrightarrow> set bs \<inter> set xs = {} \<Longrightarrow>
      \<forall>b \<in> set bs. valid b \<Longrightarrow>
      \<exists>q'. put_n bs q = Inr q' \<and> stands_for q' (xs @ bs) \<and> data q' = data q"
begin

text \<open>Freed blocks are reused last, in the order they were freed.\<close>

lemma reuse_order:
  assumes "stands_for q xs" and "distinct bs" and "set bs \<inter> set xs = {}" and "\<forall>b \<in> set bs. valid b"
    and "n \<le> length xs + length bs"
  shows "\<exists>q' q''. put_n bs q = Inr q' \<and> pop_n (int n) q' = Inr (take n (xs @ bs), q'') \<and>
    stands_for q'' (drop n (xs @ bs)) \<and> data q'' = data q"
proof -
  obtain q' where q': "put_n bs q = Inr q'" "stands_for q' (xs @ bs)" "data q' = data q"
    using put_n_law [OF assms(1-4)] by blast
  moreover have "n \<le> length (xs @ bs)" using assms(5) by simp
  ultimately show ?thesis using pop_n_law [of q' "xs @ bs" n] by auto
qed

text \<open>A block that was taken out is not handed out by a later allocation.\<close>

lemma taken_out_not_popped:
  assumes "stands_for q xs" and "b \<in> set xs" and "take_out b q = Inr q'"
    and "n < length xs" and "pop_n (int n) q' = Inr (bs, q'')"
  shows "b \<notin> set bs"
proof -
  have q': "stands_for q' (remove1 b xs)"
    using take_out_law [OF assms(1,2)] assms(3) by auto
  moreover have "n \<le> length (remove1 b xs)" using assms(2,4) by (simp add: length_remove1)
  ultimately have "bs = take n (remove1 b xs)" using pop_n_law assms(5) by fastforce
  then have "set bs \<subseteq> set (remove1 b xs)" by (simp add: set_take_subset)
  moreover have "b \<notin> set (remove1 b xs)"
    using stands_for_distinct [OF assms(1)] by simp
  ultimately show ?thesis by blast
qed

end

definition is_real :: "bref \<Rightarrow> bool" where
  "is_real b \<longleftrightarrow> (case b of Blk _ \<Rightarrow> True | _ \<Rightarrow> False)"

definition queue_data ::
    "free_queue \<Rightarrow> bref \<Rightarrow> int \<times> int \<times> block_hash_with_group_id option \<times> bool" where
  "queue_data q = (\<lambda>b. payload (heap_of q b))"

lemma is_real_iff: "is_real b \<longleftrightarrow> b \<noteq> Head \<and> b \<noteq> Tail"
  by (simp add: is_real_def split: bref.split)

lemma queue_inv_distinct: "queue_inv q xs \<Longrightarrow> distinct xs"
  and queue_inv_real: "queue_inv q xs \<Longrightarrow> b \<in> set xs \<Longrightarrow> is_real b"
  and queue_inv_num: "queue_inv q xs \<Longrightarrow> num_free_blocks q = py_len xs"
  by (auto simp: queue_inv_def is_real_iff)

interpretation fq: block_queue popleft_n remove append_n queue_inv is_real queue_data
proof (unfold_locales, goal_cases)
  case (1 q xs)
  then show ?case by (rule queue_inv_distinct)
next
  case (2 q xs b)
  then show ?case by (rule queue_inv_real)
next
  case (3 q xs n)
  from queue_inv_popleft_n [OF this] show ?case by (auto simp: queue_data_def)
next
  case (4 q xs b)
  from queue_inv_remove [OF this] show ?case by (auto simp: queue_data_def)
next
  case (5 q xs bs)
  then have "set bs \<inter> set (Head # xs @ [Tail]) = {}" by (auto simp: is_real_iff)
  from queue_inv_append_n [OF 5(1,2) this] show ?case by (auto simp: queue_data_def)
qed

text \<open>The other fields of a block can change without the queue noticing.\<close>

lemma queue_inv_payload:
  assumes "queue_inv q xs" and "num_free_blocks q' = num_free_blocks q"
    and "\<And>b. next_free_block (heap_of q' b) = next_free_block (heap_of q b)"
    and "\<And>b. prev_free_block (heap_of q' b) = prev_free_block (heap_of q b)"
  shows "queue_inv q' xs"
proof -
  have "linked (heap_of q') ns = linked (heap_of q) ns" for ns
    by (rule linked_cong) (simp_all add: assms)
  with assms show ?thesis by (simp add: queue_inv_def unlinked_def)
qed

end
