(* ===== verification/Request_Hash.thy ===== *)
theory Request_Hash
  imports Block_Hash Complex_Main
begin

text \<open>
  \<open>Request\<close> of \<^verbatim>\<open>vllm/v1/request.py\<close> and the computation of its block hashes
  (\<open>need_extra_keys\<close> to \<open>get_request_block_hasher\<close> of
  \<^verbatim>\<open>vllm/v1/core/kv_cache_utils.py\<close>).  The hash function is a parameter, as it is in the
  code (\<open>caching_hash_fn\<close>); \<open>none_hash\<close> is the global \<open>NONE_HASH\<close>.
\<close>

section \<open>Requests\<close>

datatype request_status =
    WAITING | WAITING_FOR_FSM | WAITING_FOR_REMOTE_KVS | WAITING_FOR_STREAMING_REQ
  | RUNNING | PREEMPTED
  | FINISHED_STOPPED | FINISHED_LENGTH_CAPPED | FINISHED_ABORTED | FINISHED_IGNORED
  | FINISHED_ERROR

datatype finish_reason = FR_STOP | FR_LENGTH | FR_ABORT | FR_ERROR

text \<open>\<open>enum.auto()\<close> numbers the statuses from 1 in the order of their definition.\<close>

definition status_value :: "request_status \<Rightarrow> nat" where
  "status_value s = (case s of
     WAITING \<Rightarrow> 1 | WAITING_FOR_FSM \<Rightarrow> 2 | WAITING_FOR_REMOTE_KVS \<Rightarrow> 3
   | WAITING_FOR_STREAMING_REQ \<Rightarrow> 4 | RUNNING \<Rightarrow> 5 | PREEMPTED \<Rightarrow> 6
   | FINISHED_STOPPED \<Rightarrow> 7 | FINISHED_LENGTH_CAPPED \<Rightarrow> 8 | FINISHED_ABORTED \<Rightarrow> 9
   | FINISHED_IGNORED \<Rightarrow> 10 | FINISHED_ERROR \<Rightarrow> 11)"

definition status_is_finished :: "request_status \<Rightarrow> bool" where
  "status_is_finished s \<longleftrightarrow> status_value s > status_value PREEMPTED"

definition status_get_finished_reason :: "request_status \<Rightarrow> finish_reason option" where
  "status_get_finished_reason s = (case s of
     FINISHED_STOPPED \<Rightarrow> Some FR_STOP | FINISHED_LENGTH_CAPPED \<Rightarrow> Some FR_LENGTH
   | FINISHED_ABORTED \<Rightarrow> Some FR_ABORT | FINISHED_IGNORED \<Rightarrow> Some FR_LENGTH
   | FINISHED_ERROR \<Rightarrow> Some FR_ERROR | WAITING_FOR_STREAMING_REQ \<Rightarrow> Some FR_STOP
   | _ \<Rightarrow> None)"

text \<open>
  A multi-modal input: its identifier and the range of its placeholder tokens
  (\<open>mm_position.offset\<close>, \<open>mm_position.length\<close>, \<open>mm_position.is_embed\<close>).
\<close>

record mm_feature =
  mm_identifier :: "string option"
  mm_offset :: int
  mm_length :: int
  is_embed :: "bool list option"

record lora_request =
  lora_name :: string
  adapter_id :: int

record sampling_params =
  min_tokens :: int
  sp_max_tokens :: "int option"
  ignore_eos :: bool
  stop_token_ids :: "int list"
  sp_skip_reading :: "bool option"

text \<open>The next input of a streaming session.\<close>

record streaming_update =
  upd_mm_features :: "mm_feature list option"
  upd_prompt_token_ids :: "int list option"
  upd_max_tokens :: int
  upd_arrival_time :: rat
  upd_sampling_params :: "sampling_params option"

text \<open>
  The fields of \<open>Request\<close> that the modelled code reads or writes.  \<open>prompt_embeds\<close> holds
  the bytes of each row of the tensor.
\<close>

record request =
  request_id :: string
  priority :: int
  arrival_time :: rat
  sampling_params_of :: "sampling_params option"
  is_pooling :: bool
  pooling_skip_reading :: "bool option"
  eos_token_id :: "int option"
  req_max_tokens :: int
  req_status :: request_status
  stop_reason :: "int option"
  num_prompt_tokens :: int
  output_token_ids :: "int list"
  all_token_ids :: "int list"
  spec_token_ids :: "int list"
  num_computed_tokens :: int
  cache_salt :: "string option"
  lora_request_of :: "lora_request option"
  mm_features :: "mm_feature list"
  prompt_embeds :: "bytes list option"
  block_hashes :: "block_hash list"
  skip_reading_prefix_cache :: bool
  num_preemptions :: int
  num_output_placeholders :: int
  discard_latest_async_tokens :: bool
  is_prefill_chunk :: bool
  num_cached_tokens :: int
  use_structured_output :: bool
  resumable :: bool
  streaming_queue :: "streaming_update option list option"

definition num_tokens :: "request \<Rightarrow> int" where
  "num_tokens r = py_len (all_token_ids r)"

definition num_tokens_with_spec :: "request \<Rightarrow> int" where
  "num_tokens_with_spec r = py_len (all_token_ids r) + py_len (spec_token_ids r)"

definition num_output_tokens :: "request \<Rightarrow> int" where
  "num_output_tokens r = py_len (output_token_ids r)"

definition get_skip_reading_prefix_cache :: "request \<Rightarrow> bool" where
  "get_skip_reading_prefix_cache r =
     (case sampling_params_of r of
        Some sp \<Rightarrow> (case sp_skip_reading sp of
            Some b \<Rightarrow> b
          | None \<Rightarrow> (if is_pooling r then (case pooling_skip_reading r of Some b \<Rightarrow> b | None \<Rightarrow> False)
                     else False))
      | None \<Rightarrow> (if is_pooling r then (case pooling_skip_reading r of Some b \<Rightarrow> b | None \<Rightarrow> False)
                 else False))"

text \<open>\<open>PlaceholderRange.get_num_embeds\<close> of \<^verbatim>\<open>vllm/multimodal/inputs.py\<close>.\<close>

definition get_num_embeds :: "mm_feature \<Rightarrow> int res" where
  "get_num_embeds f =
     (case is_embed f of
        None \<Rightarrow> Inr (mm_length f)
      | Some emb \<Rightarrow> if emb = [] then Inl IndexError else Inr (py_len (filter id emb)))"

definition get_num_encoder_embeds :: "request \<Rightarrow> int \<Rightarrow> int res" where
  "get_num_encoder_embeds r input_id =
     rbind (py_assert (input_id < py_len (mm_features r)))
       (\<lambda>_. rbind (py_get (mm_features r) input_id) get_num_embeds)"

section \<open>Extra keys\<close>

text \<open>
  The keys are Python strings (LoRA names, identifiers of multi-modal inputs, cache salts) and
  byte strings (prompt embeddings), in one untagged tuple.
\<close>

datatype extra_key = KStr string | KBytes bytes

definition need_extra_keys :: "request \<Rightarrow> bool" where
  "need_extra_keys r \<longleftrightarrow>
     mm_features r \<noteq> [] \<or> lora_request_of r \<noteq> None \<or> cache_salt r \<noteq> None"

text \<open>The \<open>while\<close> loop over the features from \<open>curr_mm_idx\<close> on.\<close>

fun mm_scan ::
    "int \<Rightarrow> int \<Rightarrow> mm_feature list \<Rightarrow> int \<Rightarrow> extra_key list \<Rightarrow> (extra_key list \<times> int) res" where
  "mm_scan start_token_idx end_token_idx [] curr_mm_idx extra_keys = Inr (extra_keys, curr_mm_idx)"
| "mm_scan start_token_idx end_token_idx (f # fs) curr_mm_idx extra_keys =
     (case mm_identifier f of
        None \<Rightarrow> Inl AssertionError
      | Some ident \<Rightarrow>
          if end_token_idx > mm_offset f then
            (if start_token_idx > mm_offset f + mm_length f then
               mm_scan start_token_idx end_token_idx fs (curr_mm_idx + 1) extra_keys
             else if end_token_idx \<ge> mm_offset f + mm_length f then
               mm_scan start_token_idx end_token_idx fs (curr_mm_idx + 1) (extra_keys @ [KStr ident])
             else Inr (extra_keys @ [KStr ident], curr_mm_idx))
          else Inr (extra_keys, curr_mm_idx))"

definition gen_mm_extra_hash_keys ::
    "request \<Rightarrow> int \<Rightarrow> int \<Rightarrow> int \<Rightarrow> (extra_key list \<times> int) res" where
  "gen_mm_extra_hash_keys r start_token_idx end_token_idx start_mm_idx =
     (let feats = mm_features r in
      if feats = [] then Inr ([], start_mm_idx)
      else if mm_offset (last feats) + mm_length (last feats) < start_token_idx
      then Inr ([], start_mm_idx)
      else if start_mm_idx < 0 then
        rbind (py_assert (- start_mm_idx \<le> py_len feats)) (\<lambda>_.
          let i = py_len feats + start_mm_idx in
          mm_scan start_token_idx end_token_idx (drop (nat i) feats) i [])
      else mm_scan start_token_idx end_token_idx (drop (nat start_mm_idx) feats) start_mm_idx [])"

definition gen_lora_extra_hash_keys :: "request \<Rightarrow> extra_key list" where
  "gen_lora_extra_hash_keys r =
     (case lora_request_of r of None \<Rightarrow> [] | Some l \<Rightarrow> [KStr (lora_name l)])"

definition gen_prompt_embeds_extra_hash_keys :: "request \<Rightarrow> int \<Rightarrow> int \<Rightarrow> extra_key list" where
  "gen_prompt_embeds_extra_hash_keys r start_token_idx end_token_idx =
     (case prompt_embeds r of
        None \<Rightarrow> []
      | Some rows \<Rightarrow> [KBytes (concat (py_slice rows start_token_idx end_token_idx))])"

text \<open>An empty salt string is falsy and adds no key.\<close>

definition cache_salt_keys :: "request \<Rightarrow> int \<Rightarrow> extra_key list" where
  "cache_salt_keys r start_token_idx =
     (case cache_salt r of
        Some salt \<Rightarrow> if start_token_idx = 0 \<and> salt \<noteq> [] then [KStr salt] else []
      | None \<Rightarrow> [])"

definition generate_block_hash_extra_keys ::
    "request \<Rightarrow> int \<Rightarrow> int \<Rightarrow> int \<Rightarrow> (extra_key list option \<times> int) res" where
  "generate_block_hash_extra_keys r start_token_idx end_token_idx start_mm_idx =
     rbind (gen_mm_extra_hash_keys r start_token_idx end_token_idx start_mm_idx)
       (\<lambda>(mm_extra_keys, new_start_mm_idx).
         let extra_keys = gen_lora_extra_hash_keys r @ mm_extra_keys @
               cache_salt_keys r start_token_idx @
               gen_prompt_embeds_extra_hash_keys r start_token_idx end_token_idx
         in Inr (if extra_keys = [] then None else Some extra_keys, new_start_mm_idx))"

section \<open>The hash chain\<close>

type_synonym hash_function = "bytes \<times> int list \<times> extra_key list option \<Rightarrow> bytes"

text \<open>An absent or empty parent hash is falsy and is replaced by \<open>NONE_HASH\<close>.\<close>

definition hash_block_tokens ::
    "hash_function \<Rightarrow> bytes \<Rightarrow> block_hash option \<Rightarrow> int list \<Rightarrow> extra_key list option \<Rightarrow> block_hash"
  where
  "hash_block_tokens hash_fn none_hash parent_block_hash curr_block_token_ids extra_keys =
     (let parent = (case parent_block_hash of
                      None \<Rightarrow> none_hash
                    | Some p \<Rightarrow> if p = [] then none_hash else p)
      in hash_fn (parent, curr_block_token_ids, extra_keys))"

text \<open>
  The \<open>while True\<close> loop of \<open>request_block_hasher\<close>.  Each iteration moves
  \<open>start_token_idx\<close> by \<open>block_size\<close>, so it does not return when \<open>block_size \<le> 0\<close>; the fuel
  runs out then, and never does otherwise for a request without multi-modal inputs
  (\<open>request_block_hasher_chain\<close> of \<^verbatim>\<open>Hash_Facts\<close>).
\<close>

fun hash_loop ::
    "nat \<Rightarrow> hash_function \<Rightarrow> bytes \<Rightarrow> int \<Rightarrow> request \<Rightarrow> int \<Rightarrow> int \<Rightarrow> block_hash option \<Rightarrow>
     block_hash list \<Rightarrow> block_hash list res option" where
  "hash_loop 0 hash_fn none_hash block_size r start_token_idx curr_mm_idx prev acc = None"
| "hash_loop (Suc fuel) hash_fn none_hash block_size r start_token_idx curr_mm_idx prev acc =
     (let end_token_idx = start_token_idx + block_size in
      if end_token_idx > num_tokens r then Some (Inr acc)
      else (case generate_block_hash_extra_keys r start_token_idx end_token_idx curr_mm_idx of
          Inl e \<Rightarrow> Some (Inl e)
        | Inr (extra_keys, next_mm_idx) \<Rightarrow>
            let block_tokens = py_slice (all_token_ids r) start_token_idx end_token_idx;
                block_hash = hash_block_tokens hash_fn none_hash prev block_tokens extra_keys
            in hash_loop fuel hash_fn none_hash block_size r (start_token_idx + block_size)
                 next_mm_idx (Some block_hash) (acc @ [block_hash])))"

definition request_block_hasher ::
    "hash_function \<Rightarrow> bytes \<Rightarrow> int \<Rightarrow> request \<Rightarrow> block_hash list res option" where
  "request_block_hasher hash_fn none_hash block_size r =
     (let start_token_idx = py_len (block_hashes r) * block_size in
      if start_token_idx + block_size > num_tokens r then Some (Inr [])
      else hash_loop (Suc (length (all_token_ids r))) hash_fn none_hash block_size r
             start_token_idx (if start_token_idx > 0 then -1 else 0)
             (if block_hashes r = [] then None else Some (last (block_hashes r))) [])"

text \<open>\<open>update_block_hashes\<close> and \<open>append_output_token_ids\<close>, with the request's hasher as argument.\<close>

type_synonym hasher = "request \<Rightarrow> block_hash list res option"

definition update_block_hashes :: "hasher option \<Rightarrow> request \<Rightarrow> request res option" where
  "update_block_hashes block_hasher r =
     (case block_hasher of
        None \<Rightarrow> Some (Inr r)
      | Some h \<Rightarrow> map_option (\<lambda>res. rbind res
          (\<lambda>new. Inr (r\<lparr>block_hashes := block_hashes r @ new\<rparr>))) (h r))"

definition append_output_token_ids :: "hasher option \<Rightarrow> int list \<Rightarrow> request \<Rightarrow> request res option" where
  "append_output_token_ids block_hasher token_ids r =
     update_block_hashes block_hasher
       (r\<lparr>output_token_ids := output_token_ids r @ token_ids,
          all_token_ids := all_token_ids r @ token_ids\<rparr>)"

end
