(* ===== verification/Block_Pool.thy ===== *)
theory Block_Pool
  imports Free_Queue Request_Hash "HOL-Library.AList"
begin

text \<open>
  \<open>BlockHashToBlockMap\<close> and \<open>BlockPool\<close> of \<^verbatim>\<open>vllm/v1/core/block_pool.py\<close>: the pool owns
  the heap of blocks, the free queue threaded through it and the index from hash keys to cached
  blocks.  Its invariant ties the three together: a block is free exactly when nobody holds it, and
  it is indexed exactly under the hash it carries.
\<close>

section \<open>The index from hash keys to blocks\<close>

text \<open>
  A key maps to one block or to a dictionary from block ids to blocks, which keeps its insertion
  order.
\<close>

datatype cached_blocks = OneBlock bref | ManyBlocks "(int \<times> bref) list"

type_synonym block_map = "block_hash_with_group_id \<rightharpoonup> cached_blocks"

definition BlockHashToBlockMap :: block_map where
  "BlockHashToBlockMap = Map.empty"

definition get_one_block :: "block_hash_with_group_id \<Rightarrow> block_map \<Rightarrow> bref option res" where
  "get_one_block key c =
     (case c key of
        None \<Rightarrow> Inr None
      | Some (OneBlock b) \<Rightarrow> Inr (Some b)
      | Some (ManyBlocks []) \<Rightarrow> Inl StopIteration
      | Some (ManyBlocks ((_, b) # _)) \<Rightarrow> Inr (Some b))"

text \<open>The functions read the ids of the blocks through \<open>ids\<close>.\<close>

definition map_insert ::
    "(bref \<Rightarrow> int) \<Rightarrow> block_hash_with_group_id \<Rightarrow> bref \<Rightarrow> block_map \<Rightarrow> block_map" where
  "map_insert ids key block c =
     (case c key of
        None \<Rightarrow> c(key \<mapsto> OneBlock block)
      | Some (OneBlock b) \<Rightarrow>
          c(key \<mapsto> ManyBlocks (AList.update (ids block) block [(ids b, b)]))
      | Some (ManyBlocks d) \<Rightarrow> c(key \<mapsto> ManyBlocks (AList.update (ids block) block d)))"

definition map_pop ::
    "(bref \<Rightarrow> int) \<Rightarrow> block_hash_with_group_id \<Rightarrow> int \<Rightarrow> block_map \<Rightarrow> bref option \<times> block_map" where
  "map_pop ids key i c =
     (case c key of
        None \<Rightarrow> (None, c)
      | Some (OneBlock b) \<Rightarrow> if ids b = i then (Some b, c(key := None)) else (None, c)
      | Some (ManyBlocks d) \<Rightarrow>
          let d' = AList.delete i d
          in (map_of d i, if d' = [] then c(key := None) else c(key \<mapsto> ManyBlocks d')))"

section \<open>The pool\<close>

datatype kv_event =
    BlockStored "external_block_hash list" "external_block_hash option" "int list" int
      "int option" "string option"
  | BlockRemoved "external_block_hash list"
  | AllBlocksCleared

text \<open>
  The calls to the optional metrics collector, which nothing in the pool reads back, are recorded
  in order; \<open>KVCacheMetricsCollector\<close> consumes them.
\<close>

datatype metric_call = OnAllocated int | OnAccessed int | OnEvicted int | ResetMetrics

record block_pool =
  num_gpu_blocks :: int
  enable_caching :: bool
  hash_block_size :: int
  free_block_queue :: free_queue
  cached_block_hash_to_block :: block_map
  null_block :: bref
  enable_kv_cache_events :: bool
  use_int_block_hashes :: bool
  kv_event_queue :: "kv_event list"
  metrics_calls :: "metric_call list option"

definition pool_heap :: "block_pool \<Rightarrow> heap" where
  "pool_heap p = heap_of (free_block_queue p)"

definition upd_pool :: "(heap \<Rightarrow> heap) \<Rightarrow> block_pool \<Rightarrow> block_pool" where
  "upd_pool f p = p\<lparr>free_block_queue :=
     (free_block_queue p)\<lparr>heap_of := f (heap_of (free_block_queue p))\<rparr>\<rparr>"

definition pool_ids :: "block_pool \<Rightarrow> bref \<Rightarrow> int" where
  "pool_ids p b = block_id (pool_heap p b)"

definition pool_blocks :: "block_pool \<Rightarrow> bref list" where
  "pool_blocks p = map Blk [0..<nat (num_gpu_blocks p)]"

definition on_metrics :: "metric_call \<Rightarrow> block_pool \<Rightarrow> block_pool" where
  "on_metrics c p = p\<lparr>metrics_calls := map_option (\<lambda>cs. cs @ [c]) (metrics_calls p)\<rparr>"

definition emit_event :: "kv_event \<Rightarrow> block_pool \<Rightarrow> block_pool" where
  "emit_event e p = p\<lparr>kv_event_queue := kv_event_queue p @ [e]\<rparr>"

definition BlockPool ::
    "int \<Rightarrow> bool \<Rightarrow> int \<Rightarrow> bool \<Rightarrow> bool \<Rightarrow> bool \<Rightarrow> block_pool res" where
  "BlockPool num_blocks caching hash_bs events int_hashes metrics =
     rbind (py_assert (num_blocks > 0)) (\<lambda>_.
     let q = FreeKVCacheBlockQueue (map Blk [0..<nat num_blocks]) initial_heap in
     rbind (popleft q) (\<lambda>(nb, q').
     Inr (upd_pool (upd_block nb (\<lambda>blk. blk\<lparr>is_null := True\<rparr>))
       \<lparr>num_gpu_blocks = num_blocks, enable_caching = caching, hash_block_size = hash_bs,
        free_block_queue = q', cached_block_hash_to_block = BlockHashToBlockMap,
        null_block = nb, enable_kv_cache_events = events, use_int_block_hashes = int_hashes,
        kv_event_queue = [], metrics_calls = (if metrics then Some [] else None)\<rparr>)))"

fun get_cached_loop :: "block_map \<Rightarrow> block_hash \<Rightarrow> int list \<Rightarrow> bref list \<Rightarrow> bref list option res" where
  "get_cached_loop c bh [] cached_blocks = Inr (Some cached_blocks)"
| "get_cached_loop c bh (group_id # gs) cached_blocks =
     rbind (make_block_hash_with_group_id bh group_id) (\<lambda>key.
     rbind (get_one_block key c) (\<lambda>block.
     case block of
       None \<Rightarrow> Inr None
     | Some b \<Rightarrow> get_cached_loop c bh gs (cached_blocks @ [b])))"

definition get_cached_block :: "block_hash \<Rightarrow> int list \<Rightarrow> block_pool \<Rightarrow> bref list option res" where
  "get_cached_block bh kv_cache_group_ids p =
     get_cached_loop (cached_block_hash_to_block p) bh kv_cache_group_ids []"

definition convert_hash :: "block_pool \<Rightarrow> block_hash \<Rightarrow> external_block_hash" where
  "convert_hash p = maybe_convert_block_hash (use_int_block_hashes p)"

text \<open>One iteration of the loop of \<open>cache_full_blocks\<close>, on block \<open>blk\<close> with hash index \<open>i\<close>.\<close>

definition cache_one_block ::
    "block_hash list \<Rightarrow> int \<Rightarrow> int \<times> bref \<Rightarrow> block_pool \<times> external_block_hash list \<Rightarrow>
     (block_pool \<times> external_block_hash list) res" where
  "cache_one_block new_block_hashes kv_cache_group_id = (\<lambda>(i, blk) (p, new_hashes).
     if is_null (pool_heap p blk) then Inr (p, new_hashes)
     else rbind (py_assert (block_hash (pool_heap p blk) = None)) (\<lambda>_.
       rbind (py_get new_block_hashes i) (\<lambda>bh.
       rbind (make_block_hash_with_group_id bh kv_cache_group_id) (\<lambda>key.
       rbind (set_block_hash blk key (pool_heap p)) (\<lambda>h.
       let p1 = upd_pool (\<lambda>_. h) p;
           p2 = p1\<lparr>cached_block_hash_to_block :=
                 map_insert (pool_ids p1) key blk (cached_block_hash_to_block p1)\<rparr>
       in Inr (p2, if enable_kv_cache_events p then new_hashes @ [convert_hash p bh]
                   else new_hashes))))))"

definition cache_full_blocks ::
    "request \<Rightarrow> bref list \<Rightarrow> int \<Rightarrow> int \<Rightarrow> int \<Rightarrow> int \<Rightarrow> block_pool \<Rightarrow> block_pool res" where
  "cache_full_blocks r blocks num_cached_blocks num_full_blocks block_size kv_cache_group_id p =
     (if num_cached_blocks \<ge> num_full_blocks then Inr p
      else
        let new_full_blocks = py_slice blocks num_cached_blocks num_full_blocks in
        rbind (py_assert (py_len (block_hashes r) \<ge> num_full_blocks)) (\<lambda>_.
        rbind (if block_size = hash_block_size p then Inr (Plain (block_hashes r))
               else rbind (py_assert (block_size mod hash_block_size p = 0)) (\<lambda>_.
                 block_hash_list_with_block_size (block_hashes r) (hash_block_size p) block_size))
          (\<lambda>bhl.
        rbind (bhl_from bhl num_cached_blocks) (\<lambda>new_block_hashes.
        rbind (rfold (cache_one_block new_block_hashes kv_cache_group_id)
                 (zip [0..py_len new_full_blocks - 1] new_full_blocks) (p, []))
          (\<lambda>(p', new_hashes).
        if \<not> enable_kv_cache_events p then Inr p'
        else
          rbind (if num_cached_blocks = 0 then Inr None
                 else rbind (bhl_get bhl (num_cached_blocks - 1))
                        (\<lambda>bh. Inr (Some (convert_hash p bh))))
            (\<lambda>parent_block_hash.
          Inr (emit_event (BlockStored new_hashes parent_block_hash
                 (py_slice (all_token_ids r) (num_cached_blocks * block_size)
                    (num_full_blocks * block_size))
                 block_size (map_option adapter_id (lora_request_of r))
                 (map_option lora_name (lora_request_of r))) p')))))))"

definition get_num_free_blocks :: "block_pool \<Rightarrow> int" where
  "get_num_free_blocks p = num_free_blocks (free_block_queue p)"

definition maybe_evict_cached_block :: "bref \<Rightarrow> block_pool \<Rightarrow> bool \<times> block_pool" where
  "maybe_evict_cached_block block p0 =
     (let p = on_metrics (OnEvicted (pool_ids p0 block)) p0 in
      case block_hash (pool_heap p block) of
        None \<Rightarrow> (False, p)
      | Some key \<Rightarrow>
          (case map_pop (pool_ids p) key (pool_ids p block) (cached_block_hash_to_block p) of
             (None, c) \<Rightarrow> (False, p\<lparr>cached_block_hash_to_block := c\<rparr>)
           | (Some _, c) \<Rightarrow>
               let p1 = upd_pool (reset_hash block) (p\<lparr>cached_block_hash_to_block := c\<rparr>)
               in (True, if enable_kv_cache_events p
                         then emit_event (BlockRemoved [convert_hash p (get_block_hash key)]) p1
                         else p1)))"

definition incr_ref :: "bref \<Rightarrow> block_pool \<Rightarrow> block_pool" where
  "incr_ref b = upd_pool (upd_block b (\<lambda>blk. blk\<lparr>ref_cnt := ref_cnt blk + 1\<rparr>))"

definition decr_ref :: "bref \<Rightarrow> block_pool \<Rightarrow> block_pool" where
  "decr_ref b = upd_pool (upd_block b (\<lambda>blk. blk\<lparr>ref_cnt := ref_cnt blk - 1\<rparr>))"

text \<open>The body of the two loops of \<open>get_new_blocks\<close>; only the caching one evicts.\<close>

definition hand_out :: "bref \<Rightarrow> block_pool \<Rightarrow> block_pool res" where
  "hand_out block p =
     (let p1 = (if enable_caching p then snd (maybe_evict_cached_block block p) else p)
      in rbind (py_assert (ref_cnt (pool_heap p1 block) = 0)) (\<lambda>_.
         Inr (on_metrics (OnAllocated (pool_ids p1 block)) (incr_ref block p1))))"

definition get_new_blocks :: "int \<Rightarrow> block_pool \<Rightarrow> (bref list \<times> block_pool) res" where
  "get_new_blocks num_blocks p =
     (if num_blocks > get_num_free_blocks p then Inl ValueError
      else rbind (popleft_n num_blocks (free_block_queue p)) (\<lambda>(ret, q).
        rbind (rfold hand_out ret (p\<lparr>free_block_queue := q\<rparr>)) (\<lambda>p'. Inr (ret, p'))))"

definition touch_one :: "bref \<Rightarrow> block_pool \<Rightarrow> block_pool res" where
  "touch_one block p =
     rbind (if ref_cnt (pool_heap p block) = 0 \<and> \<not> is_null (pool_heap p block)
            then rbind (remove block (free_block_queue p))
                   (\<lambda>q. Inr (p\<lparr>free_block_queue := q\<rparr>))
            else Inr p)
       (\<lambda>p1. Inr (on_metrics (OnAccessed (pool_ids p1 block)) (incr_ref block p1)))"

definition touch :: "bref list \<Rightarrow> block_pool \<Rightarrow> block_pool res" where
  "touch blocks p = rfold touch_one blocks p"

definition free_blocks :: "bref list \<Rightarrow> block_pool \<Rightarrow> block_pool res" where
  "free_blocks ordered_blocks p =
     (let p1 = fold decr_ref ordered_blocks p;
          to_free = filter (\<lambda>b. ref_cnt (pool_heap p1 b) = 0 \<and> \<not> is_null (pool_heap p1 b))
                      ordered_blocks
      in rbind (append_n to_free (free_block_queue p1))
           (\<lambda>q. Inr (p1\<lparr>free_block_queue := q\<rparr>)))"

text \<open>\<open>block_ids\<close> is a set in the code; the list is one order of its iteration.\<close>

definition evict_one :: "int \<Rightarrow> block_pool \<Rightarrow> block_pool res" where
  "evict_one bid p =
     rbind (py_assert (bid < py_len (pool_blocks p))) (\<lambda>_.
     rbind (py_get (pool_blocks p) bid) (\<lambda>block.
     Inr (snd (maybe_evict_cached_block block p))))"

definition evict_blocks :: "int list \<Rightarrow> block_pool \<Rightarrow> block_pool res" where
  "evict_blocks block_ids p = rfold evict_one block_ids p"

definition reset_prefix_cache :: "block_pool \<Rightarrow> bool \<times> block_pool" where
  "reset_prefix_cache p =
     (let num_used_blocks = num_gpu_blocks p - get_num_free_blocks p in
      if num_used_blocks \<noteq> 1 then (False, p)
      else
        let p1 = p\<lparr>cached_block_hash_to_block := BlockHashToBlockMap\<rparr>;
            p2 = upd_pool (fold reset_hash (pool_blocks p1)) p1;
            p3 = on_metrics ResetMetrics p2
        in (True, if enable_kv_cache_events p then emit_event AllBlocksCleared p3 else p3))"

definition get_usage :: "block_pool \<Rightarrow> rat" where
  "get_usage p =
     (let total_gpu_blocks = num_gpu_blocks p - 1 in
      if total_gpu_blocks = 0 then 0
      else 1 - of_int (get_num_free_blocks p) / of_int total_gpu_blocks)"

definition take_events :: "block_pool \<Rightarrow> kv_event list \<times> block_pool" where
  "take_events p =
     (if \<not> enable_kv_cache_events p then ([], p)
      else (kv_event_queue p, p\<lparr>kv_event_queue := []\<rparr>))"

section \<open>What the index stands for\<close>

definition entry_blocks :: "cached_blocks option \<Rightarrow> bref set" where
  "entry_blocks e = (case e of
     None \<Rightarrow> {} | Some (OneBlock b) \<Rightarrow> {b} | Some (ManyBlocks d) \<Rightarrow> snd ` set d)"

text \<open>The set of the blocks under a key, and the well-formedness every operation keeps.\<close>

definition blocks_under :: "block_map \<Rightarrow> block_hash_with_group_id \<Rightarrow> bref set" where
  "blocks_under c key = entry_blocks (c key)"

definition dict_ok :: "(bref \<Rightarrow> int) \<Rightarrow> (int \<times> bref) list \<Rightarrow> bool" where
  "dict_ok ids d \<longleftrightarrow> distinct (map fst d) \<and> (\<forall>(i, b) \<in> set d. i = ids b)"

definition map_wf :: "(bref \<Rightarrow> int) \<Rightarrow> block_map \<Rightarrow> bool" where
  "map_wf ids c \<longleftrightarrow> (\<forall>key d. c key = Some (ManyBlocks d) \<longrightarrow>
     d \<noteq> [] \<and> dict_ok ids d)"

text \<open>\<open>block_id\<close> is set at construction and never again.\<close>

definition bid :: "bref \<Rightarrow> int" where
  "bid b = (case b of Blk i \<Rightarrow> int i | _ \<Rightarrow> -1)"

lemma bid_inj: "is_real b \<Longrightarrow> bid b = bid b' \<Longrightarrow> b = b'"
  by (auto simp: bid_def is_real_def split: bref.splits)

lemma snd_update:
  "dict_ok bid d \<Longrightarrow> is_real x \<Longrightarrow> snd ` set (AList.update (bid x) x d) = insert x (snd ` set d)"
proof (induction d)
  case Nil
  then show ?case by simp
next
  case (Cons p d)
  obtain i b where p: "p = (i, b)" by (cases p)
  show ?case
  proof (cases "i = bid x")
    case True
    with Cons.prems p have "x = b" by (auto simp: dict_ok_def dest: bid_inj)
    with True p show ?thesis by auto
  next
    case False
    with Cons p show ?thesis by (auto simp: dict_ok_def)
  qed
qed

lemma set_update_ids:
  "(i, b) \<in> set (AList.update (bid x) x d) \<Longrightarrow> (i, b) = (bid x, x) \<or> (i, b) \<in> set d"
  by (induction d) (auto split: if_splits)

lemma dict_ok_update: "dict_ok bid d \<Longrightarrow> dict_ok bid (AList.update (bid x) x d)"
  using set_update_ids unfolding dict_ok_def by (auto intro: AList.distinct_update) fastforce

lemma dict_ok_delete: "dict_ok ids d \<Longrightarrow> dict_ok ids (AList.delete k d)"
  unfolding dict_ok_def
  by (intro conjI AList.distinct_delete) (auto simp: AList.delete_eq)

lemma map_of_ids:
  assumes "dict_ok bid d" and "is_real x"
  shows "map_of d (bid x) = (if x \<in> snd ` set d then Some x else None)"
proof -
  have iff: "map_of d (bid x) = Some b \<longleftrightarrow> (bid x, b) \<in> set d" for b
    using assms(1) unfolding dict_ok_def by (intro map_of_eq_Some_iff) simp
  have "(bid x, b) \<in> set d \<Longrightarrow> b = x" for b
    using assms by (auto simp: dict_ok_def dest: bid_inj)
  moreover have "x \<in> snd ` set d \<Longrightarrow> (bid x, x) \<in> set d"
    using assms(1) by (force simp: dict_ok_def)
  ultimately show ?thesis using iff
    by (metis image_eqI option.exhaust snd_conv)
qed

lemma snd_delete:
  assumes "dict_ok bid d" and "is_real x"
  shows "snd ` set (AList.delete (bid x) d) = snd ` set d - {x}"
  using assms
proof (induction d)
  case Nil
  then show ?case by simp
next
  case (Cons p d)
  obtain i b where p: "p = (i, b)" by (cases p)
  from Cons.prems p have "i = bid b" "dict_ok bid d" by (auto simp: dict_ok_def)
  moreover have "b \<noteq> x \<Longrightarrow> bid b \<noteq> bid x" using Cons.prems(2) by (metis bid_inj)
  ultimately show ?case using Cons p by auto
qed

text \<open>The interface of the index that the pool relies on.\<close>

locale block_index =
  fixes get_one :: "'k \<Rightarrow> 'c \<Rightarrow> 'b option res"
    and ins :: "'k \<Rightarrow> 'b \<Rightarrow> 'c \<Rightarrow> 'c"
    and del :: "'k \<Rightarrow> 'b \<Rightarrow> 'c \<Rightarrow> 'b option \<times> 'c"
    and under :: "'c \<Rightarrow> 'k \<Rightarrow> 'b set"
    and wf :: "'c \<Rightarrow> bool"
    and valid :: "'b \<Rightarrow> bool"
  assumes get_one_law: "wf c \<Longrightarrow>
      (under c k = {} \<and> get_one k c = Inr None) \<or> (\<exists>b \<in> under c k. get_one k c = Inr (Some b))"
    and ins_law: "wf c \<Longrightarrow> valid b \<Longrightarrow>
      wf (ins k b c) \<and> under (ins k b c) = (under c)(k := insert b (under c k))"
    and del_law: "wf c \<Longrightarrow> valid b \<Longrightarrow>
      wf (snd (del k b c)) \<and> under (snd (del k b c)) = (under c)(k := under c k - {b}) \<and>
      fst (del k b c) = (if b \<in> under c k then Some b else None)"
begin

lemma get_one_hit: "wf c \<Longrightarrow> get_one k c = Inr (Some b) \<Longrightarrow> b \<in> under c k"
  using get_one_law [of c k] by auto

lemma get_one_miss: "wf c \<Longrightarrow> get_one k c = Inr None \<longleftrightarrow> under c k = {}"
  using get_one_law [of c k] by auto

text \<open>An inserted block is found until it is deleted, and a deleted block is not found.\<close>

lemma found_after_ins: "wf c \<Longrightarrow> valid b \<Longrightarrow> \<exists>b'. get_one k (ins k b c) = Inr (Some b')"
  using get_one_law [of "ins k b c" k] ins_law [of c b k] by auto

lemma not_found_after_del:
  assumes "wf c" and "valid b"
  shows "get_one k (snd (del k b c)) \<noteq> Inr (Some b)"
proof
  assume "get_one k (snd (del k b c)) = Inr (Some b)"
  with del_law [OF assms] have "b \<in> under (snd (del k b c)) k" by (blast intro: get_one_hit)
  then show False using del_law [OF assms, of k] by simp
qed

lemma ins_del: "wf c \<Longrightarrow> valid b \<Longrightarrow> b \<notin> under c k \<Longrightarrow> under (snd (del k b (ins k b c))) = under c"
  using ins_law [of c b k] del_law [of "ins k b c" b k] by auto

end

lemma dict_ok_single: "dict_ok ids [(ids b, b)]"
  by (simp add: dict_ok_def)

lemma map_insert_wf: "map_wf bid c \<Longrightarrow> is_real b \<Longrightarrow> map_wf bid (map_insert bid key b c)"
  unfolding map_wf_def map_insert_def
  using dict_ok_update [OF dict_ok_single [of bid]] dict_ok_update
  by (auto simp del: AList.update.simps split: option.splits cached_blocks.splits if_splits)

lemma map_insert_under:
  assumes "map_wf bid c" and "is_real b"
  shows "blocks_under (map_insert bid key b c) =
    (blocks_under c)(key := insert b (blocks_under c key))"
proof -
  have "snd ` set (AList.update (bid b) b [(bid x, x)]) = {b, x}" for x
    using snd_update [OF dict_ok_single assms(2), of x] by simp
  moreover have "snd ` set (AList.update (bid b) b d) = insert b (snd ` set d)"
    if "c key = Some (ManyBlocks d)" for d
    using that assms by (intro snd_update) (auto simp: map_wf_def)
  ultimately show ?thesis
    by (auto simp: fun_eq_iff map_insert_def blocks_under_def entry_blocks_def
        split: option.splits cached_blocks.splits)
qed

lemma map_pop_law:
  assumes "map_wf bid c" and "is_real b"
  shows "map_wf bid (snd (map_pop bid key (bid b) c))"
    and "blocks_under (snd (map_pop bid key (bid b) c)) =
      (blocks_under c)(key := blocks_under c key - {b})"
    and "fst (map_pop bid key (bid b) c) = (if b \<in> blocks_under c key then Some b else None)"
proof -
  have many: "c key = Some (ManyBlocks d) \<Longrightarrow> dict_ok bid (AList.delete (bid b) d)" for d
    using assms(1) by (auto simp: map_wf_def intro: dict_ok_delete)
  show "map_wf bid (snd (map_pop bid key (bid b) c))"
    using assms(1) many
    by (auto simp: map_wf_def map_pop_def Let_def split: option.splits cached_blocks.splits if_splits)
  have d: "snd ` set (AList.delete (bid b) d) = snd ` set d - {b}"
    "map_of d (bid b) = (if b \<in> snd ` set d then Some b else None)"
    if "c key = Some (ManyBlocks d)" for d
  proof -
    have ok: "dict_ok bid d" using that assms(1) by (auto simp: map_wf_def)
    show "snd ` set (AList.delete (bid b) d) = snd ` set d - {b}" using ok assms(2) by (rule snd_delete)
    show "map_of d (bid b) = (if b \<in> snd ` set d then Some b else None)"
      using ok assms(2) by (rule map_of_ids)
  qed
  have e: "AList.delete (bid b) d = [] \<Longrightarrow> c key = Some (ManyBlocks d) \<Longrightarrow> snd ` set d - {b} = {}" for d
    using d(1) [of d] by simp
  show "blocks_under (snd (map_pop bid key (bid b) c)) =
      (blocks_under c)(key := blocks_under c key - {b})"
    using assms(2) d(1) e
    by (auto simp: fun_eq_iff map_pop_def blocks_under_def entry_blocks_def Let_def
        dest: bid_inj [OF assms(2) sym] split: option.splits cached_blocks.splits)
  show "fst (map_pop bid key (bid b) c) = (if b \<in> blocks_under c key then Some b else None)"
    using assms(2) d(2)
    by (auto simp: map_pop_def blocks_under_def entry_blocks_def Let_def
        dest: bid_inj [OF assms(2) sym] split: option.splits cached_blocks.splits)
qed

lemma get_one_block_law:
  assumes "map_wf ids c"
  shows "(blocks_under c k = {} \<and> get_one_block k c = Inr None) \<or>
    (\<exists>b \<in> blocks_under c k. get_one_block k c = Inr (Some b))"
  using assms
  by (auto simp: map_wf_def get_one_block_def blocks_under_def entry_blocks_def
      split: option.splits cached_blocks.splits list.splits)

interpretation idx: block_index get_one_block "map_insert bid"
    "\<lambda>key b c. map_pop bid key (bid b) c" blocks_under "map_wf bid" is_real
  by unfold_locales (use get_one_block_law map_insert_wf map_insert_under map_pop_law in auto)

end
