(* ===== verification/Pool_Inv.thy ===== *)
theory Pool_Inv
  imports Block_Pool
begin

text \<open>
  The invariant of the block pool and one preservation lemma per operation.  \<open>free\<close> is the list
  the free queue stands for; \<open>pend\<close> are blocks an operation has taken off the queue and not yet
  handed out, empty between operations.
\<close>

definition refs :: "block_pool \<Rightarrow> bref \<Rightarrow> int" where
  "refs p b = ref_cnt (pool_heap p b)"

definition hash_of :: "block_pool \<Rightarrow> bref \<Rightarrow> block_hash_with_group_id option" where
  "hash_of p b = block_hash (pool_heap p b)"

definition pool_conf :: "block_pool \<Rightarrow> int \<times> bool \<times> int \<times> bref \<times> bool \<times> bool" where
  "pool_conf p = (num_gpu_blocks p, enable_caching p, hash_block_size p, null_block p,
     enable_kv_cache_events p, use_int_block_hashes p)"

definition usable :: "block_pool \<Rightarrow> bref set" where
  "usable p = set (pool_blocks p) - {null_block p}"

definition pool_inv :: "block_pool \<Rightarrow> bref list \<Rightarrow> bref set \<Rightarrow> bool" where
  "pool_inv p free pend \<longleftrightarrow>
     queue_inv (free_block_queue p) free \<and>
     0 < num_gpu_blocks p \<and> null_block p = Blk 0 \<and>
     (\<forall>b. block_id (pool_heap p b) = bid b) \<and>
     (\<forall>b. is_null (pool_heap p b) \<longleftrightarrow> b = null_block p) \<and>
     (\<forall>b \<in> usable p. 0 \<le> refs p b) \<and>
     set free \<inter> pend = {} \<and> set free \<union> pend = {b \<in> usable p. refs p b = 0} \<and>
     hash_of p (null_block p) = None \<and>
     map_wf bid (cached_block_hash_to_block p) \<and>
     (\<forall>k. blocks_under (cached_block_hash_to_block p) k = {b \<in> usable p. hash_of p b = Some k})"

named_theorems pool_simps \<open>reading the pool after an update\<close>

lemma usable_conf: "pool_conf p' = pool_conf p \<Longrightarrow> usable p' = usable p"
  by (simp add: pool_conf_def usable_def pool_blocks_def)

lemma in_pool: "b \<in> set (pool_blocks p) \<longleftrightarrow> (\<exists>i. b = Blk i \<and> int i < num_gpu_blocks p)"
  unfolding pool_blocks_def using zless_nat_eq_int_zless by auto

lemma usable_real: "b \<in> usable p \<Longrightarrow> is_real b"
  by (auto simp: usable_def in_pool is_real_def)

lemma pool_ids_inv: "pool_inv p free pend \<Longrightarrow> pool_ids p b = bid b"
  by (simp add: pool_inv_def pool_ids_def)

lemma pool_ids_fun: "pool_inv p free pend \<Longrightarrow> pool_ids p = bid"
  by (simp add: fun_eq_iff pool_ids_inv)

lemma pool_inv_free_usable: "pool_inv p free pend \<Longrightarrow> set free \<subseteq> usable p"
  by (auto simp: pool_inv_def)

lemma pool_inv_null: "pool_inv p free pend \<Longrightarrow> is_null (pool_heap p b) \<longleftrightarrow> b = null_block p"
  by (simp add: pool_inv_def)

lemma pool_inv_null_notin: "null_block p \<notin> usable p"
  by (simp add: usable_def)

lemma metrics_simps [pool_simps]:
  "pool_heap (on_metrics c p) = pool_heap p" "pool_conf (on_metrics c p) = pool_conf p"
  "free_block_queue (on_metrics c p) = free_block_queue p"
  "cached_block_hash_to_block (on_metrics c p) = cached_block_hash_to_block p"
  "pool_heap (emit_event e p) = pool_heap p" "pool_conf (emit_event e p) = pool_conf p"
  "free_block_queue (emit_event e p) = free_block_queue p"
  "cached_block_hash_to_block (emit_event e p) = cached_block_hash_to_block p"
  by (simp_all add: on_metrics_def emit_event_def pool_heap_def pool_conf_def)

lemma heap_upd_simps [pool_simps]:
  "pool_heap (upd_pool f p) = f (pool_heap p)" "pool_conf (upd_pool f p) = pool_conf p"
  "cached_block_hash_to_block (upd_pool f p) = cached_block_hash_to_block p"
  "pool_heap (p\<lparr>cached_block_hash_to_block := c\<rparr>) = pool_heap p"
  "pool_conf (p\<lparr>cached_block_hash_to_block := c\<rparr>) = pool_conf p"
  "pool_conf (p\<lparr>free_block_queue := q\<rparr>) = pool_conf p"
  "pool_heap (p\<lparr>free_block_queue := q\<rparr>) = heap_of q"
  by (simp_all add: upd_pool_def pool_heap_def pool_conf_def)

lemma confD:
  "pool_conf p' = pool_conf p \<Longrightarrow> null_block p' = null_block p"
  "pool_conf p' = pool_conf p \<Longrightarrow> num_gpu_blocks p' = num_gpu_blocks p"
  "pool_conf p' = pool_conf p \<Longrightarrow> enable_caching p' = enable_caching p"
  "pool_conf p' = pool_conf p \<Longrightarrow> hash_block_size p' = hash_block_size p"
  by (simp_all add: pool_conf_def)

text \<open>
  A change that keeps the links, the ids and the null flags keeps the invariant when the counts,
  the hashes and the index change consistently.
\<close>

lemma pool_inv_frame:
  assumes "pool_inv p free pend"
    and "queue_inv (free_block_queue p') free'"
    and "pool_conf p' = pool_conf p"
    and "\<And>b. block_id (pool_heap p' b) = block_id (pool_heap p b)"
    and "\<And>b. is_null (pool_heap p' b) = is_null (pool_heap p b)"
    and "\<And>b. b \<in> usable p \<Longrightarrow> 0 \<le> refs p' b"
    and "set free' \<inter> pend' = {}" and "set free' \<union> pend' = {b \<in> usable p. refs p' b = 0}"
    and "hash_of p' (null_block p) = None"
    and "map_wf bid (cached_block_hash_to_block p')"
    and "\<And>k. blocks_under (cached_block_hash_to_block p') k =
      {b \<in> usable p. hash_of p' b = Some k}"
  shows "pool_inv p' free' pend'"
  using assms confD [OF assms(3)] usable_conf [OF assms(3)] unfolding pool_inv_def by simp

lemma queue_inv_upd_pool:
  assumes "queue_inv (free_block_queue p) free"
    and "\<And>b. next_free_block (f (pool_heap p) b) = next_free_block (pool_heap p b)"
    and "\<And>b. prev_free_block (f (pool_heap p) b) = prev_free_block (pool_heap p b)"
  shows "queue_inv (free_block_queue (upd_pool f p)) free"
  by (rule queue_inv_payload [OF assms(1)]) (use assms in \<open>simp_all add: upd_pool_def pool_heap_def\<close>)

section \<open>Eviction\<close>

lemma payload_eq:
  "payload x = payload y \<longleftrightarrow> block_id x = block_id y \<and> ref_cnt x = ref_cnt y \<and>
     block_hash x = block_hash y \<and> is_null x = is_null y"
  by (simp add: payload_def)

lemma maybe_evict_inv:
  assumes inv: "pool_inv p free pend" and b: "b \<in> usable p"
    and r: "maybe_evict_cached_block b p = (evicted, p')"
  shows "pool_inv p' free pend" and "pool_conf p' = pool_conf p" and "refs p' = refs p"
    and "hash_of p' = (hash_of p)(b := None)" and "evicted \<longleftrightarrow> hash_of p b \<noteq> None"
proof -
  let ?p = "on_metrics (OnEvicted (pool_ids p b)) p"
  have real: "is_real b" using b by (rule usable_real)
  have wf: "map_wf bid (cached_block_hash_to_block p)" using inv by (simp add: pool_inv_def)
  have ids: "pool_ids ?p b = bid b" "pool_ids ?p = bid"
    using pool_ids_inv [OF inv] by (simp_all add: pool_ids_def pool_simps fun_eq_iff)
  have q: "queue_inv (free_block_queue p) free" using inv by (simp add: pool_inv_def)
  have "pool_inv p' free pend \<and> pool_conf p' = pool_conf p \<and> refs p' = refs p \<and>
    hash_of p' = (hash_of p)(b := None) \<and> (evicted \<longleftrightarrow> hash_of p b \<noteq> None)"
  proof (cases "hash_of p b")
    case None
    then have "p' = ?p" "\<not> evicted"
      using r by (simp_all add: maybe_evict_cached_block_def Let_def pool_simps hash_of_def)
    moreover have "pool_inv ?p free pend"
      by (rule pool_inv_frame [OF inv])
        (use inv in \<open>auto simp: pool_simps pool_inv_def refs_def hash_of_def\<close>)
    ultimately show ?thesis using None
      by (auto simp: pool_simps fun_eq_iff refs_def hash_of_def)
  next
    case (Some key)
    obtain c where c: "c = snd (map_pop bid key (bid b) (cached_block_hash_to_block p))" by blast
    have under: "b \<in> blocks_under (cached_block_hash_to_block p) key"
      using inv b Some by (simp add: pool_inv_def)
    with idx.del_law [OF wf real, of key]
    have pop: "map_pop bid key (bid b) (cached_block_hash_to_block p) = (Some b, c)"
      and wfc: "map_wf bid c" and uc: "blocks_under c =
        (blocks_under (cached_block_hash_to_block p))
          (key := blocks_under (cached_block_hash_to_block p) key - {b})"
      unfolding c by (auto simp: prod_eq_iff)
    let ?p1 = "upd_pool (reset_hash b) (?p\<lparr>cached_block_hash_to_block := c\<rparr>)"
    have p': "p' = (if enable_kv_cache_events ?p
        then emit_event (BlockRemoved [convert_hash ?p (get_block_hash key)]) ?p1 else ?p1)" "evicted"
      using r Some pop
      by (simp_all add: maybe_evict_cached_block_def Let_def pool_simps hash_of_def ids split: if_splits)
    have same: "pool_heap p' = pool_heap ?p1" "pool_conf p' = pool_conf p"
      "free_block_queue p' = free_block_queue ?p1"
      "cached_block_hash_to_block p' = c"
      unfolding p' by (simp_all add: pool_simps)
    have rd: "refs p' = refs p" "hash_of p' = (hash_of p)(b := None)"
      by (simp_all add: same fun_eq_iff refs_def hash_of_def pool_simps reset_hash_def upd_block_def)
    have "pool_inv p' free pend"
    proof (rule pool_inv_frame [OF inv])
      show "queue_inv (free_block_queue p') free"
        unfolding same by (rule queue_inv_upd_pool)
          (use q in \<open>simp_all add: pool_simps reset_hash_def upd_block_def on_metrics_def\<close>)
      show "blocks_under (cached_block_hash_to_block p') k =
          {b \<in> usable p. hash_of p' b = Some k}" for k
        using inv b Some by (auto simp: same uc rd pool_inv_def)
    qed (use inv wfc in \<open>auto simp: same rd pool_simps reset_hash_def upd_block_def pool_inv_def\<close>)
    with same(2) rd p'(2) Some show ?thesis by simp
  qed
  then show "pool_inv p' free pend" and "pool_conf p' = pool_conf p" and "refs p' = refs p"
    and "hash_of p' = (hash_of p)(b := None)" and "evicted \<longleftrightarrow> hash_of p b \<noteq> None" by blast+
qed


section \<open>Allocation\<close>

lemma incr_ref_simps [pool_simps]:
  "pool_conf (incr_ref b p) = pool_conf p"
  "refs (incr_ref b p) = (refs p)(b := refs p b + 1)"
  "hash_of (incr_ref b p) = hash_of p"
  "pool_ids (incr_ref b p) = pool_ids p"
  "refs (decr_ref b p) = (refs p)(b := refs p b - 1)"
  "hash_of (decr_ref b p) = hash_of p" "pool_conf (decr_ref b p) = pool_conf p"
  by (simp_all add: incr_ref_def decr_ref_def fun_eq_iff refs_def hash_of_def pool_ids_def pool_simps
      upd_block_def)

lemma metrics_view [pool_simps]:
  "refs (on_metrics c p) = refs p" "hash_of (on_metrics c p) = hash_of p"
  "refs (emit_event e p) = refs p" "hash_of (emit_event e p) = hash_of p"
  by (simp_all add: fun_eq_iff refs_def hash_of_def pool_simps)

lemma pool_inv_metrics: "pool_inv (on_metrics c p) free pend = pool_inv p free pend"
  by (simp add: pool_inv_def pool_simps usable_conf [OF metrics_simps(2)]
      confD [OF metrics_simps(2)])

lemma pool_inv_event: "pool_inv (emit_event e p) free pend = pool_inv p free pend"
  by (simp add: pool_inv_def pool_simps usable_conf [OF metrics_simps(6)]
      confD [OF metrics_simps(6)])

lemma incr_ref_cache:
  "cached_block_hash_to_block (incr_ref b p) = cached_block_hash_to_block p"
  "cached_block_hash_to_block (decr_ref b p) = cached_block_hash_to_block p"
  by (simp_all add: incr_ref_def decr_ref_def pool_simps)

text \<open>Changing the count of a block that is not in the free queue.\<close>

lemma incr_ref_inv:
  assumes "pool_inv p free pend" and "b \<notin> set free"
  shows "pool_inv (incr_ref b p) free (pend - {b})"
proof (rule pool_inv_frame [OF assms(1)])
  show "queue_inv (free_block_queue (incr_ref b p)) free"
    unfolding incr_ref_def by (rule queue_inv_upd_pool)
      (use assms in \<open>simp_all add: upd_block_def pool_inv_def\<close>)
  show "set free \<union> (pend - {b}) = {x \<in> usable p. refs (incr_ref b p) x = 0}"
  proof -
    have z: "set free \<union> pend = {x \<in> usable p. refs p x = 0}" and "b \<in> usable p \<Longrightarrow> 0 \<le> refs p b"
      using assms(1) by (simp_all add: pool_inv_def)
    then have "b \<in> usable p \<Longrightarrow> refs p b + 1 \<noteq> 0" by linarith
    then have "{x \<in> usable p. refs (incr_ref b p) x = 0} = {x \<in> usable p. refs p x = 0} - {b}"
      by (auto simp: pool_simps split: if_splits)
    with z assms(2) show ?thesis by auto
  qed
  show "block_id (pool_heap (incr_ref b p) c) = block_id (pool_heap p c)"
    "is_null (pool_heap (incr_ref b p) c) = is_null (pool_heap p c)" for c
    by (simp_all add: incr_ref_def pool_simps upd_block_def)
  show "map_wf bid (cached_block_hash_to_block (incr_ref b p))"
    "blocks_under (cached_block_hash_to_block (incr_ref b p)) k =
      {b' \<in> usable p. hash_of (incr_ref b p) b' = Some k}" for k
    using assms(1) by (simp_all add: pool_simps pool_inv_def incr_ref_cache)
qed (use assms in \<open>auto simp: pool_simps pool_inv_def\<close>)

lemma hand_out_inv:
  assumes inv: "pool_inv p free pend" and b: "b \<in> pend"
  shows "\<exists>p'. hand_out b p = Inr p' \<and> pool_inv p' free (pend - {b}) \<and>
    pool_conf p' = pool_conf p \<and> refs p' = (refs p)(b := 1) \<and>
    hash_of p' = (if enable_caching p then (hash_of p)(b := None) else hash_of p)"
proof -
  have u: "b \<in> usable p" "refs p b = 0" "b \<notin> set free"
    using inv b by (auto simp: pool_inv_def)
  define p1 where "p1 = (if enable_caching p then snd (maybe_evict_cached_block b p) else p)"
  obtain e p2 where e: "maybe_evict_cached_block b p = (e, p2)" by fastforce
  have p1: "pool_inv p1 free pend" "pool_conf p1 = pool_conf p" "refs p1 = refs p"
    "hash_of p1 = (if enable_caching p then (hash_of p)(b := None) else hash_of p)"
    using maybe_evict_inv [OF inv u(1) e] inv e by (simp_all add: p1_def)
  have "ref_cnt (pool_heap p1 b) = 0" using p1(3) u(2) by (simp add: refs_def fun_eq_iff)
  then have "hand_out b p = Inr (on_metrics (OnAllocated (pool_ids p1 b)) (incr_ref b p1))"
    by (simp add: hand_out_def Let_def flip: p1_def)
  moreover have "pool_inv (incr_ref b p1) free (pend - {b})" by (rule incr_ref_inv [OF p1(1) u(3)])
  ultimately show ?thesis using p1(2-4) u(2) by (auto simp only: pool_inv_metrics pool_simps add_0)
qed

lemma hand_outs_inv:
  assumes "pool_inv p free (set bs)" and "distinct bs"
  shows "\<exists>p'. rfold hand_out bs p = Inr p' \<and> pool_inv p' free {} \<and> pool_conf p' = pool_conf p \<and>
    refs p' = (\<lambda>b. if b \<in> set bs then 1 else refs p b) \<and>
    hash_of p' = (\<lambda>b. if b \<in> set bs \<and> enable_caching p then None else hash_of p b)"
  using assms
proof (induction bs arbitrary: p)
  case Nil
  then show ?case by simp
next
  case (Cons b bs)
  obtain p1 where p1: "hand_out b p = Inr p1" "pool_inv p1 free (set (b # bs) - {b})"
    "pool_conf p1 = pool_conf p" "refs p1 = (refs p)(b := 1)"
    "hash_of p1 = (if enable_caching p then (hash_of p)(b := None) else hash_of p)"
    using hand_out_inv [OF Cons.prems(1), of b] by auto
  moreover have "set (b # bs) - {b} = set bs" using Cons.prems(2) by auto
  ultimately obtain p2 where "rfold hand_out bs p1 = Inr p2" "pool_inv p2 free {}"
    "pool_conf p2 = pool_conf p1" "refs p2 = (\<lambda>c. if c \<in> set bs then 1 else refs p1 c)"
    "hash_of p2 = (\<lambda>c. if c \<in> set bs \<and> enable_caching p1 then None else hash_of p1 c)"
    using Cons.IH [of p1] Cons.prems(2) by auto
  with p1 confD(3) [OF p1(3)] show ?case by (auto simp: fun_eq_iff)
qed

lemma refs_queue [pool_simps]:
  "queue_data q = queue_data (free_block_queue p) \<Longrightarrow> refs (p\<lparr>free_block_queue := q\<rparr>) = refs p"
  "queue_data q = queue_data (free_block_queue p) \<Longrightarrow> hash_of (p\<lparr>free_block_queue := q\<rparr>) = hash_of p"
  by (auto simp: queue_data_def fun_eq_iff refs_def hash_of_def pool_heap_def payload_eq)

text \<open>A change of the queue alone.\<close>

lemma pool_inv_queue:
  assumes "pool_inv p free pend" and "queue_inv q free'"
    and "queue_data q = queue_data (free_block_queue p)"
    and "set free' \<inter> pend' = {}" and "set free' \<union> pend' = set free \<union> pend"
  shows "pool_inv (p\<lparr>free_block_queue := q\<rparr>) free' pend'"
proof (rule pool_inv_frame [OF assms(1)])
  have "\<And>b. payload (heap_of q b) = payload (pool_heap p b)"
    using assms(3) by (simp add: queue_data_def fun_eq_iff pool_heap_def)
  then show "block_id (pool_heap (p\<lparr>free_block_queue := q\<rparr>) b) = block_id (pool_heap p b)"
    "is_null (pool_heap (p\<lparr>free_block_queue := q\<rparr>) b) = is_null (pool_heap p b)" for b
    by (simp_all add: pool_heap_def payload_eq)
qed (use assms in \<open>auto simp: pool_simps pool_inv_def\<close>)

lemma num_free_inv: "pool_inv p free pend \<Longrightarrow> get_num_free_blocks p = py_len free"
  by (auto simp: get_num_free_blocks_def pool_inv_def queue_inv_num)

lemma get_new_blocks_inv:
  assumes inv: "pool_inv p free {}" and n: "n \<le> length free"
  shows "\<exists>p'. get_new_blocks (int n) p = Inr (take n free, p') \<and> pool_inv p' (drop n free) {} \<and>
    pool_conf p' = pool_conf p \<and> refs p' = (\<lambda>b. if b \<in> set (take n free) then 1 else refs p b) \<and>
    hash_of p' = (\<lambda>b. if b \<in> set (take n free) \<and> enable_caching p then None else hash_of p b)"
proof -
  have q: "queue_inv (free_block_queue p) free" using inv by (simp add: pool_inv_def)
  then have d: "distinct free" by (rule queue_inv_distinct)
  obtain q' where q': "popleft_n (int n) (free_block_queue p) = Inr (take n free, q')"
    "queue_inv q' (drop n free)" "queue_data q' = queue_data (free_block_queue p)"
    using fq.pop_n_law [OF q n] by blast
  let ?p = "p\<lparr>free_block_queue := q'\<rparr>"
  have "pool_inv ?p (drop n free) (set (take n free))"
  proof (rule pool_inv_queue [OF inv q'(2,3)])
    show "set (drop n free) \<inter> set (take n free) = {}"
      using d set_take_disj_set_drop_if_distinct [of free n n] by auto
    show "set (drop n free) \<union> set (take n free) = set free \<union> {}"
      by (metis append_take_drop_id set_append sup_bot_right sup_commute)
  qed
  moreover have "refs ?p = refs p" "hash_of ?p = hash_of p" by (simp_all add: pool_simps q'(3))
  ultimately obtain p' where "rfold hand_out (take n free) ?p = Inr p'" "pool_inv p' (drop n free) {}"
    "pool_conf p' = pool_conf ?p" "refs p' = (\<lambda>b. if b \<in> set (take n free) then 1 else refs p b)"
    "hash_of p' = (\<lambda>b. if b \<in> set (take n free) \<and> enable_caching ?p then None else hash_of p b)"
    using hand_outs_inv [of ?p "drop n free" "take n free"] distinct_take [OF d]
    by (auto cong: if_cong)
  with q' n num_free_inv [OF inv] show ?thesis
    by (simp add: get_new_blocks_def py_len_def pool_simps)
qed

lemma get_new_blocks_too_many:
  "pool_inv p free pend \<Longrightarrow> n > py_len free \<Longrightarrow> get_new_blocks n p = Inl ValueError"
  by (simp add: get_new_blocks_def num_free_inv)

section \<open>Touching\<close>

lemma touch_one_inv:
  assumes inv: "pool_inv p free {}" and b: "b \<in> usable p \<or> b = null_block p"
  shows "\<exists>p'. touch_one b p = Inr p' \<and> pool_inv p' (remove1 b free) {} \<and>
    pool_conf p' = pool_conf p \<and> refs p' = (refs p)(b := refs p b + 1) \<and> hash_of p' = hash_of p"
proof -
  have q: "queue_inv (free_block_queue p) free" and d: "distinct free"
    using inv queue_inv_distinct by (auto simp: pool_inv_def)
  define p1r where "p1r = (if ref_cnt (pool_heap p b) = 0 \<and> \<not> is_null (pool_heap p b)
            then rbind (remove b (free_block_queue p)) (\<lambda>q. Inr (p\<lparr>free_block_queue := q\<rparr>))
            else Inr p)"
  have "\<exists>p1 pend. p1r = Inr p1 \<and> pool_inv p1 (remove1 b free) pend \<and> pend \<subseteq> {b} \<and>
    pool_conf p1 = pool_conf p \<and> refs p1 = refs p \<and> hash_of p1 = hash_of p"
  proof (cases "b \<in> set free")
    case True
    then have "ref_cnt (pool_heap p b) = 0" "\<not> is_null (pool_heap p b)"
      using inv by (auto simp: pool_inv_def refs_def usable_def)
    moreover obtain q' where q': "remove b (free_block_queue p) = Inr q'"
      "queue_inv q' (remove1 b free)" "queue_data q' = queue_data (free_block_queue p)"
      using fq.take_out_law [OF q True] by blast
    moreover have "pool_inv (p\<lparr>free_block_queue := q'\<rparr>) (remove1 b free) {b}"
      by (rule pool_inv_queue [OF inv q'(2,3)]) (use True d in auto)
    ultimately show ?thesis by (auto simp: p1r_def pool_simps)
  next
    case False
    then have "\<not> (ref_cnt (pool_heap p b) = 0 \<and> \<not> is_null (pool_heap p b))"
      using inv b by (auto simp: pool_inv_def refs_def)
    with False inv show ?thesis by (auto simp: p1r_def remove1_idem)
  qed
  then obtain p1 pend where p1: "p1r = Inr p1" "pool_inv p1 (remove1 b free) pend" "pend \<subseteq> {b}"
    "pool_conf p1 = pool_conf p" "refs p1 = refs p" "hash_of p1 = hash_of p"
    by blast
  have "pool_inv (incr_ref b p1) (remove1 b free) (pend - {b})"
    by (rule incr_ref_inv [OF p1(2)]) (use d in simp)
  moreover have "pend - {b} = {}" using p1(3) by auto
  moreover have "touch_one b p = Inr (on_metrics (OnAccessed (pool_ids p1 b)) (incr_ref b p1))"
    using p1(1) by (simp add: touch_one_def flip: p1r_def)
  ultimately show ?thesis using p1 by (simp add: pool_inv_metrics pool_simps)
qed

lemma touch_inv:
  assumes "pool_inv p free {}" and "\<forall>b \<in> set bs. b \<in> usable p \<or> b = null_block p"
  shows "\<exists>p'. touch bs p = Inr p' \<and> pool_inv p' (filter (\<lambda>b. b \<notin> set bs) free) {} \<and>
    pool_conf p' = pool_conf p \<and> refs p' = (\<lambda>b. refs p b + int (count_list bs b)) \<and>
    hash_of p' = hash_of p"
  using assms
proof (induction bs arbitrary: p free)
  case Nil
  then show ?case by (simp add: touch_def)
next
  case (Cons b bs)
  obtain p1 where p1: "touch_one b p = Inr p1" "pool_inv p1 (remove1 b free) {}"
    "pool_conf p1 = pool_conf p" "refs p1 = (refs p)(b := refs p b + 1)" "hash_of p1 = hash_of p"
    using touch_one_inv [OF Cons.prems(1), of b] Cons.prems(2) by auto
  have d: "distinct free" using Cons.prems(1) queue_inv_distinct by (auto simp: pool_inv_def)
  have "\<forall>b \<in> set bs. b \<in> usable p1 \<or> b = null_block p1"
    using Cons.prems(2) usable_conf [OF p1(3)] confD [OF p1(3)] by auto
  from Cons.IH [OF p1(2) this] obtain p2 where p2: "touch bs p1 = Inr p2"
    "pool_inv p2 (filter (\<lambda>b. b \<notin> set bs) (remove1 b free)) {}" "pool_conf p2 = pool_conf p1"
    "refs p2 = (\<lambda>c. refs p1 c + int (count_list bs c))" "hash_of p2 = hash_of p1"
    by blast
  have "filter (\<lambda>c. c \<notin> set bs) (remove1 b free) = filter (\<lambda>c. c \<notin> set (b # bs)) free"
    using d by (auto simp: distinct_remove1_removeAll removeAll_filter_not_eq intro: filter_cong)
  with p1 p2 show ?case by (auto simp: touch_def fun_eq_iff)
qed


section \<open>Freeing\<close>

text \<open>The non-null blocks of a list.\<close>

definition real_blocks :: "block_pool \<Rightarrow> bref list \<Rightarrow> bref list" where
  "real_blocks p bs = filter (\<lambda>b. b \<noteq> null_block p) bs"

lemma decr_ref_inv:
  assumes "pool_inv p free pend" and "b \<in> usable p \<and> 1 \<le> refs p b \<or> b = null_block p"
  shows "pool_inv (decr_ref b p) free (pend \<union> {x. x = b \<and> b \<in> usable p \<and> refs p b = 1})"
proof (rule pool_inv_frame [OF assms(1)])
  show "queue_inv (free_block_queue (decr_ref b p)) free"
    unfolding decr_ref_def by (rule queue_inv_upd_pool)
      (use assms in \<open>simp_all add: upd_block_def pool_inv_def\<close>)
  have z: "set free \<union> pend = {x \<in> usable p. refs p x = 0}" "set free \<inter> pend = {}"
    using assms(1) by (simp_all add: pool_inv_def)
  have nb: "b \<in> usable p \<Longrightarrow> refs p b \<noteq> 0" using assms(2) by (auto simp: usable_def)
  then have "b \<notin> set free" using z by blast
  then show "set free \<inter> (pend \<union> {x. x = b \<and> b \<in> usable p \<and> refs p b = 1}) = {}"
    using z(2) by auto
  have "{x \<in> usable p. refs (decr_ref b p) x = 0} =
      {x \<in> usable p. refs p x = 0} \<union> {x. x = b \<and> b \<in> usable p \<and> refs p b = 1}"
    using nb by (auto simp: pool_simps split: if_splits)
  with z show "set free \<union> (pend \<union> {x. x = b \<and> b \<in> usable p \<and> refs p b = 1}) =
      {x \<in> usable p. refs (decr_ref b p) x = 0}"
    by auto
  show "block_id (pool_heap (decr_ref b p) c) = block_id (pool_heap p c)"
    "is_null (pool_heap (decr_ref b p) c) = is_null (pool_heap p c)" for c
    by (simp_all add: decr_ref_def pool_simps upd_block_def)
  show "map_wf bid (cached_block_hash_to_block (decr_ref b p))"
    "blocks_under (cached_block_hash_to_block (decr_ref b p)) k =
      {b' \<in> usable p. hash_of (decr_ref b p) b' = Some k}" for k
    using assms(1) by (simp_all add: pool_simps pool_inv_def incr_ref_cache)
  show "0 \<le> refs (decr_ref b p) x" if "x \<in> usable p" for x
    using that assms by (auto simp: pool_simps pool_inv_def usable_def)
qed (use assms in \<open>auto simp: pool_simps pool_inv_def\<close>)

lemma decr_refs_inv:
  assumes "pool_inv p free pend" and "distinct (real_blocks p bs)"
    and "\<forall>b \<in> set bs. b \<in> usable p \<and> 1 \<le> refs p b \<or> b = null_block p"
  shows "pool_inv (fold decr_ref bs p) free
      (pend \<union> {b \<in> set (real_blocks p bs). refs p b = 1}) \<and>
    pool_conf (fold decr_ref bs p) = pool_conf p \<and> hash_of (fold decr_ref bs p) = hash_of p \<and>
    refs (fold decr_ref bs p) = (\<lambda>b. refs p b - int (count_list bs b))"
  using assms
proof (induction bs arbitrary: p pend)
  case Nil
  then show ?case by (simp add: real_blocks_def)
next
  case (Cons b bs)
  let ?p = "decr_ref b p" and ?pend = "pend \<union> {x. x = b \<and> b \<in> usable p \<and> refs p b = 1}"
  have conf: "pool_conf ?p = pool_conf p" by (simp add: pool_simps)
  have nn: "null_block ?p = null_block p" "usable ?p = usable p"
    using confD(1) [OF conf] usable_conf [OF conf] by simp_all
  have inv: "pool_inv ?p free ?pend" using Cons.prems by (intro decr_ref_inv) auto
  have d: "distinct (real_blocks ?p bs)" "b \<noteq> null_block p \<Longrightarrow> b \<notin> set bs"
    using Cons.prems(2) by (auto simp: real_blocks_def nn split: if_splits)
  have r: "\<forall>x \<in> set bs. x \<in> usable ?p \<and> 1 \<le> refs ?p x \<or> x = null_block ?p"
    using Cons.prems(3) d(2) by (auto simp: nn pool_simps)
  have bu: "b \<in> usable p \<or> b = null_block p" using Cons.prems(3) by auto
  have nu: "null_block p \<notin> usable p" by (simp add: usable_def)
  have "?pend \<union> {x \<in> set (real_blocks ?p bs). refs ?p x = 1} =
      pend \<union> {x \<in> set (real_blocks p (b # bs)). refs p x = 1}"
    using d(2) nu bu by (auto simp: real_blocks_def nn pool_simps split: if_splits)
  with Cons.IH [OF inv d(1) r] show ?case
    by (simp add: conf pool_simps fun_eq_iff)
qed

lemma free_blocks_inv:
  assumes inv: "pool_inv p free {}" and d: "distinct (real_blocks p bs)"
    and r: "\<forall>b \<in> set bs. b \<in> usable p \<and> 1 \<le> refs p b \<or> b = null_block p"
  shows "\<exists>p'. free_blocks bs p = Inr p' \<and>
    pool_inv p' (free @ filter (\<lambda>b. refs p b = 1) (real_blocks p bs)) {} \<and>
    pool_conf p' = pool_conf p \<and> hash_of p' = hash_of p \<and>
    refs p' = (\<lambda>b. refs p b - int (count_list bs b))"
proof -
  define p1 where "p1 = fold decr_ref bs p"
  define fs where "fs = filter (\<lambda>b. refs p b = 1) (real_blocks p bs)"
  have p1: "pool_inv p1 free (set fs)" "pool_conf p1 = pool_conf p" "hash_of p1 = hash_of p"
    "refs p1 = (\<lambda>b. refs p b - int (count_list bs b))"
    using decr_refs_inv [OF inv d r] by (simp_all add: p1_def fs_def)
  have cnt: "count_list bs b = 1" if "b \<in> set bs" "b \<noteq> null_block p" for b
  proof -
    have "count_list (real_blocks p bs) b = count_list bs b"
      unfolding real_blocks_def using that(2) by (induction bs) auto
    moreover have "b \<in> set (real_blocks p bs)" using that by (simp add: real_blocks_def)
    ultimately show ?thesis using d by (simp add: count_list_distinct)
  qed
  have same: "ref_cnt (pool_heap p1 b) = 0 \<and> \<not> is_null (pool_heap p1 b) \<longleftrightarrow>
      refs p b = 1 \<and> b \<noteq> null_block p" if "b \<in> set bs" for b
    using cnt that p1(4) pool_inv_null [OF p1(1)] confD(1) [OF p1(2)]
    by (auto simp: refs_def fun_eq_iff)
  have tf: "filter (\<lambda>b. ref_cnt (pool_heap p1 b) = 0 \<and> \<not> is_null (pool_heap p1 b)) bs = fs"
    unfolding fs_def real_blocks_def filter_filter using same by (intro filter_cong) auto
  have q: "queue_inv (free_block_queue p1) free" using p1(1) by (simp add: pool_inv_def)
  have fsu: "set fs \<inter> set free = {}" "distinct fs" "\<forall>b \<in> set fs. is_real b"
    using p1(1) d usable_real by (auto simp: pool_inv_def fs_def)
  from fq.put_n_law [OF q fsu(2,1,3)] obtain q' where q': "append_n fs (free_block_queue p1) = Inr q'"
    "queue_inv q' (free @ fs)" "queue_data q' = queue_data (free_block_queue p1)"
    by blast
  have "pool_inv (p1\<lparr>free_block_queue := q'\<rparr>) (free @ fs) {}"
    by (rule pool_inv_queue [OF p1(1) q'(2,3)]) auto
  with q' p1(2-4) tf show ?thesis
    by (simp add: free_blocks_def Let_def refs_queue [OF q'(3)] heap_upd_simps flip: p1_def fs_def)
qed

section \<open>Caching\<close>

lemma cache_one_null:
  "is_null (pool_heap p blk) \<Longrightarrow> cache_one_block hs g (i, blk) (p, acc) = Inr (p, acc)"
  by (simp add: cache_one_block_def)

lemma cache_one_inv:
  assumes inv: "pool_inv p free pend" and b: "blk \<in> usable p" and h: "hash_of p blk = None"
    and i: "0 \<le> i" "i < py_len hs" and key: "make_block_hash_with_group_id (hs ! nat i) g = Inr key"
  shows "\<exists>p' acc'. cache_one_block hs g (i, blk) (p, acc) = Inr (p', acc') \<and>
    pool_inv p' free pend \<and> pool_conf p' = pool_conf p \<and> refs p' = refs p \<and>
    hash_of p' = (hash_of p)(blk := Some key)"
proof -
  have nn: "\<not> is_null (pool_heap p blk)" using pool_inv_null [OF inv] b by (simp add: usable_def)
  define h' where "h' = upd_block blk (\<lambda>x. x\<lparr>block_hash := Some key\<rparr>) (pool_heap p)"
  define p1 where "p1 = upd_pool (\<lambda>_. h') p"
  define c where "c = map_insert bid key blk (cached_block_hash_to_block p)"
  define p2 where "p2 = p1\<lparr>cached_block_hash_to_block := c\<rparr>"
  have ids: "pool_ids p1 = bid"
    using pool_ids_fun [OF inv]
    by (auto simp: pool_ids_def p1_def h'_def upd_block_def pool_simps fun_eq_iff)
  have "\<exists>acc'. cache_one_block hs g (i, blk) (p, acc) = Inr (p2, acc')"
    using nn h i key ids
    by (simp add: cache_one_block_def set_block_hash_def hash_of_def Let_def pool_simps c_def p2_def
        p1_def [symmetric] h'_def [symmetric])
  moreover have rd: "refs p2 = refs p" "hash_of p2 = (hash_of p)(blk := Some key)"
    "pool_conf p2 = pool_conf p"
    by (simp_all add: p2_def p1_def h'_def refs_def hash_of_def pool_simps upd_block_def fun_eq_iff)
  moreover have "pool_inv p2 free pend"
  proof (rule pool_inv_frame [OF inv])
    have "queue_inv (free_block_queue p1) free"
      unfolding p1_def by (rule queue_inv_upd_pool)
        (use inv in \<open>simp_all add: h'_def upd_block_def pool_inv_def\<close>)
    then show "queue_inv (free_block_queue p2) free" by (simp add: p2_def)
    have wf: "map_wf bid (cached_block_hash_to_block p)" using inv by (simp add: pool_inv_def)
    have cl: "map_wf bid c" "blocks_under c = (blocks_under (cached_block_hash_to_block p))
        (key := insert blk (blocks_under (cached_block_hash_to_block p) key))"
      using idx.ins_law [OF wf usable_real [OF b]] by (auto simp: c_def)
    have cc: "cached_block_hash_to_block p2 = c" by (simp add: p2_def)
    show "map_wf bid (cached_block_hash_to_block p2)" using cl(1) cc by simp
    show "blocks_under (cached_block_hash_to_block p2) k = {b \<in> usable p. hash_of p2 b = Some k}" for k
      using inv b h by (auto simp: cc cl(2) rd pool_inv_def)
    show "block_id (pool_heap p2 c) = block_id (pool_heap p c)"
      "is_null (pool_heap p2 c) = is_null (pool_heap p c)" for c
      by (simp_all add: p2_def p1_def h'_def pool_simps upd_block_def)
    show "hash_of p2 (null_block p) = None"
      using inv b by (auto simp: rd pool_inv_def usable_def)
  qed (use inv in \<open>auto simp: rd pool_inv_def\<close>)
  ultimately show ?thesis by blast
qed


text \<open>
  The loop over the new full blocks, from index \<open>n\<close> of the hashes on: every non-null block gets
  the key of its own position, and no other block changes.
\<close>

definition keyed :: "block_hash list \<Rightarrow> int \<Rightarrow> nat \<Rightarrow> block_hash_with_group_id option" where
  "keyed hs g j = (case make_block_hash_with_group_id (hs ! j) g of Inl _ \<Rightarrow> None | Inr key \<Rightarrow> Some key)"

lemma keyed_Some:
  "0 \<le> g \<Longrightarrow> g < 2 ^ 32 \<Longrightarrow>
   \<exists>key. make_block_hash_with_group_id (hs ! j) g = Inr key \<and> keyed hs g j = Some key"
  using make_key_ok [of g "hs ! j"] by (auto simp: keyed_def)

lemma cache_loop_inv:
  assumes "pool_inv p free pend" and "distinct (real_blocks p bs)"
    and "\<forall>b \<in> set bs. b \<in> usable p \<and> hash_of p b = None \<or> b = null_block p"
    and "n + length bs \<le> length hs" and "0 \<le> g" and "g < 2 ^ 32"
  shows "\<exists>p' acc'. rfold (cache_one_block hs g) (zip [int n..int n + py_len bs - 1] bs) (p, acc) =
      Inr (p', acc') \<and> pool_inv p' free pend \<and> pool_conf p' = pool_conf p \<and> refs p' = refs p \<and>
    (\<forall>j < length bs. bs ! j \<noteq> null_block p \<longrightarrow> hash_of p' (bs ! j) = keyed hs g (n + j)) \<and>
    (\<forall>b. b \<notin> set (real_blocks p bs) \<longrightarrow> hash_of p' b = hash_of p b)"
  using assms(1-4)
proof (induction bs arbitrary: n p acc)
  case Nil
  then show ?case by (simp add: py_len_def)
next
  case (Cons b bs)
  have up: "[int n..int n + py_len (b # bs) - 1] =
      int n # [int (Suc n)..int (Suc n) + py_len bs - 1]"
    by (simp add: py_len_def upto_rec1 add.commute)
  obtain key where key: "make_block_hash_with_group_id (hs ! n) g = Inr key" "keyed hs g n = Some key"
    using keyed_Some [OF assms(5,6), of hs n] by blast
  have "\<exists>p1 acc1. cache_one_block hs g (int n, b) (p, acc) = Inr (p1, acc1) \<and>
    pool_inv p1 free pend \<and> pool_conf p1 = pool_conf p \<and> refs p1 = refs p \<and>
    hash_of p1 = (if b = null_block p then hash_of p else (hash_of p)(b := Some key))"
  proof (cases "b = null_block p")
    case True
    with Cons.prems(1) show ?thesis by (simp add: cache_one_null pool_inv_null)
  next
    case False
    with Cons.prems key(1) show ?thesis
      using cache_one_inv [OF Cons.prems(1), of b "int n" hs g key acc] by (auto simp: py_len_def)
  qed
  then obtain p1 acc1 where p1: "cache_one_block hs g (int n, b) (p, acc) = Inr (p1, acc1)"
    "pool_inv p1 free pend" "pool_conf p1 = pool_conf p" "refs p1 = refs p"
    "hash_of p1 = (if b = null_block p then hash_of p else (hash_of p)(b := Some key))"
    by blast
  have nn: "null_block p1 = null_block p" "usable p1 = usable p"
    using confD(1) [OF p1(3)] usable_conf [OF p1(3)] by simp_all
  have d: "b \<noteq> null_block p \<Longrightarrow> b \<notin> set bs" "distinct (real_blocks p1 bs)"
    using Cons.prems(2) by (auto simp: real_blocks_def nn split: if_splits)
  have "\<forall>x \<in> set bs. x \<in> usable p1 \<and> hash_of p1 x = None \<or> x = null_block p1"
    using Cons.prems(3) d(1) by (auto simp: nn p1(5))
  moreover have "Suc n + length bs \<le> length hs" using Cons.prems(4) by simp
  ultimately obtain p2 acc2 where p2:
    "rfold (cache_one_block hs g) (zip [int (Suc n)..int (Suc n) + py_len bs - 1] bs) (p1, acc1) =
      Inr (p2, acc2)" "pool_inv p2 free pend" "pool_conf p2 = pool_conf p1" "refs p2 = refs p1"
    "\<forall>j < length bs. bs ! j \<noteq> null_block p \<longrightarrow> hash_of p2 (bs ! j) = keyed hs g (Suc n + j)"
    "\<forall>x. x \<notin> set (real_blocks p bs) \<longrightarrow> hash_of p2 x = hash_of p1 x"
    using Cons.IH [OF p1(2) d(2), of "Suc n" acc1] by (auto simp: nn real_blocks_def)
  have "\<forall>j < length (b # bs). (b # bs) ! j \<noteq> null_block p \<longrightarrow>
      hash_of p2 ((b # bs) ! j) = keyed hs g (n + j)"
  proof (intro allI impI)
    fix j assume j: "j < length (b # bs)" "(b # bs) ! j \<noteq> null_block p"
    show "hash_of p2 ((b # bs) ! j) = keyed hs g (n + j)"
    proof (cases j)
      case 0
      with j d(1) p2(6) have "hash_of p2 b = hash_of p1 b" by (auto simp: real_blocks_def)
      with 0 j key(2) p1(5) show ?thesis by simp
    next
      case (Suc i)
      with j p2(5) show ?thesis by simp
    qed
  qed
  moreover have "\<forall>x. x \<notin> set (real_blocks p (b # bs)) \<longrightarrow> hash_of p2 x = hash_of p x"
    using p2(6) p1(5) by (auto simp: real_blocks_def split: if_splits)
  ultimately show ?case using p1(1,3,4) p2(1-4) unfolding up by auto
qed

text \<open>The list of hashes at the granularity of the group, as \<open>cache_full_blocks\<close> builds it.\<close>

definition group_hashes :: "block_pool \<Rightarrow> int \<Rightarrow> block_hash list \<Rightarrow> block_hash_list" where
  "group_hashes p block_size hs = (if block_size = hash_block_size p then Plain hs
     else Scaled hs (block_size div hash_block_size p))"

lemma group_hashes_ok:
  assumes "0 < hash_block_size p" and "0 < block_size" and "block_size mod hash_block_size p = 0"
  shows "bhl_ok (group_hashes p block_size hs)"
proof -
  have "0 < block_size div hash_block_size p"
  proof -
    have "hash_block_size p \<le> block_size" using assms by (intro zdvd_imp_le) auto
    then show ?thesis using assms(1) by (simp add: pos_imp_zdiv_pos_iff)
  qed
  then show ?thesis by (simp add: group_hashes_def bhl_ok_def)
qed

lemma cache_full_blocks_inv:
  assumes inv: "pool_inv p free {}"
    and bs: "0 < hash_block_size p" "0 < block_size" "block_size mod hash_block_size p = 0"
    and n: "0 \<le> n" "n < m" "m \<le> py_len blocks" "m \<le> py_len (block_hashes r)"
      "m \<le> bhl_len (group_hashes p block_size (block_hashes r))"
    and g: "0 \<le> g" "g < 2 ^ 32"
    and new: "distinct (real_blocks p (py_slice blocks n m))"
      "\<forall>b \<in> set (py_slice blocks n m). b \<in> usable p \<and> hash_of p b = None \<or> b = null_block p"
  shows "\<exists>p'. cache_full_blocks r blocks n m block_size g p = Inr p' \<and> pool_inv p' free {} \<and>
    pool_conf p' = pool_conf p \<and> refs p' = refs p \<and>
    (\<forall>j. n \<le> j \<and> j < m \<and> blocks ! nat j \<noteq> null_block p \<longrightarrow>
       hash_of p' (blocks ! nat j) =
         keyed (bhl_values (group_hashes p block_size (block_hashes r))) g (nat j)) \<and>
    (\<forall>b. b \<notin> set (real_blocks p (py_slice blocks n m)) \<longrightarrow> hash_of p' b = hash_of p b)"
proof -
  define l where "l = group_hashes p block_size (block_hashes r)"
  define nb where "nb = py_slice blocks n m"
  define hs where "hs = drop (nat n) (bhl_values l)"
  have ok: "bhl_ok l" unfolding l_def by (rule group_hashes_ok [OF bs])
  have from_l: "bhl_from l n = Inr hs" unfolding hs_def by (rule bhl_from_values [OF ok n(1)])
  have nbv: "nb = take (nat m - nat n) (drop (nat n) blocks)"
    unfolding nb_def using n by (intro py_slice_nat) auto
  have len: "length nb = nat m - nat n" using n by (simp add: nbv py_len_def)
  have lv: "m \<le> py_len (bhl_values l)" using n(5) bhl_len_values [OF ok] by (simp add: l_def)
  then have "0 + length nb \<le> length hs" using n by (simp add: len hs_def py_len_def)
  from cache_loop_inv [OF inv new [folded nb_def] this g, of "[]"]
  obtain p1 acc where p1: "rfold (cache_one_block hs g) (zip [0..py_len nb - 1] nb) (p, []) =
      Inr (p1, acc)" "pool_inv p1 free {}" "pool_conf p1 = pool_conf p" "refs p1 = refs p"
    "\<forall>j < length nb. nb ! j \<noteq> null_block p \<longrightarrow> hash_of p1 (nb ! j) = keyed hs g j"
    "\<forall>b. b \<notin> set (real_blocks p nb) \<longrightarrow> hash_of p1 b = hash_of p b"
    by auto
  have parent: "n \<noteq> 0 \<Longrightarrow> \<exists>bh. bhl_get l (n - 1) = Inr bh"
    using bhl_get_values [OF ok, of "n - 1"] n by (auto simp: l_def)
  have lst: "(if block_size = hash_block_size p then Inr (Plain (block_hashes r))
      else rbind (py_assert (block_size mod hash_block_size p = 0)) (\<lambda>_.
        block_hash_list_with_block_size (block_hashes r) (hash_block_size p) block_size)) = Inr l"
    using bs(3) by (simp add: l_def group_hashes_def block_hash_list_with_block_size_def)
  have "\<exists>p'. cache_full_blocks r blocks n m block_size g p = Inr p' \<and>
      (p' = p1 \<or> (\<exists>e. p' = emit_event e p1))"
  proof (cases "enable_kv_cache_events p")
    case True
    show ?thesis
    proof (cases "n = 0")
      case True
      with \<open>enable_kv_cache_events p\<close> n p1(1) from_l show ?thesis
        unfolding cache_full_blocks_def Let_def lst by (simp add: nb_def) blast
    next
      case False
      with parent obtain bh where "bhl_get l (n - 1) = Inr bh" by blast
      with False True n p1(1) from_l show ?thesis
        unfolding cache_full_blocks_def Let_def lst by (simp add: nb_def) blast
    qed
  next
    case False
    with n p1(1) from_l show ?thesis
      unfolding cache_full_blocks_def Let_def lst by (simp add: nb_def)
  qed
  then obtain p' where p': "cache_full_blocks r blocks n m block_size g p = Inr p'"
    "pool_inv p' free {}" "pool_conf p' = pool_conf p" "refs p' = refs p" "hash_of p' = hash_of p1"
    using p1(2-4) by (auto simp: pool_simps pool_inv_event)
  have "hash_of p' (blocks ! nat j) = keyed (bhl_values l) g (nat j)"
    if "n \<le> j" "j < m" "blocks ! nat j \<noteq> null_block p" for j
  proof -
    have jl: "nat j - nat n < length nb" using that n len by auto
    have e: "nat n + (nat j - nat n) = nat j" using that(1) n(1) by linarith
    have "nat n \<le> length blocks" using n by (simp add: py_len_def)
    then have "nb ! (nat j - nat n) = blocks ! nat j" using jl len by (simp add: nbv e)
    moreover have "nat n \<le> length (bhl_values l)" using lv n by (simp add: py_len_def)
    then have "hs ! (nat j - nat n) = bhl_values l ! nat j" by (simp add: hs_def e)
    ultimately show ?thesis using p1(5) jl that(3) p'(5) by (auto simp: keyed_def)
  qed
  with p' p1(6) show ?thesis by (auto simp: l_def nb_def)
qed


section \<open>Lookup\<close>

text \<open>A lookup hits in a group only with a block that carries the key of that group.\<close>

lemma get_cached_loop_hit:
  assumes "map_wf bid c" and "get_cached_loop c h gs acc = Inr (Some bs)"
  shows "\<exists>bs'. bs = acc @ bs' \<and> list_all2 (\<lambda>g b. \<exists>key.
    make_block_hash_with_group_id h g = Inr key \<and> b \<in> blocks_under c key) gs bs'"
  using assms(2)
proof (induction gs arbitrary: acc)
  case Nil
  then show ?case by simp
next
  case (Cons g gs)
  obtain key bo where k: "make_block_hash_with_group_id h g = Inr key" "get_one_block key c = Inr bo"
    using Cons.prems by (auto simp: res_simps split: option.splits)
  then obtain b where b: "bo = Some b" using Cons.prems by (auto split: option.splits)
  with k Cons.prems have "get_cached_loop c h gs (acc @ [b]) = Inr (Some bs)" by simp
  with Cons.IH obtain bs' where "bs = (acc @ [b]) @ bs'" "list_all2 (\<lambda>g b. \<exists>key.
    make_block_hash_with_group_id h g = Inr key \<and> b \<in> blocks_under c key) gs bs'"
    by blast
  moreover have "b \<in> blocks_under c key"
    using idx.get_one_hit [OF assms(1)] k(2) b by simp
  ultimately show ?case using k(1) by auto
qed

lemma get_cached_loop_total:
  assumes "map_wf bid c" and "\<forall>g \<in> set gs. 0 \<le> g \<and> g < 2 ^ 32"
  shows "\<exists>res. get_cached_loop c h gs acc = Inr res \<and> (res = None \<longleftrightarrow>
    (\<exists>g \<in> set gs. \<forall>key. make_block_hash_with_group_id h g = Inr key \<longrightarrow> blocks_under c key = {}))"
  using assms(2)
proof (induction gs arbitrary: acc)
  case Nil
  then show ?case by simp
next
  case (Cons g gs)
  then obtain key where key: "make_block_hash_with_group_id h g = Inr key"
    using make_key_ok [of g h] by auto
  show ?case
  proof (cases "blocks_under c key = {}")
    case True
    then have "get_one_block key c = Inr None" using idx.get_one_miss [OF assms(1)] by simp
    with key True show ?thesis by simp
  next
    case False
    then obtain b where "get_one_block key c = Inr (Some b)"
      using idx.get_one_law [OF assms(1), of key] by auto
    with key False Cons show ?thesis by simp
  qed
qed

lemma get_cached_block_hit:
  assumes "pool_inv p free pend" and "get_cached_block h gs p = Inr (Some bs)"
  shows "list_all2 (\<lambda>g b. b \<in> usable p \<and> (\<exists>key.
    make_block_hash_with_group_id h g = Inr key \<and> hash_of p b = Some key)) gs bs"
proof -
  have wf: "map_wf bid (cached_block_hash_to_block p)"
    and u: "\<And>k. blocks_under (cached_block_hash_to_block p) k = {b \<in> usable p. hash_of p b = Some k}"
    using assms(1) by (simp_all add: pool_inv_def)
  from get_cached_loop_hit [OF wf assms(2) [unfolded get_cached_block_def]]
  have "list_all2 (\<lambda>g b. \<exists>key. make_block_hash_with_group_id h g = Inr key \<and>
      b \<in> blocks_under (cached_block_hash_to_block p) key) gs bs"
    by simp
  then show ?thesis by (rule list_all2_mono) (auto simp: u)
qed

lemma get_cached_block_total:
  assumes "pool_inv p free pend" and "\<forall>g \<in> set gs. 0 \<le> g \<and> g < 2 ^ 32"
  shows "\<exists>res. get_cached_block h gs p = Inr res \<and> (res = None \<longleftrightarrow>
    (\<exists>g \<in> set gs. \<forall>b \<in> usable p. \<forall>key. make_block_hash_with_group_id h g = Inr key \<longrightarrow>
       hash_of p b \<noteq> Some key))"
proof -
  have wf: "map_wf bid (cached_block_hash_to_block p)"
    and u: "\<And>k. blocks_under (cached_block_hash_to_block p) k = {b \<in> usable p. hash_of p b = Some k}"
    using assms(1) by (simp_all add: pool_inv_def)
  from get_cached_loop_total [OF wf assms(2), of h "[]"] show ?thesis
    unfolding get_cached_block_def u by (simp add: Collect_empty_eq) blast
qed

section \<open>Evicting by id and resetting\<close>

lemma evict_one_inv:
  assumes inv: "pool_inv p free {}" and i: "0 < i" "i < num_gpu_blocks p"
  shows "\<exists>p'. evict_one i p = Inr p' \<and> pool_inv p' free {} \<and> pool_conf p' = pool_conf p \<and>
    refs p' = refs p \<and> hash_of p' = (hash_of p)(Blk (nat i) := None)"
proof -
  have len: "py_len (pool_blocks p) = num_gpu_blocks p"
    using i by (simp add: py_len_def pool_blocks_def)
  have get: "py_get (pool_blocks p) i = Inr (Blk (nat i))"
    using i len by (simp add: pool_blocks_def nat_less_eq_zless)
  have u: "Blk (nat i) \<in> usable p"
    using i inv by (auto simp: usable_def in_pool pool_inv_def)
  obtain e p' where e: "maybe_evict_cached_block (Blk (nat i)) p = (e, p')" by fastforce
  then have "evict_one i p = Inr p'" using i len get by (simp add: evict_one_def)
  with maybe_evict_inv [OF inv u e] show ?thesis by blast
qed

lemma evict_blocks_inv:
  assumes "pool_inv p free {}" and "\<forall>i \<in> set is. 0 < i \<and> i < num_gpu_blocks p"
  shows "\<exists>p'. evict_blocks is p = Inr p' \<and> pool_inv p' free {} \<and> pool_conf p' = pool_conf p \<and>
    refs p' = refs p \<and>
    hash_of p' = (\<lambda>b. if b \<in> (\<lambda>i. Blk (nat i)) ` set is then None else hash_of p b)"
  using assms
proof (induction "is" arbitrary: p)
  case Nil
  then show ?case by (simp add: evict_blocks_def)
next
  case (Cons i "is")
  obtain p1 where p1: "evict_one i p = Inr p1" "pool_inv p1 free {}" "pool_conf p1 = pool_conf p"
    "refs p1 = refs p" "hash_of p1 = (hash_of p)(Blk (nat i) := None)"
    using evict_one_inv [OF Cons.prems(1), of i] Cons.prems(2) by auto
  have "\<forall>i \<in> set is. 0 < i \<and> i < num_gpu_blocks p1"
    using Cons.prems(2) confD(2) [OF p1(3)] by simp
  with Cons.IH [OF p1(2)] obtain p2 where "evict_blocks is p1 = Inr p2" "pool_inv p2 free {}"
    "pool_conf p2 = pool_conf p1" "refs p2 = refs p1"
    "hash_of p2 = (\<lambda>b. if b \<in> (\<lambda>i. Blk (nat i)) ` set is then None else hash_of p1 b)"
    by blast
  with p1 show ?case by (auto simp: evict_blocks_def fun_eq_iff)
qed

lemma fold_reset_hash:
  "block_id (fold reset_hash bs h b) = block_id (h b)"
  "ref_cnt (fold reset_hash bs h b) = ref_cnt (h b)"
  "is_null (fold reset_hash bs h b) = is_null (h b)"
  "block_hash (fold reset_hash bs h b) = (if b \<in> set bs then None else block_hash (h b))"
  "next_free_block (fold reset_hash bs h b) = next_free_block (h b)"
  "prev_free_block (fold reset_hash bs h b) = prev_free_block (h b)"
  by (induction bs arbitrary: h) (auto simp: reset_hash_def upd_block_def)

text \<open>
  The cache is reset exactly when no block but the null block is held; then every block is free
  and no lookup hits.
\<close>

lemma reset_prefix_cache_inv:
  assumes inv: "pool_inv p free {}" and r: "reset_prefix_cache p = (done, p')"
  shows "done \<longleftrightarrow> py_len free = num_gpu_blocks p - 1" and "\<not> done \<Longrightarrow> p' = p"
    and "done \<Longrightarrow> pool_inv p' free {} \<and> pool_conf p' = pool_conf p \<and> refs p' = refs p \<and>
      (\<forall>b \<in> usable p. hash_of p' b = None) \<and> cached_block_hash_to_block p' = BlockHashToBlockMap"
proof -
  have nf: "get_num_free_blocks p = py_len free" by (rule num_free_inv [OF inv])
  show "done \<longleftrightarrow> py_len free = num_gpu_blocks p - 1" and "\<not> done \<Longrightarrow> p' = p"
    using r by (auto simp: reset_prefix_cache_def Let_def nf split: if_splits)
  assume d: "done"
  let ?p1 = "p\<lparr>cached_block_hash_to_block := BlockHashToBlockMap\<rparr>"
  let ?p2 = "upd_pool (fold reset_hash (pool_blocks ?p1)) ?p1"
  have pb: "pool_blocks ?p1 = pool_blocks p" by (simp add: pool_blocks_def)
  have q: "queue_inv (free_block_queue ?p1) free" using inv by (simp add: pool_inv_def)
  have rd: "refs ?p2 = refs p"
    "hash_of ?p2 = (\<lambda>b. if b \<in> set (pool_blocks p) then None else hash_of p b)"
    "\<And>b. block_id (pool_heap ?p2 b) = block_id (pool_heap p b)"
    "\<And>b. is_null (pool_heap ?p2 b) = is_null (pool_heap p b)"
    by (simp_all add: pool_simps refs_def hash_of_def fun_eq_iff pb fold_reset_hash)
  have "pool_inv ?p2 free {}"
  proof (rule pool_inv_frame [OF inv])
    show "queue_inv (free_block_queue ?p2) free"
      by (rule queue_inv_upd_pool [OF q]) (simp_all add: fold_reset_hash)
    show "hash_of ?p2 (null_block p) = None"
    proof -
      have "hash_of p (null_block p) = None" using inv unfolding pool_inv_def by blast
      then show ?thesis by (simp add: rd(2))
    qed
    show "blocks_under (cached_block_hash_to_block ?p2) k = {b \<in> usable p. hash_of ?p2 b = Some k}"
      for k
      unfolding rd(2)
      by (auto simp: pool_simps blocks_under_def BlockHashToBlockMap_def entry_blocks_def usable_def)
    show "map_wf bid (cached_block_hash_to_block ?p2)"
      by (simp add: pool_simps map_wf_def BlockHashToBlockMap_def)
  qed (use inv in \<open>auto simp: rd pool_simps pool_inv_def fold_reset_hash\<close>)
  moreover have "p' = on_metrics ResetMetrics ?p2 \<or>
      p' = emit_event AllBlocksCleared (on_metrics ResetMetrics ?p2)"
    using r d by (auto simp: reset_prefix_cache_def Let_def split: if_splits)
  ultimately show "pool_inv p' free {} \<and> pool_conf p' = pool_conf p \<and> refs p' = refs p \<and>
      (\<forall>b \<in> usable p. hash_of p' b = None) \<and> cached_block_hash_to_block p' = BlockHashToBlockMap"
    by (auto simp: pool_inv_metrics pool_inv_event pool_simps rd(1,2) usable_def)
qed

section \<open>The initial pool\<close>

lemma usable_range:
  assumes "0 < n" and "num_gpu_blocks p = n" and "null_block p = Blk 0"
  shows "usable p = set (map Blk [1..<nat n])"
proof -
  have "b \<in> usable p \<longleftrightarrow> (\<exists>i. b = Blk i \<and> 1 \<le> i \<and> i < nat n)" for b
    using assms by (auto simp: usable_def in_pool zless_nat_eq_int_zless Suc_le_eq)
  then show ?thesis by auto
qed

lemma init_pool_inv:
  assumes "0 < n"
  shows "\<exists>p. BlockPool n caching hbs events int_hashes metrics = Inr p \<and>
    pool_inv p (map Blk [1..<nat n]) {} \<and>
    pool_conf p = (n, caching, hbs, Blk 0, events, int_hashes) \<and>
    refs p = (\<lambda>_. 0) \<and> hash_of p = (\<lambda>_. None)"
proof -
  let ?bs = "map Blk [0..<nat n]"
  let ?q = "FreeKVCacheBlockQueue ?bs initial_heap"
  have d: "distinct ?bs" by (simp add: distinct_map inj_on_def)
  have u: "unlinked initial_heap b" for b
    by (simp add: unlinked_def initial_heap_def KVCacheBlock_def split: bref.split)
  have q: "queue_inv ?q ?bs" by (rule queue_inv_init(1) [OF d _ u]) auto
  have pl: "payload (heap_of ?q b) = payload (initial_heap b)" for b
  proof (cases "b = Head \<or> b = Tail")
    case True
    then show ?thesis
      by (auto simp: FreeKVCacheBlockQueue_def Let_def heap_simps initial_heap_def)
  next
    case False
    then show ?thesis by (intro queue_inv_init(2) [OF d _ u]) auto
  qed
  have "?bs = Blk 0 # map Blk [1..<nat n]" using assms by (simp add: upt_rec)
  with q have "queue_inv ?q (Blk 0 # map Blk [1..<nat n])" by simp
  from queue_inv_popleft [OF this] obtain q' where q': "popleft ?q = Inr (Blk 0, q')"
    "queue_inv q' (map Blk [1..<nat n])" "\<And>b. payload (heap_of q' b) = payload (heap_of ?q b)"
    by blast
  have pl': "ref_cnt (heap_of q' b) = 0" "block_hash (heap_of q' b) = None"
    "is_null (heap_of q' b) = False" "block_id (heap_of q' b) = bid b" for b
    using q'(3) [of b] pl [of b]
    by (auto simp: payload_def initial_heap_def KVCacheBlock_def bid_def split: bref.splits)
  let ?p = "upd_pool (upd_block (Blk 0) (\<lambda>blk. blk\<lparr>is_null := True\<rparr>))
       \<lparr>num_gpu_blocks = n, enable_caching = caching, hash_block_size = hbs,
        free_block_queue = q', cached_block_hash_to_block = BlockHashToBlockMap,
        null_block = Blk 0, enable_kv_cache_events = events, use_int_block_hashes = int_hashes,
        kv_event_queue = [], metrics_calls = (if metrics then Some [] else None)\<rparr>"
  have "BlockPool n caching hbs events int_hashes metrics = Inr ?p"
    using assms q'(1) by (simp add: BlockPool_def)
  moreover have c: "pool_conf ?p = (n, caching, hbs, Blk 0, events, int_hashes)"
    by (simp add: pool_simps) (simp add: pool_conf_def)
  moreover have rd: "refs ?p = (\<lambda>_. 0)" "hash_of ?p = (\<lambda>_. None)"
    by (simp_all add: fun_eq_iff refs_def hash_of_def pool_simps)
      (simp_all add: pool_heap_def upd_block_def pl')
  moreover have "queue_inv (free_block_queue ?p) (map Blk [1..<nat n])"
    by (rule queue_inv_upd_pool) (use q'(2) in \<open>simp_all add: upd_block_def\<close>)
  moreover have "num_gpu_blocks ?p = n" "null_block ?p = Blk 0" using c by (simp_all add: pool_conf_def)
  moreover have "usable ?p = set (map Blk [1..<nat n])"
    using assms calculation(6,7) by (intro usable_range)
  ultimately show ?thesis
    using assms by (auto simp: pool_inv_def upd_pool_def pool_heap_def upd_block_def pl'
        blocks_under_def BlockHashToBlockMap_def entry_blocks_def map_wf_def)
qed

end
