(* ===== verification/KV_Cache_Interface.thy ===== *)
theory KV_Cache_Interface
  imports Prelude
begin

text \<open>
  \<^verbatim>\<open>vllm/v1/kv_cache_interface.py\<close>: the specification of the KV cache of a layer, its
  page size and memory bound, and how the specifications of several layers are merged.  The
  dataclasses that inherit from \<open>KVCacheSpec\<close> are the constructors of one datatype; a
  \<open>torch.dtype\<close> is a name, and its size in bytes (\<open>get_dtype_size\<close>, of PyTorch) is the
  parameter \<open>dtype_size\<close> of the definitions that need it.
\<close>

section \<open>Specifications\<close>

record attn_spec =
  num_kv_heads :: int
  head_size :: int
  kv_dtype :: string
  page_size_padded :: "int option"

record full_fields =
  head_size_v :: int
  full_sliding_window :: "int option"
  full_attention_chunk_size :: "int option"

record mamba_fields =
  mamba_shapes :: "int list list"
  mamba_dtypes :: "string list"
  mamba_page_size_padded :: "int option"
  mamba_type :: string
  mamba_cache_mode :: string
  num_speculative_blocks :: int

text \<open>The first argument of every constructor is \<open>block_size\<close>.\<close>

datatype kv_cache_spec =
    FullAttentionSpec int attn_spec full_fields
  | MLAAttentionSpec int attn_spec full_fields "string option"
  | SinkFullAttentionSpec int attn_spec full_fields "int option"
  | ChunkedLocalAttentionSpec int attn_spec int
  | SlidingWindowSpec int attn_spec int
  | MambaSpec int mamba_fields
  | EncoderOnlyAttentionSpec int attn_spec
  | CrossAttentionSpec int attn_spec
  | UniformTypeKVCacheSpecs int "(string \<times> kv_cache_spec) list"

text \<open>\<open>FullAttentionSpec.__post_init__\<close>: \<open>head_size_v\<close> defaults to \<open>head_size\<close>.\<close>

definition full_post_init ::
    "attn_spec \<Rightarrow> int option \<Rightarrow> int option \<Rightarrow> int option \<Rightarrow> full_fields" where
  "full_post_init a hv sw chunk =
     \<lparr>head_size_v = (case hv of None \<Rightarrow> head_size a | Some v \<Rightarrow> v),
      full_sliding_window = sw, full_attention_chunk_size = chunk\<rparr>"

fun spec_block_size :: "kv_cache_spec \<Rightarrow> int" where
  "spec_block_size (FullAttentionSpec bs _ _) = bs"
| "spec_block_size (MLAAttentionSpec bs _ _ _) = bs"
| "spec_block_size (SinkFullAttentionSpec bs _ _ _) = bs"
| "spec_block_size (ChunkedLocalAttentionSpec bs _ _) = bs"
| "spec_block_size (SlidingWindowSpec bs _ _) = bs"
| "spec_block_size (MambaSpec bs _) = bs"
| "spec_block_size (EncoderOnlyAttentionSpec bs _) = bs"
| "spec_block_size (CrossAttentionSpec bs _) = bs"
| "spec_block_size (UniformTypeKVCacheSpecs bs _) = bs"

text \<open>\<open>isinstance(spec, FullAttentionSpec)\<close> also holds of its two subclasses.\<close>

fun is_full_attention :: "kv_cache_spec \<Rightarrow> bool" where
  "is_full_attention (FullAttentionSpec _ _ _) = True"
| "is_full_attention (MLAAttentionSpec _ _ _ _) = True"
| "is_full_attention (SinkFullAttentionSpec _ _ _ _) = True"
| "is_full_attention _ = False"

fun copy_with_new_block_size :: "kv_cache_spec \<Rightarrow> int \<Rightarrow> kv_cache_spec" where
  "copy_with_new_block_size (FullAttentionSpec _ a f) bs = FullAttentionSpec bs a f"
| "copy_with_new_block_size (MLAAttentionSpec _ a f c) bs = MLAAttentionSpec bs a f c"
| "copy_with_new_block_size (SinkFullAttentionSpec _ a f s) bs = SinkFullAttentionSpec bs a f s"
| "copy_with_new_block_size (ChunkedLocalAttentionSpec _ a c) bs = ChunkedLocalAttentionSpec bs a c"
| "copy_with_new_block_size (SlidingWindowSpec _ a w) bs = SlidingWindowSpec bs a w"
| "copy_with_new_block_size (MambaSpec _ m) bs = MambaSpec bs m"
| "copy_with_new_block_size (EncoderOnlyAttentionSpec _ a) bs = EncoderOnlyAttentionSpec bs a"
| "copy_with_new_block_size (CrossAttentionSpec _ a) bs = CrossAttentionSpec bs a"
| "copy_with_new_block_size (UniformTypeKVCacheSpecs _ l) bs = UniformTypeKVCacheSpecs bs l"

section \<open>Page size\<close>

type_synonym dtype_sizes = "string \<Rightarrow> int"

definition real_page_size_attention :: "dtype_sizes \<Rightarrow> int \<Rightarrow> attn_spec \<Rightarrow> int" where
  "real_page_size_attention dtype_size bs a =
     2 * bs * num_kv_heads a * head_size a * dtype_size (kv_dtype a)"

definition real_page_size_full :: "dtype_sizes \<Rightarrow> int \<Rightarrow> attn_spec \<Rightarrow> full_fields \<Rightarrow> int" where
  "real_page_size_full dtype_size bs a f =
     bs * num_kv_heads a * (head_size a + head_size_v f) * dtype_size (kv_dtype a)"

definition real_page_size_mla :: "dtype_sizes \<Rightarrow> int \<Rightarrow> attn_spec \<Rightarrow> string option \<Rightarrow> int" where
  "real_page_size_mla dtype_size bs a cache_dtype_str =
     (if cache_dtype_str = Some ''fp8_ds_mla'' then bs * 656
      else bs * num_kv_heads a * head_size a * dtype_size (kv_dtype a))"

definition padded_page_size :: "int option \<Rightarrow> int \<Rightarrow> int res" where
  "padded_page_size padded real_page_size =
     (case padded of
        None \<Rightarrow> Inr real_page_size
      | Some n \<Rightarrow> rbind (py_assert (n \<ge> real_page_size)) (\<lambda>_. Inr n))"

definition mamba_page_size :: "dtype_sizes \<Rightarrow> mamba_fields \<Rightarrow> int" where
  "mamba_page_size dtype_size m =
     sum_list (map (\<lambda>(shape, dt). prod_list shape * dtype_size dt)
       (zip (mamba_shapes m) (mamba_dtypes m)))"

fun page_size_bytes :: "dtype_sizes \<Rightarrow> kv_cache_spec \<Rightarrow> int res" and
    page_size_sum :: "dtype_sizes \<Rightarrow> (string \<times> kv_cache_spec) list \<Rightarrow> int res" where
  "page_size_bytes d (FullAttentionSpec bs a f) =
     padded_page_size (page_size_padded a) (real_page_size_full d bs a f)"
| "page_size_bytes d (MLAAttentionSpec bs a f c) =
     padded_page_size (page_size_padded a) (real_page_size_mla d bs a c)"
| "page_size_bytes d (SinkFullAttentionSpec bs a f s) =
     padded_page_size (page_size_padded a) (real_page_size_full d bs a f)"
| "page_size_bytes d (ChunkedLocalAttentionSpec bs a c) =
     padded_page_size (page_size_padded a) (real_page_size_attention d bs a)"
| "page_size_bytes d (SlidingWindowSpec bs a w) =
     padded_page_size (page_size_padded a) (real_page_size_attention d bs a)"
| "page_size_bytes d (MambaSpec bs m) =
     padded_page_size (mamba_page_size_padded m) (mamba_page_size d m)"
| "page_size_bytes d (EncoderOnlyAttentionSpec bs a) =
     padded_page_size (page_size_padded a) (real_page_size_attention d bs a)"
| "page_size_bytes d (CrossAttentionSpec bs a) =
     padded_page_size (page_size_padded a) (real_page_size_attention d bs a)"
| "page_size_bytes d (UniformTypeKVCacheSpecs bs l) = page_size_sum d l"
| "page_size_sum d [] = Inr 0"
| "page_size_sum d ((_, s) # l) =
     rbind (page_size_bytes d s) (\<lambda>n. rbind (page_size_sum d l) (\<lambda>m. Inr (n + m)))"

section \<open>Memory bound\<close>

text \<open>The fields of \<open>VllmConfig\<close> that the KV cache configuration reads.\<close>

record vllm_config =
  max_model_len :: int
  original_max_model_len :: int
  decode_context_parallel_size :: int
  prefill_context_parallel_size :: int
  max_num_batched_tokens :: int
  max_num_encoder_input_tokens :: int
  config_mamba_cache_mode :: string
  num_gpu_blocks_override :: "int option"
  disable_hybrid_kv_cache_manager :: bool

definition max_memory_full :: "vllm_config \<Rightarrow> int \<Rightarrow> int res \<Rightarrow> int res" where
  "max_memory_full cfg bs page_size =
     (let cp = decode_context_parallel_size cfg * prefill_context_parallel_size cfg;
          len = (if cp > 1 then cdiv (max_model_len cfg) cp else max_model_len cfg)
      in rbind (py_cdiv len bs) (\<lambda>k. rbind page_size (\<lambda>n. Inr (k * n))))"

definition max_memory_chunked :: "vllm_config \<Rightarrow> int \<Rightarrow> int \<Rightarrow> int res \<Rightarrow> int res" where
  "max_memory_chunked cfg bs attention_chunk_size page_size =
     (let num_tokens = min (attention_chunk_size + max_num_batched_tokens cfg) (max_model_len cfg)
      in rbind (py_cdiv num_tokens bs) (\<lambda>k. rbind page_size (\<lambda>n. Inr (k * n))))"

definition max_memory_sliding :: "vllm_config \<Rightarrow> int \<Rightarrow> int \<Rightarrow> int res \<Rightarrow> int res" where
  "max_memory_sliding cfg bs sliding_window page_size =
     rbind (py_assert (decode_context_parallel_size cfg = 1)) (\<lambda>_.
       let num_tokens =
             min (sliding_window - 1 + max_num_batched_tokens cfg) (max_model_len cfg)
       in rbind (py_cdiv num_tokens bs) (\<lambda>k. rbind page_size (\<lambda>n. Inr ((k + 1) * n))))"

definition max_memory_mamba :: "vllm_config \<Rightarrow> int \<Rightarrow> mamba_fields \<Rightarrow> int res \<Rightarrow> int res" where
  "max_memory_mamba cfg bs m page_size =
     (if config_mamba_cache_mode cfg = ''all''
      then rbind (py_cdiv (max_model_len cfg) bs) (\<lambda>k. rbind page_size (\<lambda>n. Inr (k * n)))
      else if config_mamba_cache_mode cfg = ''align''
      then rbind page_size (\<lambda>n. Inr (n * (2 + num_speculative_blocks m)))
      else rbind page_size (\<lambda>n. Inr (n * (1 + num_speculative_blocks m))))"

definition max_memory_cross :: "vllm_config \<Rightarrow> int \<Rightarrow> int res \<Rightarrow> int res" where
  "max_memory_cross cfg bs page_size =
     rbind (py_cdiv (max_num_encoder_input_tokens cfg) bs) (\<lambda>k.
     rbind page_size (\<lambda>n. Inr (k * n)))"

text \<open>\<open>max()\<close> of an empty sequence raises \<open>ValueError\<close>.\<close>

fun py_max :: "int list \<Rightarrow> int res" where
  "py_max [] = Inl ValueError"
| "py_max (x # xs) = Inr (fold max xs x)"

fun py_min :: "int list \<Rightarrow> int res" where
  "py_min [] = Inl ValueError"
| "py_min (x # xs) = Inr (fold min xs x)"

fun spec_max_memory :: "dtype_sizes \<Rightarrow> vllm_config \<Rightarrow> kv_cache_spec \<Rightarrow> int res" and
    spec_max_pages :: "dtype_sizes \<Rightarrow> vllm_config \<Rightarrow> (string \<times> kv_cache_spec) list \<Rightarrow> int list res"
where
  "spec_max_memory d cfg (FullAttentionSpec bs a f) =
     max_memory_full cfg bs (page_size_bytes d (FullAttentionSpec bs a f))"
| "spec_max_memory d cfg (MLAAttentionSpec bs a f c) =
     max_memory_full cfg bs (page_size_bytes d (MLAAttentionSpec bs a f c))"
| "spec_max_memory d cfg (SinkFullAttentionSpec bs a f s) =
     max_memory_full cfg bs (page_size_bytes d (SinkFullAttentionSpec bs a f s))"
| "spec_max_memory d cfg (ChunkedLocalAttentionSpec bs a c) =
     max_memory_chunked cfg bs c (page_size_bytes d (ChunkedLocalAttentionSpec bs a c))"
| "spec_max_memory d cfg (SlidingWindowSpec bs a w) =
     max_memory_sliding cfg bs w (page_size_bytes d (SlidingWindowSpec bs a w))"
| "spec_max_memory d cfg (MambaSpec bs m) =
     max_memory_mamba cfg bs m (page_size_bytes d (MambaSpec bs m))"
| "spec_max_memory d cfg (EncoderOnlyAttentionSpec bs a) = Inr 0"
| "spec_max_memory d cfg (CrossAttentionSpec bs a) =
     max_memory_cross cfg bs (page_size_bytes d (CrossAttentionSpec bs a))"
| "spec_max_memory d cfg (UniformTypeKVCacheSpecs bs l) =
     rbind (spec_max_pages d cfg l) (\<lambda>ps. rbind (py_max ps) (\<lambda>max_num_pages.
     rbind (page_size_sum d l) (\<lambda>n. Inr (max_num_pages * n))))"
| "spec_max_pages d cfg [] = Inr []"
| "spec_max_pages d cfg ((_, s) # l) =
     rbind (spec_max_memory d cfg s) (\<lambda>m. rbind (page_size_bytes d s) (\<lambda>n.
     rbind (py_cdiv m n) (\<lambda>k. rbind (spec_max_pages d cfg l) (\<lambda>ps. Inr (k # ps)))))"

section \<open>Merging\<close>

text \<open>A set of window sizes as the list of its elements without duplicates.\<close>

definition merge_window_sizes :: "int list \<Rightarrow> int option res" where
  "merge_window_sizes window_sizes =
     (case remdups window_sizes of
        [] \<Rightarrow> Inr None
      | [w] \<Rightarrow> Inr (Some w)
      | _ \<Rightarrow> Inl ValueError)"

fun full_parts :: "kv_cache_spec \<Rightarrow> (int \<times> attn_spec \<times> full_fields) option" where
  "full_parts (FullAttentionSpec bs a f) = Some (bs, a, f)"
| "full_parts (MLAAttentionSpec bs a f _) = Some (bs, a, f)"
| "full_parts (SinkFullAttentionSpec bs a f _) = Some (bs, a, f)"
| "full_parts _ = None"

fun is_mla :: "kv_cache_spec \<Rightarrow> bool" where
  "is_mla (MLAAttentionSpec _ _ _ _) = True"
| "is_mla _ = False"

definition some_values :: "'a option list \<Rightarrow> 'a list" where
  "some_values xs = concat (map (\<lambda>x. case x of None \<Rightarrow> [] | Some v \<Rightarrow> [v]) xs)"

text \<open>
  The body that \<open>FullAttentionSpec.merge\<close> and \<open>SinkFullAttentionSpec.merge\<close> share: the block
  size, the attention fields and the merged windows of the result.
\<close>

definition merge_full ::
    "kv_cache_spec list \<Rightarrow> (int \<times> attn_spec \<times> full_fields) res" where
  "merge_full specs =
     rbind (py_assert (list_all is_full_attention specs)) (\<lambda>_.
     let parts = some_values (map full_parts specs);
         sliding = some_values (map (\<lambda>(_, _, f). full_sliding_window f) parts);
         chunk = some_values (map (\<lambda>(_, _, f). full_attention_chunk_size f) parts)
     in rbind (py_assert (\<not> list_ex is_mla specs)) (\<lambda>_.
        rbind (py_get parts 0) (\<lambda>(bs, a, f).
        rbind (merge_window_sizes sliding) (\<lambda>sw.
        rbind (merge_window_sizes chunk) (\<lambda>ac.
        rbind (py_assert (list_all (\<lambda>(bs', a', _). bs' = bs \<and> a' = a) parts)) (\<lambda>_.
        rbind (py_assert (sw = None \<or> ac = None)) (\<lambda>_.
        Inr (bs, a, \<lparr>head_size_v = head_size_v f, full_sliding_window = sw,
                     full_attention_chunk_size = ac\<rparr>))))))))"

fun mla_dtype :: "kv_cache_spec \<Rightarrow> string option" where
  "mla_dtype (MLAAttentionSpec _ _ _ c) = c"
| "mla_dtype _ = None"

definition merge_mla :: "kv_cache_spec list \<Rightarrow> kv_cache_spec res" where
  "merge_mla specs =
     rbind (py_assert (list_all is_mla specs)) (\<lambda>_.
     rbind (py_assert (length (remdups (map mla_dtype specs)) = 1)) (\<lambda>_.
     rbind (py_get specs 0) (\<lambda>s.
     case full_parts s of
       None \<Rightarrow> Inl AssertionError
     | Some (bs, a, _) \<Rightarrow> Inr (MLAAttentionSpec bs a (full_post_init a None None None) (mla_dtype s)))))"

text \<open>\<open>specs[0].merge(specs)\<close>, by the class of the first specification.\<close>

definition merge_specs :: "kv_cache_spec list \<Rightarrow> kv_cache_spec res" where
  "merge_specs specs =
     (case specs of
        [] \<Rightarrow> Inl IndexError
      | s0 # rest \<Rightarrow>
         (case s0 of
            FullAttentionSpec _ _ _ \<Rightarrow>
              rbind (merge_full specs) (\<lambda>(bs, a, f). Inr (FullAttentionSpec bs a f))
          | SinkFullAttentionSpec _ _ _ sink_len \<Rightarrow>
              rbind (merge_full specs) (\<lambda>(bs, a, f). Inr (SinkFullAttentionSpec bs a f sink_len))
          | MLAAttentionSpec _ _ _ _ \<Rightarrow> merge_mla specs
          | _ \<Rightarrow> rbind (py_assert (list_all (\<lambda>s. s = s0) rest)) (\<lambda>_. Inr s0)))"

fun same_type :: "kv_cache_spec \<Rightarrow> kv_cache_spec \<Rightarrow> bool res" where
  "same_type (CrossAttentionSpec _ _) s = Inr (case s of CrossAttentionSpec _ _ \<Rightarrow> True | _ \<Rightarrow> False)"
| "same_type (SlidingWindowSpec _ _ w) s =
     Inr (case s of SlidingWindowSpec _ _ w' \<Rightarrow> w' = w | _ \<Rightarrow> False)"
| "same_type (ChunkedLocalAttentionSpec _ _ c) s =
     Inr (case s of ChunkedLocalAttentionSpec _ _ c' \<Rightarrow> c' = c | _ \<Rightarrow> False)"
| "same_type (MambaSpec _ m) s = Inr (case s of
       MambaSpec _ m' \<Rightarrow> num_speculative_blocks m' = num_speculative_blocks m | _ \<Rightarrow> False)"
| "same_type s0 s = (if is_full_attention s0 then Inr (is_full_attention s) else Inl NotImplementedError)"

definition is_uniform_type :: "(string \<times> kv_cache_spec) list \<Rightarrow> bool res" where
  "is_uniform_type kv_cache_specs =
     (let specs = map snd kv_cache_specs in
      if length (remdups (map spec_block_size specs)) > 1 then Inr False
      else (case specs of
          [] \<Rightarrow> Inl StopIteration
        | one_spec # _ \<Rightarrow>
            rfold (\<lambda>s ok. rbind (same_type one_spec s) (\<lambda>b. Inr (ok \<and> b))) specs True))"

definition from_specs :: "(string \<times> kv_cache_spec) list \<Rightarrow> kv_cache_spec option res" where
  "from_specs kv_cache_specs =
     rbind (is_uniform_type kv_cache_specs) (\<lambda>b.
       if \<not> b then Inr None
       else (case kv_cache_specs of
           [] \<Rightarrow> Inl StopIteration
         | (_, s) # _ \<Rightarrow> Inr (Some (UniformTypeKVCacheSpecs (spec_block_size s) kv_cache_specs))))"

record kv_cache_tensor =
  tensor_size :: int
  shared_by :: "string list"

record kv_cache_group_spec =
  layer_names :: "string list"
  group_spec :: kv_cache_spec

record kv_cache_config =
  num_blocks :: int
  kv_cache_tensors :: "kv_cache_tensor list"
  kv_cache_groups :: "kv_cache_group_spec list"

end
