(* ===== verification/Single_Type_Manager.thy ===== *)
theory Single_Type_Manager
  imports Block_Pool KV_Cache_Interface
begin

text \<open>
  \<^verbatim>\<open>vllm/v1/core/single_type_kv_cache_manager.py\<close>: the manager of the blocks of one KV
  cache group.  The subclasses of \<open>SingleTypeKVCacheManager\<close> are the constructors of
  \<open>manager_class\<close>; an overridden method is a case of the definition.  A Python dictionary is an
  association list in insertion order, and reading \<open>req_to_blocks[request_id]\<close>, a
  \<open>defaultdict\<close>, adds an empty entry.

  The blocks of the pool have distinct ids, so the field-wise equality of the dataclass
  \<open>KVCacheBlock\<close> that the code uses to recognise the null block is equality of references.
\<close>

section \<open>The manager\<close>

datatype manager_class =
    FullAttentionManager | SlidingWindowManager | ChunkedLocalAttentionManager | MambaManager
  | CrossAttentionManager | SinkFullAttentionManager

record manager =
  mgr_class :: manager_class
  mgr_spec :: kv_cache_spec
  mgr_block_size :: int
  mgr_caching :: bool
  kv_cache_group_id :: int
  req_to_blocks :: "(string \<times> bref list) list"
  num_cached_block :: "(string \<times> int) list"
  last_state_block_idx :: "(string \<times> int) list"
  allocated_block_reqs :: "string set"
  sink_blocks :: "bref list"

fun spec_manager_map :: "kv_cache_spec \<Rightarrow> manager_class res" where
  "spec_manager_map (FullAttentionSpec _ _ _) = Inr FullAttentionManager"
| "spec_manager_map (MLAAttentionSpec _ _ _ _) = Inr FullAttentionManager"
| "spec_manager_map (SlidingWindowSpec _ _ _) = Inr SlidingWindowManager"
| "spec_manager_map (ChunkedLocalAttentionSpec _ _ _) = Inr ChunkedLocalAttentionManager"
| "spec_manager_map (MambaSpec _ _) = Inr MambaManager"
| "spec_manager_map (CrossAttentionSpec _ _) = Inr CrossAttentionManager"
| "spec_manager_map (SinkFullAttentionSpec _ _ _ _) = Inr SinkFullAttentionManager"
| "spec_manager_map (EncoderOnlyAttentionSpec _ _) = Inl KeyError"
| "spec_manager_map (UniformTypeKVCacheSpecs _ _) = Inl KeyError"

definition SingleTypeKVCacheManager ::
    "manager_class \<Rightarrow> kv_cache_spec \<Rightarrow> bool \<Rightarrow> int \<Rightarrow> int \<Rightarrow> int \<Rightarrow> manager" where
  "SingleTypeKVCacheManager cls spec caching group_id dcp_world_size pcp_world_size =
     (let cp = dcp_world_size * pcp_world_size in
      \<lparr>mgr_class = cls, mgr_spec = spec,
       mgr_block_size = (if cp > 1 then spec_block_size spec * cp else spec_block_size spec),
       mgr_caching = caching, kv_cache_group_id = group_id, req_to_blocks = [],
       num_cached_block = [], last_state_block_idx = [], allocated_block_reqs = {},
       sink_blocks = []\<rparr>)"

text \<open>\<open>SinkFullAttentionManager.__init__\<close> takes the sink blocks straight from the free queue.\<close>

definition init_sink :: "int option \<Rightarrow> manager \<Rightarrow> block_pool \<Rightarrow> (manager \<times> block_pool) res" where
  "init_sink sink_len m p =
     (case sink_len of
        None \<Rightarrow> Inl AssertionError
      | Some n \<Rightarrow>
          rbind (py_assert (n > 0 \<and> n mod mgr_block_size m = 0)) (\<lambda>_.
          rbind (popleft_n (n div mgr_block_size m) (free_block_queue p)) (\<lambda>(bs, q).
          Inr (m\<lparr>sink_blocks := bs\<rparr>, p\<lparr>free_block_queue := q\<rparr>))))"

definition get_manager_for_kv_cache_spec ::
    "kv_cache_spec \<Rightarrow> bool \<Rightarrow> int \<Rightarrow> int \<Rightarrow> int \<Rightarrow> block_pool \<Rightarrow> (manager \<times> block_pool) res" where
  "get_manager_for_kv_cache_spec spec caching group_id dcp_world_size pcp_world_size p =
     rbind (spec_manager_map spec) (\<lambda>cls.
     let m = SingleTypeKVCacheManager cls spec caching group_id dcp_world_size pcp_world_size in
     case spec of
       SinkFullAttentionSpec _ _ _ sink_len \<Rightarrow> init_sink sink_len m p
     | _ \<Rightarrow> Inr (m, p))"

text \<open>Reading the dictionaries.\<close>

definition blocks_of :: "manager \<Rightarrow> string \<Rightarrow> bref list" where
  "blocks_of m rid = (case map_of (req_to_blocks m) rid of None \<Rightarrow> [] | Some bs \<Rightarrow> bs)"

definition set_blocks :: "string \<Rightarrow> bref list \<Rightarrow> manager \<Rightarrow> manager" where
  "set_blocks rid bs m = m\<lparr>req_to_blocks := AList.update rid bs (req_to_blocks m)\<rparr>"

definition default_entry :: "string \<Rightarrow> manager \<Rightarrow> manager" where
  "default_entry rid m = set_blocks rid (blocks_of m rid) m"

definition mamba_of :: "manager \<Rightarrow> mamba_fields option" where
  "mamba_of m = (case mgr_spec m of MambaSpec _ f \<Rightarrow> Some f | _ \<Rightarrow> None)"

definition is_align :: "manager \<Rightarrow> bool" where
  "is_align m = (case mamba_of m of Some f \<Rightarrow> mamba_cache_mode f = ''align'' | None \<Rightarrow> False)"

definition spec_blocks :: "manager \<Rightarrow> int" where
  "spec_blocks m = (case mamba_of m of Some f \<Rightarrow> num_speculative_blocks f | None \<Rightarrow> 0)"

section \<open>Skipped tokens\<close>

definition get_num_skipped_tokens :: "manager \<Rightarrow> int \<Rightarrow> int" where
  "get_num_skipped_tokens m n_computed =
     (case (mgr_class m, mgr_spec m) of
        (SlidingWindowManager, SlidingWindowSpec _ _ w) \<Rightarrow> max 0 (n_computed - w + 1)
      | (ChunkedLocalAttentionManager, ChunkedLocalAttentionSpec _ _ c) \<Rightarrow>
          n_computed div c * c
      | (MambaManager, _) \<Rightarrow> n_computed - 1
      | _ \<Rightarrow> 0)"

section \<open>Counting the blocks an allocation needs\<close>

definition get_num_evictable_blocks :: "block_pool \<Rightarrow> bref list \<Rightarrow> int" where
  "get_num_evictable_blocks p blocks =
     py_len (filter (\<lambda>b. ref_cnt (pool_heap p b) = 0 \<and> \<not> is_null (pool_heap p b)) blocks)"

definition num_blocks_to_allocate_base ::
    "manager \<Rightarrow> block_pool \<Rightarrow> string \<Rightarrow> int \<Rightarrow> bref list \<Rightarrow> int \<Rightarrow> int res" where
  "num_blocks_to_allocate_base m p rid n_tokens new_computed_blocks total_computed_tokens =
     (let num_required_blocks = cdiv n_tokens (mgr_block_size m);
          num_req_blocks = py_len (blocks_of m rid)
      in if map_of (num_cached_block m) rid \<noteq> None
         then rbind (py_assert (new_computed_blocks = []))
                (\<lambda>_. Inr (max (num_required_blocks - num_req_blocks) 0))
         else
           let num_skipped_blocks =
                 get_num_skipped_tokens m total_computed_tokens div mgr_block_size m;
               num_local_computed_blocks = py_len new_computed_blocks + num_req_blocks;
               num_new_blocks = max (num_required_blocks -
                 max num_skipped_blocks num_local_computed_blocks) 0;
               num_skipped_new_computed_blocks = max 0 (num_skipped_blocks - num_req_blocks)
           in Inr (num_new_blocks + get_num_evictable_blocks p
                (py_from new_computed_blocks num_skipped_new_computed_blocks)))"

definition num_blocks_to_allocate_align ::
    "manager \<Rightarrow> block_pool \<Rightarrow> string \<Rightarrow> bref list \<Rightarrow> int \<Rightarrow> int" where
  "num_blocks_to_allocate_align m p rid new_computed_blocks num_tokens_main_model =
     (let num_required_blocks = cdiv num_tokens_main_model (mgr_block_size m) + spec_blocks m;
          n0 = num_required_blocks - py_len new_computed_blocks - py_len (blocks_of m rid);
          num_new_blocks = (if n0 > 0
            then (if rid \<in> allocated_block_reqs m then 1 else 1 + spec_blocks m) else n0)
      in num_new_blocks + get_num_evictable_blocks p new_computed_blocks)"

definition get_num_blocks_to_allocate ::
    "manager \<Rightarrow> block_pool \<Rightarrow> string \<Rightarrow> int \<Rightarrow> bref list \<Rightarrow> int \<Rightarrow> int \<Rightarrow> (int \<times> manager) res" where
  "get_num_blocks_to_allocate m p rid n_tokens new_computed_blocks
      total_computed_tokens num_tokens_main_model =
     (if mgr_class m = MambaManager then
        (if \<not> is_align m then
           let n = (if spec_blocks m > 0
                    then n_tokens + spec_block_size (mgr_spec m) * spec_blocks m else n_tokens)
           in rbind (num_blocks_to_allocate_base m p rid n new_computed_blocks
                total_computed_tokens) (\<lambda>k. Inr (k, m))
         else Inr (num_blocks_to_allocate_align m p rid new_computed_blocks
                num_tokens_main_model, default_entry rid m))
      else rbind (num_blocks_to_allocate_base m p rid n_tokens new_computed_blocks
             total_computed_tokens) (\<lambda>k. Inr (k, m)))"

section \<open>Allocation\<close>

definition allocate_computed_base ::
    "string \<Rightarrow> bref list \<Rightarrow> int \<Rightarrow> int \<Rightarrow> manager \<times> block_pool \<Rightarrow> (manager \<times> block_pool) res" where
  "allocate_computed_base rid new_computed_blocks num_local_computed_tokens
      num_external_computed_tokens = (\<lambda>(m, p).
     if map_of (num_cached_block m) rid \<noteq> None
     then rbind (py_assert (new_computed_blocks = [])) (\<lambda>_. Inr (m, p))
     else
       rbind (py_assert (blocks_of m rid = [])) (\<lambda>_.
       let num_total_computed_tokens = num_local_computed_tokens + num_external_computed_tokens;
           num_skipped_tokens = get_num_skipped_tokens m num_total_computed_tokens;
           num_skipped_blocks = num_skipped_tokens div mgr_block_size m;
           computed = (if num_skipped_blocks > 0
             then py_from new_computed_blocks num_skipped_blocks else new_computed_blocks);
           external = (if num_skipped_blocks > 0
             then min (num_total_computed_tokens - num_skipped_tokens) num_external_computed_tokens
             else num_external_computed_tokens)
       in rbind (if mgr_caching m then touch computed p
                 else rbind (py_assert (computed = [])) (\<lambda>_. Inr p)) (\<lambda>p1.
          let req_blocks = py_repeat (null_block p) num_skipped_blocks @ computed;
              m1 = (set_blocks rid req_blocks m)
                \<lparr>num_cached_block := AList.update rid (py_len req_blocks) (num_cached_block m)\<rparr>
          in if external > 0 then
               rbind (get_new_blocks
                   (cdiv num_total_computed_tokens (mgr_block_size m) - py_len req_blocks) p1)
                 (\<lambda>(allocated_blocks, p2).
                   Inr (set_blocks rid (req_blocks @ allocated_blocks) m1, p2))
             else Inr (m1, p1))))"

definition allocate_new_computed_blocks ::
    "string \<Rightarrow> bref list \<Rightarrow> int \<Rightarrow> int \<Rightarrow> manager \<times> block_pool \<Rightarrow> (manager \<times> block_pool) res" where
  "allocate_new_computed_blocks rid new_computed_blocks num_local num_external = (\<lambda>(m, p).
     if mgr_class m = CrossAttentionManager
     then rbind (py_assert (new_computed_blocks = [])) (\<lambda>_. Inr (m, p))
     else allocate_computed_base rid new_computed_blocks num_local num_external (m, p))"

definition allocate_base ::
    "string \<Rightarrow> int \<Rightarrow> manager \<times> block_pool \<Rightarrow> (bref list \<times> manager \<times> block_pool) res" where
  "allocate_base rid n_tokens = (\<lambda>(m, p).
     let req_blocks = blocks_of m rid;
         num_new_blocks = cdiv n_tokens (mgr_block_size m) - py_len req_blocks
     in if num_new_blocks \<le> 0 then Inr ([], default_entry rid m, p)
        else rbind (get_new_blocks num_new_blocks p) (\<lambda>(new_blocks, p').
          Inr (new_blocks, set_blocks rid (req_blocks @ new_blocks) m, p')))"

text \<open>
  The \<open>align\<close> mode of Mamba: the loop that moves the speculative blocks of the previous step to
  the end of the list and leaves null blocks behind.
\<close>

fun move_spec_blocks :: "bref \<Rightarrow> int \<Rightarrow> int list \<Rightarrow> bref list \<Rightarrow> bref list res" where
  "move_spec_blocks null num_skipped_blocks [] req_blocks = Inr req_blocks"
| "move_spec_blocks null num_skipped_blocks (i # is) req_blocks =
     (if i < num_skipped_blocks then
        rbind (py_get req_blocks i) (\<lambda>b.
        rbind (py_set (req_blocks @ [b]) i null) (move_spec_blocks null num_skipped_blocks is))
      else Inr req_blocks)"

definition allocate_align ::
    "string \<Rightarrow> int \<Rightarrow> manager \<times> block_pool \<Rightarrow> (bref list \<times> manager \<times> block_pool) res" where
  "allocate_align rid num_tokens_main_model = (\<lambda>(m, p).
     let req_blocks = blocks_of m rid;
         nspec = spec_blocks m;
         num_required_blocks = cdiv num_tokens_main_model (mgr_block_size m) + nspec
     in if num_required_blocks = py_len req_blocks then Inr ([], default_entry rid m, p)
        else rbind (py_assert (num_required_blocks > py_len req_blocks)) (\<lambda>_.
          let prev_block_len = py_len req_blocks;
              blocks_allocated = rid \<in> allocated_block_reqs m;
              idx = (if blocks_allocated
                then AList.update rid (prev_block_len - 1 - nspec) (last_state_block_idx m)
                else if prev_block_len > 0
                then AList.update rid (prev_block_len - 1) (last_state_block_idx m)
                else last_state_block_idx m);
              num_skipped_blocks = num_required_blocks - nspec - 1;
              padded = req_blocks @ py_repeat (null_block p) (num_skipped_blocks - prev_block_len)
          in rbind (if blocks_allocated
                    then move_spec_blocks (null_block p) num_skipped_blocks
                           [prev_block_len - nspec .. prev_block_len - 1] padded
                    else Inr padded) (\<lambda>moved.
             let num_new_blocks = num_required_blocks - py_len moved in
             rbind (py_assert (num_new_blocks \<le> (if blocks_allocated then 1 else nspec + 1))) (\<lambda>_.
             rbind (get_new_blocks num_new_blocks p) (\<lambda>(new_blocks, p').
             let all_blocks = moved @ new_blocks
             in Inr (py_from all_blocks prev_block_len,
                  (set_blocks rid all_blocks m)
                    \<lparr>last_state_block_idx := idx,
                     allocated_block_reqs := insert rid (allocated_block_reqs m)\<rparr>, p'))))))"

definition allocate_new_blocks ::
    "string \<Rightarrow> int \<Rightarrow> int \<Rightarrow> manager \<times> block_pool \<Rightarrow> (bref list \<times> manager \<times> block_pool) res" where
  "allocate_new_blocks rid n_tokens num_tokens_main_model = (\<lambda>(m, p).
     if mgr_class m = MambaManager then
       (if \<not> is_align m then
          allocate_base rid (if spec_blocks m > 0
            then n_tokens + mgr_block_size m * spec_blocks m else n_tokens) (m, p)
        else allocate_align rid num_tokens_main_model (m, p))
     else allocate_base rid n_tokens (m, p))"

section \<open>Caching and freeing\<close>

definition cache_blocks ::
    "request \<Rightarrow> int \<Rightarrow> manager \<times> block_pool \<Rightarrow> (manager \<times> block_pool) res" where
  "cache_blocks r n_tokens = (\<lambda>(m, p).
     if mgr_class m = CrossAttentionManager then Inl ValueError
     else
       let num_cached_blocks =
             (case map_of (num_cached_block m) (request_id r) of None \<Rightarrow> 0 | Some n \<Rightarrow> n);
           num_full_blocks = n_tokens div mgr_block_size m
       in if num_cached_blocks \<ge> num_full_blocks then Inr (m, p)
          else rbind (cache_full_blocks r (blocks_of m (request_id r)) num_cached_blocks
                 num_full_blocks (mgr_block_size m) (kv_cache_group_id m) p) (\<lambda>p'.
            Inr ((default_entry (request_id r) m)
                   \<lparr>num_cached_block := AList.update (request_id r) num_full_blocks
                      (num_cached_block m)\<rparr>, p')))"

definition mgr_free :: "string \<Rightarrow> manager \<times> block_pool \<Rightarrow> (manager \<times> block_pool) res" where
  "mgr_free rid = (\<lambda>(m0, p).
     let m = (if mgr_class m0 = MambaManager \<and> is_align m0
              then m0\<lparr>allocated_block_reqs := allocated_block_reqs m0 - {rid},
                      last_state_block_idx := AList.delete rid (last_state_block_idx m0)\<rparr>
              else m0)
     in rbind (free_blocks (rev (blocks_of m rid)) p) (\<lambda>p'.
        Inr (m\<lparr>req_to_blocks := AList.delete rid (req_to_blocks m),
               num_cached_block := AList.delete rid (num_cached_block m)\<rparr>, p')))"

text \<open>The loop of \<open>remove_skipped_blocks\<close>, from index \<open>i - 1\<close> down to 0.\<close>

fun skip_loop :: "bref \<Rightarrow> nat \<Rightarrow> bref list \<Rightarrow> bref list \<Rightarrow> bref list \<times> bref list" where
  "skip_loop null 0 blocks removed = (blocks, removed)"
| "skip_loop null (Suc i) blocks removed =
     (if blocks ! i = null then (blocks, removed)
      else skip_loop null i (blocks[i := null]) (removed @ [blocks ! i]))"

definition remove_skipped_base ::
    "string \<Rightarrow> int \<Rightarrow> manager \<times> block_pool \<Rightarrow> (manager \<times> block_pool) res" where
  "remove_skipped_base rid total_computed_tokens = (\<lambda>(m, p).
     let num_skipped_tokens = get_num_skipped_tokens m total_computed_tokens in
     if num_skipped_tokens \<le> 0 then Inr (m, p)
     else
       let blocks = blocks_of m rid;
           num_skipped_blocks = min (num_skipped_tokens div mgr_block_size m) (py_len blocks);
           (blocks', removed_blocks) = skip_loop (null_block p) (nat num_skipped_blocks) blocks []
       in rbind (free_blocks removed_blocks p) (\<lambda>p'.
          Inr (set_blocks rid blocks' m, p')))"

definition remove_skipped_blocks ::
    "string \<Rightarrow> int \<Rightarrow> manager \<times> block_pool \<Rightarrow> (manager \<times> block_pool) res" where
  "remove_skipped_blocks rid n_computed = (\<lambda>(m0, p0).
     rbind (remove_skipped_base rid n_computed (m0, p0)) (\<lambda>(m, p).
     if mgr_class m = MambaManager \<and> is_align m then
       (case map_of (last_state_block_idx m) rid of
          None \<Rightarrow> Inr (m, p)
        | Some i \<Rightarrow>
            if i < cdiv n_computed (mgr_block_size m) - 1 then
              rbind (py_get (blocks_of m rid) i) (\<lambda>b.
              if b \<noteq> null_block p then
                rbind (free_blocks [b] p) (\<lambda>p'.
                rbind (py_set (blocks_of m rid) i (null_block p)) (\<lambda>bs.
                Inr (set_blocks rid bs m, p')))
              else Inr (default_entry rid m, p))
            else Inr (m, p))
     else Inr (m, p)))"

text \<open>Counting the leading blocks that every request with an entry shares.\<close>

definition get_num_common_prefix_blocks :: "manager \<Rightarrow> block_pool \<Rightarrow> string \<Rightarrow> int \<times> manager" where
  "get_num_common_prefix_blocks m p running_request_id =
     (if mgr_class m \<in> {FullAttentionManager, SinkFullAttentionManager}
      then let m' = default_entry running_request_id m in
        (py_len (takeWhile (\<lambda>b. ref_cnt (pool_heap p b) = py_len (req_to_blocks m'))
           (blocks_of m' running_request_id)), m')
      else (0, m))"

section \<open>Prefix cache hits\<close>

text \<open>\<open>if cached_block := block_pool.get_cached_block(...)\<close>: an empty list is also a miss.\<close>

definition cached_or_none :: "block_pool \<Rightarrow> int list \<Rightarrow> block_hash_list \<Rightarrow> int \<Rightarrow> bref list option res" where
  "cached_or_none p group_ids hashes i =
     rbind (bhl_get hashes i) (\<lambda>h.
     rbind (get_cached_block h group_ids p) (\<lambda>c.
     Inr (case c of Some [] \<Rightarrow> None | _ \<Rightarrow> c)))"

fun extend_hits ::
    "block_pool \<Rightarrow> int list \<Rightarrow> block_hash_list \<Rightarrow> int list \<Rightarrow> bref list list \<Rightarrow> bref list list res" where
  "extend_hits p group_ids hashes [] computed_blocks = Inr computed_blocks"
| "extend_hits p group_ids hashes (i # is) computed_blocks =
     rbind (cached_or_none p group_ids hashes i) (\<lambda>c.
     case c of
       None \<Rightarrow> Inr computed_blocks
     | Some cached \<Rightarrow>
         extend_hits p group_ids hashes is (map2 (\<lambda>bs b. bs @ [b]) computed_blocks cached))"

definition pop_all :: "bref list list \<Rightarrow> bref list list res" where
  "pop_all computed_blocks =
     (if [] \<in> set computed_blocks then Inl IndexError else Inr (map butlast computed_blocks))"

definition pop_eagle :: "bool \<Rightarrow> bref list list \<Rightarrow> bref list list res" where
  "pop_eagle use_eagle computed_blocks =
     (if use_eagle then
        rbind (py_get computed_blocks 0)
          (\<lambda>c. if c \<noteq> [] then pop_all computed_blocks else Inr computed_blocks)
      else Inr computed_blocks)"

text \<open>The \<open>while\<close> loop that drops blocks until the hit length is aligned.\<close>

function trim_aligned :: "int \<Rightarrow> int \<Rightarrow> bref list list \<Rightarrow> bref list list res" where
  "trim_aligned block_size alignment_tokens computed_blocks =
     (if block_size = alignment_tokens then Inr computed_blocks
      else (case computed_blocks of
          [] \<Rightarrow> Inl IndexError
        | c # rest \<Rightarrow>
            if alignment_tokens = 0 then Inl ZeroDivisionError
            else if py_len c * block_size mod alignment_tokens \<noteq> 0 then
              (if [] \<in> set computed_blocks then Inl IndexError
               else trim_aligned block_size alignment_tokens (butlast c # map butlast rest))
            else Inr computed_blocks))"
  by pat_completeness auto
termination
  by (relation "measure (\<lambda>(_, _, cs). case cs of [] \<Rightarrow> 0 | c # _ \<Rightarrow> length c)") auto

declare trim_aligned.simps [simp del]

definition find_full ::
    "block_hash_list \<Rightarrow> int \<Rightarrow> int list \<Rightarrow> block_pool \<Rightarrow> kv_cache_spec \<Rightarrow> bool \<Rightarrow> int \<Rightarrow> int \<Rightarrow> int \<Rightarrow>
     bref list list res" where
  "find_full hashes max_length group_ids p spec use_eagle alignment_tokens dcp pcp =
     rbind (py_assert (is_full_attention spec \<or>
       (case spec of ChunkedLocalAttentionSpec _ _ _ \<Rightarrow> True | _ \<Rightarrow> False))) (\<lambda>_.
     let block_size = (if dcp * pcp > 1 then spec_block_size spec * (dcp * pcp)
                       else spec_block_size spec) in
     rbind (py_floordiv max_length block_size) (\<lambda>max_num_blocks.
     if max_num_blocks < 0 then Inl ValueError
     else
       rbind (extend_hits p group_ids hashes [0..min max_num_blocks (bhl_len hashes) - 1]
                (map (\<lambda>_. []) group_ids)) (\<lambda>c1.
       rbind (pop_eagle use_eagle c1) (\<lambda>c2.
       trim_aligned block_size alignment_tokens c2))))"

text \<open>
  The right-to-left scan of the sliding window; the result says whether enough contiguous blocks
  were found.
\<close>

fun window_scan ::
    "block_pool \<Rightarrow> int list \<Rightarrow> block_hash_list \<Rightarrow> int \<Rightarrow> int \<Rightarrow> int \<Rightarrow> nat \<Rightarrow> bref list list \<Rightarrow> int \<Rightarrow>
     (bref list list \<times> int \<times> bool) res" where
  "window_scan p group_ids hashes bs al need 0 computed_blocks contiguous =
     Inr (computed_blocks, contiguous, False)"
| "window_scan p group_ids hashes bs al need (Suc i) computed_blocks contiguous =
     rbind (cached_or_none p group_ids hashes (int i)) (\<lambda>c.
     case c of
       None \<Rightarrow> window_scan p group_ids hashes bs al need i computed_blocks 0
     | Some cached \<Rightarrow>
         if contiguous = 0 \<and> bs \<noteq> al \<and> (int i + 1) * bs mod al \<noteq> 0
         then window_scan p group_ids hashes bs al need i computed_blocks contiguous
         else
           let computed' = map2 (\<lambda>xs b. xs[i := b]) computed_blocks cached;
               contiguous' = contiguous + 1
           in if contiguous' \<ge> need
              then Inr (map (take (i + nat contiguous')) computed', contiguous', True)
              else window_scan p group_ids hashes bs al need i computed' contiguous')"

definition find_sliding ::
    "block_hash_list \<Rightarrow> int \<Rightarrow> int list \<Rightarrow> block_pool \<Rightarrow> kv_cache_spec \<Rightarrow> bool \<Rightarrow> int \<Rightarrow> int \<Rightarrow> int \<Rightarrow>
     bref list list res" where
  "find_sliding hashes max_length group_ids p spec use_eagle alignment_tokens dcp pcp =
     (case spec of
        SlidingWindowSpec bs a w \<Rightarrow>
          rbind (py_assert (dcp = 1)) (\<lambda>_. rbind (py_assert (pcp = 1)) (\<lambda>_.
          rbind (py_cdiv (w - 1) bs) (\<lambda>need0.
          let need = (if use_eagle then need0 + 1 else need0);
              max_num_blocks = max_length div bs
          in rbind (window_scan p group_ids hashes bs alignment_tokens need (nat max_num_blocks)
                 (map (\<lambda>_. py_repeat (null_block p) max_num_blocks) group_ids) 0)
               (\<lambda>(computed, contiguous, match_found).
             rbind (if match_found then Inr computed
                    else trim_aligned bs alignment_tokens (map (take (nat contiguous)) computed))
               (\<lambda>c1.
             rbind (if use_eagle then py_get c1 0 else Inr []) (\<lambda>c0.
             if use_eagle \<and> c0 \<noteq> []
             then rbind (py_assert (bs = alignment_tokens)) (\<lambda>_. pop_all c1)
             else Inr c1))))))
      | _ \<Rightarrow> Inl AssertionError)"

definition find_chunked ::
    "block_hash_list \<Rightarrow> int \<Rightarrow> int list \<Rightarrow> block_pool \<Rightarrow> kv_cache_spec \<Rightarrow> bool \<Rightarrow> int \<Rightarrow> int \<Rightarrow> int \<Rightarrow>
     bref list list res" where
  "find_chunked hashes max_length group_ids p spec use_eagle alignment_tokens dcp pcp =
     (case spec of
        ChunkedLocalAttentionSpec bs a chunk \<Rightarrow>
          rbind (py_assert (\<not> use_eagle \<and> dcp = 1 \<and> pcp = 1 \<and> bs = alignment_tokens)) (\<lambda>_.
          rbind (py_floordiv max_length bs) (\<lambda>max_num_blocks.
          rbind (if max_length > 0
                 then rbind (py_floordiv max_length chunk) (\<lambda>k. Inr (k * chunk)) else Inr 0)
            (\<lambda>local_attention_start_idx.
          let start = local_attention_start_idx div bs
          in extend_hits p group_ids hashes [start..max_num_blocks - 1]
               (map (\<lambda>_. py_repeat (null_block p) start) group_ids))))
      | _ \<Rightarrow> Inl AssertionError)"

fun mamba_scan ::
    "block_pool \<Rightarrow> int list \<Rightarrow> block_hash_list \<Rightarrow> int \<Rightarrow> int \<Rightarrow> nat \<Rightarrow> bref list list res" where
  "mamba_scan p group_ids hashes bs al 0 = Inr (map (\<lambda>_. []) group_ids)"
| "mamba_scan p group_ids hashes bs al (Suc i) =
     rbind (cached_or_none p group_ids hashes (int i)) (\<lambda>c.
     case c of
       None \<Rightarrow> mamba_scan p group_ids hashes bs al i
     | Some cached \<Rightarrow>
         if bs \<noteq> al \<and> (int i + 1) * bs mod al \<noteq> 0 then mamba_scan p group_ids hashes bs al i
         else Inr (map (\<lambda>b. replicate i (null_block p) @ [b]) cached))"

definition find_mamba ::
    "block_hash_list \<Rightarrow> int \<Rightarrow> int list \<Rightarrow> block_pool \<Rightarrow> kv_cache_spec \<Rightarrow> bool \<Rightarrow> int \<Rightarrow> int \<Rightarrow> int \<Rightarrow>
     bref list list res" where
  "find_mamba hashes max_length group_ids p spec use_eagle alignment_tokens dcp pcp =
     (case spec of
        MambaSpec bs f \<Rightarrow>
          rbind (py_assert (dcp = 1 \<and> pcp = 1)) (\<lambda>_.
          rbind (py_floordiv max_length bs) (\<lambda>max_num_blocks.
          mamba_scan p group_ids hashes bs alignment_tokens (nat max_num_blocks)))
      | _ \<Rightarrow> Inl AssertionError)"

definition find_longest_cache_hit ::
    "manager_class \<Rightarrow> block_hash_list \<Rightarrow> int \<Rightarrow> int list \<Rightarrow> block_pool \<Rightarrow> kv_cache_spec \<Rightarrow> bool \<Rightarrow>
     int \<Rightarrow> int \<Rightarrow> int \<Rightarrow> bref list list res" where
  "find_longest_cache_hit cls hashes max_length group_ids p spec use_eagle al dcp pcp =
     (case cls of
        FullAttentionManager \<Rightarrow> find_full hashes max_length group_ids p spec use_eagle al dcp pcp
      | SinkFullAttentionManager \<Rightarrow> find_full hashes max_length group_ids p spec use_eagle al dcp pcp
      | SlidingWindowManager \<Rightarrow> find_sliding hashes max_length group_ids p spec use_eagle al dcp pcp
      | ChunkedLocalAttentionManager \<Rightarrow>
          find_chunked hashes max_length group_ids p spec use_eagle al dcp pcp
      | MambaManager \<Rightarrow> find_mamba hashes max_length group_ids p spec use_eagle al dcp pcp
      | CrossAttentionManager \<Rightarrow>
          (case spec of CrossAttentionSpec _ _ \<Rightarrow> Inl NotImplementedError | _ \<Rightarrow> Inl AssertionError))"

end
