(* ===== verification/Manager_Inv.thy ===== *)
theory Manager_Inv
  imports Pool_Inv Single_Type_Manager
begin

text \<open>
  The invariant of a manager on its pool.  The reference count of a block is the number of times
  it occurs in the block lists of this manager plus \<open>others\<close>, the occurrences in the other managers
  that share the pool.  Blocks of a request beyond \<open>num_cached_block\<close> carry no hash and are held
  by nobody else, so they can be cached.  Every operation keeps the invariant and the frame: a block
  that only the other managers hold and that has no hash keeps its count and its hash.
\<close>

section \<open>Counting occurrences in a dictionary\<close>

definition all_blocks :: "manager \<Rightarrow> bref list" where
  "all_blocks m = concat (map snd (req_to_blocks m))"

definition row :: "('k \<times> 'v list) list \<Rightarrow> 'k \<Rightarrow> 'v list" where
  "row d k = (case map_of d k of None \<Rightarrow> [] | Some v \<Rightarrow> v)"

definition occ :: "'v list \<Rightarrow> 'v \<Rightarrow> int" where
  "occ xs b = int (count_list xs b)"

lemma occ_simps [simp]:
  "occ [] b = 0" "occ (x # xs) b = (if x = b then 1 else 0) + occ xs b"
  "occ (xs @ ys) b = occ xs b + occ ys b" "occ (rev xs) b = occ xs b" "0 \<le> occ xs b"
  by (simp_all add: occ_def)

lemma occ_pos: "1 \<le> occ xs b \<longleftrightarrow> b \<in> set xs"
  using count_list_0_iff [of xs b] by (auto simp: occ_def)

lemma occ_zero: "occ xs b = 0 \<longleftrightarrow> b \<notin> set xs"
  by (simp add: occ_def count_list_0_iff)

lemma occ_distinct: "distinct xs \<Longrightarrow> occ xs b = (if b \<in> set xs then 1 else 0)"
  by (simp add: occ_def count_list_distinct)

lemma occ_filter: "P b \<Longrightarrow> occ (filter P xs) b = occ xs b"
  by (induction xs) auto

definition total :: "('k \<times> 'v list) list \<Rightarrow> 'v \<Rightarrow> int" where
  "total d b = occ (concat (map snd d)) b"

lemma total_simps [simp]: "total [] b = 0" "total ((k, v) # d) b = occ v b + total d b"
  "0 \<le> total d b"
  by (simp_all add: total_def)

lemma total_update:
  "distinct (map fst d) \<Longrightarrow> total (AList.update k v d) b = total d b - occ (row d k) b + occ v b"
proof (induction d)
  case Nil
  then show ?case by (simp add: row_def)
next
  case (Cons p d)
  obtain k' v' where p: "p = (k', v')" by (cases p)
  show ?case
  proof (cases "k' = k")
    case True
    then have "map_of d k = None" using Cons.prems p by (simp add: map_of_eq_None_iff)
    with True p show ?thesis by (simp add: row_def)
  next
    case False
    with Cons p show ?thesis by (simp add: row_def)
  qed
qed

lemma total_delete:
  "distinct (map fst d) \<Longrightarrow> total (AList.delete k d) b = total d b - occ (row d k) b"
proof (induction d)
  case Nil
  then show ?case by (simp add: row_def)
next
  case (Cons p d)
  obtain k' v' where p: "p = (k', v')" by (cases p)
  show ?case
  proof (cases "k' = k")
    case True
    then have "k \<notin> fst ` set d" using Cons.prems p by auto
    then have "AList.delete k d = d" "map_of d k = None"
      by (auto simp: AList.delete_eq map_of_eq_None_iff intro!: filter_True) force+
    with True p show ?thesis by (simp add: row_def)
  next
    case False
    with Cons p show ?thesis by (simp add: row_def)
  qed
qed

lemma row_Cons: "row ((j, v) # d) k = (if k = j then v else row d k)"
  by (simp add: row_def)

lemma row_le_total: "occ (row d k) b \<le> total d b"
proof (induction d)
  case (Cons p d)
  obtain j v where p: "p = (j, v)" by (cases p)
  have "0 \<le> occ v b" "0 \<le> total d b" by simp_all
  with Cons show ?case unfolding p row_Cons total_simps by (auto intro: add_increasing)
qed (simp add: row_def)

lemma two_rows_le_total:
  assumes "k \<noteq> k'"
  shows "occ (row d k) b + occ (row d k') b \<le> total d b"
proof (induction d)
  case (Cons p d)
  obtain j v where p: "p = (j, v)" by (cases p)
  have "0 \<le> occ v b" by simp
  with Cons assms row_le_total [of d k b] row_le_total [of d k' b] show ?case
    unfolding p row_Cons total_simps by (cases "k = j"; cases "k' = j") (auto intro: add_increasing)
qed (simp add: row_def)

lemma row_update: "row (AList.update k v d) k' = (if k' = k then v else row d k')"
  by (simp add: row_def AList.update_conv')

lemma row_delete: "row (AList.delete k d) k' = (if k' = k then [] else row d k')"
  by (simp add: row_def AList.delete_conv')

lemma total_pos_row:
  "1 \<le> total d b \<Longrightarrow> distinct (map fst d) \<Longrightarrow> \<exists>k. 1 \<le> occ (row d k) b"
proof (induction d)
  case Nil
  then show ?case by simp
next
  case (Cons p d)
  obtain j v where p: "p = (j, v)" by (cases p)
  show ?case
  proof (cases "1 \<le> occ v b")
    case True
    then show ?thesis by (intro exI [of _ j]) (simp add: p row_def)
  next
    case False
    then have "occ v b = 0" using occ_simps(5) [of v b] by linarith
    with Cons.prems p have "1 \<le> total d b" "distinct (map fst d)" by simp_all
    with Cons.IH obtain k where k: "1 \<le> occ (row d k) b" by blast
    have "k \<noteq> j"
    proof
      assume "k = j"
      moreover have "map_of d j = None" using Cons.prems(2) p by (simp add: map_of_eq_None_iff)
      ultimately show False using k by (simp add: row_def)
    qed
    with k show ?thesis by (intro exI [of _ k]) (simp add: p row_def)
  qed
qed

section \<open>The invariant\<close>

definition n_cached :: "manager \<Rightarrow> string \<Rightarrow> int" where
  "n_cached m rid = (case map_of (num_cached_block m) rid of None \<Rightarrow> 0 | Some n \<Rightarrow> n)"

definition uncached :: "manager \<Rightarrow> string \<Rightarrow> bref list" where
  "uncached m rid = drop (nat (n_cached m rid)) (blocks_of m rid)"

definition rows_ok :: "manager \<Rightarrow> block_pool \<Rightarrow> bool" where
  "rows_ok m p \<longleftrightarrow> distinct (map fst (req_to_blocks m)) \<and>
     (\<forall>rid. (\<forall>b \<in> set (blocks_of m rid). b \<in> usable p \<or> b = null_block p) \<and>
       distinct (real_blocks p (blocks_of m rid)) \<and> 0 \<le> n_cached m rid)"

definition fresh_tails :: "manager \<Rightarrow> block_pool \<Rightarrow> bool" where
  "fresh_tails m p \<longleftrightarrow> (\<forall>rid. \<forall>b \<in> set (real_blocks p (uncached m rid)).
     hash_of p b = None \<and> refs p b = 1)"

definition counted :: "manager \<Rightarrow> block_pool \<Rightarrow> (bref \<Rightarrow> int) \<Rightarrow> bool" where
  "counted m p others \<longleftrightarrow> (\<forall>b \<in> usable p. refs p b = total (req_to_blocks m) b + others b)"

definition mgr_inv :: "manager \<Rightarrow> block_pool \<Rightarrow> bref list \<Rightarrow> (bref \<Rightarrow> int) \<Rightarrow> bool" where
  "mgr_inv m p free others \<longleftrightarrow> pool_inv p free {} \<and> rows_ok m p \<and> fresh_tails m p \<and>
     counted m p others \<and> (\<forall>b. 0 \<le> others b) \<and>
     (\<not> enable_caching p \<longrightarrow> (\<forall>b \<in> usable p. hash_of p b = None))"

text \<open>The frame: what the other managers rely on.\<close>

definition frame :: "manager \<Rightarrow> (bref \<Rightarrow> int) \<Rightarrow> block_pool \<Rightarrow> block_pool \<Rightarrow> bool" where
  "frame m others p p' \<longleftrightarrow> pool_conf p' = pool_conf p \<and>
     (\<forall>b \<in> usable p. 1 \<le> others b \<and> total (req_to_blocks m) b = 0 \<and> hash_of p b = None \<longrightarrow>
       hash_of p' b = None \<and> refs p' b = refs p b)"

lemma blocks_of_row: "blocks_of m rid = row (req_to_blocks m) rid"
  by (simp add: blocks_of_def row_def)

lemma set_blocks_simps [simp]:
  "blocks_of (set_blocks rid bs m) rid' = (if rid' = rid then bs else blocks_of m rid')"
  "req_to_blocks (set_blocks rid bs m) = AList.update rid bs (req_to_blocks m)"
  "num_cached_block (set_blocks rid bs m) = num_cached_block m"
  "n_cached (set_blocks rid bs m) = n_cached m"
  "mgr_block_size (set_blocks rid bs m) = mgr_block_size m"
  "mgr_class (set_blocks rid bs m) = mgr_class m" "mgr_spec (set_blocks rid bs m) = mgr_spec m"
  "mgr_caching (set_blocks rid bs m) = mgr_caching m"
  "kv_cache_group_id (set_blocks rid bs m) = kv_cache_group_id m"
  by (simp_all add: set_blocks_def blocks_of_row row_update n_cached_def fun_eq_iff)

lemma real_blocks_conf: "pool_conf p' = pool_conf p \<Longrightarrow> real_blocks p' = real_blocks p"
  using confD(1) [of p' p] by (simp add: real_blocks_def fun_eq_iff)

lemma in_real_blocks: "b \<in> set (real_blocks p bs) \<longleftrightarrow> b \<in> set bs \<and> b \<noteq> null_block p"
  by (auto simp: real_blocks_def)

lemma usable_not_null: "b \<in> usable p \<Longrightarrow> b \<noteq> null_block p"
  by (simp add: usable_def)

text \<open>A free block occurs nowhere.\<close>

lemma free_block_occ:
  assumes "mgr_inv m p free others" and "b \<in> set free"
  shows "b \<in> usable p" "refs p b = 0" "total (req_to_blocks m) b = 0" "others b = 0"
proof -
  show u: "b \<in> usable p" "refs p b = 0" using assms by (auto simp: mgr_inv_def pool_inv_def)
  then have "total (req_to_blocks m) b + others b = 0"
    using assms(1) by (simp add: mgr_inv_def counted_def)
  moreover have "0 \<le> others b" "0 \<le> total (req_to_blocks m) b"
    using assms(1) by (simp_all add: mgr_inv_def)
  ultimately show "total (req_to_blocks m) b = 0" "others b = 0" by linarith+
qed

lemma occ_real: "b \<noteq> null_block p \<Longrightarrow> distinct (real_blocks p bs) \<Longrightarrow>
  occ bs b = (if b \<in> set bs then 1 else 0)"
  using occ_filter [of "\<lambda>b. b \<noteq> null_block p" b bs] occ_distinct [of "real_blocks p bs" b]
  by (auto simp: real_blocks_def)

text \<open>
  The shape shared by all operations on one request: its list becomes \<open>bs\<close>, the counts of the
  usable blocks follow, and the uncached tails stay fresh.
\<close>

lemma mgr_inv_step:
  assumes inv: "mgr_inv m p free others" and p': "pool_inv p' free' {}" and conf: "pool_conf p' = pool_conf p"
    and req: "req_to_blocks m' = AList.update rid bs (req_to_blocks m)"
    and valid: "\<forall>b \<in> set bs. b \<in> usable p \<or> b = null_block p" and dist: "distinct (real_blocks p bs)"
    and cached: "0 \<le> n_cached m' rid" "\<And>r. r \<noteq> rid \<Longrightarrow> n_cached m' r = n_cached m r"
    and refs: "\<And>b. b \<in> usable p \<Longrightarrow> refs p' b = refs p b - occ (blocks_of m rid) b + occ bs b"
    and tail: "\<And>b. b \<in> set (drop (nat (n_cached m' rid)) bs) \<Longrightarrow> b \<in> usable p \<Longrightarrow>
      hash_of p' b = None \<and> refs p' b = 1"
    and rest: "\<And>b. b \<in> usable p \<Longrightarrow> hash_of p b = None \<Longrightarrow> 1 \<le> refs p b \<Longrightarrow>
      b \<notin> set (blocks_of m rid) \<Longrightarrow> hash_of p' b = None \<and> refs p' b = refs p b"
    and off: "\<And>b. \<not> enable_caching p \<Longrightarrow> b \<in> usable p \<Longrightarrow> hash_of p b = None \<Longrightarrow> hash_of p' b = None"
  shows "mgr_inv m' p' free' others \<and> frame m others p p'"
proof
  have row': "blocks_of m' r = (if r = rid then bs else blocks_of m r)" for r
    using req by (simp add: blocks_of_row row_update)
  have nn: "null_block p' = null_block p" "usable p' = usable p" "real_blocks p' = real_blocks p"
    using confD(1) [OF conf] usable_conf [OF conf] real_blocks_conf [OF conf] by simp_all
  have d: "distinct (map fst (req_to_blocks m))" using inv by (simp add: mgr_inv_def rows_ok_def)
  have rows: "rows_ok m' p'"
    using inv valid dist cached d
    by (auto simp: rows_ok_def mgr_inv_def nn row' req intro: AList.distinct_update)
  have cnt: "counted m' p' others"
    using inv refs d by (auto simp: counted_def mgr_inv_def nn req total_update blocks_of_row)
  have others: "\<forall>b. 0 \<le> others b" using inv by (simp add: mgr_inv_def)
  have fresh: "fresh_tails m' p'"
    unfolding fresh_tails_def
  proof (intro allI ballI)
    fix r b assume b: "b \<in> set (real_blocks p' (uncached m' r))"
    show "hash_of p' b = None \<and> refs p' b = 1"
    proof (cases "r = rid")
      case True
      with b have bt: "b \<in> set (drop (nat (n_cached m' rid)) bs)" and "b \<noteq> null_block p"
        by (simp_all add: uncached_def row' nn in_real_blocks)
      with valid in_set_dropD [OF bt] have "b \<in> usable p" by blast
      with bt show ?thesis by (rule tail)
    next
      case False
      with b have ru: "b \<in> set (real_blocks p (uncached m r))"
        by (simp add: uncached_def row' nn cached(2))
      then have f: "hash_of p b = None" "refs p b = 1" using inv by (auto simp: mgr_inv_def fresh_tails_def)
      have br: "b \<in> set (blocks_of m r)" using ru by (auto simp: in_real_blocks uncached_def dest: in_set_dropD)
      then have u: "b \<in> usable p" using inv ru by (auto simp: mgr_inv_def rows_ok_def in_real_blocks)
      have "total (req_to_blocks m) b + others b = 1" "0 \<le> others b"
        using f(2) u inv by (simp_all add: mgr_inv_def counted_def)
      then have "occ (row (req_to_blocks m) r) b + occ (row (req_to_blocks m) rid) b \<le> 1"
        using two_rows_le_total [OF False, of "req_to_blocks m" b] by linarith
      moreover have "1 \<le> occ (row (req_to_blocks m) r) b" using br by (simp add: occ_pos blocks_of_row)
      ultimately have "\<not> 1 \<le> occ (row (req_to_blocks m) rid) b" by linarith
      then have "b \<notin> set (blocks_of m rid)" by (simp add: occ_pos blocks_of_row)
      with rest [of b] u f show ?thesis by simp
    qed
  qed
  show "mgr_inv m' p' free' others"
    using p' rows fresh cnt others inv off confD(3) [OF conf] by (simp add: mgr_inv_def nn)
  have "b \<notin> set (blocks_of m rid)" if "total (req_to_blocks m) b = 0" for b
    using row_le_total [of "req_to_blocks m" rid b] that occ_pos [of "row (req_to_blocks m) rid" b]
    by (auto simp: blocks_of_row)
  then show "frame m others p p'"
    using inv rest conf by (auto simp: frame_def mgr_inv_def counted_def)
qed


section \<open>Allocating and freeing\<close>

lemma rows_okD:
  assumes "mgr_inv m p free others"
  shows "distinct (map fst (req_to_blocks m))" and "0 \<le> n_cached m rid"
    and "\<forall>b \<in> set (blocks_of m rid). b \<in> usable p \<or> b = null_block p"
    and "distinct (real_blocks p (blocks_of m rid))"
  using assms by (simp_all add: mgr_inv_def rows_ok_def)

lemma occ_le_refs:
  assumes "mgr_inv m p free others" and "b \<in> usable p"
  shows "occ (blocks_of m rid) b \<le> refs p b"
proof -
  have "refs p b = total (req_to_blocks m) b + others b" "0 \<le> others b"
    using assms by (simp_all add: mgr_inv_def counted_def)
  with row_le_total [of "req_to_blocks m" rid b] show ?thesis by (simp add: blocks_of_row)
qed

lemma real_blocks_append: "real_blocks p (xs @ ys) = real_blocks p xs @ real_blocks p ys"
  by (simp add: real_blocks_def)

lemma alloc_step:
  assumes inv: "mgr_inv m p free others" and k: "k \<le> length free"
    and m': "req_to_blocks m' = AList.update rid (blocks_of m rid @ take k free) (req_to_blocks m)"
      "num_cached_block m' = num_cached_block m"
  shows "\<exists>p'. get_new_blocks (int k) p = Inr (take k free, p') \<and>
    mgr_inv m' p' (drop k free) others \<and> frame m others p p' \<and> pool_conf p' = pool_conf p"
proof -
  let ?new = "take k free"
  have pinv: "pool_inv p free {}" using inv by (simp add: mgr_inv_def)
  obtain p' where p': "get_new_blocks (int k) p = Inr (?new, p')" "pool_inv p' (drop k free) {}"
    "pool_conf p' = pool_conf p" "refs p' = (\<lambda>b. if b \<in> set ?new then 1 else refs p b)"
    "hash_of p' = (\<lambda>b. if b \<in> set ?new \<and> enable_caching p then None else hash_of p b)"
    using get_new_blocks_inv [OF pinv k] by blast
  have new: "b \<in> usable p \<and> refs p b = 0 \<and> b \<notin> set (blocks_of m rid)" if "b \<in> set ?new" for b
  proof -
    have f: "b \<in> set free" using that by (rule in_set_takeD)
    note free_block_occ [OF inv f]
    moreover have "\<not> 1 \<le> occ (blocks_of m rid) b"
      using row_le_total [of "req_to_blocks m" rid b] calculation(3) by (simp add: blocks_of_row)
    ultimately show ?thesis by (simp add: occ_pos)
  qed
  have d: "distinct ?new" using pinv queue_inv_distinct by (auto simp: pool_inv_def)
  have rbn: "real_blocks p ?new = ?new"
    unfolding real_blocks_def using new usable_not_null by (intro filter_True) blast
  have nc: "n_cached m' = n_cached m" using m'(2) by (simp add: n_cached_def fun_eq_iff)
  have caching: "\<not> enable_caching p \<Longrightarrow> b \<in> usable p \<Longrightarrow> hash_of p b = None" for b
    using inv by (simp add: mgr_inv_def)
  have "mgr_inv m' p' (drop k free) others \<and> frame m others p p'"
  proof (rule mgr_inv_step [OF inv p'(2,3) m'(1)])
    show "\<forall>b \<in> set (blocks_of m rid @ ?new). b \<in> usable p \<or> b = null_block p"
      using rows_okD(3) [OF inv] new by auto
    show "distinct (real_blocks p (blocks_of m rid @ ?new))"
      using rows_okD(4) [OF inv] new d by (auto simp: real_blocks_append rbn in_real_blocks)
    show "refs p' b = refs p b - occ (blocks_of m rid) b + occ (blocks_of m rid @ ?new) b" for b
      using new d by (auto simp: p'(4) occ_distinct)
    show "hash_of p' b = None \<and> refs p' b = 1"
      if b: "b \<in> set (drop (nat (n_cached m' rid)) (blocks_of m rid @ ?new))" and u: "b \<in> usable p" for b
    proof (cases "b \<in> set ?new")
      case True
      with caching [of b] u show ?thesis by (simp add: p'(4,5))
    next
      case False
      with b u have "b \<in> set (real_blocks p (uncached m rid))"
        by (auto simp: nc in_real_blocks uncached_def dest: in_set_dropD usable_not_null)
      then have "hash_of p b = None" "refs p b = 1" using inv by (auto simp: mgr_inv_def fresh_tails_def)
      with False show ?thesis by (simp add: p'(4,5))
    qed
    show "hash_of p' b = None \<and> refs p' b = refs p b" if "hash_of p b = None" "1 \<le> refs p b" for b
      using that new [of b] by (auto simp: p'(4,5))
  qed (use rows_okD(2) [OF inv] nc in \<open>auto simp: p'(5)\<close>)
  with p' show ?thesis by blast
qed

lemma default_entry_inv:
  assumes inv: "mgr_inv m p free others"
  shows "mgr_inv (default_entry rid m) p free others \<and> frame m others p p"
proof (rule mgr_inv_step [OF inv, where rid = rid and bs = "blocks_of m rid"])
  show "req_to_blocks (default_entry rid m) = AList.update rid (blocks_of m rid) (req_to_blocks m)"
    by (simp add: default_entry_def)
  show "hash_of p b = None \<and> refs p b = 1"
    if "b \<in> set (drop (nat (n_cached (default_entry rid m) rid)) (blocks_of m rid))" "b \<in> usable p" for b
    using that inv usable_not_null
    by (auto simp: mgr_inv_def fresh_tails_def uncached_def in_real_blocks default_entry_def)
qed (use inv rows_okD [OF inv] in \<open>auto simp: default_entry_def mgr_inv_def\<close>)

lemma frame_refl: "frame m others p p"
  by (simp add: frame_def)

text \<open>\<open>allocate_new_blocks\<close>: exactly the missing blocks, taken from the front of the free list.\<close>

lemma allocate_base_inv:
  assumes inv: "mgr_inv m p free others"
    and need: "cdiv n (mgr_block_size m) - py_len (blocks_of m rid) \<le> py_len free"
  shows "\<exists>m' p'. let k = nat (cdiv n (mgr_block_size m) - py_len (blocks_of m rid)) in
    allocate_base rid n (m, p) = Inr (take k free, m', p') \<and>
    mgr_inv m' p' (drop k free) others \<and> frame m others p p' \<and>
    blocks_of m' rid = blocks_of m rid @ take k free \<and>
    (\<forall>r. r \<noteq> rid \<longrightarrow> blocks_of m' r = blocks_of m r) \<and>
    num_cached_block m' = num_cached_block m \<and> mgr_block_size m' = mgr_block_size m"
proof (cases "cdiv n (mgr_block_size m) - py_len (blocks_of m rid) \<le> 0")
  case True
  then show ?thesis
    using default_entry_inv [OF inv] frame_refl
    by (intro exI [of _ "default_entry rid m"] exI [of _ p])
      (auto simp: allocate_base_def Let_def default_entry_def)
next
  case False
  define k where "k = nat (cdiv n (mgr_block_size m) - py_len (blocks_of m rid))"
  have k: "k \<le> length free" "cdiv n (mgr_block_size m) - py_len (blocks_of m rid) = int k"
    using need False by (auto simp: k_def py_len_def)
  let ?m' = "set_blocks rid (blocks_of m rid @ take k free) m"
  obtain p' where "get_new_blocks (int k) p = Inr (take k free, p')"
    "mgr_inv ?m' p' (drop k free) others" "frame m others p p'"
    using alloc_step [OF inv k(1), of ?m' rid] by auto
  with False k(2) show ?thesis
    by (intro exI [of _ ?m'] exI [of _ p']) (simp add: allocate_base_def Let_def)
qed

lemma allocate_base_error:
  assumes "mgr_inv m p free others"
    and "cdiv n (mgr_block_size m) - py_len (blocks_of m rid) > py_len free"
  shows "allocate_base rid n (m, p) = Inl ValueError"
proof -
  have "pool_inv p free {}" using assms(1) by (simp add: mgr_inv_def)
  from get_new_blocks_too_many [OF this assms(2)] assms(2)
  show ?thesis by (simp add: allocate_base_def Let_def py_len_def)
qed

text \<open>\<open>free\<close>: the blocks whose last holder this was go to the end of the free list, tail first.\<close>

lemma mgr_free_inv:
  assumes inv: "mgr_inv m p free others"
  shows "\<exists>m' p'. mgr_free rid (m, p) = Inr (m', p') \<and>
    mgr_inv m' p' (free @ filter (\<lambda>b. refs p b = 1) (rev (real_blocks p (blocks_of m rid)))) others \<and>
    frame m others p p' \<and> map_of (req_to_blocks m') rid = None \<and>
    (\<forall>r. r \<noteq> rid \<longrightarrow> blocks_of m' r = blocks_of m r) \<and> hash_of p' = hash_of p \<and>
    pool_conf p' = pool_conf p"
proof -
  let ?row = "blocks_of m rid"
  have pinv: "pool_inv p free {}" using inv by (simp add: mgr_inv_def)
  have rb: "real_blocks p (rev ?row) = rev (real_blocks p ?row)" by (simp add: real_blocks_def rev_filter)
  have d: "distinct (real_blocks p (rev ?row))" using rows_okD(4) [OF inv] by (simp add: rb)
  have r: "\<forall>b \<in> set (rev ?row). b \<in> usable p \<and> 1 \<le> refs p b \<or> b = null_block p"
    using rows_okD(3) [OF inv, of rid] occ_le_refs [OF inv, of _ rid] occ_pos [of ?row]
    by (metis order_trans set_rev)
  obtain p' where p': "free_blocks (rev ?row) p = Inr p'"
    "pool_inv p' (free @ filter (\<lambda>b. refs p b = 1) (rev (real_blocks p ?row))) {}"
    "pool_conf p' = pool_conf p" "hash_of p' = hash_of p"
    "refs p' = (\<lambda>b. refs p b - int (count_list (rev ?row) b))"
    using free_blocks_inv [OF pinv d r] by (auto simp: rb)
  obtain m' where m': "mgr_free rid (m, p) = Inr (m', p')"
    "req_to_blocks m' = AList.delete rid (req_to_blocks m)"
    "num_cached_block m' = AList.delete rid (num_cached_block m)"
    using p'(1)
    by (cases "mgr_class m = MambaManager \<and> is_align m") (auto simp: mgr_free_def Let_def blocks_of_def)
  have nc: "n_cached m' r = (if r = rid then 0 else n_cached m r)" for r
    by (simp add: n_cached_def m'(3) AList.delete_conv')
  let ?m1 = "m\<lparr>req_to_blocks := AList.update rid [] (req_to_blocks m), num_cached_block := num_cached_block m'\<rparr>"
  have nc1: "n_cached ?m1 = n_cached m'" by (simp add: n_cached_def fun_eq_iff)
  have step: "mgr_inv ?m1 p' (free @ filter (\<lambda>b. refs p b = 1) (rev (real_blocks p ?row))) others \<and>
    frame m others p p'"
  proof (rule mgr_inv_step [OF inv p'(2,3)])
    show "req_to_blocks ?m1 = AList.update rid [] (req_to_blocks m)" by simp
    show "refs p' b = refs p b - occ ?row b + occ [] b" for b by (simp add: p'(5) occ_def)
    show "hash_of p' b = None \<and> refs p' b = refs p b" if "hash_of p b = None" "b \<notin> set ?row" for b
      using that by (simp add: p'(4,5) count_list_0_iff)
  qed (use nc nc1 p'(4) in \<open>auto simp: real_blocks_def\<close>)
  have dk: "distinct (map fst (req_to_blocks m))" by (rule rows_okD(1) [OF inv])
  have same: "blocks_of m' = blocks_of ?m1" "uncached m' = uncached ?m1" "n_cached m' = n_cached ?m1"
    "total (req_to_blocks m') = total (req_to_blocks ?m1)"
    using nc1 dk
    by (auto simp: fun_eq_iff uncached_def blocks_of_row m'(2) row_delete row_update total_delete total_update)
  have "mgr_inv m' p' (free @ filter (\<lambda>b. refs p b = 1) (rev (real_blocks p ?row))) others"
    using step dk unfolding mgr_inv_def rows_ok_def fresh_tails_def counted_def same
    by (simp add: m'(2) AList.distinct_delete)
  moreover have "map_of (req_to_blocks m') rid = None" by (simp add: m'(2) AList.delete_conv')
  moreover have "\<forall>r. r \<noteq> rid \<longrightarrow> blocks_of m' r = blocks_of m r"
    by (simp add: blocks_of_row m'(2) row_delete)
  ultimately show ?thesis using m'(1) step p'(3,4) by blast
qed


section \<open>Dropping the blocks outside the attention window\<close>

text \<open>
  The loop replaces a segment that ends at index \<open>i\<close> by null blocks: it stops at the first block,
  from the right, that is null already.
\<close>

lemma skip_loop_facts:
  assumes "i \<le> length blocks" and "skip_loop null i blocks removed = (bs', removed')"
  shows "\<exists>j \<le> i. bs' = take j blocks @ replicate (i - j) null @ drop i blocks \<and>
    removed' = removed @ rev (take (i - j) (drop j blocks)) \<and>
    null \<notin> set (take (i - j) (drop j blocks)) \<and> (j = 0 \<or> blocks ! (j - 1) = null)"
  using assms
proof (induction i arbitrary: blocks removed)
  case 0
  then show ?case by simp
next
  case (Suc i)
  show ?case
  proof (cases "blocks ! i = null")
    case True
    with Suc.prems show ?thesis by (intro exI [of _ "Suc i"]) auto
  next
    case False
    let ?b1 = "blocks[i := null]"
    have len: "i < length blocks" using Suc.prems(1) by simp
    from False Suc.prems have "skip_loop null i ?b1 (removed @ [blocks ! i]) = (bs', removed')"
      by simp
    then have "\<exists>j \<le> i. bs' = take j ?b1 @ replicate (i - j) null @ drop i ?b1 \<and>
      removed' = (removed @ [blocks ! i]) @ rev (take (i - j) (drop j ?b1)) \<and>
      null \<notin> set (take (i - j) (drop j ?b1)) \<and> (j = 0 \<or> ?b1 ! (j - 1) = null)"
      using len by (intro Suc.IH) auto
    then obtain j where j: "j \<le> i"
      "bs' = take j ?b1 @ replicate (i - j) null @ drop i ?b1"
      "removed' = (removed @ [blocks ! i]) @ rev (take (i - j) (drop j ?b1))"
      "null \<notin> set (take (i - j) (drop j ?b1))" "j = 0 \<or> ?b1 ! (j - 1) = null"
      by blast
    have "drop i ?b1 = null # drop (Suc i) blocks"
      using len by (simp add: Cons_nth_drop_Suc [symmetric])
    then have "bs' = take j blocks @ replicate (Suc i - j) null @ drop (Suc i) blocks"
      using j(1,2) by (simp add: Suc_diff_le replicate_append_same [symmetric] del: replicate_append_same)
    moreover have mid: "take (i - j) (drop j ?b1) = take (i - j) (drop j blocks)"
      using j(1) by (simp add: drop_update_swap take_update_cancel)
    moreover have ext: "take (Suc i - j) (drop j blocks) = take (i - j) (drop j blocks) @ [blocks ! i]"
      using j(1) len by (simp add: Suc_diff_le take_Suc_conv_app_nth)
    moreover have "j = 0 \<or> blocks ! (j - 1) = null"
      using j(1,5) by (cases "j = 0") auto
    ultimately show ?thesis using j False by (intro exI [of _ j]) auto
  qed
qed

lemma list_all2_in: "list_all2 P xs ys \<Longrightarrow> x \<in> set xs \<Longrightarrow> \<exists>y \<in> set ys. P x y"
  by (induction rule: list_all2_induct) auto

lemma nulls_all2:
  "j \<le> i \<Longrightarrow> i \<le> length bs \<Longrightarrow>
   list_all2 (\<lambda>x y. x = y \<or> x = null) (take j bs @ replicate (i - j) null @ drop i bs) bs"
  by (auto simp: list_all2_conv_all_nth nth_append min_def)

lemma remove_skipped_base_inv:
  assumes inv: "mgr_inv m p free others"
  shows "\<exists>m' p' freed. remove_skipped_base rid n (m, p) = Inr (m', p') \<and>
    mgr_inv m' p' (free @ freed) others \<and> frame m others p p' \<and>
    list_all2 (\<lambda>x y. x = y \<or> x = null_block p) (blocks_of m' rid) (blocks_of m rid) \<and>
    (\<forall>r. r \<noteq> rid \<longrightarrow> blocks_of m' r = blocks_of m r) \<and>
    (\<forall>i < length (blocks_of m rid). get_num_skipped_tokens m n \<le> int i * mgr_block_size m \<longrightarrow>
       0 < mgr_block_size m \<longrightarrow> blocks_of m' rid ! i = blocks_of m rid ! i) \<and>
    num_cached_block m' = num_cached_block m \<and> mgr_block_size m' = mgr_block_size m \<and>
    mgr_class m' = mgr_class m \<and> mgr_spec m' = mgr_spec m \<and> mgr_caching m' = mgr_caching m \<and>
    hash_of p' = hash_of p"
proof (cases "get_num_skipped_tokens m n \<le> 0")
  case True
  then have "remove_skipped_base rid n (m, p) = Inr (m, p)" by (simp add: remove_skipped_base_def)
  with inv frame_refl show ?thesis
    by (intro exI [of _ m] exI [of _ p] exI [of _ "[]"]) (simp add: list_all2_refl)
next
  case False
  let ?bs = "blocks_of m rid" and ?null = "null_block p"
  define k where "k = min (get_num_skipped_tokens m n div mgr_block_size m) (py_len ?bs)"
  define i where "i = nat k"
  have i: "i \<le> length ?bs" by (simp add: i_def k_def py_len_def)
  obtain bs' R where loop: "skip_loop ?null i ?bs [] = (bs', R)" by fastforce
  obtain j where j: "j \<le> i" "bs' = take j ?bs @ replicate (i - j) ?null @ drop i ?bs"
    "R = rev (take (i - j) (drop j ?bs))" "?null \<notin> set (take (i - j) (drop j ?bs))"
    using skip_loop_facts [OF i loop] by auto
  let ?mid = "take (i - j) (drop j ?bs)"
  have split: "?bs = take j ?bs @ ?mid @ drop i ?bs"
    using j(1) by (metis append_take_drop_id drop_drop le_add_diff_inverse2)
  have rows: "\<forall>b \<in> set ?bs. b \<in> usable p \<or> b = ?null" "distinct (real_blocks p ?bs)"
    using rows_okD(3,4) [OF inv, of rid] by simp_all
  have sub: "set R \<subseteq> set ?bs" unfolding j(3) by (auto dest: in_set_takeD in_set_dropD)
  have "distinct (real_blocks p ?mid)" using rows(2) by (subst (asm) split) (simp add: real_blocks_append)
  then have dR: "distinct (real_blocks p R)" by (simp add: j(3) real_blocks_def rev_filter [symmetric])
  have rR: "\<forall>b \<in> set R. b \<in> usable p \<and> 1 \<le> refs p b \<or> b = ?null"
    using rows(1) sub occ_le_refs [OF inv, of _ rid] occ_pos [of ?bs]
    by (metis order_trans subsetD)
  have pinv: "pool_inv p free {}" using inv by (simp add: mgr_inv_def)
  obtain p' where p': "free_blocks R p = Inr p'"
    "pool_inv p' (free @ filter (\<lambda>b. refs p b = 1) (real_blocks p R)) {}"
    "pool_conf p' = pool_conf p" "hash_of p' = hash_of p"
    "refs p' = (\<lambda>b. refs p b - int (count_list R b))"
    using free_blocks_inv [OF pinv dR rR] by auto
  let ?m' = "set_blocks rid bs' m"
  have run: "remove_skipped_base rid n (m, p) = Inr (?m', p')"
    using False loop p'(1) by (simp add: remove_skipped_base_def Let_def flip: k_def i_def)
  have all2: "list_all2 (\<lambda>x y. x = y \<or> x = ?null) bs' ?bs"
    unfolding j(2) by (rule nulls_all2 [OF j(1) i])
  have occ_mid: "occ bs' b = occ ?bs b - occ ?mid b" if "b \<noteq> ?null" for b
  proof -
    have "occ (replicate (i - j) ?null) b = 0" using that by (simp add: occ_zero)
    moreover have "occ ?bs b = occ (take j ?bs @ ?mid @ drop i ?bs) b" by (rule arg_cong [OF split])
    ultimately show ?thesis by (simp add: j(2))
  qed
  have refs': "refs p' b = refs p b - occ ?mid b" for b by (simp add: p'(5) j(3) occ_def)
  have keep: "b \<in> set ?bs \<and> occ ?mid b = 0" if "b \<in> set bs'" "b \<noteq> ?null" for b
  proof -
    have "1 \<le> occ bs' b" using that by (simp add: occ_pos)
    moreover have "occ ?bs b \<le> 1" using occ_real [OF that(2) rows(2)] by simp
    moreover have "0 \<le> occ ?mid b" by simp
    ultimately have "occ ?mid b = 0" "1 \<le> occ ?bs b" using occ_mid [OF that(2)] by linarith+
    then show ?thesis by (simp add: occ_pos)
  qed
  have "mgr_inv ?m' p' (free @ filter (\<lambda>b. refs p b = 1) (real_blocks p R)) others \<and> frame m others p p'"
  proof (rule mgr_inv_step [OF inv p'(2,3)])
    show "req_to_blocks ?m' = AList.update rid bs' (req_to_blocks m)" by simp
    show "\<forall>b \<in> set bs'. b \<in> usable p \<or> b = ?null" using keep rows(1) by blast
    have "distinct (real_blocks p (take j ?bs @ drop i ?bs))"
      using rows(2) by (subst (asm) split) (auto simp: real_blocks_append)
    moreover have "real_blocks p bs' = real_blocks p (take j ?bs @ drop i ?bs)"
      by (simp add: j(2) real_blocks_def)
    ultimately show "distinct (real_blocks p bs')" by simp
    show "refs p' b = refs p b - occ ?bs b + occ bs' b" if "b \<in> usable p" for b
      using occ_mid [of b] usable_not_null [OF that] by (simp add: refs')
    show "hash_of p' b = None \<and> refs p' b = 1"
      if b: "b \<in> set (drop (nat (n_cached ?m' rid)) bs')" and u: "b \<in> usable p" for b
    proof -
      have nb: "b \<noteq> ?null" by (rule usable_not_null [OF u])
      have "list_all2 (\<lambda>x y. x = y \<or> x = ?null) (drop (nat (n_cached m rid)) bs') (uncached m rid)"
        unfolding uncached_def using all2 by (rule list_all2_dropI)
      with b nb have "b \<in> set (uncached m rid)"
        using list_all2_in by fastforce
      then have "hash_of p b = None \<and> refs p b = 1"
        using inv nb by (auto simp: mgr_inv_def fresh_tails_def in_real_blocks)
      moreover have "occ ?mid b = 0" using keep [OF in_set_dropD [OF b] nb] by simp
      ultimately show ?thesis by (simp add: p'(4) refs')
    qed
    show "hash_of p' b = None \<and> refs p' b = refs p b" if "hash_of p b = None" "b \<notin> set ?bs" for b
      using that sub by (simp add: p'(4,5)) (metis count_list_0_iff subsetD)
  qed (use rows_okD(2) [OF inv] p'(4) in simp_all)
  moreover have "bs' ! x = ?bs ! x"
    if x: "x < length ?bs" "get_num_skipped_tokens m n \<le> int x * mgr_block_size m" "0 < mgr_block_size m" for x
  proof -
    have "get_num_skipped_tokens m n div mgr_block_size m \<le> int x"
      using x(2,3) by (metis nonzero_mult_div_cancel_right zdiv_mono1 less_irrefl)
    then have "i \<le> x" by (simp add: i_def k_def)
    moreover have "\<not> x - j < i - j" "j + (x - i) + (i - j) = x" using calculation j(1) by linarith+
    ultimately show ?thesis using j(1) i x(1) by (auto simp: j(2) nth_append)
  qed
  ultimately show ?thesis
    using run all2 p'(4) by (intro exI [of _ ?m'] exI [of _ p'] exI) auto
qed


section \<open>Adding the blocks of a prefix cache hit\<close>

lemma frame_trans:
  assumes inv: "mgr_inv m p free others" "mgr_inv m1 p1 free1 others"
    and f: "frame m others p p1" "frame m1 others p1 p2"
  shows "frame m others p p2"
proof -
  have c: "pool_conf p1 = pool_conf p" "pool_conf p2 = pool_conf p1" using f by (simp_all add: frame_def)
  have u: "usable p1 = usable p" by (rule usable_conf [OF c(1)])
  have "total (req_to_blocks m1) b = 0"
    if "b \<in> usable p" "refs p1 b = refs p b" "total (req_to_blocks m) b = 0" for b
    using inv that by (simp add: mgr_inv_def counted_def u)
  with f c u show ?thesis by (simp add: frame_def)
qed

definition hit_blocks_ok :: "block_pool \<Rightarrow> bref list \<Rightarrow> bool" where
  "hit_blocks_ok p bs \<longleftrightarrow> distinct (real_blocks p bs) \<and>
     (\<forall>b \<in> set bs. b \<in> usable p \<and> hash_of p b \<noteq> None \<or> b = null_block p)"

lemma hit_blocks_ok_drop:
  assumes "hit_blocks_ok p bs"
  shows "hit_blocks_ok p (drop k bs)"
proof -
  have "distinct (real_blocks p (drop k bs))"
    using assms unfolding hit_blocks_ok_def
    by (metis append_take_drop_id distinct_append real_blocks_append)
  with assms show ?thesis by (auto simp: hit_blocks_ok_def dest: in_set_dropD)
qed

lemma touch_step:
  assumes inv: "mgr_inv m p free others" and ok: "hit_blocks_ok p bs" and empty: "blocks_of m rid = []"
    and m': "req_to_blocks m' = AList.update rid (replicate k (null_block p) @ bs) (req_to_blocks m)"
      "num_cached_block m' = AList.update rid (int k + py_len bs) (num_cached_block m)"
  shows "\<exists>p'. touch bs p = Inr p' \<and>
    mgr_inv m' p' (filter (\<lambda>b. b \<notin> set bs) free) others \<and> frame m others p p' \<and> hash_of p' = hash_of p"
proof -
  have pinv: "pool_inv p free {}" using inv by (simp add: mgr_inv_def)
  obtain p' where p': "touch bs p = Inr p'" "pool_inv p' (filter (\<lambda>b. b \<notin> set bs) free) {}"
    "pool_conf p' = pool_conf p" "refs p' = (\<lambda>b. refs p b + int (count_list bs b))" "hash_of p' = hash_of p"
    using touch_inv [OF pinv, of bs] ok by (auto simp: hit_blocks_ok_def)
  have nc: "n_cached m' r = (if r = rid then int k + py_len bs else n_cached m r)" for r
    by (simp add: n_cached_def m'(2) AList.update_conv')
  have "mgr_inv m' p' (filter (\<lambda>b. b \<notin> set bs) free) others \<and> frame m others p p'"
  proof (rule mgr_inv_step [OF inv p'(2,3) m'(1)])
    show "refs p' b = refs p b - occ (blocks_of m rid) b + occ (replicate k (null_block p) @ bs) b"
      if "b \<in> usable p" for b
    proof -
      have "occ (replicate k (null_block p)) b = 0"
        using usable_not_null [OF that] by (simp add: occ_zero)
      then show ?thesis by (simp add: p'(4) empty occ_def)
    qed
    show "hash_of p' b = None \<and> refs p' b = refs p b" if "hash_of p b = None" "b \<in> usable p" for b
    proof -
      have "b \<notin> set bs" using that(1) ok usable_not_null [OF that(2)] by (auto simp: hit_blocks_ok_def)
      with that(1) show ?thesis by (simp add: p'(4,5) count_list_0_iff)
    qed
  qed (use ok nc p'(5) in \<open>auto simp: hit_blocks_ok_def real_blocks_append py_len_def real_blocks_def nat_add_distrib\<close>)
  with p' show ?thesis by blast
qed

text \<open>The blocks of the hit that are inside the window, and the leading null blocks.\<close>

definition skipped_blocks :: "manager \<Rightarrow> int \<Rightarrow> int" where
  "skipped_blocks m n = get_num_skipped_tokens m n div mgr_block_size m"

definition kept_blocks :: "manager \<Rightarrow> int \<Rightarrow> bref list \<Rightarrow> bref list" where
  "kept_blocks m n bs = drop (nat (skipped_blocks m n)) bs"

lemma allocate_computed_inv:
  assumes inv: "mgr_inv m p free others" and new: "map_of (num_cached_block m) rid = None"
    and empty: "blocks_of m rid = []" and ok: "hit_blocks_ok p (kept_blocks m (l + e) bs)"
    and caching: "\<not> mgr_caching m \<Longrightarrow> kept_blocks m (l + e) bs = []"
    and row: "row0 = replicate (nat (skipped_blocks m (l + e))) (null_block p) @ kept_blocks m (l + e) bs"
    and ext: "ext = (if skipped_blocks m (l + e) > 0 then min (l + e - get_num_skipped_tokens m (l + e)) e else e)"
    and k: "k = (if ext > 0 then nat (cdiv (l + e) (mgr_block_size m) - py_len row0) else 0)"
      "ext > 0 \<Longrightarrow> py_len row0 \<le> cdiv (l + e) (mgr_block_size m)"
    and free1: "free1 = filter (\<lambda>b. b \<notin> set (kept_blocks m (l + e) bs)) free" and enough: "k \<le> length free1"
  shows "\<exists>m' p'. allocate_computed_base rid bs l e (m, p) = Inr (m', p') \<and>
    mgr_inv m' p' (drop k free1) others \<and> frame m others p p' \<and>
    blocks_of m' rid = row0 @ take k free1 \<and> (\<forall>r. r \<noteq> rid \<longrightarrow> blocks_of m' r = blocks_of m r) \<and>
    map_of (num_cached_block m') rid = Some (py_len row0) \<and>
    mgr_block_size m' = mgr_block_size m \<and> mgr_class m' = mgr_class m \<and> mgr_spec m' = mgr_spec m \<and>
    (ext \<le> 0 \<longrightarrow> hash_of p' = hash_of p)"
proof -
  let ?kept = "kept_blocks m (l + e) bs" and ?s = "skipped_blocks m (l + e)"
  have kept: "(if ?s > 0 then py_from bs ?s else bs) = ?kept"
    by (auto simp: kept_blocks_def py_from_nat)
  have row': "py_repeat (null_block p) ?s @ ?kept = row0" by (simp add: row py_repeat_def)
  let ?m1 = "(set_blocks rid row0 m)\<lparr>num_cached_block := AList.update rid (py_len row0) (num_cached_block m)\<rparr>"
  have "\<exists>p1. touch ?kept p = Inr p1 \<and> mgr_inv ?m1 p1 free1 others \<and> frame m others p p1 \<and>
      hash_of p1 = hash_of p"
    unfolding free1
    by (rule touch_step [OF inv ok empty, where k = "nat ?s"]) (simp_all add: row py_len_def set_blocks_def)
  then obtain p1 where p1: "touch ?kept p = Inr p1" "mgr_inv ?m1 p1 free1 others" "frame m others p p1"
    and h1: "hash_of p1 = hash_of p" by blast
  have tp: "(if mgr_caching m then touch ?kept p else rbind (py_assert (?kept = [])) (\<lambda>_. Inr p)) = Inr p1"
    using p1(1) caching by (auto simp: touch_def)
  have b1: "blocks_of ?m1 r = (if r = rid then row0 else blocks_of m r)" for r
    by (simp add: blocks_of_row set_blocks_def row_update)
  have run: "allocate_computed_base rid bs l e (m, p) = (if ext > 0 then
      rbind (get_new_blocks (cdiv (l + e) (mgr_block_size m) - py_len row0) p1)
        (\<lambda>(bs', p2). Inr (set_blocks rid (row0 @ bs') ?m1, p2)) else Inr (?m1, p1))"
    unfolding allocate_computed_base_def Let_def prod.case skipped_blocks_def [symmetric] kept
      ext [symmetric] row' tp by (simp add: new empty)
  show ?thesis
  proof (cases "ext > 0")
    case False
    then have "allocate_computed_base rid bs l e (m, p) = Inr (?m1, p1)" by (simp add: run)
    with False p1 h1 k b1 show ?thesis
      by (intro exI [of _ ?m1] exI [of _ p1]) (simp add: AList.update_conv')
  next
    case True
    let ?m2 = "set_blocks rid (row0 @ take k free1) ?m1"
    have kk: "cdiv (l + e) (mgr_block_size m) - py_len row0 = int k" using True k by simp
    obtain p2 where p2: "get_new_blocks (int k) p1 = Inr (take k free1, p2)"
      "mgr_inv ?m2 p2 (drop k free1) others" "frame ?m1 others p1 p2"
      using alloc_step [OF p1(2) enough, of ?m2 rid] b1 by (auto simp: set_blocks_def)
    have "allocate_computed_base rid bs l e (m, p) = Inr (?m2, p2)"
      using True p2(1) by (simp add: run kk)
    with True p2 frame_trans [OF inv p1(2,3) p2(3)] b1 show ?thesis
      by (intro exI [of _ ?m2] exI [of _ p2]) (simp add: AList.update_conv')
  qed
qed

section \<open>Caching full blocks\<close>

lemma cache_blocks_inv:
  assumes inv: "mgr_inv m p free others" and cls: "mgr_class m \<noteq> CrossAttentionManager"
    and caching: "enable_caching p"
    and bs: "0 < hash_block_size p" "0 < mgr_block_size m" "mgr_block_size m mod hash_block_size p = 0"
    and g: "0 \<le> kv_cache_group_id m" "kv_cache_group_id m < 2 ^ 32"
    and full: "full = n div mgr_block_size m" "full \<le> py_len (blocks_of m (request_id r))"
      "full \<le> py_len (block_hashes r)"
      "full \<le> bhl_len (group_hashes p (mgr_block_size m) (block_hashes r))"
  shows "\<exists>m' p'. cache_blocks r n (m, p) = Inr (m', p') \<and> mgr_inv m' p' free others \<and>
    frame m others p p' \<and> (\<forall>rid. blocks_of m' rid = blocks_of m rid) \<and> refs p' = refs p \<and>
    n_cached m' (request_id r) = max (n_cached m (request_id r)) full \<and>
    mgr_block_size m' = mgr_block_size m \<and> mgr_class m' = mgr_class m \<and>
    kv_cache_group_id m' = kv_cache_group_id m \<and>
    (\<forall>j. n_cached m (request_id r) \<le> j \<and> j < full \<and> blocks_of m (request_id r) ! nat j \<noteq> null_block p \<longrightarrow>
       hash_of p' (blocks_of m (request_id r) ! nat j) =
         keyed (bhl_values (group_hashes p (mgr_block_size m) (block_hashes r))) (kv_cache_group_id m) (nat j)) \<and>
    (\<forall>b. hash_of p b \<noteq> None \<longrightarrow> hash_of p' b = hash_of p b)"
proof -
  let ?rid = "request_id r" and ?c = "n_cached m (request_id r)"
  have nc: "(case map_of (num_cached_block m) ?rid of None \<Rightarrow> 0 | Some n \<Rightarrow> n) = ?c"
    by (simp add: n_cached_def)
  show ?thesis
  proof (cases "?c \<ge> full")
    case True
    then have "cache_blocks r n (m, p) = Inr (m, p)"
      using cls nc full(1) by (simp add: cache_blocks_def Let_def)
    with True inv show ?thesis
      by (intro exI [of _ m] exI [of _ p]) (auto simp: frame_refl)
  next
    case False
    let ?new = "py_slice (blocks_of m ?rid) ?c full"
    have pinv: "pool_inv p free {}" using inv by (simp add: mgr_inv_def)
    have c0: "0 \<le> ?c" by (rule rows_okD(2) [OF inv])
    have new: "?new = take (nat full - nat ?c) (uncached m ?rid)"
      using c0 False by (simp add: py_slice_nat uncached_def)
    have fresh: "hash_of p b = None \<and> refs p b = 1" if "b \<in> set (real_blocks p (uncached m ?rid))" for b
      using that inv by (auto simp: mgr_inv_def fresh_tails_def)
    have sub: "set ?new \<subseteq> set (uncached m ?rid)" by (auto simp: new dest: in_set_takeD)
    have du: "distinct (real_blocks p (uncached m ?rid))"
      using rows_okD(4) [OF inv, of ?rid] append_take_drop_id [of "nat ?c" "blocks_of m ?rid"]
      unfolding uncached_def by (metis distinct_append real_blocks_append)
    then have dn: "distinct (real_blocks p ?new)"
      unfolding new by (metis append_take_drop_id distinct_append real_blocks_append)
    have vn: "\<forall>b \<in> set ?new. b \<in> usable p \<and> hash_of p b = None \<or> b = null_block p"
    proof
      fix b assume "b \<in> set ?new"
      then have b: "b \<in> set (uncached m ?rid)" using sub by blast
      then have "b \<in> usable p \<or> b = null_block p"
        using rows_okD(3) [OF inv, of ?rid] by (auto simp: uncached_def dest: in_set_dropD)
      with fresh [of b] b show "b \<in> usable p \<and> hash_of p b = None \<or> b = null_block p"
        by (auto simp: in_real_blocks)
    qed
    obtain p' where p': "cache_full_blocks r (blocks_of m ?rid) ?c full (mgr_block_size m)
        (kv_cache_group_id m) p = Inr p'" "pool_inv p' free {}" "pool_conf p' = pool_conf p"
      "refs p' = refs p"
      "\<forall>j. ?c \<le> j \<and> j < full \<and> blocks_of m ?rid ! nat j \<noteq> null_block p \<longrightarrow>
         hash_of p' (blocks_of m ?rid ! nat j) =
           keyed (bhl_values (group_hashes p (mgr_block_size m) (block_hashes r))) (kv_cache_group_id m) (nat j)"
      "\<forall>b. b \<notin> set (real_blocks p ?new) \<longrightarrow> hash_of p' b = hash_of p b"
      using cache_full_blocks_inv [OF pinv bs c0 _ full(2,3,4) g dn vn] False by auto
    let ?m' = "(default_entry ?rid m)\<lparr>num_cached_block := AList.update ?rid full (num_cached_block m)\<rparr>"
    have run: "cache_blocks r n (m, p) = Inr (?m', p')"
      using False cls p'(1) nc full(1) by (simp add: cache_blocks_def Let_def)
    have nc': "n_cached ?m' rid = (if rid = ?rid then full else n_cached m rid)" for rid
      by (simp add: n_cached_def AList.update_conv')
    have f0: "0 \<le> full" using False c0 by linarith
    have same: "blocks_of ?m' rid = blocks_of m rid" for rid
      by (simp add: default_entry_def blocks_of_row set_blocks_def row_update)
    have "mgr_inv ?m' p' free others \<and> frame m others p p'"
    proof (rule mgr_inv_step [OF inv p'(2,3), where rid = ?rid and bs = "blocks_of m ?rid"])
      show "req_to_blocks ?m' = AList.update ?rid (blocks_of m ?rid) (req_to_blocks m)"
        by (simp add: default_entry_def)
      show "hash_of p' b = None \<and> refs p' b = 1"
        if b: "b \<in> set (drop (nat (n_cached ?m' ?rid)) (blocks_of m ?rid))" and u: "b \<in> usable p" for b
      proof -
        have "drop (nat full) (blocks_of m ?rid) = drop (nat full - nat ?c) (uncached m ?rid)"
          using False c0 by (simp add: uncached_def)
        then have bd: "b \<in> set (drop (nat full - nat ?c) (uncached m ?rid))" using b by (simp add: nc')
        then have "b \<in> set (real_blocks p (drop (nat full - nat ?c) (uncached m ?rid)))"
          using usable_not_null [OF u] by (simp add: in_real_blocks)
        moreover have "real_blocks p (uncached m ?rid) =
            real_blocks p ?new @ real_blocks p (drop (nat full - nat ?c) (uncached m ?rid))"
          unfolding new by (simp flip: real_blocks_append)
        ultimately have "b \<notin> set (real_blocks p ?new)" "b \<in> set (real_blocks p (uncached m ?rid))"
          using du by auto
        with p'(4,6) fresh [of b] show ?thesis by simp
      qed
      show "hash_of p' b = None \<and> refs p' b = refs p b" if "hash_of p b = None" "b \<notin> set (blocks_of m ?rid)" for b
      proof -
        have "b \<notin> set (real_blocks p ?new)"
          using that(2) sub by (auto simp: in_real_blocks uncached_def dest: in_set_dropD)
        with that(1) p'(4,6) show ?thesis by simp
      qed
    qed (use rows_okD [OF inv] f0 caching p'(4) nc' in auto)
    moreover have "hash_of p' b = hash_of p b" if "hash_of p b \<noteq> None" for b
    proof -
      have "b \<notin> set (real_blocks p ?new)" using that vn by (auto simp: in_real_blocks)
      with p'(6) show ?thesis by simp
    qed
    ultimately show ?thesis
      using run p'(4,5) same nc' False
      by (intro exI [of _ ?m'] exI [of _ p']) (auto simp: default_entry_def)
  qed
qed

end
