(* ===== verification/KV_Coordinator.thy ===== *)
theory KV_Coordinator
  imports Single_Type_Manager
begin

text \<open>
  \<^verbatim>\<open>vllm/v1/core/kv_cache_coordinator.py\<close>: the coordinator owns the block pool and one
  manager per KV cache group, passes every operation on to the managers in order, and finds the
  longest prefix that hits in all groups.
\<close>

section \<open>State and construction\<close>

datatype coord_class =
    KVCacheCoordinatorNoPrefixCache | UnitaryKVCacheCoordinator | HybridKVCacheCoordinator

type_synonym attention_group = "kv_cache_spec \<times> int list \<times> manager_class"

record coordinator =
  coord_class :: coord_class
  coord_max_model_len :: int
  coord_eagle :: bool
  coord_pool :: block_pool
  managers :: "manager list"
  coord_groups :: "kv_cache_group_spec list"
  unitary_block_size :: int
  coord_dcp :: int
  coord_pcp :: int
  coord_hash_block_size :: int
  attention_groups :: "attention_group list"
  lcm_block_size :: int

text \<open>A call on every manager in order, with the pool threaded through; \<open>i\<close> is the group.\<close>

fun each_manager ::
    "(int \<Rightarrow> manager \<times> block_pool \<Rightarrow> ('a \<times> manager \<times> block_pool) res) \<Rightarrow> int \<Rightarrow>
     manager list \<times> block_pool \<Rightarrow> ('a list \<times> manager list \<times> block_pool) res" where
  "each_manager f i ([], p) = Inr ([], [], p)"
| "each_manager f i (m # ms, p) =
     rbind (f i (m, p)) (\<lambda>(x, m', p').
     rbind (each_manager f (i + 1) (ms, p')) (\<lambda>(xs, ms', p'').
     Inr (x # xs, m' # ms', p'')))"

definition no_result ::
    "(manager \<times> block_pool) res \<Rightarrow> (unit \<times> manager \<times> block_pool) res" where
  "no_result r = rbind r (\<lambda>(m, p). Inr ((), m, p))"

definition on_managers ::
    "(int \<Rightarrow> manager \<times> block_pool \<Rightarrow> ('a \<times> manager \<times> block_pool) res) \<Rightarrow> coordinator \<Rightarrow>
     ('a list \<times> coordinator) res" where
  "on_managers f c =
     rbind (each_manager f 0 (managers c, coord_pool c)) (\<lambda>(xs, ms, p).
     Inr (xs, c\<lparr>managers := ms, coord_pool := p\<rparr>))"

fun init_managers ::
    "bool \<Rightarrow> int \<Rightarrow> int \<Rightarrow> int \<Rightarrow> kv_cache_group_spec list \<Rightarrow> block_pool \<Rightarrow>
     (manager list \<times> block_pool) res" where
  "init_managers caching dcp pcp i [] p = Inr ([], p)"
| "init_managers caching dcp pcp i (g # gs) p =
     rbind (get_manager_for_kv_cache_spec (group_spec g) caching i dcp pcp p) (\<lambda>(m, p').
     rbind (init_managers caching dcp pcp (i + 1) gs p') (\<lambda>(ms, p''). Inr (m # ms, p'')))"

text \<open>
  \<open>verify_and_split_kv_cache_groups\<close>: groups with equal specifications are looked up together,
  full attention first (the sort is stable).
\<close>

definition add_attention_group ::
    "int \<times> kv_cache_spec \<times> manager_class \<Rightarrow> attention_group list \<Rightarrow> attention_group list res" where
  "add_attention_group = (\<lambda>(i, spec, cls) groups.
     case find (\<lambda>(s, _, _). s = spec) groups of
       None \<Rightarrow> Inr (groups @ [(spec, [i], cls)])
     | Some (_, _, existing_cls) \<Rightarrow>
         rbind (py_assert (cls = existing_cls)) (\<lambda>_.
         Inr (map (\<lambda>(s, ids, k). if s = spec then (s, ids @ [i], k) else (s, ids, k)) groups)))"

definition verify_and_split_kv_cache_groups ::
    "kv_cache_group_spec list \<Rightarrow> manager list \<Rightarrow> (attention_group list \<times> int) res" where
  "verify_and_split_kv_cache_groups gs ms =
     rbind (rfold add_attention_group
              (zip [0..py_len gs - 1] (zip (map group_spec gs) (map mgr_class ms))) [])
       (\<lambda>groups.
     rbind (py_assert (py_len groups > 1)) (\<lambda>_.
     Inr (filter (\<lambda>(s, _, _). is_full_attention s) groups @
            filter (\<lambda>(s, _, _). \<not> is_full_attention s) groups,
          fold lcm (map (\<lambda>(s, _, _). spec_block_size s) groups) 1)))"

definition KVCacheCoordinator ::
    "coord_class \<Rightarrow> kv_cache_config \<Rightarrow> int \<Rightarrow> bool \<Rightarrow> bool \<Rightarrow> bool \<Rightarrow> bool \<Rightarrow> int \<Rightarrow> int \<Rightarrow> int \<Rightarrow> bool \<Rightarrow>
     coordinator res" where
  "KVCacheCoordinator cls config max_len use_eagle caching events int_hashes dcp pcp hash_bs metrics =
     rbind (BlockPool (num_blocks config) caching hash_bs events int_hashes metrics) (\<lambda>p0.
     rbind (init_managers caching dcp pcp 0 (kv_cache_groups config) p0) (\<lambda>(ms, p).
     Inr \<lparr>coord_class = cls, coord_max_model_len = max_len, coord_eagle = use_eagle,
          coord_pool = p, managers = ms, coord_groups = kv_cache_groups config,
          unitary_block_size = 0, coord_dcp = dcp, coord_pcp = pcp,
          coord_hash_block_size = hash_bs, attention_groups = [], lcm_block_size = 0\<rparr>))"

definition init_unitary :: "bool \<Rightarrow> coordinator \<Rightarrow> coordinator res" where
  "init_unitary caching c =
     rbind (py_get (coord_groups c) 0) (\<lambda>g.
     let bs0 = spec_block_size (group_spec g);
         bs1 = (if coord_dcp c > 1 then bs0 * coord_dcp c else bs0);
         bs = (if coord_pcp c > 1 then bs1 * coord_pcp c else bs1)
     in rbind (py_assert (\<not> caching \<or> coord_hash_block_size c = bs)) (\<lambda>_.
        rbind (py_assert (py_len (coord_groups c) = 1)) (\<lambda>_.
        Inr (c\<lparr>unitary_block_size := bs\<rparr>))))"

definition init_hybrid :: "coordinator \<Rightarrow> coordinator res" where
  "init_hybrid c =
     (if coord_hash_block_size c = 0 \<and> coord_groups c \<noteq> [] then Inl ZeroDivisionError
      else rbind (py_assert (list_all
             (\<lambda>g. spec_block_size (group_spec g) mod coord_hash_block_size c = 0) (coord_groups c))) (\<lambda>_.
      rbind (py_assert (coord_dcp c = 1 \<and> coord_pcp c = 1)) (\<lambda>_.
      rbind (verify_and_split_kv_cache_groups (coord_groups c) (managers c)) (\<lambda>(groups, l).
      Inr (c\<lparr>attention_groups := groups, lcm_block_size := l\<rparr>)))))"

definition get_kv_cache_coordinator ::
    "kv_cache_config \<Rightarrow> int \<Rightarrow> bool \<Rightarrow> bool \<Rightarrow> bool \<Rightarrow> bool \<Rightarrow> int \<Rightarrow> int \<Rightarrow> int \<Rightarrow> bool \<Rightarrow> coordinator res"
  where
  "get_kv_cache_coordinator config max_len use_eagle caching events int_hashes dcp pcp hash_bs metrics =
     (if \<not> caching then
        KVCacheCoordinator KVCacheCoordinatorNoPrefixCache config max_len use_eagle False events
          int_hashes dcp pcp hash_bs metrics
      else if py_len (kv_cache_groups config) = 1 then
        rbind (KVCacheCoordinator UnitaryKVCacheCoordinator config max_len use_eagle caching events
          int_hashes dcp pcp hash_bs metrics) (init_unitary caching)
      else
        rbind (KVCacheCoordinator HybridKVCacheCoordinator config max_len use_eagle caching events
          int_hashes dcp pcp hash_bs metrics) init_hybrid)"

section \<open>Operations passed on to the managers\<close>

definition coord_num_blocks_to_allocate ::
    "string \<Rightarrow> int \<Rightarrow> bref list list \<Rightarrow> int \<Rightarrow> int \<Rightarrow> int \<Rightarrow> coordinator \<Rightarrow> (int \<times> coordinator) res" where
  "coord_num_blocks_to_allocate rid n_tokens new_computed_blocks num_encoder_tokens
      total_computed_tokens num_tokens_main_model c =
     rbind (on_managers (\<lambda>i (m, p).
         if mgr_class m = CrossAttentionManager then
           rbind (get_num_blocks_to_allocate m p rid num_encoder_tokens [] 0 num_encoder_tokens)
             (\<lambda>(n, m'). Inr (n, m', p))
         else
           rbind (py_get new_computed_blocks i) (\<lambda>bs.
           rbind (get_num_blocks_to_allocate m p rid n_tokens bs total_computed_tokens
                    num_tokens_main_model)
             (\<lambda>(n, m'). Inr (n, m', p)))) c)
       (\<lambda>(ns, c'). Inr (sum_list ns, c'))"

definition coord_allocate_new_computed_blocks ::
    "string \<Rightarrow> bref list list \<Rightarrow> int \<Rightarrow> int \<Rightarrow> coordinator \<Rightarrow> coordinator res" where
  "coord_allocate_new_computed_blocks rid new_computed_blocks num_local num_external c =
     rbind (on_managers (\<lambda>i mp.
         rbind (py_get new_computed_blocks i) (\<lambda>bs.
         no_result (allocate_new_computed_blocks rid bs num_local num_external mp))) c)
       (\<lambda>(_, c'). Inr c')"

definition coord_allocate_new_blocks ::
    "string \<Rightarrow> int \<Rightarrow> int \<Rightarrow> int \<Rightarrow> coordinator \<Rightarrow> (bref list list \<times> coordinator) res" where
  "coord_allocate_new_blocks rid n_tokens num_tokens_main_model num_encoder_tokens c =
     on_managers (\<lambda>_ (m, p).
       allocate_new_blocks rid
         (if mgr_class m = CrossAttentionManager then num_encoder_tokens else n_tokens)
         num_tokens_main_model (m, p)) c"

definition coord_cache_blocks :: "request \<Rightarrow> int \<Rightarrow> coordinator \<Rightarrow> coordinator res" where
  "coord_cache_blocks r n_computed c =
     rbind (on_managers (\<lambda>_ mp. no_result (cache_blocks r n_computed mp)) c) (\<lambda>(_, c'). Inr c')"

definition coord_free :: "string \<Rightarrow> coordinator \<Rightarrow> coordinator res" where
  "coord_free rid c =
     rbind (on_managers (\<lambda>_ mp. no_result (mgr_free rid mp)) c) (\<lambda>(_, c'). Inr c')"

definition coord_get_num_common_prefix_blocks ::
    "string \<Rightarrow> coordinator \<Rightarrow> (int list \<times> coordinator) res" where
  "coord_get_num_common_prefix_blocks rid c =
     (if coord_class c = KVCacheCoordinatorNoPrefixCache
      then Inr (map (\<lambda>_. 0) (managers c), c)
      else on_managers (\<lambda>_ (m, p).
        let (n, m') = get_num_common_prefix_blocks m p rid in Inr (n, m', p)) c)"

definition coord_remove_skipped_blocks :: "string \<Rightarrow> int \<Rightarrow> coordinator \<Rightarrow> coordinator res" where
  "coord_remove_skipped_blocks rid total_computed_tokens c =
     rbind (on_managers (\<lambda>_ mp. no_result (remove_skipped_blocks rid total_computed_tokens mp)) c)
       (\<lambda>(_, c'). Inr c')"

definition coord_get_blocks :: "string \<Rightarrow> coordinator \<Rightarrow> bref list list" where
  "coord_get_blocks rid c = map (\<lambda>m. blocks_of m rid) (managers c)"

section \<open>The longest cache hit\<close>

definition hybrid_hashes :: "block_hash list \<Rightarrow> int \<Rightarrow> kv_cache_spec \<Rightarrow> block_hash_list res" where
  "hybrid_hashes hashes hash_bs spec =
     (if spec_block_size spec = hash_bs then Inr (Plain hashes)
      else block_hash_list_with_block_size hashes hash_bs (spec_block_size spec))"

type_synonym group_hits = "int \<Rightarrow> bref list option"

definition set_hits :: "int list \<Rightarrow> bref list list \<Rightarrow> group_hits \<Rightarrow> group_hits" where
  "set_hits ids hits = fold (\<lambda>(i, bs) h. h(i := Some bs)) (zip ids hits)"

text \<open>One group of the inner \<open>for\<close> loop: the current hit length and the hits so far.\<close>

definition hybrid_group ::
    "coordinator \<Rightarrow> block_hash list \<Rightarrow> attention_group \<Rightarrow> int \<times> group_hits \<Rightarrow> (int \<times> group_hits) res"
  where
  "hybrid_group c hashes = (\<lambda>(spec, group_ids, cls) (curr_hit_length, hits).
     rbind (py_get group_ids 0) (\<lambda>g0.
     if is_full_attention spec \<and> hits g0 \<noteq> None then
       rbind (py_floordiv curr_hit_length (spec_block_size spec)) (\<lambda>n.
       Inr (n * spec_block_size spec, hits))
     else
       rbind (hybrid_hashes hashes (coord_hash_block_size c) spec) (\<lambda>bhl.
       rbind (find_longest_cache_hit cls bhl curr_hit_length group_ids (coord_pool c) spec
                (coord_eagle c) (lcm_block_size c) 1 1) (\<lambda>hit_blocks.
       rbind (py_get hit_blocks 0) (\<lambda>b0.
       Inr (py_len b0 * spec_block_size spec, set_hits group_ids hit_blocks hits))))))"

definition is_simple_hybrid :: "coordinator \<Rightarrow> bool" where
  "is_simple_hybrid c =
     (case attention_groups c of [(s, _, _), _] \<Rightarrow> is_full_attention s | _ \<Rightarrow> False)"

text \<open>
  The \<open>while True\<close> loop.  Every further iteration starts from a smaller hit length, so the fuel
  of one iteration per token is enough.
\<close>

fun hybrid_loop ::
    "nat \<Rightarrow> coordinator \<Rightarrow> block_hash list \<Rightarrow> int \<Rightarrow> group_hits \<Rightarrow> (int \<times> group_hits) res option" where
  "hybrid_loop 0 c hashes hit_length hits = None"
| "hybrid_loop (Suc fuel) c hashes hit_length hits =
     (case rfold (hybrid_group c hashes) (attention_groups c) (hit_length, hits) of
        Inl e \<Rightarrow> Some (Inl e)
      | Inr (curr_hit_length, hits') \<Rightarrow>
          if curr_hit_length \<ge> hit_length then Some (Inr (hit_length, hits'))
          else if is_simple_hybrid c then Some (Inr (curr_hit_length, hits'))
          else hybrid_loop fuel c hashes curr_hit_length hits')"

definition truncate_full :: "coordinator \<Rightarrow> int \<times> group_hits \<Rightarrow> (int \<times> group_hits) res" where
  "truncate_full c = (\<lambda>(hit_length, hits).
     rbind (py_get (attention_groups c) 0) (\<lambda>(spec, group_ids, _).
     if is_full_attention spec then
       rbind (py_floordiv hit_length (spec_block_size spec)) (\<lambda>n.
       Inr (hit_length, \<lambda>i. if i \<in> set group_ids then map_option (\<lambda>bs. py_upto bs n) (hits i)
                            else hits i))
     else Inr (hit_length, hits)))"

definition hybrid_find ::
    "coordinator \<Rightarrow> block_hash list \<Rightarrow> int \<Rightarrow> (bref list list \<times> int) res option" where
  "hybrid_find c hashes max_cache_hit_length =
     map_option (\<lambda>r. rbind r (\<lambda>s. rbind (truncate_full c s) (\<lambda>(hit_length, hits).
       Inr (map (\<lambda>i. case hits i of None \<Rightarrow> [] | Some bs \<Rightarrow> bs) [0..py_len (coord_groups c) - 1],
            hit_length))))
       (hybrid_loop (nat max_cache_hit_length + 2) c hashes max_cache_hit_length (\<lambda>_. None))"

definition unitary_find ::
    "coordinator \<Rightarrow> block_hash list \<Rightarrow> int \<Rightarrow> (bref list list \<times> int) res" where
  "unitary_find c hashes max_cache_hit_length =
     rbind (py_get (managers c) 0) (\<lambda>m.
     rbind (py_get (coord_groups c) 0) (\<lambda>g.
     rbind (find_longest_cache_hit (mgr_class m) (Plain hashes) max_cache_hit_length [0]
              (coord_pool c) (group_spec g) (coord_eagle c) (unitary_block_size c)
              (coord_dcp c) (coord_pcp c)) (\<lambda>hit_blocks.
     rbind (py_get hit_blocks 0) (\<lambda>b0.
     Inr (hit_blocks, py_len b0 * unitary_block_size c)))))"

definition coord_find_longest_cache_hit ::
    "coordinator \<Rightarrow> block_hash list \<Rightarrow> int \<Rightarrow> (bref list list \<times> int) res option" where
  "coord_find_longest_cache_hit c hashes max_cache_hit_length =
     (case coord_class c of
        KVCacheCoordinatorNoPrefixCache \<Rightarrow> Some (Inr (map (\<lambda>_. []) (managers c), 0))
      | UnitaryKVCacheCoordinator \<Rightarrow> Some (unitary_find c hashes max_cache_hit_length)
      | HybridKVCacheCoordinator \<Rightarrow> hybrid_find c hashes max_cache_hit_length)"

end
