(* ===== verification/KV_Manager.thy ===== *)
theory KV_Manager
  imports KV_Coordinator
begin

text \<open>
  \<^verbatim>\<open>vllm/v1/core/kv_cache_manager.py\<close>, the interface between the scheduler and the KV
  cache, with \<open>PrefixCacheStats\<close> of \<^verbatim>\<open>vllm/v1/metrics/stats.py\<close>.
\<close>

record prefix_cache_stats =
  stat_reset :: bool
  stat_requests :: int
  stat_queries :: int
  stat_hits :: int
  preempted_requests :: int
  preempted_queries :: int
  preempted_hits :: int

definition PrefixCacheStats :: prefix_cache_stats where
  "PrefixCacheStats = \<lparr>stat_reset = False, stat_requests = 0, stat_queries = 0, stat_hits = 0,
     preempted_requests = 0, preempted_queries = 0, preempted_hits = 0\<rparr>"

definition record_stats :: "int \<Rightarrow> int \<Rightarrow> bool \<Rightarrow> prefix_cache_stats \<Rightarrow> prefix_cache_stats" where
  "record_stats n_tokens num_hits preempted s =
     (if preempted then
        s\<lparr>preempted_requests := preempted_requests s + 1,
          preempted_queries := preempted_queries s + n_tokens,
          preempted_hits := preempted_hits s + num_hits\<rparr>
      else
        s\<lparr>stat_requests := stat_requests s + 1, stat_queries := stat_queries s + n_tokens,
          stat_hits := stat_hits s + num_hits\<rparr>)"

text \<open>
  \<open>KVCacheBlocks\<close>: the manager hands out one shared empty object, and \<open>allocate_slots\<close> asks
  whether it got that object back, so it is a constructor of its own.
\<close>

datatype kv_cache_blocks = EmptyKVCacheBlocks nat | KVCacheBlocks "bref list list"

fun group_blocks :: "kv_cache_blocks \<Rightarrow> bref list list" where
  "group_blocks (EmptyKVCacheBlocks n) = replicate n []"
| "group_blocks (KVCacheBlocks bs) = bs"

fun is_shared_empty :: "kv_cache_blocks \<Rightarrow> bool" where
  "is_shared_empty (EmptyKVCacheBlocks _) = True"
| "is_shared_empty (KVCacheBlocks _) = False"

definition add_kv_cache_blocks :: "kv_cache_blocks \<Rightarrow> kv_cache_blocks \<Rightarrow> kv_cache_blocks" where
  "add_kv_cache_blocks a b = KVCacheBlocks (map2 (@) (group_blocks a) (group_blocks b))"

definition get_block_ids :: "block_pool \<Rightarrow> bool \<Rightarrow> kv_cache_blocks \<Rightarrow> int list list option" where
  "get_block_ids p allow_none b =
     (if allow_none \<and> list_all (\<lambda>g. g = []) (group_blocks b) then None
      else Some (map (map (pool_ids p)) (group_blocks b)))"

definition get_unhashed_block_ids :: "block_pool \<Rightarrow> kv_cache_blocks \<Rightarrow> int list res" where
  "get_unhashed_block_ids p b =
     rbind (py_assert (length (group_blocks b) = 1)) (\<lambda>_.
     rbind (py_get (group_blocks b) 0) (\<lambda>g.
     Inr (map (pool_ids p) (filter (\<lambda>x. block_hash (pool_heap p x) = None) g))))"

definition new_empty :: "kv_cache_blocks \<Rightarrow> kv_cache_blocks" where
  "new_empty b = KVCacheBlocks (map (\<lambda>_. []) (group_blocks b))"

record kv_cache_manager =
  kcm_max_model_len :: int
  kcm_caching :: bool
  kcm_log_stats :: bool
  kcm_stats :: "prefix_cache_stats option"
  kcm_coord :: coordinator
  num_kv_cache_groups :: nat

definition KVCacheManager ::
    "kv_cache_config \<Rightarrow> int \<Rightarrow> int \<Rightarrow> bool \<Rightarrow> bool \<Rightarrow> bool \<Rightarrow> bool \<Rightarrow> bool \<Rightarrow> int \<Rightarrow> int \<Rightarrow> bool \<Rightarrow>
     kv_cache_manager res" where
  "KVCacheManager config max_len hash_bs caching use_eagle log_stats events int_hashes dcp pcp metrics =
     rbind (get_kv_cache_coordinator config max_len use_eagle caching events int_hashes dcp pcp
              hash_bs metrics) (\<lambda>c.
     Inr \<lparr>kcm_max_model_len = max_len, kcm_caching = caching, kcm_log_stats = log_stats,
          kcm_stats = (if log_stats then Some PrefixCacheStats else None), kcm_coord = c,
          num_kv_cache_groups = length (kv_cache_groups config)\<rparr>)"

definition usage :: "kv_cache_manager \<Rightarrow> rat" where
  "usage k = get_usage (coord_pool (kcm_coord k))"

definition make_prefix_cache_stats ::
    "kv_cache_manager \<Rightarrow> prefix_cache_stats option \<times> kv_cache_manager" where
  "make_prefix_cache_stats k =
     (if \<not> kcm_log_stats k then (None, k)
      else (kcm_stats k, k\<lparr>kcm_stats := Some PrefixCacheStats\<rparr>))"

definition create_kv_cache_blocks :: "kv_cache_manager \<Rightarrow> bref list list \<Rightarrow> kv_cache_blocks" where
  "create_kv_cache_blocks k blocks =
     (if list_ex (\<lambda>g. g \<noteq> []) blocks then KVCacheBlocks blocks
      else EmptyKVCacheBlocks (num_kv_cache_groups k))"

definition get_computed_blocks ::
    "request \<Rightarrow> kv_cache_manager \<Rightarrow> ((kv_cache_blocks \<times> int) \<times> kv_cache_manager) res option" where
  "get_computed_blocks r k =
     (if \<not> kcm_caching k \<or> skip_reading_prefix_cache r
      then Some (Inr ((EmptyKVCacheBlocks (num_kv_cache_groups k), 0), k))
      else
        let max_cache_hit_length = num_tokens r - 1 in
        map_option (\<lambda>res. rbind res (\<lambda>(computed_blocks, num_new_computed_tokens).
          rbind (if kcm_log_stats k
                 then (case kcm_stats k of
                     None \<Rightarrow> Inl AssertionError
                   | Some s \<Rightarrow> Inr (k\<lparr>kcm_stats := Some (record_stats (num_tokens r)
                       num_new_computed_tokens (num_preemptions r > 0) s)\<rparr>))
                 else Inr k) (\<lambda>k'.
          Inr ((create_kv_cache_blocks k computed_blocks, num_new_computed_tokens), k'))))
          (coord_find_longest_cache_hit (kcm_coord k) (block_hashes r) max_cache_hit_length))"

definition set_coord :: "kv_cache_manager \<Rightarrow> coordinator \<Rightarrow> kv_cache_manager" where
  "set_coord k c = k\<lparr>kcm_coord := c\<rparr>"

text \<open>The result \<open>None\<close> is the code's \<open>return None\<close>: not enough free blocks.\<close>

definition allocate_slots ::
    "request \<Rightarrow> int \<Rightarrow> int \<Rightarrow> kv_cache_blocks option \<Rightarrow> int \<Rightarrow> int \<Rightarrow> bool \<Rightarrow> int \<Rightarrow>
     kv_cache_manager \<Rightarrow> (kv_cache_blocks option \<times> kv_cache_manager) res" where
  "allocate_slots r num_new_tokens num_new_computed_tokens new_computed_blocks
      num_lookahead_tokens num_external_computed_tokens delay_cache_blocks num_encoder_tokens k =
     (if num_new_tokens = 0 \<and> num_external_computed_tokens = 0 then Inl ValueError
      else
        let blocks0 = (case new_computed_blocks of
                None \<Rightarrow> EmptyKVCacheBlocks (num_kv_cache_groups k) | Some b \<Rightarrow> b);
            new_computed_block_list = group_blocks blocks0;
            num_local_computed_tokens = num_computed_tokens r + num_new_computed_tokens;
            total_computed_tokens =
              min (num_local_computed_tokens + num_external_computed_tokens) (kcm_max_model_len k);
            num_tokens_main_model = total_computed_tokens + num_new_tokens;
            num_tokens_need_slot =
              min (num_tokens_main_model + num_lookahead_tokens) (kcm_max_model_len k);
            rid = request_id r
        in
        rbind (coord_remove_skipped_blocks rid total_computed_tokens (kcm_coord k)) (\<lambda>c1.
        rbind (coord_num_blocks_to_allocate rid num_tokens_need_slot new_computed_block_list
                 num_encoder_tokens (num_local_computed_tokens + num_external_computed_tokens)
                 num_tokens_main_model c1) (\<lambda>(num_blocks_to_allocate, c2).
        if num_blocks_to_allocate > get_num_free_blocks (coord_pool c2)
        then Inr (None, set_coord k c2)
        else
          rbind (if \<not> is_shared_empty blocks0 \<or> num_external_computed_tokens > 0
                 then coord_allocate_new_computed_blocks rid new_computed_block_list
                        num_local_computed_tokens num_external_computed_tokens c2
                 else Inr c2) (\<lambda>c3.
          rbind (coord_allocate_new_blocks rid num_tokens_need_slot num_tokens_main_model
                   num_encoder_tokens c3) (\<lambda>(new_blocks, c4).
          if \<not> kcm_caching k \<or> delay_cache_blocks
          then Inr (Some (create_kv_cache_blocks k new_blocks), set_coord k c4)
          else
            let num_tokens_to_cache = min (total_computed_tokens + num_new_tokens) (num_tokens r)
            in rbind (coord_cache_blocks r num_tokens_to_cache c4) (\<lambda>c5.
               Inr (Some (create_kv_cache_blocks k new_blocks), set_coord k c5)))))))"

definition free_request :: "request \<Rightarrow> kv_cache_manager \<Rightarrow> kv_cache_manager res" where
  "free_request r k = rbind (coord_free (request_id r) (kcm_coord k)) (\<lambda>c. Inr (set_coord k c))"

definition kcm_remove_skipped_blocks :: "string \<Rightarrow> int \<Rightarrow> kv_cache_manager \<Rightarrow> kv_cache_manager res" where
  "kcm_remove_skipped_blocks rid total_computed_tokens k =
     rbind (coord_remove_skipped_blocks rid total_computed_tokens (kcm_coord k))
       (\<lambda>c. Inr (set_coord k c))"

definition on_pool :: "(block_pool \<Rightarrow> block_pool res) \<Rightarrow> kv_cache_manager \<Rightarrow> kv_cache_manager res" where
  "on_pool f k = rbind (f (coord_pool (kcm_coord k)))
     (\<lambda>p. Inr (set_coord k ((kcm_coord k)\<lparr>coord_pool := p\<rparr>)))"

definition kcm_evict_blocks :: "int list \<Rightarrow> kv_cache_manager \<Rightarrow> kv_cache_manager res" where
  "kcm_evict_blocks ids = on_pool (evict_blocks ids)"

definition kcm_reset_prefix_cache :: "kv_cache_manager \<Rightarrow> (bool \<times> kv_cache_manager) res" where
  "kcm_reset_prefix_cache k =
     (let (done, p) = reset_prefix_cache (coord_pool (kcm_coord k));
          k' = set_coord k ((kcm_coord k)\<lparr>coord_pool := p\<rparr>)
      in if \<not> done then Inr (False, k')
         else if kcm_log_stats k then
           (case kcm_stats k of
              None \<Rightarrow> Inl AssertionError
            | Some s \<Rightarrow> Inr (True, k'\<lparr>kcm_stats := Some (s\<lparr>stat_reset := True\<rparr>)\<rparr>))
         else Inr (True, k'))"

definition kcm_get_num_common_prefix_blocks ::
    "string \<Rightarrow> kv_cache_manager \<Rightarrow> (int list \<times> kv_cache_manager) res" where
  "kcm_get_num_common_prefix_blocks rid k =
     rbind (coord_get_num_common_prefix_blocks rid (kcm_coord k)) (\<lambda>(ns, c). Inr (ns, set_coord k c))"

definition kcm_take_events :: "kv_cache_manager \<Rightarrow> kv_event list \<times> kv_cache_manager" where
  "kcm_take_events k =
     (let (es, p) = take_events (coord_pool (kcm_coord k))
      in (es, set_coord k ((kcm_coord k)\<lparr>coord_pool := p\<rparr>)))"

definition get_blocks :: "string \<Rightarrow> kv_cache_manager \<Rightarrow> kv_cache_blocks" where
  "get_blocks rid k = create_kv_cache_blocks k (coord_get_blocks rid (kcm_coord k))"

definition kcm_get_block_ids :: "string \<Rightarrow> kv_cache_manager \<Rightarrow> int list list option" where
  "kcm_get_block_ids rid k = get_block_ids (coord_pool (kcm_coord k)) False (get_blocks rid k)"

definition kcm_cache_blocks :: "request \<Rightarrow> int \<Rightarrow> kv_cache_manager \<Rightarrow> kv_cache_manager res" where
  "kcm_cache_blocks r n_computed k =
     (if kcm_caching k
      then rbind (coord_cache_blocks r n_computed (kcm_coord k)) (\<lambda>c. Inr (set_coord k c))
      else Inr k)"

end
