(* ===== verification/Coordinator_Inv.thy ===== *)
theory Coordinator_Inv
  imports Manager_Inv KV_Manager
begin

text \<open>
  The coordinator's invariant: every reference count of the pool is the number of places the block
  occurs in the tables of all managers together.  Each operation of the coordinator is a loop over
  the managers; one rule lifts the laws of the managers to it.
\<close>

section \<open>The invariant of all managers\<close>

definition held :: "manager list \<Rightarrow> bref \<Rightarrow> int" where
  "held ms b = (\<Sum>m \<leftarrow> ms. total (req_to_blocks m) b)"

definition coord_inv :: "manager list \<Rightarrow> block_pool \<Rightarrow> bref list \<Rightarrow> bool" where
  "coord_inv ms p free \<longleftrightarrow> pool_inv p free {} \<and> (\<forall>m \<in> set ms. rows_ok m p \<and> fresh_tails m p) \<and>
     (\<forall>b \<in> usable p. refs p b = held ms b) \<and>
     (\<not> enable_caching p \<longrightarrow> (\<forall>b \<in> usable p. hash_of p b = None))"

lemma held_simps [simp]: "held [] b = 0" "held (m # ms) b = total (req_to_blocks m) b + held ms b"
  "held (ms @ ms') b = held ms b + held ms' b"
  by (simp_all add: held_def)

lemma held_nonneg [simp]: "0 \<le> held ms b"
  by (induction ms) simp_all

lemma held_ge: "m \<in> set ms \<Longrightarrow> total (req_to_blocks m) b \<le> held ms b"
  by (induction ms) (auto intro: order.trans)

lemma coord_mgr:
  assumes "coord_inv (A @ m # B) p free"
  shows "mgr_inv m p free (held (A @ B))"
  using assms by (auto simp: coord_inv_def mgr_inv_def counted_def)

lemma occ_row_pos: "b \<in> set (blocks_of m rid) \<Longrightarrow> 1 \<le> total (req_to_blocks m) b"
  using row_le_total [of "req_to_blocks m" rid b] occ_pos [of "row (req_to_blocks m) rid" b]
  by (auto simp: blocks_of_row)

text \<open>A step of one manager within its frame keeps what the other managers rely on.\<close>

lemma coord_step:
  assumes inv: "coord_inv (A @ m # B) p free" and m': "mgr_inv m' p' free' (held (A @ B))"
    and f: "frame m (held (A @ B)) p p'"
  shows "coord_inv (A @ m' # B) p' free'"
proof -
  have c: "pool_conf p' = pool_conf p" using f by (simp add: frame_def)
  have u: "usable p' = usable p" "real_blocks p' = real_blocks p" "null_block p' = null_block p"
    using usable_conf [OF c] real_blocks_conf [OF c] confD(1) [OF c] by simp_all
  have rows: "rows_ok k p' \<and> fresh_tails k p'" if k: "k \<in> set (A @ B)" for k
  proof
    have old: "rows_ok k p" "fresh_tails k p" using inv k by (auto simp: coord_inv_def)
    then show "rows_ok k p'" by (simp add: rows_ok_def u)
    show "fresh_tails k p'"
      unfolding fresh_tails_def
    proof (intro allI ballI)
      fix rid b assume b: "b \<in> set (real_blocks p' (uncached k rid))"
      then have br: "b \<in> set (real_blocks p (uncached k rid))" by (simp add: u)
      then have h: "hash_of p b = None" "refs p b = 1" using old(2) by (auto simp: fresh_tails_def)
      have bb: "b \<in> set (blocks_of k rid)"
        using br by (auto simp: in_real_blocks uncached_def dest: in_set_dropD)
      then have us: "b \<in> usable p" using old(1) br by (auto simp: rows_ok_def in_real_blocks)
      have "1 \<le> held (A @ B) b" using occ_row_pos [OF bb] held_ge [OF k, of b] by linarith
      moreover have "total (req_to_blocks m) b + held (A @ B) b = 1"
        using inv us h(2) by (simp add: coord_inv_def)
      moreover have "0 \<le> total (req_to_blocks m) b" by simp
      ultimately have "1 \<le> held (A @ B) b" "total (req_to_blocks m) b = 0" by linarith+
      with f us h show "hash_of p' b = None \<and> refs p' b = 1" unfolding frame_def by metis
    qed
  qed
  moreover have "refs p' b = held (A @ m' # B) b" if "b \<in> usable p'" for b
    using m' that by (simp add: mgr_inv_def counted_def)
  ultimately show ?thesis using m' by (auto simp: coord_inv_def mgr_inv_def)
qed

section \<open>The loop over the managers\<close>

text \<open>
  \<open>A i ms p free\<close> is what holds before manager \<open>i\<close>, \<open>ms\<close> being the managers still to come; the
  post-condition \<open>P\<close> relates each manager to its result and its new state.
\<close>

lemma each_manager_inv:
  assumes step: "\<And>i m ms p free others. A i (m # ms) p free \<Longrightarrow> mgr_inv m p free others \<Longrightarrow>
      \<exists>x m' p' free'. f i (m, p) = Inr (x, m', p') \<and> mgr_inv m' p' free' others \<and>
        frame m others p p' \<and> A (i + 1) ms p' free' \<and> P i m x m'"
    and "coord_inv (done @ todo) p free" and "A i todo p free"
  shows "\<exists>xs ms' p' free'. each_manager f i (todo, p) = Inr (xs, ms', p') \<and>
    coord_inv (done @ ms') p' free' \<and> pool_conf p' = pool_conf p \<and>
    A (i + int (length todo)) [] p' free' \<and> length xs = length todo \<and> length ms' = length todo \<and>
    (\<forall>j < length todo. P (i + int j) (todo ! j) (xs ! j) (ms' ! j))"
  using assms(2,3)
proof (induction todo arbitrary: "done" i p free)
  case Nil
  then show ?case by auto
next
  case (Cons m ms)
  obtain x m' p1 free1 where 1: "f i (m, p) = Inr (x, m', p1)" "mgr_inv m' p1 free1 (held (done @ ms))"
      "frame m (held (done @ ms)) p p1" "A (i + 1) ms p1 free1" "P i m x m'"
    using step [OF Cons.prems(2) coord_mgr [OF Cons.prems(1)]] by blast
  have "coord_inv ((done @ [m']) @ ms) p1 free1" using coord_step [OF Cons.prems(1) 1(2,3)] by simp
  from Cons.IH [OF this 1(4)] obtain xs ms' p' free' where
    2: "each_manager f (i + 1) (ms, p1) = Inr (xs, ms', p')" "coord_inv ((done @ [m']) @ ms') p' free'"
      "pool_conf p' = pool_conf p1" "A (i + 1 + int (length ms)) [] p' free'"
      "length xs = length ms" "length ms' = length ms"
      "\<forall>j < length ms. P (i + 1 + int j) (ms ! j) (xs ! j) (ms' ! j)" by blast
  have "pool_conf p1 = pool_conf p" using 1(3) by (simp add: frame_def)
  moreover have "P (i + int j) ((m # ms) ! j) ((x # xs) ! j) ((m' # ms') ! j)"
    if "j < length (m # ms)" for j
    using that 1(5) 2(7) by (cases j) (simp_all add: algebra_simps)
  ultimately show ?case
    using 1(1) 2
    by (intro exI [of _ "x # xs"] exI [of _ "m' # ms'"] exI [of _ p'] exI [of _ free'])
      (simp add: algebra_simps)
qed

lemma on_managers_inv:
  assumes step: "\<And>i m ms p free others. A i (m # ms) p free \<Longrightarrow> mgr_inv m p free others \<Longrightarrow>
      \<exists>x m' p' free'. f i (m, p) = Inr (x, m', p') \<and> mgr_inv m' p' free' others \<and>
        frame m others p p' \<and> A (i + 1) ms p' free' \<and> P i m x m'"
    and "coord_inv (managers c) (coord_pool c) free" and "A 0 (managers c) (coord_pool c) free"
  shows "\<exists>xs ms p free'. on_managers f c = Inr (xs, c\<lparr>managers := ms, coord_pool := p\<rparr>) \<and>
    coord_inv ms p free' \<and> pool_conf p = pool_conf (coord_pool c) \<and>
    A (int (length (managers c))) [] p free' \<and> length xs = length (managers c) \<and>
    length ms = length (managers c) \<and>
    (\<forall>j < length (managers c). P (int j) (managers c ! j) (xs ! j) (ms ! j))"
proof -
  have inv: "coord_inv ([] @ managers c) (coord_pool c) free" using assms(2) by simp
  have "\<exists>xs ms p free'. each_manager f 0 (managers c, coord_pool c) = Inr (xs, ms, p) \<and>
    coord_inv ([] @ ms) p free' \<and> pool_conf p = pool_conf (coord_pool c) \<and>
    A (0 + int (length (managers c))) [] p free' \<and> length xs = length (managers c) \<and>
    length ms = length (managers c) \<and>
    (\<forall>j < length (managers c). P (0 + int j) (managers c ! j) (xs ! j) (ms ! j))"
    by (rule each_manager_inv [where A = A, OF _ inv]; (rule step | rule assms(3)); assumption?)
  then obtain xs ms p free' where "each_manager f 0 (managers c, coord_pool c) = Inr (xs, ms, p)"
    "coord_inv ms p free'" "pool_conf p = pool_conf (coord_pool c)"
    "A (int (length (managers c))) [] p free'" "length xs = length (managers c)"
    "length ms = length (managers c)"
    "\<forall>j < length (managers c). P (int j) (managers c ! j) (xs ! j) (ms ! j)" by auto
  then show ?thesis unfolding on_managers_def by auto
qed

definition step_ok ::
    "(int \<Rightarrow> manager \<times> block_pool \<Rightarrow> ('a \<times> manager \<times> block_pool) res) \<Rightarrow>
     (int \<Rightarrow> manager list \<Rightarrow> block_pool \<Rightarrow> bref list \<Rightarrow> bool) \<Rightarrow>
     (int \<Rightarrow> manager \<Rightarrow> 'a \<Rightarrow> manager \<Rightarrow> bool) \<Rightarrow> bool" where
  "step_ok f A P \<longleftrightarrow> (\<forall>i m ms p free others. A i (m # ms) p free \<longrightarrow> mgr_inv m p free others \<longrightarrow>
     (\<exists>x m' p' free'. f i (m, p) = Inr (x, m', p') \<and> mgr_inv m' p' free' others \<and>
        frame m others p p' \<and> A (i + 1) ms p' free' \<and> P i m x m'))"

lemma on_managers_rule:
  assumes "step_ok f A P" and "coord_inv (managers c) (coord_pool c) free"
    and "A 0 (managers c) (coord_pool c) free"
  obtains xs ms p free' where "on_managers f c = Inr (xs, c\<lparr>managers := ms, coord_pool := p\<rparr>)"
    and "coord_inv ms p free'" and "pool_conf p = pool_conf (coord_pool c)"
    and "A (int (length (managers c))) [] p free'" and "length xs = length (managers c)"
    and "length ms = length (managers c)"
    and "\<And>j. j < length (managers c) \<Longrightarrow> P (int j) (managers c ! j) (xs ! j) (ms ! j)"
proof -
  have "\<exists>xs ms p free'. on_managers f c = Inr (xs, c\<lparr>managers := ms, coord_pool := p\<rparr>) \<and>
    coord_inv ms p free' \<and> pool_conf p = pool_conf (coord_pool c) \<and>
    A (int (length (managers c))) [] p free' \<and> length xs = length (managers c) \<and>
    length ms = length (managers c) \<and>
    (\<forall>j < length (managers c). P (int j) (managers c ! j) (xs ! j) (ms ! j))"
    by (rule on_managers_inv [where A = A and P = P, OF _ assms(2,3)])
      (use assms(1) in \<open>simp add: step_ok_def\<close>)
  with that show thesis by blast
qed

section \<open>What an operation on one request leaves alone\<close>

definition mgr_conf :: "manager \<Rightarrow> manager_class \<times> kv_cache_spec \<times> int \<times> bool \<times> int" where
  "mgr_conf m = (mgr_class m, mgr_spec m, mgr_block_size m, mgr_caching m, kv_cache_group_id m)"

definition others_same :: "string \<Rightarrow> manager \<Rightarrow> manager \<Rightarrow> bool" where
  "others_same rid m m' \<longleftrightarrow> mgr_conf m' = mgr_conf m \<and>
     (\<forall>r. r \<noteq> rid \<longrightarrow> blocks_of m' r = blocks_of m r \<and>
        map_of (num_cached_block m') r = map_of (num_cached_block m) r)"

lemma others_same_refl [simp]: "others_same rid m m"
  by (simp add: others_same_def)

lemma others_same_trans: "others_same rid m m1 \<Longrightarrow> others_same rid m1 m2 \<Longrightarrow> others_same rid m m2"
  by (simp add: others_same_def)

lemma others_same_confD:
  assumes "others_same rid m m'"
  shows "mgr_class m' = mgr_class m" "mgr_spec m' = mgr_spec m" "mgr_block_size m' = mgr_block_size m"
    "mgr_caching m' = mgr_caching m" "kv_cache_group_id m' = kv_cache_group_id m"
  using assms by (simp_all add: others_same_def mgr_conf_def)

lemma others_same_set_blocks [simp]: "others_same rid m (set_blocks rid bs m)"
  by (simp add: others_same_def mgr_conf_def)

lemma others_same_default [simp]: "others_same rid m (default_entry rid m)"
  by (simp add: default_entry_def)

lemma others_same_cached [simp]:
  "others_same rid m (m'\<lparr>num_cached_block := AList.update rid n (num_cached_block m)\<rparr>) \<longleftrightarrow>
     others_same rid m (m'\<lparr>num_cached_block := num_cached_block m\<rparr>)"
  by (simp add: others_same_def mgr_conf_def AList.update_conv' blocks_of_def)

lemma allocate_base_same:
  "allocate_base rid n (m, p) = Inr (x, m', p') \<Longrightarrow> others_same rid m m'"
  by (auto simp: allocate_base_def Let_def res_simps split: if_splits)

lemma skipped_same:
  "get_num_skipped_tokens (set_blocks rid bs m) = get_num_skipped_tokens m"
  by (simp add: get_num_skipped_tokens_def fun_eq_iff)

lemma remove_skipped_base_same:
  assumes "remove_skipped_base rid n (m, p) = Inr (m', p')"
  shows "others_same rid m m'" "num_cached_block m' = num_cached_block m"
  using assms by (auto simp: remove_skipped_base_def Let_def res_simps split: if_splits prod.splits)

lemma allocate_computed_base_same:
  "allocate_computed_base rid bs l e (m, p) = Inr (m', p') \<Longrightarrow> others_same rid m m'"
  by (auto simp: allocate_computed_base_def Let_def res_simps others_same_def mgr_conf_def
      AList.update_conv' blocks_of_row set_blocks_def row_update split: if_splits)

lemma cache_blocks_same:
  "cache_blocks r n (m, p) = Inr (m', p') \<Longrightarrow> others_same (request_id r) m m'"
  by (auto simp: cache_blocks_def Let_def res_simps others_same_def mgr_conf_def default_entry_def
      AList.update_conv' blocks_of_row set_blocks_def row_update split: if_splits)

lemma mgr_free_same:
  assumes "mgr_free rid (m, p) = Inr (m', p')"
  shows "others_same rid m m'" "map_of (req_to_blocks m') rid = None"
    "map_of (num_cached_block m') rid = None"
  using assms by (auto simp: mgr_free_def Let_def res_simps others_same_def mgr_conf_def
      AList.delete_conv' blocks_of_row row_delete split: if_splits)

section \<open>The operations of the coordinator\<close>

text \<open>Managers of attention layers that neither skip the block table (cross attention) nor copy
  states (Mamba).\<close>

definition plain :: "manager \<Rightarrow> bool" where
  "plain m \<longleftrightarrow> mgr_class m \<noteq> MambaManager \<and> mgr_class m \<noteq> CrossAttentionManager \<and> 0 < mgr_block_size m"

lemma plain_same: "others_same rid m m' \<Longrightarrow> plain m' = plain m"
  by (simp add: plain_def others_same_confD)

lemma coord_free_inv:
  assumes "coord_inv (managers c) (coord_pool c) free"
  shows "\<exists>ms p free'. coord_free rid c = Inr (c\<lparr>managers := ms, coord_pool := p\<rparr>) \<and>
    coord_inv ms p free' \<and> pool_conf p = pool_conf (coord_pool c) \<and>
    hash_of p = hash_of (coord_pool c) \<and> length ms = length (managers c) \<and>
    (\<forall>j < length (managers c). others_same rid (managers c ! j) (ms ! j) \<and>
       map_of (req_to_blocks (ms ! j)) rid = None \<and> map_of (num_cached_block (ms ! j)) rid = None)"
proof -
  let ?f = "\<lambda>i mp. no_result (mgr_free rid mp)"
  let ?A = "\<lambda>i ms p free. hash_of p = hash_of (coord_pool c)"
  let ?P = "\<lambda>i m x m'. others_same rid m m' \<and> map_of (req_to_blocks m') rid = None \<and>
      map_of (num_cached_block m') rid = None"
  have "step_ok ?f ?A ?P"
    unfolding step_ok_def
  proof (intro allI impI)
    fix i m ms p free others
    assume A: "?A i (m # ms) p free" and inv: "mgr_inv m p free others"
    obtain m' p' where 1: "mgr_free rid (m, p) = Inr (m', p')" "frame m others p p'"
      "mgr_inv m' p' (free @ filter (\<lambda>b. refs p b = 1) (rev (real_blocks p (blocks_of m rid)))) others"
      "hash_of p' = hash_of p"
      using mgr_free_inv [OF inv, of rid] by blast
    then show "\<exists>x m' p' free'. ?f i (m, p) = Inr (x, m', p') \<and> mgr_inv m' p' free' others \<and>
      frame m others p p' \<and> ?A (i + 1) ms p' free' \<and> ?P i m x m'"
      using mgr_free_same [OF 1(1)] A by (auto simp: no_result_def)
  qed
  then show ?thesis
    by (rule on_managers_rule [OF _ assms refl]) (auto simp: coord_free_def)
qed

text \<open>Removing the skipped blocks only overwrites table entries by the null block, and only before the
  first token that is still needed.\<close>

definition trimmed :: "bref \<Rightarrow> string \<Rightarrow> int \<Rightarrow> manager \<Rightarrow> manager \<Rightarrow> bool" where
  "trimmed null rid n m m' \<longleftrightarrow> others_same rid m m' \<and> num_cached_block m' = num_cached_block m \<and>
     list_all2 (\<lambda>x y. x = y \<or> x = null) (blocks_of m' rid) (blocks_of m rid) \<and>
     (\<forall>i < length (blocks_of m rid). get_num_skipped_tokens m n \<le> int i * mgr_block_size m \<longrightarrow>
        blocks_of m' rid ! i = blocks_of m rid ! i)"

lemma coord_remove_skipped_inv:
  assumes "coord_inv (managers c) (coord_pool c) free" and "\<forall>m \<in> set (managers c). plain m"
  shows "\<exists>ms p free'. coord_remove_skipped_blocks rid n c = Inr (c\<lparr>managers := ms, coord_pool := p\<rparr>) \<and>
    coord_inv ms p free' \<and> pool_conf p = pool_conf (coord_pool c) \<and>
    hash_of p = hash_of (coord_pool c) \<and> set free \<subseteq> set free' \<and> length ms = length (managers c) \<and>
    (\<forall>j < length (managers c). trimmed (null_block (coord_pool c)) rid n (managers c ! j) (ms ! j))"
proof -
  let ?f = "\<lambda>i mp. no_result (remove_skipped_blocks rid n mp)"
  let ?A = "\<lambda>i ms p free'. pool_conf p = pool_conf (coord_pool c) \<and> hash_of p = hash_of (coord_pool c) \<and>
      (\<forall>m \<in> set ms. plain m) \<and> set free \<subseteq> set free'"
  let ?P = "\<lambda>i m x m'. trimmed (null_block (coord_pool c)) rid n m m'"
  have "step_ok ?f ?A ?P"
    unfolding step_ok_def
  proof (intro allI impI)
    fix i m ms p free1 others
    assume A: "?A i (m # ms) p free1" and inv: "mgr_inv m p free1 others"
    obtain m' p' freed where 1: "remove_skipped_base rid n (m, p) = Inr (m', p')"
      "mgr_inv m' p' (free1 @ freed) others" "frame m others p p'"
      "list_all2 (\<lambda>x y. x = y \<or> x = null_block p) (blocks_of m' rid) (blocks_of m rid)"
      "\<forall>i < length (blocks_of m rid). get_num_skipped_tokens m n \<le> int i * mgr_block_size m \<longrightarrow>
         0 < mgr_block_size m \<longrightarrow> blocks_of m' rid ! i = blocks_of m rid ! i"
      "mgr_class m' = mgr_class m" "hash_of p' = hash_of p"
      using remove_skipped_base_inv [OF inv, of rid n] by blast
    have m: "plain m" using A by simp
    then have run: "remove_skipped_blocks rid n (m, p) = Inr (m', p')"
      by (simp add: remove_skipped_blocks_def 1(1,6) plain_def)
    have c: "pool_conf p' = pool_conf p" using 1(3) by (simp add: frame_def)
    have nb: "null_block p = null_block (coord_pool c)" using A confD(1) by blast
    have "trimmed (null_block (coord_pool c)) rid n m m'"
      using 1(4,5) m remove_skipped_base_same [OF 1(1)] by (simp add: trimmed_def plain_def nb)
    with run 1(2,3,7) A c
    show "\<exists>x m' p' free'. ?f i (m, p) = Inr (x, m', p') \<and> mgr_inv m' p' free' others \<and>
      frame m others p p' \<and> ?A (i + 1) ms p' free' \<and> ?P i m x m'"
      by (intro exI [of _ "()"] exI [of _ m'] exI [of _ p'] exI [of _ "free1 @ freed"])
        (auto simp: no_result_def)
  qed
  then show ?thesis
    by (rule on_managers_rule [OF _ assms(1)]) (use assms(2) in \<open>auto simp: coord_remove_skipped_blocks_def\<close>)
qed

text \<open>Counting changes nothing: the sum of the blocks every group needs.\<close>

definition need_blocks :: "manager \<Rightarrow> block_pool \<Rightarrow> string \<Rightarrow> int \<Rightarrow> bref list \<Rightarrow> int \<Rightarrow> int" where
  "need_blocks m p rid n bs total_computed =
     (if map_of (num_cached_block m) rid \<noteq> None
      then max (cdiv n (mgr_block_size m) - py_len (blocks_of m rid)) 0
      else max (cdiv n (mgr_block_size m) - max (skipped_blocks m total_computed)
                 (py_len bs + py_len (blocks_of m rid))) 0 +
           get_num_evictable_blocks p
             (py_from bs (max 0 (skipped_blocks m total_computed - py_len (blocks_of m rid)))))"

lemma num_blocks_base:
  assumes "map_of (num_cached_block m) rid \<noteq> None \<Longrightarrow> bs = []"
  shows "num_blocks_to_allocate_base m p rid n bs total_computed =
    Inr (need_blocks m p rid n bs total_computed)"
  using assms by (simp add: num_blocks_to_allocate_base_def need_blocks_def skipped_blocks_def Let_def)

lemma each_manager_pure:
  assumes "list_all2 (\<lambda>m k. True) ms ks"
    and "\<And>j. j < length ms \<Longrightarrow> f (i + int j) (ms ! j, p) = Inr (ks ! j, ms ! j, p)"
  shows "each_manager f i (ms, p) = Inr (ks, ms, p)"
  using assms
proof (induction ms ks arbitrary: i rule: list_all2_induct)
  case Nil
  then show ?case by simp
next
  case (Cons m ms k ks)
  have "f i (m, p) = Inr (k, m, p)" using Cons.prems [of 0] by simp
  moreover have "each_manager f (i + 1) (ms, p) = Inr (ks, ms, p)"
    using Cons.prems [of "Suc _"] by (intro Cons.IH) (simp add: algebra_simps)
  ultimately show ?case by simp
qed

lemma coord_count:
  assumes "\<forall>m \<in> set (managers c). plain m"
    and "list_all2 (\<lambda>m bs. map_of (num_cached_block m) rid \<noteq> None \<longrightarrow> bs = []) (managers c) hits"
  shows "coord_num_blocks_to_allocate rid n hits enc total_computed main c =
    Inr (sum_list (map2 (\<lambda>m bs. need_blocks m (coord_pool c) rid n bs total_computed) (managers c) hits), c)"
proof -
  let ?ks = "map2 (\<lambda>m bs. need_blocks m (coord_pool c) rid n bs total_computed) (managers c) hits"
  let ?f = "\<lambda>i (m, p).
         if mgr_class m = CrossAttentionManager then
           rbind (get_num_blocks_to_allocate m p rid enc [] 0 enc) (\<lambda>(n, m'). Inr (n, m', p))
         else rbind (py_get hits i) (\<lambda>bs.
           rbind (get_num_blocks_to_allocate m p rid n bs total_computed main) (\<lambda>(n, m'). Inr (n, m', p)))"
  have len: "length hits = length (managers c)" using assms(2) by (simp add: list_all2_lengthD)
  have "each_manager ?f 0 (managers c, coord_pool c) = Inr (?ks, managers c, coord_pool c)"
  proof (rule each_manager_pure)
    show "list_all2 (\<lambda>m k. True) (managers c) ?ks" by (simp add: list_all2_conv_all_nth len)
    fix j assume j: "j < length (managers c)"
    then have m: "plain (managers c ! j)" using assms(1) by simp
    have "map_of (num_cached_block (managers c ! j)) rid \<noteq> None \<Longrightarrow> hits ! j = []"
      using assms(2) j by (simp add: list_all2_conv_all_nth)
    from num_blocks_base [OF this, where p = "coord_pool c" and n = n and total_computed = total_computed]
    show "?f (0 + int j) (managers c ! j, coord_pool c) = Inr (?ks ! j, managers c ! j, coord_pool c)"
      using m j len by (simp add: plain_def get_num_blocks_to_allocate_def py_get_def py_len_def)
  qed
  moreover have "c\<lparr>managers := managers c, coord_pool := coord_pool c\<rparr> = c" by (cases c) simp
  ultimately show ?thesis
    by (simp add: coord_num_blocks_to_allocate_def on_managers_def)
qed

text \<open>Allocating new blocks: every group gets exactly its missing blocks.\<close>

definition missing :: "string \<Rightarrow> int \<Rightarrow> manager \<Rightarrow> int" where
  "missing rid n m = max 0 (cdiv n (mgr_block_size m) - py_len (blocks_of m rid))"

definition grown :: "string \<Rightarrow> int \<Rightarrow> manager \<Rightarrow> bref list \<Rightarrow> manager \<Rightarrow> bool" where
  "grown rid n m new m' \<longleftrightarrow> others_same rid m m' \<and> num_cached_block m' = num_cached_block m \<and>
     blocks_of m' rid = blocks_of m rid @ new \<and> py_len new = missing rid n m"

lemma missing_nonneg [simp]: "0 \<le> missing rid n m" "0 \<le> sum_list (map (missing rid n) ms)"
  by (simp add: missing_def, induction ms, simp_all add: missing_def)

lemma coord_allocate_new_inv:
  assumes inv: "coord_inv (managers c) (coord_pool c) free" and "\<forall>m \<in> set (managers c). plain m"
    and "sum_list (map (missing rid n) (managers c)) \<le> py_len free"
  shows "\<exists>xs ms p free'. coord_allocate_new_blocks rid n main enc c =
      Inr (xs, c\<lparr>managers := ms, coord_pool := p\<rparr>) \<and>
    coord_inv ms p free' \<and> pool_conf p = pool_conf (coord_pool c) \<and> length ms = length (managers c) \<and>
    length xs = length (managers c) \<and>
    (\<forall>j < length (managers c). grown rid n (managers c ! j) (xs ! j) (ms ! j))"
proof -
  let ?f = "\<lambda>i (m, p). allocate_new_blocks rid (if mgr_class m = CrossAttentionManager then enc else n) main (m, p)"
  let ?A = "\<lambda>i ms p free. (\<forall>m \<in> set ms. plain m) \<and> sum_list (map (missing rid n) ms) \<le> py_len free"
  have "step_ok ?f ?A (\<lambda>_. grown rid n)"
    unfolding step_ok_def
  proof (intro allI impI)
    fix i m ms p free1 others
    assume A: "?A i (m # ms) p free1" and inv: "mgr_inv m p free1 others"
    define k where "k = nat (cdiv n (mgr_block_size m) - py_len (blocks_of m rid))"
    have k: "int k = missing rid n m" by (simp add: k_def missing_def)
    have enough: "int k + sum_list (map (missing rid n) ms) \<le> py_len free1" using A k by simp
    then have kf: "int k \<le> py_len free1" using missing_nonneg(2) [of rid n ms] by linarith
    then have "cdiv n (mgr_block_size m) - py_len (blocks_of m rid) \<le> py_len free1"
      unfolding k_def by linarith
    from allocate_base_inv [OF inv this] obtain m' p' where
      1: "allocate_base rid n (m, p) = Inr (take k free1, m', p')" "mgr_inv m' p' (drop k free1) others"
        "frame m others p p'" "blocks_of m' rid = blocks_of m rid @ take k free1"
        "num_cached_block m' = num_cached_block m"
      by (auto simp: Let_def k_def)
    have "grown rid n m (take k free1) m'"
      using 1(4,5) allocate_base_same [OF 1(1)] k kf by (simp add: grown_def py_len_def)
    moreover have "py_len (drop k free1) = py_len free1 - int k" using kf by (simp add: py_len_def)
    moreover have "?f i (m, p) = Inr (take k free1, m', p')"
      using A 1(1) by (simp add: allocate_new_blocks_def plain_def)
    ultimately show "\<exists>x m' p' free'. ?f i (m, p) = Inr (x, m', p') \<and> mgr_inv m' p' free' others \<and>
      frame m others p p' \<and> ?A (i + 1) ms p' free' \<and> grown rid n m x m'"
      using 1(2,3) A enough
      by (intro exI [of _ "take k free1"] exI [of _ m'] exI [of _ p'] exI [of _ "drop k free1"]) auto
  qed
  then show ?thesis
    by (rule on_managers_rule [OF _ inv]) (use assms(2,3) in \<open>auto simp: coord_allocate_new_blocks_def\<close>)
qed

text \<open>
  Taking over the computed blocks of a new request: each group touches the hit blocks it keeps, so
  the free list loses at most the evictable ones among them.
\<close>

definition takes_hits :: "block_pool \<Rightarrow> string \<Rightarrow> int \<Rightarrow> manager \<Rightarrow> bref list \<Rightarrow> bool" where
  "takes_hits p rid l m bs \<longleftrightarrow> plain m \<and> map_of (num_cached_block m) rid = None \<and> blocks_of m rid = [] \<and>
     hit_blocks_ok p (kept_blocks m l bs) \<and> (\<not> mgr_caching m \<longrightarrow> kept_blocks m l bs = [])"

definition hit_row :: "bref \<Rightarrow> int \<Rightarrow> manager \<Rightarrow> bref list \<Rightarrow> bref list" where
  "hit_row null l m bs = replicate (nat (skipped_blocks m l)) null @ kept_blocks m l bs"

definition took_hits :: "bref \<Rightarrow> string \<Rightarrow> int \<Rightarrow> bref list \<Rightarrow> manager \<Rightarrow> manager \<Rightarrow> bool" where
  "took_hits null rid l bs m m' \<longleftrightarrow> others_same rid m m' \<and> blocks_of m' rid = hit_row null l m bs \<and>
     map_of (num_cached_block m') rid = Some (py_len (hit_row null l m bs))"

lemma hit_blocks_ok_cong:
  "pool_conf p' = pool_conf p \<Longrightarrow> hash_of p' = hash_of p \<Longrightarrow> hit_blocks_ok p' bs = hit_blocks_ok p bs"
  using real_blocks_conf [of p' p] usable_conf [of p' p] confD(1) [of p' p] by (simp add: hit_blocks_ok_def)

lemma filter_out_length:
  assumes "distinct free" and "\<forall>b \<in> set free. b \<in> set bs \<longrightarrow> P b"
  shows "py_len free \<le> py_len (filter (\<lambda>b. b \<notin> set bs) free) + py_len (filter P bs)"
proof -
  let ?in = "filter (\<lambda>b. b \<in> set bs) free"
  have "length ?in = card (set ?in)" using assms(1) by (subst distinct_card) simp_all
  also have "\<dots> \<le> card (set (filter P bs))" using assms(2) by (intro card_mono) auto
  also have "\<dots> \<le> length (filter P bs)" by (rule card_length)
  finally have "length ?in \<le> length (filter P bs)" .
  moreover have "length free = length (filter (\<lambda>b. b \<notin> set bs) free) + length ?in"
    using sum_length_filter_compl [of "\<lambda>b. b \<in> set bs" free] by simp
  ultimately show ?thesis by (simp add: py_len_def)
qed

lemma mgr_inv_free:
  assumes "mgr_inv m p free others"
  shows "distinct free" "\<forall>b \<in> set free. b \<in> usable p \<and> refs p b = 0"
  using assms by (auto simp: mgr_inv_def pool_inv_def queue_inv_def)

lemma coord_allocate_computed_inv:
  assumes inv: "coord_inv (managers c) (coord_pool c) free"
    and ok: "list_all2 (takes_hits (coord_pool c) rid l) (managers c) hits"
    and budget: "B + sum_list (map2 (\<lambda>m bs. get_num_evictable_blocks (coord_pool c) (kept_blocks m l bs))
       (managers c) hits) \<le> py_len free"
  shows "\<exists>ms p free'. coord_allocate_new_computed_blocks rid hits l 0 c =
      Inr (c\<lparr>managers := ms, coord_pool := p\<rparr>) \<and>
    coord_inv ms p free' \<and> pool_conf p = pool_conf (coord_pool c) \<and>
    hash_of p = hash_of (coord_pool c) \<and> B \<le> py_len free' \<and> length ms = length (managers c) \<and>
    (\<forall>j < length (managers c). took_hits (null_block (coord_pool c)) rid l (hits ! j) (managers c ! j) (ms ! j))"
proof -
  let ?p0 = "coord_pool c"
  let ?ev = "\<lambda>m bs. get_num_evictable_blocks ?p0 (kept_blocks m l bs)"
  let ?f = "\<lambda>i mp. rbind (py_get hits i) (\<lambda>bs. no_result (allocate_new_computed_blocks rid bs l 0 mp))"
  let ?A = "\<lambda>i ms p free1. 0 \<le> i \<and> pool_conf p = pool_conf ?p0 \<and> hash_of p = hash_of ?p0 \<and>
      set free1 \<subseteq> set free \<and> list_all2 (takes_hits ?p0 rid l) ms (drop (nat i) hits) \<and>
      B + sum_list (map2 ?ev ms (drop (nat i) hits)) \<le> py_len free1"
  let ?P = "\<lambda>i m x m'. took_hits (null_block ?p0) rid l (hits ! nat i) m m'"
  have f0: "\<forall>b \<in> set free. b \<in> usable ?p0 \<and> refs ?p0 b = 0" and null: "\<And>b. is_null (pool_heap ?p0 b) \<longleftrightarrow> b = null_block ?p0"
    using inv by (auto simp: coord_inv_def pool_inv_def)
  have "step_ok ?f ?A ?P"
    unfolding step_ok_def
  proof (intro allI impI)
    fix i m ms p free1 others
    assume A: "?A i (m # ms) p free1" and inv: "mgr_inv m p free1 others"
    then obtain bs rest where d: "drop (nat i) hits = bs # rest" by (auto simp: list_all2_Cons1)
    have th: "takes_hits ?p0 rid l m bs" and rest: "list_all2 (takes_hits ?p0 rid l) ms rest"
      using A d by auto
    have len: "nat i < length hits" using d by (metis drop_all linorder_not_less list.distinct(1))
    have get: "py_get hits i = Inr bs" "hits ! nat i = bs"
      using A d len by (auto simp: py_get_def py_len_def nth_via_drop)
    have "drop (nat (i + 1)) hits = drop 1 (drop (nat i) hits)" using A by (simp add: nat_add_distrib)
    then have d1: "drop (nat (i + 1)) hits = rest" by (simp add: d)
    let ?kept = "kept_blocks m l bs" and ?free = "filter (\<lambda>b. b \<notin> set (kept_blocks m l bs)) free1"
    have nb: "null_block p = null_block ?p0" using A confD(1) by blast
    have ok': "hit_blocks_ok p (kept_blocks m (l + 0) bs)"
      using th A hit_blocks_ok_cong [of p ?p0] by (simp add: takes_hits_def)
    let ?ext = "if skipped_blocks m (l + 0) > 0 then min (l + 0 - get_num_skipped_tokens m (l + 0)) 0 else 0"
    have ext: "?ext \<le> 0" by simp
    have "\<exists>m' p'. allocate_computed_base rid bs l 0 (m, p) = Inr (m', p') \<and>
        mgr_inv m' p' (drop 0 ?free) others \<and> frame m others p p' \<and>
        blocks_of m' rid = hit_row (null_block p) l m bs @ take 0 ?free \<and>
        (\<forall>r. r \<noteq> rid \<longrightarrow> blocks_of m' r = blocks_of m r) \<and>
        map_of (num_cached_block m') rid = Some (py_len (hit_row (null_block p) l m bs)) \<and>
        mgr_block_size m' = mgr_block_size m \<and> mgr_class m' = mgr_class m \<and> mgr_spec m' = mgr_spec m \<and>
        (?ext \<le> 0 \<longrightarrow> hash_of p' = hash_of p)"
      by (rule allocate_computed_inv [OF inv _ _ ok', where ext = ?ext])
        (use th ext in \<open>auto simp: takes_hits_def hit_row_def not_less\<close>)
    then obtain m' p' where 1: "allocate_computed_base rid bs l 0 (m, p) = Inr (m', p')"
      "mgr_inv m' p' ?free others" "frame m others p p'" "blocks_of m' rid = hit_row (null_block p) l m bs"
      "map_of (num_cached_block m') rid = Some (py_len (hit_row (null_block p) l m bs))" "hash_of p' = hash_of p"
      using ext by auto
    have run: "?f i (m, p) = Inr ((), m', p')"
      using th 1(1) by (simp add: get allocate_new_computed_blocks_def takes_hits_def plain_def no_result_def)
    have "ref_cnt (pool_heap ?p0 b) = 0 \<and> \<not> is_null (pool_heap ?p0 b)" if "b \<in> set free1" for b
    proof -
      have "b \<in> set free" using that A by blast
      with f0 have "b \<in> usable ?p0" "refs ?p0 b = 0" by simp_all
      with usable_not_null null show ?thesis by (simp add: refs_def)
    qed
    then have "py_len free1 \<le> py_len ?free + ?ev m bs"
      unfolding get_num_evictable_blocks_def
      by (intro filter_out_length) (use mgr_inv_free(1) [OF inv] in auto)
    moreover have "B + (?ev m bs + sum_list (map2 ?ev ms rest)) \<le> py_len free1" using A by (simp add: d)
    ultimately have "B + sum_list (map2 ?ev ms rest) \<le> py_len ?free" by linarith
    moreover have "took_hits (null_block ?p0) rid l bs m m'"
      using 1(4,5) allocate_computed_base_same [OF 1(1)] by (simp add: took_hits_def nb)
    moreover have "pool_conf p' = pool_conf p" using 1(3) by (simp add: frame_def)
    ultimately show "\<exists>x m' p' free'. ?f i (m, p) = Inr (x, m', p') \<and> mgr_inv m' p' free' others \<and>
      frame m others p p' \<and> ?A (i + 1) ms p' free' \<and> ?P i m x m'"
      using 1(2,3,6) A rest run d1 get(2)
      by (intro exI [of _ "()"] exI [of _ m'] exI [of _ p'] exI [of _ ?free]) auto
  qed
  then show ?thesis
    by (rule on_managers_rule [OF _ inv]) (use ok budget in \<open>auto simp: coord_allocate_new_computed_blocks_def\<close>)
qed

text \<open>Caching full blocks: the tables and the counts stay, the cached lengths grow to the full blocks.\<close>

definition can_cache :: "block_pool \<Rightarrow> request \<Rightarrow> int \<Rightarrow> manager \<Rightarrow> bool" where
  "can_cache p r n m \<longleftrightarrow> plain m \<and> mgr_block_size m mod hash_block_size p = 0 \<and>
     0 \<le> kv_cache_group_id m \<and> kv_cache_group_id m < 2 ^ 32 \<and>
     n div mgr_block_size m \<le> py_len (blocks_of m (request_id r))"

lemma full_blocks_hashed:
  assumes hbs: "0 < hash_block_size p" and bs: "0 < bs" "bs mod hash_block_size p = 0"
    and n: "0 \<le> n" "n \<le> num_tokens r" and h: "py_len (block_hashes r) = num_tokens r div hash_block_size p"
  shows "n div bs \<le> py_len (block_hashes r)" "n div bs \<le> bhl_len (group_hashes p bs (block_hashes r))"
proof -
  obtain k where k: "bs = k * hash_block_size p" using bs(2) by (metis mod_0_imp_dvd dvd_def mult.commute)
  then have k0: "0 < k" using bs(1) hbs by (metis mult.commute zero_less_mult_pos)
  have nk: "n div bs = n div hash_block_size p div k"
    unfolding k using k0 by (metis mult.commute zdiv_zmult2_eq order_less_imp_le hbs)
  have le: "n div hash_block_size p \<le> py_len (block_hashes r)"
    unfolding h using n(2) hbs by (rule zdiv_mono1)
  have n0: "0 \<le> n div hash_block_size p" using n(1) hbs by (simp add: pos_imp_zdiv_nonneg_iff)
  have "n div bs \<le> n div hash_block_size p"
    unfolding nk using zdiv_mono2 [OF n0, of 1 k] k0 by simp
  with le show "n div bs \<le> py_len (block_hashes r)" by linarith
  have "bs div hash_block_size p = k" using k hbs by simp
  moreover have "n div bs \<le> py_len (block_hashes r) div k"
    unfolding nk using le k0 by (rule zdiv_mono1)
  ultimately show "n div bs \<le> bhl_len (group_hashes p bs (block_hashes r))"
    using \<open>n div bs \<le> py_len (block_hashes r)\<close> by (auto simp: group_hashes_def bhl_len_def scaled_len_def)
qed

lemma coord_cache_inv:
  assumes inv: "coord_inv (managers c) (coord_pool c) free"
    and caching: "enable_caching (coord_pool c)" and hbs: "0 < hash_block_size (coord_pool c)"
    and n: "0 \<le> n" "n \<le> num_tokens r"
    and h: "py_len (block_hashes r) = num_tokens r div hash_block_size (coord_pool c)"
    and ok: "\<forall>m \<in> set (managers c). can_cache (coord_pool c) r n m"
  shows "\<exists>ms p free'. coord_cache_blocks r n c = Inr (c\<lparr>managers := ms, coord_pool := p\<rparr>) \<and>
    coord_inv ms p free' \<and> pool_conf p = pool_conf (coord_pool c) \<and> refs p = refs (coord_pool c) \<and>
    (\<forall>b. hash_of (coord_pool c) b \<noteq> None \<longrightarrow> hash_of p b = hash_of (coord_pool c) b) \<and>
    length ms = length (managers c) \<and>
    (\<forall>j < length (managers c). others_same (request_id r) (managers c ! j) (ms ! j) \<and>
       blocks_of (ms ! j) (request_id r) = blocks_of (managers c ! j) (request_id r) \<and>
       n_cached (ms ! j) (request_id r) = max (n_cached (managers c ! j) (request_id r))
         (n div mgr_block_size (managers c ! j)))"
proof -
  let ?f = "\<lambda>i mp. no_result (cache_blocks r n mp)"
  let ?A = "\<lambda>i ms p free. pool_conf p = pool_conf (coord_pool c) \<and> refs p = refs (coord_pool c) \<and>
      (\<forall>b. hash_of (coord_pool c) b \<noteq> None \<longrightarrow> hash_of p b = hash_of (coord_pool c) b) \<and>
      (\<forall>m \<in> set ms. can_cache (coord_pool c) r n m)"
  let ?P = "\<lambda>i m x m'. others_same (request_id r) m m' \<and>
      blocks_of m' (request_id r) = blocks_of m (request_id r) \<and>
      n_cached m' (request_id r) = max (n_cached m (request_id r)) (n div mgr_block_size m)"
  have "step_ok ?f ?A ?P"
    unfolding step_ok_def
  proof (intro allI impI)
    fix i m ms p free1 others
    assume A: "?A i (m # ms) p free1" and inv: "mgr_inv m p free1 others"
    then have m: "can_cache (coord_pool c) r n m" by simp
    have p: "hash_block_size p = hash_block_size (coord_pool c)" "enable_caching p"
      using A caching confD(3,4) [of p "coord_pool c"] by simp_all
    have cls: "mgr_class m \<noteq> CrossAttentionManager" "0 < mgr_block_size m"
      "mgr_block_size m mod hash_block_size p = 0" "0 \<le> kv_cache_group_id m" "kv_cache_group_id m < 2 ^ 32"
      "n div mgr_block_size m \<le> py_len (blocks_of m (request_id r))"
      using m by (simp_all add: can_cache_def plain_def p)
    from full_blocks_hashed [of p, OF _ cls(2,3) n] h hbs p
    have "n div mgr_block_size m \<le> py_len (block_hashes r)"
      "n div mgr_block_size m \<le> bhl_len (group_hashes p (mgr_block_size m) (block_hashes r))" by simp_all
    from cache_blocks_inv [OF inv cls(1) p(2) _ cls(2-5) refl cls(6) this] hbs p
    obtain m' p' where 1: "cache_blocks r n (m, p) = Inr (m', p')" "mgr_inv m' p' free1 others"
      "frame m others p p'" "\<forall>rid. blocks_of m' rid = blocks_of m rid" "refs p' = refs p"
      "n_cached m' (request_id r) = max (n_cached m (request_id r)) (n div mgr_block_size m)"
      "\<forall>b. hash_of p b \<noteq> None \<longrightarrow> hash_of p' b = hash_of p b"
      by auto
    then show "\<exists>x m' p' free'. ?f i (m, p) = Inr (x, m', p') \<and> mgr_inv m' p' free' others \<and>
      frame m others p p' \<and> ?A (i + 1) ms p' free' \<and> ?P i m x m'"
      using A cache_blocks_same [OF 1(1)]
      by (intro exI [of _ "()"] exI [of _ m'] exI [of _ p'] exI [of _ free1])
        (auto simp: no_result_def frame_def)
  qed
  then show ?thesis
    by (rule on_managers_rule [OF _ inv]) (use ok in \<open>auto simp: coord_cache_blocks_def\<close>)
qed

end
