(* ===== verification/Cache_Hit.thy ===== *)
theory Cache_Hit
  imports Pool_Inv Single_Type_Manager
begin

text \<open>
  The prefix cache lookups of the managers.  A block \<^emph>\<open>carries\<close> a hash for a group when it is a
  block of the pool indexed under the key of the two; an index of the hash list is a \<^emph>\<open>hit\<close> when
  every group has such a block.
\<close>

definition carries :: "block_pool \<Rightarrow> block_hash \<Rightarrow> int \<Rightarrow> bref \<Rightarrow> bool" where
  "carries p h g b \<longleftrightarrow> b \<in> usable p \<and>
     (\<exists>key. make_block_hash_with_group_id h g = Inr key \<and> hash_of p b = Some key)"

definition hit_at :: "block_pool \<Rightarrow> int list \<Rightarrow> block_hash_list \<Rightarrow> int \<Rightarrow> bool" where
  "hit_at p gids hashes i \<longleftrightarrow> (\<forall>g \<in> set gids. \<exists>b. carries p (bhl_values hashes ! nat i) g b)"

definition lookup_ok :: "block_pool \<Rightarrow> int list \<Rightarrow> block_hash_list \<Rightarrow> bool" where
  "lookup_ok p gids hashes \<longleftrightarrow> (\<exists>free pend. pool_inv p free pend) \<and> gids \<noteq> [] \<and>
     (\<forall>g \<in> set gids. 0 \<le> g \<and> g < 2 ^ 32) \<and> bhl_ok hashes"

lemma cached_or_none_spec:
  assumes ok: "lookup_ok p gids hashes" and i: "0 \<le> i" "i < bhl_len hashes"
  shows "if hit_at p gids hashes i
    then \<exists>bs. cached_or_none p gids hashes i = Inr (Some bs) \<and>
      list_all2 (carries p (bhl_values hashes ! nat i)) gids bs
    else cached_or_none p gids hashes i = Inr None"
proof -
  let ?h = "bhl_values hashes ! nat i"
  obtain free pend where inv: "pool_inv p free pend" using ok by (auto simp: lookup_ok_def)
  have g: "\<forall>g \<in> set gids. 0 \<le> g \<and> g < 2 ^ 32" and ne: "gids \<noteq> []" and b: "bhl_ok hashes"
    using ok by (simp_all add: lookup_ok_def)
  have get: "bhl_get hashes i = Inr ?h" by (rule bhl_get_values [OF b i])
  have key: "\<exists>key. make_block_hash_with_group_id ?h x = Inr key" if "x \<in> set gids" for x
    using that g make_key_ok [of x ?h] by auto
  obtain res where res: "get_cached_block ?h gids p = Inr res"
    "res = None \<longleftrightarrow> (\<exists>g \<in> set gids. \<forall>b \<in> usable p. \<forall>key.
       make_block_hash_with_group_id ?h g = Inr key \<longrightarrow> hash_of p b \<noteq> Some key)"
    using get_cached_block_total [OF inv g] by blast
  have hit: "hit_at p gids hashes i \<longleftrightarrow> res \<noteq> None"
    unfolding hit_at_def carries_def res(2) using key by fastforce
  show ?thesis
  proof (cases res)
    case None
    with hit get res(1) show ?thesis by (simp add: cached_or_none_def)
  next
    case (Some bs)
    have "list_all2 (carries p ?h) gids bs"
      using get_cached_block_hit [OF inv res(1) [unfolded Some]] by (simp add: carries_def [abs_def])
    moreover from this ne have "bs \<noteq> []" by auto
    ultimately show ?thesis
      using hit get res(1) Some by (auto simp: cached_or_none_def split: list.splits)
  qed
qed

section \<open>The left-to-right scan\<close>

text \<open>\<open>k\<close> is the end of the longest run of hits from \<open>a\<close> within \<open>n\<close>.\<close>

definition longest_run :: "(int \<Rightarrow> bool) \<Rightarrow> int \<Rightarrow> int \<Rightarrow> int \<Rightarrow> bool" where
  "longest_run P a n k \<longleftrightarrow> a \<le> k \<and> (k \<le> n \<or> k = a) \<and> (\<forall>i. a \<le> i \<and> i < k \<longrightarrow> P i) \<and> (k < n \<longrightarrow> \<not> P k)"

lemma longest_run_unique:
  assumes "longest_run P a n k" and "longest_run P a n k'"
  shows "k = k'"
proof -
  have "\<not> k < k'" if "longest_run P a n k" "longest_run P a n k'" for k k'
    using that unfolding longest_run_def by fastforce
  from this [OF assms] this [OF assms(2,1)] show ?thesis by linarith
qed

lemma longest_run_step:
  assumes "longest_run P (a + 1) n k" and "P a" and "a < n"
  shows "longest_run P a n k"
proof -
  have "a + 1 \<le> k" "k \<le> n" "k < n \<Longrightarrow> \<not> P k" "\<And>i. a + 1 \<le> i \<Longrightarrow> i < k \<Longrightarrow> P i"
    using assms by (auto simp: longest_run_def)
  moreover have "P i" if "a \<le> i" "i < k" for i
    using that assms(2) calculation(4) [of i] by (cases "i = a") auto
  ultimately show ?thesis by (simp add: longest_run_def)
qed

text \<open>The lists of a scan: group by group, each prefix extended by the blocks of the hits.\<close>

definition run_blocks ::
    "block_pool \<Rightarrow> block_hash_list \<Rightarrow> int \<Rightarrow> int \<Rightarrow> int \<Rightarrow> bref list \<Rightarrow> bref list \<Rightarrow> bool" where
  "run_blocks p hashes a k g acc bs \<longleftrightarrow> length bs = length acc + nat (k - a) \<and>
     take (length acc) bs = acc \<and>
     (\<forall>i. a \<le> i \<and> i < k \<longrightarrow> carries p (bhl_values hashes ! nat i) g (bs ! (length acc + nat (i - a))))"

lemma run_blocks_step:
  assumes "run_blocks p hashes (a + 1) k g (acc @ [b]) bs" and "a < k"
    and "carries p (bhl_values hashes ! nat a) g b"
  shows "run_blocks p hashes a k g acc bs"
proof -
  have len: "length bs = length acc + nat (k - a)" and tk: "take (Suc (length acc)) bs = acc @ [b]"
    using assms(1,2) by (auto simp: run_blocks_def)
  have b: "bs ! length acc = b"
    using tk by (metis lessI nth_append_length nth_take)
  have "take (length acc) bs = acc"
    using tk by (metis append_eq_conv_conj take_take min_def le_SucI order_refl length_append_singleton)
  moreover have "carries p (bhl_values hashes ! nat i) g (bs ! (length acc + nat (i - a)))"
    if "a \<le> i" "i < k" for i
  proof (cases "i = a")
    case True
    with b assms(3) show ?thesis by simp
  next
    case False
    with that have "a + 1 \<le> i" by simp
    with that assms(1) have "carries p (bhl_values hashes ! nat i) g (bs ! (length (acc @ [b]) + nat (i - (a + 1))))"
      by (simp add: run_blocks_def)
    moreover have "length (acc @ [b]) + nat (i - (a + 1)) = length acc + nat (i - a)"
      using \<open>a + 1 \<le> i\<close> by simp
    ultimately show ?thesis by (simp only:)
  qed
  ultimately show ?thesis using len by (simp add: run_blocks_def)
qed

lemma extend_hits_spec:
  assumes ok: "lookup_ok p gids hashes" and a: "0 \<le> a" and n: "n \<le> bhl_len hashes"
    and len: "length accs = length gids"
  shows "\<exists>css k. extend_hits p gids hashes [a..n - 1] accs = Inr css \<and>
    longest_run (hit_at p gids hashes) a n k \<and> length css = length gids \<and>
    (\<forall>j < length gids. run_blocks p hashes a k (gids ! j) (accs ! j) (css ! j))"
  using a len
proof (induction "nat (n - a)" arbitrary: a accs)
  case 0
  then show ?case
    by (intro exI [of _ accs] exI [of _ a]) (auto simp: longest_run_def run_blocks_def)
next
  case (Suc d)
  then have an: "a < n" by simp
  then have up: "[a..n - 1] = a # [a + 1..n - 1]" by (simp add: upto_rec1)
  show ?case
  proof (cases "hit_at p gids hashes a")
    case False
    then have "cached_or_none p gids hashes a = Inr None"
      using cached_or_none_spec [OF ok, of a] Suc.prems(1) an n by simp
    with False an Suc.prems show ?thesis
      by (intro exI [of _ accs] exI [of _ a]) (auto simp: up longest_run_def run_blocks_def)
  next
    case True
    then obtain bs where bs: "cached_or_none p gids hashes a = Inr (Some bs)"
      "list_all2 (carries p (bhl_values hashes ! nat a)) gids bs"
      using cached_or_none_spec [OF ok, of a] Suc.prems(1) an n by auto
    let ?accs = "map2 (\<lambda>bs b. bs @ [b]) accs bs"
    have lb: "length bs = length gids" using bs(2) by (simp add: list_all2_lengthD)
    have "d = nat (n - (a + 1))" using Suc.hyps(2) by simp
    from Suc.hyps(1) [OF this, of ?accs] obtain css k where
      IH: "extend_hits p gids hashes [a + 1..n - 1] ?accs = Inr css"
      "longest_run (hit_at p gids hashes) (a + 1) n k" "length css = length gids"
      "\<forall>j < length gids. run_blocks p hashes (a + 1) k (gids ! j) (?accs ! j) (css ! j)"
      using Suc.prems lb by auto
    have k: "longest_run (hit_at p gids hashes) a n k"
      by (rule longest_run_step [OF IH(2) True an])
    have "run_blocks p hashes a k (gids ! j) (accs ! j) (css ! j)" if "j < length gids" for j
    proof (rule run_blocks_step)
      show "run_blocks p hashes (a + 1) k (gids ! j) (accs ! j @ [bs ! j]) (css ! j)"
        using IH(4) that lb Suc.prems(2) by auto
      show "a < k" using IH(2) by (simp add: longest_run_def)
      show "carries p (bhl_values hashes ! nat a) (gids ! j) (bs ! j)"
        using bs(2) that by (simp add: list_all2_conv_all_nth)
    qed
    with IH(1,3) bs(1) k show ?thesis by (auto simp: up)
  qed
qed


section \<open>Full attention\<close>

definition aligned :: "int \<Rightarrow> int \<Rightarrow> int \<Rightarrow> bool" where
  "aligned bs al n \<longleftrightarrow> bs = al \<or> n * bs mod al = 0"

text \<open>\<open>n\<close> is the largest aligned number of blocks up to \<open>m\<close>.\<close>

definition best_aligned :: "int \<Rightarrow> int \<Rightarrow> int \<Rightarrow> int \<Rightarrow> bool" where
  "best_aligned bs al m n \<longleftrightarrow> 0 \<le> n \<and> n \<le> m \<and> aligned bs al n \<and>
     (\<forall>n'. n < n' \<and> n' \<le> m \<longrightarrow> \<not> aligned bs al n')"

lemma trim_aligned_spec:
  assumes "0 < al" and "css \<noteq> []" and "\<forall>c \<in> set css. length c = L"
  shows "\<exists>n. trim_aligned bs al css = Inr (map (take n) css) \<and> best_aligned bs al (int L) (int n)"
  using assms(2,3)
proof (induction L arbitrary: css)
  case 0
  then obtain c rest where c: "css = c # rest" "c = []" "\<forall>c \<in> set rest. c = []" by (cases css) auto
  then have "map (take 0) css = css" by (auto intro: map_idI)
  moreover have "trim_aligned bs al css = Inr css"
    using c(1,2) assms(1) by (subst trim_aligned.simps) (simp add: py_len_def)
  ultimately show ?case
    by (intro exI [of _ 0]) (auto simp: best_aligned_def aligned_def)
next
  case (Suc L)
  obtain c rest where c: "css = c # rest" using Suc.prems(1) by (cases css) auto
  have id: "map (take (Suc L)) css = css" using Suc.prems(2) by (intro map_idI) simp
  show ?case
  proof (cases "aligned bs al (int (Suc L))")
    case True
    then have "trim_aligned bs al css = Inr css"
      using Suc.prems(2) assms(1) c
      by (subst trim_aligned.simps) (auto simp: py_len_def aligned_def)
    with True id show ?thesis
      by (intro exI [of _ "Suc L"]) (auto simp: best_aligned_def simp del: of_nat_Suc)
  next
    case False
    have ne: "[] \<notin> set css" using Suc.prems(2) by force
    have b: "map butlast css = map (take L) css"
      using Suc.prems(2) by (simp add: butlast_conv_take)
    have "trim_aligned bs al css = trim_aligned bs al (map butlast css)"
      using False ne Suc.prems(2) assms(1) c
      by (subst trim_aligned.simps) (simp add: py_len_def aligned_def)
    moreover obtain n where n: "trim_aligned bs al (map butlast css) = Inr (map (take n) (map butlast css))"
      "best_aligned bs al (int L) (int n)"
      using Suc.IH [of "map butlast css"] Suc.prems by auto
    moreover have "map (take n) (map butlast css) = map (take n) css"
      using n(2) by (simp add: b best_aligned_def min_absorb1)
    moreover have "best_aligned bs al (int (Suc L)) (int n)"
      using n(2) False unfolding best_aligned_def by (metis int_ops(4) le_add1 not_le order.trans zle_add1_eq_le zless_add1_eq add.commute of_nat_Suc)
    ultimately show ?thesis by auto
  qed
qed

definition full_block_size :: "kv_cache_spec \<Rightarrow> int \<Rightarrow> int \<Rightarrow> int" where
  "full_block_size spec dcp pcp =
     (if dcp * pcp > 1 then spec_block_size spec * (dcp * pcp) else spec_block_size spec)"

lemma find_full_spec:
  assumes ok: "lookup_ok p gids hashes" and spec: "is_full_attention spec"
    and bs: "0 < full_block_size spec dcp pcp" and al: "0 < al" and len: "0 \<le> max_length"
  shows "\<exists>css k n. find_full hashes max_length gids p spec use_eagle al dcp pcp = Inr css \<and>
    longest_run (hit_at p gids hashes) 0
      (min (max_length div full_block_size spec dcp pcp) (bhl_len hashes)) k \<and>
    best_aligned (full_block_size spec dcp pcp) al (if use_eagle \<and> 0 < k then k - 1 else k) n \<and>
    length css = length gids \<and>
    (\<forall>j < length gids. py_len (css ! j) = n \<and>
      (\<forall>i. 0 \<le> i \<and> i < n \<longrightarrow> carries p (bhl_values hashes ! nat i) (gids ! j) (css ! j ! nat i)))"
proof -
  let ?bs = "full_block_size spec dcp pcp"
  let ?n = "min (max_length div ?bs) (bhl_len hashes)"
  have ne: "gids \<noteq> []" using ok by (simp add: lookup_ok_def)
  obtain css k where e: "extend_hits p gids hashes [0..?n - 1] (map (\<lambda>_. []) gids) = Inr css"
    "longest_run (hit_at p gids hashes) 0 ?n k" "length css = length gids"
    "\<forall>j < length gids. run_blocks p hashes 0 k (gids ! j) (map (\<lambda>_. []) gids ! j) (css ! j)"
    using extend_hits_spec [OF ok, of 0 ?n "map (\<lambda>_. []) gids"] by auto
  have k0: "0 \<le> k" using e(2) by (simp add: longest_run_def)
  have lens: "\<forall>c \<in> set css. length c = nat k"
    using e(3,4) by (auto simp: in_set_conv_nth run_blocks_def)
  have cne: "css \<noteq> []" using e(3) ne by auto
  then obtain c rest where c: "css = c # rest" by (cases css) auto
  define top where "top = (if use_eagle \<and> 0 < k then k - 1 else k)"
  have t: "0 \<le> top" "top \<le> k" using k0 by (auto simp: top_def)
  have "pop_eagle use_eagle css = Inr (map (take (nat top)) css)"
  proof (cases "use_eagle \<and> 0 < k")
    case True
    then have "[] \<notin> set css" "c \<noteq> []" using lens c by force+
    moreover have "map butlast css = map (take (nat top)) css"
      using True lens by (auto simp: butlast_conv_take top_def nat_diff_distrib)
    ultimately show ?thesis
      using True c by (auto simp: pop_eagle_def pop_all_def py_get_def py_len_def)
  next
    case False
    have "map (take (nat top)) css = css" using lens False by (intro map_idI) (auto simp: top_def)
    moreover have "use_eagle \<Longrightarrow> c = []" using False lens c k0 by auto
    ultimately show ?thesis using c by (auto simp: pop_eagle_def py_get_def py_len_def)
  qed
  moreover obtain n where n: "trim_aligned ?bs al (map (take (nat top)) css) =
      Inr (map (take n) (map (take (nat top)) css))" "best_aligned ?bs al (int (nat top)) (int n)"
    using trim_aligned_spec [OF al, of "map (take (nat top)) css" "nat top" ?bs] cne lens t by auto
  moreover have "n \<le> nat top" using n(2) unfolding best_aligned_def by linarith
  moreover have "find_full hashes max_length gids p spec use_eagle al dcp pcp =
      rbind (extend_hits p gids hashes [0..?n - 1] (map (\<lambda>_. []) gids)) (\<lambda>c1.
       rbind (pop_eagle use_eagle c1) (\<lambda>c2. trim_aligned ?bs al c2))"
    using spec bs pos_imp_zdiv_nonneg_iff [OF bs, of max_length] len
    unfolding find_full_def full_block_size_def [symmetric] by (simp add: Let_def)
  ultimately have run: "find_full hashes max_length gids p spec use_eagle al dcp pcp = Inr (map (take n) css)"
    using e(1) by (simp add: min_absorb1)
  have "py_len (map (take n) css ! j) = int n \<and>
      (\<forall>i. 0 \<le> i \<and> i < int n \<longrightarrow>
        carries p (bhl_values hashes ! nat i) (gids ! j) (map (take n) css ! j ! nat i))"
    if "j < length gids" for j
  proof -
    have "run_blocks p hashes 0 k (gids ! j) [] (css ! j)" using e(4) that by simp
    moreover have "int n \<le> k" using \<open>n \<le> nat top\<close> t by linarith
    ultimately show ?thesis using that e(3) by (auto simp: run_blocks_def py_len_def)
  qed
  then show ?thesis
    using run e(2,3) n(2) t(1) by (intro exI [of _ "map (take n) css"] exI [of _ k] exI [of _ "int n"])
      (simp add: top_def)
qed


section \<open>Sliding windows\<close>

text \<open>
  A list of a sliding window lookup is \<^emph>\<open>sound\<close> when every entry is the null block or carries the
  hash of its position, and it is \<^emph>\<open>filled\<close> between two positions when all entries there carry.
\<close>

definition sound_list :: "block_pool \<Rightarrow> block_hash_list \<Rightarrow> int \<Rightarrow> bref list \<Rightarrow> bool" where
  "sound_list p hashes g bs \<longleftrightarrow>
     (\<forall>i < length bs. bs ! i = null_block p \<or> carries p (bhl_values hashes ! i) g (bs ! i))"

definition filled :: "block_pool \<Rightarrow> block_hash_list \<Rightarrow> int \<Rightarrow> int \<Rightarrow> int \<Rightarrow> bref list \<Rightarrow> bool" where
  "filled p hashes g a b bs \<longleftrightarrow>
     (\<forall>i. a \<le> i \<and> i < b \<longrightarrow> 0 \<le> i \<longrightarrow> carries p (bhl_values hashes ! nat i) g (bs ! nat i))"

definition lists_ok ::
    "block_pool \<Rightarrow> block_hash_list \<Rightarrow> int list \<Rightarrow> nat \<Rightarrow> int \<Rightarrow> int \<Rightarrow> bref list list \<Rightarrow> bool" where
  "lists_ok p hashes gids L a b css \<longleftrightarrow> length css = length gids \<and>
     (\<forall>j < length gids. length (css ! j) = L \<and> sound_list p hashes (gids ! j) (css ! j) \<and>
       filled p hashes (gids ! j) a b (css ! j))"

lemma lists_ok_empty_range: "lists_ok p hashes gids L a b css \<Longrightarrow> lists_ok p hashes gids L i i css"
  by (auto simp: lists_ok_def filled_def)

lemma lists_ok_take:
  assumes "lists_ok p hashes gids L a b css" and "n \<le> L"
  shows "lists_ok p hashes gids n a (min b (int n)) (map (take n) css)"
  using assms by (auto simp: lists_ok_def sound_list_def filled_def nat_less_iff)

lemma lists_ok_update:
  assumes "lists_ok p hashes gids L (int i + 1) b css" and "i < L"
    and "list_all2 (carries p (bhl_values hashes ! i)) gids cached"
  shows "lists_ok p hashes gids L (int i) b (map2 (\<lambda>xs b. xs[i := b]) css cached)"
proof -
  have len: "length cached = length gids" "length css = length gids"
    using assms(1,3) by (auto simp: lists_ok_def list_all2_lengthD)
  show ?thesis
    unfolding lists_ok_def
  proof (intro conjI allI impI)
    show "length (map2 (\<lambda>xs b. xs[i := b]) css cached) = length gids" using len by simp
    fix j assume j: "j < length gids"
    then have e: "map2 (\<lambda>xs b. xs[i := b]) css cached ! j = (css ! j)[i := cached ! j]" using len by simp
    have c: "carries p (bhl_values hashes ! i) (gids ! j) (cached ! j)"
      using assms(3) j by (simp add: list_all2_conv_all_nth)
    have o: "length (css ! j) = L" "sound_list p hashes (gids ! j) (css ! j)"
      "filled p hashes (gids ! j) (int i + 1) b (css ! j)"
      using assms(1) j by (auto simp: lists_ok_def)
    show "length (map2 (\<lambda>xs b. xs[i := b]) css cached ! j) = L" using e o(1) by simp
    show "sound_list p hashes (gids ! j) (map2 (\<lambda>xs b. xs[i := b]) css cached ! j)"
      unfolding e using o(1,2) c assms(2) by (auto simp: sound_list_def nth_list_update)
    show "filled p hashes (gids ! j) (int i) b (map2 (\<lambda>xs b. xs[i := b]) css cached ! j)"
      unfolding e filled_def
    proof (intro allI impI)
      fix x assume x: "int i \<le> x \<and> x < b" "0 \<le> x"
      show "carries p (bhl_values hashes ! nat x) (gids ! j) ((css ! j)[i := cached ! j] ! nat x)"
      proof (cases "x = int i")
        case True
        with c o(1) assms(2) show ?thesis by simp
      next
        case False
        with x o(3) have "carries p (bhl_values hashes ! nat x) (gids ! j) (css ! j ! nat x)"
          by (simp add: filled_def)
        moreover have "nat x \<noteq> i" using False x by auto
        ultimately show ?thesis by simp
      qed
    qed
  qed
qed

lemma window_scan_spec:
  assumes ok: "lookup_ok p gids hashes" and N: "int N \<le> bhl_len hashes"
    and "i + nat c \<le> N" and "0 \<le> c" and "lists_ok p hashes gids N (int i) (int i + c) accs"
    and "0 < c \<Longrightarrow> aligned bs al (int i + c)"
  shows "\<exists>css c' found. window_scan p gids hashes bs al need i accs c = Inr (css, c', found) \<and> 0 \<le> c' \<and>
    (if found then \<exists>L \<le> N. c' \<le> int L \<and> need \<le> c' \<and> aligned bs al (int L) \<and>
        lists_ok p hashes gids L (int L - c') (int L) css
     else c' \<le> int N \<and> lists_ok p hashes gids N 0 c' css \<and> (0 < c' \<longrightarrow> aligned bs al c'))"
  using assms(3-6)
proof (induction i arbitrary: c accs)
  case 0
  then show ?case by (auto simp: nat_le_iff)
next
  case (Suc i)
  have i: "i < N" using Suc.prems(1) by simp
  have il: "int i < bhl_len hashes" using i N by linarith
  show ?case
  proof (cases "hit_at p gids hashes (int i)")
    case False
    then have "cached_or_none p gids hashes (int i) = Inr None"
      using cached_or_none_spec [OF ok, of "int i"] il by simp
    then have "window_scan p gids hashes bs al need (Suc i) accs c = window_scan p gids hashes bs al need i accs 0"
      by simp
    moreover have "lists_ok p hashes gids N (int i) (int i + 0) accs"
      using lists_ok_empty_range [OF Suc.prems(3)] by simp
    ultimately show ?thesis using Suc.IH [of 0 accs] i by simp
  next
    case True
    then obtain cached where cached: "cached_or_none p gids hashes (int i) = Inr (Some cached)"
      "list_all2 (carries p (bhl_values hashes ! i)) gids cached"
      using cached_or_none_spec [OF ok, of "int i"] il by auto
    show ?thesis
    proof (cases "c = 0 \<and> bs \<noteq> al \<and> (int i + 1) * bs mod al \<noteq> 0")
      case skip: True
      then have "window_scan p gids hashes bs al need (Suc i) accs c = window_scan p gids hashes bs al need i accs 0"
        using cached(1) by simp
      moreover have "lists_ok p hashes gids N (int i) (int i + 0) accs"
        using lists_ok_empty_range [OF Suc.prems(3)] by simp
      ultimately show ?thesis using Suc.IH [of 0 accs] i by simp
    next
      case take: False
      let ?accs = "map2 (\<lambda>xs b. xs[i := b]) accs cached"
      have "lists_ok p hashes gids N (int i + 1) (int i + 1 + c) accs"
        using Suc.prems(3) by (simp add: add.commute)
      from lists_ok_update [OF this i cached(2)]
      have l: "lists_ok p hashes gids N (int i) (int i + (c + 1)) ?accs" by (simp add: algebra_simps)
      have al: "aligned bs al (int i + (c + 1))"
        using take Suc.prems(2,4) by (cases "c = 0") (auto simp: aligned_def algebra_simps)
      have le: "i + nat (c + 1) \<le> N" using Suc.prems(1,2) by (simp add: nat_add_distrib)
      show ?thesis
      proof (cases "c + 1 \<ge> need")
        case True
        let ?L = "i + nat (c + 1)"
        have L: "int ?L = int i + (c + 1)" using Suc.prems(2) by simp
        have "window_scan p gids hashes bs al need (Suc i) accs c = Inr (map (take ?L) ?accs, c + 1, True)"
          by (simp only: window_scan.simps cached(1) rbind_Inr option.case if_not_P [OF take] Let_def if_P [OF True])
        moreover have "lists_ok p hashes gids ?L (int ?L - (c + 1)) (int ?L) (map (take ?L) ?accs)"
          using lists_ok_take [OF l le] L by simp
        moreover have "\<exists>L \<le> N. c + 1 \<le> int L \<and> need \<le> c + 1 \<and> aligned bs al (int L) \<and>
            lists_ok p hashes gids L (int L - (c + 1)) (int L) (map (take ?L) ?accs)"
          using calculation(2) True al le L by (intro exI [of _ ?L]) simp
        ultimately show ?thesis
          using Suc.prems(2)
          by (intro exI [of _ "map (take ?L) ?accs"] exI [of _ "c + 1"] exI [of _ True])
            (simp del: window_scan.simps)
      next
        case False
        then have "window_scan p gids hashes bs al need (Suc i) accs c =
            window_scan p gids hashes bs al need i ?accs (c + 1)"
          by (simp only: window_scan.simps cached(1) rbind_Inr option.case if_not_P [OF take] Let_def
              if_not_P [OF \<open>\<not> need \<le> c + 1\<close>] if_False)
        with Suc.IH [OF le _ l] al Suc.prems(2) show ?thesis by (simp del: window_scan.simps)
      qed
    qed
  qed
qed

text \<open>
  Without EAGLE, every list of the result has the same aligned length; each entry is null or
  carries, and the last \<open>\<lceil>(sliding_window - 1) / block_size\<rceil>\<close> entries all carry, so the window of
  the next token is in the cache.
\<close>

lemma find_sliding_spec:
  assumes ok: "lookup_ok p gids hashes" and bs: "0 < bs" and al: "0 < al" and len: "0 \<le> max_length"
    and w: "1 \<le> w" and N: "max_length div bs \<le> bhl_len hashes"
  shows "\<exists>css L. find_sliding hashes max_length gids p (SlidingWindowSpec bs a w) False al 1 1 = Inr css \<and>
    int L * bs \<le> max_length \<and> aligned bs al (int L) \<and>
    lists_ok p hashes gids L (max 0 (int L - cdiv (w - 1) bs)) (int L) css"
proof -
  define n where "n = nat (max_length div bs)"
  let ?need = "cdiv (w - 1) bs"
  let ?init = "map (\<lambda>_. replicate n (null_block p)) gids"
  have n: "int n = max_length div bs" using bs len by (simp add: n_def pos_imp_zdiv_nonneg_iff)
  have nn: "0 \<le> ?need" using bs w by (intro cdiv_nonneg) auto
  have "lists_ok p hashes gids n (int n) (int n + 0) ?init"
    by (auto simp: lists_ok_def sound_list_def filled_def)
  from window_scan_spec [OF ok _ _ _ this, of bs al ?need] N n
  obtain css c found where scan: "window_scan p gids hashes bs al ?need n ?init 0 = Inr (css, c, found)" "0 \<le> c"
    "if found then \<exists>L \<le> n. c \<le> int L \<and> ?need \<le> c \<and> aligned bs al (int L) \<and>
        lists_ok p hashes gids L (int L - c) (int L) css
     else c \<le> int n \<and> lists_ok p hashes gids n 0 c css \<and> (0 < c \<longrightarrow> aligned bs al c)"
    by auto
  have run: "find_sliding hashes max_length gids p (SlidingWindowSpec bs a w) False al 1 1 =
      (if found then Inr css else trim_aligned bs al (map (take (nat c)) css))"
    using scan(1) bs by (simp add: find_sliding_def Let_def py_repeat_def n_def)
  have maxl: "int L * bs \<le> max_length" if "L \<le> n" for L
  proof -
    have "int L * bs \<le> max_length div bs * bs" using that n bs by simp
    also have "\<dots> \<le> max_length" using bs by (simp add: minus_mod_eq_div_mult [symmetric])
    finally show ?thesis .
  qed
  show ?thesis
  proof (cases found)
    case True
    then obtain L where L: "L \<le> n" "c \<le> int L" "?need \<le> c" "aligned bs al (int L)"
      "lists_ok p hashes gids L (int L - c) (int L) css"
      using scan(3) by auto
    have "lists_ok p hashes gids L (max 0 (int L - ?need)) (int L) css"
      using L(3,5) by (auto simp: lists_ok_def filled_def)
    with True run L(4) maxl [OF L(1)] show ?thesis by auto
  next
    case False
    then have c: "c \<le> int n" "lists_ok p hashes gids n 0 c css" using scan(3) by auto
    have cn: "nat c \<le> n" using c(1) by simp
    have l0: "lists_ok p hashes gids (nat c) 0 c (map (take (nat c)) css)"
      using lists_ok_take [OF c(2) cn] scan(2) by simp
    have "gids \<noteq> []" using ok by (simp add: lookup_ok_def)
    with l0 have "map (take (nat c)) css \<noteq> []" "\<forall>x \<in> set (map (take (nat c)) css). length x = nat c"
      by (auto simp: lists_ok_def in_set_conv_nth)
    from trim_aligned_spec [OF al this, of bs] obtain m where
      m: "trim_aligned bs al (map (take (nat c)) css) = Inr (map (take m) (map (take (nat c)) css))"
      "best_aligned bs al (int (nat c)) (int m)"
      by blast
    have mc: "m \<le> nat c" "int m \<le> c" using m(2) scan(2) unfolding best_aligned_def by linarith+
    have "lists_ok p hashes gids m 0 (int m) (map (take m) (map (take (nat c)) css))"
      using lists_ok_take [OF l0 mc(1)] mc(2) by simp
    then have "lists_ok p hashes gids m (max 0 (int m - ?need)) (int m) (map (take m) (map (take (nat c)) css))"
      by (auto simp: lists_ok_def filled_def)
    with False run m maxl [of m] mc(1) cn show ?thesis
      by (intro exI [of _ "map (take m) (map (take (nat c)) css)"] exI [of _ m]) (auto simp: best_aligned_def)
  qed
qed

end
