(* ===== verification/Allocation.thy ===== *)
theory Allocation
  imports Coordinator_Inv Cache_Hit
begin

text \<open>
  The KV cache manager as the scheduler sees it: \<open>allocate_slots\<close> never raises under the
  scheduler's protocol, its check is exactly what the allocation needs, and every operation keeps
  the invariant that the reference counts are the numbers of table entries.
\<close>

section \<open>The invariant of the KV cache manager\<close>

definition group_ok :: "int \<Rightarrow> manager \<Rightarrow> bool" where
  "group_ok hbs m \<longleftrightarrow> plain m \<and> mgr_block_size m mod hbs = 0 \<and>
     0 \<le> kv_cache_group_id m \<and> kv_cache_group_id m < 2 ^ 32"

definition groups_of :: "kv_cache_manager \<Rightarrow> manager list" where
  "groups_of k = managers (kcm_coord k)"

definition pool_of :: "kv_cache_manager \<Rightarrow> block_pool" where
  "pool_of k = coord_pool (kcm_coord k)"

definition kcm_inv :: "kv_cache_manager \<Rightarrow> bref list \<Rightarrow> bool" where
  "kcm_inv k free \<longleftrightarrow> coord_inv (groups_of k) (pool_of k) free \<and>
     (\<forall>m \<in> set (groups_of k). group_ok (hash_block_size (pool_of k)) m) \<and>
     0 < hash_block_size (pool_of k) \<and> num_kv_cache_groups k = length (groups_of k) \<and>
     enable_caching (pool_of k) = kcm_caching k"

text \<open>
  The scheduler's protocol for a request: either it continues, and then a group that has not
  counted its cached blocks yet has a table that covers the skipped tokens, or it is new and
  brings the blocks its prefix hit.
\<close>

definition continues :: "string \<Rightarrow> int \<Rightarrow> manager \<Rightarrow> bool" where
  "continues rid n m \<longleftrightarrow> map_of (num_cached_block m) rid \<noteq> None \<or>
     skipped_blocks m n \<le> py_len (blocks_of m rid)"

definition no_hits :: "kv_cache_blocks option \<Rightarrow> bool" where
  "no_hits hits \<longleftrightarrow> (case hits of None \<Rightarrow> True | Some b \<Rightarrow> is_shared_empty b)"

definition hit_lists :: "kv_cache_manager \<Rightarrow> kv_cache_blocks option \<Rightarrow> bref list list" where
  "hit_lists k hits = group_blocks (case hits of
     None \<Rightarrow> EmptyKVCacheBlocks (num_kv_cache_groups k) | Some b \<Rightarrow> b)"

definition schedulable :: "kv_cache_manager \<Rightarrow> string \<Rightarrow> int \<Rightarrow> kv_cache_blocks option \<Rightarrow> bool" where
  "schedulable k rid n hits \<longleftrightarrow>
     (if no_hits hits
      then (\<forall>m \<in> set (groups_of k). continues rid n m) \<and>
        hit_lists k hits = replicate (length (groups_of k)) []
      else list_all2 (takes_hits (pool_of k) rid n) (groups_of k) (hit_lists k hits))"

text \<open>Every group's table covers the first \<open>n\<close> tokens.\<close>

definition covers :: "string \<Rightarrow> int \<Rightarrow> manager \<Rightarrow> bool" where
  "covers rid n m \<longleftrightarrow> n \<le> py_len (blocks_of m rid) * mgr_block_size m"

section \<open>Counting and allocating agree\<close>

lemma hit_row_length: "py_len (hit_row null l m bs) = max (skipped_blocks m l) (py_len bs)"
  by (auto simp: hit_row_def kept_blocks_def py_len_def max_def nat_le_iff)

lemma py_from_kept: "py_from bs (max 0 (skipped_blocks m l)) = kept_blocks m l bs"
  by (simp add: kept_blocks_def py_from_nat max_def)

lemma need_continues:
  "continues rid l m \<Longrightarrow> need_blocks m p rid n [] l = missing rid n m"
  by (auto simp: continues_def need_blocks_def missing_def py_from_nat get_num_evictable_blocks_def py_len_def)

lemma need_takes:
  assumes "takes_hits p rid l m bs" and "took_hits null rid l bs m m'"
  shows "need_blocks m p rid n bs l = missing rid n m' + get_num_evictable_blocks p (kept_blocks m l bs)"
proof -
  have bs: "mgr_block_size m' = mgr_block_size m" and row: "blocks_of m' rid = hit_row null l m bs"
    using assms(2) others_same_confD(3) [of rid m m'] by (simp_all add: took_hits_def)
  have len0: "map_of (num_cached_block m) rid = None" "blocks_of m rid = []"
    using assms(1) by (simp_all add: takes_hits_def)
  have z: "py_len ([] :: bref list) = 0" by (simp add: py_len_def)
  have m: "max 0 x = max x 0" for x :: int by (rule max.commute)
  show ?thesis
    unfolding missing_def m [of "cdiv _ _ - _"]
    by (simp add: need_blocks_def len0 z bs row hit_row_length py_from_kept)
qed

lemma skipped_same_conf: "others_same rid m m' \<Longrightarrow> skipped_blocks m' = skipped_blocks m"
  using others_same_confD [of rid m m']
  by (simp add: skipped_blocks_def get_num_skipped_tokens_def fun_eq_iff)

lemma kept_same_conf: "others_same rid m m' \<Longrightarrow> kept_blocks m' = kept_blocks m"
  using skipped_same_conf [of rid m m'] by (simp add: kept_blocks_def fun_eq_iff)

lemma hit_row_same_conf: "others_same rid m m' \<Longrightarrow> hit_row null l m' bs = hit_row null l m bs"
  using skipped_same_conf [of rid m m'] kept_same_conf [of rid m m'] by (simp add: hit_row_def)

lemma trimmed_continues: "trimmed null rid k m m' \<Longrightarrow> continues rid l m \<Longrightarrow> continues rid l m'"
  using skipped_same_conf [of rid m m']
  by (auto simp: trimmed_def continues_def py_len_def dest: list_all2_lengthD)

lemma trimmed_takes:
  assumes "trimmed null rid k m m'" and "takes_hits p rid l m bs"
    and "pool_conf p' = pool_conf p" and "hash_of p' = hash_of p"
  shows "takes_hits p' rid l m' bs"
proof -
  have o: "others_same rid m m'" using assms(1) by (simp add: trimmed_def)
  then show ?thesis
    using assms(1,2) hit_blocks_ok_cong [OF assms(3,4)] plain_same [OF o] kept_same_conf [OF o]
      others_same_confD(4) [OF o]
    by (auto simp: trimmed_def takes_hits_def)
qed

lemma group_ok_same: "others_same rid m m' \<Longrightarrow> group_ok hbs m' = group_ok hbs m"
  using plain_same [of rid m m'] others_same_confD [of rid m m'] by (simp add: group_ok_def)

lemma grown_covers:
  assumes "grown rid n m new m'" and "0 < mgr_block_size m"
  shows "covers rid n m'"
proof -
  have bs: "mgr_block_size m' = mgr_block_size m" using assms(1) others_same_confD(3) [of rid m m'] by (simp add: grown_def)
  have "cdiv n (mgr_block_size m) \<le> py_len (blocks_of m' rid)"
    using assms(1) by (auto simp: grown_def missing_def py_len_def)
  with cdiv_le_iff [OF assms(2)] show ?thesis by (simp add: covers_def bs)
qed

lemma covers_full:
  assumes "covers rid n m" and "k \<le> n" and "0 < mgr_block_size m"
  shows "k div mgr_block_size m \<le> py_len (blocks_of m rid)"
proof -
  have "k \<le> py_len (blocks_of m rid) * mgr_block_size m" using assms(1,2) by (simp add: covers_def)
  then have "k div mgr_block_size m \<le> py_len (blocks_of m rid) * mgr_block_size m div mgr_block_size m"
    using assms(3) by (rule zdiv_mono1)
  with assms(3) show ?thesis by simp
qed

lemma group_blocks_create:
  "length xs = num_kv_cache_groups k \<Longrightarrow> group_blocks (create_kv_cache_blocks k xs) = xs"
  by (auto simp: create_kv_cache_blocks_def list_ex_iff intro!: nth_equalityI)

section \<open>The allocation of slots\<close>

text \<open>From the check on: the hits are taken over, every group is grown, and full blocks are cached.\<close>

lemma take_hits_stage:
  assumes inv: "coord_inv (managers c) (coord_pool c) free"
    and plain: "\<forall>m \<in> set (managers c). plain m"
    and sched: "if nohits then hits = replicate (length (managers c)) [] \<and> (\<forall>m \<in> set (managers c). continues rid l m)
       else list_all2 (takes_hits (coord_pool c) rid l) (managers c) hits"
    and enough: "sum_list (map2 (\<lambda>m bs. need_blocks m (coord_pool c) rid n bs l) (managers c) hits) \<le> py_len free"
  shows "\<exists>ms p free'. (if nohits then Inr c else coord_allocate_new_computed_blocks rid hits l 0 c) =
      Inr (c\<lparr>managers := ms, coord_pool := p\<rparr>) \<and>
    coord_inv ms p free' \<and> pool_conf p = pool_conf (coord_pool c) \<and> length ms = length (managers c) \<and>
    sum_list (map (missing rid n) ms) \<le> py_len free' \<and>
    (\<forall>j < length (managers c). others_same rid (managers c ! j) (ms ! j) \<and> blocks_of (ms ! j) rid =
       (if nohits then blocks_of (managers c ! j) rid
        else hit_row (null_block (coord_pool c)) l (managers c ! j) (hits ! j)))"
proof (cases nohits)
  case True
  have "need_blocks (managers c ! j) (coord_pool c) rid n [] l = missing rid n (managers c ! j)"
    if "j < length (managers c)" for j
    using that True sched by (intro need_continues) simp
  then have "map2 (\<lambda>m bs. need_blocks m (coord_pool c) rid n bs l) (managers c) hits = map (missing rid n) (managers c)"
    using True sched by (intro nth_equalityI) auto
  moreover have "c\<lparr>managers := managers c, coord_pool := coord_pool c\<rparr> = c" by (cases c) simp
  ultimately show ?thesis
    using True inv enough
    by (intro exI [of _ "managers c"] exI [of _ "coord_pool c"] exI [of _ free]) simp
next
  case False
  let ?ev = "\<lambda>m bs. get_num_evictable_blocks (coord_pool c) (kept_blocks m l bs)"
  let ?evs = "sum_list (map2 ?ev (managers c) hits)"
  let ?needs = "sum_list (map2 (\<lambda>m bs. need_blocks m (coord_pool c) rid n bs l) (managers c) hits)"
  have th: "list_all2 (takes_hits (coord_pool c) rid l) (managers c) hits" using sched False by simp
  have "(?needs - ?evs) + ?evs \<le> py_len free" using enough by simp
  from coord_allocate_computed_inv [OF inv th this] obtain ms p free' where
    1: "coord_allocate_new_computed_blocks rid hits l 0 c = Inr (c\<lparr>managers := ms, coord_pool := p\<rparr>)"
      "coord_inv ms p free'" "pool_conf p = pool_conf (coord_pool c)" "?needs - ?evs \<le> py_len free'"
      "length ms = length (managers c)"
      "\<forall>j < length (managers c). took_hits (null_block (coord_pool c)) rid l (hits ! j) (managers c ! j) (ms ! j)"
    by blast
  have "map2 (\<lambda>m bs. need_blocks m (coord_pool c) rid n bs l) (managers c) hits =
      map2 (+) (map (missing rid n) ms) (map2 ?ev (managers c) hits)"
  proof (rule nth_equalityI)
    fix j assume "j < length (map2 (\<lambda>m bs. need_blocks m (coord_pool c) rid n bs l) (managers c) hits)"
    then have j: "j < length (managers c)" "j < length hits" by simp_all
    have "takes_hits (coord_pool c) rid l (managers c ! j) (hits ! j)"
      using th j by (simp add: list_all2_conv_all_nth)
    moreover have "took_hits (null_block (coord_pool c)) rid l (hits ! j) (managers c ! j) (ms ! j)"
      using 1(6) j by blast
    ultimately have "need_blocks (managers c ! j) (coord_pool c) rid n (hits ! j) l =
        missing rid n (ms ! j) + ?ev (managers c ! j) (hits ! j)" by (rule need_takes)
    with 1(5) j show "map2 (\<lambda>m bs. need_blocks m (coord_pool c) rid n bs l) (managers c) hits ! j =
      map2 (+) (map (missing rid n) ms) (map2 ?ev (managers c) hits) ! j" by simp
  qed (use 1(5) in simp)
  moreover have "sum_list (map2 (+) xs ys) = sum_list xs + sum_list ys" if "length xs = length ys" for xs ys :: "int list"
    using that by (induction rule: list_induct2) simp_all
  ultimately have "?needs = sum_list (map (missing rid n) ms) + ?evs"
    using 1(5) list_all2_lengthD [OF th] by simp
  with 1 False show ?thesis
    by (intro exI [of _ ms] exI [of _ p] exI [of _ free']) (auto simp: took_hits_def)
qed

definition slots_granted :: "string \<Rightarrow> int \<Rightarrow> kv_cache_blocks \<Rightarrow> kv_cache_manager \<Rightarrow> bool" where
  "slots_granted rid n new k \<longleftrightarrow> length (group_blocks new) = length (groups_of k) \<and>
     (\<forall>j < length (groups_of k). covers rid n (groups_of k ! j))"

text \<open>
  The table before the new blocks: the request's old table, in which skipped blocks may have become
  the null block, or for a new request its hits behind one null block per skipped block.
\<close>

definition table_start ::
    "bref \<Rightarrow> string \<Rightarrow> bool \<Rightarrow> int \<Rightarrow> bref list \<Rightarrow> manager \<Rightarrow> bref list \<Rightarrow> bool" where
  "table_start null rid nohits l bs m old \<longleftrightarrow>
     (if nohits then list_all2 (\<lambda>x y. x = y \<or> x = null) old (blocks_of m rid) else old = hit_row null l m bs)"

text \<open>\<open>n\<close> is the number of tokens that need a slot, \<open>l\<close> the number of computed tokens.\<close>

definition slots_refused :: "string \<Rightarrow> int \<Rightarrow> int \<Rightarrow> bref list list \<Rightarrow> kv_cache_manager \<Rightarrow> bool" where
  "slots_refused rid n l hits k \<longleftrightarrow> get_num_free_blocks (pool_of k) <
     sum_list (map2 (\<lambda>m bs. need_blocks m (pool_of k) rid n bs l) (groups_of k) hits)"

lemma others_same_all:
  "\<forall>j < length ms. others_same rid (ms ! j) (ms' ! j) \<Longrightarrow> length ms' = length ms \<Longrightarrow>
   \<forall>m \<in> set ms. P m \<Longrightarrow> (\<And>m m'. others_same rid m m' \<Longrightarrow> P m \<Longrightarrow> P m') \<Longrightarrow> \<forall>m \<in> set ms'. P m"
  by (metis in_set_conv_nth)

lemma kcm_inv_set:
  assumes "kcm_inv k free" and "coord_inv ms p free'" and "pool_conf p = pool_conf (pool_of k)"
    and "length ms = length (groups_of k)" and "\<forall>j < length (groups_of k). others_same rid (groups_of k ! j) (ms ! j)"
  shows "kcm_inv (set_coord k ((kcm_coord k)\<lparr>managers := ms, coord_pool := p\<rparr>)) free'"
proof -
  have "\<forall>m \<in> set ms. group_ok (hash_block_size (pool_of k)) m"
    using assms(1) by (intro others_same_all [OF assms(5,4)]) (auto simp: kcm_inv_def group_ok_same)
  moreover have "hash_block_size p = hash_block_size (pool_of k)" "enable_caching p = enable_caching (pool_of k)"
    using confD(3,4) [OF assms(3)] by simp_all
  ultimately show ?thesis
    using assms(1,2,4) by (simp add: kcm_inv_def set_coord_def groups_of_def pool_of_def)
qed

lemma kcm_free:
  "kcm_inv k free \<Longrightarrow> get_num_free_blocks (pool_of k) = py_len free"
  by (auto simp: kcm_inv_def coord_inv_def intro: num_free_inv)

text \<open>The first stage: skipped blocks are given back, and the needed blocks are counted.\<close>

lemma check_stage:
  assumes inv: "kcm_inv k free" and sched: "schedulable k rid l hits"
  shows "\<exists>ms p free'. coord_remove_skipped_blocks rid l (kcm_coord k) =
      Inr ((kcm_coord k)\<lparr>managers := ms, coord_pool := p\<rparr>) \<and>
    coord_inv ms p free' \<and> pool_conf p = pool_conf (pool_of k) \<and> length ms = length (groups_of k) \<and>
    (\<forall>j < length (groups_of k). trimmed (null_block (pool_of k)) rid l (groups_of k ! j) (ms ! j)) \<and>
    (if no_hits hits then hit_lists k hits = replicate (length ms) [] \<and> (\<forall>m \<in> set ms. continues rid l m)
     else list_all2 (takes_hits p rid l) ms (hit_lists k hits))"
proof -
  let ?c = "kcm_coord k" and ?hits = "hit_lists k hits"
  have plain: "\<forall>m \<in> set (managers ?c). plain m"
    using inv by (simp add: kcm_inv_def group_ok_def groups_of_def)
  have cinv: "coord_inv (managers ?c) (coord_pool ?c) free"
    using inv by (simp add: kcm_inv_def groups_of_def pool_of_def)
  obtain ms p free' where 1: "coord_remove_skipped_blocks rid l ?c = Inr (?c\<lparr>managers := ms, coord_pool := p\<rparr>)"
    "coord_inv ms p free'" "pool_conf p = pool_conf (coord_pool ?c)" "hash_of p = hash_of (coord_pool ?c)"
    "length ms = length (managers ?c)"
    "\<forall>j < length (managers ?c). trimmed (null_block (coord_pool ?c)) rid l (managers ?c ! j) (ms ! j)"
    using coord_remove_skipped_inv [OF cinv plain, of rid l] by blast
  have "if no_hits hits then ?hits = replicate (length ms) [] \<and> (\<forall>m \<in> set ms. continues rid l m)
      else list_all2 (takes_hits p rid l) ms ?hits"
  proof (cases "no_hits hits")
    case True
    have "continues rid l (ms ! j)" if "j < length ms" for j
      using that 1(5,6) sched True trimmed_continues by (auto simp: schedulable_def groups_of_def)
    with True sched 1(5) show ?thesis
      by (auto simp: schedulable_def groups_of_def in_set_conv_nth)
  next
    case False
    then have "list_all2 (takes_hits (coord_pool ?c) rid l) (managers ?c) ?hits"
      using sched by (simp add: schedulable_def groups_of_def pool_of_def)
    then have "list_all2 (takes_hits p rid l) ms ?hits"
      using trimmed_takes [OF _ _ 1(3,4)] 1(5,6) by (auto simp: list_all2_conv_all_nth)
    with False show ?thesis by simp
  qed
  with 1 show ?thesis unfolding groups_of_def pool_of_def by blast
qed

text \<open>The second stage, when the check passed: the hits are taken over and every group is grown.\<close>

lemma grow_stage:
  assumes inv: "coord_inv (managers c) (coord_pool c) free"
    and plain: "\<forall>m \<in> set (managers c). plain m"
    and sched: "if nohits then hits = replicate (length (managers c)) [] \<and> (\<forall>m \<in> set (managers c). continues rid l m)
       else list_all2 (takes_hits (coord_pool c) rid l) (managers c) hits"
    and enough: "sum_list (map2 (\<lambda>m bs. need_blocks m (coord_pool c) rid n bs l) (managers c) hits) \<le> py_len free"
  shows "\<exists>xs ms p free'. rbind (if nohits then Inr c else coord_allocate_new_computed_blocks rid hits l 0 c)
        (coord_allocate_new_blocks rid n main enc) = Inr (xs, c\<lparr>managers := ms, coord_pool := p\<rparr>) \<and>
    coord_inv ms p free' \<and> pool_conf p = pool_conf (coord_pool c) \<and>
    length ms = length (managers c) \<and> length xs = length (managers c) \<and>
    (\<forall>j < length (managers c). others_same rid (managers c ! j) (ms ! j) \<and> covers rid n (ms ! j) \<and>
       blocks_of (ms ! j) rid = (if nohits then blocks_of (managers c ! j) rid
         else hit_row (null_block (coord_pool c)) l (managers c ! j) (hits ! j)) @ xs ! j)"
proof -
  obtain ms3 p3 free3 where
    3: "(if nohits then Inr c else coord_allocate_new_computed_blocks rid hits l 0 c) =
      Inr (c\<lparr>managers := ms3, coord_pool := p3\<rparr>)"
      "coord_inv ms3 p3 free3" "pool_conf p3 = pool_conf (coord_pool c)" "length ms3 = length (managers c)"
      "sum_list (map (missing rid n) ms3) \<le> py_len free3"
      "\<forall>j < length (managers c). others_same rid (managers c ! j) (ms3 ! j)"
      "\<forall>j < length (managers c). blocks_of (ms3 ! j) rid = (if nohits then blocks_of (managers c ! j) rid
         else hit_row (null_block (coord_pool c)) l (managers c ! j) (hits ! j))"
    using take_hits_stage [OF inv plain sched enough] by blast
  define c3 where "c3 = c\<lparr>managers := ms3, coord_pool := p3\<rparr>"
  have c3: "managers c3 = ms3" "coord_pool c3 = p3"
    "c3\<lparr>managers := ms, coord_pool := p\<rparr> = c\<lparr>managers := ms, coord_pool := p\<rparr>" for ms p
    by (simp_all add: c3_def)
  have plain3: "\<forall>m \<in> set (managers c3). plain m"
    unfolding c3 by (rule others_same_all [OF 3(6,4) plain]) (simp add: plain_same)
  have inv3: "coord_inv (managers c3) (coord_pool c3) free3"
    and miss: "sum_list (map (missing rid n) (managers c3)) \<le> py_len free3"
    using 3(2,5) by (simp_all add: c3)
  obtain xs ms4 p4 free4 where
    4: "coord_allocate_new_blocks rid n main enc c3 = Inr (xs, c\<lparr>managers := ms4, coord_pool := p4\<rparr>)"
      "coord_inv ms4 p4 free4" "pool_conf p4 = pool_conf p3" "length ms4 = length ms3" "length xs = length ms3"
      "\<forall>j < length ms3. grown rid n (ms3 ! j) (xs ! j) (ms4 ! j)"
    using coord_allocate_new_inv [OF inv3 plain3 miss, of main enc] unfolding c3 by blast
  have "others_same rid (managers c ! j) (ms4 ! j) \<and> covers rid n (ms4 ! j) \<and>
       blocks_of (ms4 ! j) rid = (if nohits then blocks_of (managers c ! j) rid
         else hit_row (null_block (coord_pool c)) l (managers c ! j) (hits ! j)) @ xs ! j" if "j < length (managers c)" for j
  proof -
    have g: "grown rid n (ms3 ! j) (xs ! j) (ms4 ! j)" using that 3(4) 4(6) by simp
    moreover have "0 < mgr_block_size (ms3 ! j)" using that 3(4) plain3 by (simp add: c3 plain_def)
    moreover have "others_same rid (managers c ! j) (ms3 ! j)" using that 3(6) by blast
    ultimately show ?thesis
      using that 3(7) grown_covers [OF g] others_same_trans [of rid _ "ms3 ! j"] by (auto simp: grown_def)
  qed
  then have post: "\<forall>j < length (managers c). others_same rid (managers c ! j) (ms4 ! j) \<and> covers rid n (ms4 ! j) \<and>
       blocks_of (ms4 ! j) rid = (if nohits then blocks_of (managers c ! j) rid
         else hit_row (null_block (coord_pool c)) l (managers c ! j) (hits ! j)) @ xs ! j" by blast
  show ?thesis
    using 3(3,4) 4(1-5) post unfolding 3(1) rbind_Inr c3_def [symmetric]
    by (intro exI [of _ xs] exI [of _ ms4] exI [of _ p4] exI [of _ free4] conjI) (simp_all cong: if_cong)
qed

text \<open>The last stage: full blocks of known tokens are cached.\<close>

lemma cache_stage:
  assumes inv: "kcm_inv k free" and caching: "kcm_caching k"
    and n: "0 \<le> n" "n \<le> num_tokens r"
    and h: "py_len (block_hashes r) = num_tokens r div hash_block_size (pool_of k)"
    and cov: "\<forall>m \<in> set (groups_of k). covers (request_id r) n m"
  shows "\<exists>ms p free'. coord_cache_blocks r n (kcm_coord k) =
      Inr ((kcm_coord k)\<lparr>managers := ms, coord_pool := p\<rparr>) \<and>
    kcm_inv (set_coord k ((kcm_coord k)\<lparr>managers := ms, coord_pool := p\<rparr>)) free' \<and>
    pool_conf p = pool_conf (pool_of k) \<and> length ms = length (groups_of k) \<and>
    (\<forall>j < length (groups_of k). others_same (request_id r) (groups_of k ! j) (ms ! j) \<and>
       blocks_of (ms ! j) (request_id r) = blocks_of (groups_of k ! j) (request_id r))"
proof -
  have can: "\<forall>m \<in> set (managers (kcm_coord k)). can_cache (coord_pool (kcm_coord k)) r n m"
  proof
    fix m assume m: "m \<in> set (managers (kcm_coord k))"
    then have "group_ok (hash_block_size (pool_of k)) m" "covers (request_id r) n m"
      using inv cov by (simp_all add: kcm_inv_def groups_of_def)
    then show "can_cache (coord_pool (kcm_coord k)) r n m"
      using covers_full [of "request_id r" n m n] by (simp add: group_ok_def can_cache_def plain_def pool_of_def)
  qed
  have c: "coord_inv (managers (kcm_coord k)) (coord_pool (kcm_coord k)) free"
    "enable_caching (coord_pool (kcm_coord k))" "0 < hash_block_size (coord_pool (kcm_coord k))"
    using inv caching by (simp_all add: kcm_inv_def groups_of_def pool_of_def)
  from coord_cache_inv [OF c n h [unfolded pool_of_def] can] obtain ms p free' where
    1: "coord_cache_blocks r n (kcm_coord k) = Inr ((kcm_coord k)\<lparr>managers := ms, coord_pool := p\<rparr>)"
      "coord_inv ms p free'" "pool_conf p = pool_conf (pool_of k)" "length ms = length (groups_of k)"
      "\<forall>j < length (groups_of k). others_same (request_id r) (groups_of k ! j) (ms ! j) \<and>
         blocks_of (ms ! j) (request_id r) = blocks_of (groups_of k ! j) (request_id r)"
    unfolding groups_of_def pool_of_def by blast
  moreover have "kcm_inv (set_coord k ((kcm_coord k)\<lparr>managers := ms, coord_pool := p\<rparr>)) free'"
    using 1(5) by (intro kcm_inv_set [OF inv 1(2-4), where rid = "request_id r"]) simp
  ultimately show ?thesis by blast
qed

text \<open>What a call leaves behind; \<open>n\<close> is the number of tokens that need a slot, \<open>l\<close> of computed ones.\<close>

definition slots_result ::
    "string \<Rightarrow> int \<Rightarrow> int \<Rightarrow> kv_cache_blocks option \<Rightarrow> kv_cache_manager \<Rightarrow> kv_cache_blocks option \<Rightarrow>
     kv_cache_manager \<Rightarrow> bool"
  where
  "slots_result rid n l hits k res k' \<longleftrightarrow> pool_conf (pool_of k') = pool_conf (pool_of k) \<and>
     length (groups_of k') = length (groups_of k) \<and>
     (\<forall>j < length (groups_of k). others_same rid (groups_of k ! j) (groups_of k' ! j)) \<and>
     (case res of None \<Rightarrow> slots_refused rid n l (hit_lists k hits) k' \<and>
          (\<forall>j < length (groups_of k). trimmed (null_block (pool_of k)) rid l (groups_of k ! j) (groups_of k' ! j))
      | Some b \<Rightarrow> slots_granted rid n b k' \<and>
          (\<forall>j < length (groups_of k). \<exists>old. blocks_of (groups_of k' ! j) rid = old @ group_blocks b ! j \<and>
             table_start (null_block (pool_of k)) rid (no_hits hits) l (hit_lists k hits ! j) (groups_of k ! j) old))"

definition finish_slots ::
    "kv_cache_manager \<Rightarrow> request \<Rightarrow> int \<Rightarrow> bool \<Rightarrow> bref list list \<times> coordinator \<Rightarrow>
     (kv_cache_blocks option \<times> kv_cache_manager) res" where
  "finish_slots k r n delay = (\<lambda>(new_blocks, c).
     if \<not> kcm_caching k \<or> delay then Inr (Some (create_kv_cache_blocks k new_blocks), set_coord k c)
     else rbind (coord_cache_blocks r (min n (num_tokens r)) c) (\<lambda>c'.
       Inr (Some (create_kv_cache_blocks k new_blocks), set_coord k c')))"

lemma finish_stage:
  assumes inv: "kcm_inv k free" and c: "coord_inv ms p free'" "pool_conf p = pool_conf (pool_of k)"
      "length ms = length (groups_of k)" "length xs = length (groups_of k)"
    and post: "\<forall>j < length (groups_of k). others_same (request_id r) (groups_of k ! j) (ms ! j) \<and>
      covers (request_id r) n (ms ! j) \<and> (\<exists>old. blocks_of (ms ! j) (request_id r) = old @ xs ! j \<and>
        table_start (null_block (pool_of k)) (request_id r) (no_hits hits) l (hit_lists k hits ! j) (groups_of k ! j) old)"
    and h: "kcm_caching k \<Longrightarrow> py_len (block_hashes r) = num_tokens r div hash_block_size (pool_of k)"
    and m: "0 \<le> m" "m \<le> n"
  shows "\<exists>res k' free'. finish_slots k r m delay (xs, (kcm_coord k)\<lparr>managers := ms, coord_pool := p\<rparr>) =
      Inr (Some res, k') \<and> kcm_inv k' free' \<and> slots_result (request_id r) n l hits k (Some res) k'"
proof -
  let ?rid = "request_id r" and ?k = "set_coord k ((kcm_coord k)\<lparr>managers := ms, coord_pool := p\<rparr>)"
  have same: "\<forall>j < length (groups_of k). others_same ?rid (groups_of k ! j) (ms ! j)" using post by blast
  have kinv: "kcm_inv ?k free'" by (rule kcm_inv_set [OF inv c(1-3) same])
  have gb: "group_blocks (create_kv_cache_blocks k xs) = xs"
    using inv c(4) by (intro group_blocks_create) (simp add: kcm_inv_def)
  have k: "groups_of ?k = ms" "pool_of ?k = p" "kcm_caching ?k = kcm_caching k"
    "\<And>c. set_coord ?k c = set_coord k c" "kcm_coord ?k = (kcm_coord k)\<lparr>managers := ms, coord_pool := p\<rparr>"
    by (simp_all add: groups_of_def pool_of_def set_coord_def)
  show ?thesis
  proof (cases "\<not> kcm_caching k \<or> delay")
    case True
    have "slots_result ?rid n l hits k (Some (create_kv_cache_blocks k xs)) ?k"
      using c(2-4) same post by (simp add: slots_result_def slots_granted_def gb k)
    with True kinv show ?thesis by (auto simp: finish_slots_def)
  next
    case False
    have ht: "0 \<le> num_tokens r" by (simp add: num_tokens_def py_len_def)
    have cov: "covers ?rid (min m (num_tokens r)) (ms ! j)" if "j < length ms" for j
      using that post m(2) c(3) by (auto simp: covers_def)
    have hh: "py_len (block_hashes r) = num_tokens r div hash_block_size (pool_of ?k)"
      using h False confD(4) [OF c(2)] by (simp add: k)
    have caching: "kcm_caching ?k" and n0: "0 \<le> min m (num_tokens r)" "min m (num_tokens r) \<le> num_tokens r"
      and cov': "\<forall>m' \<in> set (groups_of ?k). covers ?rid (min m (num_tokens r)) m'"
      using False m(1) ht cov by (auto simp: k in_set_conv_nth)
    from cache_stage [OF kinv caching n0 hh cov'] obtain ms5 p5 free5 where
      5: "coord_cache_blocks r (min m (num_tokens r)) (kcm_coord ?k) = Inr ((kcm_coord ?k)\<lparr>managers := ms5, coord_pool := p5\<rparr>)"
        "kcm_inv (set_coord k ((kcm_coord ?k)\<lparr>managers := ms5, coord_pool := p5\<rparr>)) free5"
        "pool_conf p5 = pool_conf p" "length ms5 = length ms"
        "\<forall>j < length ms. others_same ?rid (ms ! j) (ms5 ! j) \<and> blocks_of (ms5 ! j) ?rid = blocks_of (ms ! j) ?rid"
      unfolding k(1,2,4) by blast
    let ?k5 = "set_coord k ((kcm_coord ?k)\<lparr>managers := ms5, coord_pool := p5\<rparr>)"
    have k5: "groups_of ?k5 = ms5" "pool_of ?k5 = p5" by (simp_all add: groups_of_def pool_of_def set_coord_def)
    have "others_same ?rid (groups_of k ! j) (ms5 ! j) \<and> covers ?rid n (ms5 ! j) \<and>
        (\<exists>old. blocks_of (ms5 ! j) ?rid = old @ xs ! j \<and>
          table_start (null_block (pool_of k)) ?rid (no_hits hits) l (hit_lists k hits ! j) (groups_of k ! j) old)" if "j < length ms" for j
    proof -
      have o: "others_same ?rid (ms ! j) (ms5 ! j)" "blocks_of (ms5 ! j) ?rid = blocks_of (ms ! j) ?rid"
        using that 5(5) by simp_all
      have b: "others_same ?rid (groups_of k ! j) (ms ! j)" "covers ?rid n (ms ! j)"
        "\<exists>old. blocks_of (ms ! j) ?rid = old @ xs ! j \<and>
          table_start (null_block (pool_of k)) ?rid (no_hits hits) l (hit_lists k hits ! j) (groups_of k ! j) old" using that post c(3) by simp_all
      show ?thesis
        using others_same_trans [OF b(1) o(1)] b(2,3) others_same_confD(3) [OF o(1)]
        by (simp add: covers_def o(2))
    qed
    then have "slots_result ?rid n l hits k (Some (create_kv_cache_blocks k xs)) ?k5"
      using 5(3,4) c(2-4) by (simp add: slots_result_def slots_granted_def gb k5)
    with False 5(1,2) show ?thesis by (auto simp: finish_slots_def k(5))
  qed
qed

lemma allocate_slots_inv:
  assumes inv: "kcm_inv k free" and new: "0 < new"
    and l: "l = num_computed_tokens r + n_hit" "0 \<le> l" "l + new \<le> kcm_max_model_len k" and look: "0 \<le> look"
    and sched: "schedulable k (request_id r) l hits"
    and hashes: "kcm_caching k \<Longrightarrow> py_len (block_hashes r) = num_tokens r div hash_block_size (pool_of k)"
    and n: "n = min (l + new + look) (kcm_max_model_len k)"
  shows "\<exists>res k' free'. allocate_slots r new n_hit hits look 0 delay enc k = Inr (res, k') \<and>
    kcm_inv k' free' \<and> slots_result (request_id r) n l hits k res k'"
proof -
  let ?rid = "request_id r" and ?c = "kcm_coord k" and ?hits = "hit_lists k hits"
  obtain ms1 p1 free1 where 1: "coord_remove_skipped_blocks ?rid l ?c = Inr (?c\<lparr>managers := ms1, coord_pool := p1\<rparr>)"
    "coord_inv ms1 p1 free1" "pool_conf p1 = pool_conf (pool_of k)" "length ms1 = length (groups_of k)"
    and trim: "\<forall>j < length (groups_of k). trimmed (null_block (pool_of k)) ?rid l (groups_of k ! j) (ms1 ! j)"
    and sched1: "if no_hits hits then ?hits = replicate (length ms1) [] \<and> (\<forall>m \<in> set ms1. continues ?rid l m)
      else list_all2 (takes_hits p1 ?rid l) ms1 ?hits"
    using check_stage [OF inv sched] by blast
  have same1: "\<forall>j < length (groups_of k). others_same ?rid (groups_of k ! j) (ms1 ! j)"
    using trim by (simp add: trimmed_def)
  define c1 where "c1 = ?c\<lparr>managers := ms1, coord_pool := p1\<rparr>"
  have c1: "managers c1 = ms1" "coord_pool c1 = p1"
    "c1\<lparr>managers := ms, coord_pool := p\<rparr> = ?c\<lparr>managers := ms, coord_pool := p\<rparr>" for ms p
    by (simp_all add: c1_def)
  have kinv1: "kcm_inv (set_coord k c1) free1" unfolding c1_def by (rule kcm_inv_set [OF inv 1(2-4) same1])
  then have plain1: "\<forall>m \<in> set (managers c1). plain m"
    by (simp add: kcm_inv_def group_ok_def groups_of_def set_coord_def)
  let ?need = "sum_list (map2 (\<lambda>m bs. need_blocks m p1 ?rid n bs l) ms1 ?hits)"
  have "list_all2 (\<lambda>m bs. map_of (num_cached_block m) ?rid \<noteq> None \<longrightarrow> bs = []) (managers c1) ?hits"
    using sched1 by (auto simp: c1 list_all2_conv_all_nth takes_hits_def split: if_splits)
  from coord_count [OF plain1 this, where n = n and enc = enc and total_computed = l and main = "l + new"]
  have count: "coord_num_blocks_to_allocate ?rid n ?hits enc l (l + new) c1 = Inr (?need, c1)"
    by (simp add: c1)
  have free1: "get_num_free_blocks p1 = py_len free1"
    using 1(2) by (auto simp: coord_inv_def intro: num_free_inv)
  have run: "allocate_slots r new n_hit hits look 0 delay enc k =
      (if ?need > py_len free1 then Inr (None, set_coord k c1)
       else rbind (rbind (if no_hits hits then Inr c1 else coord_allocate_new_computed_blocks ?rid ?hits l 0 c1)
         (coord_allocate_new_blocks ?rid n (l + new) enc)) (finish_slots k r (l + new) delay))"
  proof -
    have e: "is_shared_empty (case hits of None \<Rightarrow> EmptyKVCacheBlocks (num_kv_cache_groups k) | Some b \<Rightarrow> b) = no_hits hits"
      by (simp add: no_hits_def split: option.splits)
    have new0: "\<not> (new = 0 \<and> (0 :: int) = 0)" using new by simp
    have tot: "min (l + 0) (kcm_max_model_len k) = l" using l new by simp
    show ?thesis
      unfolding allocate_slots_def Let_def l(1) [symmetric] tot e n [symmetric] hit_lists_def [symmetric]
        if_not_P [OF new0] 1(1) c1_def [symmetric] rbind_Inr
      by (simp add: count free1 c1(2) finish_slots_def rbind_assoc cong: if_cong)
  qed
  show ?thesis
  proof (cases "?need > py_len free1")
    case True
    have "slots_result ?rid n l hits k None (set_coord k c1)"
      using True free1 1(3,4) same1 trim
      by (simp add: slots_result_def slots_refused_def pool_of_def groups_of_def set_coord_def c1)
    with True run kinv1 show ?thesis by auto
  next
    case False
    have "\<exists>xs ms p free'. rbind (if no_hits hits then Inr c1 else coord_allocate_new_computed_blocks ?rid ?hits l 0 c1)
        (coord_allocate_new_blocks ?rid n (l + new) enc) = Inr (xs, c1\<lparr>managers := ms, coord_pool := p\<rparr>) \<and>
      coord_inv ms p free' \<and> pool_conf p = pool_conf (coord_pool c1) \<and>
      length ms = length (managers c1) \<and> length xs = length (managers c1) \<and>
      (\<forall>j < length (managers c1). others_same ?rid (managers c1 ! j) (ms ! j) \<and> covers ?rid n (ms ! j) \<and>
         blocks_of (ms ! j) ?rid = (if no_hits hits then blocks_of (managers c1 ! j) ?rid
           else hit_row (null_block (coord_pool c1)) l (managers c1 ! j) (?hits ! j)) @ xs ! j)"
      by (rule grow_stage [of c1 free1]) (use 1(2) plain1 sched1 False in \<open>simp_all add: c1 cong: if_cong\<close>)
    then obtain xs ms4 p4 free4 where
      4: "rbind (if no_hits hits then Inr c1 else coord_allocate_new_computed_blocks ?rid ?hits l 0 c1)
        (coord_allocate_new_blocks ?rid n (l + new) enc) = Inr (xs, ?c\<lparr>managers := ms4, coord_pool := p4\<rparr>)"
        "coord_inv ms4 p4 free4" "pool_conf p4 = pool_conf p1" "length ms4 = length ms1" "length xs = length ms1"
        "\<forall>j < length ms1. others_same ?rid (ms1 ! j) (ms4 ! j) \<and> covers ?rid n (ms4 ! j) \<and>
           blocks_of (ms4 ! j) ?rid = (if no_hits hits then blocks_of (ms1 ! j) ?rid
             else hit_row (null_block p1) l (ms1 ! j) (?hits ! j)) @ xs ! j"
      unfolding c1 by blast
    have "\<exists>res k' free'. finish_slots k r (l + new) delay (xs, ?c\<lparr>managers := ms4, coord_pool := p4\<rparr>) =
      Inr (Some res, k') \<and> kcm_inv k' free' \<and> slots_result ?rid n l hits k (Some res) k'"
    proof (rule finish_stage [OF inv 4(2)])
      show "\<forall>j < length (groups_of k). others_same ?rid (groups_of k ! j) (ms4 ! j) \<and>
          covers ?rid n (ms4 ! j) \<and> (\<exists>old. blocks_of (ms4 ! j) ?rid = old @ xs ! j \<and>
            table_start (null_block (pool_of k)) ?rid (no_hits hits) l (?hits ! j) (groups_of k ! j) old)"
      proof (intro allI impI)
        fix j assume j: "j < length (groups_of k)"
        have "null_block p1 = null_block (pool_of k)" by (rule confD(1) [OF 1(3)])
        then have "table_start (null_block (pool_of k)) ?rid (no_hits hits) l (?hits ! j) (groups_of k ! j)
            (if no_hits hits then blocks_of (ms1 ! j) ?rid else hit_row (null_block p1) l (ms1 ! j) (?hits ! j))"
          using trim j hit_row_same_conf [of ?rid "groups_of k ! j" "ms1 ! j"]
          by (simp add: table_start_def trimmed_def)
        moreover have "others_same ?rid (ms1 ! j) (ms4 ! j)" "covers ?rid n (ms4 ! j)"
          "blocks_of (ms4 ! j) ?rid = (if no_hits hits then blocks_of (ms1 ! j) ?rid
             else hit_row (null_block p1) l (ms1 ! j) (?hits ! j)) @ xs ! j" using 4(6) j 1(4) by simp_all
        ultimately show "others_same ?rid (groups_of k ! j) (ms4 ! j) \<and> covers ?rid n (ms4 ! j) \<and>
          (\<exists>old. blocks_of (ms4 ! j) ?rid = old @ xs ! j \<and>
            table_start (null_block (pool_of k)) ?rid (no_hits hits) l (?hits ! j) (groups_of k ! j) old)"
          using same1 j others_same_trans by blast
      qed
    qed (use 1(3,4) 4(3-5) hashes l new look n in simp_all)
    with False run 4(1) show ?thesis by auto
  qed
qed

end
