(* ===== verification/KV_System.thy ===== *)
theory KV_System
  imports Allocation
begin

text \<open>
  The KV cache manager as a state machine: a fresh manager, and the calls the scheduler makes on
  it.  In every reachable state the reference counts are the numbers of table entries, so no block
  is leaked and none is given to two requests unless the prefix cache shares it.
\<close>

section \<open>A fresh manager\<close>

definition plain_spec :: "kv_cache_spec \<Rightarrow> bool" where
  "plain_spec s \<longleftrightarrow> 0 < spec_block_size s \<and>
     (case s of FullAttentionSpec _ _ _ \<Rightarrow> True | MLAAttentionSpec _ _ _ _ \<Rightarrow> True
      | SlidingWindowSpec _ _ _ \<Rightarrow> True | ChunkedLocalAttentionSpec _ _ _ \<Rightarrow> True | _ \<Rightarrow> False)"

definition plain_config :: "kv_cache_config \<Rightarrow> int \<Rightarrow> int \<Rightarrow> int \<Rightarrow> bool" where
  "plain_config cfg hbs dcp pcp \<longleftrightarrow> 0 < hbs \<and> length (kv_cache_groups cfg) < 2 ^ 32 \<and>
     (\<forall>g \<in> set (kv_cache_groups cfg). plain_spec (group_spec g) \<and>
        full_block_size (group_spec g) dcp pcp mod hbs = 0)"

definition fresh_manager :: "int \<Rightarrow> int \<Rightarrow> int \<Rightarrow> kv_cache_spec \<Rightarrow> manager \<Rightarrow> bool" where
  "fresh_manager dcp pcp i s m \<longleftrightarrow> req_to_blocks m = [] \<and> num_cached_block m = [] \<and>
     mgr_block_size m = full_block_size s dcp pcp \<and> kv_cache_group_id m = i \<and>
     mgr_spec m = s \<and> spec_manager_map s = Inr (mgr_class m) \<and> mgr_class m \<noteq> MambaManager \<and>
     mgr_class m \<noteq> CrossAttentionManager"

lemma get_manager_plain:
  assumes "plain_spec s"
  shows "\<exists>m. get_manager_for_kv_cache_spec s caching i dcp pcp p = Inr (m, p) \<and>
    fresh_manager dcp pcp i s m \<and> mgr_caching m = caching"
  using assms
  by (cases s) (auto simp: plain_spec_def get_manager_for_kv_cache_spec_def fresh_manager_def
      SingleTypeKVCacheManager_def full_block_size_def Let_def)

lemma init_managers_plain:
  assumes "\<forall>g \<in> set gs. plain_spec (group_spec g)"
  shows "\<exists>ms. init_managers caching dcp pcp i gs p = Inr (ms, p) \<and> length ms = length gs \<and>
    (\<forall>j < length gs. fresh_manager dcp pcp (i + int j) (group_spec (gs ! j)) (ms ! j) \<and>
       mgr_caching (ms ! j) = caching)"
  using assms
proof (induction gs arbitrary: i)
  case Nil
  then show ?case by simp
next
  case (Cons g gs)
  obtain m where m: "get_manager_for_kv_cache_spec (group_spec g) caching i dcp pcp p = Inr (m, p)"
    "fresh_manager dcp pcp i (group_spec g) m" "mgr_caching m = caching"
    using get_manager_plain [of "group_spec g" caching i dcp pcp p] Cons.prems by auto
  obtain ms where ms: "init_managers caching dcp pcp (i + 1) gs p = Inr (ms, p)" "length ms = length gs"
    "\<forall>j < length gs. fresh_manager dcp pcp (i + 1 + int j) (group_spec (gs ! j)) (ms ! j) \<and>
       mgr_caching (ms ! j) = caching"
    using Cons.IH [of "i + 1"] Cons.prems by auto
  have "fresh_manager dcp pcp (i + int j) (group_spec ((g # gs) ! j)) ((m # ms) ! j) \<and>
      mgr_caching ((m # ms) ! j) = caching"
    if "j < length (g # gs)" for j
    using that m(2,3) ms(3) by (cases j) (simp_all add: algebra_simps)
  with m(1) ms(1,2) show ?case by (intro exI [of _ "m # ms"]) simp
qed

lemma fresh_rows:
  assumes "fresh_manager dcp pcp i s m"
  shows "rows_ok m p" "fresh_tails m p" "blocks_of m rid = []" "total (req_to_blocks m) b = 0"
  using assms by (simp_all add: fresh_manager_def rows_ok_def fresh_tails_def uncached_def blocks_of_def
      n_cached_def real_blocks_def)

lemma coordinator_init:
  assumes "plain_config cfg hbs dcp pcp"
    and "KVCacheCoordinator cls cfg max_len eagle caching events ints dcp pcp hbs metrics = Inr c"
  shows "coord_inv (managers c) (coord_pool c) (map Blk [1..<nat (num_blocks cfg)])"
    and "pool_conf (coord_pool c) = (num_blocks cfg, caching, hbs, Blk 0, events, ints)"
    and "length (managers c) = length (kv_cache_groups cfg)"
    and "\<forall>j < length (managers c). fresh_manager dcp pcp (int j) (group_spec (kv_cache_groups cfg ! j)) (managers c ! j) \<and>
       mgr_caching (managers c ! j) = caching"
proof -
  have n: "0 < num_blocks cfg"
    using assms(2) by (auto simp: KVCacheCoordinator_def BlockPool_def res_simps)
  then obtain p where p: "BlockPool (num_blocks cfg) caching hbs events ints metrics = Inr p"
    "pool_inv p (map Blk [1..<nat (num_blocks cfg)]) {}"
    "pool_conf p = (num_blocks cfg, caching, hbs, Blk 0, events, ints)" "refs p = (\<lambda>_. 0)" "hash_of p = (\<lambda>_. None)"
    using init_pool_inv by blast
  have "\<forall>g \<in> set (kv_cache_groups cfg). plain_spec (group_spec g)" using assms(1) by (simp add: plain_config_def)
  from init_managers_plain [OF this, of caching dcp pcp 0 p] obtain ms where
    ms: "init_managers caching dcp pcp 0 (kv_cache_groups cfg) p = Inr (ms, p)"
      "length ms = length (kv_cache_groups cfg)"
      "\<forall>j < length ms. fresh_manager dcp pcp (int j) (group_spec (kv_cache_groups cfg ! j)) (ms ! j) \<and>
         mgr_caching (ms ! j) = caching" by auto
  have c: "managers c = ms" "coord_pool c = p"
    using assms(2) by (auto simp: KVCacheCoordinator_def p(1) ms(1))
  have fm: "\<exists>i s. fresh_manager dcp pcp i s m" if "m \<in> set ms" for m
    using that ms(3) by (auto simp: in_set_conv_nth)
  have rows: "rows_ok m p \<and> fresh_tails m p \<and> total (req_to_blocks m) b = 0" if "m \<in> set ms" for m b
    using fm [OF that] fresh_rows(1,2,4) by blast
  then have "held ms b = 0" for b
  proof -
    have e: "map (\<lambda>m. total (req_to_blocks m) b) ms = map (\<lambda>_. 0) ms" using rows by simp
    show ?thesis unfolding held_def e by simp
  qed
  then have "coord_inv ms p (map Blk [1..<nat (num_blocks cfg)])"
    using p rows unfolding coord_inv_def by simp
  then show "coord_inv (managers c) (coord_pool c) (map Blk [1..<nat (num_blocks cfg)])" by (simp add: c)
  show "pool_conf (coord_pool c) = (num_blocks cfg, caching, hbs, Blk 0, events, ints)"
    "length (managers c) = length (kv_cache_groups cfg)"
    "\<forall>j < length (managers c). fresh_manager dcp pcp (int j) (group_spec (kv_cache_groups cfg ! j)) (managers c ! j) \<and>
       mgr_caching (managers c ! j) = caching"
    using p(3) ms by (simp_all add: c)
qed

lemma coordinator_kinds:
  assumes "get_kv_cache_coordinator cfg max_len eagle caching events ints dcp pcp hbs metrics = Inr c"
  shows "\<exists>cls c0. KVCacheCoordinator cls cfg max_len eagle caching events ints dcp pcp hbs metrics = Inr c0 \<and>
    managers c = managers c0 \<and> coord_pool c = coord_pool c0"
proof -
  let ?new = "\<lambda>cls b. KVCacheCoordinator cls cfg max_len eagle b events ints dcp pcp hbs metrics"
  have unitary: "managers c = managers c0 \<and> coord_pool c = coord_pool c0"
    if "init_unitary caching c0 = Inr c" for c0
    using that by (auto simp: init_unitary_def Let_def res_simps)
  have hybrid: "managers c = managers c0 \<and> coord_pool c = coord_pool c0" if "init_hybrid c0 = Inr c" for c0
    using that by (auto simp: init_hybrid_def Let_def res_simps split: if_splits)
  consider "\<not> caching" "?new KVCacheCoordinatorNoPrefixCache False = Inr c"
    | c0 where "caching" "?new UnitaryKVCacheCoordinator caching = Inr c0" "init_unitary caching c0 = Inr c"
    | c0 where "caching" "?new HybridKVCacheCoordinator caching = Inr c0" "init_hybrid c0 = Inr c"
    using assms by (auto simp: get_kv_cache_coordinator_def res_simps split: if_splits)
  then show ?thesis
  proof cases
    case 1
    then show ?thesis by (intro exI [of _ KVCacheCoordinatorNoPrefixCache] exI [of _ c]) simp
  next
    case 2
    with unitary show ?thesis by blast
  next
    case 3
    with hybrid show ?thesis by blast
  qed
qed

lemma manager_init:
  assumes cfg: "plain_config cfg hbs dcp pcp"
    and k: "KVCacheManager cfg max_len hbs caching eagle log_stats events ints dcp pcp metrics = Inr k"
  shows "kcm_inv k (map Blk [1..<nat (num_blocks cfg)])" and "kcm_max_model_len k = max_len"
    and "\<forall>m \<in> set (groups_of k). req_to_blocks m = [] \<and> num_cached_block m = []"
proof -
  obtain c where c: "get_kv_cache_coordinator cfg max_len eagle caching events ints dcp pcp hbs metrics = Inr c"
    "kcm_coord k = c" "num_kv_cache_groups k = length (kv_cache_groups cfg)" "kcm_caching k = caching"
    "kcm_max_model_len k = max_len"
    using k by (auto simp: KVCacheManager_def res_simps)
  obtain cls c0 where c0: "KVCacheCoordinator cls cfg max_len eagle caching events ints dcp pcp hbs metrics = Inr c0"
    "managers c = managers c0" "coord_pool c = coord_pool c0"
    using coordinator_kinds [OF c(1)] by blast
  note i = coordinator_init [OF cfg c0(1), folded c0(2,3)]
  have pc: "hash_block_size (coord_pool c) = hbs" "enable_caching (coord_pool c) = caching"
    using i(2) by (simp_all add: pool_conf_def)
  have "group_ok hbs m" if m: "m \<in> set (managers c)" for m
  proof -
    obtain j where j: "j < length (managers c)" "managers c ! j = m" using m by (auto simp: in_set_conv_nth)
    then have f: "fresh_manager dcp pcp (int j) (group_spec (kv_cache_groups cfg ! j)) m" using i(4) by blast
    have g: "kv_cache_groups cfg ! j \<in> set (kv_cache_groups cfg)" using j i(3) by simp
    then have s: "0 < spec_block_size (group_spec (kv_cache_groups cfg ! j))"
      "full_block_size (group_spec (kv_cache_groups cfg ! j)) dcp pcp mod hbs = 0"
      using cfg by (simp_all add: plain_config_def plain_spec_def)
    have "0 < full_block_size (group_spec (kv_cache_groups cfg ! j)) dcp pcp"
      using s(1) by (simp add: full_block_size_def)
    moreover have "int j < 2 ^ 32"
      using j(1) i(3) cfg by (simp add: plain_config_def)
    ultimately show ?thesis using f s(2) by (simp add: group_ok_def plain_def fresh_manager_def)
  qed
  then show "kcm_inv k (map Blk [1..<nat (num_blocks cfg)])"
    using i(1,3) cfg c by (simp add: kcm_inv_def groups_of_def pool_of_def pc plain_config_def)
  show "\<forall>m \<in> set (groups_of k). req_to_blocks m = [] \<and> num_cached_block m = []"
    using i(4) by (auto simp: groups_of_def c(2) fresh_manager_def in_set_conv_nth)
qed (use k in \<open>auto simp: KVCacheManager_def res_simps\<close>)

section \<open>The other calls\<close>

text \<open>A change of the pool that keeps the counts and adds no hash keeps the invariant.\<close>

lemma coord_inv_pool:
  assumes "coord_inv ms p free" and "pool_inv p' free' {}" and "pool_conf p' = pool_conf p"
    and "refs p' = refs p" and "\<And>b. hash_of p b = None \<Longrightarrow> hash_of p' b = None"
  shows "coord_inv ms p' free'"
  using assms real_blocks_conf [OF assms(3)] usable_conf [OF assms(3)] confD [OF assms(3)]
  by (auto simp: coord_inv_def rows_ok_def fresh_tails_def)

lemma kcm_inv_pool:
  assumes "kcm_inv k free" and "pool_inv p' free' {}" and "pool_conf p' = pool_conf (pool_of k)"
    and "refs p' = refs (pool_of k)" and "\<And>b. hash_of (pool_of k) b = None \<Longrightarrow> hash_of p' b = None"
  shows "kcm_inv (set_coord k ((kcm_coord k)\<lparr>coord_pool := p'\<rparr>)) free'"
proof -
  have "coord_inv (groups_of k) p' free'"
    by (rule coord_inv_pool [OF _ assms(2-5)]) (use assms(1) in \<open>auto simp: kcm_inv_def\<close>)
  with assms(1) confD(3,4) [OF assms(3)] show ?thesis
    by (simp add: kcm_inv_def groups_of_def pool_of_def set_coord_def)
qed

lemma kcm_inv_stats: "kcm_inv (k\<lparr>kcm_stats := s\<rparr>) free = kcm_inv k free"
  by (simp add: kcm_inv_def groups_of_def pool_of_def)

lemma kcm_inv_coord: "kcm_inv k free \<Longrightarrow> coord_inv (groups_of k) (pool_of k) free"
  by (simp add: kcm_inv_def)

lemma kcm_inv_pool_inv: "kcm_inv k free \<Longrightarrow> pool_inv (pool_of k) free {}"
  by (simp add: kcm_inv_def coord_inv_def)

lemma evict_kcm_inv:
  assumes "kcm_inv k free" and "\<forall>i \<in> set is. 0 < i \<and> i < num_gpu_blocks (pool_of k)"
  shows "\<exists>k'. kcm_evict_blocks is k = Inr k' \<and> kcm_inv k' free \<and> groups_of k' = groups_of k"
proof -
  obtain p where p: "evict_blocks is (pool_of k) = Inr p" "pool_inv p free {}" "pool_conf p = pool_conf (pool_of k)"
    "refs p = refs (pool_of k)"
    "hash_of p = (\<lambda>b. if b \<in> (\<lambda>i. Blk (nat i)) ` set is then None else hash_of (pool_of k) b)"
    using evict_blocks_inv [OF kcm_inv_pool_inv [OF assms(1)] assms(2)] by blast
  from kcm_inv_pool [OF assms(1) p(2-4)] p(5)
  have "kcm_inv (set_coord k ((kcm_coord k)\<lparr>coord_pool := p\<rparr>)) free" by simp
  with p(1) show ?thesis
    by (simp add: kcm_evict_blocks_def on_pool_def pool_of_def groups_of_def set_coord_def)
qed

lemma reset_kcm_inv:
  assumes inv: "kcm_inv k free" and stats: "kcm_log_stats k \<longrightarrow> kcm_stats k \<noteq> None"
  shows "\<exists>done k'. kcm_reset_prefix_cache k = Inr (done, k') \<and> kcm_inv k' free \<and> groups_of k' = groups_of k \<and>
    (done \<longleftrightarrow> py_len free = num_gpu_blocks (pool_of k) - 1) \<and>
    (done \<longrightarrow> (\<forall>b \<in> usable (pool_of k'). hash_of (pool_of k') b = None))"
proof -
  obtain d p where r: "reset_prefix_cache (pool_of k) = (d, p)" by (cases "reset_prefix_cache (pool_of k)")
  note R = reset_prefix_cache_inv [OF kcm_inv_pool_inv [OF inv] r]
  let ?k = "set_coord k ((kcm_coord k)\<lparr>coord_pool := p\<rparr>)"
  have "pool_inv p free {} \<and> pool_conf p = pool_conf (pool_of k) \<and> refs p = refs (pool_of k) \<and>
      (\<forall>b. hash_of (pool_of k) b = None \<longrightarrow> hash_of p b = None)"
  proof (cases d)
    case True
    have outside: "hash_of p b = hash_of (pool_of k) b" if "b \<notin> usable (pool_of k)" "b \<noteq> null_block (pool_of k)" for b
      using that r True by (auto simp: reset_prefix_cache_def Let_def hash_of_def usable_def pool_blocks_def pool_simps
          fold_reset_hash split: if_splits)
    from R(3) [OF True] have p: "pool_inv p free {}" "pool_conf p = pool_conf (pool_of k)"
      "refs p = refs (pool_of k)" "\<forall>b \<in> usable (pool_of k). hash_of p b = None" by blast+
    have "hash_of p (null_block p) = None" using p(1) unfolding pool_inv_def by blast
    then have "hash_of p (null_block (pool_of k)) = None" using confD(1) [OF p(2)] by simp
    with p outside show ?thesis by (metis)
  next
    case False
    with R(2) kcm_inv_pool_inv [OF inv] show ?thesis by simp
  qed
  then have kinv: "kcm_inv ?k free" by (intro kcm_inv_pool [OF inv]) auto
  have k: "pool_of (?k\<lparr>kcm_stats := s\<rparr>) = p" "groups_of (?k\<lparr>kcm_stats := s\<rparr>) = groups_of k"
    "pool_of ?k = p" "groups_of ?k = groups_of k" for s
    by (simp_all add: pool_of_def groups_of_def set_coord_def)
  have conf: "d \<Longrightarrow> usable p = usable (pool_of k)" using R(3) usable_conf by blast
  show ?thesis
  proof (cases "d \<and> kcm_log_stats k")
    case True
    then obtain s where s: "kcm_stats k = Some s" using stats by auto
    have "kcm_reset_prefix_cache k = Inr (True, ?k\<lparr>kcm_stats := Some (s\<lparr>stat_reset := True\<rparr>)\<rparr>)"
      using True r s by (simp add: kcm_reset_prefix_cache_def pool_of_def)
    with True kinv R(1,3) conf show ?thesis by (auto simp: k kcm_inv_stats)
  next
    case False
    then have "kcm_reset_prefix_cache k = Inr (d, ?k)"
      using r by (auto simp: kcm_reset_prefix_cache_def pool_of_def Let_def)
    with kinv R(1,3) conf show ?thesis by (auto simp: k)
  qed
qed

lemma free_kcm_inv:
  assumes inv: "kcm_inv k free"
  shows "\<exists>k' free'. free_request r k = Inr k' \<and> kcm_inv k' free' \<and> length (groups_of k') = length (groups_of k) \<and>
    pool_conf (pool_of k') = pool_conf (pool_of k) \<and> hash_of (pool_of k') = hash_of (pool_of k) \<and>
    (\<forall>j < length (groups_of k). others_same (request_id r) (groups_of k ! j) (groups_of k' ! j) \<and>
       map_of (req_to_blocks (groups_of k' ! j)) (request_id r) = None \<and>
       map_of (num_cached_block (groups_of k' ! j)) (request_id r) = None)"
proof -
  have c: "coord_inv (managers (kcm_coord k)) (coord_pool (kcm_coord k)) free"
    using inv by (simp add: kcm_inv_def groups_of_def pool_of_def)
  obtain ms p free' where 1: "coord_free (request_id r) (kcm_coord k) = Inr ((kcm_coord k)\<lparr>managers := ms, coord_pool := p\<rparr>)"
    "coord_inv ms p free'" "pool_conf p = pool_conf (pool_of k)" "hash_of p = hash_of (pool_of k)"
    "length ms = length (groups_of k)"
    "\<forall>j < length (groups_of k). others_same (request_id r) (groups_of k ! j) (ms ! j) \<and>
       map_of (req_to_blocks (ms ! j)) (request_id r) = None \<and> map_of (num_cached_block (ms ! j)) (request_id r) = None"
    using coord_free_inv [OF c, of "request_id r"] unfolding groups_of_def pool_of_def by blast
  have "kcm_inv (set_coord k ((kcm_coord k)\<lparr>managers := ms, coord_pool := p\<rparr>)) free'"
    using 1(6) by (intro kcm_inv_set [OF inv 1(2,3,5), where rid = "request_id r"]) simp
  with 1 show ?thesis
    by (auto simp: free_request_def groups_of_def pool_of_def set_coord_def)
qed

section \<open>Lookups\<close>

text \<open>
  The blocks a sound lookup returns can be taken over: they are null or hashed, and no block occurs
  twice, since the block hashes of a request are distinct.
\<close>

lemma sound_hits_ok:
  assumes sound: "sound_list p hashes g bs" and len: "length bs \<le> length (bhl_values hashes)"
    and dist: "distinct (bhl_values hashes)"
  shows "hit_blocks_ok p bs"
proof -
  have same: "i = j" if "i < length bs" "j < length bs" "bs ! i = bs ! j" "bs ! i \<noteq> null_block p" for i j
  proof -
    have "carries p (bhl_values hashes ! i) g (bs ! i)" "carries p (bhl_values hashes ! j) g (bs ! i)"
      using sound that by (auto simp: sound_list_def)
    then have "bhl_values hashes ! i = bhl_values hashes ! j" by (auto simp: carries_def dest: make_key_inj)
    then show ?thesis using dist that(1,2) len by (simp add: nth_eq_iff_index_eq)
  qed
  have "distinct (filter (\<lambda>b. b \<noteq> null_block p) bs)"
    using same
  proof (induction bs)
    case (Cons b bs)
    have "distinct (filter (\<lambda>b. b \<noteq> null_block p) bs)"
      using Cons.prems [of "Suc _" "Suc _"] by (intro Cons.IH) simp
    moreover have "b \<notin> set bs \<or> b = null_block p"
      using Cons.prems [of 0 "Suc _"] by (auto simp: in_set_conv_nth)
    ultimately show ?case by auto
  qed simp
  moreover have "b \<in> usable p \<and> hash_of p b \<noteq> None \<or> b = null_block p" if "b \<in> set bs" for b
    using that sound by (auto simp: sound_list_def carries_def in_set_conv_nth)
  ultimately show ?thesis by (simp add: hit_blocks_ok_def real_blocks_def)
qed

text \<open>A manager with one full attention group.\<close>

definition unitary_full :: "kv_cache_manager \<Rightarrow> manager \<Rightarrow> kv_cache_group_spec \<Rightarrow> bool" where
  "unitary_full k m g \<longleftrightarrow> coord_class (kcm_coord k) = UnitaryKVCacheCoordinator \<and>
     groups_of k = [m] \<and> coord_groups (kcm_coord k) = [g] \<and>
     mgr_class m = FullAttentionManager \<and> is_full_attention (group_spec g) \<and> mgr_caching m \<and> kcm_caching k \<and>
     unitary_block_size (kcm_coord k) =
       full_block_size (group_spec g) (coord_dcp (kcm_coord k)) (coord_pcp (kcm_coord k)) \<and>
     mgr_block_size m = unitary_block_size (kcm_coord k) \<and>
     hash_block_size (pool_of k) = unitary_block_size (kcm_coord k)"

text \<open>\<open>h\<close> of the request's leading blocks are cached and \<open>n\<close> of them are used.\<close>

definition prefix_hit :: "kv_cache_manager \<Rightarrow> request \<Rightarrow> int \<Rightarrow> int \<Rightarrow> kv_cache_blocks \<Rightarrow> bool" where
  "prefix_hit k r h n hits \<longleftrightarrow>
     longest_run (hit_at (pool_of k) [0] (Plain (block_hashes r))) 0
       ((num_tokens r - 1) div unitary_block_size (kcm_coord k)) h \<and>
     n = (if coord_eagle (kcm_coord k) \<and> 0 < h then h - 1 else h) \<and>
     (\<exists>bs. group_blocks hits = [bs] \<and> py_len bs = n \<and>
        (\<forall>i < length bs. carries (pool_of k) (block_hashes r ! i) 0 (bs ! i)))"

lemma best_aligned_self: "best_aligned bs bs m n \<Longrightarrow> n = m"
  by (force simp: best_aligned_def aligned_def)

lemma find_full_unitary:
  assumes inv: "kcm_inv k free" and u: "unitary_full k m g" and t: "0 < num_tokens r"
    and h: "py_len (block_hashes r) = num_tokens r div unitary_block_size (kcm_coord k)"
  shows "\<exists>bs n j. unitary_find (kcm_coord k) (block_hashes r) (num_tokens r - 1) =
      Inr ([bs], n * unitary_block_size (kcm_coord k)) \<and>
    longest_run (hit_at (pool_of k) [0] (Plain (block_hashes r))) 0
       ((num_tokens r - 1) div unitary_block_size (kcm_coord k)) j \<and>
    n = (if coord_eagle (kcm_coord k) \<and> 0 < j then j - 1 else j) \<and> py_len bs = n \<and>
    (\<forall>i < length bs. carries (pool_of k) (block_hashes r ! i) 0 (bs ! i))"
proof -
  let ?c = "kcm_coord k" and ?bs = "unitary_block_size (kcm_coord k)"
  let ?gs = "group_spec g"
  have bs: "0 < ?bs" using inv u by (simp add: kcm_inv_def unitary_full_def)
  have fbs: "full_block_size ?gs (coord_dcp ?c) (coord_pcp ?c) = ?bs" using u by (simp add: unitary_full_def)
  have ok: "lookup_ok (pool_of k) [0] (Plain (block_hashes r))"
    using kcm_inv_pool_inv [OF inv] by (auto simp: lookup_ok_def bhl_ok_def)
  have full: "is_full_attention ?gs" using u by (simp add: unitary_full_def)
  have len: "min ((num_tokens r - 1) div ?bs) (bhl_len (Plain (block_hashes r))) = (num_tokens r - 1) div ?bs"
    using h zdiv_mono1 [OF _ bs, of "num_tokens r - 1" "num_tokens r"] by (simp add: bhl_len_def)
  have "0 < full_block_size ?gs (coord_dcp ?c) (coord_pcp ?c)" "0 \<le> num_tokens r - 1" using bs fbs t by simp_all
  from find_full_spec [OF ok full this(1) bs this(2), of "coord_eagle ?c"] obtain css j n where
    f: "find_full (Plain (block_hashes r)) (num_tokens r - 1) [0] (pool_of k) ?gs (coord_eagle ?c) ?bs
        (coord_dcp ?c) (coord_pcp ?c) = Inr css"
      "longest_run (hit_at (pool_of k) [0] (Plain (block_hashes r))) 0 ((num_tokens r - 1) div ?bs) j"
      "best_aligned ?bs ?bs (if coord_eagle ?c \<and> 0 < j then j - 1 else j) n" "length css = 1"
      "py_len (css ! 0) = n"
      "\<forall>i. 0 \<le> i \<and> i < n \<longrightarrow> carries (pool_of k) (bhl_values (Plain (block_hashes r)) ! nat i) 0 (css ! 0 ! nat i)"
    unfolding fbs len by auto
  obtain bl where css: "css = [bl]" using f(4) by (cases css) auto
  have "carries (pool_of k) (block_hashes r ! i) 0 (bl ! i)" if "i < length bl" for i
    using f(5) f(6) [rule_format, of "int i"] that by (simp add: css py_len_def bhl_values_def)
  moreover have "unitary_find ?c (block_hashes r) (num_tokens r - 1) = Inr ([bl], n * ?bs)"
    using u f(1,5) by (simp add: unitary_find_def unitary_full_def groups_of_def pool_of_def py_get_def py_len_def
        find_longest_cache_hit_def css)
  ultimately show ?thesis using f(2,5) best_aligned_self [OF f(3)] by (auto simp: css)
qed

lemma get_computed_full:
  assumes inv: "kcm_inv k free" and u: "unitary_full k m g" and t: "0 < num_tokens r"
    and h: "py_len (block_hashes r) = num_tokens r div unitary_block_size (kcm_coord k)"
    and read: "\<not> skip_reading_prefix_cache r" and stats: "kcm_log_stats k \<longrightarrow> kcm_stats k \<noteq> None"
  shows "\<exists>hits n j k'. get_computed_blocks r k =
      Some (Inr ((hits, n * unitary_block_size (kcm_coord k)), k')) \<and>
    prefix_hit k r j n hits \<and> kcm_coord k' = kcm_coord k \<and> kcm_inv k' free \<and>
    hits = create_kv_cache_blocks k (group_blocks hits) \<and> num_kv_cache_groups k' = num_kv_cache_groups k"
proof -
  let ?bs = "unitary_block_size (kcm_coord k)"
  obtain bs n j where 1: "unitary_find (kcm_coord k) (block_hashes r) (num_tokens r - 1) = Inr ([bs], n * ?bs)"
    "longest_run (hit_at (pool_of k) [0] (Plain (block_hashes r))) 0 ((num_tokens r - 1) div ?bs) j"
    "n = (if coord_eagle (kcm_coord k) \<and> 0 < j then j - 1 else j)" "py_len bs = n"
    "\<forall>i < length bs. carries (pool_of k) (block_hashes r ! i) 0 (bs ! i)"
    using find_full_unitary [OF inv u t h] by blast
  have find: "coord_find_longest_cache_hit (kcm_coord k) (block_hashes r) (num_tokens r - 1) = Some (Inr ([bs], n * ?bs))"
    using u 1(1) by (simp add: coord_find_longest_cache_hit_def unitary_full_def)
  have gb: "group_blocks (create_kv_cache_blocks k [bs]) = [bs]"
    using inv u by (intro group_blocks_create) (simp add: kcm_inv_def unitary_full_def)
  have hit: "prefix_hit k r j n (create_kv_cache_blocks k [bs])" using 1(2-5) by (simp add: prefix_hit_def gb)
  obtain k' where k': "get_computed_blocks r k = Some (Inr ((create_kv_cache_blocks k [bs], n * ?bs), k'))"
    "kcm_coord k' = kcm_coord k" "kcm_inv k' free" "num_kv_cache_groups k' = num_kv_cache_groups k"
  proof (cases "kcm_log_stats k")
    case True
    then obtain s where s: "kcm_stats k = Some s" using stats by auto
    let ?k = "k\<lparr>kcm_stats := Some (record_stats (num_tokens r) (n * ?bs) (num_preemptions r > 0) s)\<rparr>"
    have "get_computed_blocks r k = Some (Inr ((create_kv_cache_blocks k [bs], n * ?bs), ?k))"
      using u read True s find by (simp add: get_computed_blocks_def unitary_full_def Let_def)
    then show thesis using that [of ?k] inv kcm_inv_stats by simp
  next
    case False
    have "get_computed_blocks r k = Some (Inr ((create_kv_cache_blocks k [bs], n * ?bs), k))"
      using u read False find by (simp add: get_computed_blocks_def unitary_full_def Let_def)
    then show thesis using that inv by simp
  qed
  with hit gb show ?thesis by (metis)
qed

text \<open>What the lookup returns for a new request is a schedulable hit.\<close>

lemma prefix_hit_schedulable:
  assumes inv: "kcm_inv k free" and u: "unitary_full k m g" and hit: "prefix_hit k r j n hits"
    and h: "py_len (block_hashes r) = num_tokens r div unitary_block_size (kcm_coord k)" and t: "0 < num_tokens r"
    and dist: "distinct (block_hashes r)"
    and new: "map_of (num_cached_block m) (request_id r) = None" "blocks_of m (request_id r) = []"
    and shared: "is_shared_empty hits \<Longrightarrow> hits = EmptyKVCacheBlocks (num_kv_cache_groups k)"
    and coord: "kcm_coord k' = kcm_coord k" "num_kv_cache_groups k' = num_kv_cache_groups k"
  shows "schedulable k' (request_id r) l (Some hits)"
proof -
  have k': "groups_of k' = [m]" "pool_of k' = pool_of k"
    using u coord by (simp_all add: groups_of_def pool_of_def unitary_full_def)
  have cls: "mgr_class m = FullAttentionManager" using u by (simp add: unitary_full_def)
  have z: "skipped_blocks m l = 0" by (simp add: skipped_blocks_def get_num_skipped_tokens_def cls)
  obtain bs where bs: "group_blocks hits = [bs]" "py_len bs = n"
    "\<forall>i < length bs. carries (pool_of k) (block_hashes r ! i) 0 (bs ! i)" using hit by (auto simp: prefix_hit_def)
  show ?thesis
  proof (cases "is_shared_empty hits")
    case True
    have "num_kv_cache_groups k = 1" using inv u by (simp add: kcm_inv_def unitary_full_def)
    with True shared z show ?thesis
      by (simp add: schedulable_def no_hits_def k' continues_def hit_lists_def py_len_def)
  next
    case False
    have "j \<le> (num_tokens r - 1) div unitary_block_size (kcm_coord k) \<or> j = 0" and nj: "n \<le> j" "0 \<le> j"
      using hit by (auto simp: prefix_hit_def longest_run_def)
    moreover have "0 < unitary_block_size (kcm_coord k)" using inv u by (simp add: kcm_inv_def unitary_full_def)
    then have "(num_tokens r - 1) div unitary_block_size (kcm_coord k) \<le> py_len (block_hashes r)"
      unfolding h by (intro zdiv_mono1) simp_all
    moreover have "0 \<le> py_len (block_hashes r)" by (simp add: py_len_def)
    ultimately have len: "length bs \<le> length (block_hashes r)" using bs(2) by (auto simp: py_len_def)
    have "sound_list (pool_of k) (Plain (block_hashes r)) 0 bs"
      using bs(3) by (simp add: sound_list_def bhl_values_def)
    from sound_hits_ok [OF this] len dist have ok: "hit_blocks_ok (pool_of k) bs" by (simp add: bhl_values_def)
    have "plain m" "mgr_caching m" using inv u by (simp_all add: kcm_inv_def unitary_full_def group_ok_def)
    then have "takes_hits (pool_of k) (request_id r) l m bs"
      using new ok z by (simp add: takes_hits_def kept_blocks_def)
    with False show ?thesis by (simp add: schedulable_def no_hits_def hit_lists_def k' bs(1))
  qed
qed

section \<open>The state machine\<close>

text \<open>
  One call of the scheduler.  The guards are the scheduler's part of the contract: the tokens fit
  in the context, the block hashes of the request are complete, its hits come from a lookup, and
  evicted ids are ids of blocks other than the null block.
\<close>

inductive kv_step :: "kv_cache_manager \<Rightarrow> kv_cache_manager \<Rightarrow> bool" where
  lookup: "get_computed_blocks r k = Some (Inr (hits, k')) \<Longrightarrow> kv_step k k'"
| slots: "allocate_slots r new n_hit hits look 0 delay enc k = Inr (res, k') \<Longrightarrow> 0 < new \<Longrightarrow>
    0 \<le> num_computed_tokens r + n_hit \<Longrightarrow> num_computed_tokens r + n_hit + new \<le> kcm_max_model_len k \<Longrightarrow>
    0 \<le> look \<Longrightarrow> schedulable k (request_id r) (num_computed_tokens r + n_hit) hits \<Longrightarrow>
    (kcm_caching k \<longrightarrow> py_len (block_hashes r) = num_tokens r div hash_block_size (pool_of k)) \<Longrightarrow>
    kv_step k k'"
| cache: "kcm_cache_blocks r n k = Inr k' \<Longrightarrow> 0 \<le> n \<Longrightarrow> n \<le> num_tokens r \<Longrightarrow>
    (kcm_caching k \<longrightarrow> py_len (block_hashes r) = num_tokens r div hash_block_size (pool_of k)) \<Longrightarrow>
    (\<forall>m \<in> set (groups_of k). covers (request_id r) n m) \<Longrightarrow> kv_step k k'"
| skip: "kcm_remove_skipped_blocks rid n k = Inr k' \<Longrightarrow> kv_step k k'"
| free: "free_request r k = Inr k' \<Longrightarrow> kv_step k k'"
| evict: "kcm_evict_blocks is k = Inr k' \<Longrightarrow> (\<forall>i \<in> set is. 0 < i \<and> i < num_gpu_blocks (pool_of k)) \<Longrightarrow>
    kv_step k k'"
| reset: "kcm_reset_prefix_cache k = Inr (done, k') \<Longrightarrow> (kcm_log_stats k \<longrightarrow> kcm_stats k \<noteq> None) \<Longrightarrow> kv_step k k'"
| events: "kcm_take_events k = (es, k') \<Longrightarrow> kv_step k k'"
| stats: "make_prefix_cache_stats k = (s, k') \<Longrightarrow> kv_step k k'"

inductive kv_reachable :: "kv_cache_manager \<Rightarrow> bool" where
  init: "KVCacheManager cfg max_len hbs caching eagle log_stats events ints dcp pcp metrics = Inr k \<Longrightarrow>
    plain_config cfg hbs dcp pcp \<Longrightarrow> kv_reachable k"
| step: "kv_reachable k \<Longrightarrow> kv_step k k' \<Longrightarrow> kv_reachable k'"

lemma lookup_coord:
  assumes "get_computed_blocks r k = Some (Inr (hits, k'))"
  shows "\<exists>s. k' = k\<lparr>kcm_stats := s\<rparr>"
proof -
  have "k' = k \<or> (\<exists>s. k' = k\<lparr>kcm_stats := s\<rparr>)"
    using assms by (auto simp: get_computed_blocks_def Let_def res_simps split: if_splits option.splits)
  moreover have "k = k\<lparr>kcm_stats := kcm_stats k\<rparr>" by (cases k) simp
  ultimately show ?thesis by metis
qed

lemma kcm_skip_inv:
  assumes inv: "kcm_inv k free"
  shows "\<exists>k' free'. kcm_remove_skipped_blocks rid n k = Inr k' \<and> kcm_inv k' free'"
proof -
  have "\<forall>m \<in> set (managers (kcm_coord k)). plain m" "coord_inv (managers (kcm_coord k)) (coord_pool (kcm_coord k)) free"
    using inv by (simp_all add: kcm_inv_def group_ok_def groups_of_def pool_of_def)
  from coord_remove_skipped_inv [OF this(2,1), of rid n] obtain ms p free' where
    1: "coord_remove_skipped_blocks rid n (kcm_coord k) = Inr ((kcm_coord k)\<lparr>managers := ms, coord_pool := p\<rparr>)"
      "coord_inv ms p free'" "pool_conf p = pool_conf (pool_of k)" "length ms = length (groups_of k)"
      "\<forall>j < length (groups_of k). others_same rid (groups_of k ! j) (ms ! j)"
    unfolding groups_of_def pool_of_def trimmed_def by blast
  with kcm_inv_set [OF inv 1(2-5)] show ?thesis by (auto simp: kcm_remove_skipped_blocks_def)
qed

lemma take_events_kcm_inv:
  assumes "kcm_inv k free" and "kcm_take_events k = (es, k')"
  shows "kcm_inv k' free"
proof -
  let ?p = "snd (take_events (pool_of k))"
  have p: "?p = pool_of k \<or> ?p = (pool_of k)\<lparr>kv_event_queue := []\<rparr>" by (simp add: take_events_def)
  have "usable ((pool_of k)\<lparr>kv_event_queue := []\<rparr>) = usable (pool_of k)"
    by (rule usable_conf) (simp add: pool_conf_def)
  then have "pool_inv ((pool_of k)\<lparr>kv_event_queue := []\<rparr>) free {} = pool_inv (pool_of k) free {}"
    by (simp add: pool_inv_def refs_def hash_of_def pool_heap_def)
  with p have "pool_inv ?p free {}" "pool_conf ?p = pool_conf (pool_of k)" "refs ?p = refs (pool_of k)"
    "hash_of ?p = hash_of (pool_of k)"
    using kcm_inv_pool_inv [OF assms(1)] by (auto simp: refs_def hash_of_def pool_heap_def pool_conf_def)
  from kcm_inv_pool [OF assms(1) this(1-3)] this(4) assms(2) show ?thesis
    by (auto simp: kcm_take_events_def pool_of_def split: prod.splits)
qed

lemma kv_step_inv:
  assumes "kv_step k k'" and "\<exists>free. kcm_inv k free"
  shows "\<exists>free. kcm_inv k' free"
  using assms
proof (induction rule: kv_step.induct)
  case (lookup r k hits k')
  with lookup_coord [OF lookup(1)] kcm_inv_stats show ?case by auto
next
  case (slots r new n_hit hits look delay enc k res k')
  then obtain free where inv: "kcm_inv k free" by blast
  from allocate_slots_inv [OF inv slots(2) refl slots(3,4,5,6) _ refl, of delay enc] slots(1,7)
  show ?case by auto
next
  case (cache r n k k')
  then obtain free where inv: "kcm_inv k free" by blast
  show ?case
  proof (cases "kcm_caching k")
    case True
    from cache_stage [OF inv True cache(2,3) _ cache(5)] cache(1,4) True
    show ?thesis by (auto simp: kcm_cache_blocks_def)
  next
    case False
    with cache(1) inv show ?thesis by (auto simp: kcm_cache_blocks_def)
  qed
next
  case (skip rid n k k')
  then show ?case using kcm_skip_inv [of k _ rid n] by auto
next
  case (free r k k')
  then show ?case using free_kcm_inv [of k _ r] by auto
next
  case (evict "is" k k')
  then show ?case using evict_kcm_inv [of k _ "is"] by auto
next
  case (reset k d k')
  then show ?case using reset_kcm_inv [of k] by auto
next
  case (events k es k')
  then show ?case using take_events_kcm_inv by blast
next
  case (stats k s k')
  then show ?case by (auto simp: make_prefix_cache_stats_def kcm_inv_stats split: if_splits)
qed

lemma kv_reachable_inv: "kv_reachable k \<Longrightarrow> \<exists>free. kcm_inv k free"
  by (induction rule: kv_reachable.induct) (use manager_init(1) kv_step_inv in blast)+

section \<open>What the invariant means\<close>

lemma held_pos:
  assumes "coord_inv ms p free"
  shows "1 \<le> held ms b \<longleftrightarrow> (\<exists>m \<in> set ms. \<exists>rid. b \<in> set (blocks_of m rid))"
proof
  assume "\<exists>m \<in> set ms. \<exists>rid. b \<in> set (blocks_of m rid)"
  then obtain m rid where "m \<in> set ms" "b \<in> set (blocks_of m rid)" by blast
  with occ_row_pos held_ge [of m ms b] show "1 \<le> held ms b" by fastforce
next
  assume pos: "1 \<le> held ms b"
  have "\<exists>m \<in> set ms. 1 \<le> total (req_to_blocks m) b"
  proof (rule ccontr)
    assume "\<not> (\<exists>m \<in> set ms. 1 \<le> total (req_to_blocks m) b)"
    have "total (req_to_blocks m) b = 0" if "m \<in> set ms" for m
    proof -
      have "\<not> 1 \<le> total (req_to_blocks m) b"
        using that \<open>\<not> (\<exists>m \<in> set ms. 1 \<le> total (req_to_blocks m) b)\<close> by blast
      with total_simps(3) [of "req_to_blocks m" b] show ?thesis by linarith
    qed
    then have "held ms b = 0" by (induction ms) simp_all
    with pos show False by simp
  qed
  then obtain m where m: "m \<in> set ms" "1 \<le> total (req_to_blocks m) b" by blast
  have "distinct (map fst (req_to_blocks m))" using assms m(1) by (auto simp: coord_inv_def rows_ok_def)
  from total_pos_row [OF m(2) this] obtain rid where "1 \<le> occ (row (req_to_blocks m) rid) b" by blast
  then show "\<exists>m \<in> set ms. \<exists>rid. b \<in> set (blocks_of m rid)"
    using m(1) by (auto simp: occ_pos blocks_of_row)
qed

definition table_blocks :: "kv_cache_manager \<Rightarrow> bref set" where
  "table_blocks k = {b. b \<noteq> null_block (pool_of k) \<and> (\<exists>m \<in> set (groups_of k). \<exists>rid. b \<in> set (blocks_of m rid))}"

lemma blocks_conserved:
  assumes inv: "kcm_inv k free"
  shows "set free \<inter> table_blocks k = {}" and "set free \<union> table_blocks k = usable (pool_of k)"
    and "py_len free + int (card (table_blocks k)) = num_gpu_blocks (pool_of k) - 1"
proof -
  let ?p = "pool_of k" and ?ms = "groups_of k"
  have c: "coord_inv ?ms ?p free" by (rule kcm_inv_coord [OF inv])
  have rows: "b \<in> usable ?p \<or> b = null_block ?p" if "m \<in> set ?ms" "b \<in> set (blocks_of m rid)" for m rid b
    using c that by (auto simp: coord_inv_def rows_ok_def)
  have t: "table_blocks k = {b \<in> usable ?p. 1 \<le> held ?ms b}"
    unfolding held_pos [OF c] table_blocks_def using rows usable_not_null by blast
  have f: "set free = {b \<in> usable ?p. held ?ms b = 0}" and d: "distinct free"
    using c by (auto simp: coord_inv_def pool_inv_def queue_inv_def)
  have h0: "\<And>b. 0 \<le> held ?ms b" by simp
  show disj: "set free \<inter> table_blocks k = {}" by (auto simp: f t)
  show un: "set free \<union> table_blocks k = usable ?p"
    unfolding f t using h0 by (force simp: order.order_iff_strict)
  have n: "0 < num_gpu_blocks ?p" "null_block ?p = Blk 0" using c by (simp_all add: coord_inv_def pool_inv_def)
  have "usable ?p = set (map Blk [1..<nat (num_gpu_blocks ?p)])" by (rule usable_range [OF n(1) refl n(2)])
  moreover have "distinct (map Blk [1..<nat (num_gpu_blocks ?p)])" by (simp add: distinct_map inj_on_def)
  ultimately have cu: "card (usable ?p) = nat (num_gpu_blocks ?p) - 1" "finite (usable ?p)"
    by (metis distinct_card length_map length_upt, simp)
  have "card (set free) + card (table_blocks k) = card (usable ?p)"
    unfolding un [symmetric] using disj cu(2) un by (metis card_Un_disjoint finite_Un)
  then show "py_len free + int (card (table_blocks k)) = num_gpu_blocks ?p - 1"
    using d n(1) cu(1) by (simp add: distinct_card py_len_def)
qed

text \<open>A block in two tables is in the cached part of both.\<close>

lemma two_managers_held:
  assumes "a < length ms" and "a' < length ms" and "a \<noteq> a'"
  shows "total (req_to_blocks (ms ! a)) b + total (req_to_blocks (ms ! a')) b \<le> held ms b"
proof -
  let ?A = "take a ms" and ?B = "drop (Suc a) ms"
  have ms: "ms = ?A @ ms ! a # ?B" using assms(1) by (rule id_take_nth_drop)
  have "ms ! a' \<in> set (?A @ ?B)"
  proof (cases "a' < a")
    case True
    then have "?A ! a' = ms ! a'" "a' < length ?A" using assms(1) by simp_all
    then show ?thesis by (metis Un_iff nth_mem set_append)
  next
    case False
    then have "?B ! (a' - Suc a) = ms ! a'" "a' - Suc a < length ?B" using assms by simp_all
    then show ?thesis by (metis Un_iff nth_mem set_append)
  qed
  from held_ge [OF this, of b] have "total (req_to_blocks (ms ! a')) b \<le> held ?A b + held ?B b" by simp
  moreover have "held ms b = held ?A b + (total (req_to_blocks (ms ! a)) b + held ?B b)"
    by (subst ms) simp
  ultimately show ?thesis by linarith
qed

lemma shared_cached:
  assumes inv: "kcm_inv k free" and a: "a < length (groups_of k)" "a' < length (groups_of k)"
    and i: "i < length (blocks_of (groups_of k ! a) rid)" "blocks_of (groups_of k ! a) rid ! i = b"
    and b: "b \<in> set (blocks_of (groups_of k ! a') rid')" "b \<noteq> null_block (pool_of k)" and ne: "(a, rid) \<noteq> (a', rid')"
  shows "int i < n_cached (groups_of k ! a) rid"
proof (rule ccontr)
  assume ni: "\<not> int i < n_cached (groups_of k ! a) rid"
  let ?m = "groups_of k ! a" and ?m' = "groups_of k ! a'"
  have c: "coord_inv (groups_of k) (pool_of k) free" by (rule kcm_inv_coord [OF inv])
  have m: "rows_ok ?m (pool_of k)" "fresh_tails ?m (pool_of k)" using c a(1) by (auto simp: coord_inv_def)
  have "b = uncached ?m rid ! (i - nat (n_cached ?m rid))" "i - nat (n_cached ?m rid) < length (uncached ?m rid)"
    using i ni by (auto simp: uncached_def)
  then have "b \<in> set (real_blocks (pool_of k) (uncached ?m rid))" using b(2) by (auto simp: in_real_blocks)
  then have "refs (pool_of k) b = 1" using m(2) by (auto simp: fresh_tails_def)
  have bi: "b \<in> set (blocks_of ?m rid)" using i by auto
  then have "b \<in> usable (pool_of k)" using m(1) b(2) by (auto simp: rows_ok_def)
  with \<open>refs (pool_of k) b = 1\<close> c have one: "held (groups_of k) b = 1" by (simp add: coord_inv_def)
  show False
  proof (cases "a = a'")
    case True
    then have "rid \<noteq> rid'" using ne by simp
    from two_rows_le_total [OF this, of "req_to_blocks ?m" b] held_ge [of ?m "groups_of k" b] a(1)
    have "occ (blocks_of ?m rid) b + occ (blocks_of ?m rid') b \<le> 1" by (simp add: one blocks_of_row)
    moreover have "1 \<le> occ (blocks_of ?m rid) b" "1 \<le> occ (blocks_of ?m rid') b"
      using bi b(1) True by (simp_all add: occ_pos)
    ultimately show False by linarith
  next
    case False
    from two_managers_held [OF a False, of b] occ_row_pos [OF bi] occ_row_pos [OF b(1)]
    show False by (simp add: one)
  qed
qed

end
