(* ===== verification/Hash_Facts.thy ===== *)
theory Hash_Facts
  imports Request_Hash
begin

text \<open>
  The chain of block hashes of a request: the hasher returns, computing hashes as tokens arrive
  gives the same chain as computing them at once, and without hash collisions an equal hash means
  an equal prefix of tokens and of extra keys.
\<close>

section \<open>The chain\<close>

definition block_tokens :: "int \<Rightarrow> request \<Rightarrow> nat \<Rightarrow> int list" where
  "block_tokens bs r i = py_slice (all_token_ids r) (int i * bs) (int i * bs + bs)"

text \<open>The extra keys of a block of a request without multi-modal inputs.\<close>

definition text_keys :: "int \<Rightarrow> request \<Rightarrow> nat \<Rightarrow> extra_key list option" where
  "text_keys bs r i =
     (let ks = gen_lora_extra_hash_keys r @ cache_salt_keys r (int i * bs) @
            gen_prompt_embeds_extra_hash_keys r (int i * bs) (int i * bs + bs)
      in if ks = [] then None else Some ks)"

primrec chain_hash :: "hash_function \<Rightarrow> bytes \<Rightarrow> int \<Rightarrow> request \<Rightarrow> nat \<Rightarrow> block_hash" where
  "chain_hash H nh bs r 0 = hash_block_tokens H nh None (block_tokens bs r 0) (text_keys bs r 0)"
| "chain_hash H nh bs r (Suc i) =
     hash_block_tokens H nh (Some (chain_hash H nh bs r i)) (block_tokens bs r (Suc i)) (text_keys bs r (Suc i))"

definition full_blocks :: "int \<Rightarrow> request \<Rightarrow> nat" where
  "full_blocks bs r = nat (num_tokens r div bs)"

definition hashes_ok :: "hash_function \<Rightarrow> bytes \<Rightarrow> int \<Rightarrow> request \<Rightarrow> nat \<Rightarrow> bool" where
  "hashes_ok H nh bs r k \<longleftrightarrow> block_hashes r = map (chain_hash H nh bs r) [0..<k]"

lemma generate_text:
  assumes "mm_features r = []"
  shows "generate_block_hash_extra_keys r (int i * bs) (int i * bs + bs) mi = Inr (text_keys bs r i, mi)"
  using assms by (simp add: generate_block_hash_extra_keys_def gen_mm_extra_hash_keys_def text_keys_def Let_def)

lemma full_iff:
  assumes "0 < bs"
  shows "int i * bs + bs > num_tokens r \<longleftrightarrow> full_blocks bs r \<le> i"
proof -
  have "num_tokens r < (int i + 1) * bs \<longleftrightarrow> num_tokens r div bs < int i + 1"
    by (rule div_pos_less_iff [OF assms, symmetric])
  moreover have "(int i + 1) * bs = int i * bs + bs" by (simp add: distrib_right)
  moreover have "full_blocks bs r \<le> i \<longleftrightarrow> num_tokens r div bs < int i + 1"
    by (auto simp: full_blocks_def nat_le_iff)
  ultimately show ?thesis by simp
qed

lemma full_blocks_le: "0 < bs \<Longrightarrow> full_blocks bs r \<le> length (all_token_ids r)"
proof -
  assume bs: "0 < bs"
  have "0 \<le> num_tokens r" by (simp add: num_tokens_def py_len_def)
  then have "num_tokens r div bs \<le> num_tokens r"
    using bs by (metis div_by_1 zdiv_mono2 zero_less_one int_one_le_iff_zero_less)
  then show ?thesis by (simp add: full_blocks_def num_tokens_def py_len_def nat_le_iff)
qed

lemma hash_loop_chain:
  assumes "0 < bs" and "mm_features r = []" and "full_blocks bs r < i + fuel" and "i \<le> full_blocks bs r"
  shows "hash_loop fuel H nh bs r (int i * bs) mi
      (if i = 0 then None else Some (chain_hash H nh bs r (i - 1))) acc =
    Some (Inr (acc @ map (chain_hash H nh bs r) [i..<full_blocks bs r]))"
  using assms(3,4)
proof (induction fuel arbitrary: i acc)
  case 0
  then show ?case by simp
next
  case (Suc fuel)
  show ?case
  proof (cases "full_blocks bs r \<le> i")
    case True
    then have "num_tokens r < int i * bs + bs" using full_iff [OF assms(1), of r i] by simp
    with True show ?thesis by (simp add: Let_def)
  next
    case False
    then have nf: "\<not> num_tokens r < int i * bs + bs" using full_iff [OF assms(1), of r i] by simp
    let ?prev = "if i = 0 then None else Some (chain_hash H nh bs r (i - 1))"
    have h: "hash_block_tokens H nh ?prev (py_slice (all_token_ids r) (int i * bs) (int i * bs + bs))
        (text_keys bs r i) = chain_hash H nh bs r i"
      by (cases i) (simp_all add: block_tokens_def)
    have "hash_loop (Suc fuel) H nh bs r (int i * bs) mi ?prev acc =
        hash_loop fuel H nh bs r (int i * bs + bs) mi (Some (chain_hash H nh bs r i))
          (acc @ [chain_hash H nh bs r i])"
      using nf by (simp only: hash_loop.simps Let_def generate_text [OF assms(2)] h sum.case prod.case if_False)
    also have "\<dots> = Some (Inr ((acc @ [chain_hash H nh bs r i]) @ map (chain_hash H nh bs r) [Suc i..<full_blocks bs r]))"
      using Suc.IH [of "Suc i" "acc @ [chain_hash H nh bs r i]"] Suc.prems False
      by (simp add: algebra_simps)
    also have "[i..<full_blocks bs r] = i # [Suc i..<full_blocks bs r]" using False by (simp add: upt_conv_Cons)
    ultimately show ?thesis by simp
  qed
qed

text \<open>The hasher returns the missing part of the chain.\<close>

lemma request_block_hasher_chain:
  assumes bs: "0 < bs" and mm: "mm_features r = []" and k: "hashes_ok H nh bs r k" "k \<le> full_blocks bs r"
  shows "request_block_hasher H nh bs r = Some (Inr (map (chain_hash H nh bs r) [k..<full_blocks bs r]))"
proof -
  have len: "py_len (block_hashes r) = int k" using k(1) by (simp add: hashes_ok_def py_len_def)
  have prev: "(if block_hashes r = [] then None else Some (last (block_hashes r))) =
      (if k = 0 then None else Some (chain_hash H nh bs r (k - 1)))"
    using k(1) by (cases k) (simp_all add: hashes_ok_def)
  show ?thesis
  proof (cases "full_blocks bs r \<le> k")
    case True
    then show ?thesis
      using full_iff [OF bs, of r k] by (simp add: request_block_hasher_def len Let_def)
  next
    case False
    then have nf: "\<not> num_tokens r < int k * bs + bs" using full_iff [OF bs, of r k] by simp
    have fuel: "full_blocks bs r < k + Suc (length (all_token_ids r))"
      using full_blocks_le [OF bs, of r] by simp
    from hash_loop_chain [OF bs mm fuel k(2), of H nh "if int k * bs > 0 then - 1 else 0" "[]"] nf
    show ?thesis unfolding request_block_hasher_def Let_def len prev by simp
  qed
qed

lemma chain_hash_cong:
  assumes "\<And>j. j \<le> i \<Longrightarrow> block_tokens bs r j = block_tokens bs r' j"
    and "\<And>j. j \<le> i \<Longrightarrow> text_keys bs r j = text_keys bs r' j"
  shows "chain_hash H nh bs r i = chain_hash H nh bs r' i"
  using assms by (induction i) simp_all

lemma block_tokens_prefix:
  assumes "0 \<le> bs" and "int i * bs + bs \<le> num_tokens r"
    and "all_token_ids r' = all_token_ids r @ ts"
  shows "block_tokens bs r' i = block_tokens bs r i"
proof -
  have "nat (int i * bs + bs) \<le> length (all_token_ids r)"
    using assms(2) by (simp add: num_tokens_def py_len_def)
  moreover have "nat (int i * bs) \<le> nat (int i * bs + bs)" using assms(1) by simp
  ultimately show ?thesis
    using assms(1) by (simp add: block_tokens_def py_slice_nat assms(3))
qed

text \<open>Appending tokens keeps the chain of the request complete.\<close>

lemma append_output_chain:
  assumes bs: "0 < bs" and mm: "mm_features r = []" and emb: "prompt_embeds r = None"
    and ok: "hashes_ok H nh bs r (full_blocks bs r)"
  shows "\<exists>r'. append_output_token_ids (Some (request_block_hasher H nh bs)) ts r = Some (Inr r') \<and>
    all_token_ids r' = all_token_ids r @ ts \<and> mm_features r' = [] \<and> prompt_embeds r' = None \<and>
    hashes_ok H nh bs r' (full_blocks bs r')"
proof -
  let ?r1 = "r\<lparr>output_token_ids := output_token_ids r @ ts, all_token_ids := all_token_ids r @ ts\<rparr>"
  let ?k = "full_blocks bs r" and ?n = "full_blocks bs ?r1"
  have nt: "num_tokens r \<le> num_tokens ?r1" by (simp add: num_tokens_def py_len_def)
  then have kn: "?k \<le> ?n" using bs by (simp add: full_blocks_def zdiv_mono1 nat_mono)
  have keys: "text_keys bs ?r1 = text_keys bs r"
    by (simp add: fun_eq_iff text_keys_def Let_def gen_lora_extra_hash_keys_def cache_salt_keys_def
        gen_prompt_embeds_extra_hash_keys_def emb)
  have same: "chain_hash H nh bs ?r1 i = chain_hash H nh bs r i" if "i < ?k" for i
  proof (rule chain_hash_cong)
    fix j assume "j \<le> i"
    then have "\<not> num_tokens r < int j * bs + bs" using that full_iff [OF bs, of r j] by simp
    then show "block_tokens bs ?r1 j = block_tokens bs r j"
      using bs by (intro block_tokens_prefix) auto
  qed (simp add: keys)
  have k1: "hashes_ok H nh bs ?r1 ?k" using ok same by (simp add: hashes_ok_def)
  let ?new = "map (chain_hash H nh bs ?r1) [?k..<?n]"
  let ?r2 = "?r1\<lparr>block_hashes := block_hashes ?r1 @ ?new\<rparr>"
  have run: "request_block_hasher H nh bs ?r1 = Some (Inr ?new)"
    by (rule request_block_hasher_chain [OF bs _ k1 kn]) (simp add: mm)
  have "chain_hash H nh bs ?r2 i = chain_hash H nh bs ?r1 i" for i
    by (rule chain_hash_cong)
      (simp_all add: block_tokens_def text_keys_def Let_def gen_lora_extra_hash_keys_def cache_salt_keys_def
        gen_prompt_embeds_extra_hash_keys_def)
  moreover have "full_blocks bs ?r2 = ?n" by (simp add: full_blocks_def num_tokens_def)
  moreover have "[0..<?n] = [0..<?k] @ [?k..<?n]" using kn by (metis le0 le_add_diff_inverse upt_add_eq_append)
  ultimately have "hashes_ok H nh bs ?r2 (full_blocks bs ?r2)"
    using k1 by (simp add: hashes_ok_def)
  then show ?thesis
    using mm emb by (intro exI [of _ ?r2]) (simp add: append_output_token_ids_def update_block_hashes_def run)
qed

section \<open>Equal hashes mean equal prefixes\<close>

text \<open>The inputs of the hash function on the chain of a request.\<close>

definition hash_input :: "hash_function \<Rightarrow> bytes \<Rightarrow> int \<Rightarrow> request \<Rightarrow> nat \<Rightarrow> bytes \<times> int list \<times> extra_key list option" where
  "hash_input H nh bs r i =
     ((case i of 0 \<Rightarrow> nh | Suc j \<Rightarrow> chain_hash H nh bs r j), block_tokens bs r i, text_keys bs r i)"

definition hash_inputs :: "hash_function \<Rightarrow> bytes \<Rightarrow> int \<Rightarrow> request \<Rightarrow> (bytes \<times> int list \<times> extra_key list option) set" where
  "hash_inputs H nh bs r = hash_input H nh bs r ` {..<full_blocks bs r}"

text \<open>
  Collision freedom on the inputs of the requests at hand: no two different inputs have the same
  hash, no hash is \<open>NONE_HASH\<close>, and no hash is empty.
\<close>

definition collision_free ::
    "hash_function \<Rightarrow> bytes \<Rightarrow> (bytes \<times> int list \<times> extra_key list option) set \<Rightarrow> bool" where
  "collision_free H nh X \<longleftrightarrow> inj_on H X \<and> nh \<notin> H ` X \<and> [] \<notin> H ` X"

lemma chain_hash_input:
  assumes "\<And>j. j < i \<Longrightarrow> chain_hash H nh bs r j \<noteq> []"
  shows "chain_hash H nh bs r i = H (hash_input H nh bs r i)"
  using assms by (cases i) (simp_all add: hash_input_def hash_block_tokens_def Let_def)

lemma chain_hash_in:
  assumes cf: "collision_free H nh X" and "hash_inputs H nh bs r \<subseteq> X" and "i < full_blocks bs r"
  shows "chain_hash H nh bs r i = H (hash_input H nh bs r i) \<and> hash_input H nh bs r i \<in> X"
  using assms(3)
proof (induction i rule: less_induct)
  case (less i)
  have in_X: "hash_input H nh bs r i \<in> X" using assms(2) less.prems by (auto simp: hash_inputs_def)
  have "chain_hash H nh bs r j \<noteq> []" if "j < i" for j
  proof -
    have "chain_hash H nh bs r j = H (hash_input H nh bs r j)" "hash_input H nh bs r j \<in> X"
      using less.IH [OF that] less.prems that by simp_all
    with cf show ?thesis by (auto simp: collision_free_def image_iff)
  qed
  then show ?case using in_X chain_hash_input by blast
qed

lemma chain_hash_inj:
  assumes cf: "collision_free H nh X" and X: "hash_inputs H nh bs r \<subseteq> X" "hash_inputs H nh bs r' \<subseteq> X"
  shows "i < full_blocks bs r \<Longrightarrow> i' < full_blocks bs r' \<Longrightarrow>
    chain_hash H nh bs r i = chain_hash H nh bs r' i' \<Longrightarrow>
    i = i' \<and> (\<forall>j \<le> i. block_tokens bs r j = block_tokens bs r' j \<and> text_keys bs r j = text_keys bs r' j)"
proof (induction i arbitrary: i')
  case 0
  note a = chain_hash_in [OF cf X(1) 0(1)] and b = chain_hash_in [OF cf X(2) 0(2)]
  have eq: "hash_input H nh bs r 0 = hash_input H nh bs r' i'"
    using a b 0(3) cf by (auto simp: collision_free_def dest: inj_onD)
  have "i' = 0"
  proof (cases i')
    case (Suc j)
    then have "nh = chain_hash H nh bs r' j" using eq by (simp add: hash_input_def)
    moreover have "chain_hash H nh bs r' j = H (hash_input H nh bs r' j)" "hash_input H nh bs r' j \<in> X"
      using chain_hash_in [OF cf X(2), of j] 0(2) Suc by simp_all
    ultimately show ?thesis using cf by (auto simp: collision_free_def image_iff)
  qed
  with eq show ?case by (simp add: hash_input_def)
next
  case (Suc i)
  note a = chain_hash_in [OF cf X(1) Suc.prems(1)] and b = chain_hash_in [OF cf X(2) Suc.prems(2)]
  have eq: "hash_input H nh bs r (Suc i) = hash_input H nh bs r' i'"
    using a b Suc.prems(3) cf by (auto simp: collision_free_def dest: inj_onD)
  show ?case
  proof (cases i')
    case 0
    then have "nh = chain_hash H nh bs r i" using eq by (simp add: hash_input_def)
    moreover have "chain_hash H nh bs r i = H (hash_input H nh bs r i)" "hash_input H nh bs r i \<in> X"
      using chain_hash_in [OF cf X(1), of i] Suc.prems(1) by simp_all
    ultimately show ?thesis using cf by (auto simp: collision_free_def image_iff)
  next
    case (Suc j)
    then have "chain_hash H nh bs r i = chain_hash H nh bs r' j"
      "block_tokens bs r (Suc i) = block_tokens bs r' (Suc j)" "text_keys bs r (Suc i) = text_keys bs r' (Suc j)"
      using eq by (simp_all add: hash_input_def)
    with Suc.IH [of j] Suc.prems Suc show ?thesis by (auto simp: le_Suc_eq)
  qed
qed

lemma blocks_prefix:
  assumes "0 < bs" and "\<forall>j \<le> i. block_tokens bs r j = block_tokens bs r' j"
  shows "take (Suc i * nat bs) (all_token_ids r) = take (Suc i * nat bs) (all_token_ids r')"
  using assms(2)
proof (induction i)
  case 0
  then show ?case using assms(1) by (simp add: block_tokens_def py_slice_nat)
next
  case (Suc i)
  have bt: "block_tokens bs r (Suc i) = take (nat bs) (drop (Suc i * nat bs) (all_token_ids r))" for r
  proof -
    have "nat (int (Suc i) * bs) = Suc i * nat bs" "nat (int (Suc i) * bs + bs) = Suc i * nat bs + nat bs"
      using assms(1) by (simp_all add: nat_mult_distrib nat_add_distrib)
    then show ?thesis using assms(1) by (simp add: block_tokens_def py_slice_nat)
  qed
  have "take (Suc (Suc i) * nat bs) xs = take (Suc i * nat bs) xs @ take (nat bs) (drop (Suc i * nat bs) xs)"
    for xs :: "int list"
    by (metis add.commute mult_Suc take_add)
  with Suc bt show ?case by (metis le_Suc_eq)
qed

section \<open>Properties\<close>

lemma hasher_from_scratch:
  assumes "0 < bs" and "mm_features r = []"
  shows "request_block_hasher H nh bs (r\<lparr>block_hashes := []\<rparr>) =
    Some (Inr (map (chain_hash H nh bs r) [0..<full_blocks bs r]))"
proof -
  let ?r = "r\<lparr>block_hashes := []\<rparr>"
  have same: "chain_hash H nh bs ?r = chain_hash H nh bs r"
  proof
    fix i show "chain_hash H nh bs ?r i = chain_hash H nh bs r i"
      by (rule chain_hash_cong)
        (simp_all add: block_tokens_def text_keys_def Let_def gen_lora_extra_hash_keys_def
          cache_salt_keys_def gen_prompt_embeds_extra_hash_keys_def)
  qed
  have full: "full_blocks bs ?r = full_blocks bs r" by (simp add: full_blocks_def num_tokens_def)
  from request_block_hasher_chain [OF assms(1), of ?r H nh 0] assms(2) show ?thesis
    by (simp add: hashes_ok_def same full)
qed

definition demo_request :: "int list \<Rightarrow> request" where
  "demo_request ts = \<lparr>request_id = ''r'', priority = 0, arrival_time = 0, sampling_params_of = None,
     is_pooling = False, pooling_skip_reading = None, eos_token_id = None, req_max_tokens = 16,
     req_status = WAITING, stop_reason = None, num_prompt_tokens = py_len ts, output_token_ids = [],
     all_token_ids = ts, spec_token_ids = [], num_computed_tokens = 0, cache_salt = None,
     lora_request_of = None, mm_features = [], prompt_embeds = None, block_hashes = [],
     skip_reading_prefix_cache = False, num_preemptions = 0, num_output_placeholders = 0,
     discard_latest_async_tokens = False, is_prefill_chunk = False, num_cached_tokens = -1,
     use_structured_output = False, resumable = False, streaming_queue = None\<rparr>"

definition demo_hash :: hash_function where
  "demo_hash = (\<lambda>(parent, ts, keys). 1 # parent @ map word_of_int ts @
     (case keys of None \<Rightarrow> [] | Some ks \<Rightarrow> [word_of_int (int (length ks))]))"

text \<open>C22.
  The extra keys of a block are an untagged tuple, so the cache salt of one request and the LoRA
  name of another are not told apart in the first block: a base-model request whose salt is the
  name of an adapter has the same first block hash as a request of that adapter without a salt,
  whatever the hash function.
\<close>

theorem salt_and_lora_name_clash:
  assumes "0 < bs" and "bs \<le> num_tokens r" and "all_token_ids r' = all_token_ids r"
    and "mm_features r = []" and "mm_features r' = []" and "prompt_embeds r = None" and "prompt_embeds r' = None"
    and "lora_request_of r = Some l" and "cache_salt r = None"
    and "lora_request_of r' = None" and "cache_salt r' = Some (lora_name l)" and "lora_name l \<noteq> []"
  shows "\<exists>hs hs'. request_block_hasher H nh bs (r\<lparr>block_hashes := []\<rparr>) = Some (Inr hs) \<and>
    request_block_hasher H nh bs (r'\<lparr>block_hashes := []\<rparr>) = Some (Inr hs') \<and>
    hs \<noteq> [] \<and> hs' \<noteq> [] \<and> hs ! 0 = hs' ! 0"
proof -
  have "0 < full_blocks bs r" "0 < full_blocks bs r'"
    using full_iff [OF assms(1), where i = 0 and r = r] full_iff [OF assms(1), where i = 0 and r = r'] assms(2,3)
    by (simp_all add: num_tokens_def)
  moreover have "text_keys bs r 0 = text_keys bs r' 0"
    by (simp add: text_keys_def Let_def gen_lora_extra_hash_keys_def cache_salt_keys_def
        gen_prompt_embeds_extra_hash_keys_def assms)
  moreover have "block_tokens bs r 0 = block_tokens bs r' 0" by (simp add: block_tokens_def assms(3))
  ultimately show ?thesis using assms(1,4,5) by (simp add: hasher_from_scratch)
qed

definition demo_lora :: request where
  "demo_lora = (demo_request [1, 2])\<lparr>lora_request_of := Some \<lparr>lora_name = ''a'', adapter_id = 1\<rparr>\<rparr>"

definition demo_salted :: request where
  "demo_salted = (demo_request [1, 2])\<lparr>cache_salt := Some ''a''\<rparr>"

theorem salt_and_lora_name_clash_witness:
  "\<exists>hs hs'. request_block_hasher demo_hash [0] 2 (demo_lora\<lparr>block_hashes := []\<rparr>) = Some (Inr hs) \<and>
    request_block_hasher demo_hash [0] 2 (demo_salted\<lparr>block_hashes := []\<rparr>) = Some (Inr hs') \<and>
    hs \<noteq> [] \<and> hs' \<noteq> [] \<and> hs ! 0 = hs' ! 0"
  by (rule salt_and_lora_name_clash [where l = "\<lparr>lora_name = ''a'', adapter_id = 1\<rparr>"])
    (simp_all add: demo_lora_def demo_salted_def demo_request_def num_tokens_def py_len_def)

end
