(* ===== verification/KV_Cache_Config.thy ===== *)
theory KV_Cache_Config
  imports KV_Cache_Interface Complex_Main "HOL-Library.Multiset"
begin

text \<open>
  The KV cache configuration part of \<^verbatim>\<open>vllm/v1/core/kv_cache_utils.py\<close>
  (\<open>_check_enough_kv_cache_memory\<close> to \<open>get_kv_cache_configs\<close>): how the layers of a model are
  split into groups that share a block table, how many blocks fit in the memory of each worker,
  and the binary search for the longest context that fits.  A Python dictionary from layer names to
  specifications is an association list in insertion order.  Logging is left out.
\<close>

type_synonym spec_dict = "(string \<times> kv_cache_spec) list"

section \<open>Memory checks and the search for the longest context\<close>

fun rsum :: "('a \<Rightarrow> int res) \<Rightarrow> 'a list \<Rightarrow> int res" where
  "rsum f [] = Inr 0"
| "rsum f (x # xs) = rbind (f x) (\<lambda>n. rbind (rsum f xs) (\<lambda>m. Inr (n + m)))"

definition max_memory_usage_bytes ::
    "dtype_sizes \<Rightarrow> vllm_config \<Rightarrow> kv_cache_spec list \<Rightarrow> int res" where
  "max_memory_usage_bytes d cfg specs = rsum (spec_max_memory d cfg) specs"

text \<open>The loop of the two binary searches; \<open>fits\<close> may raise.\<close>

function bsearch :: "(int \<Rightarrow> bool res) \<Rightarrow> int \<Rightarrow> int \<Rightarrow> int \<Rightarrow> int res" where
  "bsearch fits left right result =
     (if left \<le> right then
        let mid = (left + right) div 2 in
        rbind (fits mid) (\<lambda>ok.
          if ok then bsearch fits (mid + 1) right mid else bsearch fits left (mid - 1) result)
      else Inr result)"
  by auto
termination by (relation "measure (\<lambda>(_, left, right, _). nat (right - left + 1))") auto

declare bsearch.simps [simp del]

definition search_max_len :: "(int \<Rightarrow> bool res) \<Rightarrow> int \<Rightarrow> int res" where
  "search_max_len fits original_max =
     rbind (fits 1) (\<lambda>ok. if \<not> ok then Inr 0 else bsearch fits 1 original_max 1)"

definition fits_in_memory ::
    "dtype_sizes \<Rightarrow> vllm_config \<Rightarrow> spec_dict \<Rightarrow> int \<Rightarrow> int \<Rightarrow> bool res" where
  "fits_in_memory d cfg kv_cache_spec available_memory model_len =
     rbind (max_memory_usage_bytes d (cfg\<lparr>max_model_len := model_len\<rparr>) (map snd kv_cache_spec))
       (\<lambda>memory_needed. Inr (memory_needed \<le> available_memory))"

definition estimate_max_model_len ::
    "dtype_sizes \<Rightarrow> vllm_config \<Rightarrow> spec_dict \<Rightarrow> int \<Rightarrow> int res" where
  "estimate_max_model_len d cfg kv_cache_spec available_memory =
     search_max_len (fits_in_memory d cfg kv_cache_spec available_memory) (max_model_len cfg)"

definition check_enough :: "int \<Rightarrow> int res \<Rightarrow> (int \<Rightarrow> int res) \<Rightarrow> unit res" where
  "check_enough available_memory get_needed_memory estimate =
     (if available_memory \<le> 0 then Inl ValueError
      else rbind get_needed_memory (\<lambda>needed_memory.
        if needed_memory > available_memory
        then rbind (estimate available_memory) (\<lambda>_. Inl ValueError)
        else Inr ()))"

definition check_enough_kv_cache_memory ::
    "dtype_sizes \<Rightarrow> vllm_config \<Rightarrow> spec_dict \<Rightarrow> int \<Rightarrow> unit res" where
  "check_enough_kv_cache_memory d cfg kv_cache_spec available_memory =
     (if kv_cache_spec = [] then Inr ()
      else check_enough available_memory (max_memory_usage_bytes d cfg (map snd kv_cache_spec))
             (estimate_max_model_len d cfg kv_cache_spec))"

section \<open>Groups of layers\<close>

definition dict_get :: "(string \<times> 'a) list \<Rightarrow> string \<Rightarrow> 'a res" where
  "dict_get d k = (case map_of d k of None \<Rightarrow> Inl KeyError | Some v \<Rightarrow> Inr v)"

definition create_kv_cache_group_specs ::
    "spec_dict \<Rightarrow> string list list \<Rightarrow> kv_cache_group_spec list res" where
  "create_kv_cache_group_specs kv_cache_spec grouped_layer_names =
     rmapv (\<lambda>names.
       rbind (rmapv (dict_get kv_cache_spec) names) (\<lambda>layer_specs.
       rbind (merge_specs layer_specs) (\<lambda>merged.
       Inr \<lparr>layer_names = names, group_spec = merged\<rparr>))) grouped_layer_names"

text \<open>Only \<open>AssertionError\<close> is caught.\<close>

definition is_kv_cache_spec_uniform :: "spec_dict \<Rightarrow> bool res" where
  "is_kv_cache_spec_uniform kv_cache_spec =
     (if kv_cache_spec = [] then Inr True
      else (case merge_specs (map snd kv_cache_spec) of
          Inl AssertionError \<Rightarrow> Inr False
        | Inl e \<Rightarrow> Inl e
        | Inr _ \<Rightarrow> Inr True))"

definition may_override_num_blocks :: "vllm_config \<Rightarrow> int \<Rightarrow> int" where
  "may_override_num_blocks cfg n =
     (case num_gpu_blocks_override cfg of None \<Rightarrow> n | Some m \<Rightarrow> m)"

definition get_num_blocks :: "vllm_config \<Rightarrow> int \<Rightarrow> int \<Rightarrow> int \<Rightarrow> int res" where
  "get_num_blocks cfg num_layers available_memory page_size =
     rbind (py_floordiv available_memory page_size) (\<lambda>q.
     rbind (py_floordiv q num_layers) (\<lambda>n.
     Inr (may_override_num_blocks cfg (max n 0))))"

definition get_uniform_page_size :: "dtype_sizes \<Rightarrow> kv_cache_spec list \<Rightarrow> int res" where
  "get_uniform_page_size d specs =
     rbind (rmapv (page_size_bytes d) specs) (\<lambda>sizes.
     rbind (py_assert (length (remdups sizes) = 1)) (\<lambda>_. py_get (remdups sizes) 0))"

definition get_kv_cache_groups_uniform_spec :: "spec_dict \<Rightarrow> kv_cache_group_spec list res" where
  "get_kv_cache_groups_uniform_spec kv_cache_specs =
     create_kv_cache_group_specs kv_cache_specs [map fst kv_cache_specs]"

fun uniform_layers :: "kv_cache_spec \<Rightarrow> spec_dict option" where
  "uniform_layers (UniformTypeKVCacheSpecs _ l) = Some l"
| "uniform_layers _ = None"

definition get_kv_cache_groups_uniform_type :: "kv_cache_spec \<Rightarrow> kv_cache_group_spec list" where
  "get_kv_cache_groups_uniform_type spec =
     (case uniform_layers spec of
        None \<Rightarrow> []
      | Some l \<Rightarrow> [\<lparr>layer_names = map fst l, group_spec = spec\<rparr>])"

definition is_kv_cache_page_size_uniform :: "dtype_sizes \<Rightarrow> spec_dict \<Rightarrow> bool res" where
  "is_kv_cache_page_size_uniform d kv_cache_spec =
     rbind (rmapv (page_size_bytes d) (map snd kv_cache_spec))
       (\<lambda>sizes. Inr (length (remdups sizes) = 1))"

definition unify_one :: "dtype_sizes \<Rightarrow> int \<Rightarrow> kv_cache_spec \<Rightarrow> kv_cache_spec res" where
  "unify_one d max_page_size spec =
     rbind (page_size_bytes d spec) (\<lambda>layer_page_size.
       if layer_page_size = max_page_size then Inr spec
       else if layer_page_size = 0 then Inl ZeroDivisionError
       else if max_page_size mod layer_page_size \<noteq> 0 then Inl NotImplementedError
       else
         let ratio = max_page_size div layer_page_size;
             new_spec = copy_with_new_block_size spec (spec_block_size spec * ratio)
         in rbind (page_size_bytes d new_spec) (\<lambda>n.
            rbind (py_assert (n = max_page_size)) (\<lambda>_. Inr new_spec)))"

definition unify_kv_cache_spec_page_size :: "dtype_sizes \<Rightarrow> spec_dict \<Rightarrow> spec_dict res" where
  "unify_kv_cache_spec_page_size d kv_cache_spec =
     rbind (rmapv (page_size_bytes d) (map snd kv_cache_spec)) (\<lambda>sizes.
       if length (remdups sizes) \<le> 1 then Inr kv_cache_spec
       else rbind (py_max sizes) (\<lambda>max_page_size.
         rmapv (\<lambda>(name, spec). rbind (unify_one d max_page_size spec) (\<lambda>s. Inr (name, s)))
           kv_cache_spec))"

text \<open>\<open>same_type_layers\<close>: the layers by specification, in the order of their first layer.\<close>

definition add_layer ::
    "string \<times> kv_cache_spec \<Rightarrow> (kv_cache_spec \<times> string list) list \<Rightarrow>
     (kv_cache_spec \<times> string list) list" where
  "add_layer = (\<lambda>(name, spec) groups.
     if spec \<in> fst ` set groups
     then map (\<lambda>(s, names). if s = spec then (s, names @ [name]) else (s, names)) groups
     else groups @ [(spec, [name])])"

definition same_type_layers :: "spec_dict \<Rightarrow> (kv_cache_spec \<times> string list) list" where
  "same_type_layers kv_cache_spec = fold add_layer kv_cache_spec []"

text \<open>\<open>layers[i::n]\<close> for \<open>0 \<le> i < n\<close>.\<close>

definition py_stride :: "'a list \<Rightarrow> nat \<Rightarrow> nat \<Rightarrow> 'a list" where
  "py_stride xs i n = map (\<lambda>j. xs ! j) (filter (\<lambda>j. j mod n = i) [0..<length xs])"

text \<open>\<open>max_num_layers < min_num_layers * 1.25\<close> in integers.\<close>

definition pick_group_size :: "int \<Rightarrow> int \<Rightarrow> int" where
  "pick_group_size min_num_layers max_num_layers =
     (if 4 * max_num_layers < 5 * min_num_layers then max_num_layers else min_num_layers)"

definition split_layers :: "int \<Rightarrow> string list \<Rightarrow> string list list" where
  "split_layers group_size layers =
     (let num_groups = nat (cdiv (py_len layers) group_size)
      in map (\<lambda>i. py_stride layers i num_groups) [0..<num_groups])"

definition get_kv_cache_groups_uniform_page_size :: "spec_dict \<Rightarrow> kv_cache_group_spec list res" where
  "get_kv_cache_groups_uniform_page_size kv_cache_spec =
     (let layers = map snd (same_type_layers kv_cache_spec) in
      rbind (py_min (map py_len layers)) (\<lambda>min_num_layers.
      rbind (py_max (map py_len layers)) (\<lambda>max_num_layers.
      let group_size = pick_group_size min_num_layers max_num_layers in
      create_kv_cache_group_specs kv_cache_spec (concat (map (split_layers group_size) layers)))))"

section \<open>From groups to a configuration\<close>

definition pool_tensor :: "kv_cache_group_spec list \<Rightarrow> int \<Rightarrow> nat \<Rightarrow> kv_cache_tensor" where
  "pool_tensor groups tsize i =
     \<lparr>tensor_size = tsize,
      shared_by = concat (map (\<lambda>g. if i < length (layer_names g) then [layer_names g ! i] else [])
        groups)\<rparr>"

definition config_uniform_type ::
    "dtype_sizes \<Rightarrow> vllm_config \<Rightarrow> kv_cache_group_spec \<Rightarrow> spec_dict \<Rightarrow> int \<Rightarrow> kv_cache_config res"
  where
  "config_uniform_type d cfg g per_layer_specs available_memory =
     rbind (page_size_bytes d (group_spec g)) (\<lambda>page.
     rbind (py_floordiv available_memory page) (\<lambda>n0.
     let n = may_override_num_blocks cfg n0 in
     rbind (rmapv (\<lambda>name. rbind (dict_get per_layer_specs name) (\<lambda>s.
              rbind (page_size_bytes d s) (\<lambda>sz.
              Inr \<lparr>tensor_size = sz * n, shared_by = [name]\<rparr>))) (layer_names g))
       (\<lambda>tensors. Inr \<lparr>num_blocks = n, kv_cache_tensors = tensors, kv_cache_groups = [g]\<rparr>)))"

definition config_general ::
    "dtype_sizes \<Rightarrow> vllm_config \<Rightarrow> kv_cache_group_spec list \<Rightarrow> int \<Rightarrow> kv_cache_config res" where
  "config_general d cfg groups available_memory =
     rbind (py_max (map (\<lambda>g. py_len (layer_names g)) groups)) (\<lambda>group_size.
     rbind (get_uniform_page_size d (map group_spec groups)) (\<lambda>page_size.
     rbind (py_assert (group_size > 0)) (\<lambda>_.
     rbind (get_num_blocks cfg group_size available_memory page_size) (\<lambda>n.
     Inr \<lparr>num_blocks = n,
          kv_cache_tensors = map (pool_tensor groups (page_size * n)) [0..<nat group_size],
          kv_cache_groups = groups\<rparr>))))"

definition get_kv_cache_config_from_groups ::
    "dtype_sizes \<Rightarrow> vllm_config \<Rightarrow> kv_cache_group_spec list \<Rightarrow> int \<Rightarrow> kv_cache_config res" where
  "get_kv_cache_config_from_groups d cfg groups available_memory =
     (case groups of
        [] \<Rightarrow> Inr \<lparr>num_blocks = 1, kv_cache_tensors = [], kv_cache_groups = []\<rparr>
      | g # rest \<Rightarrow>
          (case (rest, uniform_layers (group_spec g)) of
             ([], Some l) \<Rightarrow> config_uniform_type d cfg g l available_memory
           | _ \<Rightarrow> config_general d cfg groups available_memory))"

fun to_full_attention :: "kv_cache_spec \<Rightarrow> kv_cache_spec" where
  "to_full_attention (SlidingWindowSpec bs a w) =
     FullAttentionSpec bs a (full_post_init a None (Some w) None)"
| "to_full_attention (ChunkedLocalAttentionSpec bs a c) =
     FullAttentionSpec bs a (full_post_init a None None (Some c))"
| "to_full_attention s = s"

fun is_windowed :: "kv_cache_spec \<Rightarrow> bool" where
  "is_windowed (SlidingWindowSpec _ _ _) = True"
| "is_windowed (ChunkedLocalAttentionSpec _ _ _) = True"
| "is_windowed _ = False"

text \<open>Python's \<open>or\<close>: the second operand is evaluated only when the first is false.\<close>

definition unified :: "spec_dict \<Rightarrow> bool res" where
  "unified kv_cache_spec = rbind (is_kv_cache_spec_uniform kv_cache_spec)
     (\<lambda>b. if b then Inr True else is_uniform_type kv_cache_spec)"

definition unify_hybrid_kv_cache_specs :: "spec_dict \<Rightarrow> spec_dict res" where
  "unify_hybrid_kv_cache_specs kv_cache_spec =
     rbind (unified kv_cache_spec) (\<lambda>u.
       if u then Inr kv_cache_spec
       else
         let specs = map snd kv_cache_spec;
             new = (if list_ex is_full_attention specs \<and> list_ex is_windowed specs
                    then map (\<lambda>(name, s). (name, to_full_attention s)) kv_cache_spec
                    else kv_cache_spec)
         in rbind (unified new) (\<lambda>u'. if \<not> u' then Inl ValueError else Inr new))"

text \<open>The result is the groups and the dictionary, which the call may have changed in place.\<close>

definition get_kv_cache_groups ::
    "dtype_sizes \<Rightarrow> vllm_config \<Rightarrow> spec_dict \<Rightarrow> (kv_cache_group_spec list \<times> spec_dict) res" where
  "get_kv_cache_groups d cfg spec0 =
     rbind (if disable_hybrid_kv_cache_manager cfg then unify_hybrid_kv_cache_specs spec0
            else Inr spec0) (\<lambda>kv_cache_spec.
     if kv_cache_spec = [] then Inr ([], kv_cache_spec)
     else rbind (is_kv_cache_spec_uniform kv_cache_spec) (\<lambda>u.
       if u then rbind (get_kv_cache_groups_uniform_spec kv_cache_spec) (\<lambda>gs. Inr (gs, kv_cache_spec))
       else rbind (from_specs kv_cache_spec) (\<lambda>us.
         case us of
           Some s \<Rightarrow> Inr (get_kv_cache_groups_uniform_type s, kv_cache_spec)
         | None \<Rightarrow>
             rbind (unify_kv_cache_spec_page_size d kv_cache_spec) (\<lambda>unified_spec.
             rbind (get_kv_cache_groups_uniform_page_size unified_spec)
               (\<lambda>gs. Inr (gs, kv_cache_spec))))))"

definition scheduler_group :: "kv_cache_group_spec \<Rightarrow> kv_cache_group_spec res" where
  "scheduler_group g =
     (case uniform_layers (group_spec g) of
        None \<Rightarrow> Inr g
      | Some [] \<Rightarrow> Inl StopIteration
      | Some ((_, s) # _) \<Rightarrow> Inr (g\<lparr>group_spec := s\<rparr>))"

definition generate_scheduler_kv_cache_config :: "kv_cache_config list \<Rightarrow> kv_cache_config res" where
  "generate_scheduler_kv_cache_config cfgs =
     (case cfgs of
        [] \<Rightarrow> Inl IndexError
      | cfg # _ \<Rightarrow>
          rbind (py_assert (list_all (\<lambda>c. num_blocks c = num_blocks cfg) cfgs)) (\<lambda>_.
          rbind (rmapv scheduler_group (kv_cache_groups cfg))
            (\<lambda>gs. Inr (cfg\<lparr>kv_cache_groups := gs\<rparr>))))"

text \<open>\<open>num_blocks / num_block_per_request\<close>, the float division in exact arithmetic.\<close>

definition get_max_concurrency ::
    "dtype_sizes \<Rightarrow> vllm_config \<Rightarrow> kv_cache_config \<Rightarrow> rat res" where
  "get_max_concurrency d cfg config =
     (let groups = kv_cache_groups config in
      rbind (py_max (map (\<lambda>g. py_len (layer_names g)) groups)) (\<lambda>num_layer_per_group.
      rbind (max_memory_usage_bytes d cfg (map group_spec groups)) (\<lambda>m.
      rbind (py_get groups 0) (\<lambda>g0.
      rbind (page_size_bytes d (group_spec g0)) (\<lambda>page.
      rbind (py_cdiv (num_layer_per_group * m) (page * num_layer_per_group)) (\<lambda>per_request.
      if per_request = 0 then Inl ZeroDivisionError
      else Inr (of_int (num_blocks config) / of_int per_request)))))))"

text \<open>\<open>_report_kv_cache_config\<close>: the two figures it logs.\<close>

definition report_kv_cache_config ::
    "dtype_sizes \<Rightarrow> vllm_config \<Rightarrow> kv_cache_config \<Rightarrow> (int \<times> rat) res" where
  "report_kv_cache_config d cfg config =
     rbind (py_min (map (\<lambda>g. spec_block_size (group_spec g)) (kv_cache_groups config)))
       (\<lambda>min_block_size.
     rbind (py_floordiv (num_blocks config) (py_len (kv_cache_groups config))) (\<lambda>q.
     let cp = prefill_context_parallel_size cfg * decode_context_parallel_size cfg;
         num_tokens = (if cp > 1 then q * min_block_size * cp else q * min_block_size)
     in rbind (get_max_concurrency d cfg config) (\<lambda>c. Inr (num_tokens, c))))"

definition max_memory_usage_bytes_from_groups ::
    "dtype_sizes \<Rightarrow> vllm_config \<Rightarrow> kv_cache_group_spec list \<Rightarrow> int res" where
  "max_memory_usage_bytes_from_groups d cfg groups =
     (case groups of
        [] \<Rightarrow> Inr 0
      | g # rest \<Rightarrow>
          (case (rest, uniform_layers (group_spec g)) of
             ([], Some l) \<Rightarrow> rsum (\<lambda>(_, s). spec_max_memory d cfg s) l
           | _ \<Rightarrow>
             rbind (py_max (map (\<lambda>g. py_len (layer_names g)) groups)) (\<lambda>group_size.
             rbind (get_uniform_page_size d (map group_spec groups)) (\<lambda>page_size.
             rbind (spec_max_memory d cfg (group_spec g)) (\<lambda>m.
             rbind (py_cdiv m page_size) (\<lambda>blocks_needed.
             Inr (group_size * page_size * blocks_needed)))))))"

definition groups_fit ::
    "dtype_sizes \<Rightarrow> vllm_config \<Rightarrow> kv_cache_group_spec list \<Rightarrow> int \<Rightarrow> int \<Rightarrow> bool res" where
  "groups_fit d cfg groups available_memory model_len =
     rbind (max_memory_usage_bytes_from_groups d (cfg\<lparr>max_model_len := model_len\<rparr>) groups)
       (\<lambda>m. Inr (m \<le> available_memory))"

definition estimate_max_model_len_from_groups ::
    "dtype_sizes \<Rightarrow> vllm_config \<Rightarrow> kv_cache_group_spec list \<Rightarrow> int \<Rightarrow> int res" where
  "estimate_max_model_len_from_groups d cfg groups available_memory =
     search_max_len (groups_fit d cfg groups available_memory) (max_model_len cfg)"

text \<open>\<open>_auto_fit_max_model_len\<close> returns the configuration it modifies in place.\<close>

definition auto_fit_max_model_len ::
    "dtype_sizes \<Rightarrow> vllm_config \<Rightarrow> kv_cache_group_spec list \<Rightarrow> int list \<Rightarrow> vllm_config res" where
  "auto_fit_max_model_len d cfg groups available_memory =
     (if groups = [] then Inr cfg
      else rbind (py_min available_memory) (\<lambda>min_available_memory.
        rbind (estimate_max_model_len_from_groups d cfg groups min_available_memory)
          (\<lambda>auto_fit_max.
          if auto_fit_max \<le> 0 then Inl ValueError
          else if auto_fit_max \<ge> max_model_len cfg then Inr cfg
          else Inr (cfg\<lparr>max_model_len := auto_fit_max\<rparr>))))"

section \<open>The configurations of all workers\<close>

definition merge_worker_spec :: "string \<times> kv_cache_spec \<Rightarrow> spec_dict \<Rightarrow> spec_dict res" where
  "merge_worker_spec = (\<lambda>(name, spec) merged.
     case map_of merged name of
       None \<Rightarrow> Inr (merged @ [(name, spec)])
     | Some s \<Rightarrow> rbind (py_assert (s = spec)) (\<lambda>_. Inr merged))"

definition worker_groups ::
    "kv_cache_group_spec list \<Rightarrow> spec_dict \<Rightarrow> kv_cache_group_spec list" where
  "worker_groups groups worker_spec =
     map (\<lambda>g. g\<lparr>layer_names := filter (\<lambda>n. n \<in> fst ` set worker_spec) (layer_names g)\<rparr>) groups"

definition worker_config ::
    "dtype_sizes \<Rightarrow> vllm_config \<Rightarrow> kv_cache_group_spec list \<Rightarrow> spec_dict \<times> int \<Rightarrow> kv_cache_config res"
  where
  "worker_config d cfg groups = (\<lambda>(worker_spec, available_memory).
     let gs = worker_groups groups worker_spec in
     rbind (py_assert (sum_list (map (\<lambda>g. py_len (layer_names g)) gs) = py_len worker_spec)) (\<lambda>_.
     get_kv_cache_config_from_groups d cfg gs available_memory))"

definition shrink_tensor :: "int \<Rightarrow> int \<Rightarrow> kv_cache_tensor \<Rightarrow> kv_cache_tensor res" where
  "shrink_tensor old new t =
     (if old = 0 then Inl ZeroDivisionError
      else rbind (py_assert (tensor_size t mod old = 0)) (\<lambda>_.
        Inr (t\<lparr>tensor_size := tensor_size t div old * new\<rparr>)))"

definition shrink_config ::
    "dtype_sizes \<Rightarrow> vllm_config \<Rightarrow> int \<Rightarrow> kv_cache_config \<Rightarrow> kv_cache_config res" where
  "shrink_config d cfg min_num_blocks c =
     rbind (rmapv (shrink_tensor (num_blocks c) min_num_blocks) (kv_cache_tensors c)) (\<lambda>ts.
     let c' = c\<lparr>num_blocks := min_num_blocks, kv_cache_tensors := ts\<rparr> in
     if kv_cache_groups c = [] then Inr c'
     else rbind (report_kv_cache_config d cfg c') (\<lambda>_. Inr c'))"

definition get_kv_cache_configs ::
    "dtype_sizes \<Rightarrow> vllm_config \<Rightarrow> spec_dict list \<Rightarrow> int list \<Rightarrow> kv_cache_config list res" where
  "get_kv_cache_configs d cfg0 kv_cache_specs available_memory =
     rbind (rfold merge_worker_spec (concat kv_cache_specs) []) (\<lambda>merged.
     rbind (get_kv_cache_groups d cfg0 merged) (\<lambda>(groups, _).
     rbind (if original_max_model_len cfg0 = -1
            then auto_fit_max_model_len d cfg0 groups available_memory else Inr cfg0) (\<lambda>cfg.
     rbind (if groups = [] then Inr ()
            else rbind (py_min available_memory) (\<lambda>m.
              check_enough m (max_memory_usage_bytes_from_groups d cfg groups)
                (estimate_max_model_len_from_groups d cfg groups))) (\<lambda>_.
     rbind (rmapv (worker_config d cfg groups) (zip kv_cache_specs available_memory)) (\<lambda>cs.
     rbind (py_min (map num_blocks cs)) (\<lambda>min_num_blocks.
     rmapv (shrink_config d cfg min_num_blocks) cs))))))"

end
