(* ===== verification/KV_Config_Facts.thy ===== *)
theory KV_Config_Facts
  imports KV_Cache_Config
begin

text \<open>
  Facts about the KV cache configuration: the binary search returns the longest context that fits
  because the memory bound is monotone in the context length, the grouping of layers is a
  partition, and the tensors of a configuration fit in the memory they were computed from.
\<close>

section \<open>The binary search\<close>

text \<open>The invariant of the loop: everything below \<open>left\<close> fits and nothing above \<open>right\<close> does.\<close>

lemma bsearch_correct:
  assumes fits: "\<And>m. 1 \<le> m \<Longrightarrow> fits m = Inr (P m)"
    and anti: "\<And>m n. 1 \<le> m \<Longrightarrow> m \<le> n \<Longrightarrow> P n \<Longrightarrow> P m"
    and "1 \<le> left" and "left \<le> right + 1" and "right \<le> n" and "result = max 1 (left - 1)"
    and "P result" and "\<And>m. right < m \<Longrightarrow> m \<le> n \<Longrightarrow> \<not> P m" and n: "1 \<le> n"
  shows "\<exists>r. bsearch fits left right result = Inr r \<and> 1 \<le> r \<and> r \<le> n \<and>
    (\<forall>m. 1 \<le> m \<and> m \<le> n \<longrightarrow> (P m \<longleftrightarrow> m \<le> r))"
  using assms(3-8)
proof (induction "nat (right - left + 1)" arbitrary: left right result rule: less_induct)
  case less
  show ?case
  proof (cases "left \<le> right")
    case True
    let ?mid = "(left + right) div 2"
    have mid: "left \<le> ?mid" "?mid \<le> right" "1 \<le> ?mid" using True less.prems(1) by linarith+
    show ?thesis
    proof (cases "P ?mid")
      case P: True
      then have "bsearch fits left right result = bsearch fits (?mid + 1) right ?mid"
        using True mid(3) by (simp add: bsearch.simps [of fits left] fits Let_def)
      moreover have "nat (right - (?mid + 1) + 1) < nat (right - left + 1)" using mid True by linarith
      ultimately show ?thesis
        using less.hyps [of right "?mid + 1" ?mid] less.prems P mid by simp
    next
      case P: False
      then have "bsearch fits left right result = bsearch fits left (?mid - 1) result"
        using True mid(3) by (simp add: bsearch.simps [of fits left] fits Let_def)
      moreover have "nat (?mid - 1 - left + 1) < nat (right - left + 1)" using mid True by linarith
      moreover have "\<not> P m" if "?mid - 1 < m" "m \<le> n" for m
        using P anti [of ?mid m] mid(3) that by auto
      ultimately show ?thesis
        using less.hyps [of "?mid - 1" left result] less.prems mid by simp
    qed
  next
    case False
    then have l: "left = right + 1" using less.prems(2) by simp
    have "left \<noteq> 1"
    proof
      assume "left = 1"
      then have "\<not> P 1" using less.prems(6) [of 1] l n by simp
      moreover have "result = 1" using \<open>left = 1\<close> less.prems(4) by simp
      ultimately show False using less.prems(5) by simp
    qed
    then have r: "result = right" "1 \<le> result" using less.prems(1,4) l by auto
    have "\<forall>m. 1 \<le> m \<and> m \<le> n \<longrightarrow> (P m \<longleftrightarrow> m \<le> result)"
      using less.prems(5,6) r anti by (metis not_le)
    then show ?thesis
      using False r less.prems(3) by (simp add: bsearch.simps [of fits left])
  qed
qed

lemma search_max_len_correct:
  assumes fits: "\<And>m. 1 \<le> m \<Longrightarrow> fits m = Inr (P m)"
    and anti: "\<And>m n. 1 \<le> m \<Longrightarrow> m \<le> n \<Longrightarrow> P n \<Longrightarrow> P m" and n: "1 \<le> n"
  shows "\<exists>r. search_max_len fits n = Inr r \<and> 0 \<le> r \<and> r \<le> n \<and>
    (\<forall>m. 1 \<le> m \<and> m \<le> n \<longrightarrow> (P m \<longleftrightarrow> m \<le> r))"
proof (cases "P 1")
  case True
  then have "\<exists>r. bsearch fits 1 n 1 = Inr r \<and> 1 \<le> r \<and> r \<le> n \<and>
      (\<forall>m. 1 \<le> m \<and> m \<le> n \<longrightarrow> (P m \<longleftrightarrow> m \<le> r))"
    using n by (intro bsearch_correct) (auto intro: fits anti)
  with True show ?thesis by (fastforce simp: search_max_len_def fits)
next
  case False
  then have "\<forall>m. 1 \<le> m \<and> m \<le> n \<longrightarrow> (P m \<longleftrightarrow> m \<le> 0)" using anti [of 1] by auto
  with False n show ?thesis by (simp add: search_max_len_def fits)
qed

section \<open>The memory bound is monotone in the context length\<close>

definition positive_size :: "dtype_sizes \<Rightarrow> kv_cache_spec \<Rightarrow> bool" where
  "positive_size d s \<longleftrightarrow> 0 < spec_block_size s \<and> (case page_size_bytes d s of Inl _ \<Rightarrow> False | Inr n \<Rightarrow> 0 < n)"

fun spec_ok :: "dtype_sizes \<Rightarrow> vllm_config \<Rightarrow> kv_cache_spec \<Rightarrow> bool" and
    specs_ok :: "dtype_sizes \<Rightarrow> vllm_config \<Rightarrow> spec_dict \<Rightarrow> bool" where
  "spec_ok d cfg (UniformTypeKVCacheSpecs bs l) \<longleftrightarrow> l \<noteq> [] \<and> specs_ok d cfg l"
| "spec_ok d cfg (SlidingWindowSpec bs a w) \<longleftrightarrow>
     decode_context_parallel_size cfg = 1 \<and> positive_size d (SlidingWindowSpec bs a w)"
| "spec_ok d cfg (FullAttentionSpec bs a f) \<longleftrightarrow> positive_size d (FullAttentionSpec bs a f)"
| "spec_ok d cfg (MLAAttentionSpec bs a f c) \<longleftrightarrow> positive_size d (MLAAttentionSpec bs a f c)"
| "spec_ok d cfg (SinkFullAttentionSpec bs a f n) \<longleftrightarrow> positive_size d (SinkFullAttentionSpec bs a f n)"
| "spec_ok d cfg (ChunkedLocalAttentionSpec bs a c) \<longleftrightarrow>
     positive_size d (ChunkedLocalAttentionSpec bs a c)"
| "spec_ok d cfg (MambaSpec bs m) \<longleftrightarrow> positive_size d (MambaSpec bs m)"
| "spec_ok d cfg (EncoderOnlyAttentionSpec bs a) \<longleftrightarrow> positive_size d (EncoderOnlyAttentionSpec bs a)"
| "spec_ok d cfg (CrossAttentionSpec bs a) \<longleftrightarrow> positive_size d (CrossAttentionSpec bs a)"
| "specs_ok d cfg [] \<longleftrightarrow> True"
| "specs_ok d cfg ((_, s) # l) \<longleftrightarrow> spec_ok d cfg s \<and> specs_ok d cfg l"

lemma positive_sizeE:
  assumes "positive_size d s"
  obtains n where "0 < spec_block_size s" "page_size_bytes d s = Inr n" "0 < n"
  using assms by (auto simp: positive_size_def split: sum.splits)

definition monotone_bound :: "(int \<Rightarrow> int res) \<Rightarrow> bool" where
  "monotone_bound g \<longleftrightarrow> (\<exists>f. (\<forall>m. g m = Inr (f m)) \<and> mono f)"

lemma monotone_boundI: "(\<And>m. g m = Inr (f m)) \<Longrightarrow> mono f \<Longrightarrow> monotone_bound g"
  by (auto simp: monotone_bound_def)

lemma mono_cdiv_mult:
  "0 < b \<Longrightarrow> 0 \<le> n \<Longrightarrow> mono h \<Longrightarrow> mono (\<lambda>m. (cdiv (h m) b + k) * n)" for h :: "int \<Rightarrow> int"
  by (intro monoI mult_right_mono add_right_mono cdiv_mono) (auto dest: monoD)

lemma mono_cdiv: "0 < b \<Longrightarrow> mono (\<lambda>m::int. cdiv m b)"
  by (intro monoI cdiv_mono)

lemma mono_min_const: "mono (\<lambda>m::int. min c m)"
  by (auto intro!: monoI)

lemma max_memory_full_mono:
  assumes "0 < bs" and "0 < n"
  shows "monotone_bound (\<lambda>m. max_memory_full (cfg\<lparr>max_model_len := m\<rparr>) bs (Inr n))"
proof -
  let ?cp = "decode_context_parallel_size cfg * prefill_context_parallel_size cfg"
  let ?h = "\<lambda>m. if ?cp > 1 then cdiv m ?cp else m"
  have "mono ?h" by (auto intro!: monoI cdiv_mono)
  then have "mono (\<lambda>m. (cdiv (?h m) bs + 0) * n)" using assms by (intro mono_cdiv_mult) auto
  then show ?thesis
    using assms by (intro monotone_boundI [of _ "\<lambda>m. (cdiv (?h m) bs + 0) * n"])
      (auto simp: max_memory_full_def Let_def)
qed

lemma fold_max_mono:
  "list_all2 (\<le>) xs ys \<Longrightarrow> x \<le> y \<Longrightarrow> fold max xs x \<le> fold max ys (y::int)"
proof (induction xs ys arbitrary: x y rule: list_all2_induct)
  case Nil
  then show ?case by simp
next
  case (Cons a as b bs)
  then have "max a x \<le> max b y" by auto
  with Cons.IH show ?case by simp
qed

lemma page_size_sum_pos:
  "specs_ok d cfg l \<Longrightarrow> l \<noteq> [] \<Longrightarrow> (\<And>s. s \<in> snd ` set l \<Longrightarrow> \<exists>n>0. page_size_bytes d s = Inr n) \<Longrightarrow>
   \<exists>n>0. page_size_sum d l = Inr n"
proof (induction l)
  case Nil
  then show ?case by simp
next
  case (Cons p l)
  obtain nm s where p: "p = (nm, s)" by (cases p)
  obtain n where n: "n > 0" "page_size_bytes d s = Inr n" using Cons.prems(3) [of s] p by auto
  show ?case
  proof (cases "l = []")
    case True
    with n p show ?thesis by simp
  next
    case False
    with Cons p obtain m where "m > 0" "page_size_sum d l = Inr m" by auto
    with n p show ?thesis by simp
  qed
qed

lemma specs_ok_iff: "specs_ok d cfg l \<longleftrightarrow> (\<forall>s \<in> snd ` set l. spec_ok d cfg s)"
  by (induction l) auto

lemma spec_ok_page: "spec_ok d cfg s \<Longrightarrow> \<exists>n>0. page_size_bytes d s = Inr n"
proof (induction s)
  case (UniformTypeKVCacheSpecs bs l)
  have "\<exists>n>0. page_size_sum d l = Inr n"
    by (rule page_size_sum_pos [of d cfg]) (use UniformTypeKVCacheSpecs in \<open>fastforce simp: specs_ok_iff\<close>)+
  then show ?case by simp
qed (auto elim!: positive_sizeE)

lemma spec_memory_mono:
  "spec_ok d cfg s \<Longrightarrow> monotone_bound (\<lambda>m. spec_max_memory d (cfg\<lparr>max_model_len := m\<rparr>) s)"
  "specs_ok d cfg l \<Longrightarrow> \<exists>f. (\<forall>m. spec_max_pages d (cfg\<lparr>max_model_len := m\<rparr>) l = Inr (f m)) \<and>
     (\<forall>m n. m \<le> n \<longrightarrow> list_all2 (\<le>) (f m) (f n)) \<and> (\<forall>m. length (f m) = length l)"
proof (induction d cfg s and d cfg l rule: spec_ok_specs_ok.induct)
  case (1 d cfg bs l)
  then obtain f where f: "\<And>m. spec_max_pages d (cfg\<lparr>max_model_len := m\<rparr>) l = Inr (f m)"
    "\<And>m n. m \<le> n \<Longrightarrow> list_all2 (\<le>) (f m) (f n)" "\<And>m. length (f m) = length l"
    by auto
  obtain n where n: "n > 0" "page_size_sum d l = Inr n"
    using spec_ok_page [OF "1.prems"] by auto
  have ne: "f m \<noteq> []" for m using f(3) [of m] "1.prems" by auto
  have pm: "py_max (f m) = Inr (fold max (tl (f m)) (hd (f m)))" for m
    using ne [of m] by (cases "f m") auto
  let ?g = "\<lambda>m. fold max (tl (f m)) (hd (f m)) * n"
  have "fold max (tl (f m)) (hd (f m)) \<le> fold max (tl (f m')) (hd (f m'))" if "m \<le> m'" for m m'
    using f(2) [OF that] ne [of m] ne [of m']
    by (cases "f m"; cases "f m'") (auto intro: fold_max_mono)
  then have "mono ?g" using n(1) by (intro monoI mult_right_mono) auto
  then show ?case
    using n f(1) pm by (intro monotone_boundI [of _ ?g]) auto
next
  case (2 d cfg bs a w)
  then obtain n where n: "0 < bs" "page_size_bytes d (SlidingWindowSpec bs a w) = Inr n" "0 < n"
    "decode_context_parallel_size cfg = 1"
    by (auto elim: positive_sizeE)
  let ?f = "\<lambda>m. (cdiv (min (w - 1 + max_num_batched_tokens cfg) m) bs + 1) * n"
  have "mono ?f" using n by (intro mono_cdiv_mult mono_min_const) auto
  then show ?case
    using n by (intro monotone_boundI [of _ ?f]) (auto simp: max_memory_sliding_def Let_def simp del: page_size_bytes.simps)
next
  case (6 d cfg bs a c)
  then obtain n where n: "0 < bs" "page_size_bytes d (ChunkedLocalAttentionSpec bs a c) = Inr n" "0 < n"
    by (auto elim: positive_sizeE)
  let ?f = "\<lambda>m. (cdiv (min (c + max_num_batched_tokens cfg) m) bs + 0) * n"
  have "mono ?f" using n by (intro mono_cdiv_mult mono_min_const) auto
  then show ?case
    using n by (intro monotone_boundI [of _ ?f]) (auto simp: max_memory_chunked_def Let_def simp del: page_size_bytes.simps)
next
  case (7 d cfg bs m)
  then obtain n where n: "0 < bs" "page_size_bytes d (MambaSpec bs m) = Inr n" "0 < n"
    by (auto elim: positive_sizeE)
  let ?f = "\<lambda>len. if config_mamba_cache_mode cfg = ''all'' then (cdiv len bs + 0) * n
    else if config_mamba_cache_mode cfg = ''align'' then n * (2 + num_speculative_blocks m)
    else n * (1 + num_speculative_blocks m)"
  have "mono (\<lambda>len. (cdiv len bs + 0) * n)" using n by (intro mono_cdiv_mult) (auto intro: monoI)
  then have "mono ?f" by (auto simp: mono_def)
  then show ?case
    using n by (intro monotone_boundI [of _ ?f]) (auto simp: max_memory_mamba_def simp del: page_size_bytes.simps)
next
  case (8 d cfg bs a)
  then show ?case by (intro monotone_boundI [of _ "\<lambda>_. 0"]) (auto intro: monoI)
next
  case (9 d cfg bs a)
  then obtain n where n: "0 < bs" "page_size_bytes d (CrossAttentionSpec bs a) = Inr n" "0 < n"
    by (auto elim: positive_sizeE)
  then show ?case
    by (intro monotone_boundI [of _ "\<lambda>_. cdiv (max_num_encoder_input_tokens cfg) bs * n"])
      (auto simp: max_memory_cross_def intro: monoI simp del: page_size_bytes.simps)
next
  case (11 d cfg nm s l)
  then obtain f g where f: "\<And>m. spec_max_pages d (cfg\<lparr>max_model_len := m\<rparr>) l = Inr (f m)"
    "\<And>m n. m \<le> n \<Longrightarrow> list_all2 (\<le>) (f m) (f n)" "\<And>m. length (f m) = length l"
    and g: "\<And>m. spec_max_memory d (cfg\<lparr>max_model_len := m\<rparr>) s = Inr (g m)" "mono g"
    by (auto simp: monotone_bound_def)
  obtain n where n: "n > 0" "page_size_bytes d s = Inr n"
    using spec_ok_page "11.prems" by (metis specs_ok.simps(2))
  show ?case
    by (rule exI [of _ "\<lambda>m. cdiv (g m) n # f m"]) (use f g n in \<open>auto intro: cdiv_mono dest: monoD\<close>)
next
  case (10 d cfg)
  then show ?case by (auto intro: exI [of _ "\<lambda>_. []"])
qed (auto elim!: positive_sizeE intro: max_memory_full_mono simp del: page_size_bytes.simps)


lemma rsum_monotone:
  assumes "\<forall>s \<in> set specs. monotone_bound (\<lambda>m. g m s)"
  shows "monotone_bound (\<lambda>m. rsum (g m) specs)"
  using assms
proof (induction specs)
  case Nil
  then show ?case by (intro monotone_boundI [of _ "\<lambda>_. 0"]) (auto intro: monoI)
next
  case (Cons s specs)
  then obtain f h where "\<And>m. g m s = Inr (f m)" "mono f" "\<And>m. rsum (g m) specs = Inr (h m)" "mono h"
    by (auto simp: monotone_bound_def)
  then show ?case
    by (intro monotone_boundI [of _ "\<lambda>m. f m + h m"]) (auto simp: mono_def intro: add_mono)
qed

text \<open>The estimate is exact: the lengths that fit are those up to the result.\<close>

lemma estimate_exact:
  assumes "\<forall>s \<in> snd ` set spec. spec_ok d cfg s" and "1 \<le> max_model_len cfg"
  shows "\<exists>r. estimate_max_model_len d cfg spec mem = Inr r \<and> 0 \<le> r \<and> r \<le> max_model_len cfg \<and>
    (\<forall>m. 1 \<le> m \<and> m \<le> max_model_len cfg \<longrightarrow>
       (fits_in_memory d cfg spec mem m = Inr True \<longleftrightarrow> m \<le> r))"
proof -
  have "monotone_bound (\<lambda>m. rsum (spec_max_memory d (cfg\<lparr>max_model_len := m\<rparr>)) (map snd spec))"
    using assms(1) spec_memory_mono(1) by (intro rsum_monotone) auto
  then obtain f where f: "\<And>m. max_memory_usage_bytes d (cfg\<lparr>max_model_len := m\<rparr>) (map snd spec) = Inr (f m)"
    "mono f"
    by (auto simp: monotone_bound_def max_memory_usage_bytes_def)
  have fit: "fits_in_memory d cfg spec mem m = Inr (f m \<le> mem)" for m
    by (simp add: fits_in_memory_def f)
  have "\<exists>r. search_max_len (fits_in_memory d cfg spec mem) (max_model_len cfg) = Inr r \<and>
      0 \<le> r \<and> r \<le> max_model_len cfg \<and>
      (\<forall>m. 1 \<le> m \<and> m \<le> max_model_len cfg \<longrightarrow> ((f m \<le> mem) \<longleftrightarrow> m \<le> r))"
    by (rule search_max_len_correct) (use fit f(2) assms(2) in \<open>auto dest: monoD\<close>)
  then show ?thesis by (simp add: estimate_max_model_len_def fit)
qed

section \<open>Grouping is a partition\<close>

lemma add_layer_mset:
  assumes "distinct (map fst gs)"
  shows "distinct (map fst (add_layer (n, s) gs)) \<and>
    mset (concat (map snd (add_layer (n, s) gs))) = add_mset n (mset (concat (map snd gs)))"
proof (cases "s \<in> fst ` set gs")
  case False
  then show ?thesis using assms by (auto simp: add_layer_def)
next
  case True
  let ?f = "\<lambda>(s', names). if s' = s then (s', names @ [n]) else (s', names)"
  have fst: "map fst (map ?f gs) = map fst gs" for gs :: "(kv_cache_spec \<times> string list) list"
    by (induction gs) auto
  have out: "s \<notin> fst ` set gs \<Longrightarrow> map ?f gs = gs" for gs :: "(kv_cache_spec \<times> string list) list"
    by (induction gs) auto
  have "mset (concat (map snd (map ?f gs))) = add_mset n (mset (concat (map snd gs)))"
    using assms True
  proof (induction gs)
    case Nil
    then show ?case by simp
  next
    case (Cons g gs)
    obtain s' names where g: "g = (s', names)" by (cases g)
    show ?case
    proof (cases "s' = s")
      case True
      then have "map ?f gs = gs" using Cons.prems g by (intro out) auto
      with True g show ?thesis by simp
    next
      case False
      with Cons g show ?thesis by auto
    qed
  qed
  moreover have "distinct (map fst (map ?f gs))" unfolding fst by (rule assms)
  ultimately show ?thesis using True by (simp add: add_layer_def)
qed

lemma same_type_layers_mset:
  "distinct (map fst (same_type_layers spec)) \<and>
   mset (concat (map snd (same_type_layers spec))) = mset (map fst spec)"
proof -
  have "distinct (map fst gs) \<Longrightarrow> distinct (map fst (fold add_layer spec gs)) \<and>
      mset (concat (map snd (fold add_layer spec gs))) = mset (concat (map snd gs)) + mset (map fst spec)"
    for gs
  proof (induction spec arbitrary: gs)
    case Nil
    then show ?case by simp
  next
    case (Cons p spec)
    obtain n s where p: "p = (n, s)" by (cases p)
    from add_layer_mset [OF Cons.prems, of n s] Cons.IH [of "add_layer (n, s) gs"] p show ?case
      by simp
  qed
  from this [of "[]"] show ?thesis by (simp add: same_type_layers_def)
qed

lemma add_layer_spec:
  assumes "\<forall>(s, ns) \<in> set gs. ns \<noteq> [] \<and> (\<forall>n \<in> set ns. P n s)" and "P n s"
  shows "\<forall>(s, ns) \<in> set (add_layer (n, s) gs). ns \<noteq> [] \<and> (\<forall>n \<in> set ns. P n s)"
  using assms by (fastforce simp: add_layer_def split: if_splits)

lemma same_type_layers_spec:
  "\<forall>(s, ns) \<in> set (same_type_layers spec). ns \<noteq> [] \<and> (\<forall>n \<in> set ns. (n, s) \<in> set spec)"
proof -
  have "(\<forall>(s, ns) \<in> set gs. ns \<noteq> [] \<and> (\<forall>n \<in> set ns. (n, s) \<in> X)) \<Longrightarrow> set spec \<subseteq> X \<Longrightarrow>
      (\<forall>(s, ns) \<in> set (fold add_layer spec gs). ns \<noteq> [] \<and> (\<forall>n \<in> set ns. (n, s) \<in> X))" for gs X
  proof (induction spec arbitrary: gs)
    case Nil
    then show ?case by simp
  next
    case (Cons p spec)
    obtain n s where p: "p = (n, s)" by (cases p)
    have "(n, s) \<in> X" using Cons.prems(2) p by simp
    from add_layer_spec [OF Cons.prems(1) this] Cons.IH [of "add_layer (n, s) gs"] Cons.prems(2) p
    show ?case by simp
  qed
  from this [of "[]" "set spec"] show ?thesis by (simp add: same_type_layers_def)
qed

lemma mset_map_filter_mod:
  fixes xs :: "nat list"
  assumes "0 < n"
  shows "mset (concat (map (\<lambda>i. filter (\<lambda>j. j mod n = i) xs) [0..<n])) = mset xs"
proof (induction xs)
  case Nil
  show ?case by simp
next
  case (Cons x xs)
  let ?r = "x mod n"
  have r: "?r < n" using assms by simp
  have "[0..<n] = [0..<?r] @ ?r # [Suc ?r..<n]"
    using r by (metis upt_add_eq_append upt_conv_Cons le0 less_imp_le_nat le_add_diff_inverse)
  moreover have "map (\<lambda>i. filter (\<lambda>j. j mod n = i) (x # xs)) [0..<?r] = map (\<lambda>i. filter (\<lambda>j. j mod n = i) xs) [0..<?r]"
    "map (\<lambda>i. filter (\<lambda>j. j mod n = i) (x # xs)) [Suc ?r..<n] = map (\<lambda>i. filter (\<lambda>j. j mod n = i) xs) [Suc ?r..<n]"
    by auto
  ultimately show ?case using Cons by (simp only: map_append concat_append mset_append list.map concat.simps) simp
qed

text \<open>\<open>layers[i::n]\<close> for all \<open>i < n\<close> is a partition of \<open>layers\<close>.\<close>

lemma py_stride_partition:
  assumes "0 < n"
  shows "mset (concat (map (\<lambda>i. py_stride xs i n) [0..<n])) = mset xs"
proof -
  have "concat (map (\<lambda>i. py_stride xs i n) [0..<n]) =
      map ((!) xs) (concat (map (\<lambda>i. filter (\<lambda>j. j mod n = i) [0..<length xs]) [0..<n]))"
    by (simp add: py_stride_def map_concat comp_def)
  then have "mset (concat (map (\<lambda>i. py_stride xs i n) [0..<n])) =
      image_mset ((!) xs) (mset (concat (map (\<lambda>i. filter (\<lambda>j. j mod n = i) [0..<length xs]) [0..<n])))"
    by simp
  also have "\<dots> = image_mset ((!) xs) (mset [0..<length xs])"
    using mset_map_filter_mod [OF assms] by simp
  also have "\<dots> = mset xs" by (metis map_nth mset_map)
  finally show ?thesis .
qed

lemma split_layers_partition:
  assumes "0 < g" and "layers \<noteq> []"
  shows "mset (concat (split_layers g layers)) = mset layers"
proof -
  have "0 < cdiv (py_len layers) g"
    using cdiv_le_iff [OF assms(1), of "py_len layers" 0] assms(2) by (auto simp: py_len_def)
  then show ?thesis
    unfolding split_layers_def Let_def by (intro py_stride_partition) simp
qed


lemma py_stride_length:
  assumes "length xs \<le> n * g" and "i < n"
  shows "length (py_stride xs i n) \<le> g"
proof -
  let ?J = "{j. j < length xs \<and> j mod n = i}"
  have "length (py_stride xs i n) = card ?J"
    by (simp add: py_stride_def flip: distinct_card)
  also have "\<dots> = card ((\<lambda>j. j div n) ` ?J)"
    by (rule card_image [symmetric]) (auto simp: inj_on_def, metis div_mult_mod_eq)
  also have "\<dots> \<le> card {..<g}"
    using assms by (intro card_mono) (auto simp: less_mult_imp_div_less mult.commute)
  finally show ?thesis by simp
qed


lemma rmapv_Inr: "rmapv f xs = Inr ys \<longleftrightarrow> list_all2 (\<lambda>x y. f x = Inr y) xs ys"
proof (induction xs arbitrary: ys)
  case Nil
  then show ?case by auto
next
  case (Cons x xs)
  then show ?case by (auto simp: res_simps list_all2_Cons1)
qed

lemma create_groups_names:
  assumes "create_kv_cache_group_specs spec names = Inr groups"
  shows "map layer_names groups = names"
  using assms unfolding create_kv_cache_group_specs_def rmapv_Inr
  by (induction names groups rule: list_all2_induct) (auto simp: res_simps)

lemma create_groups_merge:
  assumes "create_kv_cache_group_specs spec names = Inr groups" and "g \<in> set groups"
  shows "\<exists>specs. rmapv (dict_get spec) (layer_names g) = Inr specs \<and> merge_specs specs = Inr (group_spec g)"
  using assms(1) [unfolded create_kv_cache_group_specs_def, THEN rmapv_Inr [THEN iffD1]] assms(2)
  by (induction names groups rule: list_all2_induct) (auto simp: res_simps)

lemma py_min_le: "py_min xs = Inr m \<Longrightarrow> x \<in> set xs \<Longrightarrow> m \<le> x"
proof -
  have "fold min ys y \<le> y \<and> (\<forall>x \<in> set ys. fold min ys y \<le> x)" for ys and y :: int
    by (induction ys arbitrary: y) (auto, (meson min.boundedE)+)
  then show "py_min xs = Inr m \<Longrightarrow> x \<in> set xs \<Longrightarrow> m \<le> x" by (cases xs) auto
qed

lemma py_max_ge: "py_max xs = Inr m \<Longrightarrow> x \<in> set xs \<Longrightarrow> x \<le> m"
proof -
  have "y \<le> fold max ys y \<and> (\<forall>x \<in> set ys. x \<le> fold max ys y)" for ys and y :: int
    by (induction ys arbitrary: y) (auto, (meson max.boundedE)+)
  then show "py_max xs = Inr m \<Longrightarrow> x \<in> set xs \<Longrightarrow> x \<le> m" by (cases xs) auto
qed

lemma py_min_in: "py_min xs = Inr m \<Longrightarrow> m \<in> set xs"
proof -
  have "fold min ys y \<in> insert y (set ys)" for ys and y :: int
    by (induction ys arbitrary: y) (auto simp: min_def)
  then show "py_min xs = Inr m \<Longrightarrow> m \<in> set xs" by (cases xs) auto
qed

lemma split_layers_length:
  assumes "0 < g" and "ns \<in> set (split_layers g layers)"
  shows "py_len ns \<le> g"
proof -
  let ?n = "nat (cdiv (py_len layers) g)"
  obtain i where i: "i < ?n" "ns = py_stride layers i ?n"
    using assms(2) by (auto simp: split_layers_def Let_def)
  have "py_len layers \<le> cdiv (py_len layers) g * g" by (rule cdiv_bounds(1) [OF assms(1)])
  also have "\<dots> = int (?n * nat g)" using i(1) assms(1) by simp
  finally have "length layers \<le> ?n * nat g" by (simp only: py_len_def of_nat_le_iff)
  from py_stride_length [OF this i(1)] i(2) assms(1) show ?thesis by (simp add: py_len_def le_nat_iff)
qed

text \<open>The grouping: every layer in exactly one group, no group larger than the group size.\<close>

lemma grouping_partition:
  assumes "get_kv_cache_groups_uniform_page_size spec = Inr groups"
  shows "mset (concat (map layer_names groups)) = mset (map fst spec)"
    and "\<exists>lo hi. py_min (map py_len (map snd (same_type_layers spec))) = Inr lo \<and>
      py_max (map py_len (map snd (same_type_layers spec))) = Inr hi \<and> 0 < lo \<and>
      (\<forall>grp \<in> set groups. py_len (layer_names grp) \<le> pick_group_size lo hi \<and>
        (\<exists>s. \<forall>n \<in> set (layer_names grp). (n, s) \<in> set spec)) \<and>
      py_len groups = (\<Sum>l\<leftarrow>map snd (same_type_layers spec). cdiv (py_len l) (pick_group_size lo hi))"
proof -
  let ?layers = "map snd (same_type_layers spec)"
  obtain lo hi where lo: "py_min (map py_len ?layers) = Inr lo" and hi: "py_max (map py_len ?layers) = Inr hi"
    and c: "create_kv_cache_group_specs spec
      (concat (map (split_layers (pick_group_size lo hi)) ?layers)) = Inr groups"
    using assms by (auto simp: get_kv_cache_groups_uniform_page_size_def res_simps Let_def)
  have ne: "\<forall>l \<in> set ?layers. l \<noteq> []" using same_type_layers_spec [of spec] by auto
  have "lo \<in> set (map py_len ?layers)" by (rule py_min_in [OF lo])
  then have "0 < lo" "lo \<le> hi" using ne py_max_ge [OF hi] by (auto simp: py_len_def)
  then have g: "0 < pick_group_size lo hi" by (simp add: pick_group_size_def)
  have names: "map layer_names groups = concat (map (split_layers (pick_group_size lo hi)) ?layers)"
    by (rule create_groups_names [OF c])
  have "mset (concat (concat (map (split_layers (pick_group_size lo hi)) ls))) = mset (concat ls)"
    if "\<forall>l \<in> set ls. l \<noteq> []" for ls
    using that split_layers_partition [OF g] by (induction ls) auto
  from this [OF ne] show "mset (concat (map layer_names groups)) = mset (map fst spec)"
    using same_type_layers_mset [of spec] names by simp
  have "length (concat (map (split_layers (pick_group_size lo hi)) ls)) =
      (\<Sum>l\<leftarrow>ls. nat (cdiv (py_len l) (pick_group_size lo hi)))" for ls
    by (induction ls) (simp_all add: split_layers_def Let_def)
  moreover have "int (\<Sum>l\<leftarrow>ls. nat (cdiv (py_len l) (pick_group_size lo hi))) =
      (\<Sum>l\<leftarrow>ls. cdiv (py_len l) (pick_group_size lo hi))" for ls :: "string list list"
    by (induction ls) (use g in \<open>simp_all add: cdiv_alt py_len_def pos_imp_zdiv_nonneg_iff\<close>)
  ultimately have "int (length (map layer_names groups)) =
      (\<Sum>l\<leftarrow>?layers. cdiv (py_len l) (pick_group_size lo hi))"
    unfolding names by metis
  then have count: "py_len groups = (\<Sum>l\<leftarrow>?layers. cdiv (py_len l) (pick_group_size lo hi))"
    by (simp add: py_len_def)
  show "\<exists>lo hi. py_min (map py_len ?layers) = Inr lo \<and> py_max (map py_len ?layers) = Inr hi \<and> 0 < lo \<and>
      (\<forall>grp \<in> set groups. py_len (layer_names grp) \<le> pick_group_size lo hi \<and>
        (\<exists>s. \<forall>n \<in> set (layer_names grp). (n, s) \<in> set spec)) \<and>
      py_len groups = (\<Sum>l\<leftarrow>?layers. cdiv (py_len l) (pick_group_size lo hi))"
  proof (rule exI [of _ lo], rule exI [of _ hi], intro conjI ballI lo hi \<open>0 < lo\<close> count)
    fix grp assume "grp \<in> set groups"
    then have "layer_names grp \<in> set (map layer_names groups)" by simp
    then obtain s l where sl: "(s, l) \<in> set (same_type_layers spec)"
      "layer_names grp \<in> set (split_layers (pick_group_size lo hi) l)"
      unfolding names by auto
    show "py_len (layer_names grp) \<le> pick_group_size lo hi" by (rule split_layers_length [OF g sl(2)])
    have "l \<noteq> []" "\<forall>n \<in> set l. (n, s) \<in> set spec" using same_type_layers_spec [of spec] sl(1) by auto
    moreover have "set (layer_names grp) \<subseteq> set l"
    proof -
      have "set (layer_names grp) \<subseteq> set (concat (split_layers (pick_group_size lo hi) l))"
        using sl(2) by auto
      also have "\<dots> = set l"
        using split_layers_partition [OF g \<open>l \<noteq> []\<close>] by (metis set_mset_mset)
      finally show ?thesis .
    qed
    ultimately show "\<exists>s. \<forall>n \<in> set (layer_names grp). (n, s) \<in> set spec" by blast
  qed
qed

section \<open>The memory of a configuration\<close>

lemma pool_tensor_simps [simp]:
  "tensor_size (pool_tensor groups z i) = z"
  by (simp add: pool_tensor_def)

text \<open>Every layer lies in exactly one tensor.\<close>

lemma concat_columns:
  assumes "\<forall>g \<in> set groups. length (layer_names g) \<le> k"
  shows "mset (concat (map (\<lambda>i. shared_by (pool_tensor groups z i)) [0..<k])) =
    mset (concat (map layer_names groups))"
  using assms
proof (induction groups)
  case Nil
  have "concat (map (\<lambda>i. []) [0..<k]) = ([] :: string list)" by simp
  then show ?case by (simp add: pool_tensor_def)
next
  case (Cons g groups)
  have one: "concat (map (\<lambda>i. if i < length xs then [xs ! i] else []) [0..<k]) = xs"
    if "length xs \<le> k" for xs :: "string list"
  proof -
    have "[0..<k] = [0..<length xs] @ [length xs..<k]"
      using that by (metis le0 le_add_diff_inverse upt_add_eq_append)
    moreover have "concat (map (\<lambda>i. if i < length xs then [xs ! i] else []) [length xs..<k]) = []"
      by (simp)
    moreover have "concat (map (\<lambda>i. if i < length xs then [xs ! i] else []) [0..<length xs]) =
        concat (map (\<lambda>i. [xs ! i]) [0..<length xs])"
      by (intro arg_cong [where f = concat] map_cong) auto
    moreover have "concat (map (\<lambda>i. [f i]) l) = map f l" for f :: "nat \<Rightarrow> string" and l
      by (induction l) auto
    ultimately show ?thesis by (simp add: map_nth)
  qed
  have two: "mset (concat (map (\<lambda>i. f i @ h i) l)) = mset (concat (map f l)) + mset (concat (map h l))"
    for f h :: "nat \<Rightarrow> string list" and l
    by (induction l) auto
  have "shared_by (pool_tensor (g # groups) z i) =
      (if i < length (layer_names g) then [layer_names g ! i] else []) @ shared_by (pool_tensor groups z i)"
    for i by (simp add: pool_tensor_def)
  then show ?case using Cons one [of "layer_names g"] by (simp add: two)
qed

lemma rmapv_source: "rmapv f xs = Inr ys \<Longrightarrow> y \<in> set ys \<Longrightarrow> \<exists>x \<in> set xs. f x = Inr y"
  by (induction xs arbitrary: ys) (auto simp: res_simps)

lemma py_get_in: "py_get xs i = Inr x \<Longrightarrow> x \<in> set xs"
  by (auto simp: py_get_def py_len_def Let_def split: if_splits)

lemma config_general_facts:
  assumes "config_general d cfg groups mem = Inr c" and "num_gpu_blocks_override cfg = None"
    and "0 \<le> mem" and "\<forall>g \<in> set groups. spec_ok d cfg (group_spec g)"
  obtains page size where "get_uniform_page_size d (map group_spec groups) = Inr page" and "0 < page"
    and "0 < size" and "num_blocks c = mem div page div size"
    and "sum_list (map tensor_size (kv_cache_tensors c)) = size * (page * num_blocks c)"
    and "sum_list (map tensor_size (kv_cache_tensors c)) \<le> mem"
    and "mem < size * (page * (num_blocks c + 1))"
    and "\<forall>t \<in> set (kv_cache_tensors c). tensor_size t = page * num_blocks c"
    and "mset (concat (map shared_by (kv_cache_tensors c))) = mset (concat (map layer_names groups))"
    and "kv_cache_groups c = groups"
proof -
  obtain size page n where size: "py_max (map (\<lambda>g. py_len (layer_names g)) groups) = Inr size"
    and page: "get_uniform_page_size d (map group_spec groups) = Inr page" and sp: "0 < size"
    and n: "get_num_blocks cfg size mem page = Inr n"
    and c: "c = \<lparr>num_blocks = n, kv_cache_tensors = map (pool_tensor groups (page * n)) [0..<nat size],
      kv_cache_groups = groups\<rparr>"
    using assms(1) by (auto simp: config_general_def res_simps)
  obtain sizes where sizes: "rmapv (page_size_bytes d) (map group_spec groups) = Inr sizes"
    "py_get (remdups sizes) 0 = Inr page"
    using page by (auto simp: get_uniform_page_size_def res_simps)
  then have "page \<in> set sizes"
    using py_get_in by fastforce
  then obtain s where "s \<in> set (map group_spec groups)" "page_size_bytes d s = Inr page"
    using rmapv_source [OF sizes(1)] by blast
  then have pp: "0 < page" using assms(4) spec_ok_page by fastforce
  have nb: "n = mem div page div size"
    using n assms(2,3) pp sp
    by (auto simp: get_num_blocks_def may_override_num_blocks_def pos_imp_zdiv_nonneg_iff)
  then have nb': "n = mem div (page * size)" using pp sp by (simp add: zdiv_zmult2_eq)
  have sum: "sum_list (map tensor_size (kv_cache_tensors c)) = size * (page * n)"
    using sp by (simp add: c comp_def sum_list_triv)
  have split: "mem = page * size * n + mem mod (page * size)" unfolding nb' by (rule mult_div_mod_eq [symmetric])
  moreover have "0 \<le> mem mod (page * size)" "mem mod (page * size) < page * size" using pp sp by simp_all
  ultimately have "page * size * n \<le> mem" "mem < page * size * n + page * size"
    by (metis le_add_same_cancel1, metis add_less_cancel_left)
  then have le: "size * (page * n) \<le> mem" and lt: "mem < size * (page * (n + 1))"
    by (simp_all add: algebra_simps)
  have "\<forall>g \<in> set groups. length (layer_names g) \<le> nat size"
    using py_max_ge [OF size] sp by (fastforce simp: py_len_def le_nat_iff)
  from concat_columns [OF this, of "page * n"]
  have cols: "mset (concat (map shared_by (kv_cache_tensors c))) = mset (concat (map layer_names groups))"
    by (simp add: c comp_def)
  show thesis
    by (rule that [OF page pp sp]) (use nb sum le lt cols in \<open>simp_all add: c\<close>)
qed


lemma shrink_tensor_Inr:
  "shrink_tensor old new t = Inr t' \<longleftrightarrow>
     old \<noteq> 0 \<and> tensor_size t mod old = 0 \<and> t' = t\<lparr>tensor_size := tensor_size t div old * new\<rparr>"
  by (auto simp: shrink_tensor_def res_simps)

lemma shrink_config_Inr:
  assumes "shrink_config d cfg m c = Inr c'"
  shows "num_blocks c' = m" and "kv_cache_groups c' = kv_cache_groups c"
    and "list_all2 (\<lambda>t t'. shared_by t' = shared_by t \<and>
      tensor_size t' * num_blocks c = tensor_size t * m) (kv_cache_tensors c) (kv_cache_tensors c')"
proof -
  obtain ts where ts: "rmapv (shrink_tensor (num_blocks c) m) (kv_cache_tensors c) = Inr ts"
    "c' = c\<lparr>num_blocks := m, kv_cache_tensors := ts\<rparr>"
    using assms by (auto simp: shrink_config_def res_simps Let_def split: if_splits)
  then show "num_blocks c' = m" and "kv_cache_groups c' = kv_cache_groups c" by simp_all
  have "tensor_size t div old * old = tensor_size t" if "tensor_size t mod old = 0"
    for t :: kv_cache_tensor and old
    using that by (metis add.right_neutral div_mult_mod_eq)
  then have "list_all2 (\<lambda>t t'. shared_by t' = shared_by t \<and>
      tensor_size t' * num_blocks c = tensor_size t * m) (kv_cache_tensors c) ts"
    by (intro list_all2_mono [OF ts(1) [unfolded rmapv_Inr]]) (auto simp: shrink_tensor_Inr)
  with ts(2) show "list_all2 (\<lambda>t t'. shared_by t' = shared_by t \<and>
      tensor_size t' * num_blocks c = tensor_size t * m) (kv_cache_tensors c) (kv_cache_tensors c')"
    by simp
qed

section \<open>Properties\<close>

text \<open>A small model used by the witnesses: full attention layers of 64 bytes a page.\<close>

definition demo_attn :: attn_spec where
  "demo_attn = \<lparr>num_kv_heads = 1, head_size = 1, kv_dtype = ''half'', page_size_padded = None\<rparr>"

definition demo_full :: kv_cache_spec where
  "demo_full = FullAttentionSpec 16 demo_attn (full_post_init demo_attn None None None)"

definition demo_sliding :: kv_cache_spec where
  "demo_sliding = SlidingWindowSpec 16 demo_attn 32"

definition demo_config :: "int \<Rightarrow> vllm_config" where
  "demo_config len = \<lparr>max_model_len = len, original_max_model_len = len,
     decode_context_parallel_size = 1, prefill_context_parallel_size = 1,
     max_num_batched_tokens = 32, max_num_encoder_input_tokens = 0,
     config_mamba_cache_mode = ''none'', num_gpu_blocks_override = None,
     disable_hybrid_kv_cache_manager = False\<rparr>"

lemmas demo_defs = demo_attn_def demo_full_def demo_sliding_def demo_config_def full_post_init_def

lemma demo_ok: "spec_ok (\<lambda>_. 2) (demo_config n) demo_full" "spec_ok (\<lambda>_. 2) (demo_config n) demo_sliding"
  by (simp_all add: demo_defs positive_size_def padded_page_size_def real_page_size_full_def
      real_page_size_attention_def)

text \<open>C17. The binary search for the longest context is exact: it returns, and the context lengths
  whose KV cache fits in the available memory are exactly those up to its result (0 when even one
  token does not fit).\<close>

theorem estimate_max_model_len_exact:
  assumes "\<forall>s \<in> snd ` set spec. spec_ok d cfg s" and "1 \<le> max_model_len cfg"
  shows "\<exists>r. estimate_max_model_len d cfg spec mem = Inr r \<and> 0 \<le> r \<and> r \<le> max_model_len cfg \<and>
    (\<forall>m. 1 \<le> m \<and> m \<le> max_model_len cfg \<longrightarrow>
       (fits_in_memory d cfg spec mem m = Inr True \<longleftrightarrow> m \<le> r))"
  by (rule estimate_exact [OF assms])

theorem estimate_max_model_len_exact_witness:
  "\<exists>r. estimate_max_model_len (\<lambda>_. 2) (demo_config 100) [(''a'', demo_full), (''b'', demo_sliding)] 500 = Inr r \<and>
    0 \<le> r \<and> r \<le> 100"
proof -
  have "\<forall>s \<in> snd ` set [(''a'', demo_full), (''b'', demo_sliding)].
      spec_ok (\<lambda>_. 2) (demo_config 100) s" and "max_model_len (demo_config 100) = 100"
    using demo_ok by (simp_all add: demo_config_def)
  with estimate_max_model_len_exact
    [of "[(''a'', demo_full), (''b'', demo_sliding)]" "\<lambda>_. 2" "demo_config 100" 500]
  show ?thesis by auto
qed

text \<open>C19. The split of the layers into KV cache groups is a partition: every layer is in exactly
  one group, the layers of a group have one specification, no group is larger than the group size
  picked from the smallest and the largest number of layers of one type, and each type gets the
  least number of groups that this size allows.\<close>

theorem layer_groups_partition:
  assumes "get_kv_cache_groups_uniform_page_size spec = Inr groups"
  shows "mset (concat (map layer_names groups)) = mset (map fst spec) \<and>
    (\<exists>lo hi. py_min (map py_len (map snd (same_type_layers spec))) = Inr lo \<and>
      py_max (map py_len (map snd (same_type_layers spec))) = Inr hi \<and> 0 < lo \<and>
      (\<forall>grp \<in> set groups. py_len (layer_names grp) \<le> pick_group_size lo hi \<and>
        (\<exists>s. \<forall>n \<in> set (layer_names grp). (n, s) \<in> set spec)) \<and>
      py_len groups = (\<Sum>l\<leftarrow>map snd (same_type_layers spec). cdiv (py_len l) (pick_group_size lo hi)))"
  using grouping_partition [OF assms] by blast

theorem layer_groups_partition_witness:
  "let spec = [(''f0'', demo_full), (''s0'', demo_sliding), (''s1'', demo_sliding)];
       groups = [\<lparr>layer_names = [''f0''], group_spec = demo_full\<rparr>,
         \<lparr>layer_names = [''s0''], group_spec = demo_sliding\<rparr>,
         \<lparr>layer_names = [''s1''], group_spec = demo_sliding\<rparr>]
   in mset (concat (map layer_names groups)) = mset (map fst spec)"
proof -
  let ?spec = "[(''f0'', demo_full), (''s0'', demo_sliding), (''s1'', demo_sliding)]"
  let ?groups = "[\<lparr>layer_names = [''f0''], group_spec = demo_full\<rparr>,
         \<lparr>layer_names = [''s0''], group_spec = demo_sliding\<rparr>,
         \<lparr>layer_names = [''s1''], group_spec = demo_sliding\<rparr>]"
  have "get_kv_cache_groups_uniform_page_size ?spec = Inr ?groups" by code_simp
  from layer_groups_partition [OF this] show ?thesis by (simp only: Let_def)
qed

text \<open>C18. The tensors of a worker's KV cache fit in its memory and use it up: their sizes add up
  to at most the available memory, one more block would not fit, all have the size of the same
  number of pages, and every layer of every group lies in exactly one of them.\<close>

theorem kv_cache_tensors_fit:
  assumes "config_general d cfg groups mem = Inr c" and "num_gpu_blocks_override cfg = None"
    and "0 \<le> mem" and "\<forall>g \<in> set groups. spec_ok d cfg (group_spec g)"
  shows "\<exists>page size. 0 < page \<and> 0 < size \<and>
    sum_list (map tensor_size (kv_cache_tensors c)) = size * (page * num_blocks c) \<and>
    sum_list (map tensor_size (kv_cache_tensors c)) \<le> mem \<and>
    mem < size * (page * (num_blocks c + 1)) \<and>
    (\<forall>t \<in> set (kv_cache_tensors c). tensor_size t = page * num_blocks c) \<and>
    mset (concat (map shared_by (kv_cache_tensors c))) = mset (concat (map layer_names groups))"
  using config_general_facts [OF assms] by metis

theorem kv_cache_tensors_fit_witness:
  "\<exists>c. config_general (\<lambda>_. 2) (demo_config 100) [\<lparr>layer_names = [''a'', ''b''], group_spec = demo_full\<rparr>,
      \<lparr>layer_names = [''c''], group_spec = demo_sliding\<rparr>] 1000 = Inr c \<and>
    sum_list (map tensor_size (kv_cache_tensors c)) \<le> 1000 \<and> num_blocks c = 7"
proof -
  let ?gs = "[\<lparr>layer_names = [''a'', ''b''], group_spec = demo_full\<rparr>,
      \<lparr>layer_names = [''c''], group_spec = demo_sliding\<rparr>]"
  let ?c = "\<lparr>num_blocks = 7, kv_cache_tensors = [\<lparr>tensor_size = 448, shared_by = [''a'', ''c'']\<rparr>,
      \<lparr>tensor_size = 448, shared_by = [''b'']\<rparr>], kv_cache_groups = ?gs\<rparr>"
  have c: "config_general (\<lambda>_. 2) (demo_config 100) ?gs 1000 = Inr ?c" by code_simp
  have "num_gpu_blocks_override (demo_config 100) = None" by (simp add: demo_config_def)
  moreover have "\<forall>g \<in> set ?gs. spec_ok (\<lambda>_. 2) (demo_config 100) (group_spec g)" by (simp add: demo_ok)
  ultimately have "sum_list (map tensor_size (kv_cache_tensors ?c)) \<le> 1000"
    using kv_cache_tensors_fit [OF c] by auto
  with c show ?thesis by (intro exI [of _ ?c]) simp
qed

text \<open>
  All workers end up with the same number of blocks, the smallest that any of them could
  allocate, and every tensor shrinks in exactly that proportion with its layers unchanged.\<close>

theorem worker_configs_agree:
  assumes "get_kv_cache_configs d cfg specs mems = Inr cs'"
  shows "\<exists>cfg' groups cs m. rmapv (worker_config d cfg' groups) (zip specs mems) = Inr cs \<and>
    m \<in> set (map num_blocks cs) \<and> (\<forall>c \<in> set cs. m \<le> num_blocks c) \<and>
    (\<forall>c' \<in> set cs'. num_blocks c' = m) \<and>
    list_all2 (\<lambda>c c'. kv_cache_groups c' = kv_cache_groups c \<and>
      list_all2 (\<lambda>t t'. shared_by t' = shared_by t \<and> tensor_size t' * num_blocks c = tensor_size t * m)
        (kv_cache_tensors c) (kv_cache_tensors c')) cs cs'"
proof -
  obtain cfg' groups cs m where cs: "rmapv (worker_config d cfg' groups) (zip specs mems) = Inr cs"
    "py_min (map num_blocks cs) = Inr m" "rmapv (shrink_config d cfg' m) cs = Inr cs'"
    using assms by (auto simp: get_kv_cache_configs_def res_simps)
  moreover have "\<forall>c' \<in> set cs'. num_blocks c' = m"
    using rmapv_source [OF cs(3)] shrink_config_Inr(1) by fastforce
  moreover have "list_all2 (\<lambda>c c'. kv_cache_groups c' = kv_cache_groups c \<and>
      list_all2 (\<lambda>t t'. shared_by t' = shared_by t \<and> tensor_size t' * num_blocks c = tensor_size t * m)
        (kv_cache_tensors c) (kv_cache_tensors c')) cs cs'"
    using cs(3) [unfolded rmapv_Inr] by (rule list_all2_mono) (use shrink_config_Inr in blast)
  moreover have "m \<in> set (map num_blocks cs)" by (rule py_min_in [OF cs(2)])
  moreover have "\<forall>c \<in> set cs. m \<le> num_blocks c" using py_min_le [OF cs(2)] by simp
  ultimately show ?thesis by blast
qed


theorem worker_configs_agree_witness:
  "\<exists>cs'. get_kv_cache_configs (\<lambda>_. 2) (demo_config 40) [[(''a'', demo_full)], [(''a'', demo_full)]] [500, 320] = Inr cs' \<and>
    (\<exists>m. \<forall>c' \<in> set cs'. num_blocks c' = m)"
proof -
  let ?run = "get_kv_cache_configs (\<lambda>_. 2) (demo_config 40)
    [[(''a'', demo_full)], [(''a'', demo_full)]] [500, 320]"
  have "(case ?run of Inl _ \<Rightarrow> False | Inr _ \<Rightarrow> True)" by code_simp
  then obtain cs' where "?run = Inr cs'" by (auto split: sum.splits)
  with worker_configs_agree [OF this] show ?thesis by blast
qed

end
