(* ===== verification/KV_Properties.thy ===== *)
theory KV_Properties
  imports KV_System Hash_Facts KV_Config_Facts
begin

text \<open>
  The properties of the KV cache manager: what the scheduler may rely on in every reachable state.
\<close>

section \<open>Demonstration instances\<close>

text \<open>A hybrid model with a full attention and a sliding window group, and 8 blocks.\<close>

definition demo_groups :: "kv_cache_group_spec list" where
  "demo_groups = [\<lparr>layer_names = [''a''], group_spec = demo_full\<rparr>,
     \<lparr>layer_names = [''b''], group_spec = demo_sliding\<rparr>]"

definition demo_kcm_of :: "kv_cache_group_spec list \<Rightarrow> kv_cache_manager res" where
  "demo_kcm_of gs = KVCacheManager \<lparr>num_blocks = 8, kv_cache_tensors = [], kv_cache_groups = gs\<rparr>
     100 16 True False False False False 1 1 False"

definition demo_hybrid :: kv_cache_manager where
  "demo_hybrid = (case demo_kcm_of demo_groups of Inr k \<Rightarrow> k | Inl _ \<Rightarrow> undefined)"

definition demo_unitary :: kv_cache_manager where
  "demo_unitary = (case demo_kcm_of [hd demo_groups] of Inr k \<Rightarrow> k | Inl _ \<Rightarrow> undefined)"

lemma demo_kcm:
  "demo_kcm_of demo_groups = Inr demo_hybrid" "demo_kcm_of [hd demo_groups] = Inr demo_unitary"
proof -
  have "\<not> (case demo_kcm_of demo_groups of Inr k \<Rightarrow> False | Inl _ \<Rightarrow> True)" by code_simp
  then show "demo_kcm_of demo_groups = Inr demo_hybrid" by (auto simp: demo_hybrid_def split: sum.splits)
  have "\<not> (case demo_kcm_of [hd demo_groups] of Inr k \<Rightarrow> False | Inl _ \<Rightarrow> True)" by code_simp
  then show "demo_kcm_of [hd demo_groups] = Inr demo_unitary" by (auto simp: demo_unitary_def split: sum.splits)
qed

lemma demo_plain:
  "set gs \<subseteq> set demo_groups \<Longrightarrow> length gs \<le> 2 \<Longrightarrow>
   plain_config \<lparr>num_blocks = 8, kv_cache_tensors = [], kv_cache_groups = gs\<rparr> 16 1 1"
  by (auto simp: plain_config_def demo_groups_def plain_spec_def full_block_size_def demo_full_def demo_sliding_def
      intro: le_less_trans)

lemma demo_reachable: "kv_reachable demo_hybrid" "kv_reachable demo_unitary"
  using demo_kcm [unfolded demo_kcm_of_def] kv_reachable.init [OF _ demo_plain]
  by (force simp: demo_groups_def)+

lemmas demo_init = manager_init [OF demo_plain demo_kcm(1) [unfolded demo_kcm_of_def]]
  manager_init [OF demo_plain demo_kcm(2) [unfolded demo_kcm_of_def]]

section \<open>Allocating slots\<close>

text \<open>C12.
  In every reachable state, a call of \<open>allocate_slots\<close> that follows the scheduler's protocol returns
  without raising, in a reachable state again.  It refuses (\<open>None\<close>) exactly when the blocks the
  groups need are more than the free blocks; otherwise the table of every group covers all tokens
  that need a slot, ends with the newly returned blocks, and the tables of all other requests are
  untouched.
\<close>

theorem allocate_slots_total:
  assumes "kv_reachable k" and "0 < new" and "0 \<le> num_computed_tokens r + n_hit"
    and "num_computed_tokens r + n_hit + new \<le> kcm_max_model_len k" and "0 \<le> look"
    and "schedulable k (request_id r) (num_computed_tokens r + n_hit) hits"
    and "kcm_caching k \<longrightarrow> py_len (block_hashes r) = num_tokens r div hash_block_size (pool_of k)"
  shows "\<exists>res k'. allocate_slots r new n_hit hits look 0 delay enc k = Inr (res, k') \<and> kv_reachable k' \<and>
    slots_result (request_id r)
      (min (num_computed_tokens r + n_hit + new + look) (kcm_max_model_len k))
      (num_computed_tokens r + n_hit) hits k res k'"
proof -
  obtain free where inv: "kcm_inv k free" using kv_reachable_inv [OF assms(1)] by blast
  obtain res k' where 1: "allocate_slots r new n_hit hits look 0 delay enc k = Inr (res, k')"
    "slots_result (request_id r) (min (num_computed_tokens r + n_hit + new + look) (kcm_max_model_len k))
      (num_computed_tokens r + n_hit) hits k res k'"
    using allocate_slots_inv [OF inv assms(2) refl assms(3-6) _ refl, of delay enc] assms(7) by blast
  moreover have "kv_reachable k'"
    by (rule kv_reachable.step [OF assms(1) kv_step.slots [OF 1(1) assms(2-7)]])
  ultimately show ?thesis by blast
qed

definition demo_prompt :: request where
  "demo_prompt = (demo_request [1..20])\<lparr>block_hashes := [[1, 2, 3, 4]]\<rparr>"

theorem allocate_slots_total_witness:
  "\<exists>res k'. allocate_slots demo_prompt 20 0 None 0 0 False 0 demo_hybrid = Inr (res, k') \<and> kv_reachable k' \<and>
    slots_result ''r'' 20 0 None demo_hybrid res k'"
proof -
  have "schedulable demo_hybrid (request_id demo_prompt) (num_computed_tokens demo_prompt + 0) None"
    and "kcm_max_model_len demo_hybrid = 100" and "hash_block_size (pool_of demo_hybrid) = 16"
    by code_simp+
  moreover have "request_id demo_prompt = ''r''" "num_computed_tokens demo_prompt = 0"
    "py_len (block_hashes demo_prompt) = 1" "num_tokens demo_prompt = 20"
    by (simp_all add: demo_prompt_def demo_request_def num_tokens_def py_len_def)
  ultimately show ?thesis
    using allocate_slots_total [OF demo_reachable(1), of 20 demo_prompt 0 0 None False 0] by simp
qed

text \<open>The windows and chunks of the specifications are positive.\<close>

definition positive_window :: "kv_cache_spec \<Rightarrow> bool" where
  "positive_window s \<longleftrightarrow> (case s of SlidingWindowSpec _ _ w \<Rightarrow> 1 \<le> w
     | ChunkedLocalAttentionSpec _ _ c \<Rightarrow> 0 < c | _ \<Rightarrow> True)"

lemma skipped_tokens_le:
  assumes "positive_window (mgr_spec m)" and "0 \<le> l" and "plain m"
  shows "get_num_skipped_tokens m l \<le> l"
proof -
  have "l div c * c \<le> l" if "0 < c" for c
    using that pos_mod_sign [OF that, of l] div_mult_mod_eq [of l c] by linarith
  with assms show ?thesis
    by (auto simp: get_num_skipped_tokens_def positive_window_def plain_def
        split: manager_class.splits kv_cache_spec.splits)
qed

lemma covers_continues:
  assumes "covers rid n m" and "0 \<le> l" "l \<le> n" and "positive_window (mgr_spec m)" and "plain m"
  shows "continues rid l m"
proof -
  have bs: "0 < mgr_block_size m" using assms(5) by (simp add: plain_def)
  have "skipped_blocks m l \<le> l div mgr_block_size m"
    unfolding skipped_blocks_def by (rule zdiv_mono1 [OF skipped_tokens_le [OF assms(4,2,5)] bs])
  also have "\<dots> \<le> py_len (blocks_of m rid)" by (rule covers_full [OF assms(1,3) bs])
  finally show ?thesis by (simp add: continues_def)
qed

text \<open>
  A running request can always be scheduled further: once slots were granted up to token \<open>n\<close>, a
  later call for it without new hits satisfies the precondition of \<open>allocate_slots\<close> for every number
  of computed tokens up to \<open>n\<close>.
\<close>

theorem granted_request_continues:
  assumes "kv_reachable k" and "slots_granted rid n new k" and "0 \<le> l" and "l \<le> n"
    and "\<forall>m \<in> set (groups_of k). positive_window (mgr_spec m)"
  shows "schedulable k rid l None"
proof -
  obtain free where inv: "kcm_inv k free" using kv_reachable_inv [OF assms(1)] by blast
  have "continues rid l m" if "m \<in> set (groups_of k)" for m
  proof (rule covers_continues [OF _ assms(3,4)])
    show "covers rid n m" using assms(2) that by (auto simp: slots_granted_def in_set_conv_nth)
  qed (use that assms(5) inv in \<open>auto simp: kcm_inv_def group_ok_def\<close>)
  with inv show ?thesis by (simp add: schedulable_def no_hits_def hit_lists_def kcm_inv_def)
qed

theorem granted_request_continues_witness: "schedulable demo_hybrid ''r'' 0 None"
proof (rule granted_request_continues [OF demo_reachable(1), where n = 0 and new = "EmptyKVCacheBlocks 2"])
  show "slots_granted ''r'' 0 (EmptyKVCacheBlocks 2) demo_hybrid"
  proof -
    have "length (groups_of demo_hybrid) = 2" "map (\<lambda>m. blocks_of m ''r'') (groups_of demo_hybrid) = [[], []]"
      by code_simp+
    then show ?thesis
      by (auto simp: slots_granted_def covers_def py_len_def less_2_cases_iff map_eq_Cons_conv)
  qed
  have "list_all (\<lambda>m. positive_window (mgr_spec m)) (groups_of demo_hybrid)" by code_simp
  then show "\<forall>m \<in> set (groups_of demo_hybrid). positive_window (mgr_spec m)" by (simp add: list_all_iff)
qed simp_all

section \<open>Conservation\<close>

text \<open>C13.
  No block is leaked or handed out twice: in every reachable state the free blocks and the blocks
  in the tables of the requests are disjoint and together are all blocks but the null block, and
  \<open>get_num_free_blocks\<close> is the number of the former.
\<close>

theorem kv_blocks_conserved:
  assumes "kv_reachable k"
  shows "get_num_free_blocks (pool_of k) + int (card (table_blocks k)) = num_gpu_blocks (pool_of k) - 1 \<and>
    (\<exists>free. get_all_free_blocks (free_block_queue (pool_of k)) = Some (Inr free) \<and>
       set free \<inter> table_blocks k = {} \<and> set free \<union> table_blocks k = usable (pool_of k))"
proof -
  obtain free where inv: "kcm_inv k free" using kv_reachable_inv [OF assms] by blast
  have "queue_inv (free_block_queue (pool_of k)) free" using kcm_inv_pool_inv [OF inv] by (simp add: pool_inv_def)
  with blocks_conserved [OF inv] kcm_free [OF inv] get_all_free_blocks_inv show ?thesis by auto
qed

theorem kv_blocks_conserved_witness:
  "get_num_free_blocks (pool_of demo_hybrid) + int (card (table_blocks demo_hybrid)) =
     num_gpu_blocks (pool_of demo_hybrid) - 1"
  using kv_blocks_conserved [OF demo_reachable(1)] by blast

text \<open>C16.
  A block is shared only through the prefix cache: a block (other than the null block) that is in
  the tables of two requests, or of one request in two groups, lies in the part of the table that
  is counted as cached.  In particular a block that is still being filled belongs to one request.
\<close>

theorem shared_blocks_are_cached:
  assumes "kv_reachable k" and "a < length (groups_of k)" and "a' < length (groups_of k)"
    and "i < length (blocks_of (groups_of k ! a) rid)"
    and "blocks_of (groups_of k ! a) rid ! i \<in> set (blocks_of (groups_of k ! a') rid')"
    and "blocks_of (groups_of k ! a) rid ! i \<noteq> null_block (pool_of k)" and "(a, rid) \<noteq> (a', rid')"
  shows "\<exists>n. map_of (num_cached_block (groups_of k ! a)) rid = Some n \<and> int i < n"
proof -
  obtain free where inv: "kcm_inv k free" using kv_reachable_inv [OF assms(1)] by blast
  from shared_cached [OF inv assms(2,3,4) refl assms(5-7)] show ?thesis
    by (cases "map_of (num_cached_block (groups_of k ! a)) rid") (simp_all add: n_cached_def)
qed

section \<open>Freeing and resetting\<close>

text \<open>C20.
  Freeing a request never raises: its table entries are gone from every group, the other requests
  keep theirs, and no block loses its hash, so its full blocks stay in the prefix cache.
\<close>

theorem free_request_releases:
  assumes "kv_reachable k"
  shows "\<exists>k'. free_request r k = Inr k' \<and> kv_reachable k' \<and>
    coord_get_blocks (request_id r) (kcm_coord k') = replicate (length (groups_of k)) [] \<and>
    (\<forall>rid. rid \<noteq> request_id r \<longrightarrow> coord_get_blocks rid (kcm_coord k') = coord_get_blocks rid (kcm_coord k)) \<and>
    hash_of (pool_of k') = hash_of (pool_of k)"
proof -
  obtain free where inv: "kcm_inv k free" using kv_reachable_inv [OF assms] by blast
  obtain k' where k': "free_request r k = Inr k'" "length (groups_of k') = length (groups_of k)"
    "hash_of (pool_of k') = hash_of (pool_of k)"
    "\<forall>j < length (groups_of k). others_same (request_id r) (groups_of k ! j) (groups_of k' ! j) \<and>
       map_of (req_to_blocks (groups_of k' ! j)) (request_id r) = None"
    using free_kcm_inv [OF inv, of r] by blast
  have "kv_reachable k'" by (rule kv_reachable.step [OF assms kv_step.free [OF k'(1)]])
  moreover have "coord_get_blocks (request_id r) (kcm_coord k') = replicate (length (groups_of k)) []"
    using k'(2,4) by (intro nth_equalityI) (simp_all add: coord_get_blocks_def groups_of_def blocks_of_def)
  moreover have "coord_get_blocks rid (kcm_coord k') = coord_get_blocks rid (kcm_coord k)"
    if "rid \<noteq> request_id r" for rid
    using k'(2,4) that
    by (intro nth_equalityI) (auto simp: coord_get_blocks_def groups_of_def others_same_def)
  ultimately show ?thesis using k'(1,3) by blast
qed

theorem free_request_releases_witness:
  "\<exists>k'. free_request demo_prompt demo_hybrid = Inr k' \<and> kv_reachable k'"
  using free_request_releases [OF demo_reachable(1), of demo_prompt] by blast

text \<open>
  Resetting the prefix cache succeeds exactly when no request holds a block, and then no lookup
  hits any more; when it fails, nothing but the answer is returned.
\<close>

theorem reset_prefix_cache_complete:
  assumes "kv_reachable k" and "kcm_log_stats k \<longrightarrow> kcm_stats k \<noteq> None"
  shows "\<exists>done k'. kcm_reset_prefix_cache k = Inr (done, k') \<and> kv_reachable k' \<and>
    (done \<longleftrightarrow> table_blocks k = {}) \<and>
    (done \<longrightarrow> (\<forall>h g. 0 \<le> g \<and> g < 2 ^ 32 \<longrightarrow> get_cached_block h [g] (pool_of k') = Inr None))"
proof -
  obtain free where inv: "kcm_inv k free" using kv_reachable_inv [OF assms(1)] by blast
  obtain d k' where r: "kcm_reset_prefix_cache k = Inr (d, k')" "kcm_inv k' free"
    "d \<longleftrightarrow> py_len free = num_gpu_blocks (pool_of k) - 1"
    "d \<longrightarrow> (\<forall>b \<in> usable (pool_of k'). hash_of (pool_of k') b = None)"
    using reset_kcm_inv [OF inv assms(2)] by blast
  have reach: "kv_reachable k'" by (rule kv_reachable.step [OF assms(1) kv_step.reset [OF r(1) assms(2)]])
  have "finite (usable (pool_of k))" by (simp add: usable_def)
  then have "finite (table_blocks k)" using blocks_conserved(2) [OF inv] by (metis finite_Un)
  then have d: "d \<longleftrightarrow> table_blocks k = {}"
    using r(3) blocks_conserved(3) [OF inv] by auto
  have "get_cached_block h [g] (pool_of k') = Inr None" if "d" "0 \<le> g" "g < 2 ^ 32" for h g
  proof -
    have "\<forall>x \<in> set [g]. 0 \<le> x \<and> x < 2 ^ 32" using that by simp
    from get_cached_block_total [OF kcm_inv_pool_inv [OF r(2)] this, of h] r(4) that(1)
    show ?thesis by auto
  qed
  with r(1) reach d show ?thesis by blast
qed

theorem reset_prefix_cache_complete_witness:
  "\<exists>done k'. kcm_reset_prefix_cache demo_hybrid = Inr (done, k') \<and> (done \<longleftrightarrow> table_blocks demo_hybrid = {})"
proof -
  have "\<not> kcm_log_stats demo_hybrid" by code_simp
  then show ?thesis using reset_prefix_cache_complete [OF demo_reachable(1)] by blast
qed

section \<open>Prefix cache hits\<close>

text \<open>C14.
  A new request of a model with one full attention group finds, without raising, the longest run of
  its leading blocks that are in the prefix cache (one block less for EAGLE), always leaving at least
  one token to compute; every returned block carries the hash of its position.  With what the lookup
  returned, the following call of \<open>allocate_slots\<close> never raises.
\<close>

theorem lookup_then_allocate:
  assumes "kv_reachable k" and "unitary_full k m g" and "0 < num_tokens r" and "num_computed_tokens r = 0"
    and "py_len (block_hashes r) = num_tokens r div unitary_block_size (kcm_coord k)" and "distinct (block_hashes r)"
    and "\<not> skip_reading_prefix_cache r" and "kcm_log_stats k \<longrightarrow> kcm_stats k \<noteq> None"
    and "map_of (num_cached_block m) (request_id r) = None" and "blocks_of m (request_id r) = []"
  shows "\<exists>hits n h k1. get_computed_blocks r k = Some (Inr ((hits, n * unitary_block_size (kcm_coord k)), k1)) \<and>
    prefix_hit k r h n hits \<and> 0 \<le> n \<and> n * unitary_block_size (kcm_coord k) < num_tokens r \<and>
    (\<forall>new look delay enc. 0 < new \<and> 0 \<le> look \<and>
       n * unitary_block_size (kcm_coord k) + new \<le> kcm_max_model_len k1 \<longrightarrow>
       (\<exists>res k2. allocate_slots r new (n * unitary_block_size (kcm_coord k)) (Some hits) look 0 delay enc k1 =
          Inr (res, k2) \<and> kv_reachable k2))"
proof -
  let ?bs = "unitary_block_size (kcm_coord k)"
  obtain free where inv: "kcm_inv k free" using kv_reachable_inv [OF assms(1)] by blast
  have bs: "0 < ?bs" "hash_block_size (pool_of k) = ?bs"
    using inv assms(2) by (simp_all add: kcm_inv_def unitary_full_def)
  obtain hits n h k1 where 1: "get_computed_blocks r k = Some (Inr ((hits, n * ?bs), k1))"
    "prefix_hit k r h n hits" "kcm_coord k1 = kcm_coord k" "hits = create_kv_cache_blocks k (group_blocks hits)"
    "num_kv_cache_groups k1 = num_kv_cache_groups k"
    using get_computed_full [OF inv assms(2,3,5,7,8)] by blast
  have h: "0 \<le> h" "h \<le> (num_tokens r - 1) div ?bs \<or> h = 0" and n: "0 \<le> n" "n \<le> h"
    using 1(2) by (auto simp: prefix_hit_def longest_run_def)
  have "0 \<le> (num_tokens r - 1) div ?bs" using assms(3) bs by (simp add: pos_imp_zdiv_nonneg_iff)
  then have "n \<le> (num_tokens r - 1) div ?bs" using h n by linarith
  then have "n * ?bs \<le> (num_tokens r - 1) div ?bs * ?bs" using bs by simp
  also have "\<dots> \<le> num_tokens r - 1"
    using div_mult_mod_eq [of "num_tokens r - 1" ?bs] pos_mod_sign [OF bs(1), of "num_tokens r - 1"] by linarith
  finally have less: "n * ?bs < num_tokens r" by simp
  have k1: "kv_reachable k1" by (rule kv_reachable.step [OF assms(1) kv_step.lookup [OF 1(1)]])
  have shared: "is_shared_empty hits \<Longrightarrow> hits = EmptyKVCacheBlocks (num_kv_cache_groups k)"
    using 1(4) by (metis create_kv_cache_blocks_def is_shared_empty.simps(2))
  have sched: "schedulable k1 (request_id r) l (Some hits)" for l
    by (rule prefix_hit_schedulable [OF inv assms(2) 1(2) assms(5,3,6,9,10) shared 1(3,5)])
  have "\<exists>res k2. allocate_slots r new (n * ?bs) (Some hits) look 0 delay enc k1 = Inr (res, k2) \<and> kv_reachable k2"
    if a: "0 < new" "0 \<le> look" "n * ?bs + new \<le> kcm_max_model_len k1" for new look delay enc
  proof -
    obtain free1 where inv1: "kcm_inv k1 free1" using kv_reachable_inv [OF k1] by blast
    have l: "n * ?bs = num_computed_tokens r + n * ?bs" "0 \<le> n * ?bs" using assms(4) n bs by simp_all
    have hash: "py_len (block_hashes r) = num_tokens r div hash_block_size (pool_of k1)"
      using assms(5) bs(2) 1(3) by (simp add: pool_of_def)
    obtain res k2 where 2: "allocate_slots r new (n * ?bs) (Some hits) look 0 delay enc k1 = Inr (res, k2)"
      using allocate_slots_inv [OF inv1 a(1) l a(3,2) sched hash refl, of delay enc] by blast
    have "kv_reachable k2"
      by (rule kv_reachable.step [OF k1 kv_step.slots [OF 2 a(1)]]) (use l a sched hash assms(4) in simp_all)
    with 2 show ?thesis by blast
  qed
  with 1(1,2) n(1) less show ?thesis by blast
qed

text \<open>Two requests with the same prompt: the second one shares the first block of the first one.\<close>

definition demo_first :: kv_cache_manager where
  "demo_first = (case allocate_slots demo_prompt 20 0 None 0 0 False 0 demo_unitary of
     Inr (_, k) \<Rightarrow> k | Inl _ \<Rightarrow> undefined)"

definition demo_second_prompt :: request where
  "demo_second_prompt = demo_prompt\<lparr>request_id := ''s''\<rparr>"

definition demo_second :: kv_cache_manager where
  "demo_second = (case allocate_slots demo_second_prompt 4 16 (Some (KVCacheBlocks [[Blk 1]])) 0 0 False 0 demo_first of
     Inr (_, k) \<Rightarrow> k | Inl _ \<Rightarrow> undefined)"

lemma demo_first_run:
  "\<exists>res. allocate_slots demo_prompt 20 0 None 0 0 False 0 demo_unitary = Inr (res, demo_first)"
proof -
  have "\<not> (case allocate_slots demo_prompt 20 0 None 0 0 False 0 demo_unitary of Inr x \<Rightarrow> False | Inl _ \<Rightarrow> True)"
    by code_simp
  then show ?thesis by (auto simp: demo_first_def split: sum.splits)
qed

lemma demo_first_reachable: "kv_reachable demo_first"
proof -
  obtain res where run: "allocate_slots demo_prompt 20 0 None 0 0 False 0 demo_unitary = Inr (res, demo_first)"
    using demo_first_run by blast
  have "schedulable demo_unitary (request_id demo_prompt) (num_computed_tokens demo_prompt + 0) None"
    and "kcm_max_model_len demo_unitary = 100" and "hash_block_size (pool_of demo_unitary) = 16"
    by code_simp+
  moreover have "num_computed_tokens demo_prompt = 0"
    "py_len (block_hashes demo_prompt) = 1" "num_tokens demo_prompt = 20"
    by (simp_all add: demo_prompt_def demo_request_def num_tokens_def py_len_def)
  ultimately show ?thesis
    by (intro kv_reachable.step [OF demo_reachable(2) kv_step.slots [OF run]]) simp_all
qed

lemma demo_first_unitary:
  "\<exists>m. unitary_full demo_first m (hd demo_groups) \<and> groups_of demo_first = [m] \<and>
     map_of (num_cached_block m) ''s'' = None \<and> blocks_of m ''s'' = []"
proof -
  have "(case groups_of demo_first of [m] \<Rightarrow> map_of (num_cached_block m) ''s'' = None \<and> blocks_of m ''s'' = [] \<and>
      unitary_full demo_first m (hd demo_groups) | _ \<Rightarrow> False)" by code_simp
  then show ?thesis by (auto split: list.splits)
qed

theorem lookup_then_allocate_witness:
  "\<exists>hits n h k1. get_computed_blocks demo_second_prompt demo_first = Some (Inr ((hits, n * 16), k1)) \<and>
    prefix_hit demo_first demo_second_prompt h n hits"
proof -
  obtain m where m: "unitary_full demo_first m (hd demo_groups)"
    "map_of (num_cached_block m) ''s'' = None" "blocks_of m ''s'' = []"
    using demo_first_unitary by blast
  have bs: "unitary_block_size (kcm_coord demo_first) = 16" and st: "\<not> kcm_log_stats demo_first" by code_simp+
  have r: "request_id demo_second_prompt = ''s''" "num_tokens demo_second_prompt = 20"
    "num_computed_tokens demo_second_prompt = 0" "block_hashes demo_second_prompt = [[1, 2, 3, 4]]"
    "skip_reading_prefix_cache demo_second_prompt = False"
    by (simp_all add: demo_second_prompt_def demo_prompt_def demo_request_def num_tokens_def py_len_def)
  from lookup_then_allocate [OF demo_first_reachable m(1), of demo_second_prompt] m(2,3) st
  show ?thesis unfolding bs r by (auto simp: py_len_def)
qed

lemma demo_second_prompt:
  "request_id demo_second_prompt = ''s''" "num_computed_tokens demo_second_prompt = 0"
  "py_len (block_hashes demo_second_prompt) = 1" "num_tokens demo_second_prompt = 20"
  by (simp_all add: demo_second_prompt_def demo_prompt_def demo_request_def num_tokens_def py_len_def)

text \<open>The blocks of the second request, from the law of \<open>allocate_slots\<close>: its check passes.\<close>

lemma demo_second_run:
  "\<exists>b new. allocate_slots demo_second_prompt 4 16 (Some (KVCacheBlocks [[Blk 1]])) 0 0 False 0 demo_first =
      Inr (Some b, demo_second) \<and> kv_reachable demo_second \<and> length (groups_of demo_second) = 1 \<and>
    null_block (pool_of demo_second) = Blk 0 \<and>
    blocks_of (groups_of demo_second ! 0) ''s'' = Blk 1 # new \<and>
    blocks_of (groups_of demo_second ! 0) ''r'' = [Blk 1, Blk 2]"
proof -
  let ?hits = "Some (KVCacheBlocks [[Blk 1]])"
  let ?run = "allocate_slots demo_second_prompt 4 16 ?hits 0 0 False 0 demo_first"
  obtain free where inv: "kcm_inv demo_first free" using kv_reachable_inv [OF demo_first_reachable] by blast
  have sched: "schedulable demo_first ''s'' 16 ?hits" and len: "kcm_max_model_len demo_first = 100"
    and hbs: "hash_block_size (pool_of demo_first) = 16" and null: "null_block (pool_of demo_first) = Blk 0"
    and one: "length (groups_of demo_first) = 1"
    and row: "blocks_of (groups_of demo_first ! 0) ''r'' = [Blk 1, Blk 2]"
      "hit_row (Blk 0) 16 (groups_of demo_first ! 0) [Blk 1] = [Blk 1]"
    by code_simp+
  have fits: "(case coord_remove_skipped_blocks ''s'' 16 (kcm_coord demo_first) of
      Inr c \<Rightarrow> (case coord_num_blocks_to_allocate ''s'' 20 [[Blk 1]] 0 16 20 c of
          Inr (n, c') \<Rightarrow> n \<le> get_num_free_blocks (coord_pool c') | Inl _ \<Rightarrow> False) | Inl _ \<Rightarrow> False)"
    by code_simp
  have "\<exists>res k' free'. ?run = Inr (res, k') \<and> kcm_inv k' free' \<and>
      slots_result (request_id demo_second_prompt) 20 16 ?hits demo_first res k'"
    by (rule allocate_slots_inv [OF inv]) (use sched in \<open>simp_all add: demo_second_prompt len hbs\<close>)
  then obtain res k' where k': "?run = Inr (res, k')" "slots_result ''s'' 20 16 ?hits demo_first res k'"
    unfolding demo_second_prompt by blast
  have "res \<noteq> None"
  proof
    assume "res = None"
    with k'(1) fits show False
      by (auto simp: allocate_slots_def Let_def demo_second_prompt len res_simps
          split: if_splits sum.splits)
  qed
  then obtain b where b: "?run = Inr (Some b, demo_second)" using k'(1) by (auto simp: demo_second_def)
  have "kv_reachable demo_second"
    by (rule kv_reachable.step [OF demo_first_reachable kv_step.slots [OF b]])
      (use sched in \<open>simp_all add: demo_second_prompt len hbs\<close>)
  moreover have sr: "slots_result ''s'' 20 16 ?hits demo_first (Some b) demo_second" using k' b by simp
  moreover have "blocks_of (groups_of demo_second ! 0) ''r'' = [Blk 1, Blk 2]"
    using sr one row(1) by (simp add: slots_result_def others_same_def)
  moreover have "null_block (pool_of demo_second) = Blk 0"
    using sr null confD(1) [of "pool_of demo_second" "pool_of demo_first"] by (simp add: slots_result_def)
  moreover have "\<exists>new. blocks_of (groups_of demo_second ! 0) ''s'' = Blk 1 # new"
    using sr one row(2) by (auto simp: slots_result_def table_start_def no_hits_def hit_lists_def null)
  ultimately show ?thesis using b one by (auto simp: slots_result_def)
qed

theorem shared_blocks_are_cached_witness:
  "\<exists>n. map_of (num_cached_block (groups_of demo_second ! 0)) ''s'' = Some n \<and> int 0 < n"
proof -
  obtain new where d: "kv_reachable demo_second" "length (groups_of demo_second) = 1"
    "null_block (pool_of demo_second) = Blk 0" "blocks_of (groups_of demo_second ! 0) ''s'' = Blk 1 # new"
    "blocks_of (groups_of demo_second ! 0) ''r'' = [Blk 1, Blk 2]"
    using demo_second_run by blast
  show ?thesis
    by (rule shared_blocks_are_cached [OF d(1), where a' = 0 and rid' = "''r''"]) (simp_all add: d)
qed

end
