(* ===== verification/Tensor_Ops.thy ===== *)
theory Tensor_Ops
  imports Prelude
begin

text \<open>
  The operations on one-dimensional integer tensors that the token selection and the token drop
  use, on lists.  Indexing with a list of positions raises on a position out of range.
\<close>

section \<open>Operations\<close>

text \<open>\<open>cu[1:] - cu[:-1]\<close>: the lengths of the sequences whose borders are \<open>cu\<close>.\<close>

definition seq_diff :: "int list \<Rightarrow> int list" where
  "seq_diff cu = map2 (-) (tl cu) (butlast cu)"

fun cumsum_from :: "int \<Rightarrow> int list \<Rightarrow> int list" where
  "cumsum_from a [] = []"
| "cumsum_from a (x # xs) = (a + x) # cumsum_from (a + x) xs"

text \<open>\<open>cu = zeros(n + 1); cu[1:] = cumsum(lens)\<close>.\<close>

definition cu_of :: "int list \<Rightarrow> int list" where
  "cu_of lens = 0 # cumsum_from 0 lens"

definition arange :: "int \<Rightarrow> int list" where
  "arange n = map int [0..<nat n]"

definition nonzero :: "bool list \<Rightarrow> int list" where
  "nonzero keep = map int (filter (\<lambda>i. keep ! i) [0..<length keep])"

definition gather :: "'a list \<Rightarrow> int list \<Rightarrow> 'a list res" where
  "gather xs idx = rmapv (py_get xs) idx"

text \<open>\<open>xs[idx] = vals\<close>, with as many values as positions.\<close>

definition put :: "int list \<Rightarrow> 'a list \<Rightarrow> 'a list \<Rightarrow> 'a list res" where
  "put idx vals xs =
     (if length idx \<noteq> length vals then Inl RuntimeError
      else rfold (\<lambda>(i, v) ys. py_set ys i v) (zip idx vals) xs)"

definition repeat_interleave :: "'a list \<Rightarrow> int list \<Rightarrow> 'a list res" where
  "repeat_interleave xs ns =
     (if length xs \<noteq> length ns \<or> list_ex (\<lambda>n. n < 0) ns then Inl RuntimeError
      else Inr (concat (map2 (\<lambda>x n. replicate (nat n) x) xs ns)))"

text \<open>The difference of two vectors with broadcasting of a vector of length 1.\<close>

definition tensor_sub :: "int list \<Rightarrow> int list \<Rightarrow> int list res" where
  "tensor_sub xs ys =
     (if length xs = length ys then Inr (map2 (-) xs ys)
      else if length xs = 1 then Inr (map (\<lambda>y. hd xs - y) ys)
      else if length ys = 1 then Inr (map (\<lambda>x. x - hd ys) xs)
      else Inl RuntimeError)"

text \<open>\<open>xs[keep]\<close> for a boolean mask of the length of \<open>xs\<close>.\<close>

definition mask_select :: "bool list \<Rightarrow> 'a list \<Rightarrow> 'a list res" where
  "mask_select keep xs =
     (if length keep \<noteq> length xs then Inl IndexError
      else Inr (map fst (filter snd (zip xs keep))))"

fun max_list :: "int list \<Rightarrow> int res" where
  "max_list [] = Inl RuntimeError"
| "max_list (x # xs) = Inr (fold max xs x)"

section \<open>Borders and lengths\<close>

lemma cumsum_from_snoc: "cumsum_from a (xs @ [x]) = cumsum_from a xs @ [a + sum_list xs + x]"
  by (induction xs arbitrary: a) (simp_all add: algebra_simps)

lemma cu_of_snoc: "cu_of (xs @ [x]) = cu_of xs @ [sum_list xs + x]"
  by (simp add: cu_of_def cumsum_from_snoc)

lemma cu_of_Nil [simp]: "cu_of [] = [0]"
  by (simp add: cu_of_def)

lemma length_cumsum_from [simp]: "length (cumsum_from a xs) = length xs"
  by (induction xs arbitrary: a) simp_all

lemma length_cu_of [simp]: "length (cu_of xs) = Suc (length xs)"
  by (simp add: cu_of_def)

lemma cu_of_nth: "i \<le> length xs \<Longrightarrow> cu_of xs ! i = sum_list (take i xs)"
proof (induction xs rule: rev_induct)
  case (snoc x xs)
  then show ?case by (cases "i = Suc (length xs)") (simp_all add: cu_of_snoc nth_append)
qed simp

lemma last_cu_of [simp]: "last (cu_of xs) = sum_list xs"
  by (cases xs rule: rev_cases) (simp_all add: cu_of_snoc)

lemma seq_diff_length [simp]: "length (seq_diff cu) = length cu - 1"
  by (simp add: seq_diff_def)

lemma seq_diff_nth: "i < length cu - 1 \<Longrightarrow> seq_diff cu ! i = cu ! Suc i - cu ! i"
  by (simp add: seq_diff_def nth_tl nth_butlast)

lemma seq_diff_cu_of [simp]: "seq_diff (cu_of xs) = xs"
  by (rule nth_equalityI)
    (simp_all add: seq_diff_nth cu_of_nth take_Suc_conv_app_nth)

text \<open>Borders that start at 0 are determined by the lengths.\<close>

lemma cu_of_seq_diff: "cu \<noteq> [] \<Longrightarrow> hd cu = 0 \<Longrightarrow> cu_of (seq_diff cu) = cu"
proof (induction cu rule: rev_induct)
  case (snoc x cu)
  show ?case
  proof (cases "cu = []")
    case False
    then have IH: "cu_of (seq_diff cu) = cu" using snoc by simp
    have "seq_diff (cu @ [x]) = seq_diff cu @ [x - last cu]"
      using False
      by (cases cu rule: rev_cases; intro nth_equalityI)
        (auto simp: seq_diff_nth nth_append less_Suc_eq)
    moreover have "sum_list (seq_diff cu) = last cu" using IH last_cu_of [of "seq_diff cu"] by simp
    ultimately show ?thesis by (simp add: cu_of_snoc IH)
  qed (use snoc in \<open>simp add: seq_diff_def\<close>)
qed simp

section \<open>Indexing\<close>

lemma gather_ok:
  "\<forall>i \<in> set idx. 0 \<le> i \<and> i < py_len xs \<Longrightarrow> gather xs idx = Inr (map (\<lambda>i. xs ! nat i) idx)"
  unfolding gather_def by (rule rmapv_pure) simp

lemma put_ok:
  assumes "length idx = length vals" and "\<forall>i \<in> set idx. 0 \<le> i \<and> i < py_len xs"
  shows "put idx vals xs = Inr (fold (\<lambda>(i, v) ys. ys[nat i := v]) (zip idx vals) xs)"
proof -
  have "rfold (\<lambda>(i, v) ys. py_set ys i v) ps ys = Inr (fold (\<lambda>(i, v) ys. ys[nat i := v]) ps ys)"
    if "\<forall>(i, v) \<in> set ps. 0 \<le> i \<and> i < py_len ys" for ps :: "(int \<times> 'a) list" and ys
    using that
  proof (induction ps arbitrary: ys)
    case (Cons p ps)
    then show ?case by (cases p) (auto simp: py_set_def py_len_def Let_def)
  qed simp
  moreover have "\<forall>(i, v) \<in> set (zip idx vals). 0 \<le> i \<and> i < py_len xs"
    using assms(2) by (auto dest: set_zip_leftD)
  ultimately show ?thesis using assms(1) by (simp add: put_def)
qed

lemma fold_update_length [simp]: "length (fold (\<lambda>(i, v) ys. ys[f i := v]) ps xs) = length xs"
  by (induction ps arbitrary: xs) auto

lemma fold_update_other:
  "\<forall>(i, v) \<in> set ps. f i \<noteq> k \<Longrightarrow> fold (\<lambda>(i, v) ys. ys[f i := v]) ps xs ! k = xs ! k"
  by (induction ps arbitrary: xs) auto

lemma fold_update_at:
  assumes "(i, v) \<in> set ps" and "f i < length xs" and "\<forall>(j, w) \<in> set ps. f j = f i \<longrightarrow> w = v"
  shows "fold (\<lambda>(i, v) ys. ys[f i := v]) ps xs ! f i = v"
  using assms
proof (induction ps arbitrary: i xs)
  case (Cons p ps)
  obtain j w where p: "p = (j, w)" by fastforce
  show ?case
  proof (cases "\<exists>(a, b) \<in> set ps. f a = f i")
    case True
    then obtain a b where ab: "(a, b) \<in> set ps" "f a = f i" by auto
    with Cons.prems(3) have b: "b = v" by auto
    have "fold (\<lambda>(i, v) ys. ys[f i := v]) ps (xs[f j := w]) ! f a = v"
      by (rule Cons.IH) (use ab b Cons.prems in auto)
    with p ab show ?thesis by simp
  next
    case False
    then have "p = (i, v)" using Cons.prems(1) by auto
    moreover have "fold (\<lambda>(i, v) ys. ys[f i := v]) ps (xs[f i := v]) ! f i = xs[f i := v] ! f i"
      by (rule fold_update_other) (use False in fastforce)
    ultimately show ?thesis using Cons.prems(2) by simp
  qed
qed simp

section \<open>The tokens of a batch\<close>

text \<open>
  The tokens of sequences of the given lengths, in order, as pairs of the sequence and the place
  in it.  The sequence of the token at position \<open>k\<close> is what \<open>repeat_interleave\<close> computes, its
  place what the subtraction of the border gives.
\<close>

definition segs :: "int list \<Rightarrow> (nat \<times> nat) list" where
  "segs lens = concat (map (\<lambda>i. map (Pair i) [0..<nat (lens ! i)]) [0..<length lens])"

lemma segs_Nil [simp]: "segs [] = []"
  by (simp add: segs_def)

lemma segs_snoc: "segs (xs @ [x]) = segs xs @ map (Pair (length xs)) [0..<nat x]"
proof -
  have "map (\<lambda>i. map (Pair i) [0..<nat ((xs @ [x]) ! i)]) [0..<length xs] =
      map (\<lambda>i. map (Pair i) [0..<nat (xs ! i)]) [0..<length xs]"
    by (simp add: nth_append)
  then show ?thesis by (simp add: segs_def del: map_eq_conv)
qed

lemma segs_mem: "(i, t) \<in> set (segs lens) \<longleftrightarrow> i < length lens \<and> int t < lens ! i"
  by (auto simp: segs_def image_iff zless_nat_eq_int_zless)

lemma sum_nonneg: "\<forall>x \<in> set xs. 0 \<le> x \<Longrightarrow> 0 \<le> sum_list (xs :: int list)"
  by (induction xs) auto

lemma length_segs: "\<forall>x \<in> set xs. 0 \<le> x \<Longrightarrow> int (length (segs xs)) = sum_list xs"
  by (induction xs rule: rev_induct) (simp_all add: segs_snoc)

lemma segs_fst: "\<forall>x \<in> set xs. 0 \<le> x \<Longrightarrow>
    repeat_interleave (arange (py_len xs)) xs = Inr (map (int \<circ> fst) (segs xs))"
proof -
  assume nn: "\<forall>x \<in> set xs. 0 \<le> x"
  have "concat (map2 (\<lambda>x n. replicate (nat n) x) (arange (py_len xs)) xs) = map (int \<circ> fst) (segs xs)"
    by (induction xs rule: rev_induct)
      (simp_all add: segs_snoc arange_def py_len_def nat_add_distrib map_replicate_const comp_def)
  with nn show ?thesis by (auto simp: repeat_interleave_def arange_def py_len_def list_ex_iff)
qed

lemma segs_position: "\<forall>x \<in> set xs. 0 \<le> x \<Longrightarrow>
    map (\<lambda>(i, t). cu_of xs ! i + int t) (segs xs) = arange (sum_list xs)"
proof (induction xs rule: rev_induct)
  case (snoc x xs)
  have "map (\<lambda>(i, t). cu_of (xs @ [x]) ! i + int t) (segs xs) = map (\<lambda>(i, t). cu_of xs ! i + int t) (segs xs)"
    by (auto simp: cu_of_snoc segs_mem nth_append)
  moreover have "cu_of (xs @ [x]) ! length xs = sum_list xs" by (simp add: cu_of_nth)
  moreover have "arange (sum_list xs + x) = arange (sum_list xs) @ map (\<lambda>t. sum_list xs + int t) [0..<nat x]"
    using snoc.prems sum_nonneg [of xs]
    by (intro nth_equalityI) (auto simp: arange_def nth_append nat_add_distrib)
  ultimately show ?case using snoc by (simp add: segs_snoc)
qed (simp add: arange_def)

lemma intra_positions:
  assumes "\<forall>x \<in> set xs. 0 \<le> x"
  shows "rbind (gather (cu_of xs) (map (int \<circ> fst) (segs xs))) (tensor_sub (arange (sum_list xs))) =
    Inr (map (int \<circ> snd) (segs xs))"
proof -
  have "gather (cu_of xs) (map (int \<circ> fst) (segs xs)) = Inr (map (\<lambda>(i, t). cu_of xs ! i) (segs xs))"
    by (subst gather_ok) (auto simp: segs_mem py_len_def)
  moreover have "tensor_sub (map (\<lambda>(i, t). cu_of xs ! i + int t) (segs xs)) (map (\<lambda>(i, t). cu_of xs ! i) (segs xs)) =
      Inr (map (int \<circ> snd) (segs xs))"
    by (simp add: tensor_sub_def) (auto simp: zip_map_map zip_same_conv_map)
  ultimately show ?thesis using segs_position [OF assms] by simp
qed

text \<open>The position of a token determines the token.\<close>

lemma cu_of_Suc: "i < length xs \<Longrightarrow> cu_of xs ! Suc i = cu_of xs ! i + xs ! i"
  by (simp add: cu_of_nth take_Suc_conv_app_nth)

lemma cu_of_mono: "\<forall>x \<in> set xs. 0 \<le> x \<Longrightarrow> i \<le> j \<Longrightarrow> j \<le> length xs \<Longrightarrow> cu_of xs ! i \<le> cu_of xs ! j"
proof (induction j)
  case (Suc j)
  then show ?case by (cases "i = Suc j") (auto simp: cu_of_Suc intro: order_trans)
qed simp

lemma token_inj:
  assumes "\<forall>x \<in> set xs. 0 \<le> x" and "(i, t) \<in> set (segs xs)" and "(i', t') \<in> set (segs xs)"
    and "cu_of xs ! i + int t = cu_of xs ! i' + int t'"
  shows "i = i' \<and> t = t'"
proof -
  have less: "cu_of xs ! i + int t < cu_of xs ! i' + int t'"
    if "i < i'" "(i, t) \<in> set (segs xs)" "(i', t') \<in> set (segs xs)" for i i' t t'
    using cu_of_mono [OF assms(1), of "Suc i" i'] that by (auto simp: segs_mem cu_of_Suc)
  have "i = i'"
    using less [of i i' t t'] less [of i' i t' t] assms(2-4) by (cases i i' rule: linorder_cases) auto
  with assms(4) show ?thesis by simp
qed

end
