(* ===== verification/Token_Selection.thy ===== *)
theory Token_Selection
  imports Tensor_Ops
begin

unbundle bit_operations_syntax

text \<open>
  \<^verbatim>\<open>vllm/model_executor/layers/fused_top_p_selection_tp_pd.py\<close>: the choice of the
  prompt tokens that the layers after a drop layer still compute.  The blocks of a prompt are
  ranked by an attention score, the best blocks up to a share \<open>p\<close> of the total are kept, and so
  are the first and the last tokens; requests with a single query token keep it.

  A kernel is a function of one program instance (a request) on the tensors it writes; the
  instances write disjoint parts.  Scores are the bit patterns of 32-bit floating-point numbers.
  Their arithmetic is a parameter: the kernels that compute the block scores from the queries and
  keys, and the sum, quotient, running sum, difference and comparison of the ranking.
\<close>

section \<open>Ranking the blocks of a request\<close>

type_synonym f32 = "32 word"

record float_ops =
  fp_sum :: "f32 list \<Rightarrow> f32"
  fp_div :: "f32 \<Rightarrow> f32 \<Rightarrow> f32"
  fp_narrow :: "f32 \<Rightarrow> f32"
  fp_cumsum :: "f32 list \<Rightarrow> f32 list"
  fp_sub :: "f32 \<Rightarrow> f32 \<Rightarrow> f32"
  fp_le :: "f32 \<Rightarrow> f32 \<Rightarrow> bool"

text \<open>Score and index are packed in a signed 64-bit key; the sort is descending.\<close>

definition sortable :: "f32 \<Rightarrow> 32 word" where
  "sortable x = (if sint x < 0 then x XOR (-1) else x XOR 0x80000000)"

definition pack :: "f32 \<Rightarrow> nat \<Rightarrow> 64 word" where
  "pack x i = push_bit 32 (scast (sortable x) AND 0xFFFFFFFF) OR (word_of_nat i AND 0xFFFFFFFF)"

definition unpack_index :: "64 word \<Rightarrow> int" where
  "unpack_index w = sint (ucast (w AND 0xFFFFFFFF) :: 32 word)"

definition unpack_score :: "64 word \<Rightarrow> f32" where
  "unpack_score w =
     (let s = ucast (signed_drop_bit 32 w) :: 32 word
      in if sint s < 0 then s XOR 0x80000000 else s XOR (-1))"

definition sort_packed :: "64 word list \<Rightarrow> 64 word list" where
  "sort_packed = sort_key (\<lambda>w. - sint w)"

definition normalised_scores :: "float_ops \<Rightarrow> f32 list \<Rightarrow> int \<Rightarrow> int \<Rightarrow> nat \<Rightarrow> f32 list" where
  "normalised_scores fp b start key_block_len n =
     (let block_score = map (\<lambda>k. if int k < key_block_len then b ! nat (start + int k) else 0) [0..<n]
      in map (\<lambda>s. fp_div fp s (fp_sum fp block_score)) block_score)"

definition keep_mask :: "float_ops \<Rightarrow> f32 \<Rightarrow> int \<Rightarrow> f32 list \<Rightarrow> nat \<Rightarrow> bool" where
  "keep_mask fp p key_block_len sorted_score k =
     ((fp_le fp (fp_sub fp (fp_cumsum fp sorted_score ! k) (sorted_score ! k)) p \<and>
       int k < key_block_len) \<or> k = 0)"

definition ranking :: "f32 list \<Rightarrow> nat \<Rightarrow> 64 word list" where
  "ranking scores n = sort_packed (map (\<lambda>k. pack (scores ! k) k) [0..<n])"

definition sorted_scores :: "float_ops \<Rightarrow> int \<Rightarrow> 64 word list \<Rightarrow> nat \<Rightarrow> f32 list" where
  "sorted_scores fp key_block_len packed_sorted n =
     map (\<lambda>k. if int k < key_block_len then fp_narrow fp (unpack_score (packed_sorted ! k)) else 0) [0..<n]"

text \<open>\<open>fused_top_p_kernel\<close>; \<open>n\<close> is the padded number of blocks, \<open>m\<close> the block mask.\<close>

definition top_p_kernel ::
    "float_ops \<Rightarrow> f32 list \<Rightarrow> f32 \<Rightarrow> int list \<Rightarrow> nat \<Rightarrow> nat \<Rightarrow> bool list \<Rightarrow> bool list" where
  "top_p_kernel fp b p cu_block_seqlens n batch m =
     (let start = cu_block_seqlens ! batch;
          key_block_len = cu_block_seqlens ! Suc batch - start;
          scores = normalised_scores fp b start key_block_len n;
          packed_sorted = ranking scores n;
          sorted_score = sorted_scores fp key_block_len packed_sorted n
      in fold (\<lambda>k m. let j = unpack_index (packed_sorted ! k)
            in if int k < key_block_len \<and> j < key_block_len
               then m[nat (start + j) := keep_mask fp p key_block_len sorted_score k] else m)
           [0..<n] m)"

section \<open>From blocks to tokens\<close>

definition get_cu_block_seqlens :: "int list \<Rightarrow> int \<Rightarrow> int list" where
  "get_cu_block_seqlens cu_seqlens block_size =
     cu_of (map (\<lambda>l. (l + block_size - 1) div block_size) (seq_diff cu_seqlens))"

definition token_kept ::
    "bool list \<Rightarrow> int \<Rightarrow> int \<Rightarrow> int \<Rightarrow> int \<Rightarrow> int \<Rightarrow> int \<Rightarrow> int \<Rightarrow> bool" where
  "token_kept block_mask block_start key_block_len seq_len sink last_q block_size t =
     ((t div block_size < key_block_len \<and> t < seq_len \<and>
       block_mask ! nat (block_start + t div block_size)) \<or> t < sink \<or> t \<ge> seq_len - last_q)"

text \<open>\<open>expand_block_mask_kernel\<close>: the token mask and the new lengths.\<close>

definition expand_block_mask_kernel ::
    "bool list \<Rightarrow> int list \<Rightarrow> int list \<Rightarrow> int \<Rightarrow> int \<Rightarrow> int \<Rightarrow> nat \<Rightarrow> nat \<Rightarrow> bool list \<times> int list \<Rightarrow>
     bool list \<times> int list" where
  "expand_block_mask_kernel block_mask cu_seqlens cu_block_seqlens sink last_q block_size n batch =
     (\<lambda>(token_mask, seqlens_out).
       let token_start = cu_seqlens ! batch;
           seq_len = cu_seqlens ! Suc batch - token_start;
           block_start = cu_block_seqlens ! batch;
           key_block_len = cu_block_seqlens ! Suc batch - block_start;
           kept = token_kept block_mask block_start key_block_len seq_len sink last_q block_size;
           offset_token = map int [0..<n * nat block_size]
       in (fold (\<lambda>t m. if t < seq_len then m[nat (token_start + t) := kept t] else m)
             offset_token token_mask,
           seqlens_out[Suc batch := py_len (filter (\<lambda>t. kept t \<and> t < seq_len) offset_token)]))"

text \<open>\<open>triton.next_power_of_2\<close>.\<close>

fun next_power_of_2 :: "nat \<Rightarrow> nat" where
  "next_power_of_2 n =
     (if n = 0 then 0 else if n = 1 then 1 else 2 * next_power_of_2 ((n + 1) div 2))"

declare next_power_of_2.simps [simp del]

section \<open>The selection on a batch\<close>

text \<open>
  The tensor-parallel group: the sum over the ranks, and the values of rank 0 of the mask and of
  the lengths.
\<close>

record tp_group =
  world_size :: int
  all_reduce :: "f32 list \<Rightarrow> f32 list"
  broadcast_mask :: "bool list \<Rightarrow> bool list"
  broadcast_lens :: "int list \<Rightarrow> int list"

definition prefill_indices :: "int list \<Rightarrow> int list" where
  "prefill_indices cu_seqlens = nonzero (map (\<lambda>l. l > 1) (seq_diff cu_seqlens))"

text \<open>The positions of the tokens of the prefill requests in the batch.\<close>

definition prefill_token_indices :: "int list \<Rightarrow> int list \<Rightarrow> int list res" where
  "prefill_token_indices cu_seqlens prefill_seq_lens =
     (let prefill_cu_seqlens = cu_of prefill_seq_lens;
          local_offsets = arange (last prefill_cu_seqlens)
      in rbind (gather cu_seqlens (prefill_indices cu_seqlens)) (\<lambda>prefill_starts.
         rbind (repeat_interleave (arange (py_len (prefill_indices cu_seqlens))) prefill_seq_lens) (\<lambda>req_ids.
         rbind (rbind (gather prefill_cu_seqlens req_ids) (tensor_sub local_offsets)) (\<lambda>intra_pos.
         rbind (gather prefill_starts req_ids) (\<lambda>starts.
         Inr (map2 (+) starts intra_pos))))))"

text \<open>
  The masks of the prefill requests and their new lengths, from the block scores; \<open>scores\<close> are the
  values that the three score kernels store, as a function of the block.
\<close>

definition select_prefill ::
    "float_ops \<Rightarrow> tp_group \<Rightarrow> (nat \<Rightarrow> f32) \<Rightarrow> int list \<Rightarrow> int \<Rightarrow> int \<Rightarrow> int \<Rightarrow> f32 \<Rightarrow> bool list \<times> int list"
  where
  "select_prefill fp tp scores prefill_seq_lens block_size sink last_q p =
     (let prefill_cu_seqlens = cu_of prefill_seq_lens;
          n_prefill = length prefill_seq_lens;
          cu_block_seqlens = get_cu_block_seqlens prefill_cu_seqlens block_size;
          b0 = map scores [0..<nat (last cu_block_seqlens)];
          b = (if world_size tp > 1 then map (fp_narrow fp) (all_reduce tp b0) else b0);
          n = next_power_of_2 (nat (cdiv (fold max prefill_seq_lens 0) block_size));
          m = fold (top_p_kernel fp b p cu_block_seqlens n) [0..<n_prefill]
                (replicate (nat (last cu_block_seqlens)) False);
          (token_mask, seqlens_new) =
            fold (expand_block_mask_kernel m prefill_cu_seqlens cu_block_seqlens sink last_q block_size n)
              [0..<n_prefill]
              (replicate (nat (last prefill_cu_seqlens)) False, replicate (Suc n_prefill) 0)
      in if world_size tp > 1
         then (broadcast_mask tp token_mask, broadcast_lens tp seqlens_new)
         else (token_mask, seqlens_new))"

definition topselectionvarlen ::
    "float_ops \<Rightarrow> tp_group \<Rightarrow> (int list \<Rightarrow> int list \<Rightarrow> nat \<Rightarrow> f32) \<Rightarrow> int \<Rightarrow> int list \<Rightarrow> int \<Rightarrow>
     int \<Rightarrow> int \<Rightarrow> int \<Rightarrow> f32 \<Rightarrow> (bool list \<times> int \<times> int list) res" where
  "topselectionvarlen fp tp score_kernels total_tokens cu_seqlens max_seq_len block_size sink last_q p =
     (let seq_lens = seq_diff cu_seqlens;
          indices = prefill_indices cu_seqlens
      in if indices = [] then Inr (py_repeat True total_tokens, max_seq_len, cu_seqlens)
         else
           rbind (gather seq_lens indices) (\<lambda>prefill_seq_lens.
           rbind (prefill_token_indices cu_seqlens prefill_seq_lens) (\<lambda>token_indices.
           let scores = score_kernels token_indices (cu_of prefill_seq_lens);
               (prefill_mask, seqlens_new) =
                 select_prefill fp tp scores prefill_seq_lens block_size sink last_q p
           in rbind (put token_indices prefill_mask (py_repeat True total_tokens)) (\<lambda>token_mask.
              rbind (put indices (tl seqlens_new) seq_lens) (\<lambda>new_seq_lens.
              rbind (max_list new_seq_lens) (\<lambda>new_max_seq_len.
              Inr (token_mask, new_max_seq_len, cu_of new_seq_lens)))))))"

end
