(* ===== verification/Token_Drop.thy ===== *)
theory Token_Drop
  imports Token_Selection "HOL-Library.AList" "HOL-Library.Char_ord"
begin

text \<open>
  Dropping prompt tokens in the middle of a forward pass, and decoding afterwards:
  \<^verbatim>\<open>vllm/model_executor/models/llama.py\<close> (the drop layers and the metadata of the layers
  after them), \<^verbatim>\<open>vllm/v1/worker/gpu_model_runner.py\<close> (the lengths per layer kept for
  every request) and \<^verbatim>\<open>vllm/v1/attention/backends/flash_attn.py\<close> (their use by the
  attention of a decode step).

  Tensors of indices are lists.  The metadata objects, which layers of one KV cache group share,
  are references into a store, so that an update through one layer is seen by the others.
\<close>

section \<open>Layer names\<close>

definition is_digit :: "char \<Rightarrow> bool" where
  "is_digit c \<longleftrightarrow> 48 \<le> (of_char c :: nat) \<and> (of_char c :: nat) \<le> 57"

definition digit_value :: "char \<Rightarrow> int" where
  "digit_value c = of_char c - 48"

fun py_split :: "char \<Rightarrow> string \<Rightarrow> string list" where
  "py_split d [] = [[]]"
| "py_split d (c # cs) =
     (if c = d then [] # py_split d cs
      else (case py_split d cs of [] \<Rightarrow> [[c]] | w # ws \<Rightarrow> (c # w) # ws))"

text \<open>\<open>int(s)\<close> for a string, \<open>None\<close> for a \<open>ValueError\<close>.\<close>

fun digits_from :: "int \<Rightarrow> string \<Rightarrow> int option" where
  "digits_from n [] = Some n"
| "digits_from n (c # cs) =
     (if is_digit c then digits_from (10 * n + digit_value c) cs
      else if c = CHR ''_'' \<and> cs \<noteq> [] \<and> is_digit (hd cs) then digits_from n cs else None)"

definition parse_digits :: "string \<Rightarrow> int option" where
  "parse_digits s = (if s \<noteq> [] \<and> is_digit (hd s) then digits_from 0 s else None)"

definition is_space :: "char \<Rightarrow> bool" where
  "is_space c \<longleftrightarrow> c = CHR '' '' \<or> (9 \<le> (of_char c :: nat) \<and> (of_char c :: nat) \<le> 13)"

definition py_int :: "string \<Rightarrow> int option" where
  "py_int s =
     (let t = rev (dropWhile is_space (rev (dropWhile is_space s)))
      in case t of
           [] \<Rightarrow> None
         | c # cs \<Rightarrow> if c = CHR ''-'' then map_option uminus (parse_digits cs)
             else if c = CHR ''+'' then parse_digits cs else parse_digits t)"

text \<open>\<open>int(layer_name.split('.')[2])\<close>, \<open>None\<close> where the code skips the layer.\<close>

definition layer_index :: "string \<Rightarrow> int option" where
  "layer_index layer_name =
     (let parts = py_split CHR ''.'' layer_name
      in if length parts > 2 then py_int (parts ! 2) else None)"

text \<open>\<open>re.search(r'layers\.(\d+)', name)\<close>.\<close>

definition digit_run :: "string \<Rightarrow> int" where
  "digit_run s = foldl (\<lambda>n c. 10 * n + digit_value c) 0 (takeWhile is_digit s)"

fun extract_layer_idx_from_name :: "string \<Rightarrow> int option" where
  "extract_layer_idx_from_name [] = None"
| "extract_layer_idx_from_name (c # cs) =
     (if take 7 (c # cs) = ''layers.'' \<and> drop 7 (c # cs) \<noteq> [] \<and> is_digit (hd (drop 7 (c # cs)))
      then Some (digit_run (drop 7 (c # cs)))
      else extract_layer_idx_from_name cs)"

text \<open>The layer of a metadata entry in the runner: the part after the first \<open>layers\<close>.\<close>

fun layer_of_parts :: "string list \<Rightarrow> int option" where
  "layer_of_parts (a # b # rest) = (if a = ''layers'' then py_int b else layer_of_parts (b # rest))"
| "layer_of_parts _ = None"

section \<open>The forward context\<close>

record attn_meta =
  am_query_start_loc :: "int list option"
  am_seq_lens :: "int list option"
  am_max_query_len :: "int option"
  am_max_seq_len :: "int option"
  am_num_actual_tokens :: "int option"
  am_slot_mapping :: "int list option"
  am_block_table :: "int list list option"

record fwd_ctx =
  attn_metadata :: "(string \<times> nat) list option"
  metas :: "nat \<Rightarrow> attn_meta"
  slot_mappings :: "(string \<times> int list) list option"
  token_drop_applied :: bool
  new_cu_seqlens :: "int list option"
  new_seq_lens :: "int list option"
  query_lens_this_step :: "int list option"
  kv_seq_lens_this_step :: "int list option"
  req_ids_snapshot :: "string list option"
  is_mixed_or_prefill_step :: bool
  decode_per_layer_seq_lens :: "(int \<times> int list) list option"
  decode_per_layer_slot_mapping :: "(int \<times> int list) list option"

text \<open>\<open>_get_step_info_from_metadata\<close>.\<close>

definition get_step_info ::
    "fwd_ctx \<Rightarrow> (int list option \<times> int \<times> int list option \<times> int list option \<times> bool) res" where
  "get_step_info ctx =
     (case attn_metadata ctx of
        None \<Rightarrow> Inr (None, 0, None, None, False)
      | Some d \<Rightarrow>
          (case find (\<lambda>m. am_query_start_loc m \<noteq> None \<and> am_seq_lens m \<noteq> None)
                  (map (\<lambda>(_, r). metas ctx r) d) of
             None \<Rightarrow> Inr (None, 0, None, None, False)
           | Some m \<Rightarrow>
               (case (am_query_start_loc m, am_max_query_len m) of
                  (Some cu_seqlens, Some max_seq_len) \<Rightarrow>
                    Inr (Some cu_seqlens, max_seq_len, Some (seq_diff cu_seqlens), am_seq_lens m,
                      max_seq_len > 1)
                | _ \<Rightarrow> Inl AttributeError)))"

section \<open>Slots\<close>

text \<open>\<open>block_table[req, pos // bs] * bs + pos % bs\<close>, for a list of tokens.\<close>

definition slot_at :: "int list list \<Rightarrow> int \<Rightarrow> int \<Rightarrow> int \<Rightarrow> int res" where
  "slot_at block_table bs req pos =
     rbind (py_get block_table req) (\<lambda>row.
     rbind (py_get row (pos div bs)) (\<lambda>phys_blk.
     Inr (phys_blk * bs + pos mod bs)))"

definition slots :: "int list list \<Rightarrow> int \<Rightarrow> (int \<times> int) list \<Rightarrow> int list res" where
  "slots block_table bs = rmapv (\<lambda>(req, pos). slot_at block_table bs req pos)"

text \<open>\<open>xs[m] = ys[m]\<close> for vectors of the length of the mask.\<close>

definition mask_assign :: "bool list \<Rightarrow> int list \<Rightarrow> int list \<Rightarrow> int list res" where
  "mask_assign m ys xs =
     (if length m \<noteq> length xs \<or> length m \<noteq> length ys then Inl IndexError
      else Inr (map (\<lambda>i. if m ! i then ys ! i else xs ! i) [0..<length xs]))"

text \<open>The slots of the tokens that are left, and of the decode tokens among them.\<close>

definition drop_slot_mapping ::
    "int list list \<Rightarrow> int \<Rightarrow> int list \<Rightarrow> int list \<Rightarrow> int \<Rightarrow> bool list \<Rightarrow> int list \<Rightarrow> bool \<Rightarrow> int list res" where
  "drop_slot_mapping block_table bs new_cu new_lens new_total is_decode mixed_seq_lens kv_known =
     rbind (repeat_interleave (arange (py_len new_lens)) new_lens) (\<lambda>req_idx.
     rbind (rbind (gather new_cu req_idx) (tensor_sub (arange new_total))) (\<lambda>intra.
     let reqs = (if length req_idx = 1 then py_repeat (hd req_idx) (py_len intra) else req_idx) in
     rbind (slots block_table bs (zip reqs intra)) (\<lambda>new_slot_mapping.
     if list_ex id is_decode \<and> kv_known then
       let dec_req_idx = nonzero is_decode in
       rbind (mask_select is_decode mixed_seq_lens) (\<lambda>dec_lens.
       rbind (slots block_table bs (zip dec_req_idx (map (\<lambda>l. l - 1) dec_lens))) (\<lambda>dec_slots.
       rbind (gather new_cu dec_req_idx) (\<lambda>dec_tok_pos.
       put dec_tok_pos dec_slots new_slot_mapping)))
     else Inr new_slot_mapping)))"


section \<open>The metadata after a drop\<close>

definition first_attr :: "(attn_meta \<Rightarrow> 'a option) \<Rightarrow> fwd_ctx \<Rightarrow> 'a option" where
  "first_attr f ctx =
     (case attn_metadata ctx of
        None \<Rightarrow> None
      | Some d \<Rightarrow> (case find (\<lambda>m. f m \<noteq> None) (map (\<lambda>(_, r). metas ctx r) d) of
            None \<Rightarrow> None | Some m \<Rightarrow> f m))"

text \<open>The KV lengths of the step: recorded by the model, or those of the first metadata.\<close>

definition step_kv_lens :: "fwd_ctx \<Rightarrow> int list option res" where
  "step_kv_lens ctx =
     (case kv_seq_lens_this_step ctx of
        Some l \<Rightarrow> Inr (Some l)
      | None \<Rightarrow>
          (case attn_metadata ctx of
             None \<Rightarrow> Inr None
           | Some [] \<Rightarrow> Inl StopIteration
           | Some ((_, r) # _) \<Rightarrow>
               (case am_seq_lens (metas ctx r) of None \<Rightarrow> Inl AttributeError | Some l \<Rightarrow> Inr (Some l))))"

text \<open>What a later layer's metadata is set to; attributes it does not have stay absent.\<close>

definition set_meta ::
    "int list \<Rightarrow> int list \<Rightarrow> int \<Rightarrow> int \<Rightarrow> int \<Rightarrow> int list option \<Rightarrow> attn_meta \<Rightarrow> attn_meta" where
  "set_meta mixed_seq_lens new_cu new_max mixed_max new_total new_slot_mapping m =
     m\<lparr>am_seq_lens := map_option (\<lambda>_. mixed_seq_lens) (am_seq_lens m),
       am_query_start_loc := map_option (\<lambda>_. new_cu) (am_query_start_loc m),
       am_max_query_len := map_option (\<lambda>_. new_max) (am_max_query_len m),
       am_max_seq_len := map_option (\<lambda>_. mixed_max) (am_max_seq_len m),
       am_num_actual_tokens := map_option (\<lambda>_. new_total) (am_num_actual_tokens m),
       am_slot_mapping := (case new_slot_mapping of None \<Rightarrow> am_slot_mapping m
          | Some sm \<Rightarrow> map_option (\<lambda>_. sm) (am_slot_mapping m))\<rparr>"

definition later_layer :: "int \<Rightarrow> string \<Rightarrow> bool" where
  "later_layer current_layer_idx name \<longleftrightarrow>
     (case layer_index name of None \<Rightarrow> False | Some i \<Rightarrow> i > current_layer_idx)"

definition update_slot_mapping ::
    "int \<Rightarrow> bool list \<Rightarrow> int list option \<Rightarrow> string \<times> int list \<Rightarrow> (string \<times> int list) res" where
  "update_slot_mapping current_layer_idx token_mask new_slot_mapping = (\<lambda>(name, sm).
     if \<not> later_layer current_layer_idx name then Inr (name, sm)
     else (case new_slot_mapping of
         Some new \<Rightarrow> Inr (name, new)
       | None \<Rightarrow> if length sm = length token_mask
                 then rbind (mask_select token_mask sm) (\<lambda>sm'. Inr (name, sm')) else Inr (name, sm)))"

text \<open>\<open>mixed_seq_lens\<close>: in a step without prefill, decode requests keep their KV length.\<close>

definition mixed_lens ::
    "fwd_ctx \<Rightarrow> bool list \<Rightarrow> int list option \<Rightarrow> int list \<Rightarrow> int list res" where
  "mixed_lens ctx is_decode kv_seq_lens new_lens =
     (case kv_seq_lens of
        Some l \<Rightarrow> if list_ex id is_decode \<and> \<not> is_mixed_or_prefill_step ctx
                  then mask_assign is_decode l new_lens else Inr new_lens
      | None \<Rightarrow> Inr new_lens)"

text \<open>\<open>_update_metadata_after_drop\<close>.\<close>

definition update_metadata_after_drop ::
    "bool list \<Rightarrow> int list \<Rightarrow> int \<Rightarrow> int \<Rightarrow> int \<Rightarrow> fwd_ctx \<Rightarrow> fwd_ctx res" where
  "update_metadata_after_drop token_mask new_cu new_max current_layer_idx kv_block_size ctx0 =
     (let new_lens = seq_diff new_cu;
          new_total = py_len (filter id token_mask);
          is_decode = (case query_lens_this_step ctx0 of
             Some q \<Rightarrow> map (\<lambda>l. l = 1) (py_upto q (py_len new_lens))
           | None \<Rightarrow> map (\<lambda>l. l = 1) new_lens)
      in rbind (step_kv_lens ctx0) (\<lambda>kv_seq_lens.
         let ctx = ctx0\<lparr>token_drop_applied := True, new_cu_seqlens := Some new_cu,
               new_seq_lens := Some new_lens\<rparr>
         in rbind (mixed_lens ctx is_decode kv_seq_lens new_lens) (\<lambda>mixed_seq_lens.
         rbind (max_list mixed_seq_lens) (\<lambda>mixed_max.
         rbind (case first_attr am_block_table ctx of
                  None \<Rightarrow> Inr None
                | Some block_table \<Rightarrow>
                    rbind (drop_slot_mapping block_table kv_block_size new_cu new_lens new_total is_decode
                             mixed_seq_lens (kv_seq_lens \<noteq> None)) (\<lambda>sm. Inr (Some sm))) (\<lambda>new_slot_mapping.
         rbind (case slot_mappings ctx of
                  None \<Rightarrow> Inr None
                | Some d \<Rightarrow> rbind (rmapv (update_slot_mapping current_layer_idx token_mask new_slot_mapping) d)
                              (\<lambda>d'. Inr (Some d'))) (\<lambda>sms.
         let metas' = (case attn_metadata ctx of
                None \<Rightarrow> metas ctx
              | Some d \<Rightarrow> fold (\<lambda>(name, r) ms. if later_layer current_layer_idx name
                  then ms(r := set_meta mixed_seq_lens new_cu new_max mixed_max new_total new_slot_mapping (ms r))
                  else ms) d (metas ctx))
         in Inr (ctx\<lparr>slot_mappings := sms, metas := metas'\<rparr>)))))))"

section \<open>The layers\<close>

text \<open>
  The rows of the hidden states (with their residuals) are opaque; what a layer computes on them is
  a parameter, and so are the scores that its queries and keys give to the blocks.
\<close>

record 'h layer_code =
  attend :: "int \<Rightarrow> fwd_ctx \<Rightarrow> int list \<Rightarrow> 'h list \<Rightarrow> 'h list"
  feed_forward :: "int \<Rightarrow> 'h list \<Rightarrow> 'h list"
  block_scores :: "int \<Rightarrow> 'h list \<Rightarrow> int list \<Rightarrow> int list \<Rightarrow> int list \<Rightarrow> nat \<Rightarrow> f32"

record drop_config =
  dc_block_size :: int
  dc_attention_sink :: int
  dc_last_q :: int
  dc_p :: f32
  dc_kv_block_size :: int

text \<open>\<open>x[:n_kept] = x[kept_indices]; x = x[:n_kept]\<close>.\<close>

definition keep_rows :: "bool list \<Rightarrow> 'a list \<Rightarrow> 'a list res" where
  "keep_rows token_mask xs =
     (let kept_indices = nonzero token_mask
      in rbind (gather xs kept_indices) (\<lambda>kept.
         Inr (take (length kept) (kept @ drop (length kept) xs))))"

record 'h run_state =
  rs_positions :: "int list"
  rs_rows :: "'h list"
  rs_cu_seqlens :: "int list option"
  rs_max_seq_len :: int
  rs_per_layer :: "(string \<times> (int \<times> int) list) list"
  rs_ctx :: fwd_ctx

text \<open>\<open>LlamaDecoderLayer.forward\<close> with \<open>do_token_drop\<close>: the selection, the rows kept, the metadata.\<close>

definition drop_layer_forward ::
    "float_ops \<Rightarrow> tp_group \<Rightarrow> 'h layer_code \<Rightarrow> drop_config \<Rightarrow> int \<Rightarrow> int list \<Rightarrow> 'h run_state \<Rightarrow> 'h run_state res"
  where
  "drop_layer_forward fp tp code cfg idx cu_seqlens s =
     (let rows = attend code idx (rs_ctx s) (rs_positions s) (rs_rows s)
      in rbind (topselectionvarlen fp tp (block_scores code idx rows (rs_positions s)) (py_len rows)
                  cu_seqlens (rs_max_seq_len s) (dc_block_size cfg) (dc_attention_sink cfg)
                  (dc_last_q cfg) (dc_p cfg)) (\<lambda>(token_mask, new_max, new_cu).
         rbind (keep_rows token_mask rows) (\<lambda>rows'.
         rbind (keep_rows token_mask (rs_positions s)) (\<lambda>positions'.
         rbind (update_metadata_after_drop token_mask new_cu new_max idx (dc_kv_block_size cfg) (rs_ctx s))
           (\<lambda>ctx'.
         Inr (s\<lparr>rs_positions := positions', rs_rows := feed_forward code idx rows',
                rs_cu_seqlens := Some new_cu, rs_max_seq_len := new_max, rs_ctx := ctx'\<rparr>))))))"

definition plain_layer_forward :: "'h layer_code \<Rightarrow> int \<Rightarrow> 'h run_state \<Rightarrow> 'h run_state" where
  "plain_layer_forward code idx s =
     s\<lparr>rs_rows := feed_forward code idx (attend code idx (rs_ctx s) (rs_positions s) (rs_rows s))\<rparr>"

text \<open>The entries of the requests with more than one query token, first without drops.\<close>

definition start_entry ::
    "string list \<Rightarrow> int list \<Rightarrow> int \<times> int \<Rightarrow> (string \<times> (int \<times> int) list) list \<Rightarrow>
     (string \<times> (int \<times> int) list) list res" where
  "start_entry req_ids kv_seq_lens = (\<lambda>(i, q_len) d.
     if q_len > 1
     then rbind (py_get req_ids i) (\<lambda>rid. rbind (py_get kv_seq_lens i) (\<lambda>kv.
            Inr (AList.update rid [(0, kv)] d)))
     else Inr d)"

definition append_entry ::
    "string list \<Rightarrow> int list \<Rightarrow> int \<Rightarrow> int \<times> int \<Rightarrow> (string \<times> (int \<times> int) list) list \<Rightarrow>
     (string \<times> (int \<times> int) list) list res" where
  "append_entry req_ids new_lens layer = (\<lambda>(i, q_len) d.
     if q_len > 1
     then rbind (py_get req_ids i) (\<lambda>rid. rbind (py_get new_lens i) (\<lambda>dropped_len.
            case map_of d rid of
              None \<Rightarrow> Inr d
            | Some es \<Rightarrow> Inr (AList.update rid (es @ [(layer, dropped_len)]) d)))
     else Inr d)"

definition enumerate_reqs :: "int list \<Rightarrow> (int \<times> int) list" where
  "enumerate_reqs query_lens = zip (arange (py_len query_lens)) query_lens"

text \<open>One iteration of the loop over the layers in \<open>LlamaModel.forward\<close>.\<close>

definition layer_step ::
    "float_ops \<Rightarrow> tp_group \<Rightarrow> 'h layer_code \<Rightarrow> drop_config \<Rightarrow> int list \<Rightarrow> int list option \<Rightarrow> bool \<Rightarrow>
     int \<Rightarrow> 'h run_state \<Rightarrow> 'h run_state res" where
  "layer_step fp tp code cfg drop_layer_indices query_lens is_prefill_step idx s =
     (case rs_cu_seqlens s of
        Some cu \<Rightarrow>
          if is_prefill_step \<and> idx \<in> set drop_layer_indices \<and>
             py_len (rs_rows s) > dc_attention_sink cfg + dc_last_q cfg
          then rbind (drop_layer_forward fp tp code cfg idx cu s) (\<lambda>s'.
                 case (req_ids_snapshot (rs_ctx s'), query_lens, rs_cu_seqlens s') of
                   (Some req_ids, Some q, Some new_cu) \<Rightarrow>
                     rbind (rfold (append_entry req_ids (seq_diff new_cu) idx) (enumerate_reqs q) (rs_per_layer s'))
                       (\<lambda>d. Inr (s'\<lparr>rs_per_layer := d\<rparr>))
                 | _ \<Rightarrow> Inr s')
          else Inr (plain_layer_forward code idx s)
      | None \<Rightarrow> Inr (plain_layer_forward code idx s))"

text \<open>\<open>LlamaModel.forward\<close> for the layers \<open>layers\<close> of the rank.\<close>

definition model_forward ::
    "float_ops \<Rightarrow> tp_group \<Rightarrow> 'h layer_code \<Rightarrow> drop_config \<Rightarrow> int list \<Rightarrow> int list \<Rightarrow> int list \<Rightarrow> 'h list \<Rightarrow>
     (string \<times> (int \<times> int) list) list \<Rightarrow> fwd_ctx \<Rightarrow> 'h run_state res" where
  "model_forward fp tp code cfg drop_layer_indices layers positions rows old_per_layer ctx0 =
     rbind (get_step_info ctx0) (\<lambda>(cu_seqlens, max_seq_len, query_lens, kv_seq_lens, is_prefill_step).
     rbind (if is_prefill_step \<and> drop_layer_indices \<noteq> [] \<and> cu_seqlens \<noteq> None
            then let ctx = ctx0\<lparr>query_lens_this_step := query_lens, kv_seq_lens_this_step := kv_seq_lens\<rparr>
                 in (case (req_ids_snapshot ctx, query_lens, kv_seq_lens) of
                       (Some req_ids, Some q, Some kv) \<Rightarrow>
                         rbind (rfold (start_entry req_ids kv) (enumerate_reqs q) []) (\<lambda>d. Inr (d, ctx))
                     | _ \<Rightarrow> Inr ([], ctx))
            else Inr (old_per_layer, ctx0)) (\<lambda>(per_layer, ctx).
     rfold (layer_step fp tp code cfg drop_layer_indices query_lens is_prefill_step) layers
       \<lparr>rs_positions = positions, rs_rows = rows, rs_cu_seqlens = cu_seqlens, rs_max_seq_len = max_seq_len,
        rs_per_layer = per_layer, rs_ctx = ctx\<rparr>))"


section \<open>The model runner\<close>

type_synonym drop_dict = "(string \<times> (int \<times> int) list) list"

text \<open>The step is a prefill or mixed step when the first attention metadata has a long query.\<close>

definition has_long_query :: "fwd_ctx \<Rightarrow> bool" where
  "has_long_query ctx =
     (case attn_metadata ctx of
        None \<Rightarrow> False
      | Some d \<Rightarrow>
          (case find (\<lambda>m. am_max_query_len m \<noteq> None \<and> am_block_table m \<noteq> None)
                  (map (\<lambda>(_, r). metas ctx r) d) of
             None \<Rightarrow> False | Some m \<Rightarrow> the (am_max_query_len m) > 1))"

definition mark_step :: "bool \<Rightarrow> string list \<Rightarrow> fwd_ctx \<Rightarrow> fwd_ctx" where
  "mark_step has_drop_config req_ids ctx =
     (let ctx1 = ctx\<lparr>req_ids_snapshot := Some req_ids\<rparr>
      in if has_drop_config then ctx1\<lparr>is_mixed_or_prefill_step := has_long_query ctx\<rparr> else ctx1)"

text \<open>The tokens of a prompt left at layer \<open>fl\<close>: the entry of the last drop layer before it.\<close>

fun kept_before :: "int \<Rightarrow> int \<Rightarrow> (int \<times> int) list \<Rightarrow> int" where
  "kept_before fl kept [] = kept"
| "kept_before fl kept ((el, ev) # es) = (if el < fl then kept_before fl ev es else kept)"

definition layer_seqused :: "drop_dict \<Rightarrow> int \<Rightarrow> string \<times> int \<Rightarrow> int res" where
  "layer_seqused drops fl = (\<lambda>(rid, cur_kv).
     case map_of drops rid of
       None \<Rightarrow> Inr cur_kv
     | Some entries \<Rightarrow> rbind (py_get entries 0) (\<lambda>(_, orig_len).
         Inr (kept_before fl orig_len (tl entries) + max 0 (cur_kv - orig_len))))"

definition layer_slots :: "int list list \<Rightarrow> int \<Rightarrow> int list \<Rightarrow> int list res" where
  "layer_slots block_table bs seqused =
     slots block_table bs (zip (arange (py_len seqused)) (map (\<lambda>l. l - 1) seqused))"

text \<open>The block tables of the layers: the first metadata entry of each layer that has one.\<close>

definition layer_block_tables :: "fwd_ctx \<Rightarrow> (string \<times> nat) list \<Rightarrow> (int \<times> int list list) list" where
  "layer_block_tables ctx d =
     fold (\<lambda>(name, r) ts.
       case layer_of_parts (py_split CHR ''.'' name) of
         None \<Rightarrow> ts
       | Some i \<Rightarrow> (case am_block_table (metas ctx r) of
             Some bt \<Rightarrow> if map_of ts i = None then ts @ [(i, bt)] else ts
           | None \<Rightarrow> ts)) d []"

definition drop_layer_data ::
    "drop_dict \<Rightarrow> int \<Rightarrow> int list list \<Rightarrow> (int \<times> int list list) list \<Rightarrow> (string \<times> int) list \<Rightarrow> int \<Rightarrow>
     (int list \<times> int list) res" where
  "drop_layer_data drops bs default_table tables reqs fl =
     rbind (rmapv (layer_seqused drops fl) reqs) (\<lambda>seqused.
     rbind (layer_slots (case map_of tables fl of None \<Rightarrow> default_table | Some bt \<Rightarrow> bt) bs seqused)
       (\<lambda>sm. Inr (seqused, sm)))"

text \<open>
  What the runner prepares before the forward pass: for every layer after the first drop layer, the
  KV lengths and the slots of the requests.
\<close>

definition prepare_decode_layers ::
    "drop_dict \<Rightarrow> int list \<Rightarrow> int \<Rightarrow> int \<Rightarrow> fwd_ctx \<Rightarrow> fwd_ctx res" where
  "prepare_decode_layers drops drop_layer_indices total_layers bs ctx =
     (case (attn_metadata ctx, req_ids_snapshot ctx) of
        (Some d, Some req_ids) \<Rightarrow>
          if drops = [] \<or> \<not> list_ex (\<lambda>rid. map_of drops rid \<noteq> None) req_ids \<or> drop_layer_indices = []
          then Inr ctx
          else
            let first_drop = fold min drop_layer_indices (hd drop_layer_indices);
                affected = filter (\<lambda>li. li > first_drop) (arange total_layers)
            in if affected = [] then Inr ctx
               else (case find (\<lambda>m. am_seq_lens m \<noteq> None \<and> am_block_table m \<noteq> None)
                        (map (\<lambda>(_, r). metas ctx r) d) of
                   None \<Rightarrow> Inl UnboundLocalError
                 | Some m \<Rightarrow>
                     let kv = the (am_seq_lens m); bt = the (am_block_table m) in
                     if length kv < length req_ids then Inl IndexError
                     else rbind (rmapv (drop_layer_data drops bs bt (layer_block_tables ctx d) (zip req_ids kv))
                            affected) (\<lambda>data.
                       Inr (ctx\<lparr>decode_per_layer_seq_lens := Some (zip affected (map fst data)),
                                decode_per_layer_slot_mapping := Some (zip affected (map snd data))\<rparr>)))
      | _ \<Rightarrow> Inr ctx)"

text \<open>After the forward pass: the positions of the logits, and the entries of the step.\<close>

definition collect_drops :: "fwd_ctx \<Rightarrow> drop_dict \<Rightarrow> int list \<Rightarrow> drop_dict \<Rightarrow> int list \<times> drop_dict" where
  "collect_drops ctx per_layer logits_indices drops =
     (case new_cu_seqlens ctx of
        Some cu \<Rightarrow> if token_drop_applied ctx
                   then (map (\<lambda>c. c - 1) (tl cu), fold (\<lambda>(rid, es) d. AList.update rid es d) per_layer drops)
                   else (logits_indices, drops)
      | None \<Rightarrow> (logits_indices, drops))"

definition finish_requests :: "string list \<Rightarrow> drop_dict \<Rightarrow> drop_dict" where
  "finish_requests rids drops = fold AList.delete rids drops"

section \<open>The attention of a layer\<close>

text \<open>The entry of the last recorded layer up to this one; the start value of \<open>_best_dl\<close> is -1.\<close>

definition best_layer_value :: "(int \<times> 'a) list \<Rightarrow> int \<Rightarrow> 'a option" where
  "best_layer_value entries idx =
     snd (fold (\<lambda>(dl, v) (best_dl, best). if dl \<le> idx \<and> dl > best_dl then (dl, Some v) else (best_dl, best))
       entries (-1, None))"

text \<open>\<open>FlashAttentionImpl.forward\<close>: the KV lengths and their maximum that the kernel is called with.\<close>

definition attention_lens :: "fwd_ctx \<Rightarrow> string \<Rightarrow> int list \<Rightarrow> int list \<Rightarrow> int \<Rightarrow> (int list \<times> int) res" where
  "attention_lens ctx layer_name query_start_loc seq_lens max_seq_len =
     (case (decode_per_layer_seq_lens ctx, extract_layer_idx_from_name layer_name) of
        (Some per_layer, Some idx) \<Rightarrow>
          (case best_layer_value per_layer idx of
             None \<Rightarrow> Inr (seq_lens, max_seq_len)
           | Some best \<Rightarrow>
               let is_dec = map (\<lambda>l. l = 1) (seq_diff query_start_loc)
               in if list_ex id is_dec
                  then rbind (mask_assign is_dec best seq_lens) (\<lambda>seqused_k.
                       rbind (max_list seqused_k) (\<lambda>mx. Inr (seqused_k, mx)))
                  else Inr (seq_lens, max_seq_len))
      | _ \<Rightarrow> Inr (seq_lens, max_seq_len))"

text \<open>\<open>do_kv_cache_update\<close>: the slots that the keys and values of the step are written to.\<close>

definition layer_query_start_loc :: "fwd_ctx \<Rightarrow> string \<Rightarrow> int list option res" where
  "layer_query_start_loc ctx layer_name =
     (case attn_metadata ctx of
        None \<Rightarrow> Inr None
      | Some d \<Rightarrow>
          (case map_of d layer_name of
             Some r \<Rightarrow> Inr (am_query_start_loc (metas ctx r))
           | None \<Rightarrow> (case d of [] \<Rightarrow> Inl StopIteration | (_, r) # _ \<Rightarrow> Inr (am_query_start_loc (metas ctx r)))))"

definition attention_slots :: "fwd_ctx \<Rightarrow> string \<Rightarrow> int list \<Rightarrow> int list res" where
  "attention_slots ctx layer_name slot_map =
     (case (decode_per_layer_slot_mapping ctx, extract_layer_idx_from_name layer_name) of
        (Some per_layer, Some idx) \<Rightarrow>
          (case best_layer_value per_layer idx of
             None \<Rightarrow> Inr slot_map
           | Some best \<Rightarrow>
               rbind (layer_query_start_loc ctx layer_name) (\<lambda>query_start_loc.
               case query_start_loc of
                 None \<Rightarrow> Inr best
               | Some qsl \<Rightarrow>
                   let is_dec = map (\<lambda>l. l = 1) (seq_diff qsl)
                   in if list_ex id is_dec
                      then let dec_req_indices = nonzero is_dec in
                           rbind (gather qsl dec_req_indices) (\<lambda>dec_tok_positions.
                           rbind (gather best dec_req_indices) (\<lambda>vals.
                           put dec_tok_positions vals slot_map))
                      else Inr best))
      | _ \<Rightarrow> Inr slot_map)"

text \<open>
  \<open>unified_kv_cache_update\<close>: the layer stores its keys and values at the slots that the forward context
  has for it (\<open>None\<close> when it has none and nothing is stored), not at those of its attention metadata.
\<close>

definition kv_update_slots :: "fwd_ctx \<Rightarrow> string \<Rightarrow> int list option res" where
  "kv_update_slots ctx layer_name =
     (case slot_mappings ctx of
        None \<Rightarrow> Inl AssertionError
      | Some slot_mapping \<Rightarrow>
          (case map_of slot_mapping layer_name of
             None \<Rightarrow> Inr None
           | Some layer_slot_mapping \<Rightarrow>
               rbind (attention_slots ctx layer_name layer_slot_mapping) (\<lambda>sm. Inr (Some sm))))"

end
