(* ===== verification/Selection_Facts.thy ===== *)
theory Selection_Facts
  imports Token_Selection
begin

text \<open>
  Facts on the token selection: the lengths it returns are the numbers of tokens its mask keeps,
  request by request, whatever the scores are; the packed sort ranks scores as their bit patterns,
  and the mask it writes is the shortest prefix of that ranking that exceeds the share \<open>p\<close>.
\<close>

section \<open>Conditional stores\<close>

lemma fold_if_update:
  "fold (\<lambda>t m. if P t then m[f t := g t] else m) ts m =
   fold (\<lambda>(t, v) m. m[f t := v]) (map (\<lambda>t. (t, g t)) (filter P ts)) m"
  by (induction ts arbitrary: m) auto

lemma fold_if_at:
  assumes "t \<in> set ts" and "P t" and "f t < length m"
    and "\<And>s. s \<in> set ts \<Longrightarrow> P s \<Longrightarrow> f s = f t \<Longrightarrow> g s = g t"
  shows "fold (\<lambda>t m. if P t then m[f t := g t] else m) ts m ! f t = g t"
proof -
  have "(t, g t) \<in> set (map (\<lambda>t. (t, g t)) (filter P ts))" using assms(1,2) by simp
  moreover have "\<forall>(s, w) \<in> set (map (\<lambda>t. (t, g t)) (filter P ts)). f s = f t \<longrightarrow> w = g t"
    using assms(4) by auto
  ultimately show ?thesis unfolding fold_if_update using assms(3) by (intro fold_update_at)
qed

lemma fold_if_other:
  assumes "\<And>s. s \<in> set ts \<Longrightarrow> P s \<Longrightarrow> f s \<noteq> k"
  shows "fold (\<lambda>t m. if P t then m[f t := g t] else m) ts m ! k = m ! k"
  unfolding fold_if_update by (rule fold_update_other) (use assms in \<open>auto simp: image_iff\<close>)

lemma fold_if_length [simp]:
  "length (fold (\<lambda>t m. if P t then m[f t := g t] else m) ts m) = length m"
  by (simp add: fold_if_update)

section \<open>The padded number of blocks\<close>

lemma next_power_of_2_ge: "n \<le> next_power_of_2 n"
proof (induction n rule: next_power_of_2.induct)
  case (1 n)
  show ?case
  proof (cases "n = 0 \<or> n = 1")
    case False
    then have "(n + 1) div 2 \<le> next_power_of_2 ((n + 1) div 2)" using 1 by blast
    moreover have "n \<le> 2 * ((n + 1) div 2)" by presburger
    moreover have "next_power_of_2 n = 2 * next_power_of_2 ((n + 1) div 2)"
      using False unfolding next_power_of_2.simps [of n] by (simp only: de_Morgan_disj if_False)
    ultimately show ?thesis by linarith
  next
    case True
    then show ?thesis using next_power_of_2.simps [of 1] by auto
  qed
qed

lemma fold_max_ge: "x \<in> set xs \<or> x = a \<Longrightarrow> x \<le> fold max xs (a :: int)"
proof (induction xs arbitrary: a x)
  case (Cons y xs)
  show ?case
  proof (cases "x \<in> set xs")
    case False
    then have "x \<le> max y a" using Cons.prems by auto
    also have "max y a \<le> fold max xs (max y a)" using Cons.IH by blast
    finally show ?thesis by simp
  qed (use Cons.IH in simp)
qed simp

lemma padded_tokens:
  assumes "0 < block_size" and "l \<in> set lens" and "0 \<le> l"
  shows "nat l \<le> next_power_of_2 (nat (cdiv (fold max lens 0) block_size)) * nat block_size"
proof -
  let ?m = "fold max lens 0"
  have "l \<le> ?m" using assms(2) by (simp add: fold_max_ge)
  also have "\<dots> \<le> cdiv ?m block_size * block_size" by (rule cdiv_bounds(1) [OF assms(1)])
  also have "\<dots> \<le> int (next_power_of_2 (nat (cdiv ?m block_size))) * block_size"
    using next_power_of_2_ge [of "nat (cdiv ?m block_size)"] assms(1)
    by (intro mult_right_mono) linarith+
  also have "\<dots> = int (next_power_of_2 (nat (cdiv ?m block_size)) * nat block_size)"
    using assms(1) by simp
  finally show ?thesis by linarith
qed

section \<open>The token mask of the prefill requests\<close>

definition kept_token ::
    "bool list \<Rightarrow> int list \<Rightarrow> int list \<Rightarrow> int \<Rightarrow> int \<Rightarrow> int \<Rightarrow> nat \<Rightarrow> int \<Rightarrow> bool" where
  "kept_token m lens cub sink last_q bs i t =
     token_kept m (cub ! i) (cub ! Suc i - cub ! i) (lens ! i) sink last_q bs t"

definition kept_count ::
    "bool list \<Rightarrow> int list \<Rightarrow> int list \<Rightarrow> int \<Rightarrow> int \<Rightarrow> int \<Rightarrow> nat \<Rightarrow> int" where
  "kept_count m lens cub sink last_q bs i =
     int (length (filter (\<lambda>t. kept_token m lens cub sink last_q bs i (int t)) [0..<nat (lens ! i)]))"

text \<open>The tokens past the end of the request do not count.\<close>

lemma count_padded:
  assumes "nat l \<le> n"
  shows "py_len (filter (\<lambda>t. k t \<and> t < l) (map int [0..<n])) = int (length (filter (\<lambda>t. k (int t)) [0..<nat l]))"
proof -
  have "[0..<n] = [0..<nat l] @ [nat l..<n]" using assms upt_add_eq_append [of 0 "nat l" "n - nat l"] by simp
  moreover have "filter (\<lambda>t. k (int t) \<and> int t < l) [0..<nat l] = filter (\<lambda>t. k (int t)) [0..<nat l]"
    by (rule filter_cong) auto
  moreover have "filter (\<lambda>t. k (int t) \<and> int t < l) [nat l..<n] = []"
    by (auto simp: filter_empty_conv)
  ultimately have "filter (\<lambda>t. k (int t) \<and> int t < l) [0..<n] = filter (\<lambda>t. k (int t)) [0..<nat l]"
    by simp
  then show ?thesis by (simp add: py_len_def filter_map comp_def)
qed

lemma expand_kernel:
  assumes "\<forall>x \<in> set lens. 0 \<le> x" and "0 < bs" and "i < length lens" and "nat (lens ! i) \<le> n * nat bs"
    and "length tm = nat (sum_list lens)" and "length out = Suc (length lens)"
    and "expand_block_mask_kernel m (cu_of lens) cub sink last_q bs n i (tm, out) = (tm', out')"
  shows "length tm' = length tm" and "out' = out[Suc i := kept_count m lens cub sink last_q bs i]"
    and "\<And>t. int t < lens ! i \<Longrightarrow>
      tm' ! nat (cu_of lens ! i + int t) = kept_token m lens cub sink last_q bs i (int t)"
    and "\<And>j t. (j, t) \<in> set (segs lens) \<Longrightarrow> j \<noteq> i \<Longrightarrow>
      tm' ! nat (cu_of lens ! j + int t) = tm ! nat (cu_of lens ! j + int t)"
proof -
  let ?k = "kept_token m lens cub sink last_q bs i" and ?f = "\<lambda>t. nat (cu_of lens ! i + t)"
  have l: "cu_of lens ! Suc i - cu_of lens ! i = lens ! i" using assms(3) by (simp add: cu_of_Suc)
  have eqs: "tm' = fold (\<lambda>t m. if t < lens ! i then m[?f t := ?k t] else m) (map int [0..<n * nat bs]) tm"
    "out' = out[Suc i := py_len (filter (\<lambda>t. ?k t \<and> t < lens ! i) (map int [0..<n * nat bs]))]"
    using assms(7) unfolding expand_block_mask_kernel_def Let_def l kept_token_def by simp_all
  show "length tm' = length tm" unfolding eqs(1) by simp
  show "out' = out[Suc i := kept_count m lens cub sink last_q bs i]"
    unfolding eqs(2) kept_count_def count_padded [OF assms(4)] ..
  have nn: "0 \<le> cu_of lens ! j" if "j \<le> length lens" for j
    using cu_of_mono [OF assms(1), of 0 j] that by (simp add: cu_of_def)
  have inj: "j = i \<and> t = t'" if "int t < lens ! j" "int t' < lens ! i" "j < length lens"
    "nat (cu_of lens ! j + int t) = nat (cu_of lens ! i + int t')" for j t t'
    using token_inj [OF assms(1), of j t i t'] that assms(3) nn [of i] nn [of j]
    by (auto simp: segs_mem)
  have len: "nat (cu_of lens ! i + int t) < length tm" if "int t < lens ! i" for t
    using cu_of_mono [OF assms(1), of "Suc i" "length lens"] assms(3,5) that nn [of i]
    by (auto simp: cu_of_Suc cu_of_nth [of "length lens"])
  show "tm' ! nat (cu_of lens ! i + int t) = ?k (int t)" if t: "int t < lens ! i" for t
    unfolding eqs(1)
  proof (rule fold_if_at)
    show "int t \<in> set (map int [0..<n * nat bs])" using t assms(4) by auto
    show "nat (cu_of lens ! i + int t) < length tm" by (rule len [OF t])
    show "?k s = ?k (int t)" if "s \<in> set (map int [0..<n * nat bs])" "s < lens ! i"
      "nat (cu_of lens ! i + s) = nat (cu_of lens ! i + int t)" for s
      using that inj [of "nat s" i t] t assms(3) by auto
  qed (use t in simp)
  show "tm' ! nat (cu_of lens ! j + int t) = tm ! nat (cu_of lens ! j + int t)"
    if j: "(j, t) \<in> set (segs lens)" "j \<noteq> i" for j t
    unfolding eqs(1)
  proof (rule fold_if_other)
    show "nat (cu_of lens ! i + s) \<noteq> nat (cu_of lens ! j + int t)"
      if "s \<in> set (map int [0..<n * nat bs])" "s < lens ! i" for s
      using inj [of t j "nat s"] j that by (auto simp: segs_mem)
  qed
qed


lemma expand_all:
  assumes "\<forall>x \<in> set lens. 0 \<le> x" and "0 < bs" and "\<forall>x \<in> set lens. nat x \<le> n * nat bs" and "k \<le> length lens"
    and "fold (expand_block_mask_kernel m (cu_of lens) cub sink last_q bs n) [0..<k]
      (replicate (nat (sum_list lens)) False, replicate (Suc (length lens)) 0) = (tm, out)"
  shows "length tm = nat (sum_list lens) \<and>
    out = 0 # map (kept_count m lens cub sink last_q bs) [0..<k] @ replicate (length lens - k) 0 \<and>
    (\<forall>(i, t) \<in> set (segs lens). i < k \<longrightarrow>
      tm ! nat (cu_of lens ! i + int t) = kept_token m lens cub sink last_q bs i (int t))"
  using assms(4,5)
proof (induction k arbitrary: tm out)
  case (Suc k)
  let ?K = "expand_block_mask_kernel m (cu_of lens) cub sink last_q bs n"
  obtain tm0 out0 where 0: "fold ?K [0..<k]
      (replicate (nat (sum_list lens)) False, replicate (Suc (length lens)) 0) = (tm0, out0)" by fastforce
  from Suc.IH [OF _ this] Suc.prems(1) have IH: "length tm0 = nat (sum_list lens)"
    "out0 = 0 # map (kept_count m lens cub sink last_q bs) [0..<k] @ replicate (length lens - k) 0"
    "\<forall>(i, t) \<in> set (segs lens). i < k \<longrightarrow>
      tm0 ! nat (cu_of lens ! i + int t) = kept_token m lens cub sink last_q bs i (int t)" by auto
  have k: "k < length lens" using Suc.prems by simp
  have step: "?K k (tm0, out0) = (tm, out)" using Suc.prems(2) 0 by simp
  have "length out0 = Suc (length lens)" using IH(2) k by simp
  note E = expand_kernel [OF assms(1,2) k _ IH(1) this step]
  have n: "nat (lens ! k) \<le> n * nat bs" using assms(3) k by simp
  have "replicate (length lens - k) (0::int) = 0 # replicate (length lens - Suc k) 0"
    using k by (metis Suc_diff_Suc replicate_Suc)
  then have "out = 0 # map (kept_count m lens cub sink last_q bs) [0..<Suc k] @ replicate (length lens - Suc k) 0"
    unfolding E(2) [OF n] IH(2) by (simp add: list_update_append)
  moreover have "tm ! nat (cu_of lens ! i + int t) = kept_token m lens cub sink last_q bs i (int t)"
    if "(i, t) \<in> set (segs lens)" "i < Suc k" for i t
  proof (cases "i = k")
    case True
    then show ?thesis using E(3) [OF n] that by (simp add: segs_mem)
  next
    case False
    then show ?thesis using E(4) [OF n that(1)] IH(3) that by auto
  qed
  ultimately show ?case using E(1) [OF n] IH(1) by auto
qed auto

text \<open>On rank 0, or without tensor parallelism, the broadcast values are the own ones.\<close>

definition rank_0 :: "tp_group \<Rightarrow> bool" where
  "rank_0 tp \<longleftrightarrow> world_size tp \<le> 1 \<or> (broadcast_mask tp = id \<and> broadcast_lens tp = id)"

lemma select_prefill_spec:
  assumes "\<forall>x \<in> set lens. 0 \<le> x" and "0 < bs" and "rank_0 tp"
    and "select_prefill fp tp scores lens bs sink last_q p = (tm, out)"
  shows "\<exists>m cub. length tm = nat (sum_list lens) \<and>
    out = 0 # map (kept_count m lens cub sink last_q bs) [0..<length lens] \<and>
    (\<forall>(i, t) \<in> set (segs lens).
      tm ! nat (cu_of lens ! i + int t) = kept_token m lens cub sink last_q bs i (int t))"
proof -
  let ?cub = "get_cu_block_seqlens (cu_of lens) bs"
  let ?n = "next_power_of_2 (nat (cdiv (fold max lens 0) bs))"
  have n: "\<forall>x \<in> set lens. nat x \<le> ?n * nat bs" using padded_tokens [OF assms(2)] assms(1) by blast
  obtain m where "fold (expand_block_mask_kernel m (cu_of lens) ?cub sink last_q bs ?n) [0..<length lens]
      (replicate (nat (sum_list lens)) False, replicate (Suc (length lens)) 0) = (tm, out)"
    using assms(3,4) by (auto simp: select_prefill_def Let_def rank_0_def split: prod.splits if_splits)
  from expand_all [OF assms(1,2) n order_refl this] show ?thesis
    by (intro exI [of _ m] exI [of _ ?cub]) (simp, metis (no_types, lifting) case_prodI2 case_prodD segs_mem)
qed


section \<open>The whole selection\<close>

lemma max_list_Max: "xs \<noteq> [] \<Longrightarrow> max_list xs = Inr (Max (set xs))"
  by (cases xs) (simp, simp only: max_list.simps Max.set_eq_fold)

lemma by_tokens:
  assumes "\<forall>x \<in> set lens. 0 \<le> x" and "length xs = nat (sum_list lens)"
  shows "xs = map (\<lambda>(i, t). xs ! nat (cu_of lens ! i + int t)) (segs lens)"
proof -
  have "map ((!) xs \<circ> nat) (arange (sum_list lens)) = map ((!) xs) [0..<length xs]"
    using assms(2) by (simp add: arange_def comp_def)
  then have "xs = map ((!) xs \<circ> nat) (arange (sum_list lens))" by (simp add: map_nth)
  also have "\<dots> = map (\<lambda>(i, t). xs ! nat (cu_of lens ! i + int t)) (segs lens)"
    unfolding segs_position [OF assms(1), symmetric] by (simp add: prod.case_distrib comp_def case_prod_beta)
  finally show ?thesis .
qed

definition prefills :: "int list \<Rightarrow> nat list" where
  "prefills lens = filter (\<lambda>i. lens ! i > 1) [0..<length lens]"

lemma prefills_mem: "i \<in> set (prefills lens) \<longleftrightarrow> i < length lens \<and> lens ! i > 1"
  by (auto simp: prefills_def)

lemma prefill_indices_map: "prefill_indices (cu_of lens) = map int (prefills lens)"
  by (auto simp: prefill_indices_def nonzero_def prefills_def intro: filter_cong)

definition prefill_lens :: "int list \<Rightarrow> int list" where
  "prefill_lens lens = map ((!) lens) (prefills lens)"

lemma prefill_lens_simps [simp]:
  "length (prefill_lens lens) = length (prefills lens)"
  "k < length (prefills lens) \<Longrightarrow> prefill_lens lens ! k = lens ! (prefills lens ! k)"
  by (simp_all add: prefill_lens_def)

lemma prefill_lens_pos: "\<forall>x \<in> set (prefill_lens lens). 0 \<le> x"
  by (auto simp: prefill_lens_def prefills_mem)

lemma token_range:
  assumes "\<forall>x \<in> set lens. 0 \<le> x" and "(i, t) \<in> set (segs lens)"
  shows "0 \<le> cu_of lens ! i + int t" and "cu_of lens ! i + int t < sum_list lens"
  using cu_of_mono [OF assms(1), of 0 i] cu_of_mono [OF assms(1), of "Suc i" "length lens"] assms(2)
  by (auto simp: segs_mem cu_of_Suc cu_of_nth [of "length lens"] cu_of_nth [of 0])

text \<open>A token of a prefill request is a token of the batch.\<close>

lemma prefill_token:
  assumes "(k, t) \<in> set (segs (prefill_lens lens))"
  shows "k < length (prefills lens)" and "(prefills lens ! k, t) \<in> set (segs lens)"
  using assms nth_mem [of k "prefills lens"] by (auto simp: segs_mem prefills_mem)

lemma prefill_token_indices_map:
  assumes "\<forall>x \<in> set lens. 0 \<le> x"
  shows "prefill_token_indices (cu_of lens) (prefill_lens lens) =
    Inr (map (\<lambda>(k, t). cu_of lens ! (prefills lens ! k) + int t) (segs (prefill_lens lens)))"
proof -
  let ?ps = "prefills lens" and ?S = "segs (prefill_lens lens)"
  have "gather (cu_of lens) (map int ?ps) = Inr (map ((!) (cu_of lens)) ?ps)"
    by (subst gather_ok) (auto simp: prefills_mem py_len_def)
  moreover have "repeat_interleave (arange (py_len (map int ?ps))) (prefill_lens lens) = Inr (map (int \<circ> fst) ?S)"
    using segs_fst [OF prefill_lens_pos [of lens]] by (simp add: py_len_def)
  moreover have "gather (map ((!) (cu_of lens)) ?ps) (map (int \<circ> fst) ?S) =
      Inr (map (\<lambda>(k, t). cu_of lens ! (?ps ! k)) ?S)"
    by (subst gather_ok) (auto simp: py_len_def dest: prefill_token)
  ultimately show ?thesis
    using intra_positions [OF prefill_lens_pos [of lens]]
    by (simp add: prefill_token_indices_def Let_def prefill_indices_map)
      (auto simp: zip_map_map zip_same_conv_map)
qed


text \<open>
  What the selection keeps: \<open>K i t\<close> says whether token \<open>t\<close> of prefill request \<open>i\<close> is kept.
\<close>

definition kept_by :: "int list \<Rightarrow> (nat \<Rightarrow> int \<Rightarrow> bool) \<Rightarrow> nat \<Rightarrow> int \<Rightarrow> bool" where
  "kept_by lens K i t \<longleftrightarrow> lens ! i \<le> 1 \<or> K i t"

definition new_len :: "int list \<Rightarrow> (nat \<Rightarrow> int \<Rightarrow> bool) \<Rightarrow> nat \<Rightarrow> int" where
  "new_len lens K i = int (length (filter (\<lambda>t. kept_by lens K i (int t)) [0..<nat (lens ! i)]))"

lemma put_tokens:
  assumes "\<forall>x \<in> set lens. 0 \<le> x"
    and "tm = map (\<lambda>(k, t). K (prefills lens ! k) (int t)) (segs (prefill_lens lens))"
  shows "\<exists>mask'. put (map (\<lambda>(k, t). cu_of lens ! (prefills lens ! k) + int t) (segs (prefill_lens lens))) tm
      (py_repeat True (sum_list lens)) = Inr mask' \<and> py_len mask' = sum_list lens \<and>
    (\<forall>(i, t) \<in> set (segs lens). mask' ! nat (cu_of lens ! i + int t) = kept_by lens K i (int t))"
proof -
  let ?S = "segs (prefill_lens lens)" and ?ps = "prefills lens"
  let ?pos = "\<lambda>(k, t). cu_of lens ! (?ps ! k) + int t"
  let ?xs = "py_repeat True (sum_list lens)"
  have len: "length ?xs = nat (sum_list lens)" by (simp add: py_repeat_def)
  let ?zip = "map (\<lambda>(k, t). (?pos (k, t), K (?ps ! k) (int t))) ?S"
  let ?m = "fold (\<lambda>(i, v) ys. ys[nat i := v]) ?zip ?xs"
  have rng: "\<forall>i \<in> set (map ?pos ?S). 0 \<le> i \<and> i < py_len ?xs"
    using token_range [OF assms(1)] prefill_token(2) len by (fastforce simp: py_len_def)
  have "zip (map ?pos ?S) tm = ?zip" by (auto simp: assms(2) zip_map_map zip_same_conv_map)
  then have put: "put (map ?pos ?S) tm ?xs = Inr ?m"
    using put_ok [OF _ rng, of tm] assms(2) by simp
  have "?m ! nat (cu_of lens ! i + int t) = kept_by lens K i (int t)" if it: "(i, t) \<in> set (segs lens)" for i t
  proof (cases "lens ! i > 1")
    case True
    then have "i \<in> set ?ps" using it by (simp add: prefills_mem segs_mem)
    then obtain k where k: "k < length ?ps" "?ps ! k = i" by (auto simp: in_set_conv_nth)
    then have S: "(k, t) \<in> set ?S" using it by (simp add: segs_mem)
    have "?m ! nat (?pos (k, t)) = K i (int t)"
    proof (rule fold_update_at)
      show "(?pos (k, t), K i (int t)) \<in> set ?zip" using S k(2) by (force simp: image_iff)
      show "nat (?pos (k, t)) < length ?xs" using token_range [OF assms(1) it] k(2) len by simp
      have "w = K i (int t)" if a: "(j, w) \<in> set ?zip" "nat j = nat (?pos (k, t))" for j w
      proof -
        obtain k' t' where j: "(k', t') \<in> set ?S" "j = ?pos (k', t')" "w = K (?ps ! k') (int t')"
          using a(1) by auto
        have "cu_of lens ! (?ps ! k') + int t' = cu_of lens ! i + int t"
          using a(2) j(2) k(2) token_range [OF assms(1) it] token_range [OF assms(1) prefill_token(2) [OF j(1)]]
          by simp
        then have "?ps ! k' = i \<and> t' = t"
          by (rule token_inj [OF assms(1) prefill_token(2) [OF j(1)] it])
        with j(3) show ?thesis by simp
      qed
      then show "\<forall>(j, w) \<in> set ?zip. nat j = nat (?pos (k, t)) \<longrightarrow> w = K i (int t)"
        by (intro ballI) (simp only: split_paired_all prod.case, blast)
    qed
    with k(2) True show ?thesis by (simp add: kept_by_def)
  next
    case False
    have "?m ! nat (cu_of lens ! i + int t) = ?xs ! nat (cu_of lens ! i + int t)"
    proof (rule fold_update_other)
      have "nat (?pos (k, s)) \<noteq> nat (cu_of lens ! i + int t)" if a: "(k, s) \<in> set ?S" for k s
      proof
        assume "nat (?pos (k, s)) = nat (cu_of lens ! i + int t)"
        then have "cu_of lens ! (?ps ! k) + int s = cu_of lens ! i + int t"
          using token_range [OF assms(1) it] token_range [OF assms(1) prefill_token(2) [OF a]] by simp
        then have "?ps ! k = i" using token_inj [OF assms(1) prefill_token(2) [OF a] it] by blast
        with False prefill_token(1) [OF a] show False using nth_mem [of k ?ps] by (auto simp: prefills_mem)
      qed
      then show "\<forall>(j, v) \<in> set ?zip. nat j \<noteq> nat (cu_of lens ! i + int t)" by auto
    qed
    also have "\<dots> = True" using token_range [OF assms(1) it] by (simp add: py_repeat_def)
    finally show ?thesis using False by (simp add: kept_by_def)
  qed
  moreover have "py_len ?m = sum_list lens" using len sum_nonneg [OF assms(1)] by (simp add: py_len_def)
  ultimately show ?thesis using put by auto
qed

lemma put_lens:
  assumes "\<forall>x \<in> set lens. 0 \<le> x"
    and "cs = map (\<lambda>k. new_len lens K (prefills lens ! k)) [0..<length (prefills lens)]"
  shows "put (map int (prefills lens)) cs lens = Inr (map (new_len lens K) [0..<length lens])"
proof -
  let ?ps = "prefills lens"
  have cs: "cs = map (new_len lens K) ?ps" unfolding assms(2) by (rule nth_equalityI) simp_all
  let ?zip = "map (\<lambda>i. (int i, new_len lens K i)) ?ps"
  have "zip (map int ?ps) cs = ?zip" by (simp add: cs zip_map_map zip_same_conv_map)
  then have "put (map int ?ps) cs lens = Inr (fold (\<lambda>(i, v) ys. ys[nat i := v]) ?zip lens)"
    using put_ok [of "map int ?ps" cs lens] by (auto simp: cs prefills_mem py_len_def)
  moreover have "fold (\<lambda>(i, v) ys. ys[nat i := v]) ?zip lens ! i = new_len lens K i" if i: "i < length lens" for i
  proof (cases "lens ! i > 1")
    case True
    have "fold (\<lambda>(i, v) ys. ys[nat i := v]) ?zip lens ! nat (int i) = new_len lens K i"
      by (rule fold_update_at) (use True i in \<open>auto simp: prefills_mem\<close>)
    then show ?thesis by simp
  next
    case False
    have "fold (\<lambda>(i, v) ys. ys[nat i := v]) ?zip lens ! i = lens ! i"
      by (rule fold_update_other) (use False in \<open>auto simp: prefills_mem\<close>)
    with False i assms(1) show ?thesis by (simp add: new_len_def kept_by_def)
  qed
  then have "fold (\<lambda>(i, v) ys. ys[nat i := v]) ?zip lens = map (new_len lens K) [0..<length lens]"
    by (intro nth_equalityI) (simp_all only: fold_update_length length_map length_upt nth_map_upt add_0 diff_zero)
  ultimately show ?thesis by simp
qed


lemma selection_spec:
  assumes "\<forall>x \<in> set lens. 0 \<le> x" and "0 < bs" and "rank_0 tp" and "lens \<noteq> []"
  shows "\<exists>K mask' mx. topselectionvarlen fp tp scores (sum_list lens) (cu_of lens) max_len bs sink last_q p =
      Inr (mask', mx, cu_of (map (new_len lens K) [0..<length lens])) \<and>
    py_len mask' = sum_list lens \<and>
    (\<forall>(i, t) \<in> set (segs lens). mask' ! nat (cu_of lens ! i + int t) = kept_by lens K i (int t)) \<and>
    (\<forall>i t. i < length lens \<and> (t < sink \<or> t \<ge> lens ! i - last_q) \<longrightarrow> K i t) \<and>
    (prefills lens = [] \<longrightarrow> mx = max_len) \<and>
    (prefills lens \<noteq> [] \<longrightarrow> mx = Max (new_len lens K ` {..<length lens}))"
proof (cases "prefills lens = []")
  case True
  let ?K = "\<lambda>i t. True"
  have small: "lens ! i \<le> 1" if "i < length lens" for i using True that prefills_mem [of i lens] by force
  then have "map (new_len lens ?K) [0..<length lens] = lens"
    using assms(1) by (intro nth_equalityI) (auto simp: new_len_def kept_by_def)
  moreover have "topselectionvarlen fp tp scores (sum_list lens) (cu_of lens) max_len bs sink last_q p =
      Inr (py_repeat True (sum_list lens), max_len, cu_of lens)"
    using True by (simp add: topselectionvarlen_def prefill_indices_map)
  moreover have "py_repeat True (sum_list lens) ! nat (cu_of lens ! i + int t)" if "(i, t) \<in> set (segs lens)" for i t
    using token_range [OF assms(1) that] by (simp add: py_repeat_def)
  moreover have "py_len (py_repeat True (sum_list lens)) = sum_list lens"
    using sum_nonneg [OF assms(1)] by (simp add: py_repeat_def py_len_def)
  ultimately show ?thesis using True
    by (intro exI [of _ ?K] exI [of _ "py_repeat True (sum_list lens)"] exI [of _ max_len])
      (auto simp: kept_by_def)
next
  case False
  let ?ps = "prefills lens" and ?pl = "prefill_lens lens"
  let ?tok = "map (\<lambda>(k, t). cu_of lens ! (?ps ! k) + int t) (segs ?pl)"
  obtain tm out where sel: "select_prefill fp tp (scores ?tok (cu_of ?pl)) ?pl bs sink last_q p = (tm, out)"
    by fastforce
  from select_prefill_spec [OF prefill_lens_pos assms(2,3) this] obtain m cub where
    tm: "length tm = nat (sum_list ?pl)" "out = 0 # map (kept_count m ?pl cub sink last_q bs) [0..<length ?pl]"
      "\<forall>(i, t) \<in> set (segs ?pl). tm ! nat (cu_of ?pl ! i + int t) = kept_token m ?pl cub sink last_q bs i (int t)"
    by blast
  define K where "K i t = (\<exists>k < length ?ps. ?ps ! k = i \<and> kept_token m ?pl cub sink last_q bs k t) " for i t
  have dist: "distinct ?ps" by (simp add: prefills_def)
  have K: "K (?ps ! k) t = kept_token m ?pl cub sink last_q bs k t" if "k < length ?ps" for k t
    using that nth_eq_iff_index_eq [OF dist] by (auto simp: K_def)
  have tm_map: "tm = map (\<lambda>(k, t). K (?ps ! k) (int t)) (segs ?pl)"
    using tm(3) prefill_token(1)
    by (subst by_tokens [OF prefill_lens_pos tm(1)]) (auto simp: K)
  define K' where "K' i t = (K i t \<or> t < sink \<or> t \<ge> lens ! i - last_q)" for i t
  have K': "K' (?ps ! k) t = K (?ps ! k) t" if "k < length ?ps" for k t
    using that by (auto simp: K'_def K kept_token_def token_kept_def)
  have tm_map': "tm = map (\<lambda>(k, t). K' (?ps ! k) (int t)) (segs ?pl)"
    unfolding tm_map using prefill_token(1) by (auto simp: K')
  have big: "\<not> lens ! (?ps ! k) \<le> 1" if "k < length ?ps" for k
    using nth_mem [OF that] by (simp add: prefills_mem)
  have out: "tl out = map (\<lambda>k. new_len lens K' (?ps ! k)) [0..<length ?ps]"
    unfolding tm(2)
    by (auto simp: new_len_def kept_by_def kept_count_def K K' dest: big intro!: arg_cong [of _ _ length] filter_cong)
  obtain mask' where m: "put ?tok tm (py_repeat True (sum_list lens)) = Inr mask'" "py_len mask' = sum_list lens"
      "\<forall>(i, t) \<in> set (segs lens). mask' ! nat (cu_of lens ! i + int t) = kept_by lens K' i (int t)"
    using put_tokens [OF assms(1) tm_map'] by blast
  have "gather lens (map int ?ps) = Inr ?pl"
    by (subst gather_ok) (auto simp: prefills_mem py_len_def prefill_lens_def)
  moreover have "max_list (map (new_len lens K') [0..<length lens]) = Inr (Max (new_len lens K' ` {..<length lens}))"
    using assms(4) by (subst max_list_Max) (simp_all add: atLeast0LessThan)
  ultimately have "topselectionvarlen fp tp scores (sum_list lens) (cu_of lens) max_len bs sink last_q p =
      Inr (mask', Max (new_len lens K' ` {..<length lens}), cu_of (map (new_len lens K') [0..<length lens]))"
    using False
    by (simp add: topselectionvarlen_def prefill_indices_map prefill_token_indices_map [OF assms(1)] sel m(1)
        put_lens [OF assms(1) out])
  with m(2,3) False show ?thesis by (intro exI [of _ K']) (auto simp: K'_def)
qed


lemma request_slice:
  assumes "\<forall>x \<in> set lens. 0 \<le> x" and "i < length lens" and "py_len xs = sum_list lens"
  shows "py_slice xs (cu_of lens ! i) (cu_of lens ! Suc i) =
    map (\<lambda>t. xs ! nat (cu_of lens ! i + int t)) [0..<nat (lens ! i)]"
proof -
  have c: "0 \<le> cu_of lens ! i" "0 \<le> lens ! i" "cu_of lens ! Suc i = cu_of lens ! i + lens ! i"
    "cu_of lens ! Suc i \<le> sum_list lens"
    using cu_of_mono [OF assms(1), of 0 i] cu_of_mono [OF assms(1), of "Suc i" "length lens"] assms(1,2)
    by (auto simp: cu_of_Suc cu_of_nth [of "length lens"] cu_of_nth [of 0])
  have len: "length xs = nat (sum_list lens)" using assms(3) by (simp add: py_len_def)
  have "length (take (nat (lens ! i)) (drop (nat (cu_of lens ! i)) xs)) = nat (lens ! i)"
    using c len by auto
  then have "take (nat (lens ! i)) (drop (nat (cu_of lens ! i)) xs) =
      map (\<lambda>t. xs ! (nat (cu_of lens ! i) + t)) [0..<nat (lens ! i)]"
    by (intro nth_equalityI) auto
  then show ?thesis using c by (simp add: py_slice_nat nat_add_distrib)
qed

text \<open>Borders of a batch: they start at 0 and do not decrease.\<close>

definition batch_borders :: "int list \<Rightarrow> bool" where
  "batch_borders cu \<longleftrightarrow> length cu > 1 \<and> hd cu = 0 \<and> (\<forall>l \<in> set (seq_diff cu). 0 \<le> l)"

lemma batch_bordersE:
  assumes "batch_borders cu"
  obtains lens where "cu = cu_of lens" "\<forall>x \<in> set lens. 0 \<le> x" "lens \<noteq> []"
proof -
  have "cu_of (seq_diff cu) = cu" using assms by (intro cu_of_seq_diff) (auto simp: batch_borders_def)
  moreover have "seq_diff cu \<noteq> []"
    using assms by (auto simp: batch_borders_def simp flip: length_greater_0_conv)
  ultimately show ?thesis
    using assms that [of "seq_diff cu"] by (auto simp: batch_borders_def)
qed

text \<open>C10.
  The token mask and the borders that the selection returns agree, whatever the scores are: the new
  length of every request is the number of its tokens that the mask keeps, requests with at most
  one token keep their length, and the new maximum is the largest new length.
\<close>

theorem selection_mask_matches_borders:
  assumes "batch_borders cu" and "0 < block_size" and "rank_0 tp"
  shows "\<exists>keep mx cu'. topselectionvarlen fp tp scores (last cu) cu max_len block_size sink last_q p =
      Inr (keep, mx, cu') \<and> py_len keep = last cu \<and> length cu' = length cu \<and> hd cu' = 0 \<and>
    (\<forall>i < length cu - 1.
      seq_diff cu' ! i = py_len (filter id (py_slice keep (cu ! i) (cu ! Suc i))) \<and>
      (seq_diff cu ! i \<le> 1 \<longrightarrow> seq_diff cu' ! i = seq_diff cu ! i)) \<and>
    (prefill_indices cu \<noteq> [] \<longrightarrow> mx = Max (set (seq_diff cu')))"
proof -
  obtain lens where cu: "cu = cu_of lens" and lens: "\<forall>x \<in> set lens. 0 \<le> x" "lens \<noteq> []"
    using batch_bordersE [OF assms(1)] .
  obtain K keep mx where r: "topselectionvarlen fp tp scores (sum_list lens) (cu_of lens) max_len block_size sink last_q p =
      Inr (keep, mx, cu_of (map (new_len lens K) [0..<length lens]))" "py_len keep = sum_list lens"
    "\<forall>(i, t) \<in> set (segs lens). keep ! nat (cu_of lens ! i + int t) = kept_by lens K i (int t)"
    "prefills lens \<noteq> [] \<longrightarrow> mx = Max (new_len lens K ` {..<length lens})"
    using selection_spec [OF lens(1) assms(2,3) lens(2)] by blast
  let ?cu' = "cu_of (map (new_len lens K) [0..<length lens])"
  have "new_len lens K i = py_len (filter id (py_slice keep (cu ! i) (cu ! Suc i)))"
    if i: "i < length lens" for i
  proof -
    have "py_slice keep (cu ! i) (cu ! Suc i) = map (\<lambda>t. kept_by lens K i (int t)) [0..<nat (lens ! i)]"
      using request_slice [OF lens(1) i r(2)] r(3) i by (auto simp: cu segs_mem)
    then show ?thesis by (simp add: new_len_def py_len_def filter_map comp_def)
  qed
  moreover have "new_len lens K i = lens ! i" if "i < length lens" "lens ! i \<le> 1" for i
    using that lens(1) by (simp add: new_len_def kept_by_def)
  ultimately have "\<forall>i < length cu - 1.
      seq_diff ?cu' ! i = py_len (filter id (py_slice keep (cu ! i) (cu ! Suc i))) \<and>
      (seq_diff cu ! i \<le> 1 \<longrightarrow> seq_diff ?cu' ! i = seq_diff cu ! i)"
    by (simp add: cu)
  moreover have "prefill_indices cu \<noteq> [] \<longrightarrow> mx = Max (set (seq_diff ?cu'))"
    using r(4) by (simp add: cu prefill_indices_map atLeast0LessThan)
  moreover have "hd ?cu' = 0" "length ?cu' = length cu" by (simp_all add: cu_of_def cu)
  ultimately show ?thesis
    using r(1,2)
    by (intro exI [of _ keep] exI [of _ mx] exI [of _ ?cu'] conjI) (assumption | simp add: cu; fail)+
qed

text \<open>C11.
  The selection keeps the attention sinks and the last tokens of every prompt, whatever the scores
  are: with the sizes of the models (128 and 128) the first and the last 128 tokens; a prompt of at
  most that many tokens and a decode token are kept whole.
\<close>

theorem selection_keeps_ends:
  assumes "batch_borders cu" and "0 < block_size" and "rank_0 tp"
    and "topselectionvarlen fp tp scores (last cu) cu max_len block_size sink last_q p = Inr (keep, mx, cu')"
    and "i < length cu - 1" and "0 \<le> t" and "t < seq_diff cu ! i"
    and "t < sink \<or> seq_diff cu ! i - last_q \<le> t \<or> seq_diff cu ! i = 1"
  shows "keep ! nat (cu ! i + t)"
proof -
  obtain lens where cu: "cu = cu_of lens" and lens: "\<forall>x \<in> set lens. 0 \<le> x" "lens \<noteq> []"
    using batch_bordersE [OF assms(1)] .
  have top: "topselectionvarlen fp tp scores (sum_list lens) (cu_of lens) max_len block_size sink last_q p =
      Inr (keep, mx, cu')" using assms(4) by (simp add: cu)
  obtain K keep0 mx0 cu0 where r: "topselectionvarlen fp tp scores (sum_list lens) (cu_of lens) max_len
      block_size sink last_q p = Inr (keep0, mx0, cu0)"
    "\<forall>(i, t) \<in> set (segs lens). keep0 ! nat (cu_of lens ! i + int t) = kept_by lens K i (int t)"
    "\<forall>i t. i < length lens \<and> (t < sink \<or> t \<ge> lens ! i - last_q) \<longrightarrow> K i t"
    using selection_spec [OF lens(1) assms(2,3) lens(2)] by blast
  have keep: "keep0 = keep" using top r(1) by simp
  have it: "(i, nat t) \<in> set (segs lens)" using assms(5-7) by (simp add: segs_mem cu)
  then have "keep ! nat (cu_of lens ! i + t) = kept_by lens K i t" using r(2) assms(6) keep by fastforce
  moreover have "kept_by lens K i t"
    using r(3) assms(8) it by (auto simp: kept_by_def cu segs_mem)
  ultimately show ?thesis by (simp add: cu)
qed

end
