(* ===== verification/Drop_Facts.thy ===== *)
theory Drop_Facts
  imports Token_Drop Selection_Facts "HOL-Library.Sublist"
begin

text \<open>
  Facts on the token drop: the rows, positions and borders stay consistent through the layers; the
  tokens that are left get the first slots of their request; decode tokens of a request that was
  dropped follow its kept tokens in every layer; and what the drop does to requests that already
  have tokens in the cache.
\<close>

section \<open>Slots of a block table\<close>

definition slot :: "int list list \<Rightarrow> int \<Rightarrow> nat \<Rightarrow> int \<Rightarrow> int" where
  "slot block_table bs i pos = block_table ! i ! nat (pos div bs) * bs + pos mod bs"

text \<open>The table has room for \<open>l\<close> tokens of request \<open>i\<close>.\<close>

definition has_room :: "int list list \<Rightarrow> int \<Rightarrow> nat \<Rightarrow> int \<Rightarrow> bool" where
  "has_room block_table bs i l \<longleftrightarrow>
     i < length block_table \<and> 0 < bs \<and> l \<le> py_len (block_table ! i) * bs"

lemma slot_at_ok:
  assumes "has_room block_table bs i l" and "0 \<le> pos" and "pos < l"
  shows "slot_at block_table bs (int i) pos = Inr (slot block_table bs i pos)"
proof -
  have bs: "0 < bs" and i: "i < length block_table" using assms(1) by (auto simp: has_room_def)
  have "pos < py_len (block_table ! i) * bs" using assms by (auto simp: has_room_def)
  then have "pos div bs < py_len (block_table ! i)" using bs by (simp add: div_pos_less_iff)
  moreover have "0 \<le> pos div bs" using assms(2) bs by (simp add: pos_imp_zdiv_nonneg_iff)
  ultimately show ?thesis using i by (simp add: slot_at_def slot_def py_get_nth)
qed

lemma fold_update_same:
  "\<forall>(i, v) \<in> set ps. xs ! f i = v \<Longrightarrow> fold (\<lambda>(i, v) ys. ys[f i := v]) ps xs = xs"
  by (induction ps) auto

lemma put_same:
  assumes "length idx = length vals" and "\<forall>(i, v) \<in> set (zip idx vals). 0 \<le> i \<and> i < py_len xs \<and> xs ! nat i = v"
  shows "put idx vals xs = Inr xs"
proof -
  have "\<forall>i \<in> set idx. 0 \<le> i \<and> i < py_len xs"
    using assms by (metis (no_types, lifting) case_prodD in_set_impl_in_set_zip1)
  then show ?thesis
    using assms(2) by (subst put_ok [OF assms(1)]) (auto intro!: fold_update_same)
qed

lemma mask_select_map:
  "length m = length xs \<Longrightarrow> mask_select m xs = Inr (map ((!) xs) (filter (\<lambda>i. m ! i) [0..<length m]))"
proof -
  assume len: "length m = length xs"
  have "zip xs m = map (\<lambda>i. (xs ! i, m ! i)) [0..<length m]"
    by (rule nth_equalityI) (simp_all add: len)
  with len show ?thesis by (simp add: mask_select_def filter_map comp_def)
qed


section \<open>The slots after a drop\<close>

lemma slots_ok:
  assumes "\<forall>(i, pos) \<in> set ps. has_room bt bs i (l i) \<and> 0 \<le> pos \<and> pos < l i"
  shows "slots bt bs (map (\<lambda>(i, pos). (int i, pos)) ps) = Inr (map (\<lambda>(i, pos). slot bt bs i pos) ps)"
proof -
  have "slots bt bs (map (\<lambda>(i, pos). (int i, pos)) ps) =
      rmapv (\<lambda>(i, pos). slot_at bt bs (int i) pos) ps"
    unfolding slots_def by (induction ps) auto
  also have "\<dots> = Inr (map (\<lambda>(i, pos). slot bt bs i pos) ps)"
    by (rule rmapv_pure) (use assms in \<open>auto intro!: slot_at_ok [where l = "l _"]\<close>)
  finally show ?thesis .
qed

lemma segs_index:
  assumes "\<forall>x \<in> set lens. 0 \<le> x" and "(i, t) \<in> set (segs lens)"
  shows "map g (segs lens) ! nat (cu_of lens ! i + int t) = g (i, t)"
proof -
  obtain k where k: "k < length (segs lens)" "segs lens ! k = (i, t)" using assms(2) by (auto simp: in_set_conv_nth)
  have "map (\<lambda>(i, t). cu_of lens ! i + int t) (segs lens) ! k = arange (sum_list lens) ! k"
    by (simp only: segs_position [OF assms(1)])
  moreover have "int (length (segs lens)) = sum_list lens" by (rule length_segs [OF assms(1)])
  then have "arange (sum_list lens) ! k = int k" using k(1) by (simp add: arange_def)
  ultimately have "nat (cu_of lens ! i + int t) = k" using k by simp
  then show ?thesis using k by simp
qed

text \<open>
  In a step with a prefill the decode tokens are treated like the others: their length is 1, so that
  the second half of the mapping stores what is there already.
\<close>

lemma drop_slot_mapping_spec:
  assumes nn: "\<forall>x \<in> set lens. 0 \<le> x" and room: "\<forall>i < length lens. has_room bt bs i (lens ! i)"
    and dec: "length is_decode = length lens" "\<forall>i < length lens. is_decode ! i \<longrightarrow> lens ! i = 1"
  shows "drop_slot_mapping bt bs (cu_of lens) lens (sum_list lens) is_decode lens kv =
    Inr (map (\<lambda>(i, t). slot bt bs i (int t)) (segs lens))"
proof -
  let ?S = "segs lens" and ?sm = "map (\<lambda>(i, t). slot bt bs i (int t)) (segs lens)"
  have len: "length ?S = nat (sum_list lens)" using length_segs [OF nn] by simp
  have slots1: "slots bt bs (zip (map (int \<circ> fst) ?S) (map (int \<circ> snd) ?S)) = Inr ?sm"
  proof -
    have "zip (map (int \<circ> fst) ?S) (map (int \<circ> snd) ?S) =
        map (\<lambda>(i, pos). (int i, pos)) (map (\<lambda>(i, t). (i, int t)) ?S)"
      by (auto simp: zip_map_map zip_same_conv_map)
    also have "slots bt bs \<dots> = Inr (map (\<lambda>(i, pos). slot bt bs i pos) (map (\<lambda>(i, t). (i, int t)) ?S))"
      by (rule slots_ok [where l = "(!) lens"]) (use room in \<open>auto simp: segs_mem\<close>)
    finally show ?thesis by (simp add: comp_def case_prod_beta)
  qed
  let ?D = "filter ((!) is_decode) [0..<length is_decode]"
  have D: "i < length lens" "lens ! i = 1" "(i, 0) \<in> set ?S" if "i \<in> set ?D" for i
    using that dec by (auto simp: segs_mem)
  have sel: "mask_select is_decode lens = Inr (map ((!) lens) ?D)"
    using mask_select_map [of is_decode lens] dec(1) by simp
  have nz: "nonzero is_decode = map int ?D" by (simp add: nonzero_def)
  have slots2: "slots bt bs (zip (map int ?D) (map (\<lambda>l. l - 1) (map ((!) lens) ?D))) =
      Inr (map (\<lambda>i. slot bt bs i 0) ?D)"
  proof -
    have "zip (map int ?D) (map (\<lambda>l. l - 1) (map ((!) lens) ?D)) =
        map (\<lambda>(i, pos). (int i, pos)) (map (\<lambda>i. (i, 0)) ?D)"
      using D by (auto simp: zip_map_map zip_same_conv_map)
    also have "slots bt bs \<dots> = Inr (map (\<lambda>(i, pos). slot bt bs i pos) (map (\<lambda>i. (i, 0)) ?D))"
    proof (rule slots_ok [where l = "(!) lens"])
      have "has_room bt bs i (lens ! i) \<and> 0 < lens ! i" if "i \<in> set ?D" for i
        using room [rule_format, OF D(1) [OF that]] D(2) [OF that] by simp
      then show "\<forall>(i, pos) \<in> set (map (\<lambda>i. (i, 0)) ?D). has_room bt bs i (lens ! i) \<and> 0 \<le> pos \<and> pos < lens ! i"
        by auto
    qed
    finally show ?thesis by (simp add: comp_def)
  qed
  have gat: "gather (cu_of lens) (map int ?D) = Inr (map ((!) (cu_of lens)) ?D)"
  proof (subst gather_ok)
    show "\<forall>i \<in> set (map int ?D). 0 \<le> i \<and> i < py_len (cu_of lens)"
      using D(1) by (force simp: py_len_def)
  qed (simp add: comp_def)
  have put: "put (map ((!) (cu_of lens)) ?D) (map (\<lambda>i. slot bt bs i 0) ?D) ?sm = Inr ?sm"
  proof (rule put_same)
    have "0 \<le> cu_of lens ! i \<and> cu_of lens ! i < py_len ?sm \<and> ?sm ! nat (cu_of lens ! i) = slot bt bs i 0"
      if "i \<in> set ?D" for i
      using token_range [OF nn D(3) [OF that]] len
        segs_index [OF nn D(3) [OF that], of "\<lambda>(i, t). slot bt bs i (int t)"]
      by (simp add: py_len_def)
    then show "\<forall>(j, v) \<in> set (zip (map ((!) (cu_of lens)) ?D) (map (\<lambda>i. slot bt bs i 0) ?D)).
        0 \<le> j \<and> j < py_len ?sm \<and> ?sm ! nat j = v"
      by (auto simp: zip_map_map zip_same_conv_map)
  qed simp
  have reqs0: "(if length xs = 1 then py_repeat (hd xs) (py_len ys) else xs) = xs"
    if "length xs = length ys" for xs ys :: "int list"
    using that by (cases xs) (auto simp: py_repeat_def py_len_def)
  have reqs: "(if length (map (int \<circ> fst) ?S) = 1
      then py_repeat (hd (map (int \<circ> fst) ?S)) (py_len (map (int \<circ> snd) ?S)) else map (int \<circ> fst) ?S) =
      map (int \<circ> fst) ?S" by (rule reqs0) simp
  show ?thesis
    unfolding drop_slot_mapping_def segs_fst [OF nn] rbind_Inr intra_positions [OF nn] Let_def reqs slots1
      nz sel slots2 gat put by simp
qed


section \<open>Rows, positions and borders\<close>

lemma keep_rows_ok:
  assumes "length keep = length xs"
  shows "keep_rows keep xs = Inr (map ((!) xs) (filter ((!) keep) [0..<length xs]))"
proof -
  have "gather xs (nonzero keep) = Inr (map ((!) xs) (filter ((!) keep) [0..<length xs]))"
    unfolding nonzero_def
    by (subst gather_ok) (auto simp: assms py_len_def comp_def)
  then show ?thesis by (simp add: keep_rows_def Let_def)
qed

lemma count_true: "length (filter ((!) keep) [0..<length keep]) = length (filter id keep)"
proof -
  have "length (filter id (map ((!) keep) [0..<length keep])) = length (filter ((!) keep) [0..<length keep])"
    by (simp add: filter_map comp_def)
  then show ?thesis by (simp add: map_nth)
qed

definition run_ok :: "'h run_state \<Rightarrow> int list \<Rightarrow> bool" where
  "run_ok s cu \<longleftrightarrow> rs_cu_seqlens s = Some cu \<and> batch_borders cu \<and>
     py_len (rs_rows s) = last cu \<and> py_len (rs_positions s) = last cu"

text \<open>The code of a layer keeps the number of rows.\<close>

definition code_ok :: "'h layer_code \<Rightarrow> bool" where
  "code_ok code \<longleftrightarrow> (\<forall>idx ctx ps xs. length (attend code idx ctx ps xs) = length xs) \<and>
     (\<forall>idx xs. length (feed_forward code idx xs) = length xs)"

lemma batch_borders_cu_of: "xs \<noteq> [] \<Longrightarrow> \<forall>x \<in> set xs. 0 \<le> x \<Longrightarrow> batch_borders (cu_of xs)"
proof -
  have "hd (cu_of xs) = 0" by (simp add: cu_of_def)
  then show "xs \<noteq> [] \<Longrightarrow> \<forall>x \<in> set xs. 0 \<le> x \<Longrightarrow> batch_borders (cu_of xs)"
    by (simp add: batch_borders_def)
qed

lemma selection_kept_total:
  assumes "batch_borders cu" and "0 < bs" and "rank_0 tp"
    and "topselectionvarlen fp tp scores (last cu) cu max_len bs sink last_q p = Inr (keep, mx, cu')"
  shows "py_len keep = last cu" and "batch_borders cu'" and "length cu' = length cu"
    and "last cu' = py_len (filter id keep)"
    and "\<And>i. i < length cu - 1 \<Longrightarrow> seq_diff cu' ! i \<le> seq_diff cu ! i"
    and "\<And>i. i < length cu - 1 \<Longrightarrow> seq_diff cu ! i = 1 \<Longrightarrow> seq_diff cu' ! i = 1"
proof -
  obtain lens where cu: "cu = cu_of lens" and lens: "\<forall>x \<in> set lens. 0 \<le> x" "lens \<noteq> []"
    using batch_bordersE [OF assms(1)] .
  have top: "topselectionvarlen fp tp scores (sum_list lens) (cu_of lens) max_len bs sink last_q p =
      Inr (keep, mx, cu')" using assms(4) by (simp add: cu)
  obtain K keep0 mx0 where r: "topselectionvarlen fp tp scores (sum_list lens) (cu_of lens) max_len bs sink last_q p =
      Inr (keep0, mx0, cu_of (map (new_len lens K) [0..<length lens]))" "py_len keep0 = sum_list lens"
    "\<forall>(i, t) \<in> set (segs lens). keep0 ! nat (cu_of lens ! i + int t) = kept_by lens K i (int t)"
    using selection_spec [OF lens(1) assms(2,3) lens(2)] by blast
  let ?new = "map (new_len lens K) [0..<length lens]"
  have eqs: "keep0 = keep" "cu' = cu_of ?new" using top r(1) by simp_all
  show "py_len keep = last cu" using r(2) eqs by (simp add: cu)
  have le: "0 \<le> new_len lens K i" "new_len lens K i \<le> lens ! i" if "i < length lens" for i
    using lens(1) [rule_format, OF nth_mem [OF that]]
      length_filter_le [of "\<lambda>t. kept_by lens K i (int t)" "[0..<nat (lens ! i)]"]
    by (simp_all add: new_len_def le_nat_iff)
  show "batch_borders cu'"
    unfolding eqs(2) by (rule batch_borders_cu_of) (use lens(2) le in auto)
  show "length cu' = length cu" by (simp add: eqs cu)
  show "seq_diff cu' ! i \<le> seq_diff cu ! i" if "i < length cu - 1" for i
    using that le by (simp add: eqs cu)
  show "seq_diff cu' ! i = 1" if "i < length cu - 1" "seq_diff cu ! i = 1" for i
    using that by (simp add: eqs cu new_len_def kept_by_def)
  have "length keep = nat (sum_list lens)" using r(2) eqs(1) by (simp add: py_len_def)
  then have "keep = map (\<lambda>(i, t). keep ! nat (cu_of lens ! i + int t)) (segs lens)"
    by (rule by_tokens [OF lens(1)])
  also have "\<dots> = map (\<lambda>(i, t). kept_by lens K i (int t)) (segs lens)"
    using r(3) eqs(1) by (intro map_cong) auto
  finally have "length (filter id keep) = length (filter (\<lambda>(i, t). kept_by lens K i (int t)) (segs lens))"
    by (simp add: filter_map comp_def case_prod_unfold)
  also have "\<dots> = (\<Sum>i \<leftarrow> [0..<length lens]. length (filter (\<lambda>t. kept_by lens K i (int t)) [0..<nat (lens ! i)]))"
    by (simp add: segs_def filter_concat length_concat filter_map comp_def)
  finally show "last cu' = py_len (filter id keep)"
    by (simp add: eqs py_len_def new_len_def [abs_def] comp_def flip: sum_list_of_nat)
qed


lemma subseq_kept: "subseq (map ((!) xs) (filter P [0..<length xs])) xs"
  using subseq_map [OF subseq_filter_left [of P "[0..<length xs]"], of "(!) xs"] by (simp add: map_nth)

lemma drop_layer_run_ok:
  assumes "run_ok s cu" and "code_ok code" and "0 < dc_block_size cfg" and "rank_0 tp"
    and "drop_layer_forward fp tp code cfg idx cu s = Inr s'"
  shows "\<exists>cu'. run_ok s' cu' \<and> length cu' = length cu \<and>
    (\<forall>i < length cu - 1. seq_diff cu' ! i \<le> seq_diff cu ! i) \<and>
    subseq (rs_positions s') (rs_positions s) \<and> rs_per_layer s' = rs_per_layer s"
proof -
  let ?rows = "attend code idx (rs_ctx s) (rs_positions s) (rs_rows s)"
  have rows: "py_len ?rows = last cu" using assms(1,2) by (simp add: run_ok_def code_ok_def py_len_def)
  obtain keep mx cu' rows' ps' ctx' where d:
    "topselectionvarlen fp tp (block_scores code idx ?rows (rs_positions s)) (last cu) cu
       (rs_max_seq_len s) (dc_block_size cfg) (dc_attention_sink cfg) (dc_last_q cfg) (dc_p cfg) =
       Inr (keep, mx, cu')"
    "keep_rows keep ?rows = Inr rows'" "keep_rows keep (rs_positions s) = Inr ps'"
    "s' = s\<lparr>rs_positions := ps', rs_rows := feed_forward code idx rows', rs_cu_seqlens := Some cu',
      rs_max_seq_len := mx, rs_ctx := ctx'\<rparr>"
    using assms(5) by (auto simp: drop_layer_forward_def Let_def res_simps rows)
  have cu: "batch_borders cu" using assms(1) by (simp add: run_ok_def)
  note k = selection_kept_total [OF cu assms(3,4) d(1)]
  have len: "length keep = length ?rows" "length keep = length (rs_positions s)"
    using k(1) rows assms(1) by (simp_all add: run_ok_def py_len_def)
  have "rows' = map ((!) ?rows) (filter ((!) keep) [0..<length keep])"
    "ps' = map ((!) (rs_positions s)) (filter ((!) keep) [0..<length keep])"
    using d(2,3) keep_rows_ok [OF len(1)] keep_rows_ok [OF len(2)] len by simp_all
  then have "py_len rows' = last cu'" "py_len ps' = last cu'" "subseq ps' (rs_positions s)"
    using k(4) count_true [of keep] subseq_kept [of "rs_positions s" "(!) keep"] len(2)
    by (simp_all add: py_len_def)
  moreover have "length (feed_forward code idx rows') = length rows'" using assms(2) by (simp add: code_ok_def)
  ultimately have "run_ok s' cu'" using k(2) by (simp add: run_ok_def d(4) py_len_def)
  with k(3,5) d(4) \<open>subseq ps' (rs_positions s)\<close> show ?thesis by auto
qed

lemma layer_step_run_ok:
  assumes "run_ok s cu" and "code_ok code" and "0 < dc_block_size cfg" and "rank_0 tp"
    and "layer_step fp tp code cfg dl q pre idx s = Inr s'"
  shows "\<exists>cu'. run_ok s' cu' \<and> length cu' = length cu \<and>
    (\<forall>i < length cu - 1. seq_diff cu' ! i \<le> seq_diff cu ! i) \<and> subseq (rs_positions s') (rs_positions s)"
proof -
  have cu: "rs_cu_seqlens s = Some cu" using assms(1) by (simp add: run_ok_def)
  show ?thesis
  proof (cases "pre \<and> idx \<in> set dl \<and> py_len (rs_rows s) > dc_attention_sink cfg + dc_last_q cfg")
    case True
    then obtain s1 where s1: "drop_layer_forward fp tp code cfg idx cu s = Inr s1"
      using assms(5) cu by (auto simp: layer_step_def res_simps)
    have "\<exists>d. s' = s1\<lparr>rs_per_layer := d\<rparr>"
    proof (cases "\<exists>ids qs new. req_ids_snapshot (rs_ctx s1) = Some ids \<and> q = Some qs \<and> rs_cu_seqlens s1 = Some new")
      case some: True
      then show ?thesis using assms(5) cu True s1 by (auto simp: layer_step_def res_simps)
    next
      case none: False
      then have "s' = s1\<lparr>rs_per_layer := rs_per_layer s1\<rparr>"
        using assms(5) cu True s1 by (auto simp: layer_step_def split: option.splits)
      then show ?thesis ..
    qed
    then obtain d where "s' = s1\<lparr>rs_per_layer := d\<rparr>" ..
    then have "run_ok s' c = run_ok s1 c" "rs_positions s' = rs_positions s1" for c
      by (simp_all add: run_ok_def)
    with drop_layer_run_ok [OF assms(1-4) s1] show ?thesis by auto
  next
    case False
    then have "s' = plain_layer_forward code idx s" using assms(5) cu by (auto simp: layer_step_def)
    then have "run_ok s' cu" "rs_positions s' = rs_positions s"
      using assms(1,2) by (simp_all add: plain_layer_forward_def run_ok_def code_ok_def py_len_def)
    then show ?thesis by auto
  qed
qed

text \<open>C8.
  Through all layers the rows of the hidden states, the positions and the borders of the requests
  stay consistent: there are as many rows and positions as the borders say, the number of requests
  does not change, no request gets longer, and the positions are a subsequence of the positions
  that the forward pass started with, in their order.
\<close>

theorem forward_keeps_rows_and_borders:
  assumes "model_forward fp tp code cfg dl layers positions rows old ctx = Inr s'"
    and "get_step_info ctx = Inr (Some cu, mx, q, kv, pre)"
    and "batch_borders cu" and "py_len rows = last cu" and "py_len positions = last cu"
    and "code_ok code" and "0 < dc_block_size cfg" and "rank_0 tp"
  shows "\<exists>cu'. rs_cu_seqlens s' = Some cu' \<and> batch_borders cu' \<and> length cu' = length cu \<and>
    py_len (rs_rows s') = last cu' \<and> py_len (rs_positions s') = last cu' \<and>
    (\<forall>i < length cu - 1. seq_diff cu' ! i \<le> seq_diff cu ! i) \<and> subseq (rs_positions s') positions"
proof -
  obtain per_layer ctx1 where run: "rfold (layer_step fp tp code cfg dl q pre) layers
      \<lparr>rs_positions = positions, rs_rows = rows, rs_cu_seqlens = Some cu, rs_max_seq_len = mx,
       rs_per_layer = per_layer, rs_ctx = ctx1\<rparr> = Inr s'"
    using assms(1,2) by (auto simp: model_forward_def res_simps split: if_splits)
  have "\<exists>cu'. run_ok s' cu' \<and> length cu' = length cu0 \<and>
      (\<forall>i < length cu0 - 1. seq_diff cu' ! i \<le> seq_diff cu0 ! i) \<and> subseq (rs_positions s') (rs_positions s)"
    if "rfold (layer_step fp tp code cfg dl q pre) layers s = Inr s'" "run_ok s cu0" for s cu0
    using that
  proof (induction layers arbitrary: s cu0)
    case (Cons idx layers)
    then obtain s1 where s1: "layer_step fp tp code cfg dl q pre idx s = Inr s1"
      "rfold (layer_step fp tp code cfg dl q pre) layers s1 = Inr s'" by (auto simp: res_simps)
    from layer_step_run_ok [OF Cons.prems(2) assms(6-8) s1(1)] obtain cu1 where cu1: "run_ok s1 cu1"
      "length cu1 = length cu0" "\<forall>i < length cu0 - 1. seq_diff cu1 ! i \<le> seq_diff cu0 ! i"
      "subseq (rs_positions s1) (rs_positions s)" by blast
    from Cons.IH [OF s1(2) cu1(1)] obtain cu' where cu': "run_ok s' cu'" "length cu' = length cu1"
      "\<forall>i < length cu1 - 1. seq_diff cu' ! i \<le> seq_diff cu1 ! i"
      "subseq (rs_positions s') (rs_positions s1)" by blast
    have "subseq (rs_positions s') (rs_positions s)"
      using cu'(4) cu1(4) by (rule subseq_order.order_trans)
    with cu1 cu' show ?case by (metis order_trans)
  qed auto
  from this [OF run] assms(3-5) show ?thesis by (auto simp: run_ok_def)
qed

end
