(* ===== verification/Ranking_Facts.thy ===== *)
theory Ranking_Facts
  imports Selection_Facts Complex_Main
begin

unbundle bit_operations_syntax

text \<open>
  The ranking of the blocks: the packed keys hold score and index, their signed order is the order
  of the scores for non-negative scores, and the blocks that are kept are the best ones, just
  enough of them to exceed the share \<open>p\<close>, up to the rounding error of the running sums.
\<close>

section \<open>Packed keys\<close>

lemma mask32: "(0xFFFFFFFF :: 64 word) = Bit_Operations.mask 32"
  by (simp add: mask_eq_exp_minus_1)

lemma pack_alt:
  "pack x i = push_bit 32 (ucast (sortable x)) OR take_bit 32 (word_of_nat i)"
proof -
  have "take_bit 32 (scast (sortable x)) = (ucast (sortable x) :: 64 word)"
  proof (rule bit_word_eqI)
    fix n :: nat
    have "min 31 n = n" if "n < 32" using that by simp
    then show "bit (take_bit 32 (scast (sortable x)) :: 64 word) n \<longleftrightarrow> bit (ucast (sortable x) :: 64 word) n"
      by (cases "n < 32") (auto simp: bit_simps dest: bit_imp_le_length)
  qed
  then show ?thesis by (simp add: pack_def mask32 flip: take_bit_eq_mask)
qed

lemma unpack_index_pack: "i < 2 ^ 31 \<Longrightarrow> unpack_index (pack x i) = int i"
proof -
  assume i: "i < 2 ^ 31"
  have "(ucast (pack x i AND 0xFFFFFFFF) :: 32 word) = word_of_nat i"
    by (rule bit_word_eqI)
      (auto simp: mask32 pack_alt bit_simps simp flip: take_bit_eq_mask)
  moreover have "sint (word_of_nat i :: 32 word) = int i"
  proof -
    have "uint (word_of_nat i :: 32 word) = int i"
      using i by (simp add: unsigned_of_nat take_bit_nat_eq_self)
    then show ?thesis using i by (simp add: sint_uint signed_take_bit_int_eq_self)
  qed
  ultimately show ?thesis by (simp add: unpack_index_def)
qed

lemma unpack_score_sortable: "(ucast (signed_drop_bit 32 (pack x i)) :: 32 word) = sortable x"
  by (rule bit_word_eqI) (auto simp: pack_alt bit_simps)

lemma msb_sint: "sint (x :: 32 word) < 0 \<longleftrightarrow> bit x 31"
  by (simp add: sint_uint bit_unsigned_iff)

lemma unpack_score_pack: "unpack_score (pack x i) = x"
proof -
  have "sint (sortable x) < 0 \<longleftrightarrow> \<not> sint x < 0"
    by (auto simp: msb_sint sortable_def bit_simps)
  then show ?thesis
    by (simp add: unpack_score_def unpack_score_sortable Let_def sortable_def ac_simps)
qed

lemma uint_pack: "i < 2 ^ 32 \<Longrightarrow> uint (pack x i) = uint (sortable x) * 2 ^ 32 + int i"
proof -
  assume i: "i < 2 ^ 32"
  have "push_bit 32 (ucast (sortable x)) AND take_bit 32 (word_of_nat i) = (0 :: 64 word)"
    by (rule bit_word_eqI) (auto simp: bit_simps)
  then have "pack x i = push_bit 32 (ucast (sortable x)) + take_bit 32 (word_of_nat i)"
    by (simp add: pack_alt disjunctive_add_eq_or)
  moreover have "uint (push_bit 32 (ucast (sortable x)) :: 64 word) = uint (sortable x) * 2 ^ 32"
  proof -
    have "uint (push_bit 32 (ucast (sortable x)) :: 64 word) = take_bit 64 (push_bit 32 (uint (sortable x)))"
      using uint_bounded [of "sortable x"]
      by (simp only: unsigned_push_bit_eq unsigned_ucast_eq) (simp add: take_bit_int_eq_self)
    then show ?thesis using uint_bounded [of "sortable x"]
      by (simp add: push_bit_eq_mult take_bit_int_eq_self)
  qed
  moreover have "uint (take_bit 32 (word_of_nat i) :: 64 word) = int i"
  proof -
    have "take_bit 64 i = i" using i by (simp add: take_bit_nat_eq_self_iff)
    then show ?thesis using i by (simp add: unsigned_take_bit_eq unsigned_of_nat take_bit_int_eq_self)
  qed
  ultimately show ?thesis
    using uint_bounded [of "sortable x"] i by (simp add: uint_word_arith_bintrs take_bit_int_eq_self)
qed


text \<open>The bit pattern of a non-negative number has a clear sign bit.\<close>

definition nonneg :: "f32 \<Rightarrow> bool" where
  "nonneg x \<longleftrightarrow> \<not> bit x 31"

lemma uint_sortable: "nonneg x \<Longrightarrow> uint (sortable x) = uint x + 2 ^ 31"
proof -
  assume x: "nonneg x"
  have "x AND 0x80000000 = 0"
  proof (rule bit_word_eqI)
    fix n :: nat
    have "(0x80000000 :: 32 word) = 2 ^ 31" by simp
    then have "bit (0x80000000 :: 32 word) n \<longleftrightarrow> n = 31" by (simp only: bit_exp_iff) auto
    then show "bit (x AND 0x80000000) n \<longleftrightarrow> bit (0 :: 32 word) n"
      using x by (auto simp: nonneg_def bit_and_iff)
  qed
  then have "sortable x = x + 0x80000000"
    using x by (simp add: sortable_def nonneg_def msb_sint disjunctive_add_eq_xor)
  moreover have "uint x < 2 ^ 31"
  proof -
    have "\<not> bit (uint x) 31" using x by (simp add: nonneg_def bit_unsigned_iff)
    moreover have "take_bit (Suc 31) (uint x) = uint x"
      using uint_bounded [of x] by (simp add: take_bit_int_eq_self)
    ultimately have "uint x = take_bit 31 (uint x)"
      by (simp only: take_bit_Suc_from_most of_bool_eq mult_zero_right add_0)
    then show ?thesis using take_bit_int_less_exp [of 31 "uint x"] by simp
  qed
  ultimately show ?thesis by (simp add: uint_word_arith_bintrs take_bit_int_eq_self)
qed

lemma sint_pack:
  assumes "nonneg x" and "i < 2 ^ 32"
  shows "sint (pack x i) = (uint x - 2 ^ 31) * 2 ^ 32 + int i"
proof -
  have u: "uint (pack x i) = (uint x + 2 ^ 31) * 2 ^ 32 + int i"
    using uint_pack [OF assms(2)] uint_sortable [OF assms(1)] by simp
  have "bit (pack x i) 63"
    using assms(1) by (auto simp: pack_alt bit_simps sortable_def nonneg_def msb_sint)
  then have "sint (pack x i) = uint (pack x i) - 2 ^ 64"
    using uint_bounded [of "pack x i"]
    by (simp add: sint_uint signed_take_bit_eq_take_bit_minus bit_unsigned_iff take_bit_int_eq_self)
  with u show ?thesis by simp
qed

lemma pack_less:
  assumes "nonneg x" "nonneg y" "i < 2 ^ 32" "j < 2 ^ 32"
  shows "sint (pack x i) < sint (pack y j) \<longleftrightarrow> x < y \<or> (x = y \<and> i < j)"
proof -
  have "(uint x - 2 ^ 31) * 2 ^ 32 + int i < (uint y - 2 ^ 31) * 2 ^ 32 + int j \<longleftrightarrow>
      uint x < uint y \<or> (uint x = uint y \<and> i < j)"
    using assms(3,4) by auto
  then show ?thesis
    unfolding sint_pack [OF assms(1,3)] sint_pack [OF assms(2,4)] word_less_alt word_uint_eq_iff .
qed


section \<open>The ranking\<close>

lemma ranking_permutation:
  assumes "n \<le> 2 ^ 31" and "\<forall>k < n. nonneg (s ! k)"
  obtains \<sigma> where "bij_betw \<sigma> {..<n} {..<n}"
    "\<And>q. q < n \<Longrightarrow> ranking s n ! q = pack (s ! \<sigma> q) (\<sigma> q)"
    "\<And>q q'. q < q' \<Longrightarrow> q' < n \<Longrightarrow> s ! \<sigma> q' \<le> s ! \<sigma> q"
proof -
  let ?keys = "map (\<lambda>k. pack (s ! k) k) [0..<n]" and ?r = "ranking s n"
  define \<sigma> where "\<sigma> q = nat (unpack_index (?r ! q))" for q
  have idx: "unpack_index (pack (s ! k) k) = int k" if "k < n" for k
    using that assms(1) by (intro unpack_index_pack) linarith
  have len: "length ?r = n" by (simp add: ranking_def sort_packed_def)
  have set_r: "set ?r = (\<lambda>k. pack (s ! k) k) ` {..<n}"
    by (simp add: ranking_def sort_packed_def atLeast0LessThan)
  have "inj_on (\<lambda>k. pack (s ! k) k) {..<n}"
  proof (rule inj_onI)
    fix i j assume "i \<in> {..<n}" "j \<in> {..<n}" "pack (s ! i) i = pack (s ! j) j"
    then show "i = j" by (metis idx lessThan_iff of_nat_eq_iff)
  qed
  then have "distinct ?keys" by (simp add: distinct_map atLeast0LessThan)
  then have dist: "distinct ?r" by (simp add: ranking_def sort_packed_def)
  have \<sigma>: "\<sigma> q < n \<and> ?r ! q = pack (s ! \<sigma> q) (\<sigma> q)" if "q < n" for q
  proof -
    have "?r ! q \<in> set ?r" using that len by simp
    then obtain k where "k < n" "?r ! q = pack (s ! k) k" unfolding set_r by blast
    with idx [of k] show ?thesis by (simp add: \<sigma>_def)
  qed
  have "inj_on \<sigma> {..<n}"
  proof (rule inj_onI)
    fix i j assume "i \<in> {..<n}" "j \<in> {..<n}" "\<sigma> i = \<sigma> j"
    then have "?r ! i = ?r ! j" using \<sigma> [of i] \<sigma> [of j] by simp
    then show "i = j" using dist len \<open>i \<in> {..<n}\<close> \<open>j \<in> {..<n}\<close> by (simp add: nth_eq_iff_index_eq)
  qed
  then have "bij_betw \<sigma> {..<n} {..<n}"
    using endo_inj_surj [of "{..<n}" \<sigma>] \<sigma> by (simp add: bij_betw_def image_subset_iff)
  moreover have "s ! \<sigma> q' \<le> s ! \<sigma> q" if "q < q'" "q' < n" for q q'
  proof (rule ccontr)
    assume "\<not> s ! \<sigma> q' \<le> s ! \<sigma> q"
    then have "sint (?r ! q) < sint (?r ! q')"
      using \<sigma> [of q] \<sigma> [of q'] that assms pack_less [of "s ! \<sigma> q" "s ! \<sigma> q'" "\<sigma> q" "\<sigma> q'"]
      by (simp add: not_le)
    moreover have "sorted (map (\<lambda>w. - sint w) ?r)" by (simp add: ranking_def sort_packed_def)
    then have "sint (?r ! q') \<le> sint (?r ! q)"
      using that len sorted_nth_mono [of "map (\<lambda>w. - sint w) ?r" q q'] by simp
    ultimately show False by simp
  qed
  ultimately show ?thesis using that [of \<sigma>] \<sigma> by blast
qed

text \<open>
  The nucleus of a ranked family of weights, when the sums \<open>d q\<close> of the better weights that are compared
  with \<open>p\<close> are off by at most \<open>\<epsilon>\<close>; then they need not grow with the rank.
\<close>

lemma nucleus:
  fixes w :: "nat \<Rightarrow> rat"
  assumes bij: "bij_betw \<sigma> {..<n} {..<n}" and L: "L \<le> n"
    and desc: "\<And>q q'. q < q' \<Longrightarrow> q' < n \<Longrightarrow> w (\<sigma> q') \<le> w (\<sigma> q)"
    and nn: "\<And>k. k < n \<Longrightarrow> 0 \<le> w k" and pad: "\<And>k. L \<le> k \<Longrightarrow> k < n \<Longrightarrow> w k = 0"
    and keep: "\<And>q. q < L \<Longrightarrow> keep q \<longleftrightarrow> d q \<le> p \<or> q = 0"
    and close: "\<And>q. q < L \<Longrightarrow> \<bar>d q - (\<Sum>r<q. w (\<sigma> r))\<bar> \<le> \<epsilon>"
    and S: "S = {j. j < L \<and> (\<exists>q < L. \<sigma> q = j \<and> keep q)}"
  shows "\<And>i j. i \<in> S \<Longrightarrow> j < L \<Longrightarrow> j \<notin> S \<Longrightarrow> w j \<le> w i \<or> w j \<le> 2 * \<epsilon>"
    and "\<And>j. j < L \<Longrightarrow> j \<notin> S \<Longrightarrow> w j = 0 \<or> p - \<epsilon> < (\<Sum>i\<in>S. w i)"
    and "\<And>i. i \<in> S \<Longrightarrow> (\<forall>j < L. w j \<le> w i) \<or> (\<Sum>j | j < L \<and> w i < w j. w j) \<le> p + \<epsilon>"
proof -
  have \<sigma>: "\<sigma> q < n" if "q < n" for q using bij_betwE [OF bij] that by auto
  have pos: "\<exists>q < n. \<sigma> q = j" if "j < n" for j
  proof -
    have "j \<in> \<sigma> ` {..<n}" using bij that by (simp add: bij_betw_def)
    then show ?thesis by blast
  qed
  have inj: "inj_on \<sigma> {..<q}" if "q \<le> n" for q
    using bij that by (auto simp: bij_betw_def inj_on_def)
  have sums: "(\<Sum>r<q. w (\<sigma> r)) \<le> (\<Sum>r<q'. w (\<sigma> r))" if "q \<le> q'" "q' \<le> n" for q q'
    using that \<sigma> nn by (intro sum_mono2) auto
  have kept: "(\<Sum>r<q. w (\<sigma> r)) \<le> p + \<epsilon>" if "keep q" "q \<noteq> 0" "q < L" for q
    using close [OF that(3)] keep [OF that(3)] that by linarith
  have dropped: "p - \<epsilon> < (\<Sum>r<q. w (\<sigma> r))" if "\<not> keep q" "q < L" for q
    using close [OF that(2)] keep [OF that(2)] that by linarith
  show "w j \<le> w i \<or> w j \<le> 2 * \<epsilon>" if i: "i \<in> S" and j: "j < L" "j \<notin> S" for i j
  proof -
    obtain q where q: "q < L" "\<sigma> q = i" "keep q" using i by (auto simp: S)
    obtain q' where q': "q' < n" "\<sigma> q' = j" using pos [of j] j L by auto
    consider "q < q'" | "q = q'" | "q' < q" by linarith
    then show ?thesis
    proof cases
      case 3
      then have "\<not> keep q'" using q q' j by (auto simp: S)
      then have "p - \<epsilon> < (\<Sum>r<q'. w (\<sigma> r))" using dropped 3 q(1) by simp
      moreover have "(\<Sum>r<q. w (\<sigma> r)) \<le> p + \<epsilon>" using kept q 3 by simp
      moreover have "(\<Sum>r<Suc q'. w (\<sigma> r)) \<le> (\<Sum>r<q. w (\<sigma> r))" using 3 q(1) L by (intro sums) simp_all
      ultimately show ?thesis using q'(2) by simp
    qed (use desc [of q q'] q q' in auto)
  qed
  show "w j = 0 \<or> p - \<epsilon> < (\<Sum>i\<in>S. w i)" if j: "j < L" "j \<notin> S" for j
  proof -
    obtain q where q: "q < n" "\<sigma> q = j" using pos [of j] j L by auto
    show ?thesis
    proof (cases "q < L")
      case True
      then have "\<not> keep q" using q j by (auto simp: S)
      define Q where "Q = (LEAST q. q < L \<and> \<not> keep q)"
      have Q: "Q < L" "\<not> keep Q" using LeastI [of "\<lambda>q. q < L \<and> \<not> keep q" q] True \<open>\<not> keep q\<close> by (auto simp: Q_def)
      have first: "keep r" if "r < Q" for r
        using not_less_Least [of r "\<lambda>q. q < L \<and> \<not> keep q"] that Q(1) by (auto simp: Q_def)
      have "p - \<epsilon> < (\<Sum>r<Q. w (\<sigma> r))" using Q dropped [of Q] by auto
      also have "\<dots> = (\<Sum>i \<in> \<sigma> ` {..<Q}. w i)" using inj [of Q] Q(1) L by (simp add: sum.reindex)
      also have "\<dots> = (\<Sum>i \<in> \<sigma> ` {..<Q} \<inter> {..<L}. w i)"
        using \<sigma> Q(1) L by (intro sum.mono_neutral_right) (auto intro!: pad)
      also have "\<dots> \<le> (\<Sum>i\<in>S. w i)"
      proof (rule sum_mono2)
        show "\<sigma> ` {..<Q} \<inter> {..<L} \<subseteq> S"
          unfolding S using first less_trans [OF _ Q(1)] by blast
      qed (use nn L in \<open>auto simp: S\<close>)
      finally show ?thesis by simp
    next
      case False
      have "\<exists>r < q. L \<le> \<sigma> r"
      proof (rule ccontr)
        assume "\<not> (\<exists>r < q. L \<le> \<sigma> r)"
        then have "\<sigma> ` {..<Suc q} \<subseteq> {..<L}" using q j by (auto simp: less_Suc_eq not_le)
        then have "card (\<sigma> ` {..<Suc q}) \<le> L" using card_mono [of "{..<L}"] by fastforce
        moreover have "card (\<sigma> ` {..<Suc q}) = Suc q" using inj [of "Suc q"] q by (simp add: card_image)
        ultimately show False using False by simp
      qed
      then obtain r where "r < q" "L \<le> \<sigma> r" by blast
      then have "w j \<le> 0" using desc [of r q] pad [of "\<sigma> r"] \<sigma> [of r] q by simp
      then show ?thesis using nn [of j] j L by simp
    qed
  qed
  show "(\<forall>j < L. w j \<le> w i) \<or> (\<Sum>j | j < L \<and> w i < w j. w j) \<le> p + \<epsilon>" if i: "i \<in> S" for i
  proof -
    obtain q where q: "q < L" "\<sigma> q = i" "keep q" using i by (auto simp: S)
    have before: "\<exists>r < q. \<sigma> r = j" if jw: "j < L" "w i < w j" for j
    proof -
      obtain r where r: "r < n" "\<sigma> r = j" using pos [of j] jw(1) L by auto
      have "r < q" using desc [of q r] r q jw by (cases q r rule: linorder_cases) auto
      with r show ?thesis by blast
    qed
    show ?thesis
    proof (cases "q = 0")
      case True
      then show ?thesis using before by (meson not_less_zero not_le)
    next
      case False
      have "(\<Sum>j | j < L \<and> w i < w j. w j) \<le> (\<Sum>j \<in> \<sigma> ` {..<q}. w j)"
        using before nn \<sigma> q(1) L by (intro sum_mono2) auto
      also have "\<dots> = (\<Sum>r<q. w (\<sigma> r))" using inj [of q] q(1) L by (simp add: sum.reindex)
      also have "\<dots> \<le> p + \<epsilon>" using kept q False by simp
      finally show ?thesis by simp
    qed
  qed
qed


section \<open>The kernel\<close>

lemma top_p_kernel_mask:
  assumes "0 \<le> cub ! batch" and "cub ! Suc batch - cub ! batch = int L" and "L \<le> n" and "n \<le> 2 ^ 31"
    and "nat (cub ! batch) + L \<le> length m" and "\<forall>j < L. \<not> m ! (nat (cub ! batch) + j)"
    and "bij_betw \<sigma> {..<n} {..<n}"
    and "\<And>q. q < n \<Longrightarrow>
      ranking (normalised_scores fp b (cub ! batch) (int L) n) n ! q = pack (s (\<sigma> q)) (\<sigma> q)"
    and "j < L"
  defines "ss \<equiv> sorted_scores fp (int L) (ranking (normalised_scores fp b (cub ! batch) (int L) n) n) n"
  shows "top_p_kernel fp b p cub n batch m ! (nat (cub ! batch) + j) \<longleftrightarrow>
    (\<exists>q < L. \<sigma> q = j \<and> keep_mask fp p (int L) ss q)"
proof -
  let ?r = "ranking (normalised_scores fp b (cub ! batch) (int L) n) n"
  let ?start = "cub ! batch"
  let ?P = "\<lambda>k. int k < int L \<and> unpack_index (?r ! k) < int L"
  let ?f = "\<lambda>k. nat (?start + unpack_index (?r ! k))"
  have \<sigma>: "\<sigma> q < n" if "q < n" for q using bij_betwE [OF assms(7)] that by auto
  have idx: "unpack_index (?r ! q) = int (\<sigma> q)" if "q < n" for q
    using that \<sigma> [of q] assms(4) unpack_index_pack [of "\<sigma> q"] by (simp add: assms(8))
  have inj: "q = q'" if "q < n" "q' < n" "\<sigma> q = \<sigma> q'" for q q'
    using assms(7) that by (auto simp: bij_betw_def inj_on_def)
  have f: "?f q = nat ?start + \<sigma> q" if "q < n" for q using idx [OF that] assms(1) by (simp add: nat_add_distrib)
  have ker: "top_p_kernel fp b p cub n batch m =
      fold (\<lambda>k m. if ?P k then m[?f k := keep_mask fp p (int L) ss k] else m) [0..<n] m"
    unfolding top_p_kernel_def Let_def assms(2) ss_def ..
  obtain q where q: "q < n" "\<sigma> q = j"
  proof -
    have "j \<in> \<sigma> ` {..<n}" using assms(3,7,9) by (simp add: bij_betw_def)
    then show thesis using that by blast
  qed
  have only: "(\<exists>q < L. \<sigma> q = j \<and> keep_mask fp p (int L) ss q) \<longleftrightarrow> q < L \<and> keep_mask fp p (int L) ss q"
    using q inj assms(3) by (metis less_le_trans)
  show ?thesis
  proof (cases "q < L")
    case True
    have "fold (\<lambda>k m. if ?P k then m[?f k := keep_mask fp p (int L) ss k] else m) [0..<n] m ! ?f q =
        keep_mask fp p (int L) ss q"
    proof (rule fold_if_at)
      show "?P q" using True idx [OF q(1)] q(2) assms(9) by simp
      show "?f q < length m" using f [OF q(1)] q(2) assms(5,9) by simp
      show "keep_mask fp p (int L) ss q' = keep_mask fp p (int L) ss q"
        if "q' \<in> set [0..<n]" "?f q' = ?f q" for q'
        using that f [of q'] f [OF q(1)] inj [of q' q] q(1) by simp
    qed (use q in simp)
    then show ?thesis using f [OF q(1)] q(2) only True by (simp add: ker)
  next
    case False
    have "fold (\<lambda>k m. if ?P k then m[?f k := keep_mask fp p (int L) ss k] else m) [0..<n] m !
        (nat ?start + j) = m ! (nat ?start + j)"
    proof (rule fold_if_other)
      show "?f q' \<noteq> nat ?start + j" if "q' \<in> set [0..<n]" "?P q'" for q'
        using that f [of q'] inj [of q' q] q False by auto
    qed
    then show ?thesis using only False assms(6,9) by (simp add: ker)
  qed
qed


text \<open>
  The value of a score under a valuation of the bit patterns; the scores are ordered as their
  values and the padding is worthless.
\<close>

definition weight :: "float_ops \<Rightarrow> (f32 \<Rightarrow> rat) \<Rightarrow> f32 list \<Rightarrow> nat \<Rightarrow> rat" where
  "weight fp val s k = val (fp_narrow fp (s ! k))"

definition valued :: "float_ops \<Rightarrow> (f32 \<Rightarrow> rat) \<Rightarrow> f32 list \<Rightarrow> nat \<Rightarrow> bool" where
  "valued fp val s L \<longleftrightarrow> (\<forall>k < length s. nonneg (s ! k) \<and> 0 \<le> weight fp val s k \<and>
     (L \<le> k \<longrightarrow> weight fp val s k = 0) \<and>
     (\<forall>k' < length s. s ! k \<le> s ! k' \<longrightarrow> weight fp val s k \<le> weight fp val s k'))"

text \<open>
  The comparison with \<open>p\<close> is the one of the values, as for all floating-point numbers but NaN, and \<open>\<epsilon>\<close>
  bounds the rounding error of the running sums: the value that the kernel computes minus the exact sum.
\<close>

definition rounded_sums :: "float_ops \<Rightarrow> (f32 \<Rightarrow> rat) \<Rightarrow> f32 \<Rightarrow> rat \<Rightarrow> f32 list \<Rightarrow> nat \<Rightarrow> bool" where
  "rounded_sums fp val p \<epsilon> ss L \<longleftrightarrow> (\<forall>q < L.
     let d = fp_sub fp (fp_cumsum fp ss ! q) (ss ! q)
     in (fp_le fp d p \<longleftrightarrow> val d \<le> val p) \<and> \<bar>val d - (\<Sum>r<q. val (ss ! r))\<bar> \<le> \<epsilon>)"

definition kept_blocks ::
    "float_ops \<Rightarrow> f32 list \<Rightarrow> f32 \<Rightarrow> int list \<Rightarrow> nat \<Rightarrow> nat \<Rightarrow> bool list \<Rightarrow> nat set" where
  "kept_blocks fp b p cub n batch m =
     {j. int j < cub ! Suc batch - cub ! batch \<and>
         top_p_kernel fp b p cub n batch m ! (nat (cub ! batch) + j)}"

text \<open>C9.
  The blocks that the top-p kernel keeps are a nucleus, up to the rounding error \<open>\<epsilon>\<close> of its running sums
  in 32-bit floating point: no dropped block scores higher than a kept one, except one that scores at most
  \<open>2\<epsilon>\<close>; together the kept blocks exceed \<open>p - \<epsilon>\<close>, unless all that is dropped is worthless; and
  the blocks that are better than a kept one do not exceed \<open>p + \<epsilon>\<close> together, unless it is the best
  block.  This is for scores that are not negative and ordered as their values (\<open>valued\<close>; a softmax gives
  no others).
\<close>

theorem top_p_keeps_nucleus:
  assumes "0 \<le> cub ! batch" and "cub ! Suc batch - cub ! batch = int L" and "L \<le> n" and "n \<le> 2 ^ 31"
    and "nat (cub ! batch) + L \<le> length m" and "\<forall>j < L. \<not> m ! (nat (cub ! batch) + j)"
    and "s = normalised_scores fp b (cub ! batch) (int L) n" and "valued fp val s L"
    and "rounded_sums fp val p \<epsilon> (sorted_scores fp (int L) (ranking s n) n) L"
    and "S = kept_blocks fp b p cub n batch m"
  shows "(\<forall>i \<in> S. \<forall>j < L. j \<notin> S \<longrightarrow> weight fp val s j \<le> weight fp val s i \<or> weight fp val s j \<le> 2 * \<epsilon>) \<and>
    (\<forall>j < L. j \<notin> S \<longrightarrow> weight fp val s j = 0 \<or> val p - \<epsilon> < (\<Sum>i\<in>S. weight fp val s i)) \<and>
    (\<forall>i \<in> S. (\<forall>j < L. weight fp val s j \<le> weight fp val s i) \<or>
       (\<Sum>j | j < L \<and> weight fp val s i < weight fp val s j. weight fp val s j) \<le> val p + \<epsilon>)"
proof -
  let ?w = "weight fp val s" and ?ss = "sorted_scores fp (int L) (ranking s n) n"
  have len: "length s = n" by (simp add: assms(7) normalised_scores_def Let_def)
  have v: "nonneg (s ! k)" "0 \<le> ?w k" "L \<le> k \<Longrightarrow> ?w k = 0"
    "k' < n \<Longrightarrow> s ! k \<le> s ! k' \<Longrightarrow> ?w k \<le> ?w k'" if "k < n" for k k'
    using assms(8) len that by (auto simp: valued_def)
  obtain \<sigma> where \<sigma>: "bij_betw \<sigma> {..<n} {..<n}" "\<And>q. q < n \<Longrightarrow> ranking s n ! q = pack (s ! \<sigma> q) (\<sigma> q)"
    "\<And>q q'. q < q' \<Longrightarrow> q' < n \<Longrightarrow> s ! \<sigma> q' \<le> s ! \<sigma> q"
    using ranking_permutation [OF assms(4)] v(1) by blast
  have \<sigma>n: "\<sigma> q < n" if "q < n" for q using bij_betwE [OF \<sigma>(1)] that by auto
  have desc: "?w (\<sigma> q') \<le> ?w (\<sigma> q)" if "q < q'" "q' < n" for q q'
    using v(4) [OF \<sigma>n [OF that(2)] \<sigma>n \<sigma>(3) [OF that]] that by simp
  have ss: "val (?ss ! r) = ?w (\<sigma> r)" if "r < L" for r
    using that assms(3) \<sigma>(2) [of r] by (simp add: sorted_scores_def weight_def unpack_score_pack)
  let ?d = "\<lambda>q. val (fp_sub fp (fp_cumsum fp ?ss ! q) (?ss ! q))"
  have keep: "keep_mask fp p (int L) ?ss q \<longleftrightarrow> ?d q \<le> val p \<or> q = 0" if "q < L" for q
    using assms(9) that by (simp add: keep_mask_def rounded_sums_def Let_def)
  have close: "\<bar>?d q - (\<Sum>r<q. ?w (\<sigma> r))\<bar> \<le> \<epsilon>" if "q < L" for q
    using assms(9) that ss by (simp add: rounded_sums_def Let_def)
  have S: "S = {j. j < L \<and> (\<exists>q < L. \<sigma> q = j \<and> keep_mask fp p (int L) ?ss q)}"
  proof -
    have "top_p_kernel fp b p cub n batch m ! (nat (cub ! batch) + j) \<longleftrightarrow>
        (\<exists>q < L. \<sigma> q = j \<and> keep_mask fp p (int L) ?ss q)" if "j < L" for j
      unfolding assms(7)
      by (rule top_p_kernel_mask [OF assms(1-6) \<sigma>(1) \<sigma>(2) [unfolded assms(7)] that])
    then show ?thesis by (auto simp: assms(2,10) kept_blocks_def)
  qed
  note N = nucleus [OF \<sigma>(1) assms(3) desc v(2) v(3) keep close S]
  show ?thesis using N by blast
qed


text \<open>Three blocks with the scores 4, 2, 2 and \<open>p = 1/2\<close>: the best block and the last one are kept.\<close>

definition demo_value :: "f32 \<Rightarrow> rat" where
  "demo_value x = (if x = 0x3F000000 then 1 / 2 else if x = 0x3E800000 then 1 / 4
     else if x = 0x3F400000 then 3 / 4 else 0)"

definition demo_floats :: float_ops where
  "demo_floats = \<lparr>fp_sum = (\<lambda>_. 0x41000000),
     fp_div = (\<lambda>x _. if x = 0x40800000 then 0x3F000000 else if x = 0x40000000 then 0x3E800000 else 0),
     fp_narrow = id, fp_cumsum = (\<lambda>_. [0x3F000000, 0x3F400000, 0x3F800000, 0x3F800000]),
     fp_sub = (\<lambda>x y. if x = y then 0 else if x = 0x3F400000 then 0x3F000000 else 0x3F400000),
     fp_le = (\<lambda>x y. demo_value x \<le> demo_value y)\<rparr>"

definition demo_scores :: "f32 list" where
  "demo_scores = [0x40800000, 0x40000000, 0x40000000]"

lemma demo_normalised:
  "normalised_scores demo_floats demo_scores 0 3 4 = [0x3F000000, 0x3E800000, 0x3E800000, 0]"
  by code_simp

lemma demo_sorted:
  "sorted_scores demo_floats 3 (ranking [0x3F000000, 0x3E800000, 0x3E800000, 0] 4) 4 =
     [0x3F000000, 0x3E800000, 0x3E800000, 0]"
  by code_simp

lemma demo_kernel:
  "top_p_kernel demo_floats demo_scores 0x3F000000 [0, 3] 4 0 [False, False, False] = [True, False, True]"
  by code_simp

text \<open>
  The arithmetic of IEEE binary32 with rounding to nearest, ties to even, for finite numbers: a bit
  pattern has an exact value, and an operation rounds its exact result.
\<close>

definition power_2 :: "int \<Rightarrow> rat" where
  "power_2 e = (if 0 \<le> e then 2 ^ nat e else 1 / 2 ^ nat (- e))"

definition ieee_value :: "f32 \<Rightarrow> rat" where
  "ieee_value x =
     (let e = uint (drop_bit 23 x AND 0xFF); f = uint (x AND 0x7FFFFF);
          a = (if e = 0 then of_int f * power_2 (- 149) else of_int (2 ^ 23 + f) * power_2 (e - 150))
      in if bit x 31 then - a else a)"

fun exponent_from :: "nat \<Rightarrow> rat \<Rightarrow> int \<Rightarrow> int" where
  "exponent_from 0 a e = e"
| "exponent_from (Suc k) a e =
     (if a < power_2 e \<and> - 126 < e then exponent_from k a (e - 1)
      else if power_2 (e + 1) \<le> a then exponent_from k a (e + 1) else e)"

definition nearest_even :: "rat \<Rightarrow> int" where
  "nearest_even y =
     (let m = \<lfloor>y\<rfloor>; d = y - of_int m
      in if d < 1 / 2 \<or> d = 1 / 2 \<and> even m then m else m + 1)"

definition ieee_round :: "rat \<Rightarrow> f32" where
  "ieee_round y =
     (let a = \<bar>y\<bar>; e = exponent_from 256 a 0; m = nearest_even (a * power_2 (23 - e));
          r = (if m < 2 ^ 23 then m else (e + 126) * 2 ^ 23 + m)
      in word_of_int (if y < 0 then r + 2 ^ 31 else r))"

fun ieee_scan :: "rat \<Rightarrow> f32 list \<Rightarrow> f32 list" where
  "ieee_scan acc [] = []"
| "ieee_scan acc (x # xs) = (let y = ieee_round (acc + ieee_value x) in y # ieee_scan (ieee_value y) xs)"

definition ieee_floats :: float_ops where
  "ieee_floats = \<lparr>fp_sum = (\<lambda>xs. last (ieee_scan 0 xs)), fp_div = (\<lambda>x y. ieee_round (ieee_value x / ieee_value y)),
     fp_narrow = id, fp_cumsum = ieee_scan 0, fp_sub = (\<lambda>x y. ieee_round (ieee_value x - ieee_value y)),
     fp_le = (\<lambda>x y. ieee_value x \<le> ieee_value y)\<rparr>"

text \<open>
  Three blocks of the score 1 and \<open>p = 1/2\<close>: each has the share 1/3, rounded, the sums are inexact, and
  two blocks are kept.
\<close>

definition thirds :: "f32 list" where
  "thirds = [0x3F800000, 0x3F800000, 0x3F800000]"

lemma ieee_values:
  "ieee_value 0 = 0" "ieee_value 0x3F800000 = 1" "ieee_value 0x3EAAAAAB = 11184811 / 33554432" "ieee_value 0x40000000 = 2" "ieee_value 0x40400000 = 3"
  "ieee_value 0x3F2AAAAB = 11184811 / 16777216" "ieee_value 0x3F2AAAAA = 5592405 / 8388608" "ieee_value 0x3F000000 = 1 / 2"
  by code_simp+
lemma ieee_rounds:
  "ieee_round 0 = 0" "ieee_round 1 = 0x3F800000" "ieee_round 2 = 0x40000000" "ieee_round 3 = 0x40400000"
  "ieee_round (1 / 3) = 0x3EAAAAAB" "ieee_round (11184811 / 33554432) = 0x3EAAAAAB" "ieee_round (11184811 / 16777216) = 0x3F2AAAAB"
  "ieee_round (33554433 / 33554432) = 0x3F800000" "ieee_round (22369621 / 33554432) = 0x3F2AAAAA" 
  by code_simp+

lemma thirds_normalised:
  "normalised_scores ieee_floats thirds 0 3 4 = [0x3EAAAAAB, 0x3EAAAAAB, 0x3EAAAAAB, 0]"
proof -
  have "map (\<lambda>k. if int k < 3 then thirds ! nat (0 + int k) else 0) [0..<4] = [0x3F800000, 0x3F800000, 0x3F800000, 0]"
    by code_simp
  then show ?thesis by (simp add: normalised_scores_def Let_def ieee_floats_def ieee_values ieee_rounds)
qed

lemma thirds_ranking:
  "map unpack_index (ranking [0x3EAAAAAB, 0x3EAAAAAB, 0x3EAAAAAB, 0] 4) = [2, 1, 0, 3]"
  "sorted_scores ieee_floats 3 (ranking [0x3EAAAAAB, 0x3EAAAAAB, 0x3EAAAAAB, 0] 4) 4 =
     [0x3EAAAAAB, 0x3EAAAAAB, 0x3EAAAAAB, 0]"
  by code_simp+

lemma thirds_sums:
  "fp_cumsum ieee_floats [0x3EAAAAAB, 0x3EAAAAAB, 0x3EAAAAAB, 0] = [0x3EAAAAAB, 0x3F2AAAAB, 0x3F800000, 0x3F800000]"
  "fp_sub ieee_floats 0x3EAAAAAB 0x3EAAAAAB = 0" "fp_sub ieee_floats 0x3F2AAAAB 0x3EAAAAAB = 0x3EAAAAAB"
  "fp_sub ieee_floats 0x3F800000 0x3EAAAAAB = 0x3F2AAAAA"
  by (simp_all add: ieee_floats_def ieee_values ieee_rounds Let_def)

lemma thirds_mask:
  "map (keep_mask ieee_floats 0x3F000000 3 [0x3EAAAAAB, 0x3EAAAAAB, 0x3EAAAAAB, 0]) [0, 1, 2] = [True, True, False]"
  unfolding keep_mask_def thirds_sums(1)
  by (simp add: thirds_sums, simp add: ieee_floats_def ieee_values)

lemma thirds_kernel:
  "top_p_kernel ieee_floats thirds 0x3F000000 [0, 3] 4 0 [False, False, False] = [False, True, True]"
proof -
  let ?r = "ranking [0x3EAAAAAB, 0x3EAAAAAB, 0x3EAAAAAB, 0] 4"
  have "length ?r = 4" using arg_cong [OF thirds_ranking(1), of length] by simp
  then have idx: "unpack_index (?r ! 0) = 2" "unpack_index (?r ! Suc 0) = 1" "unpack_index (?r ! 2) = 0"
    using arg_cong [OF thirds_ranking(1), of "\<lambda>xs. xs ! 0"] arg_cong [OF thirds_ranking(1), of "\<lambda>xs. xs ! 1"]
      arg_cong [OF thirds_ranking(1), of "\<lambda>xs. xs ! 2"] by simp_all
  have four: "[0..<4] = [0, Suc 0, 2, 3]" by code_simp
  show ?thesis
    using thirds_mask by (simp add: top_p_kernel_def Let_def thirds_normalised thirds_ranking(2) idx four)
qed

lemma thirds_valued: "valued ieee_floats ieee_value [0x3EAAAAAB, 0x3EAAAAAB, 0x3EAAAAAB, 0] 3"
proof -
  have w: "weight ieee_floats ieee_value [0x3EAAAAAB, 0x3EAAAAAB, 0x3EAAAAAB, 0] k = (if k < 3 then 11184811 / 33554432 else 0)"
    if "k < 4" for k using that by (auto simp: weight_def ieee_floats_def ieee_values less_Suc_eq numeral_eq_Suc)
  have nn: "list_all nonneg [0x3EAAAAAB, 0x3EAAAAAB, 0x3EAAAAAB, 0]" by code_simp
  then have n: "nonneg ([0x3EAAAAAB, 0x3EAAAAAB, 0x3EAAAAAB, 0] ! k)" if "k < 4" for k
    using that by (simp add: list_all_length)
  have "\<not> (0x3EAAAAAB :: f32) \<le> 0" by simp
  then have "k' < 3" if "k < 3" "k' < 4" "[0x3EAAAAAB, 0x3EAAAAAB, 0x3EAAAAAB, 0 :: f32] ! k \<le> [0x3EAAAAAB, 0x3EAAAAAB, 0x3EAAAAAB, 0] ! k'" for k k'
    using that by (auto simp: less_Suc_eq numeral_eq_Suc)
  then show ?thesis using n w by (fastforce simp: valued_def)
qed

lemma thirds_rounded:
  "rounded_sums ieee_floats ieee_value 0x3F000000 (1 / 2 ^ 24) [0x3EAAAAAB, 0x3EAAAAAB, 0x3EAAAAAB, 0] 3"
proof -
  have le: "fp_le ieee_floats x y \<longleftrightarrow> ieee_value x \<le> ieee_value y" for x y by (simp add: ieee_floats_def)
  show ?thesis
    unfolding rounded_sums_def thirds_sums(1) le Let_def
    by (simp add: numeral_3_eq_3 All_less_Suc thirds_sums ieee_values lessThan_Suc)
qed
theorem top_p_keeps_nucleus_witness:
  "ieee_value 0x3F000000 - 1 / 2 ^ 24 <
     (\<Sum>i \<in> kept_blocks ieee_floats thirds 0x3F000000 [0, 3] 4 0 [False, False, False].
       weight ieee_floats ieee_value [0x3EAAAAAB, 0x3EAAAAAB, 0x3EAAAAAB, 0] i)"
proof -
  let ?s = "[0x3EAAAAAB, 0x3EAAAAAB, 0x3EAAAAAB, 0] :: f32 list"
  let ?S = "kept_blocks ieee_floats thirds 0x3F000000 [0, 3] 4 0 [False, False, False]"
  have sums: "rounded_sums ieee_floats ieee_value 0x3F000000 (1 / 2 ^ 24)
      (sorted_scores ieee_floats (int 3) (ranking ?s 4) 4) 3"
    using thirds_rounded by (simp add: thirds_ranking(2))
  have s: "?s = normalised_scores ieee_floats thirds ([0, 3] ! 0) (int 3) 4"
    using thirds_normalised by simp
  have m: "\<forall>j < 3. \<not> [False, False, False] ! (nat (([0, 3] :: int list) ! 0) + j)" by code_simp
  have "0 \<notin> ?S" using thirds_kernel by (simp add: kept_blocks_def)
  moreover have "weight ieee_floats ieee_value ?s 0 \<noteq> 0" by (simp add: weight_def ieee_floats_def ieee_values)
  moreover have "0 < (3 :: nat)" by simp
  moreover note top_p_keeps_nucleus [where cub = "[0, 3]" and batch = 0 and L = 3 and n = 4
      and m = "[False, False, False]", OF _ _ _ _ _ m s thirds_valued sums refl]
  then have "\<forall>j < 3. j \<notin> ?S \<longrightarrow> weight ieee_floats ieee_value ?s j = 0 \<or>
      ieee_value 0x3F000000 - 1 / 2 ^ 24 < (\<Sum>i\<in>?S. weight ieee_floats ieee_value ?s i)"
    by (elim meta_impE) (simp_all only: nth_Cons_0 nth_Cons_Suc One_nat_def, simp_all)
  ultimately show ?thesis by blast
qed

text \<open>
  Unpacking a packed key gives back the score, bit by bit, and the index, for every 32-bit pattern
  (also negative numbers, infinities and NaNs) and every index below \<open>2^31\<close>.
\<close>

theorem packed_key_round_trip:
  assumes "i < 2 ^ 31"
  shows "unpack_score (pack x i) = x \<and> unpack_index (pack x i) = int i"
  using unpack_score_pack unpack_index_pack [OF assms] by simp

theorem packed_key_round_trip_witness:
  "unpack_score (pack 0xFF800000 7) = 0xFF800000 \<and> unpack_index (pack 0xFF800000 7) = int 7"
  by (rule packed_key_round_trip) simp

text \<open>The signed 64-bit order of the packed keys, which the descending sort uses, is the order of the
  bit patterns of the scores for scores that are not negative, and by index for equal scores.
\<close>

theorem packed_order:
  assumes "nonneg x" and "nonneg y" and "i < 2 ^ 32" and "j < 2 ^ 32"
  shows "sint (pack x i) < sint (pack y j) \<longleftrightarrow> x < y \<or> (x = y \<and> i < j)"
  by (rule pack_less [OF assms])

theorem packed_order_witness: "sint (pack 0x3E800000 7) < sint (pack 0x3F000000 3)"
proof -
  have "nonneg (0x3F000000 :: f32)" "nonneg (0x3E800000 :: f32)" unfolding nonneg_def by code_simp+
  then show ?thesis using packed_order [of "0x3E800000" "0x3F000000" 7 3] by simp
qed

text \<open>The mapping of the scores to sortable integers is not monotone in this sort: the packed key of
  \<open>-1.0\<close> is larger than the one of \<open>1.0\<close>, so a negative score would be ranked first.
\<close>

theorem negative_score_ranked_first: "sint (pack 0x3F800000 0) < sint (pack 0xBF800000 0)"
  by code_simp


section \<open>A selection\<close>

text \<open>A prompt of six tokens in three blocks and a decode token: the second block is dropped.\<close>

definition demo_tp :: tp_group where
  "demo_tp = \<lparr>world_size = 1, all_reduce = id, broadcast_mask = id, broadcast_lens = id\<rparr>"

lemma demo_selection:
  "topselectionvarlen demo_floats demo_tp (\<lambda>_ _ k. demo_scores ! k) 7 [0, 6, 7] 6 2 1 1 0x3F000000 =
     Inr ([True, True, False, False, True, True, True], 4, [0, 4, 5])"
  by code_simp

theorem selection_mask_matches_borders_witness:
  "\<exists>keep mx cu'. topselectionvarlen demo_floats demo_tp (\<lambda>_ _ k. demo_scores ! k) 7 [0, 6, 7] 6 2 1 1 0x3F000000 =
     Inr (keep, mx, cu') \<and> py_len keep = 7 \<and> hd cu' = 0 \<and>
     seq_diff cu' ! 0 = py_len (filter id (py_slice keep 0 6))"
proof -
  have "batch_borders [0, 6, 7]" by (simp add: batch_borders_def seq_diff_def)
  moreover have "rank_0 demo_tp" by (simp add: rank_0_def demo_tp_def)
  ultimately show ?thesis
    using selection_mask_matches_borders [of "[0, 6, 7]" 2 demo_tp demo_floats "\<lambda>_ _ k. demo_scores ! k" 6 1 1 "0x3F000000"]
    by fastforce
qed

theorem selection_keeps_ends_witness:
  "[True, True, False, False, True, True, True] ! nat (([0, 6, 7] :: int list) ! 0 + 5)"
proof (rule selection_keeps_ends)
  show "topselectionvarlen demo_floats demo_tp (\<lambda>_ _ k. demo_scores ! k) (last [0, 6, 7]) [0, 6, 7] 6 2 1 1 0x3F000000 =
     Inr ([True, True, False, False, True, True, True], 4, [0, 4, 5])" using demo_selection by simp
  show "batch_borders [0, 6, 7]" by (simp add: batch_borders_def seq_diff_def)
  show "rank_0 demo_tp" by (simp add: rank_0_def demo_tp_def)
qed (simp_all add: seq_diff_def)

end
