(* ===== verification/Decode_Facts.thy ===== *)
theory Decode_Facts
  imports Drop_Facts Ranking_Facts
begin

text \<open>
  The metadata of the layers after a drop layer, the lengths per layer that the runner keeps for a
  request whose prompt was dropped, and the decode steps that follow: how they relate to the tokens
  that the prefill left at every layer.
\<close>

section \<open>The metadata after a drop\<close>

lemma fold_metas:
  assumes "\<And>m. g (g m) = g m"
  shows "fold (\<lambda>(name, r) ms. if P name then ms(r := g (ms r)) else ms) d ms r =
    (if \<exists>name. (name, r) \<in> set d \<and> P name then g (ms r) else ms r)"
  by (induction d arbitrary: ms) (auto simp: assms split: if_splits)

lemma set_meta_twice: "set_meta a b c d e f (set_meta a b c d e f m) = set_meta a b c d e f m"
  by (simp add: set_meta_def option.map_comp comp_def split: option.splits)

text \<open>The slots of a batch: every request has its tokens at the start of its block table.\<close>

definition stored_densely :: "int list list \<Rightarrow> int \<Rightarrow> int list \<Rightarrow> int list \<Rightarrow> bool" where
  "stored_densely bt bs cu sm \<longleftrightarrow> py_len sm = last cu \<and>
     (\<forall>i < length cu - 1. \<forall>t < nat (seq_diff cu ! i). sm ! nat (cu ! i + int t) = slot bt bs i (int t))"

lemma stored_densely_segs:
  assumes "\<forall>x \<in> set lens. 0 \<le> x"
  shows "stored_densely bt bs (cu_of lens) (map (\<lambda>(i, t). slot bt bs i (int t)) (segs lens))"
  using segs_index [OF assms, of _ _ "\<lambda>(i, t). slot bt bs i (int t)"] length_segs [OF assms]
  by (auto simp: stored_densely_def py_len_def segs_mem)

lemma first_attr_same:
  "metas ctx' = metas ctx \<Longrightarrow> attn_metadata ctx' = attn_metadata ctx \<Longrightarrow> first_attr f ctx' = first_attr f ctx"
  unfolding first_attr_def by (simp only:)

text \<open>What a drop step relies on: the query lengths it recorded and room in the block tables.\<close>

definition drop_step_ok :: "fwd_ctx \<Rightarrow> int list \<Rightarrow> int list list \<Rightarrow> int \<Rightarrow> bool" where
  "drop_step_ok ctx cu bt bs \<longleftrightarrow> batch_borders cu \<and> is_mixed_or_prefill_step ctx \<and>
     kv_seq_lens_this_step ctx \<noteq> None \<and> first_attr am_block_table ctx = Some bt \<and>
     (case query_lens_this_step ctx of None \<Rightarrow> False
      | Some q \<Rightarrow> length q = length cu - 1 \<and> (\<forall>i < length q. q ! i = 1 \<longrightarrow> seq_diff cu ! i = 1)) \<and>
     (\<forall>i < length cu - 1. has_room bt bs i (seq_diff cu ! i))"

lemma update_metadata_spec:
  assumes "drop_step_ok ctx cu bt bs" and "py_len (filter id keep) = last cu"
  shows "\<exists>ctx' sm. update_metadata_after_drop keep cu mx idx bs ctx = Inr ctx' \<and> stored_densely bt bs cu sm \<and>
    slot_mappings ctx' = map_option (map (\<lambda>(name, old). (name, if later_layer idx name then sm else old)))
      (slot_mappings ctx) \<and> token_drop_applied ctx' \<and> new_cu_seqlens ctx' = Some cu \<and>
    decode_per_layer_seq_lens ctx' = decode_per_layer_seq_lens ctx \<and>
    decode_per_layer_slot_mapping ctx' = decode_per_layer_slot_mapping ctx \<and>
    (\<forall>d r. attn_metadata ctx = Some d \<longrightarrow> metas ctx' r =
      (if \<exists>name. (name, r) \<in> set d \<and> later_layer idx name
       then set_meta (seq_diff cu) cu mx (Max (set (seq_diff cu))) (last cu) (Some sm) (metas ctx r)
       else metas ctx r))"
proof -
  obtain lens where cu: "cu = cu_of lens" and lens: "\<forall>x \<in> set lens. 0 \<le> x" "lens \<noteq> []"
    using batch_bordersE assms(1) by (metis drop_step_ok_def)
  obtain q kv where ctx: "query_lens_this_step ctx = Some q" "kv_seq_lens_this_step ctx = Some kv"
      "length q = length lens" "\<forall>i < length lens. q ! i = 1 \<longrightarrow> lens ! i = 1"
      "is_mixed_or_prefill_step ctx" "first_attr am_block_table ctx = Some bt"
      "\<forall>i < length lens. has_room bt bs i (lens ! i)"
    using assms(1) by (auto simp: drop_step_ok_def cu split: option.splits)
  let ?dec = "map (\<lambda>l. l = 1) q" and ?sm = "map (\<lambda>(i, t). slot bt bs i (int t)) (segs lens)"
  let ?ctx = "ctx\<lparr>token_drop_applied := True, new_cu_seqlens := Some (cu_of lens), new_seq_lens := Some lens\<rparr>"
  have dec: "map (\<lambda>l. l = 1) (py_upto q (py_len lens)) = ?dec"
    using ctx(3) by (simp add: py_upto_def py_len_def py_clip_def)
  have fa: "first_attr am_block_table ?ctx = Some bt" 
    using ctx(6) by (subst first_attr_same [of ?ctx ctx]) simp_all
  have mixed: "mixed_lens ?ctx ?dec (Some kv) lens = Inr lens" using ctx(5) by (simp add: mixed_lens_def)
  have sm: "drop_slot_mapping bt bs (cu_of lens) lens (sum_list lens) ?dec lens True = Inr ?sm"
    by (rule drop_slot_mapping_spec [OF lens(1) ctx(7)]) (use ctx(3,4) in auto)
  have total: "py_len (filter id keep) = sum_list lens" using assms(2) by (simp add: cu)
  have upd: "rmapv (update_slot_mapping idx keep (Some ?sm)) d =
      Inr (map (\<lambda>(name, old). (name, if later_layer idx name then ?sm else old)) d)" for d
    by (rule rmapv_pure) (auto simp: update_slot_mapping_def)
  show ?thesis
    unfolding update_metadata_after_drop_def Let_def cu seq_diff_cu_of ctx(1,2) option.case dec
      step_kv_lens_def rbind_Inr mixed max_list_Max [OF lens(2)] fa total
    by (auto intro!: exI [of _ ?sm] stored_densely_segs [OF lens(1)]
        simp: sm upd ctx(1) dec fold_metas set_meta_twice split: option.splits)
qed

section \<open>A step with a prompt and a decode token\<close>

text \<open>
  A prompt of six tokens, of which the first layer drops two, and a request that has ten tokens in
  the blocks 3, 4 and 5 of four tokens and decodes the tenth.
\<close>

definition demo_name :: "nat \<Rightarrow> string" where
  "demo_name l = (if l = 0 then ''model.layers.0.self_attn.attn'' else ''model.layers.1.self_attn.attn'')"

definition demo_meta :: attn_meta where
  "demo_meta = \<lparr>am_query_start_loc = Some [0, 6, 7], am_seq_lens = Some [6, 10], am_max_query_len = Some 6,
     am_max_seq_len = Some 10, am_num_actual_tokens = Some 7,
     am_slot_mapping = Some [4, 5, 6, 7, 8, 9, 21], am_block_table = Some [[1, 2, 0], [3, 4, 5]]\<rparr>"

definition demo_ctx :: fwd_ctx where
  "demo_ctx = \<lparr>attn_metadata = Some [(demo_name 0, 0), (demo_name 1, 1)], metas = (\<lambda>_. demo_meta),
     slot_mappings = Some [(demo_name 0, [4, 5, 6, 7, 8, 9, 21]), (demo_name 1, [4, 5, 6, 7, 8, 9, 21])],
     token_drop_applied = False, new_cu_seqlens = None, new_seq_lens = None, query_lens_this_step = None,
     kv_seq_lens_this_step = None, req_ids_snapshot = Some [''a'', ''b''], is_mixed_or_prefill_step = True,
     decode_per_layer_seq_lens = None, decode_per_layer_slot_mapping = None\<rparr>"

definition demo_code :: "nat layer_code" where
  "demo_code = \<lparr>attend = (\<lambda>_ _ _ xs. xs), feed_forward = (\<lambda>_ xs. xs), block_scores = (\<lambda>_ _ _ _ _ k. demo_scores ! k)\<rparr>"

definition demo_config :: drop_config where
  "demo_config = \<lparr>dc_block_size = 2, dc_attention_sink = 1, dc_last_q = 1, dc_p = 0x3F000000, dc_kv_block_size = 4\<rparr>"

definition demo_run :: "nat run_state res" where
  "demo_run = model_forward demo_floats demo_tp demo_code demo_config [0] [0, 1]
     [0, 1, 2, 3, 4, 5, 9] [10, 11, 12, 13, 14, 15, 19] [] demo_ctx"

lemma drop_demo_ok: "code_ok demo_code" "rank_0 demo_tp" "batch_borders [0, 6, 7]"
  by (simp_all add: code_ok_def demo_code_def rank_0_def demo_tp_def batch_borders_def seq_diff_def)

lemma demo_run_result:
  "map_sum id (\<lambda>s. (rs_positions s, rs_rows s, rs_cu_seqlens s, rs_per_layer s)) demo_run =
     Inr ([0, 1, 4, 5, 9], [10, 11, 14, 15, 19], Some [0, 4, 5], [(''a'', [(0, 6), (0, 4)])])"
  by code_simp

lemma demo_returns: "\<not> isl demo_run"
  by code_simp

theorem forward_keeps_rows_and_borders_witness:
  "\<exists>s cu'. demo_run = Inr s \<and> rs_cu_seqlens s = Some cu' \<and> batch_borders cu' \<and> length cu' = 3 \<and>
     py_len (rs_rows s) = last cu'"
proof -
  obtain s where s: "demo_run = Inr s" using demo_returns by (auto simp: sum.disc_eq_case split: sum.splits)
  have info: "get_step_info demo_ctx = Inr (Some [0, 6, 7], 6, Some [6, 1], Some [6, 10], True)"
    by code_simp
  have "0 < dc_block_size demo_config" by (simp add: demo_config_def)
  then show ?thesis
    using forward_keeps_rows_and_borders [OF s [unfolded demo_run_def] info drop_demo_ok(3) _ _ drop_demo_ok(1) _ drop_demo_ok(2)] s
    by (auto simp: py_len_def)
qed


section \<open>The slots of the later layers\<close>

text \<open>The blocks that the requests of the batch use are different blocks.\<close>

definition rows_disjoint :: "int list list \<Rightarrow> int \<Rightarrow> int list \<Rightarrow> bool" where
  "rows_disjoint bt bs cu \<longleftrightarrow>
     (\<forall>i < length cu - 1. \<forall>j < length cu - 1. \<forall>a < length (bt ! i). \<forall>b < length (bt ! j).
        int a * bs < seq_diff cu ! i \<and> int b * bs < seq_diff cu ! j \<and> bt ! i ! a = bt ! j ! b \<longrightarrow> i = j \<and> a = b)"

lemma slot_split:
  assumes "0 < bs"
  shows "slot bt bs i pos div bs = bt ! i ! nat (pos div bs)" and "slot bt bs i pos mod bs = pos mod bs"
  using assms by (simp_all add: slot_def)

lemma slot_inj:
  assumes "rows_disjoint bt bs cu" and "\<forall>i < length cu - 1. has_room bt bs i (seq_diff cu ! i)"
    and "i < length cu - 1" "int s < seq_diff cu ! i" and "j < length cu - 1" "int t < seq_diff cu ! j"
    and eq: "slot bt bs i (int s) = slot bt bs j (int t)"
  shows "i = j \<and> s = t"
proof -
  have room: "has_room bt bs i (seq_diff cu ! i)" "has_room bt bs j (seq_diff cu ! j)"
    using assms(2,3,5) by blast+
  then have bs: "0 < bs" by (simp add: has_room_def)
  have in_row: "nat (int t div bs) < length (bt ! j) \<and> int (nat (int t div bs)) * bs < l"
    if "has_room bt bs j l" "int t < l" for j t l
  proof -
    have "int t div bs < py_len (bt ! j)" using that bs by (auto simp: div_pos_less_iff has_room_def)
    moreover have "0 \<le> int t div bs" using bs by (simp add: pos_imp_zdiv_nonneg_iff)
    moreover have "int t div bs * bs \<le> int t"
      using bs by (metis div_mult_mod_eq le_add_same_cancel1 pos_mod_sign)
    ultimately show ?thesis using that(2) by (simp add: py_len_def)
  qed
  have "bt ! i ! nat (int s div bs) = bt ! j ! nat (int t div bs)" "int s mod bs = int t mod bs"
    using slot_split [OF bs, of bt i "int s"] slot_split [OF bs, of bt j "int t"] eq by simp_all
  moreover from this(1) have "i = j \<and> nat (int s div bs) = nat (int t div bs)"
    using assms(1,3,5) in_row [OF room(1) assms(4)] in_row [OF room(2) assms(6)]
    unfolding rows_disjoint_def by blast
  ultimately have "int s = int t"
    using bs by (metis div_mult_mod_eq int_nat_eq of_nat_0_le_iff pos_imp_zdiv_nonneg_iff)
  with \<open>i = j \<and> _\<close> show ?thesis by simp
qed

lemma segs_distinct: "\<forall>x \<in> set lens. 0 \<le> x \<Longrightarrow> distinct (segs lens)"
proof -
  assume nn: "\<forall>x \<in> set lens. 0 \<le> x"
  have "distinct (map (\<lambda>(i, t). cu_of lens ! i + int t) (segs lens))"
    by (simp add: segs_position [OF nn] arange_def distinct_map)
  then show ?thesis by (rule distinct_map [THEN iffD1, THEN conjunct1])
qed

lemma dense_slots_distinct:
  assumes "batch_borders cu" and "rows_disjoint bt bs cu"
    and "\<forall>i < length cu - 1. has_room bt bs i (seq_diff cu ! i)" and "stored_densely bt bs cu sm"
  shows "distinct sm"
proof -
  obtain lens where cu: "cu = cu_of lens" and lens: "\<forall>x \<in> set lens. 0 \<le> x" "lens \<noteq> []"
    using batch_bordersE [OF assms(1)] .
  have "int (length sm) = sum_list lens" using assms(4) by (simp add: stored_densely_def py_len_def cu)
  then have "length sm = nat (sum_list lens)" by linarith
  then have "sm = map (\<lambda>(i, t). sm ! nat (cu_of lens ! i + int t)) (segs lens)" by (rule by_tokens [OF lens(1)])
  also have "\<dots> = map (\<lambda>(i, t). slot bt bs i (int t)) (segs lens)"
    using assms(4) by (intro map_cong) (auto simp: stored_densely_def segs_mem cu)
  finally have sm: "sm = map (\<lambda>(i, t). slot bt bs i (int t)) (segs lens)" .
  have "inj_on (\<lambda>(i, t). slot bt bs i (int t)) (set (segs lens))"
    using slot_inj [OF assms(2,3)] by (auto simp: inj_on_def segs_mem cu)
  with sm segs_distinct [OF lens(1)] show ?thesis by (simp add: distinct_map)
qed

lemma map_of_relabel: "map_of (map (\<lambda>(n, x). (n, if P n then y else x)) d) n = map_option (\<lambda>x. if P n then y else x) (map_of d n)"
  by (induction d) auto

lemma later_slots:
  assumes "slot_mappings ctx = Some sms" and "map_of sms name = Some old" and "later_layer idx name"
    and "slot_mappings ctx' = map_option (map (\<lambda>(name, old). (name, if later_layer idx name then sm else old))) (slot_mappings ctx)"
    and "decode_per_layer_slot_mapping ctx' = None"
  shows "kv_update_slots ctx' name = Inr (Some sm)"
  using assms by (simp add: kv_update_slots_def map_of_relabel attention_slots_def)

text \<open>C7.
  After a drop step every later layer stores the tokens that are left densely: the slots that the cache
  update of the layer writes to, and those of its metadata, put token \<open>t\<close> of request \<open>i\<close> at place \<open>t\<close> of
  the block table of the request; its KV length is the number of tokens left, and the borders are the new
  ones.  No two tokens share a slot when the requests use different blocks for them.  This is for a step
  without lengths per layer of earlier drops, whose slots the cache update would use instead.
\<close>

theorem drop_updates_later_layers:
  assumes "drop_step_ok ctx cu bt bs" and "py_len (filter id keep) = last cu" and "rows_disjoint bt bs cu"
    and "attn_metadata ctx = Some d" and "(name, r) \<in> set d" and "later_layer idx name"
    and "am_seq_lens (metas ctx r) \<noteq> None" and "am_query_start_loc (metas ctx r) \<noteq> None"
    and "am_slot_mapping (metas ctx r) \<noteq> None" and "slot_mappings ctx = Some sms" and "map_of sms name = Some old"
    and "decode_per_layer_slot_mapping ctx = None"
  shows "\<exists>ctx' sm. update_metadata_after_drop keep cu mx idx bs ctx = Inr ctx' \<and>
    am_seq_lens (metas ctx' r) = Some (seq_diff cu) \<and> am_query_start_loc (metas ctx' r) = Some cu \<and>
    am_slot_mapping (metas ctx' r) = Some sm \<and> kv_update_slots ctx' name = Inr (Some sm) \<and>
    stored_densely bt bs cu sm \<and> distinct sm"
proof -
  from update_metadata_spec [OF assms(1,2)] obtain ctx' sm where u:
    "update_metadata_after_drop keep cu mx idx bs ctx = Inr ctx'" "stored_densely bt bs cu sm"
    "slot_mappings ctx' = map_option (map (\<lambda>(name, old). (name, if later_layer idx name then sm else old))) (slot_mappings ctx)"
    "decode_per_layer_slot_mapping ctx' = decode_per_layer_slot_mapping ctx"
    "\<forall>d r. attn_metadata ctx = Some d \<longrightarrow> metas ctx' r =
      (if \<exists>name. (name, r) \<in> set d \<and> later_layer idx name
       then set_meta (seq_diff cu) cu mx (Max (set (seq_diff cu))) (last cu) (Some sm) (metas ctx r)
       else metas ctx r)" by blast
  have "metas ctx' r = set_meta (seq_diff cu) cu mx (Max (set (seq_diff cu))) (last cu) (Some sm) (metas ctx r)"
    using u(5) assms(4-6) by auto
  moreover have "distinct sm"
    using dense_slots_distinct [OF _ assms(3) _ u(2)] assms(1) by (simp add: drop_step_ok_def)
  moreover have "kv_update_slots ctx' name = Inr (Some sm)"
    using later_slots [OF assms(10,11,6) u(3)] u(4) assms(12) by simp
  ultimately show ?thesis using u(1,2) assms(7-9) by (auto simp: set_meta_def)
qed

definition demo_ctx_prefill :: fwd_ctx where
  "demo_ctx_prefill = demo_ctx\<lparr>query_lens_this_step := Some [6, 1], kv_seq_lens_this_step := Some [6, 10]\<rparr>"

theorem drop_updates_later_layers_witness:
  "\<exists>ctx' sm. update_metadata_after_drop [True, True, False, False, True, True, True] [0, 4, 5] 4 0 4
      demo_ctx_prefill = Inr ctx' \<and> am_seq_lens (metas ctx' 1) = Some [4, 1] \<and>
    am_slot_mapping (metas ctx' 1) = Some sm \<and> kv_update_slots ctx' (demo_name 1) = Inr (Some sm) \<and> distinct sm"
proof -
  have d: "attn_metadata demo_ctx_prefill = Some [(demo_name 0, 0), (demo_name 1, 1)]"
    by (simp add: demo_ctx_prefill_def demo_ctx_def)
  have m: "metas demo_ctx_prefill 1 = demo_meta" by (simp add: demo_ctx_prefill_def demo_ctx_def)
  have step: "drop_step_ok demo_ctx_prefill [0, 4, 5] [[1, 2, 0], [3, 4, 5]] 4" by code_simp
  have rows: "rows_disjoint [[1, 2, 0], [3, 4, 5]] 4 [0, 4, 5]"
    by (simp add: rows_disjoint_def seq_diff_def numeral_eq_Suc All_less_Suc)
  have later: "later_layer 0 (demo_name 1)" by code_simp
  have diff: "seq_diff [0, 4, 5] = [4, 1]" by code_simp
  have attrs: "am_seq_lens (metas demo_ctx_prefill 1) \<noteq> None" "am_query_start_loc (metas demo_ctx_prefill 1) \<noteq> None"
    "am_slot_mapping (metas demo_ctx_prefill 1) \<noteq> None" unfolding m by (simp_all add: demo_meta_def)
  have maps: "slot_mappings demo_ctx_prefill = Some [(demo_name 0, [4, 5, 6, 7, 8, 9, 21]), (demo_name 1, [4, 5, 6, 7, 8, 9, 21])]"
    "map_of [(demo_name 0, [4, 5, 6, 7, 8, 9, 21]), (demo_name 1, [4, 5, 6, 7, 8, 9, 21 :: int])] (demo_name 1) = Some [4, 5, 6, 7, 8, 9, 21]"
    "decode_per_layer_slot_mapping demo_ctx_prefill = None"
    by (simp_all add: demo_ctx_prefill_def demo_ctx_def demo_name_def)
  show ?thesis
    using drop_updates_later_layers [OF step _ rows d _ later attrs maps, where mx = 4
        and keep = "[True, True, False, False, True, True, True]"]
    by (auto simp: py_len_def diff)
qed


text \<open>C24.
  A request that decodes in a step in which a prompt is dropped loses its context in the later
  layers, unless the runner prepared lengths per layer: its KV length becomes 1 although it has
  tokens in the cache, and its key is written over the one of its first token.
\<close>

theorem drop_step_forgets_decode_context:
  assumes "drop_step_ok ctx cu bt bs" and "py_len (filter id keep) = last cu"
    and "attn_metadata ctx = Some d" and "(name, r) \<in> set d" and "later_layer idx name"
    and "am_seq_lens (metas ctx r) = Some kv" and "slot_mappings ctx = Some sms" and "map_of sms name = Some old"
    and "decode_per_layer_seq_lens ctx = None" and "decode_per_layer_slot_mapping ctx = None"
    and "i < length cu - 1" and "seq_diff cu ! i = 1" and "1 < kv ! i"
  shows "\<exists>ctx' lens mx_len sm. update_metadata_after_drop keep cu mx idx bs ctx = Inr ctx' \<and>
    attention_lens ctx' name cu (the (am_seq_lens (metas ctx' r))) mx' = Inr (lens, mx_len) \<and>
    kv_update_slots ctx' name = Inr (Some sm) \<and>
    lens ! i = 1 \<and> lens ! i < kv ! i \<and> sm ! nat (cu ! i) = slot bt bs i 0"
proof -
  from update_metadata_spec [OF assms(1,2)] obtain ctx' sm where u:
    "update_metadata_after_drop keep cu mx idx bs ctx = Inr ctx'" "stored_densely bt bs cu sm"
    "slot_mappings ctx' = map_option (map (\<lambda>(name, old). (name, if later_layer idx name then sm else old))) (slot_mappings ctx)"
    "decode_per_layer_seq_lens ctx' = decode_per_layer_seq_lens ctx"
    "decode_per_layer_slot_mapping ctx' = decode_per_layer_slot_mapping ctx"
    "\<forall>d r. attn_metadata ctx = Some d \<longrightarrow> metas ctx' r =
      (if \<exists>name. (name, r) \<in> set d \<and> later_layer idx name
       then set_meta (seq_diff cu) cu mx (Max (set (seq_diff cu))) (last cu) (Some sm) (metas ctx r)
       else metas ctx r)" by blast
  have m: "metas ctx' r = set_meta (seq_diff cu) cu mx (Max (set (seq_diff cu))) (last cu) (Some sm) (metas ctx r)"
    using u(6) assms(3-5) by auto
  have "sm ! nat (cu ! i + int 0) = slot bt bs i (int 0)"
    using u(2) [unfolded stored_densely_def, THEN conjunct2, rule_format, of i 0] assms(11,12) by simp
  moreover have "kv_update_slots ctx' name = Inr (Some sm)" using later_slots [OF assms(7,8,5) u(3)] u(5) assms(10) by simp
  ultimately show ?thesis using u(1,4) assms(6,9,12,13) by (auto simp: m set_meta_def attention_lens_def)
qed

theorem drop_step_forgets_decode_context_witness:
  "\<exists>ctx' lens mx_len sm. update_metadata_after_drop [True, True, False, False, True, True, True] [0, 4, 5] 4 0 4
      demo_ctx_prefill = Inr ctx' \<and>
    attention_lens ctx' (demo_name 1) [0, 4, 5] (the (am_seq_lens (metas ctx' 1))) 10 = Inr (lens, mx_len) \<and>
    kv_update_slots ctx' (demo_name 1) = Inr (Some sm) \<and>
    lens ! 1 < [6, 10] ! 1 \<and> sm ! nat ([0, 4, 5] ! 1) = slot [[1, 2, 0], [3, 4, 5]] 4 1 0"
proof -
  let ?ctx = demo_ctx_prefill
  have d: "attn_metadata ?ctx = Some [(demo_name 0, 0), (demo_name 1, 1)]"
    by (simp add: demo_ctx_prefill_def demo_ctx_def)
  have m: "metas ?ctx 1 = demo_meta" by (simp add: demo_ctx_prefill_def demo_ctx_def)
  have step: "drop_step_ok ?ctx [0, 4, 5] [[1, 2, 0], [3, 4, 5]] 4" by code_simp
  have later: "later_layer 0 (demo_name 1)" by code_simp
  have diff: "seq_diff [0, 4, 5] = [4, 1]" by code_simp
  have maps: "slot_mappings ?ctx = Some [(demo_name 0, [4, 5, 6, 7, 8, 9, 21]), (demo_name 1, [4, 5, 6, 7, 8, 9, 21])]"
    "map_of [(demo_name 0, [4, 5, 6, 7, 8, 9, 21]), (demo_name 1, [4, 5, 6, 7, 8, 9, 21 :: int])] (demo_name 1) = Some [4, 5, 6, 7, 8, 9, 21]"
    by (simp_all add: demo_ctx_prefill_def demo_ctx_def demo_name_def)
  have kv: "am_seq_lens (metas ?ctx 1) = Some [6, 10]"
    by (simp add: demo_meta_def demo_ctx_prefill_def demo_ctx_def)
  have attrs:
    "decode_per_layer_seq_lens ?ctx = None" "decode_per_layer_slot_mapping ?ctx = None"
    unfolding m by (simp_all add: demo_meta_def demo_ctx_prefill_def demo_ctx_def)
  have len: "py_len (filter id [True, True, False, False, True, True, True]) = last [0, 4, 5]" by code_simp
  have i: "1 < length [0, 4, 5 :: int] - 1" "seq_diff [0, 4, 5] ! 1 = 1" "1 < [6, 10 :: int] ! 1"
    by (simp_all add: diff)
  have mem: "(demo_name 1, 1) \<in> set [(demo_name 0, 0), (demo_name 1, 1 :: nat)]" by simp
  show ?thesis
    using drop_step_forgets_decode_context [OF step len d mem later kv maps attrs i, of 4 10] by blast
qed

text \<open>C25.
  A prompt chunk with tokens in the cache before it (a cached prefix, or an earlier chunk) loses them in
  the layers after a drop: the KV length of the request becomes the number of the tokens of the chunk
  that are left, and their keys are written from the start of the block table on, over those of the
  first cached tokens.  When the first block is shared with another request, as prefix caching does it,
  the first key of this request is overwritten too.
\<close>

theorem drop_overwrites_cached_prefix:
  assumes "drop_step_ok ctx cu bt bs" and "py_len (filter id keep) = last cu"
    and "attn_metadata ctx = Some d" and "(name, r) \<in> set d" and "later_layer idx name"
    and "am_seq_lens (metas ctx r) = Some kv" and "slot_mappings ctx = Some sms" and "map_of sms name = Some old"
    and "decode_per_layer_seq_lens ctx = None" and "decode_per_layer_slot_mapping ctx = None"
    and "query_lens_this_step ctx = Some q" and "i < length cu - 1"
    and "0 < seq_diff cu ! i" and "seq_diff cu ! i \<le> q ! i" and "q ! i < kv ! i"
  shows "\<exists>ctx' lens mx_len sm. update_metadata_after_drop keep cu mx idx bs ctx = Inr ctx' \<and>
    attention_lens ctx' name cu (the (am_seq_lens (metas ctx' r))) mx' = Inr (lens, mx_len) \<and>
    kv_update_slots ctx' name = Inr (Some sm) \<and>
    lens ! i = seq_diff cu ! i \<and> lens ! i < kv ! i \<and>
    (\<forall>t. int t < min (kv ! i - q ! i) (seq_diff cu ! i) \<longrightarrow> sm ! nat (cu ! i + int t) = slot bt bs i (int t)) \<and>
    (\<forall>j. bt ! j ! 0 = bt ! i ! 0 \<longrightarrow> sm ! nat (cu ! i) = slot bt bs j 0)"
proof -
  from update_metadata_spec [OF assms(1,2)] obtain ctx' sm where u:
    "update_metadata_after_drop keep cu mx idx bs ctx = Inr ctx'" "stored_densely bt bs cu sm"
    "slot_mappings ctx' = map_option (map (\<lambda>(name, old). (name, if later_layer idx name then sm else old))) (slot_mappings ctx)"
    "decode_per_layer_seq_lens ctx' = decode_per_layer_seq_lens ctx"
    "decode_per_layer_slot_mapping ctx' = decode_per_layer_slot_mapping ctx"
    "\<forall>d r. attn_metadata ctx = Some d \<longrightarrow> metas ctx' r =
      (if \<exists>name. (name, r) \<in> set d \<and> later_layer idx name
       then set_meta (seq_diff cu) cu mx (Max (set (seq_diff cu))) (last cu) (Some sm) (metas ctx r)
       else metas ctx r)" by blast
  have m: "metas ctx' r = set_meta (seq_diff cu) cu mx (Max (set (seq_diff cu))) (last cu) (Some sm) (metas ctx r)"
    using u(6) assms(3-5) by auto
  have dense: "sm ! nat (cu ! i + int t) = slot bt bs i (int t)" if "int t < seq_diff cu ! i" for t
    using u(2) [unfolded stored_densely_def, THEN conjunct2, rule_format, of i t] assms(12) that by simp
  have first: "sm ! nat (cu ! i) = slot bt bs j 0" if "bt ! j ! 0 = bt ! i ! 0" for j
    using dense [of 0] assms(13) that by (simp add: slot_def)
  have "attention_lens ctx' name cu (the (am_seq_lens (metas ctx' r))) mx' = Inr (seq_diff cu, mx')"
    using u(4) assms(6,9) by (simp add: m set_meta_def attention_lens_def)
  moreover have "kv_update_slots ctx' name = Inr (Some sm)"
    using later_slots [OF assms(7,8,5) u(3)] u(5) assms(10) by simp
  moreover have "seq_diff cu ! i < kv ! i" using assms(14,15) by simp
  moreover have "\<forall>t. int t < min (kv ! i - q ! i) (seq_diff cu ! i) \<longrightarrow> sm ! nat (cu ! i + int t) = slot bt bs i (int t)"
    using dense by simp
  moreover have "\<forall>j. bt ! j ! 0 = bt ! i ! 0 \<longrightarrow> sm ! nat (cu ! i) = slot bt bs j 0" using first by blast
  ultimately show ?thesis using u(1) by blast
qed

text \<open>Two requests share block 1; the first one computes 6 tokens after 4 cached ones, of which 4 are left.\<close>

definition demo_ctx_shared :: fwd_ctx where
  "demo_ctx_shared = demo_ctx\<lparr>metas := (\<lambda>_. demo_meta\<lparr>am_seq_lens := Some [10, 10], am_block_table := Some [[1, 2, 3], [1, 4, 5]]\<rparr>),
     query_lens_this_step := Some [6, 1], kv_seq_lens_this_step := Some [10, 10]\<rparr>"

theorem drop_overwrites_cached_prefix_witness:
  "\<exists>ctx' lens mx_len sm. update_metadata_after_drop [True, True, False, False, True, True, True] [0, 4, 5] 4 0 4
      demo_ctx_shared = Inr ctx' \<and>
    attention_lens ctx' (demo_name 1) [0, 4, 5] (the (am_seq_lens (metas ctx' 1))) 10 = Inr (lens, mx_len) \<and>
    kv_update_slots ctx' (demo_name 1) = Inr (Some sm) \<and>
    lens ! 0 = 4 \<and> sm ! 0 = slot [[1, 2, 3], [1, 4, 5]] 4 1 0"
proof -
  let ?ctx = demo_ctx_shared
  have d: "attn_metadata ?ctx = Some [(demo_name 0, 0), (demo_name 1, 1)]"
    by (simp add: demo_ctx_shared_def demo_ctx_def)
  have step: "drop_step_ok ?ctx [0, 4, 5] [[1, 2, 3], [1, 4, 5]] 4" by code_simp
  have later: "later_layer 0 (demo_name 1)" by code_simp
  have diff: "seq_diff [0, 4, 5] = [4, 1]" by code_simp
  have maps: "slot_mappings ?ctx = Some [(demo_name 0, [4, 5, 6, 7, 8, 9, 21]), (demo_name 1, [4, 5, 6, 7, 8, 9, 21])]"
    "map_of [(demo_name 0, [4, 5, 6, 7, 8, 9, 21]), (demo_name 1, [4, 5, 6, 7, 8, 9, 21 :: int])] (demo_name 1) = Some [4, 5, 6, 7, 8, 9, 21]"
    by (simp_all add: demo_ctx_shared_def demo_ctx_def demo_name_def)
  have kv: "am_seq_lens (metas ?ctx 1) = Some [10, 10]"
    by (simp add: demo_meta_def demo_ctx_shared_def demo_ctx_def)
  have attrs:
    "decode_per_layer_seq_lens ?ctx = None" "decode_per_layer_slot_mapping ?ctx = None"
    "query_lens_this_step ?ctx = Some [6, 1]"
    by (simp_all add: demo_meta_def demo_ctx_shared_def demo_ctx_def)
  have len: "py_len (filter id [True, True, False, False, True, True, True]) = last [0, 4, 5]" by code_simp
  have i: "0 < length [0, 4, 5 :: int] - 1" "0 < seq_diff [0, 4, 5] ! 0" "seq_diff [0, 4, 5] ! 0 \<le> [6, 1 :: int] ! 0"
    "[6, 1 :: int] ! 0 < [10, 10 :: int] ! 0"
    by (simp_all add: diff)
  have mem: "(demo_name 1, 1) \<in> set [(demo_name 0, 0), (demo_name 1, 1 :: nat)]" by simp
  obtain ctx' lens mx_len sm where
    "update_metadata_after_drop [True, True, False, False, True, True, True] [0, 4, 5] 4 0 4 demo_ctx_shared = Inr ctx'"
    "attention_lens ctx' (demo_name 1) [0, 4, 5] (the (am_seq_lens (metas ctx' 1))) 10 = Inr (lens, mx_len)"
    "kv_update_slots ctx' (demo_name 1) = Inr (Some sm)"
    "lens ! 0 = seq_diff [0, 4, 5] ! 0" "\<forall>j. [[1, 2, 3], [1, 4, 5]] ! j ! 0 = [[1, 2, 3], [1, 4, 5 :: int]] ! 0 ! 0 \<longrightarrow>
      sm ! nat ([0, 4, 5] ! 0) = slot [[1, 2, 3], [1, 4, 5]] 4 j 0"
    using drop_overwrites_cached_prefix [OF step len d mem later kv maps attrs i, of 4 10] by blast
  moreover from this(5) [rule_format, of 1] have "sm ! 0 = slot [[1, 2, 3], [1, 4, 5]] 4 1 0" by simp
  ultimately show ?thesis by (simp add: diff)
qed

end
