(* ===== verification/Layer_Lengths.thy ===== *)
theory Layer_Lengths
  imports Decode_Facts
begin

text \<open>
  The lengths per layer that a prefill records for its requests, and the decode steps that use them:
  at every layer a decode step attends to the tokens that the prefill stored in this layer and to
  the decoded ones, and writes behind them.
\<close>

section \<open>The entries of a request\<close>

lemma enumerate_reqs_map: "enumerate_reqs q = map (\<lambda>j. (int j, q ! j)) [0..<length q]"
  by (rule nth_equalityI) (simp_all add: enumerate_reqs_def arange_def py_len_def)

lemma rfold_one:
  assumes "rfold f (map g [0..<n]) d = Inr d'" and "i < n"
    and "\<And>j d d'. j < n \<Longrightarrow> j \<noteq> i \<Longrightarrow> f (g j) d = Inr d' \<Longrightarrow> P d' = P d"
  shows "\<exists>d1 d2. f (g i) d1 = Inr d2 \<and> P d1 = P d \<and> P d' = P d2"
proof -
  have split: "[0..<n] = [0..<i] @ i # [Suc i..<n]"
    using assms(2) upt_add_eq_append [of 0 i "n - i"] by (simp add: upt_conv_Cons)
  obtain d1 d2 where d: "rfold f (map g [0..<i]) d = Inr d1" "f (g i) d1 = Inr d2"
    "rfold f (map g [Suc i..<n]) d2 = Inr d'"
    using assms(1) by (auto simp: split rfold_append res_simps)
  have step: "P d' = P d" if "f (g j) d = Inr d'" "j < n" "j \<noteq> i" for j d d'
    using assms(3) that by blast
  have "P d1 = P d"
    by (rule rfold_preserves [OF d(1), of "\<lambda>x. P x = P d"]) (use step assms(2) in fastforce)+
  moreover have "P d' = P d2"
    by (rule rfold_preserves [OF d(3), of "\<lambda>x. P x = P d2"]) (use step in fastforce)+
  ultimately show ?thesis using d(2) by blast
qed

lemma req_id_at:
  assumes "distinct req_ids" and "length q \<le> length req_ids" and "j < length q" "i < length q" and "j \<noteq> i"
  shows "py_get req_ids (int j) = Inr (req_ids ! j)" and "req_ids ! j \<noteq> req_ids ! i"
  using assms by (auto simp: py_get_nth nth_eq_iff_index_eq)

lemma start_entries:
  assumes "rfold (start_entry req_ids kv) (enumerate_reqs q) [] = Inr d" and "distinct req_ids"
    and "length q \<le> length req_ids" and "length q \<le> length kv" and "i < length q" and "1 < q ! i"
  shows "map_of d (req_ids ! i) = Some [(0, kv ! i)]"
proof -
  have other: "map_of d' (req_ids ! i) = map_of d (req_ids ! i)"
    if "start_entry req_ids kv (int j, q ! j) d = Inr d'" "j < length q" "j \<noteq> i" for j d d'
    using that req_id_at [OF assms(2,3) that(2) assms(5) that(3)]
    by (auto simp: start_entry_def res_simps update_conv' split: if_splits)
  from rfold_one [OF assms(1) [unfolded enumerate_reqs_map] assms(5), of "\<lambda>d. map_of d (req_ids ! i)"] other
  obtain d1 d2 where d: "start_entry req_ids kv (int i, q ! i) d1 = Inr d2"
    "map_of d (req_ids ! i) = map_of d2 (req_ids ! i)" by blast
  have "d2 = AList.update (req_ids ! i) [(0, kv ! i)] d1"
    using d(1) assms(3-6) by (simp add: start_entry_def res_simps py_get_nth)
  with d(2) show ?thesis by (simp add: update_conv')
qed

lemma append_entries:
  assumes "rfold (append_entry req_ids new l) (enumerate_reqs q) d = Inr d'" and "distinct req_ids"
    and "length q \<le> length req_ids" and "length q \<le> length new" and "i < length q" and "1 < q ! i"
    and "map_of d (req_ids ! i) = Some es"
  shows "map_of d' (req_ids ! i) = Some (es @ [(l, new ! i)])"
proof -
  have other: "map_of d' (req_ids ! i) = map_of d (req_ids ! i)"
    if "append_entry req_ids new l (int j, q ! j) d = Inr d'" "j < length q" "j \<noteq> i" for j d d'
    using that req_id_at [OF assms(2,3) that(2) assms(5) that(3)]
    by (auto simp: append_entry_def res_simps update_conv' split: if_splits option.splits)
  from rfold_one [OF assms(1) [unfolded enumerate_reqs_map] assms(5), of "\<lambda>d. map_of d (req_ids ! i)"] other
  obtain d1 d2 where d: "append_entry req_ids new l (int i, q ! i) d1 = Inr d2"
    "map_of d1 (req_ids ! i) = Some es" "map_of d' (req_ids ! i) = map_of d2 (req_ids ! i)"
    using assms(7) by metis
  have "d2 = AList.update (req_ids ! i) (es @ [(l, new ! i)]) d1"
    using d(1,2) assms(3-6) by (simp add: append_entry_def res_simps py_get_nth)
  with d(3) show ?thesis by (simp add: update_conv')
qed

lemma entries_distinct:
  assumes "rfold (start_entry req_ids kv) xs d = Inr d'" and "distinct (map fst d)"
  shows "distinct (map fst d')"
  by (rule rfold_preserves [OF assms(1), of "\<lambda>d. distinct (map fst d)"])
    (use assms(2) in \<open>auto simp: start_entry_def res_simps distinct_update split: if_splits\<close>)

lemma append_entries_distinct:
  assumes "rfold (append_entry req_ids new l) xs d = Inr d'" and "distinct (map fst d)"
  shows "distinct (map fst d')"
proof -
  have "distinct (map fst s')" if a: "append_entry req_ids new l x s = Inr s'" "distinct (map fst s)" for x s s'
    using a
    by (cases x; cases "py_get req_ids (fst x)"; cases "py_get new (fst x)")
      (auto simp: append_entry_def distinct_update split: if_splits option.splits)
  with rfold_preserves [OF assms(1), of "\<lambda>d. distinct (map fst d)"] assms(2) show ?thesis by blast
qed

section \<open>A layer\<close>

lemma update_metadata_fields:
  assumes "update_metadata_after_drop keep cu mx idx bs ctx = Inr ctx'"
  shows "req_ids_snapshot ctx' = req_ids_snapshot ctx" and "token_drop_applied ctx'"
    and "new_cu_seqlens ctx' = Some cu"
  using assms by (auto simp: update_metadata_after_drop_def Let_def res_simps)

lemma drop_layer_ctx:
  assumes "drop_layer_forward fp tp code cfg idx cu s = Inr s'"
  shows "req_ids_snapshot (rs_ctx s') = req_ids_snapshot (rs_ctx s)" and "token_drop_applied (rs_ctx s')"
    and "new_cu_seqlens (rs_ctx s') \<noteq> None"
  using assms by (auto simp: drop_layer_forward_def Let_def res_simps update_metadata_fields)

text \<open>Which request of which step is looked at, and its entries at a point of the forward pass.\<close>

definition tracked :: "string list \<Rightarrow> nat \<Rightarrow> 'h run_state \<Rightarrow> int list \<Rightarrow> (int \<times> int) list \<Rightarrow> bool" where
  "tracked req_ids i s cu es \<longleftrightarrow> run_ok s cu \<and> length cu = Suc (length req_ids) \<and>
     req_ids_snapshot (rs_ctx s) = Some req_ids \<and> distinct (map fst (rs_per_layer s)) \<and>
     map_of (rs_per_layer s) (req_ids ! i) = Some es"

text \<open>Between two points the entries grow by those of the drop layers between them.\<close>

definition grown :: "nat \<Rightarrow> int set \<Rightarrow> 'h run_state \<Rightarrow> int list \<Rightarrow> 'h run_state \<Rightarrow> int list \<Rightarrow> (int \<times> int) list \<Rightarrow> bool" where
  "grown i ls s cu s' cu' es \<longleftrightarrow> fst ` set es \<subseteq> ls \<and> seq_diff cu' ! i = snd (last ((0, seq_diff cu ! i) # es)) \<and>
     (es = [] \<and> token_drop_applied (rs_ctx s') = token_drop_applied (rs_ctx s) \<and>
        new_cu_seqlens (rs_ctx s') = new_cu_seqlens (rs_ctx s) \<or>
      token_drop_applied (rs_ctx s') \<and> new_cu_seqlens (rs_ctx s') \<noteq> None)"

lemma grown_refl: "grown i ls s cu s cu []"
  by (simp add: grown_def)

lemma grown_trans:
  assumes "grown i ls s cu s1 cu1 es1" and "grown i ls' s1 cu1 s2 cu2 es2"
  shows "grown i (ls \<union> ls') s cu s2 cu2 (es1 @ es2)"
  using assms by (auto simp: grown_def)

lemma layer_step_tracked:
  assumes "tracked req_ids i s cu es" and "distinct req_ids" and "length q = length req_ids"
    and "i < length q" and "1 < q ! i" and "code_ok code" and "0 < dc_block_size cfg" and "rank_0 tp"
    and step: "layer_step fp tp code cfg dl (Some q) pre idx s = Inr s'"
  shows "\<exists>cu' es'. tracked req_ids i s' cu' (es @ es') \<and> grown i {idx} s cu s' cu' es'"
proof -
  have s: "run_ok s cu" "length cu = Suc (length req_ids)" "req_ids_snapshot (rs_ctx s) = Some req_ids"
    "distinct (map fst (rs_per_layer s))" "map_of (rs_per_layer s) (req_ids ! i) = Some es"
    using assms(1) by (auto simp: tracked_def)
  have cu: "rs_cu_seqlens s = Some cu" using s(1) by (simp add: run_ok_def)
  show ?thesis
  proof (cases "pre \<and> idx \<in> set dl \<and> py_len (rs_rows s) > dc_attention_sink cfg + dc_last_q cfg")
    case True
    then obtain s1 where s1: "drop_layer_forward fp tp code cfg idx cu s = Inr s1"
      using step cu by (auto simp: layer_step_def res_simps)
    from drop_layer_run_ok [OF s(1) assms(6-8) s1] obtain cu' where cu': "run_ok s1 cu'"
      "length cu' = length cu" "rs_per_layer s1 = rs_per_layer s" by blast
    note ctx1 = drop_layer_ctx [OF s1]
    obtain d where d: "rfold (append_entry req_ids (seq_diff cu') idx) (enumerate_reqs q) (rs_per_layer s) = Inr d"
      "s' = s1\<lparr>rs_per_layer := d\<rparr>"
      using step True s1 cu s(3) ctx1(1) cu' by (auto simp: layer_step_def res_simps run_ok_def)
    have "map_of d (req_ids ! i) = Some (es @ [(idx, seq_diff cu' ! i)])"
      by (rule append_entries [OF d(1) assms(2) _ _ assms(4,5) s(5)]) (simp_all add: cu'(2) s(2) assms(3))
    moreover have "run_ok s' cu'" using cu'(1) by (simp add: d(2) run_ok_def)
    ultimately have "tracked req_ids i s' cu' (es @ [(idx, seq_diff cu' ! i)])"
      using append_entries_distinct [OF d(1) s(4)] ctx1(1) s(2,3) cu'(2) by (simp add: tracked_def d(2))
    moreover have "grown i {idx} s cu s' cu' [(idx, seq_diff cu' ! i)]"
      using ctx1 by (simp add: grown_def d(2))
    ultimately show ?thesis by blast
  next
    case False
    then have s': "s' = plain_layer_forward code idx s" using step cu by (auto simp: layer_step_def)
    then have "tracked req_ids i s' cu (es @ [])"
      using assms(1,6) by (simp add: plain_layer_forward_def run_ok_def code_ok_def py_len_def tracked_def)
    moreover have "grown i {idx} s cu s' cu []" by (simp add: grown_def s' plain_layer_forward_def)
    ultimately show ?thesis by blast
  qed
qed

lemma layers_tracked:
  assumes "tracked req_ids i s cu es" and "distinct req_ids" and "length q = length req_ids"
    and "i < length q" and "1 < q ! i" and "code_ok code" and "0 < dc_block_size cfg" and "rank_0 tp"
    and "rfold (layer_step fp tp code cfg dl (Some q) pre) layers s = Inr s'"
  shows "\<exists>cu' es'. tracked req_ids i s' cu' (es @ es') \<and> grown i (set layers) s cu s' cu' es'"
  using assms(1,9)
proof (induction layers arbitrary: s cu es)
  case Nil
  then have "s' = s" "tracked req_ids i s' cu (es @ [])" by simp_all
  with grown_refl [of i "set []" s cu] show ?case by blast
next
  case (Cons idx layers)
  then obtain s1 where s1: "layer_step fp tp code cfg dl (Some q) pre idx s = Inr s1"
    "rfold (layer_step fp tp code cfg dl (Some q) pre) layers s1 = Inr s'" by (auto simp: res_simps)
  from layer_step_tracked [OF Cons.prems(1) assms(2-8) s1(1)] obtain cu1 es1 where
    1: "tracked req_ids i s1 cu1 (es @ es1)" "grown i {idx} s cu s1 cu1 es1" by blast
  from Cons.IH [OF 1(1) s1(2)] obtain cu2 es2 where
    2: "tracked req_ids i s' cu2 ((es @ es1) @ es2)" "grown i (set layers) s1 cu1 s' cu2 es2" by blast
  have "tracked req_ids i s' cu2 (es @ (es1 @ es2))" using 2(1) by simp
  moreover have "grown i (set (idx # layers)) s cu s' cu2 (es1 @ es2)"
    using grown_trans [OF 1(2) 2(2)] by simp
  ultimately show ?case by blast
qed


section \<open>Decode steps\<close>

lemma kept_before_append:
  assumes "fst ` set es1 \<subseteq> {x. x < l}" and "fst ` set es2 \<subseteq> {x. l \<le> x}"
  shows "kept_before l kept (es1 @ es2) = snd (last ((0, kept) # es1))"
  using assms
proof (induction es1 arbitrary: kept)
  case Nil
  then show ?case by (cases es2) auto
next
  case (Cons e es1)
  then show ?case by (cases e) auto
qed

lemma fold_updates:
  "distinct (map fst ps) \<Longrightarrow> map_of (fold (\<lambda>(k, v) d. AList.update k v d) ps d) k =
     (case map_of ps k of Some v \<Rightarrow> Some v | None \<Rightarrow> map_of d k)"
proof (induction ps arbitrary: d)
  case (Cons p ps)
  obtain k' v where p: "p = (k', v)" by (cases p)
  with Cons.prems have "k = k' \<Longrightarrow> map_of ps k = None" by (simp add: map_of_eq_None_iff)
  with Cons p show ?case by (auto simp: update_conv' split: option.splits)
qed simp

lemma recorded_length:
  assumes "grown i (set ls1) s cu s1 cu1 es1" and "tracked req_ids i s' cu2 (([(0, kv ! i)] @ es1) @ es2)"
    and "grown i (set ls2) s1 cu1 s' cu2 es2" and "set ls1 \<subseteq> {x. x < l}" "set ls2 \<subseteq> {x. l \<le> x}"
    and "\<not> token_drop_applied (rs_ctx s)" and "kv ! i = seq_diff cu ! i"
    and "map_of drops (req_ids ! i) = None" and "0 \<le> t"
  shows "layer_seqused (snd (collect_drops (rs_ctx s') (rs_per_layer s') logits drops)) l
      (req_ids ! i, seq_diff cu ! i + t) = Inr (seq_diff cu1 ! i + t)"
proof (cases "token_drop_applied (rs_ctx s')")
  case False
  then have "seq_diff cu1 ! i = seq_diff cu ! i" using assms(1,3) by (auto simp: grown_def)
  then show ?thesis using False assms(8) by (simp add: collect_drops_def layer_seqused_def split: option.splits)
next
  case True
  let ?drops = "snd (collect_drops (rs_ctx s') (rs_per_layer s') logits drops)"
  have "new_cu_seqlens (rs_ctx s') \<noteq> None" using True assms(6) assms(1,3) by (auto simp: grown_def)
  then have "map_of ?drops (req_ids ! i) = Some ((0, kv ! i) # es1 @ es2)"
    using True assms(2) by (auto simp: collect_drops_def tracked_def fold_updates)
  moreover have "kept_before l (kv ! i) (es1 @ es2) = seq_diff cu1 ! i"
    using assms(1,3,4,5,7) by (subst kept_before_append) (auto simp: grown_def)
  ultimately show ?thesis using assms(7,9) by (simp add: layer_seqused_def py_get_def py_len_def)
qed

section \<open>The slots of the tokens that are left\<close>

lemma fold_keeps_table:
  "am_block_table (fold (\<lambda>(name, r) ms. if P name then ms(r := set_meta a b c d e f (ms r)) else ms) xs ms r) =
    am_block_table (ms r)"
  by (induction xs arbitrary: ms) (auto simp: set_meta_def split: if_splits)

lemma update_metadata_frame:
  assumes "update_metadata_after_drop keep cu mx idx bs ctx = Inr ctx'"
  shows "attn_metadata ctx' = attn_metadata ctx" and "is_mixed_or_prefill_step ctx' = is_mixed_or_prefill_step ctx"
    and "query_lens_this_step ctx' = query_lens_this_step ctx"
    and "kv_seq_lens_this_step ctx' = kv_seq_lens_this_step ctx"
    and "am_block_table (metas ctx' r) = am_block_table (metas ctx r)"
proof -
  show "attn_metadata ctx' = attn_metadata ctx" "is_mixed_or_prefill_step ctx' = is_mixed_or_prefill_step ctx"
    "query_lens_this_step ctx' = query_lens_this_step ctx" "kv_seq_lens_this_step ctx' = kv_seq_lens_this_step ctx"
    using assms by (auto simp: update_metadata_after_drop_def Let_def res_simps)
  show "am_block_table (metas ctx' r) = am_block_table (metas ctx r)"
    using assms by (cases "attn_metadata ctx")
      (auto simp: update_metadata_after_drop_def Let_def res_simps fold_keeps_table)
qed

lemma first_attr_table:
  assumes "attn_metadata ctx' = attn_metadata ctx"
    and "\<And>r. am_block_table (metas ctx' r) = am_block_table (metas ctx r)"
  shows "first_attr am_block_table ctx' = first_attr am_block_table ctx"
proof -
  have "(case find (\<lambda>m. am_block_table m \<noteq> None) (map (\<lambda>(_, r). metas ctx' r) d) of
        None \<Rightarrow> None | Some m \<Rightarrow> am_block_table m) =
      (case find (\<lambda>m. am_block_table m \<noteq> None) (map (\<lambda>(_, r). metas ctx r) d) of
        None \<Rightarrow> None | Some m \<Rightarrow> am_block_table m)" for d
    by (induction d) (auto simp: assms(2))
  then show ?thesis by (cases "attn_metadata ctx") (simp_all only: first_attr_def assms(1) option.case)
qed

text \<open>The tokens of request \<open>i\<close> are at the start of its block table.\<close>

definition request_dense :: "int list list \<Rightarrow> int \<Rightarrow> nat \<Rightarrow> int list \<Rightarrow> int list \<Rightarrow> bool" where
  "request_dense bt bs i cu sm \<longleftrightarrow>
     (\<forall>t < nat (seq_diff cu ! i). sm ! nat (cu ! i + int t) = slot bt bs i (int t))"

text \<open>The layer \<open>name\<close> is going to store the tokens of request \<open>i\<close> at the start of its block table.\<close>

definition stores_densely :: "int list list \<Rightarrow> int \<Rightarrow> nat \<Rightarrow> string \<Rightarrow> fwd_ctx \<Rightarrow> int list \<Rightarrow> bool" where
  "stores_densely bt bs i name ctx cu \<longleftrightarrow> drop_step_ok ctx cu bt bs \<and>
     decode_per_layer_slot_mapping ctx = None \<and>
     (\<exists>sms sm. slot_mappings ctx = Some sms \<and> map_of sms name = Some sm \<and> request_dense bt bs i cu sm)"

lemma stores_densely_slots:
  assumes "stores_densely bt bs i name ctx cu"
  shows "\<exists>sm. kv_update_slots ctx name = Inr (Some sm) \<and> request_dense bt bs i cu sm"
  using assms by (auto simp: stores_densely_def kv_update_slots_def attention_slots_def)

lemma drop_step_ok_shrinks:
  assumes "drop_step_ok ctx cu bt bs" and "batch_borders cu'" and "length cu' = length cu"
    and "\<And>i. i < length cu - 1 \<Longrightarrow> seq_diff cu' ! i \<le> seq_diff cu ! i"
    and "\<And>i. i < length cu - 1 \<Longrightarrow> seq_diff cu ! i = 1 \<Longrightarrow> seq_diff cu' ! i = 1"
  shows "drop_step_ok ctx cu' bt bs"
  using assms by (force simp: drop_step_ok_def has_room_def split: option.splits)

lemma drop_layer_stores_densely:
  assumes "run_ok s cu" and "stores_densely bt bs i name (rs_ctx s) cu" and "i < length cu - 1"
    and "later_layer idx name" and "code_ok code" and "0 < dc_block_size cfg" and "rank_0 tp"
    and "dc_kv_block_size cfg = bs" and step: "drop_layer_forward fp tp code cfg idx cu s = Inr s'"
    and "rs_cu_seqlens s' = Some cu'"
  shows "stores_densely bt bs i name (rs_ctx s') cu'"
proof -
  let ?rows = "attend code idx (rs_ctx s) (rs_positions s) (rs_rows s)"
  have rows: "py_len ?rows = last cu" using assms(1,5) by (simp add: run_ok_def code_ok_def py_len_def)
  have cu: "batch_borders cu" using assms(1) by (simp add: run_ok_def)
  obtain keep mx where d:
    "topselectionvarlen fp tp (block_scores code idx ?rows (rs_positions s)) (last cu) cu
       (rs_max_seq_len s) (dc_block_size cfg) (dc_attention_sink cfg) (dc_last_q cfg) (dc_p cfg) =
       Inr (keep, mx, cu')"
    "update_metadata_after_drop keep cu' mx idx bs (rs_ctx s) = Inr (rs_ctx s')"
    using step assms(8,10) by (auto simp: drop_layer_forward_def Let_def res_simps rows)
  note k = selection_kept_total [OF cu assms(6,7) d(1)]
  have ok: "drop_step_ok (rs_ctx s) cu' bt bs"
    using assms(2) by (intro drop_step_ok_shrinks [OF _ k(2,3,5,6)]) (simp_all add: stores_densely_def)
  obtain sm where sm: "stored_densely bt bs cu' sm"
    "slot_mappings (rs_ctx s') = map_option (map (\<lambda>(name, old). (name, if later_layer idx name then sm else old)))
      (slot_mappings (rs_ctx s))"
    "decode_per_layer_slot_mapping (rs_ctx s') = decode_per_layer_slot_mapping (rs_ctx s)"
    using update_metadata_spec [OF ok k(4) [symmetric], of mx idx] d(2) by auto
  note frame = update_metadata_frame [OF d(2)]
  have "drop_step_ok (rs_ctx s') cu' bt bs"
    using ok first_attr_table [OF frame(1,5)] by (simp add: drop_step_ok_def frame)
  moreover have "request_dense bt bs i cu' sm"
    using sm(1) assms(3) k(3) by (simp add: stored_densely_def request_dense_def)
  ultimately show ?thesis
    using assms(2,4) sm(2,3) by (auto simp: stores_densely_def map_of_relabel)
qed

lemma layer_step_stores_densely:
  assumes "run_ok s cu" and "stores_densely bt bs i name (rs_ctx s) cu" and "i < length cu - 1"
    and "later_layer idx name" and "code_ok code" and "0 < dc_block_size cfg" and "rank_0 tp"
    and "dc_kv_block_size cfg = bs" and step: "layer_step fp tp code cfg dl q pre idx s = Inr s'"
  shows "\<exists>cu'. run_ok s' cu' \<and> length cu' = length cu \<and> stores_densely bt bs i name (rs_ctx s') cu'"
proof -
  have cu: "rs_cu_seqlens s = Some cu" using assms(1) by (simp add: run_ok_def)
  from layer_step_run_ok [OF assms(1,5-7) step] obtain cu' where cu': "run_ok s' cu'" "length cu' = length cu"
    by blast
  show ?thesis
  proof (cases "pre \<and> idx \<in> set dl \<and> py_len (rs_rows s) > dc_attention_sink cfg + dc_last_q cfg")
    case True
    then obtain s1 where s1: "drop_layer_forward fp tp code cfg idx cu s = Inr s1"
      using step cu by (auto simp: layer_step_def res_simps)
    have "rs_ctx s' = rs_ctx s1 \<and> rs_cu_seqlens s' = rs_cu_seqlens s1"
      using step cu True s1 by (auto simp: layer_step_def res_simps split: option.splits)
    then show ?thesis
      using drop_layer_stores_densely [OF assms(1-8) s1, of cu'] cu' by (auto simp: run_ok_def)
  next
    case False
    then have "s' = plain_layer_forward code idx s" using step cu by (auto simp: layer_step_def)
    then have "rs_ctx s' = rs_ctx s" "cu' = cu"
      using cu'(1) cu by (simp_all add: plain_layer_forward_def run_ok_def)
    then show ?thesis using cu' assms(2) by auto
  qed
qed

lemma layers_store_densely:
  assumes "run_ok s cu" and "stores_densely bt bs i name (rs_ctx s) cu" and "i < length cu - 1"
    and "code_ok code" and "0 < dc_block_size cfg" and "rank_0 tp" and "dc_kv_block_size cfg = bs"
    and "\<forall>idx \<in> set layers. later_layer idx name"
    and "rfold (layer_step fp tp code cfg dl q pre) layers s = Inr s'" and "rs_cu_seqlens s' = Some cu'"
  shows "stores_densely bt bs i name (rs_ctx s') cu'"
  using assms(1-3,8,9)
proof (induction layers arbitrary: s cu)
  case Nil
  then show ?case using assms(10) by (simp add: run_ok_def)
next
  case (Cons idx layers)
  then obtain s1 where s1: "layer_step fp tp code cfg dl q pre idx s = Inr s1"
    "rfold (layer_step fp tp code cfg dl q pre) layers s1 = Inr s'" by (auto simp: res_simps)
  have "later_layer idx name" using Cons.prems(4) by simp
  from layer_step_stores_densely [OF Cons.prems(1-3) this assms(4-7) s1(1)] obtain cu1 where
    "run_ok s1 cu1" "length cu1 = length cu" "stores_densely bt bs i name (rs_ctx s1) cu1" by blast
  then show ?case using Cons.IH [of s1 cu1] Cons.prems(3,4) s1(2) by simp
qed

text \<open>C3.
  A request whose whole prompt is computed in one step (nothing of it cached, no chunks, no lengths per
  layer of earlier drops in the step) and whose prompt is dropped: at layer \<open>l\<close> the prefill writes the keys
  of the \<open>n\<close> tokens of the prompt that were left when it reached this layer to the first \<open>n\<close> places of the
  block table of the request, and a later decode step attends, at layer \<open>l\<close>, to \<open>n + t\<close> tokens after \<open>t\<close>
  decoded ones: the entries that the forward pass recorded and the runner keeps give exactly this number.
\<close>

theorem decode_lengths_follow_prefill:
  assumes run: "model_forward fp tp code cfg dl (ls1 @ ls2) positions rows old ctx = Inr s'"
    and info: "get_step_info ctx = Inr (Some cu, mx, Some (seq_diff cu), Some kv, True)"
    and "batch_borders cu" and "py_len rows = last cu" and "py_len positions = last cu"
    and "code_ok code" and "0 < dc_block_size cfg" and "rank_0 tp" and "dl \<noteq> []"
    and ids: "req_ids_snapshot ctx = Some req_ids" "distinct req_ids" "length cu = Suc (length req_ids)"
    and "length kv = length req_ids" and fresh: "\<not> token_drop_applied ctx"
    and layers: "set ls1 \<subseteq> {x. x < l}" "set ls2 \<subseteq> {x. l \<le> x}" and name: "layer_index name = Some l"
    and table: "is_mixed_or_prefill_step ctx" "first_attr am_block_table ctx = Some bt"
      "dc_kv_block_size cfg = bs" "\<forall>j < length req_ids. has_room bt bs j (seq_diff cu ! j)"
    and slots: "decode_per_layer_slot_mapping ctx = None" "slot_mappings ctx = Some sms"
      "map_of sms name = Some sm0" "\<forall>p < nat (seq_diff cu ! i). sm0 ! nat (cu ! i + int p) = slot bt bs i (int p)"
    and i: "i < length req_ids" "1 < seq_diff cu ! i" "kv ! i = seq_diff cu ! i"
    and new: "map_of drops (req_ids ! i) = None" and "0 \<le> t"
  shows "\<exists>s1 cu1 sm. model_forward fp tp code cfg dl ls1 positions rows old ctx = Inr s1 \<and>
    rs_cu_seqlens s1 = Some cu1 \<and>
    kv_update_slots (rs_ctx s1) name = Inr (Some sm) \<and>
    (\<forall>p < nat (seq_diff cu1 ! i). sm ! nat (cu1 ! i + int p) = slot bt bs i (int p)) \<and>
    layer_seqused (snd (collect_drops (rs_ctx s') (rs_per_layer s') logits drops)) l
      (req_ids ! i, seq_diff cu ! i + t) = Inr (seq_diff cu1 ! i + t)"
proof -
  let ?q = "seq_diff cu" and ?step = "layer_step fp tp code cfg dl (Some (seq_diff cu)) True"
  let ?ctx = "ctx\<lparr>query_lens_this_step := Some ?q, kv_seq_lens_this_step := Some kv\<rparr>"
  have q: "length ?q = length req_ids" using ids(3) by simp
  obtain d where d: "rfold (start_entry req_ids kv) (enumerate_reqs ?q) [] = Inr d"
    using run info \<open>dl \<noteq> []\<close> ids(1) by (auto simp: model_forward_def res_simps)
  let ?s = "\<lparr>rs_positions = positions, rs_rows = rows, rs_cu_seqlens = Some cu, rs_max_seq_len = mx,
       rs_per_layer = d, rs_ctx = ?ctx\<rparr>"
  have fwd: "model_forward fp tp code cfg dl ls positions rows old ctx = rfold ?step ls ?s" for ls
    using info \<open>dl \<noteq> []\<close> ids(1) d by (simp add: model_forward_def)
  obtain s1 where s1: "rfold ?step ls1 ?s = Inr s1" "rfold ?step ls2 s1 = Inr s'"
    using run by (auto simp: fwd rfold_append res_simps)
  have "map_of d (req_ids ! i) = Some [(0, kv ! i)]"
    by (rule start_entries [OF d ids(2)]) (simp_all only: q assms(13) i order_refl)
  then have start: "tracked req_ids i ?s cu [(0, kv ! i)]"
    using entries_distinct [OF d] ids assms(3-5) by (simp add: tracked_def run_ok_def)
  note tr = layers_tracked [OF _ ids(2) q _ i(2) assms(6-8)]
  obtain cu1 es1 where 1: "tracked req_ids i s1 cu1 ([(0, kv ! i)] @ es1)" "grown i (set ls1) ?s cu s1 cu1 es1"
    using tr [OF start _ s1(1)] i(1) q by auto
  obtain cu2 es2 where 2: "tracked req_ids i s' cu2 (([(0, kv ! i)] @ es1) @ es2)"
    "grown i (set ls2) s1 cu1 s' cu2 es2"
    using tr [OF 1(1) _ s1(2)] i(1) q by auto
  have len: "layer_seqused (snd (collect_drops (rs_ctx s') (rs_per_layer s') logits drops)) l
      (req_ids ! i, ?q ! i + t) = Inr (seq_diff cu1 ! i + t)"
    by (rule recorded_length [OF 1(2) 2 layers _ i(3) new \<open>0 \<le> t\<close>]) (simp add: fresh)
  have cu1: "rs_cu_seqlens s1 = Some cu1" using 1(1) by (simp add: tracked_def run_ok_def)
  have "first_attr am_block_table ?ctx = Some bt" by (subst first_attr_table [of ?ctx ctx]) (simp_all add: table(2))
  then have "stores_densely bt bs i name (rs_ctx ?s) cu"
    using assms(3) table(1,4) slots ids(3) by (simp add: stores_densely_def drop_step_ok_def request_dense_def)
  moreover have "\<forall>idx \<in> set ls1. later_layer idx name" using layers(1) name by (auto simp: later_layer_def)
  ultimately have "stores_densely bt bs i name (rs_ctx s1) cu1"
    using start ids(3) i(1)
    by (intro layers_store_densely [OF _ _ _ assms(6-8) table(3) _ s1(1) cu1]) (auto simp: tracked_def)
  then show ?thesis
    using stores_densely_slots [of bt bs i name "rs_ctx s1" cu1] cu1 len s1(1) fwd by (auto simp: request_dense_def)
qed

theorem decode_lengths_follow_prefill_witness:
  "\<exists>s s1 cu1 sm. demo_run = Inr s \<and>
    model_forward demo_floats demo_tp demo_code demo_config [0] [0] [0, 1, 2, 3, 4, 5, 9]
      [10, 11, 12, 13, 14, 15, 19] [] demo_ctx = Inr s1 \<and> rs_cu_seqlens s1 = Some cu1 \<and>
    kv_update_slots (rs_ctx s1) (demo_name 1) = Inr (Some sm) \<and>
    layer_seqused (snd (collect_drops (rs_ctx s) (rs_per_layer s) [5, 6] [])) 1 (''a'', 6 + 3) =
      Inr (seq_diff cu1 ! 0 + 3)"
proof -
  obtain s where s: "demo_run = Inr s" using demo_returns by (auto simp: sum.disc_eq_case split: sum.splits)
  have diff: "seq_diff [0, 6, 7] = [6, 1]" by code_simp
  have info: "get_step_info demo_ctx = Inr (Some [0, 6, 7], 6, Some (seq_diff [0, 6, 7]), Some [6, 10], True)"
    by code_simp
  have bs: "0 < dc_block_size demo_config" "dc_kv_block_size demo_config = 4" by (simp_all add: demo_config_def)
  have ids: "req_ids_snapshot demo_ctx = Some [''a'', ''b'']" "\<not> token_drop_applied demo_ctx"
    "is_mixed_or_prefill_step demo_ctx" "decode_per_layer_slot_mapping demo_ctx = None"
    "slot_mappings demo_ctx = Some [(demo_name 0, [4, 5, 6, 7, 8, 9, 21]), (demo_name 1, [4, 5, 6, 7, 8, 9, 21])]"
    by (simp_all add: demo_ctx_def)
  have table: "first_attr am_block_table demo_ctx = Some [[1, 2, 0], [3, 4, 5]]"
    "\<forall>j < length [''a'', ''b'']. has_room [[1, 2, 0], [3, 4, 5]] 4 j (seq_diff [0, 6, 7] ! j)"
    by (simp add: first_attr_def demo_ctx_def demo_meta_def)
      (simp add: diff has_room_def py_len_def All_less_Suc)
  have dense: "map_of [(demo_name 0, [4, 5, 6, 7, 8, 9, 21]), (demo_name 1, [4, 5, 6, 7, 8, 9, 21 :: int])] (demo_name 1) =
      Some [4, 5, 6, 7, 8, 9, 21]" "layer_index (demo_name 1) = Some 1"
    "\<forall>p < nat (seq_diff [0, 6, 7] ! 0). [4, 5, 6, 7, 8, 9, 21] ! nat ([0, 6, 7] ! 0 + int p) =
      slot [[1, 2, 0], [3, 4, 5]] 4 0 (int p)" by (simp add: demo_name_def) code_simp+
  have run: "model_forward demo_floats demo_tp demo_code demo_config [0] ([0] @ [1]) [0, 1, 2, 3, 4, 5, 9]
      [10, 11, 12, 13, 14, 15, 19] [] demo_ctx = Inr s" using s by (simp add: demo_run_def)
  show ?thesis
    using decode_lengths_follow_prefill [OF run info drop_demo_ok(3) _ _ drop_demo_ok(1) bs(1) drop_demo_ok(2) _
        ids(1) _ _ _ ids(2) _ _ dense(2) ids(3) table(1) bs(2) table(2) ids(4,5) dense(1,3),
        where drops = "[]" and t = 3 and logits = "[5, 6]"] s
    by - (rule exI [of _ s], auto simp: py_len_def diff)
qed


section \<open>The layers of a decode step\<close>

definition best_step :: "int \<Rightarrow> int \<times> 'a \<Rightarrow> int \<times> 'a option \<Rightarrow> int \<times> 'a option" where
  "best_step l = (\<lambda>(dl, v) (best_dl, best). if dl \<le> l \<and> dl > best_dl then (dl, Some v) else (best_dl, best))"

lemma best_layer_value_alt: "best_layer_value es l = snd (fold (best_step l) es (-1, None))"
  by (simp add: best_layer_value_def best_step_def)

lemma best_step_above: "\<forall>e \<in> set es. l < fst e \<Longrightarrow> fold (best_step l) es x = x"
  by (induction es arbitrary: x) (auto simp: best_step_def split: prod.splits)

lemma best_step_below: "\<forall>e \<in> set es. fst e < l \<Longrightarrow> fst x < l \<Longrightarrow> fst (fold (best_step l) es x) < l"
  by (induction es arbitrary: x) (auto simp: best_step_def split: prod.splits)

lemma best_layer_miss: "\<forall>e \<in> set es. l < fst e \<Longrightarrow> best_layer_value es l = None"
  by (simp add: best_layer_value_alt best_step_above)

lemma best_layer_hit:
  assumes "sorted_wrt (<) (map fst es)" and "(l, v) \<in> set es" and "0 \<le> l"
  shows "best_layer_value es l = Some v"
proof -
  obtain xs ys where es: "es = xs @ (l, v) # ys" using assms(2) by (meson split_list)
  have below: "\<forall>e \<in> set xs. fst e < l" and above: "\<forall>e \<in> set ys. l < fst e"
    using assms(1) by (auto simp: es sorted_wrt_append)
  have "fst (fold (best_step l) xs (-1, None)) < l" using below assms(3) by (simp add: best_step_below)
  moreover have "best_step l (l, v) x = (l, Some v)" if "fst x < l" for x
    using that by (cases x) (simp add: best_step_def)
  ultimately have "best_step l (l, v) (fold (best_step l) xs (-1, None)) = (l, Some v)" by blast
  then show ?thesis by (simp add: best_layer_value_alt es best_step_above [OF above])
qed

text \<open>The KV length of a request at layer \<open>fl\<close>.\<close>

definition length_at :: "drop_dict \<Rightarrow> int \<Rightarrow> string \<Rightarrow> int \<Rightarrow> int" where
  "length_at drops fl rid kv =
     (case map_of drops rid of
        None \<Rightarrow> kv
      | Some es \<Rightarrow> kept_before fl (snd (hd es)) (tl es) + max 0 (kv - snd (hd es)))"

lemma layer_seqused_ok:
  assumes "\<forall>(rid, es) \<in> set drops. es \<noteq> []"
  shows "layer_seqused drops fl (rid, kv) = Inr (length_at drops fl rid kv)"
proof -
  have "py_get es 0 = Inr (hd es)" if "map_of drops rid = Some es" for es
    using assms map_of_SomeD [OF that] by (cases es) (auto simp: py_get_def py_len_def)
  then show ?thesis by (simp add: layer_seqused_def length_at_def split: option.splits prod.splits)
qed

lemma layer_slots_ok:
  assumes "\<forall>i < length ls. 1 \<le> ls ! i \<and> has_room bt bs i (ls ! i)"
  shows "layer_slots bt bs ls = Inr (map (\<lambda>i. slot bt bs i (ls ! i - 1)) [0..<length ls])"
proof -
  have "zip (arange (py_len ls)) (map (\<lambda>l. l - 1) ls) =
      map (\<lambda>(i, pos). (int i, pos)) (map (\<lambda>i. (i, ls ! i - 1)) [0..<length ls])"
    by (rule nth_equalityI) (simp_all add: arange_def py_len_def)
  moreover have "slots bt bs (map (\<lambda>(i, pos). (int i, pos)) (map (\<lambda>i. (i, ls ! i - 1)) [0..<length ls])) =
      Inr (map (\<lambda>(i, pos). slot bt bs i pos) (map (\<lambda>i. (i, ls ! i - 1)) [0..<length ls]))"
    by (rule slots_ok [where l = "(!) ls"]) (use assms in auto)
  ultimately show ?thesis by (simp add: layer_slots_def comp_def)
qed

lemma layer_block_tables_same:
  assumes "\<forall>(name, r) \<in> set d. am_block_table (metas ctx r) = Some bt"
  shows "(case map_of (layer_block_tables ctx d) fl of None \<Rightarrow> bt | Some bt' \<Rightarrow> bt') = bt"
proof -
  let ?add = "\<lambda>(name, r) ts. case layer_of_parts (py_split CHR ''.'' name) of
      None \<Rightarrow> ts
    | Some i \<Rightarrow> (case am_block_table (metas ctx r) of
          Some bt \<Rightarrow> if map_of ts i = None then ts @ [(i, bt)] else ts
        | None \<Rightarrow> ts)"
  have "snd ` set (fold ?add d ts) \<subseteq> {bt}" if "snd ` set ts \<subseteq> {bt}" for ts
    using assms that
  proof (induction d arbitrary: ts)
    case (Cons e d)
    have "snd ` set (?add e ts) \<subseteq> {bt}" using Cons.prems by (cases e) (auto split: option.splits)
    with Cons show ?case by simp
  qed simp
  from this [of "[]"] have "snd ` set (layer_block_tables ctx d) \<subseteq> {bt}" by (simp add: layer_block_tables_def)
  then have "v = bt" if "map_of (layer_block_tables ctx d) fl = Some v" for v
    using map_of_SomeD [OF that] by force
  then show ?thesis by (cases "map_of (layer_block_tables ctx d) fl") simp_all
qed

lemma attention_lens_override:
  assumes "decode_per_layer_seq_lens ctx = Some es" and "extract_layer_idx_from_name name = Some l"
    and "best_layer_value es l = Some best" and "length best = length qsl - 1" "length kv = length qsl - 1"
    and "i < length qsl - 1" and "seq_diff qsl ! i = 1"
  shows "\<exists>lens mx'. attention_lens ctx name qsl kv mx = Inr (lens, mx') \<and> lens ! i = best ! i"
proof -
  let ?dec = "map (\<lambda>l. l = 1) (seq_diff qsl)"
  let ?lens = "map (\<lambda>i. if ?dec ! i then best ! i else kv ! i) [0..<length kv]"
  have "list_ex id ?dec" using assms(6,7) by (auto simp: list_ex_length)
  moreover have "mask_assign ?dec best kv = Inr ?lens" by (simp add: mask_assign_def assms(4,5))
  moreover have "?lens \<noteq> []" using assms(5,6) by auto
  then obtain mx' where "max_list ?lens = Inr mx'" by (metis max_list_Max)
  moreover have "?lens ! i = best ! i" using assms(5-7) by simp
  ultimately show ?thesis using assms(1-3) by (auto simp: attention_lens_def)
qed


lemma decode_positions:
  assumes "batch_borders qsl" and "j < length qsl - 1" and "seq_diff qsl ! j = 1"
  shows "0 \<le> qsl ! j" and "qsl ! j < last qsl"
    and "\<And>k. k < length qsl - 1 \<Longrightarrow> seq_diff qsl ! k = 1 \<Longrightarrow> qsl ! k = qsl ! j \<Longrightarrow> k = j"
proof -
  obtain lens where cu: "qsl = cu_of lens" and lens: "\<forall>x \<in> set lens. 0 \<le> x" "lens \<noteq> []"
    using batch_bordersE [OF assms(1)] .
  have mem: "(k, 0) \<in> set (segs lens)" if "k < length qsl - 1" "seq_diff qsl ! k = 1" for k
    using that by (simp add: cu segs_mem)
  show "0 \<le> qsl ! j" "qsl ! j < last qsl" using token_range [OF lens(1) mem [OF assms(2,3)]] by (simp_all add: cu)
  show "k = j" if "k < length qsl - 1" "seq_diff qsl ! k = 1" "qsl ! k = qsl ! j" for k
    using token_inj [OF lens(1) mem [OF that(1,2)] mem [OF assms(2,3)]] that(3) by (simp add: cu)
qed

lemma attention_slots_override:
  assumes "decode_per_layer_slot_mapping ctx = Some es" and "extract_layer_idx_from_name name = Some l"
    and "best_layer_value es l = Some best" and "layer_query_start_loc ctx name = Inr (Some qsl)"
    and "batch_borders qsl" and "length best = length qsl - 1" and "py_len sm0 = last qsl"
    and i: "i < length qsl - 1" "seq_diff qsl ! i = 1"
  shows "\<exists>sm. attention_slots ctx name sm0 = Inr sm \<and> py_len sm = last qsl \<and> sm ! nat (qsl ! i) = best ! i"
proof -
  let ?dec = "map (\<lambda>l. l = 1) (seq_diff qsl)"
  let ?D = "filter ((!) ?dec) [0..<length ?dec]"
  have D: "j < length qsl - 1 \<and> seq_diff qsl ! j = 1" if "j \<in> set ?D" for j using that by auto
  have nz: "nonzero ?dec = map int ?D" by (simp add: nonzero_def)
  have gat: "gather xs (map int ?D) = Inr (map ((!) xs) ?D)" if "length qsl - 1 \<le> length xs" for xs :: "int list"
  proof (subst gather_ok)
    show "\<forall>j \<in> set (map int ?D). 0 \<le> j \<and> j < py_len xs"
      using D that unfolding py_len_def by fastforce
  qed (simp add: comp_def)
  have g1: "gather qsl (map int ?D) = Inr (map ((!) qsl) ?D)" by (rule gat) simp
  note g2 = gat [of best, unfolded assms(6), OF order_refl]
  have rng: "\<forall>p \<in> set (map ((!) qsl) ?D). 0 \<le> p \<and> p < py_len sm0"
    using D decode_positions(1,2) [OF assms(5)] assms(7) by auto
  let ?sm = "fold (\<lambda>(i, v) ys. ys[nat i := v]) (zip (map ((!) qsl) ?D) (map ((!) best) ?D)) sm0"
  have put: "put (map ((!) qsl) ?D) (map ((!) best) ?D) sm0 = Inr ?sm" by (rule put_ok) (use rng in simp_all)
  have "?sm ! nat (qsl ! i) = best ! i"
  proof (rule fold_update_at)
    show "(qsl ! i, best ! i) \<in> set (zip (map ((!) qsl) ?D) (map ((!) best) ?D))"
      using i by (auto simp: zip_map_map zip_same_conv_map)
    show "nat (qsl ! i) < length sm0"
      using decode_positions(1,2) [OF assms(5) i] assms(7) by (simp add: py_len_def nat_less_iff)
    have "best ! j = best ! i" if "j \<in> set ?D" "nat (qsl ! j) = nat (qsl ! i)" for j
      using decode_positions [OF assms(5) i] decode_positions(1) [OF assms(5)] D [OF that(1)] that(2)
      by (metis eq_nat_nat_iff)
    then show "\<forall>(j, w) \<in> set (zip (map ((!) qsl) ?D) (map ((!) best) ?D)). nat j = nat (qsl ! i) \<longrightarrow> w = best ! i"
      by (auto simp: zip_map_map zip_same_conv_map)
  qed
  moreover have dec: "list_ex id ?dec = True" using i by (auto simp: list_ex_length)
  have "attention_slots ctx name sm0 = Inr ?sm"
    by (simp only: attention_slots_def assms(1-4) option.case prod.case rbind_Inr Let_def if_True dec nz
        g1 g2 put)
  ultimately show ?thesis using assms(7) by (simp add: py_len_def)
qed


lemma arange_mem: "x \<in> set (arange n) \<longleftrightarrow> 0 \<le> x \<and> x < n"
  unfolding arange_def by (auto simp: image_iff intro!: bexI [of _ "nat x"])

lemma fold_min: "fold min xs (x :: int) = Min (set (x # xs))"
  by (simp only: Min.set_eq_fold)

text \<open>The lengths and slots of layer \<open>fl\<close> for the requests of a step.\<close>

definition lens_at :: "drop_dict \<Rightarrow> string list \<Rightarrow> int list \<Rightarrow> int \<Rightarrow> int list" where
  "lens_at drops req_ids kv fl = map (\<lambda>(rid, l). length_at drops fl rid l) (zip req_ids kv)"

definition slots_for :: "int list list \<Rightarrow> int \<Rightarrow> int list \<Rightarrow> int list" where
  "slots_for bt bs ls = map (\<lambda>i. slot bt bs i (ls ! i - 1)) [0..<length ls]"

text \<open>
  What a decode step relies on: one KV cache group, whose metadata is shared by all layers, entries
  for a request of the step, and room for the tokens of every layer.
\<close>

definition decode_step_ok ::
    "drop_dict \<Rightarrow> int \<Rightarrow> int \<Rightarrow> int \<Rightarrow> fwd_ctx \<Rightarrow> string list \<Rightarrow> int list \<Rightarrow> int list list \<Rightarrow> int list \<Rightarrow> bool" where
  "decode_step_ok drops f n bs ctx req_ids kv bt qsl \<longleftrightarrow>
     (case attn_metadata ctx of None \<Rightarrow> False
      | Some d \<Rightarrow> d \<noteq> [] \<and> list_all (\<lambda>(_, r). am_seq_lens (metas ctx r) = Some kv \<and>
          am_block_table (metas ctx r) = Some bt \<and> am_query_start_loc (metas ctx r) = Some qsl) d) \<and>
     req_ids_snapshot ctx = Some req_ids \<and> length kv = length req_ids \<and>
     list_ex (\<lambda>rid. map_of drops rid \<noteq> None) req_ids \<and> list_all (\<lambda>(_, es). es \<noteq> []) drops \<and>
     list_all (\<lambda>fl. \<forall>i < length req_ids. 1 \<le> lens_at drops req_ids kv fl ! i \<and>
       has_room bt bs i (lens_at drops req_ids kv fl ! i)) (filter (\<lambda>li. li > f) (arange n)) \<and>
     batch_borders qsl \<and> length qsl = Suc (length req_ids)"

lemma prepare_decode_layers_ok:
  assumes "decode_step_ok drops f n bs ctx req_ids kv bt qsl" and "f \<in> set dl" and "\<forall>x \<in> set dl. f \<le> x"
    and "f < l" and "l < n" and "0 \<le> l"
  shows "prepare_decode_layers drops dl n bs ctx = Inr (ctx\<lparr>
    decode_per_layer_seq_lens := Some (map (\<lambda>fl. (fl, lens_at drops req_ids kv fl)) (filter (\<lambda>li. li > f) (arange n))),
    decode_per_layer_slot_mapping := Some (map (\<lambda>fl. (fl, slots_for bt bs (lens_at drops req_ids kv fl)))
      (filter (\<lambda>li. li > f) (arange n)))\<rparr>)"
proof -
  let ?aff = "filter (\<lambda>li. li > f) (arange n)"
  obtain d where d: "attn_metadata ctx = Some d" "d \<noteq> []"
    "\<forall>(name, r) \<in> set d. am_seq_lens (metas ctx r) = Some kv \<and> am_block_table (metas ctx r) = Some bt"
    using assms(1) by (auto simp: decode_step_ok_def list_all_iff split: option.splits)
  have ok: "req_ids_snapshot ctx = Some req_ids" "length kv = length req_ids" "\<forall>(rid, es) \<in> set drops. es \<noteq> []"
    "list_ex (\<lambda>rid. map_of drops rid \<noteq> None) req_ids"
    "\<forall>fl \<in> set ?aff. \<forall>i < length req_ids. 1 \<le> lens_at drops req_ids kv fl ! i \<and>
       has_room bt bs i (lens_at drops req_ids kv fl ! i)"
    using assms(1) by (auto simp: decode_step_ok_def list_all_iff)
  have "Min (set (hd dl # dl)) = f"
    using assms(2,3) list.set_sel(1) [of dl] by (intro Min_eqI) fastforce+
  then have first: "fold min dl (hd dl) = f" by (simp only: fold_min)
  have "l \<in> set ?aff" using assms(4-6) by (simp add: arange_mem)
  then have aff: "?aff \<noteq> []" by (metis empty_iff list.set(1))
  have drops: "\<not> (drops = [] \<or> \<not> list_ex (\<lambda>rid. map_of drops rid \<noteq> None) req_ids \<or> dl = [])"
    using ok(4) assms(2) by (auto simp: list_ex_iff)
  obtain m where m: "find (\<lambda>m. am_seq_lens m \<noteq> None \<and> am_block_table m \<noteq> None) (map (\<lambda>(_, r). metas ctx r) d) = Some m"
    "am_seq_lens m = Some kv" "am_block_table m = Some bt"
    using d(2,3) by (cases d) auto
  have data: "rmapv (drop_layer_data drops bs bt (layer_block_tables ctx d) (zip req_ids kv)) ?aff =
      Inr (map (\<lambda>fl. (lens_at drops req_ids kv fl, slots_for bt bs (lens_at drops req_ids kv fl))) ?aff)"
  proof (rule rmapv_pure)
    fix fl assume fl: "fl \<in> set ?aff"
    have 1: "rmapv (layer_seqused drops fl) (zip req_ids kv) = Inr (lens_at drops req_ids kv fl)"
      unfolding lens_at_def by (rule rmapv_pure) (auto simp: layer_seqused_ok [OF ok(3)])
    have 2: "layer_slots bt bs (lens_at drops req_ids kv fl) = Inr (slots_for bt bs (lens_at drops req_ids kv fl))"
      unfolding slots_for_def by (rule layer_slots_ok) (use ok(2,5) fl in \<open>simp add: lens_at_def\<close>)
    have "\<forall>(name, r) \<in> set d. am_block_table (metas ctx r) = Some bt" using d(3) by auto
    from layer_block_tables_same [OF this] show "drop_layer_data drops bs bt (layer_block_tables ctx d) (zip req_ids kv) fl =
        Inr (lens_at drops req_ids kv fl, slots_for bt bs (lens_at drops req_ids kv fl))"
      by (simp add: drop_layer_data_def 1 2)
  qed
  have kv: "\<not> length kv < length req_ids" using ok(2) by simp
  show ?thesis
    by (simp only: prepare_decode_layers_def d(1) ok(1) option.case prod.case drops if_False Let_def first aff
        m option.sel kv data rbind_Inr map_map comp_def fst_conv snd_conv zip_map2 zip_same_conv_map)
qed


lemma prepared_lookup:
  assumes "f < l" and "l < n" and "0 \<le> l"
  shows "best_layer_value (map (\<lambda>fl. (fl, g fl)) (filter (\<lambda>li. li > f) (arange n))) l = Some (g l)"
proof (rule best_layer_hit)
  have "sorted_wrt (<) (arange n)" by (simp add: arange_def sorted_wrt_map)
  then show "sorted_wrt (<) (map fst (map (\<lambda>fl. (fl, g fl)) (filter (\<lambda>li. li > f) (arange n))))"
    by (simp add: comp_def sorted_wrt_filter)
  show "(l, g l) \<in> set (map (\<lambda>fl. (fl, g fl)) (filter (\<lambda>li. li > f) (arange n)))"
    using assms by (simp add: arange_mem)
qed (fact assms(3))

text \<open>C4.
  In a decode step every layer after the first drop layer attends to the length that the runner
  computed for it, and writes the key of a decode token to the last place of this length: behind
  the tokens that the prefill left in the layer and the ones decoded before.
\<close>

theorem decode_attention_per_layer:
  assumes "decode_step_ok drops f n bs ctx req_ids kv bt qsl" and "f \<in> set dl" and "\<forall>x \<in> set dl. f \<le> x"
    and "extract_layer_idx_from_name name = Some l" and "f < l" and "l < n" and "0 \<le> l"
    and "i < length req_ids" and "seq_diff qsl ! i = 1" and "py_len sm0 = last qsl"
  shows "\<exists>ctx' lens mx' sm. prepare_decode_layers drops dl n bs ctx = Inr ctx' \<and>
    attention_lens ctx' name qsl kv mx = Inr (lens, mx') \<and> attention_slots ctx' name sm0 = Inr sm \<and>
    lens ! i = length_at drops l (req_ids ! i) (kv ! i) \<and> sm ! nat (qsl ! i) = slot bt bs i (lens ! i - 1)"
proof -
  let ?lens = "lens_at drops req_ids kv" and ?aff = "filter (\<lambda>li. li > f) (arange n)"
  let ?ctx = "ctx\<lparr>decode_per_layer_seq_lens := Some (map (\<lambda>fl. (fl, ?lens fl)) ?aff),
    decode_per_layer_slot_mapping := Some (map (\<lambda>fl. (fl, slots_for bt bs (?lens fl))) ?aff)\<rparr>"
  have prep: "prepare_decode_layers drops dl n bs ctx = Inr ?ctx"
    by (rule prepare_decode_layers_ok [OF assms(1-3,5-7)])
  have ok: "length kv = length req_ids" "batch_borders qsl" "length qsl = Suc (length req_ids)"
    using assms(1) by (simp_all add: decode_step_ok_def)
  obtain d where d: "attn_metadata ctx = Some d" "d \<noteq> []" "\<forall>(name, r) \<in> set d. am_query_start_loc (metas ctx r) = Some qsl"
    using assms(1) by (auto simp: decode_step_ok_def list_all_iff split: option.splits)
  have qsl: "layer_query_start_loc ?ctx name = Inr (Some qsl)"
    using d by (cases d) (auto simp: layer_query_start_loc_def split: option.splits dest!: map_of_SomeD)
  have len: "length (?lens l) = length req_ids" using ok(1) by (simp add: lens_at_def)
  have i: "i < length qsl - 1" using assms(8) ok(3) by simp
  have "\<exists>lens mx'. attention_lens ?ctx name qsl kv mx = Inr (lens, mx') \<and> lens ! i = ?lens l ! i"
    by (rule attention_lens_override [OF _ assms(4) prepared_lookup [OF assms(5-7)] _ _ i assms(9)])
      (simp_all add: len ok)
  then obtain lens mx' where 1: "attention_lens ?ctx name qsl kv mx = Inr (lens, mx')" "lens ! i = ?lens l ! i"
    by blast
  have "\<exists>sm. attention_slots ?ctx name sm0 = Inr sm \<and> py_len sm = last qsl \<and>
      sm ! nat (qsl ! i) = slots_for bt bs (?lens l) ! i"
    by (rule attention_slots_override [OF _ assms(4) prepared_lookup [OF assms(5-7)] qsl ok(2) _ assms(10) i assms(9)])
      (simp_all add: len ok slots_for_def)
  then obtain sm where 2: "attention_slots ?ctx name sm0 = Inr sm"
    "sm ! nat (qsl ! i) = slots_for bt bs (?lens l) ! i" by blast
  have "?lens l ! i = length_at drops l (req_ids ! i) (kv ! i)" using assms(8) ok(1) by (simp add: lens_at_def)
  moreover have "slots_for bt bs (?lens l) ! i = slot bt bs i (?lens l ! i - 1)"
    using assms(8) len by (simp add: slots_for_def)
  ultimately show ?thesis using prep 1 2 by auto
qed


definition demo_decode :: "int list \<Rightarrow> int list \<Rightarrow> fwd_ctx" where
  "demo_decode qsl kv = demo_ctx\<lparr>metas := (\<lambda>_. demo_meta\<lparr>am_query_start_loc := Some qsl, am_seq_lens := Some kv\<rparr>)\<rparr>"

theorem decode_attention_per_layer_witness:
  "\<exists>ctx' lens mx' sm. prepare_decode_layers [(''a'', [(0, 6), (0, 4)])] [0] 2 4 (demo_decode [0, 1, 2] [9, 11]) = Inr ctx' \<and>
    attention_lens ctx' (demo_name 1) [0, 1, 2] [9, 11] 11 = Inr (lens, mx') \<and>
    attention_slots ctx' (demo_name 1) [8, 22] = Inr sm \<and> lens ! 0 = 7 \<and> sm ! nat ([0, 1, 2] ! 0) = 10"
proof -
  have ok: "decode_step_ok [(''a'', [(0, 6), (0, 4)])] 0 2 4 (demo_decode [0, 1, 2] [9, 11]) [''a'', ''b''] [9, 11]
      [[1, 2, 0], [3, 4, 5]] [0, 1, 2]" by code_simp
  have name: "extract_layer_idx_from_name (demo_name 1) = Some 1" by code_simp
  have diff: "seq_diff [0, 1, 2] ! 0 = 1" by code_simp
  have len: "length_at [(''a'', [(0, 6), (0, 4)])] 1 ([''a'', ''b''] ! 0) ([9, 11] ! 0) = 7" by code_simp
  have slot: "slot [[1, 2, 0], [3, 4, 5]] 4 0 (7 - 1) = 10" by code_simp
  have sm0: "py_len [8 :: int, 22] = last [0, 1, 2]" by (simp add: py_len_def)
  show ?thesis
    using decode_attention_per_layer [OF ok _ _ name _ _ _ _ diff sm0, of "[0]" 11] len slot by auto
qed

text \<open>C40.
  When a step has no decode token but a request with recorded drops, as the second chunk of a long
  prompt does, the layers after the first drop layer get one slot per request instead of one per
  token: the cache update, which writes as many keys as it gets slots, loses the other tokens.
\<close>

theorem chunk_after_drop_loses_slots:
  assumes "decode_step_ok drops f n bs ctx req_ids kv bt qsl" and "f \<in> set dl" and "\<forall>x \<in> set dl. f \<le> x"
    and "extract_layer_idx_from_name name = Some l" and "f < l" and "l < n" and "0 \<le> l"
    and "list_all (\<lambda>q. 1 < q) (seq_diff qsl)" and "py_len sm0 = last qsl" and "req_ids \<noteq> []"
  shows "\<exists>ctx' sm. prepare_decode_layers drops dl n bs ctx = Inr ctx' \<and> attention_slots ctx' name sm0 = Inr sm \<and>
    length sm = length req_ids \<and> length sm < length sm0"
proof -
  let ?lens = "lens_at drops req_ids kv" and ?aff = "filter (\<lambda>li. li > f) (arange n)"
  let ?ctx = "ctx\<lparr>decode_per_layer_seq_lens := Some (map (\<lambda>fl. (fl, ?lens fl)) ?aff),
    decode_per_layer_slot_mapping := Some (map (\<lambda>fl. (fl, slots_for bt bs (?lens fl))) ?aff)\<rparr>"
  have prep: "prepare_decode_layers drops dl n bs ctx = Inr ?ctx"
    by (rule prepare_decode_layers_ok [OF assms(1-3,5-7)])
  have ok: "length kv = length req_ids" "batch_borders qsl" "length qsl = Suc (length req_ids)"
    using assms(1) by (simp_all add: decode_step_ok_def)
  obtain d where d: "attn_metadata ctx = Some d" "d \<noteq> []" "\<forall>(name, r) \<in> set d. am_query_start_loc (metas ctx r) = Some qsl"
    using assms(1) by (auto simp: decode_step_ok_def list_all_iff split: option.splits)
  have qsl: "layer_query_start_loc ?ctx name = Inr (Some qsl)"
    using d by (cases d) (auto simp: layer_query_start_loc_def split: option.splits dest!: map_of_SomeD)
  have "\<not> list_ex id (map (\<lambda>l. l = 1) (seq_diff qsl))"
    using assms(8) by (auto simp: list_ex_iff list_all_iff)
  then have slots: "attention_slots ?ctx name sm0 = Inr (slots_for bt bs (?lens l))"
    using prepared_lookup [OF assms(5-7), of "\<lambda>fl. slots_for bt bs (?lens fl)"] assms(4) qsl
    by (simp add: attention_slots_def)
  obtain lens where cu: "qsl = cu_of lens" "\<forall>x \<in> set lens. 0 \<le> x" "lens \<noteq> []" using batch_bordersE [OF ok(2)] .
  have "length lens < sum_list lens" using assms(8) cu(3) unfolding cu(1) seq_diff_cu_of
  proof (induction lens)
    case (Cons x xs)
    then show ?case by (cases xs) auto
  qed simp
  then have "length req_ids < length sm0" using assms(9) ok(3) by (simp add: cu(1) py_len_def)
  with prep slots ok(1) show ?thesis by (simp add: slots_for_def lens_at_def)
qed

theorem chunk_after_drop_loses_slots_witness:
  "\<exists>ctx' sm. prepare_decode_layers [(''a'', [(0, 4), (0, 3)])] [0] 2 4 (demo_decode [0, 3, 5] [7, 2]) = Inr ctx' \<and>
    attention_slots ctx' (demo_name 1) [8, 9, 10, 12, 13] = Inr sm \<and> length sm = 2"
proof -
  have ok: "decode_step_ok [(''a'', [(0, 4), (0, 3)])] 0 2 4 (demo_decode [0, 3, 5] [7, 2]) [''a'', ''b''] [7, 2]
      [[1, 2, 0], [3, 4, 5]] [0, 3, 5]" by code_simp
  have name: "extract_layer_idx_from_name (demo_name 1) = Some 1" by code_simp
  have long: "list_all (\<lambda>q. 1 < q) (seq_diff [0, 3, 5])" by code_simp
  have sm0: "py_len [8 :: int, 9, 10, 12, 13] = last [0, 3, 5]" by (simp add: py_len_def)
  show ?thesis
    using chunk_after_drop_loses_slots [OF ok _ _ name _ _ _ long sm0, of "[0]"] by auto
qed

end
