(* ===== verification/Queue_Refinement.thy ===== *)
theory Queue_Refinement
  imports Free_Queue Block_Hash
begin

text \<open>
  Properties of the two data structures at the bottom of the block pool: the linked free queue
  behaves like a list of blocks for every sequence of calls, errors included, and the keys and the
  coarse view of the block hashes lose nothing.
\<close>

section \<open>The free queue as a list\<close>

datatype queue_op = Popleft | Popleft_n int | Remove bref | Append bref | Append_n "bref list"

definition queue_step :: "queue_op \<Rightarrow> free_queue \<Rightarrow> (bref list \<times> free_queue) res" where
  "queue_step op q =
     (case op of
        Popleft \<Rightarrow> rbind (popleft q) (\<lambda>(b, q'). Inr ([b], q'))
      | Popleft_n n \<Rightarrow> popleft_n n q
      | Remove b \<Rightarrow> rbind (remove b q) (\<lambda>q'. Inr ([], q'))
      | Append b \<Rightarrow> rbind (append_block b q) (\<lambda>q'. Inr ([], q'))
      | Append_n bs \<Rightarrow> rbind (append_n bs q) (\<lambda>q'. Inr ([], q')))"

text \<open>The same calls on a list of blocks.\<close>

definition list_step :: "queue_op \<Rightarrow> bref list \<Rightarrow> (bref list \<times> bref list) res" where
  "list_step op xs =
     (case op of
        Popleft \<Rightarrow> (case xs of [] \<Rightarrow> Inl ValueError | b # bs \<Rightarrow> Inr ([b], bs))
      | Popleft_n n \<Rightarrow> if py_len xs < n then Inl AssertionError else Inr (take (nat n) xs, drop (nat n) xs)
      | Remove b \<Rightarrow> if b \<in> set xs then Inr ([], remove1 b xs) else Inl RuntimeError
      | Append b \<Rightarrow> Inr ([], xs @ [b])
      | Append_n bs \<Rightarrow> Inr ([], xs @ bs))"

text \<open>What the callers keep to: a block is put back only when it is not in the queue.\<close>

definition legal_op :: "queue_op \<Rightarrow> bref list \<Rightarrow> bool" where
  "legal_op op xs =
     (case op of
        Popleft_n n \<Rightarrow> 0 \<le> n
      | Append b \<Rightarrow> is_real b \<and> b \<notin> set xs
      | Append_n bs \<Rightarrow> distinct bs \<and> list_all (\<lambda>b. is_real b \<and> b \<notin> set xs) bs
      | _ \<Rightarrow> True)"

fun legal_run :: "queue_op list \<Rightarrow> bref list \<Rightarrow> bool" where
  "legal_run [] xs = True"
| "legal_run (op # ops) xs =
     (legal_op op xs \<and> (case list_step op xs of Inl _ \<Rightarrow> True | Inr (_, ys) \<Rightarrow> legal_run ops ys))"

lemma queue_step_refines:
  assumes "queue_inv q xs" and "legal_op op xs"
  shows "case list_step op xs of
      Inl e \<Rightarrow> queue_step op q = Inl e
    | Inr (out, ys) \<Rightarrow> \<exists>q'. queue_step op q = Inr (out, q') \<and> queue_inv q' ys"
proof (cases op)
  case Popleft
  then show ?thesis
    using queue_inv_popleft [of q] queue_inv_popleft_empty [of q] assms(1)
    by (cases xs) (fastforce simp: queue_step_def list_step_def)+
next
  case (Popleft_n n)
  show ?thesis
  proof (cases "py_len xs < n")
    case True
    then show ?thesis
      using popleft_n_too_many [OF assms(1)] Popleft_n by (simp add: queue_step_def list_step_def)
  next
    case False
    then have n: "int (nat n) = n" "nat n \<le> length xs"
      using assms(2) Popleft_n by (simp_all add: legal_op_def py_len_def)
    from queue_inv_popleft_n [OF assms(1) n(2)] show ?thesis
      using False Popleft_n n(1) by (auto simp: queue_step_def list_step_def)
  qed
next
  case (Remove b)
  then show ?thesis
    using queue_inv_remove [OF assms(1), of b] queue_inv_remove_error [OF assms(1), of b]
    by (auto simp: queue_step_def list_step_def)
next
  case (Append b)
  then have "b \<notin> set (Head # xs @ [Tail])" using assms(2) by (auto simp: legal_op_def is_real_iff)
  from queue_inv_append [OF assms(1) this] show ?thesis
    using Append by (auto simp: queue_step_def list_step_def)
next
  case (Append_n bs)
  then have "distinct bs" "set bs \<inter> set (Head # xs @ [Tail]) = {}"
    using assms(2) by (auto simp: legal_op_def is_real_iff list_all_iff)
  from queue_inv_append_n [OF assms(1) this] show ?thesis
    using Append_n by (auto simp: queue_step_def list_step_def)
qed

lemma queue_run_refines:
  assumes "queue_inv q xs" and "legal_run ops xs"
  shows "case rmap list_step ops xs of
      Inl e \<Rightarrow> rmap queue_step ops q = Inl e
    | Inr (outs, ys) \<Rightarrow> \<exists>q'. rmap queue_step ops q = Inr (outs, q') \<and> queue_inv q' ys"
  using assms
proof (induction ops arbitrary: q xs)
  case (Cons op ops)
  have legal: "legal_op op xs" using Cons.prems(2) by simp
  show ?case
  proof (cases "list_step op xs")
    case (Inl e)
    then show ?thesis using queue_step_refines [OF Cons.prems(1) legal] by simp
  next
    case (Inr r)
    obtain out ys where r: "list_step op xs = Inr (out, ys)" using Inr by (cases r) simp
    then obtain q' where q': "queue_step op q = Inr (out, q')" "queue_inv q' ys"
      using queue_step_refines [OF Cons.prems(1) legal] by auto
    have "legal_run ops ys" using Cons.prems(2) r by simp
    from Cons.IH [OF q'(2) this] show ?thesis
      using r q'(1) by (auto split: sum.splits prod.splits)
  qed
qed auto

text \<open>C33.
  The free queue refines a list of blocks: for every sequence of calls in which a block is put back
  only when it is not in the queue, the linked queue returns the same blocks in the same order and
  raises the same exception at the same call as the list, and at the end walking the links gives
  the list and the counter its length.
\<close>

theorem free_queue_refines_list:
  assumes "distinct blocks" and "list_all is_real blocks" and "\<And>b. unlinked h b" and "legal_run ops blocks"
  shows "case rmap list_step ops blocks of
      Inl e \<Rightarrow> rmap queue_step ops (FreeKVCacheBlockQueue blocks h) = Inl e
    | Inr (outs, xs) \<Rightarrow> \<exists>q. rmap queue_step ops (FreeKVCacheBlockQueue blocks h) = Inr (outs, q) \<and>
        get_all_free_blocks q = Some (Inr xs) \<and> num_free_blocks q = py_len xs"
proof -
  have "set blocks \<inter> {Head, Tail} = {}" using assms(2) by (auto simp: list_all_iff is_real_iff)
  from queue_run_refines [OF queue_inv_init(1) [OF assms(1) this assms(3)] assms(4)] show ?thesis
    by (auto simp: get_all_free_blocks_inv queue_inv_num split: sum.splits prod.splits)
qed

theorem free_queue_refines_list_witness:
  "\<exists>q. rmap queue_step [Popleft, Remove (Blk 3), Append (Blk 1), Popleft_n 2]
      (FreeKVCacheBlockQueue [Blk 1, Blk 2, Blk 3, Blk 4] (\<lambda>_. KVCacheBlock 0)) =
      Inr ([[Blk 1], [], [], [Blk 2, Blk 4]], q) \<and>
    get_all_free_blocks q = Some (Inr [Blk 1]) \<and> num_free_blocks q = py_len [Blk 1]"
proof -
  let ?ops = "[Popleft, Remove (Blk 3), Append (Blk 1), Popleft_n 2]"
    and ?blocks = "[Blk 1, Blk 2, Blk 3, Blk 4]"
  have run: "rmap list_step ?ops ?blocks = Inr ([[Blk 1], [], [], [Blk 2, Blk 4]], [Blk 1])"
    by (simp add: list_step_def py_len_def)
  have legal: "legal_run ?ops ?blocks" by (simp add: list_step_def legal_op_def is_real_def)
  have fresh: "unlinked (\<lambda>_. KVCacheBlock 0) b" for b by (simp add: unlinked_def KVCacheBlock_def)
  have "distinct ?blocks" "list_all is_real ?blocks" by (simp_all add: is_real_def)
  from free_queue_refines_list [OF this fresh legal, unfolded run] show ?thesis by simp
qed

section \<open>Keys and coarse hashes\<close>

text \<open>
  A block hash and a group id can be read back from their key, and only they make this key; a group
  id that does not fit in four bytes raises.
\<close>

theorem hash_key_round_trip:
  "if 0 \<le> g \<and> g < 2 ^ 32
   then \<exists>key. make_block_hash_with_group_id h g = Inr key \<and> get_block_hash key = h \<and> get_group_id key = g \<and>
     {(h', g'). make_block_hash_with_group_id h' g' = Inr key} = {(h, g)}
   else make_block_hash_with_group_id h g = Inl OverflowError"
proof (cases "0 \<le> g \<and> g < 2 ^ 32")
  case True
  then obtain key where key: "make_block_hash_with_group_id h g = Inr key" using make_key_ok by blast
  then have "{(h', g'). make_block_hash_with_group_id h' g' = Inr key} = {(h, g)}"
    using make_key_inj by blast
  with True key make_key_components [OF key] show ?thesis by simp
next
  case False
  then have "to_bytes4 g = Inl OverflowError" by (auto simp: to_bytes4_def)
  then show ?thesis using False by (simp add: make_block_hash_with_group_id_def)
qed

text \<open>The coarse view of a list of block hashes: with a block size that is a multiple \<open>k\<close> of the hash
  block size it has one entry for every \<open>k\<close> full hashes, their concatenation, whether it is read by
  index or from a start; a block size that is not a multiple is refused.
\<close>

theorem coarse_hashes_concatenate:
  assumes "0 < hash_block_size" and "hash_block_size \<le> target" and "0 \<le> n"
  shows "case block_hash_list_with_block_size hs hash_block_size target of
      Inl e \<Rightarrow> e = AssertionError \<and> target mod hash_block_size \<noteq> 0
    | Inr l \<Rightarrow> let k = nat (target div hash_block_size);
          vs = map (\<lambda>i. concat (take k (drop (i * k) hs))) [0..<length hs div k]
        in target mod hash_block_size = 0 \<and> bhl_len l = py_len vs \<and> bhl_from l n = Inr (drop (nat n) vs) \<and>
          map (bhl_get l) [0..bhl_len l - 1] = map Inr vs"
proof (cases "target mod hash_block_size = 0")
  case True
  define k where "k = target div hash_block_size"
  have k: "0 < k" using assms(1,2) by (simp add: k_def pos_imp_zdiv_pos_iff)
  let ?l = "Scaled hs k"
  let ?vs = "map (\<lambda>i. concat (take (nat k) (drop (i * nat k) hs))) [0..<length hs div nat k]"
  have ok: "bhl_ok ?l" using k by (simp add: bhl_ok_def)
  have len: "scaled_len hs k = int (length hs div nat k)"
    using k by (simp add: scaled_len_def py_len_def zdiv_int)
  have "[0..int m - 1] = map int [0..<m]" for m
    by (induction m) (simp_all add: upto_rec2)
  then have vs: "bhl_values ?l = ?vs"
    using k by (simp add: bhl_values_def len nat_mult_distrib comp_def)
  have "map (bhl_get ?l) [0..bhl_len ?l - 1] = map Inr (bhl_values ?l)"
    using bhl_get_values [OF ok] bhl_len_values [OF ok]
    by (intro nth_equalityI) (simp_all add: py_len_def)
  then show ?thesis
    using True bhl_len_values [OF ok] bhl_from_values [OF ok assms(3)]
    by (simp add: block_hash_list_with_block_size_def Let_def vs flip: k_def)
next
  case False
  then show ?thesis by (simp add: block_hash_list_with_block_size_def)
qed

theorem coarse_hashes_concatenate_witness:
  "\<exists>l. block_hash_list_with_block_size [[1], [2], [3], [4], [5]] 16 32 = Inr l \<and>
     bhl_from l 1 = Inr [[3, 4]]"
  using coarse_hashes_concatenate [of 16 32 1 "[[1], [2], [3], [4], [5]]"]
  by (auto simp: block_hash_list_with_block_size_def Let_def upt_rec)

end
