(* ===== verification/Encoder_Cache.thy ===== *)
theory Encoder_Cache
  imports Request_Hash "HOL-Library.AList"
begin

text \<open>
  \<^verbatim>\<open>vllm/v1/core/encoder_cache_manager.py\<close>: which outputs of the encoders of multi-modal
  inputs are kept, by the hash of the input.  Sizes count embeddings.  The sets of request ids are
  sets; the ordered dictionary of unreferenced entries is an association list, oldest first.
\<close>

section \<open>The manager\<close>

type_synonym mm_hash = "string option"

record encoder_cache =
  cache_size :: int
  num_free_slots :: int
  num_freeable_slots :: int
  cached :: "(mm_hash \<times> string set) list"
  freeable :: "(mm_hash \<times> int) list"
  freed :: "mm_hash list"

definition EncoderCacheManager :: "int \<Rightarrow> encoder_cache" where
  "EncoderCacheManager n = \<lparr>cache_size = n, num_free_slots = n, num_freeable_slots = n, cached = [],
     freeable = [], freed = []\<rparr>"

definition ecm_reset :: "encoder_cache \<Rightarrow> encoder_cache" where
  "ecm_reset m = m\<lparr>cached := [], freeable := [], freed := [], num_free_slots := cache_size m,
     num_freeable_slots := cache_size m\<rparr>"

definition check_and_update_cache :: "request \<Rightarrow> int \<Rightarrow> encoder_cache \<Rightarrow> (bool \<times> encoder_cache) res" where
  "check_and_update_cache r input_id m =
     rbind (py_get (mm_features r) input_id) (\<lambda>f.
       let h = mm_identifier f in
       (case map_of (cached m) h of
          None \<Rightarrow> Inr (False, m)
        | Some ids \<Rightarrow>
            rbind (if ids = {}
                   then (case map_of (freeable m) h of
                           None \<Rightarrow> Inl KeyError
                         | Some n \<Rightarrow> Inr (m\<lparr>freeable := AList.delete h (freeable m),
                             num_freeable_slots := num_freeable_slots m - n\<rparr>))
                   else Inr m) (\<lambda>m1.
            Inr (True, m1\<lparr>cached := AList.update h (insert (request_id r) ids) (cached m1)\<rparr>))))"

text \<open>The eviction loop of \<open>can_allocate\<close>, oldest entry first.\<close>

function evict_until :: "int \<Rightarrow> encoder_cache \<Rightarrow> encoder_cache res" where
  "evict_until num_embeds m =
     (if num_embeds > num_free_slots m then
        (case freeable m of
           [] \<Rightarrow> Inl KeyError
         | (h, num_free_embeds) # rest \<Rightarrow>
             (case map_of (cached m) h of
                None \<Rightarrow> Inl KeyError
              | Some _ \<Rightarrow> evict_until num_embeds (m\<lparr>freeable := rest, cached := AList.delete h (cached m),
                  freed := freed m @ [h], num_free_slots := num_free_slots m + num_free_embeds\<rparr>)))
      else Inr m)"
  by pat_completeness auto
termination by (relation "measure (\<lambda>(_, m). length (freeable m))") auto

declare evict_until.simps [simp del]

definition can_allocate :: "request \<Rightarrow> int \<Rightarrow> int \<Rightarrow> int \<Rightarrow> encoder_cache \<Rightarrow> (bool \<times> encoder_cache) res" where
  "can_allocate r input_id encoder_compute_budget num_embeds_to_schedule m =
     rbind (get_num_encoder_embeds r input_id) (\<lambda>n.
       if n > encoder_compute_budget then Inr (False, m)
       else let num_embeds = n + num_embeds_to_schedule in
         if num_embeds \<le> num_free_slots m then Inr (True, m)
         else if num_embeds > num_freeable_slots m then Inr (False, m)
         else rbind (evict_until num_embeds m) (\<lambda>m'. Inr (True, m')))"

definition allocate :: "request \<Rightarrow> int \<Rightarrow> encoder_cache \<Rightarrow> encoder_cache res" where
  "allocate r input_id m =
     rbind (py_get (mm_features r) input_id) (\<lambda>f.
       let h = mm_identifier f;
           ids = (case map_of (cached m) h of None \<Rightarrow> {} | Some ids \<Rightarrow> ids) in
       rbind (get_num_encoder_embeds r input_id) (\<lambda>n.
       rbind (py_assert (num_free_slots m \<ge> n)) (\<lambda>_.
       rbind (py_assert (num_freeable_slots m \<ge> n)) (\<lambda>_.
       Inr (m\<lparr>cached := AList.update h (insert (request_id r) ids) (cached m),
              num_free_slots := num_free_slots m - n,
              num_freeable_slots := num_freeable_slots m - n\<rparr>)))))"

text \<open>The set of ids is iterated in ascending order, as CPython does for a set of small integers.\<close>

definition get_cached_input_ids :: "request \<Rightarrow> encoder_cache \<Rightarrow> int list" where
  "get_cached_input_ids r m =
     filter (\<lambda>i. map_of (cached m) (mm_identifier (mm_features r ! nat i)) \<noteq> None)
       (map int [0..<length (mm_features r)])"

definition free_encoder_input :: "request \<Rightarrow> int \<Rightarrow> encoder_cache \<Rightarrow> encoder_cache res" where
  "free_encoder_input r input_id m =
     rbind (py_get (mm_features r) input_id) (\<lambda>f.
       let h = mm_identifier f in
       (case map_of (cached m) h of
          None \<Rightarrow> Inr m
        | Some ids \<Rightarrow>
            if ids = {} then Inr m
            else let ids' = ids - {request_id r};
                     m1 = m\<lparr>cached := AList.update h ids' (cached m)\<rparr> in
              if ids' = {}
              then rbind (get_num_encoder_embeds r input_id) (\<lambda>n.
                Inr (m1\<lparr>freeable := AList.update h n (freeable m1),
                  num_freeable_slots := num_freeable_slots m1 + n\<rparr>))
              else Inr m1))"

definition ecm_free :: "request \<Rightarrow> encoder_cache \<Rightarrow> encoder_cache res" where
  "ecm_free r m = rfold (free_encoder_input r) (get_cached_input_ids r m) m"

definition get_freed_mm_hashes :: "encoder_cache \<Rightarrow> mm_hash list \<times> encoder_cache" where
  "get_freed_mm_hashes m = (freed m, m\<lparr>freed := []\<rparr>)"

text \<open>\<open>compute_mm_encoder_budget\<close>; the mapping as the list of its values.\<close>

definition compute_mm_encoder_budget ::
    "bool \<Rightarrow> int \<Rightarrow> int \<Rightarrow> int \<Rightarrow> int list \<Rightarrow> (int \<times> int) res" where
  "compute_mm_encoder_budget disable_chunked_mm_input max_num_batched_tokens max_num_encoder_input_tokens
      encoder_cache_size mm_max_toks_per_item =
     (if mm_max_toks_per_item = [] then Inr (0, 0)
      else let max_tokens_per_mm_item = Max (set mm_max_toks_per_item) in
        if disable_chunked_mm_input \<and> max_tokens_per_mm_item > max_num_batched_tokens then Inl ValueError
        else Inr (max max_num_encoder_input_tokens max_tokens_per_mm_item,
                  max encoder_cache_size max_tokens_per_mm_item))"

section \<open>The manager of encoder-decoder models\<close>

record encdec_cache =
  ed_cache_size :: int
  ed_num_free_slots :: int
  allocated :: "mm_hash list"
  to_free :: "mm_hash list"

definition EncoderDecoderCacheManager :: "int \<Rightarrow> encdec_cache" where
  "EncoderDecoderCacheManager n = \<lparr>ed_cache_size = n, ed_num_free_slots = n, allocated = [], to_free = []\<rparr>"

definition ed_reset :: "encdec_cache \<Rightarrow> encdec_cache" where
  "ed_reset m = m\<lparr>ed_num_free_slots := ed_cache_size m, allocated := [], to_free := []\<rparr>"

definition ed_check_and_update_cache :: "request \<Rightarrow> int \<Rightarrow> encdec_cache \<Rightarrow> bool" where
  "ed_check_and_update_cache r input_id m = False"

definition ed_can_allocate :: "request \<Rightarrow> int \<Rightarrow> int \<Rightarrow> int \<Rightarrow> encdec_cache \<Rightarrow> bool res" where
  "ed_can_allocate r input_id encoder_compute_budget num_embeds_to_schedule m =
     rbind (get_num_encoder_embeds r input_id) (\<lambda>n.
       if n > encoder_compute_budget then Inr False
       else Inr (n + num_embeds_to_schedule \<le> ed_num_free_slots m))"

definition ed_allocate :: "request \<Rightarrow> int \<Rightarrow> encdec_cache \<Rightarrow> encdec_cache res" where
  "ed_allocate r input_id m =
     rbind (get_num_encoder_embeds r input_id) (\<lambda>n.
     rbind (py_get (mm_features r) input_id) (\<lambda>f.
     Inr (m\<lparr>ed_num_free_slots := ed_num_free_slots m - n, allocated := allocated m @ [mm_identifier f]\<rparr>)))"

definition ed_free_encoder_input :: "request \<Rightarrow> int \<Rightarrow> encdec_cache \<Rightarrow> encdec_cache res" where
  "ed_free_encoder_input r input_id m =
     rbind (get_num_encoder_embeds r input_id) (\<lambda>n. Inr (m\<lparr>ed_num_free_slots := ed_num_free_slots m + n\<rparr>))"

definition ed_free :: "request \<Rightarrow> encdec_cache \<Rightarrow> encdec_cache res" where
  "ed_free r m = rfold (ed_free_encoder_input r) (map int [0..<length (mm_features r)]) m"

definition ed_get_cached_input_ids :: "request \<Rightarrow> encdec_cache \<Rightarrow> int list" where
  "ed_get_cached_input_ids r m = map int [0..<length (mm_features r)]"

definition ed_get_freed_mm_hashes :: "encdec_cache \<Rightarrow> mm_hash list \<times> encdec_cache" where
  "ed_get_freed_mm_hashes m = (to_free m, m\<lparr>to_free := allocated m, allocated := []\<rparr>)"

end
