(* ===== verification/Encoder_Cache_Facts.thy ===== *)
theory Encoder_Cache_Facts
  imports Encoder_Cache
begin

text \<open>
  The accounting of the encoder cache: the slots that are free, those of unreferenced entries and
  those in use add up to the size of the cache through all operations, no operation raises, and a
  reservation that succeeded can be allocated.
\<close>

section \<open>Sizes of the entries\<close>

definition used :: "(mm_hash \<Rightarrow> int) \<Rightarrow> (mm_hash \<times> 'a) list \<Rightarrow> int" where
  "used sz al = sum sz (dom (map_of al))"

lemma used_simps:
  "used sz [] = 0"
  "map_of al h = None \<Longrightarrow> used sz (AList.update h v al) = used sz al + sz h"
  "map_of al h = Some w \<Longrightarrow> used sz (AList.update h v al) = used sz al"
  "map_of al h = Some w \<Longrightarrow> used sz (AList.delete h al) = used sz al - sz h"
proof -
  have fin: "finite (dom (map_of al))" by (rule finite_dom_map_of)
  show "used sz [] = 0" by (simp add: used_def)
  show "map_of al h = None \<Longrightarrow> used sz (AList.update h v al) = used sz al + sz h"
    using fin by (simp add: used_def update_conv' domIff)
  show "map_of al h = Some w \<Longrightarrow> used sz (AList.update h v al) = used sz al"
    by (simp add: used_def update_conv' insert_absorb domI)
  show "map_of al h = Some w \<Longrightarrow> used sz (AList.delete h al) = used sz al - sz h"
    using fin by (simp add: used_def delete_conv' sum_diff1 domI)
qed

lemma used_nonneg: "(\<And>h. 0 \<le> sz h) \<Longrightarrow> 0 \<le> used sz al"
  by (simp add: used_def sum_nonneg)

text \<open>The entries that no request refers to.\<close>

definition unreferenced :: "encoder_cache \<Rightarrow> mm_hash set" where
  "unreferenced m = {h. map_of (cached m) h = Some {}}"

definition ecm_inv :: "(mm_hash \<Rightarrow> int) \<Rightarrow> encoder_cache \<Rightarrow> bool" where
  "ecm_inv sz m \<longleftrightarrow> distinct (map fst (freeable m)) \<and>
     (\<forall>h n. map_of (freeable m) h = Some n \<longleftrightarrow> h \<in> unreferenced m \<and> n = sz h) \<and>
     num_free_slots m = cache_size m - used sz (cached m) \<and>
     num_freeable_slots m = num_free_slots m + used sz (freeable m) \<and> 0 \<le> num_free_slots m"

text \<open>The inputs of a request have the size that belongs to their hash.\<close>

definition sized :: "(mm_hash \<Rightarrow> int) \<Rightarrow> request \<Rightarrow> bool" where
  "sized sz r \<longleftrightarrow> list_all (\<lambda>f. get_num_embeds f = Inr (sz (mm_identifier f))) (mm_features r)"

definition input_hash :: "request \<Rightarrow> int \<Rightarrow> mm_hash" where
  "input_hash r i = mm_identifier (mm_features r ! nat i)"

definition valid_input :: "request \<Rightarrow> int \<Rightarrow> bool" where
  "valid_input r i \<longleftrightarrow> 0 \<le> i \<and> i < py_len (mm_features r)"

lemma valid_input_get:
  assumes "valid_input r i"
  shows "py_get (mm_features r) i = Inr (mm_features r ! nat i)"
  using assms by (simp add: valid_input_def py_get_nat)

lemma valid_input_size:
  assumes "valid_input r i" and "sized sz r"
  shows "get_num_encoder_embeds r i = Inr (sz (input_hash r i))"
proof -
  have "mm_features r ! nat i \<in> set (mm_features r)"
    using assms(1) by (simp add: valid_input_def py_len_def nat_less_iff)
  then have "get_num_embeds (mm_features r ! nat i) = Inr (sz (input_hash r i))"
    using assms(2) by (simp add: sized_def list_all_iff input_hash_def)
  then show ?thesis
    using assms(1) by (simp add: get_num_encoder_embeds_def valid_input_get) (simp add: valid_input_def)
qed

section \<open>The operations keep the accounts\<close>

lemma init_inv: "0 \<le> n \<Longrightarrow> ecm_inv sz (EncoderCacheManager n)"
  by (simp add: ecm_inv_def EncoderCacheManager_def used_simps unreferenced_def)

lemma reset_inv: "0 \<le> cache_size m \<Longrightarrow> ecm_inv sz (ecm_reset m)"
  by (simp add: ecm_inv_def ecm_reset_def used_simps unreferenced_def)

lemma drain_inv: "ecm_inv sz (snd (get_freed_mm_hashes m)) = ecm_inv sz m"
  by (simp add: ecm_inv_def get_freed_mm_hashes_def unreferenced_def)

lemma lookup_inv:
  assumes "ecm_inv sz m" and "valid_input r i"
  shows "case map_of (cached m) (input_hash r i) of
      None \<Rightarrow> check_and_update_cache r i m = Inr (False, m)
    | Some ids \<Rightarrow> \<exists>m'. check_and_update_cache r i m = Inr (True, m') \<and> ecm_inv sz m' \<and>
        num_free_slots m' = num_free_slots m \<and> cache_size m' = cache_size m \<and> freed m' = freed m \<and>
        map_of (cached m') = (map_of (cached m))(input_hash r i \<mapsto> insert (request_id r) ids)"
proof (cases "map_of (cached m) (input_hash r i)")
  case None
  then show ?thesis
    using valid_input_get [OF assms(2)] by (simp add: check_and_update_cache_def input_hash_def Let_def)
next
  case (Some ids)
  let ?h = "input_hash r i"
  have h: "mm_identifier (mm_features r ! nat i) = ?h" by (simp add: input_hash_def)
  show ?thesis
  proof (cases "ids = {}")
    case True
    then have f: "map_of (freeable m) ?h = Some (sz ?h)"
      using assms(1) Some by (simp add: ecm_inv_def unreferenced_def)
    let ?m = "m\<lparr>freeable := AList.delete ?h (freeable m), num_freeable_slots := num_freeable_slots m - sz ?h,
      cached := AList.update ?h {request_id r} (cached m)\<rparr>"
    have "check_and_update_cache r i m = Inr (True, ?m)"
      using Some True f valid_input_get [OF assms(2)] by (simp add: check_and_update_cache_def h Let_def)
    moreover have "ecm_inv sz ?m"
      using assms(1) Some f
      by (auto simp: ecm_inv_def used_simps unreferenced_def delete_conv' update_conv' distinct_delete
          split: if_splits)
    ultimately show ?thesis using Some True by (auto simp: update_conv')
  next
    case False
    let ?m = "m\<lparr>cached := AList.update ?h (insert (request_id r) ids) (cached m)\<rparr>"
    have "check_and_update_cache r i m = Inr (True, ?m)"
      using Some False valid_input_get [OF assms(2)] by (simp add: check_and_update_cache_def h Let_def)
    moreover have "ecm_inv sz ?m"
      using assms(1) Some False by (auto simp: ecm_inv_def used_simps unreferenced_def update_conv')
    ultimately show ?thesis using Some by (auto simp: update_conv')
  qed
qed


text \<open>
  Eviction takes the oldest unreferenced entries, no more than needed: the slots before the last
  evicted entry were not enough.
\<close>

definition oldest :: "nat \<Rightarrow> encoder_cache \<Rightarrow> int" where
  "oldest k m = sum_list (map snd (take k (freeable m)))"

lemma evict_until_spec:
  assumes "ecm_inv sz m" and "\<And>h. 0 \<le> sz h" and "num_embeds \<le> num_freeable_slots m"
  shows "\<exists>m' k. evict_until num_embeds m = Inr m' \<and> ecm_inv sz m' \<and> num_embeds \<le> num_free_slots m' \<and>
    k \<le> length (freeable m) \<and> freeable m' = drop k (freeable m) \<and>
    freed m' = freed m @ map fst (take k (freeable m)) \<and>
    map_of (cached m') = map_of (cached m) |` (- set (map fst (take k (freeable m)))) \<and>
    (k = 0 \<or> num_free_slots m + oldest (k - 1) m < num_embeds) \<and>
    num_freeable_slots m' = num_freeable_slots m \<and> cache_size m' = cache_size m"
  using assms(1,3)
proof (induction num_embeds m rule: evict_until.induct)
  case (1 num_embeds m)
  note inv = "1.prems"(1)
  show ?case
  proof (cases "num_embeds > num_free_slots m")
    case False
    then show ?thesis
      using inv by (intro exI [of _ m] exI [of _ 0]) (simp add: evict_until.simps [of num_embeds m])
  next
    case True
    then have "used sz (freeable m) > 0" using inv "1.prems"(2) by (simp add: ecm_inv_def)
    then obtain h n rest where f: "freeable m = (h, n) # rest" by (cases "freeable m") (auto simp: used_def)
    have "map_of (freeable m) h = Some n" by (simp add: f)
    then have hn: "map_of (cached m) h = Some {}" "n = sz h" "map_of rest h = None"
      using inv by (simp_all add: ecm_inv_def unreferenced_def) (simp add: f map_of_eq_None_iff)
    let ?m = "m\<lparr>freeable := rest, cached := AList.delete h (cached m), freed := freed m @ [h],
      num_free_slots := num_free_slots m + n\<rparr>"
    have step: "evict_until num_embeds m = evict_until num_embeds ?m"
      using True f hn(1) by (simp add: evict_until.simps [of num_embeds m])
    have rest: "map_of rest x = Some y \<longleftrightarrow> x \<noteq> h \<and> map_of (freeable m) x = Some y" for x y
      using hn(3) by (auto simp: f)
    have "dom (map_of (freeable m)) = insert h (dom (map_of rest))" by (simp add: f)
    moreover have "h \<notin> dom (map_of rest)" using hn(3) by auto
    ultimately have used: "used sz (freeable m) = sz h + used sz rest"
      by (simp add: used_def finite_dom_map_of)
    have inv1: "ecm_inv sz ?m"
      using inv hn used assms(2) [of h]
      by (auto simp: ecm_inv_def unreferenced_def delete_conv' used_simps rest f)
    have total: "num_freeable_slots ?m = num_freeable_slots m" by simp
    from "1.IH" [OF True f refl hn(1) inv1] "1.prems"(2) obtain m' k where IH:
      "evict_until num_embeds ?m = Inr m'" "ecm_inv sz m'" "num_embeds \<le> num_free_slots m'"
      "k \<le> length rest" "freeable m' = drop k rest"
      "freed m' = (freed m @ [h]) @ map fst (take k rest)"
      "map_of (cached m') = map_of (AList.delete h (cached m)) |` (- set (map fst (take k rest)))"
      "k = 0 \<or> num_free_slots m + n + oldest (k - 1) ?m < num_embeds"
      "num_freeable_slots m' = num_freeable_slots m" "cache_size m' = cache_size m"
      by auto
    have "map_of (cached m') = map_of (cached m) |` (- set (map fst (take (Suc k) (freeable m))))"
      by (simp add: IH(7) f delete_conv' restrict_map_def fun_eq_iff)
    moreover have "num_free_slots m + oldest k m < num_embeds"
      using IH(8) True by (cases k) (simp_all add: oldest_def f)
    ultimately show ?thesis
      using IH by (intro exI [of _ m'] exI [of _ "Suc k"]) (simp add: step f)
  qed
qed


lemma can_allocate_spec:
  assumes "ecm_inv sz m" and "\<And>h. 0 \<le> sz h" and "valid_input r i" and "sized sz r"
  shows "if sz (input_hash r i) \<le> budget \<and> sz (input_hash r i) + sched \<le> num_freeable_slots m
    then \<exists>m' k. can_allocate r i budget sched m = Inr (True, m') \<and> ecm_inv sz m' \<and>
      sz (input_hash r i) + sched \<le> num_free_slots m' \<and>
      k \<le> length (freeable m) \<and> freeable m' = drop k (freeable m) \<and>
      freed m' = freed m @ map fst (take k (freeable m)) \<and>
      map_of (cached m') = map_of (cached m) |` (- set (map fst (take k (freeable m)))) \<and>
      (k = 0 \<or> num_free_slots m + oldest (k - 1) m < sz (input_hash r i) + sched) \<and>
      num_freeable_slots m' = num_freeable_slots m \<and> cache_size m' = cache_size m
    else can_allocate r i budget sched m = Inr (False, m)"
proof -
  let ?n = "sz (input_hash r i)"
  note size = valid_input_size [OF assms(3,4)]
  have le: "num_free_slots m \<le> num_freeable_slots m"
    using assms(1) assms(2) used_nonneg [of sz "freeable m"] by (simp add: ecm_inv_def)
  show ?thesis
  proof (cases "?n \<le> budget \<and> ?n + sched \<le> num_freeable_slots m")
    case True
    show ?thesis
    proof (cases "?n + sched \<le> num_free_slots m")
      case fits: True
      then have "can_allocate r i budget sched m = Inr (True, m)"
        using True by (simp add: can_allocate_def size Let_def)
      then show ?thesis
        unfolding if_P [OF True] by (intro exI [of _ m] exI [of _ 0]) (use fits assms(1) in \<open>simp add: restrict_map_def\<close>)
    next
      case False
      from evict_until_spec [OF assms(1,2)] True obtain m' k where m': "evict_until (?n + sched) m = Inr m'"
        "ecm_inv sz m'" "?n + sched \<le> num_free_slots m'" "k \<le> length (freeable m)" "freeable m' = drop k (freeable m)"
        "freed m' = freed m @ map fst (take k (freeable m))"
        "map_of (cached m') = map_of (cached m) |` (- set (map fst (take k (freeable m))))"
        "k = 0 \<or> num_free_slots m + oldest (k - 1) m < ?n + sched"
        "num_freeable_slots m' = num_freeable_slots m" "cache_size m' = cache_size m" by blast
      have "can_allocate r i budget sched m = Inr (True, m')"
        using True False m'(1) by (simp add: can_allocate_def size Let_def)
      then show ?thesis
        unfolding if_P [OF True] by (intro exI [of _ m'] exI [of _ k]) (use m' in simp)
    qed
  next
    case False
    then show ?thesis using le by (auto simp: can_allocate_def size Let_def)
  qed
qed

lemma allocate_spec:
  assumes "ecm_inv sz m" and "\<And>h. 0 \<le> sz h" and "valid_input r i" and "sized sz r"
    and "map_of (cached m) (input_hash r i) = None" and "sz (input_hash r i) \<le> num_free_slots m"
  shows "\<exists>m'. allocate r i m = Inr m' \<and> ecm_inv sz m' \<and>
    map_of (cached m') = (map_of (cached m))(input_hash r i \<mapsto> {request_id r}) \<and>
    num_free_slots m' = num_free_slots m - sz (input_hash r i) \<and> cache_size m' = cache_size m \<and>
    freed m' = freed m \<and> freeable m' = freeable m"
proof -
  let ?h = "input_hash r i"
  let ?m = "m\<lparr>cached := AList.update ?h {request_id r} (cached m), num_free_slots := num_free_slots m - sz ?h,
    num_freeable_slots := num_freeable_slots m - sz ?h\<rparr>"
  have h: "mm_identifier (mm_features r ! nat i) = ?h" by (simp add: input_hash_def)
  have "sz ?h \<le> num_freeable_slots m"
    using assms(1,6) assms(2) used_nonneg [of sz "freeable m"] by (simp add: ecm_inv_def)
  then have "allocate r i m = Inr ?m"
    using assms(5,6) valid_input_get [OF assms(3)] valid_input_size [OF assms(3,4)]
    by (simp add: allocate_def h Let_def)
  moreover have "ecm_inv sz ?m"
    using assms(1,5,6) by (auto simp: ecm_inv_def used_simps unreferenced_def update_conv')
  ultimately show ?thesis by (auto simp: update_conv')
qed

lemma free_input_inv:
  assumes "ecm_inv sz m" and "\<And>h. 0 \<le> sz h" and "valid_input r i" and "sized sz r"
  shows "\<exists>m'. free_encoder_input r i m = Inr m' \<and> ecm_inv sz m' \<and>
    map_of (cached m') = (\<lambda>h. if h = input_hash r i then map_option (\<lambda>ids. ids - {request_id r}) (map_of (cached m) h)
      else map_of (cached m) h) \<and>
    num_free_slots m' = num_free_slots m \<and> cache_size m' = cache_size m \<and> freed m' = freed m"
proof -
  let ?h = "input_hash r i"
  have h: "mm_identifier (mm_features r ! nat i) = ?h" by (simp add: input_hash_def)
  note get = valid_input_get [OF assms(3)] valid_input_size [OF assms(3,4)]
  show ?thesis
  proof (cases "map_of (cached m) ?h = None \<or> map_of (cached m) ?h = Some {}")
    case True
    then have "free_encoder_input r i m = Inr m" using get by (auto simp: free_encoder_input_def h Let_def)
    moreover have "map_of (cached m) =
        (\<lambda>h. if h = ?h then map_option (\<lambda>ids. ids - {request_id r}) (map_of (cached m) h) else map_of (cached m) h)"
      using True by (auto simp: fun_eq_iff)
    ultimately show ?thesis using assms(1) by simp
  next
    case False
    then obtain ids where ids: "map_of (cached m) ?h = Some ids" "ids \<noteq> {}" by auto
    have nf: "map_of (freeable m) ?h = None"
    proof (rule ccontr)
      assume "map_of (freeable m) ?h \<noteq> None"
      then obtain n where "map_of (freeable m) ?h = Some n" by auto
      then have "?h \<in> unreferenced m" using assms(1) unfolding ecm_inv_def by blast
      with ids show False by (simp add: unreferenced_def)
    qed
    let ?ids = "ids - {request_id r}"
    let ?m = "m\<lparr>cached := AList.update ?h ?ids (cached m)\<rparr>"
    show ?thesis
    proof (cases "?ids = {}")
      case True
      let ?m' = "?m\<lparr>freeable := AList.update ?h (sz ?h) (freeable m), num_freeable_slots := num_freeable_slots m + sz ?h\<rparr>"
      have "free_encoder_input r i m = Inr ?m'"
        using ids get True by (simp add: free_encoder_input_def h Let_def)
      moreover have "ecm_inv sz ?m'"
        using assms(1) ids nf True
        by (auto simp: ecm_inv_def used_simps unreferenced_def update_conv' distinct_update)
      ultimately show ?thesis using ids by (auto simp: update_conv' fun_eq_iff)
    next
      case False
      have "free_encoder_input r i m = Inr ?m"
        using ids get False by (simp add: free_encoder_input_def h Let_def)
      moreover have "ecm_inv sz ?m"
        using assms(1) ids nf False by (auto simp: ecm_inv_def used_simps unreferenced_def update_conv')
      ultimately show ?thesis using ids by (auto simp: update_conv' fun_eq_iff)
    qed
  qed
qed


lemma free_loop:
  assumes "\<And>h. 0 \<le> sz h" and "sized sz r" and "\<forall>i \<in> set is. valid_input r i" and "ecm_inv sz m"
  shows "\<exists>m'. rfold (free_encoder_input r) is m = Inr m' \<and> ecm_inv sz m' \<and>
    map_of (cached m') = (\<lambda>h. if h \<in> input_hash r ` set is then map_option (\<lambda>ids. ids - {request_id r}) (map_of (cached m) h)
      else map_of (cached m) h) \<and>
    num_free_slots m' = num_free_slots m \<and> cache_size m' = cache_size m \<and> freed m' = freed m"
  using assms(3,4)
proof (induction "is" arbitrary: m)
  case (Cons i "is")
  have "valid_input r i" using Cons.prems(1) by simp
  from free_input_inv [OF Cons.prems(2) assms(1) this assms(2)] obtain m1 where m1: "free_encoder_input r i m = Inr m1"
    "ecm_inv sz m1" "map_of (cached m1) = (\<lambda>h. if h = input_hash r i
      then map_option (\<lambda>ids. ids - {request_id r}) (map_of (cached m) h) else map_of (cached m) h)"
    "num_free_slots m1 = num_free_slots m" "cache_size m1 = cache_size m" "freed m1 = freed m" by blast
  obtain m' where m': "rfold (free_encoder_input r) is m1 = Inr m'" "ecm_inv sz m'"
    "map_of (cached m') = (\<lambda>h. if h \<in> input_hash r ` set is then map_option (\<lambda>ids. ids - {request_id r}) (map_of (cached m1) h)
      else map_of (cached m1) h)"
    "num_free_slots m' = num_free_slots m1" "cache_size m' = cache_size m1" "freed m' = freed m1"
    using Cons.IH [OF _ m1(2)] Cons.prems(1) by auto
  have "map_of (cached m') = (\<lambda>h. if h \<in> input_hash r ` set (i # is)
      then map_option (\<lambda>ids. ids - {request_id r}) (map_of (cached m) h) else map_of (cached m) h)"
    unfolding m'(3) m1(3) by (auto simp: fun_eq_iff option.map_comp comp_def option.map_id)
  with m1 m' show ?case by simp
qed simp

lemma ecm_free_inv:
  assumes "\<And>h. 0 \<le> sz h" and "sized sz r" and "ecm_inv sz m"
  shows "\<exists>m'. ecm_free r m = Inr m' \<and> ecm_inv sz m' \<and>
    num_free_slots m' = num_free_slots m \<and> cache_size m' = cache_size m \<and> freed m' = freed m \<and>
    (\<forall>f \<in> set (mm_features r). case map_of (cached m') (mm_identifier f) of
       None \<Rightarrow> True | Some ids \<Rightarrow> request_id r \<notin> ids)"
proof -
  let ?is = "get_cached_input_ids r m"
  have valid: "\<forall>i \<in> set ?is. valid_input r i"
    by (auto simp: get_cached_input_ids_def valid_input_def py_len_def)
  obtain m' where m': "ecm_free r m = Inr m'" "ecm_inv sz m'"
    "map_of (cached m') = (\<lambda>h. if h \<in> input_hash r ` set ?is then map_option (\<lambda>ids. ids - {request_id r}) (map_of (cached m) h)
      else map_of (cached m) h)"
    "num_free_slots m' = num_free_slots m" "cache_size m' = cache_size m" "freed m' = freed m"
    using free_loop [OF assms(1,2) valid assms(3)] unfolding ecm_free_def by blast
  have "request_id r \<notin> ids" if f: "f \<in> set (mm_features r)" "map_of (cached m') (mm_identifier f) = Some ids" for f ids
  proof -
    obtain k where k: "k < length (mm_features r)" "mm_features r ! k = f" using f(1) by (auto simp: in_set_conv_nth)
    show ?thesis
    proof (cases "map_of (cached m) (mm_identifier f) = None")
      case True
      then show ?thesis using f(2) by (auto simp: m'(3) split: if_splits)
    next
      case False
      then have "int k \<in> set ?is" using k by (auto simp: get_cached_input_ids_def)
      then have "mm_identifier f \<in> input_hash r ` set ?is"
        using k(2) by (intro image_eqI [of _ _ "int k"]) (simp_all add: input_hash_def)
      then show ?thesis using f(2) by (auto simp: m'(3))
    qed
  qed
  then have "\<forall>f \<in> set (mm_features r). case map_of (cached m') (mm_identifier f) of
      None \<Rightarrow> True | Some ids \<Rightarrow> request_id r \<notin> ids" by (simp split: option.split)
  with m'(1,2,4-6) show ?thesis by blast
qed

section \<open>All sequences of operations\<close>

text \<open>
  The scheduler stores an output only when its hash is not in the cache; the other operations are
  unrestricted.
\<close>

inductive ecm_step :: "(mm_hash \<Rightarrow> int) \<Rightarrow> encoder_cache \<Rightarrow> encoder_cache \<Rightarrow> bool" for sz where
  lookup: "ecm_step sz m m'"
    if "valid_input r i" "sized sz r" "check_and_update_cache r i m = Inr (b, m')"
| reserve: "ecm_step sz m m'"
    if "valid_input r i" "sized sz r" "can_allocate r i budget sched m = Inr (b, m')"
| store: "ecm_step sz m m'"
    if "valid_input r i" "sized sz r" "map_of (cached m) (input_hash r i) = None" "allocate r i m = Inr m'"
| drop: "ecm_step sz m m'"
    if "valid_input r i" "sized sz r" "free_encoder_input r i m = Inr m'"
| release: "ecm_step sz m m'" if "sized sz r" "ecm_free r m = Inr m'"
| drain: "ecm_step sz m (snd (get_freed_mm_hashes m))"
| reset: "ecm_step sz m (ecm_reset m)"

inductive ecm_reachable :: "(mm_hash \<Rightarrow> int) \<Rightarrow> int \<Rightarrow> encoder_cache \<Rightarrow> bool" for sz n where
  start: "ecm_reachable sz n (EncoderCacheManager n)"
| step: "ecm_reachable sz n m'" if "ecm_reachable sz n m" "ecm_step sz m m'"

lemma allocate_fits:
  assumes "allocate r i m = Inr m'" and "valid_input r i" and "sized sz r"
  shows "sz (input_hash r i) \<le> num_free_slots m"
  using assms(1) valid_input_get [OF assms(2)] valid_input_size [OF assms(2,3)]
  by (auto simp: allocate_def Let_def res_simps)

lemma ecm_step_inv:
  assumes "ecm_step sz m m'" and "\<And>h. 0 \<le> sz h" and "ecm_inv sz m" and "0 \<le> cache_size m"
  shows "ecm_inv sz m' \<and> cache_size m' = cache_size m"
  using assms(1)
proof cases
  case (lookup r i b)
  then show ?thesis using lookup_inv [OF assms(3) lookup(1)] assms(3) by (auto split: option.splits)
next
  case (reserve r i budget sched b)
  show ?thesis
    using can_allocate_spec [OF assms(3,2) reserve(1,2), of budget sched] reserve(3) assms(3)
    by (auto split: if_splits)
next
  case (store r i)
  show ?thesis
    using allocate_spec [OF assms(3,2) store(1-3) allocate_fits [OF store(4,1,2)]] store(4) by auto
next
  case (drop r i)
  show ?thesis using free_input_inv [OF assms(3,2) drop(1,2)] drop(3) by auto
next
  case (release r)
  show ?thesis using ecm_free_inv [OF assms(2) release(1) assms(3)] release(2) by auto
next
  case drain
  then show ?thesis using assms(3) by (simp add: drain_inv) (simp add: get_freed_mm_hashes_def)
next
  case reset
  then show ?thesis using reset_inv [OF assms(4)] by (simp add: ecm_reset_def)
qed

lemma ecm_reachable_inv:
  assumes "ecm_reachable sz n m" and "\<And>h. 0 \<le> sz h" and "0 \<le> n"
  shows "ecm_inv sz m \<and> cache_size m = n"
  using assms(1)
proof induction
  case start
  then show ?case using init_inv [OF assms(3)] by (simp add: EncoderCacheManager_def)
next
  case (step m m')
  then show ?case using ecm_step_inv [OF step.hyps(2) assms(2)] assms(3) by auto
qed

end
