(* ===== verification/Encoder_Scheduling.thy ===== *)
theory Encoder_Scheduling
  imports Encoder_Cache_Facts Tensor_Ops Hash_Facts
begin

text \<open>
  Which encoder inputs of a request are scheduled in a step
  (\<open>_try_schedule_encoder_inputs\<close> and \<open>_free_encoder_inputs\<close> of
  \<^verbatim>\<open>vllm/v1/core/sched/scheduler.py\<close>, for models that are not encoder-decoder models) and which
  encoder outputs the model runner then needs (\<open>_gather_mm_embeddings\<close> of
  \<^verbatim>\<open>vllm/v1/worker/gpu_model_runner.py\<close>): without a shift of the computed tokens the outputs that
  are needed are there; with the shift of EAGLE they may be missing.
\<close>

section \<open>Embeddings in a range of a placeholder\<close>

definition embeds_cumsum :: "bool list \<Rightarrow> int list" where
  "embeds_cumsum emb = cumsum_from 0 (map (\<lambda>b. if b then 1 else 0) emb)"

definition get_embeds_indices_in_range :: "mm_feature \<Rightarrow> int \<Rightarrow> int \<Rightarrow> (int \<times> int) res" where
  "get_embeds_indices_in_range f start_idx end_idx =
     (case is_embed f of
        None \<Rightarrow> Inr (start_idx, end_idx)
      | Some emb \<Rightarrow>
          rbind (if start_idx > 0 then py_get (embeds_cumsum emb) (start_idx - 1) else Inr 0) (\<lambda>a.
          rbind (py_get (embeds_cumsum emb) (end_idx - 1)) (\<lambda>b. Inr (a, b))))"

section \<open>Scheduling the encoder inputs\<close>

record encoder_plan =
  num_new_tokens :: int
  compute_budget :: int
  hashes_to_schedule :: "mm_hash set"
  num_embeds_to_schedule :: int
  inputs_to_schedule :: "int list"
  external_inputs :: "int list"
  plan_cache :: encoder_cache

text \<open>
  One iteration of the loop over the inputs, with whether the loop stops there; \<open>remote h\<close> says that
  there is an encoder cache connector which has the item, \<open>chunk_off\<close> is
  \<open>disable_chunked_mm_input\<close>.
\<close>

definition plan_input ::
    "bool \<Rightarrow> (mm_hash \<Rightarrow> bool) \<Rightarrow> request \<Rightarrow> int \<Rightarrow> int \<Rightarrow> int \<Rightarrow> mm_feature \<Rightarrow> encoder_plan \<Rightarrow>
     (bool \<times> encoder_plan) res" where
  "plan_input chunk_off remote r computed shift i f s =
     rbind (get_num_embeds f) (\<lambda>num_encoder_embeds.
     let start_pos = mm_offset f; num_encoder_tokens = mm_length f; h = mm_identifier f in
     if start_pos \<ge> computed + num_new_tokens s + shift then Inr (True, s)
     else if start_pos + num_encoder_tokens \<le> computed then Inr (False, s)
     else if h \<in> hashes_to_schedule s then Inr (False, s)
     else rbind (check_and_update_cache r i (plan_cache s)) (\<lambda>(hit, c).
       if hit then Inr (False, s\<lparr>plan_cache := c\<rparr>)
       else if chunk_off \<and> computed < start_pos \<and> computed + num_new_tokens s < start_pos + num_encoder_tokens
       then Inr (True, s\<lparr>plan_cache := c, num_new_tokens := start_pos - computed\<rparr>)
       else rbind (can_allocate r i (compute_budget s) (num_embeds_to_schedule s) c) (\<lambda>(ok, c').
         let s1 = s\<lparr>plan_cache := c'\<rparr> in
         if \<not> ok
         then Inr (True, s1\<lparr>num_new_tokens :=
           (if computed + shift < start_pos then start_pos - (computed + shift) else 0)\<rparr>)
         else rbind (get_embeds_indices_in_range f (max 0 (computed - start_pos))
                (min num_encoder_tokens (computed + num_new_tokens s - start_pos)))
           (\<lambda>(curr_embeds_start, curr_embeds_end).
           if curr_embeds_end - curr_embeds_start = 0 then Inr (False, s1)
           else
             let s2 = s1\<lparr>hashes_to_schedule := insert h (hashes_to_schedule s1),
                         num_embeds_to_schedule := num_embeds_to_schedule s1 + num_encoder_embeds\<rparr> in
             Inr (False, if remote h then s2\<lparr>external_inputs := external_inputs s2 @ [i]\<rparr>
                else s2\<lparr>compute_budget := compute_budget s2 - num_encoder_embeds,
                       inputs_to_schedule := inputs_to_schedule s2 @ [i]\<rparr>)))))"

fun plan_loop ::
    "bool \<Rightarrow> (mm_hash \<Rightarrow> bool) \<Rightarrow> request \<Rightarrow> int \<Rightarrow> int \<Rightarrow> int \<Rightarrow> mm_feature list \<Rightarrow> encoder_plan \<Rightarrow> encoder_plan res"
  where
  "plan_loop chunk_off remote r computed shift i [] s = Inr s"
| "plan_loop chunk_off remote r computed shift i (f # fs) s =
     rbind (plan_input chunk_off remote r computed shift i f s) (\<lambda>(stop, s').
       if stop then Inr s' else plan_loop chunk_off remote r computed shift (i + 1) fs s')"

definition try_schedule_encoder_inputs ::
    "bool \<Rightarrow> (mm_hash \<Rightarrow> bool) \<Rightarrow> request \<Rightarrow> int \<Rightarrow> int \<Rightarrow> int \<Rightarrow> int \<Rightarrow> encoder_cache \<Rightarrow> encoder_plan res" where
  "try_schedule_encoder_inputs chunk_off remote r computed n encoder_compute_budget
      shift_computed_tokens m =
     (let s = \<lparr>num_new_tokens = n, compute_budget = encoder_compute_budget, hashes_to_schedule = {},
           num_embeds_to_schedule = 0, inputs_to_schedule = [], external_inputs = [], plan_cache = m\<rparr>
      in if n = 0 \<or> mm_features r = [] then Inr s
         else plan_loop chunk_off remote r computed shift_computed_tokens 0 (mm_features r) s)"

text \<open>The allocation of the planned inputs, as \<open>schedule\<close> does it.\<close>

definition allocate_plan :: "request \<Rightarrow> encoder_plan \<Rightarrow> encoder_cache res" where
  "allocate_plan r s = rfold (allocate r) (inputs_to_schedule s @ external_inputs s) (plan_cache s)"

definition free_encoder_inputs :: "request \<Rightarrow> encoder_cache \<Rightarrow> encoder_cache res" where
  "free_encoder_inputs r m =
     rfold (\<lambda>i m. let f = mm_features r ! nat i in
         if mm_offset f + mm_length f \<le> num_computed_tokens r then free_encoder_input r i m else Inr m)
       (get_cached_input_ids r m) m"

section \<open>The outputs that the runner needs\<close>

text \<open>
  \<open>_gather_mm_embeddings\<close> for one request: \<open>avail h\<close> says that the runner has the output \<open>h\<close>; the
  result is the list of the outputs used.
\<close>

fun gather_mm_embeddings ::
    "(mm_hash \<Rightarrow> bool) \<Rightarrow> int \<Rightarrow> int \<Rightarrow> mm_feature list \<Rightarrow> mm_hash list res" where
  "gather_mm_embeddings avail computed scheduled [] = Inr []"
| "gather_mm_embeddings avail computed scheduled (f # fs) =
     (let start_pos = mm_offset f; num_encoder_tokens = mm_length f in
      if start_pos \<ge> computed + scheduled then Inr []
      else if start_pos + num_encoder_tokens \<le> computed then gather_mm_embeddings avail computed scheduled fs
      else
        let start_idx = max (computed - start_pos) 0;
            end_idx = min (computed - start_pos + scheduled) num_encoder_tokens in
        rbind (py_assert (start_idx < end_idx)) (\<lambda>_.
        rbind (get_embeds_indices_in_range f start_idx end_idx) (\<lambda>(curr_embeds_start, curr_embeds_end).
        if curr_embeds_start = curr_embeds_end then gather_mm_embeddings avail computed scheduled fs
        else rbind (py_assert (avail (mm_identifier f))) (\<lambda>_.
          rbind (gather_mm_embeddings avail computed scheduled fs) (\<lambda>hs. Inr (mm_identifier f # hs))))))"

section \<open>Accounts of a plan\<close>

text \<open>
  The planned inputs are different, not in the cache, and fit in the free slots together; the
  entries that the request refers to stay.
\<close>

definition plan_inv :: "(mm_hash \<Rightarrow> int) \<Rightarrow> request \<Rightarrow> int \<Rightarrow> encoder_plan \<Rightarrow> bool" where
  "plan_inv sz r budget s \<longleftrightarrow>
     (let planned = inputs_to_schedule s @ external_inputs s in
      ecm_inv sz (plan_cache s) \<and> (\<forall>i \<in> set planned. valid_input r i) \<and>
      distinct (map (input_hash r) planned) \<and> hashes_to_schedule s = input_hash r ` set planned \<and>
      (\<forall>h \<in> hashes_to_schedule s. map_of (cached (plan_cache s)) h = None) \<and>
      num_embeds_to_schedule s = (\<Sum>i \<leftarrow> planned. sz (input_hash r i)) \<and>
      num_embeds_to_schedule s \<le> num_free_slots (plan_cache s) \<and>
      compute_budget s = budget - (\<Sum>i \<leftarrow> inputs_to_schedule s. sz (input_hash r i)) \<and> 0 \<le> compute_budget s)"

text \<open>The outputs that are there once the plan is allocated.\<close>

definition plan_has :: "request \<Rightarrow> encoder_plan \<Rightarrow> mm_hash \<Rightarrow> bool" where
  "plan_has r s h \<longleftrightarrow> h \<in> hashes_to_schedule s \<or>
     (case map_of (cached (plan_cache s)) h of None \<Rightarrow> False | Some ids \<Rightarrow> request_id r \<in> ids)"

definition feature_ok :: "mm_feature \<Rightarrow> bool" where
  "feature_ok f \<longleftrightarrow> 0 < mm_length f \<and>
     (case is_embed f of None \<Rightarrow> True | Some emb \<Rightarrow> py_len emb = mm_length f)"

lemma embeds_cumsum_nth:
  "k < length emb \<Longrightarrow> embeds_cumsum emb ! k = (\<Sum>b \<leftarrow> take (Suc k) emb. if b then 1 else 0)"
proof -
  assume k: "k < length emb"
  let ?xs = "map (\<lambda>b. if b then 1 else 0 :: int) emb"
  have "embeds_cumsum emb ! k = cu_of ?xs ! Suc k" by (simp add: embeds_cumsum_def cu_of_def)
  also have "\<dots> = sum_list (take (Suc k) ?xs)" using k by (subst cu_of_nth) simp_all
  finally show ?thesis by (simp add: take_map)
qed

text \<open>The number of embeddings before a place of the placeholder.\<close>

definition embeds_before :: "mm_feature \<Rightarrow> int \<Rightarrow> int" where
  "embeds_before f p = (case is_embed f of None \<Rightarrow> p | Some emb \<Rightarrow> (\<Sum>b \<leftarrow> take (nat p) emb. if b then 1 else 0))"

lemma embeds_range:
  assumes "feature_ok f" and "0 \<le> a" and "a < mm_length f" and "0 < b" and "b \<le> mm_length f"
  shows "get_embeds_indices_in_range f a b = Inr (embeds_before f a, embeds_before f b)"
proof (cases "is_embed f")
  case (Some emb)
  have len: "length (embeds_cumsum emb) = length emb" "int (length emb) = mm_length f"
    using assms(1) Some by (simp_all add: embeds_cumsum_def feature_ok_def py_len_def)
  have at: "py_get (embeds_cumsum emb) (p - 1) = Inr (embeds_before f p)" if "0 < p" "p \<le> mm_length f" for p
  proof -
    have "nat (p - 1) < length emb" using that len(2) by linarith
    moreover have "Suc (nat (p - 1)) = nat p" using that by linarith
    ultimately show ?thesis
      using that len by (simp add: py_get_nat embeds_cumsum_nth embeds_before_def Some py_len_def)
  qed
  have "embeds_before f 0 = 0" by (simp add: embeds_before_def Some)
  then show ?thesis
    using assms(2-5) at [of a] at [of b] by (cases "a = 0") (simp_all add: get_embeds_indices_in_range_def Some)
qed (simp add: get_embeds_indices_in_range_def embeds_before_def)

lemma embeds_before_mono:
  assumes "a \<le> b"
  shows "embeds_before f a \<le> embeds_before f b"
proof (cases "is_embed f")
  case (Some emb)
  have "take (nat b) emb = take (nat a) emb @ drop (nat a) (take (nat b) emb)"
    using assms by (metis append_take_drop_id min.absorb1 nat_mono take_take)
  then have "(\<Sum>x \<leftarrow> take (nat b) emb. if x then 1 else 0 :: int) =
      (\<Sum>x \<leftarrow> take (nat a) emb. if x then 1 else 0) + (\<Sum>x \<leftarrow> drop (nat a) (take (nat b) emb). if x then 1 else 0)"
    by (metis map_append sum_list_append)
  moreover have "0 \<le> (\<Sum>x \<leftarrow> drop (nat a) (take (nat b) emb). if x then 1 else 0 :: int)"
    by (rule sum_list_nonneg) auto
  ultimately show ?thesis by (simp add: embeds_before_def Some)
qed (use assms in \<open>simp add: embeds_before_def\<close>)


lemma range_total:
  assumes "feature_ok f" and "0 \<le> a" and "a < mm_length f" and "0 \<le> b" and "b \<le> mm_length f"
  shows "\<exists>p. get_embeds_indices_in_range f a b = Inr p"
proof (cases "0 < b")
  case True
  then show ?thesis using embeds_range [OF assms(1-3) True assms(5)] by blast
next
  case False
  then have b: "b = 0" using assms(4) by simp
  show ?thesis
  proof (cases "is_embed f")
    case (Some emb)
    have len: "py_len (embeds_cumsum emb) = mm_length f" "0 < mm_length f"
      using assms(1) Some by (simp_all add: embeds_cumsum_def feature_ok_def py_len_def)
    then have "embeds_cumsum emb \<noteq> []" by (auto simp: py_len_def)
    then obtain x where x: "py_get (embeds_cumsum emb) (- 1) = Inr x" by (simp add: py_get_def py_len_def)
    show ?thesis
      using len assms(2,3) x by (cases "a = 0") (auto simp: get_embeds_indices_in_range_def Some b py_get_nat)
  qed (simp add: get_embeds_indices_in_range_def)
qed

text \<open>What a hit and a reservation do to the entries of the request.\<close>

lemma lookup_plan:
  assumes "plan_inv sz r budget s" and "valid_input r i"
  shows "\<exists>hit c. check_and_update_cache r i (plan_cache s) = Inr (hit, c) \<and>
    plan_inv sz r budget (s\<lparr>plan_cache := c\<rparr>) \<and>
    (\<forall>h. plan_has r s h \<longrightarrow> plan_has r (s\<lparr>plan_cache := c\<rparr>) h) \<and>
    (if hit then plan_has r (s\<lparr>plan_cache := c\<rparr>) (input_hash r i)
     else c = plan_cache s \<and> map_of (cached c) (input_hash r i) = None)"
proof -
  have inv: "ecm_inv sz (plan_cache s)" using assms(1) by (simp add: plan_inv_def Let_def)
  show ?thesis
  proof (cases "map_of (cached (plan_cache s)) (input_hash r i)")
    case None
    then show ?thesis using lookup_inv [OF inv assms(2)] assms(1) by - (rule exI [of _ False], simp)
  next
    case (Some ids)
    with lookup_inv [OF inv assms(2)] obtain c where c: "check_and_update_cache r i (plan_cache s) = Inr (True, c)"
      "ecm_inv sz c" "num_free_slots c = num_free_slots (plan_cache s)"
      "map_of (cached c) = (map_of (cached (plan_cache s)))(input_hash r i \<mapsto> insert (request_id r) ids)" by auto
    have "\<forall>h \<in> hashes_to_schedule s. map_of (cached (plan_cache s)) h = None"
      using assms(1) by (simp add: plan_inv_def Let_def)
    then have "\<forall>h \<in> hashes_to_schedule s. map_of (cached c) h = None" using Some by (auto simp: c(4))
    then have "plan_inv sz r budget (s\<lparr>plan_cache := c\<rparr>)"
      using assms(1) c(2,3) unfolding plan_inv_def Let_def by simp
    moreover have "plan_has r (s\<lparr>plan_cache := c\<rparr>) h" if "plan_has r s h" for h
      using that Some by (auto simp: plan_has_def c(4))
    ultimately show ?thesis using c(1) by (auto simp: plan_has_def c(4))
  qed
qed

lemma reserve_plan:
  assumes "plan_inv sz r budget s" and "\<And>h. 0 \<le> sz h" and "valid_input r i" and "sized sz r"
  shows "\<exists>ok c. can_allocate r i (compute_budget s) (num_embeds_to_schedule s) (plan_cache s) = Inr (ok, c) \<and>
    plan_inv sz r budget (s\<lparr>plan_cache := c\<rparr>) \<and>
    (\<forall>h. plan_has r s h \<longrightarrow> plan_has r (s\<lparr>plan_cache := c\<rparr>) h) \<and>
    (\<forall>h. map_of (cached (plan_cache s)) h = None \<longrightarrow> map_of (cached c) h = None) \<and>
    (if ok then sz (input_hash r i) \<le> compute_budget s \<and>
       sz (input_hash r i) + num_embeds_to_schedule s \<le> num_free_slots c else c = plan_cache s)"
proof -
  have inv: "ecm_inv sz (plan_cache s)" using assms(1) by (simp add: plan_inv_def Let_def)
  note spec = can_allocate_spec [OF inv assms(2-4), of "compute_budget s" "num_embeds_to_schedule s"]
  show ?thesis
  proof (cases "sz (input_hash r i) \<le> compute_budget s \<and>
      sz (input_hash r i) + num_embeds_to_schedule s \<le> num_freeable_slots (plan_cache s)")
    case True
    with spec obtain c k where c:
      "can_allocate r i (compute_budget s) (num_embeds_to_schedule s) (plan_cache s) = Inr (True, c)"
      "ecm_inv sz c" "sz (input_hash r i) + num_embeds_to_schedule s \<le> num_free_slots c"
      "map_of (cached c) = map_of (cached (plan_cache s)) |` (- set (map fst (take k (freeable (plan_cache s)))))"
      by auto
    have evicted: "map_of (cached (plan_cache s)) h = Some {}"
      if "h \<in> set (map fst (take k (freeable (plan_cache s))))" for h
    proof -
      have "h \<in> fst ` set (freeable (plan_cache s))" using that set_take_subset by fastforce
      then obtain n where "map_of (freeable (plan_cache s)) h = Some n"
        by (metis domD dom_map_of_conv_image_fst)
      then show ?thesis using inv unfolding ecm_inv_def unreferenced_def by blast
    qed
    have "0 \<le> sz (input_hash r i)" by (rule assms(2))
    then have "plan_inv sz r budget (s\<lparr>plan_cache := c\<rparr>)"
      using assms(1) c(2,3) by (auto simp: plan_inv_def Let_def c(4) restrict_map_def)
    moreover have "plan_has r (s\<lparr>plan_cache := c\<rparr>) h" if "plan_has r s h" for h
      using that evicted [of h] by (auto simp: plan_has_def c(4) restrict_map_def split: option.splits)
    ultimately show ?thesis using True c(1,3) by (auto simp: c(4) restrict_map_def)
  next
    case False
    then have "can_allocate r i (compute_budget s) (num_embeds_to_schedule s) (plan_cache s) = Inr (False, plan_cache s)"
      using spec by simp
    then show ?thesis using assms(1) by - (rule exI [of _ False], simp)
  qed
qed

section \<open>A plan serves the step\<close>

definition needs :: "int \<Rightarrow> int \<Rightarrow> mm_feature \<Rightarrow> bool" where
  "needs computed n f \<longleftrightarrow> mm_offset f < computed + n \<and> computed < mm_offset f + mm_length f \<and>
     embeds_before f (max (computed - mm_offset f) 0) \<noteq> embeds_before f (min (computed - mm_offset f + n) (mm_length f))"

lemma plan_add:
  assumes "plan_inv sz r budget s" and "valid_input r i" and "\<And>h. 0 \<le> sz h"
    and "map_of (cached (plan_cache s)) (input_hash r i) = None" and "input_hash r i \<notin> hashes_to_schedule s"
    and "sz (input_hash r i) \<le> compute_budget s"
    and "sz (input_hash r i) + num_embeds_to_schedule s \<le> num_free_slots (plan_cache s)"
  shows "plan_inv sz r budget (let s2 = s\<lparr>hashes_to_schedule := insert (input_hash r i) (hashes_to_schedule s),
      num_embeds_to_schedule := num_embeds_to_schedule s + sz (input_hash r i)\<rparr> in
    if remote then s2\<lparr>external_inputs := external_inputs s2 @ [i]\<rparr>
    else s2\<lparr>compute_budget := compute_budget s2 - sz (input_hash r i), inputs_to_schedule := inputs_to_schedule s2 @ [i]\<rparr>)"
proof -
  have new: "input_hash r i \<notin> input_hash r ` set (inputs_to_schedule s)"
    "input_hash r i \<notin> input_hash r ` set (external_inputs s)"
    using assms(1,5) by (auto simp: plan_inv_def Let_def)
  show ?thesis
    using assms(1,2,4,6,7) new unfolding plan_inv_def Let_def by (auto simp: algebra_simps)
qed

lemma plan_input_spec:
  assumes inv: "plan_inv sz r budget s" and sz: "\<And>h. 0 \<le> sz h" and i: "valid_input r i" and sized: "sized sz r"
    and f: "f = mm_features r ! nat i" "feature_ok f"
    and "0 \<le> num_new_tokens s" and shift: "0 \<le> shift" "shift \<le> 1"
  shows "\<exists>stop s'. plan_input chunk_off remote r computed shift i f s = Inr (stop, s') \<and>
    plan_inv sz r budget s' \<and> 0 \<le> num_new_tokens s' \<and> num_new_tokens s' \<le> num_new_tokens s \<and>
    (\<forall>h. plan_has r s h \<longrightarrow> plan_has r s' h) \<and>
    (if stop then 0 < num_new_tokens s' \<longrightarrow> computed + num_new_tokens s' \<le> mm_offset f
     else \<forall>n. 0 < n \<and> n \<le> num_new_tokens s' \<and> needs computed n f \<longrightarrow> plan_has r s' (mm_identifier f))"
proof -
  let ?h = "mm_identifier f" and ?n = "num_new_tokens s"
  have h: "input_hash r i = ?h" by (simp add: input_hash_def f(1))
  have size: "get_num_embeds f = Inr (sz ?h)"
    using valid_input_size [OF i sized] valid_input_get [OF i] by (simp add: get_num_encoder_embeds_def f(1) h res_simps)
  consider (skip) "mm_offset f \<ge> computed + ?n + shift \<or> mm_offset f + mm_length f \<le> computed \<or> ?h \<in> hashes_to_schedule s"
    | (look) "mm_offset f < computed + ?n + shift" "computed < mm_offset f + mm_length f" "?h \<notin> hashes_to_schedule s"
    by linarith
  then show ?thesis
  proof cases
    case skip
    then show ?thesis
      using inv assms(7) shift by (auto simp: plan_input_def size Let_def needs_def plan_has_def)
  next
    case look
    obtain hit c where look1: "check_and_update_cache r i (plan_cache s) = Inr (hit, c)"
      "plan_inv sz r budget (s\<lparr>plan_cache := c\<rparr>)" "\<forall>h. plan_has r s h \<longrightarrow> plan_has r (s\<lparr>plan_cache := c\<rparr>) h"
      "if hit then plan_has r (s\<lparr>plan_cache := c\<rparr>) ?h else c = plan_cache s \<and> map_of (cached c) ?h = None"
      using lookup_plan [OF inv i] unfolding h by blast
    show ?thesis
    proof (cases hit)
      case True
      then have "plan_input chunk_off remote r computed shift i f s = Inr (False, s\<lparr>plan_cache := c\<rparr>)"
        using look by (simp add: plan_input_def size look1(1) Let_def)
      then show ?thesis using True look1(2-4) assms(7) by - (rule exI [of _ False], simp)
    next
      case False
      then have c: "c = plan_cache s" "map_of (cached (plan_cache s)) ?h = None" using look1(4) by auto
      show ?thesis
      proof (cases "chunk_off \<and> computed < mm_offset f \<and> computed + ?n < mm_offset f + mm_length f")
        case True
        then have "plan_input chunk_off remote r computed shift i f s =
            Inr (True, s\<lparr>num_new_tokens := mm_offset f - computed\<rparr>)"
          using look False by (simp add: plan_input_def size look1(1) Let_def c(1))
        moreover have "plan_inv sz r budget (s\<lparr>num_new_tokens := mm_offset f - computed\<rparr>)"
          using inv by (simp add: plan_inv_def)
        moreover have "plan_has r (s\<lparr>num_new_tokens := n\<rparr>) h \<longleftrightarrow> plan_has r s h" for n h
          by (simp add: plan_has_def)
        ultimately show ?thesis using True look(1) shift by - (rule exI [of _ True], simp)
      next
        case nochunk: False
        obtain ok c' where res: "can_allocate r i (compute_budget s) (num_embeds_to_schedule s) (plan_cache s) = Inr (ok, c')"
          "plan_inv sz r budget (s\<lparr>plan_cache := c'\<rparr>)" "\<forall>h. plan_has r s h \<longrightarrow> plan_has r (s\<lparr>plan_cache := c'\<rparr>) h"
          "\<forall>h. map_of (cached (plan_cache s)) h = None \<longrightarrow> map_of (cached c') h = None"
          "if ok then sz ?h \<le> compute_budget s \<and> sz ?h + num_embeds_to_schedule s \<le> num_free_slots c' else c' = plan_cache s"
          using reserve_plan [OF inv sz i sized] unfolding h by blast
        let ?s1 = "s\<lparr>plan_cache := c'\<rparr>"
        show ?thesis
        proof (cases ok)
          case False
          let ?m = "if computed + shift < mm_offset f then mm_offset f - (computed + shift) else 0"
          have "plan_input chunk_off remote r computed shift i f s = Inr (True, s\<lparr>num_new_tokens := ?m\<rparr>)"
            using look nochunk \<open>\<not> hit\<close> False res(5) by (auto simp: plan_input_def size look1(1) Let_def c(1) res(1))
          moreover have "plan_inv sz r budget (s\<lparr>num_new_tokens := ?m\<rparr>)"
            using inv by (simp add: plan_inv_def)
          moreover have "plan_has r (s\<lparr>num_new_tokens := n\<rparr>) h \<longleftrightarrow> plan_has r s h" for n h
            by (simp add: plan_has_def)
          moreover have "0 \<le> ?m" "?m \<le> ?n" using look(1) shift assms(7) by auto
          moreover have "0 < ?m \<longrightarrow> computed + ?m \<le> mm_offset f" using shift by simp
          ultimately show ?thesis by (intro exI [of _ True] exI [of _ "s\<lparr>num_new_tokens := ?m\<rparr>"]) simp
        next
          case True
          let ?a = "max 0 (computed - mm_offset f)" and ?b = "min (mm_length f) (computed + ?n - mm_offset f)"
          have len: "0 < mm_length f" using f(2) by (simp add: feature_ok_def)
          have ab: "0 \<le> ?a" "?a < mm_length f" "0 \<le> ?b" "?b \<le> mm_length f"
            using look(1,2) len shift by auto
          obtain x y where xy: "get_embeds_indices_in_range f ?a ?b = Inr (x, y)"
            using range_total [OF f(2) ab] by (metis surj_pair)
          show ?thesis
          proof (cases "y - x = 0")
            case zero: True
            then have "plan_input chunk_off remote r computed shift i f s = Inr (False, ?s1)"
              using look nochunk \<open>\<not> hit\<close> True
              by (auto simp: plan_input_def size look1(1) Let_def c(1) res(1) xy)
            moreover have "\<not> needs computed n f" if n: "0 < n" "n \<le> ?n" for n
            proof
              assume "needs computed n f"
              then have b: "0 < ?b" "computed - mm_offset f + n \<le> computed + ?n - mm_offset f"
                and ne: "embeds_before f ?a \<noteq> embeds_before f (min (computed - mm_offset f + n) (mm_length f))"
                using n len by (auto simp: needs_def max.commute)
              have "embeds_before f ?a = embeds_before f ?b"
                using xy zero embeds_range [OF f(2) ab(1,2) b(1) ab(4)] by simp
              moreover have "embeds_before f ?a \<le> embeds_before f (min (computed - mm_offset f + n) (mm_length f))"
                by (rule embeds_before_mono) (use \<open>needs computed n f\<close> len n in \<open>auto simp: needs_def\<close>)
              moreover have "embeds_before f (min (computed - mm_offset f + n) (mm_length f)) \<le> embeds_before f ?b"
                by (rule embeds_before_mono) (use b(2) in auto)
              ultimately show False using ne by simp
            qed
            ultimately show ?thesis using res(2,3) assms(7) by - (rule exI [of _ False], auto)
          next
            case False
            let ?s2 = "let s2 = ?s1\<lparr>hashes_to_schedule := insert ?h (hashes_to_schedule ?s1),
                num_embeds_to_schedule := num_embeds_to_schedule ?s1 + sz ?h\<rparr> in
              if remote ?h then s2\<lparr>external_inputs := external_inputs s2 @ [i]\<rparr>
              else s2\<lparr>compute_budget := compute_budget s2 - sz ?h, inputs_to_schedule := inputs_to_schedule s2 @ [i]\<rparr>"
            have "plan_input chunk_off remote r computed shift i f s = Inr (False, ?s2)"
              using look nochunk \<open>\<not> hit\<close> True False
              by (auto simp: plan_input_def size look1(1) Let_def c(1) res(1) xy)
            moreover have "plan_inv sz r budget ?s2"
              using plan_add [OF res(2) i sz, of "remote ?h"] res(4,5) c(2) look(3) True unfolding h by simp
            moreover have "plan_has r ?s2 h'" if "plan_has r ?s1 h' \<or> h' = ?h" for h'
              using that by (auto simp: plan_has_def Let_def)
            moreover have "num_new_tokens ?s2 = ?n" by (simp add: Let_def)
            ultimately show ?thesis using res(3) assms(7)
              by (intro exI [of _ False] exI [of _ ?s2]) (simp del: Let_def)
          qed
        qed
      qed
    qed
  qed
qed

lemma gather_step:
  assumes "feature_ok f" and "0 < n" and "needs computed n f \<longrightarrow> avail (mm_identifier f)"
    and "mm_offset f \<ge> computed + n \<or> (\<exists>hs. gather_mm_embeddings avail computed n fs = Inr hs)"
  shows "\<exists>hs. gather_mm_embeddings avail computed n (f # fs) = Inr hs"
proof (cases "mm_offset f \<ge> computed + n \<or> mm_offset f + mm_length f \<le> computed")
  case False
  let ?a = "max (computed - mm_offset f) 0" and ?b = "min (computed - mm_offset f + n) (mm_length f)"
  have len: "0 < mm_length f" using assms(1) by (simp add: feature_ok_def)
  have ab: "0 \<le> ?a" "?a < mm_length f" "0 < ?b" "?b \<le> mm_length f" "?a < ?b" using False len assms(2) by auto
  note range = embeds_range [OF assms(1) ab(1-4)]
  obtain hs where "gather_mm_embeddings avail computed n fs = Inr hs" using assms(4) False by auto
  then show ?thesis using False assms(3) range ab(5) by (simp add: Let_def needs_def)
qed (use assms(4) in \<open>auto simp: Let_def\<close>)

text \<open>A plan whose cache still holds what the request refers to serves every shorter step too.\<close>

definition plan_serves :: "request \<Rightarrow> int \<Rightarrow> mm_feature list \<Rightarrow> encoder_plan \<Rightarrow> bool" where
  "plan_serves r computed fs s \<longleftrightarrow>
     (\<forall>n avail. 0 < n \<and> n \<le> num_new_tokens s \<and> (\<forall>h. plan_has r s h \<longrightarrow> avail h) \<longrightarrow>
        (\<exists>hs. gather_mm_embeddings avail computed n fs = Inr hs))"

lemma plan_loop_spec:
  assumes sz: "\<And>h. 0 \<le> sz h" and sized: "sized sz r" and ok: "list_all feature_ok (mm_features r)"
    and shift: "0 \<le> shift" "shift \<le> 1"
    and "0 \<le> i" and "fs = drop (nat i) (mm_features r)" and "plan_inv sz r budget s" and "0 \<le> num_new_tokens s"
  shows "\<exists>s'. plan_loop chunk_off remote r computed shift i fs s = Inr s' \<and> plan_inv sz r budget s' \<and>
    0 \<le> num_new_tokens s' \<and> num_new_tokens s' \<le> num_new_tokens s \<and> (\<forall>h. plan_has r s h \<longrightarrow> plan_has r s' h) \<and>
    plan_serves r computed fs s'"
  using assms(6-9)
proof (induction fs arbitrary: i s)
  case Nil
  then show ?case by (simp add: plan_serves_def)
next
  case (Cons f fs)
  have "nat i < length (mm_features r)" using Cons.prems(2) by (metis drop_all list.distinct(1) not_le)
  then have i: "valid_input r i" and f: "f = mm_features r ! nat i" and fs: "fs = drop (nat (i + 1)) (mm_features r)"
    using Cons.prems(1,2) by (simp_all add: valid_input_def py_len_def Cons_nth_drop_Suc [symmetric] nat_add_distrib)
  have fok: "feature_ok f" using ok f \<open>nat i < _\<close> by (simp add: list_all_length)
  obtain stop s1 where step: "plan_input chunk_off remote r computed shift i f s = Inr (stop, s1)"
    "plan_inv sz r budget s1" "0 \<le> num_new_tokens s1" "num_new_tokens s1 \<le> num_new_tokens s"
    "\<forall>h. plan_has r s h \<longrightarrow> plan_has r s1 h"
    "if stop then 0 < num_new_tokens s1 \<longrightarrow> computed + num_new_tokens s1 \<le> mm_offset f
     else \<forall>n. 0 < n \<and> n \<le> num_new_tokens s1 \<and> needs computed n f \<longrightarrow> plan_has r s1 (mm_identifier f)"
    using plan_input_spec [OF Cons.prems(3) sz i sized f fok Cons.prems(4) shift] by blast
  show ?case
  proof (cases stop)
    case True
    then have "gather_mm_embeddings avail computed n (f # fs) = Inr []" if "0 < n" "n \<le> num_new_tokens s1" for n avail
      using step(6) that by simp
    then have "plan_serves r computed (f # fs) s1" by (auto simp: plan_serves_def)
    then show ?thesis using step(1-5) True by simp
  next
    case False
    obtain s' where s': "plan_loop chunk_off remote r computed shift (i + 1) fs s1 = Inr s'"
      "plan_inv sz r budget s'" "0 \<le> num_new_tokens s'" "num_new_tokens s' \<le> num_new_tokens s1"
      "\<forall>h. plan_has r s1 h \<longrightarrow> plan_has r s' h" "plan_serves r computed fs s'"
      using Cons.IH [OF _ fs step(2,3)] Cons.prems(1) by auto
    have "plan_serves r computed (f # fs) s'"
      unfolding plan_serves_def
    proof (intro allI impI, elim conjE)
      fix n avail assume n: "0 < n" "n \<le> num_new_tokens s'" "\<forall>h. plan_has r s' h \<longrightarrow> avail h"
      have "needs computed n f \<longrightarrow> avail (mm_identifier f)" using step(6) False s'(4,5) n by auto
      moreover have "\<exists>hs. gather_mm_embeddings avail computed n fs = Inr hs"
        using s'(6) n unfolding plan_serves_def by blast
      ultimately show "\<exists>hs. gather_mm_embeddings avail computed n (f # fs) = Inr hs"
        using gather_step [OF fok n(1)] by blast
    qed
    then show ?thesis using step(1,4,5) False s'(1-5) by auto
  qed
qed

lemma plan_spec:
  assumes sz: "\<And>h. 0 \<le> sz h" and sized: "sized sz r" and ok: "list_all feature_ok (mm_features r)"
    and shift: "0 \<le> shift" "shift \<le> 1" and "0 \<le> n" and "0 \<le> budget" and inv: "ecm_inv sz m"
  shows "\<exists>s. try_schedule_encoder_inputs chunk_off remote r computed n budget shift m = Inr s \<and>
    plan_inv sz r budget s \<and> 0 \<le> num_new_tokens s \<and> num_new_tokens s \<le> n \<and>
    plan_serves r computed (mm_features r) s"
proof -
  let ?s = "\<lparr>num_new_tokens = n, compute_budget = budget, hashes_to_schedule = {},
           num_embeds_to_schedule = 0, inputs_to_schedule = [], external_inputs = [], plan_cache = m\<rparr>"
  have start: "plan_inv sz r budget ?s" using inv assms(7) by (simp add: plan_inv_def ecm_inv_def)
  show ?thesis
  proof (cases "n = 0 \<or> mm_features r = []")
    case True
    then have "plan_serves r computed (mm_features r) ?s" by (auto simp: plan_serves_def)
    then show ?thesis using True start assms(6) by (auto simp: try_schedule_encoder_inputs_def Let_def)
  next
    case False
    obtain s where "plan_loop chunk_off remote r computed shift 0 (mm_features r) ?s = Inr s" "plan_inv sz r budget s"
      "0 \<le> num_new_tokens s" "num_new_tokens s \<le> n" "plan_serves r computed (mm_features r) s"
      using plan_loop_spec [OF sz sized ok shift order.refl _ start,
        where fs = "mm_features r" and chunk_off = chunk_off and remote = remote and computed = computed]
        assms(6) by force
    then show ?thesis using False by (auto simp: try_schedule_encoder_inputs_def Let_def)
  qed
qed

section \<open>Allocating the plan\<close>

lemma allocate_loop:
  assumes sz: "\<And>h. 0 \<le> sz h" and sized: "sized sz r"
    and "ecm_inv sz m" and "\<forall>i \<in> set is. valid_input r i" and "distinct (map (input_hash r) is)"
    and "\<forall>i \<in> set is. map_of (cached m) (input_hash r i) = None"
    and "(\<Sum>i \<leftarrow> is. sz (input_hash r i)) \<le> num_free_slots m"
  shows "\<exists>m'. rfold (allocate r) is m = Inr m' \<and> ecm_inv sz m' \<and>
    (\<forall>h. map_of (cached m') h = (if h \<in> input_hash r ` set is then Some {request_id r} else map_of (cached m) h)) \<and>
    num_free_slots m' = num_free_slots m - (\<Sum>i \<leftarrow> is. sz (input_hash r i))"
  using assms(3-7)
proof (induction "is" arbitrary: m)
  case (Cons i "is")
  have "0 \<le> (\<Sum>j \<leftarrow> is. sz (input_hash r j))" by (rule sum_list_nonneg) (auto simp: sz)
  then have fits: "sz (input_hash r i) \<le> num_free_slots m" using Cons.prems(5) by simp
  have i: "valid_input r i" "map_of (cached m) (input_hash r i) = None" using Cons.prems(2,4) by auto
  obtain m1 where m1: "allocate r i m = Inr m1" "ecm_inv sz m1"
    "map_of (cached m1) = (map_of (cached m))(input_hash r i \<mapsto> {request_id r})"
    "num_free_slots m1 = num_free_slots m - sz (input_hash r i)"
    using allocate_spec [OF Cons.prems(1) sz i(1) sized i(2) fits] by auto
  have "\<forall>j \<in> set is. map_of (cached m1) (input_hash r j) = None"
    using Cons.prems(3,4) by (auto simp: m1(3)) (metis imageI)
  with Cons.IH [OF m1(2)] Cons.prems(2,3,5) obtain m' where m': "rfold (allocate r) is m1 = Inr m'" "ecm_inv sz m'"
    "\<forall>h. map_of (cached m') h = (if h \<in> input_hash r ` set is then Some {request_id r} else map_of (cached m1) h)"
    "num_free_slots m' = num_free_slots m1 - (\<Sum>j \<leftarrow> is. sz (input_hash r j))"
    by (auto simp: m1(4))
  then show ?case by (auto simp: m1)
qed simp

lemma allocate_plan_spec:
  assumes "\<And>h. 0 \<le> sz h" and "sized sz r" and "plan_inv sz r budget s"
  shows "\<exists>m. allocate_plan r s = Inr m \<and> ecm_inv sz m \<and>
    (\<forall>h. plan_has r s h \<longleftrightarrow> (\<exists>ids. map_of (cached m) h = Some ids \<and> request_id r \<in> ids))"
proof -
  let ?is = "inputs_to_schedule s @ external_inputs s"
  obtain m where "rfold (allocate r) ?is (plan_cache s) = Inr m" "ecm_inv sz m"
    "\<forall>h. map_of (cached m) h = (if h \<in> input_hash r ` set ?is then Some {request_id r} else map_of (cached (plan_cache s)) h)"
    using allocate_loop [OF assms(1,2), of "plan_cache s" ?is] assms(3) by (auto simp: plan_inv_def Let_def)
  moreover have "hashes_to_schedule s = input_hash r ` set ?is" using assms(3) by (simp add: plan_inv_def Let_def)
  ultimately show ?thesis by (auto simp: allocate_plan_def plan_has_def split: option.splits)
qed

section \<open>Properties\<close>

text \<open>C32. Encoder inputs are scheduled so that the step can run.  For every reachable encoder cache,
  with or without the EAGLE shift, planning never raises; the new budgets are not negative and not
  larger than before; the planned inputs can be allocated without an assertion; and if tokens are left
  to schedule, the model runner finds every encoder output that these tokens need among the ones that
  the request refers to.\<close>

theorem encoder_plan_is_served:
  assumes "ecm_reachable sz N m" and "\<And>h. 0 \<le> sz h" and "0 \<le> N" and "sized sz r"
    and "list_all feature_ok (mm_features r)" and "shift \<in> {0, 1}" and "0 \<le> n" and "0 \<le> budget"
  shows "\<exists>s m'. try_schedule_encoder_inputs chunk_off remote r computed n budget shift m = Inr s \<and>
    0 \<le> num_new_tokens s \<and> num_new_tokens s \<le> n \<and>
    0 \<le> compute_budget s \<and> compute_budget s = budget - (\<Sum>i \<leftarrow> inputs_to_schedule s. sz (input_hash r i)) \<and>
    allocate_plan r s = Inr m' \<and> ecm_inv sz m' \<and>
    (num_new_tokens s = 0 \<or>
      (\<exists>hs. gather_mm_embeddings (\<lambda>h. case map_of (cached m') h of None \<Rightarrow> False | Some ids \<Rightarrow> request_id r \<in> ids)
         computed (num_new_tokens s) (mm_features r) = Inr hs))"
proof -
  have inv: "ecm_inv sz m" using ecm_reachable_inv [OF assms(1-3)] by simp
  have shift: "0 \<le> shift" "shift \<le> 1" using assms(6) by auto
  obtain s where s: "try_schedule_encoder_inputs chunk_off remote r computed n budget shift m = Inr s"
    "plan_inv sz r budget s" "0 \<le> num_new_tokens s" "num_new_tokens s \<le> n"
    "plan_serves r computed (mm_features r) s"
    using plan_spec [OF assms(2,4,5) shift assms(7,8) inv] by blast
  obtain m' where m': "allocate_plan r s = Inr m'" "ecm_inv sz m'"
    "\<forall>h. plan_has r s h \<longleftrightarrow> (\<exists>ids. map_of (cached m') h = Some ids \<and> request_id r \<in> ids)"
    using allocate_plan_spec [OF assms(2,4) s(2)] by blast
  let ?avail = "\<lambda>h. case map_of (cached m') h of None \<Rightarrow> False | Some ids \<Rightarrow> request_id r \<in> ids"
  have "\<forall>h. plan_has r s h \<longrightarrow> ?avail h" using m'(3) by auto
  then have "num_new_tokens s = 0 \<or>
      (\<exists>hs. gather_mm_embeddings ?avail computed (num_new_tokens s) (mm_features r) = Inr hs)"
    using s(3,5) unfolding plan_serves_def by (cases "num_new_tokens s = 0") simp_all
  moreover have "0 \<le> compute_budget s"
    "compute_budget s = budget - (\<Sum>i \<leftarrow> inputs_to_schedule s. sz (input_hash r i))"
    using s(2) by (simp_all add: plan_inv_def Let_def)
  ultimately show ?thesis using s(1,3,4) m'(1,2) by blast
qed

text \<open>A request with two images of four tokens each, the second one behind six text tokens.\<close>

definition demo_images :: request where
  "demo_images = (demo_request (map int [0..<16]))\<lparr>mm_features :=
     [\<lparr>mm_identifier = Some ''a'', mm_offset = 0, mm_length = 4, is_embed = None\<rparr>,
      \<lparr>mm_identifier = Some ''b'', mm_offset = 10, mm_length = 4, is_embed = Some [False, True, True, True]\<rparr>]\<rparr>"

definition demo_sizes :: "mm_hash \<Rightarrow> int" where
  "demo_sizes h = (if h = Some ''a'' then 4 else 3)"

lemma encoder_plan_is_served_witness:
  "\<exists>s m'. try_schedule_encoder_inputs False (\<lambda>_. False) demo_images 0 12 100 0 (EncoderCacheManager 100) = Inr s \<and>
    0 \<le> num_new_tokens s \<and> num_new_tokens s \<le> 12 \<and>
    0 \<le> compute_budget s \<and> compute_budget s = 100 - (\<Sum>i \<leftarrow> inputs_to_schedule s. demo_sizes (input_hash demo_images i)) \<and>
    allocate_plan demo_images s = Inr m' \<and> ecm_inv demo_sizes m' \<and>
    (num_new_tokens s = 0 \<or>
      (\<exists>hs. gather_mm_embeddings
         (\<lambda>h. case map_of (cached m') h of None \<Rightarrow> False | Some ids \<Rightarrow> request_id demo_images \<in> ids)
         0 (num_new_tokens s) (mm_features demo_images) = Inr hs))"
  by (rule encoder_plan_is_served [where N = 100])
    (simp_all add: ecm_reachable.start demo_sizes_def sized_def demo_images_def get_num_embeds_def py_len_def
      feature_ok_def)

text \<open>C38. With EAGLE the drafter may need an encoder output that was not scheduled.  When the tokens
  of a step end exactly where a multi-modal input without an embedding mask begins, the input is looked
  at because of the shift, but its range in the step is empty, so it is not scheduled; the drafter,
  whose tokens are shifted by one, then fails with an encoder cache miss.\<close>

theorem drafter_misses_encoder_output:
  assumes "mm_features r = [f]" and "is_embed f = None" and "mm_offset f = computed + n" and "0 < n"
    and "0 < mm_length f" and "mm_length f \<le> budget" and "mm_length f \<le> num_free_slots m"
    and "map_of (cached m) (mm_identifier f) = None"
  shows "\<exists>s m'. try_schedule_encoder_inputs False remote r computed n budget 1 m = Inr s \<and>
    num_new_tokens s = n \<and> allocate_plan r s = Inr m' \<and>
    gather_mm_embeddings (\<lambda>h. map_of (cached m') h \<noteq> None) (computed + 1) n (mm_features r) = Inl AssertionError"
proof -
  let ?s = "\<lparr>num_new_tokens = n, compute_budget = budget, hashes_to_schedule = {},
           num_embeds_to_schedule = 0, inputs_to_schedule = [], external_inputs = [], plan_cache = m\<rparr>"
  have f: "get_num_embeds f = Inr (mm_length f)" by (simp add: get_num_embeds_def assms(2))
  have get: "py_get [f] 0 = Inr f" by (simp add: py_get_def py_len_def)
  have miss: "check_and_update_cache r 0 m = Inr (False, m)"
    by (simp add: check_and_update_cache_def assms(1,8) get Let_def)
  have ok: "can_allocate r 0 budget 0 m = Inr (True, m)"
    using assms(6,7) by (simp add: can_allocate_def get_num_encoder_embeds_def assms(1) get py_len_def f Let_def)
  have "try_schedule_encoder_inputs False remote r computed n budget 1 m = Inr ?s"
    using assms(2-5) by (simp add: try_schedule_encoder_inputs_def assms(1) plan_input_def f miss ok
      get_embeds_indices_in_range_def)
  moreover have "allocate_plan r ?s = Inr m" by (simp add: allocate_plan_def)
  moreover have "gather_mm_embeddings (\<lambda>h. map_of (cached m) h \<noteq> None) (computed + 1) n (mm_features r) = Inl AssertionError"
    using assms(2-5,8) by (simp add: assms(1) get_embeds_indices_in_range_def Let_def)
  ultimately show ?thesis by (intro exI [of _ ?s] exI [of _ m]) simp
qed

definition demo_image :: request where
  "demo_image = (demo_request (map int [0..<16]))\<lparr>mm_features :=
     [\<lparr>mm_identifier = Some ''b'', mm_offset = 10, mm_length = 4, is_embed = None\<rparr>]\<rparr>"

lemma drafter_misses_encoder_output_witness:
  "\<exists>s m'. try_schedule_encoder_inputs False (\<lambda>_. False) demo_image 2 8 100 1 (EncoderCacheManager 100) = Inr s \<and>
    num_new_tokens s = 8 \<and> allocate_plan demo_image s = Inr m' \<and>
    gather_mm_embeddings (\<lambda>h. map_of (cached m') h \<noteq> None) (2 + 1) 8 (mm_features demo_image) = Inl AssertionError"
  by (rule drafter_misses_encoder_output
      [of demo_image "\<lparr>mm_identifier = Some ''b'', mm_offset = 10, mm_length = 4, is_embed = None\<rparr>"])
    (simp_all add: demo_image_def EncoderCacheManager_def)

text \<open>C34. Accounting of the encoder cache.  In every state reachable by lookups, reservations,
  allocations, releases and resets, the free slots are the size of the cache less the sizes of all its
  entries, the freeable slots add the sizes of exactly the entries that no request refers to, and
  neither is negative or larger than the cache.\<close>

theorem encoder_cache_accounts:
  assumes "ecm_reachable sz N m" and "\<And>h. 0 \<le> sz h" and "0 \<le> N"
  shows "cache_size m = N \<and> num_free_slots m = N - used sz (cached m) \<and>
    num_freeable_slots m = num_free_slots m + used sz (freeable m) \<and>
    0 \<le> num_free_slots m \<and> num_free_slots m \<le> num_freeable_slots m \<and> num_free_slots m \<le> N \<and>
    distinct (map fst (freeable m)) \<and> fst ` set (freeable m) = unreferenced m"
proof -
  have inv: "ecm_inv sz m" "cache_size m = N" using ecm_reachable_inv [OF assms] by auto
  have "fst ` set (freeable m) = dom (map_of (freeable m))" by (simp add: dom_map_of_conv_image_fst)
  also have "\<dots> = unreferenced m" using inv(1) by (auto simp: ecm_inv_def domIff)
  finally show ?thesis
    using inv used_nonneg [OF assms(2), where al = "freeable m"] used_nonneg [OF assms(2), where al = "cached m"]
    by (simp add: ecm_inv_def)
qed

lemma encoder_cache_accounts_witness:
  "let m = snd (get_freed_mm_hashes (EncoderCacheManager 8)) in
    cache_size m = 8 \<and> num_free_slots m = 8 - used demo_sizes (cached m) \<and>
    num_freeable_slots m = num_free_slots m + used demo_sizes (freeable m) \<and>
    0 \<le> num_free_slots m \<and> num_free_slots m \<le> num_freeable_slots m \<and> num_free_slots m \<le> 8 \<and>
    distinct (map fst (freeable m)) \<and> fst ` set (freeable m) = unreferenced m"
  unfolding Let_def
  by (rule encoder_cache_accounts) (auto intro: ecm_reachable.intros ecm_step.drain simp: demo_sizes_def)

text \<open>A reservation in the encoder cache.  In a reachable state \<open>can_allocate\<close> never raises; it
  answers yes exactly when the item is within the compute budget and fits, together with what the step
  already reserved, in the freeable slots; then it has evicted the oldest unreferenced entries and no
  more of them than needed, and otherwise it changes nothing.\<close>

theorem reservation_evicts_oldest:
  assumes "ecm_reachable sz N m" and "\<And>h. 0 \<le> sz h" and "0 \<le> N" and "valid_input r i" and "sized sz r"
  shows "\<exists>ok m' k. can_allocate r i budget sched m = Inr (ok, m') \<and>
    (ok \<longleftrightarrow> sz (input_hash r i) \<le> budget \<and> sz (input_hash r i) + sched \<le> num_freeable_slots m) \<and>
    k \<le> length (freeable m) \<and> freeable m' = drop k (freeable m) \<and>
    freed m' = freed m @ map fst (take k (freeable m)) \<and>
    map_of (cached m') = map_of (cached m) |` (- set (map fst (take k (freeable m)))) \<and>
    (if ok then sz (input_hash r i) + sched \<le> num_free_slots m' \<and>
       (k = 0 \<or> num_free_slots m + oldest (k - 1) m < sz (input_hash r i) + sched)
     else m' = m)"
proof (cases "sz (input_hash r i) \<le> budget \<and> sz (input_hash r i) + sched \<le> num_freeable_slots m")
  case True
  have inv: "ecm_inv sz m" using ecm_reachable_inv [OF assms(1-3)] by simp
  note spec = can_allocate_spec [OF inv assms(2,4,5), of budget sched, unfolded if_P [OF True]]
  from spec obtain m' k where "can_allocate r i budget sched m = Inr (True, m')"
    "sz (input_hash r i) + sched \<le> num_free_slots m'" "k \<le> length (freeable m)" "freeable m' = drop k (freeable m)"
    "freed m' = freed m @ map fst (take k (freeable m))"
    "map_of (cached m') = map_of (cached m) |` (- set (map fst (take k (freeable m))))"
    "k = 0 \<or> num_free_slots m + oldest (k - 1) m < sz (input_hash r i) + sched"
    by blast
  then show ?thesis using True by - (rule exI [of _ True], rule exI [of _ m'], rule exI [of _ k], simp)
next
  case False
  have inv: "ecm_inv sz m" using ecm_reachable_inv [OF assms(1-3)] by simp
  have "can_allocate r i budget sched m = Inr (False, m)"
    using can_allocate_spec [OF inv assms(2,4,5), of budget sched, unfolded if_not_P [OF False]] .
  then show ?thesis
    using False by - (rule exI [of _ False], rule exI [of _ m], rule exI [of _ 0], simp add: restrict_map_def)
qed

lemma reservation_evicts_oldest_witness:
  "\<exists>ok m' k. can_allocate demo_images 1 10 2 (EncoderCacheManager 4) = Inr (ok, m') \<and>
    (ok \<longleftrightarrow> demo_sizes (input_hash demo_images 1) \<le> 10 \<and>
      demo_sizes (input_hash demo_images 1) + 2 \<le> num_freeable_slots (EncoderCacheManager 4)) \<and>
    k \<le> length (freeable (EncoderCacheManager 4)) \<and> freeable m' = drop k (freeable (EncoderCacheManager 4)) \<and>
    freed m' = freed (EncoderCacheManager 4) @ map fst (take k (freeable (EncoderCacheManager 4))) \<and>
    map_of (cached m') = map_of (cached (EncoderCacheManager 4)) |`
      (- set (map fst (take k (freeable (EncoderCacheManager 4))))) \<and>
    (if ok then demo_sizes (input_hash demo_images 1) + 2 \<le> num_free_slots m' \<and>
       (k = 0 \<or> num_free_slots (EncoderCacheManager 4) + oldest (k - 1) (EncoderCacheManager 4)
         < demo_sizes (input_hash demo_images 1) + 2)
     else m' = EncoderCacheManager 4)"
  by (rule reservation_evicts_oldest [where N = 4])
    (simp_all add: ecm_reachable.start demo_sizes_def sized_def valid_input_def demo_images_def get_num_embeds_def
      py_len_def)

section \<open>Encoder-decoder models\<close>

text \<open>\<open>_free_encoder_inputs\<close> with \<open>is_encoder_decoder\<close>.\<close>

definition ed_free_encoder_inputs :: "request \<Rightarrow> encdec_cache \<Rightarrow> encdec_cache res" where
  "ed_free_encoder_inputs r m =
     rfold (\<lambda>i m. let f = mm_features r ! nat i in
         if num_computed_tokens r > 0 then ed_free_encoder_input r i m
         else if mm_offset f + mm_length f \<le> num_computed_tokens r then ed_free_encoder_input r i m
         else Inr m)
       (ed_get_cached_input_ids r m) m"

text \<open>C39. The cache manager of encoder-decoder models does not keep its accounts.  The clean-up that the
  scheduler runs after every step of a request with computed tokens adds the sizes of all its inputs to
  the free slots each time, although they were allocated once: after one allocation and two steps there
  are more free slots than the cache has.\<close>

theorem encoder_decoder_slots_grow:
  assumes "mm_features r = [f]" and "is_embed f = None" and "0 < mm_length f" and "0 < num_computed_tokens r"
  shows "rbind (ed_allocate r 0 (EncoderDecoderCacheManager N)) (\<lambda>m.
      rbind (ed_free_encoder_inputs r m) (ed_free_encoder_inputs r)) =
    Inr \<lparr>ed_cache_size = N, ed_num_free_slots = N + mm_length f, allocated = [mm_identifier f], to_free = []\<rparr>"
proof -
  have "get_num_encoder_embeds r 0 = Inr (mm_length f)"
    by (simp add: get_num_encoder_embeds_def assms(1,2) get_num_embeds_def py_get_def py_len_def)
  moreover have "py_get [f] 0 = Inr f" by (simp add: py_get_def py_len_def)
  ultimately show ?thesis
    using assms(1,4) by (simp add: ed_allocate_def ed_free_encoder_inputs_def ed_free_encoder_input_def
      ed_get_cached_input_ids_def EncoderDecoderCacheManager_def)
qed

lemma encoder_decoder_slots_grow_witness:
  "rbind (ed_allocate (demo_image\<lparr>num_computed_tokens := 1\<rparr>) 0 (EncoderDecoderCacheManager 4)) (\<lambda>m.
      rbind (ed_free_encoder_inputs (demo_image\<lparr>num_computed_tokens := 1\<rparr>) m)
        (ed_free_encoder_inputs (demo_image\<lparr>num_computed_tokens := 1\<rparr>))) =
    Inr \<lparr>ed_cache_size = 4, ed_num_free_slots = 8, allocated = [Some ''b''], to_free = []\<rparr>"
  using encoder_decoder_slots_grow [of "demo_image\<lparr>num_computed_tokens := 1\<rparr>"
      "\<lparr>mm_identifier = Some ''b'', mm_offset = 10, mm_length = 4, is_embed = None\<rparr>" 4]
  by (simp add: demo_image_def)

end
