(* ===== verification/Request_Queue.thy ===== *)
theory Request_Queue
  imports Request_Hash "HOL-Library.Multiset" "HOL-Library.Product_Lexorder" "HOL-Library.List_Lexorder"
    "HOL-Library.Char_ord"
begin

text \<open>
  \<^verbatim>\<open>vllm/v1/core/sched/request_queue.py\<close>: the waiting queue of the scheduler, first come first
  served (a deque) or by priority (a binary heap of \<open>heapq\<close>).  A queue is the list of its elements
  as it is stored; \<open>lt\<close> is the order \<open>Request.__lt__\<close>.
\<close>

section \<open>The functions of heapq\<close>

text \<open>The library moves the new item only at the end; the place \<open>pos\<close> is free meanwhile.\<close>

function siftdown_loop :: "('a \<Rightarrow> 'a \<Rightarrow> bool) \<Rightarrow> 'a \<Rightarrow> nat \<Rightarrow> nat \<Rightarrow> 'a list \<Rightarrow> 'a list" where
  "siftdown_loop lt newitem startpos pos heap =
     (if pos > startpos then
        let parentpos = (pos - 1) div 2; parent = heap ! parentpos in
        if lt newitem parent then siftdown_loop lt newitem startpos parentpos (heap[pos := parent])
        else heap[pos := newitem]
      else heap[pos := newitem])"
  by pat_completeness auto
termination by (relation "measure (\<lambda>(_, _, _, pos, _). pos)") auto

declare siftdown_loop.simps [simp del]

definition siftdown :: "('a \<Rightarrow> 'a \<Rightarrow> bool) \<Rightarrow> nat \<Rightarrow> nat \<Rightarrow> 'a list \<Rightarrow> 'a list" where
  "siftdown lt startpos pos heap = siftdown_loop lt (heap ! pos) startpos pos heap"

function siftup_loop :: "('a \<Rightarrow> 'a \<Rightarrow> bool) \<Rightarrow> nat \<Rightarrow> 'a list \<Rightarrow> nat \<times> 'a list" where
  "siftup_loop lt pos heap =
     (let childpos = 2 * pos + 1; rightpos = childpos + 1 in
      if childpos < length heap then
        let c = (if rightpos < length heap \<and> \<not> lt (heap ! childpos) (heap ! rightpos) then rightpos else childpos)
        in siftup_loop lt c (heap[pos := heap ! c])
      else (pos, heap))"
  by pat_completeness auto
termination by (relation "measure (\<lambda>(_, pos, heap). length heap - pos)") (auto simp: Let_def)

declare siftup_loop.simps [simp del]

definition siftup :: "('a \<Rightarrow> 'a \<Rightarrow> bool) \<Rightarrow> nat \<Rightarrow> 'a list \<Rightarrow> 'a list" where
  "siftup lt pos heap =
     (let newitem = heap ! pos; (p, heap') = siftup_loop lt pos heap
      in siftdown lt pos p (heap'[p := newitem]))"

definition heappush :: "('a \<Rightarrow> 'a \<Rightarrow> bool) \<Rightarrow> 'a \<Rightarrow> 'a list \<Rightarrow> 'a list" where
  "heappush lt item heap = siftdown lt 0 (length heap) (heap @ [item])"

definition heappop :: "('a \<Rightarrow> 'a \<Rightarrow> bool) \<Rightarrow> 'a list \<Rightarrow> ('a \<times> 'a list) res" where
  "heappop lt heap =
     (if heap = [] then Inl IndexError
      else let lastelt = last heap; rest = butlast heap in
        if rest = [] then Inr (lastelt, rest)
        else Inr (rest ! 0, siftup lt 0 (rest[0 := lastelt])))"

definition heapify :: "('a \<Rightarrow> 'a \<Rightarrow> bool) \<Rightarrow> 'a list \<Rightarrow> 'a list" where
  "heapify lt x = fold (siftup lt) (rev [0..<length x div 2]) x"


text \<open>Moving items keeps the length and the items.\<close>

lemma length_siftdown_loop [simp]: "length (siftdown_loop lt x s pos heap) = length heap"
  by (induction lt x s pos heap rule: siftdown_loop.induct)
    (subst siftdown_loop.simps, simp add: Let_def)

lemma length_siftdown [simp]: "length (siftdown lt s pos heap) = length heap"
  by (simp add: siftdown_def)

lemma siftup_loop_length: "length (snd (siftup_loop lt pos heap)) = length heap"
  by (induction lt pos heap rule: siftup_loop.induct)
    (subst siftup_loop.simps, simp add: Let_def)

lemma length_siftup [simp]: "length (siftup lt pos heap) = length heap"
  using siftup_loop_length [of lt pos heap] by (auto simp: siftup_def Let_def split: prod.split)

lemma heappop_length: "heappop lt heap = Inr (x, rest) \<Longrightarrow> length rest < length heap"
  by (auto simp: heappop_def Let_def split: if_splits)

section \<open>The queues\<close>

datatype scheduling_policy = FCFS | PRIORITY

definition request_lt :: "request \<Rightarrow> request \<Rightarrow> bool" where
  "request_lt a b =
     (if priority a \<noteq> priority b then priority a < priority b
      else if arrival_time a \<noteq> arrival_time b then arrival_time a < arrival_time b
      else if request_id a \<noteq> request_id b then request_id a < request_id b
      else False)"

definition fcfs_add_request :: "'a \<Rightarrow> 'a list \<Rightarrow> 'a list" where
  "fcfs_add_request x q = q @ [x]"

definition fcfs_pop_request :: "'a list \<Rightarrow> ('a \<times> 'a list) res" where
  "fcfs_pop_request q = (case q of [] \<Rightarrow> Inl IndexError | x # xs \<Rightarrow> Inr (x, xs))"

definition fcfs_peek_request :: "'a list \<Rightarrow> 'a res" where
  "fcfs_peek_request q = (case q of [] \<Rightarrow> Inl IndexError | x # xs \<Rightarrow> Inr x)"

definition fcfs_prepend_request :: "'a \<Rightarrow> 'a list \<Rightarrow> 'a list" where
  "fcfs_prepend_request x q = x # q"

text \<open>\<open>extendleft\<close> puts the elements to the left one by one.\<close>

definition fcfs_prepend_requests :: "'a list \<Rightarrow> 'a list \<Rightarrow> 'a list" where
  "fcfs_prepend_requests xs q = fold (#) xs q"

definition fcfs_remove_request :: "'a \<Rightarrow> 'a list \<Rightarrow> 'a list res" where
  "fcfs_remove_request x q = (if x \<in> set q then Inr (remove1 x q) else Inl ValueError)"

definition fcfs_remove_requests :: "'a list \<Rightarrow> 'a list \<Rightarrow> 'a list" where
  "fcfs_remove_requests xs q = filter (\<lambda>r. r \<notin> set xs) q"

definition prio_pop_request :: "('a \<Rightarrow> 'a \<Rightarrow> bool) \<Rightarrow> 'a list \<Rightarrow> ('a \<times> 'a list) res" where
  "prio_pop_request lt q = (if q = [] then Inl IndexError else heappop lt q)"

definition prio_peek_request :: "'a list \<Rightarrow> 'a res" where
  "prio_peek_request q = (if q = [] then Inl IndexError else Inr (q ! 0))"

text \<open>The iteration of the priority queue pops from a copy of the heap.\<close>

function prio_iter :: "('a \<Rightarrow> 'a \<Rightarrow> bool) \<Rightarrow> 'a list \<Rightarrow> 'a list" where
  "prio_iter lt heap_copy =
     (case heappop lt heap_copy of Inl _ \<Rightarrow> [] | Inr (x, rest) \<Rightarrow> x # prio_iter lt rest)"
  by pat_completeness auto
termination by (relation "measure (\<lambda>(_, heap). length heap)") (auto dest: heappop_length)

declare prio_iter.simps [simp del]

definition prio_add_request :: "('a \<Rightarrow> 'a \<Rightarrow> bool) \<Rightarrow> 'a \<Rightarrow> 'a list \<Rightarrow> 'a list" where
  "prio_add_request lt x q = heappush lt x q"

definition prio_prepend_requests :: "('a \<Rightarrow> 'a \<Rightarrow> bool) \<Rightarrow> 'a list \<Rightarrow> 'a list \<Rightarrow> 'a list" where
  "prio_prepend_requests lt xs q = fold (prio_add_request lt) xs q"

definition prio_remove_request :: "('a \<Rightarrow> 'a \<Rightarrow> bool) \<Rightarrow> 'a \<Rightarrow> 'a list \<Rightarrow> 'a list res" where
  "prio_remove_request lt x q = (if x \<in> set q then Inr (heapify lt (remove1 x q)) else Inl ValueError)"

definition prio_remove_requests :: "('a \<Rightarrow> 'a \<Rightarrow> bool) \<Rightarrow> 'a list \<Rightarrow> 'a list \<Rightarrow> 'a list" where
  "prio_remove_requests lt xs q = heapify lt (filter (\<lambda>r. r \<notin> set xs) q)"

text \<open>The methods of \<open>RequestQueue\<close>, by the class of the queue.\<close>

definition q_add_request :: "scheduling_policy \<Rightarrow> ('a \<Rightarrow> 'a \<Rightarrow> bool) \<Rightarrow> 'a \<Rightarrow> 'a list \<Rightarrow> 'a list" where
  "q_add_request pol lt x q =
     (case pol of FCFS \<Rightarrow> fcfs_add_request x q | PRIORITY \<Rightarrow> prio_add_request lt x q)"

definition q_pop_request :: "scheduling_policy \<Rightarrow> ('a \<Rightarrow> 'a \<Rightarrow> bool) \<Rightarrow> 'a list \<Rightarrow> ('a \<times> 'a list) res" where
  "q_pop_request pol lt q = (case pol of FCFS \<Rightarrow> fcfs_pop_request q | PRIORITY \<Rightarrow> prio_pop_request lt q)"

definition q_peek_request :: "scheduling_policy \<Rightarrow> 'a list \<Rightarrow> 'a res" where
  "q_peek_request pol q = (case pol of FCFS \<Rightarrow> fcfs_peek_request q | PRIORITY \<Rightarrow> prio_peek_request q)"

definition q_prepend_request :: "scheduling_policy \<Rightarrow> ('a \<Rightarrow> 'a \<Rightarrow> bool) \<Rightarrow> 'a \<Rightarrow> 'a list \<Rightarrow> 'a list" where
  "q_prepend_request pol lt x q =
     (case pol of FCFS \<Rightarrow> fcfs_prepend_request x q | PRIORITY \<Rightarrow> prio_add_request lt x q)"

definition q_iter :: "scheduling_policy \<Rightarrow> ('a \<Rightarrow> 'a \<Rightarrow> bool) \<Rightarrow> 'a list \<Rightarrow> 'a list" where
  "q_iter pol lt q = (case pol of FCFS \<Rightarrow> q | PRIORITY \<Rightarrow> prio_iter lt q)"

definition q_prepend_requests ::
    "scheduling_policy \<Rightarrow> ('a \<Rightarrow> 'a \<Rightarrow> bool) \<Rightarrow> 'a list \<Rightarrow> 'a list \<Rightarrow> 'a list" where
  "q_prepend_requests pol lt requests q =
     (case pol of
        FCFS \<Rightarrow> fcfs_prepend_requests (q_iter pol lt requests) q
      | PRIORITY \<Rightarrow> prio_prepend_requests lt (q_iter pol lt requests) q)"

definition q_remove_request ::
    "scheduling_policy \<Rightarrow> ('a \<Rightarrow> 'a \<Rightarrow> bool) \<Rightarrow> 'a \<Rightarrow> 'a list \<Rightarrow> 'a list res" where
  "q_remove_request pol lt x q =
     (case pol of FCFS \<Rightarrow> fcfs_remove_request x q | PRIORITY \<Rightarrow> prio_remove_request lt x q)"

definition q_remove_requests ::
    "scheduling_policy \<Rightarrow> ('a \<Rightarrow> 'a \<Rightarrow> bool) \<Rightarrow> 'a list \<Rightarrow> 'a list \<Rightarrow> 'a list" where
  "q_remove_requests pol lt xs q =
     (case pol of FCFS \<Rightarrow> fcfs_remove_requests xs q | PRIORITY \<Rightarrow> prio_remove_requests lt xs q)"

end
