(* ===== verification/Request_Queue_Facts.thy ===== *)
theory Request_Queue_Facts
  imports Request_Queue
begin

text \<open>
  The functions of \<open>heapq\<close> keep the heap order and the items, so that the head of the heap is a
  minimum; both queues keep to one contract, an interface over the multiset of the requests.
\<close>

section \<open>Heap order\<close>

definition parent :: "nat \<Rightarrow> nat" where
  "parent i = (i - 1) div 2"

lemma parent_less: "0 < i \<Longrightarrow> parent i < i"
  by (simp add: parent_def)

lemma parent_le: "parent i \<le> i"
  by (simp add: parent_def)

lemma child_iff: "0 < i \<Longrightarrow> parent i = pos \<longleftrightarrow> i = 2 * pos + 1 \<or> i = 2 * pos + 2"
  unfolding parent_def by arith

text \<open>No item comes before its parent, for the parents from \<open>s\<close> on.\<close>

definition heap_from :: "('a \<Rightarrow> 'a \<Rightarrow> bool) \<Rightarrow> nat \<Rightarrow> 'a list \<Rightarrow> bool" where
  "heap_from lt s h \<longleftrightarrow> (\<forall>i < length h. 0 < i \<and> s \<le> parent i \<longrightarrow> \<not> lt (h ! i) (h ! parent i))"

text \<open>The same but for a free place, which orders its children after its parent.\<close>

definition hole :: "('a \<Rightarrow> 'a \<Rightarrow> bool) \<Rightarrow> nat \<Rightarrow> nat \<Rightarrow> 'a list \<Rightarrow> bool" where
  "hole lt s pos h \<longleftrightarrow> pos < length h \<and>
     (\<forall>i < length h. 0 < i \<and> s \<le> parent i \<and> i \<noteq> pos \<and> parent i \<noteq> pos \<longrightarrow> \<not> lt (h ! i) (h ! parent i)) \<and>
     (\<forall>i < length h. 0 < i \<and> parent i = pos \<and> 0 < pos \<and> s \<le> parent pos \<longrightarrow> \<not> lt (h ! i) (h ! parent pos))"

function below :: "nat \<Rightarrow> nat \<Rightarrow> bool" where
  "below s pos = (if pos \<le> s then pos = s else below s (parent pos))"
  by pat_completeness auto
termination by (relation "measure snd") (auto simp: parent_less)

declare below.simps [simp del]

lemma below_le: "below s pos \<Longrightarrow> s \<le> pos"
  using below.simps [of s pos] by (cases "pos \<le> s") auto

lemma below_parent: "below s pos \<Longrightarrow> s < pos \<Longrightarrow> below s (parent pos) \<and> s \<le> parent pos"
  using below.simps [of s pos] below_le by auto

lemma below_child: "below s pos \<Longrightarrow> parent c = pos \<Longrightarrow> 0 < c \<Longrightarrow> below s c"
  using below_le [of s pos] below.simps [of s c] parent_less [of c] by auto

lemma below_self [simp]: "below s s"
  by (simp add: below.simps)

lemma below_zero [simp]: "below 0 pos"
  by (induction pos rule: less_induct) (subst below.simps, simp add: parent_less)

lemma hole_edge:
  assumes "hole lt s pos h" and "i < length h" and "0 < i" and "s \<le> parent i" and "i \<noteq> pos" and "parent i \<noteq> pos"
  shows "\<not> lt (h ! i) (h ! parent i)"
  using assms by (simp add: hole_def)

lemma hole_across:
  assumes "hole lt s pos h" and "i < length h" and "0 < i" and "parent i = pos" and "0 < pos" and "s \<le> parent pos"
  shows "\<not> lt (h ! i) (h ! parent pos)"
  using assms by (simp add: hole_def)

lemma hole_update [simp]: "hole lt s pos (h[pos := x]) = hole lt s pos h"
  unfolding hole_def length_list_update
proof (intro conj_cong iff_allI imp_cong refl, goal_cases)
  case (1 i)
  then show ?case by simp
next
  case (2 i)
  then show ?case using parent_less [of i] parent_less [of pos] by simp
qed

lemma mset_move:
  assumes "i < length h" and "j < length h"
  shows "mset (h[i := h ! j, j := x]) = mset (h[i := x])"
proof (cases "i = j")
  case False
  let ?g = "h[i := x]"
  have "h[i := h ! j, j := x] = ?g[i := ?g ! j, j := ?g ! i]" using False assms by simp
  moreover have "mset (?g[i := ?g ! j, j := ?g ! i]) = mset ?g" using assms by (intro mset_swap) simp_all
  ultimately show ?thesis by simp
qed simp

locale heap_order =
  fixes lt :: "'a \<Rightarrow> 'a \<Rightarrow> bool"
  assumes lt_asym: "lt a b \<Longrightarrow> \<not> lt b a"
    and not_lt_trans: "\<not> lt b a \<Longrightarrow> \<not> lt c b \<Longrightarrow> \<not> lt c a"
begin

lemma hole_up:
  assumes h: "hole lt s pos h" and b: "below s pos" "s < pos" and x: "lt x (h ! parent pos)"
  shows "hole lt s (parent pos) (h[pos := h ! parent pos])"
    and "\<forall>i < length h. 0 < i \<and> parent i = parent pos \<longrightarrow> \<not> lt (h[pos := h ! parent pos] ! i) x"
proof -
  let ?p = "parent pos" and ?h = "h[pos := h ! parent pos]"
  have len: "pos < length h" using h by (simp add: hole_def)
  have p: "?p < pos" "?p < length h" "s \<le> ?p" using b below_parent parent_less [of pos] len by auto
  have up: "\<not> lt (h ! ?p) (h ! parent ?p)" if "0 < ?p" "s \<le> parent ?p"
    using hole_edge [OF h p(2) that] p(1) parent_less [OF that(1)] by simp
  have sib: "\<not> lt (h ! i) (h ! ?p)" if "i < length h" "0 < i" "parent i = ?p" "i \<noteq> pos" for i
    using hole_edge [OF h that(1,2)] that p by simp
  have down: "\<not> lt (h ! i) (h ! ?p)" if "i < length h" "0 < i" "parent i = pos" for i
    using hole_across [OF h that] p by simp
  show "hole lt s ?p ?h"
    unfolding hole_def length_list_update
  proof (intro conjI allI impI, goal_cases)
    case 1
    then show ?case using p by simp
  next
    case (2 i)
    then have i: "i \<noteq> pos" by auto
    show ?case
    proof (cases "parent i = pos")
      case True
      then show ?thesis using 2 down [of i] i len by simp
    next
      case False
      then show ?thesis using 2 hole_edge [OF h, of i] i by simp
    qed
  next
    case (3 i)
    then have q: "parent ?p < ?p" by (simp add: parent_less)
    show ?case
    proof (cases "i = pos")
      case True
      then show ?thesis using 3 p q up len by simp
    next
      case False
      then have "\<not> lt (h ! i) (h ! parent ?p)"
        using 3 up sib [of i] not_lt_trans [of "h ! ?p" "h ! parent ?p" "h ! i"] by simp
      then show ?thesis using False p q by simp
    qed
  qed
  show "\<forall>i < length h. 0 < i \<and> parent i = ?p \<longrightarrow> \<not> lt (?h ! i) x"
  proof (intro allI impI, elim conjE)
    fix i assume i: "i < length h" "0 < i" "parent i = ?p"
    have px: "\<not> lt (h ! ?p) x" by (rule lt_asym [OF x])
    show "\<not> lt (?h ! i) x"
    proof (cases "i = pos")
      case True
      then show ?thesis using px len by simp
    next
      case False
      then show ?thesis using not_lt_trans [OF px sib [OF i]] by simp
    qed
  qed
qed

lemma hole_fill:
  assumes "hole lt s pos h" and "\<forall>i < length h. 0 < i \<and> parent i = pos \<longrightarrow> \<not> lt (h ! i) x"
    and "0 < pos \<and> s \<le> parent pos \<longrightarrow> \<not> lt x (h ! parent pos)"
  shows "heap_from lt s (h[pos := x])"
  unfolding heap_from_def length_list_update
proof (intro allI impI, elim conjE)
  fix i assume i: "i < length h" "0 < i" "s \<le> parent i"
  have len: "pos < length h" using assms(1) by (simp add: hole_def)
  consider "i = pos" "parent i \<noteq> pos" | "i \<noteq> pos" "parent i = pos" | "i \<noteq> pos" "parent i \<noteq> pos"
    using parent_less [OF i(2)] by auto
  then show "\<not> lt (h[pos := x] ! i) (h[pos := x] ! parent i)"
    using assms(2,3) i len hole_edge [OF assms(1) i] by cases simp_all
qed

lemma siftdown_heap:
  assumes "hole lt s pos h" and "below s pos" and "\<forall>i < length h. 0 < i \<and> parent i = pos \<longrightarrow> \<not> lt (h ! i) x"
  shows "heap_from lt s (siftdown_loop lt x s pos h) \<and> mset (siftdown_loop lt x s pos h) = mset (h[pos := x])"
  using assms
proof (induction pos arbitrary: h rule: less_induct)
  case (less pos)
  show ?case
  proof (cases "s < pos \<and> lt x (h ! parent pos)")
    case True
    then have step: "siftdown_loop lt x s pos h = siftdown_loop lt x s (parent pos) (h[pos := h ! parent pos])"
      by (subst siftdown_loop.simps) (simp add: Let_def parent_def)
    have p: "parent pos < pos" "parent pos < length h" "pos < length h"
      using True less.prems(1) parent_less [of pos] by (auto simp: hole_def)
    have "below s (parent pos)" using below_parent less.prems(2) True by blast
    have up: "s < pos" "lt x (h ! parent pos)" using True by auto
    show ?thesis
      using less.IH [OF p(1) hole_up(1) [OF less.prems(1,2) up] \<open>below s (parent pos)\<close>]
        hole_up(2) [OF less.prems(1,2) up] mset_move [OF p(3,2)] by (simp add: step)
  next
    case False
    then have stop: "siftdown_loop lt x s pos h = h[pos := x]"
      by (subst siftdown_loop.simps) (simp add: Let_def parent_def)
    have "0 < pos \<and> s \<le> parent pos \<longrightarrow> \<not> lt x (h ! parent pos)"
      using False parent_less [of pos] by linarith
    from hole_fill [OF less.prems(1,3) this] show ?thesis by (simp add: stop)
  qed
qed

lemma hole_down:
  assumes h: "hole lt s pos h" and b: "below s pos" and c: "c < length h" "parent c = pos" "0 < c"
    and least: "\<forall>i < length h. 0 < i \<and> parent i = pos \<longrightarrow> \<not> lt (h ! i) (h ! c)"
  shows "hole lt s c (h[pos := h ! c])"
proof -
  have pc: "pos < c" "s \<le> pos" using c below_le [OF b] parent_less [of c] by auto
  then have len: "pos < length h" using c(1) by simp
  show ?thesis
    unfolding hole_def length_list_update
  proof (intro conjI allI impI, goal_cases)
    case 1
    then show ?case using c by simp
  next
    case (2 i)
    then have i: "i < length h" "0 < i" "s \<le> parent i" by auto
    consider "i = pos" "parent i \<noteq> pos" | "i \<noteq> pos" "parent i = pos" | "i \<noteq> pos" "parent i \<noteq> pos"
      using parent_less [OF i(2)] by auto
    then show ?case
    proof cases
      case 1
      then show ?thesis using hole_across [OF h c(1,3,2)] i len by simp
    next
      case 2
      then show ?thesis using least i len by simp
    next
      case 3
      then show ?thesis using hole_edge [OF h i] by simp
    qed
  next
    case (3 i)
    then have i: "i < length h" "0 < i" "parent i = c" by auto
    then have "i \<noteq> pos" using pc(1) parent_less [of i] by auto
    then show ?case using hole_edge [OF h i(1,2)] i(3) pc c(2) len by simp
  qed
qed

lemma siftup_loop_hole:
  assumes "hole lt s pos h" and "below s pos"
  shows "case siftup_loop lt pos h of (p, h') \<Rightarrow> hole lt s p h' \<and> below s p \<and> length h' = length h \<and>
    length h \<le> 2 * p + 1 \<and> (\<forall>x. mset (h'[p := x]) = mset (h[pos := x]))"
  using assms
proof (induction "length h - pos" arbitrary: h pos rule: less_induct)
  case less
  let ?l = "2 * pos + 1" and ?r = "2 * pos + 2"
  show ?case
  proof (cases "?l < length h")
    case True
    let ?c = "if ?r < length h \<and> \<not> lt (h ! ?l) (h ! ?r) then ?r else ?l"
    have step: "siftup_loop lt pos h = siftup_loop lt ?c (h[pos := h ! ?c])"
      using True by (subst siftup_loop.simps) (simp add: Let_def)
    have c: "?c < length h" "parent ?c = pos" "0 < ?c" "pos < length h" using True by (auto simp: parent_def)
    have "\<not> lt (h ! i) (h ! ?c)" if "i < length h" "0 < i" "parent i = pos" for i
    proof -
      have "i = ?l \<or> i = ?r" using that by (simp only: child_iff)
      then show ?thesis using lt_asym that(1) by (auto split: if_splits)
    qed
    then have least: "\<forall>i < length h. 0 < i \<and> parent i = pos \<longrightarrow> \<not> lt (h ! i) (h ! ?c)" by blast
    note hole = hole_down [OF less.prems c(1-3) least]
    have "length (h[pos := h ! ?c]) - ?c < length h - pos" using c by auto
    from less.hyps [OF this hole below_child [OF less.prems(2) c(2,3)]] show ?thesis
      unfolding step using mset_move [OF c(4,1)] by auto
  next
    case False
    then have "siftup_loop lt pos h = (pos, h)" by (subst siftup_loop.simps) (simp add: Let_def)
    then show ?thesis using less.prems False by simp
  qed
qed

lemma siftup_heap:
  assumes "heap_from lt (Suc s) h" and "s < length h"
  shows "heap_from lt s (siftup lt s h) \<and> mset (siftup lt s h) = mset h"
proof -
  have "\<not> s \<le> parent s" if "0 < s" using parent_less [OF that] by simp
  then have "hole lt s s h" using assms by (auto simp: hole_def heap_from_def Suc_le_eq)
  from siftup_loop_hole [OF this below_self] obtain p h' where
    loop: "siftup_loop lt s h = (p, h')" "hole lt s p h'" "below s p" "length h' = length h" "length h \<le> 2 * p + 1"
      "\<forall>x. mset (h'[p := x]) = mset (h[s := x])" by (auto split: prod.splits)
  let ?x = "h ! s"
  have p: "p < length h'" using loop(2) by (simp add: hole_def)
  have "\<not> i < length h" if "0 < i" "parent i = p" for i
  proof -
    have "i = 2 * p + 1 \<or> i = 2 * p + 2" using that by (simp only: child_iff)
    then show ?thesis using loop(5) by linarith
  qed
  then have "\<forall>i < length (h'[p := ?x]). 0 < i \<and> parent i = p \<longrightarrow> \<not> lt (h'[p := ?x] ! i) ?x"
    using loop(4) by auto
  from siftdown_heap [OF _ loop(3) this] loop(2)
  have "heap_from lt s (siftdown_loop lt ?x s p (h'[p := ?x])) \<and>
      mset (siftdown_loop lt ?x s p (h'[p := ?x])) = mset (h'[p := ?x, p := ?x])" by simp
  moreover have "siftup lt s h = siftdown_loop lt ?x s p (h'[p := ?x])"
    using p by (simp add: siftup_def siftdown_def loop(1) Let_def)
  ultimately show ?thesis using loop(6) by simp
qed

section \<open>The operations of a heap\<close>

lemma heappush_heap:
  assumes "heap_from lt 0 h"
  shows "heap_from lt 0 (heappush lt x h) \<and> mset (heappush lt x h) = add_mset x (mset h)"
proof -
  let ?h = "h @ [x]" and ?n = "length h"
  have "hole lt 0 ?n ?h"
    unfolding hole_def
  proof (intro conjI allI impI, goal_cases)
    case 1
    then show ?case by simp
  next
    case (2 i)
    then have "i < ?n" "parent i < ?n" using parent_less [of i] by auto
    then show ?case using assms 2 by (simp add: heap_from_def nth_append)
  next
    case (3 i)
    then show ?case using parent_less [of i] by simp
  qed
  moreover have "\<not> i < length ?h" if "0 < i" "parent i = ?n" for i using parent_less [of i] that by simp
  then have "\<forall>i < length ?h. 0 < i \<and> parent i = ?n \<longrightarrow> \<not> lt (?h ! i) x" by blast
  ultimately show ?thesis
    using siftdown_heap [of 0 ?n ?h x] by (simp add: heappush_def siftdown_def nth_append)
qed

lemma heap_least:
  assumes "heap_from lt 0 h" and "i < length h"
  shows "\<not> lt (h ! i) (h ! 0)"
  using assms(2)
proof (induction i rule: less_induct)
  case (less i)
  show ?case
  proof (cases "i = 0")
    case True
    then show ?thesis using lt_asym by blast
  next
    case False
    then have "parent i < i" by (simp add: parent_less)
    with less have "\<not> lt (h ! parent i) (h ! 0)" by simp
    moreover have "\<not> lt (h ! i) (h ! parent i)" using assms(1) less.prems False by (simp add: heap_from_def)
    ultimately show ?thesis by (rule not_lt_trans)
  qed
qed

lemma heap_from_butlast: "heap_from lt 0 h \<Longrightarrow> heap_from lt 0 (butlast h)"
  unfolding heap_from_def
proof (intro allI impI, elim conjE)
  fix i assume h: "\<forall>i < length h. 0 < i \<and> 0 \<le> parent i \<longrightarrow> \<not> lt (h ! i) (h ! parent i)"
    and i: "i < length (butlast h)" "0 < i"
  then have "parent i < length (butlast h)" using parent_less [of i] by linarith
  then show "\<not> lt (butlast h ! i) (butlast h ! parent i)" using h i by (simp add: nth_butlast)
qed

lemma heappop_heap:
  assumes "heap_from lt 0 h" and "h \<noteq> []"
  shows "\<exists>rest. heappop lt h = Inr (h ! 0, rest) \<and> heap_from lt 0 rest \<and> mset h = add_mset (h ! 0) (mset rest) \<and>
    (\<forall>y \<in> set h. \<not> lt y (h ! 0))"
proof -
  have least: "\<forall>y \<in> set h. \<not> lt y (h ! 0)" using heap_least [OF assms(1)] by (auto simp: in_set_conv_nth)
  have h: "h = butlast h @ [last h]" using assms(2) by simp
  show ?thesis
  proof (cases "butlast h = []")
    case True
    then have "h = [last h]" using h by simp
    then have "h ! 0 = last h" "mset h = {#last h#}" by (metis nth_Cons_0, metis mset_single_iff_right)
    then show ?thesis using True assms(2) least by (simp add: heappop_def heap_from_def)
  next
    case False
    let ?g = "butlast h"
    have "0 < length ?g" using False by blast
    then have g0: "?g ! 0 = h ! 0" "0 < length ?g" by (simp_all add: nth_butlast)
    have "heap_from lt (Suc 0) (?g[0 := last h])"
      using heap_from_butlast [OF assms(1)] by (auto simp: heap_from_def nth_list_update)
    then have up: "heap_from lt 0 (siftup lt 0 (?g[0 := last h]))"
      "mset (siftup lt 0 (?g[0 := last h])) = mset (?g[0 := last h])"
      using siftup_heap [of 0 "?g[0 := last h]"] g0(2) by simp_all
    have "mset h = add_mset (last h) (mset ?g)" by (subst h) simp
    also have "\<dots> = add_mset (h ! 0) (mset (?g[0 := last h]))"
      using g0 nth_mem_mset [OF g0(2)] by (simp add: mset_update)
    finally show ?thesis using False assms(2) least up g0(1) by (simp add: heappop_def Let_def)
  qed
qed

lemma heapify_heap: "heap_from lt 0 (heapify lt h) \<and> mset (heapify lt h) = mset h"
proof -
  have loop: "heap_from lt 0 (fold (siftup lt) (rev [0..<n]) g) \<and> mset (fold (siftup lt) (rev [0..<n]) g) = mset g"
    if "heap_from lt n g" "n \<le> length g div 2" for n g
    using that
  proof (induction n arbitrary: g)
    case (Suc n)
    have "n < length g" using Suc.prems(2) by linarith
    note up = siftup_heap [OF Suc.prems(1) this]
    have rev: "rev [0..<Suc n] = n # rev [0..<n]" by simp
    have "n \<le> length (siftup lt n g) div 2" using Suc.prems(2) by simp
    from Suc.IH [OF conjunct1 [OF up] this] conjunct2 [OF up]
    show ?case unfolding rev fold_Cons comp_def by simp
  qed simp
  have "parent i < length h div 2" if "i < length h" "0 < i" for i using that unfolding parent_def by linarith
  then have "heap_from lt (length h div 2) h" unfolding heap_from_def by (meson not_le)
  with loop show ?thesis by (simp add: heapify_def)
qed

text \<open>Iterating over a heap gives all items in order.\<close>

lemma prio_iter_sorted:
  "heap_from lt 0 h \<Longrightarrow> mset (prio_iter lt h) = mset h \<and> sorted_wrt (\<lambda>a b. \<not> lt b a) (prio_iter lt h)"
proof (induction "length h" arbitrary: h rule: less_induct)
  case less
  show ?case
  proof (cases "h = []")
    case True
    then show ?thesis by (simp add: prio_iter.simps heappop_def)
  next
    case False
    obtain rest where r: "heappop lt h = Inr (h ! 0, rest)" "heap_from lt 0 rest" "mset h = add_mset (h ! 0) (mset rest)"
      "\<forall>y \<in> set h. \<not> lt y (h ! 0)"
      using heappop_heap [OF less.prems False] by blast
    have step: "prio_iter lt h = h ! 0 # prio_iter lt rest" by (simp add: prio_iter.simps [of lt h] r(1))
    have IH: "mset (prio_iter lt rest) = mset rest" "sorted_wrt (\<lambda>a b. \<not> lt b a) (prio_iter lt rest)"
      using less.hyps [OF heappop_length [OF r(1)] r(2)] by auto
    have "set (prio_iter lt rest) \<subseteq> set h"
      using mset_eq_setD [OF IH(1)] r(3) by (metis set_mset_add_mset_insert set_mset_mset subset_insertI)
    then show ?thesis using IH r(3,4) by (auto simp: step)
  qed
qed

lemma push_all_heap:
  "heap_from lt 0 h \<Longrightarrow> heap_from lt 0 (fold (prio_add_request lt) xs h) \<and>
    mset (fold (prio_add_request lt) xs h) = mset xs + mset h"
proof (induction xs arbitrary: h)
  case (Cons x xs)
  from heappush_heap [OF Cons.prems, of x] Cons.IH [of "heappush lt x h"] show ?case
    by (simp add: prio_add_request_def)
qed simp

end

section \<open>The contract of a request queue\<close>

text \<open>
  What the scheduler relies on, whatever the policy: the requests of the queue as a multiset, and
  which of them is the next one.
\<close>

locale request_queue =
  fixes add_request :: "'a \<Rightarrow> 'q \<Rightarrow> 'q"
    and pop_request :: "'q \<Rightarrow> ('a \<times> 'q) res"
    and peek_request :: "'q \<Rightarrow> 'a res"
    and prepend_request :: "'a \<Rightarrow> 'q \<Rightarrow> 'q"
    and prepend_requests :: "'q \<Rightarrow> 'q \<Rightarrow> 'q"
    and remove_requests :: "'a list \<Rightarrow> 'q \<Rightarrow> 'q"
    and empty :: 'q
    and invar :: "'q \<Rightarrow> bool"
    and contents :: "'q \<Rightarrow> 'a multiset"
  assumes empty: "invar empty" "contents empty = {#}"
    and add: "invar q \<Longrightarrow> invar (add_request x q) \<and> contents (add_request x q) = add_mset x (contents q)"
    and prepend: "invar q \<Longrightarrow> invar (prepend_request x q) \<and> contents (prepend_request x q) = add_mset x (contents q)"
    and prepend_all: "invar q \<Longrightarrow> invar q' \<Longrightarrow>
      invar (prepend_requests q' q) \<and> contents (prepend_requests q' q) = contents q' + contents q"
    and remove: "invar q \<Longrightarrow> invar (remove_requests xs q) \<and>
      contents (remove_requests xs q) = filter_mset (\<lambda>x. x \<notin> set xs) (contents q)"
    and pop: "invar q \<Longrightarrow> contents q \<noteq> {#} \<Longrightarrow> \<exists>x q'. peek_request q = Inr x \<and> pop_request q = Inr (x, q') \<and>
      invar q' \<and> contents q = add_mset x (contents q')"
    and pop_empty: "invar q \<Longrightarrow> contents q = {#} \<Longrightarrow> pop_request q = Inl IndexError \<and> peek_request q = Inl IndexError"
begin

text \<open>Requests that are skipped and put back are all there again.\<close>

lemma skip_and_put_back:
  assumes "invar q" and "contents q \<noteq> {#}"
  shows "\<exists>x q'. pop_request q = Inr (x, q') \<and> invar (prepend_requests (prepend_request x empty) q') \<and>
    contents (prepend_requests (prepend_request x empty) q') = contents q"
proof -
  obtain x q' where p: "pop_request q = Inr (x, q')" "invar q'" "contents q = add_mset x (contents q')"
    using pop [OF assms] by blast
  have "invar (prepend_request x empty)" "contents (prepend_request x empty) = {#x#}"
    using prepend [OF empty(1), of x] empty(2) by simp_all
  with prepend_all [OF p(2)] p show ?thesis by simp
qed

end

text \<open>The order of the requests, on objects with different ids.\<close>

definition request_key :: "request \<Rightarrow> int \<times> rat \<times> string" where
  "request_key r = (priority r, arrival_time r, request_id r)"

lemma request_lt_key: "request_lt a b \<longleftrightarrow> request_key a < request_key b"
  by (auto simp: request_lt_def request_key_def less_prod_def)

interpretation by_key: heap_order "\<lambda>a b. request_lt (objs a) (objs b)" for objs :: "'a \<Rightarrow> request"
  by unfold_locales (auto simp: request_lt_key)

definition q_invar :: "scheduling_policy \<Rightarrow> ('a \<Rightarrow> 'a \<Rightarrow> bool) \<Rightarrow> 'a list \<Rightarrow> bool" where
  "q_invar pol lt q \<longleftrightarrow> (case pol of FCFS \<Rightarrow> True | PRIORITY \<Rightarrow> heap_from lt 0 q)"

lemma extendleft: "fold (#) xs q = rev xs @ q"
  by (induction xs arbitrary: q) simp_all

interpretation rq: request_queue
  "q_add_request pol (\<lambda>a b. request_lt (objs a) (objs b))" "q_pop_request pol (\<lambda>a b. request_lt (objs a) (objs b))"
  "q_peek_request pol" "q_prepend_request pol (\<lambda>a b. request_lt (objs a) (objs b))"
  "q_prepend_requests pol (\<lambda>a b. request_lt (objs a) (objs b))"
  "q_remove_requests pol (\<lambda>a b. request_lt (objs a) (objs b))"
  "[]" "q_invar pol (\<lambda>a b. request_lt (objs a) (objs b))" mset
  for pol and objs :: "'a \<Rightarrow> request"
proof (unfold_locales, goal_cases)
  case 1
  then show ?case by (simp add: q_invar_def heap_from_def split: scheduling_policy.split)
next
  case 2
  then show ?case by simp
next
  case (3 q x)
  then show ?case using by_key.heappush_heap [of objs q x]
    by (auto simp: q_invar_def q_add_request_def fcfs_add_request_def prio_add_request_def split: scheduling_policy.splits)
next
  case (4 q x)
  then show ?case using by_key.heappush_heap [of objs q x]
    by (auto simp: q_invar_def q_prepend_request_def fcfs_prepend_request_def prio_add_request_def
        split: scheduling_policy.splits)
next
  case (5 q q')
  then show ?case using by_key.push_all_heap [of objs q "prio_iter _ q'"] by_key.prio_iter_sorted [of objs q']
    by (cases pol) (simp_all add: q_invar_def q_prepend_requests_def q_iter_def fcfs_prepend_requests_def extendleft
        prio_prepend_requests_def)
next
  case (6 q xs)
  then show ?case using by_key.heapify_heap [of objs]
    by (cases pol) (simp_all add: q_invar_def q_remove_requests_def fcfs_remove_requests_def prio_remove_requests_def
        mset_filter)
next
  case (7 q)
  then show ?case using by_key.heappop_heap [of objs q]
    by (cases pol) (auto simp: q_invar_def q_pop_request_def q_peek_request_def fcfs_pop_request_def
        fcfs_peek_request_def prio_pop_request_def prio_peek_request_def neq_Nil_conv)
next
  case (8 q)
  then show ?case
    by (cases pol) (simp_all add: q_pop_request_def q_peek_request_def fcfs_pop_request_def
        fcfs_peek_request_def prio_pop_request_def prio_peek_request_def)
qed

end
