(* ===== verification/KV_Provider.thy ===== *)
theory KV_Provider
  imports KV_Properties
begin

text \<open>
  What the scheduler relies on in the KV cache manager, as an interface: a request that starts has no
  table, a running request has a table that covers its computed tokens, and the four calls of
  \<open>schedule\<close> keep to this without raising.  It holds for a manager with one full attention group
  and prefix caching, and for every manager without prefix caching.
\<close>

section \<open>Calls change only the tables and the pool\<close>

definition coord_same :: "coordinator \<Rightarrow> coordinator \<Rightarrow> bool" where
  "coord_same c c' \<longleftrightarrow> (\<exists>ms p. c' = c\<lparr>managers := ms, coord_pool := p\<rparr>)"

lemma coord_same_refl [simp]: "coord_same c c"
  unfolding coord_same_def by (intro exI [of _ "managers c"] exI [of _ "coord_pool c"]) simp

lemma coord_same_trans: "coord_same c c1 \<Longrightarrow> coord_same c1 c2 \<Longrightarrow> coord_same c c2"
proof -
  assume "coord_same c c1" "coord_same c1 c2"
  then obtain ms p ms' p' where "c1 = c\<lparr>managers := ms, coord_pool := p\<rparr>" "c2 = c1\<lparr>managers := ms', coord_pool := p'\<rparr>"
    unfolding coord_same_def by blast
  then have "c2 = c\<lparr>managers := ms', coord_pool := p'\<rparr>" by simp
  then show ?thesis unfolding coord_same_def by blast
qed

lemma on_managers_same: "on_managers f c = Inr (xs, c') \<Longrightarrow> coord_same c c'"
  by (auto simp: on_managers_def coord_same_def res_simps)

lemma coord_calls_same:
  "coord_remove_skipped_blocks rid n c = Inr c1 \<Longrightarrow> coord_same c c1"
  "coord_num_blocks_to_allocate rid n hits enc l main c = Inr (x, c2) \<Longrightarrow> coord_same c c2"
  "coord_allocate_new_computed_blocks rid hits loc ext c = Inr c3 \<Longrightarrow> coord_same c c3"
  "coord_allocate_new_blocks rid n main enc c = Inr (xs, c4) \<Longrightarrow> coord_same c c4"
  "coord_cache_blocks r n c = Inr c5 \<Longrightarrow> coord_same c c5"
  "coord_free rid c = Inr c6 \<Longrightarrow> coord_same c c6"
  "coord_get_num_common_prefix_blocks rid c = Inr (ns, c7) \<Longrightarrow> coord_same c c7"
  by (auto simp: coord_remove_skipped_blocks_def coord_num_blocks_to_allocate_def
      coord_allocate_new_computed_blocks_def coord_allocate_new_blocks_def coord_cache_blocks_def
      coord_free_def coord_get_num_common_prefix_blocks_def res_simps split: if_splits dest: on_managers_same)

text \<open>The calls of \<open>allocate_slots\<close> one after the other.\<close>

definition ends_same :: "kv_cache_manager \<Rightarrow> ('a \<times> kv_cache_manager) res \<Rightarrow> bool" where
  "ends_same k m \<longleftrightarrow> (\<forall>x k'. m = Inr (x, k') \<longrightarrow> (\<exists>c. k' = set_coord k c \<and> coord_same (kcm_coord k) c))"

lemma ends_same_bind:
  assumes "coord_same (kcm_coord k) c" and "\<And>c'. m = Inr c' \<Longrightarrow> coord_same c c'"
    and "\<And>c'. coord_same (kcm_coord k) c' \<Longrightarrow> ends_same k (f c')"
  shows "ends_same k (rbind m f)"
  using assms coord_same_trans [OF assms(1)] by (cases m) (auto simp: ends_same_def)

lemma ends_same_bind_pair:
  assumes "coord_same (kcm_coord k) c" and "\<And>x c'. m = Inr (x, c') \<Longrightarrow> coord_same c c'"
    and "\<And>x c'. coord_same (kcm_coord k) c' \<Longrightarrow> ends_same k (f x c')"
  shows "ends_same k (rbind m (\<lambda>(x, c'). f x c'))"
  using assms coord_same_trans [OF assms(1)] by (cases m) (fastforce simp: ends_same_def)+

lemma ends_same_return: "coord_same (kcm_coord k) c \<Longrightarrow> ends_same k (Inr (x, set_coord k c))"
  by (auto simp: ends_same_def)

lemma allocate_slots_same:
  assumes "allocate_slots r new n_hit hits look ext delay enc k = Inr (res, k')"
  shows "\<exists>c. k' = set_coord k c \<and> coord_same (kcm_coord k) c"
proof -
  have "ends_same k (allocate_slots r new n_hit hits look ext delay enc k)"
    unfolding allocate_slots_def Let_def
    apply (split if_split, intro conjI impI)
     apply (simp add: ends_same_def)
    apply (rule ends_same_bind [OF coord_same_refl], erule coord_calls_same)
    apply (rule ends_same_bind_pair, assumption, erule coord_calls_same)
    apply (split if_split, intro conjI impI, erule ends_same_return)
    apply (rule ends_same_bind, assumption, simp split: if_splits, erule coord_calls_same, simp)
    apply (rule ends_same_bind_pair, assumption, erule coord_calls_same)
    apply (split if_split, intro conjI impI, erule ends_same_return)
    apply (rule ends_same_bind, assumption, erule coord_calls_same)
    by (erule ends_same_return)
  with assms show ?thesis by (simp add: ends_same_def)
qed

section \<open>The interface\<close>

text \<open>
  What the scheduler relies on: \<open>kv_fine\<close> of the manager, \<open>kv_covers rid n k\<close> that the tables of a
  request hold its first \<open>n\<close> tokens, \<open>kv_new rid k\<close> that it has no tables, \<open>kv_hashed\<close> that the blocks
  of so many tokens are hashed, \<open>kv_hits\<close> that the blocks of a lookup can be taken over.
\<close>

record kv_contract =
  kv_fine :: "kv_cache_manager \<Rightarrow> bool"
  kv_covers :: "string \<Rightarrow> int \<Rightarrow> kv_cache_manager \<Rightarrow> bool"
  kv_new :: "string \<Rightarrow> kv_cache_manager \<Rightarrow> bool"
  kv_hashed :: "block_hash list \<Rightarrow> int \<Rightarrow> bool"
  kv_hits :: "string \<Rightarrow> kv_cache_blocks \<Rightarrow> int \<Rightarrow> kv_cache_manager \<Rightarrow> bool"
  kv_max_len :: int

definition keeps_tables :: "kv_contract \<Rightarrow> (string \<Rightarrow> bool) \<Rightarrow> kv_cache_manager \<Rightarrow> kv_cache_manager \<Rightarrow> bool" where
  "keeps_tables K P k k' \<longleftrightarrow> (\<forall>rid. P rid \<longrightarrow>
     (\<forall>n. kv_covers K rid n k \<longrightarrow> kv_covers K rid n k') \<and> (kv_new K rid k \<longrightarrow> kv_new K rid k'))"

locale kv_provider =
  fixes K :: kv_contract
  assumes shorter: "kv_covers K rid n k \<Longrightarrow> n' \<le> n \<Longrightarrow> kv_covers K rid n' k"
    and lookup: "kv_fine K k \<Longrightarrow> kv_new K (request_id r) k \<Longrightarrow> kv_hashed K (block_hashes r) (num_tokens r) \<Longrightarrow>
      0 < num_tokens r \<Longrightarrow>
      \<exists>hits n k'. get_computed_blocks r k = Some (Inr ((hits, n), k')) \<and> 0 \<le> n \<and> n < num_tokens r \<and>
        kv_fine K k' \<and> keeps_tables K (\<lambda>_. True) k k' \<and> kv_hits K (request_id r) hits n k'"
    and admit: "kv_fine K k \<Longrightarrow> kv_new K (request_id r) k \<Longrightarrow> kv_hashed K (block_hashes r) (num_tokens r) \<Longrightarrow>
      num_computed_tokens r = 0 \<Longrightarrow> kv_hits K (request_id r) hits n k \<Longrightarrow>
      0 \<le> n \<Longrightarrow> 0 < m \<Longrightarrow> n + m \<le> kv_max_len K \<Longrightarrow>
      \<exists>res k'. allocate_slots r m n (Some hits) 0 0 False 0 k = Inr (res, k') \<and> kv_fine K k' \<and>
        keeps_tables K (\<lambda>rid. rid \<noteq> request_id r) k k' \<and>
        (if res = None then kv_new K (request_id r) k' else kv_covers K (request_id r) (n + m) k')"
    and extend: "kv_fine K k \<Longrightarrow> kv_covers K (request_id r) (num_computed_tokens r) k \<Longrightarrow>
      kv_hashed K (block_hashes r) (num_tokens r) \<Longrightarrow> 0 \<le> num_computed_tokens r \<Longrightarrow>
      0 < m \<Longrightarrow> num_computed_tokens r + m \<le> kv_max_len K \<Longrightarrow> 0 \<le> look \<Longrightarrow>
      \<exists>res k'. allocate_slots r m 0 None look 0 False 0 k = Inr (res, k') \<and> kv_fine K k' \<and>
        keeps_tables K (\<lambda>rid. rid \<noteq> request_id r) k k' \<and>
        kv_covers K (request_id r) (num_computed_tokens r + (if res = None then 0 else m)) k'"
    and release: "kv_fine K k \<Longrightarrow> kv_covers K (request_id r) n k \<or> kv_new K (request_id r) k \<Longrightarrow> \<exists>k'. free_request r k = Inr k' \<and> kv_fine K k' \<and>
      keeps_tables K (\<lambda>rid. rid \<noteq> request_id r) k k' \<and> kv_new K (request_id r) k'"
    and prefix: "kv_fine K k \<Longrightarrow>
      \<exists>ns k'. kcm_get_num_common_prefix_blocks rid k = Inr (ns, k') \<and> kv_fine K k' \<and> keeps_tables K (\<lambda>_. True) k k'"

section \<open>Tables of requests\<close>

text \<open>What the contract means for the manager of the model.\<close>

definition covered :: "string \<Rightarrow> int \<Rightarrow> kv_cache_manager \<Rightarrow> bool" where
  "covered rid n k \<longleftrightarrow> (\<forall>m \<in> set (groups_of k). covers rid n m)"

definition fresh :: "string \<Rightarrow> kv_cache_manager \<Rightarrow> bool" where
  "fresh rid k \<longleftrightarrow>
     (\<forall>m \<in> set (groups_of k). blocks_of m rid = [] \<and> map_of (num_cached_block m) rid = None)"

text \<open>The block hashes are complete and different.\<close>

definition hashed :: "bool \<Rightarrow> int \<Rightarrow> block_hash list \<Rightarrow> int \<Rightarrow> bool" where
  "hashed caching hbs hs n \<longleftrightarrow> (caching \<longrightarrow> py_len hs = n div hbs \<and> distinct hs)"

definition same_tables :: "(string \<Rightarrow> bool) \<Rightarrow> kv_cache_manager \<Rightarrow> kv_cache_manager \<Rightarrow> bool" where
  "same_tables P k k' \<longleftrightarrow>
     (\<forall>rid. P rid \<longrightarrow> (\<forall>n. covered rid n k \<longrightarrow> covered rid n k') \<and> (fresh rid k \<longrightarrow> fresh rid k'))"

lemma others_same_tables:
  assumes "length (groups_of k') = length (groups_of k)"
    and "\<forall>j < length (groups_of k). others_same rid (groups_of k ! j) (groups_of k' ! j)"
  shows "same_tables (\<lambda>r. r \<noteq> rid) k k'"
proof -
  have "covers r n (groups_of k' ! j) = covers r n (groups_of k ! j)"
    "blocks_of (groups_of k' ! j) r = blocks_of (groups_of k ! j) r"
    "map_of (num_cached_block (groups_of k' ! j)) r = map_of (num_cached_block (groups_of k ! j)) r"
    if "j < length (groups_of k)" "r \<noteq> rid" for r n j
    using assms(2) that by (simp_all add: others_same_def covers_def mgr_conf_def)
  then show ?thesis
    using assms(1) by (simp add: same_tables_def covered_def fresh_def all_set_conv_all_nth)
qed

lemma covered_mono: "covered rid n k \<Longrightarrow> n' \<le> n \<Longrightarrow> covered rid n' k"
  by (auto simp: covered_def covers_def intro: order_trans)

section \<open>The managers considered\<close>

text \<open>\<open>L\<close> is the maximal model length, \<open>hbs\<close> the block size of the hashes.\<close>

definition kv_conf :: "bool \<Rightarrow> int \<Rightarrow> int \<Rightarrow> kv_cache_manager \<Rightarrow> bool" where
  "kv_conf caching hbs L k \<longleftrightarrow> kcm_caching k = caching \<and> hash_block_size (pool_of k) = hbs \<and>
     kcm_max_model_len k = L \<and> (kcm_log_stats k \<longrightarrow> kcm_stats k \<noteq> None) \<and>
     (\<forall>m \<in> set (groups_of k). positive_window (mgr_spec m)) \<and>
     (caching \<longrightarrow> (\<exists>m g. unitary_full k m g))"

definition kv_ok :: "bool \<Rightarrow> int \<Rightarrow> int \<Rightarrow> kv_cache_manager \<Rightarrow> bool" where
  "kv_ok caching hbs L k \<longleftrightarrow> (\<exists>free. kcm_inv k free) \<and> kv_conf caching hbs L k"

lemma kv_conf_set_coord:
  assumes conf: "kv_conf caching hbs L k" and c: "coord_same (kcm_coord k) c" "k' = set_coord k c"
    and p: "pool_conf (pool_of k') = pool_conf (pool_of k)" and len: "length (groups_of k') = length (groups_of k)"
    and ms: "\<forall>j < length (groups_of k). mgr_conf (groups_of k' ! j) = mgr_conf (groups_of k ! j)"
  shows "kv_conf caching hbs L k'"
proof -
  obtain ms' p' where c': "c = (kcm_coord k)\<lparr>managers := ms', coord_pool := p'\<rparr>" using c(1) by (auto simp: coord_same_def)
  have k': "kcm_caching k' = kcm_caching k" "kcm_max_model_len k' = kcm_max_model_len k"
    "kcm_log_stats k' = kcm_log_stats k" "kcm_stats k' = kcm_stats k"
    using c(2) by (simp_all add: set_coord_def)
  have "\<forall>m \<in> set (groups_of k'). positive_window (mgr_spec m)"
  proof
    fix m assume "m \<in> set (groups_of k')"
    then obtain j where "j < length (groups_of k)" "m = groups_of k' ! j" using len by (auto simp: in_set_conv_nth)
    then have "mgr_spec m = mgr_spec (groups_of k ! j)" "groups_of k ! j \<in> set (groups_of k)"
      using ms by (auto simp: mgr_conf_def)
    then show "positive_window (mgr_spec m)" using conf by (auto simp: kv_conf_def)
  qed
  moreover have "\<exists>m' g. unitary_full k' m' g" if u: "unitary_full k m g" for m g
  proof -
    obtain m' where m': "groups_of k' = [m']" using u len by (auto simp: unitary_full_def length_Suc_conv)
    then have "mgr_conf m' = mgr_conf m" using u ms by (auto simp: unitary_full_def)
    then have "unitary_full k' m' g"
      using u m' confD(4) [OF p] k'(1) c(2) unfolding unitary_full_def c' by (simp add: mgr_conf_def set_coord_def)
    then show ?thesis by blast
  qed
  ultimately show ?thesis using conf confD(4) [OF p] unfolding kv_conf_def k' by auto
qed

lemma kv_ok_step:
  assumes "kv_ok caching hbs L k" and "kcm_inv k' free'" and "coord_same (kcm_coord k) c" "k' = set_coord k c"
    and "pool_conf (pool_of k') = pool_conf (pool_of k)" and "length (groups_of k') = length (groups_of k)"
    and same: "\<forall>j < length (groups_of k). others_same rid (groups_of k ! j) (groups_of k' ! j)"
  shows "kv_ok caching hbs L k'"
proof -
  have "kv_conf caching hbs L k" using assms(1) by (simp add: kv_ok_def)
  from kv_conf_set_coord [OF this assms(3-6)] same assms(2) show ?thesis
    by (auto simp: kv_ok_def others_same_def)
qed

lemma kv_ok_plain:
  "kv_ok caching hbs L k \<Longrightarrow> m \<in> set (groups_of k) \<Longrightarrow> plain m \<and> positive_window (mgr_spec m)"
  by (auto simp: kv_ok_def kcm_inv_def group_ok_def kv_conf_def)

section \<open>The calls of the scheduler\<close>

lemma fresh_continues:
  assumes "kv_ok caching hbs L k" and "fresh rid k" and "m \<in> set (groups_of k)"
  shows "continues rid 0 m"
proof (rule covers_continues [where n = 0])
  show "covers rid 0 m" using kv_ok_plain [OF assms(1,3)] by (simp add: covers_def plain_def py_len_def)
qed (use kv_ok_plain [OF assms(1,3)] in simp_all)

lemma slots_call:
  assumes ok: "kv_ok caching hbs L k" and new: "0 < new"
    and l: "l = num_computed_tokens r + n_hit" "0 \<le> l" "l + new \<le> L" and look: "0 \<le> look"
    and sched: "schedulable k (request_id r) l hits" and hash: "hashed caching hbs (block_hashes r) (num_tokens r)"
  shows "\<exists>res k'. allocate_slots r new n_hit hits look 0 False 0 k = Inr (res, k') \<and> kv_ok caching hbs L k' \<and>
    same_tables (\<lambda>rid. rid \<noteq> request_id r) k k' \<and>
    (if res = None then same_tables (\<lambda>rid. rid = request_id r) k k' else covered (request_id r) (l + new) k')"
proof -
  obtain free where inv: "kcm_inv k free" using ok by (auto simp: kv_ok_def)
  have conf: "kcm_max_model_len k = L" "kcm_caching k = caching" "hash_block_size (pool_of k) = hbs"
    using ok by (simp_all add: kv_ok_def kv_conf_def)
  have hash': "kcm_caching k \<Longrightarrow> py_len (block_hashes r) = num_tokens r div hash_block_size (pool_of k)"
    using hash by (simp add: hashed_def conf)
  obtain res k' free' where 1: "allocate_slots r new n_hit hits look 0 False 0 k = Inr (res, k')" "kcm_inv k' free'"
    "slots_result (request_id r) (min (l + new + look) L) l hits k res k'"
    using allocate_slots_inv [OF inv new l(1,2) _ look sched hash' refl] l(3) unfolding conf by blast
  have same: "pool_conf (pool_of k') = pool_conf (pool_of k)" "length (groups_of k') = length (groups_of k)"
    "\<forall>j < length (groups_of k). others_same (request_id r) (groups_of k ! j) (groups_of k' ! j)"
    using 1(3) by (simp_all add: slots_result_def)
  obtain c where c: "k' = set_coord k c" "coord_same (kcm_coord k) c" using allocate_slots_same [OF 1(1)] by blast
  have ok': "kv_ok caching hbs L k'" by (rule kv_ok_step [OF ok 1(2) c(2,1) same])
  have "same_tables (\<lambda>rid. rid = request_id r) k k'" if "res = None"
  proof -
    have "length (blocks_of (groups_of k' ! j) (request_id r)) = length (blocks_of (groups_of k ! j) (request_id r))"
      "num_cached_block (groups_of k' ! j) = num_cached_block (groups_of k ! j)"
      "mgr_block_size (groups_of k' ! j) = mgr_block_size (groups_of k ! j)" if "j < length (groups_of k)" for j
      using 1(3) that \<open>res = None\<close> by (auto simp: slots_result_def trimmed_def others_same_def mgr_conf_def dest: list_all2_lengthD)
    then show ?thesis using same(2)
      by (simp add: same_tables_def covered_def fresh_def all_set_conv_all_nth covers_def py_len_def flip: length_0_conv)
  qed
  moreover have "covered (request_id r) (l + new) k'" if res: "res \<noteq> None"
  proof -
    have "covered (request_id r) (min (l + new + look) L) k'"
      using 1(3) res same(2) by (auto simp: slots_result_def slots_granted_def covered_def all_set_conv_all_nth)
    then show ?thesis using l(3) look by (auto elim: covered_mono)
  qed
  ultimately show ?thesis using 1(1) ok' others_same_tables [OF same(2,3)] by auto
qed

lemma extend_call:
  assumes ok: "kv_ok caching hbs L k" and cov: "covered (request_id r) (num_computed_tokens r) k"
    and "0 \<le> num_computed_tokens r" and "0 < new" and "num_computed_tokens r + new \<le> L" and "0 \<le> look"
    and "hashed caching hbs (block_hashes r) (num_tokens r)"
  shows "\<exists>res k'. allocate_slots r new 0 None look 0 False 0 k = Inr (res, k') \<and> kv_ok caching hbs L k' \<and>
    same_tables (\<lambda>rid. rid \<noteq> request_id r) k k' \<and>
    covered (request_id r) (num_computed_tokens r + (if res = None then 0 else new)) k'"
proof -
  have "continues (request_id r) (num_computed_tokens r) m" if "m \<in> set (groups_of k)" for m
    using covers_continues [OF _ assms(3) order_refl] cov that kv_ok_plain [OF ok that] by (auto simp: covered_def)
  then have "schedulable k (request_id r) (num_computed_tokens r) None"
    using ok by (auto simp: schedulable_def no_hits_def hit_lists_def kv_ok_def kcm_inv_def)
  from slots_call [OF ok assms(4) _ assms(3,5,6) this assms(7), of 0] obtain res k' where
    "allocate_slots r new 0 None look 0 False 0 k = Inr (res, k')" "kv_ok caching hbs L k'"
    "same_tables (\<lambda>rid. rid \<noteq> request_id r) k k'"
    "if res = None then same_tables (\<lambda>rid. rid = request_id r) k k' else covered (request_id r) (num_computed_tokens r + new) k'"
    by auto
  with cov show ?thesis by (auto simp: same_tables_def split: if_splits)
qed

text \<open>A lookup only counts; what it returns can be allocated.\<close>

definition hits_ok :: "string \<Rightarrow> kv_cache_blocks \<Rightarrow> int \<Rightarrow> kv_cache_manager \<Rightarrow> bool" where
  "hits_ok rid hits n k \<longleftrightarrow> schedulable k rid n (Some hits)"

lemma fresh_no_hits:
  assumes "kv_ok caching hbs L k" and "fresh rid k"
  shows "schedulable k rid 0 (Some (EmptyKVCacheBlocks (num_kv_cache_groups k)))"
  using fresh_continues [OF assms] assms(1)
  by (auto simp: schedulable_def no_hits_def hit_lists_def kv_ok_def kcm_inv_def)

lemma kv_ok_stats:
  assumes "kv_ok caching hbs L k" and "kcm_log_stats k \<longrightarrow> st \<noteq> None"
  shows "kv_ok caching hbs L (k\<lparr>kcm_stats := st\<rparr>)"
proof -
  have "unitary_full (k\<lparr>kcm_stats := st\<rparr>) m g = unitary_full k m g" for m g
    by (simp add: unitary_full_def groups_of_def pool_of_def)
  then show ?thesis
    using assms by (simp add: kv_ok_def kv_conf_def kcm_inv_stats) (simp add: groups_of_def pool_of_def)
qed

lemma lookup_call:
  assumes ok: "kv_ok caching hbs L k" and f: "fresh (request_id r) k" and h: "hashed caching hbs (block_hashes r) (num_tokens r)"
    and t: "0 < num_tokens r"
  shows "\<exists>hits n st. get_computed_blocks r k = Some (Inr ((hits, n), k\<lparr>kcm_stats := st\<rparr>)) \<and>
    0 \<le> n \<and> n < num_tokens r \<and> kv_ok caching hbs L (k\<lparr>kcm_stats := st\<rparr>) \<and>
    hits_ok (request_id r) hits n (k\<lparr>kcm_stats := st\<rparr>)"
proof -
  have stats: "kcm_log_stats k \<longrightarrow> kcm_stats k \<noteq> None" and conf: "kcm_caching k = caching"
    using ok by (simp_all add: kv_ok_def kv_conf_def)
  have k: "k\<lparr>kcm_stats := kcm_stats k\<rparr> = k" by simp
  show ?thesis
  proof (cases "\<not> caching \<or> skip_reading_prefix_cache r")
    case True
    then show ?thesis using ok fresh_no_hits [OF ok f] t conf
      by (intro exI [of _ "EmptyKVCacheBlocks (num_kv_cache_groups k)"] exI [of _ 0] exI [of _ "kcm_stats k"])
        (auto simp: get_computed_blocks_def hits_ok_def)
  next
    case False
    then have caching and read: "\<not> skip_reading_prefix_cache r" by auto
    obtain m g free where u: "unitary_full k m g" and inv: "kcm_inv k free"
      using ok \<open>caching\<close> by (auto simp: kv_ok_def kv_conf_def)
    let ?bs = "unitary_block_size (kcm_coord k)"
    have bs: "hash_block_size (pool_of k) = ?bs" "0 < ?bs" "?bs = hbs" "groups_of k = [m]"
      using u inv ok by (auto simp: unitary_full_def kcm_inv_def kv_ok_def kv_conf_def)
    have h': "py_len (block_hashes r) = num_tokens r div ?bs" "distinct (block_hashes r)"
      using h \<open>caching\<close> bs(3) by (simp_all add: hashed_def)
    obtain hits n j k1 where 1: "get_computed_blocks r k = Some (Inr ((hits, n * ?bs), k1))"
      "prefix_hit k r j n hits" "kcm_coord k1 = kcm_coord k"
      "hits = create_kv_cache_blocks k (group_blocks hits)" "num_kv_cache_groups k1 = num_kv_cache_groups k"
      using get_computed_full [OF inv u t h'(1) read stats] by blast
    have shared: "is_shared_empty hits \<Longrightarrow> hits = EmptyKVCacheBlocks (num_kv_cache_groups k)"
      using 1(4) by (metis create_kv_cache_blocks_def is_shared_empty.simps(2))
    have fr: "map_of (num_cached_block m) (request_id r) = None" "blocks_of m (request_id r) = []"
      using f bs(4) by (simp_all add: fresh_def)
    have sched: "schedulable k1 (request_id r) (n * ?bs) (Some hits)"
      by (rule prefix_hit_schedulable [OF inv u 1(2) h'(1) t h'(2) fr shared 1(3,5)])
    obtain st where k1: "k1 = k\<lparr>kcm_stats := st\<rparr>" using lookup_coord [OF 1(1)] by blast
    have "kcm_log_stats k \<longrightarrow> st \<noteq> None"
      using 1(1) k1 conf \<open>caching\<close> read stats
      by (auto simp: get_computed_blocks_def Let_def res_simps split: if_splits option.splits dest!: arg_cong [where f = kcm_stats] dest: sym)
    then have ok1: "kv_ok caching hbs L k1" unfolding k1 by (rule kv_ok_stats [OF ok])
    have n: "0 \<le> n" "n \<le> (num_tokens r - 1) div ?bs"
    proof -
      have "0 \<le> (num_tokens r - 1) div ?bs" using t bs by (simp add: pos_imp_zdiv_nonneg_iff)
      then show "0 \<le> n" "n \<le> (num_tokens r - 1) div ?bs"
        using 1(2) by (auto simp: prefix_hit_def longest_run_def split: if_splits)
    qed
    have "n * ?bs \<le> (num_tokens r - 1) div ?bs * ?bs" using n(2) bs(2) by simp
    also have "\<dots> \<le> num_tokens r - 1"
      using div_mult_mod_eq [of "num_tokens r - 1" ?bs] pos_mod_sign [OF bs(2), of "num_tokens r - 1"] by linarith
    finally have "n * ?bs < num_tokens r" by simp
    then show ?thesis using 1(1) k1 ok1 sched n(1) bs(2) by (auto simp: hits_ok_def)
  qed
qed

lemma tables_stats: "same_tables P k (k\<lparr>kcm_stats := st\<rparr>)"
  by (simp add: same_tables_def covered_def fresh_def groups_of_def)

lemma release_call:
  assumes ok: "kv_ok caching hbs L k"
  shows "\<exists>k'. free_request r k = Inr k' \<and> kv_ok caching hbs L k' \<and>
    same_tables (\<lambda>rid. rid \<noteq> request_id r) k k' \<and> fresh (request_id r) k'"
proof -
  obtain free where inv: "kcm_inv k free" using ok by (auto simp: kv_ok_def)
  obtain k' free' where 1: "free_request r k = Inr k'" "kcm_inv k' free'" "length (groups_of k') = length (groups_of k)"
    "pool_conf (pool_of k') = pool_conf (pool_of k)"
    "\<forall>j < length (groups_of k). others_same (request_id r) (groups_of k ! j) (groups_of k' ! j) \<and>
       map_of (req_to_blocks (groups_of k' ! j)) (request_id r) = None \<and>
       map_of (num_cached_block (groups_of k' ! j)) (request_id r) = None"
    using free_kcm_inv [OF inv, of r] by blast
  obtain c where c: "k' = set_coord k c" "coord_same (kcm_coord k) c"
    using 1(1) coord_calls_same(6) by (auto simp: free_request_def res_simps)
  have same: "\<forall>j < length (groups_of k). others_same (request_id r) (groups_of k ! j) (groups_of k' ! j)"
    using 1(5) by blast
  have "fresh (request_id r) k'" using 1(3,5) by (simp add: fresh_def all_set_conv_all_nth blocks_of_def)
  with 1(1) kv_ok_step [OF ok 1(2) c(2,1) 1(4,3) same] others_same_tables [OF 1(3) same] show ?thesis by blast
qed

lemma prefix_call:
  assumes ok: "kv_ok caching hbs L k"
  shows "\<exists>ns k'. kcm_get_num_common_prefix_blocks rid k = Inr (ns, k') \<and> kv_ok caching hbs L k' \<and>
    same_tables (\<lambda>_. True) k k'"
proof (cases "coord_class (kcm_coord k) = KVCacheCoordinatorNoPrefixCache")
  case True
  have "set_coord k (kcm_coord k) = k" by (simp add: set_coord_def)
  then show ?thesis using True ok
    by (simp add: kcm_get_num_common_prefix_blocks_def coord_get_num_common_prefix_blocks_def same_tables_def)
next
  case False
  obtain free where inv: "kcm_inv k free" using ok by (auto simp: kv_ok_def)
  let ?c = "kcm_coord k"
  let ?f = "\<lambda>_ :: int. \<lambda>(m, p). let (n, m') = get_num_common_prefix_blocks m p rid in Inr (n, m', p)"
  let ?A = "\<lambda>(_ :: int) (_ :: manager list) (_ :: block_pool) (_ :: bref list). True"
  let ?P = "\<lambda>(_ :: int) m (_ :: int) m'. m' = m \<or> m' = default_entry rid m"
  have "step_ok ?f ?A ?P"
    unfolding step_ok_def
  proof (intro allI impI)
    fix i :: int and m :: manager and p free others
    assume "mgr_inv m p free others"
    then show "\<exists>x m' p' free'. ?f i (m, p) = Inr (x, m', p') \<and> mgr_inv m' p' free' others \<and>
      frame m others p p' \<and> ?A (i + 1) ms p' free' \<and> ?P i m x m'" for ms
      using default_entry_inv [of m p free others rid] frame_refl [of m others p]
      by (cases "mgr_class m \<in> {FullAttentionManager, SinkFullAttentionManager}")
        (auto simp: get_num_common_prefix_blocks_def Let_def)
  qed
  then obtain xs ms p free' where 1: "on_managers ?f ?c = Inr (xs, ?c\<lparr>managers := ms, coord_pool := p\<rparr>)"
    "coord_inv ms p free'" "pool_conf p = pool_conf (coord_pool ?c)" "length ms = length (managers ?c)"
    "\<And>j. j < length (managers ?c) \<Longrightarrow> ?P (int j) (managers ?c ! j) (xs ! j) (ms ! j)"
    by (rule on_managers_rule [where c = ?c]) (use inv in \<open>auto simp: kcm_inv_def groups_of_def pool_of_def\<close>)
  define k' where "k' = set_coord k (?c\<lparr>managers := ms, coord_pool := p\<rparr>)"
  have k': "groups_of k' = ms" "pool_of k' = p" by (simp_all add: k'_def groups_of_def pool_of_def set_coord_def)
  have len: "length (groups_of k') = length (groups_of k)" using 1(4) by (subst k'(1)) (simp add: groups_of_def)
  have ms: "groups_of k' ! j = groups_of k ! j \<or> groups_of k' ! j = default_entry rid (groups_of k ! j)"
    if "j < length (groups_of k)" for j using 1(5) [of j] that by (subst (1 2) k'(1)) (simp add: groups_of_def)
  have blocks: "blocks_of (default_entry rid m) r = blocks_of m r" "num_cached_block (default_entry rid m) = num_cached_block m"
    "mgr_block_size (default_entry rid m) = mgr_block_size m" for m r
    by (auto simp: default_entry_def blocks_of_def set_blocks_def update_conv')
  have same: "\<forall>j < length (groups_of k). others_same rid (groups_of k ! j) (groups_of k' ! j)"
    using ms by (metis others_same_default others_same_refl)
  have "blocks_of (groups_of k' ! j) r = blocks_of (groups_of k ! j) r"
    "num_cached_block (groups_of k' ! j) = num_cached_block (groups_of k ! j)"
    "mgr_block_size (groups_of k' ! j) = mgr_block_size (groups_of k ! j)" if "j < length (groups_of k)" for j r
    using ms [OF that] blocks by metis+
  then have "same_tables (\<lambda>_. True) k k'"
    using len by (simp add: same_tables_def covered_def fresh_def all_set_conv_all_nth covers_def)
  moreover have "kcm_inv k' free'"
    unfolding k'_def using same 1(2-4)
    by (intro kcm_inv_set [OF inv]) (simp_all add: pool_of_def groups_of_def k'_def set_coord_def)
  moreover have "kv_ok caching hbs L k'"
  proof (rule kv_ok_step [OF ok \<open>kcm_inv k' free'\<close> _ k'_def _ len same])
    show "coord_same ?c (?c\<lparr>managers := ms, coord_pool := p\<rparr>)" by (auto simp: coord_same_def)
    show "pool_conf (pool_of k') = pool_conf (pool_of k)" by (subst k'(2)) (use 1(3) in \<open>simp add: pool_of_def\<close>)
  qed
  ultimately show ?thesis
    using False 1(1) by (auto simp: kcm_get_num_common_prefix_blocks_def coord_get_num_common_prefix_blocks_def k'_def)
qed

section \<open>The contract of the model\<close>

text \<open>
  \<open>I\<close> are the ids of the requests that the scheduler has; a table belongs to one of them.
\<close>

definition model_contract :: "bool \<Rightarrow> int \<Rightarrow> int \<Rightarrow> string set \<Rightarrow> kv_contract" where
  "model_contract caching hbs L I =
     \<lparr>kv_fine = (\<lambda>k. kv_ok caching hbs L k \<and> (\<forall>rid. rid \<notin> I \<longrightarrow> fresh rid k)),
      kv_covers = (\<lambda>rid n k. rid \<in> I \<and> covered rid n k), kv_new = (\<lambda>rid k. rid \<in> I \<and> fresh rid k),
      kv_hashed = hashed caching hbs, kv_hits = hits_ok, kv_max_len = L\<rparr>"

lemma model_contract_simps [simp]:
  "kv_fine (model_contract caching hbs L I) k \<longleftrightarrow> kv_ok caching hbs L k \<and> (\<forall>rid. rid \<notin> I \<longrightarrow> fresh rid k)"
  "kv_covers (model_contract caching hbs L I) rid n k \<longleftrightarrow> rid \<in> I \<and> covered rid n k"
  "kv_new (model_contract caching hbs L I) rid k \<longleftrightarrow> rid \<in> I \<and> fresh rid k"
  "kv_hashed (model_contract caching hbs L I) = hashed caching hbs"
  "kv_hits (model_contract caching hbs L I) = hits_ok" "kv_max_len (model_contract caching hbs L I) = L"
  by (simp_all add: model_contract_def)

lemma tables_kept:
  assumes "same_tables P k k'"
  shows "keeps_tables (model_contract caching hbs L I) P k k'"
  using assms by (simp add: keeps_tables_def same_tables_def)

lemma strangers_kept:
  assumes "same_tables P k k'" and "\<forall>rid. rid \<notin> I \<longrightarrow> fresh rid k" and "\<And>rid. rid \<notin> I \<Longrightarrow> P rid"
  shows "\<forall>rid. rid \<notin> I \<longrightarrow> fresh rid k'"
  using assms by (simp add: same_tables_def)

interpretation kv_model: kv_provider "model_contract caching hbs L I" for caching hbs L I
proof unfold_locales
  let ?K = "model_contract caching hbs L I"
  show "\<exists>hits n k'. get_computed_blocks r k = Some (Inr ((hits, n), k')) \<and> 0 \<le> n \<and> n < num_tokens r \<and>
      kv_fine ?K k' \<and> keeps_tables ?K (\<lambda>_. True) k k' \<and> kv_hits ?K (request_id r) hits n k'"
    if "kv_fine ?K k" "kv_new ?K (request_id r) k" "kv_hashed ?K (block_hashes r) (num_tokens r)" "0 < num_tokens r" for k r
  proof -
    have c: "kv_ok caching hbs L k" "fresh (request_id r) k" "hashed caching hbs (block_hashes r) (num_tokens r)"
      using that by simp_all
    from lookup_call [OF c that(4)] obtain hits n st where
      1: "get_computed_blocks r k = Some (Inr ((hits, n), k\<lparr>kcm_stats := st\<rparr>))"
      "0 \<le> n" "n < num_tokens r" "kv_ok caching hbs L (k\<lparr>kcm_stats := st\<rparr>)"
      "hits_ok (request_id r) hits n (k\<lparr>kcm_stats := st\<rparr>)" by blast
    have same: "same_tables (\<lambda>_. True) k (k\<lparr>kcm_stats := st\<rparr>)" by (rule tables_stats)
    then have "kv_fine ?K (k\<lparr>kcm_stats := st\<rparr>)" using 1(4) that(1) strangers_kept [OF same, of I] by simp
    with 1 tables_kept [OF same] show ?thesis
      by (intro exI [of _ hits] exI [of _ n] exI [of _ "k\<lparr>kcm_stats := st\<rparr>"]) simp
  qed
  show "\<exists>res k'. allocate_slots r m n (Some hits) 0 0 False 0 k = Inr (res, k') \<and> kv_fine ?K k' \<and>
      keeps_tables ?K (\<lambda>rid. rid \<noteq> request_id r) k k' \<and>
      (if res = None then kv_new ?K (request_id r) k' else kv_covers ?K (request_id r) (n + m) k')"
    if "kv_fine ?K k" "kv_new ?K (request_id r) k" "kv_hashed ?K (block_hashes r) (num_tokens r)"
      "num_computed_tokens r = 0" "kv_hits ?K (request_id r) hits n k" "0 \<le> n" "0 < m" "n + m \<le> kv_max_len ?K"
    for k r hits n m
  proof -
    have c: "kv_ok caching hbs L k" "fresh (request_id r) k" "hashed caching hbs (block_hashes r) (num_tokens r)"
      "n = num_computed_tokens r + n" "schedulable k (request_id r) n (Some hits)" "n + m \<le> L"
      "\<forall>rid. rid \<notin> I \<longrightarrow> fresh rid k" "request_id r \<in> I"
      using that by (simp_all add: hits_ok_def)
    from slots_call [OF c(1) that(7) c(4) that(6) c(6) order_refl c(5,3)]
    obtain res k' where 1: "allocate_slots r m n (Some hits) 0 0 False 0 k = Inr (res, k')" "kv_ok caching hbs L k'"
      "same_tables (\<lambda>rid. rid \<noteq> request_id r) k k'"
      "if res = None then same_tables (\<lambda>rid. rid = request_id r) k k' else covered (request_id r) (n + m) k'"
      by blast
    then have "if res = None then fresh (request_id r) k' else covered (request_id r) (n + m) k'"
      using c(2) by (cases res) (simp_all add: same_tables_def)
    moreover have "\<forall>rid. rid \<notin> I \<longrightarrow> fresh rid k'" by (rule strangers_kept [OF 1(3) c(7)]) (use c(8) in auto)
    ultimately show ?thesis using 1(1,2) c(8) tables_kept [OF 1(3)] by simp
  qed
  show "\<exists>res k'. allocate_slots r m 0 None look 0 False 0 k = Inr (res, k') \<and> kv_fine ?K k' \<and>
      keeps_tables ?K (\<lambda>rid. rid \<noteq> request_id r) k k' \<and>
      kv_covers ?K (request_id r) (num_computed_tokens r + (if res = None then 0 else m)) k'"
    if "kv_fine ?K k" "kv_covers ?K (request_id r) (num_computed_tokens r) k"
      "kv_hashed ?K (block_hashes r) (num_tokens r)" "0 \<le> num_computed_tokens r" "0 < m"
      "num_computed_tokens r + m \<le> kv_max_len ?K" "0 \<le> look"
    for k r m look
  proof -
    have c: "kv_ok caching hbs L k" "covered (request_id r) (num_computed_tokens r) k"
      "hashed caching hbs (block_hashes r) (num_tokens r)" "num_computed_tokens r + m \<le> L"
      "\<forall>rid. rid \<notin> I \<longrightarrow> fresh rid k" "request_id r \<in> I"
      using that by simp_all
    from extend_call [OF c(1,2) that(4,5) c(4) that(7) c(3)]
    obtain res k' where 1: "allocate_slots r m 0 None look 0 False 0 k = Inr (res, k')" "kv_ok caching hbs L k'"
      "same_tables (\<lambda>rid. rid \<noteq> request_id r) k k'"
      "covered (request_id r) (num_computed_tokens r + (if res = None then 0 else m)) k'" by blast
    moreover have "\<forall>rid. rid \<notin> I \<longrightarrow> fresh rid k'" by (rule strangers_kept [OF 1(3) c(5)]) (use c(6) in auto)
    ultimately show ?thesis using c(6) tables_kept [OF 1(3)] by simp
  qed
  show "\<exists>k'. free_request r k = Inr k' \<and> kv_fine ?K k' \<and>
      keeps_tables ?K (\<lambda>rid. rid \<noteq> request_id r) k k' \<and> kv_new ?K (request_id r) k'"
    if "kv_fine ?K k" "kv_covers ?K (request_id r) n k \<or> kv_new ?K (request_id r) k" for k r n
  proof -
    have c: "kv_ok caching hbs L k" "\<forall>rid. rid \<notin> I \<longrightarrow> fresh rid k" "request_id r \<in> I" using that by auto
    obtain k' where 1: "free_request r k = Inr k'" "kv_ok caching hbs L k'"
      "same_tables (\<lambda>rid. rid \<noteq> request_id r) k k'" "fresh (request_id r) k'"
      using release_call [OF c(1)] by blast
    moreover have "\<forall>rid. rid \<notin> I \<longrightarrow> fresh rid k'" by (rule strangers_kept [OF 1(3) c(2)]) (use c(3) in auto)
    ultimately show ?thesis using c(3) tables_kept [OF 1(3)] by simp
  qed
  show "\<exists>ns k'. kcm_get_num_common_prefix_blocks rid k = Inr (ns, k') \<and> kv_fine ?K k' \<and>
      keeps_tables ?K (\<lambda>_. True) k k'" if "kv_fine ?K k" for k rid
  proof -
    have "kv_ok caching hbs L k" using that by simp
    from prefix_call [OF this, of rid] obtain ns k' where
      1: "kcm_get_num_common_prefix_blocks rid k = Inr (ns, k')" "kv_ok caching hbs L k'"
      "same_tables (\<lambda>_. True) k k'" by blast
    then show ?thesis using strangers_kept [OF 1(3), of I] tables_kept [OF 1(3)] that by simp
  qed
qed (auto intro: covered_mono)

end
