(* ===== verification/Scheduler.thy ===== *)
theory Scheduler
  imports KV_Manager Encoder_Scheduling Request_Queue
begin

text \<open>
  \<open>Scheduler.schedule\<close> of \<^verbatim>\<open>vllm/v1/core/sched/scheduler.py\<close>: the tokens of a step are given
  first to the running requests, preempting others when the KV cache is full, then to the waiting
  ones.  The request objects are kept by their id; the queues and lists hold ids.

  The configuration is one without a KV connector and not an encoder-decoder model.  \<open>remote\<close> says
  which encoder outputs the encoder cache connector has, \<open>grammar_ready\<close> for which requests the
  structured output manager has compiled the grammar.  Recorded events are not modelled.
\<close>

section \<open>State\<close>

record sched_config =
  policy :: scheduling_policy
  max_num_running_reqs :: int
  max_num_scheduled_tokens :: int
  sched_max_model_len :: int
  long_prefill_token_threshold :: int
  enable_chunked_prefill :: bool
  disable_chunked_mm_input :: bool
  max_loras :: "int option"
  use_eagle :: bool
  num_spec_tokens :: int
  num_lookahead_tokens :: int
  need_mamba_block_aligned_split :: bool
  cache_block_size :: int
  max_num_encoder_input_tokens :: int
  use_pp :: bool
  async_scheduling :: bool
  use_v2_model_runner :: bool

record scheduler =
  requests :: "string list"
  objs :: "string \<Rightarrow> request"
  waiting :: "string list"
  running :: "string list"
  finished_req_ids :: "string set"
  prev_step_scheduled_req_ids :: "string set"
  num_waiting_for_streaming_input :: int
  kv :: kv_cache_manager
  encoder :: encoder_cache

text \<open>The local variables of \<open>schedule\<close>; dictionaries in insertion order.\<close>

record sched_step =
  sch :: scheduler
  req_index :: int
  token_budget :: int
  encoder_compute_budget :: int
  scheduled_new_reqs :: "string list"
  scheduled_resumed_reqs :: "string list"
  scheduled_running_reqs :: "string list"
  preempted_reqs :: "string list"
  skipped_waiting_requests :: "string list"
  req_to_new_blocks :: "(string \<times> kv_cache_blocks) list"
  num_scheduled_tokens :: "(string \<times> int) list"
  scheduled_encoder_inputs :: "(string \<times> int list) list"
  scheduled_spec_decode_tokens :: "(string \<times> int list) list"
  scheduled_loras :: "int set"

definition sched_lt :: "scheduler \<Rightarrow> string \<Rightarrow> string \<Rightarrow> bool" where
  "sched_lt s a b = request_lt (objs s a) (objs s b)"

definition set_obj :: "string \<Rightarrow> (request \<Rightarrow> request) \<Rightarrow> scheduler \<Rightarrow> scheduler" where
  "set_obj rid f s = s\<lparr>objs := (objs s)(rid := f (objs s rid))\<rparr>"

text \<open>\<open>d.pop(k)\<close>.\<close>

definition dict_pop :: "string \<Rightarrow> (string \<times> 'a) list \<Rightarrow> ('a \<times> (string \<times> 'a) list) res" where
  "dict_pop k d = (case map_of d k of None \<Rightarrow> Inl KeyError | Some v \<Rightarrow> Inr (v, AList.delete k d))"

section \<open>Tokens of a request\<close>

definition mamba_block_aligned_split ::
    "sched_config \<Rightarrow> request \<Rightarrow> int \<Rightarrow> int \<Rightarrow> int \<Rightarrow> int res" where
  "mamba_block_aligned_split cfg r n num_new_local_computed_tokens num_external_computed_tokens =
     rbind (py_assert (num_external_computed_tokens = 0)) (\<lambda>_.
     if num_output_tokens r = 0 then
       let bs = cache_block_size cfg in
       if bs = 0 then Inl ZeroDivisionError
       else
         let last0 = num_prompt_tokens r - num_prompt_tokens r mod bs;
             last_cache_position = (if use_eagle cfg then max (last0 - bs) 0 else last0);
             computed = num_computed_tokens r + num_new_local_computed_tokens + num_external_computed_tokens;
             after_sched = computed + n
         in Inr (if after_sched < last_cache_position then n div bs * bs
                 else if computed < last_cache_position \<and> last_cache_position < after_sched
                 then last_cache_position - computed
                 else n)
     else Inr n)"

definition apply_mamba_split :: "sched_config \<Rightarrow> request \<Rightarrow> int \<Rightarrow> int \<Rightarrow> int res" where
  "apply_mamba_split cfg r n num_new_local_computed_tokens =
     (if need_mamba_block_aligned_split cfg
      then mamba_block_aligned_split cfg r n num_new_local_computed_tokens 0 else Inr n)"

definition long_prefill_cap :: "sched_config \<Rightarrow> int \<Rightarrow> int" where
  "long_prefill_cap cfg n =
     (let threshold = long_prefill_token_threshold cfg in if 0 < threshold \<and> threshold < n then threshold else n)"

text \<open>The plan for the encoder inputs; without encoder inputs nothing changes.\<close>

definition plan_encoder_inputs ::
    "sched_config \<Rightarrow> (mm_hash \<Rightarrow> bool) \<Rightarrow> request \<Rightarrow> int \<Rightarrow> int \<Rightarrow> sched_step \<Rightarrow> encoder_plan res" where
  "plan_encoder_inputs cfg remote r computed n t =
     (if mm_features r \<noteq> []
      then try_schedule_encoder_inputs (disable_chunked_mm_input cfg) remote r computed n
             (encoder_compute_budget t) (if use_eagle cfg then 1 else 0) (encoder (sch t))
      else Inr \<lparr>num_new_tokens = n, compute_budget = encoder_compute_budget t, hashes_to_schedule = {},
             num_embeds_to_schedule = 0, inputs_to_schedule = [], external_inputs = [], plan_cache = encoder (sch t)\<rparr>)"

text \<open>The allocation in the encoder cache after a request was scheduled.\<close>

definition allocate_encoder_inputs :: "string \<Rightarrow> encoder_plan \<Rightarrow> sched_step \<Rightarrow> sched_step res" where
  "allocate_encoder_inputs rid p t =
     (let r = objs (sch t) rid;
          t1 = (if inputs_to_schedule p \<noteq> []
                then t\<lparr>scheduled_encoder_inputs := AList.update rid (inputs_to_schedule p) (scheduled_encoder_inputs t)\<rparr>
                else t)
      in rbind (rfold (allocate r) (inputs_to_schedule p) (encoder (sch t1))) (\<lambda>e1.
         let t2 = (if inputs_to_schedule p \<noteq> [] then t1\<lparr>encoder_compute_budget := compute_budget p\<rparr> else t1) in
         rbind (rfold (allocate r) (external_inputs p) e1) (\<lambda>e2.
         Inr (t2\<lparr>sch := (sch t2)\<lparr>encoder := e2\<rparr>\<rparr>))))"

section \<open>Preemption\<close>

definition preempt_request :: "sched_config \<Rightarrow> string \<Rightarrow> scheduler \<Rightarrow> scheduler res" where
  "preempt_request cfg rid s =
     rbind (py_assert (req_status (objs s rid) = RUNNING)) (\<lambda>_.
     rbind (free_request (objs s rid) (kv s)) (\<lambda>k.
     rbind (ecm_free (objs s rid) (encoder s)) (\<lambda>e.
     let s1 = set_obj rid (\<lambda>r. r\<lparr>req_status := PREEMPTED, num_computed_tokens := 0, spec_token_ids := [],
                num_preemptions := num_preemptions r + 1\<rparr>) (s\<lparr>kv := k, encoder := e\<rparr>)
     in Inr (s1\<lparr>waiting := q_prepend_request (policy cfg) (sched_lt s1) rid (waiting s1)\<rparr>))))"

text \<open>\<open>max\<close> returns the first of the largest elements.\<close>

definition later_key :: "request \<Rightarrow> request \<Rightarrow> bool" where
  "later_key a b \<longleftrightarrow> priority a < priority b \<or> priority a = priority b \<and> arrival_time a < arrival_time b"

definition max_running :: "scheduler \<Rightarrow> string res" where
  "max_running s =
     (case running s of
        [] \<Rightarrow> Inl ValueError
      | x # xs \<Rightarrow> Inr (foldl (\<lambda>m y. if later_key (objs s m) (objs s y) then y else m) x xs))"

text \<open>The request to preempt is taken out of the running ones and of the plan of the step.\<close>

definition unschedule :: "string \<Rightarrow> sched_step \<Rightarrow> sched_step res" where
  "unschedule rid t =
     rbind (dict_pop rid (num_scheduled_tokens t)) (\<lambda>(n, scheduled).
     rbind (dict_pop rid (req_to_new_blocks t)) (\<lambda>(_, new_blocks).
     let inputs = (case map_of (scheduled_encoder_inputs t) rid of None \<Rightarrow> [] | Some is \<Rightarrow> is) in
     rbind (rmapv (get_num_encoder_embeds (objs (sch t) rid)) inputs) (\<lambda>embeds.
     Inr (t\<lparr>scheduled_running_reqs := remove1 rid (scheduled_running_reqs t),
            token_budget := token_budget t + n, num_scheduled_tokens := scheduled,
            req_to_new_blocks := new_blocks,
            scheduled_spec_decode_tokens := AList.delete rid (scheduled_spec_decode_tokens t),
            scheduled_encoder_inputs := AList.delete rid (scheduled_encoder_inputs t),
            encoder_compute_budget := encoder_compute_budget t + sum_list embeds,
            req_index := req_index t - 1\<rparr>))))"

definition take_victim :: "sched_config \<Rightarrow> sched_step \<Rightarrow> (string \<times> sched_step) res" where
  "take_victim cfg t =
     (case policy cfg of
        PRIORITY \<Rightarrow>
          rbind (max_running (sch t)) (\<lambda>v.
          let t1 = t\<lparr>sch := (sch t)\<lparr>running := remove1 v (running (sch t))\<rparr>\<rparr> in
          if v \<in> set (scheduled_running_reqs t1)
          then rbind (unschedule v t1) (\<lambda>t2. Inr (v, t2))
          else Inr (v, t1))
      | FCFS \<Rightarrow>
          if running (sch t) = [] then Inl IndexError
          else Inr (last (running (sch t)), t\<lparr>sch := (sch t)\<lparr>running := butlast (running (sch t))\<rparr>\<rparr>))"

lemma max_running_in: "max_running s = Inr v \<Longrightarrow> v \<in> set (running s)"
proof -
  have "foldl (\<lambda>m y. if later_key (objs s m) (objs s y) then y else m) x xs \<in> set (x # xs)" for x xs
    by (induction xs arbitrary: x) (auto split: if_splits)
  then show "max_running s = Inr v \<Longrightarrow> v \<in> set (running s)"
    by (auto simp: max_running_def split: list.splits)
qed

lemma unschedule_sch: "unschedule v t = Inr t' \<Longrightarrow> sch t' = sch t"
  by (auto simp: unschedule_def Let_def res_simps)

lemma remove1_shorter: "x \<in> set xs \<Longrightarrow> length (remove1 x xs) < length xs"
  by (auto simp: length_remove1 dest: length_pos_if_in_set)

lemma take_victim_fewer: "take_victim cfg t = Inr (v, t') \<Longrightarrow> length (running (sch t')) < length (running (sch t))"
  by (auto simp: take_victim_def Let_def res_simps remove1_shorter dest!: max_running_in unschedule_sch
      split: scheduling_policy.splits if_splits)

lemma preempt_running: "preempt_request cfg rid s = Inr s' \<Longrightarrow> running s' = running s"
  by (auto simp: preempt_request_def set_obj_def Let_def res_simps)

text \<open>The \<open>while True\<close> loop around \<open>allocate_slots\<close>.\<close>

function alloc_or_preempt ::
    "sched_config \<Rightarrow> string \<Rightarrow> int \<Rightarrow> sched_step \<Rightarrow> (kv_cache_blocks option \<times> sched_step) res" where
  "alloc_or_preempt cfg rid n t =
     rbind (allocate_slots (objs (sch t) rid) n 0 None (num_lookahead_tokens cfg) 0 False 0 (kv (sch t)))
       (\<lambda>(new_blocks, k).
       let t1 = t\<lparr>sch := (sch t)\<lparr>kv := k\<rparr>\<rparr> in
       if new_blocks \<noteq> None then Inr (new_blocks, t1)
       else rbind (take_victim cfg t1) (\<lambda>(v, t2).
            rbind (preempt_request cfg v (sch t2)) (\<lambda>s3.
            let t3 = t2\<lparr>sch := s3, preempted_reqs := preempted_reqs t2 @ [v]\<rparr> in
            if v = rid then Inr (None, t3) else alloc_or_preempt cfg rid n t3)))"
  by pat_completeness auto
termination
  by (relation "measure (\<lambda>(_, _, _, t). length (running (sch t)))")
    (auto dest!: take_victim_fewer preempt_running)

declare alloc_or_preempt.simps [simp del]

section \<open>The running requests\<close>

definition mark_scheduled :: "string \<Rightarrow> int \<Rightarrow> kv_cache_blocks \<Rightarrow> sched_step \<Rightarrow> sched_step" where
  "mark_scheduled rid n new_blocks t =
     t\<lparr>req_to_new_blocks := AList.update rid new_blocks (req_to_new_blocks t),
       num_scheduled_tokens := AList.update rid n (num_scheduled_tokens t),
       token_budget := token_budget t - n\<rparr>"

text \<open>The draft tokens that are scheduled; \<open>new_spec_tokens\<close> are set before the next step.\<close>

definition schedule_spec_tokens :: "string \<Rightarrow> int \<Rightarrow> sched_step \<Rightarrow> sched_step" where
  "schedule_spec_tokens rid n t =
     (let r = objs (sch t) rid in
      if spec_token_ids r \<noteq> [] then
        let num_scheduled_spec_tokens =
              n + num_computed_tokens r - num_tokens r - num_output_placeholders r;
            t1 = (if num_scheduled_spec_tokens > 0
                  then t\<lparr>scheduled_spec_decode_tokens := AList.update rid
                         (if py_len (spec_token_ids r) > num_scheduled_spec_tokens
                          then py_upto (spec_token_ids r) num_scheduled_spec_tokens else spec_token_ids r)
                         (scheduled_spec_decode_tokens t)\<rparr>
                  else t)
        in t1\<lparr>sch := set_obj rid (\<lambda>r. r\<lparr>spec_token_ids := []\<rparr>) (sch t1)\<rparr>
      else t)"

text \<open>One iteration, with whether the loop stops.\<close>

definition schedule_running_one ::
    "sched_config \<Rightarrow> (mm_hash \<Rightarrow> bool) \<Rightarrow> sched_step \<Rightarrow> (bool \<times> sched_step) res" where
  "schedule_running_one cfg remote t =
     (let rid = running (sch t) ! nat (req_index t); r = objs (sch t) rid in
      if num_output_placeholders r > 0 \<and>
         num_computed_tokens r + 2 - num_output_placeholders r \<ge> num_prompt_tokens r + req_max_tokens r
      then Inr (False, t\<lparr>req_index := req_index t + 1\<rparr>)
      else
        let n0 = long_prefill_cap cfg (num_tokens_with_spec r + num_output_placeholders r - num_computed_tokens r);
            n1 = min (min n0 (token_budget t)) (sched_max_model_len cfg - 1 - num_computed_tokens r)
        in rbind (plan_encoder_inputs cfg remote r (num_computed_tokens r) n1 t) (\<lambda>p.
           rbind (apply_mamba_split cfg r (num_new_tokens p) 0) (\<lambda>n.
           let t1 = t\<lparr>sch := (sch t)\<lparr>encoder := plan_cache p\<rparr>\<rparr> in
           if n = 0 then Inr (False, t1\<lparr>req_index := req_index t1 + 1\<rparr>)
           else rbind (alloc_or_preempt cfg rid n t1) (\<lambda>(new_blocks, t2).
             case new_blocks of
               None \<Rightarrow> Inr (True, t2)
             | Some b \<Rightarrow>
                 let t3 = mark_scheduled rid n b
                       (t2\<lparr>scheduled_running_reqs := scheduled_running_reqs t2 @ [rid], req_index := req_index t2 + 1\<rparr>)
                 in rbind (allocate_encoder_inputs rid p (schedule_spec_tokens rid n t3)) (\<lambda>t4.
                    Inr (False, t4))))))"

lemma unschedule_index: "unschedule v t = Inr t' \<Longrightarrow> sch t' = sch t \<and> req_index t' = req_index t - 1"
  by (auto simp: unschedule_def Let_def res_simps)

lemma take_victim_index:
  "take_victim cfg t = Inr (v, t') \<Longrightarrow>
    int (length (running (sch t'))) - req_index t' \<le> int (length (running (sch t))) - req_index t"
proof -
  have r: "v \<in> set xs \<Longrightarrow> int (length (remove1 v xs)) = int (length xs) - 1" for xs
    using length_pos_if_in_set [of v xs] by (simp add: length_remove1 of_nat_diff Suc_leI)
  show "take_victim cfg t = Inr (v, t') \<Longrightarrow>
    int (length (running (sch t'))) - req_index t' \<le> int (length (running (sch t))) - req_index t"
    by (auto simp: take_victim_def Let_def res_simps r dest!: max_running_in unschedule_index
        split: scheduling_policy.splits if_splits)
qed

lemma alloc_or_preempt_index:
  "alloc_or_preempt cfg rid n t = Inr (b, t') \<Longrightarrow>
    int (length (running (sch t'))) - req_index t' \<le> int (length (running (sch t))) - req_index t"
proof (induction cfg rid n t rule: alloc_or_preempt.induct)
  case (1 cfg rid n t)
  obtain nb k where k: "allocate_slots (objs (sch t) rid) n 0 None (num_lookahead_tokens cfg) 0 False 0 (kv (sch t)) = Inr (nb, k)"
    using "1.prems" by (auto simp: alloc_or_preempt.simps [of cfg rid n t] res_simps)
  let ?t1 = "t\<lparr>sch := (sch t)\<lparr>kv := k\<rparr>\<rparr>"
  show ?case
  proof (cases "nb = None")
    case False
    then show ?thesis using "1.prems" k by (auto simp: alloc_or_preempt.simps [of cfg rid n t])
  next
    case True
    then obtain v t2 s3 where v: "take_victim cfg ?t1 = Inr (v, t2)" "preempt_request cfg v (sch t2) = Inr s3"
      "(if v = rid then Inr (None, t2\<lparr>sch := s3, preempted_reqs := preempted_reqs t2 @ [v]\<rparr>)
        else alloc_or_preempt cfg rid n (t2\<lparr>sch := s3, preempted_reqs := preempted_reqs t2 @ [v]\<rparr>)) = Inr (b, t')"
      using "1.prems" k by (auto simp: alloc_or_preempt.simps [of cfg rid n t] res_simps Let_def)
    have 2: "int (length (running s3)) - req_index t2 \<le> int (length (running (sch t))) - req_index t"
      using take_victim_index [OF v(1)] preempt_running [OF v(2)] by simp
    show ?thesis
    proof (cases "v = rid")
      case True
      then show ?thesis using v(3) 2 by auto
    next
      case False
      then have "alloc_or_preempt cfg rid n (t2\<lparr>sch := s3, preempted_reqs := preempted_reqs t2 @ [v]\<rparr>) = Inr (b, t')"
        using v(3) by simp
      from "1.IH" [OF k _ refl _ v(1) _ v(2) refl False this] 2 \<open>nb = None\<close> show ?thesis by simp
    qed
  qed
qed

lemma allocate_encoder_inputs_sch:
  "allocate_encoder_inputs rid p t = Inr t' \<Longrightarrow>
    running (sch t') = running (sch t) \<and> req_index t' = req_index t \<and> token_budget t' = token_budget t"
  by (auto simp: allocate_encoder_inputs_def Let_def res_simps)

lemma schedule_spec_tokens_sch:
  "running (sch (schedule_spec_tokens rid n t)) = running (sch t) \<and>
   req_index (schedule_spec_tokens rid n t) = req_index t"
  by (simp add: schedule_spec_tokens_def set_obj_def Let_def)

lemma schedule_running_one_index:
  assumes "schedule_running_one cfg remote t = Inr (False, t')"
  shows "int (length (running (sch t'))) - req_index t' < int (length (running (sch t))) - req_index t"
  using assms
  by (auto simp: schedule_running_one_def Let_def res_simps mark_scheduled_def schedule_spec_tokens_sch
      dest!: alloc_or_preempt_index allocate_encoder_inputs_sch split: if_splits option.splits)

function schedule_running :: "sched_config \<Rightarrow> (mm_hash \<Rightarrow> bool) \<Rightarrow> sched_step \<Rightarrow> sched_step res" where
  "schedule_running cfg remote t =
     (if req_index t < py_len (running (sch t)) \<and> token_budget t > 0
      then rbind (schedule_running_one cfg remote t) (\<lambda>(stop, t').
             if stop then Inr t' else schedule_running cfg remote t')
      else Inr t)"
  by pat_completeness auto
termination
  by (relation "measure (\<lambda>(_, _, t). nat (int (length (running (sch t))) - req_index t))")
    (auto simp: py_len_def dest!: schedule_running_one_index)

declare schedule_running.simps [simp del]

text \<open>The adapters of the scheduled running requests.\<close>

definition running_loras :: "sched_config \<Rightarrow> sched_step \<Rightarrow> int set res" where
  "running_loras cfg t =
     (case max_loras cfg of
        None \<Rightarrow> Inr {}
      | Some m \<Rightarrow>
          let loras = set (concat (map (\<lambda>rid. case lora_request_of (objs (sch t) rid) of
                  None \<Rightarrow> [] | Some l \<Rightarrow> if adapter_id l > 0 then [adapter_id l] else [])
                (scheduled_running_reqs t)))
          in rbind (py_assert (int (card loras) \<le> m)) (\<lambda>_. Inr loras))"

section \<open>The waiting requests\<close>

text \<open>
  Whether the request at the head of the queue is skipped in this step.  Without a connector no
  request waits for remote blocks, and the code asserts that there is one.
\<close>

definition waiting_gate :: "sched_config \<Rightarrow> (string \<Rightarrow> bool) \<Rightarrow> string \<Rightarrow> sched_step \<Rightarrow> (bool \<times> sched_step) res" where
  "waiting_gate cfg grammar_ready rid t =
     (let r = objs (sch t) rid in
      rbind (if req_status r = WAITING_FOR_REMOTE_KVS then Inl AssertionError
             else if req_status r = WAITING_FOR_FSM then
               (if use_structured_output r \<and> grammar_ready rid
                then Inr (False, t\<lparr>sch := set_obj rid (\<lambda>r. r\<lparr>req_status := WAITING\<rparr>) (sch t)\<rparr>)
                else Inr (True, t))
             else if req_status r = WAITING_FOR_STREAMING_REQ then
               rbind (py_assert (streaming_queue r = None \<or> streaming_queue r = Some [])) (\<lambda>_. Inr (True, t))
             else Inr (False, t)) (\<lambda>(skip, t').
      if skip then Inr (True, t')
      else Inr (case (max_loras cfg, lora_request_of r) of
                  (Some m, Some l) \<Rightarrow> int (card (scheduled_loras t')) = m \<and> adapter_id l \<notin> scheduled_loras t'
                | _ \<Rightarrow> False, t')))"

definition skip_request :: "sched_config \<Rightarrow> sched_step \<Rightarrow> sched_step res" where
  "skip_request cfg t =
     rbind (q_pop_request (policy cfg) (sched_lt (sch t)) (waiting (sch t))) (\<lambda>(rid, q).
     Inr (t\<lparr>sch := (sch t)\<lparr>waiting := q\<rparr>,
            skipped_waiting_requests :=
              q_prepend_request (policy cfg) (sched_lt (sch t)) rid (skipped_waiting_requests t)\<rparr>))"

text \<open>The blocks that are already computed; \<open>None\<close> as in \<open>get_computed_blocks\<close>.\<close>

definition lookup_computed ::
    "string \<Rightarrow> sched_step \<Rightarrow> (kv_cache_blocks \<times> int \<times> int \<times> sched_step) res option" where
  "lookup_computed rid t =
     (let r = objs (sch t) rid in
      if num_computed_tokens r = 0
      then map_option (\<lambda>res. rbind res (\<lambda>((hits, n), k).
             Inr (hits, n, n, t\<lparr>sch := (sch t)\<lparr>kv := k\<rparr>\<rparr>))) (get_computed_blocks r (kv (sch t)))
      else Some (Inr (EmptyKVCacheBlocks (num_kv_cache_groups (kv (sch t))), 0, num_computed_tokens r, t)))"

text \<open>A request whose slots were granted moves to the running ones.\<close>

definition start_request ::
    "sched_config \<Rightarrow> string \<Rightarrow> int \<Rightarrow> int \<Rightarrow> encoder_plan \<Rightarrow> sched_step \<Rightarrow> sched_step res" where
  "start_request cfg request_id0 n computed p t =
     rbind (q_pop_request (policy cfg) (sched_lt (sch t)) (waiting (sch t))) (\<lambda>(rid, q).
     let t1 = t\<lparr>sch := (sch t)\<lparr>waiting := q, running := running (sch t) @ [rid]\<rparr>\<rparr>;
         r = objs (sch t1) rid
     in rbind (if req_status r = WAITING
               then Inr (t1\<lparr>scheduled_new_reqs := scheduled_new_reqs t1 @ [rid]\<rparr>)
               else if req_status r = PREEMPTED
               then Inr (t1\<lparr>scheduled_resumed_reqs := scheduled_resumed_reqs t1 @ [rid]\<rparr>)
               else Inl RuntimeError) (\<lambda>t2.
        let t3 = (case (max_loras cfg, lora_request_of r) of
                    (Some _, Some l) \<Rightarrow> t2\<lparr>scheduled_loras := insert (adapter_id l) (scheduled_loras t2)\<rparr>
                  | _ \<Rightarrow> t2);
            t4 = mark_scheduled request_id0 n (get_blocks request_id0 (kv (sch t3))) t3;
            t5 = t4\<lparr>sch := set_obj rid (\<lambda>r. r\<lparr>req_status := RUNNING, num_computed_tokens := computed,
                   num_cached_tokens := (if num_cached_tokens r < 0 then computed else num_cached_tokens r)\<rparr>) (sch t4)\<rparr>
        in allocate_encoder_inputs rid p t5))"

definition admit_request ::
    "sched_config \<Rightarrow> (mm_hash \<Rightarrow> bool) \<Rightarrow> string \<Rightarrow> kv_cache_blocks \<Rightarrow> int \<Rightarrow> int \<Rightarrow> sched_step \<Rightarrow>
     (bool \<times> sched_step) res" where
  "admit_request cfg remote rid hits n_local computed t =
     (let r = objs (sch t) rid; n0 = long_prefill_cap cfg (num_tokens r - computed) in
      if \<not> enable_chunked_prefill cfg \<and> n0 > token_budget t then Inr (True, t)
      else let n1 = min n0 (token_budget t) in
        rbind (py_assert (n1 > 0)) (\<lambda>_.
        rbind (plan_encoder_inputs cfg remote r computed n1 t) (\<lambda>p.
        let t1 = t\<lparr>sch := (sch t)\<lparr>encoder := plan_cache p\<rparr>\<rparr> in
        if mm_features r \<noteq> [] \<and> num_new_tokens p = 0 then Inr (True, t1)
        else rbind (apply_mamba_split cfg r (num_new_tokens p) n_local) (\<lambda>n.
          if need_mamba_block_aligned_split cfg \<and> n = 0 then Inr (True, t1)
          else
            let look = (if num_computed_tokens r = 0 then 0 else num_lookahead_tokens cfg) in
            rbind (allocate_slots r n n_local (Some hits) look 0 False 0 (kv (sch t1))) (\<lambda>(new_blocks, k).
            let t2 = t1\<lparr>sch := (sch t1)\<lparr>kv := k\<rparr>\<rparr> in
            if new_blocks = None
            then (if mm_features r \<noteq> []
                  then rbind (ecm_free r (encoder (sch t2))) (\<lambda>e. Inr (True, t2\<lparr>sch := (sch t2)\<lparr>encoder := e\<rparr>\<rparr>))
                  else Inr (True, t2))
            else rbind (start_request cfg rid n computed p t2) (\<lambda>t3. Inr (False, t3)))))))"

text \<open>Sequencing under the option of \<open>get_computed_blocks\<close>.\<close>

definition obind :: "'a res option \<Rightarrow> ('a \<Rightarrow> 'b res option) \<Rightarrow> 'b res option" where
  "obind m f = (case m of None \<Rightarrow> None | Some (Inl e) \<Rightarrow> Some (Inl e) | Some (Inr x) \<Rightarrow> f x)"

lemma obind_simps [simp]:
  "obind None f = None" "obind (Some (Inl e)) f = Some (Inl e)" "obind (Some (Inr x)) f = f x"
  by (simp_all add: obind_def)

lemma obind_eq [res_simps]: "obind m f = Some (Inr y) \<longleftrightarrow> (\<exists>x. m = Some (Inr x) \<and> f x = Some (Inr y))"
  by (auto simp: obind_def split: option.splits sum.splits)

lemma obind_cong [fundef_cong]:
  "m = m' \<Longrightarrow> (\<And>x. m' = Some (Inr x) \<Longrightarrow> f x = g x) \<Longrightarrow> obind m f = obind m' g"
  by (auto simp: obind_def split: option.splits sum.splits)

definition schedule_waiting_one ::
    "sched_config \<Rightarrow> (string \<Rightarrow> bool) \<Rightarrow> (mm_hash \<Rightarrow> bool) \<Rightarrow> sched_step \<Rightarrow> (bool \<times> sched_step) res option" where
  "schedule_waiting_one cfg grammar_ready remote t =
     (if int (length (running (sch t))) = max_num_running_reqs cfg then Some (Inr (True, t))
      else
        obind (Some (q_peek_request (policy cfg) (waiting (sch t)))) (\<lambda>rid.
        obind (Some (waiting_gate cfg grammar_ready rid t)) (\<lambda>(skip, t1).
        if skip then Some (rbind (skip_request cfg t1) (\<lambda>t2. Inr (False, t2)))
        else obind (lookup_computed rid t1) (\<lambda>(hits, n_local, computed, t2).
          Some (admit_request cfg remote rid hits n_local computed t2)))))"

lemma q_pop_length: "q_pop_request pol lt q = Inr (x, q') \<Longrightarrow> length q' < length q"
  by (auto simp: q_pop_request_def fcfs_pop_request_def prio_pop_request_def dest: heappop_length
      split: scheduling_policy.splits list.splits if_splits)

lemma waiting_gate_waiting:
  "waiting_gate cfg gr rid t = Inr (b, t') \<Longrightarrow> waiting (sch t') = waiting (sch t)"
  by (auto simp: waiting_gate_def Let_def res_simps set_obj_def split: if_splits)

lemma allocate_encoder_inputs_waiting:
  "allocate_encoder_inputs rid p t = Inr t' \<Longrightarrow> waiting (sch t') = waiting (sch t)"
  by (auto simp: allocate_encoder_inputs_def Let_def res_simps)

lemma start_request_waiting:
  "start_request cfg rid n computed p t = Inr t' \<Longrightarrow> length (waiting (sch t')) < length (waiting (sch t))"
  by (auto simp: start_request_def Let_def res_simps mark_scheduled_def set_obj_def
      dest!: allocate_encoder_inputs_waiting q_pop_length split: option.splits if_splits)

lemma admit_request_waiting:
  "admit_request cfg remote rid hits n_local computed t = Inr (False, t') \<Longrightarrow>
    length (waiting (sch t')) < length (waiting (sch t))"
  by (auto simp: admit_request_def Let_def res_simps dest!: start_request_waiting split: if_splits)

lemma schedule_waiting_one_fewer:
  assumes "schedule_waiting_one cfg grammar_ready remote t = Some (Inr (False, t'))"
  shows "length (waiting (sch t')) < length (waiting (sch t))"
  using assms
  by (auto simp: schedule_waiting_one_def skip_request_def lookup_computed_def Let_def res_simps
      dest!: waiting_gate_waiting admit_request_waiting q_pop_length split: if_splits)

function schedule_waiting ::
    "sched_config \<Rightarrow> (string \<Rightarrow> bool) \<Rightarrow> (mm_hash \<Rightarrow> bool) \<Rightarrow> sched_step \<Rightarrow> sched_step res option" where
  "schedule_waiting cfg grammar_ready remote t =
     (if waiting (sch t) \<noteq> [] \<and> token_budget t > 0
      then obind (schedule_waiting_one cfg grammar_ready remote t) (\<lambda>(stop, t').
             if stop then Some (Inr t') else schedule_waiting cfg grammar_ready remote t')
      else Some (Inr t))"
  by pat_completeness auto
termination
  by (relation "measure (\<lambda>(_, _, _, t). length (waiting (sch t)))") (auto dest!: schedule_waiting_one_fewer)

declare schedule_waiting.simps [simp del]

section \<open>The output of a step\<close>

text \<open>\<open>NewRequestData\<close>, \<open>CachedRequestData\<close> and \<open>SchedulerOutput\<close> of
  \<^verbatim>\<open>vllm/v1/core/sched/output.py\<close>; of a new request only what the scheduler computes.\<close>

record new_request_data =
  nr_req_id :: string
  nr_block_ids :: "int list list"
  nr_num_computed_tokens :: int
  nr_prefill_token_ids :: "int list option"

record cached_request_data =
  cr_req_ids :: "string list"
  cr_resumed_req_ids :: "string set"
  cr_new_token_ids :: "int list list"
  cr_all_token_ids :: "(string \<times> int list) list"
  cr_new_block_ids :: "int list list option list"
  cr_num_computed_tokens :: "int list"
  cr_num_output_tokens :: "int list"

record scheduler_output =
  so_new_reqs :: "new_request_data list"
  so_cached_reqs :: cached_request_data
  so_num_scheduled_tokens :: "(string \<times> int) list"
  so_total_num_scheduled_tokens :: int
  so_spec_decode_tokens :: "(string \<times> int list) list"
  so_encoder_inputs :: "(string \<times> int list) list"
  so_num_common_prefix_blocks :: "int list"
  so_finished_req_ids :: "string set"
  so_free_encoder_mm_hashes :: "mm_hash list"
  so_preempted_req_ids :: "string set"
  so_has_structured_output_requests :: bool
  so_pending_structured_output_tokens :: bool
  so_num_invalid_spec_tokens :: "(string \<times> int) list"

definition dict_item :: "string \<Rightarrow> (string \<times> 'a) list \<Rightarrow> 'a res" where
  "dict_item k d = (case map_of d k of None \<Rightarrow> Inl KeyError | Some v \<Rightarrow> Inr v)"

definition spec_of :: "string \<Rightarrow> (string \<times> int list) list \<Rightarrow> int list" where
  "spec_of rid d = (case map_of d rid of None \<Rightarrow> [] | Some ts \<Rightarrow> ts)"

definition step_pool :: "sched_step \<Rightarrow> block_pool" where
  "step_pool t = coord_pool (kcm_coord (kv (sch t)))"

text \<open>One iteration over the running and the resumed requests: new tokens, all tokens, new blocks.\<close>

definition cached_entry ::
    "sched_config \<Rightarrow> sched_step \<Rightarrow> bool \<times> string \<Rightarrow>
     (int list list \<times> (string \<times> int list) list \<times> int list list option) res" where
  "cached_entry cfg t e =
     (let (resumed, rid) = e; r = objs (sch t) rid;
          scheduled_in_prev_step = (rid \<in> prev_step_scheduled_req_ids (sch t))
      in rbind (if use_pp cfg \<and> \<not> async_scheduling cfg
                then rbind (dict_item rid (num_scheduled_tokens t)) (\<lambda>n.
                  let n_new = n - py_len (spec_of rid (scheduled_spec_decode_tokens t)) in
                  Inr [py_slice (all_token_ids r) (num_computed_tokens r) (num_computed_tokens r + n_new)])
                else Inr []) (\<lambda>new_toks.
         rbind (if resumed then py_assert (\<not> scheduled_in_prev_step) else Inr ()) (\<lambda>_.
         rbind (dict_item rid (req_to_new_blocks t)) (\<lambda>b.
         Inr (new_toks, if scheduled_in_prev_step then [] else [(rid, all_token_ids r)],
              get_block_ids (step_pool t) True b)))))"

definition make_cached_request_data ::
    "sched_config \<Rightarrow> string list \<Rightarrow> string list \<Rightarrow> sched_step \<Rightarrow> cached_request_data res" where
  "make_cached_request_data cfg running_reqs resumed_reqs t =
     (let reqs = running_reqs @ resumed_reqs;
          tagged = map (Pair False) running_reqs @ map (Pair True) resumed_reqs
      in rbind (rmapv (cached_entry cfg t) tagged) (\<lambda>es.
         Inr \<lparr>cr_req_ids = reqs, cr_resumed_req_ids = set resumed_reqs,
              cr_new_token_ids = concat (map fst es), cr_all_token_ids = concat (map (fst \<circ> snd) es),
              cr_new_block_ids = map (snd \<circ> snd) es,
              cr_num_computed_tokens = map (\<lambda>rid. num_computed_tokens (objs (sch t) rid)) reqs,
              cr_num_output_tokens = map (\<lambda>rid. num_output_tokens (objs (sch t) rid) +
                num_output_placeholders (objs (sch t) rid)) reqs\<rparr>))"

definition new_request_entry :: "sched_config \<Rightarrow> sched_step \<Rightarrow> string \<Rightarrow> new_request_data res" where
  "new_request_entry cfg t rid =
     rbind (dict_item rid (req_to_new_blocks t)) (\<lambda>b.
     Inr \<lparr>nr_req_id = rid, nr_block_ids = map (map (pool_ids (step_pool t))) (group_blocks b),
          nr_num_computed_tokens = num_computed_tokens (objs (sch t) rid),
          nr_prefill_token_ids =
            (if use_v2_model_runner cfg then Some (all_token_ids (objs (sch t) rid)) else None)\<rparr>)"

section \<open>After the step was planned\<close>

definition advance_request :: "string \<times> int \<Rightarrow> bool \<times> scheduler \<Rightarrow> (bool \<times> scheduler) res" where
  "advance_request e a =
     (let (rid, n) = e; (structured, s) = a in
      if rid \<notin> set (requests s) then Inl KeyError
      else let s1 = set_obj rid (\<lambda>r. let c = num_computed_tokens r + n in
                 r\<lparr>num_computed_tokens := c, is_prefill_chunk := (c < num_tokens r + num_output_placeholders r)\<rparr>) s;
               r1 = objs s1 rid
           in rbind (if mm_features r1 \<noteq> [] then free_encoder_inputs r1 (encoder s1) else Inr (encoder s1)) (\<lambda>e.
              Inr (structured \<or> use_structured_output r1, s1\<lparr>encoder := e\<rparr>)))"

text \<open>The override of \<open>AsyncScheduler\<close>.\<close>

definition async_advance ::
    "sched_config \<Rightarrow> (string \<times> int list) list \<Rightarrow> string \<times> int \<Rightarrow> bool \<times> scheduler \<Rightarrow> (bool \<times> scheduler) res" where
  "async_advance cfg spec e a =
     (let (rid, n) = e; (pending, s) = a; r = objs s rid in
      if rid \<notin> set (requests s) then Inl KeyError
      else if is_prefill_chunk r then Inr (pending, s)
      else Inr (pending \<or> use_structured_output r \<and> num_output_placeholders r > 0,
        set_obj rid (\<lambda>r. r\<lparr>num_output_placeholders := num_output_placeholders r + 1 + py_len (spec_of rid spec),
                           spec_token_ids := py_repeat (-1) (num_spec_tokens cfg)\<rparr>) s))"

definition update_after_schedule ::
    "sched_config \<Rightarrow> scheduler_output \<Rightarrow> scheduler \<Rightarrow> (scheduler_output \<times> scheduler) res" where
  "update_after_schedule cfg out s =
     rbind (rfold advance_request (so_num_scheduled_tokens out)
         (so_has_structured_output_requests out, s)) (\<lambda>(structured, s1).
     let s2 = s1\<lparr>finished_req_ids := {}\<rparr>;
         out1 = out\<lparr>so_has_structured_output_requests := structured\<rparr>
     in if async_scheduling cfg
        then rbind (rfold (async_advance cfg (so_spec_decode_tokens out)) (so_num_scheduled_tokens out)
               (so_pending_structured_output_tokens out, s2)) (\<lambda>(pending, s3).
             Inr (out1\<lparr>so_pending_structured_output_tokens := pending\<rparr>, s3))
        else Inr (out1, s2))"

section \<open>The whole step\<close>

definition begin_step :: "sched_config \<Rightarrow> scheduler \<Rightarrow> sched_step" where
  "begin_step cfg s = \<lparr>sch = s, req_index = 0, token_budget = max_num_scheduled_tokens cfg,
     encoder_compute_budget = max_num_encoder_input_tokens cfg, scheduled_new_reqs = [],
     scheduled_resumed_reqs = [], scheduled_running_reqs = [], preempted_reqs = [],
     skipped_waiting_requests = [], req_to_new_blocks = [], num_scheduled_tokens = [],
     scheduled_encoder_inputs = [], scheduled_spec_decode_tokens = [], scheduled_loras = {}\<rparr>"

definition put_back_skipped :: "sched_config \<Rightarrow> sched_step \<Rightarrow> sched_step" where
  "put_back_skipped cfg t =
     (if skipped_waiting_requests t \<noteq> []
      then t\<lparr>sch := (sch t)\<lparr>waiting := q_prepend_requests (policy cfg) (sched_lt (sch t))
             (skipped_waiting_requests t) (waiting (sch t))\<rparr>\<rparr>
      else t)"

definition check_constraints :: "sched_config \<Rightarrow> sched_step \<Rightarrow> unit res" where
  "check_constraints cfg t =
     rbind (py_assert (sum_list (map snd (num_scheduled_tokens t)) \<le> max_num_scheduled_tokens cfg)) (\<lambda>_.
     rbind (py_assert (token_budget t \<ge> 0)) (\<lambda>_.
     rbind (py_assert (py_len (running (sch t)) \<le> max_num_running_reqs cfg)) (\<lambda>_.
     py_assert (py_len (scheduled_new_reqs t) + py_len (scheduled_resumed_reqs t) +
       py_len (scheduled_running_reqs t) \<le> py_len (running (sch t))))))"

definition common_prefix :: "sched_step \<Rightarrow> (int list \<times> sched_step) res" where
  "common_prefix t =
     (case running (sch t) of
        [] \<Rightarrow> Inr (replicate (num_kv_cache_groups (kv (sch t))) 0, t)
      | rid # _ \<Rightarrow> rbind (kcm_get_num_common_prefix_blocks rid (kv (sch t))) (\<lambda>(ns, k).
          Inr (ns, t\<lparr>sch := (sch t)\<lparr>kv := k\<rparr>\<rparr>)))"

definition finish_step :: "sched_config \<Rightarrow> sched_step \<Rightarrow> (scheduler_output \<times> scheduler) res" where
  "finish_step cfg t =
     (let t1 = put_back_skipped cfg t in
      rbind (check_constraints cfg t1) (\<lambda>_.
      rbind (common_prefix t1) (\<lambda>(prefix_blocks, t2).
      let new_reqs = scheduled_new_reqs t2 @ (if use_v2_model_runner cfg then scheduled_resumed_reqs t2 else []);
          resumed = (if use_v2_model_runner cfg then [] else scheduled_resumed_reqs t2)
      in rbind (rmapv (new_request_entry cfg t2) new_reqs) (\<lambda>new_reqs_data.
         rbind (make_cached_request_data cfg (scheduled_running_reqs t2) resumed t2) (\<lambda>cached_reqs_data.
         let (freed_hashes, e) = get_freed_mm_hashes (encoder (sch t2));
             s3 = (sch t2)\<lparr>prev_step_scheduled_req_ids := fst ` set (num_scheduled_tokens t2), encoder := e\<rparr>;
             out = \<lparr>so_new_reqs = new_reqs_data, so_cached_reqs = cached_reqs_data,
                    so_num_scheduled_tokens = num_scheduled_tokens t2,
                    so_total_num_scheduled_tokens = sum_list (map snd (num_scheduled_tokens t2)),
                    so_spec_decode_tokens = scheduled_spec_decode_tokens t2,
                    so_encoder_inputs = scheduled_encoder_inputs t2,
                    so_num_common_prefix_blocks = prefix_blocks, so_finished_req_ids = finished_req_ids s3,
                    so_free_encoder_mm_hashes = freed_hashes, so_preempted_req_ids = set (preempted_reqs t2),
                    so_has_structured_output_requests = False, so_pending_structured_output_tokens = False,
                    so_num_invalid_spec_tokens = []\<rparr>
         in update_after_schedule cfg out s3)))))"

definition schedule ::
    "sched_config \<Rightarrow> (string \<Rightarrow> bool) \<Rightarrow> (mm_hash \<Rightarrow> bool) \<Rightarrow> scheduler \<Rightarrow>
     (scheduler_output \<times> scheduler) res option" where
  "schedule cfg grammar_ready remote s =
     obind (Some (schedule_running cfg remote (begin_step cfg s))) (\<lambda>t1.
     obind (Some (running_loras cfg t1)) (\<lambda>loras.
     let t2 = t1\<lparr>scheduled_loras := loras\<rparr> in
     obind (if preempted_reqs t2 = [] then schedule_waiting cfg grammar_ready remote t2 else Some (Inr t2)) (\<lambda>t3.
     Some (finish_step cfg t3))))"

end
