(* ===== verification/Scheduler_Update.thy ===== *)
theory Scheduler_Update
  imports Scheduler
begin

text \<open>
  The operations of \<^verbatim>\<open>vllm/v1/core/sched/scheduler.py\<close> between two steps: the output of the
  model, new and finished requests, resets; with \<^verbatim>\<open>vllm/v1/core/sched/utils.py\<close> and the overrides
  of \<^verbatim>\<open>vllm/v1/core/sched/async_scheduler.py\<close>.  The block hasher of the requests is the
  parameter \<open>h\<close>.
\<close>

section \<open>Helpers\<close>

text \<open>The set of items as a list without duplicates.\<close>

definition remove_all :: "'a list \<Rightarrow> 'a list \<Rightarrow> 'a list" where
  "remove_all lst items_to_remove =
     (if items_to_remove = [] then lst
      else if length items_to_remove = 1 then remove1 (hd items_to_remove) lst
      else filter (\<lambda>x. x \<notin> set items_to_remove) lst)"

definition check_stop :: "request \<Rightarrow> int \<Rightarrow> (bool \<times> request) res" where
  "check_stop r max_len =
     rbind (py_assert (\<not> is_pooling r)) (\<lambda>_.
     case sampling_params_of r of
       None \<Rightarrow> Inl AssertionError
     | Some sp \<Rightarrow>
         if num_output_tokens r < min_tokens sp then Inr (False, r)
         else rbind (py_get (output_token_ids r) (-1)) (\<lambda>last_token_id.
           if \<not> ignore_eos sp \<and> eos_token_id r = Some last_token_id
           then Inr (True, r\<lparr>req_status := FINISHED_STOPPED\<rparr>)
           else if last_token_id \<in> set (stop_token_ids sp)
           then Inr (True, r\<lparr>req_status := FINISHED_STOPPED, stop_reason := Some last_token_id\<rparr>)
           else if num_tokens r \<ge> max_len \<or> num_output_tokens r \<ge> req_max_tokens r
           then Inr (True, r\<lparr>req_status := FINISHED_LENGTH_CAPPED\<rparr>)
           else Inr (False, r)))"

text \<open>The loop over the new tokens; the tokens after a stop are dropped.\<close>

fun append_and_check ::
    "hasher option \<Rightarrow> int \<Rightarrow> int list \<Rightarrow> request \<Rightarrow> (int list \<times> bool \<times> request) res option" where
  "append_and_check h max_len [] r = Some (Inr ([], False, r))"
| "append_and_check h max_len (tok # toks) r =
     obind (append_output_token_ids h [tok] r) (\<lambda>r1.
     obind (Some (check_stop r1 max_len)) (\<lambda>(stopped, r2).
     if stopped then Some (Inr ([tok], True, r2))
     else obind (append_and_check h max_len toks r2) (\<lambda>(kept, stopped', r3).
          Some (Inr (tok # kept, stopped', r3)))))"

definition update_request_with_output ::
    "sched_config \<Rightarrow> hasher option \<Rightarrow> string \<Rightarrow> int list \<Rightarrow> scheduler \<Rightarrow>
     (int list \<times> bool \<times> scheduler) res option" where
  "update_request_with_output cfg h rid toks s =
     obind (append_and_check h (sched_max_model_len cfg) toks (objs s rid)) (\<lambda>(kept, stopped, r).
     Some (Inr (kept, stopped, set_obj rid (\<lambda>_. r) s)))"

definition async_update_request_with_output ::
    "sched_config \<Rightarrow> hasher option \<Rightarrow> string \<Rightarrow> int list \<Rightarrow> scheduler \<Rightarrow>
     (int list \<times> bool \<times> scheduler) res option" where
  "async_update_request_with_output cfg h rid toks s =
     (if discard_latest_async_tokens (objs s rid)
      then Some (Inr ([], False, set_obj rid (\<lambda>r. r\<lparr>discard_latest_async_tokens := False\<rparr>) s))
      else
        let status_before_update = req_status (objs s rid) in
        obind (update_request_with_output cfg h rid toks s) (\<lambda>(kept, stopped, s1).
        let s2 = set_obj rid (\<lambda>r. r\<lparr>num_output_placeholders := num_output_placeholders r - py_len kept\<rparr>) s1;
            r = objs s2 rid
        in obind (Some (py_assert (num_output_placeholders r \<ge> 0))) (\<lambda>_.
           if status_before_update = RUNNING
           then obind (Some (kcm_cache_blocks r (num_computed_tokens r - num_output_placeholders r) (kv s2))) (\<lambda>k.
                Some (Inr (kept, stopped, s2\<lparr>kv := k\<rparr>)))
           else Some (Inr (kept, stopped, s2)))))"

section \<open>Sessions with streamed input\<close>

definition StreamingUpdate_from_request :: "request \<Rightarrow> streaming_update option" where
  "StreamingUpdate_from_request r =
     (if \<not> resumable r then None
      else Some \<lparr>upd_mm_features = Some (mm_features r), upd_prompt_token_ids =
          (if prompt_embeds r = None then Some (py_upto (all_token_ids r) (num_prompt_tokens r)) else None),
        upd_max_tokens = req_max_tokens r, upd_arrival_time = arrival_time r,
        upd_sampling_params = sampling_params_of r\<rparr>)"

text \<open>
  The prompt tokens of a request are counted by \<open>num_prompt_tokens\<close>; they are absent exactly for
  prompts of embeddings.
\<close>

definition update_request_as_session ::
    "hasher option \<Rightarrow> string \<Rightarrow> streaming_update \<Rightarrow> scheduler \<Rightarrow> scheduler res option" where
  "update_request_as_session h rid u s =
     (let session = objs s rid; computed = num_computed_tokens session;
          kept_output_tokens = py_slice (all_token_ids session) (num_prompt_tokens session) computed;
          kept = py_upto (all_token_ids session) computed;
          new_prompt = (case upd_prompt_token_ids u of None \<Rightarrow> [] | Some ts \<Rightarrow> ts);
          new_features = (case upd_mm_features u of None \<Rightarrow> [] | Some fs \<Rightarrow>
            map (\<lambda>f. f\<lparr>mm_offset := mm_offset f + py_len kept\<rparr>) fs)
      in obind (Some (py_assert (prompt_embeds session = None))) (\<lambda>_.
         obind (update_block_hashes h (session\<lparr>all_token_ids := kept @ new_prompt, output_token_ids := [],
           mm_features := mm_features session @ new_features\<rparr>)) (\<lambda>r1.
         let r2 = r1\<lparr>num_prompt_tokens := num_prompt_tokens session + py_len kept_output_tokens + py_len new_prompt,
                     arrival_time := upd_arrival_time u, sampling_params_of := upd_sampling_params u,
                     req_status := WAITING\<rparr>
         in Some (Inr ((set_obj rid (\<lambda>_. r2) s)
              \<lparr>num_waiting_for_streaming_input := num_waiting_for_streaming_input s -
                 (if req_status session = WAITING_FOR_STREAMING_REQ then 1 else 0)\<rparr>)))))"

text \<open>Whether the stopped request is finished.\<close>

definition handle_stopped_request ::
    "sched_config \<Rightarrow> hasher option \<Rightarrow> string \<Rightarrow> scheduler \<Rightarrow> (bool \<times> scheduler) res option" where
  "handle_stopped_request cfg h rid s =
     (let r = objs s rid; add = (\<lambda>s. s\<lparr>waiting := q_add_request (policy cfg) (sched_lt s) rid (waiting s)\<rparr>) in
      if \<not> resumable r then Some (Inr (True, s))
      else (case streaming_queue r of
          Some (u # us) \<Rightarrow>
            let s1 = set_obj rid (\<lambda>r. r\<lparr>streaming_queue := Some us\<rparr>) s in
            (case u of
               None \<Rightarrow> Some (Inr (True, s1))
             | Some upd \<Rightarrow> obind (update_request_as_session h rid upd s1) (\<lambda>s2. Some (Inr (False, add s2))))
        | _ \<Rightarrow>
            let s1 = (set_obj rid (\<lambda>r. r\<lparr>req_status := WAITING_FOR_STREAMING_REQ\<rparr>) s)
                  \<lparr>num_waiting_for_streaming_input := num_waiting_for_streaming_input s + 1\<rparr>
            in Some (Inr (False, add s1))))"

section \<open>Freeing\<close>

definition free_blocks_of :: "string \<Rightarrow> scheduler \<Rightarrow> scheduler res" where
  "free_blocks_of rid s =
     rbind (py_assert (status_is_finished (req_status (objs s rid)))) (\<lambda>_.
     rbind (free_request (objs s rid) (kv s)) (\<lambda>k.
     if rid \<in> set (requests s) then Inr (s\<lparr>kv := k, requests := remove1 rid (requests s)\<rparr>) else Inl KeyError))"

definition sched_free_request :: "string \<Rightarrow> scheduler \<Rightarrow> scheduler res" where
  "sched_free_request rid s =
     rbind (py_assert (status_is_finished (req_status (objs s rid)))) (\<lambda>_.
     rbind (ecm_free (objs s rid) (encoder s)) (\<lambda>e.
     free_blocks_of rid (s\<lparr>encoder := e, finished_req_ids := insert rid (finished_req_ids s)\<rparr>)))"

section \<open>The output of the model\<close>

text \<open>Of \<open>ModelRunnerOutput\<close> the sampled tokens and which requests have pooler output.\<close>

record model_runner_output =
  req_id_to_index :: "(string \<times> int) list"
  sampled_token_ids :: "int list list"
  pooler_output :: "bool list"

record engine_core_output =
  eo_request_id :: string
  eo_new_token_ids :: "int list"
  eo_finish_reason :: "finish_reason option"
  eo_stop_reason :: "int option"
  eo_num_cached_tokens :: int

record output_step =
  os_sch :: scheduler
  os_outputs :: "engine_core_output list"
  stopped_running_reqs :: "string list"
  stopped_preempted_reqs :: "string list"

text \<open>Draft tokens that were not accepted are not computed.\<close>

definition reject_drafts :: "int list \<Rightarrow> int list \<Rightarrow> request \<Rightarrow> request" where
  "reject_drafts scheduled_spec_token_ids generated_token_ids r =
     (if scheduled_spec_token_ids \<noteq> [] \<and> generated_token_ids \<noteq> [] then
        let num_draft_tokens = py_len scheduled_spec_token_ids;
            num_accepted = py_len generated_token_ids - 1;
            num_rejected = num_draft_tokens - num_accepted;
            r1 = (if num_computed_tokens r > 0
                  then r\<lparr>num_computed_tokens := num_computed_tokens r - num_rejected\<rparr> else r)
        in if num_output_placeholders r1 > 0
           then r1\<lparr>num_output_placeholders := num_output_placeholders r1 - num_rejected\<rparr> else r1
      else r)"

definition process_output ::
    "sched_config \<Rightarrow> hasher option \<Rightarrow> scheduler_output \<Rightarrow> model_runner_output \<Rightarrow> string \<times> int \<Rightarrow> output_step \<Rightarrow>
     output_step res option" where
  "process_output cfg h out mo e t =
     (let (rid, n) = e; s = os_sch t in
      obind (Some (py_assert (n > 0))) (\<lambda>_.
      if rid \<notin> set (requests s) \<or> status_is_finished (req_status (objs s rid)) then Some (Inr t)
      else
        obind (Some (dict_item rid (req_id_to_index mo))) (\<lambda>i.
        obind (Some (if sampled_token_ids mo \<noteq> [] then py_get (sampled_token_ids mo) i else Inr [])) (\<lambda>generated.
        let s1 = set_obj rid (reject_drafts (spec_of rid (so_spec_decode_tokens out)) generated) s in
        obind (Some (if pooler_output mo \<noteq> [] then py_get (pooler_output mo) i else Inr False)) (\<lambda>pooled.
        let status_before_stop = req_status (objs s1 rid) in
        obind (if generated \<noteq> []
               then (if async_scheduling cfg then async_update_request_with_output cfg h rid generated s1
                     else update_request_with_output cfg h rid generated s1)
               else if is_pooling (objs s1 rid) \<and> pooled
               then Some (Inr ([], True, set_obj rid (\<lambda>r. r\<lparr>req_status := FINISHED_STOPPED\<rparr>) s1))
               else Some (Inr ([], False, s1))) (\<lambda>(new_token_ids, stopped, s2).
        let finish = status_get_finished_reason (req_status (objs s2 rid)) in
        obind (if stopped
               then obind (handle_stopped_request cfg h rid s2) (\<lambda>(finished, s3).
                    Some (if finished then sched_free_request rid s3 else Inr s3))
               else Some (Inr s2)) (\<lambda>s4.
        let t1 = (if stopped
                  then (if status_before_stop = RUNNING
                        then t\<lparr>stopped_running_reqs := List.insert rid (stopped_running_reqs t)\<rparr>
                        else t\<lparr>stopped_preempted_reqs := List.insert rid (stopped_preempted_reqs t)\<rparr>)
                  else t);
            t2 = (if new_token_ids \<noteq> [] \<or> pooled \<or> stopped
                  then t1\<lparr>os_outputs := os_outputs t1 @ [\<lparr>eo_request_id = rid, eo_new_token_ids = new_token_ids,
                    eo_finish_reason = (if stopped then finish else None),
                    eo_stop_reason = stop_reason (objs s4 rid),
                    eo_num_cached_tokens = num_cached_tokens (objs s4 rid)\<rparr>]\<rparr>
                  else t1)
        in Some (Inr (t2\<lparr>os_sch := s4\<rparr>)))))))))"

primrec process_outputs ::
    "sched_config \<Rightarrow> hasher option \<Rightarrow> scheduler_output \<Rightarrow> model_runner_output \<Rightarrow> (string \<times> int) list \<Rightarrow>
     output_step \<Rightarrow> output_step res option" where
  "process_outputs cfg h out mo [] t = Some (Inr t)"
| "process_outputs cfg h out mo (e # es) t =
     obind (process_output cfg h out mo e t) (process_outputs cfg h out mo es)"

definition update_from_output ::
    "sched_config \<Rightarrow> hasher option \<Rightarrow> scheduler_output \<Rightarrow> model_runner_output \<Rightarrow> scheduler \<Rightarrow>
     (engine_core_output list \<times> kv_event list \<times> scheduler) res option" where
  "update_from_output cfg h out mo s =
     obind (process_outputs cfg h out mo (so_num_scheduled_tokens out)
       \<lparr>os_sch = s, os_outputs = [], stopped_running_reqs = [], stopped_preempted_reqs = []\<rparr>) (\<lambda>t.
     let s1 = os_sch t;
         s2 = (if stopped_running_reqs t \<noteq> []
               then s1\<lparr>running := remove_all (running s1) (stopped_running_reqs t)\<rparr> else s1);
         s3 = (if stopped_preempted_reqs t \<noteq> []
               then s2\<lparr>waiting := q_remove_requests (policy cfg) (sched_lt s2) (stopped_preempted_reqs t) (waiting s2)\<rparr>
               else s2);
         (es, k) = kcm_take_events (kv s3)
     in Some (Inr (os_outputs t, es, s3\<lparr>kv := k\<rparr>)))"

section \<open>Requests that arrive and leave\<close>

text \<open>The first pass over the ids: the requests to finish, and those of them that are running.\<close>

record finish_pass =
  fp_valid :: "string list"
  fp_running :: "string list"
  fp_waiting :: "string list"
  fp_streaming :: int

definition collect_finish :: "scheduler \<Rightarrow> string \<Rightarrow> finish_pass \<Rightarrow> finish_pass" where
  "collect_finish s rid f =
     (if rid \<notin> set (requests s) \<or> status_is_finished (req_status (objs s rid)) then f
      else let f1 = f\<lparr>fp_valid := fp_valid f @ [rid]\<rparr> in
        if req_status (objs s rid) = RUNNING then f1\<lparr>fp_running := List.insert rid (fp_running f1)\<rparr>
        else f1\<lparr>fp_waiting := fp_waiting f1 @ [rid],
                fp_streaming := fp_streaming f1 +
                  (if req_status (objs s rid) = WAITING_FOR_STREAMING_REQ then 1 else 0)\<rparr>)"

definition finish_one :: "request_status \<Rightarrow> string \<Rightarrow> scheduler \<Rightarrow> scheduler res" where
  "finish_one finished_status rid s =
     sched_free_request rid (set_obj rid (\<lambda>r. r\<lparr>req_status := finished_status\<rparr>) s)"

text \<open>The ids in the order in which the set is iterated; a request never waits for remote blocks.\<close>

definition sched_finish_requests ::
    "sched_config \<Rightarrow> string list \<Rightarrow> request_status \<Rightarrow> scheduler \<Rightarrow> scheduler res" where
  "sched_finish_requests cfg request_ids finished_status s =
     rbind (py_assert (status_is_finished finished_status)) (\<lambda>_.
     let f = fold (collect_finish s) request_ids
               \<lparr>fp_valid = [], fp_running = [], fp_waiting = [], fp_streaming = 0\<rparr>;
         s0 = s\<lparr>num_waiting_for_streaming_input := num_waiting_for_streaming_input s - fp_streaming f\<rparr>;
         s1 = (if fp_running f \<noteq> [] then s0\<lparr>running := remove_all (running s0) (fp_running f)\<rparr> else s0);
         s2 = (if fp_waiting f \<noteq> []
               then s1\<lparr>waiting := q_remove_requests (policy cfg) (sched_lt s1) (fp_waiting f) (waiting s1)\<rparr>
               else s1)
     in rfold (finish_one finished_status) (fp_valid f) s2)"

definition sched_add_request ::
    "sched_config \<Rightarrow> hasher option \<Rightarrow> request \<Rightarrow> scheduler \<Rightarrow> scheduler res option" where
  "sched_add_request cfg h r s =
     (let rid = request_id r in
      if rid \<in> set (requests s) then
        let existing = objs s rid; update = StreamingUpdate_from_request r in
        if req_status existing \<noteq> WAITING_FOR_STREAMING_REQ then
          (case streaming_queue existing of
             None \<Rightarrow> Some (Inl AssertionError)
           | Some us \<Rightarrow> Some (Inr (set_obj rid (\<lambda>e. e\<lparr>streaming_queue := Some (us @ [update])\<rparr>) s)))
        else (case update of
            Some u \<Rightarrow> update_request_as_session h rid u s
          | None \<Rightarrow> Some (sched_finish_requests cfg [rid] FINISHED_ABORTED s))
      else
        let r' = (if resumable r then r\<lparr>streaming_queue := Some []\<rparr> else r);
            s1 = set_obj rid (\<lambda>_. r') s
        in Some (Inr (s1\<lparr>waiting := q_add_request (policy cfg) (sched_lt s1) rid (waiting s1),
                         requests := requests s1 @ [rid]\<rparr>)))"

section \<open>Resets and counts\<close>

text \<open>The running requests are preempted from the last one on.\<close>

definition preempt_for_reset :: "sched_config \<Rightarrow> string \<Rightarrow> scheduler \<Rightarrow> scheduler res" where
  "preempt_for_reset cfg rid s =
     rbind (preempt_request cfg rid (s\<lparr>running := butlast (running s)\<rparr>)) (\<lambda>s1.
     Inr (set_obj rid (\<lambda>r. r\<lparr>num_output_placeholders := 0, discard_latest_async_tokens := True\<rparr>) s1))"

definition sched_reset_prefix_cache :: "sched_config \<Rightarrow> bool \<Rightarrow> scheduler \<Rightarrow> (bool \<times> scheduler) res" where
  "sched_reset_prefix_cache cfg reset_running_requests s =
     rbind (if reset_running_requests
            then rbind (rfold (preempt_for_reset cfg) (rev (running s)) s) (\<lambda>s1.
                 Inr (s1\<lparr>prev_step_scheduled_req_ids := {}\<rparr>))
            else Inr s) (\<lambda>s1.
     rbind (kcm_reset_prefix_cache (kv s1)) (\<lambda>(reset_successful, k).
     if reset_running_requests \<and> \<not> reset_successful then Inl RuntimeError
     else Inr (reset_successful, s1\<lparr>kv := k\<rparr>)))"

definition reset_encoder_cache :: "scheduler \<Rightarrow> scheduler" where
  "reset_encoder_cache s = s\<lparr>encoder := ecm_reset (encoder s)\<rparr>"

definition get_request_counts :: "scheduler \<Rightarrow> int \<times> int" where
  "get_request_counts s = (py_len (running s), py_len (waiting s))"

definition get_num_unfinished_requests :: "scheduler \<Rightarrow> int" where
  "get_num_unfinished_requests s =
     (py_len (waiting s) - num_waiting_for_streaming_input s) + py_len (running s)"

definition has_finished_requests :: "scheduler \<Rightarrow> bool" where
  "has_finished_requests s \<longleftrightarrow> finished_req_ids s \<noteq> {}"

section \<open>Draft tokens\<close>

text \<open>
  The grammar of a request with structured output cuts the draft tokens: \<open>valid rid\<close>, when
  \<open>should_advance\<close> holds for the request.
\<close>

definition update_draft_token_ids ::
    "(string \<Rightarrow> (int list \<Rightarrow> int list) option) \<Rightarrow> (string \<times> int list) list \<Rightarrow> scheduler \<Rightarrow> scheduler" where
  "update_draft_token_ids valid drafts s =
     fold (\<lambda>(rid, toks) s.
         if rid \<notin> set (requests s) \<or> status_is_finished (req_status (objs s rid)) then s
         else if is_prefill_chunk (objs s rid)
         then set_obj rid (\<lambda>r. r\<lparr>spec_token_ids := []\<rparr>) s
         else set_obj rid (\<lambda>r. r\<lparr>spec_token_ids :=
                (case valid rid of None \<Rightarrow> toks | Some f \<Rightarrow> f toks)\<rparr>) s)
       drafts s"

definition update_draft_token_ids_in_output ::
    "(string \<Rightarrow> (int list \<Rightarrow> int list) option) \<Rightarrow> (string \<times> int list) list \<Rightarrow> scheduler \<Rightarrow> scheduler_output \<Rightarrow>
     scheduler_output" where
  "update_draft_token_ids_in_output valid drafts s out =
     (let step = (\<lambda>(rid, toks) (invalid, spec).
            if rid \<notin> set (requests s) \<or> status_is_finished (req_status (objs s rid)) then (invalid, spec)
            else let placeholders = spec_of rid spec in
              if placeholders = [] then (invalid, spec)
              else let cut = py_upto toks (py_len placeholders);
                       checked = (case valid rid of None \<Rightarrow> cut | Some f \<Rightarrow> f cut);
                       num_invalid_tokens = py_len placeholders - py_len checked
                in if num_invalid_tokens \<noteq> 0
                   then (AList.update rid num_invalid_tokens invalid,
                         AList.update rid (checked @ py_repeat (-1) num_invalid_tokens) spec)
                   else (invalid, AList.update rid checked spec));
          (invalid, spec) = fold step drafts ([], so_spec_decode_tokens out)
      in out\<lparr>so_spec_decode_tokens := spec, so_num_invalid_spec_tokens := invalid\<rparr>)"

end
