(* ===== verification/Scheduler_Inv.thy ===== *)
theory Scheduler_Inv
  imports KV_Provider Scheduler_Update Request_Queue_Facts
begin

text \<open>
  The invariant of the scheduler and the operations of \<open>schedule\<close> on single requests: victims are
  chosen, taken out of the plan of the step and preempted without raising, and no request is lost.
\<close>

section \<open>The invariant\<close>

text \<open>\<open>sz\<close> gives the size of an encoder output by its hash.\<close>

definition request_ok :: "kv_contract \<Rightarrow> (mm_hash \<Rightarrow> int) \<Rightarrow> string \<Rightarrow> request \<Rightarrow> bool" where
  "request_ok K sz rid r \<longleftrightarrow> request_id r = rid \<and> kv_hashed K (block_hashes r) (num_tokens r) \<and>
     0 < num_tokens r \<and> num_tokens r < kv_max_len K \<and> sized sz r \<and> list_all feature_ok (mm_features r)"

definition running_ok :: "kv_contract \<Rightarrow> (mm_hash \<Rightarrow> int) \<Rightarrow> scheduler \<Rightarrow> string \<Rightarrow> bool" where
  "running_ok K sz s rid \<longleftrightarrow>
     (let r = objs s rid in
      rid \<in> set (requests s) \<and> request_ok K sz rid r \<and> req_status r = RUNNING \<and>
      0 \<le> num_computed_tokens r \<and> num_computed_tokens r < kv_max_len K \<and>
      kv_covers K rid (num_computed_tokens r) (kv s))"

definition waiting_ok :: "kv_contract \<Rightarrow> (mm_hash \<Rightarrow> int) \<Rightarrow> scheduler \<Rightarrow> string \<Rightarrow> bool" where
  "waiting_ok K sz s rid \<longleftrightarrow>
     (let r = objs s rid in
      rid \<in> set (requests s) \<and> request_ok K sz rid r \<and> req_status r \<in> {WAITING, PREEMPTED, WAITING_FOR_FSM} \<and>
      num_computed_tokens r = 0 \<and> kv_new K rid (kv s))"

lemma request_ok_same:
  assumes "request_id r' = request_id r" "block_hashes r' = block_hashes r" "all_token_ids r' = all_token_ids r"
    "mm_features r' = mm_features r"
  shows "request_ok K sz rid r' = request_ok K sz rid r"
  using assms by (simp add: request_ok_def sized_def num_tokens_def)

text \<open>\<open>ws\<close> are the requests that wait, in any order.\<close>

definition core_inv :: "kv_contract \<Rightarrow> (mm_hash \<Rightarrow> int) \<Rightarrow> string list \<Rightarrow> scheduler \<Rightarrow> bool" where
  "core_inv K sz ws s \<longleftrightarrow> kv_fine K (kv s) \<and> ecm_inv sz (encoder s) \<and> distinct (running s @ ws) \<and>
     (\<forall>rid \<in> set (running s). running_ok K sz s rid) \<and> (\<forall>rid \<in> set ws. waiting_ok K sz s rid)"

definition queue_ok :: "sched_config \<Rightarrow> scheduler \<Rightarrow> string list \<Rightarrow> bool" where
  "queue_ok cfg s q \<longleftrightarrow> q_invar (policy cfg) (sched_lt s) q"

definition sched_inv :: "kv_contract \<Rightarrow> (mm_hash \<Rightarrow> int) \<Rightarrow> sched_config \<Rightarrow> scheduler \<Rightarrow> bool" where
  "sched_inv K sz cfg s \<longleftrightarrow> core_inv K sz (waiting s) s \<and> queue_ok cfg s (waiting s) \<and>
     py_len (running s) \<le> max_num_running_reqs cfg \<and>
     (\<forall>rid \<in> set (waiting s). req_status (objs s rid) = PREEMPTED \<longrightarrow> rid \<notin> prev_step_scheduled_req_ids s)"

text \<open>The tokens of a request that were not computed are still to be scheduled.\<close>

definition on_time :: "request \<Rightarrow> bool" where
  "on_time r \<longleftrightarrow> num_computed_tokens r \<le> num_tokens_with_spec r + num_output_placeholders r"

text \<open>A configuration without adapters and without block-aligned Mamba states.\<close>

definition plain_sched :: "kv_contract \<Rightarrow> sched_config \<Rightarrow> bool" where
  "plain_sched K cfg \<longleftrightarrow> sched_max_model_len cfg = kv_max_len K \<and> max_loras cfg = None \<and>
     \<not> need_mamba_block_aligned_split cfg \<and> 0 \<le> num_lookahead_tokens cfg \<and> 0 \<le> max_num_scheduled_tokens cfg \<and>
     0 \<le> max_num_encoder_input_tokens cfg"

section \<open>Frames\<close>

lemma core_inv_mset: "core_inv K sz ws s \<Longrightarrow> mset ws' = mset ws \<Longrightarrow> core_inv K sz ws' s"
  unfolding core_inv_def
  by (metis mset_append mset_eq_imp_distinct_iff set_mset_mset)

text \<open>A step that concerns the request \<open>rid\<close> only.\<close>

lemma core_step:
  assumes "core_inv K sz ws s" and "kv_fine K (kv s')" and "keeps_tables K (\<lambda>x. x \<noteq> rid) (kv s) (kv s')"
    and "ecm_inv sz (encoder s')" and "requests s' = requests s" and "\<And>x. x \<noteq> rid \<Longrightarrow> objs s' x = objs s x"
    and "distinct (running s' @ ws')" and "set (running s') \<subseteq> insert rid (set (running s))"
    and "set ws' \<subseteq> insert rid (set ws)"
    and "rid \<in> set (running s') \<Longrightarrow> running_ok K sz s' rid" and "rid \<in> set ws' \<Longrightarrow> waiting_ok K sz s' rid"
  shows "core_inv K sz ws' s'"
proof -
  have "running_ok K sz s' x" if "x \<in> set (running s')" for x
  proof (cases "x = rid")
    case False
    then have "running_ok K sz s x" using assms(1,8) that by (auto simp: core_inv_def)
    then show ?thesis using False assms(3,5,6) by (simp add: running_ok_def keeps_tables_def Let_def)
  qed (use that assms(10) in simp)
  moreover have "waiting_ok K sz s' x" if "x \<in> set ws'" for x
  proof (cases "x = rid")
    case False
    then have "waiting_ok K sz s x" using assms(1,9) that by (auto simp: core_inv_def)
    then show ?thesis using False assms(3,5,6) by (simp add: waiting_ok_def keeps_tables_def Let_def)
  qed (use that assms(11) in simp)
  ultimately show ?thesis using assms(2,4,7) by (simp add: core_inv_def)
qed

lemma keeps_refl [simp]: "keeps_tables K P k k"
  by (simp add: keeps_tables_def)

lemma keeps_trans: "keeps_tables K P k k1 \<Longrightarrow> keeps_tables K P k1 k2 \<Longrightarrow> keeps_tables K P k k2"
  by (simp add: keeps_tables_def)

lemma keeps_sub: "keeps_tables K P k k' \<Longrightarrow> (\<And>x. Q x \<Longrightarrow> P x) \<Longrightarrow> keeps_tables K Q k k'"
  by (auto simp: keeps_tables_def)

lemma sched_lt_cong:
  assumes "\<And>x. request_key (objs s' x) = request_key (objs s x)"
  shows "sched_lt s' = sched_lt s"
  using assms by (simp add: fun_eq_iff sched_lt_def request_lt_key)

lemma sched_lt_objs: "sched_lt s = (\<lambda>a b. request_lt (objs s a) (objs s b))"
  by (simp add: fun_eq_iff sched_lt_def)

text \<open>The contract of the queue, for the order of the scheduler.\<close>

lemma queue_ok_lt: "sched_lt s' = sched_lt s \<Longrightarrow> queue_ok cfg s' = queue_ok cfg s"
  by (rule ext) (simp add: queue_ok_def)

lemma queue_laws:
  assumes "queue_ok cfg s q"
  shows "queue_ok cfg s (q_prepend_request (policy cfg) (sched_lt s) x q)"
    "mset (q_prepend_request (policy cfg) (sched_lt s) x q) = add_mset x (mset q)"
    "queue_ok cfg s (q_add_request (policy cfg) (sched_lt s) x q)"
    "mset (q_add_request (policy cfg) (sched_lt s) x q) = add_mset x (mset q)"
    "queue_ok cfg s q' \<Longrightarrow> queue_ok cfg s (q_prepend_requests (policy cfg) (sched_lt s) q' q)"
    "queue_ok cfg s q' \<Longrightarrow> mset (q_prepend_requests (policy cfg) (sched_lt s) q' q) = mset q' + mset q"
    "queue_ok cfg s (q_remove_requests (policy cfg) (sched_lt s) xs q)"
    "mset (q_remove_requests (policy cfg) (sched_lt s) xs q) = filter_mset (\<lambda>x. x \<notin> set xs) (mset q)"
  using assms rq.prepend [of "policy cfg" "objs s" q x] rq.add [of "policy cfg" "objs s" q x]
    rq.prepend_all [of "policy cfg" "objs s" q q'] rq.remove [of "policy cfg" "objs s" q xs]
  by (simp_all add: queue_ok_def sched_lt_objs)

lemma queue_pop:
  assumes "queue_ok cfg s q" and "q \<noteq> []"
  shows "\<exists>x q'. q_peek_request (policy cfg) q = Inr x \<and> q_pop_request (policy cfg) (sched_lt s) q = Inr (x, q') \<and>
    queue_ok cfg s q' \<and> mset q = add_mset x (mset q')"
  using assms rq.pop [of "policy cfg" "objs s" q] by (simp add: queue_ok_def sched_lt_objs)

text \<open>What a release does to the encoder cache.\<close>

definition enc_kept :: "encoder_cache \<Rightarrow> encoder_cache \<Rightarrow> bool" where
  "enc_kept e e' \<longleftrightarrow> (\<forall>h. map_of (cached e') h = None \<longleftrightarrow> map_of (cached e) h = None) \<and>
     num_free_slots e' = num_free_slots e"

lemma enc_kept_refl [simp]: "enc_kept e e"
  by (simp add: enc_kept_def)

lemma enc_kept_trans: "enc_kept e e1 \<Longrightarrow> enc_kept e1 e2 \<Longrightarrow> enc_kept e e2"
  by (simp add: enc_kept_def)

lemma ecm_free_kept:
  assumes "\<And>h. 0 \<le> sz h" and "sized sz r" and "ecm_inv sz e"
  shows "\<exists>e'. ecm_free r e = Inr e' \<and> ecm_inv sz e' \<and> enc_kept e e'"
proof -
  have "\<forall>i \<in> set (get_cached_input_ids r e). valid_input r i"
    by (auto simp: get_cached_input_ids_def valid_input_def py_len_def)
  from free_loop [OF assms(1,2) this assms(3)] show ?thesis by (auto simp: ecm_free_def enc_kept_def)
qed

lemma plan_inv_kept:
  "plan_inv sz r b p \<Longrightarrow> enc_kept (plan_cache p) e \<Longrightarrow> ecm_inv sz e \<Longrightarrow> plan_inv sz r b (p\<lparr>plan_cache := e\<rparr>)"
  by (auto simp: plan_inv_def enc_kept_def Let_def)

section \<open>Preemption\<close>

context kv_provider
begin

text \<open>A request that left the running ones goes back to the waiting ones.\<close>

lemma preempt_spec:
  assumes inv: "core_inv K sz ws s" and v: "running_ok K sz s v" "v \<notin> set (running s)" "v \<notin> set ws"
    and sz: "\<And>h. 0 \<le> sz h" and q: "queue_ok cfg s (waiting s)"
  shows "\<exists>s'. preempt_request cfg v s = Inr s' \<and> core_inv K sz (v # ws) s' \<and> queue_ok cfg s' (waiting s') \<and>
    mset (waiting s') = add_mset v (mset (waiting s)) \<and> running s' = running s \<and> requests s' = requests s \<and>
    prev_step_scheduled_req_ids s' = prev_step_scheduled_req_ids s \<and> (\<forall>x. x \<noteq> v \<longrightarrow> objs s' x = objs s x) \<and>
    mm_features (objs s' v) = mm_features (objs s v) \<and>
    keeps_tables K (\<lambda>x. x \<noteq> v) (kv s) (kv s') \<and> enc_kept (encoder s) (encoder s')"
proof -
  let ?r = "objs s v"
  have r: "request_id ?r = v" "sized sz ?r" "req_status ?r = RUNNING"
    using v(1) by (simp_all add: running_ok_def request_ok_def Let_def)
  obtain k where k: "free_request ?r (kv s) = Inr k" "kv_fine K k" "keeps_tables K (\<lambda>x. x \<noteq> v) (kv s) k" "kv_new K v k"
    using release [of "kv s" ?r "num_computed_tokens ?r"] inv v(1) r(1) by (auto simp: core_inv_def running_ok_def Let_def)
  obtain e where e: "ecm_free ?r (encoder s) = Inr e" "ecm_inv sz e" "enc_kept (encoder s) e"
    using ecm_free_kept [OF sz r(2), of "encoder s"] inv by (auto simp: core_inv_def)
  define s1 where "s1 = set_obj v (\<lambda>r. r\<lparr>req_status := PREEMPTED, num_computed_tokens := 0, spec_token_ids := [],
    num_preemptions := num_preemptions r + 1\<rparr>) (s\<lparr>kv := k, encoder := e\<rparr>)"
  define s' where "s' = s1\<lparr>waiting := q_prepend_request (policy cfg) (sched_lt s1) v (waiting s1)\<rparr>"
  have run: "preempt_request cfg v s = Inr s'"
    using r(3) k(1) e(1) by (simp add: preempt_request_def s'_def s1_def Let_def)
  have s1: "kv s1 = k" "encoder s1 = e" "running s1 = running s" "waiting s1 = waiting s" "requests s1 = requests s"
    "prev_step_scheduled_req_ids s1 = prev_step_scheduled_req_ids s" "\<And>x. x \<noteq> v \<Longrightarrow> objs s1 x = objs s x"
    by (simp_all add: s1_def set_obj_def)
  have "request_key (objs s1 x) = request_key (objs s x)" for x
    by (simp add: s1_def set_obj_def request_key_def)
  then have lt: "sched_lt s1 = sched_lt s" by (rule sched_lt_cong)
  then have lt': "sched_lt s' = sched_lt s" by (simp add: s'_def sched_lt_objs)
  have "waiting s' = q_prepend_request (policy cfg) (sched_lt s) v (waiting s)" by (simp add: s'_def lt s1)
  with queue_laws(1,2) [OF q, of v]
  have queue: "queue_ok cfg s' (waiting s')" "mset (waiting s') = add_mset v (mset (waiting s))"
    by (simp_all add: queue_ok_lt [OF lt'])
  have "waiting_ok K sz s' v"
    using v(1) k(4) request_ok_same [of "objs s' v" "objs s v" K sz v]
    by (simp add: s'_def s1_def set_obj_def waiting_ok_def running_ok_def Let_def)
  then have "core_inv K sz (v # ws) s'"
    using inv k(2,3) e(2) s1 v(2,3) by (intro core_step [OF inv, where rid = v]) (auto simp: s'_def core_inv_def)
  moreover have "mm_features (objs s' v) = mm_features (objs s v)" by (simp add: s'_def s1_def set_obj_def)
  ultimately show ?thesis using run queue k(3) e(3) s1 by (simp add: s'_def)
qed

end

section \<open>The plan of the step\<close>

definition step_reqs :: "sched_step \<Rightarrow> string list" where
  "step_reqs t = scheduled_new_reqs t @ scheduled_resumed_reqs t @ scheduled_running_reqs t"

text \<open>The tokens, blocks and encoder inputs that were given out in this step.\<close>

definition booked :: "kv_contract \<Rightarrow> sched_config \<Rightarrow> sched_step \<Rightarrow> bool" where
  "booked K cfg t \<longleftrightarrow>
     distinct (step_reqs t) \<and> set (step_reqs t) \<subseteq> set (running (sch t)) \<and>
     distinct (map fst (num_scheduled_tokens t)) \<and> fst ` set (num_scheduled_tokens t) = set (step_reqs t) \<and>
     fst ` set (req_to_new_blocks t) = set (step_reqs t) \<and>
     (\<forall>(rid, n) \<in> set (num_scheduled_tokens t). 0 < n \<and>
        num_computed_tokens (objs (sch t) rid) + n < kv_max_len K \<and>
        kv_covers K rid (num_computed_tokens (objs (sch t) rid) + n) (kv (sch t))) \<and>
     token_budget t = max_num_scheduled_tokens cfg - sum_list (map snd (num_scheduled_tokens t)) \<and>
     0 \<le> token_budget t \<and> 0 \<le> encoder_compute_budget t \<and>
     (\<forall>(rid, is) \<in> set (scheduled_encoder_inputs t). \<forall>i \<in> set is. valid_input (objs (sch t) rid) i)"

lemma booked_frame:
  assumes "booked K cfg t" and "set (step_reqs t) \<subseteq> set (running s)"
    and "\<And>x. num_computed_tokens (objs s x) = num_computed_tokens (objs (sch t) x) \<or> x \<notin> set (step_reqs t)"
    and "\<And>x. mm_features (objs s x) = mm_features (objs (sch t) x)"
    and "keeps_tables K (\<lambda>x. x \<in> set (step_reqs t)) (kv (sch t)) (kv s)"
  shows "booked K cfg (t\<lparr>sch := s\<rparr>)"
proof -
  have reqs: "step_reqs (t\<lparr>sch := s\<rparr>) = step_reqs t" by (simp add: step_reqs_def)
  have key: "rid \<in> set (step_reqs t)" if "(rid, n) \<in> set (num_scheduled_tokens t)" for rid n
  proof -
    have "fst ` set (num_scheduled_tokens t) = set (step_reqs t)" using assms(1) by (simp add: booked_def)
    with that show ?thesis by force
  qed
  have "0 < n \<and> num_computed_tokens (objs s rid) + n < kv_max_len K \<and>
      kv_covers K rid (num_computed_tokens (objs s rid) + n) (kv s)"
    if e: "(rid, n) \<in> set (num_scheduled_tokens t)" for rid n
  proof -
    have "0 < n \<and> num_computed_tokens (objs (sch t) rid) + n < kv_max_len K \<and>
        kv_covers K rid (num_computed_tokens (objs (sch t) rid) + n) (kv (sch t))"
      using assms(1) e by (auto simp: booked_def)
    moreover have "num_computed_tokens (objs s rid) = num_computed_tokens (objs (sch t) rid)"
      using assms(3) [of rid] key [OF e] by simp
    ultimately show ?thesis using assms(5) key [OF e] by (simp add: keeps_tables_def)
  qed
  then have "\<forall>(rid, n) \<in> set (num_scheduled_tokens t). 0 < n \<and>
      num_computed_tokens (objs s rid) + n < kv_max_len K \<and>
      kv_covers K rid (num_computed_tokens (objs s rid) + n) (kv s)" by blast
  then show ?thesis
    using assms(1,2,4) by (simp add: booked_def reqs valid_input_def)
qed

lemma update_new: "k \<notin> fst ` set al \<Longrightarrow> AList.update k v al = al @ [(k, v)]"
  by (induction al) auto

lemma sum_delete:
  "distinct (map fst al) \<Longrightarrow> map_of al k = Some n \<Longrightarrow>
    sum_list (map snd (AList.delete k al)) = sum_list (map snd al) - (n :: int)"
  by (induction al) (auto simp: delete_notin_dom)

lemma keys_delete: "fst ` set (AList.delete k al) = fst ` set al - {k}"
  by (induction al) auto

lemma map_of_key: "k \<in> fst ` set al \<Longrightarrow> \<exists>v. map_of al k = Some v"
  by (metis domD dom_map_of_conv_image_fst)

section \<open>Victims\<close>

text \<open>The request \<open>rid\<close> is the one that is being scheduled; those before it may have been.\<close>

definition at_cursor :: "sched_config \<Rightarrow> string \<Rightarrow> sched_step \<Rightarrow> bool" where
  "at_cursor cfg rid t \<longleftrightarrow>
     (let i = nat (req_index t); rs = running (sch t) in
      0 \<le> req_index t \<and> rid \<in> set (take (Suc i) rs) \<and> (policy cfg = FCFS \<longrightarrow> i < length rs \<and> rs ! i = rid) \<and>
      rid \<notin> set (scheduled_running_reqs t) \<and> set (scheduled_running_reqs t) \<subseteq> set (take i rs) \<and>
      scheduled_new_reqs t = [] \<and> scheduled_resumed_reqs t = [])"

lemma take_remove1:
  "x \<in> set (take n xs) \<Longrightarrow> x \<noteq> v \<Longrightarrow> x \<in> set (take n (remove1 v xs))"
proof (induction xs arbitrary: n)
  case (Cons y xs)
  show ?case
  proof (cases n)
    case (Suc m)
    show ?thesis
    proof (cases "y = v")
      case True
      then have "x \<in> set (take m xs)" using Cons.prems Suc by auto
      then show ?thesis using True Suc set_take_subset_set_take [of m "Suc m" xs] by auto
    qed (use Cons Suc in auto)
  qed (use Cons in simp)
qed simp

lemma take_remove1_before:
  "v \<in> set (take (Suc m) xs) \<Longrightarrow> take m (remove1 v xs) = remove1 v (take (Suc m) xs)"
proof (induction xs arbitrary: m)
  case (Cons y xs)
  then show ?case by (cases m) auto
qed simp

lemma butlast_remove1: "distinct xs \<Longrightarrow> xs \<noteq> [] \<Longrightarrow> butlast xs = remove1 (last xs) xs"
  by (induction xs rule: rev_induct) (simp_all add: remove1_append)

lemma take_before_cursor:
  assumes "v \<in> set (take i xs)" and "x \<in> set (take (Suc i) xs)" and "x \<noteq> v"
  shows "x \<in> set (take i (remove1 v xs))"
proof -
  have "v \<in> set (take (Suc i) xs)" using assms(1) set_take_subset_set_take [of i "Suc i" xs] by auto
  from take_remove1_before [OF this] assms(2,3) show ?thesis by simp
qed

text \<open>Taking a victim out of the plan gives its tokens and its encoder budget back.\<close>

lemma unschedule_spec:
  assumes b: "booked K cfg t" and v: "v \<in> set (scheduled_running_reqs t)"
    and new: "scheduled_new_reqs t = []" "scheduled_resumed_reqs t = []"
    and sz: "\<And>h. 0 \<le> sz h" and sized: "sized sz (objs (sch t) v)"
  shows "\<exists>t'. unschedule v t = Inr t' \<and> sch t' = sch t \<and> req_index t' = req_index t - 1 \<and>
    preempted_reqs t' = preempted_reqs t \<and> skipped_waiting_requests t' = skipped_waiting_requests t \<and>
    scheduled_running_reqs t' = remove1 v (scheduled_running_reqs t) \<and>
    scheduled_new_reqs t' = [] \<and> scheduled_resumed_reqs t' = [] \<and> token_budget t \<le> token_budget t' \<and>
    booked K cfg t'"
proof -
  have reqs: "step_reqs t = scheduled_running_reqs t" using new by (simp add: step_reqs_def)
  obtain n where n: "map_of (num_scheduled_tokens t) v = Some n"
    using b v reqs map_of_key [of v "num_scheduled_tokens t"] by (auto simp: booked_def)
  obtain nb where nb: "map_of (req_to_new_blocks t) v = Some nb"
    using b v reqs map_of_key [of v "req_to_new_blocks t"] by (auto simp: booked_def)
  define inputs where "inputs = (case map_of (scheduled_encoder_inputs t) v of None \<Rightarrow> [] | Some is \<Rightarrow> is)"
  have valid: "\<forall>i \<in> set inputs. valid_input (objs (sch t) v) i"
    using b by (cases "map_of (scheduled_encoder_inputs t) v") (auto simp: inputs_def booked_def dest!: map_of_SomeD)
  let ?sizes = "map (\<lambda>i. sz (input_hash (objs (sch t) v) i)) inputs"
  have embeds: "rmapv (get_num_encoder_embeds (objs (sch t) v)) inputs = Inr ?sizes"
    using valid by (induction inputs) (simp_all add: valid_input_size [OF _ sized])
  have sum: "0 \<le> sum_list ?sizes" by (rule sum_list_nonneg) (auto simp: sz)
  define t' where "t' = t\<lparr>scheduled_running_reqs := remove1 v (scheduled_running_reqs t),
    token_budget := token_budget t + n, num_scheduled_tokens := AList.delete v (num_scheduled_tokens t),
    req_to_new_blocks := AList.delete v (req_to_new_blocks t),
    scheduled_spec_decode_tokens := AList.delete v (scheduled_spec_decode_tokens t),
    scheduled_encoder_inputs := AList.delete v (scheduled_encoder_inputs t),
    encoder_compute_budget := encoder_compute_budget t + sum_list ?sizes, req_index := req_index t - 1\<rparr>"
  have run: "unschedule v t = Inr t'"
    by (simp add: unschedule_def dict_pop_def n nb inputs_def [symmetric] embeds Let_def t'_def)
  have reqs': "step_reqs t' = remove1 v (step_reqs t)" using new by (simp add: step_reqs_def t'_def)
  have d: "distinct (step_reqs t)" "distinct (map fst (num_scheduled_tokens t))" using b by (simp_all add: booked_def)
  have sub: "set (AList.delete k al) \<subseteq> set al" for k :: string and al :: "(string \<times> 'b) list"
    by (induction al) auto
  have "0 < n" using b n by (auto simp: booked_def dest!: map_of_SomeD)
  have t': "sch t' = sch t" "num_scheduled_tokens t' = AList.delete v (num_scheduled_tokens t)"
    "req_to_new_blocks t' = AList.delete v (req_to_new_blocks t)" "token_budget t' = token_budget t + n"
    "scheduled_encoder_inputs t' = AList.delete v (scheduled_encoder_inputs t)"
    "encoder_compute_budget t' = encoder_compute_budget t + sum_list ?sizes"
    by (simp_all add: t'_def)
  have keys: "set (step_reqs t') = set (step_reqs t) - {v}" "distinct (step_reqs t')" using d(1) by (simp_all add: reqs')
  have "booked K cfg t'"
    unfolding booked_def t' keys(1) keys_delete
  proof (intro conjI)
    show "distinct (map fst (AList.delete v (num_scheduled_tokens t)))" by (rule distinct_delete [OF d(2)])
    show "\<forall>(rid, n) \<in> set (AList.delete v (num_scheduled_tokens t)). 0 < n \<and>
        num_computed_tokens (objs (sch t) rid) + n < kv_max_len K \<and>
        kv_covers K rid (num_computed_tokens (objs (sch t) rid) + n) (kv (sch t))"
      using b sub [of v "num_scheduled_tokens t"] unfolding booked_def by blast
    show "\<forall>(rid, is) \<in> set (AList.delete v (scheduled_encoder_inputs t)). \<forall>i \<in> set is. valid_input (objs (sch t) rid) i"
      using b sub [of v "scheduled_encoder_inputs t"] unfolding booked_def by blast
    show "token_budget t + n = max_num_scheduled_tokens cfg -
        sum_list (map snd (AList.delete v (num_scheduled_tokens t)))"
      using b by (simp add: sum_delete [OF d(2) n] booked_def)
  qed (use b keys sum \<open>0 < n\<close> in \<open>auto simp: booked_def\<close>)
  with run new \<open>0 < n\<close> show ?thesis by (simp add: t'_def)
qed

lemma unschedule_frame:
  "unschedule v t = Inr t' \<Longrightarrow> objs s v = objs (sch t) v \<Longrightarrow> unschedule v (t\<lparr>sch := s\<rparr>) = Inr (t'\<lparr>sch := s\<rparr>)"
  by (auto simp: unschedule_def dict_pop_def Let_def res_simps split: option.splits)

lemma cursor_remove:
  assumes cur: "at_cursor cfg rid t" and v: "v \<noteq> rid" "v \<notin> set (scheduled_running_reqs t)"
    and s: "sch t' = (sch t)\<lparr>running := remove1 v (running (sch t))\<rparr>" "req_index t' = req_index t"
    "scheduled_running_reqs t' = scheduled_running_reqs t" "scheduled_new_reqs t' = []" "scheduled_resumed_reqs t' = []"
    and fcfs: "policy cfg = FCFS \<longrightarrow> distinct (running (sch t)) \<and> v = last (running (sch t))"
  shows "at_cursor cfg rid t'"
proof -
  let ?i = "nat (req_index t)" and ?rs = "running (sch t)"
  have c: "0 \<le> req_index t" "rid \<in> set (take (Suc ?i) ?rs)" "rid \<notin> set (scheduled_running_reqs t)"
    "set (scheduled_running_reqs t) \<subseteq> set (take ?i ?rs)" "policy cfg = FCFS \<longrightarrow> ?i < length ?rs \<and> ?rs ! ?i = rid"
    using cur by (simp_all add: at_cursor_def Let_def)
  have "set (scheduled_running_reqs t) \<subseteq> set (take ?i (remove1 v ?rs))"
    using c(4) v(2) take_remove1 [of _ ?i ?rs v] by blast
  moreover have "?i < length (remove1 v ?rs) \<and> remove1 v ?rs ! ?i = rid" if p: "policy cfg = FCFS"
  proof -
    have ne: "?rs \<noteq> []" using c(2) by auto
    have i: "?i < length ?rs" "?rs ! ?i = rid" using c(5) p by auto
    have "?i \<noteq> length ?rs - 1" using i(2) v(1) fcfs p ne by (auto simp: last_conv_nth)
    then have "?i < length (butlast ?rs)" using i(1) by simp
    then have "butlast ?rs ! ?i = rid" using i(2) nth_butlast by metis
    moreover have "butlast ?rs = remove1 v ?rs" using butlast_remove1 [of ?rs] fcfs p ne by simp
    ultimately show ?thesis using \<open>?i < length (butlast ?rs)\<close> by simp
  qed
  ultimately show ?thesis
    using c(1-3) s take_remove1 [OF c(2), of v] v(1) by (auto simp: at_cursor_def Let_def)
qed

lemma booked_remove:
  assumes "booked K cfg t" and "v \<notin> set (step_reqs t)"
  shows "booked K cfg (t\<lparr>sch := (sch t)\<lparr>running := remove1 v (running (sch t))\<rparr>\<rparr>)"
proof (rule booked_frame [OF assms(1)])
  have "set (step_reqs t) \<subseteq> set (running (sch t))" using assms(1) by (simp add: booked_def)
  then show "set (step_reqs t) \<subseteq> set (running ((sch t)\<lparr>running := remove1 v (running (sch t))\<rparr>))"
    using assms(2) by simp (metis in_set_remove1 subsetD subsetI)
qed simp_all

lemma take_victim_spec:
  assumes b: "booked K cfg t" and cur: "at_cursor cfg rid t" and core: "core_inv K sz ws (sch t)"
    and sz: "\<And>h. 0 \<le> sz h"
  shows "\<exists>v t'. take_victim cfg t = Inr (v, t') \<and> v \<in> set (running (sch t)) \<and>
    sch t' = (sch t)\<lparr>running := remove1 v (running (sch t))\<rparr> \<and> booked K cfg t' \<and>
    set (step_reqs t') = set (step_reqs t) - {v} \<and> (v \<noteq> rid \<longrightarrow> at_cursor cfg rid t') \<and>
    preempted_reqs t' = preempted_reqs t \<and> skipped_waiting_requests t' = skipped_waiting_requests t \<and>
    scheduled_new_reqs t' = [] \<and> scheduled_resumed_reqs t' = [] \<and> token_budget t \<le> token_budget t'"
proof -
  let ?rs = "running (sch t)" and ?i = "nat (req_index t)"
  have new: "scheduled_new_reqs t = []" "scheduled_resumed_reqs t = []" and ne: "?rs \<noteq> []"
    and S: "set (scheduled_running_reqs t) \<subseteq> set (take ?i ?rs)" and i: "0 \<le> req_index t"
    and rid: "rid \<in> set (take (Suc ?i) ?rs)" "rid \<notin> set (scheduled_running_reqs t)"
    using cur by (auto simp: at_cursor_def Let_def)
  have reqs: "step_reqs t = scheduled_running_reqs t" using new by (simp add: step_reqs_def)
  have dist: "distinct ?rs" using core by (simp add: core_inv_def)
  show ?thesis
  proof (cases "policy cfg")
    case FCFS
    let ?v = "last ?rs" and ?t = "t\<lparr>sch := (sch t)\<lparr>running := butlast ?rs\<rparr>\<rparr>"
    have run: "take_victim cfg t = Inr (?v, ?t)" using FCFS ne by (simp add: take_victim_def)
    have bl: "butlast ?rs = remove1 ?v ?rs" by (rule butlast_remove1 [OF dist ne])
    have "?i < length ?rs" using cur FCFS by (simp add: at_cursor_def Let_def)
    then have "take ?i ?rs = take ?i (butlast ?rs)" by (simp add: take_butlast)
    then have "?v \<notin> set (take ?i ?rs)" using set_take_subset [of ?i "butlast ?rs"] dist ne
      by (metis append_butlast_last_id distinct_butlast not_distinct_conv_prefix subsetD)
    then have v: "?v \<notin> set (scheduled_running_reqs t)" using S by blast
    have "?v \<noteq> rid \<longrightarrow> at_cursor cfg rid ?t"
      using cursor_remove [OF cur _ v, of ?t] bl dist new by auto
    then show ?thesis
      using run booked_remove [OF b, of ?v] v new last_in_set [OF ne] bl reqs
      by (intro exI [of _ ?v] exI [of _ ?t]) (auto simp: step_reqs_def)
  next
    case PRIORITY
    have "\<exists>v. max_running (sch t) = Inr v" using ne by (cases ?rs) (simp_all add: max_running_def)
    then obtain v where mv: "max_running (sch t) = Inr v" by blast
    have v: "v \<in> set ?rs" by (rule max_running_in [OF mv])
    let ?t = "t\<lparr>sch := (sch t)\<lparr>running := remove1 v ?rs\<rparr>\<rparr>"
    show ?thesis
    proof (cases "v \<in> set (scheduled_running_reqs t)")
      case False
      have run: "take_victim cfg t = Inr (v, ?t)" using PRIORITY mv False by (simp add: take_victim_def Let_def)
      have "v \<noteq> rid \<longrightarrow> at_cursor cfg rid ?t"
        using cursor_remove [OF cur _ False, of ?t] PRIORITY new by auto
      then show ?thesis
        using run booked_remove [OF b, of v] False new v reqs
        by (intro exI [of _ v] exI [of _ ?t]) (auto simp: step_reqs_def)
    next
      case True
      have sized: "sized sz (objs (sch t) v)"
        using core v by (auto simp: core_inv_def running_ok_def request_ok_def Let_def)
      obtain t1 where t1: "unschedule v t = Inr t1" "sch t1 = sch t" "req_index t1 = req_index t - 1"
        "preempted_reqs t1 = preempted_reqs t" "skipped_waiting_requests t1 = skipped_waiting_requests t"
        "scheduled_running_reqs t1 = remove1 v (scheduled_running_reqs t)"
        "scheduled_new_reqs t1 = []" "scheduled_resumed_reqs t1 = []" "booked K cfg t1"
        "token_budget t \<le> token_budget t1"
        using unschedule_spec [OF b True new sz sized] by blast
      let ?t1 = "t1\<lparr>sch := (sch t1)\<lparr>running := remove1 v (running (sch t1))\<rparr>\<rparr>"
      have "unschedule v ?t = Inr ?t1" using unschedule_frame [OF t1(1)] t1(2) by simp
      then have run: "take_victim cfg t = Inr (v, ?t1)"
        using PRIORITY mv True by (simp add: take_victim_def Let_def)
      have dS: "distinct (scheduled_running_reqs t)" using b reqs by (simp add: booked_def)
      have reqs1: "step_reqs ?t1 = remove1 v (step_reqs t)" using t1 new by (simp add: step_reqs_def)
      have b1: "booked K cfg ?t1"
        using booked_remove [OF t1(9), of v] t1 dS by (simp add: step_reqs_def)
      have vi: "v \<in> set (take ?i ?rs)" using True S by blast
      then have "0 < ?i" by (cases ?i) simp_all
      then have i1: "nat (req_index t - 1) = ?i - 1" "Suc (?i - 1) = ?i" "0 \<le> req_index t - 1" using i by linarith+
      have "at_cursor cfg rid ?t1" if "v \<noteq> rid"
      proof -
        have "rid \<in> set (take ?i (remove1 v ?rs))"
          by (rule take_before_cursor [OF vi rid(1)]) (use that in auto)
        moreover have "take (?i - 1) (remove1 v ?rs) = remove1 v (take ?i ?rs)"
          using take_remove1_before [of v "?i - 1" ?rs] vi i1(2) by simp
        ultimately show ?thesis using S rid(2) i1 PRIORITY t1 dS dist by (auto simp: at_cursor_def Let_def)
      qed
      with run b1 v dS t1 reqs1 reqs show ?thesis
        by (intro exI [of _ v] exI [of _ ?t1]) auto
    qed
  qed
qed

section \<open>The preemption loop\<close>

text \<open>The state while the running requests are scheduled.\<close>

definition run_inv :: "kv_contract \<Rightarrow> (mm_hash \<Rightarrow> int) \<Rightarrow> sched_config \<Rightarrow> sched_step \<Rightarrow> bool" where
  "run_inv K sz cfg t \<longleftrightarrow>
     (let s = sch t in
      core_inv K sz (waiting s) s \<and> queue_ok cfg s (waiting s) \<and> booked K cfg t \<and>
      (\<forall>rid \<in> set (running s) - set (step_reqs t). on_time (objs s rid)) \<and>
      scheduled_new_reqs t = [] \<and> scheduled_resumed_reqs t = [] \<and> skipped_waiting_requests t = [] \<and>
      py_len (running s) \<le> max_num_running_reqs cfg \<and>
      (preempted_reqs t = [] \<longrightarrow> (\<forall>rid \<in> set (waiting s).
         req_status (objs s rid) = PREEMPTED \<longrightarrow> rid \<notin> prev_step_scheduled_req_ids s)))"

text \<open>No request is lost, none appears; those that go on running keep their computed tokens.\<close>

definition same_reqs :: "scheduler \<Rightarrow> scheduler \<Rightarrow> bool" where
  "same_reqs s s' \<longleftrightarrow> requests s' = requests s \<and> mset (running s') + mset (waiting s') = mset (running s) + mset (waiting s) \<and>
     prev_step_scheduled_req_ids s' = prev_step_scheduled_req_ids s \<and> set (running s') \<subseteq> set (running s) \<and>
     (\<forall>x \<in> set (running s'). num_computed_tokens (objs s' x) = num_computed_tokens (objs s x))"

lemma same_reqs_refl [simp]: "same_reqs s s"
  by (simp add: same_reqs_def)

lemma same_reqs_trans: "same_reqs s s1 \<Longrightarrow> same_reqs s1 s2 \<Longrightarrow> same_reqs s s2"
  by (auto simp: same_reqs_def)

lemma at_cursor_running: "at_cursor cfg rid t \<Longrightarrow> rid \<in> set (running (sch t))"
  by (auto simp: at_cursor_def Let_def dest: in_set_takeD)

lemma at_cursor_not: "at_cursor cfg rid t \<Longrightarrow> rid \<notin> set (step_reqs t)"
  by (simp add: at_cursor_def step_reqs_def Let_def)

lemma at_cursor_cong:
  "running (sch t') = running (sch t) \<Longrightarrow> req_index t' = req_index t \<Longrightarrow>
   scheduled_running_reqs t' = scheduled_running_reqs t \<Longrightarrow> scheduled_new_reqs t' = scheduled_new_reqs t \<Longrightarrow>
   scheduled_resumed_reqs t' = scheduled_resumed_reqs t \<Longrightarrow> at_cursor cfg rid t' = at_cursor cfg rid t"
  by (simp add: at_cursor_def)

context kv_provider
begin

lemma extend_step:
  assumes inv: "run_inv K sz cfg t" and cur: "at_cursor cfg rid t" and n: "0 < n"
    "num_computed_tokens (objs (sch t) rid) + n < kv_max_len K" and look: "0 \<le> look"
  shows "\<exists>b k. allocate_slots (objs (sch t) rid) n 0 None look 0 False 0 (kv (sch t)) = Inr (b, k) \<and>
    run_inv K sz cfg (t\<lparr>sch := (sch t)\<lparr>kv := k\<rparr>\<rparr>) \<and>
    (b \<noteq> None \<longrightarrow> kv_covers K rid (num_computed_tokens (objs (sch t) rid) + n) k)"
proof -
  let ?s = "sch t" and ?r = "objs (sch t) rid"
  have core: "core_inv K sz (waiting ?s) ?s" and b: "booked K cfg t" using inv by (simp_all add: run_inv_def Let_def)
  have r: "running_ok K sz ?s rid" using core at_cursor_running [OF cur] by (simp add: core_inv_def)
  then have id: "request_id ?r = rid" by (simp add: running_ok_def request_ok_def Let_def)
  obtain b k where k: "allocate_slots ?r n 0 None look 0 False 0 (kv ?s) = Inr (b, k)" "kv_fine K k"
    "keeps_tables K (\<lambda>x. x \<noteq> rid) (kv ?s) k"
    "kv_covers K rid (num_computed_tokens ?r + (if b = None then 0 else n)) k"
    using extend [of "kv ?s" ?r n look] r core n look by (auto simp: running_ok_def request_ok_def core_inv_def id Let_def)
  let ?s' = "?s\<lparr>kv := k\<rparr>"
  have cov: "kv_covers K rid (num_computed_tokens ?r) k"
    by (rule shorter [OF k(4)]) (use n in simp)
  have "rid \<notin> set (waiting ?s)" using core at_cursor_running [OF cur] by (auto simp: core_inv_def)
  then have "core_inv K sz (waiting ?s) ?s'"
    using core k(2,3) r cov
    by (intro core_step [OF core, where rid = rid]) (auto simp: core_inv_def running_ok_def Let_def)
  moreover have "booked K cfg (t\<lparr>sch := ?s'\<rparr>)"
    by (rule booked_frame [OF b]) (use b k(3) at_cursor_not [OF cur] in \<open>auto simp: booked_def intro: keeps_sub\<close>)
  moreover have "sched_lt ?s' = sched_lt ?s" by (rule sched_lt_cong) simp
  ultimately have "run_inv K sz cfg (t\<lparr>sch := ?s'\<rparr>)"
    using inv queue_ok_lt [of ?s' ?s cfg] by (simp add: run_inv_def step_reqs_def Let_def)
  then show ?thesis using k(1,4) by auto
qed

end

lemma core_inv_remove: "core_inv K sz ws s \<Longrightarrow> core_inv K sz ws (s\<lparr>running := remove1 v (running s)\<rparr>)"
  by (auto simp: core_inv_def running_ok_def waiting_ok_def Let_def dest: notin_set_remove1 [rotated] in_set_remove1 [THEN iffD1, rotated] set_remove1_subset [THEN subsetD])

context kv_provider
begin

lemma preempt_step:
  assumes inv: "run_inv K sz cfg t" and cur: "at_cursor cfg rid t" and sz: "\<And>h. 0 \<le> sz h"
  shows "\<exists>v t2 s3. take_victim cfg t = Inr (v, t2) \<and> preempt_request cfg v (sch t2) = Inr s3 \<and>
    (let t3 = t2\<lparr>sch := s3, preempted_reqs := preempted_reqs t2 @ [v]\<rparr> in
     run_inv K sz cfg t3 \<and> same_reqs (sch t) (sch t3) \<and> enc_kept (encoder (sch t)) (encoder (sch t3)) \<and>
     length (running (sch t3)) < length (running (sch t)) \<and> token_budget t \<le> token_budget t3 \<and>
     (v \<noteq> rid \<longrightarrow> at_cursor cfg rid t3 \<and> objs (sch t3) rid = objs (sch t) rid))"
proof -
  let ?s = "sch t"
  have core: "core_inv K sz (waiting ?s) ?s" and b: "booked K cfg t" and q: "queue_ok cfg ?s (waiting ?s)"
    and new: "scheduled_new_reqs t = []" "scheduled_resumed_reqs t = []"
    and late: "\<forall>rid \<in> set (running ?s) - set (step_reqs t). on_time (objs ?s rid)"
    using inv by (simp_all add: run_inv_def Let_def)
  obtain v t2 where v: "take_victim cfg t = Inr (v, t2)" "v \<in> set (running ?s)"
    "sch t2 = ?s\<lparr>running := remove1 v (running ?s)\<rparr>" "booked K cfg t2"
    "set (step_reqs t2) = set (step_reqs t) - {v}" "v \<noteq> rid \<longrightarrow> at_cursor cfg rid t2"
    "preempted_reqs t2 = preempted_reqs t" "skipped_waiting_requests t2 = skipped_waiting_requests t"
    "scheduled_new_reqs t2 = []" "scheduled_resumed_reqs t2 = []" "token_budget t \<le> token_budget t2"
    using take_victim_spec [OF b cur core sz] by blast
  let ?s2 = "sch t2"
  have core2: "core_inv K sz (waiting ?s) ?s2" unfolding v(3) by (rule core_inv_remove [OF core])
  have dist: "distinct (running ?s)" "v \<notin> set (waiting ?s)" using core v(2) by (auto simp: core_inv_def)
  have "running_ok K sz ?s v" using core v(2) by (simp add: core_inv_def)
  then have vok: "running_ok K sz ?s2 v" by (simp add: v(3) running_ok_def)
  have vout: "v \<notin> set (running ?s2)" using dist(1) by (simp add: v(3))
  have lt: "sched_lt ?s2 = sched_lt ?s" by (rule sched_lt_cong) (simp add: v(3))
  have q2: "queue_ok cfg ?s2 (waiting ?s2)" using q queue_ok_lt [OF lt, of cfg] by (simp add: v(3))
  obtain s3 where s3: "preempt_request cfg v ?s2 = Inr s3" "core_inv K sz (v # waiting ?s) s3"
    "queue_ok cfg s3 (waiting s3)" "mset (waiting s3) = add_mset v (mset (waiting ?s))"
    "running s3 = remove1 v (running ?s)" "requests s3 = requests ?s"
    "prev_step_scheduled_req_ids s3 = prev_step_scheduled_req_ids ?s" "\<forall>x. x \<noteq> v \<longrightarrow> objs s3 x = objs ?s x"
    "mm_features (objs s3 v) = mm_features (objs ?s v)" "keeps_tables K (\<lambda>x. x \<noteq> v) (kv ?s) (kv s3)"
    "enc_kept (encoder ?s) (encoder s3)"
    using preempt_spec [OF core2 vok vout dist(2) sz q2] by (auto simp: v(3))
  let ?t3 = "t2\<lparr>sch := s3, preempted_reqs := preempted_reqs t2 @ [v]\<rparr>"
  have reqs3: "step_reqs ?t3 = step_reqs t2" by (simp add: step_reqs_def)
  have mf: "mm_features (objs s3 x) = mm_features (objs ?s x)" for x using s3(8,9) by (cases "x = v") auto
  have "booked K cfg (t2\<lparr>sch := s3\<rparr>)"
  proof (rule booked_frame [OF v(4)])
    show "set (step_reqs t2) \<subseteq> set (running s3)" using v(4) s3(5) by (simp add: booked_def v(3))
    show "num_computed_tokens (objs s3 x) = num_computed_tokens (objs (sch t2) x) \<or> x \<notin> set (step_reqs t2)" for x
      using s3(8) v(3,5) by (cases "x = v") auto
    show "keeps_tables K (\<lambda>x. x \<in> set (step_reqs t2)) (kv (sch t2)) (kv s3)"
      using s3(10) v(3,5) by (auto intro: keeps_sub)
  qed (simp add: mf v(3))
  then have b3: "booked K cfg ?t3" by (simp add: booked_def step_reqs_def)
  have core3: "core_inv K sz (waiting s3) s3" by (rule core_inv_mset [OF s3(2)]) (simp add: s3(4))
  have late3: "\<forall>x \<in> set (running s3) - set (step_reqs ?t3). on_time (objs s3 x)"
    using late s3(5,8) v(5) dist(1) by (auto simp: reqs3)
  have len: "length (running s3) < length (running ?s)"
    using v(2) by (simp add: s3(5) remove1_shorter)
  have "run_inv K sz cfg ?t3"
    using core3 s3(3) b3 late3 v(8-10) inv len by (simp add: run_inv_def Let_def py_len_def)
  moreover have "same_reqs ?s s3"
    using s3(4-8) v(2) dist(1) by (auto simp: same_reqs_def)
  moreover have "v \<noteq> rid \<longrightarrow> at_cursor cfg rid ?t3"
    using v(6) at_cursor_cong [of ?t3 t2] s3(5) v(3) by simp
  ultimately show ?thesis using v(1,11) s3(1,8,11) len by (auto simp: Let_def)
qed

lemma alloc_or_preempt_spec:
  assumes "run_inv K sz cfg t" and "at_cursor cfg rid t" and "0 < n"
    and "num_computed_tokens (objs (sch t) rid) + n < kv_max_len K" and "0 \<le> num_lookahead_tokens cfg"
    and "\<And>h. 0 \<le> sz h"
  shows "\<exists>b t'. alloc_or_preempt cfg rid n t = Inr (b, t') \<and> run_inv K sz cfg t' \<and> same_reqs (sch t) (sch t') \<and>
    enc_kept (encoder (sch t)) (encoder (sch t')) \<and> token_budget t \<le> token_budget t' \<and>
    (if b = None then preempted_reqs t' \<noteq> []
     else at_cursor cfg rid t' \<and> objs (sch t') rid = objs (sch t) rid \<and>
       kv_covers K rid (num_computed_tokens (objs (sch t) rid) + n) (kv (sch t')))"
  using assms(1,2,4)
proof (induction "length (running (sch t))" arbitrary: t rule: less_induct)
  case less
  obtain b k where k: "allocate_slots (objs (sch t) rid) n 0 None (num_lookahead_tokens cfg) 0 False 0 (kv (sch t)) = Inr (b, k)"
    "run_inv K sz cfg (t\<lparr>sch := (sch t)\<lparr>kv := k\<rparr>\<rparr>)"
    "b \<noteq> None \<longrightarrow> kv_covers K rid (num_computed_tokens (objs (sch t) rid) + n) k"
    using extend_step [OF less.prems(1,2) assms(3) less.prems(3) assms(5)] by blast
  let ?t1 = "t\<lparr>sch := (sch t)\<lparr>kv := k\<rparr>\<rparr>"
  have cur1: "at_cursor cfg rid ?t1" using less.prems(2) at_cursor_cong [of ?t1 t] by simp
  have same1: "same_reqs (sch t) (sch ?t1)" by (simp add: same_reqs_def)
  show ?case
  proof (cases "b = None")
    case False
    then show ?thesis using k cur1 same1 by (subst alloc_or_preempt.simps) (auto simp: Let_def)
  next
    case True
    obtain v t2 s3 where v: "take_victim cfg ?t1 = Inr (v, t2)" "preempt_request cfg v (sch t2) = Inr s3"
      and t3: "let t3 = t2\<lparr>sch := s3, preempted_reqs := preempted_reqs t2 @ [v]\<rparr> in
       run_inv K sz cfg t3 \<and> same_reqs (sch ?t1) (sch t3) \<and> enc_kept (encoder (sch ?t1)) (encoder (sch t3)) \<and>
       length (running (sch t3)) < length (running (sch ?t1)) \<and> token_budget ?t1 \<le> token_budget t3 \<and>
       (v \<noteq> rid \<longrightarrow> at_cursor cfg rid t3 \<and> objs (sch t3) rid = objs (sch ?t1) rid)"
      using preempt_step [OF k(2) cur1 assms(6)] by blast
    define t3 where "t3 = t2\<lparr>sch := s3, preempted_reqs := preempted_reqs t2 @ [v]\<rparr>"
    have 3: "run_inv K sz cfg t3" "same_reqs (sch t) (sch t3)" "enc_kept (encoder (sch t)) (encoder (sch t3))"
      "length (running (sch t3)) < length (running (sch t))" "preempted_reqs t3 \<noteq> []"
      "token_budget t \<le> token_budget t3"
      "v \<noteq> rid \<longrightarrow> at_cursor cfg rid t3 \<and> objs (sch t3) rid = objs (sch t) rid"
      using t3 same_reqs_trans [OF same1] by (simp_all add: t3_def Let_def)
    have run: "alloc_or_preempt cfg rid n t = (if v = rid then Inr (None, t3) else alloc_or_preempt cfg rid n t3)"
      using k(1) True v by (subst alloc_or_preempt.simps) (simp add: Let_def t3_def)
    show ?thesis
    proof (cases "v = rid")
      case True
      then show ?thesis using run 3 by auto
    next
      case False
      have "num_computed_tokens (objs (sch t3) rid) + n < kv_max_len K" using 3(7) False less.prems(3) by simp
      from less.hyps [OF 3(4,1) _ this] 3(7) False obtain b' t' where
        "alloc_or_preempt cfg rid n t3 = Inr (b', t')" "run_inv K sz cfg t'" "same_reqs (sch t3) (sch t')"
        "enc_kept (encoder (sch t3)) (encoder (sch t'))" "token_budget t3 \<le> token_budget t'"
        "if b' = None then preempted_reqs t' \<noteq> []
         else at_cursor cfg rid t' \<and> objs (sch t') rid = objs (sch t3) rid \<and>
           kv_covers K rid (num_computed_tokens (objs (sch t3) rid) + n) (kv (sch t'))" by blast
      with run False 3(2,3,6,7) same_reqs_trans enc_kept_trans show ?thesis
        by (intro exI [of _ b'] exI [of _ t']) auto
    qed
  qed
qed

end

end
