(* ===== verification/Scheduler_Step.thy ===== *)
theory Scheduler_Step
  imports Scheduler_Inv
begin

text \<open>
  The two loops of \<open>schedule\<close>: each iteration keeps the invariant, stays within the budgets and never
  raises.
\<close>

section \<open>Giving out tokens and encoder inputs\<close>

lemma booked_add:
  assumes b: "booked K cfg t" and rid: "rid \<notin> set (step_reqs t)" "rid \<in> set (running (sch t))"
    and n: "0 < n" "n \<le> token_budget t" "num_computed_tokens (objs (sch t) rid) + n < kv_max_len K"
    "kv_covers K rid (num_computed_tokens (objs (sch t) rid) + n) (kv (sch t))"
    and reqs: "mset (step_reqs t') = add_mset rid (mset (step_reqs t))"
    and t': "sch t' = sch t" "num_scheduled_tokens t' = AList.update rid n (num_scheduled_tokens t)"
    "req_to_new_blocks t' = AList.update rid nb (req_to_new_blocks t)" "token_budget t' = token_budget t - n"
    "scheduled_encoder_inputs t' = scheduled_encoder_inputs t" "encoder_compute_budget t' = encoder_compute_budget t"
  shows "booked K cfg t'"
proof -
  have "rid \<notin> fst ` set (num_scheduled_tokens t)" "rid \<notin> fst ` set (req_to_new_blocks t)"
    using b rid(1) by (simp_all add: booked_def)
  note new = this [THEN update_new]
  have set: "set (step_reqs t') = insert rid (set (step_reqs t))"
    using arg_cong [OF reqs, of set_mset] by simp
  have "distinct (step_reqs t')" using b rid(1) mset_eq_imp_distinct_iff [of "step_reqs t'" "rid # step_reqs t"] reqs
    by (simp add: booked_def)
  then show ?thesis
    using b rid n unfolding booked_def set t' new by auto
qed

lemma allocate_encoder_spec:
  assumes plan: "plan_inv sz (objs (sch t) rid) budget (p\<lparr>plan_cache := encoder (sch t)\<rparr>)"
    and sz: "\<And>h. 0 \<le> sz h" and sized: "sized sz (objs (sch t) rid)" and b: "booked K cfg t"
  shows "\<exists>t' e. allocate_encoder_inputs rid p t = Inr t' \<and> sch t' = (sch t)\<lparr>encoder := e\<rparr> \<and> ecm_inv sz e \<and>
    booked K cfg t' \<and> req_index t' = req_index t \<and> token_budget t' = token_budget t \<and>
    scheduled_new_reqs t' = scheduled_new_reqs t \<and> scheduled_resumed_reqs t' = scheduled_resumed_reqs t \<and>
    scheduled_running_reqs t' = scheduled_running_reqs t \<and> preempted_reqs t' = preempted_reqs t \<and>
    skipped_waiting_requests t' = skipped_waiting_requests t \<and> scheduled_loras t' = scheduled_loras t"
proof -
  let ?r = "objs (sch t) rid"
  let ?p = "p\<lparr>plan_cache := encoder (sch t)\<rparr>"
  obtain e where e: "allocate_plan ?r ?p = Inr e" "ecm_inv sz e" using allocate_plan_spec [OF sz sized plan] by blast
  obtain e1 where e1: "rfold (allocate ?r) (inputs_to_schedule p) (encoder (sch t)) = Inr e1"
    "rfold (allocate ?r) (external_inputs p) e1 = Inr e"
    using e(1) by (auto simp: allocate_plan_def rfold_append res_simps)
  have valid: "\<forall>i \<in> set (inputs_to_schedule p). valid_input ?r i" and budget: "0 \<le> compute_budget p"
    using plan by (auto simp: plan_inv_def Let_def)
  have upd: "(k, is) \<in> set (AList.update rid v al) \<Longrightarrow> (k, is) \<in> set al \<or> k = rid \<and> is = v"
    for k "is" v and al :: "(string \<times> int list) list"
    by (induction al) (auto split: if_splits)
  define t1 where "t1 = (if inputs_to_schedule p \<noteq> []
    then t\<lparr>scheduled_encoder_inputs := AList.update rid (inputs_to_schedule p) (scheduled_encoder_inputs t),
           encoder_compute_budget := compute_budget p\<rparr> else t)"
  define t' where "t' = t1\<lparr>sch := (sch t)\<lparr>encoder := e\<rparr>\<rparr>"
  have run: "allocate_encoder_inputs rid p t = Inr t'"
    using e1 by (auto simp: allocate_encoder_inputs_def t'_def t1_def Let_def)
  have "valid_input (objs (sch t) k) i" if "(k, is) \<in> set (scheduled_encoder_inputs t1)" "i \<in> set is" for k "is" i
  proof (cases "(k, is) \<in> set (scheduled_encoder_inputs t)")
    case True
    then show ?thesis using b that(2) by (auto simp: booked_def)
  next
    case False
    then have "k = rid" "is = inputs_to_schedule p"
      using that(1) upd [of k "is" "inputs_to_schedule p" "scheduled_encoder_inputs t"] by (auto simp: t1_def split: if_splits)
    then show ?thesis using valid that(2) by blast
  qed
  moreover have t1: "step_reqs t1 = step_reqs t" "0 \<le> encoder_compute_budget t1" "sch t1 = sch t"
    "num_scheduled_tokens t1 = num_scheduled_tokens t" "req_to_new_blocks t1 = req_to_new_blocks t"
    "token_budget t1 = token_budget t"
    using b budget by (simp_all add: t1_def step_reqs_def booked_def)
  ultimately have "booked K cfg t1" using b unfolding booked_def by auto
  then have "booked K cfg t'"
    unfolding t'_def by (rule booked_frame) (use \<open>booked K cfg t1\<close> t1(3) in \<open>simp_all add: booked_def\<close>)
  moreover have "sch t' = (sch t)\<lparr>encoder := e\<rparr>" "req_index t' = req_index t" "token_budget t' = token_budget t"
    "scheduled_new_reqs t' = scheduled_new_reqs t" "scheduled_resumed_reqs t' = scheduled_resumed_reqs t"
    "scheduled_running_reqs t' = scheduled_running_reqs t" "preempted_reqs t' = preempted_reqs t"
    "skipped_waiting_requests t' = skipped_waiting_requests t" "scheduled_loras t' = scheduled_loras t"
    by (simp_all add: t'_def t1_def)
  ultimately show ?thesis using run e(2) by blast
qed

text \<open>Encoder inputs are planned without raising, and no more tokens than asked for.\<close>

lemma plan_inputs_spec:
  assumes inv: "core_inv K sz ws (sch t)" and b: "booked K cfg t" and r: "request_ok K sz rid (objs (sch t) rid)"
    and "0 \<le> n" and sz: "\<And>h. 0 \<le> sz h"
  shows "\<exists>p. plan_encoder_inputs cfg remote (objs (sch t) rid) computed n t = Inr p \<and>
    plan_inv sz (objs (sch t) rid) (encoder_compute_budget t) p \<and> 0 \<le> num_new_tokens p \<and> num_new_tokens p \<le> n"
proof -
  let ?r = "objs (sch t) rid"
  have e: "plan_encoder_inputs cfg remote ?r computed n t = try_schedule_encoder_inputs (disable_chunked_mm_input cfg)
      remote ?r computed n (encoder_compute_budget t) (if use_eagle cfg then 1 else 0) (encoder (sch t))"
    by (simp add: plan_encoder_inputs_def try_schedule_encoder_inputs_def)
  have "sized sz ?r" "list_all feature_ok (mm_features ?r)" using r by (simp_all add: request_ok_def)
  moreover have "(0 :: int) \<le> (if use_eagle cfg then 1 else 0)" "(if use_eagle cfg then 1 else 0) \<le> (1 :: int)" by simp_all
  moreover have "ecm_inv sz (encoder (sch t))" "0 \<le> encoder_compute_budget t"
    using inv b by (simp_all add: core_inv_def booked_def)
  ultimately show ?thesis using plan_spec [OF sz] assms(4) unfolding e by meson
qed

section \<open>The running requests\<close>

definition before_cursor :: "sched_step \<Rightarrow> bool" where
  "before_cursor t \<longleftrightarrow> 0 \<le> req_index t \<and>
     set (scheduled_running_reqs t) \<subseteq> set (take (nat (req_index t)) (running (sch t)))"

lemma cursor_here:
  assumes "before_cursor t" and "req_index t < py_len (running (sch t))" and "run_inv K sz cfg t"
  shows "at_cursor cfg (running (sch t) ! nat (req_index t)) t"
proof -
  let ?i = "nat (req_index t)" and ?rs = "running (sch t)"
  have i: "?i < length ?rs" using assms(1,2) by (simp add: before_cursor_def py_len_def nat_less_iff)
  have "distinct ?rs" using assms(3) by (simp add: run_inv_def core_inv_def Let_def)
  then have "?rs ! ?i \<notin> set (take ?i ?rs)"
    using i by (auto simp: in_set_conv_nth nth_eq_iff_index_eq)
  then show ?thesis using assms i by (auto simp: at_cursor_def before_cursor_def run_inv_def take_Suc_conv_app_nth Let_def)
qed

lemma cursor_next:
  assumes "at_cursor cfg rid t"
  shows "set (scheduled_running_reqs t @ [rid]) \<subseteq> set (take (nat (req_index t + 1)) (running (sch t)))"
proof -
  have "nat (req_index t + 1) = Suc (nat (req_index t))" 
    using assms by (simp add: at_cursor_def Let_def nat_add_distrib)
  moreover have "set (take (nat (req_index t)) xs) \<subseteq> set (take (Suc (nat (req_index t))) xs)" for xs :: "string list"
    by (rule set_take_subset_set_take) simp
  ultimately show ?thesis using assms by (auto simp: at_cursor_def Let_def)
qed

lemma long_prefill_cap_bounds: "0 \<le> n \<Longrightarrow> 0 \<le> long_prefill_cap cfg n" "long_prefill_cap cfg n \<le> n"
  "0 < n \<Longrightarrow> 0 < long_prefill_cap cfg n"
  by (auto simp: long_prefill_cap_def Let_def)

context kv_provider
begin

lemma run_inv_encoder:
  assumes "run_inv K sz cfg t" and "ecm_inv sz e"
  shows "run_inv K sz cfg (t\<lparr>sch := (sch t)\<lparr>encoder := e\<rparr>\<rparr>)"
proof -
  let ?s = "(sch t)\<lparr>encoder := e\<rparr>"
  have "core_inv K sz (waiting ?s) ?s"
    using assms by (auto simp: run_inv_def core_inv_def running_ok_def waiting_ok_def Let_def)
  moreover have "booked K cfg (t\<lparr>sch := ?s\<rparr>)"
    by (rule booked_frame) (use assms(1) in \<open>simp_all add: run_inv_def booked_def Let_def\<close>)
  moreover have "sched_lt ?s = sched_lt (sch t)" by (rule sched_lt_cong) simp
  ultimately show ?thesis
    using assms(1) queue_ok_lt [of ?s "sch t" cfg] by (simp add: run_inv_def step_reqs_def Let_def)
qed

text \<open>The slots were granted: tokens, draft tokens and encoder inputs are booked.\<close>

lemma grant_running:
  assumes inv: "run_inv K sz cfg t" and cur: "at_cursor cfg rid t" and n: "0 < n" "n \<le> token_budget t"
    "num_computed_tokens (objs (sch t) rid) + n < kv_max_len K"
    and cov: "kv_covers K rid (num_computed_tokens (objs (sch t) rid) + n) (kv (sch t))"
    and plan: "plan_inv sz (objs (sch t) rid) budget (p\<lparr>plan_cache := encoder (sch t)\<rparr>)" and sz: "\<And>h. 0 \<le> sz h"
  shows "\<exists>t'. allocate_encoder_inputs rid p (schedule_spec_tokens rid n (mark_scheduled rid n b
      (t\<lparr>scheduled_running_reqs := scheduled_running_reqs t @ [rid], req_index := req_index t + 1\<rparr>))) = Inr t' \<and>
    run_inv K sz cfg t' \<and> same_reqs (sch t) (sch t') \<and> before_cursor t'"
proof -
  let ?s = "sch t"
  have core: "core_inv K sz (waiting ?s) ?s" and b: "booked K cfg t" using inv by (simp_all add: run_inv_def Let_def)
  have new: "scheduled_new_reqs t = []" "scheduled_resumed_reqs t = []" using inv by (simp_all add: run_inv_def Let_def)
  have rid: "rid \<in> set (running ?s)" "rid \<notin> set (waiting ?s)" "rid \<notin> set (step_reqs t)" "running_ok K sz ?s rid"
    using core at_cursor_running [OF cur] at_cursor_not [OF cur] by (auto simp: core_inv_def)
  define t3 where "t3 = mark_scheduled rid n b
      (t\<lparr>scheduled_running_reqs := scheduled_running_reqs t @ [rid], req_index := req_index t + 1\<rparr>)"
  define t4 where "t4 = schedule_spec_tokens rid n t3"
  have "booked K cfg t3"
    by (rule booked_add [OF b rid(3,1) n cov, where nb = b])
      (simp_all add: t3_def mark_scheduled_def step_reqs_def new)
  define s4 where "s4 = (if spec_token_ids (objs ?s rid) \<noteq> []
    then set_obj rid (\<lambda>r. r\<lparr>spec_token_ids := []\<rparr>) ?s else ?s)"
  have t4: "sch t4 = s4" "step_reqs t4 = step_reqs t3" "num_scheduled_tokens t4 = num_scheduled_tokens t3"
    "req_to_new_blocks t4 = req_to_new_blocks t3" "token_budget t4 = token_budget t3" "req_index t4 = req_index t3"
    "scheduled_encoder_inputs t4 = scheduled_encoder_inputs t3" "encoder_compute_budget t4 = encoder_compute_budget t3"
    "preempted_reqs t4 = preempted_reqs t" "skipped_waiting_requests t4 = skipped_waiting_requests t"
    "scheduled_new_reqs t4 = []" "scheduled_resumed_reqs t4 = []"
    "scheduled_running_reqs t4 = scheduled_running_reqs t @ [rid]"
    using new by (simp_all add: t4_def schedule_spec_tokens_def s4_def t3_def mark_scheduled_def step_reqs_def Let_def)
  have s4: "objs s4 x = (if x = rid \<and> spec_token_ids (objs ?s rid) \<noteq> [] then (objs ?s rid)\<lparr>spec_token_ids := []\<rparr> else objs ?s x)"
    "running s4 = running ?s" "waiting s4 = waiting ?s" "requests s4 = requests ?s" "kv s4 = kv ?s" "encoder s4 = encoder ?s"
    "prev_step_scheduled_req_ids s4 = prev_step_scheduled_req_ids ?s" for x
    by (simp_all add: s4_def set_obj_def)
  have same: "num_computed_tokens (objs s4 x) = num_computed_tokens (objs ?s x)" "mm_features (objs s4 x) = mm_features (objs ?s x)"
    "request_key (objs s4 x) = request_key (objs ?s x)" "req_status (objs s4 x) = req_status (objs ?s x)" for x
    by (simp_all add: s4 request_key_def)
  have "sch t3 = ?s" by (simp add: t3_def mark_scheduled_def)
  then have "booked K cfg (t3\<lparr>sch := s4\<rparr>)"
    using \<open>booked K cfg t3\<close> by (intro booked_frame) (simp_all add: s4 same booked_def)
  then have b4: "booked K cfg t4" unfolding booked_def t4 by (simp add: step_reqs_def)
  have req: "request_ok K sz rid (objs s4 rid)"
    using rid(4) request_ok_same [of "objs s4 rid" "objs ?s rid" K sz rid] by (simp add: running_ok_def s4 Let_def)
  then have core4: "core_inv K sz (waiting s4) s4"
    using core rid by (intro core_step [OF core, where rid = rid]) (auto simp: s4 same core_inv_def running_ok_def Let_def)
  have plan4: "plan_inv sz (objs (sch t4) rid) budget (p\<lparr>plan_cache := encoder (sch t4)\<rparr>)"
  proof -
    have "input_hash (objs s4 rid) = input_hash (objs ?s rid)" "valid_input (objs s4 rid) = valid_input (objs ?s rid)"
      by (simp_all add: fun_eq_iff input_hash_def valid_input_def same)
    then show ?thesis using plan by (simp add: plan_inv_def t4 s4 Let_def)
  qed
  have sized: "sized sz (objs (sch t4) rid)" using req by (simp add: request_ok_def t4)
  obtain t' e where t': "allocate_encoder_inputs rid p t4 = Inr t'" "sch t' = (sch t4)\<lparr>encoder := e\<rparr>" "ecm_inv sz e"
    "booked K cfg t'" "req_index t' = req_index t4" "scheduled_new_reqs t' = scheduled_new_reqs t4"
    "scheduled_resumed_reqs t' = scheduled_resumed_reqs t4" "scheduled_running_reqs t' = scheduled_running_reqs t4"
    "preempted_reqs t' = preempted_reqs t4" "skipped_waiting_requests t' = skipped_waiting_requests t4"
    using allocate_encoder_spec [OF plan4 sz sized b4] by blast
  have lt: "sched_lt s4 = sched_lt ?s" by (rule sched_lt_cong) (rule same)
  have "run_inv K sz cfg t4"
    using inv core4 b4 queue_ok_lt [OF lt, of cfg] new
    by (auto simp: run_inv_def t4 s4 same step_reqs_def Let_def)
  from run_inv_encoder [OF this t'(3)] t' have "run_inv K sz cfg t'"
    by (simp add: run_inv_def step_reqs_def Let_def)
  moreover have "before_cursor t'"
    using cursor_next [OF cur] cur t' by (simp add: before_cursor_def t4 s4 t3_def mark_scheduled_def at_cursor_def Let_def)
  ultimately show ?thesis using t'(1,2) t4(1) by (auto simp: t4_def t3_def same_reqs_def s4)
qed

lemma running_one_spec:
  assumes inv: "run_inv K sz cfg t" and here: "before_cursor t" "req_index t < py_len (running (sch t))"
    and cfg: "plain_sched K cfg" and budget: "0 < token_budget t" and sz: "\<And>h. 0 \<le> sz h"
  shows "\<exists>stop t'. schedule_running_one cfg remote t = Inr (stop, t') \<and> run_inv K sz cfg t' \<and>
    same_reqs (sch t) (sch t') \<and> (if stop then preempted_reqs t' \<noteq> [] else before_cursor t')"
proof -
  define rid where "rid = running (sch t) ! nat (req_index t)"
  define r where "r = objs (sch t) rid"
  have cur: "at_cursor cfg rid t" unfolding rid_def by (rule cursor_here [OF here inv])
  have core: "core_inv K sz (waiting (sch t)) (sch t)" and b: "booked K cfg t" using inv by (simp_all add: run_inv_def Let_def)
  have rid: "rid \<in> set (running (sch t))" "rid \<notin> set (step_reqs t)" using at_cursor_running [OF cur] at_cursor_not [OF cur] by auto
  then have ok: "running_ok K sz (sch t) rid" and late: "on_time r"
    using inv core by (auto simp: run_inv_def core_inv_def r_def Let_def)
  have req: "request_ok K sz rid (objs (sch t) rid)" using ok by (simp add: running_ok_def Let_def)
  have next1: "before_cursor (t1\<lparr>req_index := req_index t1 + 1\<rparr>)"
    if "sch t1 = s1" "running s1 = running (sch t)" "req_index t1 = req_index t"
      "scheduled_running_reqs t1 = scheduled_running_reqs t" for t1 s1
    using cursor_next [OF cur] here(1) that by (simp add: before_cursor_def)
  have step1: "run_inv K sz cfg (t1\<lparr>req_index := i\<rparr>)" if "run_inv K sz cfg t1" for t1 i
    using that by (simp add: run_inv_def booked_def step_reqs_def Let_def)
  show ?thesis
  proof (cases "num_output_placeholders r > 0 \<and>
      num_computed_tokens r + 2 - num_output_placeholders r \<ge> num_prompt_tokens r + req_max_tokens r")
    case True
    then have "schedule_running_one cfg remote t = Inr (False, t\<lparr>req_index := req_index t + 1\<rparr>)"
      by (simp add: schedule_running_one_def rid_def [symmetric] r_def [symmetric] Let_def)
    then show ?thesis using step1 [OF inv] next1 [of t "sch t"]
      by (intro exI [of _ False] exI [of _ "t\<lparr>req_index := req_index t + 1\<rparr>"]) simp
  next
    case False
    define n1 where "n1 = min (min (long_prefill_cap cfg (num_tokens_with_spec r + num_output_placeholders r - num_computed_tokens r))
      (token_budget t)) (sched_max_model_len cfg - 1 - num_computed_tokens r)"
    have c: "0 \<le> num_computed_tokens r" "num_computed_tokens r < kv_max_len K"
      using ok by (simp_all add: running_ok_def r_def Let_def)
    have n1: "0 \<le> n1" "n1 \<le> token_budget t" "n1 < kv_max_len K - num_computed_tokens r"
      using late budget c cfg long_prefill_cap_bounds(1) [of _ cfg] by (auto simp: n1_def on_time_def plain_sched_def)
    obtain p where p: "plan_encoder_inputs cfg remote r (num_computed_tokens r) n1 t = Inr p"
      "plan_inv sz r (encoder_compute_budget t) p" "0 \<le> num_new_tokens p" "num_new_tokens p \<le> n1"
      using plan_inputs_spec [OF core b req n1(1) sz, where remote = remote and computed = "num_computed_tokens r"]
      unfolding r_def [symmetric] by blast
    let ?n = "num_new_tokens p" and ?t1 = "t\<lparr>sch := (sch t)\<lparr>encoder := plan_cache p\<rparr>\<rparr>"
    have run: "schedule_running_one cfg remote t = (if ?n = 0 then Inr (False, ?t1\<lparr>req_index := req_index ?t1 + 1\<rparr>)
      else rbind (alloc_or_preempt cfg rid ?n ?t1) (\<lambda>(new_blocks, t2).
             case new_blocks of None \<Rightarrow> Inr (True, t2)
             | Some b \<Rightarrow> rbind (allocate_encoder_inputs rid p (schedule_spec_tokens rid ?n (mark_scheduled rid ?n b
                 (t2\<lparr>scheduled_running_reqs := scheduled_running_reqs t2 @ [rid], req_index := req_index t2 + 1\<rparr>))))
                 (\<lambda>t4. Inr (False, t4))))"
      using p(1) cfg
      unfolding schedule_running_one_def Let_def rid_def [symmetric] r_def [symmetric] if_not_P [OF False] n1_def [symmetric]
      by (simp add: apply_mamba_split_def plain_sched_def)
    have e: "ecm_inv sz (plan_cache p)" using p(2) by (simp add: plan_inv_def Let_def)
    have inv1: "run_inv K sz cfg ?t1" by (rule run_inv_encoder [OF inv e])
    show ?thesis
    proof (cases "?n = 0")
      case True
      then show ?thesis using run step1 [OF inv1] next1 [of ?t1 "sch ?t1"]
        by (intro exI [of _ False] exI [of _ "?t1\<lparr>req_index := req_index ?t1 + 1\<rparr>"]) (simp add: same_reqs_def)
    next
      case n: False
      have cur1: "at_cursor cfg rid ?t1" using cur at_cursor_cong [of ?t1 t] by simp
      have "num_computed_tokens (objs (sch ?t1) rid) + ?n < kv_max_len K" "0 < ?n" "0 \<le> num_lookahead_tokens cfg"
        using n1(3) p(3,4) n cfg by (simp_all add: r_def plain_sched_def)
      note a = alloc_or_preempt_spec [OF inv1 cur1 this(2,1,3) sz]
      have t1: "objs (sch ?t1) rid = r" "encoder (sch ?t1) = plan_cache p" "token_budget ?t1 = token_budget t"
        by (simp_all add: r_def)
      from a [unfolded t1] obtain nb t2 where t2: "alloc_or_preempt cfg rid ?n ?t1 = Inr (nb, t2)"
        "run_inv K sz cfg t2" "same_reqs (sch ?t1) (sch t2)" "enc_kept (plan_cache p) (encoder (sch t2))"
        "token_budget t \<le> token_budget t2"
        "if nb = None then preempted_reqs t2 \<noteq> []
         else at_cursor cfg rid t2 \<and> objs (sch t2) rid = r \<and> kv_covers K rid (num_computed_tokens r + ?n) (kv (sch t2))"
        by blast
      have same2: "same_reqs (sch t) (sch t2)" using t2(3) by (simp add: same_reqs_def)
      show ?thesis
      proof (cases nb)
        case None
        then show ?thesis using run n t2 same2 by auto
      next
        case (Some bl)
        have "ecm_inv sz (encoder (sch t2))" using t2(2) by (simp add: run_inv_def core_inv_def Let_def)
        from plan_inv_kept [OF p(2) t2(4) this] Some t2(6) have
          plan2: "plan_inv sz (objs (sch t2) rid) (encoder_compute_budget t) (p\<lparr>plan_cache := encoder (sch t2)\<rparr>)" by simp
        have "at_cursor cfg rid t2" "0 < ?n" "?n \<le> token_budget t2"
          "num_computed_tokens (objs (sch t2) rid) + ?n < kv_max_len K"
          "kv_covers K rid (num_computed_tokens (objs (sch t2) rid) + ?n) (kv (sch t2))"
          using t2(5,6) Some p(3,4) n n1 by simp_all
        from grant_running [OF t2(2) this plan2 sz, of bl] obtain t4 where
          "allocate_encoder_inputs rid p (schedule_spec_tokens rid ?n (mark_scheduled rid ?n bl
            (t2\<lparr>scheduled_running_reqs := scheduled_running_reqs t2 @ [rid], req_index := req_index t2 + 1\<rparr>))) = Inr t4"
          "run_inv K sz cfg t4" "same_reqs (sch t2) (sch t4)" "before_cursor t4" by blast
        then show ?thesis using run n t2(1) Some same_reqs_trans [OF same2] by auto
      qed
    qed
  qed
qed

lemma schedule_running_spec:
  assumes "run_inv K sz cfg t" and "before_cursor t" and cfg: "plain_sched K cfg" and sz: "\<And>h. 0 \<le> sz h"
  shows "\<exists>t'. schedule_running cfg remote t = Inr t' \<and> run_inv K sz cfg t' \<and> same_reqs (sch t) (sch t')"
  using assms(1,2)
proof (induction "nat (py_len (running (sch t)) - req_index t)" arbitrary: t rule: less_induct)
  case less
  show ?case
  proof (cases "req_index t < py_len (running (sch t)) \<and> token_budget t > 0")
    case False
    then show ?thesis using less.prems(1) by (subst schedule_running.simps) auto
  next
    case True
    then obtain stop t1 where t1: "schedule_running_one cfg remote t = Inr (stop, t1)" "run_inv K sz cfg t1"
      "same_reqs (sch t) (sch t1)" "if stop then preempted_reqs t1 \<noteq> [] else before_cursor t1"
      using running_one_spec [OF less.prems _ cfg _ sz, of remote] by blast
    have run: "schedule_running cfg remote t = (if stop then Inr t1 else schedule_running cfg remote t1)"
      using True t1(1) by (subst schedule_running.simps) simp
    show ?thesis
    proof (cases stop)
      case True
      then show ?thesis using run t1 by simp
    next
      case False
      then have "py_len (running (sch t1)) - req_index t1 < py_len (running (sch t)) - req_index t"
        using schedule_running_one_index [of cfg remote t t1] t1(1) by (simp add: py_len_def)
      then have "nat (py_len (running (sch t1)) - req_index t1) < nat (py_len (running (sch t)) - req_index t)"
        using True by simp
      from less.hyps [OF this t1(2)] t1(4) False obtain t' where
        "schedule_running cfg remote t1 = Inr t'" "run_inv K sz cfg t'" "same_reqs (sch t1) (sch t')" by auto
      with run False same_reqs_trans [OF t1(3)] show ?thesis by auto
    qed
  qed
qed

end

end
