(* ===== verification/Scheduler_Waiting.thy ===== *)
theory Scheduler_Waiting
  imports Scheduler_Step
begin

text \<open>The loop of \<open>schedule\<close> over the waiting requests.\<close>

section \<open>The invariant of the loop\<close>

definition wait_inv :: "kv_contract \<Rightarrow> (mm_hash \<Rightarrow> int) \<Rightarrow> sched_config \<Rightarrow> sched_step \<Rightarrow> bool" where
  "wait_inv K sz cfg t \<longleftrightarrow>
     (let s = sch t; sk = skipped_waiting_requests t in
      core_inv K sz (waiting s @ sk) s \<and> queue_ok cfg s (waiting s) \<and> queue_ok cfg s sk \<and> booked K cfg t \<and>
      py_len (running s) \<le> max_num_running_reqs cfg \<and>
      (\<forall>rid \<in> set (waiting s @ sk). req_status (objs s rid) = PREEMPTED \<longrightarrow> rid \<notin> prev_step_scheduled_req_ids s) \<and>
      set (scheduled_resumed_reqs t) \<inter> prev_step_scheduled_req_ids s = {})"

text \<open>The requests of the step, with those that are skipped.\<close>

definition all_reqs :: "sched_step \<Rightarrow> string multiset" where
  "all_reqs t = mset (running (sch t)) + mset (waiting (sch t)) + mset (skipped_waiting_requests t)"

definition same_step :: "sched_step \<Rightarrow> sched_step \<Rightarrow> bool" where
  "same_step t t' \<longleftrightarrow> all_reqs t' = all_reqs t \<and> requests (sch t') = requests (sch t) \<and>
     prev_step_scheduled_req_ids (sch t') = prev_step_scheduled_req_ids (sch t) \<and>
     set (running (sch t)) \<subseteq> set (running (sch t')) \<and>
     (\<forall>x \<in> set (running (sch t)). num_computed_tokens (objs (sch t') x) = num_computed_tokens (objs (sch t) x))"

lemma same_step_refl [simp]: "same_step t t"
  by (simp add: same_step_def)

lemma same_step_trans: "same_step t t1 \<Longrightarrow> same_step t1 t2 \<Longrightarrow> same_step t t2"
  by (auto simp: same_step_def)

text \<open>A change of the KV cache and the encoder cache that leaves the requests alone.\<close>

lemma wait_inv_caches:
  assumes inv: "wait_inv K sz cfg t" and k: "kv_fine K k" "keeps_tables K (\<lambda>x. x \<noteq> rid) (kv (sch t)) k"
    and w: "rid \<in> set (waiting (sch t))" "kv_new K rid k" and e: "ecm_inv sz e"
  shows "wait_inv K sz cfg (t\<lparr>sch := (sch t)\<lparr>kv := k, encoder := e\<rparr>\<rparr>) \<and>
    same_step t (t\<lparr>sch := (sch t)\<lparr>kv := k, encoder := e\<rparr>\<rparr>)"
proof -
  let ?s = "sch t" and ?ws = "waiting (sch t) @ skipped_waiting_requests t"
  let ?s' = "?s\<lparr>kv := k, encoder := e\<rparr>"
  have core: "core_inv K sz ?ws ?s" and b: "booked K cfg t" using inv by (simp_all add: wait_inv_def Let_def)
  have out: "rid \<notin> set (running ?s)" using core w(1) by (auto simp: core_inv_def)
  have "waiting_ok K sz ?s rid" using core w(1) by (simp add: core_inv_def)
  then have "waiting_ok K sz ?s' rid" using w(2) by (simp add: waiting_ok_def Let_def)
  then have "core_inv K sz ?ws ?s'"
    using core k e out by (intro core_step [OF core, where rid = rid]) (auto simp: core_inv_def)
  moreover have "booked K cfg (t\<lparr>sch := ?s'\<rparr>)"
  proof (rule booked_frame [OF b])
    have "rid \<notin> set (step_reqs t)" using b out by (auto simp: booked_def)
    then show "keeps_tables K (\<lambda>x. x \<in> set (step_reqs t)) (kv ?s) (kv ?s')" using k(2) by (auto intro: keeps_sub)
  qed (use b in \<open>simp_all add: booked_def\<close>)
  moreover have "sched_lt ?s' = sched_lt ?s" by (rule sched_lt_cong) simp
  ultimately show ?thesis
    using inv queue_ok_lt [of ?s' ?s cfg] by (simp add: wait_inv_def same_step_def all_reqs_def Let_def)
qed

text \<open>The gate only changes the status of a request whose grammar is ready.\<close>

lemma waiting_gate_spec:
  assumes inv: "wait_inv K sz cfg t" and rid: "rid \<in> set (waiting (sch t))" and cfg: "plain_sched K cfg"
  shows "\<exists>skip t'. waiting_gate cfg ready rid t = Inr (skip, t') \<and> wait_inv K sz cfg t' \<and> same_step t t' \<and>
    waiting (sch t') = waiting (sch t) \<and> token_budget t' = token_budget t \<and> running (sch t') = running (sch t) \<and>
    sched_lt (sch t') = sched_lt (sch t) \<and>
    (\<not> skip \<longrightarrow> req_status (objs (sch t') rid) \<in> {WAITING, PREEMPTED})"
proof -
  let ?s = "sch t" and ?ws = "waiting (sch t) @ skipped_waiting_requests t"
  have core: "core_inv K sz ?ws ?s" and b: "booked K cfg t" using inv by (simp_all add: wait_inv_def Let_def)
  have w: "waiting_ok K sz ?s rid" and out: "rid \<notin> set (running ?s)" using core rid by (auto simp: core_inv_def)
  have lora: "max_loras cfg = None" using cfg by (simp add: plain_sched_def)
  have status: "req_status (objs ?s rid) \<in> {WAITING, PREEMPTED, WAITING_FOR_FSM}" using w by (simp add: waiting_ok_def Let_def)
  show ?thesis
  proof (cases "req_status (objs ?s rid) = WAITING_FOR_FSM")
    case False
    then have "waiting_gate cfg ready rid t = Inr (False, t)"
      using status lora by (auto simp: waiting_gate_def Let_def)
    then show ?thesis using inv status False by (intro exI [of _ False] exI [of _ t]) auto
  next
    case fsm: True
    show ?thesis
    proof (cases "use_structured_output (objs ?s rid) \<and> ready rid")
      case False
      then have "waiting_gate cfg ready rid t = Inr (True, t)" using fsm by (auto simp: waiting_gate_def Let_def)
      then show ?thesis using inv by (intro exI [of _ True] exI [of _ t]) auto
    next
      case True
      let ?s' = "set_obj rid (\<lambda>r. r\<lparr>req_status := WAITING\<rparr>) ?s"
      let ?t = "t\<lparr>sch := ?s'\<rparr>"
      have run: "waiting_gate cfg ready rid t = Inr (False, ?t)" using True fsm lora by (simp add: waiting_gate_def Let_def)
      have s': "running ?s' = running ?s" "waiting ?s' = waiting ?s" "requests ?s' = requests ?s" "kv ?s' = kv ?s"
        "encoder ?s' = encoder ?s" "prev_step_scheduled_req_ids ?s' = prev_step_scheduled_req_ids ?s"
        "objs ?s' x = (if x = rid then (objs ?s rid)\<lparr>req_status := WAITING\<rparr> else objs ?s x)" for x
        by (simp_all add: set_obj_def)
      have lt: "sched_lt ?s' = sched_lt ?s" by (rule sched_lt_cong) (simp add: s' request_key_def)
      have "waiting_ok K sz ?s' rid"
        using w request_ok_same [of "objs ?s' rid" "objs ?s rid" K sz rid] by (simp add: waiting_ok_def s' Let_def)
      then have "core_inv K sz ?ws ?s'"
        using core out by (intro core_step [OF core, where rid = rid]) (auto simp: s' core_inv_def)
      moreover have "booked K cfg ?t"
        by (rule booked_frame [OF b]) (use b in \<open>simp_all add: booked_def s'\<close>)
      ultimately have "wait_inv K sz cfg ?t"
        using inv queue_ok_lt [OF lt, of cfg] by (simp add: wait_inv_def s' Let_def)
      then show ?thesis
        using run lt by (intro exI [of _ False] exI [of _ ?t]) (simp add: s' same_step_def all_reqs_def)
    qed
  qed
qed

text \<open>A skipped request moves to the other queue.\<close>

lemma skip_request_spec:
  assumes inv: "wait_inv K sz cfg t" and ne: "waiting (sch t) \<noteq> []"
  shows "\<exists>t'. skip_request cfg t = Inr t' \<and> wait_inv K sz cfg t' \<and> same_step t t'"
proof -
  let ?s = "sch t" and ?sk = "skipped_waiting_requests t"
  have q: "queue_ok cfg ?s (waiting ?s)" "queue_ok cfg ?s ?sk" and core: "core_inv K sz (waiting ?s @ ?sk) ?s"
    and b: "booked K cfg t" using inv by (simp_all add: wait_inv_def Let_def)
  obtain x q' where pop: "q_pop_request (policy cfg) (sched_lt ?s) (waiting ?s) = Inr (x, q')" "queue_ok cfg ?s q'"
    "mset (waiting ?s) = add_mset x (mset q')"
    using queue_pop [OF q(1) ne] by blast
  note pre = queue_laws(1,2) [OF q(2), of x]
  let ?sk' = "q_prepend_request (policy cfg) (sched_lt ?s) x ?sk"
  let ?t = "t\<lparr>sch := ?s\<lparr>waiting := q'\<rparr>, skipped_waiting_requests := ?sk'\<rparr>"
  have run: "skip_request cfg t = Inr ?t" using pop(1) by (simp add: skip_request_def)
  have m: "mset (q' @ ?sk') = mset (waiting ?s @ ?sk)" using pop(3) pre(2) by simp
  have "core_inv K sz (q' @ ?sk') ?s" by (rule core_inv_mset [OF core m])
  then have "core_inv K sz (q' @ ?sk') (?s\<lparr>waiting := q'\<rparr>)"
    by (simp add: core_inv_def running_ok_def waiting_ok_def)
  moreover have lt: "sched_lt (?s\<lparr>waiting := q'\<rparr>) = sched_lt ?s" by (rule sched_lt_cong) simp
  moreover have "booked K cfg ?t" using b by (simp add: booked_def step_reqs_def)
  moreover have "set q' \<union> set ?sk' = set (waiting ?s) \<union> set ?sk"
    using arg_cong [OF m, of set_mset] by simp
  ultimately have "wait_inv K sz cfg ?t"
    using inv pop(2) pre(1) queue_ok_lt [OF lt, of cfg] by (auto simp: wait_inv_def Let_def)
  moreover have "same_step t ?t" using pop(3) pre(2) by (simp add: same_step_def all_reqs_def)
  ultimately show ?thesis using run by blast
qed

section \<open>Starting a request\<close>

context kv_provider
begin

text \<open>The slots of the request at the head of the queue were granted.\<close>

lemma start_request_spec:
  assumes inv: "wait_inv K sz cfg t" and cfg: "plain_sched K cfg"
    and peek: "q_peek_request (policy cfg) (waiting (sch t)) = Inr rid" "waiting (sch t) \<noteq> []"
    and status: "req_status (objs (sch t) rid) \<in> {WAITING, PREEMPTED}"
    and k: "kv_fine K k" "keeps_tables K (\<lambda>x. x \<noteq> rid) (kv (sch t)) k" "kv_covers K rid (computed + n) k"
    and n: "0 < n" "n \<le> token_budget t" "0 \<le> computed" "computed + n < kv_max_len K"
    and plan: "plan_inv sz (objs (sch t) rid) budget p" "plan_cache p = encoder (sch t)" and sz: "\<And>h. 0 \<le> sz h"
    and room: "py_len (running (sch t)) < max_num_running_reqs cfg"
  shows "\<exists>t'. start_request cfg rid n computed p (t\<lparr>sch := (sch t)\<lparr>kv := k\<rparr>\<rparr>) = Inr t' \<and>
    wait_inv K sz cfg t' \<and> same_step t t'"
proof -
  let ?s = "sch t" and ?sk = "skipped_waiting_requests t" and ?r = "objs (sch t) rid"
  have q: "queue_ok cfg ?s (waiting ?s)" "queue_ok cfg ?s ?sk" and core: "core_inv K sz (waiting ?s @ ?sk) ?s"
    and b: "booked K cfg t" and prev: "\<forall>rid \<in> set (waiting ?s @ ?sk). req_status (objs ?s rid) = PREEMPTED \<longrightarrow>
      rid \<notin> prev_step_scheduled_req_ids ?s" "set (scheduled_resumed_reqs t) \<inter> prev_step_scheduled_req_ids ?s = {}"
    using inv by (simp_all add: wait_inv_def Let_def)
  obtain q' where pop: "q_pop_request (policy cfg) (sched_lt ?s) (waiting ?s) = Inr (rid, q')" "queue_ok cfg ?s q'"
    "mset (waiting ?s) = add_mset rid (mset q')"
    using queue_pop [OF q(1) peek(2)] peek(1) by auto
  have rid: "rid \<in> set (waiting ?s)" using pop(3) by (metis mset_eq_setD set_mset_mset union_single_eq_member)
  have w: "waiting_ok K sz ?s rid" and out: "rid \<notin> set (running ?s)" using core rid by (auto simp: core_inv_def)
  have lora: "max_loras cfg = None" using cfg by (simp add: plain_sched_def)
  define upd where "upd = (\<lambda>r :: request. r\<lparr>req_status := RUNNING, num_computed_tokens := computed,
    num_cached_tokens := (if num_cached_tokens r < 0 then computed else num_cached_tokens r)\<rparr>)"
  define s5 where "s5 = set_obj rid upd (?s\<lparr>kv := k, waiting := q', running := running ?s @ [rid]\<rparr>)"
  define ta where "ta = t\<lparr>sch := s5\<rparr>"
  define tb where "tb = (if req_status ?r = WAITING then t\<lparr>scheduled_new_reqs := scheduled_new_reqs t @ [rid]\<rparr>
    else t\<lparr>scheduled_resumed_reqs := scheduled_resumed_reqs t @ [rid]\<rparr>)"
  define t5 where "t5 = (mark_scheduled rid n (get_blocks rid k) tb)\<lparr>sch := s5\<rparr>"
  have run: "start_request cfg rid n computed p (t\<lparr>sch := ?s\<lparr>kv := k\<rparr>\<rparr>) = allocate_encoder_inputs rid p t5"
  proof -
    have lt: "sched_lt (?s\<lparr>kv := k\<rparr>) = sched_lt ?s" by (rule sched_lt_cong) simp
    show ?thesis
      using status pop(1) lora
      by (auto simp: start_request_def lt t5_def tb_def ta_def s5_def upd_def mark_scheduled_def set_obj_def Let_def)
  qed
  have s5: "running s5 = running ?s @ [rid]" "waiting s5 = q'" "requests s5 = requests ?s" "kv s5 = k"
    "encoder s5 = encoder ?s" "prev_step_scheduled_req_ids s5 = prev_step_scheduled_req_ids ?s"
    "objs s5 x = (if x = rid then upd ?r else objs ?s x)" for x
    by (simp_all add: s5_def set_obj_def)
  have upd: "request_id (upd r) = request_id r" "block_hashes (upd r) = block_hashes r" "all_token_ids (upd r) = all_token_ids r"
    "mm_features (upd r) = mm_features r" "req_status (upd r) = RUNNING" "num_computed_tokens (upd r) = computed"
    "request_key (upd r) = request_key r" for r
    by (simp_all add: upd_def request_key_def)
  have lt5: "sched_lt s5 = sched_lt ?s" by (rule sched_lt_cong) (simp add: s5 upd)
  have "rid \<notin> set (step_reqs t)" using b out by (auto simp: booked_def)
  then have ba: "booked K cfg ta"
    unfolding ta_def using b k(2) by (intro booked_frame) (auto simp: booked_def s5 upd intro: keeps_sub)
  have "booked K cfg t5"
    by (rule booked_add [OF ba, where rid = rid and n = n and nb = "get_blocks rid k"])
      (use \<open>rid \<notin> set (step_reqs t)\<close> n k(3) in
        \<open>auto simp: t5_def tb_def ta_def mark_scheduled_def step_reqs_def s5 upd\<close>)
  moreover have "objs (sch t5) rid = upd ?r" "encoder (sch t5) = encoder ?s" "sch t5 = s5"
    by (simp_all add: t5_def tb_def ta_def mark_scheduled_def s5)
  moreover have "input_hash (upd ?r) = input_hash ?r" "valid_input (upd ?r) = valid_input ?r"
    by (simp_all add: fun_eq_iff input_hash_def valid_input_def upd)
  moreover have req: "request_ok K sz rid (upd ?r)"
    using w request_ok_same [of "upd ?r" ?r K sz rid] by (simp add: waiting_ok_def upd Let_def)
  ultimately obtain t' e where t': "allocate_encoder_inputs rid p t5 = Inr t'" "sch t' = s5\<lparr>encoder := e\<rparr>" "ecm_inv sz e"
    "booked K cfg t'" "scheduled_resumed_reqs t' = scheduled_resumed_reqs t5"
    "skipped_waiting_requests t' = skipped_waiting_requests t5"
    using allocate_encoder_spec [where t = t5 and rid = rid and p = p and sz = sz and budget = budget and K = K and cfg = cfg]
      plan sz by (auto simp: plan_inv_def request_ok_def Let_def)
  let ?s' = "s5\<lparr>encoder := e\<rparr>"
  have lt': "sched_lt ?s' = sched_lt ?s" using lt5 sched_lt_cong [of ?s' s5] by simp
  have "kv_covers K rid computed k" by (rule shorter [OF k(3)]) (use n in simp)
  then have "running_ok K sz ?s' rid"
    using w req n by (simp add: running_ok_def waiting_ok_def s5 upd Let_def)
  moreover have "distinct (running ?s' @ q' @ ?sk)"
  proof -
    have m: "mset (running ?s' @ q' @ ?sk) = mset (running ?s @ waiting ?s @ ?sk)" by (simp add: s5 pop(3))
    have "distinct (running ?s @ waiting ?s @ ?sk)" using core by (simp add: core_inv_def)
    with m show ?thesis by (metis mset_eq_imp_distinct_iff)
  qed
  moreover have "rid \<notin> set (q' @ ?sk)" using \<open>distinct (running ?s' @ q' @ ?sk)\<close> by (auto simp: s5)
  moreover have sub: "set q' \<subseteq> set (waiting ?s)" using arg_cong [OF pop(3), of set_mset] by auto
  ultimately have core': "core_inv K sz (q' @ ?sk) ?s'"
    using core k(1,2) t'(3)
    by (intro core_step [OF core, where rid = rid]) (auto simp: s5 core_inv_def)
  have "wait_inv K sz cfg t'"
    using core' t'(2,4,5,6) pop(2) q(2) room sub prev status rid queue_ok_lt [OF lt', of cfg] \<open>rid \<notin> set (q' @ ?sk)\<close>
    by (auto simp: wait_inv_def Let_def s5 t5_def tb_def ta_def mark_scheduled_def py_len_def split: if_splits)
  moreover have "same_step t t'"
    using t'(2,6) pop(3) out by (auto simp: same_step_def all_reqs_def s5 t5_def tb_def ta_def mark_scheduled_def)
  ultimately show ?thesis using run t'(1) by auto
qed

lemma wait_inv_kv:
  assumes "wait_inv K sz cfg t" and "kv_fine K k" and "keeps_tables K (\<lambda>x. x \<noteq> rid) (kv (sch t)) k"
    and "rid \<in> set (waiting (sch t))" and "kv_new K rid k"
  shows "wait_inv K sz cfg (t\<lparr>sch := (sch t)\<lparr>kv := k\<rparr>\<rparr>) \<and> same_step t (t\<lparr>sch := (sch t)\<lparr>kv := k\<rparr>\<rparr>)"
proof -
  have e: "ecm_inv sz (encoder (sch t))" using assms(1) by (simp add: wait_inv_def core_inv_def Let_def)
  have "(sch t)\<lparr>kv := k, encoder := encoder (sch t)\<rparr> = (sch t)\<lparr>kv := k\<rparr>" by (rule scheduler.equality) simp_all
  with wait_inv_caches [OF assms e] show ?thesis by simp
qed

lemma wait_inv_encoder:
  assumes "wait_inv K sz cfg t" and "rid \<in> set (waiting (sch t))" and "ecm_inv sz e"
  shows "wait_inv K sz cfg (t\<lparr>sch := (sch t)\<lparr>encoder := e\<rparr>\<rparr>) \<and> same_step t (t\<lparr>sch := (sch t)\<lparr>encoder := e\<rparr>\<rparr>)"
proof -
  have "kv_fine K (kv (sch t))" "kv_new K rid (kv (sch t))"
    using assms(1,2) by (auto simp: wait_inv_def core_inv_def waiting_ok_def Let_def)
  note a = wait_inv_caches [OF assms(1) this(1) keeps_refl assms(2) this(2) assms(3)]
  have "(sch t)\<lparr>kv := kv (sch t), encoder := e\<rparr> = (sch t)\<lparr>encoder := e\<rparr>" by (rule scheduler.equality) simp_all
  with a show ?thesis by simp
qed

text \<open>The request at the head is admitted, or the loop stops.\<close>

lemma admit_request_spec:
  assumes inv: "wait_inv K sz cfg t" and cfg: "plain_sched K cfg"
    and peek: "q_peek_request (policy cfg) (waiting (sch t)) = Inr rid" "waiting (sch t) \<noteq> []" "rid \<in> set (waiting (sch t))"
    and status: "req_status (objs (sch t) rid) \<in> {WAITING, PREEMPTED}"
    and hits: "kv_hits K rid hits c (kv (sch t))" "0 \<le> c" "c < num_tokens (objs (sch t) rid)"
    and budget: "0 < token_budget t" and sz: "\<And>h. 0 \<le> sz h"
    and room: "py_len (running (sch t)) < max_num_running_reqs cfg"
  shows "\<exists>stop t'. admit_request cfg remote rid hits c c t = Inr (stop, t') \<and> wait_inv K sz cfg t' \<and> same_step t t'"
proof -
  define r where "r = objs (sch t) rid"
  have core: "core_inv K sz (waiting (sch t) @ skipped_waiting_requests t) (sch t)" and b: "booked K cfg t"
    using inv by (simp_all add: wait_inv_def Let_def)
  have w: "waiting_ok K sz (sch t) rid" using core peek(3) by (simp add: core_inv_def)
  then have req: "request_ok K sz rid (objs (sch t) rid)" and zero: "num_computed_tokens r = 0"
    by (simp_all add: waiting_ok_def r_def Let_def)
  then have r: "request_id r = rid" "kv_hashed K (block_hashes r) (num_tokens r)" "num_tokens r < kv_max_len K"
    "sized sz r" by (simp_all add: request_ok_def r_def)
  define n0 where "n0 = long_prefill_cap cfg (num_tokens r - c)"
  define n1 where "n1 = min n0 (token_budget t)"
  have n1: "0 < n1" "n1 \<le> token_budget t" "n1 \<le> num_tokens r - c"
    using hits(3) budget long_prefill_cap_bounds(2,3) [where cfg = cfg and n = "num_tokens r - c"] by (auto simp: n1_def n0_def r_def)
  show ?thesis
  proof (cases "\<not> enable_chunked_prefill cfg \<and> n0 > token_budget t")
    case True
    then have "admit_request cfg remote rid hits c c t = Inr (True, t)"
      by (simp add: admit_request_def r_def [symmetric] n0_def [symmetric] Let_def)
    then show ?thesis using inv by auto
  next
    case False
    obtain p where p: "plan_encoder_inputs cfg remote r c n1 t = Inr p"
      "plan_inv sz r (encoder_compute_budget t) p" "0 \<le> num_new_tokens p" "num_new_tokens p \<le> n1"
      using plan_inputs_spec [OF core b req _ sz, where n = n1 and remote = remote and computed = c] n1(1)
      unfolding r_def [symmetric] by auto
    have plain_text: "num_new_tokens p = n1" if "mm_features r = []"
      using p(1) that by (auto simp: plan_encoder_inputs_def)
    let ?n = "num_new_tokens p" and ?t1 = "t\<lparr>sch := (sch t)\<lparr>encoder := plan_cache p\<rparr>\<rparr>"
    have e: "ecm_inv sz (plan_cache p)" using p(2) by (simp add: plan_inv_def Let_def)
    note inv1 = wait_inv_encoder [OF inv peek(3) e]
    have run: "admit_request cfg remote rid hits c c t = (if mm_features r \<noteq> [] \<and> ?n = 0 then Inr (True, ?t1)
      else rbind (allocate_slots r ?n c (Some hits) 0 0 False 0 (kv (sch t))) (\<lambda>(new_blocks, k).
        let t2 = t\<lparr>sch := (sch t)\<lparr>encoder := plan_cache p, kv := k\<rparr>\<rparr> in
        if new_blocks = None
        then (if mm_features r \<noteq> []
              then rbind (ecm_free r (plan_cache p)) (\<lambda>e. Inr (True, t2\<lparr>sch := (sch t2)\<lparr>encoder := e\<rparr>\<rparr>))
              else Inr (True, t2))
        else rbind (start_request cfg rid ?n c p t2) (\<lambda>t3. Inr (False, t3))))"
      using p(1) n1(1) cfg zero
      unfolding admit_request_def Let_def r_def [symmetric] n0_def [symmetric] if_not_P [OF False] n1_def [symmetric]
      by (simp add: apply_mamba_split_def plain_sched_def cong: if_cong)
    show ?thesis
    proof (cases "mm_features r \<noteq> [] \<and> ?n = 0")
      case True
      then show ?thesis using run inv1 by auto
    next
      case notext: False
      then have n: "0 < ?n" using plain_text n1(1) p(3) by (cases "mm_features r = []") auto
      have "kv_fine K (kv (sch t))" "kv_new K (request_id r) (kv (sch t))"
        using core w r(1) by (simp_all add: core_inv_def waiting_ok_def Let_def)
      from admit [OF this r(2) zero _ hits(2) n, of hits] hits(1) r(1,3) n1(3) p(4) obtain res k where
        k: "allocate_slots r ?n c (Some hits) 0 0 False 0 (kv (sch t)) = Inr (res, k)" "kv_fine K k"
        "keeps_tables K (\<lambda>x. x \<noteq> rid) (kv (sch t)) k" "if res = None then kv_new K rid k else kv_covers K rid (c + ?n) k"
        by auto
      show ?thesis
      proof (cases res)
        case None
        obtain e' where e': "ecm_free r (plan_cache p) = Inr e'" "ecm_inv sz e'" using ecm_free_kept [OF sz r(4) e] by blast
        have "kv_new K rid k" using k(4) None by simp
        note inv2 = wait_inv_caches [OF inv k(2,3) peek(3) this]
        have comm: "(sch t)\<lparr>encoder := x, kv := k\<rparr> = (sch t)\<lparr>kv := k, encoder := x\<rparr>" for x by simp
        show ?thesis
        proof (cases "mm_features r = []")
          case True
          then show ?thesis using run notext k(1) None inv2 [OF e] by (auto simp: Let_def comm)
        next
          case False
          then show ?thesis using run notext k(1) None inv2 [OF e'(2)] e'(1) by (auto simp: Let_def comm)
        qed
      next
        case (Some nb)
        have cov: "kv_covers K rid (c + ?n) k" using k(4) Some by simp
        have a: "q_peek_request (policy cfg) (waiting (sch ?t1)) = Inr rid" "waiting (sch ?t1) \<noteq> []"
          "req_status (objs (sch ?t1) rid) \<in> {WAITING, PREEMPTED}" "keeps_tables K (\<lambda>x. x \<noteq> rid) (kv (sch ?t1)) k"
          "?n \<le> token_budget ?t1" "c + ?n < kv_max_len K" "plan_inv sz (objs (sch ?t1) rid) (encoder_compute_budget t) p"
          "plan_cache p = encoder (sch ?t1)" "py_len (running (sch ?t1)) < max_num_running_reqs cfg"
          using peek status k(3) p n1 r(3) room by (simp_all add: r_def)
        obtain t' where "start_request cfg rid ?n c p (?t1\<lparr>sch := (sch ?t1)\<lparr>kv := k\<rparr>\<rparr>) = Inr t'"
          "wait_inv K sz cfg t'" "same_step ?t1 t'"
          using start_request_spec [OF conjunct1 [OF inv1] cfg a(1-3) k(2) a(4) cov n a(5) hits(2) a(6-8) sz a(9)] by blast
        then show ?thesis
          using run notext k(1) Some same_step_trans [OF conjunct2 [OF inv1]] by (auto simp: Let_def)
      qed
    qed
  qed
qed

section \<open>The loop\<close>

lemma waiting_one_spec:
  assumes inv: "wait_inv K sz cfg t" and cfg: "plain_sched K cfg" and ne: "waiting (sch t) \<noteq> []"
    and budget: "0 < token_budget t" and sz: "\<And>h. 0 \<le> sz h"
  shows "\<exists>stop t'. schedule_waiting_one cfg ready remote t = Some (Inr (stop, t')) \<and> wait_inv K sz cfg t' \<and> same_step t t'"
proof (cases "int (length (running (sch t))) = max_num_running_reqs cfg")
  case True
  then show ?thesis using inv by (auto simp: schedule_waiting_one_def)
next
  case False
  have room: "py_len (running (sch t)) < max_num_running_reqs cfg"
    using inv False by (simp add: wait_inv_def py_len_def Let_def)
  have q: "queue_ok cfg (sch t) (waiting (sch t))" using inv by (simp add: wait_inv_def Let_def)
  obtain rid q' where pop: "q_peek_request (policy cfg) (waiting (sch t)) = Inr rid" "mset (waiting (sch t)) = add_mset rid (mset q')"
    using queue_pop [OF q ne] by blast
  have rid: "rid \<in> set (waiting (sch t))" using arg_cong [OF pop(2), of set_mset] by auto
  obtain skip t1 where t1: "waiting_gate cfg ready rid t = Inr (skip, t1)" "wait_inv K sz cfg t1" "same_step t t1"
    "waiting (sch t1) = waiting (sch t)" "token_budget t1 = token_budget t" "running (sch t1) = running (sch t)"
    "\<not> skip \<longrightarrow> req_status (objs (sch t1) rid) \<in> {WAITING, PREEMPTED}"
    using waiting_gate_spec [OF inv rid cfg, of ready] by blast
  have run: "schedule_waiting_one cfg ready remote t =
      (if skip then Some (rbind (skip_request cfg t1) (\<lambda>t2. Inr (False, t2)))
       else obind (lookup_computed rid t1) (\<lambda>(hits, n_local, computed, t2).
          Some (admit_request cfg remote rid hits n_local computed t2)))"
    using False pop(1) t1(1) by (simp add: schedule_waiting_one_def)
  show ?thesis
  proof (cases skip)
    case True
    obtain t2 where "skip_request cfg t1 = Inr t2" "wait_inv K sz cfg t2" "same_step t1 t2"
      using skip_request_spec [OF t1(2)] t1(4) ne by auto
    then show ?thesis using run True same_step_trans [OF t1(3)] by (intro exI [of _ False]) auto
  next
    case go: False
    let ?r = "objs (sch t1) rid"
    have core: "core_inv K sz (waiting (sch t1) @ skipped_waiting_requests t1) (sch t1)"
      using t1(2) by (simp add: wait_inv_def Let_def)
    have w: "waiting_ok K sz (sch t1) rid" using core rid t1(4) by (simp add: core_inv_def)
    then have r: "request_id ?r = rid" "kv_hashed K (block_hashes ?r) (num_tokens ?r)" "0 < num_tokens ?r"
      "num_computed_tokens ?r = 0" "kv_new K rid (kv (sch t1))" by (simp_all add: waiting_ok_def request_ok_def Let_def)
    obtain hits c k where k: "get_computed_blocks ?r (kv (sch t1)) = Some (Inr ((hits, c), k))" "0 \<le> c" "c < num_tokens ?r"
      "kv_fine K k" "keeps_tables K (\<lambda>_. True) (kv (sch t1)) k" "kv_hits K rid hits c k"
      using lookup [of "kv (sch t1)" ?r] core r by (auto simp: core_inv_def)
    let ?t2 = "t1\<lparr>sch := (sch t1)\<lparr>kv := k\<rparr>\<rparr>"
    have look: "lookup_computed rid t1 = Some (Inr (hits, c, c, ?t2))" using k(1) r(4) by (simp add: lookup_computed_def)
    have "kv_new K rid k" using k(5) r(5) by (simp add: keeps_tables_def)
    note inv2 = wait_inv_kv [OF t1(2) k(4) keeps_sub [OF k(5)] _ this]
    have rid1: "rid \<in> set (waiting (sch t1))" using rid t1(4) by simp
    have a: "q_peek_request (policy cfg) (waiting (sch ?t2)) = Inr rid" "waiting (sch ?t2) \<noteq> []" "rid \<in> set (waiting (sch ?t2))"
      "req_status (objs (sch ?t2) rid) \<in> {WAITING, PREEMPTED}" "kv_hits K rid hits c (kv (sch ?t2))"
      "c < num_tokens (objs (sch ?t2) rid)" "0 < token_budget ?t2" "py_len (running (sch ?t2)) < max_num_running_reqs cfg"
      using pop(1) ne rid t1(4-7) go k budget room by simp_all
    have i2: "wait_inv K sz cfg ?t2" "same_step t1 ?t2" using inv2 rid1 by simp_all
    from admit_request_spec [OF i2(1) cfg a(1-5) k(2) a(6,7) sz a(8), of remote] obtain stop t' where
      "admit_request cfg remote rid hits c c ?t2 = Inr (stop, t')" "wait_inv K sz cfg t'" "same_step ?t2 t'" by blast
    then show ?thesis
      using run go look same_step_trans [OF t1(3) same_step_trans [OF i2(2)]] by auto
  qed
qed

lemma schedule_waiting_spec:
  assumes "wait_inv K sz cfg t" and cfg: "plain_sched K cfg" and sz: "\<And>h. 0 \<le> sz h"
  shows "\<exists>t'. schedule_waiting cfg ready remote t = Some (Inr t') \<and> wait_inv K sz cfg t' \<and> same_step t t'"
  using assms(1)
proof (induction "length (waiting (sch t))" arbitrary: t rule: less_induct)
  case less
  show ?case
  proof (cases "waiting (sch t) \<noteq> [] \<and> token_budget t > 0")
    case False
    then show ?thesis using less.prems by (subst schedule_waiting.simps) auto
  next
    case True
    then obtain stop t1 where t1: "schedule_waiting_one cfg ready remote t = Some (Inr (stop, t1))"
      "wait_inv K sz cfg t1" "same_step t t1"
      using waiting_one_spec [OF less.prems cfg _ _ sz] by blast
    have run: "schedule_waiting cfg ready remote t = (if stop then Some (Inr t1) else schedule_waiting cfg ready remote t1)"
      using True t1(1) by (subst schedule_waiting.simps) simp
    show ?thesis
    proof (cases stop)
      case True
      then show ?thesis using run t1 by auto
    next
      case False
      then have "length (waiting (sch t1)) < length (waiting (sch t))"
        using schedule_waiting_one_fewer [of cfg ready remote t t1] t1(1) by simp
      from less.hyps [OF this t1(2)] show ?thesis using run False same_step_trans [OF t1(3)] by auto
    qed
  qed
qed

end

end
