(* ===== verification/Scheduler_Safety.thy ===== *)
theory Scheduler_Safety
  imports Scheduler_Waiting
begin

text \<open>The end of \<open>schedule\<close>, and the step as a whole.\<close>

section \<open>After the loops\<close>

definition done_inv :: "kv_contract \<Rightarrow> (mm_hash \<Rightarrow> int) \<Rightarrow> sched_config \<Rightarrow> sched_step \<Rightarrow> bool" where
  "done_inv K sz cfg t \<longleftrightarrow>
     (let s = sch t; sk = skipped_waiting_requests t in
      core_inv K sz (waiting s @ sk) s \<and> queue_ok cfg s (waiting s) \<and> queue_ok cfg s sk \<and> booked K cfg t \<and>
      py_len (running s) \<le> max_num_running_reqs cfg \<and>
      set (scheduled_resumed_reqs t) \<inter> prev_step_scheduled_req_ids s = {})"

text \<open>Once the skipped requests are back.\<close>

definition end_inv :: "kv_contract \<Rightarrow> (mm_hash \<Rightarrow> int) \<Rightarrow> sched_config \<Rightarrow> sched_step \<Rightarrow> bool" where
  "end_inv K sz cfg t \<longleftrightarrow>
     (let s = sch t in
      core_inv K sz (waiting s) s \<and> queue_ok cfg s (waiting s) \<and> booked K cfg t \<and>
      py_len (running s) \<le> max_num_running_reqs cfg \<and>
      set (scheduled_resumed_reqs t) \<inter> prev_step_scheduled_req_ids s = {})"

lemma wait_done: "wait_inv K sz cfg t \<Longrightarrow> done_inv K sz cfg t"
  by (simp add: wait_inv_def done_inv_def Let_def)

lemma queue_ok_empty [simp]: "queue_ok cfg s []"
  using rq.empty(1) [of "policy cfg" "objs s"] by (simp add: queue_ok_def sched_lt_objs)

lemma run_done: "run_inv K sz cfg t \<Longrightarrow> done_inv K sz cfg t"
  by (simp add: run_inv_def done_inv_def Let_def)

lemma run_wait: "run_inv K sz cfg t \<Longrightarrow> preempted_reqs t = [] \<Longrightarrow> wait_inv K sz cfg t"
  by (simp add: run_inv_def wait_inv_def Let_def)

text \<open>The encoder inputs that were used are freed.\<close>

lemma free_encoder_spec:
  assumes "\<And>h. 0 \<le> sz h" and "sized sz r" and "ecm_inv sz e"
  shows "\<exists>e'. free_encoder_inputs r e = Inr e' \<and> ecm_inv sz e'"
proof -
  let ?I = "\<lambda>is m. ecm_inv sz m \<and> (\<forall>i \<in> set is. valid_input r i)"
  have start: "?I (get_cached_input_ids r e) e"
    using assms(3) by (auto simp: get_cached_input_ids_def valid_input_def py_len_def)
  have "\<exists>e'. rfold (\<lambda>i m. let f = mm_features r ! nat i in
         if mm_offset f + mm_length f \<le> num_computed_tokens r then free_encoder_input r i m else Inr m)
       (get_cached_input_ids r e) e = Inr e' \<and> ?I [] e'"
  proof (rule rfold_invariant [where I = ?I, OF start])
    fix i "is" m
    assume I: "?I (i # is) m"
    then obtain m' where "free_encoder_input r i m = Inr m'" "ecm_inv sz m'"
      using free_input_inv [of sz m r i] assms(1,2) by auto
    with I show "\<exists>m'. (let f = mm_features r ! nat i in
         if mm_offset f + mm_length f \<le> num_computed_tokens r then free_encoder_input r i m else Inr m) = Inr m' \<and> ?I is m'"
      by (auto simp: Let_def)
  qed
  then show ?thesis by (auto simp: free_encoder_inputs_def)
qed

text \<open>The computed tokens of a request advance by the tokens it was given.\<close>

lemma advance_spec:
  assumes core: "core_inv K sz ws s" and rid: "rid \<in> set (running s)"
    and n: "0 < n" "num_computed_tokens (objs s rid) + n < kv_max_len K"
    "kv_covers K rid (num_computed_tokens (objs s rid) + n) (kv s)" and sz: "\<And>h. 0 \<le> sz h"
  shows "\<exists>b' s'. advance_request (rid, n) (b, s) = Inr (b', s') \<and> core_inv K sz ws s' \<and>
    running s' = running s \<and> waiting s' = waiting s \<and> requests s' = requests s \<and> kv s' = kv s \<and>
    prev_step_scheduled_req_ids s' = prev_step_scheduled_req_ids s \<and> sched_lt s' = sched_lt s \<and>
    (\<forall>x. x \<noteq> rid \<longrightarrow> objs s' x = objs s x) \<and>
    num_computed_tokens (objs s' rid) = num_computed_tokens (objs s rid) + n"
proof -
  let ?r = "objs s rid"
  define upd where "upd = (\<lambda>r :: request. r\<lparr>num_computed_tokens := num_computed_tokens r + n,
    is_prefill_chunk := (num_computed_tokens r + n < num_tokens r + num_output_placeholders r)\<rparr>)"
  define s1 where "s1 = set_obj rid upd s"
  have upd: "request_id (upd r) = request_id r" "block_hashes (upd r) = block_hashes r" "all_token_ids (upd r) = all_token_ids r"
    "mm_features (upd r) = mm_features r" "req_status (upd r) = req_status r"
    "num_computed_tokens (upd r) = num_computed_tokens r + n" "request_key (upd r) = request_key r" for r
    by (simp_all add: upd_def request_key_def)
  have s1: "running s1 = running s" "waiting s1 = waiting s" "requests s1 = requests s" "kv s1 = kv s" "encoder s1 = encoder s"
    "prev_step_scheduled_req_ids s1 = prev_step_scheduled_req_ids s" "objs s1 x = (if x = rid then upd ?r else objs s x)" for x
    by (simp_all add: s1_def set_obj_def)
  have ok: "running_ok K sz s rid" and out: "rid \<notin> set ws" using core rid by (auto simp: core_inv_def)
  then have req: "request_ok K sz rid (upd ?r)"
    using request_ok_same [of "upd ?r" ?r K sz rid] by (simp add: running_ok_def upd Let_def)
  have e: "ecm_inv sz (encoder s)" "rid \<in> set (requests s)" using core ok by (simp_all add: core_inv_def running_ok_def Let_def)
  obtain e' where e': "free_encoder_inputs (upd ?r) (encoder s) = Inr e'" "ecm_inv sz e'"
    using free_encoder_spec [OF sz _ e(1)] req by (auto simp: request_ok_def)
  let ?e = "if mm_features (upd ?r) \<noteq> [] then e' else encoder s"
  let ?s' = "s1\<lparr>encoder := ?e\<rparr>"
  have run: "advance_request (rid, n) (b, s) = Inr (b \<or> use_structured_output (upd ?r), ?s')"
  proof -
    have "s1\<lparr>encoder := encoder s\<rparr> = s1" by (rule scheduler.equality) (simp_all add: s1)
    then show ?thesis
      using e(2) e'(1) unfolding advance_request_def Let_def prod.case upd_def [symmetric] s1_def [symmetric]
      by (simp add: s1)
  qed
  have "running_ok K sz ?s' rid" using ok req n by (simp add: running_ok_def s1 upd Let_def)
  then have "core_inv K sz ws ?s'"
    using core e'(2) e(1) rid out by (intro core_step [OF core, where rid = rid]) (auto simp: s1 core_inv_def)
  moreover have "sched_lt ?s' = sched_lt s" by (rule sched_lt_cong) (simp add: s1 upd)
  ultimately show ?thesis using run by (simp add: s1 upd)
qed

lemma advance_all:
  assumes "core_inv K sz ws s" and "distinct (map fst xs)" and sz: "\<And>h. 0 \<le> sz h"
    and "\<forall>(rid, n) \<in> set xs. rid \<in> set (running s) \<and> 0 < n \<and> num_computed_tokens (objs s rid) + n < kv_max_len K \<and>
      kv_covers K rid (num_computed_tokens (objs s rid) + n) (kv s)"
  shows "\<exists>b' s'. rfold advance_request xs (b, s) = Inr (b', s') \<and> core_inv K sz ws s' \<and>
    running s' = running s \<and> waiting s' = waiting s \<and> requests s' = requests s \<and>
    prev_step_scheduled_req_ids s' = prev_step_scheduled_req_ids s \<and> sched_lt s' = sched_lt s \<and>
    (\<forall>x. x \<notin> fst ` set xs \<longrightarrow> objs s' x = objs s x) \<and>
    (\<forall>(rid, n) \<in> set xs. num_computed_tokens (objs s' rid) = num_computed_tokens (objs s rid) + n)"
  using assms(1,2,4)
proof (induction xs arbitrary: b s)
  case Nil
  then show ?case by simp
next
  case (Cons e xs)
  obtain rid n where e: "e = (rid, n)" by (cases e)
  have n: "rid \<in> set (running s)" "0 < n" "num_computed_tokens (objs s rid) + n < kv_max_len K"
    "kv_covers K rid (num_computed_tokens (objs s rid) + n) (kv s)" using Cons.prems(3) e by auto
  obtain b1 s1 where 1: "advance_request (rid, n) (b, s) = Inr (b1, s1)" "core_inv K sz ws s1"
    "running s1 = running s" "waiting s1 = waiting s" "requests s1 = requests s" "kv s1 = kv s"
    "prev_step_scheduled_req_ids s1 = prev_step_scheduled_req_ids s" "sched_lt s1 = sched_lt s"
    "\<forall>x. x \<noteq> rid \<longrightarrow> objs s1 x = objs s x" "num_computed_tokens (objs s1 rid) = num_computed_tokens (objs s rid) + n"
    using advance_spec [OF Cons.prems(1) n sz, of b] by blast
  have new: "rid \<notin> fst ` set xs" "distinct (map fst xs)" using Cons.prems(2) e by auto
  have same: "objs s1 x = objs s x" if "(x, m) \<in> set xs" for x m
    using 1(9) new(1) that by (metis fst_conv image_eqI)
  have "\<forall>(rid, n) \<in> set xs. rid \<in> set (running s1) \<and> 0 < n \<and> num_computed_tokens (objs s1 rid) + n < kv_max_len K \<and>
      kv_covers K rid (num_computed_tokens (objs s1 rid) + n) (kv s1)"
    using Cons.prems(3) same 1(3,6) by auto
  from Cons.IH [OF 1(2) new(2) this, of b1] obtain b' s' where 2:
    "rfold advance_request xs (b1, s1) = Inr (b', s')" "core_inv K sz ws s'"
    "running s' = running s1" "waiting s' = waiting s1" "requests s' = requests s1"
    "prev_step_scheduled_req_ids s' = prev_step_scheduled_req_ids s1" "sched_lt s' = sched_lt s1"
    "\<forall>x. x \<notin> fst ` set xs \<longrightarrow> objs s' x = objs s1 x"
    "\<forall>(rid, n) \<in> set xs. num_computed_tokens (objs s' rid) = num_computed_tokens (objs s1 rid) + n" by blast
  have "\<forall>x. x \<notin> fst ` set (e # xs) \<longrightarrow> objs s' x = objs s x" using 1(9) 2(8) e by auto
  moreover have "\<forall>(rid, n) \<in> set (e # xs). num_computed_tokens (objs s' rid) = num_computed_tokens (objs s rid) + n"
    using 1(10) 2(8,9) e new(1) same by fastforce
  ultimately show ?case using 1(1,3-5,7,8) 2(1-7) e by (intro exI [of _ b'] exI [of _ s']) auto
qed

text \<open>The placeholders of asynchronous scheduling do not touch the invariant.\<close>

lemma async_all:
  assumes "core_inv K sz ws s" and "fst ` set xs \<subseteq> set (running s)"
  shows "\<exists>p' s'. rfold (async_advance cfg spec) xs (p, s) = Inr (p', s') \<and> core_inv K sz ws s' \<and>
    running s' = running s \<and> waiting s' = waiting s \<and> requests s' = requests s \<and>
    prev_step_scheduled_req_ids s' = prev_step_scheduled_req_ids s \<and> sched_lt s' = sched_lt s \<and>
    (\<forall>x. num_computed_tokens (objs s' x) = num_computed_tokens (objs s x) \<and> req_status (objs s' x) = req_status (objs s x))"
  using assms
proof (induction xs arbitrary: p s)
  case (Cons e xs)
  obtain rid n where e: "e = (rid, n)" by (cases e)
  let ?r = "objs s rid"
  have ok: "running_ok K sz s rid" and out: "rid \<notin> set ws" and rid: "rid \<in> set (running s)"
    using Cons.prems e by (auto simp: core_inv_def)
  have "rid \<in> set (requests s)" using ok by (simp add: running_ok_def Let_def)
  define upd where "upd = (\<lambda>r :: request. r\<lparr>num_output_placeholders := num_output_placeholders r + 1 + py_len (spec_of rid spec),
    spec_token_ids := py_repeat (-1) (num_spec_tokens cfg)\<rparr>)"
  define s1 where "s1 = (if is_prefill_chunk ?r then s else set_obj rid upd s)"
  have run: "\<exists>p1. async_advance cfg spec e (p, s) = Inr (p1, s1)"
    using \<open>rid \<in> set (requests s)\<close> by (auto simp: async_advance_def e s1_def upd_def Let_def)
  have s1: "running s1 = running s" "waiting s1 = waiting s" "requests s1 = requests s" "kv s1 = kv s" "encoder s1 = encoder s"
    "prev_step_scheduled_req_ids s1 = prev_step_scheduled_req_ids s"
    "objs s1 x = (if x = rid \<and> \<not> is_prefill_chunk ?r then upd ?r else objs s x)" for x
    by (simp_all add: s1_def set_obj_def)
  have same: "num_computed_tokens (objs s1 x) = num_computed_tokens (objs s x)" "req_status (objs s1 x) = req_status (objs s x)"
    "request_key (objs s1 x) = request_key (objs s x)" for x
    by (simp_all add: s1 upd_def request_key_def)
  have "request_ok K sz rid (objs s1 rid) = request_ok K sz rid ?r"
    by (rule request_ok_same) (simp_all add: s1 upd_def)
  then have "running_ok K sz s1 rid"
    using ok by (simp add: running_ok_def same s1(1-6) Let_def)
  then have core1: "core_inv K sz ws s1"
    using Cons.prems(1) out rid by (intro core_step [OF Cons.prems(1), where rid = rid]) (auto simp: s1 core_inv_def)
  have "sched_lt s1 = sched_lt s" by (rule sched_lt_cong) (rule same)
  moreover obtain p1 where p1: "async_advance cfg spec e (p, s) = Inr (p1, s1)" using run by blast
  moreover have "fst ` set xs \<subseteq> set (running s1)" using Cons.prems(2) by (simp add: s1)
  from Cons.IH [OF core1 this, of p1] obtain p' s' where
    "rfold (async_advance cfg spec) xs (p1, s1) = Inr (p', s')" "core_inv K sz ws s'"
    "running s' = running s1" "waiting s' = waiting s1" "requests s' = requests s1"
    "prev_step_scheduled_req_ids s' = prev_step_scheduled_req_ids s1" "sched_lt s' = sched_lt s1"
    "\<forall>x. num_computed_tokens (objs s' x) = num_computed_tokens (objs s1 x) \<and> req_status (objs s' x) = req_status (objs s1 x)"
    by blast
  ultimately show ?case by (simp add: s1(1-6) same)
qed simp

text \<open>Skipped requests are put back at the head of the queue.\<close>

lemma put_back_spec:
  assumes inv: "done_inv K sz cfg t"
  shows "\<exists>w. put_back_skipped cfg t = t\<lparr>sch := (sch t)\<lparr>waiting := w\<rparr>\<rparr> \<and>
    end_inv K sz cfg (t\<lparr>sch := (sch t)\<lparr>waiting := w\<rparr>\<rparr>) \<and>
    mset w = mset (waiting (sch t)) + mset (skipped_waiting_requests t)"
proof -
  let ?s = "sch t" and ?sk = "skipped_waiting_requests t"
  have q: "queue_ok cfg ?s (waiting ?s)" "queue_ok cfg ?s ?sk" and core: "core_inv K sz (waiting ?s @ ?sk) ?s"
    and b: "booked K cfg t" using inv by (simp_all add: done_inv_def Let_def)
  define w where "w = (if ?sk = [] then waiting ?s else q_prepend_requests (policy cfg) (sched_lt ?s) ?sk (waiting ?s))"
  have w: "queue_ok cfg ?s w" "mset w = mset (waiting ?s) + mset ?sk"
    using q queue_laws(5,6) [OF q] by (auto simp: w_def)
  have t1: "put_back_skipped cfg t = t\<lparr>sch := ?s\<lparr>waiting := w\<rparr>\<rparr>"
  proof -
    have "t = t\<lparr>sch := ?s\<lparr>waiting := waiting ?s\<rparr>\<rparr>" by (rule sched_step.equality) (simp_all add: scheduler.equality)
    then show ?thesis by (simp add: put_back_skipped_def w_def)
  qed
  have "core_inv K sz w ?s" by (rule core_inv_mset [OF core]) (simp add: w(2))
  then have "core_inv K sz w (?s\<lparr>waiting := w\<rparr>)" by (simp add: core_inv_def running_ok_def waiting_ok_def)
  moreover have lt: "sched_lt (?s\<lparr>waiting := w\<rparr>) = sched_lt ?s" by (rule sched_lt_cong) simp
  moreover have "booked K cfg (t\<lparr>sch := ?s\<lparr>waiting := w\<rparr>\<rparr>)" using b by (simp add: booked_def step_reqs_def)
  ultimately have "end_inv K sz cfg (t\<lparr>sch := ?s\<lparr>waiting := w\<rparr>\<rparr>)"
    using inv w(1) queue_ok_lt [OF lt, of cfg] by (simp add: done_inv_def end_inv_def Let_def)
  with w(2) t1 show ?thesis by auto
qed

lemma constraints_hold:
  assumes "end_inv K sz cfg t"
  shows "check_constraints cfg t = Inr ()"
proof -
  have b: "booked K cfg t" and m: "py_len (running (sch t)) \<le> max_num_running_reqs cfg"
    using assms by (simp_all add: end_inv_def Let_def)
  have "length (step_reqs t) = card (set (step_reqs t))" using b by (simp add: booked_def distinct_card)
  also have "\<dots> \<le> card (set (running (sch t)))" using b by (intro card_mono) (simp_all add: booked_def)
  also have "\<dots> \<le> length (running (sch t))" by (rule card_length)
  finally have "py_len (scheduled_new_reqs t) + py_len (scheduled_resumed_reqs t) + py_len (scheduled_running_reqs t)
    \<le> py_len (running (sch t))" by (simp add: step_reqs_def py_len_def)
  with b m show ?thesis by (simp add: check_constraints_def booked_def py_assert_def)
qed

text \<open>What a step leaves and returns.\<close>

definition step_result ::
    "kv_contract \<Rightarrow> (mm_hash \<Rightarrow> int) \<Rightarrow> sched_config \<Rightarrow> sched_step \<Rightarrow> scheduler_output \<Rightarrow> scheduler \<Rightarrow> bool" where
  "step_result K sz cfg t out s' \<longleftrightarrow> sched_inv K sz cfg s' \<and> requests s' = requests (sch t) \<and>
     mset (running s') + mset (waiting s') = all_reqs t \<and> running s' = running (sch t) \<and>
     so_num_scheduled_tokens out = num_scheduled_tokens t \<and>
     so_total_num_scheduled_tokens out = sum_list (map snd (num_scheduled_tokens t)) \<and>
     so_preempted_req_ids out = set (preempted_reqs t) \<and>
     (\<forall>(rid, n) \<in> set (num_scheduled_tokens t).
        num_computed_tokens (objs s' rid) = num_computed_tokens (objs (sch t) rid) + n)"

text \<open>
  What a caller of \<open>schedule\<close> sees: no request is lost, and those that stop running were preempted;
  the tokens given out stay within the budget, go to running requests and advance them.
\<close>

definition step_keeps :: "scheduler \<Rightarrow> scheduler_output \<Rightarrow> scheduler \<Rightarrow> bool" where
  "step_keeps s out s' \<longleftrightarrow> requests s' = requests s \<and>
     mset (running s') + mset (waiting s') = mset (running s) + mset (waiting s) \<and>
     set (running s) - set (running s') \<subseteq> so_preempted_req_ids out"

definition tokens_given :: "sched_config \<Rightarrow> scheduler \<Rightarrow> scheduler_output \<Rightarrow> scheduler \<Rightarrow> bool" where
  "tokens_given cfg s out s' \<longleftrightarrow>
     so_total_num_scheduled_tokens out = sum_list (map snd (so_num_scheduled_tokens out)) \<and>
     so_total_num_scheduled_tokens out \<le> max_num_scheduled_tokens cfg \<and>
     distinct (map fst (so_num_scheduled_tokens out)) \<and>
     (\<forall>(rid, n) \<in> set (so_num_scheduled_tokens out). 0 < n \<and> rid \<in> set (running s') \<and>
        (rid \<in> set (running s) \<longrightarrow>
           num_computed_tokens (objs s' rid) = num_computed_tokens (objs s rid) + n))"

text \<open>The requests that leave the running ones are those that were preempted.\<close>

lemma take_victim_mset:
  "take_victim cfg t = Inr (v, t') \<Longrightarrow>
    mset (running (sch t)) = add_mset v (mset (running (sch t'))) \<and> preempted_reqs t' = preempted_reqs t"
proof -
  have un: "unschedule v t = Inr t' \<Longrightarrow> preempted_reqs t' = preempted_reqs t" for t t'
    by (auto simp: unschedule_def Let_def res_simps)
  have bl: "xs \<noteq> [] \<Longrightarrow> mset xs = add_mset (last xs) (mset (butlast xs))" for xs :: "string list"
    by (metis append_butlast_last_id mset_append mset.simps union_mset_add_mset_right add.right_neutral)
  show "take_victim cfg t = Inr (v, t') \<Longrightarrow>
    mset (running (sch t)) = add_mset v (mset (running (sch t'))) \<and> preempted_reqs t' = preempted_reqs t"
    by (auto simp: take_victim_def Let_def res_simps bl dest!: max_running_in dest: un unschedule_sch
        split: scheduling_policy.splits if_splits)
qed

lemma alloc_preempted:
  "alloc_or_preempt cfg rid n t = Inr (b, t') \<Longrightarrow>
    mset (running (sch t)) + mset (preempted_reqs t) = mset (running (sch t')) + mset (preempted_reqs t')"
proof (induction cfg rid n t rule: alloc_or_preempt.induct)
  case (1 cfg rid n t)
  obtain nb k where k: "allocate_slots (objs (sch t) rid) n 0 None (num_lookahead_tokens cfg) 0 False 0 (kv (sch t)) = Inr (nb, k)"
    using "1.prems" by (auto simp: alloc_or_preempt.simps [of cfg rid n t] res_simps)
  let ?t1 = "t\<lparr>sch := (sch t)\<lparr>kv := k\<rparr>\<rparr>"
  show ?case
  proof (cases "nb = None")
    case False
    then show ?thesis using "1.prems" k by (auto simp: alloc_or_preempt.simps [of cfg rid n t])
  next
    case True
    then obtain v t2 s3 where v: "take_victim cfg ?t1 = Inr (v, t2)" "preempt_request cfg v (sch t2) = Inr s3"
      "(if v = rid then Inr (None, t2\<lparr>sch := s3, preempted_reqs := preempted_reqs t2 @ [v]\<rparr>)
        else alloc_or_preempt cfg rid n (t2\<lparr>sch := s3, preempted_reqs := preempted_reqs t2 @ [v]\<rparr>)) = Inr (b, t')"
      using "1.prems" k by (auto simp: alloc_or_preempt.simps [of cfg rid n t] res_simps Let_def)
    let ?t3 = "t2\<lparr>sch := s3, preempted_reqs := preempted_reqs t2 @ [v]\<rparr>"
    have 2: "mset (running (sch t)) + mset (preempted_reqs t) = mset (running (sch ?t3)) + mset (preempted_reqs ?t3)"
      using take_victim_mset [OF v(1)] preempt_running [OF v(2)] by simp
    show ?thesis
    proof (cases "v = rid")
      case True
      then show ?thesis using v(3) 2 by auto
    next
      case False
      then have "alloc_or_preempt cfg rid n ?t3 = Inr (b, t')" using v(3) by simp
      from "1.IH" [OF k _ refl _ v(1) _ v(2) refl False this] 2 \<open>nb = None\<close> show ?thesis by simp
    qed
  qed
qed

lemma one_preempted:
  assumes "schedule_running_one cfg remote t = Inr (stop, t')"
  shows "mset (running (sch t)) + mset (preempted_reqs t) = mset (running (sch t')) + mset (preempted_reqs t')"
proof -
  have enc: "allocate_encoder_inputs rid p t = Inr t' \<Longrightarrow> preempted_reqs t' = preempted_reqs t \<and> running (sch t') = running (sch t)"
    for rid p t t' by (auto simp: allocate_encoder_inputs_def Let_def res_simps)
  have spec: "preempted_reqs (schedule_spec_tokens rid n t) = preempted_reqs t" for rid n t
    by (simp add: schedule_spec_tokens_def Let_def)
  show ?thesis
    using assms
    by (auto simp: schedule_running_one_def Let_def res_simps mark_scheduled_def spec schedule_spec_tokens_sch
        split: if_splits option.splits dest!: enc alloc_preempted)
qed

lemma running_preempted:
  "schedule_running cfg remote t = Inr t' \<Longrightarrow>
    mset (running (sch t)) + mset (preempted_reqs t) = mset (running (sch t')) + mset (preempted_reqs t')"
proof (induction cfg remote t rule: schedule_running.induct)
  case (1 cfg remote t)
  show ?case
  proof (cases "req_index t < py_len (running (sch t)) \<and> token_budget t > 0")
    case False
    then show ?thesis using "1.prems" by (subst (asm) schedule_running.simps) auto
  next
    case True
    then obtain stop t1 where t1: "schedule_running_one cfg remote t = Inr (stop, t1)"
      "(if stop then Inr t1 else schedule_running cfg remote t1) = Inr t'"
      using "1.prems" by (subst (asm) schedule_running.simps) (auto simp: res_simps)
    show ?thesis
    proof (cases stop)
      case True
      then show ?thesis using t1 one_preempted [OF t1(1)] by simp
    next
      case False
      then show ?thesis using t1 one_preempted [OF t1(1)] "1.IH" [OF True t1(1) refl] by simp
    qed
  qed
qed

text \<open>The step begins with nothing given out.\<close>

lemma begin_inv:
  assumes "sched_inv K sz cfg s" "plain_sched K cfg" "\<forall>rid \<in> set (running s). on_time (objs s rid)"
  shows "run_inv K sz cfg (begin_step cfg s)"
  using assms by (simp add: begin_step_def run_inv_def sched_inv_def booked_def step_reqs_def plain_sched_def)

lemma begin_cursor: "before_cursor (begin_step cfg s)"
  by (simp add: begin_step_def before_cursor_def)

context kv_provider
begin

lemma common_prefix_spec:
  assumes inv: "end_inv K sz cfg t"
  shows "\<exists>ns k. common_prefix t = Inr (ns, t\<lparr>sch := (sch t)\<lparr>kv := k\<rparr>\<rparr>) \<and> end_inv K sz cfg (t\<lparr>sch := (sch t)\<lparr>kv := k\<rparr>\<rparr>)"
proof (cases "running (sch t)")
  case Nil
  have e: "t\<lparr>sch := (sch t)\<lparr>kv := kv (sch t)\<rparr>\<rparr> = t" by (rule sched_step.equality) (simp_all add: scheduler.equality)
  show ?thesis
    by (intro exI [of _ "replicate (num_kv_cache_groups (kv (sch t))) 0"] exI [of _ "kv (sch t)"])
      (simp add: e inv common_prefix_def Nil)
next
  case (Cons rid rs)
  have core: "core_inv K sz (waiting (sch t)) (sch t)" and b: "booked K cfg t"
    using inv by (simp_all add: end_inv_def Let_def)
  then obtain ns k where k: "kcm_get_num_common_prefix_blocks rid (kv (sch t)) = Inr (ns, k)" "kv_fine K k"
    "keeps_tables K (\<lambda>_. True) (kv (sch t)) k"
    using prefix [of "kv (sch t)" rid] by (auto simp: core_inv_def)
  let ?s = "(sch t)\<lparr>kv := k\<rparr>"
  have "core_inv K sz (waiting (sch t)) ?s"
    using core k(2,3) by (auto simp: core_inv_def running_ok_def waiting_ok_def keeps_tables_def Let_def)
  moreover have "booked K cfg (t\<lparr>sch := ?s\<rparr>)"
    by (rule booked_frame [OF b]) (use b k(3) in \<open>auto simp: booked_def intro: keeps_sub\<close>)
  moreover have lt: "sched_lt ?s = sched_lt (sch t)" by (rule sched_lt_cong) simp
  ultimately have "end_inv K sz cfg (t\<lparr>sch := ?s\<rparr>)"
    using inv queue_ok_lt [OF lt, of cfg] by (simp add: end_inv_def Let_def)
  with Cons k(1) show ?thesis by (auto simp: common_prefix_def)
qed

text \<open>The data for the workers are complete.\<close>

lemma worker_data:
  assumes inv: "end_inv K sz cfg t"
  shows "\<exists>new cached. rmapv (new_request_entry cfg t) (scheduled_new_reqs t @
      (if use_v2_model_runner cfg then scheduled_resumed_reqs t else [])) = Inr new \<and>
    make_cached_request_data cfg (scheduled_running_reqs t)
      (if use_v2_model_runner cfg then [] else scheduled_resumed_reqs t) t = Inr cached"
proof -
  have b: "booked K cfg t" and prev: "set (scheduled_resumed_reqs t) \<inter> prev_step_scheduled_req_ids (sch t) = {}"
    using inv by (simp_all add: end_inv_def Let_def)
  have keys: "\<exists>nb. map_of (req_to_new_blocks t) rid = Some nb" "\<exists>n. map_of (num_scheduled_tokens t) rid = Some n"
    if "rid \<in> set (step_reqs t)" for rid
    using b that map_of_key [of rid "req_to_new_blocks t"] map_of_key [of rid "num_scheduled_tokens t"]
    by (simp_all add: booked_def)
  have total: "\<exists>ys. rmapv f xs = Inr ys" if "\<And>x. x \<in> set xs \<Longrightarrow> \<exists>y. f x = Inr y" for f :: "'a \<Rightarrow> 'b res" and xs
    using that by (induction xs) (auto, metis rbind_Inr)
  have "\<exists>y. new_request_entry cfg t rid = Inr y" if "rid \<in> set (step_reqs t)" for rid
    using keys(1) [OF that] by (auto simp: new_request_entry_def dict_item_def)
  then obtain new where new: "rmapv (new_request_entry cfg t) (scheduled_new_reqs t @
      (if use_v2_model_runner cfg then scheduled_resumed_reqs t else [])) = Inr new"
    using total [of "scheduled_new_reqs t @ (if use_v2_model_runner cfg then scheduled_resumed_reqs t else [])"
        "new_request_entry cfg t"] by (auto simp: step_reqs_def split: if_splits)
  let ?resumed = "if use_v2_model_runner cfg then [] else scheduled_resumed_reqs t"
  have entry: "\<exists>y. cached_entry cfg t (res, rid) = Inr y"
    if "rid \<in> set (step_reqs t)" "res \<Longrightarrow> rid \<in> set (scheduled_resumed_reqs t)" for res rid
    using keys [OF that(1)] that(2) prev by (auto simp: cached_entry_def dict_item_def Let_def)
  obtain es where "rmapv (cached_entry cfg t)
      (map (Pair False) (scheduled_running_reqs t) @ map (Pair True) ?resumed) = Inr es"
  proof -
    have "\<exists>y. cached_entry cfg t x = Inr y"
      if x: "x \<in> set (map (Pair False) (scheduled_running_reqs t) @ map (Pair True) ?resumed)" for x
    proof -
      obtain res rid where "x = (res, rid)" by (cases x)
      then show ?thesis using entry [of rid res] x by (auto simp: step_reqs_def split: if_splits)
    qed
    then have "\<exists>es. rmapv (cached_entry cfg t)
      (map (Pair False) (scheduled_running_reqs t) @ map (Pair True) ?resumed) = Inr es"
      by (rule total)
    then show ?thesis using that by blast
  qed
  then show ?thesis using new by (auto simp: make_cached_request_data_def Let_def)
qed

lemma update_after_spec:
  assumes core: "core_inv K sz (waiting s) s" and q: "queue_ok cfg s (waiting s)"
    and "py_len (running s) \<le> max_num_running_reqs cfg"
    and d: "distinct (map fst xs)" "xs = so_num_scheduled_tokens out"
    and prev: "prev_step_scheduled_req_ids s = fst ` set xs" and sz: "\<And>h. 0 \<le> sz h"
    and xs: "\<forall>(rid, n) \<in> set xs. rid \<in> set (running s) \<and> 0 < n \<and> num_computed_tokens (objs s rid) + n < kv_max_len K \<and>
      kv_covers K rid (num_computed_tokens (objs s rid) + n) (kv s)"
  shows "\<exists>out' s'. update_after_schedule cfg out s = Inr (out', s') \<and> sched_inv K sz cfg s' \<and>
    running s' = running s \<and> waiting s' = waiting s \<and> requests s' = requests s \<and>
    so_num_scheduled_tokens out' = so_num_scheduled_tokens out \<and>
    so_total_num_scheduled_tokens out' = so_total_num_scheduled_tokens out \<and>
    so_preempted_req_ids out' = so_preempted_req_ids out \<and>
    (\<forall>(rid, n) \<in> set xs. num_computed_tokens (objs s' rid) = num_computed_tokens (objs s rid) + n)"
proof -
  obtain b s1 where 1: "rfold advance_request xs (so_has_structured_output_requests out, s) = Inr (b, s1)"
    "core_inv K sz (waiting s) s1" "running s1 = running s" "waiting s1 = waiting s" "requests s1 = requests s"
    "prev_step_scheduled_req_ids s1 = prev_step_scheduled_req_ids s" "sched_lt s1 = sched_lt s"
    "\<forall>(rid, n) \<in> set xs. num_computed_tokens (objs s1 rid) = num_computed_tokens (objs s rid) + n"
    using advance_all [OF core d(1) sz xs, of "so_has_structured_output_requests out"] by blast
  let ?s2 = "s1\<lparr>finished_req_ids := {}\<rparr>"
  have run: "set (map fst xs) \<subseteq> set (running s)" using xs by auto
  have prev': "\<forall>rid \<in> set (waiting s). rid \<notin> prev_step_scheduled_req_ids s"
    using core run prev by (auto simp: core_inv_def)
  have core2: "core_inv K sz (waiting s) ?s2" using 1(2) by (simp add: core_inv_def running_ok_def waiting_ok_def)
  have lt2: "sched_lt ?s2 = sched_lt s" using sched_lt_cong [of ?s2 s1] 1(7) by simp
  show ?thesis
  proof (cases "async_scheduling cfg")
    case False
    have "sched_inv K sz cfg ?s2"
      using core2 1(3-6) q queue_ok_lt [OF lt2, of cfg] assms(3) prev' by (simp add: sched_inv_def)
    then show ?thesis using False 1 d(2) by (auto simp: update_after_schedule_def Let_def)
  next
    case True
    have "fst ` set xs \<subseteq> set (running ?s2)" using run 1(3) by simp
    from async_all [OF core2 this, of cfg "so_spec_decode_tokens out" "so_pending_structured_output_tokens out"]
    obtain p s3 where 3: "rfold (async_advance cfg (so_spec_decode_tokens out)) xs (so_pending_structured_output_tokens out, ?s2) = Inr (p, s3)"
      "core_inv K sz (waiting s) s3" "running s3 = running ?s2" "waiting s3 = waiting ?s2" "requests s3 = requests ?s2"
      "prev_step_scheduled_req_ids s3 = prev_step_scheduled_req_ids ?s2" "sched_lt s3 = sched_lt ?s2"
      "\<forall>x. num_computed_tokens (objs s3 x) = num_computed_tokens (objs ?s2 x) \<and> req_status (objs s3 x) = req_status (objs ?s2 x)"
      by blast
    have lt3: "sched_lt s3 = sched_lt s" using 3(7) lt2 by simp
    have "sched_inv K sz cfg s3"
      using 3(2-6) 1(3-6) q queue_ok_lt [OF lt3, of cfg] assms(3) prev' by (simp add: sched_inv_def)
    then show ?thesis using True 1 3 d(2) by (auto simp: update_after_schedule_def Let_def)
  qed
qed

lemma finish_step_spec:
  assumes inv: "done_inv K sz cfg t" and sz: "\<And>h. 0 \<le> sz h"
  shows "\<exists>out s'. finish_step cfg t = Inr (out, s') \<and> step_result K sz cfg t out s'"
proof -
  obtain w where w: "put_back_skipped cfg t = t\<lparr>sch := (sch t)\<lparr>waiting := w\<rparr>\<rparr>"
    "end_inv K sz cfg (t\<lparr>sch := (sch t)\<lparr>waiting := w\<rparr>\<rparr>)"
    "mset w = mset (waiting (sch t)) + mset (skipped_waiting_requests t)"
    using put_back_spec [OF inv] by blast
  let ?t1 = "t\<lparr>sch := (sch t)\<lparr>waiting := w\<rparr>\<rparr>"
  obtain ns k where k: "common_prefix ?t1 = Inr (ns, ?t1\<lparr>sch := (sch ?t1)\<lparr>kv := k\<rparr>\<rparr>)"
    "end_inv K sz cfg (?t1\<lparr>sch := (sch ?t1)\<lparr>kv := k\<rparr>\<rparr>)"
    using common_prefix_spec [OF w(2)] by blast
  define t2 where "t2 = ?t1\<lparr>sch := (sch ?t1)\<lparr>kv := k\<rparr>\<rparr>"
  have t2: "preempted_reqs t2 = preempted_reqs t" "num_scheduled_tokens t2 = num_scheduled_tokens t" "objs (sch t2) = objs (sch t)" "running (sch t2) = running (sch t)"
    "waiting (sch t2) = w" "requests (sch t2) = requests (sch t)" by (simp_all add: t2_def)
  have inv2: "end_inv K sz cfg t2" using k(2) by (simp add: t2_def)
  obtain new cached where data: "rmapv (new_request_entry cfg t2) (scheduled_new_reqs t2 @
      (if use_v2_model_runner cfg then scheduled_resumed_reqs t2 else [])) = Inr new"
    "make_cached_request_data cfg (scheduled_running_reqs t2)
      (if use_v2_model_runner cfg then [] else scheduled_resumed_reqs t2) t2 = Inr cached"
    using worker_data [OF inv2] by blast
  obtain fr e where drain: "get_freed_mm_hashes (encoder (sch t2)) = (fr, e)" by (cases "get_freed_mm_hashes (encoder (sch t2))")
  let ?s3 = "(sch t2)\<lparr>prev_step_scheduled_req_ids := fst ` set (num_scheduled_tokens t2), encoder := e\<rparr>"
  have b: "booked K cfg t2" and core: "core_inv K sz (waiting (sch t2)) (sch t2)"
    and q: "queue_ok cfg (sch t2) (waiting (sch t2))" and len: "py_len (running (sch t2)) \<le> max_num_running_reqs cfg"
    using inv2 by (simp_all add: end_inv_def Let_def)
  have "ecm_inv sz e" using core drain drain_inv [of sz "encoder (sch t2)"] by (simp add: core_inv_def)
  then have core3: "core_inv K sz (waiting ?s3) ?s3" using core by (simp add: core_inv_def running_ok_def waiting_ok_def)
  have lt: "sched_lt ?s3 = sched_lt (sch t2)" by (rule sched_lt_cong) simp
  have q3: "queue_ok cfg ?s3 (waiting ?s3)" using q queue_ok_lt [OF lt, of cfg] by simp
  have xs: "\<forall>(rid, n) \<in> set (num_scheduled_tokens t2). rid \<in> set (running ?s3) \<and> 0 < n \<and>
      num_computed_tokens (objs ?s3 rid) + n < kv_max_len K \<and>
      kv_covers K rid (num_computed_tokens (objs ?s3 rid) + n) (kv ?s3)"
  proof (clarify)
    fix rid n assume e: "(rid, n) \<in> set (num_scheduled_tokens t2)"
    then have "rid \<in> fst ` set (num_scheduled_tokens t2)" by force
    then have "rid \<in> set (running (sch t2))" using b by (auto simp: booked_def)
    moreover have "0 < n \<and> num_computed_tokens (objs (sch t2) rid) + n < kv_max_len K \<and>
        kv_covers K rid (num_computed_tokens (objs (sch t2) rid) + n) (kv (sch t2))" using b e by (auto simp: booked_def)
    ultimately show "rid \<in> set (running ?s3) \<and> 0 < n \<and> num_computed_tokens (objs ?s3 rid) + n < kv_max_len K \<and>
        kv_covers K rid (num_computed_tokens (objs ?s3 rid) + n) (kv ?s3)" by simp
  qed
  have dist: "distinct (map fst (num_scheduled_tokens t2))" using b by (simp add: booked_def)
  define out where "out = \<lparr>so_new_reqs = new, so_cached_reqs = cached,
                    so_num_scheduled_tokens = num_scheduled_tokens t2,
                    so_total_num_scheduled_tokens = sum_list (map snd (num_scheduled_tokens t2)),
                    so_spec_decode_tokens = scheduled_spec_decode_tokens t2,
                    so_encoder_inputs = scheduled_encoder_inputs t2,
                    so_num_common_prefix_blocks = ns, so_finished_req_ids = finished_req_ids ?s3,
                    so_free_encoder_mm_hashes = fr, so_preempted_req_ids = set (preempted_reqs t2),
                    so_has_structured_output_requests = False, so_pending_structured_output_tokens = False,
                    so_num_invalid_spec_tokens = []\<rparr>"
  have run: "finish_step cfg t = update_after_schedule cfg out ?s3"
    using constraints_hold [OF w(2)] k(1) data drain unfolding t2_def [symmetric]
    by (simp add: finish_step_def w(1) out_def Let_def)
  have "num_scheduled_tokens t2 = so_num_scheduled_tokens out" by (simp add: out_def)
  from update_after_spec [OF core3 q3 _ dist this _ sz xs] len obtain out' s' where
    "update_after_schedule cfg out ?s3 = Inr (out', s')" "sched_inv K sz cfg s'"
    "running s' = running ?s3" "waiting s' = waiting ?s3" "requests s' = requests ?s3"
    "so_num_scheduled_tokens out' = so_num_scheduled_tokens out"
    "so_total_num_scheduled_tokens out' = so_total_num_scheduled_tokens out"
    "so_preempted_req_ids out' = so_preempted_req_ids out"
    "\<forall>(rid, n) \<in> set (num_scheduled_tokens t2). num_computed_tokens (objs s' rid) = num_computed_tokens (objs ?s3 rid) + n"
    by auto
  then show ?thesis
    using run w(3) by (simp add: step_result_def t2 all_reqs_def out_def)
qed

text \<open>The step as a whole.\<close>

lemma schedule_spec:
  assumes inv: "sched_inv K sz cfg s" and cfg: "plain_sched K cfg"
    and time: "\<forall>rid \<in> set (running s). on_time (objs s rid)" and sz: "\<And>h. 0 \<le> sz h"
  shows "\<exists>out s'. schedule cfg ready remote s = Some (Inr (out, s')) \<and> sched_inv K sz cfg s' \<and>
    step_keeps s out s' \<and> tokens_given cfg s out s'"
proof -
  let ?t0 = "begin_step cfg s"
  have "run_inv K sz cfg ?t0" "before_cursor ?t0" by (rule begin_inv [OF inv cfg time]) (rule begin_cursor)
  from schedule_running_spec [OF this cfg sz] obtain t1 where
    t1: "schedule_running cfg remote ?t0 = Inr t1" "run_inv K sz cfg t1" "same_reqs s (sch t1)"
    by (auto simp: begin_step_def)
  have gone: "mset (running s) = mset (running (sch t1)) + mset (preempted_reqs t1)"
    using running_preempted [OF t1(1)] by (simp add: begin_step_def)
  define t2 where "t2 = t1\<lparr>scheduled_loras := {}\<rparr>"
  have t2: "sch t2 = sch t1" "preempted_reqs t2 = preempted_reqs t1" "skipped_waiting_requests t2 = skipped_waiting_requests t1"
    by (simp_all add: t2_def)
  have run2: "run_inv K sz cfg t2" using t1(2) by (simp add: t2_def run_inv_def booked_def step_reqs_def)
  have sk: "skipped_waiting_requests t1 = []" using t1(2) by (simp add: run_inv_def Let_def)
  obtain t3 where t3: "(if preempted_reqs t2 = [] then schedule_waiting cfg ready remote t2 else Some (Inr t2)) = Some (Inr t3)"
    "done_inv K sz cfg t3" "same_step t2 t3" "preempted_reqs t1 = [] \<or> t3 = t2"
  proof (cases "preempted_reqs t2 = []")
    case True
    from schedule_waiting_spec [OF run_wait [OF run2 True] cfg sz, of ready remote] True that t2 wait_done show ?thesis by auto
  next
    case False
    then show ?thesis using that run_done [OF run2] by auto
  qed
  obtain out s' where fin: "finish_step cfg t3 = Inr (out, s')" "step_result K sz cfg t3 out s'"
    using finish_step_spec [OF t3(2) sz] by blast
  have "running_loras cfg t1 = Inr {}" using cfg by (simp add: running_loras_def plain_sched_def)
  then have run: "schedule cfg ready remote s = Some (Inr (out, s'))"
    using t1(1) t3(1) fin(1) by (cases "preempted_reqs t1 = []") (simp_all add: schedule_def t2 t2_def [symmetric] Let_def)
  have b: "booked K cfg t3" using t3(2) by (simp add: done_inv_def Let_def)
  have out: "running s' = running (sch t3)" "so_preempted_req_ids out = set (preempted_reqs t3)" "requests s' = requests (sch t3)"
    "mset (running s') + mset (waiting s') = all_reqs t3" using fin(2) unfolding step_result_def by blast+
  have "requests s' = requests s" using out(3) t3(3) t1(3) t2(1) by (simp add: same_step_def same_reqs_def)
  moreover have "mset (running s') + mset (waiting s') = mset (running s) + mset (waiting s)"
    using out(4) t3(3) t1(3) t2 sk by (simp add: same_step_def same_reqs_def all_reqs_def)
  moreover have "set (running s) - set (running s') \<subseteq> so_preempted_req_ids out"
  proof -
    have "set (running s) = set (running (sch t1)) \<union> set (preempted_reqs t1)"
      using arg_cong [OF gone, of set_mset] by simp
    moreover have "set (running (sch t1)) \<subseteq> set (running (sch t3))" using t3(3) t2(1) by (simp add: same_step_def)
    moreover have "preempted_reqs t1 = [] \<or> preempted_reqs t3 = preempted_reqs t1" using t3(4) t2(2) by auto
    ultimately show ?thesis unfolding out(1,2) by auto
  qed
  ultimately have keeps: "step_keeps s out s'" by (simp add: step_keeps_def)
  have "num_computed_tokens (objs (sch t3) rid) = num_computed_tokens (objs s rid)"
    if "rid \<in> set (running s)" "rid \<in> set (running (sch t3))" for rid
  proof -
    have "set (running s) = set (running (sch t1)) \<union> set (preempted_reqs t1)"
      using arg_cong [OF gone, of set_mset] by simp
    then have "rid \<in> set (running (sch t2))" using that t3(4) t2(1) by auto
    then show ?thesis using t3(3) t1(3) t2(1) by (simp add: same_step_def same_reqs_def)
  qed
  note same = this
  have given: "so_num_scheduled_tokens out = num_scheduled_tokens t3"
    "so_total_num_scheduled_tokens out = sum_list (map snd (num_scheduled_tokens t3))"
    "\<forall>(rid, n) \<in> set (num_scheduled_tokens t3).
        num_computed_tokens (objs s' rid) = num_computed_tokens (objs (sch t3) rid) + n"
    using fin(2) unfolding step_result_def by blast+
  have booked: "distinct (map fst (num_scheduled_tokens t3))" "fst ` set (num_scheduled_tokens t3) = set (step_reqs t3)"
    "set (step_reqs t3) \<subseteq> set (running (sch t3))" "\<forall>(rid, n) \<in> set (num_scheduled_tokens t3). 0 < n"
    "token_budget t3 = max_num_scheduled_tokens cfg - sum_list (map snd (num_scheduled_tokens t3))" "0 \<le> token_budget t3"
    using b unfolding booked_def by auto
  have "0 < n \<and> rid \<in> set (running s') \<and> (rid \<in> set (running s) \<longrightarrow>
      num_computed_tokens (objs s' rid) = num_computed_tokens (objs s rid) + n)"
    if e: "(rid, n) \<in> set (num_scheduled_tokens t3)" for rid n
  proof -
    have "rid \<in> fst ` set (num_scheduled_tokens t3)" using e by force
    then have "rid \<in> set (running (sch t3))" using booked(2,3) by auto
    then show ?thesis using e booked(4) given(3) same [of rid] out(1) by auto
  qed
  then have "tokens_given cfg s out s'"
    using booked(1,5,6) given(1,2) by (auto simp: tokens_given_def)
  with run keeps fin(2) show ?thesis by (auto simp: step_result_def)
qed

end

section \<open>The property\<close>

text \<open>C2.
  A step of the scheduler does not fail.  From a state that satisfies the invariant, on a KV cache
  manager with one full attention group and prefix caching or with any groups and no prefix caching,
  \<open>schedule\<close> returns and leaves a state that satisfies the invariant again: no assertion, index or
  dictionary error in the running loop, its preemptions, the waiting loop, the allocation of KV
  blocks and encoder entries, or the bookkeeping after the loops.  No request is lost, a request
  stops running only when it is reported as preempted, the scheduled tokens stay within the budget,
  are positive, belong to running requests and advance their computed tokens.
\<close>

theorem schedule_never_fails:
  assumes "sched_inv (model_contract caching hbs L I) sz cfg s" and "plain_sched (model_contract caching hbs L I) cfg"
    and "\<forall>rid \<in> set (running s). on_time (objs s rid)" and "\<And>h. 0 \<le> sz h"
  shows "\<exists>out s'. schedule cfg ready remote s = Some (Inr (out, s')) \<and>
    sched_inv (model_contract caching hbs L I) sz cfg s' \<and>
    requests s' = requests s \<and>
    mset (running s') + mset (waiting s') = mset (running s) + mset (waiting s) \<and>
    set (running s) - set (running s') \<subseteq> so_preempted_req_ids out \<and>
    tokens_given cfg s out s'"
  using kv_model.schedule_spec [OF assms, of ready remote] unfolding step_keeps_def by blast

text \<open>One waiting request, with a KV cache of 8 blocks and prefix caching.\<close>

definition demo_sched_config :: sched_config where
  "demo_sched_config = \<lparr>policy = FCFS, max_num_running_reqs = 4, max_num_scheduled_tokens = 64,
     sched_max_model_len = 100, long_prefill_token_threshold = 0, enable_chunked_prefill = True,
     disable_chunked_mm_input = False, max_loras = None, use_eagle = False, num_spec_tokens = 0,
     num_lookahead_tokens = 0, need_mamba_block_aligned_split = False, cache_block_size = 16,
     max_num_encoder_input_tokens = 64, use_pp = False, async_scheduling = False,
     use_v2_model_runner = False\<rparr>"

definition demo_scheduler :: scheduler where
  "demo_scheduler = \<lparr>requests = [''r''], objs = (\<lambda>_. demo_prompt), waiting = [''r''], running = [],
     finished_req_ids = {}, prev_step_scheduled_req_ids = {}, num_waiting_for_streaming_input = 0,
     kv = demo_unitary, encoder = EncoderCacheManager 64\<rparr>"

lemma demo_unitary_fine: "kv_ok True 16 100 demo_unitary" "fresh rid demo_unitary"
proof -
  have "(case groups_of demo_unitary of [m] \<Rightarrow> num_cached_block m = [] \<and> req_to_blocks m = [] \<and>
      unitary_full demo_unitary m (hd demo_groups) \<and> positive_window (mgr_spec m) | _ \<Rightarrow> False)" by code_simp
  then obtain m where m: "groups_of demo_unitary = [m]" "num_cached_block m = []" "req_to_blocks m = []"
    "unitary_full demo_unitary m (hd demo_groups)" "positive_window (mgr_spec m)" by (auto split: list.splits)
  have conf: "kcm_caching demo_unitary" "hash_block_size (pool_of demo_unitary) = 16"
    "kcm_max_model_len demo_unitary = 100" "\<not> kcm_log_stats demo_unitary" by code_simp+
  obtain free where "kcm_inv demo_unitary free" using kv_reachable_inv [OF demo_reachable(2)] by blast
  with m conf show "kv_ok True 16 100 demo_unitary" by (auto simp: kv_ok_def kv_conf_def)
  from m show "fresh rid demo_unitary" by (simp add: fresh_def blocks_of_def)
qed

theorem schedule_never_fails_witness:
  "\<exists>out s'. schedule demo_sched_config (\<lambda>_. False) (\<lambda>_. False) demo_scheduler = Some (Inr (out, s')) \<and>
    sched_inv (model_contract True 16 100 {''r''}) (\<lambda>_. 0) demo_sched_config s' \<and> requests s' = [''r''] \<and>
    mset (running s') + mset (waiting s') = {#''r''#} \<and> tokens_given demo_sched_config demo_scheduler out s'"
proof -
  have "waiting_ok (model_contract True 16 100 {''r''}) (\<lambda>_. 0) demo_scheduler ''r''"
    using demo_unitary_fine(2)
    by (simp add: waiting_ok_def request_ok_def demo_scheduler_def demo_prompt_def demo_request_def num_tokens_def py_len_def
        hashed_def sized_def Let_def)
  moreover have "ecm_inv (\<lambda>_. 0 :: int) (EncoderCacheManager 64)" by (rule conjunct1 [OF ecm_reachable_inv [OF ecm_reachable.start]]) auto
  ultimately have "core_inv (model_contract True 16 100 {''r''}) (\<lambda>_. 0) [''r''] demo_scheduler"
    using demo_unitary_fine by (simp add: core_inv_def demo_scheduler_def)
  then have "sched_inv (model_contract True 16 100 {''r''}) (\<lambda>_. 0) demo_sched_config demo_scheduler"
    by (simp add: sched_inv_def demo_scheduler_def demo_sched_config_def py_len_def queue_ok_def q_invar_def)
  moreover have "plain_sched (model_contract True 16 100 {''r''}) demo_sched_config"
    by (simp add: plain_sched_def demo_sched_config_def)
  ultimately show ?thesis
    using schedule_never_fails [of True 16 100 "{''r''}" "\<lambda>_. 0" demo_sched_config demo_scheduler "\<lambda>_. False" "\<lambda>_. False"]
    by (simp add: demo_scheduler_def)
qed

end
