(* ===== verification/Session_Facts.thy ===== *)
theory Session_Facts
  imports Scheduler_Safety Scheduler_Update Hash_Facts
begin

text \<open>
  The next input of a streaming session (\<open>_update_request_as_session\<close> of
  \<^verbatim>\<open>vllm/v1/core/sched/scheduler.py\<close>): the last sampled token is discarded, but not the hash of a
  block that it completed; and the token limit of the input is not taken over.
\<close>

section \<open>What the update does\<close>

lemma session_update:
  assumes "update_request_as_session (Some (request_block_hasher H nh bs)) rid u s = Some (Inr s')"
  shows "\<exists>tail. block_hashes (objs s' rid) = block_hashes (objs s rid) @ tail" and "prompt_embeds (objs s' rid) = None"
    and "all_token_ids (objs s' rid) = py_upto (all_token_ids (objs s rid)) (num_computed_tokens (objs s rid)) @
      (case upd_prompt_token_ids u of None \<Rightarrow> [] | Some ts \<Rightarrow> ts)"
    and "req_max_tokens (objs s' rid) = req_max_tokens (objs s rid)" and "sampling_params_of (objs s' rid) = upd_sampling_params u"
    and "output_token_ids (objs s' rid) = []" and "req_status (objs s' rid) = WAITING"
  using assms
  by (auto simp: update_request_as_session_def update_block_hashes_def Let_def res_simps set_obj_def split: option.splits)

text \<open>The new parameters are taken over, but not the limit of new tokens that came with them.\<close>

lemma session_update_keeps_limit:
  assumes "update_request_as_session (Some (request_block_hasher H nh bs)) rid u s = Some (Inr s')"
    and "upd_max_tokens u \<noteq> req_max_tokens (objs s rid)"
  shows "sampling_params_of (objs s' rid) = upd_sampling_params u \<and> req_max_tokens (objs s' rid) \<noteq> upd_max_tokens u"
  using session_update(4,5) [OF assms(1)] assms(2) by simp

section \<open>A stale block hash\<close>

text \<open>C28.
  The update of a streaming session can leave a block hash that is not the one of its tokens.  When the
  last sampled token, which was not computed, ended a block, the hash of this block was already
  computed; the update replaces the token by the first one of the new input, but the session keeps the
  hash of the block with the old token, although no other text has this hash.  When the block is
  computed and cached, it stands in the prefix cache for the old text.
\<close>

theorem session_update_keeps_stale_hash:
  assumes "update_request_as_session (Some (request_block_hasher H nh bs)) rid u s = Some (Inr s')"
    and "0 < bs" and "mm_features (objs s rid) = []" and "upd_mm_features u = None"
    and "hashes_ok H nh bs (objs s rid) (full_blocks bs (objs s rid))"
    and "0 < num_tokens (objs s rid)" and "bs dvd num_tokens (objs s rid)"
    and "num_computed_tokens (objs s rid) = num_tokens (objs s rid) - 1"
    and "upd_prompt_token_ids u = Some (tok # toks)" and "tok \<noteq> last (all_token_ids (objs s rid))"
    and "collision_free H nh (hash_inputs H nh bs (objs s rid) \<union> hash_inputs H nh bs (objs s' rid))"
  shows "let k = full_blocks bs (objs s rid) - 1 in
    block_hashes (objs s' rid) ! k = chain_hash H nh bs (objs s rid) k \<and> k < full_blocks bs (objs s' rid) \<and>
    chain_hash H nh bs (objs s' rid) k \<noteq> chain_hash H nh bs (objs s rid) k \<and>
    \<not> hashes_ok H nh bs (objs s' rid) (full_blocks bs (objs s' rid))"
proof -
  let ?r = "objs s rid" and ?r' = "objs s' rid"
  define n where "n = length (all_token_ids ?r)"
  note u = session_update [OF assms(1)]
  obtain tail where tail: "block_hashes ?r' = block_hashes ?r @ tail" using u(1) by blast
  have n: "0 < n" "num_tokens ?r = int n" using assms(6) by (simp_all add: n_def num_tokens_def py_len_def)
  have new: "all_token_ids ?r' = take (n - 1) (all_token_ids ?r) @ tok # toks"
  proof -
    have "num_computed_tokens ?r = int n - 1" using assms(8) n(2) by simp
    moreover have "nat (py_clip (py_len (all_token_ids ?r)) (int n - 1)) = n - 1"
      using n(1) by (auto simp: py_clip_def py_len_def n_def)
    ultimately show ?thesis using u(3) assms(9) by (simp add: py_upto_def)
  qed
  obtain k where k: "full_blocks bs ?r = Suc k" "int (Suc k) * bs = int n"
  proof -
    obtain c where c: "int n = bs * c" using assms(7) n(2) by (auto simp: dvd_def)
    then have "0 < c" using n(1) assms(2) zero_less_mult_pos by (metis of_nat_0_less_iff)
    moreover have "full_blocks bs ?r = nat c" using c assms(2) by (simp add: full_blocks_def n(2))
    ultimately show thesis using that [of "nat c - 1"] c by (simp add: mult.commute)
  qed
  have len: "Suc k * nat bs = n" using k(2) assms(2) by (metis nat_int nat_mult_distrib of_nat_0_le_iff)
  have "int n \<le> num_tokens ?r'" using n(1) by (simp add: new num_tokens_def py_len_def n_def)
  then have "int (Suc k) \<le> num_tokens ?r' div bs" using k(2) assms(2) by (metis zdiv_mono1 nonzero_mult_div_cancel_right less_irrefl)
  then have full: "k < full_blocks bs ?r'" by (simp add: full_blocks_def)
  have differ: "chain_hash H nh bs ?r' k \<noteq> chain_hash H nh bs ?r k"
  proof
    assume eq: "chain_hash H nh bs ?r' k = chain_hash H nh bs ?r k"
    have "\<forall>j \<le> k. block_tokens bs ?r' j = block_tokens bs ?r j"
      using chain_hash_inj [OF assms(11) _ _ full _ eq] k(1) by auto
    from blocks_prefix [OF assms(2) this] have "take n (all_token_ids ?r') = take n (all_token_ids ?r)" by (simp only: len)
    then have "take n (all_token_ids ?r') ! (n - 1) = all_token_ids ?r ! (n - 1)" by (simp add: n_def)
    moreover have "take n (all_token_ids ?r') ! (n - 1) = tok" using n(1) by (simp add: new nth_append n_def)
    moreover have "all_token_ids ?r ! (n - 1) = last (all_token_ids ?r)" using n(1) by (simp add: n_def last_conv_nth)
    ultimately show False using assms(10) by simp
  qed
  have old: "block_hashes ?r' ! k = chain_hash H nh bs ?r k" using assms(5) k(1) by (simp add: tail hashes_ok_def nth_append del: upt_Suc)
  have "\<not> hashes_ok H nh bs ?r' (full_blocks bs ?r')" using old differ full by (auto simp: hashes_ok_def)
  with old differ full k(1) show ?thesis by simp
qed

text \<open>The session has the prompt 1, 2, 3 and sampled 4, with blocks of two tokens; the next input is 9.\<close>

definition demo_session :: request where
  "demo_session = (demo_request [1, 2, 3, 4])\<lparr>num_prompt_tokens := 3, output_token_ids := [4], num_computed_tokens := 3,
     resumable := True, streaming_queue := Some [], req_status := WAITING_FOR_STREAMING_REQ,
     block_hashes := [[1, 0, 1, 2], [1, 1, 0, 1, 2, 3, 4]]\<rparr>"

definition demo_update :: streaming_update where
  "demo_update = \<lparr>upd_mm_features = None, upd_prompt_token_ids = Some [9], upd_max_tokens = 16, upd_arrival_time = 1,
     upd_sampling_params = None\<rparr>"

theorem session_update_keeps_stale_hash_witness:
  "\<exists>s'. update_request_as_session (Some (request_block_hasher demo_hash [0] 2)) ''r'' demo_update
      (demo_scheduler\<lparr>objs := (\<lambda>_. demo_session)\<rparr>) = Some (Inr s') \<and> all_token_ids (objs s' ''r'') = [1, 2, 3, 9] \<and>
    block_hashes (objs s' ''r'') ! 1 = [1, 1, 0, 1, 2, 3, 4] \<and>
    chain_hash demo_hash [0] 2 (objs s' ''r'') 1 \<noteq> [1, 1, 0, 1, 2, 3, 4] \<and>
    \<not> hashes_ok demo_hash [0] 2 (objs s' ''r'') 2"
proof -
  let ?s = "demo_scheduler\<lparr>objs := (\<lambda>_. demo_session)\<rparr>"
  let ?call = "update_request_as_session (Some (request_block_hasher demo_hash [0] 2)) ''r'' demo_update ?s"
  have "case ?call of Some (Inr s') \<Rightarrow> all_token_ids (objs s' ''r'') = [1, 2, 3, 9] \<and> full_blocks 2 (objs s' ''r'') = 2 \<and>
      hash_input demo_hash [0] 2 (objs s' ''r'') 0 = ([0], [1, 2], None) \<and>
      hash_input demo_hash [0] 2 (objs s' ''r'') 1 = ([1, 0, 1, 2], [3, 9], None) | _ \<Rightarrow> False"
    by code_simp
  then obtain s' where s': "?call = Some (Inr s')" "all_token_ids (objs s' ''r'') = [1, 2, 3, 9]" "full_blocks 2 (objs s' ''r'') = 2"
    "hash_input demo_hash [0] 2 (objs s' ''r'') 0 = ([0], [1, 2], None)"
    "hash_input demo_hash [0] 2 (objs s' ''r'') 1 = ([1, 0, 1, 2], [3, 9], None)"
    by (auto split: option.splits sum.splits)
  have r: "objs ?s ''r'' = demo_session" by simp
  have old: "full_blocks 2 demo_session = 2" "hash_input demo_hash [0] 2 demo_session 0 = ([0], [1, 2], None)"
    "hash_input demo_hash [0] 2 demo_session 1 = ([1, 0, 1, 2], [3, 4], None)"
    "hashes_ok demo_hash [0] 2 demo_session 2" "chain_hash demo_hash [0] 2 demo_session 1 = [1, 1, 0, 1, 2, 3, 4]" by code_simp+
  have two: "{..<2 :: nat} = {0, 1}" by auto
  have cf: "collision_free demo_hash [0] (hash_inputs demo_hash [0] 2 demo_session \<union> hash_inputs demo_hash [0] 2 (objs s' ''r''))"
    unfolding hash_inputs_def old(1) s'(3) two image_insert image_empty old(2,3) s'(4,5)
    by (simp add: collision_free_def demo_hash_def insert_Diff_if)
  from session_update_keeps_stale_hash [OF s'(1), unfolded r, OF _ _ _ _ _ _ _ _ _ cf, of 9 "[]"] s' old show ?thesis
    by (auto simp: Let_def demo_session_def demo_request_def demo_update_def num_tokens_def py_len_def)
qed

end
