(* ===== verification/Hash_Runs.thy ===== *)
theory Hash_Runs
  imports Hash_Facts
begin

text \<open>
  The runs of the block hasher for requests with any inputs: what a run from scratch computes, that
  hashing block by block gives the same where no multi-modal input reaches, that equal hashes mean equal
  prefixes, and where the shortcut for output tokens forgets an input.
\<close>

section \<open>Runs\<close>

text \<open>\<open>n\<close> blocks from block \<open>i\<close> on, with the index of the next multi-modal input.\<close>

fun hash_run ::
    "hash_function \<Rightarrow> bytes \<Rightarrow> int \<Rightarrow> request \<Rightarrow> nat \<Rightarrow> nat \<Rightarrow> int \<Rightarrow> block_hash option \<Rightarrow> (block_hash list \<times> int) res" where
  "hash_run H nh bs r 0 i m prev = Inr ([], m)"
| "hash_run H nh bs r (Suc n) i m prev =
     rbind (generate_block_hash_extra_keys r (int i * bs) (int i * bs + bs) m) (\<lambda>(ks, m').
       let h = hash_block_tokens H nh prev (block_tokens bs r i) ks in
       rbind (hash_run H nh bs r n (Suc i) m' (Some h)) (\<lambda>(hs, m2). Inr (h # hs, m2)))"

definition last_or :: "block_hash option \<Rightarrow> block_hash list \<Rightarrow> block_hash option" where
  "last_or prev hs = (if hs = [] then prev else Some (last hs))"

lemma hash_loop_run:
  assumes bs: "0 < bs"
  shows "full_blocks bs r - i < fuel \<Longrightarrow> hash_loop fuel H nh bs r (int i * bs) m prev acc =
    Some (rbind (hash_run H nh bs r (full_blocks bs r - i) i m prev) (\<lambda>(hs, _). Inr (acc @ hs)))"
proof (induction fuel arbitrary: i m prev acc)
  case (Suc fuel)
  show ?case
  proof (cases "full_blocks bs r \<le> i")
    case True
    then show ?thesis using full_iff [OF bs, of r i] by (simp add: Let_def)
  next
    case False
    then obtain n where n: "full_blocks bs r - i = Suc n" "full_blocks bs r - Suc i = n" by (metis Suc_diff_Suc not_le)
    have nf: "\<not> num_tokens r < int i * bs + bs" using False full_iff [OF bs, of r i] by simp
    have next_start: "int i * bs + bs = int (Suc i) * bs" by (simp add: algebra_simps)
    have IH: "hash_loop fuel H nh bs r (int (Suc i) * bs) m' prev' acc' =
        Some (rbind (hash_run H nh bs r n (Suc i) m' prev') (\<lambda>(hs, _). Inr (acc' @ hs)))" for m' prev' acc'
      using Suc.IH [of "Suc i"] Suc.prems n by simp
    show ?thesis
      using nf unfolding n(1)
      by (cases "generate_block_hash_extra_keys r (int i * bs) (int i * bs + bs) m")
        (auto simp: Let_def block_tokens_def IH [unfolded next_start [symmetric]] rbind_def split: sum.splits)
  qed
qed simp

lemma hasher_run:
  assumes bs: "0 < bs"
  shows "request_block_hasher H nh bs r = Some (rbind (hash_run H nh bs r (full_blocks bs r - length (block_hashes r))
    (length (block_hashes r)) (if block_hashes r = [] then 0 else - 1) (last_or None (block_hashes r))) (\<lambda>(hs, _). Inr hs))"
proof -
  let ?k = "length (block_hashes r)"
  have pos: "0 < int ?k * bs \<longleftrightarrow> block_hashes r \<noteq> []" using bs by (auto simp: zero_less_mult_iff)
  show ?thesis
  proof (cases "full_blocks bs r \<le> ?k")
    case True
    then show ?thesis using full_iff [OF bs, of r ?k] by (simp add: request_block_hasher_def py_len_def Let_def)
  next
    case False
    then have "\<not> num_tokens r < int ?k * bs + bs" using full_iff [OF bs, of r ?k] by simp
    moreover have "full_blocks bs r - ?k < Suc (length (all_token_ids r))" using full_blocks_le [OF bs, of r] by simp
    moreover from hash_loop_run [OF bs this] have "hash_loop (Suc (length (all_token_ids r))) H nh bs r (int ?k * bs) m prev [] =
        Some (rbind (hash_run H nh bs r (full_blocks bs r - ?k) ?k m prev) (\<lambda>(hs, _). Inr hs))" for m prev by simp
    ultimately show ?thesis
      using pos by (simp add: request_block_hasher_def py_len_def Let_def last_or_def del: hash_loop.simps)
  qed
qed

lemma hash_run_append:
  "hash_run H nh bs r (a + b) i m prev =
    rbind (hash_run H nh bs r a i m prev) (\<lambda>(hs, m1).
    rbind (hash_run H nh bs r b (i + a) m1 (last_or prev hs)) (\<lambda>(hs2, m2). Inr (hs @ hs2, m2)))"
proof (induction a arbitrary: i m prev)
  case 0
  show ?case by (cases "hash_run H nh bs r b i m prev") (auto simp: last_or_def)
next
  case (Suc a)
  have last: "last_or (Some h) hs = last_or prev (h # hs)" for h hs by (simp add: last_or_def)
  show ?case
    by (cases "generate_block_hash_extra_keys r (int i * bs) (int i * bs + bs) m")
      (auto simp: Suc.IH Let_def last rbind_def split: sum.splits)
qed

lemma hash_run_cong:
  assumes "\<And>j m. i \<le> j \<Longrightarrow> j < i + n \<Longrightarrow> generate_block_hash_extra_keys r' (int j * bs) (int j * bs + bs) m =
      generate_block_hash_extra_keys r (int j * bs) (int j * bs + bs) m"
    and "\<And>j. i \<le> j \<Longrightarrow> j < i + n \<Longrightarrow> block_tokens bs r' j = block_tokens bs r j"
  shows "hash_run H nh bs r' n i m prev = hash_run H nh bs r n i m prev"
  using assms
proof (induction n arbitrary: i m prev)
  case (Suc n)
  have "hash_run H nh bs r' n (Suc i) m' prev' = hash_run H nh bs r n (Suc i) m' prev'" for m' prev'
    by (rule Suc.IH) (use Suc.prems in auto)
  then show ?case using Suc.prems [of i] by simp
qed simp

lemma keys_cong:
  assumes "mm_features r' = mm_features r" "lora_request_of r' = lora_request_of r" "cache_salt r' = cache_salt r"
    "prompt_embeds r' = prompt_embeds r"
  shows "generate_block_hash_extra_keys r' = generate_block_hash_extra_keys r"
  by (simp add: fun_eq_iff generate_block_hash_extra_keys_def gen_mm_extra_hash_keys_def gen_lora_extra_hash_keys_def
      cache_salt_keys_def gen_prompt_embeds_extra_hash_keys_def assms)

lemma hash_run_length: "hash_run H nh bs r n i m prev = Inr (hs, m') \<Longrightarrow> length hs = n"
  by (induction n arbitrary: i m prev hs) (auto simp: res_simps Let_def)

section \<open>Output tokens after the inputs\<close>

text \<open>No multi-modal input reaches block \<open>i\<close>, not even its start.\<close>

definition late :: "int \<Rightarrow> request \<Rightarrow> nat \<Rightarrow> bool" where
  "late bs r i \<longleftrightarrow> mm_features r = [] \<or> mm_offset (last (mm_features r)) + mm_length (last (mm_features r)) < int i * bs"

lemma late_keys:
  assumes "late bs r i"
  shows "generate_block_hash_extra_keys r (int i * bs) (int i * bs + bs) m = Inr (text_keys bs r i, m)"
  using assms
  by (auto simp: late_def generate_block_hash_extra_keys_def gen_mm_extra_hash_keys_def text_keys_def Let_def)

lemma late_mono:
  assumes "0 \<le> bs" and "late bs r i" and "i \<le> j"
  shows "late bs r j"
proof -
  have "int i * bs \<le> int j * bs" using assms(1,3) by (simp add: mult_right_mono)
  then show ?thesis using assms(2) by (auto simp: late_def)
qed

lemma late_run:
  assumes "0 \<le> bs" and "late bs r i"
  shows "\<exists>hs. \<forall>m. hash_run H nh bs r n i m prev = Inr (hs, m)"
  using assms(2)
proof (induction n arbitrary: i prev)
  case (Suc n)
  have "late bs r (Suc i)" by (rule late_mono [OF assms(1) Suc.prems]) simp
  from Suc.IH [OF this, of "Some (hash_block_tokens H nh prev (block_tokens bs r i) (text_keys bs r i))"] show ?case
    by (auto simp: late_keys [OF Suc.prems] Let_def)
qed auto

lemma scratch_run:
  assumes "0 < bs" and "block_hashes r = []"
  shows "request_block_hasher H nh bs r =
    Some (rbind (hash_run H nh bs r (full_blocks bs r) 0 0 None) (\<lambda>(hs, _). Inr hs))"
  using hasher_run [OF assms(1), of H nh r] assms(2) by (simp add: last_or_def)

lemma clear_hashes:
  "generate_block_hash_extra_keys (r\<lparr>block_hashes := hs\<rparr>) = generate_block_hash_extra_keys r"
  "block_tokens bs (r\<lparr>block_hashes := hs\<rparr>) = block_tokens bs r" "full_blocks bs (r\<lparr>block_hashes := hs\<rparr>) = full_blocks bs r"
  "hash_run H nh bs (r\<lparr>block_hashes := hs\<rparr>) n i m prev = hash_run H nh bs r n i m prev"
proof -
  show k: "generate_block_hash_extra_keys (r\<lparr>block_hashes := hs\<rparr>) = generate_block_hash_extra_keys r"
    by (rule keys_cong) simp_all
  show t: "block_tokens bs (r\<lparr>block_hashes := hs\<rparr>) = block_tokens bs r" by (simp add: block_tokens_def fun_eq_iff)
  show "full_blocks bs (r\<lparr>block_hashes := hs\<rparr>) = full_blocks bs r" by (simp add: full_blocks_def num_tokens_def)
  show "hash_run H nh bs (r\<lparr>block_hashes := hs\<rparr>) n i m prev = hash_run H nh bs r n i m prev"
    by (rule hash_run_cong) (simp_all add: k t)
qed

lemma scratch_hashes:
  assumes "0 < bs"
  shows "request_block_hasher H nh bs (r\<lparr>block_hashes := []\<rparr>) = Some (Inr hs) \<longleftrightarrow>
    (\<exists>m. hash_run H nh bs r (full_blocks bs r) 0 0 None = Inr (hs, m))"
  using scratch_run [OF assms, of "r\<lparr>block_hashes := []\<rparr>" H nh] by (auto simp: clear_hashes res_simps)

text \<open>The request with more tokens, before its new blocks are hashed.\<close>

definition with_output :: "int list \<Rightarrow> request \<Rightarrow> request" where
  "with_output ts r = r\<lparr>output_token_ids := output_token_ids r @ ts, all_token_ids := all_token_ids r @ ts\<rparr>"

lemma with_output_same:
  assumes "0 < bs"
  shows "generate_block_hash_extra_keys (with_output ts r) = generate_block_hash_extra_keys r"
    and "full_blocks bs r \<le> full_blocks bs (with_output ts r)" and "block_hashes (with_output ts r) = block_hashes r"
    and "hash_run H nh bs (with_output ts r) (full_blocks bs r) 0 0 None = hash_run H nh bs r (full_blocks bs r) 0 0 None"
proof -
  show k: "generate_block_hash_extra_keys (with_output ts r) = generate_block_hash_extra_keys r"
    by (rule keys_cong) (simp_all add: with_output_def)
  have "num_tokens r \<le> num_tokens (with_output ts r)" by (simp add: with_output_def num_tokens_def py_len_def)
  then show "full_blocks bs r \<le> full_blocks bs (with_output ts r)" using assms by (simp add: full_blocks_def zdiv_mono1 nat_mono)
  show "block_hashes (with_output ts r) = block_hashes r" by (simp add: with_output_def)
  show "hash_run H nh bs (with_output ts r) (full_blocks bs r) 0 0 None = hash_run H nh bs r (full_blocks bs r) 0 0 None"
  proof (rule hash_run_cong)
    fix j assume "j < 0 + full_blocks bs r"
    then have "int j * bs + bs \<le> num_tokens r" using full_iff [OF assms, of r j] by simp
    then show "block_tokens bs (with_output ts r) j = block_tokens bs r j"
      using assms by (intro block_tokens_prefix) (simp_all add: with_output_def)
  qed (simp add: k)
qed

lemma append_runs:
  "append_output_token_ids (Some h) ts r = map_option (\<lambda>res. rbind res
     (\<lambda>new. Inr ((with_output ts r)\<lparr>block_hashes := block_hashes r @ new\<rparr>))) (h (with_output ts r))"
  by (simp add: append_output_token_ids_def update_block_hashes_def with_output_def)

lemma incremental_run:
  assumes bs: "0 < bs" and late: "late bs r (full_blocks bs r)"
    and scratch: "request_block_hasher H nh bs (r\<lparr>block_hashes := []\<rparr>) = Some (Inr (block_hashes r))"
  shows "\<exists>r'. append_output_token_ids (Some (request_block_hasher H nh bs)) ts r = Some (Inr r') \<and>
    all_token_ids r' = all_token_ids r @ ts \<and>
    request_block_hasher H nh bs (r'\<lparr>block_hashes := []\<rparr>) = Some (Inr (block_hashes r')) \<and>
    py_len (block_hashes r') = num_tokens r' div bs"
proof -
  let ?k = "full_blocks bs r" and ?r = "with_output ts r"
  let ?n = "full_blocks bs ?r - ?k"
  note same = with_output_same [OF bs, where ts = ts and r = r]
  obtain m1 where m1: "hash_run H nh bs r ?k 0 0 None = Inr (block_hashes r, m1)" using scratch scratch_hashes [OF bs] by blast
  then have len: "length (block_hashes r) = ?k" by (rule hash_run_length)
  have "late bs ?r ?k" using late by (simp add: late_def with_output_def)
  then obtain new where new: "\<And>m. hash_run H nh bs ?r ?n ?k m (last_or None (block_hashes r)) = Inr (new, m)"
    using late_run [of bs ?r ?k] bs by (metis less_imp_le)
  define r' where "r' = ?r\<lparr>block_hashes := block_hashes r @ new\<rparr>"
  have "request_block_hasher H nh bs ?r = Some (Inr new)" using hasher_run [OF bs, of H nh ?r] same(3) len new by simp
  then have run: "append_output_token_ids (Some (request_block_hasher H nh bs)) ts r = Some (Inr r')"
    by (simp add: append_runs r'_def)
  have "hash_run H nh bs ?r (?k + ?n) 0 0 None = Inr (block_hashes r @ new, m1)"
    using m1 new by (simp add: hash_run_append same(4))
  then have s': "hash_run H nh bs ?r (full_blocks bs ?r) 0 0 None = Inr (block_hashes r @ new, m1)" using same(2) by simp
  then have "request_block_hasher H nh bs (r'\<lparr>block_hashes := []\<rparr>) = Some (Inr (block_hashes r'))"
    using scratch_hashes [OF bs, of H nh r'] by (simp add: r'_def clear_hashes)
  moreover have "length (block_hashes r') = full_blocks bs ?r" using hash_run_length [OF s'] by (simp add: r'_def)
  then have "py_len (block_hashes r') = num_tokens r' div bs"
    using bs by (simp add: py_len_def full_blocks_def r'_def num_tokens_def pos_imp_zdiv_nonneg_iff)
  ultimately show ?thesis using run by (auto simp: r'_def with_output_def)
qed

section \<open>Equal hashes\<close>

text \<open>The extra keys that a run from scratch gives to a block.\<close>

primrec scratch_index :: "int \<Rightarrow> request \<Rightarrow> nat \<Rightarrow> int res" where
  "scratch_index bs r 0 = Inr 0"
| "scratch_index bs r (Suc i) = rbind (scratch_index bs r i) (\<lambda>m.
     rbind (generate_block_hash_extra_keys r (int i * bs) (int i * bs + bs) m) (\<lambda>(_, m'). Inr m'))"

definition scratch_keys :: "int \<Rightarrow> request \<Rightarrow> nat \<Rightarrow> extra_key list option res" where
  "scratch_keys bs r i = rbind (scratch_index bs r i) (\<lambda>m.
     rbind (generate_block_hash_extra_keys r (int i * bs) (int i * bs + bs) m) (\<lambda>(ks, _). Inr ks))"

lemma run_blocks:
  assumes "hash_run H nh bs r n 0 0 None = Inr (hs, m)"
  shows "scratch_index bs r n = Inr m \<and> (\<forall>j < n. \<exists>ks. scratch_keys bs r j = Inr ks \<and>
    hs ! j = hash_block_tokens H nh (if j = 0 then None else Some (hs ! (j - 1))) (block_tokens bs r j) ks)"
  using assms
proof (induction n arbitrary: hs m)
  case (Suc n)
  have "rbind (hash_run H nh bs r n 0 0 None) (\<lambda>(hs, m1).
      rbind (hash_run H nh bs r 1 (0 + n) m1 (last_or None hs)) (\<lambda>(hs2, m2). Inr (hs @ hs2, m2))) = Inr (hs, m)"
    using Suc.prems unfolding Suc_eq_plus1 hash_run_append .
  then obtain hs1 m1 hs2 where 1: "hash_run H nh bs r n 0 0 None = Inr (hs1, m1)"
    "hash_run H nh bs r 1 n m1 (last_or None hs1) = Inr (hs2, m)" "hs = hs1 @ hs2"
    by (auto simp: res_simps simp del: hash_run.simps One_nat_def)
  note IH = Suc.IH [OF 1(1)]
  have len: "length hs1 = n" by (rule hash_run_length [OF 1(1)])
  obtain ks where ks: "generate_block_hash_extra_keys r (int n * bs) (int n * bs + bs) m1 = Inr (ks, m)"
    "hs2 = [hash_block_tokens H nh (last_or None hs1) (block_tokens bs r n) ks]"
    using 1(2) by (auto simp: res_simps Let_def)
  have idx: "scratch_index bs r (Suc n) = Inr m" "scratch_keys bs r n = Inr ks" using IH ks(1) by (simp_all add: scratch_keys_def)
  have l: "last_or None hs1 = (if n = 0 then None else Some (hs ! (n - 1)))"
    using len 1(3) by (cases hs1 rule: rev_cases) (auto simp: last_or_def nth_append)
  have new: "hs ! n = hash_block_tokens H nh (if n = 0 then None else Some (hs ! (n - 1))) (block_tokens bs r n) ks"
  proof -
    have "hs ! n = hs2 ! 0" using 1(3) len by (simp only: nth_append less_irrefl if_False diff_self_eq_0)
    then show ?thesis unfolding ks(2) l by simp
  qed
  have old: "hs ! j = hs1 ! j" if "j < n" for j using that 1(3) len by (simp add: nth_append)
  have "\<exists>ks. scratch_keys bs r j = Inr ks \<and>
      hs ! j = hash_block_tokens H nh (if j = 0 then None else Some (hs ! (j - 1))) (block_tokens bs r j) ks" if "j < Suc n" for j
  proof (cases "j = n")
    case False
    then have "j < n" "j - 1 < n" using that by simp_all
    then show ?thesis using IH old [of j] old [of "j - 1"] by auto
  qed (use idx(2) new in auto)
  then show ?case using idx(1) by blast
qed simp

text \<open>The inputs of the hash function in a run from scratch with the hashes \<open>hs\<close>.\<close>

definition run_input :: "bytes \<Rightarrow> int \<Rightarrow> request \<Rightarrow> block_hash list \<Rightarrow> nat \<Rightarrow> bytes \<times> int list \<times> extra_key list option" where
  "run_input nh bs r hs j = (if j = 0 then nh else hs ! (j - 1), block_tokens bs r j,
     case scratch_keys bs r j of Inr ks \<Rightarrow> ks | Inl _ \<Rightarrow> None)"

definition run_inputs :: "bytes \<Rightarrow> int \<Rightarrow> request \<Rightarrow> block_hash list \<Rightarrow> (bytes \<times> int list \<times> extra_key list option) set" where
  "run_inputs nh bs r hs = run_input nh bs r hs ` {..<length hs}"

lemma run_hash:
  assumes run: "hash_run H nh bs r n 0 0 None = Inr (hs, m)" and cf: "collision_free H nh X"
    and X: "run_inputs nh bs r hs \<subseteq> X" and j: "j < n"
  shows "hs ! j = H (run_input nh bs r hs j) \<and> run_input nh bs r hs j \<in> X"
  using j
proof (induction j)
  case 0
  have "run_input nh bs r hs 0 \<in> X" using 0 X hash_run_length [OF run] by (auto simp: run_inputs_def)
  then show ?case using run_blocks [OF run] 0 by (fastforce simp: run_input_def hash_block_tokens_def)
next
  case (Suc j)
  have "hs ! j \<in> H ` X" using Suc by auto
  then have "hs ! j \<noteq> []" using cf by (auto simp: collision_free_def)
  moreover have "run_input nh bs r hs (Suc j) \<in> X" using Suc.prems X hash_run_length [OF run] by (auto simp: run_inputs_def)
  ultimately show ?case using run_blocks [OF run] Suc.prems by (fastforce simp: run_input_def hash_block_tokens_def)
qed

lemma equal_run_hash:
  assumes runs: "hash_run H nh bs r n 0 0 None = Inr (hs, m)" "hash_run H nh bs r' n' 0 0 None = Inr (hs', m')"
    and cf: "collision_free H nh (run_inputs nh bs r hs \<union> run_inputs nh bs r' hs')"
  shows "i < n \<Longrightarrow> i' < n' \<Longrightarrow> hs ! i = hs' ! i' \<Longrightarrow> i = i' \<and>
    (\<forall>j \<le> i. block_tokens bs r j = block_tokens bs r' j \<and> scratch_keys bs r j = scratch_keys bs r' j)"
proof (induction i arbitrary: i')
  let ?X = "run_inputs nh bs r hs \<union> run_inputs nh bs r' hs'"
  note a = run_hash [OF runs(1) cf Un_upper1] and b = run_hash [OF runs(2) cf Un_upper2]
  have not_none: "nh \<notin> H ` ?X" and inj: "inj_on H ?X" using cf by (simp_all add: collision_free_def)
  have keys: "block_tokens bs r i = block_tokens bs r' j \<and> scratch_keys bs r i = scratch_keys bs r' j"
    if "run_input nh bs r hs i = run_input nh bs r' hs' j" "i < n" "j < n'" for i j
    using that run_blocks [OF runs(1)] run_blocks [OF runs(2)] by (fastforce simp: run_input_def)
  { case 0
    have eq: "run_input nh bs r hs 0 = run_input nh bs r' hs' i'" using a b 0 inj by (metis inj_onD)
    have "i' = 0"
    proof (rule ccontr)
      assume "i' \<noteq> 0"
      then have "nh = hs' ! (i' - 1)" using eq by (simp add: run_input_def)
      moreover have "hs' ! (i' - 1) \<in> H ` ?X" using b [of "i' - 1"] 0(2) by auto
      ultimately show False using not_none by simp
    qed
    then show ?case using keys [of 0 0] eq 0 by auto
  next
    case (Suc i)
    have eq: "run_input nh bs r hs (Suc i) = run_input nh bs r' hs' i'" using a b Suc.prems inj by (metis inj_onD)
    have "hs ! i \<in> H ` ?X" using a [of i] Suc.prems by auto
    then have "i' \<noteq> 0" using eq not_none by (auto simp: run_input_def)
    then obtain k where k: "i' = Suc k" by (cases i') auto
    then have "hs ! i = hs' ! k" using eq by (simp add: run_input_def)
    then show ?case using Suc.IH [of k] Suc.prems keys [OF eq] k by (auto simp: le_Suc_eq)
  }
qed

section \<open>An input that is forgotten\<close>

text \<open>A request with two multi-modal inputs, of which the first begins in block \<open>k\<close>.\<close>

definition two_inputs :: "int \<Rightarrow> nat \<Rightarrow> mm_feature \<Rightarrow> mm_feature \<Rightarrow> bool" where
  "two_inputs bs k g l \<longleftrightarrow> mm_identifier g \<noteq> None \<and> mm_identifier l \<noteq> None \<and> 0 \<le> mm_length g \<and> 0 \<le> mm_length l \<and>
     int k * bs \<le> mm_offset g \<and> mm_offset g \<le> mm_offset l \<and> mm_offset g < int (Suc k) * bs"

lemma before_inputs:
  assumes bs: "0 < bs" and mm: "mm_features r = [g, l]" and in_k: "two_inputs bs k g l" and j: "j < k"
  shows "generate_block_hash_extra_keys r (int j * bs) (int j * bs + bs) 0 = Inr (text_keys bs r j, 0)"
proof -
  have "int j * bs + bs = int (Suc j) * bs" by (simp add: algebra_simps)
  also have "\<dots> \<le> int k * bs" using j bs by (intro mult_right_mono) auto
  finally have "int j * bs + bs \<le> mm_offset g" using in_k by (simp add: two_inputs_def)
  then show ?thesis
    using mm in_k
    by (auto simp: generate_block_hash_extra_keys_def gen_mm_extra_hash_keys_def text_keys_def Let_def two_inputs_def split: option.splits)
qed

lemma run_before_inputs:
  assumes bs: "0 < bs" and mm: "mm_features r = [g, l]" "mm_features r' = [g', l]" and in_k: "two_inputs bs k g l" "two_inputs bs k g' l"
    and same: "text_keys bs r' = text_keys bs r" "block_tokens bs r' = block_tokens bs r"
  shows "i + n \<le> k \<Longrightarrow> hash_run H nh bs r' n i 0 prev = hash_run H nh bs r n i 0 prev"
proof (induction n arbitrary: i prev)
  case (Suc n)
  then show ?case
    using before_inputs [OF bs mm(1) in_k(1), of i] before_inputs [OF bs mm(2) in_k(2), of i] by (simp add: same Let_def)
qed simp

lemma index_before_inputs:
  assumes "0 < bs" and "mm_features r = [g, l]" and "two_inputs bs k g l"
  shows "j \<le> k \<Longrightarrow> scratch_index bs r j = Inr 0"
  by (induction j) (simp_all add: before_inputs [OF assms])

text \<open>From the scan of block \<open>k\<close> on, the runs that start at the last input agree.\<close>

lemma same_last_scan:
  assumes "mm_features r = [g, l]" "mm_features r' = [g', l]" and "m = - 1 \<or> m = 1 \<or> m = 2"
    and "text_keys bs r' = text_keys bs r" "lora_request_of r' = lora_request_of r" "cache_salt r' = cache_salt r"
    "prompt_embeds r' = prompt_embeds r"
  shows "generate_block_hash_extra_keys r' s e m = generate_block_hash_extra_keys r s e m"
    and "generate_block_hash_extra_keys r s e m = Inr (ks, m') \<Longrightarrow> m' = - 1 \<or> m' = 1 \<or> m' = 2"
  using assms
  by (auto simp: generate_block_hash_extra_keys_def gen_mm_extra_hash_keys_def gen_lora_extra_hash_keys_def
      cache_salt_keys_def gen_prompt_embeds_extra_hash_keys_def Let_def res_simps py_len_def split: if_splits option.splits)

lemma run_same_last:
  assumes "mm_features r = [g, l]" "mm_features r' = [g', l]"
    and "text_keys bs r' = text_keys bs r" "lora_request_of r' = lora_request_of r" "cache_salt r' = cache_salt r"
    "prompt_embeds r' = prompt_embeds r" and tokens: "block_tokens bs r' = block_tokens bs r"
  shows "m = - 1 \<or> m = 1 \<or> m = 2 \<Longrightarrow> hash_run H nh bs r' n i m prev = hash_run H nh bs r n i m prev"
proof (induction n arbitrary: i m prev)
  case (Suc n)
  note scan = same_last_scan [OF assms(1,2) Suc.prems assms(3-6)]
  show ?case
    using Suc.IH scan by (cases "generate_block_hash_extra_keys r (int i * bs) (int i * bs + bs) m") (auto simp: scan(1) tokens Let_def)
qed simp

lemma last_input_scan:
  assumes "mm_features r = [g, l]" and "mm_identifier l \<noteq> None" and "m = - 1 \<or> m = 1 \<or> m = 2"
  shows "\<exists>ks m'. generate_block_hash_extra_keys r s e m = Inr (ks, m') \<and> (m' = - 1 \<or> m' = 1 \<or> m' = 2)"
  using assms
  by (auto simp: generate_block_hash_extra_keys_def gen_mm_extra_hash_keys_def Let_def py_len_def split: option.splits)

lemma last_input_run:
  assumes "mm_features r = [g, l]" and "mm_identifier l \<noteq> None"
  shows "m = - 1 \<or> m = 1 \<or> m = 2 \<Longrightarrow> \<exists>hs m'. hash_run H nh bs r n i m prev = Inr (hs, m')"
proof (induction n arbitrary: i m prev)
  case (Suc n)
  obtain ks m' where k: "generate_block_hash_extra_keys r (int i * bs) (int i * bs + bs) m = Inr (ks, m')" "m' = - 1 \<or> m' = 1 \<or> m' = 2"
    using last_input_scan [OF assms Suc.prems] by blast
  from Suc.IH [OF k(2), of "Suc i" "Some (hash_block_tokens H nh prev (block_tokens bs r i) ks)"] show ?case
    by (auto simp: k(1) Let_def)
qed simp

lemma first_input_key:
  assumes "0 < bs" and mm: "mm_features r = [g, l]" and in_k: "two_inputs bs k g l"
  shows "\<exists>xs. scratch_keys bs r k = Inr (Some (gen_lora_extra_hash_keys r @ KStr (the (mm_identifier g)) # xs))"
proof -
  have e: "mm_offset g < int k * bs + bs" using in_k by (simp add: two_inputs_def algebra_simps)
  have "\<exists>xs c. mm_scan s e [l] 1 [x] = Inr (x # xs, c)" for s e x
    using in_k by (auto simp: two_inputs_def)
  then show ?thesis
    using mm in_k e index_before_inputs [OF assms, of k]
    by (fastforce simp: scratch_keys_def generate_block_hash_extra_keys_def gen_mm_extra_hash_keys_def Let_def two_inputs_def split: option.splits)
qed

section \<open>Properties\<close>

text \<open>C21.
  Hashing block by block as output tokens arrive ends with exactly the hashes that one run over the whole
  token list gives, one per full block, when the inputs of the request are behind: the request has no
  multi-modal input, or the last one ends before the first block that is not hashed yet begins.
\<close>

theorem hashing_is_incremental:
  assumes "0 < bs" and "late bs r (full_blocks bs r)"
    and "request_block_hasher H nh bs (r\<lparr>block_hashes := []\<rparr>) = Some (Inr (block_hashes r))"
  shows "\<exists>r'. append_output_token_ids (Some (request_block_hasher H nh bs)) ts r = Some (Inr r') \<and>
    all_token_ids r' = all_token_ids r @ ts \<and>
    request_block_hasher H nh bs (r'\<lparr>block_hashes := []\<rparr>) = Some (Inr (block_hashes r')) \<and>
    py_len (block_hashes r') = num_tokens r' div bs"
  by (rule incremental_run [OF assms])

text \<open>A request with an image of one token at its start.\<close>

definition demo_image :: "string \<Rightarrow> int \<Rightarrow> mm_feature" where
  "demo_image ident offset = \<lparr>mm_identifier = Some ident, mm_offset = offset, mm_length = 1, is_embed = None\<rparr>"

definition demo_image_request :: "int list \<Rightarrow> mm_feature list \<Rightarrow> request" where
  "demo_image_request ts feats = (demo_request ts)\<lparr>mm_features := feats\<rparr>"

theorem hashing_is_incremental_witness:
  "\<exists>r'. append_output_token_ids (Some (request_block_hasher demo_hash [0] 2)) [4, 5]
      ((demo_image_request [1, 2, 3] [demo_image ''a'' 0])\<lparr>block_hashes := [[1, 0, 1, 2, 1]]\<rparr>) = Some (Inr r') \<and>
    all_token_ids r' = [1, 2, 3, 4, 5] \<and>
    request_block_hasher demo_hash [0] 2 (r'\<lparr>block_hashes := []\<rparr>) = Some (Inr (block_hashes r')) \<and>
    py_len (block_hashes r') = num_tokens r' div 2"
proof -
  let ?r = "(demo_image_request [1, 2, 3] [demo_image ''a'' 0])\<lparr>block_hashes := [[1, 0, 1, 2, 1]]\<rparr>"
  have "request_block_hasher demo_hash [0] 2 (?r\<lparr>block_hashes := []\<rparr>) = Some (Inr (block_hashes ?r))" by code_simp
  moreover have "late 2 ?r (full_blocks 2 ?r)"
    by (simp add: late_def full_blocks_def num_tokens_def demo_image_request_def demo_request_def demo_image_def py_len_def)
  ultimately show ?thesis
    using hashing_is_incremental [of 2 ?r demo_hash "[0]" "[4, 5]"] by (simp add: demo_image_request_def demo_request_def)
qed

text \<open>C15.
  Without hash collisions, two requests whose hashes come from runs over their whole token lists have an
  equal block hash only at the same block index, and then all tokens up to the end of that block are
  equal, and so are the lists of extra keys that the runs gave to every block up to it, which hold,
  without tags, the LoRA name, the identifiers of multi-modal inputs, the cache salt and the prompt embeddings.
\<close>

theorem equal_hash_equal_prefix:
  assumes "0 < bs" and "collision_free H nh (run_inputs nh bs r hs \<union> run_inputs nh bs r' hs')"
    and "request_block_hasher H nh bs (r\<lparr>block_hashes := []\<rparr>) = Some (Inr hs)"
    and "request_block_hasher H nh bs (r'\<lparr>block_hashes := []\<rparr>) = Some (Inr hs')"
    and "i < length hs" and "i' < length hs'" and "hs ! i = hs' ! i'"
  shows "i = i' \<and> take (Suc i * nat bs) (all_token_ids r) = take (Suc i * nat bs) (all_token_ids r') \<and>
    (\<forall>j \<le> i. \<exists>ks. scratch_keys bs r j = Inr ks \<and> scratch_keys bs r' j = Inr ks)"
proof -
  obtain m m' where runs: "hash_run H nh bs r (full_blocks bs r) 0 0 None = Inr (hs, m)"
    "hash_run H nh bs r' (full_blocks bs r') 0 0 None = Inr (hs', m')" using assms(3,4) scratch_hashes [OF assms(1)] by blast
  have n: "i < full_blocks bs r" "i' < full_blocks bs r'" using assms(5,6) hash_run_length [OF runs(1)] hash_run_length [OF runs(2)] by simp_all
  have eq: "i = i'" "\<forall>j \<le> i. block_tokens bs r j = block_tokens bs r' j \<and> scratch_keys bs r j = scratch_keys bs r' j"
    using equal_run_hash [OF runs assms(2) n assms(7)] by blast+
  moreover have "\<forall>j \<le> i. \<exists>ks. scratch_keys bs r j = Inr ks" using run_blocks [OF runs(1)] n(1) le_less_trans by blast
  ultimately show ?thesis using blocks_prefix [OF assms(1), of i r r'] by metis
qed

lemma demo_run_inputs:
  "run_inputs [0] 2 (demo_image_request (1 # 2 # 3 # 4 # [x]) [demo_image ''a'' 0]) [[1, 0, 1, 2, 1], [1, 1, 0, 1, 2, 1, 3, 4]] =
     {([0], [1, 2], Some [KStr ''a'']), ([1, 0, 1, 2, 1], [3, 4], None)}"
proof -
  have "scratch_keys 2 (demo_image_request [1, 2, 3, 4, x] [demo_image ''a'' 0]) 0 = Inr (Some [KStr ''a''])"
    "scratch_keys 2 (demo_image_request [1, 2, 3, 4, x] [demo_image ''a'' 0]) 1 = Inr None"
    by (simp_all add: scratch_keys_def demo_image_request_def demo_request_def demo_image_def generate_block_hash_extra_keys_def
        gen_mm_extra_hash_keys_def gen_lora_extra_hash_keys_def cache_salt_keys_def gen_prompt_embeds_extra_hash_keys_def Let_def)
  then show ?thesis
    by (simp add: run_inputs_def lessThan_Suc run_input_def block_tokens_def demo_image_request_def demo_request_def py_slice_nat insert_commute)
qed

theorem equal_hash_equal_prefix_witness:
  "take (Suc 1 * nat 2) (all_token_ids (demo_image_request [1, 2, 3, 4, 5] [demo_image ''a'' 0])) =
     take (Suc 1 * nat 2) (all_token_ids (demo_image_request [1, 2, 3, 4, 6] [demo_image ''a'' 0]))"
proof -
  let ?r = "\<lambda>x. demo_image_request [1, 2, 3, 4, x] [demo_image ''a'' 0]" and ?hs = "[[1, 0, 1, 2, 1], [1, 1, 0, 1, 2, 1, 3, 4]]"
  have "collision_free demo_hash [0] (run_inputs [0] 2 (?r 5) ?hs \<union> run_inputs [0] 2 (?r 6) ?hs)"
    unfolding demo_run_inputs by (simp add: collision_free_def demo_hash_def)
  moreover have "request_block_hasher demo_hash [0] 2 (?r 5\<lparr>block_hashes := []\<rparr>) = Some (Inr ?hs)"
    and "request_block_hasher demo_hash [0] 2 (?r 6\<lparr>block_hashes := []\<rparr>) = Some (Inr ?hs)" by code_simp+
  ultimately show ?thesis using equal_hash_equal_prefix [of 2 demo_hash "[0]" "?r 5" ?hs "?r 6" ?hs 1 1] by simp
qed

text \<open>C23.
  A block that output tokens complete is hashed without the multi-modal inputs before the last one, even
  those that lie in it: two requests that differ only in the identifier of such an input get the same
  hash for this block and all later ones, whatever the hash function, although the runs over their whole
  token lists give the block different extra keys.
\<close>

theorem output_block_forgets_input:
  assumes "0 < bs" and "k = full_blocks bs r" and "0 < k" and "mm_features r = [g, l]"
    and "r' = r\<lparr>mm_features := [g', l]\<rparr>" and "two_inputs bs k g l" and "two_inputs bs k g' l"
    and "mm_identifier g \<noteq> mm_identifier g'" and "int (Suc k) * bs \<le> num_tokens r + py_len ts"
    and "request_block_hasher H nh bs (r\<lparr>block_hashes := []\<rparr>) = Some (Inr (block_hashes r))"
  shows "request_block_hasher H nh bs (r'\<lparr>block_hashes := []\<rparr>) = Some (Inr (block_hashes r')) \<and>
    (\<exists>q q'. append_output_token_ids (Some (request_block_hasher H nh bs)) ts r = Some (Inr q) \<and>
       append_output_token_ids (Some (request_block_hasher H nh bs)) ts r' = Some (Inr q') \<and>
       block_hashes q' = block_hashes q \<and> k < length (block_hashes q) \<and> scratch_keys bs q' k \<noteq> scratch_keys bs q k)"
proof -
  let ?w = "with_output ts r" and ?w' = "with_output ts r'"
  let ?n = "full_blocks bs ?w - k"
  have mm: "mm_features r' = [g', l]" by (simp add: assms(5))
  have full: "full_blocks bs r' = k" "full_blocks bs ?w' = full_blocks bs ?w" "block_hashes r' = block_hashes r"
    by (simp_all add: assms(2,5) full_blocks_def num_tokens_def with_output_def)
  have same: "text_keys bs r' = text_keys bs r" "text_keys bs ?w' = text_keys bs ?w" "block_tokens bs r' = block_tokens bs r"
    "block_tokens bs ?w' = block_tokens bs ?w"
    by (simp_all add: fun_eq_iff assms(5) with_output_def text_keys_def block_tokens_def gen_lora_extra_hash_keys_def
        cache_salt_keys_def gen_prompt_embeds_extra_hash_keys_def)
  obtain m where m: "hash_run H nh bs r k 0 0 None = Inr (block_hashes r, m)" using assms(2,10) scratch_hashes [OF assms(1)] by blast
  have "hash_run H nh bs r' k 0 0 None = Inr (block_hashes r, m)"
    using run_before_inputs [OF assms(1,4) mm assms(6,7) same(1,3)] m by simp
  then have scratch: "request_block_hasher H nh bs (r'\<lparr>block_hashes := []\<rparr>) = Some (Inr (block_hashes r'))"
    using scratch_hashes [OF assms(1)] full by simp
  have len: "length (block_hashes r) = k" by (rule hash_run_length [OF m])
  then have ne: "block_hashes r \<noteq> []" using assms(3) by auto
  have wmm: "mm_features ?w = [g, l]" "mm_features ?w' = [g', l]" using assms(4) mm by (simp_all add: with_output_def)
  have "mm_identifier l \<noteq> None" using assms(6) by (simp add: two_inputs_def)
  from last_input_run [OF wmm(1) this, of "- 1"] obtain hs m2 where
    hs: "hash_run H nh bs ?w ?n k (- 1) (last_or None (block_hashes r)) = Inr (hs, m2)" by blast
  have hs': "hash_run H nh bs ?w' ?n k (- 1) (last_or None (block_hashes r)) = Inr (hs, m2)"
    using run_same_last [OF wmm same(2) _ _ _ same(4), of "- 1"] hs by (simp add: assms(5) with_output_def)
  have "block_hashes ?w = block_hashes r" "block_hashes ?w' = block_hashes r" by (simp_all add: with_output_def assms(5))
  then have runs: "request_block_hasher H nh bs ?w = Some (Inr hs)" "request_block_hasher H nh bs ?w' = Some (Inr hs)"
    using hasher_run [OF assms(1)] hs hs' len ne full(2) by simp_all
  define q where "q = ?w\<lparr>block_hashes := block_hashes r @ hs\<rparr>"
  define q' where "q' = ?w'\<lparr>block_hashes := block_hashes r' @ hs\<rparr>"
  have "append_output_token_ids (Some (request_block_hasher H nh bs)) ts r = Some (Inr q)"
    "append_output_token_ids (Some (request_block_hasher H nh bs)) ts r' = Some (Inr q')"
    by (simp_all add: append_runs runs q_def q'_def)
  moreover have "block_hashes q' = block_hashes q" by (simp add: q_def q'_def full)
  moreover have "\<not> full_blocks bs ?w \<le> k"
    using full_iff [OF assms(1), of ?w k] assms(9) by (simp add: num_tokens_def with_output_def py_len_def algebra_simps)
  then have "k < length (block_hashes q)" using hash_run_length [OF hs] len by (simp add: q_def)
  moreover have "scratch_keys bs q' k \<noteq> scratch_keys bs q k"
  proof -
    have qmm: "mm_features q = [g, l]" "mm_features q' = [g', l]" using wmm by (simp_all add: q_def q'_def)
    have "gen_lora_extra_hash_keys q' = gen_lora_extra_hash_keys q"
      by (simp add: gen_lora_extra_hash_keys_def q_def q'_def with_output_def assms(5))
    moreover have "the (mm_identifier g) \<noteq> the (mm_identifier g')" using assms(6-8) by (auto simp: two_inputs_def)
    ultimately show ?thesis
      using first_input_key [OF assms(1) qmm(1) assms(6)] first_input_key [OF assms(1) qmm(2) assms(7)] by auto
  qed
  ultimately show ?thesis using scratch by blast
qed

text \<open>Blocks of four tokens; two images in the second block, which one output token completes.\<close>

theorem output_block_forgets_input_witness:
  "\<exists>q q'. append_output_token_ids (Some (request_block_hasher demo_hash [0] 4)) [8]
      ((demo_image_request [1, 2, 3, 4, 5, 6, 7] [demo_image ''cat'' 4, demo_image ''end'' 5])\<lparr>block_hashes := [[1, 0, 1, 2, 3, 4]]\<rparr>)
      = Some (Inr q) \<and>
    append_output_token_ids (Some (request_block_hasher demo_hash [0] 4)) [8]
      ((demo_image_request [1, 2, 3, 4, 5, 6, 7] [demo_image ''dog'' 4, demo_image ''end'' 5])\<lparr>block_hashes := [[1, 0, 1, 2, 3, 4]]\<rparr>)
      = Some (Inr q') \<and>
    block_hashes q' = block_hashes q \<and> 1 < length (block_hashes q)"
proof -
  let ?r = "\<lambda>x. (demo_image_request [1, 2, 3, 4, 5, 6, 7] [demo_image x 4, demo_image ''end'' 5])\<lparr>block_hashes := [[1, 0, 1, 2, 3, 4]]\<rparr>"
  have h: "request_block_hasher demo_hash [0] 4 (?r ''cat''\<lparr>block_hashes := []\<rparr>) = Some (Inr (block_hashes (?r ''cat'')))" by code_simp
  have k: "1 = full_blocks 4 (?r ''cat'')"
    by (simp add: full_blocks_def num_tokens_def demo_image_request_def demo_request_def py_len_def)
  have mm: "mm_features (?r ''cat'') = [demo_image ''cat'' 4, demo_image ''end'' 5]"
    "?r ''dog'' = (?r ''cat'')\<lparr>mm_features := [demo_image ''dog'' 4, demo_image ''end'' 5]\<rparr>"
    by (simp_all add: demo_image_request_def demo_request_def)
  have two: "two_inputs 4 1 (demo_image x 4) (demo_image ''end'' 5)" for x by (simp add: two_inputs_def demo_image_def)
  have "mm_identifier (demo_image ''cat'' 4) \<noteq> mm_identifier (demo_image ''dog'' 4)" by (simp add: demo_image_def)
  moreover have "int (Suc 1) * 4 \<le> num_tokens (?r ''cat'') + py_len [8 :: int]"
    by (simp add: num_tokens_def demo_image_request_def demo_request_def py_len_def)
  ultimately show ?thesis
    using output_block_forgets_input [OF _ k _ mm two two _ _ h, of "[8]"] by auto
qed

end
