(* ===== verification/Scheduler_Frame.thy ===== *)
theory Scheduler_Frame
  imports Scheduler_Safety
begin

text \<open>
  What a step of the scheduler leaves alone: of a request it changes the status and the counters
  only; and how far a scheduled request gets: not beyond its tokens and the draft tokens that are
  scheduled with it.
\<close>

section \<open>The fixed part of a request\<close>

definition fixed_part :: "request \<Rightarrow> request" where
  "fixed_part r = r\<lparr>req_status := WAITING, num_computed_tokens := 0, spec_token_ids := [], num_preemptions := 0,
     num_cached_tokens := 0, is_prefill_chunk := False\<rparr>"

definition same_fixed :: "scheduler \<Rightarrow> scheduler \<Rightarrow> bool" where
  "same_fixed s s' \<longleftrightarrow> (\<forall>x. fixed_part (objs s' x) = fixed_part (objs s x))"

lemma same_fixed_refl [simp]: "same_fixed s s"
  by (simp add: same_fixed_def)

lemma same_fixed_trans: "same_fixed s s1 \<Longrightarrow> same_fixed s1 s2 \<Longrightarrow> same_fixed s s2"
  by (simp add: same_fixed_def)

lemma same_fixed_objs: "objs s' = objs s \<Longrightarrow> same_fixed s s'"
  by (simp add: same_fixed_def)

lemma same_fixed_set: "(\<And>r. fixed_part (f r) = fixed_part r) \<Longrightarrow> objs s1 = objs s \<Longrightarrow> same_fixed s (set_obj rid f s1)"
  by (simp add: same_fixed_def set_obj_def)

lemma fixed_fields:
  assumes "fixed_part r' = fixed_part r"
  shows "request_id r' = request_id r" "all_token_ids r' = all_token_ids r" "output_token_ids r' = output_token_ids r"
    "block_hashes r' = block_hashes r" "mm_features r' = mm_features r" "prompt_embeds r' = prompt_embeds r"
    "num_output_placeholders r' = num_output_placeholders r" "resumable r' = resumable r" "is_pooling r' = is_pooling r"
    "sampling_params_of r' = sampling_params_of r" "num_tokens r' = num_tokens r" "lora_request_of r' = lora_request_of r"
    "cache_salt r' = cache_salt r" "num_prompt_tokens r' = num_prompt_tokens r"
    "discard_latest_async_tokens r' = discard_latest_async_tokens r"
  using arg_cong [OF assms, of request_id] arg_cong [OF assms, of all_token_ids] arg_cong [OF assms, of output_token_ids]
    arg_cong [OF assms, of block_hashes] arg_cong [OF assms, of mm_features] arg_cong [OF assms, of prompt_embeds]
    arg_cong [OF assms, of num_output_placeholders] arg_cong [OF assms, of resumable] arg_cong [OF assms, of is_pooling]
    arg_cong [OF assms, of sampling_params_of] arg_cong [OF assms, of lora_request_of] arg_cong [OF assms, of cache_salt]
    arg_cong [OF assms, of num_prompt_tokens] arg_cong [OF assms, of discard_latest_async_tokens]
  by (simp_all add: fixed_part_def num_tokens_def)

lemma preempt_fixed: "preempt_request cfg rid s = Inr s' \<Longrightarrow> same_fixed s s'"
  by (auto simp: preempt_request_def Let_def res_simps same_fixed_def set_obj_def fixed_part_def)

lemma take_victim_objs: "take_victim cfg t = Inr (v, t') \<Longrightarrow> objs (sch t') = objs (sch t)"
  by (auto simp: take_victim_def Let_def res_simps dest!: unschedule_sch split: scheduling_policy.splits if_splits)

lemma allocate_encoder_objs: "allocate_encoder_inputs rid p t = Inr t' \<Longrightarrow> objs (sch t') = objs (sch t)"
  by (auto simp: allocate_encoder_inputs_def Let_def res_simps)

section \<open>What preemption takes out of the plan\<close>

definition plan_keys :: "sched_step \<Rightarrow> string set" where
  "plan_keys t = fst ` set (num_scheduled_tokens t)"

text \<open>\<open>vs\<close> are the victims.\<close>

definition victims_out :: "string list \<Rightarrow> sched_step \<Rightarrow> sched_step \<Rightarrow> bool" where
  "victims_out vs t t' \<longleftrightarrow> mset (running (sch t)) = mset (running (sch t')) + mset vs \<and>
     same_fixed (sch t) (sch t') \<and> (\<forall>x. x \<notin> set vs \<longrightarrow> objs (sch t') x = objs (sch t) x) \<and>
     set (num_scheduled_tokens t') \<subseteq> set (num_scheduled_tokens t) \<and> plan_keys t \<subseteq> plan_keys t' \<union> set vs \<and>
     (\<forall>x. x \<notin> set vs \<longrightarrow> map_of (scheduled_spec_decode_tokens t') x = map_of (scheduled_spec_decode_tokens t) x) \<and>
     (fst ` set (scheduled_spec_decode_tokens t) \<subseteq> plan_keys t \<longrightarrow>
      fst ` set (scheduled_spec_decode_tokens t') \<subseteq> plan_keys t')"

lemma victims_none [simp]: "objs (sch t') = objs (sch t) \<Longrightarrow> running (sch t') = running (sch t) \<Longrightarrow>
    num_scheduled_tokens t' = num_scheduled_tokens t \<Longrightarrow> scheduled_spec_decode_tokens t' = scheduled_spec_decode_tokens t \<Longrightarrow>
    victims_out [] t t'"
  by (simp add: victims_out_def same_fixed_def plan_keys_def)

lemma victims_trans: "victims_out vs t t1 \<Longrightarrow> victims_out ws t1 t2 \<Longrightarrow> victims_out (vs @ ws) t t2"
  by (auto simp: victims_out_def intro: same_fixed_trans)

lemma delete_set: "set (AList.delete k al) = {e \<in> set al. fst e \<noteq> k}"
  by (auto simp: AList.delete_eq)

lemma delete_keys: "fst ` set (AList.delete k al) = fst ` set al - {k}"
  by (auto simp: delete_set)

lemma take_victim_out:
  assumes "take_victim cfg t = Inr (v, t')"
  shows "victims_out [v] t t'"
proof -
  have cases: "num_scheduled_tokens t' = num_scheduled_tokens t \<and> scheduled_spec_decode_tokens t' = scheduled_spec_decode_tokens t \<or>
    num_scheduled_tokens t' = AList.delete v (num_scheduled_tokens t) \<and>
    scheduled_spec_decode_tokens t' = AList.delete v (scheduled_spec_decode_tokens t)"
    using assms
    by (auto simp: take_victim_def unschedule_def dict_pop_def Let_def res_simps
        split: scheduling_policy.splits if_splits option.splits)
  have same: "mset (running (sch t)) = mset (running (sch t')) + {#v#}" "objs (sch t') = objs (sch t)"
    using take_victim_mset [OF assms] take_victim_objs [OF assms] by simp_all
  from cases show ?thesis
  proof (elim disjE conjE)
    assume d: "num_scheduled_tokens t' = AList.delete v (num_scheduled_tokens t)"
      "scheduled_spec_decode_tokens t' = AList.delete v (scheduled_spec_decode_tokens t)"
    have "set (num_scheduled_tokens t') \<subseteq> set (num_scheduled_tokens t)" by (auto simp: d delete_set)
    moreover have "plan_keys t' = plan_keys t - {v}" unfolding plan_keys_def d by (rule delete_keys)
    moreover have "fst ` set (scheduled_spec_decode_tokens t') = fst ` set (scheduled_spec_decode_tokens t) - {v}"
      unfolding d by (rule delete_keys)
    ultimately show ?thesis using same by (auto simp: victims_out_def same_fixed_objs d delete_conv')
  qed (use same in \<open>auto simp: victims_out_def plan_keys_def same_fixed_objs\<close>)
qed

lemma preempt_out:
  assumes "preempt_request cfg v s = Inr s'" and "sch t = s"
  shows "same_fixed s s' \<and> (\<forall>x. x \<noteq> v \<longrightarrow> objs s' x = objs s x) \<and> running s' = running s"
  using assms preempt_fixed [OF assms(1)] preempt_running [OF assms(1)]
  by (auto simp: preempt_request_def Let_def res_simps set_obj_def)

lemma alloc_out:
  "alloc_or_preempt cfg rid n t = Inr (b, t') \<Longrightarrow> \<exists>vs. victims_out vs t t'"
proof (induction cfg rid n t rule: alloc_or_preempt.induct)
  case (1 cfg rid n t)
  obtain nb k where k: "allocate_slots (objs (sch t) rid) n 0 None (num_lookahead_tokens cfg) 0 False 0 (kv (sch t)) = Inr (nb, k)"
    using "1.prems" by (auto simp: alloc_or_preempt.simps [of cfg rid n t] res_simps)
  let ?t1 = "t\<lparr>sch := (sch t)\<lparr>kv := k\<rparr>\<rparr>"
  have t1: "victims_out [] t ?t1" by simp
  show ?case
  proof (cases "nb = None")
    case False
    then have "t' = ?t1" using "1.prems" k by (auto simp: alloc_or_preempt.simps [of cfg rid n t])
    then show ?thesis using t1 by blast
  next
    case True
    then obtain v t2 s3 where v: "take_victim cfg ?t1 = Inr (v, t2)" "preempt_request cfg v (sch t2) = Inr s3"
      "(if v = rid then Inr (None, t2\<lparr>sch := s3, preempted_reqs := preempted_reqs t2 @ [v]\<rparr>)
        else alloc_or_preempt cfg rid n (t2\<lparr>sch := s3, preempted_reqs := preempted_reqs t2 @ [v]\<rparr>)) = Inr (b, t')"
      using "1.prems" k by (auto simp: alloc_or_preempt.simps [of cfg rid n t] res_simps Let_def)
    let ?t3 = "t2\<lparr>sch := s3, preempted_reqs := preempted_reqs t2 @ [v]\<rparr>"
    have "victims_out [v] ?t1 ?t3"
      using take_victim_out [OF v(1)] preempt_out [OF v(2) refl]
      by (auto simp: victims_out_def plan_keys_def intro: same_fixed_trans)
    from victims_trans [OF t1 this] have 2: "victims_out [v] t ?t3" by simp
    show ?thesis
    proof (cases "v = rid")
      case True
      then show ?thesis using v(3) 2 by auto
    next
      case False
      then have "alloc_or_preempt cfg rid n ?t3 = Inr (b, t')" using v(3) by simp
      from "1.IH" [OF k _ refl _ v(1) _ v(2) refl False this] \<open>nb = None\<close> obtain vs where "victims_out vs ?t3 t'" by auto
      from victims_trans [OF 2 this] show ?thesis by blast
    qed
  qed
qed

section \<open>How far a scheduled request gets\<close>

definition reach :: "request \<Rightarrow> int \<Rightarrow> int list \<Rightarrow> bool" where
  "reach r c ds \<longleftrightarrow> c \<le> num_tokens r + py_len ds \<and> (ds \<noteq> [] \<longrightarrow> c = num_tokens r + py_len ds)"

text \<open>Without placeholders, as long as scheduling is not asynchronous.\<close>

definition plan_linked :: "sched_step \<Rightarrow> bool" where
  "plan_linked t \<longleftrightarrow> fst ` set (scheduled_spec_decode_tokens t) \<subseteq> plan_keys t \<and>
     (\<forall>(rid, n) \<in> set (num_scheduled_tokens t).
        reach (objs (sch t) rid) (num_computed_tokens (objs (sch t) rid) + n) (spec_of rid (scheduled_spec_decode_tokens t))) \<and>
     (\<forall>rid \<in> set (running (sch t)) - plan_keys t. num_computed_tokens (objs (sch t) rid) \<le> num_tokens (objs (sch t) rid)) \<and>
     (\<forall>rid \<in> set (requests (sch t)). num_output_placeholders (objs (sch t) rid) = 0)"

lemma plan_linked_cong:
  assumes "objs (sch t') = objs (sch t)" "num_scheduled_tokens t' = num_scheduled_tokens t"
    "scheduled_spec_decode_tokens t' = scheduled_spec_decode_tokens t" "set (running (sch t')) = set (running (sch t))"
    "requests (sch t') = requests (sch t)"
  shows "plan_linked t' = plan_linked t"
  by (simp add: plan_linked_def assms plan_keys_def)

lemma linked_victims:
  assumes l: "plan_linked t" and v: "victims_out vs t t'" and d: "distinct (running (sch t))"
    and keys: "plan_keys t' \<subseteq> set (running (sch t'))" and req: "requests (sch t') = requests (sch t)"
  shows "plan_linked t'"
proof -
  have mset: "mset (running (sch t)) = mset (running (sch t') @ vs)" and same: "same_fixed (sch t) (sch t')"
    and objs: "\<And>x. x \<notin> set vs \<Longrightarrow> objs (sch t') x = objs (sch t) x"
    and sub: "set (num_scheduled_tokens t') \<subseteq> set (num_scheduled_tokens t)" "plan_keys t \<subseteq> plan_keys t' \<union> set vs"
    and spec: "\<And>x. x \<notin> set vs \<Longrightarrow> spec_of x (scheduled_spec_decode_tokens t') = spec_of x (scheduled_spec_decode_tokens t)"
    and ks: "fst ` set (scheduled_spec_decode_tokens t') \<subseteq> plan_keys t'"
    using l v by (auto simp: victims_out_def plan_linked_def spec_of_def)
  have "distinct (running (sch t') @ vs)" using mset d mset_eq_imp_distinct_iff by blast
  then have out: "x \<notin> set vs" "x \<in> set (running (sch t))" if "x \<in> set (running (sch t'))" for x
    using that mset_eq_setD [OF mset] by auto
  have "reach (objs (sch t') rid) (num_computed_tokens (objs (sch t') rid) + n) (spec_of rid (scheduled_spec_decode_tokens t'))"
    if e: "(rid, n) \<in> set (num_scheduled_tokens t')" for rid n
  proof -
    have "rid \<in> plan_keys t'" using e by (force simp: plan_keys_def)
    then have "rid \<notin> set vs" using keys out by blast
    then show ?thesis using l e sub(1) objs spec by (auto simp: plan_linked_def)
  qed
  moreover have "num_computed_tokens (objs (sch t') rid) \<le> num_tokens (objs (sch t') rid)"
    if "rid \<in> set (running (sch t')) - plan_keys t'" for rid
    using l out [of rid] that objs [of rid] sub(2) by (auto simp: plan_linked_def)
  moreover have "num_output_placeholders (objs (sch t') rid) = 0" if "rid \<in> set (requests (sch t'))" for rid
    using l that same fixed_fields(7) [of "objs (sch t') rid" "objs (sch t) rid"]
    by (simp add: plan_linked_def req same_fixed_def)
  ultimately show ?thesis using ks by (auto simp: plan_linked_def)
qed

text \<open>One more request in the plan.\<close>

lemma linked_add:
  assumes l: "plan_linked t" and new: "rid \<notin> plan_keys t"
    and t': "num_scheduled_tokens t' = AList.update rid n (num_scheduled_tokens t)"
    "\<And>x. x \<noteq> rid \<Longrightarrow> objs (sch t') x = objs (sch t) x" "set (running (sch t')) \<subseteq> insert rid (set (running (sch t)))"
    "requests (sch t') = requests (sch t)" "num_output_placeholders (objs (sch t') rid) = num_output_placeholders (objs (sch t) rid)"
    and spec: "scheduled_spec_decode_tokens t' = scheduled_spec_decode_tokens t \<and> ds = [] \<or>
      scheduled_spec_decode_tokens t' = AList.update rid ds (scheduled_spec_decode_tokens t)"
    and r: "reach (objs (sch t') rid) (num_computed_tokens (objs (sch t') rid) + n) ds"
  shows "plan_linked t'"
proof -
  have keys: "plan_keys t' = insert rid (plan_keys t)" by (auto simp: plan_keys_def t'(1) dom_update)
  have num: "num_scheduled_tokens t' = num_scheduled_tokens t @ [(rid, n)]"
    using update_new new by (simp add: t'(1) plan_keys_def)
  have "map_of (scheduled_spec_decode_tokens t) rid = None"
    using l new by (auto simp: plan_linked_def map_of_eq_None_iff)
  then have here: "spec_of rid (scheduled_spec_decode_tokens t') = ds"
    using spec by (auto simp: spec_of_def update_conv')
  have other: "spec_of x (scheduled_spec_decode_tokens t') = spec_of x (scheduled_spec_decode_tokens t)" if "x \<noteq> rid" for x
    using spec that by (auto simp: spec_of_def update_conv')
  have ks: "fst ` set (scheduled_spec_decode_tokens t') \<subseteq> plan_keys t'"
  proof -
    have "fst ` set (scheduled_spec_decode_tokens t) \<subseteq> plan_keys t" using l by (simp add: plan_linked_def)
    moreover have "fst ` set (AList.update rid ds al) = insert rid (fst ` set al)" for al by (simp add: dom_update)
    ultimately show ?thesis using spec unfolding keys by (elim disjE conjE) (metis subset_insertI2, metis insert_mono)
  qed
  have "reach (objs (sch t') x) (num_computed_tokens (objs (sch t') x) + m) (spec_of x (scheduled_spec_decode_tokens t'))"
    if "(x, m) \<in> set (num_scheduled_tokens t')" for x m
  proof (cases "x = rid")
    case True
    have "(x, m) \<notin> set (num_scheduled_tokens t)" using new True by (force simp: plan_keys_def)
    then show ?thesis using that num r here True by auto
  next
    case False
    then show ?thesis using that num l other t'(2) by (auto simp: plan_linked_def)
  qed
  moreover have "num_output_placeholders (objs (sch t') x) = 0" if "x \<in> set (requests (sch t'))" for x
    using l that t'(2,4,5) by (cases "x = rid") (auto simp: plan_linked_def)
  moreover have "num_computed_tokens (objs (sch t') x) \<le> num_tokens (objs (sch t') x)"
    if "x \<in> set (running (sch t')) - plan_keys t'" for x
    using l that t'(2,3) by (auto simp: plan_linked_def keys)
  ultimately show ?thesis using ks by (auto simp: plan_linked_def)
qed

section \<open>The running loop\<close>

lemma booked_keys: "booked K cfg t \<Longrightarrow> plan_keys t = set (step_reqs t) \<and> plan_keys t \<subseteq> set (running (sch t))"
  by (auto simp: booked_def plan_keys_def)

lemma run_booked: "run_inv K sz cfg t \<Longrightarrow> booked K cfg t"
  by (simp add: run_inv_def Let_def)

lemma spec_tokens_linked:
  assumes l: "plan_linked t" and new: "rid \<notin> plan_keys t" and rid: "rid \<in> set (running (sch t))" "rid \<in> set (requests (sch t))"
    and n: "n \<le> num_tokens_with_spec (objs (sch t) rid) + num_output_placeholders (objs (sch t) rid) -
      num_computed_tokens (objs (sch t) rid)"
  shows "plan_linked (schedule_spec_tokens rid n (mark_scheduled rid n b t))"
proof -
  let ?r = "objs (sch t) rid"
  let ?c = "num_computed_tokens ?r" and ?m = "n + num_computed_tokens ?r - num_tokens ?r"
  define t' where "t' = schedule_spec_tokens rid n (mark_scheduled rid n b t)"
  have ph: "num_output_placeholders ?r = 0" using l rid(2) by (auto simp: plan_linked_def)
  have len: "n + ?c \<le> num_tokens ?r + py_len (spec_token_ids ?r)"
    using n ph by (simp add: num_tokens_with_spec_def num_tokens_def py_len_def)
  define ds where "ds = (if spec_token_ids ?r \<noteq> [] \<and> 0 < ?m
    then (if py_len (spec_token_ids ?r) > ?m then py_upto (spec_token_ids ?r) ?m else spec_token_ids ?r) else [])"
  have ds: "py_len ds = ?m" if "spec_token_ids ?r \<noteq> []" "0 < ?m"
  proof -
    have "?m \<le> py_len (spec_token_ids ?r)" using len by simp
    then show ?thesis using that by (auto simp: ds_def py_upto_def py_clip_def py_len_def)
  qed
  have spec: "scheduled_spec_decode_tokens t' = scheduled_spec_decode_tokens t \<and> ds = [] \<or>
      scheduled_spec_decode_tokens t' = AList.update rid ds (scheduled_spec_decode_tokens t)"
    by (auto simp: t'_def schedule_spec_tokens_def mark_scheduled_def ds_def ph Let_def)
  have obj: "num_computed_tokens (objs (sch t') rid) = ?c" "num_tokens (objs (sch t') rid) = num_tokens ?r"
    "num_output_placeholders (objs (sch t') rid) = num_output_placeholders ?r"
    by (simp_all add: t'_def schedule_spec_tokens_def mark_scheduled_def set_obj_def num_tokens_def Let_def)
  have r: "reach (objs (sch t') rid) (num_computed_tokens (objs (sch t') rid) + n) ds"
  proof (cases "spec_token_ids ?r \<noteq> [] \<and> 0 < ?m")
    case True
    then show ?thesis using ds unfolding reach_def obj by simp
  next
    case False
    then have "ds = []" by (auto simp: ds_def)
    then show ?thesis using False len unfolding reach_def obj by (auto simp: py_len_def)
  qed
  have "plan_linked t'"
    by (rule linked_add [OF l new _ _ _ _ obj(3) spec r])
      (auto simp: t'_def schedule_spec_tokens_def mark_scheduled_def set_obj_def Let_def)
  then show ?thesis by (simp add: t'_def)
qed

context kv_provider
begin

lemma running_one_linked:
  assumes run: "schedule_running_one cfg remote t = Inr (stop, t')" and inv: "run_inv K sz cfg t" "run_inv K sz cfg t'"
    and l: "plan_linked t" and here: "before_cursor t" "req_index t < py_len (running (sch t))" and cfg: "plain_sched K cfg"
    and budget: "0 < token_budget t" and sz: "\<And>h. 0 \<le> sz h" and same: "requests (sch t') = requests (sch t)"
  shows "plan_linked t' \<and> same_fixed (sch t) (sch t')"
proof -
  define rid where "rid = running (sch t) ! nat (req_index t)"
  define r where "r = objs (sch t) rid"
  have cur: "at_cursor cfg rid t" unfolding rid_def by (rule cursor_here [OF here inv(1)])
  have core: "core_inv K sz (waiting (sch t)) (sch t)" and b: "booked K cfg t" using inv(1) by (simp_all add: run_inv_def Let_def)
  have rid: "rid \<in> set (running (sch t))" "rid \<notin> set (step_reqs t)" using at_cursor_running [OF cur] at_cursor_not [OF cur] by auto
  have ok: "running_ok K sz (sch t) rid" using core rid by (simp add: core_inv_def)
  have dist: "distinct (running (sch t))" using core by (simp add: core_inv_def)
  define n1 where "n1 = min (min (long_prefill_cap cfg (num_tokens_with_spec r + num_output_placeholders r - num_computed_tokens r))
      (token_budget t)) (sched_max_model_len cfg - 1 - num_computed_tokens r)"
  have late: "on_time r" using inv(1) rid by (auto simp: run_inv_def r_def Let_def)
  have c: "0 \<le> num_computed_tokens r" "num_computed_tokens r < kv_max_len K" "rid \<in> set (requests (sch t))"
    using ok by (simp_all add: running_ok_def r_def Let_def)
  have n1: "0 \<le> n1" "n1 \<le> num_tokens_with_spec r + num_output_placeholders r - num_computed_tokens r"
    using late budget c(1,2) cfg
      long_prefill_cap_bounds(1,2) [where cfg = cfg and
        n = "num_tokens_with_spec r + num_output_placeholders r - num_computed_tokens r"]
    by (auto simp: n1_def on_time_def plain_sched_def)
  have req: "request_ok K sz rid (objs (sch t) rid)" using ok by (simp add: running_ok_def Let_def)
  obtain p where p: "plan_encoder_inputs cfg remote r (num_computed_tokens r) n1 t = Inr p" "num_new_tokens p \<le> n1"
    using plan_inputs_spec [OF core b req n1(1) sz, where remote = remote and computed = "num_computed_tokens r"]
    unfolding r_def [symmetric] by blast
  let ?n = "num_new_tokens p" and ?t1 = "t\<lparr>sch := (sch t)\<lparr>encoder := plan_cache p\<rparr>\<rparr>"
  show ?thesis
  proof (cases "num_output_placeholders r > 0 \<and>
      num_computed_tokens r + 2 - num_output_placeholders r \<ge> num_prompt_tokens r + req_max_tokens r")
    case True
    then have "t' = t\<lparr>req_index := req_index t + 1\<rparr>"
      using run by (simp add: schedule_running_one_def rid_def [symmetric] r_def [symmetric] Let_def)
    then show ?thesis using l by (simp add: plan_linked_cong [of "t\<lparr>req_index := req_index t + 1\<rparr>" t])
  next
    case False
    have run': "(if ?n = 0 then Inr (False, ?t1\<lparr>req_index := req_index ?t1 + 1\<rparr>)
      else rbind (alloc_or_preempt cfg rid ?n ?t1) (\<lambda>(new_blocks, t2).
             case new_blocks of None \<Rightarrow> Inr (True, t2)
             | Some b \<Rightarrow> rbind (allocate_encoder_inputs rid p (schedule_spec_tokens rid ?n (mark_scheduled rid ?n b
                 (t2\<lparr>scheduled_running_reqs := scheduled_running_reqs t2 @ [rid], req_index := req_index t2 + 1\<rparr>))))
                 (\<lambda>t4. Inr (False, t4)))) = Inr (stop, t')"
      using run p(1) cfg
      unfolding schedule_running_one_def Let_def rid_def [symmetric] r_def [symmetric] if_not_P [OF False] n1_def [symmetric]
      by (simp add: apply_mamba_split_def plain_sched_def)
    show ?thesis
    proof (cases "?n = 0")
      case True
      then have "t' = ?t1\<lparr>req_index := req_index ?t1 + 1\<rparr>" using run' by simp
      then show ?thesis using l plan_linked_cong [of t' t] by (simp add: same_fixed_def)
    next
      case n: False
      obtain nb t2 where t2: "alloc_or_preempt cfg rid ?n ?t1 = Inr (nb, t2)"
        using run' n by (auto simp: res_simps)
      obtain vs where vs: "victims_out vs ?t1 t2" using alloc_out [OF t2] by blast
      have l1: "plan_linked ?t1" using l plan_linked_cong [of ?t1 t] by simp
      have fix2: "same_fixed (sch t) (sch t2)" using vs by (simp add: victims_out_def same_fixed_def)
      have d1: "distinct (running (sch ?t1))" using dist by simp
      show ?thesis
      proof (cases nb)
        case None
        then have t': "t' = t2" using run' n t2 by simp
        have "plan_linked t2"
          by (rule linked_victims [OF l1 vs d1]) (use booked_keys [OF run_booked [OF inv(2)]] same t' in auto)
        then show ?thesis using fix2 t' by simp
      next
        case (Some bl)
        define t2' where "t2' = t2\<lparr>scheduled_running_reqs := scheduled_running_reqs t2 @ [rid], req_index := req_index t2 + 1\<rparr>"
        define t4 where "t4 = schedule_spec_tokens rid ?n (mark_scheduled rid ?n bl t2')"
        have enc: "allocate_encoder_inputs rid p t4 = Inr t'"
          using run' n t2 Some unfolding t4_def t2'_def by (auto simp: res_simps)
        have t2': "num_scheduled_tokens t2' = num_scheduled_tokens t2" "sch t2' = sch t2"
          "scheduled_spec_decode_tokens t2' = scheduled_spec_decode_tokens t2" by (simp_all add: t2'_def)
        have t4: "running (sch t4) = running (sch t2)" "requests (sch t4) = requests (sch t2)"
          "num_scheduled_tokens t4 = AList.update rid ?n (num_scheduled_tokens t2)"
          by (simp_all add: t4_def schedule_spec_tokens_def mark_scheduled_def set_obj_def t2' Let_def)
        have e: "objs (sch t') = objs (sch t4)" "running (sch t') = running (sch t4)" "requests (sch t') = requests (sch t4)"
          "num_scheduled_tokens t' = num_scheduled_tokens t4" "scheduled_spec_decode_tokens t' = scheduled_spec_decode_tokens t4"
          using enc by (auto simp: allocate_encoder_inputs_def Let_def res_simps)
        have keys: "insert rid (plan_keys t2) \<subseteq> set (running (sch t2))"
        proof -
          have "plan_keys t' = insert rid (plan_keys t2)" unfolding plan_keys_def e(4) t4(3) by (simp add: dom_update)
          moreover have "plan_keys t' \<subseteq> set (running (sch t2))"
            using booked_keys [OF run_booked [OF inv(2)]] unfolding e(2) t4(1) by blast
          ultimately show ?thesis by simp
        qed
        have req2: "requests (sch t2) = requests (sch t)" using same e(3) t4(2) by simp
        have l2: "plan_linked t2" by (rule linked_victims [OF l1 vs d1]) (use keys req2 in auto)
        have mset: "mset (running (sch t)) = mset (running (sch t2) @ vs)" using vs by (simp add: victims_out_def)
        then have "distinct (running (sch t2) @ vs)" using dist mset_eq_imp_distinct_iff by blast
        then have "rid \<notin> set vs" using keys by auto
        then have obj: "objs (sch t2) rid = r" using vs by (simp add: victims_out_def r_def)
        have "rid \<notin> plan_keys t2"
        proof -
          have "plan_keys t2 \<subseteq> plan_keys t" using vs by (auto simp: victims_out_def plan_keys_def)
          then show ?thesis using rid(2) booked_keys [OF b] by auto
        qed
        then have new: "rid \<notin> plan_keys t2'" by (simp add: plan_keys_def t2')
        have "plan_linked t2'" using l2 plan_linked_cong [of t2' t2] t2' by simp
        moreover have "rid \<in> set (running (sch t2'))" "rid \<in> set (requests (sch t2'))" using keys c(3) req2 t2' by simp_all
        moreover have "?n \<le> num_tokens_with_spec (objs (sch t2') rid) + num_output_placeholders (objs (sch t2') rid) -
            num_computed_tokens (objs (sch t2') rid)" using n1(2) p(2) obj t2' by simp
        ultimately have "plan_linked t4" unfolding t4_def by (intro spec_tokens_linked new)
        then have "plan_linked t'" using plan_linked_cong [of t' t4] e by simp
        moreover have "same_fixed (sch t2) (sch t4)"
          unfolding t4_def by (auto simp: schedule_spec_tokens_def mark_scheduled_def t2' Let_def fixed_part_def intro!: same_fixed_set)
        then have "same_fixed (sch t) (sch t')"
          by (rule same_fixed_trans [OF same_fixed_trans [OF fix2] same_fixed_objs]) (rule e(1))
        ultimately show ?thesis by blast
      qed
    qed
  qed
qed

lemma running_linked:
  assumes "schedule_running cfg remote t = Inr t'" and "run_inv K sz cfg t" and "before_cursor t" and "plan_linked t"
    and cfg: "plain_sched K cfg" and sz: "\<And>h. 0 \<le> sz h"
  shows "plan_linked t' \<and> same_fixed (sch t) (sch t')"
  using assms(1-5)
proof (induction cfg remote t rule: schedule_running.induct)
  case (1 cfg remote t)
  show ?case
  proof (cases "req_index t < py_len (running (sch t)) \<and> token_budget t > 0")
    case False
    then show ?thesis using "1.prems" by (subst (asm) schedule_running.simps) auto
  next
    case True
    obtain stop t1 where t1: "schedule_running_one cfg remote t = Inr (stop, t1)" "run_inv K sz cfg t1"
      "same_reqs (sch t) (sch t1)" "if stop then preempted_reqs t1 \<noteq> [] else before_cursor t1"
      using running_one_spec [OF "1.prems"(2,3) _ "1.prems"(5) _ sz, of remote] True by blast
    note one = running_one_linked [OF t1(1) "1.prems"(2) t1(2) "1.prems"(4,3) _ "1.prems"(5) _ sz]
    have one': "plan_linked t1" "same_fixed (sch t) (sch t1)" using one True t1(3) by (auto simp: same_reqs_def)
    have run: "(if stop then Inr t1 else schedule_running cfg remote t1) = Inr t'"
      using "1.prems"(1) True t1(1) by (subst (asm) schedule_running.simps) auto
    show ?thesis
    proof (cases stop)
      case True
      then show ?thesis using run one' by simp
    next
      case False
      then have "plan_linked t' \<and> same_fixed (sch t1) (sch t')"
        using "1.IH" [OF True t1(1) refl] run t1(2,4) one'(1) "1.prems"(5) by simp
      then show ?thesis using same_fixed_trans [OF one'(2)] by blast
    qed
  qed
qed

section \<open>The waiting loop\<close>

lemma gate_frame:
  assumes "waiting_gate cfg ready rid t = Inr (skip, t')"
  shows "same_fixed (sch t) (sch t') \<and> (\<forall>x. num_computed_tokens (objs (sch t') x) = num_computed_tokens (objs (sch t) x)) \<and>
    running (sch t') = running (sch t) \<and> requests (sch t') = requests (sch t) \<and>
    num_scheduled_tokens t' = num_scheduled_tokens t \<and> scheduled_spec_decode_tokens t' = scheduled_spec_decode_tokens t"
  using assms
  by (auto simp: waiting_gate_def Let_def res_simps same_fixed_def fixed_part_def set_obj_def split: if_splits)

lemma linked_frame:
  assumes "same_fixed (sch t) (sch t')" and "\<forall>x. num_computed_tokens (objs (sch t') x) = num_computed_tokens (objs (sch t) x)"
    and "running (sch t') = running (sch t)" "requests (sch t') = requests (sch t)"
    and "num_scheduled_tokens t' = num_scheduled_tokens t" "scheduled_spec_decode_tokens t' = scheduled_spec_decode_tokens t"
    and "plan_linked t"
  shows "plan_linked t'"
proof -
  have "num_tokens (objs (sch t') x) = num_tokens (objs (sch t) x)"
    "num_output_placeholders (objs (sch t') x) = num_output_placeholders (objs (sch t) x)" for x
    using assms(1) fixed_fields(7,11) [of "objs (sch t') x" "objs (sch t) x"] by (simp_all add: same_fixed_def)
  then show ?thesis using assms(2-7) by (simp add: plan_linked_def reach_def plan_keys_def)
qed

lemma wait_booked: "wait_inv K sz cfg t \<Longrightarrow> booked K cfg t"
  by (simp add: wait_inv_def Let_def)

lemma start_linked:
  assumes run: "start_request cfg rid n computed p t = Inr t'" and q: "queue_ok cfg (sch t) (waiting (sch t))"
    and peek: "q_peek_request (policy cfg) (waiting (sch t)) = Inr rid" "waiting (sch t) \<noteq> []"
    and l: "plan_linked t" and new: "rid \<notin> plan_keys t" and n: "computed + n \<le> num_tokens (objs (sch t) rid)"
  shows "plan_linked t' \<and> same_fixed (sch t) (sch t')"
proof -
  let ?s = "sch t"
  obtain q' where pop: "q_pop_request (policy cfg) (sched_lt ?s) (waiting ?s) = Inr (rid, q')"
    using queue_pop [OF q peek(2)] peek(1) by auto
  define upd where "upd = (\<lambda>r :: request. r\<lparr>req_status := RUNNING, num_computed_tokens := computed,
    num_cached_tokens := (if num_cached_tokens r < 0 then computed else num_cached_tokens r)\<rparr>)"
  obtain t5 where t5: "allocate_encoder_inputs rid p t5 = Inr t'" "num_scheduled_tokens t5 = AList.update rid n (num_scheduled_tokens t)"
    "scheduled_spec_decode_tokens t5 = scheduled_spec_decode_tokens t"
    "sch t5 = set_obj rid upd (?s\<lparr>waiting := q', running := running ?s @ [rid]\<rparr>)"
    using run pop
    by (auto simp: start_request_def mark_scheduled_def upd_def Let_def res_simps split: if_splits option.splits)
  have e: "objs (sch t') = objs (sch t5)" "running (sch t') = running (sch t5)" "requests (sch t') = requests (sch t5)"
    "num_scheduled_tokens t' = num_scheduled_tokens t5" "scheduled_spec_decode_tokens t' = scheduled_spec_decode_tokens t5"
    using t5(1) by (auto simp: allocate_encoder_inputs_def Let_def res_simps)
  have obj: "objs (sch t') x = (if x = rid then upd (objs ?s rid) else objs ?s x)" for x
    by (simp add: e(1) t5(4) set_obj_def)
  have r: "reach (objs (sch t') rid) (num_computed_tokens (objs (sch t') rid) + n) []"
    using n by (simp add: obj upd_def reach_def py_len_def num_tokens_def)
  have "plan_linked t'"
    by (rule linked_add [OF l new, where n = n and ds = "[]"])
      (use r in \<open>simp_all add: e t5 obj set_obj_def upd_def\<close>)
  moreover have "same_fixed ?s (sch t')" by (simp add: same_fixed_def obj upd_def fixed_part_def)
  ultimately show ?thesis by blast
qed

lemma admit_linked:
  assumes run: "admit_request cfg remote rid hits c c t = Inr (stop, t')" and inv: "wait_inv K sz cfg t" and cfg: "plain_sched K cfg"
    and peek: "q_peek_request (policy cfg) (waiting (sch t)) = Inr rid" "waiting (sch t) \<noteq> []" "rid \<in> set (waiting (sch t))"
    and l: "plan_linked t" and c: "c < num_tokens (objs (sch t) rid)" and budget: "0 < token_budget t" and sz: "\<And>h. 0 \<le> sz h"
  shows "plan_linked t' \<and> same_fixed (sch t) (sch t')"
proof -
  define r where "r = objs (sch t) rid"
  have core: "core_inv K sz (waiting (sch t) @ skipped_waiting_requests t) (sch t)" and b: "booked K cfg t"
    and q: "queue_ok cfg (sch t) (waiting (sch t))" using inv by (simp_all add: wait_inv_def Let_def)
  have w: "waiting_ok K sz (sch t) rid" and out: "rid \<notin> set (running (sch t))" using core peek(3) by (auto simp: core_inv_def)
  then have req: "request_ok K sz rid (objs (sch t) rid)" by (simp add: waiting_ok_def Let_def)
  have new: "rid \<notin> plan_keys t" using booked_keys [OF b] out by auto
  define n0 where "n0 = long_prefill_cap cfg (num_tokens r - c)"
  define n1 where "n1 = min n0 (token_budget t)"
  have n1: "0 \<le> n1" "n1 \<le> num_tokens r - c"
    using c budget long_prefill_cap_bounds(2,3) [where cfg = cfg and n = "num_tokens r - c"] by (auto simp: n1_def n0_def r_def)
  obtain p where p: "plan_encoder_inputs cfg remote r c n1 t = Inr p" "num_new_tokens p \<le> n1"
    using plan_inputs_spec [OF core b req n1(1) sz, where remote = remote and computed = c] unfolding r_def [symmetric] by auto
  let ?t1 = "t\<lparr>sch := (sch t)\<lparr>encoder := plan_cache p\<rparr>\<rparr>"
  have frame: "plan_linked t1 \<and> same_fixed (sch t) (sch t1)"
    if "objs (sch t1) = objs (sch t)" "running (sch t1) = running (sch t)" "requests (sch t1) = requests (sch t)"
      "num_scheduled_tokens t1 = num_scheduled_tokens t" "scheduled_spec_decode_tokens t1 = scheduled_spec_decode_tokens t" for t1
    using that l plan_linked_cong [of t1 t] by (simp add: same_fixed_def)
  consider "t' = t" | "t' = ?t1" | k where "t' = ?t1\<lparr>sch := (sch ?t1)\<lparr>kv := k\<rparr>\<rparr>"
    | k e where "t' = ?t1\<lparr>sch := (sch ?t1)\<lparr>kv := k, encoder := e\<rparr>\<rparr>"
    | k where "start_request cfg rid (num_new_tokens p) c p (?t1\<lparr>sch := (sch ?t1)\<lparr>kv := k\<rparr>\<rparr>) = Inr t'"
  proof (cases "\<not> enable_chunked_prefill cfg \<and> n0 > token_budget t")
    case True
    then show ?thesis using run that(1) by (simp add: admit_request_def r_def [symmetric] n0_def [symmetric] Let_def)
  next
    case False
    have plan: "rbind (py_assert (n1 > 0)) (\<lambda>_.
        if mm_features r \<noteq> [] \<and> num_new_tokens p = 0 then Inr (True, ?t1)
        else rbind (allocate_slots r (num_new_tokens p) c (Some hits) (if num_computed_tokens r = 0 then 0 else num_lookahead_tokens cfg)
            0 False 0 (kv (sch ?t1))) (\<lambda>(new_blocks, k).
            let t2 = ?t1\<lparr>sch := (sch ?t1)\<lparr>kv := k\<rparr>\<rparr> in
            if new_blocks = None
            then (if mm_features r \<noteq> []
                  then rbind (ecm_free r (encoder (sch t2))) (\<lambda>e. Inr (True, t2\<lparr>sch := (sch t2)\<lparr>encoder := e\<rparr>\<rparr>))
                  else Inr (True, t2))
            else rbind (start_request cfg rid (num_new_tokens p) c p t2) (\<lambda>t3. Inr (False, t3)))) = Inr (stop, t')"
      using run p(1) cfg
      unfolding admit_request_def Let_def r_def [symmetric] n0_def [symmetric] if_not_P [OF False] n1_def [symmetric]
      by (simp add: apply_mamba_split_def plain_sched_def cong: if_cong)
    show ?thesis
    proof (cases "mm_features r \<noteq> [] \<and> num_new_tokens p = 0")
      case True
      then show ?thesis using plan that(2) by (auto simp: res_simps)
    next
      case nz: False
      obtain nb k where al: "allocate_slots r (num_new_tokens p) c (Some hits)
          (if num_computed_tokens r = 0 then 0 else num_lookahead_tokens cfg) 0 False 0 (kv (sch ?t1)) = Inr (nb, k)" and "0 < n1"
        using plan unfolding if_not_P [OF nz] by (auto simp: res_simps)
      note body = plan [unfolded if_not_P [OF nz] al Let_def]
      show ?thesis
      proof (cases nb)
        case None
        show ?thesis
        proof (cases "mm_features r = []")
          case True
          then have "t' = ?t1\<lparr>sch := (sch ?t1)\<lparr>kv := k\<rparr>\<rparr>" using body None \<open>0 < n1\<close> by simp
          then show ?thesis by (rule that(3))
        next
          case False
          then obtain e where "t' = ?t1\<lparr>sch := (sch ?t1)\<lparr>kv := k, encoder := e\<rparr>\<rparr>"
            using body None \<open>0 < n1\<close> by (auto simp: res_simps)
          then show ?thesis by (rule that(4))
        qed
      next
        case (Some bl)
        then have "start_request cfg rid (num_new_tokens p) c p (?t1\<lparr>sch := (sch ?t1)\<lparr>kv := k\<rparr>\<rparr>) = Inr t'"
          using body \<open>0 < n1\<close> by (auto simp: res_simps)
        then show ?thesis by (rule that(5))
      qed
    qed
  qed
  then show ?thesis
  proof cases
    case (5 k)
    let ?t2 = "?t1\<lparr>sch := (sch ?t1)\<lparr>kv := k\<rparr>\<rparr>"
    have a: "plan_linked ?t2" "same_fixed (sch t) (sch ?t2)" using frame [of ?t2] by simp_all
    have "sched_lt (sch ?t2) = sched_lt (sch t)" by (rule sched_lt_cong) simp
    then have "queue_ok cfg (sch ?t2) (waiting (sch ?t2))" using q queue_ok_lt [of "sch ?t2" "sch t" cfg] by simp
    moreover have "c + num_new_tokens p \<le> num_tokens (objs (sch ?t2) rid)" using p(2) n1(2) by (simp add: r_def)
    moreover have "rid \<notin> plan_keys ?t2" using new by (simp add: plan_keys_def)
    ultimately have "plan_linked t' \<and> same_fixed (sch ?t2) (sch t')"
      using start_linked [OF 5] peek a(1) by simp
    then show ?thesis using same_fixed_trans [OF a(2)] by blast
  qed (use frame [of t'] in simp_all)
qed

lemma waiting_one_linked:
  assumes run: "schedule_waiting_one cfg ready remote t = Some (Inr (stop, t'))" and inv: "wait_inv K sz cfg t"
    and cfg: "plain_sched K cfg" and ne: "waiting (sch t) \<noteq> []" and budget: "0 < token_budget t" and l: "plan_linked t"
    and sz: "\<And>h. 0 \<le> sz h"
  shows "plan_linked t' \<and> same_fixed (sch t) (sch t')"
proof (cases "int (length (running (sch t))) = max_num_running_reqs cfg")
  case True
  then show ?thesis using run l by (simp add: schedule_waiting_one_def)
next
  case False
  have q: "queue_ok cfg (sch t) (waiting (sch t))" using inv by (simp add: wait_inv_def Let_def)
  obtain rid q' where pop: "q_peek_request (policy cfg) (waiting (sch t)) = Inr rid" "mset (waiting (sch t)) = add_mset rid (mset q')"
    using queue_pop [OF q ne] by blast
  have rid: "rid \<in> set (waiting (sch t))" using arg_cong [OF pop(2), of set_mset] by auto
  obtain skip t1 where t1: "waiting_gate cfg ready rid t = Inr (skip, t1)" "wait_inv K sz cfg t1"
    "waiting (sch t1) = waiting (sch t)" "token_budget t1 = token_budget t"
    using waiting_gate_spec [OF inv rid cfg, of ready] by blast
  note g = gate_frame [OF t1(1)]
  have l1: "plan_linked t1" by (rule linked_frame [OF _ _ _ _ _ _ l]) (use g in auto)
  have run': "(if skip then Some (rbind (skip_request cfg t1) (\<lambda>t2. Inr (False, t2)))
       else obind (lookup_computed rid t1) (\<lambda>(hits, n_local, computed, t2).
          Some (admit_request cfg remote rid hits n_local computed t2))) = Some (Inr (stop, t'))"
    using run False pop(1) t1(1) by (simp add: schedule_waiting_one_def)
  show ?thesis
  proof (cases skip)
    case True
    then have "objs (sch t') = objs (sch t1)" "running (sch t') = running (sch t1)" "requests (sch t') = requests (sch t1)"
      "num_scheduled_tokens t' = num_scheduled_tokens t1" "scheduled_spec_decode_tokens t' = scheduled_spec_decode_tokens t1"
      using run' by (auto simp: skip_request_def res_simps)
    then show ?thesis using l1 plan_linked_cong [of t' t1] g by (simp add: same_fixed_def)
  next
    case go: False
    let ?r = "objs (sch t1) rid"
    have core: "core_inv K sz (waiting (sch t1) @ skipped_waiting_requests t1) (sch t1)"
      using t1(2) by (simp add: wait_inv_def Let_def)
    have w: "waiting_ok K sz (sch t1) rid" using core rid t1(3) by (simp add: core_inv_def)
    then have r: "request_id ?r = rid" "kv_hashed K (block_hashes ?r) (num_tokens ?r)" "0 < num_tokens ?r"
      "num_computed_tokens ?r = 0" "kv_new K rid (kv (sch t1))" by (simp_all add: waiting_ok_def request_ok_def Let_def)
    obtain hits c k where k: "get_computed_blocks ?r (kv (sch t1)) = Some (Inr ((hits, c), k))" "0 \<le> c" "c < num_tokens ?r"
      "kv_fine K k" "keeps_tables K (\<lambda>_. True) (kv (sch t1)) k" "kv_hits K rid hits c k"
      using lookup [of "kv (sch t1)" ?r] core r by (auto simp: core_inv_def)
    let ?t2 = "t1\<lparr>sch := (sch t1)\<lparr>kv := k\<rparr>\<rparr>"
    have look: "lookup_computed rid t1 = Some (Inr (hits, c, c, ?t2))" using k(1) r(4) by (simp add: lookup_computed_def)
    have "kv_new K rid k" using k(5) r(5) by (simp add: keeps_tables_def)
    note inv2 = wait_inv_kv [OF t1(2) k(4) keeps_sub [OF k(5)] _ this]
    have i2: "wait_inv K sz cfg ?t2" using inv2 rid t1(3) by simp
    have adm: "admit_request cfg remote rid hits c c ?t2 = Inr (stop, t')" using run' go look by simp
    have "plan_linked ?t2" using l1 plan_linked_cong [of ?t2 t1] by simp
    from admit_linked [OF adm i2 cfg _ _ _ this _ _ sz] have "plan_linked t' \<and> same_fixed (sch ?t2) (sch t')"
      using pop(1) ne rid t1(3,4) k(3) budget by simp
    then show ?thesis using g by (simp add: same_fixed_def)
  qed
qed

lemma waiting_linked:
  assumes "schedule_waiting cfg ready remote t = Some (Inr t')" and "wait_inv K sz cfg t" and "plan_linked t"
    and cfg: "plain_sched K cfg" and sz: "\<And>h. 0 \<le> sz h"
  shows "plan_linked t' \<and> same_fixed (sch t) (sch t')"
  using assms(1-4)
proof (induction cfg ready remote t rule: schedule_waiting.induct)
  case (1 cfg ready remote t)
  show ?case
  proof (cases "waiting (sch t) \<noteq> [] \<and> token_budget t > 0")
    case False
    then show ?thesis using "1.prems" by (subst (asm) schedule_waiting.simps) auto
  next
    case True
    obtain stop t1 where t1: "schedule_waiting_one cfg ready remote t = Some (Inr (stop, t1))" "wait_inv K sz cfg t1"
      using waiting_one_spec [OF "1.prems"(2,4) _ _ sz, of ready remote] True by blast
    have one: "plan_linked t1" "same_fixed (sch t) (sch t1)"
      using waiting_one_linked [OF t1(1) "1.prems"(2,4) _ _ "1.prems"(3) sz] True by auto
    have run: "(if stop then Some (Inr t1) else schedule_waiting cfg ready remote t1) = Some (Inr t')"
      using "1.prems"(1) True t1(1) by (subst (asm) schedule_waiting.simps) auto
    show ?thesis
    proof (cases stop)
      case True
      then show ?thesis using run one by simp
    next
      case False
      then have "plan_linked t' \<and> same_fixed (sch t1) (sch t')"
        using "1.IH" [OF True t1(1) refl] run t1(2) one(1) "1.prems"(4) by simp
      then show ?thesis using same_fixed_trans [OF one(2)] by blast
    qed
  qed
qed

end

section \<open>The end of the step\<close>

lemma advance_frame:
  "rfold advance_request xs (b, s) = Inr (b', s') \<Longrightarrow>
    same_fixed s s' \<and> (\<forall>x. x \<notin> fst ` set xs \<longrightarrow> objs s' x = objs s x) \<and> running s' = running s"
proof (induction xs arbitrary: b s)
  case (Cons e xs)
  obtain rid n where e: "e = (rid, n)" by (cases e)
  obtain b1 s1 where 1: "advance_request (rid, n) (b, s) = Inr (b1, s1)" "rfold advance_request xs (b1, s1) = Inr (b', s')"
    using Cons.prems by (auto simp: e res_simps)
  have "objs s1 = objs (set_obj rid (\<lambda>r. let c = num_computed_tokens r + n in
      r\<lparr>num_computed_tokens := c, is_prefill_chunk := (c < num_tokens r + num_output_placeholders r)\<rparr>) s)"
    and run: "running s1 = running s"
    using 1(1) by (auto simp: advance_request_def Let_def res_simps set_obj_def split: if_splits)
  then have "same_fixed s s1" "\<forall>x. x \<noteq> rid \<longrightarrow> objs s1 x = objs s x"
    by (simp_all add: same_fixed_def set_obj_def fixed_part_def Let_def)
  with Cons.IH [OF 1(2)] run same_fixed_trans [of s s1 s'] show ?case by (auto simp: e)
qed simp

definition step_reach :: "scheduler_output \<Rightarrow> scheduler \<Rightarrow> bool" where
  "step_reach out s \<longleftrightarrow>
     (\<forall>(rid, n) \<in> set (so_num_scheduled_tokens out).
        reach (objs s rid) (num_computed_tokens (objs s rid)) (spec_of rid (so_spec_decode_tokens out))) \<and>
     (\<forall>rid \<in> set (running s) - fst ` set (so_num_scheduled_tokens out).
        num_computed_tokens (objs s rid) \<le> num_tokens (objs s rid))"

lemma update_after_frame:
  assumes "update_after_schedule cfg out s = Inr (out', s')" and "\<not> async_scheduling cfg"
  shows "same_fixed s s' \<and> (\<forall>x. x \<notin> fst ` set (so_num_scheduled_tokens out) \<longrightarrow> objs s' x = objs s x) \<and>
    running s' = running s \<and> so_spec_decode_tokens out' = so_spec_decode_tokens out \<and>
    so_num_scheduled_tokens out' = so_num_scheduled_tokens out"
proof -
  obtain b s1 where 1: "rfold advance_request (so_num_scheduled_tokens out) (so_has_structured_output_requests out, s) = Inr (b, s1)"
    "s' = s1\<lparr>finished_req_ids := {}\<rparr>" "out' = out\<lparr>so_has_structured_output_requests := b\<rparr>"
    using assms by (auto simp: update_after_schedule_def Let_def res_simps)
  with advance_frame [OF 1(1)] show ?thesis by (auto simp: same_fixed_def)
qed

lemma finish_frame:
  assumes run: "finish_step cfg t = Inr (out, s')" and sync: "\<not> async_scheduling cfg"
  shows "same_fixed (sch t) s' \<and> (\<forall>x. x \<notin> plan_keys t \<longrightarrow> objs s' x = objs (sch t) x) \<and>
    so_spec_decode_tokens out = scheduled_spec_decode_tokens t \<and> so_num_scheduled_tokens out = num_scheduled_tokens t"
proof -
  have put: "objs (sch (put_back_skipped cfg t)) = objs (sch t)" "running (sch (put_back_skipped cfg t)) = running (sch t)"
    "num_scheduled_tokens (put_back_skipped cfg t) = num_scheduled_tokens t"
    "scheduled_spec_decode_tokens (put_back_skipped cfg t) = scheduled_spec_decode_tokens t"
    by (simp_all add: put_back_skipped_def)
  have pre: "objs (sch t2) = objs (sch t1) \<and> running (sch t2) = running (sch t1) \<and>
      num_scheduled_tokens t2 = num_scheduled_tokens t1 \<and> scheduled_spec_decode_tokens t2 = scheduled_spec_decode_tokens t1"
    if "common_prefix t1 = Inr (ns, t2)" for t1 ns t2
    using that by (auto simp: common_prefix_def res_simps split: list.splits)
  obtain ns t2 out0 s3 where 2: "common_prefix (put_back_skipped cfg t) = Inr (ns, t2)" "update_after_schedule cfg out0 s3 = Inr (out, s')"
    "so_num_scheduled_tokens out0 = num_scheduled_tokens t2" "so_spec_decode_tokens out0 = scheduled_spec_decode_tokens t2"
    "objs s3 = objs (sch t2)"
  proof -
    obtain ns t2 where 1: "common_prefix (put_back_skipped cfg t) = Inr (ns, t2)"
      using run by (auto simp: finish_step_def Let_def res_simps)
    obtain fr e where e: "get_freed_mm_hashes (encoder (sch t2)) = (fr, e)" by (cases "get_freed_mm_hashes (encoder (sch t2))")
    obtain new cached where "update_after_schedule cfg \<lparr>so_new_reqs = new, so_cached_reqs = cached,
        so_num_scheduled_tokens = num_scheduled_tokens t2,
        so_total_num_scheduled_tokens = sum_list (map snd (num_scheduled_tokens t2)),
        so_spec_decode_tokens = scheduled_spec_decode_tokens t2, so_encoder_inputs = scheduled_encoder_inputs t2,
        so_num_common_prefix_blocks = ns, so_finished_req_ids = finished_req_ids (sch t2),
        so_free_encoder_mm_hashes = fr, so_preempted_req_ids = set (preempted_reqs t2),
        so_has_structured_output_requests = False, so_pending_structured_output_tokens = False,
        so_num_invalid_spec_tokens = []\<rparr>
      ((sch t2)\<lparr>prev_step_scheduled_req_ids := fst ` set (num_scheduled_tokens t2), encoder := e\<rparr>) = Inr (out, s')"
      using run 1 e by (auto simp: finish_step_def Let_def res_simps)
    from that [OF 1 this] show ?thesis by simp
  qed
  note p = pre [OF 2(1)]
  from update_after_frame [OF 2(2) sync] 2(3-5) p put show ?thesis
    by (auto simp: plan_keys_def same_fixed_def)
qed

context kv_provider
begin

lemma schedule_reach:
  assumes run: "schedule cfg ready remote s = Some (Inr (out, s'))" and inv: "sched_inv K sz cfg s"
    and cfg: "plain_sched K cfg" and sync: "\<not> async_scheduling cfg" and sz: "\<And>h. 0 \<le> sz h"
    and idle: "\<forall>rid \<in> set (running s). num_computed_tokens (objs s rid) \<le> num_tokens (objs s rid)"
      "\<forall>rid \<in> set (requests s). num_output_placeholders (objs s rid) = 0"
  shows "same_fixed s s' \<and> step_reach out s'"
proof -
  let ?t0 = "begin_step cfg s"
  have "rid \<in> set (requests s)" if "rid \<in> set (running s)" for rid
    using inv that by (simp add: sched_inv_def core_inv_def running_ok_def Let_def)
  then have time: "\<forall>rid \<in> set (running s). on_time (objs s rid)"
    using idle by (fastforce simp: on_time_def num_tokens_with_spec_def num_tokens_def py_len_def)
  have r0: "run_inv K sz cfg ?t0" "before_cursor ?t0" by (rule begin_inv [OF inv cfg time]) (rule begin_cursor)
  have l0: "plan_linked ?t0" using idle by (simp add: begin_step_def plan_linked_def plan_keys_def)
  from schedule_running_spec [OF r0 cfg sz] obtain t1 where
    t1: "schedule_running cfg remote ?t0 = Inr t1" "run_inv K sz cfg t1" by blast
  have l1: "plan_linked t1" "same_fixed s (sch t1)"
    using running_linked [OF t1(1) r0 l0 cfg sz] by (simp_all add: begin_step_def)
  define t2 where "t2 = t1\<lparr>scheduled_loras := {}\<rparr>"
  have run2: "run_inv K sz cfg t2" using t1(2) by (simp add: t2_def run_inv_def booked_def step_reqs_def)
  have l2: "plan_linked t2" "same_fixed s (sch t2)" using l1 plan_linked_cong [of t2 t1] by (simp_all add: t2_def)
  have "running_loras cfg t1 = Inr {}" using cfg by (simp add: running_loras_def plain_sched_def)
  then have run': "obind (if preempted_reqs t2 = [] then schedule_waiting cfg ready remote t2 else Some (Inr t2))
      (\<lambda>t3. Some (finish_step cfg t3)) = Some (Inr (out, s'))"
    using run t1(1) unfolding t2_def by (simp add: schedule_def Let_def)
  obtain t3 where t3: "finish_step cfg t3 = Inr (out, s')" "plan_linked t3" "same_fixed s (sch t3)" "done_inv K sz cfg t3"
  proof (cases "preempted_reqs t2 = []")
    case True
    from schedule_waiting_spec [OF run_wait [OF run2 True] cfg sz, of ready remote] obtain t3 where
      w: "schedule_waiting cfg ready remote t2 = Some (Inr t3)" "wait_inv K sz cfg t3" by blast
    with waiting_linked [OF w(1) run_wait [OF run2 True] l2(1) cfg sz] that [of t3] run' True l2(2) wait_done [OF w(2)]
      same_fixed_trans [of s "sch t2" "sch t3"] show ?thesis by simp
  next
    case False
    then show ?thesis using that [of t2] run' l2 run_done [OF run2] by simp
  qed
  note f = finish_frame [OF t3(1) sync]
  from finish_step_spec [OF t3(4) sz] t3(1) have res: "step_result K sz cfg t3 out s'" by auto
  have fixed: "same_fixed s s'" using same_fixed_trans [OF t3(3)] f by blast
  have same: "num_tokens (objs s' x) = num_tokens (objs (sch t3) x)" for x
    using f fixed_fields(11) [of "objs s' x" "objs (sch t3) x"] by (simp add: same_fixed_def)
  have "step_reach out s'"
    using t3(2) res f same unfolding step_reach_def step_result_def plan_linked_def reach_def plan_keys_def by fastforce
  with fixed show ?thesis by blast
qed

end

end
