(* ===== verification/Engine_Core.thy ===== *)
theory Engine_Core
  imports Scheduler_Update
begin

text \<open>
  The engine core of \<^verbatim>\<open>vllm/v1/engine/core.py\<close> around the scheduler: new requests, aborts, the
  synchronous step, its post-step hook and the handling of client requests; with the constructor of
  \<open>Request\<close> in \<^verbatim>\<open>vllm/v1/request.py\<close>.  The model executor is a parameter: it turns the
  output of the scheduler into the output of the model and may let aborts arrive meanwhile.  Pooling
  tasks are a parameter too (\<open>supported\<close>).
\<close>

section \<open>New requests\<close>

text \<open>
  \<open>EngineCoreRequest\<close>, without the fields that only the front end reads; \<open>ecr_structured\<close> says
  whether the sampling parameters ask for structured output.
\<close>

record engine_core_request =
  ecr_request_id :: string
  ecr_prompt_token_ids :: "int list option"
  ecr_mm_features :: "mm_feature list"
  ecr_sampling_params :: "sampling_params option"
  ecr_structured :: bool
  ecr_pooling :: bool
  ecr_pooling_skip_reading :: "bool option"
  ecr_eos_token_id :: "int option"
  ecr_arrival_time :: rat
  ecr_lora_request :: "lora_request option"
  ecr_cache_salt :: "string option"
  ecr_prompt_embeds :: "bytes list option"
  ecr_priority :: int
  ecr_resumable :: bool

definition length_from_prompt_token_ids_or_embeds :: "int list option \<Rightarrow> bytes list option \<Rightarrow> int res" where
  "length_from_prompt_token_ids_or_embeds prompt_token_ids embeds =
     (case (prompt_token_ids, embeds) of
        (None, None) \<Rightarrow> Inl ValueError
      | (None, Some es) \<Rightarrow> Inr (py_len es)
      | (Some ts, None) \<Rightarrow> Inr (py_len ts)
      | (Some ts, Some es) \<Rightarrow> if py_len es \<noteq> py_len ts then Inl ValueError else Inr (py_len ts))"

text \<open>The status and the limit of new tokens, by the kind of the parameters.\<close>

definition initial_limits :: "engine_core_request \<Rightarrow> (int \<times> request_status) res" where
  "initial_limits q =
     (if ecr_pooling q then Inr (1, WAITING)
      else case ecr_sampling_params q of
          Some sp \<Rightarrow> (case sp_max_tokens sp of
              None \<Rightarrow> Inl AssertionError
            | Some max_tokens \<Rightarrow> Inr (max_tokens, if ecr_structured q then WAITING_FOR_FSM else WAITING))
        | None \<Rightarrow> Inl ValueError)"

definition Request :: "hasher option \<Rightarrow> engine_core_request \<Rightarrow> request res option" where
  "Request block_hasher q =
     obind (Some (initial_limits q)) (\<lambda>(max_tokens, status).
     obind (Some (length_from_prompt_token_ids_or_embeds (ecr_prompt_token_ids q) (ecr_prompt_embeds q))) (\<lambda>n.
     obind (update_block_hashes block_hasher
       \<lparr>request_id = ecr_request_id q, priority = ecr_priority q, arrival_time = ecr_arrival_time q,
        sampling_params_of = ecr_sampling_params q, is_pooling = ecr_pooling q,
        pooling_skip_reading = ecr_pooling_skip_reading q, eos_token_id = ecr_eos_token_id q,
        req_max_tokens = max_tokens, req_status = status, stop_reason = None, num_prompt_tokens = n,
        output_token_ids = [],
        all_token_ids = (case ecr_prompt_token_ids q of Some ts \<Rightarrow> ts | None \<Rightarrow> py_repeat 0 n),
        spec_token_ids = [], num_computed_tokens = 0, cache_salt = ecr_cache_salt q,
        lora_request_of = ecr_lora_request q, mm_features = ecr_mm_features q,
        prompt_embeds = ecr_prompt_embeds q, block_hashes = [], skip_reading_prefix_cache = False,
        num_preemptions = 0, num_output_placeholders = 0, discard_latest_async_tokens = False,
        is_prefill_chunk = False, num_cached_tokens = -1,
        use_structured_output = (ecr_sampling_params q \<noteq> None \<and> ecr_structured q),
        resumable = ecr_resumable q, streaming_queue = None\<rparr>) (\<lambda>r.
     Some (Inr (r\<lparr>skip_reading_prefix_cache := get_skip_reading_prefix_cache r\<rparr>)))))"

text \<open>\<open>preprocess_add_request\<close> without the receiver cache of multi-modal inputs.\<close>

definition preprocess_add_request :: "hasher option \<Rightarrow> engine_core_request \<Rightarrow> request res option" where
  "preprocess_add_request block_hasher q = Request block_hasher q"

section \<open>The engine\<close>

text \<open>The batch queue, newest batch first, is there when the executor takes several batches.\<close>

record engine =
  eng_sched :: scheduler
  scheduler_paused :: bool
  aborts_queue :: "string list list"
  batch_queue :: "scheduler_output list option"

definition has_unfinished_requests :: "scheduler \<Rightarrow> bool" where
  "has_unfinished_requests s \<longleftrightarrow> get_num_unfinished_requests s > 0"

definition has_requests :: "scheduler \<Rightarrow> bool" where
  "has_requests s \<longleftrightarrow> has_unfinished_requests s \<or> has_finished_requests s"

definition engine_add_request ::
    "sched_config \<Rightarrow> hasher option \<Rightarrow> (request \<Rightarrow> bool) \<Rightarrow> request \<Rightarrow> engine \<Rightarrow> engine res option" where
  "engine_add_request cfg h supported r e =
     (if is_pooling r \<and> \<not> supported r then Some (Inl ValueError)
      else obind (sched_add_request cfg h r (eng_sched e)) (\<lambda>s. Some (Inr (e\<lparr>eng_sched := s\<rparr>))))"

text \<open>The scheduler makes a set of the ids; \<open>remdups\<close> fixes an order.\<close>

definition abort_requests :: "sched_config \<Rightarrow> string list \<Rightarrow> engine \<Rightarrow> engine res" where
  "abort_requests cfg ids e =
     rbind (sched_finish_requests cfg (remdups ids) FINISHED_ABORTED (eng_sched e)) (\<lambda>s.
     Inr (e\<lparr>eng_sched := s\<rparr>))"

definition process_aborts_queue :: "sched_config \<Rightarrow> engine \<Rightarrow> engine res" where
  "process_aborts_queue cfg e =
     (if aborts_queue e \<noteq> [] then abort_requests cfg (concat (aborts_queue e)) (e\<lparr>aborts_queue := []\<rparr>)
      else Inr e)"

definition pause_scheduler :: "engine \<Rightarrow> engine" where
  "pause_scheduler e = e\<lparr>scheduler_paused := True\<rparr>"

definition resume_scheduler :: "engine \<Rightarrow> engine" where
  "resume_scheduler e = e\<lparr>scheduler_paused := False\<rparr>"

type_synonym executor = "scheduler_output \<Rightarrow> scheduler \<Rightarrow> model_runner_output \<times> string list list"

text \<open>The outputs of the step, and whether the model was executed.\<close>

definition engine_step ::
    "sched_config \<Rightarrow> hasher option \<Rightarrow> (string \<Rightarrow> bool) \<Rightarrow> (mm_hash \<Rightarrow> bool) \<Rightarrow> executor \<Rightarrow> engine \<Rightarrow>
     (engine_core_output list \<times> bool \<times> engine) res option" where
  "engine_step cfg h grammar_ready remote execute_model e =
     (if scheduler_paused e then Some (Inr ([], False, e))
      else if \<not> has_requests (eng_sched e) then Some (Inr ([], False, e))
      else
        obind (schedule cfg grammar_ready remote (eng_sched e)) (\<lambda>(out, s1).
        let (model_output, arrived) = execute_model out s1 in
        obind (Some (process_aborts_queue cfg (e\<lparr>eng_sched := s1, aborts_queue := aborts_queue e @ arrived\<rparr>))) (\<lambda>e2.
        obind (update_from_output cfg h out model_output (eng_sched e2)) (\<lambda>(outputs, events, s3).
        Some (Inr (outputs, so_total_num_scheduled_tokens out > 0, e2\<lparr>eng_sched := s3\<rparr>))))))"

text \<open>The draft tokens are taken from the executor after a step that executed the model.\<close>

type_synonym token_filter = "string \<Rightarrow> (int list \<Rightarrow> int list) option"

definition post_step ::
    "sched_config \<Rightarrow> token_filter \<Rightarrow> (string \<times> int list) list option \<Rightarrow> bool \<Rightarrow> bool \<Rightarrow> engine \<Rightarrow> engine" where
  "post_step cfg valid drafts use_spec_decode model_executed e =
     (if \<not> async_scheduling cfg \<and> use_spec_decode \<and> model_executed
      then (case drafts of
              None \<Rightarrow> e
            | Some ds \<Rightarrow> e\<lparr>eng_sched := update_draft_token_ids valid ds (eng_sched e)\<rparr>)
      else e)"

section \<open>The step with a batch queue\<close>

text \<open>
  The executor: the output of a synchronous step; the result of a batch when it is awaited, \<open>None\<close>
  when its execution failed; whether the oldest batch is done; the draft tokens.
\<close>

record model_executor =
  execute_model :: executor
  batch_result :: "scheduler_output \<Rightarrow> scheduler \<Rightarrow> model_runner_output option \<times> string list list"
  future_done :: "scheduler_output \<Rightarrow> bool"
  take_draft_token_ids :: "(string \<times> int list) list option"

record engine_config =
  batch_queue_size :: int
  is_ec_producer :: bool
  is_pooling_model :: bool
  use_spec_decode :: bool

text \<open>The oldest batch is awaited; then a batch that was deferred joins the queue.\<close>

definition finish_batch ::
    "sched_config \<Rightarrow> hasher option \<Rightarrow> token_filter \<Rightarrow> engine_config \<Rightarrow> model_executor \<Rightarrow> scheduler_output option \<Rightarrow>
     bool \<Rightarrow> scheduler_output list \<Rightarrow> engine \<Rightarrow> (engine_core_output list option \<times> bool \<times> engine) res option" where
  "finish_batch cfg h valid ec ex deferred model_executed batches e =
     (if batches = [] then Some (Inl IndexError)
      else let out = last batches; (model_output, arrived) = batch_result ex out (eng_sched e);
             e1 = e\<lparr>aborts_queue := aborts_queue e @ arrived, batch_queue := Some (butlast batches)\<rparr>
      in case model_output of
           None \<Rightarrow> Some (Inl RuntimeError)
         | Some mo \<Rightarrow>
             obind (Some (process_aborts_queue cfg e1)) (\<lambda>e2.
             obind (update_from_output cfg h out mo (eng_sched e2)) (\<lambda>(outputs, events, s3).
             let e3 = e2\<lparr>eng_sched := s3\<rparr> in
             case deferred of
               None \<Rightarrow> Some (Inr (Some outputs, model_executed, e3))
             | Some d \<Rightarrow>
                 obind (if use_spec_decode ec
                   then (case take_draft_token_ids ex of
                           None \<Rightarrow> Some (Inl AssertionError)
                         | Some ds \<Rightarrow> Some (Inr (update_draft_token_ids_in_output valid ds s3 d)))
                   else Some (Inr d)) (\<lambda>d'.
                 Some (Inr (Some outputs, model_executed, e3\<lparr>batch_queue := Some (d' # butlast batches)\<rparr>))))))"

definition step_with_batch_queue ::
    "sched_config \<Rightarrow> hasher option \<Rightarrow> (string \<Rightarrow> bool) \<Rightarrow> (mm_hash \<Rightarrow> bool) \<Rightarrow> token_filter \<Rightarrow> engine_config \<Rightarrow>
     model_executor \<Rightarrow> engine \<Rightarrow> (engine_core_output list option \<times> bool \<times> engine) res option" where
  "step_with_batch_queue cfg h grammar_ready remote valid ec ex e =
     (if scheduler_paused e then Some (Inr (Some [], False, e))
      else case batch_queue e of
          None \<Rightarrow> Some (Inl AssertionError)
        | Some batches \<Rightarrow>
            obind (Some (py_assert (py_len batches < batch_queue_size ec))) (\<lambda>_.
            if has_requests (eng_sched e) then
              obind (schedule cfg grammar_ready remote (eng_sched e)) (\<lambda>(out, s1).
              let e1 = e\<lparr>eng_sched := s1\<rparr>;
                  model_executed = (\<not> is_ec_producer ec \<and> so_total_num_scheduled_tokens out > 0)
              in if is_pooling_model ec \<or> \<not> model_executed \<or> \<not> so_pending_structured_output_tokens out
                 then let batches1 = out # batches in
                   if model_executed \<and> py_len batches1 < batch_queue_size ec \<and> \<not> future_done ex (last batches1)
                   then Some (Inr (None, True, e1\<lparr>batch_queue := Some batches1\<rparr>))
                   else finish_batch cfg h valid ec ex None model_executed batches1 e1
                 else finish_batch cfg h valid ec ex (Some out) model_executed batches e1)
            else if batches = [] then Some (Inr (None, False, e))
            else finish_batch cfg h valid ec ex None False batches e))"

section \<open>Client requests\<close>

text \<open>
  Of the utility calls only those that pause and resume the scheduler; they do not raise.  A request of
  unknown type is logged and ignored.
\<close>

datatype client_request =
    ADD request
  | ABORT "string list"
  | PAUSE
  | RESUME
  | EXECUTOR_FAILED

definition handle_client_request ::
    "sched_config \<Rightarrow> hasher option \<Rightarrow> (request \<Rightarrow> bool) \<Rightarrow> client_request \<Rightarrow> engine \<Rightarrow> engine res option" where
  "handle_client_request cfg h supported q e =
     (case q of
        ADD r \<Rightarrow> engine_add_request cfg h supported r e
      | ABORT ids \<Rightarrow> Some (abort_requests cfg ids e)
      | PAUSE \<Rightarrow> Some (Inr (pause_scheduler e))
      | RESUME \<Rightarrow> Some (Inr (resume_scheduler e))
      | EXECUTOR_FAILED \<Rightarrow> Some (Inl RuntimeError))"

text \<open>
  \<open>qs\<close> are the requests that are taken from the input queue, each with whether the queue was empty
  before it came.  While the engine waits for work it drops the aborts that came by the side; when it
  still waits after the last one, the call does not return.
\<close>

definition waits_for_input :: "engine \<Rightarrow> bool" where
  "waits_for_input e \<longleftrightarrow> \<not> has_requests (eng_sched e) \<and> batch_queue e \<in> {None, Some []} \<and> \<not> scheduler_paused e"

primrec process_input_queue ::
    "sched_config \<Rightarrow> hasher option \<Rightarrow> (request \<Rightarrow> bool) \<Rightarrow> (bool \<times> client_request) list \<Rightarrow> bool \<Rightarrow> engine \<Rightarrow>
     engine res option" where
  "process_input_queue cfg h supported [] waiting_loop e =
     (if waiting_loop \<and> waits_for_input e then None else Some (Inr e))"
| "process_input_queue cfg h supported (q # qs) waiting_loop e =
     (let (was_empty, request) = q; waits = (waiting_loop \<and> waits_for_input e);
          e1 = (if waits \<and> was_empty then e\<lparr>aborts_queue := []\<rparr> else e)
      in obind (handle_client_request cfg h supported request e1) (process_input_queue cfg h supported qs waits))"

definition process_engine_step ::
    "sched_config \<Rightarrow> hasher option \<Rightarrow> (string \<Rightarrow> bool) \<Rightarrow> (mm_hash \<Rightarrow> bool) \<Rightarrow> token_filter \<Rightarrow> engine_config \<Rightarrow>
     model_executor \<Rightarrow> engine \<Rightarrow> (engine_core_output list \<times> bool \<times> engine) res option" where
  "process_engine_step cfg h grammar_ready remote valid ec ex e =
     obind (case batch_queue e of
              None \<Rightarrow> engine_step cfg h grammar_ready remote (execute_model ex) e
            | Some _ \<Rightarrow> obind (step_with_batch_queue cfg h grammar_ready remote valid ec ex e)
                (\<lambda>(outputs, executed, e1).
                 Some (Inr (case outputs of None \<Rightarrow> [] | Some os \<Rightarrow> os, executed, e1))))
       (\<lambda>(outputs, model_executed, e1).
     Some (Inr (outputs, model_executed,
       post_step cfg valid (take_draft_token_ids ex) (use_spec_decode ec) model_executed e1)))"

text \<open>One round of the busy loop.\<close>

definition busy_round ::
    "sched_config \<Rightarrow> hasher option \<Rightarrow> (request \<Rightarrow> bool) \<Rightarrow> (string \<Rightarrow> bool) \<Rightarrow> (mm_hash \<Rightarrow> bool) \<Rightarrow> token_filter \<Rightarrow>
     engine_config \<Rightarrow> model_executor \<Rightarrow> (bool \<times> client_request) list \<Rightarrow> engine \<Rightarrow>
     (engine_core_output list \<times> bool \<times> engine) res option" where
  "busy_round cfg h supported grammar_ready remote valid ec ex qs e =
     obind (process_input_queue cfg h supported qs True e)
       (process_engine_step cfg h grammar_ready remote valid ec ex)"

end
