(* ===== verification/Engine_Inv.thy ===== *)
theory Engine_Inv
  imports Scheduler_Frame Engine_Core
begin

text \<open>
  The invariant of the scheduler between the calls of the engine, and how requests come, finish and
  change under it.
\<close>

section \<open>The setting\<close>

text \<open>
  What does not change while the engine runs.  With prefix caching the blocks of a request are
  hashed by \<open>request_block_hasher\<close>, without it there is no hasher.  \<open>st_inputs\<close> is a set of inputs
  on which the hash function has no collision; it may be any set with the inputs that occur.
\<close>

record setting =
  st_caching :: bool
  st_hash :: hash_function
  st_none_hash :: bytes
  st_inputs :: "(bytes \<times> int list \<times> extra_key list option) set"
  st_block_size :: int
  st_max_len :: int
  st_sizes :: "mm_hash \<Rightarrow> int"
  st_cfg :: sched_config

definition contract :: "setting \<Rightarrow> string set \<Rightarrow> kv_contract" where
  "contract E I = model_contract (st_caching E) (st_block_size E) (st_max_len E) I"

definition hasher_of :: "setting \<Rightarrow> hasher option" where
  "hasher_of E = (if st_caching E
     then Some (request_block_hasher (st_hash E) (st_none_hash E) (st_block_size E)) else None)"

definition setting_ok :: "setting \<Rightarrow> bool" where
  "setting_ok E \<longleftrightarrow> plain_sched (contract E {}) (st_cfg E) \<and> \<not> async_scheduling (st_cfg E) \<and>
     (\<forall>h. 0 \<le> st_sizes E h) \<and>
     (st_caching E \<longrightarrow> 0 < st_block_size E \<and> collision_free (st_hash E) (st_none_hash E) (st_inputs E))"

lemma contract_simps [simp]:
  "kv_fine (contract E I) k \<longleftrightarrow> kv_ok (st_caching E) (st_block_size E) (st_max_len E) k \<and> (\<forall>rid. rid \<notin> I \<longrightarrow> fresh rid k)"
  "kv_covers (contract E I) rid n k \<longleftrightarrow> rid \<in> I \<and> covered rid n k"
  "kv_new (contract E I) rid k \<longleftrightarrow> rid \<in> I \<and> fresh rid k"
  "kv_hashed (contract E I) = hashed (st_caching E) (st_block_size E)"
  "kv_max_len (contract E I) = st_max_len E"
  by (simp_all add: contract_def)

lemma request_ok_contract: "request_ok (contract E I) sz rid r = request_ok (contract E J) sz rid r"
  by (simp add: request_ok_def)

lemma setting_plain: "setting_ok E \<Longrightarrow> plain_sched (contract E I) (st_cfg E)"
  by (simp add: setting_ok_def plain_sched_def)

lemma setting_sizes: "setting_ok E \<Longrightarrow> 0 \<le> st_sizes E h"
  by (simp add: setting_ok_def)

section \<open>Requests\<close>

text \<open>The hash function has no collision on the blocks of a request when the tokens \<open>ts\<close> are added to it.\<close>

definition known :: "setting \<Rightarrow> request \<Rightarrow> int list \<Rightarrow> bool" where
  "known E r ts \<longleftrightarrow> (st_caching E \<longrightarrow>
     hash_inputs (st_hash E) (st_none_hash E) (st_block_size E) (r\<lparr>all_token_ids := all_token_ids r @ ts\<rparr>) \<subseteq> st_inputs E)"

lemma hash_inputs_cong:
  assumes "all_token_ids r' = all_token_ids r" "lora_request_of r' = lora_request_of r"
    "cache_salt r' = cache_salt r" "prompt_embeds r' = prompt_embeds r"
  shows "hash_inputs H nh bs r' = hash_inputs H nh bs r"
proof -
  have same: "block_tokens bs r' = block_tokens bs r" "text_keys bs r' = text_keys bs r"
    by (simp_all add: fun_eq_iff block_tokens_def text_keys_def Let_def gen_lora_extra_hash_keys_def cache_salt_keys_def
        gen_prompt_embeds_extra_hash_keys_def assms)
  have "chain_hash H nh bs r' i = chain_hash H nh bs r i" for i by (rule chain_hash_cong) (simp_all add: same)
  then have "hash_input H nh bs r' i = hash_input H nh bs r i" for i by (cases i) (simp_all add: hash_input_def same)
  moreover have "full_blocks bs r' = full_blocks bs r" by (simp add: full_blocks_def num_tokens_def assms)
  ultimately show ?thesis by (simp add: hash_inputs_def)
qed

lemma known_cong:
  assumes "all_token_ids r' = all_token_ids r @ new" "lora_request_of r' = lora_request_of r"
    "cache_salt r' = cache_salt r" "prompt_embeds r' = prompt_embeds r"
  shows "known E r' ts = known E r (new @ ts)"
proof -
  have "hash_inputs H nh bs (r'\<lparr>all_token_ids := all_token_ids r' @ ts\<rparr>) =
      hash_inputs H nh bs (r\<lparr>all_token_ids := all_token_ids r @ new @ ts\<rparr>)" for H nh bs
    by (rule hash_inputs_cong) (simp_all add: assms)
  then show ?thesis by (simp add: known_def)
qed

lemma known_shorter:
  assumes "st_caching E \<longrightarrow> 0 < st_block_size E" and "known E r (ts @ ts')"
  shows "known E r ts"
proof -
  have "hash_inputs H nh bs q \<subseteq> hash_inputs H nh bs (q\<lparr>all_token_ids := all_token_ids q @ ts'\<rparr>)" if bs: "0 < bs" for H nh bs q
  proof -
    let ?q = "q\<lparr>all_token_ids := all_token_ids q @ ts'\<rparr>"
    have keys: "text_keys bs ?q = text_keys bs q"
      by (simp add: fun_eq_iff text_keys_def Let_def gen_lora_extra_hash_keys_def cache_salt_keys_def
          gen_prompt_embeds_extra_hash_keys_def)
    have toks: "block_tokens bs ?q i = block_tokens bs q i" if "i < full_blocks bs q" for i
      using that full_iff [OF bs, of q i] bs by (intro block_tokens_prefix) auto
    have "chain_hash H nh bs ?q i = chain_hash H nh bs q i" if "i < full_blocks bs q" for i
      by (rule chain_hash_cong) (use that toks keys in auto)
    then have "hash_input H nh bs ?q i = hash_input H nh bs q i" if "i < full_blocks bs q" for i
      using that toks keys by (cases i) (simp_all add: hash_input_def)
    moreover have "full_blocks bs q \<le> full_blocks bs ?q"
      using bs by (simp add: full_blocks_def num_tokens_def py_len_def zdiv_mono1 nat_mono)
    ultimately show ?thesis unfolding hash_inputs_def by (intro image_subsetI) (metis imageI lessThan_iff less_le_trans)
  qed
  from this [of "st_block_size E" "st_hash E" "st_none_hash E" "r\<lparr>all_token_ids := all_token_ids r @ ts\<rparr>"] assms
  show ?thesis by (auto simp: known_def)
qed

text \<open>
  A request of the engine: no streaming session; its prompt and the least number of output tokens fit
  in the model length; with prefix caching one of text only, whose block hashes are those of its tokens,
  from inputs on which the hash function has no collision.
\<close>

definition served :: "setting \<Rightarrow> string \<Rightarrow> request \<Rightarrow> bool" where
  "served E rid r \<longleftrightarrow> request_id r = rid \<and> sized (st_sizes E) r \<and> \<not> resumable r \<and> num_output_placeholders r = 0 \<and>
     (is_pooling r \<or> sampling_params_of r \<noteq> None) \<and> num_tokens r = num_prompt_tokens r + num_output_tokens r \<and>
     (\<forall>sp. sampling_params_of r = Some sp \<longrightarrow> num_prompt_tokens r + min_tokens sp \<le> st_max_len E) \<and>
     known E r [] \<and> (st_caching E \<longrightarrow> mm_features r = [] \<and> prompt_embeds r = None \<and>
        hashes_ok (st_hash E) (st_none_hash E) (st_block_size E) r (full_blocks (st_block_size E) r))"

lemma hashes_hashed:
  assumes bs: "0 < bs" and cf: "collision_free H nh X" and X: "hash_inputs H nh bs r \<subseteq> X" and ok: "hashes_ok H nh bs r (full_blocks bs r)"
  shows "hashed caching bs (block_hashes r) (num_tokens r)"
proof -
  have "0 \<le> num_tokens r div bs" using bs by (simp add: num_tokens_def py_len_def pos_imp_zdiv_nonneg_iff)
  then have "py_len (block_hashes r) = num_tokens r div bs" using ok by (simp add: hashes_ok_def py_len_def full_blocks_def)
  moreover have "inj_on (chain_hash H nh bs r) {0..<full_blocks bs r}"
    using chain_hash_inj [OF cf X X] by (auto simp: inj_on_def)
  then have "distinct (block_hashes r)" using ok by (simp add: hashes_ok_def distinct_map)
  ultimately show ?thesis by (simp add: hashed_def)
qed

lemma served_hashed:
  assumes "setting_ok E" and "served E rid r"
  shows "hashed (st_caching E) (st_block_size E) (block_hashes r) (num_tokens r)"
  using assms hashes_hashed [of "st_block_size E" "st_hash E" "st_none_hash E" "st_inputs E" r]
  by (cases "st_caching E") (simp_all add: setting_ok_def served_def known_def, simp add: hashed_def)

lemma hashes_ok_cong:
  assumes "all_token_ids r' = all_token_ids r" "block_hashes r' = block_hashes r" "lora_request_of r' = lora_request_of r"
    "cache_salt r' = cache_salt r" "prompt_embeds r' = prompt_embeds r"
  shows "hashes_ok H nh bs r' n = hashes_ok H nh bs r n \<and> full_blocks bs r' = full_blocks bs r"
proof -
  have "chain_hash H nh bs r' i = chain_hash H nh bs r i" for i
    by (rule chain_hash_cong)
      (simp_all add: block_tokens_def text_keys_def Let_def gen_lora_extra_hash_keys_def cache_salt_keys_def
        gen_prompt_embeds_extra_hash_keys_def assms)
  then have "chain_hash H nh bs r' = chain_hash H nh bs r" by (rule ext)
  then show ?thesis by (simp add: hashes_ok_def full_blocks_def num_tokens_def assms)
qed

text \<open>The fields that \<open>served\<close> reads.\<close>

definition same_request :: "request \<Rightarrow> request \<Rightarrow> bool" where
  "same_request r r' \<longleftrightarrow> request_id r' = request_id r \<and> all_token_ids r' = all_token_ids r \<and> block_hashes r' = block_hashes r \<and>
     lora_request_of r' = lora_request_of r \<and> cache_salt r' = cache_salt r \<and> prompt_embeds r' = prompt_embeds r \<and>
     mm_features r' = mm_features r \<and> resumable r' = resumable r \<and> is_pooling r' = is_pooling r \<and>
     sampling_params_of r' = sampling_params_of r \<and> output_token_ids r' = output_token_ids r \<and>
     num_prompt_tokens r' = num_prompt_tokens r \<and> num_output_placeholders r' = num_output_placeholders r \<and>
     request_key r' = request_key r"

lemma same_served:
  assumes "same_request r r'"
  shows "served E rid r' = served E rid r"
  using assms hashes_ok_cong [of r' r] known_cong [of r' r "[]"]
  by (simp add: served_def same_request_def sized_def num_tokens_def num_output_tokens_def)

lemma same_known: "same_request r r' \<Longrightarrow> known E r' ts = known E r ts"
  using known_cong [of r' r "[]"] by (simp add: same_request_def)

lemma fixed_same:
  assumes "fixed_part r' = fixed_part r"
  shows "same_request r r'"
proof -
  have "priority r' = priority r" "arrival_time r' = arrival_time r"
    using arg_cong [OF assms, of priority] arg_cong [OF assms, of arrival_time] by (simp_all add: fixed_part_def)
  then show ?thesis using fixed_fields [OF assms] by (simp add: same_request_def request_key_def)
qed

section \<open>The invariant\<close>

text \<open>
  \<open>X\<close> are the requests that have left the queues and are about to be freed; \<open>ds rid\<close> are the draft
  tokens of a request whose output is still to come.
\<close>

definition loop_inv :: "setting \<Rightarrow> string set \<Rightarrow> (string \<Rightarrow> int list) \<Rightarrow> scheduler \<Rightarrow> bool" where
  "loop_inv E X ds s \<longleftrightarrow>
     sched_inv (contract E (set (requests s))) (st_sizes E) (st_cfg E) s \<and> distinct (requests s) \<and>
     set (requests s) = set (running s) \<union> set (waiting s) \<union> X \<and> X \<inter> (set (running s) \<union> set (waiting s)) = {} \<and>
     (\<forall>rid \<in> set (requests s). served E rid (objs s rid)) \<and>
     (\<forall>rid \<in> set (running s). reach (objs s rid) (num_computed_tokens (objs s rid)) (ds rid))"

lemma loopD:
  assumes "loop_inv E X ds s"
  shows "core_inv (contract E (set (requests s))) (st_sizes E) (waiting s) s"
    and "queue_ok (st_cfg E) s (waiting s)" and "py_len (running s) \<le> max_num_running_reqs (st_cfg E)"
    and "\<forall>rid \<in> set (waiting s). req_status (objs s rid) = PREEMPTED \<longrightarrow> rid \<notin> prev_step_scheduled_req_ids s"
    and "distinct (requests s)" and "set (requests s) = set (running s) \<union> set (waiting s) \<union> X"
    and "X \<inter> (set (running s) \<union> set (waiting s)) = {}" and "\<forall>rid \<in> set (requests s). served E rid (objs s rid)"
    and "\<forall>rid \<in> set (running s). reach (objs s rid) (num_computed_tokens (objs s rid)) (ds rid)"
  using assms unfolding loop_inv_def sched_inv_def by blast+

lemma loopI:
  assumes "core_inv (contract E (set (requests s))) (st_sizes E) (waiting s) s"
    and "queue_ok (st_cfg E) s (waiting s)" and "py_len (running s) \<le> max_num_running_reqs (st_cfg E)"
    and "\<forall>rid \<in> set (waiting s). req_status (objs s rid) = PREEMPTED \<longrightarrow> rid \<notin> prev_step_scheduled_req_ids s"
    and "distinct (requests s)" and "set (requests s) = set (running s) \<union> set (waiting s) \<union> X"
    and "X \<inter> (set (running s) \<union> set (waiting s)) = {}" and "\<forall>rid \<in> set (requests s). served E rid (objs s rid)"
    and "\<forall>rid \<in> set (running s). reach (objs s rid) (num_computed_tokens (objs s rid)) (ds rid)"
  shows "loop_inv E X ds s"
  using assms unfolding loop_inv_def sched_inv_def by blast

text \<open>Between the steps.\<close>

definition idle_inv :: "setting \<Rightarrow> scheduler \<Rightarrow> bool" where
  "idle_inv E s \<longleftrightarrow> loop_inv E {} (\<lambda>_. []) s"

lemma queue_ok_on:
  assumes "\<And>a. a \<in> set q \<Longrightarrow> request_key (objs s' a) = request_key (objs s a)"
  shows "queue_ok cfg s' q = queue_ok cfg s q"
proof (cases "policy cfg")
  case FCFS
  then show ?thesis by (simp add: queue_ok_def q_invar_def)
next
  case PRIORITY
  have "sched_lt s' (q ! i) (q ! j) = sched_lt s (q ! i) (q ! j)" if "i < length q" "j < length q" for i j
    using assms that by (simp add: sched_lt_def request_lt_key)
  moreover have "parent i < length q" if "i < length q" for i using that by (auto simp: parent_def)
  ultimately show ?thesis using PRIORITY by (auto simp: queue_ok_def q_invar_def heap_from_def)
qed

text \<open>Requests leave the queues.\<close>

lemma leave_queues:
  assumes inv: "loop_inv E X ds s" and V: "V \<subseteq> set (running s) \<union> set (waiting s)"
    and w: "queue_ok (st_cfg E) s w" "mset w = filter_mset (\<lambda>x. x \<notin> V) (mset (waiting s))"
    and r: "rs = filter (\<lambda>x. x \<notin> V) (running s)"
    and s': "running s' = rs" "waiting s' = w" "objs s' = objs s" "requests s' = requests s" "kv s' = kv s"
    "encoder s' = encoder s" "prev_step_scheduled_req_ids s' = prev_step_scheduled_req_ids s"
  shows "loop_inv E (X \<union> V) ds s'"
proof -
  note I = loopD [OF inv]
  have ws: "set w = set (waiting s) - V" using arg_cong [OF w(2), of set_mset] by auto
  have "mset w = mset (filter (\<lambda>x. x \<notin> V) (waiting s))" by (simp add: w(2))
  then have "distinct w \<longleftrightarrow> distinct (filter (\<lambda>x. x \<notin> V) (waiting s))" by (rule mset_eq_imp_distinct_iff)
  moreover have d: "distinct (running s @ waiting s)" using I(1) by (simp add: core_inv_def)
  ultimately have dist: "distinct (rs @ w)" using ws by (auto simp: r)
  have core': "core_inv (contract E (set (requests s'))) (st_sizes E) w s'"
    using I(1) dist ws by (auto simp: core_inv_def s' r running_ok_def waiting_ok_def Let_def)
  have q: "queue_ok (st_cfg E) s' w" using w(1) queue_ok_on [of w s' s] by (simp add: s')
  have "length rs \<le> length (running s)" by (simp add: r)
  then have len: "py_len (running s') \<le> max_num_running_reqs (st_cfg E)" using I(3) by (simp add: s' py_len_def)
  show ?thesis
  proof (rule loopI)
    show "set (requests s') = set (running s') \<union> set (waiting s') \<union> (X \<union> V)"
      using I(6) V ws by (auto simp: s' r)
    show "(X \<union> V) \<inter> (set (running s') \<union> set (waiting s')) = {}" using I(7) ws by (auto simp: s' r)
  qed (use core' q len I ws in \<open>auto simp: s' r\<close>)
qed

text \<open>The object of a request that has left changes.\<close>

lemma change_limbo:
  assumes inv: "loop_inv E X ds s" and rid: "rid \<in> X" and r: "\<And>r. served E rid r \<Longrightarrow> served E rid (f r)"
    and s': "s' = set_obj rid f s"
  shows "loop_inv E X ds s'"
proof -
  note I = loopD [OF inv]
  have out: "rid \<notin> set (running s)" "rid \<notin> set (waiting s)" using I(7) rid by auto
  have eq: "objs s' x = objs s x" if "x \<in> set (running s) \<union> set (waiting s)" for x
    using that out by (auto simp: s' set_obj_def)
  have s: "running s' = running s" "waiting s' = waiting s" "requests s' = requests s" "kv s' = kv s" "encoder s' = encoder s"
    "prev_step_scheduled_req_ids s' = prev_step_scheduled_req_ids s" by (simp_all add: s' set_obj_def)
  show ?thesis
  proof (rule loopI)
    show "core_inv (contract E (set (requests s'))) (st_sizes E) (waiting s') s'"
      using I(1) eq by (auto simp: core_inv_def running_ok_def waiting_ok_def s Let_def)
    show "queue_ok (st_cfg E) s' (waiting s')" using I(2) eq queue_ok_on [of "waiting s" s' s] by (simp add: s)
    show "\<forall>x \<in> set (requests s'). served E x (objs s' x)" using I(8) r by (auto simp: s' set_obj_def)
  qed (use I eq in \<open>auto simp: s\<close>)
qed

text \<open>A request that has left is freed.\<close>

lemma free_limbo:
  assumes E: "setting_ok E" and inv: "loop_inv E (insert rid X) ds s" and rid: "rid \<notin> X"
    and fin: "status_is_finished (req_status (objs s rid))"
  shows "\<exists>s'. sched_free_request rid s = Inr s' \<and> loop_inv E X ds s' \<and> running s' = running s \<and> waiting s' = waiting s \<and>
    objs s' = objs s \<and> requests s' = remove1 rid (requests s) \<and>
    prev_step_scheduled_req_ids s' = prev_step_scheduled_req_ids s"
proof -
  let ?r = "objs s rid" and ?I = "set (requests s)"
  note I = loopD [OF inv]
  have core: "core_inv (contract E ?I) (st_sizes E) (waiting s) s" by (rule I(1))
  have mem: "rid \<in> ?I" "served E rid ?r" "rid \<notin> set (running s)" "rid \<notin> set (waiting s)" "distinct (requests s)"
    using I by auto
  have r: "request_id ?r = rid" "sized (st_sizes E) ?r" using mem(2) by (simp_all add: served_def)
  obtain e where e: "ecm_free ?r (encoder s) = Inr e" "ecm_inv (st_sizes E) e"
    using ecm_free_kept [OF setting_sizes [OF E] r(2), of "encoder s"] core by (auto simp: core_inv_def)
  have "kv_ok (st_caching E) (st_block_size E) (st_max_len E) (kv s)" and strange: "\<forall>x. x \<notin> ?I \<longrightarrow> fresh x (kv s)"
    using core by (simp_all add: core_inv_def)
  from release_call [OF this(1), of ?r] obtain k where k: "free_request ?r (kv s) = Inr k"
    "kv_ok (st_caching E) (st_block_size E) (st_max_len E) k" "same_tables (\<lambda>x. x \<noteq> rid) (kv s) k" "fresh rid k"
    by (auto simp: r)
  let ?s' = "s\<lparr>encoder := e, finished_req_ids := insert rid (finished_req_ids s), kv := k, requests := remove1 rid (requests s)\<rparr>"
  have run: "sched_free_request rid s = Inr ?s'"
    using fin e(1) k(1) mem(1) by (simp add: sched_free_request_def free_blocks_of_def)
  have reqs: "set (requests ?s') = ?I - {rid}" using mem(5) by simp
  have same: "covered x n k" if "covered x n (kv s)" "x \<noteq> rid" for x n using k(3) that by (simp add: same_tables_def)
  have same': "fresh x k" if "fresh x (kv s)" for x using k(3,4) that by (cases "x = rid") (simp_all add: same_tables_def)
  have fresh: "\<forall>x. x \<notin> ?I - {rid} \<longrightarrow> fresh x k" using strange k(4) same' by auto
  have "core_inv (contract E (?I - {rid})) (st_sizes E) (waiting s) ?s'"
    unfolding core_inv_def
  proof (intro conjI ballI)
    fix x assume x: "x \<in> set (running ?s')"
    then have "running_ok (contract E ?I) (st_sizes E) s x" "x \<noteq> rid" using core mem(3) by (auto simp: core_inv_def)
    then show "running_ok (contract E (?I - {rid})) (st_sizes E) ?s' x"
      using same request_ok_contract [of E ?I "st_sizes E" x "objs s x" "?I - {rid}"] mem(5) by (auto simp: running_ok_def Let_def)
  next
    fix x assume x: "x \<in> set (waiting s)"
    then have "waiting_ok (contract E ?I) (st_sizes E) s x" "x \<noteq> rid" using core mem(4) by (auto simp: core_inv_def)
    then show "waiting_ok (contract E (?I - {rid})) (st_sizes E) ?s' x"
      using same' request_ok_contract [of E ?I "st_sizes E" x "objs s x" "?I - {rid}"] mem(5) by (auto simp: waiting_ok_def Let_def)
  qed (use core k(2) fresh e(2) in \<open>simp_all add: core_inv_def\<close>)
  then have core': "core_inv (contract E (set (requests ?s'))) (st_sizes E) (waiting ?s') ?s'" unfolding reqs by simp
  have lt: "sched_lt ?s' = sched_lt s" by (rule sched_lt_cong) simp
  have "loop_inv E X ds ?s'"
  proof (rule loopI [OF core'])
    show "set (requests ?s') = set (running ?s') \<union> set (waiting ?s') \<union> X" unfolding reqs using I(6) mem(3,4) rid by auto
    show "\<forall>x \<in> set (requests ?s'). served E x (objs ?s' x)" unfolding reqs using I(8) by simp
  qed (use I queue_ok_lt [OF lt, of "st_cfg E"] in auto)
  with run show ?thesis by simp
qed

section \<open>Requests finish\<close>

lemma remove_all_filter: "distinct lst \<Longrightarrow> remove_all lst xs = filter (\<lambda>x. x \<notin> set xs) lst"
proof -
  assume d: "distinct lst"
  consider "xs = []" | x where "xs = [x]" | "xs \<noteq> []" "length xs \<noteq> 1" by (cases xs) auto
  then show ?thesis
  proof cases
    case (2 x)
    then show ?thesis using d by (simp add: remove_all_def distinct_remove1_removeAll removeAll_filter_not_eq) (metis (mono_tags))
  qed (simp_all add: remove_all_def)
qed

lemma collect_all:
  assumes "\<And>rid. rid \<in> set (requests s) \<Longrightarrow> \<not> status_is_finished (req_status (objs s rid)) \<and>
      req_status (objs s rid) \<noteq> WAITING_FOR_STREAMING_REQ"
  shows "fp_valid (fold (collect_finish s) ids f) = fp_valid f @ filter (\<lambda>x. x \<in> set (requests s)) ids \<and>
    set (fp_running (fold (collect_finish s) ids f)) =
      set (fp_running f) \<union> {x \<in> set ids. x \<in> set (requests s) \<and> req_status (objs s x) = RUNNING} \<and>
    set (fp_waiting (fold (collect_finish s) ids f)) =
      set (fp_waiting f) \<union> {x \<in> set ids. x \<in> set (requests s) \<and> req_status (objs s x) \<noteq> RUNNING} \<and>
    fp_streaming (fold (collect_finish s) ids f) = fp_streaming f"
proof (induction ids arbitrary: f)
  case (Cons rid ids)
  show ?case using Cons.IH [of "collect_finish s rid f"] assms [of rid] by (auto simp: collect_finish_def Let_def)
qed simp

lemma finish_all:
  assumes E: "setting_ok E" and fin: "status_is_finished st"
  shows "loop_inv E (X \<union> set ids) ds s \<Longrightarrow> distinct ids \<Longrightarrow> X \<inter> set ids = {} \<Longrightarrow>
    \<exists>s'. rfold (finish_one st) ids s = Inr s' \<and> loop_inv E X ds s' \<and> running s' = running s \<and> waiting s' = waiting s \<and>
      (\<forall>x. x \<notin> set ids \<longrightarrow> objs s' x = objs s x) \<and> set (requests s') = set (requests s) - set ids"
proof (induction ids arbitrary: s)
  case (Cons rid ids)
  let ?s1 = "set_obj rid (\<lambda>r. r\<lparr>req_status := st\<rparr>) s"
  have served': "served E rid (r\<lparr>req_status := st\<rparr>)" if "served E rid r" for r
    using that same_served [of r "r\<lparr>req_status := st\<rparr>" E rid] by (simp add: same_request_def request_key_def)
  have "loop_inv E (insert rid (X \<union> set ids)) ds ?s1"
    by (rule change_limbo [OF _ _ served' refl]) (use Cons.prems(1) in simp_all)
  moreover have "rid \<notin> X \<union> set ids" using Cons.prems(2,3) by auto
  moreover have "status_is_finished (req_status (objs ?s1 rid))" using fin by (simp add: set_obj_def)
  ultimately obtain s1 where s1: "finish_one st rid s = Inr s1" "loop_inv E (X \<union> set ids) ds s1" "running s1 = running s"
    "waiting s1 = waiting s" "objs s1 = objs ?s1" "requests s1 = remove1 rid (requests s)"
    using free_limbo [OF E, of rid "X \<union> set ids" ds ?s1] by (auto simp: finish_one_def) (simp_all add: set_obj_def)
  have d: "distinct (requests s)" using loopD(5) [OF Cons.prems(1)] .
  from Cons.IH [OF s1(2)] Cons.prems(2,3) obtain s' where "rfold (finish_one st) ids s1 = Inr s'" "loop_inv E X ds s'"
    "running s' = running s1" "waiting s' = waiting s1" "\<forall>x. x \<notin> set ids \<longrightarrow> objs s' x = objs s1 x"
    "set (requests s') = set (requests s1) - set ids" by auto
  with s1 d show ?case by (auto simp: set_obj_def)
qed simp

lemma finish_requests_spec:
  assumes E: "setting_ok E" and inv: "loop_inv E {} ds s" and ids: "distinct ids" and fin: "status_is_finished st"
  shows "\<exists>s'. sched_finish_requests (st_cfg E) ids st s = Inr s' \<and> loop_inv E {} ds s' \<and>
    set (requests s') = set (requests s) - set ids \<and> set (running s') = set (running s) - set ids \<and>
    (\<forall>x. x \<notin> set ids \<longrightarrow> objs s' x = objs s x)"
proof -
  note I = loopD [OF inv]
  let ?f = "fold (collect_finish s) ids \<lparr>fp_valid = [], fp_running = [], fp_waiting = [], fp_streaming = 0\<rparr>"
  let ?valid = "filter (\<lambda>x. x \<in> set (requests s)) ids"
  have run: "req_status (objs s x) = RUNNING" if "x \<in> set (running s)" for x
    using I(1) that by (simp add: core_inv_def running_ok_def Let_def)
  have wait: "req_status (objs s x) \<in> {WAITING, PREEMPTED, WAITING_FOR_FSM}" if "x \<in> set (waiting s)" for x
    using I(1) that by (simp add: core_inv_def waiting_ok_def Let_def)
  have status: "\<not> status_is_finished (req_status (objs s rid)) \<and> req_status (objs s rid) \<noteq> WAITING_FOR_STREAMING_REQ"
    if "rid \<in> set (requests s)" for rid
    using that I(6) run [of rid] wait [of rid] by (auto simp: status_is_finished_def status_value_def)
  note c = collect_all [OF status, of ids "\<lparr>fp_valid = [], fp_running = [], fp_waiting = [], fp_streaming = 0\<rparr>", simplified]
  have d: "distinct (running s)" using I(1) by (simp add: core_inv_def)
  have runs: "set (fp_running ?f) = set ids \<inter> set (running s)"
    using c I(6) run wait by (fastforce)
  have waits: "set (fp_waiting ?f) = set ids \<inter> set (waiting s)"
    using c I(6) run wait by (fastforce)
  let ?V = "set ?valid"
  define rs where "rs = filter (\<lambda>x. x \<notin> ?V) (running s)"
  have running: "(if fp_running ?f \<noteq> [] then remove_all (running s) (fp_running ?f) else running s) = rs"
  proof -
    have "remove_all (running s) (fp_running ?f) = rs"
      unfolding remove_all_filter [OF d] rs_def runs using I(6) by (intro filter_cong) auto
    then show ?thesis by (auto simp: remove_all_def split: if_splits)
  qed
  define w where "w = (if fp_waiting ?f \<noteq> [] then q_remove_requests (policy (st_cfg E)) (sched_lt s) (fp_waiting ?f) (waiting s)
    else waiting s)"
  have w: "queue_ok (st_cfg E) s w" "mset w = filter_mset (\<lambda>x. x \<notin> ?V) (mset (waiting s))"
  proof -
    show "queue_ok (st_cfg E) s w" using queue_laws(7) [OF I(2)] I(2) by (simp add: w_def)
    have "mset w = filter_mset (\<lambda>x. x \<notin> set (fp_waiting ?f)) (mset (waiting s))"
      using queue_laws(8) [OF I(2), of "fp_waiting ?f"] by (simp add: w_def)
    also have "\<dots> = filter_mset (\<lambda>x. x \<notin> ?V) (mset (waiting s))"
      unfolding waits using I(6) by (intro filter_mset_cong) auto
    finally show "mset w = filter_mset (\<lambda>x. x \<notin> ?V) (mset (waiting s))" .
  qed
  let ?s2 = "s\<lparr>num_waiting_for_streaming_input := num_waiting_for_streaming_input s - fp_streaming ?f, running := rs, waiting := w\<rparr>"
  have V: "?V \<subseteq> set (running s) \<union> set (waiting s)" using I(6) by auto
  have "loop_inv E ({} \<union> ?V) ds ?s2" by (rule leave_queues [OF inv V w rs_def]) simp_all
  moreover have "distinct ?valid" using ids by simp
  ultimately obtain s' where s': "rfold (finish_one st) ?valid ?s2 = Inr s'" "loop_inv E {} ds s'" "running s' = rs"
    "\<forall>x. x \<notin> ?V \<longrightarrow> objs s' x = objs s x" "set (requests s') = set (requests s) - ?V"
    using finish_all [OF E fin, of "{}" ?valid ds ?s2] by auto
  have "sched_finish_requests (st_cfg E) ids st s = rfold (finish_one st) ?valid ?s2"
  proof -
    let ?s0 = "s\<lparr>num_waiting_for_streaming_input := num_waiting_for_streaming_input s - fp_streaming ?f\<rparr>"
    have 1: "(if fp_running ?f \<noteq> [] then ?s0\<lparr>running := remove_all (running ?s0) (fp_running ?f)\<rparr> else ?s0) = ?s0\<lparr>running := rs\<rparr>"
    proof (cases "fp_running ?f = []")
      case True
      then have "running s = rs" using running by simp
      then have "?s0\<lparr>running := rs\<rparr> = ?s0" by (intro scheduler.equality) simp_all
      with True show ?thesis by simp
    qed (use running in simp)
    let ?s1 = "?s0\<lparr>running := rs\<rparr>"
    have lt: "sched_lt ?s1 = sched_lt s" by (rule sched_lt_cong) simp
    have 2: "(if fp_waiting ?f \<noteq> []
        then ?s1\<lparr>waiting := q_remove_requests (policy (st_cfg E)) (sched_lt ?s1) (fp_waiting ?f) (waiting ?s1)\<rparr> else ?s1) = ?s2"
    proof (cases "fp_waiting ?f = []")
      case True
      then have "?s2 = ?s1" unfolding w_def by (intro scheduler.equality) simp_all
      with True show ?thesis by simp
    next
      case False
      then show ?thesis unfolding lt by (simp add: w_def)
    qed
    have 3: "fp_valid ?f = ?valid" using c by simp
    show ?thesis using fin unfolding sched_finish_requests_def Let_def 1 2 3 by simp
  qed
  with s' show ?thesis using I(6) by (auto simp: rs_def)
qed

section \<open>Requests change\<close>

lemma same_request_ok: "same_request r r' \<Longrightarrow> request_ok K sz rid r' = request_ok K sz rid r"
  by (rule request_ok_same) (simp_all add: same_request_def)

lemma change_plain:
  assumes inv: "loop_inv E X ds s"
    and o: "\<And>x. same_request (objs s x) (objs s' x) \<and> req_status (objs s' x) = req_status (objs s x) \<and>
      num_computed_tokens (objs s' x) = num_computed_tokens (objs s x)"
    and s': "running s' = running s" "waiting s' = waiting s" "requests s' = requests s" "kv s' = kv s"
    "encoder s' = encoder s" "prev_step_scheduled_req_ids s' = prev_step_scheduled_req_ids s"
  shows "loop_inv E X ds s'"
proof -
  note I = loopD [OF inv]
  have ok: "request_ok K sz x (objs s' x) = request_ok K sz x (objs s x)" for K sz x using same_request_ok o by blast
  have n: "num_tokens (objs s' x) = num_tokens (objs s x)" for x using o by (simp add: same_request_def num_tokens_def)
  have sv: "served E x (objs s' x) = served E x (objs s x)" for x using same_served o by blast
  show ?thesis
  proof (rule loopI)
    show "core_inv (contract E (set (requests s'))) (st_sizes E) (waiting s') s'"
      using I(1) o by (simp add: core_inv_def running_ok_def waiting_ok_def s' ok Let_def)
    show "queue_ok (st_cfg E) s' (waiting s')" using I(2) queue_ok_on [of "waiting s" s' s] o by (simp add: s' same_request_def)
    show "\<forall>rid \<in> set (running s'). reach (objs s' rid) (num_computed_tokens (objs s' rid)) (ds rid)"
      using I(9) o by (simp add: s' reach_def n)
  qed (use I o sv in \<open>simp_all add: s'\<close>)
qed

text \<open>A running request got its output.\<close>

lemma change_running:
  assumes E: "setting_ok E" and inv: "loop_inv E X ds s" and rid: "rid \<in> set (running s)"
    and r: "served E rid r" "mm_features r = mm_features (objs s rid)" "req_status r = RUNNING"
      "0 < num_tokens r" "num_tokens r < st_max_len E" "0 \<le> num_computed_tokens r"
      "num_computed_tokens r \<le> num_computed_tokens (objs s rid)" "reach r (num_computed_tokens r) (ds' rid)"
    and ds: "\<And>x. x \<noteq> rid \<Longrightarrow> ds' x = ds x"
    and s': "s' = set_obj rid (\<lambda>_. r) s"
  shows "loop_inv E X ds' s'"
proof -
  note I = loopD [OF inv]
  let ?K = "contract E (set (requests s))"
  have ok: "running_ok ?K (st_sizes E) s rid" and out: "rid \<notin> set (waiting s)" "rid \<in> set (requests s)"
    using I(1,6) rid by (auto simp: core_inv_def)
  have o: "objs s' x = (if x = rid then r else objs s x)" for x by (simp add: s' set_obj_def)
  have s: "running s' = running s" "waiting s' = waiting s" "requests s' = requests s" "kv s' = kv s"
    "encoder s' = encoder s" "prev_step_scheduled_req_ids s' = prev_step_scheduled_req_ids s"
    by (simp_all add: s' set_obj_def)
  have req: "request_ok ?K (st_sizes E) rid r"
    using ok r(1,2,4,5) served_hashed [OF E r(1)] by (simp add: running_ok_def request_ok_def served_def Let_def)
  have "running_ok ?K (st_sizes E) s' rid"
    using ok req r(3,6,7) covered_mono [of rid "num_computed_tokens (objs s rid)" "kv s" "num_computed_tokens r"]
    by (simp add: running_ok_def o s Let_def)
  then have core: "core_inv ?K (st_sizes E) (waiting s) s'"
    using I(1) out by (auto simp: core_inv_def running_ok_def waiting_ok_def o s Let_def)
  show ?thesis
  proof (rule loopI)
    show "core_inv (contract E (set (requests s'))) (st_sizes E) (waiting s') s'" using core by (simp add: s)
    show "queue_ok (st_cfg E) s' (waiting s')"
      using I(2) queue_ok_on [of "waiting s" s' s] out by (simp add: s) (metis o)
  qed (use I out r(1,8) ds in \<open>auto simp: s o\<close>)
qed

text \<open>A new request.\<close>

definition new_request :: "setting \<Rightarrow> request \<Rightarrow> bool" where
  "new_request E r \<longleftrightarrow> served E (request_id r) r \<and> list_all feature_ok (mm_features r) \<and> 0 < num_tokens r \<and>
     num_tokens r < st_max_len E \<and> req_status r \<in> {WAITING, WAITING_FOR_FSM} \<and> num_computed_tokens r = 0"

lemma add_request_spec:
  assumes E: "setting_ok E" and inv: "loop_inv E {} ds s" and r: "new_request E r" and new: "request_id r \<notin> set (requests s)"
  shows "\<exists>s'. sched_add_request (st_cfg E) h r s = Some (Inr s') \<and> loop_inv E {} ds s' \<and>
    requests s' = requests s @ [request_id r]"
proof -
  let ?rid = "request_id r"
  note I = loopD [OF inv]
  have sv: "served E ?rid r" "\<not> resumable r" using r by (simp_all add: new_request_def served_def)
  define s1 where "s1 = set_obj ?rid (\<lambda>_. r) s"
  have o: "objs s1 x = (if x = ?rid then r else objs s x)" for x by (simp add: s1_def set_obj_def)
  have s1: "running s1 = running s" "waiting s1 = waiting s" "requests s1 = requests s" "kv s1 = kv s"
    "encoder s1 = encoder s" "prev_step_scheduled_req_ids s1 = prev_step_scheduled_req_ids s"
    by (simp_all add: s1_def set_obj_def)
  have out: "?rid \<notin> set (running s)" "?rid \<notin> set (waiting s)" using new I(6) by auto
  have q1: "queue_ok (st_cfg E) s1 (waiting s)"
    using I(2) queue_ok_on [of "waiting s" s1 s] out by (metis o)
  define w where "w = q_add_request (policy (st_cfg E)) (sched_lt s1) ?rid (waiting s)"
  have w: "queue_ok (st_cfg E) s1 w" "mset w = add_mset ?rid (mset (waiting s))"
    using queue_laws(3,4) [OF q1] by (simp_all add: w_def)
  define s2 where "s2 = s1\<lparr>waiting := w, requests := requests s @ [?rid]\<rparr>"
  have run: "sched_add_request (st_cfg E) h r s = Some (Inr s2)"
    using new sv(2) by (simp add: sched_add_request_def s2_def s1_def [symmetric] w_def s1 Let_def)
  have s2: "running s2 = running s" "waiting s2 = w" "kv s2 = kv s" "encoder s2 = encoder s" "objs s2 = objs s1"
    "prev_step_scheduled_req_ids s2 = prev_step_scheduled_req_ids s" "requests s2 = requests s @ [?rid]"
    by (simp_all add: s2_def s1)
  have ws: "set w = insert ?rid (set (waiting s))" using arg_cong [OF w(2), of set_mset] by simp
  let ?I = "set (requests s)"
  have fresh: "fresh ?rid (kv s)" using I(1) new by (simp add: core_inv_def)
  have req: "request_ok (contract E (insert ?rid ?I)) (st_sizes E) ?rid r"
    using r served_hashed [OF E sv(1)] by (simp add: new_request_def request_ok_def served_def)
  have core: "core_inv (contract E (insert ?rid ?I)) (st_sizes E) w s2"
    unfolding core_inv_def
  proof (intro conjI ballI)
    fix x assume x: "x \<in> set (running s2)"
    then have "running_ok (contract E ?I) (st_sizes E) s x" "x \<noteq> ?rid" using I(1) out by (auto simp: core_inv_def s2)
    then show "running_ok (contract E (insert ?rid ?I)) (st_sizes E) s2 x"
      using request_ok_contract [of E ?I "st_sizes E" x "objs s x" "insert ?rid ?I"] by (simp add: running_ok_def s2 o Let_def)
  next
    fix x assume x: "x \<in> set w"
    show "waiting_ok (contract E (insert ?rid ?I)) (st_sizes E) s2 x"
    proof (cases "x = ?rid")
      case True
      then show ?thesis using r req fresh by (auto simp: waiting_ok_def s2 o new_request_def Let_def)
    next
      case False
      then have "waiting_ok (contract E ?I) (st_sizes E) s x" using I(1) x ws by (auto simp: core_inv_def)
      then show ?thesis using False request_ok_contract [of E ?I "st_sizes E" x "objs s x" "insert ?rid ?I"]
        by (simp add: waiting_ok_def s2 o Let_def)
    qed
  next
    have m: "mset (running s2 @ w) = mset (?rid # running s @ waiting s)" by (simp add: s2 w(2))
    have "distinct (?rid # running s @ waiting s)" using I(1) out by (simp add: core_inv_def)
    then show "distinct (running s2 @ w)" using m mset_eq_imp_distinct_iff by blast
  qed (use I(1) in \<open>simp_all add: core_inv_def s2\<close>)
  have lt: "sched_lt s2 = sched_lt s1" by (rule sched_lt_cong) (simp add: s2)
  have "loop_inv E {} ds s2"
  proof (rule loopI)
    show "core_inv (contract E (set (requests s2))) (st_sizes E) (waiting s2) s2" using core by (simp add: s2)
    show "queue_ok (st_cfg E) s2 (waiting s2)" using w(1) queue_ok_lt [OF lt, of "st_cfg E"] by (simp add: s2)
    show "\<forall>x \<in> set (waiting s2). req_status (objs s2 x) = PREEMPTED \<longrightarrow> x \<notin> prev_step_scheduled_req_ids s2"
      using I(4) r ws by (auto simp: s2 o new_request_def)
  qed (use I new out ws sv in \<open>auto simp: s2 o\<close>)
  with run s2 show ?thesis by blast
qed

text \<open>Draft tokens.\<close>

lemma draft_spec:
  assumes "loop_inv E X ds s"
  shows "loop_inv E X ds (update_draft_token_ids valid drafts s) \<and> requests (update_draft_token_ids valid drafts s) = requests s"
  using assms
proof (induction drafts arbitrary: s)
  case (Cons d drafts)
  obtain rid toks where d: "d = (rid, toks)" by (cases d)
  have one: "loop_inv E X ds (set_obj rid (\<lambda>r. r\<lparr>spec_token_ids := f r\<rparr>) s)" for f
    by (rule change_plain [OF Cons.prems]) (simp_all add: set_obj_def same_request_def request_key_def)
  show ?case
    using Cons.IH [OF Cons.prems] Cons.IH [OF one [of "\<lambda>_. []"]]
      Cons.IH [OF one [of "\<lambda>_. case valid rid of None \<Rightarrow> toks | Some f \<Rightarrow> f toks"]]
    by (auto simp: update_draft_token_ids_def d set_obj_def)
qed (simp add: update_draft_token_ids_def)

end
