(* ===== verification/Engine_Loop.thy ===== *)
theory Engine_Loop
  imports Engine_Inv
begin

text \<open>
  The output of the model keeps the invariant of the scheduler, so that the synchronous engine never
  fails, whatever requests arrive or are aborted.
\<close>

section \<open>Tokens are appended\<close>

lemma append_fields:
  "append_output_token_ids h ts r = Some (Inr r') \<Longrightarrow> \<exists>hs. r' = r\<lparr>output_token_ids := output_token_ids r @ ts,
     all_token_ids := all_token_ids r @ ts, block_hashes := hs\<rparr>"
  by (cases h)
    (auto simp: append_output_token_ids_def update_block_hashes_def res_simps intro: exI [of _ "block_hashes r"])

text \<open>What a request gains by its new tokens.\<close>

definition grown :: "setting \<Rightarrow> string \<Rightarrow> request \<Rightarrow> int \<Rightarrow> request \<Rightarrow> bool" where
  "grown E rid r n r' \<longleftrightarrow> served E rid r' \<and> mm_features r' = mm_features r \<and>
     num_computed_tokens r' = num_computed_tokens r \<and> num_tokens r' = num_tokens r + n \<and>
     is_pooling r' = is_pooling r \<and> sampling_params_of r' = sampling_params_of r"

lemma append_grown:
  assumes E: "st_caching E \<longrightarrow> 0 < st_block_size E" and r: "served E rid r" and ts: "known E r ts"
  shows "\<exists>r'. append_output_token_ids (hasher_of E) ts r = Some (Inr r') \<and> grown E rid r (py_len ts) r' \<and>
    req_status r' = req_status r \<and> output_token_ids r' = output_token_ids r @ ts \<and>
    (\<forall>ts'. known E r' ts' = known E r (ts @ ts'))"
proof (cases "st_caching E")
  case True
  let ?H = "st_hash E" and ?nh = "st_none_hash E" and ?bs = "st_block_size E"
  have c: "0 < ?bs" "mm_features r = []" "prompt_embeds r = None" "hashes_ok ?H ?nh ?bs r (full_blocks ?bs r)"
    using E r True by (simp_all add: served_def)
  obtain r' where r': "append_output_token_ids (hasher_of E) ts r = Some (Inr r')"
    "hashes_ok ?H ?nh ?bs r' (full_blocks ?bs r')"
    using append_output_chain [OF c, of ts] True by (auto simp: hasher_of_def)
  obtain hs where hs: "r' = r\<lparr>output_token_ids := output_token_ids r @ ts, all_token_ids := all_token_ids r @ ts, block_hashes := hs\<rparr>"
    using append_fields [OF r'(1)] by blast
  then have "known E r' ts' = known E r (ts @ ts')" for ts' by (intro known_cong) simp_all
  with r r' hs ts show ?thesis
    by (intro exI [of _ r']) (auto simp: grown_def served_def sized_def num_tokens_def num_output_tokens_def py_len_def)
next
  case False
  then have "append_output_token_ids (hasher_of E) ts r =
      Some (Inr (r\<lparr>output_token_ids := output_token_ids r @ ts, all_token_ids := all_token_ids r @ ts\<rparr>))"
    by (simp add: append_output_token_ids_def update_block_hashes_def hasher_of_def)
  with r False show ?thesis
    by (auto simp: grown_def served_def sized_def num_tokens_def num_output_tokens_def py_len_def known_def)
qed

lemma check_stop_spec:
  assumes r: "served E rid r" "\<not> is_pooling r" "output_token_ids r \<noteq> []"
  shows "\<exists>stopped r'. check_stop r (st_max_len E) = Inr (stopped, r') \<and> grown E rid r 0 r' \<and>
    (if stopped then status_is_finished (req_status r')
     else req_status r' = req_status r \<and> num_tokens r' < st_max_len E) \<and> (\<forall>ts. known E r' ts = known E r ts)"
proof -
  have k: "known E (r\<lparr>req_status := st, stop_reason := sr\<rparr>) ts = known E r ts" for st sr ts
    by (rule same_known) (simp add: same_request_def request_key_def)
  have k': "known E (r\<lparr>req_status := st\<rparr>) ts = known E r ts" for st ts
    by (rule same_known) (simp add: same_request_def request_key_def)
  obtain sp where sp: "sampling_params_of r = Some sp" using r by (auto simp: served_def)
  obtain tok where tok: "py_get (output_token_ids r) (- 1) = Inr tok"
    using r(3) by (cases "output_token_ids r" rule: rev_cases) (auto simp: py_get_def py_len_def Let_def)
  have same: "grown E rid r 0 (r\<lparr>req_status := st, stop_reason := sr\<rparr>)" for st sr
    using r(1) same_served [of r "r\<lparr>req_status := st, stop_reason := sr\<rparr>" E rid]
    by (simp add: grown_def same_request_def request_key_def num_tokens_def)
  have same': "grown E rid r 0 (r\<lparr>req_status := st\<rparr>)" for st using same [where st = st and sr = "stop_reason r"] by simp
  have "grown E rid r 0 r" using r(1) by (simp add: grown_def)
  moreover have "num_tokens r < st_max_len E" if "num_output_tokens r < min_tokens sp"
    using r(1) sp that by (auto simp: served_def)
  ultimately show ?thesis
    using r(2) sp tok same same' k k'
    by (simp add: check_stop_def py_assert_def Let_def status_is_finished_def status_value_def ex_bool_eq)
qed

lemma append_and_check_spec:
  assumes E: "setting_ok E"
  shows "served E rid r \<Longrightarrow> \<not> is_pooling r \<Longrightarrow> known E r toks \<Longrightarrow>
    \<exists>kept stopped r'. append_and_check (hasher_of E) (st_max_len E) toks r = Some (Inr (kept, stopped, r')) \<and>
      grown E rid r (py_len kept) r' \<and>
      (if stopped then status_is_finished (req_status r')
       else kept = toks \<and> req_status r' = req_status r \<and> (toks \<noteq> [] \<longrightarrow> num_tokens r' < st_max_len E))"
proof (induction toks arbitrary: r)
  case Nil
  then show ?case by (intro exI [of _ "[]"] exI [of _ False] exI [of _ r]) (simp add: grown_def py_len_def)
next
  case (Cons tok toks)
  have bs: "st_caching E \<longrightarrow> 0 < st_block_size E" using E by (simp add: setting_ok_def)
  have "known E r [tok]" using known_shorter [OF bs, of r "[tok]" toks] Cons.prems(3) by simp
  from append_grown [OF bs Cons.prems(1) this] obtain r1 where
    r1: "append_output_token_ids (hasher_of E) [tok] r = Some (Inr r1)" "grown E rid r 1 r1"
    "req_status r1 = req_status r" "output_token_ids r1 = output_token_ids r @ [tok]" "known E r1 toks"
    using Cons.prems(3) by (auto simp: py_len_def)
  then have "served E rid r1" "\<not> is_pooling r1" "output_token_ids r1 \<noteq> []" using Cons.prems(2) by (auto simp: grown_def)
  from check_stop_spec [OF this] obtain stopped r2 where
    r2: "check_stop r1 (st_max_len E) = Inr (stopped, r2)" "grown E rid r1 0 r2"
    "if stopped then status_is_finished (req_status r2) else req_status r2 = req_status r1 \<and> num_tokens r2 < st_max_len E"
    "\<forall>ts. known E r2 ts = known E r1 ts" by blast
  have g2: "grown E rid r 1 r2" using r1(2) r2(2) by (simp add: grown_def)
  show ?case
  proof (cases stopped)
    case True
    then show ?thesis using r1(1) r2(1-3) g2 by (auto simp: py_len_def)
  next
    case False
    have "served E rid r2" "\<not> is_pooling r2" "known E r2 toks" using g2 Cons.prems(2) r1(5) r2(4) by (simp_all add: grown_def)
    from Cons.IH [OF this] obtain kept st r3 where
      r3: "append_and_check (hasher_of E) (st_max_len E) toks r2 = Some (Inr (kept, st, r3))" "grown E rid r2 (py_len kept) r3"
      "if st then status_is_finished (req_status r3)
       else kept = toks \<and> req_status r3 = req_status r2 \<and> (toks \<noteq> [] \<longrightarrow> num_tokens r3 < st_max_len E)" by blast
    have "grown E rid r (py_len (tok # kept)) r3" using g2 r3(2) by (simp add: grown_def py_len_def)
    moreover have "append_and_check (hasher_of E) (st_max_len E) (tok # toks) r = Some (Inr (tok # kept, st, r3))"
      using r1(1) r2(1) r3(1) False by simp
    moreover have "toks = [] \<Longrightarrow> \<not> st \<Longrightarrow> num_tokens r3 < st_max_len E"
      using r2(3) r3(2,3) False by (auto simp: grown_def py_len_def)
    ultimately show ?thesis
      using r1(3) r2(3) r3(3) False
      by (intro exI [of _ "tok # kept"] exI [of _ st] exI [of _ r3]) (cases "toks = []"; auto)
  qed
qed

section \<open>Freeing a request that stopped\<close>

text \<open>
  Until the end of \<open>update_from_output\<close> the stopped requests stay in the list \<open>R\<close> of the running
  ones; the invariant holds without them.
\<close>

lemma free_running:
  "sched_free_request rid (s\<lparr>running := R\<rparr>) = rbind (sched_free_request rid s) (\<lambda>s'. Inr (s'\<lparr>running := R\<rparr>))"
proof (cases "ecm_free (objs s rid) (encoder s)")
  case (Inr e)
  show ?thesis
  proof (cases "free_request (objs s rid) (kv s)")
    case (Inr k)
    with \<open>ecm_free (objs s rid) (encoder s) = Inr e\<close> show ?thesis
      by (simp add: sched_free_request_def free_blocks_of_def py_assert_def)
  qed (use \<open>ecm_free (objs s rid) (encoder s) = Inr e\<close> in \<open>simp add: sched_free_request_def free_blocks_of_def py_assert_def\<close>)
qed (simp add: sched_free_request_def py_assert_def)

lemma finish_running:
  assumes E: "setting_ok E" and inv: "loop_inv E {} ds v" and rid: "rid \<in> set (running v)"
    and r: "served E rid r" "status_is_finished (req_status r)"
  shows "\<exists>v'. sched_free_request rid (set_obj rid (\<lambda>_. r) (v\<lparr>running := R\<rparr>)) = Inr (v'\<lparr>running := R\<rparr>) \<and>
    loop_inv E {} ds v' \<and> running v' = filter (\<lambda>x. x \<noteq> rid) (running v) \<and> waiting v' = waiting v \<and>
    set (requests v') = set (requests v) - {rid} \<and> (\<forall>x. x \<noteq> rid \<longrightarrow> objs v' x = objs v x)"
proof -
  note I = loopD [OF inv]
  have out: "rid \<notin> set (waiting v)" using I(1) rid by (auto simp: core_inv_def)
  define rs where "rs = filter (\<lambda>x. x \<notin> {rid}) (running v)"
  let ?v1 = "v\<lparr>running := rs\<rparr>"
  have "loop_inv E ({} \<union> {rid}) ds ?v1"
  proof (rule leave_queues [OF inv _ I(2) _ rs_def])
    show "mset (waiting v) = filter_mset (\<lambda>x. x \<notin> {rid}) (mset (waiting v))"
      using out filter_mset_eq_conv [of "\<lambda>x. x \<noteq> rid" "mset (waiting v)" "mset (waiting v)"] by force
  qed (use rid in simp_all)
  then have l1: "loop_inv E {rid} ds ?v1" by simp
  let ?v2 = "set_obj rid (\<lambda>_. r) ?v1"
  have "loop_inv E {rid} ds ?v2" by (rule change_limbo [OF l1 _ _ refl]) (use r(1) in simp_all)
  moreover have "status_is_finished (req_status (objs ?v2 rid))" using r(2) by (simp add: set_obj_def)
  ultimately obtain v' where v': "sched_free_request rid ?v2 = Inr v'" "loop_inv E {} ds v'" "running v' = rs"
    "waiting v' = waiting v" "objs v' = objs ?v2" "requests v' = remove1 rid (requests v)"
    using free_limbo [OF E, of rid "{}" ds ?v2] by (auto simp: set_obj_def)
  have "set_obj rid (\<lambda>_. r) (v\<lparr>running := R\<rparr>) = ?v2\<lparr>running := R\<rparr>" by (rule scheduler.equality) (simp_all add: set_obj_def)
  then have "sched_free_request rid (set_obj rid (\<lambda>_. r) (v\<lparr>running := R\<rparr>)) = Inr (v'\<lparr>running := R\<rparr>)"
    using v'(1) by (simp add: free_running)
  with v' I(5) show ?thesis by (auto simp: rs_def set_obj_def)
qed

section \<open>The output of the model\<close>

text \<open>
  What the executor promises: an output for every scheduled request, at most one token more than the
  draft tokens, none only when no draft tokens were scheduled, and none for pooling requests; with prefix
  caching the hash function has no collision on the blocks that the tokens complete.
\<close>

definition tokens_of :: "model_runner_output \<Rightarrow> int \<Rightarrow> int list" where
  "tokens_of mo i = (if sampled_token_ids mo = [] then [] else sampled_token_ids mo ! nat i)"

definition output_ok :: "setting \<Rightarrow> scheduler_output \<Rightarrow> model_runner_output \<Rightarrow> (string \<Rightarrow> request) \<Rightarrow> string \<Rightarrow> bool" where
  "output_ok E out mo obj rid \<longleftrightarrow> (\<exists>i. map_of (req_id_to_index mo) rid = Some i \<and> 0 \<le> i \<and>
     (sampled_token_ids mo \<noteq> [] \<longrightarrow> i < py_len (sampled_token_ids mo)) \<and>
     (pooler_output mo \<noteq> [] \<longrightarrow> i < py_len (pooler_output mo)) \<and>
     (tokens_of mo i = [] \<longrightarrow> spec_of rid (so_spec_decode_tokens out) = []) \<and>
     py_len (tokens_of mo i) \<le> py_len (spec_of rid (so_spec_decode_tokens out)) + 1 \<and>
     (is_pooling (obj rid) \<longrightarrow> tokens_of mo i = []) \<and> known E (obj rid) (tokens_of mo i))"

definition worker_ok :: "setting \<Rightarrow> scheduler_output \<Rightarrow> model_runner_output \<Rightarrow> scheduler \<Rightarrow> bool" where
  "worker_ok E out mo s \<longleftrightarrow> (\<forall>rid \<in> fst ` set (so_num_scheduled_tokens out). output_ok E out mo (objs s) rid)"

definition pending :: "scheduler_output \<Rightarrow> (string \<times> int) list \<Rightarrow> string \<Rightarrow> int list" where
  "pending out es rid = (if rid \<in> fst ` set es then spec_of rid (so_spec_decode_tokens out) else [])"

lemma loop_ds:
  assumes "loop_inv E X ds s" and "\<And>x. x \<in> set (running s) \<Longrightarrow> ds' x = ds x"
  shows "loop_inv E X ds' s"
  using assms unfolding loop_inv_def by auto

text \<open>The invariant of the loop over the outputs, with the outputs still to come.\<close>

definition output_inv ::
    "setting \<Rightarrow> scheduler_output \<Rightarrow> model_runner_output \<Rightarrow> string list \<Rightarrow> (string \<times> int) list \<Rightarrow> output_step \<Rightarrow> bool" where
  "output_inv E out mo R es t \<longleftrightarrow> (\<exists>v. os_sch t = v\<lparr>running := R\<rparr> \<and> loop_inv E {} (pending out es) v \<and>
     running v = filter (\<lambda>x. x \<notin> set (stopped_running_reqs t)) R \<and> stopped_preempted_reqs t = [] \<and>
     fst ` set es \<inter> set (waiting v) = {} \<and> (\<forall>rid \<in> fst ` set es. rid \<in> set (requests v) \<longrightarrow> output_ok E out mo (objs v) rid))"

lemma reject_same: "same_request r (reject_drafts d toks r) \<and> req_status (reject_drafts d toks r) = req_status r"
  if "num_output_placeholders r = 0"
  using that by (simp add: reject_drafts_def same_request_def request_key_def Let_def)

lemma reject_computed:
  assumes "num_output_placeholders r = 0" and "reach r (num_computed_tokens r) d" and "0 < num_tokens r"
    and "0 \<le> num_computed_tokens r" and "py_len toks \<le> py_len d + 1" and "toks = [] \<longrightarrow> d = []"
  shows "0 \<le> num_computed_tokens (reject_drafts d toks r)"
    and "num_computed_tokens (reject_drafts d toks r) \<le> num_computed_tokens r"
    and "num_computed_tokens (reject_drafts d toks r) \<le> num_tokens r + py_len toks - (if d = [] then 0 else 1)"
  using assms by (auto simp: reject_drafts_def reach_def py_len_def Let_def neq_Nil_conv)

lemma set_obj_same: "f (objs s rid) = objs s rid \<Longrightarrow> set_obj rid f s = s"
  by (rule scheduler.equality) (auto simp: set_obj_def)

lemma set_obj_const: "set_obj rid f s = set_obj rid (\<lambda>_. f (objs s rid)) s"
  by (simp add: set_obj_def)

lemma set_obj_twice: "set_obj rid f (set_obj rid g s) = set_obj rid (\<lambda>x. f (g x)) s"
  by (rule scheduler.equality) (auto simp: set_obj_def)

lemma set_obj_running: "set_obj rid f (v\<lparr>running := R\<rparr>) = (set_obj rid f v)\<lparr>running := R\<rparr>"
  by (rule scheduler.equality) (simp_all add: set_obj_def)

text \<open>One output, from the results of the calls it makes.\<close>

lemma process_output_run:
  assumes "rid \<in> set (requests (os_sch t))" "\<not> status_is_finished (req_status (objs (os_sch t) rid))" "0 < n"
    and "dict_item rid (req_id_to_index mo) = Inr i"
    and "(if sampled_token_ids mo \<noteq> [] then py_get (sampled_token_ids mo) i else Inr []) = Inr toks"
    and "(if pooler_output mo \<noteq> [] then py_get (pooler_output mo) i else Inr False) = Inr pooled"
    and s1: "set_obj rid (reject_drafts (spec_of rid (so_spec_decode_tokens out)) toks) (os_sch t) = s1"
    and "req_status (objs s1 rid) = RUNNING" and "\<not> async_scheduling cfg"
    and "(if toks \<noteq> [] then update_request_with_output cfg h rid toks s1
       else if is_pooling (objs s1 rid) \<and> pooled
       then Some (Inr ([], True, set_obj rid (\<lambda>r. r\<lparr>req_status := FINISHED_STOPPED\<rparr>) s1))
       else Some (Inr ([], False, s1))) = Some (Inr (kept, stopped, s2))"
    and "stopped \<Longrightarrow> \<not> resumable (objs s2 rid)"
    and "(if stopped then sched_free_request rid s2 else Inr s2) = Inr s4"
  shows "\<exists>os. process_output cfg h out mo (rid, n) t = Some (Inr \<lparr>os_sch = s4, os_outputs = os,
    stopped_running_reqs = (if stopped then List.insert rid (stopped_running_reqs t) else stopped_running_reqs t),
    stopped_preempted_reqs = stopped_preempted_reqs t\<rparr>)"
proof -
  have h: "(if stopped then obind (handle_stopped_request cfg h rid s2) (\<lambda>(finished, s3).
        Some (if finished then sched_free_request rid s3 else Inr s3)) else Some (Inr s2)) = Some (Inr s4)"
    using assms(11,12) by (cases stopped) (simp_all add: handle_stopped_request_def)
  show ?thesis
    by (simp only: process_output_def prod.case Let_def s1 assms(1-6,8-10) h py_assert_def obind_simps
        if_False if_True de_Morgan_disj simp_thms) (cases t; cases stopped; auto)
qed


lemma output_call:
  assumes "output_ok E out mo obj rid"
  shows "\<exists>i toks pooled. dict_item rid (req_id_to_index mo) = Inr i \<and>
    (if sampled_token_ids mo \<noteq> [] then py_get (sampled_token_ids mo) i else Inr []) = Inr toks \<and>
    (if pooler_output mo \<noteq> [] then py_get (pooler_output mo) i else Inr False) = Inr pooled \<and>
    (toks = [] \<longrightarrow> spec_of rid (so_spec_decode_tokens out) = []) \<and>
    py_len toks \<le> py_len (spec_of rid (so_spec_decode_tokens out)) + 1 \<and> (is_pooling (obj rid) \<longrightarrow> toks = []) \<and>
    known E (obj rid) toks"
proof -
  obtain i where i: "map_of (req_id_to_index mo) rid = Some i" "0 \<le> i"
    "sampled_token_ids mo \<noteq> [] \<longrightarrow> i < py_len (sampled_token_ids mo)" "pooler_output mo \<noteq> [] \<longrightarrow> i < py_len (pooler_output mo)"
    and t: "tokens_of mo i = [] \<longrightarrow> spec_of rid (so_spec_decode_tokens out) = []"
    "py_len (tokens_of mo i) \<le> py_len (spec_of rid (so_spec_decode_tokens out)) + 1" "is_pooling (obj rid) \<longrightarrow> tokens_of mo i = []"
    "known E (obj rid) (tokens_of mo i)" using assms by (auto simp: output_ok_def)
  have 1: "dict_item rid (req_id_to_index mo) = Inr i" using i(1) by (simp add: dict_item_def)
  have 2: "(if sampled_token_ids mo \<noteq> [] then py_get (sampled_token_ids mo) i else Inr []) = Inr (tokens_of mo i)"
    using i by (simp add: tokens_of_def py_get_def py_len_def Let_def)
  have 3: "\<exists>p. (if pooler_output mo \<noteq> [] then py_get (pooler_output mo) i else Inr False) = Inr p"
    using i by (cases "pooler_output mo = []") (auto simp: py_get_def py_len_def Let_def)
  from 1 2 3 t show ?thesis by blast
qed

lemma pending_tail: "rid \<notin> fst ` set es \<Longrightarrow> x \<noteq> rid \<Longrightarrow> pending out es x = pending out ((rid, n) # es) x"
  by (simp add: pending_def)

lemma reject_served:
  assumes "served E rid r" and "reach r (num_computed_tokens r) d" and "0 < num_tokens r" and "0 \<le> num_computed_tokens r"
    and "py_len toks \<le> py_len d + 1" and "toks = [] \<longrightarrow> d = []"
  shows "grown E rid (reject_drafts d toks r) 0 (reject_drafts d toks r)" and "is_pooling (reject_drafts d toks r) = is_pooling r"
    and "mm_features (reject_drafts d toks r) = mm_features r" and "num_tokens (reject_drafts d toks r) = num_tokens r"
    and "req_status (reject_drafts d toks r) = req_status r" and "0 \<le> num_computed_tokens (reject_drafts d toks r)"
    and "num_computed_tokens (reject_drafts d toks r) \<le> num_computed_tokens r"
    and "toks \<noteq> [] \<Longrightarrow> num_computed_tokens (reject_drafts d toks r) \<le> num_tokens r + py_len toks"
proof -
  have p: "num_output_placeholders r = 0" using assms(1) by (simp add: served_def)
  have s: "same_request r (reject_drafts d toks r)" and st: "req_status (reject_drafts d toks r) = req_status r"
    using reject_same [OF p] by blast+
  show "grown E rid (reject_drafts d toks r) 0 (reject_drafts d toks r)" using same_served [OF s] assms(1) by (simp add: grown_def)
  show "is_pooling (reject_drafts d toks r) = is_pooling r" "mm_features (reject_drafts d toks r) = mm_features r"
    "num_tokens (reject_drafts d toks r) = num_tokens r" using s by (simp_all add: same_request_def num_tokens_def)
  show "req_status (reject_drafts d toks r) = req_status r" by (rule st)
  note c = reject_computed [OF p assms(2-4), of toks, OF assms(5,6)]
  show "0 \<le> num_computed_tokens (reject_drafts d toks r)" "num_computed_tokens (reject_drafts d toks r) \<le> num_computed_tokens r"
    by (rule c)+
  show "num_computed_tokens (reject_drafts d toks r) \<le> num_tokens r + py_len toks" if "toks \<noteq> []"
    using c(3) by (simp split: if_splits)
qed


text \<open>
  One output of a running request: the request goes on with the tokens it gained, or it has stopped
  and is freed.
\<close>

definition output_result ::
    "setting \<Rightarrow> (string \<Rightarrow> int list) \<Rightarrow> string list \<Rightarrow> string \<Rightarrow> int list \<Rightarrow> bool \<Rightarrow> scheduler \<Rightarrow> scheduler \<Rightarrow> int list \<Rightarrow>
     bool \<Rightarrow> scheduler \<Rightarrow> scheduler \<Rightarrow> bool" where
  "output_result E ds' R rid toks pooled s1 v kept stopped s2 v' \<longleftrightarrow>
     (if toks \<noteq> [] then update_request_with_output (st_cfg E) (hasher_of E) rid toks s1
      else if is_pooling (objs s1 rid) \<and> pooled
      then Some (Inr ([], True, set_obj rid (\<lambda>r. r\<lparr>req_status := FINISHED_STOPPED\<rparr>) s1))
      else Some (Inr ([], False, s1))) = Some (Inr (kept, stopped, s2)) \<and> (stopped \<longrightarrow> \<not> resumable (objs s2 rid)) \<and>
     (if stopped then sched_free_request rid s2 else Inr s2) = Inr (v'\<lparr>running := R\<rparr>) \<and> loop_inv E {} ds' v' \<and>
     running v' = (if stopped then filter (\<lambda>x. x \<noteq> rid) (running v) else running v) \<and> waiting v' = waiting v \<and>
     set (requests v') \<subseteq> set (requests v) \<and> (\<forall>x. x \<noteq> rid \<longrightarrow> objs v' x = objs v x)"

lemma running_output:
  assumes E: "setting_ok E" and inv: "loop_inv E {} ds v" and rid: "rid \<in> set (running v)"
    and toks: "toks = [] \<longrightarrow> ds rid = []" "py_len toks \<le> py_len (ds rid) + 1" "is_pooling (objs v rid) \<longrightarrow> toks = []"
      "known E (objs v rid) toks"
    and ds': "ds' rid = []" "\<And>x. x \<noteq> rid \<Longrightarrow> ds' x = ds x" and s1: "s1 = set_obj rid (reject_drafts (ds rid) toks) (v\<lparr>running := R\<rparr>)"
  shows "\<exists>kept stopped s2 v'. output_result E ds' R rid toks pooled s1 v kept stopped s2 v'"
proof -
  let ?r = "objs v rid" and ?r1 = "reject_drafts (ds rid) toks (objs v rid)"
  note I = loopD [OF inv]
  have max: "sched_max_model_len (st_cfg E) = st_max_len E" using E by (simp add: setting_ok_def plain_sched_def)
  have ok: "running_ok (contract E (set (requests v))) (st_sizes E) v rid" using I(1) rid by (simp add: core_inv_def)
  have r: "served E rid ?r" "0 < num_tokens ?r" "num_tokens ?r < st_max_len E" "0 \<le> num_computed_tokens ?r" "req_status ?r = RUNNING"
    "reach ?r (num_computed_tokens ?r) (ds rid)"
    using ok I(8,9) rid by (auto simp: running_ok_def request_ok_def Let_def)
  note r1 = reject_served [OF r(1,6,2,4) toks(2,1)]
  have s1': "s1 = set_obj rid (\<lambda>_. ?r1) (v\<lparr>running := R\<rparr>)" by (simp add: s1 set_obj_def)
  have o1: "objs s1 rid = ?r1" by (simp add: s1' set_obj_def)
  have put: "set_obj rid (\<lambda>_. r') s1 = set_obj rid (\<lambda>_. r') (v\<lparr>running := R\<rparr>)" for r' by (simp add: s1' set_obj_twice)
  have stop: "\<exists>v'. sched_free_request rid (set_obj rid (\<lambda>_. r') s1) = Inr (v'\<lparr>running := R\<rparr>) \<and>
    loop_inv E {} ds' v' \<and> running v' = filter (\<lambda>x. x \<noteq> rid) (running v) \<and> waiting v' = waiting v \<and>
    set (requests v') \<subseteq> set (requests v) \<and> (\<forall>x. x \<noteq> rid \<longrightarrow> objs v' x = objs v x)"
    if fin: "served E rid r'" "status_is_finished (req_status r')" for r'
  proof -
    obtain v' where v': "sched_free_request rid (set_obj rid (\<lambda>_. r') s1) = Inr (v'\<lparr>running := R\<rparr>)" "loop_inv E {} ds v'"
      "running v' = filter (\<lambda>x. x \<noteq> rid) (running v)" "waiting v' = waiting v" "set (requests v') = set (requests v) - {rid}"
      "\<forall>x. x \<noteq> rid \<longrightarrow> objs v' x = objs v x"
      using finish_running [OF E inv rid fin, of R] unfolding put by blast
    have "loop_inv E {} ds' v'" by (rule loop_ds [OF v'(2)]) (use ds' v'(3) in auto)
    with v' show ?thesis by blast
  qed
  consider "toks \<noteq> []" | "toks = []" "is_pooling (objs s1 rid) \<and> pooled" | "toks = []" "\<not> (is_pooling (objs s1 rid) \<and> pooled)" by blast
  then show ?thesis
  proof cases
    case 1
    have "num_output_placeholders ?r = 0" using r(1) by (simp add: served_def)
    then have "known E ?r1 toks" using same_known [OF conjunct1 [OF reject_same]] toks(4) by blast
    moreover have "served E rid ?r1" "\<not> is_pooling ?r1" using r1(1,2) toks(3) 1 by (auto simp: grown_def)
    ultimately have "served E rid ?r1" "\<not> is_pooling ?r1" "known E ?r1 toks" by blast+
    from append_and_check_spec [OF E this] obtain kept stopped r' where
      a: "append_and_check (hasher_of E) (st_max_len E) toks ?r1 = Some (Inr (kept, stopped, r'))" "grown E rid ?r1 (py_len kept) r'"
      "if stopped then status_is_finished (req_status r')
       else kept = toks \<and> req_status r' = req_status ?r1 \<and> (toks \<noteq> [] \<longrightarrow> num_tokens r' < st_max_len E)" by blast
    let ?s2 = "set_obj rid (\<lambda>_. r') s1"
    have u: "update_request_with_output (st_cfg E) (hasher_of E) rid toks s1 = Some (Inr (kept, stopped, ?s2))"
      by (simp add: update_request_with_output_def max o1 a(1))
    have "served E rid r'" using a(2) by (simp add: grown_def)
    then have sv: "served E rid r'" "\<not> resumable (objs ?s2 rid)" by (simp, simp add: served_def set_obj_def)
    show ?thesis
    proof (cases stopped)
      case True
      then have "status_is_finished (req_status r')" using a(3) by simp
      from stop [OF sv(1) this] obtain v' where "sched_free_request rid ?s2 = Inr (v'\<lparr>running := R\<rparr>)" "loop_inv E {} ds' v'"
        "running v' = filter (\<lambda>x. x \<noteq> rid) (running v)" "waiting v' = waiting v" "set (requests v') \<subseteq> set (requests v)"
        "\<forall>x. x \<noteq> rid \<longrightarrow> objs v' x = objs v x" by blast
      with True u sv(2) 1 have "output_result E ds' R rid toks pooled s1 v kept stopped ?s2 v'"
        by (simp add: output_result_def)
      then show ?thesis by blast
    next
      case False
      let ?v' = "set_obj rid (\<lambda>_. r') v"
      have g: "mm_features r' = mm_features ?r" "num_computed_tokens r' = num_computed_tokens ?r1"
        "num_tokens r' = num_tokens ?r + py_len toks" "req_status r' = RUNNING" "num_tokens r' < st_max_len E"
        using a(2,3) False r1(3-5) r(5) 1 by (simp_all add: grown_def)
      have n: "0 < num_tokens r'" using g(3) r(2) by (simp add: py_len_def)
      have c: "0 \<le> num_computed_tokens r'" "num_computed_tokens r' \<le> num_computed_tokens ?r" using g(2) r1(6,7) by simp_all
      have "reach r' (num_computed_tokens r') (ds' rid)" using r1(8) 1 g(2,3) by (simp add: reach_def py_len_def ds'(1))
      from change_running [OF E inv rid sv(1) g(1,4) n g(5) c this ds'(2) refl] have "loop_inv E {} ds' ?v'" .
      with u False 1 have "output_result E ds' R rid toks pooled s1 v kept stopped ?s2 ?v'"
        by (simp add: output_result_def put set_obj_running) (simp add: set_obj_def)
      then show ?thesis by blast
    qed
  next
    case 2
    let ?r' = "?r1\<lparr>req_status := FINISHED_STOPPED\<rparr>"
    have "served E rid ?r'"
      using r1(1) same_served [of ?r1 ?r' E rid] by (simp add: grown_def same_request_def request_key_def)
    moreover have "status_is_finished (req_status ?r')" by (simp add: status_is_finished_def status_value_def)
    moreover have "set_obj rid (\<lambda>r. r\<lparr>req_status := FINISHED_STOPPED\<rparr>) s1 = set_obj rid (\<lambda>_. ?r') s1"
      using set_obj_const [of rid "\<lambda>r. r\<lparr>req_status := FINISHED_STOPPED\<rparr>" s1] by (simp add: o1)
    moreover have "\<not> resumable (objs (set_obj rid (\<lambda>_. ?r') s1) rid)" using r1(1) by (simp add: grown_def served_def set_obj_def)
    moreover obtain v' where "sched_free_request rid (set_obj rid (\<lambda>_. ?r') s1) = Inr (v'\<lparr>running := R\<rparr>)" "loop_inv E {} ds' v'"
        "running v' = filter (\<lambda>x. x \<noteq> rid) (running v)" "waiting v' = waiting v" "set (requests v') \<subseteq> set (requests v)"
        "\<forall>x. x \<noteq> rid \<longrightarrow> objs v' x = objs v x" using stop [OF calculation(1,2)] by blast
    ultimately have "output_result E ds' R rid toks pooled s1 v [] True (set_obj rid (\<lambda>_. ?r') s1) v'" using 2
      by (simp add: output_result_def)
    then show ?thesis by blast
  next
    case 3
    have "?r1 = ?r" using 3(1) by (simp add: reject_drafts_def)
    then have "s1 = v\<lparr>running := R\<rparr>" unfolding s1' by (intro set_obj_same) simp
    moreover have "loop_inv E {} ds' v" by (rule loop_ds [OF inv]) (use ds' toks(1) 3(1) in metis)
    ultimately have "output_result E ds' R rid toks pooled s1 v [] False s1 v" using 3
      by (simp add: output_result_def)
    then show ?thesis by blast
  qed
qed


lemma process_output_spec:
  assumes E: "setting_ok E" and inv: "output_inv E out mo R ((rid, n) # es) t" and n: "0 < n" and new: "rid \<notin> fst ` set es"
  shows "\<exists>t'. process_output (st_cfg E) (hasher_of E) out mo (rid, n) t = Some (Inr t') \<and> output_inv E out mo R es t'"
proof -
  obtain v where v: "os_sch t = v\<lparr>running := R\<rparr>" "loop_inv E {} (pending out ((rid, n) # es)) v"
    "running v = filter (\<lambda>x. x \<notin> set (stopped_running_reqs t)) R" "stopped_preempted_reqs t = []"
    "fst ` set ((rid, n) # es) \<inter> set (waiting v) = {}"
    "\<forall>x \<in> fst ` set ((rid, n) # es). x \<in> set (requests v) \<longrightarrow> output_ok E out mo (objs v) x"
    using inv unfolding output_inv_def by blast
  note I = loopD [OF v(2)]
  have tail: "pending out es x = pending out ((rid, n) # es) x" if "x \<noteq> rid" for x using that by (simp add: pending_def)
  have last: "pending out es rid = []" using new by (simp add: pending_def)
  show ?thesis
  proof (cases "rid \<in> set (requests v)")
    case False
    then have "rid \<notin> set (running v)" using I(6) by auto
    then have "loop_inv E {} (pending out es) v" using loop_ds [OF v(2), of "pending out es"] tail by metis
    then have "output_inv E out mo R es t" using v unfolding output_inv_def by auto
    moreover have "process_output (st_cfg E) (hasher_of E) out mo (rid, n) t = Some (Inr t)"
      using False n by (simp add: process_output_def v(1) py_assert_def)
    ultimately show ?thesis by blast
  next
    case True
    then have run: "rid \<in> set (running v)" using I(6) v(5) by auto
    let ?d = "spec_of rid (so_spec_decode_tokens out)"
    have d: "pending out ((rid, n) # es) rid = ?d" by (simp add: pending_def)
    have "output_ok E out mo (objs v) rid" using v(6) True by simp
    from output_call [OF this] obtain i toks pooled where c:
      "dict_item rid (req_id_to_index mo) = Inr i"
      "(if sampled_token_ids mo \<noteq> [] then py_get (sampled_token_ids mo) i else Inr []) = Inr toks"
      "(if pooler_output mo \<noteq> [] then py_get (pooler_output mo) i else Inr False) = Inr pooled"
      "toks = [] \<longrightarrow> ?d = []" "py_len toks \<le> py_len ?d + 1" "is_pooling (objs v rid) \<longrightarrow> toks = []" "known E (objs v rid) toks" by blast
    define s1 where "s1 = set_obj rid (reject_drafts ?d toks) (v\<lparr>running := R\<rparr>)"
    have status: "req_status (objs v rid) = RUNNING" using I(1) run by (simp add: core_inv_def running_ok_def Let_def)
    have "num_output_placeholders (objs v rid) = 0" using I(8) True by (simp add: served_def)
    then have status1: "req_status (objs s1 rid) = RUNNING" using status reject_same by (simp add: s1_def set_obj_def)
    from running_output [OF E v(2) run, unfolded d, OF c(4-7) last tail s1_def, of pooled] obtain kept stopped s2 v' where
      o: "output_result E (pending out es) R rid toks pooled s1 v kept stopped s2 v'" by auto
    note o = o [unfolded output_result_def]
    note call = conjunct1 [OF o] conjunct1 [OF conjunct2 [OF o], THEN mp] conjunct1 [OF conjunct2 [OF conjunct2 [OF o]]]
    have sync: "\<not> async_scheduling (st_cfg E)" using E by (simp add: setting_ok_def)
    have "\<exists>os. process_output (st_cfg E) (hasher_of E) out mo (rid, n) t = Some (Inr \<lparr>os_sch = v'\<lparr>running := R\<rparr>, os_outputs = os,
      stopped_running_reqs = (if stopped then List.insert rid (stopped_running_reqs t) else stopped_running_reqs t),
      stopped_preempted_reqs = stopped_preempted_reqs t\<rparr>)"
    proof (rule process_output_run [OF _ _ n c(1-3) _ status1 sync call])
      show "set_obj rid (reject_drafts ?d toks) (os_sch t) = s1" by (simp add: s1_def v(1))
    qed (use True status in \<open>simp_all add: v(1) status_is_finished_def status_value_def\<close>)
    then obtain os where run': "process_output (st_cfg E) (hasher_of E) out mo (rid, n) t =
      Some (Inr \<lparr>os_sch = v'\<lparr>running := R\<rparr>, os_outputs = os,
        stopped_running_reqs = (if stopped then List.insert rid (stopped_running_reqs t) else stopped_running_reqs t),
        stopped_preempted_reqs = stopped_preempted_reqs t\<rparr>)" (is "_ = Some (Inr ?t')") by blast
    have w: "waiting v' = waiting v" "set (requests v') \<subseteq> set (requests v)" "\<forall>x. x \<noteq> rid \<longrightarrow> objs v' x = objs v x"
      "loop_inv E {} (pending out es) v'" using o by blast+
    have run2: "running v' = filter (\<lambda>x. x \<notin> set (stopped_running_reqs ?t')) R"
    proof (cases stopped)
      case True
      then have "running v' = filter (\<lambda>x. x \<noteq> rid) (filter (\<lambda>x. x \<notin> set (stopped_running_reqs t)) R)" using o v(3) by simp
      also have "\<dots> = filter (\<lambda>x. x \<notin> set (List.insert rid (stopped_running_reqs t))) R"
        unfolding filter_filter by (rule filter_cong) auto
      finally show ?thesis using True by simp
    qed (use o v(3) in simp)
    have "output_ok E out mo (objs v') x" if "x \<in> fst ` set es" "x \<in> set (requests v')" for x
    proof -
      have "x \<noteq> rid" using that(1) new by auto
      then have "objs v' x = objs v x" using w(3) by simp
      moreover have "output_ok E out mo (objs v) x" using v(6) that w(2) by auto
      ultimately show ?thesis by (simp add: output_ok_def)
    qed
    then have "output_inv E out mo R es ?t'" unfolding output_inv_def using w(1,4) run2 v(4,5) by (intro exI [of _ v']) auto
    with run' show ?thesis by blast
  qed
qed

lemma process_outputs_spec:
  assumes E: "setting_ok E"
  shows "output_inv E out mo R es t \<Longrightarrow> distinct (map fst es) \<Longrightarrow> \<forall>(rid, n) \<in> set es. 0 < n \<Longrightarrow>
    \<exists>t'. process_outputs (st_cfg E) (hasher_of E) out mo es t = Some (Inr t') \<and> output_inv E out mo R [] t'"
proof (induction es arbitrary: t)
  case (Cons e es)
  obtain rid n where e: "e = (rid, n)" by (cases e)
  have "rid \<notin> fst ` set es" "0 < n" using Cons.prems(2,3) by (auto simp: e)
  with process_output_spec [OF E Cons.prems(1) [unfolded e]] obtain t1 where
    t1: "process_output (st_cfg E) (hasher_of E) out mo (rid, n) t = Some (Inr t1)" "output_inv E out mo R es t1" by blast
  from Cons.IH [OF t1(2)] Cons.prems(2,3) t1(1) show ?case by (auto simp: e)
qed auto


section \<open>The end of the step\<close>

lemma events_ok:
  assumes ok: "kv_ok caching hbs L k" and run: "kcm_take_events k = (es, k')"
  shows "kv_ok caching hbs L k' \<and> same_tables (\<lambda>_. True) k k'"
proof -
  obtain free where inv: "kcm_inv k free" "kv_conf caching hbs L k" using ok by (auto simp: kv_ok_def)
  let ?p = "snd (take_events (pool_of k))"
  have p: "pool_conf ?p = pool_conf (pool_of k)" by (simp add: take_events_def pool_conf_def)
  have k': "k' = set_coord k ((kcm_coord k)\<lparr>coord_pool := ?p\<rparr>)" using run by (auto simp: kcm_take_events_def pool_of_def split: prod.splits)
  have g: "groups_of k' = groups_of k" "pool_of k' = ?p" by (simp_all add: k' groups_of_def pool_of_def set_coord_def)
  have "kv_conf caching hbs L k'"
  proof (rule kv_conf_set_coord [OF inv(2) _ k'])
    have "kcm_coord k\<lparr>coord_pool := ?p\<rparr> = (kcm_coord k)\<lparr>managers := managers (kcm_coord k), coord_pool := ?p\<rparr>" by simp
    then show "coord_same (kcm_coord k) (kcm_coord k\<lparr>coord_pool := ?p\<rparr>)" unfolding coord_same_def by blast
  qed (use g p in simp_all)
  moreover have "kcm_inv k' free" by (rule take_events_kcm_inv [OF inv(1) run])
  ultimately show ?thesis using g by (auto simp: kv_ok_def same_tables_def covered_def fresh_def)
qed

lemma loop_kv:
  assumes inv: "loop_inv E X ds s" and k: "kv_ok (st_caching E) (st_block_size E) (st_max_len E) k" "same_tables (\<lambda>_. True) (kv s) k"
  shows "loop_inv E X ds (s\<lparr>kv := k\<rparr>)"
proof -
  note I = loopD [OF inv]
  have core: "core_inv (contract E (set (requests s))) (st_sizes E) (waiting s) (s\<lparr>kv := k\<rparr>)"
    using I(1) k by (simp add: core_inv_def running_ok_def waiting_ok_def same_tables_def Let_def)
  show ?thesis
  proof (rule loopI)
    show "queue_ok (st_cfg E) (s\<lparr>kv := k\<rparr>) (waiting (s\<lparr>kv := k\<rparr>))" using I(2) queue_ok_on [of "waiting s" "s\<lparr>kv := k\<rparr>" s] by simp
  qed (use core I in simp_all)
qed

lemma update_from_output_spec:
  assumes E: "setting_ok E" and inv: "loop_inv E {} (pending out (so_num_scheduled_tokens out)) s"
    and out: "distinct (map fst (so_num_scheduled_tokens out))" "\<forall>(rid, n) \<in> set (so_num_scheduled_tokens out). 0 < n"
      "fst ` set (so_num_scheduled_tokens out) \<inter> set (waiting s) = {}"
    and mo: "\<forall>rid \<in> fst ` set (so_num_scheduled_tokens out). rid \<in> set (requests s) \<longrightarrow> output_ok E out mo (objs s) rid"
  shows "\<exists>outs es s'. update_from_output (st_cfg E) (hasher_of E) out mo s = Some (Inr (outs, es, s')) \<and> idle_inv E s'"
proof -
  let ?t = "\<lparr>os_sch = s, os_outputs = [], stopped_running_reqs = [], stopped_preempted_reqs = []\<rparr>"
  have "output_inv E out mo (running s) (so_num_scheduled_tokens out) ?t"
    using inv out(3) mo unfolding output_inv_def by (intro exI [of _ s]) simp
  from process_outputs_spec [OF E this out(1,2)] obtain t where
    t: "process_outputs (st_cfg E) (hasher_of E) out mo (so_num_scheduled_tokens out) ?t = Some (Inr t)"
    "output_inv E out mo (running s) [] t" by blast
  then obtain v where v: "os_sch t = v\<lparr>running := running s\<rparr>" "loop_inv E {} (pending out []) v"
    "running v = filter (\<lambda>x. x \<notin> set (stopped_running_reqs t)) (running s)" "stopped_preempted_reqs t = []"
    unfolding output_inv_def by blast
  have "distinct (running s)" using loopD(1) [OF inv] by (simp add: core_inv_def)
  then have "remove_all (running s) (stopped_running_reqs t) = running v" by (simp add: remove_all_filter v(3))
  moreover have "stopped_running_reqs t = [] \<Longrightarrow> running s = running v" by (simp add: v(3))
  ultimately have s2: "(if stopped_running_reqs t \<noteq> []
      then (os_sch t)\<lparr>running := remove_all (running (os_sch t)) (stopped_running_reqs t)\<rparr> else os_sch t) = v"
    by (simp add: v(1))
  obtain es k where k: "kcm_take_events (kv v) = (es, k)" by fastforce
  have "kv_ok (st_caching E) (st_block_size E) (st_max_len E) (kv v)" using loopD(1) [OF v(2)] by (simp add: core_inv_def)
  from loop_kv [OF v(2)] events_ok [OF this k] have "loop_inv E {} (pending out []) (v\<lparr>kv := k\<rparr>)" by blast
  moreover have "pending out [] = (\<lambda>_. [])" by (simp add: pending_def fun_eq_iff)
  ultimately have "idle_inv E (v\<lparr>kv := k\<rparr>)" by (simp add: idle_inv_def)
  moreover have "update_from_output (st_cfg E) (hasher_of E) out mo s = Some (Inr (os_outputs t, es, v\<lparr>kv := k\<rparr>))"
    unfolding update_from_output_def t(1) obind_simps Let_def s2 v(4) using k by simp
  ultimately show ?thesis by blast
qed


section \<open>A round of the busy loop\<close>

lemma schedule_loop:
  assumes E: "setting_ok E" and inv: "idle_inv E s"
  shows "\<exists>out s'. schedule (st_cfg E) ready remote s = Some (Inr (out, s')) \<and>
    loop_inv E {} (pending out (so_num_scheduled_tokens out)) s' \<and> requests s' = requests s \<and>
    distinct (map fst (so_num_scheduled_tokens out)) \<and> (\<forall>(rid, n) \<in> set (so_num_scheduled_tokens out). 0 < n) \<and>
    fst ` set (so_num_scheduled_tokens out) \<subseteq> set (running s') \<and> same_fixed s s'"
proof -
  let ?K = "contract E (set (requests s))"
  note I = loopD [OF inv [unfolded idle_inv_def]]
  have sinv: "sched_inv ?K (st_sizes E) (st_cfg E) s"
    using inv unfolding idle_inv_def loop_inv_def by blast
  have plain: "plain_sched ?K (st_cfg E)" "\<not> async_scheduling (st_cfg E)"
    using setting_plain [OF E] E by (simp_all add: setting_ok_def)
  have sz: "0 \<le> st_sizes E h" for h using E by (rule setting_sizes)
  have slow: "\<forall>rid \<in> set (running s). num_computed_tokens (objs s rid) \<le> num_tokens (objs s rid)"
    using I(9) by (simp add: reach_def py_len_def)
  have none: "\<forall>rid \<in> set (requests s). num_output_placeholders (objs s rid) = 0" using I(8) by (simp add: served_def)
  have "\<forall>rid \<in> set (running s). on_time (objs s rid)"
    using slow none I(6) by (fastforce simp: on_time_def num_tokens_with_spec_def num_tokens_def py_len_def)
  from kv_model.schedule_spec [OF sinv [unfolded contract_def] plain(1) [unfolded contract_def] this sz, of ready remote]
  obtain out s' where run: "schedule (st_cfg E) ready remote s = Some (Inr (out, s'))" "sched_inv ?K (st_sizes E) (st_cfg E) s'"
    "step_keeps s out s'" "tokens_given (st_cfg E) s out s'" by (auto simp: contract_def)
  from kv_model.schedule_reach [OF run(1) sinv [unfolded contract_def] plain(1) [unfolded contract_def] plain(2) sz slow none]
  have frame: "same_fixed s s'" "step_reach out s'" by blast+
  have reqs: "requests s' = requests s" using run(3) by (simp add: step_keeps_def)
  have "mset (running s' @ waiting s') = mset (running s @ waiting s)" using run(3) by (simp add: step_keeps_def)
  then have sets: "set (running s') \<union> set (waiting s') = set (running s) \<union> set (waiting s)"
    by (metis mset_eq_setD set_append)
  have sv: "served E rid (objs s' rid)" if "rid \<in> set (requests s')" for rid
  proof -
    have "same_request (objs s rid) (objs s' rid)" using frame(1) by (intro fixed_same) (simp add: same_fixed_def)
    moreover have "served E rid (objs s rid)" using I(8) that by (simp add: reqs)
    ultimately show ?thesis by (simp add: same_served)
  qed
  have "loop_inv E {} (pending out (so_num_scheduled_tokens out)) s'"
    unfolding loop_inv_def reqs
  proof (intro conjI ballI)
    fix rid assume "rid \<in> set (running s')"
    then show "reach (objs s' rid) (num_computed_tokens (objs s' rid)) (pending out (so_num_scheduled_tokens out) rid)"
      using frame(2) by (cases "rid \<in> fst ` set (so_num_scheduled_tokens out)")
        (auto simp: step_reach_def pending_def reach_def py_len_def)
  next
    show "set (requests s) = set (running s') \<union> set (waiting s') \<union> {}" using I(6) by (simp add: sets)
  qed (use run(2) I(5) sv in \<open>simp_all add: reqs\<close>)
  moreover have "distinct (map fst (so_num_scheduled_tokens out))" "\<forall>(rid, n) \<in> set (so_num_scheduled_tokens out). 0 < n"
    "fst ` set (so_num_scheduled_tokens out) \<subseteq> set (running s')"
    using run(4) unfolding tokens_given_def by auto
  ultimately show ?thesis using run(1) reqs frame(1) by blast
qed

lemma loop_disjoint: "loop_inv E X ds s \<Longrightarrow> set (running s) \<inter> set (waiting s) = {}"
  using loopD(1) by (auto simp: core_inv_def)

lemma aborts_spec:
  assumes E: "setting_ok E" and inv: "loop_inv E {} ds (eng_sched e)"
  shows "\<exists>ids e'. process_aborts_queue (st_cfg E) e = Inr e' \<and> loop_inv E {} ds (eng_sched e') \<and>
    set (requests (eng_sched e')) = set (requests (eng_sched e)) - ids \<and>
    set (running (eng_sched e')) = set (running (eng_sched e)) - ids \<and>
    (\<forall>x. x \<notin> ids \<longrightarrow> objs (eng_sched e') x = objs (eng_sched e) x) \<and> batch_queue e' = batch_queue e"
proof (cases "aborts_queue e = []")
  case True
  then show ?thesis using inv by (intro exI [of _ "{}"] exI [of _ e]) (simp add: process_aborts_queue_def)
next
  case False
  let ?ids = "remdups (concat (aborts_queue e))"
  have "status_is_finished FINISHED_ABORTED" by (simp add: status_is_finished_def status_value_def)
  from finish_requests_spec [OF E inv distinct_remdups this, of "concat (aborts_queue e)"] obtain s' where
    "sched_finish_requests (st_cfg E) ?ids FINISHED_ABORTED (eng_sched e) = Inr s'" "loop_inv E {} ds s'"
    "set (requests s') = set (requests (eng_sched e)) - set ?ids" "set (running s') = set (running (eng_sched e)) - set ?ids"
    "\<forall>x. x \<notin> set ?ids \<longrightarrow> objs s' x = objs (eng_sched e) x" by blast
  then show ?thesis using False
    by (intro exI [of _ "set ?ids"] exI [of _ "e\<lparr>aborts_queue := [], eng_sched := s'\<rparr>"])
      (simp add: process_aborts_queue_def abort_requests_def)
qed

text \<open>What the model executor promises for the plan of the scheduler.\<close>

definition executor_ok :: "setting \<Rightarrow> (string \<Rightarrow> bool) \<Rightarrow> (mm_hash \<Rightarrow> bool) \<Rightarrow> executor \<Rightarrow> scheduler \<Rightarrow> bool" where
  "executor_ok E ready remote exec s \<longleftrightarrow>
     (\<forall>out s'. schedule (st_cfg E) ready remote s = Some (Inr (out, s')) \<longrightarrow> worker_ok E out (fst (exec out s')) s')"

lemma engine_step_spec:
  assumes E: "setting_ok E" and inv: "idle_inv E (eng_sched e)" and exec: "executor_ok E ready remote exec (eng_sched e)"
  shows "\<exists>outs did e'. engine_step (st_cfg E) (hasher_of E) ready remote exec e = Some (Inr (outs, did, e')) \<and>
    idle_inv E (eng_sched e') \<and> batch_queue e' = batch_queue e"
proof (cases "scheduler_paused e \<or> \<not> has_requests (eng_sched e)")
  case True
  then show ?thesis using inv by (auto simp: engine_step_def)
next
  case False
  from schedule_loop [OF E inv, of ready remote] obtain out s1 where
    s1: "schedule (st_cfg E) ready remote (eng_sched e) = Some (Inr (out, s1))"
      "loop_inv E {} (pending out (so_num_scheduled_tokens out)) s1"
      "distinct (map fst (so_num_scheduled_tokens out))" "\<forall>(rid, n) \<in> set (so_num_scheduled_tokens out). 0 < n"
      "fst ` set (so_num_scheduled_tokens out) \<subseteq> set (running s1)" by blast
  obtain mo arrived where mo: "exec out s1 = (mo, arrived)" by fastforce
  have worker: "worker_ok E out mo s1" using exec s1(1) mo by (auto simp: executor_ok_def)
  let ?e1 = "e\<lparr>eng_sched := s1, aborts_queue := aborts_queue e @ arrived\<rparr>"
  have "loop_inv E {} (pending out (so_num_scheduled_tokens out)) (eng_sched ?e1)" using s1(2) by simp
  from aborts_spec [OF E this] obtain ids e2 where
    e2: "process_aborts_queue (st_cfg E) ?e1 = Inr e2" "loop_inv E {} (pending out (so_num_scheduled_tokens out)) (eng_sched e2)"
      "set (requests (eng_sched e2)) = set (requests s1) - ids" "set (running (eng_sched e2)) = set (running s1) - ids"
      "\<forall>x. x \<notin> ids \<longrightarrow> objs (eng_sched e2) x = objs s1 x" "batch_queue e2 = batch_queue e" by auto
  have "fst ` set (so_num_scheduled_tokens out) \<inter> set (waiting (eng_sched e2)) = {}"
    using s1(5) e2(3,4) loop_disjoint [OF e2(2)] loopD(6) [OF e2(2)] by blast
  moreover have "\<forall>rid \<in> fst ` set (so_num_scheduled_tokens out). rid \<in> set (requests (eng_sched e2)) \<longrightarrow>
      output_ok E out mo (objs (eng_sched e2)) rid"
    using worker e2(3,5) by (auto simp: worker_ok_def output_ok_def)
  ultimately obtain outs es s3 where
    "update_from_output (st_cfg E) (hasher_of E) out mo (eng_sched e2) = Some (Inr (outs, es, s3))" "idle_inv E s3"
    using update_from_output_spec [OF E e2(2) s1(3,4)] by blast
  then show ?thesis using False s1(1) mo e2(1,6) by (simp add: engine_step_def)
qed

lemma post_step_spec:
  "idle_inv E (eng_sched e) \<Longrightarrow> idle_inv E (eng_sched (post_step cfg valid drafts spec did e))"
  using draft_spec by (auto simp: post_step_def idle_inv_def split: option.splits)

lemma process_engine_step_spec:
  assumes E: "setting_ok E" "idle_inv E (eng_sched e)" "executor_ok E ready remote (execute_model ex) (eng_sched e)"
    and sync: "batch_queue e = None"
  shows "\<exists>outs did e'. process_engine_step (st_cfg E) (hasher_of E) ready remote valid ec ex e = Some (Inr (outs, did, e')) \<and>
    idle_inv E (eng_sched e') \<and> batch_queue e' = None"
proof -
  obtain outs did e1 where "engine_step (st_cfg E) (hasher_of E) ready remote (execute_model ex) e = Some (Inr (outs, did, e1))"
    "idle_inv E (eng_sched e1)" "batch_queue e1 = None" using engine_step_spec [OF E] sync by metis
  moreover have "batch_queue (post_step c v d u b e1) = batch_queue e1" for c v d u b by (simp add: post_step_def split: option.split)
  ultimately show ?thesis using post_step_spec sync by (simp add: process_engine_step_def)
qed

text \<open>The batch queue never holds as many batches as its size when a step starts, as the step asserts.\<close>

lemma process_aborts_batches: "process_aborts_queue cfg e = Inr e' \<Longrightarrow> batch_queue e' = batch_queue e"
  by (auto simp: process_aborts_queue_def abort_requests_def res_simps split: if_splits)

lemma finish_batch_bound:
  assumes "finish_batch cfg h valid ec ex d did batches e = Some (Inr (outs, did', e'))"
  shows "\<exists>bs. batch_queue e' = Some bs \<and> length bs = length batches - (if d = None then 1 else 0) \<and> batches \<noteq> []"
proof -
  have ne: "batches \<noteq> []" using assms by (auto simp: finish_batch_def)
  obtain r arrived where r: "batch_result ex (last batches) (eng_sched e) = (r, arrived)" by fastforce
  obtain mo where mo: "r = Some mo" using assms ne r by (cases r) (simp_all add: finish_batch_def)
  let ?e1 = "e\<lparr>aborts_queue := aborts_queue e @ arrived, batch_queue := Some (butlast batches)\<rparr>"
  obtain e2 where e2: "process_aborts_queue cfg ?e1 = Inr e2"
    using assms ne r mo by (cases "process_aborts_queue cfg ?e1") (simp_all add: finish_batch_def)
  then have e2: "process_aborts_queue cfg ?e1 = Inr e2" "batch_queue e2 = Some (butlast batches)"
    using process_aborts_batches [OF e2] by simp_all
  obtain os es s3 where u: "update_from_output cfg h (last batches) mo (eng_sched e2) = Some (Inr (os, es, s3))"
    using assms ne by (auto simp: finish_batch_def Let_def r mo e2(1) obind_eq)
  show ?thesis
  proof (cases d)
    case None
    then show ?thesis using assms ne e2(2) by (auto simp: finish_batch_def Let_def r mo e2(1) u)
  next
    case (Some out)
    then show ?thesis
      using assms ne
      by (cases "use_spec_decode ec"; cases "take_draft_token_ids ex") (auto simp: finish_batch_def Let_def r mo e2(1) u)
  qed
qed

lemma batch_queue_bounded:
  assumes "step_with_batch_queue cfg h ready remote valid ec ex e = Some (Inr (outs, did, e'))"
    and "batch_queue e = Some bs" "py_len bs < batch_queue_size ec"
  shows "\<exists>bs'. batch_queue e' = Some bs' \<and> py_len bs' < batch_queue_size ec"
  using assms
  by (fastforce simp: step_with_batch_queue_def Let_def obind_eq py_len_def split: if_splits dest!: finish_batch_bound)

section \<open>Client requests\<close>

text \<open>
  The requests of the front end: the ids of new requests are new, pooling tasks are supported, and the
  executor has not failed.
\<close>

definition client_ok :: "setting \<Rightarrow> (request \<Rightarrow> bool) \<Rightarrow> client_request \<Rightarrow> bool" where
  "client_ok E supported q = (case q of ADD r \<Rightarrow> new_request E r \<and> (is_pooling r \<longrightarrow> supported r) | EXECUTOR_FAILED \<Rightarrow> False | _ \<Rightarrow> True)"

definition added :: "client_request list \<Rightarrow> string list" where
  "added qs = concat (map (\<lambda>q. case q of ADD r \<Rightarrow> [request_id r] | _ \<Rightarrow> []) qs)"

definition clients_ok :: "setting \<Rightarrow> (request \<Rightarrow> bool) \<Rightarrow> client_request list \<Rightarrow> scheduler \<Rightarrow> bool" where
  "clients_ok E supported qs s \<longleftrightarrow> list_all (client_ok E supported) qs \<and> distinct (added qs) \<and> set (added qs) \<inter> set (requests s) = {}"

lemma added_simps [simp]:
  "added [] = []" "added (q # qs) = (case q of ADD r \<Rightarrow> [request_id r] | _ \<Rightarrow> []) @ added qs"
  by (simp_all add: added_def)

lemma client_spec:
  assumes E: "setting_ok E" and inv: "idle_inv E (eng_sched e)" and q: "clients_ok E supported (q # qs) (eng_sched e)"
  shows "\<exists>e'. handle_client_request (st_cfg E) (hasher_of E) supported q e = Some (Inr e') \<and> idle_inv E (eng_sched e') \<and>
    clients_ok E supported qs (eng_sched e') \<and> batch_queue e' = batch_queue e"
proof (cases q)
  case (ADD r)
  then have r: "new_request E r" "is_pooling r \<longrightarrow> supported r" "request_id r \<notin> set (requests (eng_sched e))"
    using q by (simp_all add: clients_ok_def client_ok_def)
  obtain s' where s': "sched_add_request (st_cfg E) (hasher_of E) r (eng_sched e) = Some (Inr s')" "loop_inv E {} (\<lambda>_. []) s'"
    "requests s' = requests (eng_sched e) @ [request_id r]"
    using add_request_spec [OF E inv [unfolded idle_inv_def] r(1,3)] by blast
  with s' r q ADD show ?thesis by (auto simp: handle_client_request_def engine_add_request_def idle_inv_def clients_ok_def)
next
  case (ABORT ids)
  have "status_is_finished FINISHED_ABORTED" by (simp add: status_is_finished_def status_value_def)
  from finish_requests_spec [OF E inv [unfolded idle_inv_def] distinct_remdups this, of ids] obtain s' where
    "sched_finish_requests (st_cfg E) (remdups ids) FINISHED_ABORTED (eng_sched e) = Inr s'" "loop_inv E {} (\<lambda>_. []) s'"
    "set (requests s') = set (requests (eng_sched e)) - set (remdups ids)" by blast
  with q ABORT show ?thesis
    by (auto simp: handle_client_request_def abort_requests_def idle_inv_def clients_ok_def)
qed (use inv q in \<open>simp_all add: handle_client_request_def pause_scheduler_def resume_scheduler_def clients_ok_def client_ok_def\<close>)

lemma input_spec:
  assumes E: "setting_ok E"
  shows "idle_inv E (eng_sched e) \<Longrightarrow> clients_ok E supported (map snd qs) (eng_sched e) \<Longrightarrow>
    (\<not> (w \<and> waits_for_input e) \<or> process_input_queue (st_cfg E) (hasher_of E) supported qs w e \<noteq> None) \<Longrightarrow>
    \<exists>e'. process_input_queue (st_cfg E) (hasher_of E) supported qs w e = Some (Inr e') \<and> idle_inv E (eng_sched e') \<and>
      batch_queue e' = batch_queue e"
proof (induction qs arbitrary: w e)
  case (Cons q qs)
  obtain empty c where q: "q = (empty, c)" by (cases q)
  let ?w = "w \<and> waits_for_input e"
  define e1 where "e1 = (if ?w \<and> empty then e\<lparr>aborts_queue := []\<rparr> else e)"
  have same: "eng_sched e1 = eng_sched e" "batch_queue e1 = batch_queue e" by (simp_all add: e1_def)
  have "idle_inv E (eng_sched e1)" "clients_ok E supported (c # map snd qs) (eng_sched e1)"
    using Cons.prems(1,2) by (simp_all add: q same)
  from client_spec [OF E this] obtain e2 where
    e2: "handle_client_request (st_cfg E) (hasher_of E) supported c e1 = Some (Inr e2)" "idle_inv E (eng_sched e2)"
    "clients_ok E supported (map snd qs) (eng_sched e2)" "batch_queue e2 = batch_queue e" unfolding same by blast
  have run: "process_input_queue (st_cfg E) (hasher_of E) supported (q # qs) w e =
      process_input_queue (st_cfg E) (hasher_of E) supported qs ?w e2" using e2(1) by (simp add: q e1_def Let_def)
  then have "\<not> (?w \<and> waits_for_input e2) \<or> process_input_queue (st_cfg E) (hasher_of E) supported qs ?w e2 \<noteq> None"
    using Cons.prems(3) by auto
  from Cons.IH [OF e2(2,3) this] show ?case unfolding run e2(4) .
qed auto

end
