(* ===== verification/Engine_Safety.thy ===== *)
theory Engine_Safety
  imports Engine_Loop "HOL-Library.Countable"
begin

text \<open>
  Properties of the engine core: a round of the busy loop never fails; what the constructor of a request
  checks; the generation of a request ends; and the requests for which it does not.
\<close>

section \<open>A round of the busy loop\<close>

text \<open>C1.
  A round of the busy loop of the synchronous engine does not fail and keeps the invariant of the
  scheduler.  The input queue may hold aborts, pauses, resumes and new requests, and the round takes them,
  schedules, executes the model, handles the aborts that came meanwhile, takes over the sampled
  tokens, frees the requests that stopped and takes the new draft tokens, without an exception; in the
  state it leaves, the requests are those that run or wait, their block hashes are those of their
  tokens, and the KV cache and the encoder cache are consistent with them, so that the next round does
  not fail either.  The round returns when the engine has work or the requests bring it some.

  This is for new requests (\<open>clients_ok\<close>) whose ids are new and different (a second request with the id
  of one that is alive makes \<open>add_request\<close> raise), that are no streaming sessions, whose prompt is shorter
  than the model length and fits in it with the least number of output tokens, and whose pooling task, if
  they have one, the model supports; with prefix caching they have text only.  The executor has not
  reported a failure, and it returns, for every scheduled request, at most one token more than its draft
  tokens (\<open>executor_ok\<close>).  With prefix caching the hash function has no collision on a set of inputs
  (\<open>st_inputs\<close>) that holds those of the blocks of the requests, new ones included, before and after the
  sampled tokens are appended.
\<close>

theorem busy_round_never_fails:
  assumes "setting_ok E" and "idle_inv E (eng_sched e)" and "batch_queue e = None"
    and "clients_ok E supported (map snd qs) (eng_sched e)"
    and "waits_for_input e \<Longrightarrow> process_input_queue (st_cfg E) (hasher_of E) supported qs True e \<noteq> None"
    and "\<And>e1. process_input_queue (st_cfg E) (hasher_of E) supported qs True e = Some (Inr e1) \<Longrightarrow>
      executor_ok E ready remote (execute_model ex) (eng_sched e1)"
  shows "\<exists>outs did e'. busy_round (st_cfg E) (hasher_of E) supported ready remote valid ec ex qs e = Some (Inr (outs, did, e')) \<and>
    idle_inv E (eng_sched e') \<and> batch_queue e' = None"
proof -
  obtain e1 where e1: "process_input_queue (st_cfg E) (hasher_of E) supported qs True e = Some (Inr e1)"
    "idle_inv E (eng_sched e1)" "batch_queue e1 = None"
    using input_spec [OF assms(1,2,4), of True] assms(3,5) by auto
  from process_engine_step_spec [OF assms(1) e1(2) assms(6) [OF e1(1)] e1(3)] show ?thesis
    by (auto simp: busy_round_def e1(1))
qed

text \<open>An engine without requests, two attention groups and no prefix caching; one request is added.\<close>

definition demo_two_groups :: kv_cache_manager where
  "demo_two_groups = (case KVCacheManager \<lparr>num_blocks = 8, kv_cache_tensors = [], kv_cache_groups = demo_groups\<rparr>
     100 16 False False False False False 1 1 False of Inr k \<Rightarrow> k | Inl _ \<Rightarrow> undefined)"

definition demo_setting :: setting where
  "demo_setting = \<lparr>st_caching = False, st_hash = demo_hash, st_none_hash = [0], st_inputs = UNIV, st_block_size = 16, st_max_len = 100,
     st_sizes = (\<lambda>_. 0), st_cfg = demo_sched_config\<rparr>"

definition demo_sampling :: sampling_params where
  "demo_sampling = \<lparr>min_tokens = 0, sp_max_tokens = Some 16, ignore_eos = False, stop_token_ids = [], sp_skip_reading = None\<rparr>"

definition demo_new :: request where
  "demo_new = (demo_request [1..20])\<lparr>sampling_params_of := Some demo_sampling\<rparr>"

definition demo_engine :: engine where
  "demo_engine = \<lparr>eng_sched = \<lparr>requests = [], objs = (\<lambda>_. demo_new), waiting = [], running = [],
       finished_req_ids = {}, prev_step_scheduled_req_ids = {}, num_waiting_for_streaming_input = 0,
       kv = demo_two_groups, encoder = EncoderCacheManager 64\<rparr>,
     scheduler_paused = False, aborts_queue = [], batch_queue = None\<rparr>"

text \<open>An executor that samples one token for every request.\<close>

definition one_token :: executor where
  "one_token out s = (let rids = map fst (so_num_scheduled_tokens out) in
     (\<lparr>req_id_to_index = zip rids (map int [0..<length rids]), sampled_token_ids = map (\<lambda>_. [7]) rids, pooler_output = []\<rparr>, []))"

definition demo_executor :: model_executor where
  "demo_executor = \<lparr>execute_model = one_token, batch_result = (\<lambda>_ _. (None, [])), future_done = (\<lambda>_. True),
     take_draft_token_ids = None\<rparr>"

lemma map_of_zip_index:
  "x \<in> set xs \<Longrightarrow> \<exists>i. map_of (zip xs (map int [0..<length xs])) x = Some i \<and> 0 \<le> i \<and> i < int (length xs)"
proof -
  assume "x \<in> set xs"
  then obtain i where i: "map_of (zip xs (map int [0..<length xs])) x = Some i"
    by (metis length_map length_upt minus_nat.diff_0 map_of_zip_is_Some)
  then have "i \<in> set (map int [0..<length xs])" by (metis map_of_SomeD set_zip_rightD)
  with i show ?thesis by auto
qed

lemma one_token_ok:
  assumes E: "setting_ok E" and inv: "idle_inv E s" and gen: "\<And>rid. \<not> is_pooling (objs s rid)" and all: "st_inputs E = UNIV"
  shows "executor_ok E ready remote one_token s"
  unfolding executor_ok_def worker_ok_def
proof (intro allI impI ballI)
  fix out s' rid
  assume run: "schedule (st_cfg E) ready remote s = Some (Inr (out, s'))" and rid: "rid \<in> fst ` set (so_num_scheduled_tokens out)"
  have "same_fixed s s'" using schedule_loop [OF E inv, of ready remote] run by auto
  then have p: "\<not> is_pooling (objs s' rid)" using gen [of rid] fixed_fields(9) [of "objs s' rid" "objs s rid"] by (simp add: same_fixed_def)
  let ?rids = "map fst (so_num_scheduled_tokens out)"
  obtain i where i: "map_of (zip ?rids (map int [0..<length ?rids])) rid = Some i" "0 \<le> i" "i < int (length ?rids)"
    using map_of_zip_index [of rid ?rids] rid by auto
  have "tokens_of (fst (one_token out s')) i = [7]" using i(2,3) by (auto simp: tokens_of_def one_token_def Let_def)
  with i p show "output_ok E out (fst (one_token out s')) (objs s') rid"
    using all by (auto simp: output_ok_def known_def one_token_def py_len_def Let_def intro!: exI [of _ i])
qed

lemma demo_two_groups_fine: "kv_ok False 16 100 demo_two_groups" "fresh rid demo_two_groups"
proof -
  have "\<not> (case KVCacheManager \<lparr>num_blocks = 8, kv_cache_tensors = [], kv_cache_groups = demo_groups\<rparr>
     100 16 False False False False False 1 1 False of Inr k \<Rightarrow> False | Inl _ \<Rightarrow> True)" by code_simp
  then have "KVCacheManager \<lparr>num_blocks = 8, kv_cache_tensors = [], kv_cache_groups = demo_groups\<rparr>
     100 16 False False False False False 1 1 False = Inr demo_two_groups" by (auto simp: demo_two_groups_def split: sum.splits)
  from kv_reachable.init [OF this demo_plain] have "kv_reachable demo_two_groups" by (simp add: demo_groups_def)
  then obtain free where inv: "kcm_inv demo_two_groups free" using kv_reachable_inv by blast
  have g: "list_all (\<lambda>m. num_cached_block m = [] \<and> req_to_blocks m = [] \<and> positive_window (mgr_spec m)) (groups_of demo_two_groups)"
    by code_simp
  have conf: "\<not> kcm_caching demo_two_groups" "hash_block_size (pool_of demo_two_groups) = 16"
    "kcm_max_model_len demo_two_groups = 100" "\<not> kcm_log_stats demo_two_groups" by code_simp+
  from inv g conf show "kv_ok False 16 100 demo_two_groups" by (auto simp: kv_ok_def kv_conf_def list_all_iff)
  from g show "fresh rid demo_two_groups" by (auto simp: fresh_def blocks_of_def list_all_iff)
qed

lemma demo_setting_ok: "setting_ok demo_setting"
  by (simp add: setting_ok_def demo_setting_def plain_sched_def demo_sched_config_def contract_def)

lemma demo_idle: "idle_inv demo_setting (eng_sched demo_engine)"
proof -
  have "ecm_inv (\<lambda>_. 0 :: int) (EncoderCacheManager 64)" by (rule conjunct1 [OF ecm_reachable_inv [OF ecm_reachable.start]]) auto
  then show ?thesis
    using demo_two_groups_fine unfolding idle_inv_def
    by (intro loopI) (simp_all add: core_inv_def demo_engine_def demo_setting_def queue_ok_def q_invar_def demo_sched_config_def py_len_def)
qed

lemma demo_new_ok: "new_request demo_setting demo_new"
  by (simp add: new_request_def served_def demo_setting_def demo_new_def demo_request_def demo_sampling_def sized_def
      num_tokens_def num_output_tokens_def py_len_def known_def)

text \<open>
  An engine with prefix caching: one full attention group, and a hash function without collisions, the
  number of its input in unary.
\<close>

instance extra_key :: countable
  by countable_datatype

definition unary_hash :: hash_function where
  "unary_hash x = replicate (Suc (to_nat x)) 1"

lemma unary_hash_free: "collision_free unary_hash [0] X"
proof -
  have "unary_hash x \<noteq> [0]" "unary_hash x \<noteq> []" for x by (simp_all add: unary_hash_def)
  moreover have "x = y" if "unary_hash x = unary_hash y" for x y
    using arg_cong [OF that, of length] by (simp add: unary_hash_def)
  ultimately show ?thesis unfolding collision_free_def inj_on_def image_iff by metis
qed

definition cached_setting :: setting where
  "cached_setting = demo_setting\<lparr>st_caching := True, st_hash := unary_hash\<rparr>"

definition cached_new :: request where
  "cached_new = demo_new\<lparr>block_hashes := [chain_hash unary_hash [0] 16 demo_new 0]\<rparr>"

definition cached_engine :: engine where
  "cached_engine = demo_engine\<lparr>eng_sched := (eng_sched demo_engine)\<lparr>kv := demo_unitary\<rparr>\<rparr>"

lemma cached_setting_ok: "setting_ok cached_setting"
  using unary_hash_free
  by (simp add: setting_ok_def cached_setting_def demo_setting_def plain_sched_def demo_sched_config_def contract_def)

lemma cached_idle: "idle_inv cached_setting (eng_sched cached_engine)"
proof -
  have "ecm_inv (\<lambda>_. 0 :: int) (EncoderCacheManager 64)" by (rule conjunct1 [OF ecm_reachable_inv [OF ecm_reachable.start]]) auto
  then show ?thesis
    using demo_unitary_fine unfolding idle_inv_def
    by (intro loopI) (simp_all add: core_inv_def cached_engine_def demo_engine_def cached_setting_def demo_setting_def
        queue_ok_def q_invar_def demo_sched_config_def py_len_def)
qed

lemma cached_new_ok: "new_request cached_setting cached_new"
proof -
  have "chain_hash unary_hash [0] 16 cached_new i = chain_hash unary_hash [0] 16 demo_new i" for i
    by (rule chain_hash_cong) (simp_all add: cached_new_def block_tokens_def text_keys_def Let_def
        gen_lora_extra_hash_keys_def cache_salt_keys_def gen_prompt_embeds_extra_hash_keys_def)
  moreover have "full_blocks 16 cached_new = 1"
    by (simp add: full_blocks_def num_tokens_def cached_new_def demo_new_def demo_request_def py_len_def)
  moreover have "block_hashes cached_new = [chain_hash unary_hash [0] 16 demo_new 0]" by (simp add: cached_new_def)
  ultimately have "hashes_ok unary_hash [0] 16 cached_new (full_blocks 16 cached_new)"
    by (simp add: hashes_ok_def del: chain_hash.simps)
  then show ?thesis
    by (simp add: new_request_def served_def cached_setting_def demo_setting_def cached_new_def demo_new_def demo_request_def
        demo_sampling_def sized_def num_tokens_def num_output_tokens_def py_len_def known_def)
qed

theorem busy_round_never_fails_witness:
  "\<exists>outs did e'. busy_round demo_sched_config (Some (request_block_hasher unary_hash [0] 16)) (\<lambda>_. True) (\<lambda>_. False)
      (\<lambda>_. False) (\<lambda>_. None)
      \<lparr>batch_queue_size = 1, is_ec_producer = False, is_pooling_model = False, use_spec_decode = False\<rparr> demo_executor
      [(True, ADD cached_new)] cached_engine = Some (Inr (outs, did, e')) \<and>
    idle_inv cached_setting (eng_sched e') \<and> batch_queue e' = None"
proof -
  let ?h = "Some (request_block_hasher unary_hash [0] 16)"
  let ?in = "process_input_queue demo_sched_config ?h (\<lambda>_. True) [(True, ADD cached_new)] True cached_engine"
  have st: "st_cfg cached_setting = demo_sched_config" "hasher_of cached_setting = ?h"
    by (simp_all add: cached_setting_def demo_setting_def hasher_of_def)
  obtain s' where s': "sched_add_request demo_sched_config ?h cached_new (eng_sched cached_engine) = Some (Inr s')"
    "has_requests s'" "\<And>rid. \<not> is_pooling (objs s' rid)"
    by (auto simp: sched_add_request_def cached_engine_def demo_engine_def cached_new_def demo_new_def demo_request_def Let_def
        set_obj_def has_requests_def has_unfinished_requests_def get_num_unfinished_requests_def q_add_request_def
        fcfs_add_request_def demo_sched_config_def py_len_def)
  have run: "?in = Some (Inr (cached_engine\<lparr>eng_sched := s', aborts_queue := []\<rparr>))"
    using s'(1,2)
    by (simp add: handle_client_request_def engine_add_request_def waits_for_input_def Let_def)
      (simp add: cached_engine_def demo_engine_def)
  have ok: "clients_ok cached_setting (\<lambda>_. True) (map snd [(True, ADD cached_new)]) (eng_sched cached_engine)"
    using cached_new_ok by (simp add: clients_ok_def client_ok_def cached_engine_def demo_engine_def)
  have inv: "idle_inv cached_setting s'"
    using input_spec [OF cached_setting_ok cached_idle ok, of True, unfolded st run] by auto
  have exec: "executor_ok cached_setting (\<lambda>_. False) (\<lambda>_. False) (execute_model demo_executor) s'"
    unfolding demo_executor_def model_executor.simps by (rule one_token_ok [OF cached_setting_ok inv s'(3)])
      (simp add: cached_setting_def demo_setting_def)
  show ?thesis
    using busy_round_never_fails [OF cached_setting_ok cached_idle _ ok, where ex = demo_executor and ready = "\<lambda>_. False"
        and remote = "\<lambda>_. False" and valid = "\<lambda>_. None", unfolded st run] exec
    by (simp add: cached_engine_def demo_engine_def)
qed

section \<open>The constructor of a request\<close>

definition prompt_length :: "engine_core_request \<Rightarrow> int" where
  "prompt_length q = (case ecr_prompt_token_ids q of Some ts \<Rightarrow> py_len ts
     | None \<Rightarrow> (case ecr_prompt_embeds q of Some es \<Rightarrow> py_len es | None \<Rightarrow> 0))"

lemma new_hashes:
  assumes "0 < bs" and "mm_features r = []" and "block_hashes r = []"
  shows "\<exists>hs. update_block_hashes (Some (request_block_hasher H nh bs)) r = Some (Inr (r\<lparr>block_hashes := hs\<rparr>)) \<and>
    (\<forall>b. hashes_ok H nh bs (r\<lparr>block_hashes := hs, skip_reading_prefix_cache := b\<rparr>)
      (full_blocks bs (r\<lparr>block_hashes := hs, skip_reading_prefix_cache := b\<rparr>)))"
proof -
  let ?hs = "map (chain_hash H nh bs r) [0..<full_blocks bs r]"
  have "hashes_ok H nh bs r 0" by (simp add: hashes_ok_def assms(3))
  from request_block_hasher_chain [OF assms(1,2) this]
  have "update_block_hashes (Some (request_block_hasher H nh bs)) r = Some (Inr (r\<lparr>block_hashes := ?hs\<rparr>))"
    by (simp add: update_block_hashes_def assms(3))
  moreover have "chain_hash H nh bs (r\<lparr>block_hashes := ?hs, skip_reading_prefix_cache := b\<rparr>) i = chain_hash H nh bs r i" for b i
    by (rule chain_hash_cong)
      (simp_all add: block_tokens_def text_keys_def Let_def gen_lora_extra_hash_keys_def cache_salt_keys_def
        gen_prompt_embeds_extra_hash_keys_def)
  ultimately show ?thesis by (intro exI [of _ ?hs]) (simp add: hashes_ok_def full_blocks_def num_tokens_def)
qed

lemma py_repeat_length [simp]: "0 \<le> n \<Longrightarrow> py_len (py_repeat x n) = n"
  by (simp add: py_repeat_def py_len_def)

text \<open>What the constructor raises, in the order of its checks.\<close>

definition request_error :: "engine_core_request \<Rightarrow> py_error option" where
  "request_error q =
     (if \<not> ecr_pooling q \<and> ecr_sampling_params q = None then Some ValueError
      else if \<not> ecr_pooling q \<and> sp_max_tokens (the (ecr_sampling_params q)) = None then Some AssertionError
      else case (ecr_prompt_token_ids q, ecr_prompt_embeds q) of
          (None, None) \<Rightarrow> Some ValueError
        | (Some ts, Some es) \<Rightarrow> if length ts \<noteq> length es then Some ValueError else None
        | _ \<Rightarrow> None)"

text \<open>C31.
  The constructor of \<open>Request\<close> raises a \<open>ValueError\<close> when the request has neither sampling nor pooling
  parameters, an \<open>AssertionError\<close> when it has sampling parameters without \<open>max_tokens\<close> (and no pooling
  parameters), otherwise a \<open>ValueError\<close> when it has neither prompt tokens nor prompt embeddings, or both
  with different lengths, and nothing else.  Otherwise the new request waits (for its grammar, when it has
  one), nothing of it is computed, it has as many tokens as its prompt, it may generate \<open>max_tokens\<close> tokens
  (one token for a pooling request), and with prefix caching its block hashes are the chain of all full
  blocks of the prompt.  With prefix caching this is for requests
  without multi-modal inputs and prompt embeddings.
\<close>

theorem request_construction:
  assumes "setting_ok E" and "st_caching E \<Longrightarrow> ecr_mm_features q = [] \<and> ecr_prompt_embeds q = None"
  shows "case request_error q of Some e \<Rightarrow> preprocess_add_request (hasher_of E) q = Some (Inl e)
    | None \<Rightarrow> \<exists>r. preprocess_add_request (hasher_of E) q = Some (Inr r) \<and> request_id r = ecr_request_id q \<and>
      num_tokens r = prompt_length q \<and> num_prompt_tokens r = prompt_length q \<and> num_computed_tokens r = 0 \<and>
      output_token_ids r = [] \<and> is_pooling r = ecr_pooling q \<and>
      req_max_tokens r = (if ecr_pooling q then 1 else the (sp_max_tokens (the (ecr_sampling_params q)))) \<and>
      req_status r = (if \<not> ecr_pooling q \<and> ecr_structured q then WAITING_FOR_FSM else WAITING) \<and>
      (st_caching E \<longrightarrow> hashes_ok (st_hash E) (st_none_hash E) (st_block_size E) r (full_blocks (st_block_size E) r))"
proof (cases "request_error q")
  case (Some e)
  then show ?thesis
    by (auto simp: request_error_def preprocess_add_request_def Request_def initial_limits_def
        length_from_prompt_token_ids_or_embeds_def py_len_def split: option.splits if_splits)
next
  case None
  let ?max = "if ecr_pooling q then 1 else the (sp_max_tokens (the (ecr_sampling_params q)))"
  have lim: "initial_limits q = Inr (?max, if \<not> ecr_pooling q \<and> ecr_structured q then WAITING_FOR_FSM else WAITING)"
    using None by (auto simp: initial_limits_def request_error_def split: if_splits)
  have len: "length_from_prompt_token_ids_or_embeds (ecr_prompt_token_ids q) (ecr_prompt_embeds q) = Inr (prompt_length q)"
    using None
    by (auto simp: length_from_prompt_token_ids_or_embeds_def prompt_length_def request_error_def py_len_def
        split: option.splits if_splits)
  let ?toks = "case ecr_prompt_token_ids q of Some ts \<Rightarrow> ts | None \<Rightarrow> py_repeat 0 (prompt_length q)"
  have "0 \<le> prompt_length q" by (simp add: prompt_length_def py_len_def split: option.split)
  then have toks: "py_len ?toks = prompt_length q" by (simp add: prompt_length_def py_len_def py_repeat_def split: option.split)
  show ?thesis
  proof (cases "st_caching E")
    case True
    then have bs: "0 < st_block_size E" using assms(1) by (simp add: setting_ok_def)
    have plain: "ecr_mm_features q = []" "ecr_prompt_embeds q = None" using assms(2) True by simp_all
    define r0 where "r0 = \<lparr>request_id = ecr_request_id q, priority = ecr_priority q, arrival_time = ecr_arrival_time q,
        sampling_params_of = ecr_sampling_params q, is_pooling = ecr_pooling q,
        pooling_skip_reading = ecr_pooling_skip_reading q, eos_token_id = ecr_eos_token_id q,
        req_max_tokens = ?max,
        req_status = (if \<not> ecr_pooling q \<and> ecr_structured q then WAITING_FOR_FSM else WAITING), stop_reason = None,
        num_prompt_tokens = prompt_length q, output_token_ids = [], all_token_ids = ?toks,
        spec_token_ids = [], num_computed_tokens = 0, cache_salt = ecr_cache_salt q,
        lora_request_of = ecr_lora_request q, mm_features = ecr_mm_features q,
        prompt_embeds = ecr_prompt_embeds q, block_hashes = [], skip_reading_prefix_cache = False,
        num_preemptions = 0, num_output_placeholders = 0, discard_latest_async_tokens = False,
        is_prefill_chunk = False, num_cached_tokens = -1,
        use_structured_output = (ecr_sampling_params q \<noteq> None \<and> ecr_structured q),
        resumable = ecr_resumable q, streaming_queue = None\<rparr>"
    obtain hs where hs: "update_block_hashes (hasher_of E) r0 = Some (Inr (r0\<lparr>block_hashes := hs\<rparr>))"
      "\<forall>b. hashes_ok (st_hash E) (st_none_hash E) (st_block_size E) (r0\<lparr>block_hashes := hs, skip_reading_prefix_cache := b\<rparr>)
        (full_blocks (st_block_size E) (r0\<lparr>block_hashes := hs, skip_reading_prefix_cache := b\<rparr>))"
      using new_hashes [OF bs, of r0 "st_hash E" "st_none_hash E"] plain True by (auto simp: r0_def hasher_of_def)
    define b where "b = get_skip_reading_prefix_cache (r0\<lparr>block_hashes := hs\<rparr>)"
    let ?r = "r0\<lparr>block_hashes := hs, skip_reading_prefix_cache := b\<rparr>"
    have "preprocess_add_request (hasher_of E) q = Some (Inr ?r)"
      unfolding preprocess_add_request_def Request_def lim len obind_simps prod.case r0_def [symmetric] hs(1) b_def ..
    moreover have "num_tokens ?r = prompt_length q" using toks by (simp add: num_tokens_def r0_def)
    moreover note hs(2) [rule_format, of b]
    ultimately show ?thesis using None by (simp add: r0_def)
  next
    case no: False
    show ?thesis
      using None no lim len toks
      by (simp add: preprocess_add_request_def Request_def update_block_hashes_def hasher_of_def num_tokens_def)
  qed
qed


definition demo_core_request :: engine_core_request where
  "demo_core_request = \<lparr>ecr_request_id = ''q'', ecr_prompt_token_ids = Some [1, 2, 3], ecr_mm_features = [],
     ecr_sampling_params = Some demo_sampling, ecr_structured = True, ecr_pooling = False, ecr_pooling_skip_reading = None,
     ecr_eos_token_id = None, ecr_arrival_time = 0, ecr_lora_request = None, ecr_cache_salt = None, ecr_prompt_embeds = None,
     ecr_priority = 0, ecr_resumable = False\<rparr>"

theorem request_construction_witness:
  "(\<exists>r. preprocess_add_request None demo_core_request = Some (Inr r) \<and> request_id r = ''q'' \<and> num_tokens r = 3 \<and>
      req_status r = WAITING_FOR_FSM) \<and>
   preprocess_add_request None (demo_core_request\<lparr>ecr_prompt_embeds := Some [[]]\<rparr>) = Some (Inl ValueError) \<and>
   preprocess_add_request None (demo_core_request\<lparr>ecr_sampling_params := Some (demo_sampling\<lparr>sp_max_tokens := None\<rparr>)\<rparr>) =
     Some (Inl AssertionError) \<and>
   (\<exists>r. preprocess_add_request (Some (request_block_hasher unary_hash [0] 16)) demo_core_request = Some (Inr r) \<and>
      hashes_ok unary_hash [0] 16 r (full_blocks 16 r))"
proof -
  have h: "hasher_of demo_setting = None" "st_caching demo_setting = False" by (simp_all add: demo_setting_def hasher_of_def)
  have h': "hasher_of cached_setting = Some (request_block_hasher unary_hash [0] 16)" "st_caching cached_setting"
    "st_block_size cached_setting = 16" "st_hash cached_setting = unary_hash" "st_none_hash cached_setting = [0]" by (simp_all add: cached_setting_def demo_setting_def hasher_of_def)
  have "request_error demo_core_request = None"
    "request_error (demo_core_request\<lparr>ecr_prompt_embeds := Some [[]]\<rparr>) = Some ValueError"
    "request_error (demo_core_request\<lparr>ecr_sampling_params := Some (demo_sampling\<lparr>sp_max_tokens := None\<rparr>)\<rparr>) = Some AssertionError"
    "prompt_length demo_core_request = 3"
    by (simp_all add: request_error_def demo_core_request_def demo_sampling_def prompt_length_def py_len_def)
  moreover have "ecr_request_id demo_core_request = ''q''" "\<not> ecr_pooling demo_core_request" "ecr_structured demo_core_request"
    "ecr_mm_features demo_core_request = []" "ecr_prompt_embeds demo_core_request = None"
    by (simp_all add: demo_core_request_def)
  note q = calculation this
  have cached: "\<exists>r. preprocess_add_request (Some (request_block_hasher unary_hash [0] 16)) demo_core_request = Some (Inr r) \<and>
      hashes_ok unary_hash [0] 16 r (full_blocks 16 r)"
    using request_construction [OF cached_setting_ok, of demo_core_request] h' q by auto
  show ?thesis
    using request_construction [OF demo_setting_ok, of demo_core_request, unfolded h]
      request_construction [OF demo_setting_ok, of "demo_core_request\<lparr>ecr_prompt_embeds := Some [[]]\<rparr>", unfolded h]
      request_construction [OF demo_setting_ok,
        of "demo_core_request\<lparr>ecr_sampling_params := Some (demo_sampling\<lparr>sp_max_tokens := None\<rparr>)\<rparr>", unfolded h]
      cached q by auto
qed

section \<open>The end of a generation\<close>

lemma check_stop_limits:
  assumes "check_stop r max_len = Inr (stopped, r')" and "sampling_params_of r = Some sp" "min_tokens sp \<le> req_max_tokens r"
  shows "num_output_tokens r' = num_output_tokens r \<and> num_tokens r' = num_tokens r \<and> req_max_tokens r' = req_max_tokens r \<and>
    (\<not> stopped \<longrightarrow> num_output_tokens r < req_max_tokens r)"
proof -
  have p: "\<not> is_pooling r" using assms(1) by (auto simp: check_stop_def res_simps)
  show ?thesis
  proof (cases "num_output_tokens r < min_tokens sp")
    case True
    then show ?thesis using assms p by (auto simp: check_stop_def py_assert_def)
  next
    case False
    then obtain tok where "py_get (output_token_ids r) (- 1) = Inr tok"
      using assms(1,2) p by (cases "py_get (output_token_ids r) (- 1)") (simp_all add: check_stop_def py_assert_def)
    with assms(1,2) p False show ?thesis
      by (simp add: check_stop_def py_assert_def Let_def split: if_split_asm)
        (auto simp: num_output_tokens_def num_tokens_def)
  qed
qed

lemma append_and_check_stops:
  assumes bs: "st_caching E \<longrightarrow> 0 < st_block_size E" and all: "st_inputs E = UNIV"
  shows "served E rid r \<Longrightarrow> \<not> is_pooling r \<Longrightarrow> sampling_params_of r = Some sp \<Longrightarrow> min_tokens sp \<le> req_max_tokens r \<Longrightarrow>
    num_output_tokens r < req_max_tokens r \<Longrightarrow> num_tokens r < st_max_len E \<Longrightarrow>
    min (req_max_tokens r - num_output_tokens r) (st_max_len E - num_tokens r) \<le> py_len toks \<Longrightarrow>
    \<exists>kept rest r'. append_and_check (hasher_of E) (st_max_len E) toks r = Some (Inr (kept, True, r')) \<and> toks = kept @ rest \<and>
      num_output_tokens r' \<le> req_max_tokens r \<and> num_tokens r' \<le> st_max_len E \<and> status_is_finished (req_status r')"
proof (induction toks arbitrary: r)
  case (Cons tok toks)
  obtain r1 where r1: "append_output_token_ids (hasher_of E) [tok] r = Some (Inr r1)" "grown E rid r 1 r1"
    "output_token_ids r1 = output_token_ids r @ [tok]"
    using append_grown [OF bs Cons.prems(1), of "[tok]"] by (auto simp: py_len_def known_def all)
  have max1: "req_max_tokens r1 = req_max_tokens r" "num_output_tokens r1 = num_output_tokens r + 1" "num_tokens r1 = num_tokens r + 1"
    using append_fields [OF r1(1)] r1(3) by (auto simp: num_output_tokens_def num_tokens_def py_len_def)
  have s1: "served E rid r1" "\<not> is_pooling r1" "output_token_ids r1 \<noteq> []" "sampling_params_of r1 = Some sp"
    using r1(2,3) Cons.prems(2,3) by (auto simp: grown_def)
  from check_stop_spec [OF s1(1-3)] obtain stopped r2 where
    r2: "check_stop r1 (st_max_len E) = Inr (stopped, r2)" "grown E rid r1 0 r2"
    "if stopped then status_is_finished (req_status r2) else req_status r2 = req_status r1 \<and> num_tokens r2 < st_max_len E"
    by blast
  have l: "num_output_tokens r2 = num_output_tokens r1" "num_tokens r2 = num_tokens r1" "req_max_tokens r2 = req_max_tokens r1"
    "\<not> stopped \<Longrightarrow> num_output_tokens r1 < req_max_tokens r1"
    using check_stop_limits [OF r2(1) s1(4)] Cons.prems(4) by (auto simp: max1)
  show ?case
  proof (cases stopped)
    case True
    then show ?thesis using r1(1) r2(1,3) l max1 Cons.prems(5,6)
      by (intro exI [of _ "[tok]"] exI [of _ toks] exI [of _ r2]) simp
  next
    case False
    have "served E rid r2" "\<not> is_pooling r2" "sampling_params_of r2 = Some sp" using r2(2) s1(2,4) by (simp_all add: grown_def)
    moreover have "min_tokens sp \<le> req_max_tokens r2" "num_output_tokens r2 < req_max_tokens r2" "num_tokens r2 < st_max_len E"
      "min (req_max_tokens r2 - num_output_tokens r2) (st_max_len E - num_tokens r2) \<le> py_len toks"
      using l max1 r2(3) False Cons.prems(4,7) by (auto simp: py_len_def min_def split: if_splits)
    ultimately obtain kept rest r' where
      "append_and_check (hasher_of E) (st_max_len E) toks r2 = Some (Inr (kept, True, r'))" "toks = kept @ rest"
      "num_output_tokens r' \<le> req_max_tokens r2" "num_tokens r' \<le> st_max_len E" "status_is_finished (req_status r')"
      using Cons.IH by blast
    then show ?thesis using r1(1) r2(1) False l(3) max1(1)
      by (intro exI [of _ "tok # kept"] exI [of _ rest] exI [of _ r']) simp
  qed
qed (auto simp: py_len_def min_def split: if_splits)

text \<open>C29.
  The generation of a request ends.  Once the sampled tokens are as many as the request may still
  generate, or as fit in the model length, \<open>_update_request_with_output\<close> has stopped it: it takes a
  prefix of the tokens, drops the rest, and the request is finished with at most \<open>max_tokens\<close> output
  tokens and at most as many tokens as the model length.  This needs that the prompt and the least
  number of output tokens fit in the model length (\<open>served\<close>).
\<close>

theorem generation_ends:
  assumes "setting_ok E" and "served E rid (objs s rid)" and "\<not> is_pooling (objs s rid)"
    and "sampling_params_of (objs s rid) = Some sp" and "min_tokens sp \<le> req_max_tokens (objs s rid)"
    and "num_output_tokens (objs s rid) < req_max_tokens (objs s rid)" and "num_tokens (objs s rid) < st_max_len E"
    and "min (req_max_tokens (objs s rid) - num_output_tokens (objs s rid)) (st_max_len E - num_tokens (objs s rid)) \<le> py_len toks"
  shows "\<exists>kept rest s'. update_request_with_output (st_cfg E) (hasher_of E) rid toks s = Some (Inr (kept, True, s')) \<and>
    toks = kept @ rest \<and> num_output_tokens (objs s' rid) \<le> req_max_tokens (objs s rid) \<and>
    num_tokens (objs s' rid) \<le> st_max_len E \<and> status_is_finished (req_status (objs s' rid))"
proof -
  have max: "sched_max_model_len (st_cfg E) = st_max_len E" using assms(1) by (simp add: setting_ok_def plain_sched_def)
  let ?E = "E\<lparr>st_inputs := UNIV\<rparr>"
  have same: "hasher_of ?E = hasher_of E" "st_max_len ?E = st_max_len E" by (simp_all add: hasher_of_def)
  have "st_caching ?E \<longrightarrow> 0 < st_block_size ?E" "st_inputs ?E = UNIV" using assms(1) by (simp_all add: setting_ok_def)
  moreover have "served ?E rid (objs s rid)" using assms(2) by (simp add: served_def known_def)
  ultimately obtain kept rest r' where
    "append_and_check (hasher_of E) (st_max_len E) toks (objs s rid) = Some (Inr (kept, True, r'))" "toks = kept @ rest"
    "num_output_tokens r' \<le> req_max_tokens (objs s rid)" "num_tokens r' \<le> st_max_len E" "status_is_finished (req_status r')"
    using append_and_check_stops [of ?E rid "objs s rid" sp toks, unfolded same] assms(3-8) by blast
  then show ?thesis
    by (intro exI [of _ kept] exI [of _ rest] exI [of _ "set_obj rid (\<lambda>_. r') s"])
      (simp add: update_request_with_output_def max, simp add: set_obj_def)
qed

theorem generation_ends_witness:
  "\<exists>kept rest s'. update_request_with_output demo_sched_config None ''r'' [1..30]
      (eng_sched demo_engine) = Some (Inr (kept, True, s')) \<and> [1..30] = kept @ rest \<and>
    num_output_tokens (objs s' ''r'') \<le> 16 \<and> status_is_finished (req_status (objs s' ''r''))"
proof -
  have st: "st_cfg demo_setting = demo_sched_config" "hasher_of demo_setting = None" "st_max_len demo_setting = 100"
    by (simp_all add: demo_setting_def hasher_of_def)
  have o: "objs (eng_sched demo_engine) ''r'' = demo_new" by (simp add: demo_engine_def)
  have "served demo_setting ''r'' demo_new" using demo_new_ok by (simp add: new_request_def demo_new_def demo_request_def)
  then show ?thesis
    using generation_ends [OF demo_setting_ok, of "''r''" "eng_sched demo_engine" demo_sampling "[1..30]", unfolded st o]
    by (auto simp: demo_new_def demo_request_def demo_sampling_def num_output_tokens_def num_tokens_def py_len_def)
qed

section \<open>A generation that does not end\<close>

text \<open>C30.
  When the least number of output tokens does not fit in the model length, a request can stall: with as
  many tokens as the model length, all but the last of them computed, and fewer output tokens than
  \<open>min_tokens\<close>, \<open>check_stop\<close> returns before it compares the length, so the request is not finished, and
  the running loop of every further step passes over it without scheduling a token, so that no output
  and no check comes any more.
\<close>

theorem min_tokens_stall:
  assumes "\<not> is_pooling r" and "sampling_params_of r = Some sp" and "num_output_tokens r < min_tokens sp"
    and "num_tokens r = sched_max_model_len cfg" and "num_computed_tokens r = sched_max_model_len cfg - 1"
    and "num_output_placeholders r = 0"
  shows "check_stop r (sched_max_model_len cfg) = Inr (False, r) \<and>
    (objs (sch t) (running (sch t) ! nat (req_index t)) = r \<and> 0 \<le> token_budget t \<and> \<not> need_mamba_block_aligned_split cfg \<longrightarrow>
       schedule_running_one cfg remote t = Inr (False, t\<lparr>req_index := req_index t + 1\<rparr>))"
proof -
  have "1 \<le> num_tokens_with_spec r - num_computed_tokens r"
    using assms(4,5) by (simp add: num_tokens_with_spec_def num_tokens_def py_len_def)
  then have n: "min (min (long_prefill_cap cfg (num_tokens_with_spec r - num_computed_tokens r)) b)
      (sched_max_model_len cfg - 1 - num_computed_tokens r) = 0" if "0 \<le> b" for b
    using that assms(5) by (auto simp: long_prefill_cap_def Let_def min_def)
  have same: "t\<lparr>sch := (sch t)\<lparr>encoder := encoder (sch t)\<rparr>\<rparr> = t" by simp
  have "plan_encoder_inputs cfg remote r c 0 t = Inr \<lparr>num_new_tokens = 0, compute_budget = encoder_compute_budget t,
      hashes_to_schedule = {}, num_embeds_to_schedule = 0, inputs_to_schedule = [], external_inputs = [],
      plan_cache = encoder (sch t)\<rparr>" for c by (simp add: plan_encoder_inputs_def try_schedule_encoder_inputs_def)
  then have "schedule_running_one cfg remote t = Inr (False, t\<lparr>req_index := req_index t + 1\<rparr>)"
    if "objs (sch t) (running (sch t) ! nat (req_index t)) = r" "0 \<le> token_budget t" "\<not> need_mamba_block_aligned_split cfg"
    using that assms(6) by (simp add: schedule_running_one_def Let_def n apply_mamba_split_def)
  moreover have "check_stop r (sched_max_model_len cfg) = Inr (False, r)"
    using assms(1-3) by (simp add: check_stop_def py_assert_def)
  ultimately show ?thesis by blast
qed


text \<open>A prompt of 50 tokens, at least 60 output tokens, a model length of 100.\<close>

definition demo_stalled :: request where
  "demo_stalled = (demo_request [1..100])\<lparr>sampling_params_of := Some (demo_sampling\<lparr>min_tokens := 60, sp_max_tokens := Some 80\<rparr>),
     num_prompt_tokens := 50, req_max_tokens := 80, output_token_ids := [51..100], num_computed_tokens := 99, req_status := RUNNING\<rparr>"

theorem min_tokens_stall_witness:
  "check_stop demo_stalled 100 = Inr (False, demo_stalled) \<and>
   (let t = begin_step demo_sched_config ((eng_sched demo_engine)\<lparr>objs := (\<lambda>_. demo_stalled), running := [''r'']\<rparr>)
    in schedule_running_one demo_sched_config (\<lambda>_. False) t = Inr (False, t\<lparr>req_index := 1\<rparr>))"
proof -
  let ?t = "begin_step demo_sched_config ((eng_sched demo_engine)\<lparr>objs := (\<lambda>_. demo_stalled), running := [''r'']\<rparr>)"
  have L: "sched_max_model_len demo_sched_config = 100" "0 \<le> token_budget ?t" "\<not> need_mamba_block_aligned_split demo_sched_config"
    "req_index ?t = 0" "objs (sch ?t) x = demo_stalled" for x by (simp_all add: demo_sched_config_def begin_step_def)
  have "check_stop demo_stalled (sched_max_model_len demo_sched_config) = Inr (False, demo_stalled) \<and>
    (objs (sch ?t) (running (sch ?t) ! nat (req_index ?t)) = demo_stalled \<and> 0 \<le> token_budget ?t \<and>
      \<not> need_mamba_block_aligned_split demo_sched_config \<longrightarrow>
     schedule_running_one demo_sched_config (\<lambda>_. False) ?t = Inr (False, ?t\<lparr>req_index := req_index ?t + 1\<rparr>))"
    by (rule min_tokens_stall [where sp = "demo_sampling\<lparr>min_tokens := 60, sp_max_tokens := Some 80\<rparr>"])
      (simp_all add: demo_stalled_def demo_request_def demo_sampling_def num_output_tokens_def num_tokens_def py_len_def L)
  then show ?thesis using L by (simp add: Let_def)
qed

end
