(* ===== verification/Worker_Table.thy ===== *)
theory Worker_Table
  imports Tensor_Ops
begin

text \<open>
  The block tables of the model runner (\<^verbatim>\<open>vllm/v1/worker/block_table.py\<close>): one row per request of
  the batch, with blocks of the size of the attention kernel, and the slots of the tokens.  Whatever
  size the kernel uses, a token gets the slot that the blocks of the KV cache manager give it.
\<close>

section \<open>Rows of arrays\<close>

text \<open>
  \<open>row[start:start + len(vals)] = vals\<close> for a numpy row: the slice is clipped to the row, and a value
  of length one is broadcast into an empty slice.
\<close>

definition np_write :: "'a list \<Rightarrow> int \<Rightarrow> 'a list \<Rightarrow> 'a list res" where
  "np_write row start vals =
     (let n = py_len vals; a = min (py_len row) start; b = min (py_len row) (start + n)
      in if b - a = n then Inr (take (nat a) row @ vals @ drop (nat b) row)
         else if n = 1 then Inr row
         else Inl ValueError)"

text \<open>A step on one row.\<close>

definition on_row :: "int \<Rightarrow> ('a \<Rightarrow> 'a res) \<Rightarrow> 'a list \<Rightarrow> 'a list res" where
  "on_row i f xs = rbind (py_get xs i) (\<lambda>x. rbind (f x) (py_set xs i))"

section \<open>The table of one KV cache group\<close>

record kernel_table =
  kt_block_size :: int
  blocks_per_kv_block :: int
  use_hybrid_blocks :: bool
  kt_max_num_blocks_per_req :: int
  kt_rows :: "int list list"
  num_blocks_per_row :: "int list"
  kt_max_num_batched_tokens :: int
  cp_world_size :: int
  cp_rank :: int
  cp_interleave :: int

definition BlockTable ::
    "int \<Rightarrow> int \<Rightarrow> int \<Rightarrow> int \<Rightarrow> int \<Rightarrow> int \<Rightarrow> int \<Rightarrow> int \<Rightarrow> kernel_table res" where
  "BlockTable block_size max_num_reqs max_num_blocks_per_req max_num_batched_tokens kernel_block_size
      world_size rank interleave =
     (let make = (\<lambda>bs per hybrid. \<lparr>kt_block_size = bs, blocks_per_kv_block = per, use_hybrid_blocks = hybrid,
            kt_max_num_blocks_per_req = max_num_blocks_per_req * per,
            kt_rows = py_repeat (py_repeat 0 (max_num_blocks_per_req * per)) max_num_reqs,
            num_blocks_per_row = py_repeat 0 max_num_reqs, kt_max_num_batched_tokens = max_num_batched_tokens,
            cp_world_size = world_size, cp_rank = rank, cp_interleave = interleave\<rparr>)
      in if kernel_block_size = block_size then Inr (make block_size 1 False)
         else if kernel_block_size = 0 then Inl ZeroDivisionError
         else if block_size mod kernel_block_size \<noteq> 0 then Inl ValueError
         else Inr (make kernel_block_size (block_size div kernel_block_size) True))"

definition map_to_kernel_blocks :: "int list \<Rightarrow> int \<Rightarrow> int list" where
  "map_to_kernel_blocks kv_manager_block_ids blocks_per_kv =
     (if blocks_per_kv = 1 then kv_manager_block_ids
      else concat (map (\<lambda>b. map (\<lambda>k. b * blocks_per_kv + k) (arange blocks_per_kv)) kv_manager_block_ids))"

definition kernel_ids :: "kernel_table \<Rightarrow> int list \<Rightarrow> int list" where
  "kernel_ids t block_ids =
     (if use_hybrid_blocks t then map_to_kernel_blocks block_ids (blocks_per_kv_block t) else block_ids)"

definition table_append_row :: "int list \<Rightarrow> int \<Rightarrow> kernel_table \<Rightarrow> kernel_table res" where
  "table_append_row block_ids row_idx t =
     (if block_ids = [] then Inr t
      else let ids = kernel_ids t block_ids; num_blocks = py_len ids in
        rbind (py_get (num_blocks_per_row t) row_idx) (\<lambda>start.
        rbind (py_set (num_blocks_per_row t) row_idx (start + num_blocks)) (\<lambda>ns.
        rbind (on_row row_idx (\<lambda>row. np_write row start ids) (kt_rows t)) (\<lambda>rows.
        Inr (t\<lparr>num_blocks_per_row := ns, kt_rows := rows\<rparr>)))))"

definition table_add_row :: "int list \<Rightarrow> int \<Rightarrow> kernel_table \<Rightarrow> kernel_table res" where
  "table_add_row block_ids row_idx t =
     rbind (py_set (num_blocks_per_row t) row_idx 0) (\<lambda>ns.
     table_append_row block_ids row_idx (t\<lparr>num_blocks_per_row := ns\<rparr>))"

definition table_move_row :: "int \<Rightarrow> int \<Rightarrow> kernel_table \<Rightarrow> kernel_table res" where
  "table_move_row src tgt t =
     rbind (py_get (num_blocks_per_row t) src) (\<lambda>num_blocks.
     rbind (py_get (kt_rows t) src) (\<lambda>source.
     rbind (on_row tgt (\<lambda>row. np_write row 0 (py_upto source num_blocks)) (kt_rows t)) (\<lambda>rows.
     rbind (py_set (num_blocks_per_row t) tgt num_blocks) (\<lambda>ns.
     Inr (t\<lparr>num_blocks_per_row := ns, kt_rows := rows\<rparr>)))))"

text \<open>\<open>xs[[i, j]] = xs[[j, i]]\<close>.\<close>

definition py_swap :: "int \<Rightarrow> int \<Rightarrow> 'a list \<Rightarrow> 'a list res" where
  "py_swap i j xs =
     rbind (py_get xs i) (\<lambda>x. rbind (py_get xs j) (\<lambda>y. rbind (py_set xs i y) (\<lambda>ys. py_set ys j x)))"

definition table_swap_row :: "int \<Rightarrow> int \<Rightarrow> kernel_table \<Rightarrow> kernel_table res" where
  "table_swap_row src tgt t =
     rbind (py_swap src tgt (num_blocks_per_row t)) (\<lambda>ns.
     rbind (py_swap src tgt (kt_rows t)) (\<lambda>rows. Inr (t\<lparr>num_blocks_per_row := ns, kt_rows := rows\<rparr>)))"

text \<open>The slot of a position; with context parallelism \<open>-1\<close> for the tokens of other ranks.\<close>

definition token_slot :: "kernel_table \<Rightarrow> int \<times> int \<Rightarrow> int res" where
  "token_slot t = (\<lambda>(req_index, position).
     if cp_world_size t > 1 then
       let virtual_block_size = kt_block_size t * cp_world_size t in
       rbind (py_get (concat (kt_rows t)) (req_index * kt_max_num_blocks_per_req t + position div virtual_block_size)) (\<lambda>block_number.
       let offset = position mod virtual_block_size;
           mask = (offset div cp_interleave t mod cp_world_size t = cp_rank t);
           block_offset = offset div (cp_world_size t * cp_interleave t) * cp_interleave t + offset mod cp_interleave t
       in Inr (if mask then block_number * kt_block_size t + block_offset else -1))
     else
       rbind (py_get (concat (kt_rows t)) (req_index * kt_max_num_blocks_per_req t + position div kt_block_size t)) (\<lambda>block_number.
       Inr (block_number * kt_block_size t + position mod kt_block_size t)))"

text \<open>The slots of the tokens of a batch; the caller passes a request and a position for every token.\<close>

definition compute_slot_mapping :: "int list \<Rightarrow> int list \<Rightarrow> kernel_table \<Rightarrow> int list res" where
  "compute_slot_mapping req_indices positions t =
     (if length req_indices \<noteq> length positions \<or> py_len req_indices > kt_max_num_batched_tokens t then Inl ValueError
      else rmapv (token_slot t) (zip req_indices positions))"

text \<open>The table is filled with zeros; the numbers of blocks stay.\<close>

definition table_clear :: "kernel_table \<Rightarrow> kernel_table" where
  "table_clear t = t\<lparr>kt_rows := map (map (\<lambda>_. 0)) (kt_rows t)\<rparr>"

section \<open>The tables of all groups\<close>

definition MultiGroupBlockTable ::
    "int \<Rightarrow> int \<Rightarrow> int \<Rightarrow> int list \<Rightarrow> int list \<Rightarrow> int list option \<Rightarrow> int \<Rightarrow> int \<Rightarrow> int \<Rightarrow> kernel_table list res" where
  "MultiGroupBlockTable max_num_reqs max_model_len max_num_batched_tokens block_sizes kernel_block_sizes max_num_blocks
      world_size rank interleave =
     (if length kernel_block_sizes \<noteq> length block_sizes then Inl ValueError
      else rbind (case max_num_blocks of
          Some ns \<Rightarrow> Inr ns
        | None \<Rightarrow> rmapv (\<lambda>bs. py_cdiv max_model_len (bs * world_size)) block_sizes) (\<lambda>ns.
      if length ns \<noteq> length block_sizes then Inl ValueError
      else rmapv (\<lambda>(bs, kbs, n). BlockTable bs max_num_reqs n max_num_batched_tokens kbs world_size rank interleave)
             (zip block_sizes (zip kernel_block_sizes ns))))"

text \<open>\<open>block_ids[i]\<close> for the table \<open>i\<close>.\<close>

definition each_group :: "(int list \<Rightarrow> kernel_table \<Rightarrow> kernel_table res) \<Rightarrow> int list list \<Rightarrow> kernel_table list \<Rightarrow> kernel_table list res" where
  "each_group f block_ids ts =
     rmapv (\<lambda>(i, t). rbind (py_get block_ids (int i)) (\<lambda>ids. f ids t)) (zip [0..<length ts] ts)"

definition append_row :: "int list list \<Rightarrow> int \<Rightarrow> kernel_table list \<Rightarrow> kernel_table list res" where
  "append_row block_ids row_idx ts = each_group (\<lambda>ids. table_append_row ids row_idx) block_ids ts"

definition add_row :: "int list list \<Rightarrow> int \<Rightarrow> kernel_table list \<Rightarrow> kernel_table list res" where
  "add_row block_ids row_idx ts = each_group (\<lambda>ids. table_add_row ids row_idx) block_ids ts"

definition move_row :: "int \<Rightarrow> int \<Rightarrow> kernel_table list \<Rightarrow> kernel_table list res" where
  "move_row src tgt ts = rmapv (table_move_row src tgt) ts"

definition swap_row :: "int \<Rightarrow> int \<Rightarrow> kernel_table list \<Rightarrow> kernel_table list res" where
  "swap_row src tgt ts = rmapv (table_swap_row src tgt) ts"

definition slot_mappings :: "int list \<Rightarrow> int list \<Rightarrow> kernel_table list \<Rightarrow> int list list res" where
  "slot_mappings req_indices positions ts = rmapv (compute_slot_mapping req_indices positions) ts"

definition clear_tables :: "kernel_table list \<Rightarrow> kernel_table list" where
  "clear_tables ts = map table_clear ts"

section \<open>What the tables hold\<close>

definition table_ok :: "kernel_table \<Rightarrow> bool" where
  "table_ok t \<longleftrightarrow> 0 < kt_block_size t \<and> 0 < blocks_per_kv_block t \<and> (use_hybrid_blocks t \<or> blocks_per_kv_block t = 1) \<and>
     length (num_blocks_per_row t) = length (kt_rows t) \<and>
     (\<forall>i < length (kt_rows t). py_len (kt_rows t ! i) = kt_max_num_blocks_per_req t \<and> 0 \<le> num_blocks_per_row t ! i \<and>
        num_blocks_per_row t ! i \<le> kt_max_num_blocks_per_req t)"

text \<open>The part of a row that counts.\<close>

definition row_of :: "kernel_table \<Rightarrow> nat \<Rightarrow> int list" where
  "row_of t i = take (nat (num_blocks_per_row t ! i)) (kt_rows t ! i)"

definition same_shape :: "kernel_table \<Rightarrow> kernel_table \<Rightarrow> bool" where
  "same_shape t t' \<longleftrightarrow> table_ok t' \<and> length (kt_rows t') = length (kt_rows t) \<and>
     kt_block_size t' = kt_block_size t \<and> blocks_per_kv_block t' = blocks_per_kv_block t \<and>
     use_hybrid_blocks t' = use_hybrid_blocks t \<and> kt_max_num_blocks_per_req t' = kt_max_num_blocks_per_req t \<and>
     kt_max_num_batched_tokens t' = kt_max_num_batched_tokens t \<and> cp_world_size t' = cp_world_size t"

lemma np_write_fits:
  assumes "0 \<le> start" "start + py_len vals \<le> py_len row"
  shows "np_write row start vals = Inr (take (nat start) row @ vals @ drop (nat (start + py_len vals)) row)"
  using assms by (simp add: np_write_def Let_def py_len_def)

lemma py_set_nth: "i < length xs \<Longrightarrow> py_set xs (int i) v = Inr (xs[i := v])"
  by (simp add: py_set_def py_len_def Let_def)

lemma on_row_nth: "i < length xs \<Longrightarrow> f (xs ! i) = Inr y \<Longrightarrow> on_row (int i) f xs = Inr (xs[i := y])"
  by (simp add: on_row_def py_get_nth py_set_nth)

lemma append_row_spec:
  assumes ok: "table_ok t" and i: "i < length (kt_rows t)"
    and room: "num_blocks_per_row t ! i + py_len (kernel_ids t ids) \<le> kt_max_num_blocks_per_req t"
  shows "\<exists>t'. table_append_row ids (int i) t = Inr t' \<and> same_shape t t' \<and>
    row_of t' i = row_of t i @ kernel_ids t ids \<and> (\<forall>j. j \<noteq> i \<longrightarrow> row_of t' j = row_of t j)"
proof (cases "ids = []")
  case True
  then have "kernel_ids t ids = []" by (simp add: kernel_ids_def map_to_kernel_blocks_def)
  then show ?thesis using True ok by (simp add: table_append_row_def same_shape_def)
next
  case False
  let ?n = "num_blocks_per_row t ! i" and ?k = "kernel_ids t ids" and ?row = "kt_rows t ! i"
  have n: "0 \<le> ?n" "py_len ?row = kt_max_num_blocks_per_req t" "length (num_blocks_per_row t) = length (kt_rows t)"
    using ok i by (simp_all add: table_ok_def)
  let ?row' = "take (nat ?n) ?row @ ?k @ drop (nat (?n + py_len ?k)) ?row"
  let ?t' = "t\<lparr>num_blocks_per_row := (num_blocks_per_row t)[i := ?n + py_len ?k], kt_rows := (kt_rows t)[i := ?row']\<rparr>"
  have run: "table_append_row ids (int i) t = Inr ?t'"
    using False i n room np_write_fits [of ?n ?k ?row]
    by (simp add: table_append_row_def Let_def py_get_nth py_set_nth on_row_nth)
  have len: "py_len ?row' = kt_max_num_blocks_per_req t" using n room by (simp add: py_len_def nat_add_distrib)
  have "same_shape t ?t'"
    using ok i n room len by (auto simp: same_shape_def table_ok_def nth_list_update py_len_def)
  moreover have "row_of ?t' i = row_of t i @ ?k"
  proof -
    have "length (take (nat ?n) ?row) = nat ?n" using n room by (simp add: py_len_def)
    then have "take (nat (?n + py_len ?k)) ?row' = take (nat ?n) ?row @ ?k"
      using n(1) by (simp add: py_len_def nat_add_distrib)
    then show ?thesis using i n by (simp add: row_of_def)
  qed
  ultimately show ?thesis using run by (auto simp: row_of_def)
qed

lemma add_row_spec:
  assumes ok: "table_ok t" and i: "i < length (kt_rows t)" and room: "py_len (kernel_ids t ids) \<le> kt_max_num_blocks_per_req t"
  shows "\<exists>t'. table_add_row ids (int i) t = Inr t' \<and> same_shape t t' \<and>
    row_of t' i = kernel_ids t ids \<and> (\<forall>j. j \<noteq> i \<longrightarrow> row_of t' j = row_of t j)"
proof -
  let ?t0 = "t\<lparr>num_blocks_per_row := (num_blocks_per_row t)[i := 0]\<rparr>"
  have n: "length (num_blocks_per_row t) = length (kt_rows t)" "0 \<le> kt_max_num_blocks_per_req t"
    using ok i by (auto simp: table_ok_def py_len_def)
  have ok0: "table_ok ?t0" using ok i n by (auto simp: table_ok_def nth_list_update)
  have k: "kernel_ids ?t0 ids = kernel_ids t ids" by (simp add: kernel_ids_def)
  from append_row_spec [OF ok0, of i ids] obtain t' where t': "table_append_row ids (int i) ?t0 = Inr t'" "same_shape ?t0 t'"
    "row_of t' i = row_of ?t0 i @ kernel_ids t ids" "\<forall>j. j \<noteq> i \<longrightarrow> row_of t' j = row_of ?t0 j"
    using i n room by (auto simp: k)
  have "row_of ?t0 i = []" using i n by (simp add: row_of_def)
  moreover have "row_of ?t0 j = row_of t j" if "j \<noteq> i" for j using that by (simp add: row_of_def)
  ultimately show ?thesis using t' i n by (auto simp: table_add_row_def py_set_nth same_shape_def)
qed

lemma move_row_spec:
  assumes ok: "table_ok t" and i: "i < length (kt_rows t)" and j: "j < length (kt_rows t)"
  shows "\<exists>t'. table_move_row (int i) (int j) t = Inr t' \<and> same_shape t t' \<and>
    row_of t' j = row_of t i \<and> (\<forall>k. k \<noteq> j \<longrightarrow> row_of t' k = row_of t k)"
proof -
  let ?n = "num_blocks_per_row t ! i"
  have n: "0 \<le> ?n" "?n \<le> kt_max_num_blocks_per_req t" "py_len (kt_rows t ! i) = kt_max_num_blocks_per_req t"
    "py_len (kt_rows t ! j) = kt_max_num_blocks_per_req t" "length (num_blocks_per_row t) = length (kt_rows t)"
    using ok i j by (simp_all add: table_ok_def)
  have vals: "py_upto (kt_rows t ! i) ?n = take (nat ?n) (kt_rows t ! i)" using n by (simp add: py_upto_nat)
  have lv: "py_len (take (nat ?n) (kt_rows t ! i)) = ?n" using n by (simp add: py_len_def)
  let ?row' = "take (nat ?n) (kt_rows t ! i) @ drop (nat ?n) (kt_rows t ! j)"
  let ?t' = "t\<lparr>num_blocks_per_row := (num_blocks_per_row t)[j := ?n], kt_rows := (kt_rows t)[j := ?row']\<rparr>"
  have w: "np_write (kt_rows t ! j) 0 (take (nat ?n) (kt_rows t ! i)) = Inr ?row'"
    using n lv np_write_fits [of 0 "take (nat ?n) (kt_rows t ! i)" "kt_rows t ! j"] by simp
  have run: "table_move_row (int i) (int j) t = Inr ?t'"
    using i j n w by (simp add: table_move_row_def py_get_nth py_set_nth on_row_nth vals)
  have "py_len ?row' = kt_max_num_blocks_per_req t" using n by (simp add: py_len_def)
  then have "same_shape t ?t'" using ok j n by (auto simp: same_shape_def table_ok_def nth_list_update)
  moreover have "row_of ?t' j = row_of t i" using j n lv by (simp add: row_of_def py_len_def)
  ultimately show ?thesis using run by (auto simp: row_of_def)
qed

lemma swap_nth:
  assumes "i < length xs" "j < length xs"
  shows "py_swap (int i) (int j) xs = Inr (xs[i := xs ! j, j := xs ! i])"
  using assms by (simp add: py_swap_def py_get_nth py_set_nth)

lemma swap_row_spec:
  assumes ok: "table_ok t" and i: "i < length (kt_rows t)" and j: "j < length (kt_rows t)"
  shows "\<exists>t'. table_swap_row (int i) (int j) t = Inr t' \<and> same_shape t t' \<and>
    row_of t' i = row_of t j \<and> row_of t' j = row_of t i \<and> (\<forall>k. k \<noteq> i \<and> k \<noteq> j \<longrightarrow> row_of t' k = row_of t k)"
proof -
  have n: "length (num_blocks_per_row t) = length (kt_rows t)" using ok by (simp add: table_ok_def)
  let ?ns = "num_blocks_per_row t" and ?rows = "kt_rows t"
  let ?t' = "t\<lparr>num_blocks_per_row := ?ns[i := ?ns ! j, j := ?ns ! i], kt_rows := ?rows[i := ?rows ! j, j := ?rows ! i]\<rparr>"
  have "table_swap_row (int i) (int j) t = Inr ?t'" using i j n by (simp add: table_swap_row_def swap_nth)
  moreover have "same_shape t ?t'" using ok i j n by (auto simp: same_shape_def table_ok_def nth_list_update)
  ultimately show ?thesis using i j n by (auto simp: row_of_def nth_list_update)
qed

section \<open>The slots\<close>

lemma map_to_kernel_nth:
  assumes "0 < n"
  shows "length (map_to_kernel_blocks bs n) = length bs * nat n" and
    "j < length bs * nat n \<Longrightarrow> map_to_kernel_blocks bs n ! j = bs ! (j div nat n) * n + int (j mod nat n)"
proof -
  have "length (concat (map (\<lambda>b. map (\<lambda>k. b * n + k) (arange n)) bs)) = length bs * nat n \<and>
    (j < length bs * nat n \<longrightarrow> concat (map (\<lambda>b. map (\<lambda>k. b * n + k) (arange n)) bs) ! j = bs ! (j div nat n) * n + int (j mod nat n))"
  proof (induction bs arbitrary: j)
    case (Cons b bs)
    have l: "length (arange n) = nat n" by (simp add: arange_def)
    show ?case
    proof (cases "j < nat n")
      case True
      then show ?thesis using Cons.IH [of 0] by (simp add: nth_append l) (simp add: arange_def)
    next
      case False
      then have "j = nat n + (j - nat n)" by simp
      then have "j div nat n = Suc ((j - nat n) div nat n)" "j mod nat n = (j - nat n) mod nat n"
        using assms by (metis div_add_self1 nat_0_iff not_le plus_1_eq_Suc add.commute, metis mod_add_self1)
      moreover have "j - nat n < length bs * nat n \<longleftrightarrow> j < nat n + length bs * nat n" using False by linarith
      ultimately show ?thesis using Cons.IH [of "j - nat n"] False by (simp add: nth_append l)
    qed
  qed simp
  then show "length (map_to_kernel_blocks bs n) = length bs * nat n"
    "j < length bs * nat n \<Longrightarrow> map_to_kernel_blocks bs n ! j = bs ! (j div nat n) * n + int (j mod nat n)"
    by (auto simp: map_to_kernel_blocks_def)
qed

lemma concat_nth:
  assumes "\<forall>r \<in> set rs. length r = w" "i < length rs" "k < w"
  shows "concat rs ! (i * w + k) = rs ! i ! k \<and> i * w + k < length (concat rs)"
  using assms
proof (induction rs arbitrary: i)
  case (Cons r rs)
  show ?case
  proof (cases i)
    case 0
    then show ?thesis using Cons.prems by (simp add: nth_append)
  next
    case (Suc i')
    then show ?thesis using Cons.IH [of i'] Cons.prems by (simp add: nth_append add.assoc)
  qed
qed simp

text \<open>The table of a row gives a token the slot of its block.\<close>

lemma token_slot_row:
  assumes ok: "table_ok t" and i: "i < length (kt_rows t)" and one: "cp_world_size t \<le> 1"
    and p: "0 \<le> p" "p < kt_block_size t * py_len (row_of t i)"
  shows "token_slot t (int i, p) = Inr (row_of t i ! nat (p div kt_block_size t) * kt_block_size t + p mod kt_block_size t)"
proof -
  let ?w = "nat (kt_max_num_blocks_per_req t)" and ?k = "nat (p div kt_block_size t)"
  have bs: "0 < kt_block_size t" and w: "\<And>a. a < length (kt_rows t) \<Longrightarrow> int (length (kt_rows t ! a)) = kt_max_num_blocks_per_req t"
    and n: "0 \<le> num_blocks_per_row t ! i" "num_blocks_per_row t ! i \<le> kt_max_num_blocks_per_req t"
    using ok i by (simp_all add: table_ok_def py_len_def)
  have rows: "\<forall>r \<in> set (kt_rows t). length r = ?w" using w by (metis in_set_conv_nth nat_int)
  have k0: "0 \<le> p div kt_block_size t" using p(1) bs by (simp add: pos_imp_zdiv_nonneg_iff)
  have "p div kt_block_size t < py_len (row_of t i)" using p(2) bs by (simp add: div_pos_less_iff mult.commute)
  then have k: "?k < length (row_of t i)" using k0 by (simp add: py_len_def)
  then have kw: "?k < ?w" "?k < nat (num_blocks_per_row t ! i)" using n rows i by (auto simp: row_of_def)
  have idx: "int i * kt_max_num_blocks_per_req t + p div kt_block_size t = int (i * ?w + ?k)" using k0 n by simp
  from concat_nth [OF rows i kw(1)] have "py_get (concat (kt_rows t)) (int (i * ?w + ?k)) = Inr (kt_rows t ! i ! ?k)"
    by (metis py_get_nth)
  then show ?thesis using one kw(2) unfolding token_slot_def prod.case idx by (simp add: row_of_def)
qed

text \<open>Splitting a block of the KV cache manager into kernel blocks keeps the slots of its tokens.\<close>

lemma kernel_block_offset:
  assumes n: "0 < n" and bs: "0 < bs" and p: "0 \<le> p" "p < bs * n * py_len ids"
  shows "map_to_kernel_blocks ids n ! nat (p div bs) * bs + p mod bs =
    ids ! nat (p div (bs * n)) * (bs * n) + p mod (bs * n)"
proof -
  define k where "k = nat (p div bs)"
  have k0: "0 \<le> p div bs" using p(1) bs by (simp add: pos_imp_zdiv_nonneg_iff)
  have "p div bs < py_len ids * n" using p(2) bs by (simp add: div_pos_less_iff mult.commute mult.left_commute)
  then have k: "k < length ids * nat n" using k0 n unfolding k_def py_len_def by (simp add: nat_less_iff)
  have kdiv: "int k = p div bs" using k0 by (simp add: k_def)
  have "map_to_kernel_blocks ids n ! k = ids ! (k div nat n) * n + int (k mod nat n)"
    by (rule map_to_kernel_nth(2) [OF n k])
  also have "k div nat n = nat (p div (bs * n))"
    using n kdiv by (metis nat_int zdiv_int zdiv_zmult2_eq less_imp_le nat_0_le)
  also have "int (k mod nat n) = p div bs mod n" using n kdiv by (simp add: zmod_int)
  finally show ?thesis using zmod_zmult2_eq [of n p bs] n by (simp add: k_def algebra_simps)
qed

lemma map_to_kernel_append: "map_to_kernel_blocks (xs @ ys) n = map_to_kernel_blocks xs n @ map_to_kernel_blocks ys n"
  by (simp add: map_to_kernel_blocks_def)

lemma map_to_kernel_len: "0 < n \<Longrightarrow> py_len (map_to_kernel_blocks xs n) = py_len xs * n"
  by (simp add: map_to_kernel_nth py_len_def)

lemma kernel_ids_ok: "table_ok t \<Longrightarrow> kernel_ids t xs = map_to_kernel_blocks xs (blocks_per_kv_block t)"
  by (auto simp: kernel_ids_def table_ok_def map_to_kernel_blocks_def)

lemma row_of_len: "table_ok t \<Longrightarrow> i < length (kt_rows t) \<Longrightarrow> py_len (row_of t i) = num_blocks_per_row t ! i"
  by (auto simp: row_of_def table_ok_def py_len_def)

text \<open>Adding a request and appending blocks later gives the row of all its blocks.\<close>

lemma add_append_spec:
  assumes ok: "table_ok t" and i: "i < length (kt_rows t)"
    and room: "py_len (ids @ extra) * blocks_per_kv_block t \<le> kt_max_num_blocks_per_req t"
  shows "\<exists>t1 t2. table_add_row ids (int i) t = Inr t1 \<and> table_append_row extra (int i) t1 = Inr t2 \<and> same_shape t t2 \<and>
    row_of t2 i = map_to_kernel_blocks (ids @ extra) (blocks_per_kv_block t) \<and> (\<forall>j. j \<noteq> i \<longrightarrow> row_of t2 j = row_of t j)"
proof -
  let ?n = "blocks_per_kv_block t"
  have pos: "0 < ?n" using ok by (simp add: table_ok_def)
  have l: "0 \<le> py_len extra * ?n" "py_len (ids @ extra) * ?n = py_len ids * ?n + py_len extra * ?n"
    using pos by (simp_all add: py_len_def distrib_right)
  have "py_len (kernel_ids t ids) \<le> kt_max_num_blocks_per_req t"
    using room l by (simp add: kernel_ids_ok [OF ok] map_to_kernel_len [OF pos])
  from add_row_spec [OF ok i this] obtain t1 where t1: "table_add_row ids (int i) t = Inr t1" "same_shape t t1"
    "row_of t1 i = map_to_kernel_blocks ids ?n" "\<forall>j. j \<noteq> i \<longrightarrow> row_of t1 j = row_of t j"
    by (auto simp: kernel_ids_ok [OF ok])
  have ok1: "table_ok t1" "i < length (kt_rows t1)" and n1: "blocks_per_kv_block t1 = ?n"
    using t1(2) i by (simp_all add: same_shape_def)
  have "num_blocks_per_row t1 ! i = py_len ids * ?n"
    using row_of_len [OF ok1] t1(3) map_to_kernel_len [OF pos, of ids] by simp
  then have "num_blocks_per_row t1 ! i + py_len (kernel_ids t1 extra) \<le> kt_max_num_blocks_per_req t1"
    using room t1(2) l by (simp add: kernel_ids_ok [OF ok1(1)] n1 map_to_kernel_len [OF pos]) (simp add: same_shape_def)
  from append_row_spec [OF ok1 this] obtain t2 where t2: "table_append_row extra (int i) t1 = Inr t2" "same_shape t1 t2"
    "row_of t2 i = map_to_kernel_blocks (ids @ extra) ?n" "\<forall>j. j \<noteq> i \<longrightarrow> row_of t2 j = row_of t1 j"
    using t1(3) by (auto simp: kernel_ids_ok [OF ok1(1)] n1 map_to_kernel_append)
  have "same_shape t t2" using t1(2) t2(2) by (simp add: same_shape_def)
  then show ?thesis using t1 t2 by auto
qed

lemma slots_of_row:
  assumes "\<forall>p \<in> set ps. token_slot t (i, p) = Inr (g p)" and "py_len ps \<le> kt_max_num_batched_tokens t"
  shows "compute_slot_mapping (map (\<lambda>_. i) ps) ps t = Inr (map g ps)"
proof -
  have "rmapv (token_slot t) (zip (map (\<lambda>_. i) ps) ps) = Inr (map g ps)" using assms(1) by (induction ps) auto
  then show ?thesis using assms(2) by (simp add: compute_slot_mapping_def py_len_def)
qed

text \<open>C35.
  The model runner writes a token where the KV cache manager has put it, whatever block size the
  attention kernel uses: after the blocks of a request were added to a row of the block table and more
  blocks appended, the slots of its positions are the offsets in the manager's blocks, for blocks that
  are split into several kernel blocks as well as for equal sizes; and the rows of the other requests
  are as before.
\<close>

theorem kernel_blocks_same_slots:
  assumes "table_ok t" and "i < length (kt_rows t)" and "cp_world_size t \<le> 1" and "py_len ps \<le> kt_max_num_batched_tokens t"
    and "B = kt_block_size t * blocks_per_kv_block t" and "\<forall>p \<in> set ps. 0 \<le> p \<and> p < B * py_len (ids @ extra)"
    and "py_len (ids @ extra) * blocks_per_kv_block t \<le> kt_max_num_blocks_per_req t"
  shows "\<exists>t1 t2. table_add_row ids (int i) t = Inr t1 \<and> table_append_row extra (int i) t1 = Inr t2 \<and>
    compute_slot_mapping (map (\<lambda>_. int i) ps) ps t2 = Inr (map (\<lambda>p. (ids @ extra) ! nat (p div B) * B + p mod B) ps) \<and>
    (\<forall>j. j \<noteq> i \<longrightarrow> row_of t2 j = row_of t j)"
proof -
  let ?n = "blocks_per_kv_block t" and ?bs = "kt_block_size t"
  have pos: "0 < ?n" "0 < ?bs" using assms(1) by (simp_all add: table_ok_def)
  from add_append_spec [OF assms(1,2,7)] obtain t1 t2 where run: "table_add_row ids (int i) t = Inr t1"
    "table_append_row extra (int i) t1 = Inr t2" "same_shape t t2" "\<forall>j. j \<noteq> i \<longrightarrow> row_of t2 j = row_of t j"
    and row: "row_of t2 i = map_to_kernel_blocks (ids @ extra) ?n" by auto
  have "token_slot t2 (int i, p) = Inr ((ids @ extra) ! nat (p div B) * B + p mod B)" if p: "p \<in> set ps" for p
  proof -
    have b: "0 \<le> p" "p < ?bs * ?n * py_len (ids @ extra)" using assms(5,6) p by auto
    then have "p < ?bs * py_len (row_of t2 i)" by (simp add: row map_to_kernel_len pos mult.commute mult.left_commute)
    then show ?thesis using token_slot_row [of t2 i p] run(3) assms(2,3) b(1) kernel_block_offset [OF pos b]
      by (simp add: same_shape_def row assms(5))
  qed
  then have "compute_slot_mapping (map (\<lambda>_. int i) ps) ps t2 = Inr (map (\<lambda>p. (ids @ extra) ! nat (p div B) * B + p mod B) ps)"
    using slots_of_row run(3) assms(4) by (simp add: same_shape_def)
  then show ?thesis using run by blast
qed

text \<open>Blocks of 32 tokens for a kernel with blocks of 16.\<close>

definition demo_table :: kernel_table where
  "demo_table = \<lparr>kt_block_size = 16, blocks_per_kv_block = 2, use_hybrid_blocks = True, kt_max_num_blocks_per_req = 4,
     kt_rows = [[0, 0, 0, 0], [0, 0, 0, 0]], num_blocks_per_row = [0, 0], kt_max_num_batched_tokens = 8,
     cp_world_size = 1, cp_rank = 0, cp_interleave = 1\<rparr>"

lemma demo_table_made: "BlockTable 32 2 2 8 16 1 0 1 = Inr demo_table"
  by (simp add: BlockTable_def demo_table_def py_repeat_def numeral_2_eq_2 eval_nat_numeral)

theorem kernel_blocks_same_slots_witness:
  "\<exists>t1 t2. table_add_row [3] 1 demo_table = Inr t1 \<and> table_append_row [7] 1 t1 = Inr t2 \<and>
     compute_slot_mapping [1, 1] [31, 50] t2 = Inr [127, 242] \<and> row_of t2 0 = row_of demo_table 0"
proof -
  have "table_ok demo_table" by (simp add: table_ok_def demo_table_def py_len_def less_Suc_eq numeral_2_eq_2)
  then show ?thesis
    using kernel_blocks_same_slots [of demo_table 1 "[31, 50]" 32 "[3]" "[7]"] by (auto simp: demo_table_def py_len_def)
qed

end
