(* ===== verification/Worker_Batch.thy ===== *)
theory Worker_Batch
  imports Complex_Main "HOL-Library.AList" Engine_Core Worker_Table
begin

text \<open>
  The persistent batch of the model runner (\<^verbatim>\<open>vllm/v1/worker/gpu_input_batch.py\<close>) and the log of
  its changes for the logits processors (\<^verbatim>\<open>vllm/v1/sample/logits_processor/state.py\<close>).  A request
  has a row in many arrays; removing requests leaves empty rows, which new requests fill first and
  \<open>condense\<close> closes.

  Floating point numbers are rationals; rounding to single precision is the parameter \<open>f32\<close>.  A
  list that the code shares by reference, the output tokens of a request, is given by its owner.
\<close>

section \<open>The log of changes\<close>

datatype move_directionality = UNIDIRECTIONAL | SWAP

record batch_sampling_params =
  bs_greedy :: bool
  bs_temperature :: rat
  bs_top_p :: rat
  bs_top_k :: int
  bs_frequency_penalty :: rat
  bs_presence_penalty :: rat
  bs_repetition_penalty :: rat
  bs_logprobs :: "int option"
  bs_allowed_token_ids :: "int list option"
  bs_bad_words_token_ids :: "int list list option"

type_synonym added_request = "int \<times> batch_sampling_params \<times> int list option \<times> string"
type_synonym moved_request = "int \<times> int \<times> move_directionality"

record batch_update_builder =
  bu_removed :: "int list"
  is_removed_sorted :: bool
  bu_added :: "added_request list"
  bu_moved :: "moved_request list"
  batch_changed :: bool

definition BatchUpdateBuilder :: batch_update_builder where
  "BatchUpdateBuilder = \<lparr>bu_removed = [], is_removed_sorted = False, bu_added = [], bu_moved = [], batch_changed = False\<rparr>"

definition ensure_removed_sorted :: "batch_update_builder \<Rightarrow> batch_update_builder" where
  "ensure_removed_sorted u =
     (if is_removed_sorted u then u else u\<lparr>bu_removed := rev (sort (bu_removed u)), is_removed_sorted := True\<rparr>)"

definition removed_append :: "int \<Rightarrow> batch_update_builder \<Rightarrow> batch_update_builder res" where
  "removed_append index u =
     (if is_removed_sorted u then Inl RuntimeError
      else Inr (u\<lparr>bu_removed := bu_removed u @ [index], batch_changed := True\<rparr>))"

definition has_removed :: "batch_update_builder \<Rightarrow> bool" where
  "has_removed u = (bu_removed u \<noteq> [])"

definition peek_removed :: "batch_update_builder \<Rightarrow> int option \<times> batch_update_builder" where
  "peek_removed u =
     (if has_removed u then let u' = ensure_removed_sorted u in (Some (last (bu_removed u')), u') else (None, u))"

definition pop_removed :: "batch_update_builder \<Rightarrow> int option \<times> batch_update_builder" where
  "pop_removed u =
     (if has_removed u
      then let u' = ensure_removed_sorted u in (Some (last (bu_removed u')), u'\<lparr>bu_removed := butlast (bu_removed u')\<rparr>)
      else (None, u))"

definition reset_update :: "batch_update_builder \<Rightarrow> bool \<times> batch_update_builder" where
  "reset_update u = (batch_changed u, BatchUpdateBuilder)"

record batch_update =
  up_batch_size :: int
  up_removed :: "int list"
  up_added :: "added_request list"
  up_moved :: "moved_request list"

definition get_and_reset :: "int \<Rightarrow> batch_update_builder \<Rightarrow> batch_update option \<times> batch_update_builder" where
  "get_and_reset batch_size u =
     (let u0 = u\<lparr>is_removed_sorted := False, batch_changed := False\<rparr> in
      if bu_removed u = [] \<and> bu_moved u = [] \<and> bu_added u = [] then (None, u0)
      else (Some \<lparr>up_batch_size = batch_size, up_removed = bu_removed u, up_added = bu_added u, up_moved = bu_moved u\<rparr>,
            u0\<lparr>bu_removed := [], bu_moved := [], bu_added := []\<rparr>))"

section \<open>Requests and the batch\<close>

record cached_request =
  cr_req_id :: string
  cr_prompt_token_ids :: "int list option"
  cr_prompt_embeds :: "bytes list option"
  cr_sampling_params :: "batch_sampling_params option"
  cr_pooling_requires_token_ids :: "bool option"
  cr_generator :: "nat option"
  cr_block_ids :: "int list list"
  cr_num_computed_tokens :: int
  cr_output_token_ids :: "int list"
  cr_lora_request :: "(int \<times> string) option"
  prev_num_draft_len :: int
  cr_num_prompt_tokens :: int

text \<open>\<open>__post_init__\<close> counts the tokens of the prompt.\<close>

definition CachedRequestState :: "cached_request \<Rightarrow> cached_request res" where
  "CachedRequestState r =
     rbind (length_from_prompt_token_ids_or_embeds (cr_prompt_token_ids r) (cr_prompt_embeds r)) (\<lambda>n.
     Inr (r\<lparr>cr_num_prompt_tokens := n\<rparr>))"

definition cr_num_tokens :: "cached_request \<Rightarrow> int" where
  "cr_num_tokens r = cr_num_prompt_tokens r + py_len (cr_output_token_ids r)"

definition get_token_id :: "cached_request \<Rightarrow> int \<Rightarrow> int res" where
  "get_token_id r idx =
     (if idx < cr_num_prompt_tokens r then
        (case cr_prompt_token_ids r of None \<Rightarrow> Inl ValueError | Some ts \<Rightarrow> py_get ts idx)
      else if idx - cr_num_prompt_tokens r < py_len (cr_output_token_ids r)
        then py_get (cr_output_token_ids r) (idx - cr_num_prompt_tokens r)
      else Inr (-1))"

text \<open>The arrays with the sampling parameters of the rows.\<close>

record sampling_rows =
  temperature_cpu :: "rat list"
  top_p_cpu :: "rat list"
  top_k_cpu :: "int list"
  frequency_penalties_cpu :: "rat list"
  presence_penalties_cpu :: "rat list"
  repetition_penalties_cpu :: "rat list"
  num_accepted_tokens_cpu :: "int list"
  generators :: "(int \<times> nat) list"
  allowed_token_ids_mask_cpu :: "bool list list option"
  bad_words_token_ids :: "(int \<times> int list list) list"

text \<open>The sets of requests that use a sampling parameter.\<close>

record sampling_sets =
  greedy_reqs :: "string set"
  random_reqs :: "string set"
  top_p_reqs :: "string set"
  top_k_reqs :: "string set"
  frequency_penalties_reqs :: "string set"
  presence_penalties_reqs :: "string set"
  repetition_penalties_reqs :: "string set"
  num_logprobs :: "(string \<times> int) list"
  in_progress_prompt_logprobs :: "string set"
  has_allowed_token_ids :: "string set"

record input_batch =
  is_pooling_model :: bool
  max_num_reqs :: int
  vocab_size :: int
  req_ids :: "string option list"
  req_id_to_index :: "(string \<times> int) list"
  token_ids_cpu :: "int list list"
  is_token_ids :: "bool list list"
  req_prompt_embeds :: "(int \<times> bytes list) list"
  num_tokens_no_spec :: "int list"
  num_prompt_tokens_cpu :: "int list"
  num_computed_tokens_cpu :: "int list"
  block_table :: "kernel_table list"
  samp :: sampling_rows
  sets :: sampling_sets
  request_lora_mapping :: "int list"
  lora_id_to_request_ids :: "(int \<times> string set) list"
  lora_id_to_lora_request :: "(int \<times> string) list"
  builder :: batch_update_builder
  logits_processing_needs_token_ids :: "bool list"
  req_output_token_ids :: "string option list"
  spec_token_ids_of_rows :: "int list list"
  pooling_params :: "(string \<times> bool) list"
  pooling_states :: "string set"
  prev_req_id_to_index :: "(string \<times> int) list option"

definition num_reqs :: "input_batch \<Rightarrow> int" where
  "num_reqs b = py_len (req_id_to_index b)"

text \<open>The memory of \<open>torch.empty\<close> is not initialised: its values are arguments.\<close>

definition InputBatch ::
    "rat list \<Rightarrow> rat list \<Rightarrow> int list \<Rightarrow> rat list \<Rightarrow> rat list \<Rightarrow> rat list \<Rightarrow>
     int \<Rightarrow> int \<Rightarrow> int \<Rightarrow> int \<Rightarrow> int list \<Rightarrow> int list \<Rightarrow> int list option \<Rightarrow> bool \<Rightarrow> int \<Rightarrow> int \<Rightarrow> int \<Rightarrow> input_batch res" where
  "InputBatch temp0 top_p0 top_k0 freq0 pres0 rep0 n_reqs model_len batched_tokens vocab block_sizes
      kernel_block_sizes max_num_blocks pooling_model world_size rank interleave =
     rbind (MultiGroupBlockTable n_reqs model_len batched_tokens block_sizes kernel_block_sizes max_num_blocks
        world_size rank interleave) (\<lambda>tables.
     Inr \<lparr>is_pooling_model = pooling_model, max_num_reqs = n_reqs, vocab_size = vocab, req_ids = [], req_id_to_index = [],
       token_ids_cpu = py_repeat (py_repeat 0 model_len) n_reqs,
       is_token_ids = py_repeat (py_repeat False model_len) n_reqs,
       req_prompt_embeds = [], num_tokens_no_spec = py_repeat 0 n_reqs, num_prompt_tokens_cpu = py_repeat 0 n_reqs,
       num_computed_tokens_cpu = py_repeat 0 n_reqs, block_table = tables,
       samp = \<lparr>temperature_cpu = temp0, top_p_cpu = top_p0, top_k_cpu = top_k0, frequency_penalties_cpu = freq0,
         presence_penalties_cpu = pres0, repetition_penalties_cpu = rep0, num_accepted_tokens_cpu = py_repeat 1 n_reqs,
         generators = [], allowed_token_ids_mask_cpu = None, bad_words_token_ids = []\<rparr>,
       sets = \<lparr>greedy_reqs = {}, random_reqs = {}, top_p_reqs = {}, top_k_reqs = {}, frequency_penalties_reqs = {},
         presence_penalties_reqs = {}, repetition_penalties_reqs = {}, num_logprobs = [],
         in_progress_prompt_logprobs = {}, has_allowed_token_ids = {}\<rparr>,
       request_lora_mapping = py_repeat 0 n_reqs, lora_id_to_request_ids = [], lora_id_to_lora_request = [],
       builder = BatchUpdateBuilder, logits_processing_needs_token_ids = py_repeat False n_reqs,
       req_output_token_ids = [], spec_token_ids_of_rows = py_repeat [] n_reqs, pooling_params = [], pooling_states = {},
       prev_req_id_to_index = None\<rparr>)"

section \<open>Adding a request\<close>

definition register_add_request :: "cached_request \<Rightarrow> input_batch \<Rightarrow> (int \<times> input_batch) res" where
  "register_add_request request b =
     (let (popped, u) = pop_removed (builder b);
          new_req_index = (case popped of None \<Rightarrow> num_reqs b | Some i \<Rightarrow> i);
          u1 = u\<lparr>batch_changed := True\<rparr>;
          u2 = (case cr_sampling_params request of None \<Rightarrow> u1
                | Some p \<Rightarrow> u1\<lparr>bu_added := bu_added u1 @ [(new_req_index, p, cr_prompt_token_ids request, cr_req_id request)]\<rparr>)
      in rbind (py_assert (new_req_index < max_num_reqs b)) (\<lambda>_. Inr (new_req_index, b\<lparr>builder := u2\<rparr>)))"

definition place_id :: "string \<Rightarrow> int \<Rightarrow> input_batch \<Rightarrow> input_batch res" where
  "place_id req_id i b =
     rbind (if i = py_len (req_ids b)
        then Inr (b\<lparr>req_ids := req_ids b @ [Some req_id], req_output_token_ids := req_output_token_ids b @ [Some req_id],
                    spec_token_ids_of_rows := spec_token_ids_of_rows b @ [[]]\<rparr>)
        else rbind (py_set (req_ids b) i (Some req_id)) (\<lambda>ids.
             rbind (py_set (req_output_token_ids b) i (Some req_id)) (\<lambda>outs.
             rbind (py_set (spec_token_ids_of_rows b) i []) (\<lambda>specs.
             Inr (b\<lparr>req_ids := ids, req_output_token_ids := outs, spec_token_ids_of_rows := specs\<rparr>))))) (\<lambda>b.
     Inr (b\<lparr>req_id_to_index := AList.update req_id i (req_id_to_index b)\<rparr>))"

text \<open>\<open>row[start:end] = x\<close> for a single value.\<close>

definition np_fill :: "int \<Rightarrow> int \<Rightarrow> 'a \<Rightarrow> 'a list \<Rightarrow> 'a list" where
  "np_fill start stop x row = map (\<lambda>i. if start \<le> int i \<and> int i < stop then x else row ! i) [0..<length row]"

definition place_tokens :: "cached_request \<Rightarrow> int \<Rightarrow> input_batch \<Rightarrow> input_batch res" where
  "place_tokens request i b =
     rbind (length_from_prompt_token_ids_or_embeds (cr_prompt_token_ids request) (cr_prompt_embeds request)) (\<lambda>n.
     rbind (py_set (num_prompt_tokens_cpu b) i n) (\<lambda>prompts.
     let stop = n + py_len (cr_output_token_ids request) in
     rbind (case cr_prompt_token_ids request of Some ts \<Rightarrow> on_row i (\<lambda>row. np_write row 0 ts) (token_ids_cpu b)
            | None \<Rightarrow> Inr (token_ids_cpu b)) (\<lambda>toks.
     rbind (on_row i (\<lambda>row. Inr (np_fill 0 n (cr_prompt_token_ids request \<noteq> None) row)) (is_token_ids b)) (\<lambda>flags.
     rbind (on_row i (\<lambda>row. np_write row n (cr_output_token_ids request)) toks) (\<lambda>toks.
     rbind (on_row i (\<lambda>row. Inr (np_fill n stop True row)) flags) (\<lambda>flags.
     rbind (py_set (num_tokens_no_spec b) i (cr_num_tokens request)) (\<lambda>no_spec.
     rbind (py_set (num_computed_tokens_cpu b) i (cr_num_computed_tokens request)) (\<lambda>computed.
     rbind (add_row (cr_block_ids request) i (block_table b)) (\<lambda>tables.
     Inr (b\<lparr>num_prompt_tokens_cpu := prompts, token_ids_cpu := toks, is_token_ids := flags,
       req_prompt_embeds := (case cr_prompt_embeds request of None \<Rightarrow> req_prompt_embeds b
          | Some e \<Rightarrow> AList.update i e (req_prompt_embeds b)),
       num_tokens_no_spec := no_spec, num_computed_tokens_cpu := computed, block_table := tables\<rparr>))))))))))"

text \<open>The mask of a row: \<open>False\<close> for the tokens that are allowed.\<close>

definition mask_row :: "int \<Rightarrow> int list \<Rightarrow> bool list res" where
  "mask_row vocab allowed = rfold (\<lambda>t row. py_set row t False) allowed (py_repeat True vocab)"

definition set_allowed_tokens :: "int \<Rightarrow> int \<Rightarrow> int \<Rightarrow> int list \<Rightarrow> bool list list option \<Rightarrow> bool list list res" where
  "set_allowed_tokens n_reqs vocab i allowed m =
     rbind (mask_row vocab allowed) (\<lambda>row.
     py_set (case m of None \<Rightarrow> py_repeat (py_repeat False vocab) n_reqs | Some rows \<Rightarrow> rows) i row)"

definition clip_top_k :: "int \<Rightarrow> int \<Rightarrow> int" where
  "clip_top_k vocab k = (if 0 < k \<and> k < vocab then k else vocab)"

definition place_sampling_rows ::
    "(rat \<Rightarrow> rat) \<Rightarrow> int \<Rightarrow> int \<Rightarrow> batch_sampling_params \<Rightarrow> nat option \<Rightarrow> int \<Rightarrow> sampling_rows \<Rightarrow> sampling_rows res" where
  "place_sampling_rows f32 n_reqs vocab p generator i s =
     rbind (py_set (temperature_cpu s) i (if bs_greedy p then 0 else f32 (bs_temperature p))) (\<lambda>temps.
     rbind (py_set (top_p_cpu s) i (f32 (bs_top_p p))) (\<lambda>ps.
     rbind (py_set (top_k_cpu s) i (clip_top_k vocab (bs_top_k p))) (\<lambda>ks.
     rbind (py_set (frequency_penalties_cpu s) i (f32 (bs_frequency_penalty p))) (\<lambda>freqs.
     rbind (py_set (presence_penalties_cpu s) i (f32 (bs_presence_penalty p))) (\<lambda>pres.
     rbind (py_set (repetition_penalties_cpu s) i (f32 (bs_repetition_penalty p))) (\<lambda>reps.
     rbind (case bs_allowed_token_ids p of
         Some (t # ts) \<Rightarrow>
           rbind (set_allowed_tokens n_reqs vocab i (t # ts) (allowed_token_ids_mask_cpu s)) (\<lambda>rows. Inr (Some rows))
       | _ \<Rightarrow> Inr (allowed_token_ids_mask_cpu s)) (\<lambda>masks.
     Inr (s\<lparr>temperature_cpu := temps, top_p_cpu := ps, top_k_cpu := ks, frequency_penalties_cpu := freqs,
       presence_penalties_cpu := pres, repetition_penalties_cpu := reps,
       generators := (case generator of None \<Rightarrow> generators s | Some g \<Rightarrow> AList.update i g (generators s)),
       allowed_token_ids_mask_cpu := masks,
       bad_words_token_ids := (case bs_bad_words_token_ids p of Some (w # ws) \<Rightarrow> AList.update i (w # ws) (bad_words_token_ids s)
          | _ \<Rightarrow> bad_words_token_ids s)\<rparr>))))))))"

definition insert_if :: "bool \<Rightarrow> 'a \<Rightarrow> 'a set \<Rightarrow> 'a set" where
  "insert_if c x A = (if c then insert x A else A)"

definition place_sampling_sets :: "int \<Rightarrow> batch_sampling_params \<Rightarrow> string \<Rightarrow> sampling_sets \<Rightarrow> sampling_sets" where
  "place_sampling_sets vocab p req_id s =
     s\<lparr>greedy_reqs := insert_if (bs_greedy p) req_id (greedy_reqs s),
       random_reqs := insert_if (\<not> bs_greedy p) req_id (random_reqs s),
       top_p_reqs := insert_if (bs_top_p p < 1) req_id (top_p_reqs s),
       top_k_reqs := insert_if (0 < bs_top_k p \<and> bs_top_k p < vocab) req_id (top_k_reqs s),
       frequency_penalties_reqs := insert_if (bs_frequency_penalty p \<noteq> 0) req_id (frequency_penalties_reqs s),
       presence_penalties_reqs := insert_if (bs_presence_penalty p \<noteq> 0) req_id (presence_penalties_reqs s),
       repetition_penalties_reqs := insert_if (bs_repetition_penalty p \<noteq> 1) req_id (repetition_penalties_reqs s),
       num_logprobs := (case bs_logprobs p of None \<Rightarrow> num_logprobs s
          | Some k \<Rightarrow> AList.update req_id (if k = -1 then vocab else k) (num_logprobs s)),
       has_allowed_token_ids := insert_if (bs_allowed_token_ids p \<noteq> None \<and> bs_allowed_token_ids p \<noteq> Some []) req_id
          (has_allowed_token_ids s)\<rparr>"

definition place_params :: "(rat \<Rightarrow> rat) \<Rightarrow> cached_request \<Rightarrow> int \<Rightarrow> input_batch \<Rightarrow> input_batch res" where
  "place_params f32 request i b =
     (case cr_sampling_params request of
        Some p \<Rightarrow>
          rbind (place_sampling_rows f32 (max_num_reqs b) (vocab_size b) p (cr_generator request) i (samp b)) (\<lambda>rows.
          Inr (b\<lparr>samp := rows, sets := place_sampling_sets (vocab_size b) p (cr_req_id request) (sets b)\<rparr>))
      | None \<Rightarrow>
          (case cr_pooling_requires_token_ids request of
             Some wanted \<Rightarrow>
               rbind (py_set (logits_processing_needs_token_ids b) i wanted) (\<lambda>ns.
               Inr (b\<lparr>pooling_params := AList.update (cr_req_id request) wanted (pooling_params b),
                      pooling_states := insert (cr_req_id request) (pooling_states b),
                      logits_processing_needs_token_ids := ns\<rparr>))
           | None \<Rightarrow> Inl NotImplementedError))"

definition dict_value :: "'k \<Rightarrow> 'v \<Rightarrow> ('k \<times> 'v) list \<Rightarrow> 'v" where
  "dict_value k v0 d = (case map_of d k of None \<Rightarrow> v0 | Some v \<Rightarrow> v)"

definition place_lora :: "cached_request \<Rightarrow> int \<Rightarrow> input_batch \<Rightarrow> input_batch res" where
  "place_lora request i b =
     (case cr_lora_request request of
        Some (lora_id, name) \<Rightarrow>
          rbind (py_set (request_lora_mapping b) i lora_id) (\<lambda>ms.
          Inr (b\<lparr>request_lora_mapping := ms,
            lora_id_to_request_ids := AList.update lora_id
              (insert (cr_req_id request) (dict_value lora_id {} (lora_id_to_request_ids b))) (lora_id_to_request_ids b),
            lora_id_to_lora_request := AList.update lora_id name (lora_id_to_lora_request b)\<rparr>))
      | None \<Rightarrow>
          rbind (py_set (request_lora_mapping b) i 0) (\<lambda>ms. Inr (b\<lparr>request_lora_mapping := ms\<rparr>)))"

definition batch_add_request :: "(rat \<Rightarrow> rat) \<Rightarrow> cached_request \<Rightarrow> input_batch \<Rightarrow> (int \<times> input_batch) res" where
  "batch_add_request f32 request b =
     rbind (register_add_request request b) (\<lambda>(i, b).
     rbind (place_id (cr_req_id request) i b) (\<lambda>b.
     rbind (place_tokens request i b) (\<lambda>b.
     rbind (place_params f32 request i b) (\<lambda>b.
     rbind (py_set (num_accepted_tokens_cpu (samp b)) i 1) (\<lambda>accepted.
     rbind (place_lora request i (b\<lparr>samp := samp b\<lparr>num_accepted_tokens_cpu := accepted\<rparr>\<rparr>)) (\<lambda>b.
     Inr (i, b)))))))"

text \<open>The draft tokens of a step; the request remembers how many there are.\<close>

definition update_req_spec_token_ids ::
    "cached_request \<Rightarrow> (string \<times> int list) list \<Rightarrow> input_batch \<Rightarrow> (cached_request \<times> input_batch) res" where
  "update_req_spec_token_ids request scheduled_spec_tokens b =
     (case map_of (req_id_to_index b) (cr_req_id request) of
        None \<Rightarrow> Inl KeyError
      | Some i \<Rightarrow>
          rbind (py_set (spec_token_ids_of_rows b) i []) (\<lambda>specs.
          let spec = dict_value (cr_req_id request) [] scheduled_spec_tokens;
              request' = request\<lparr>prev_num_draft_len := py_len spec\<rparr>
          in if spec = [] then Inr (request', b\<lparr>spec_token_ids_of_rows := specs\<rparr>)
             else rbind (py_get (num_tokens_no_spec b) i) (\<lambda>start.
                  rbind (on_row i (\<lambda>row. np_write row start spec) (token_ids_cpu b)) (\<lambda>toks.
                  rbind (py_set specs i spec) (\<lambda>specs.
                  Inr (request', b\<lparr>spec_token_ids_of_rows := specs, token_ids_cpu := toks\<rparr>))))))"

section \<open>Removing a request\<close>

definition remove_lora :: "string \<Rightarrow> int \<Rightarrow> input_batch \<Rightarrow> input_batch res" where
  "remove_lora req_id i b =
     rbind (py_get (request_lora_mapping b) i) (\<lambda>lora_id.
     if lora_id = 0 then Inr b
     else case map_of (lora_id_to_request_ids b) lora_id of
        None \<Rightarrow> Inl KeyError
      | Some reqs \<Rightarrow>
          let left = reqs - {req_id} in
          rbind (if left = {}
            then (if map_of (lora_id_to_lora_request b) lora_id = None then Inl KeyError
                  else Inr (b\<lparr>lora_id_to_request_ids := AList.delete lora_id (lora_id_to_request_ids b),
                              lora_id_to_lora_request := AList.delete lora_id (lora_id_to_lora_request b)\<rparr>))
            else Inr (b\<lparr>lora_id_to_request_ids := AList.update lora_id left (lora_id_to_request_ids b)\<rparr>)) (\<lambda>b.
          rbind (py_set (request_lora_mapping b) i 0) (\<lambda>ms. Inr (b\<lparr>request_lora_mapping := ms\<rparr>))))"

definition remove_sampling_sets :: "string \<Rightarrow> sampling_sets \<Rightarrow> sampling_sets" where
  "remove_sampling_sets req_id s =
     \<lparr>greedy_reqs = greedy_reqs s - {req_id}, random_reqs = random_reqs s - {req_id}, top_p_reqs = top_p_reqs s - {req_id},
      top_k_reqs = top_k_reqs s - {req_id}, frequency_penalties_reqs = frequency_penalties_reqs s - {req_id},
      presence_penalties_reqs = presence_penalties_reqs s - {req_id},
      repetition_penalties_reqs = repetition_penalties_reqs s - {req_id}, num_logprobs = AList.delete req_id (num_logprobs s),
      in_progress_prompt_logprobs = in_progress_prompt_logprobs s - {req_id},
      has_allowed_token_ids = has_allowed_token_ids s - {req_id}\<rparr>"

definition clear_sampling_rows :: "int \<Rightarrow> sampling_rows \<Rightarrow> sampling_rows res" where
  "clear_sampling_rows i s =
     rbind (case allowed_token_ids_mask_cpu s of None \<Rightarrow> Inr None
        | Some rows \<Rightarrow> rbind (on_row i (\<lambda>row. Inr (map (\<lambda>_. False) row)) rows) (\<lambda>rows. Inr (Some rows))) (\<lambda>masks.
     Inr (s\<lparr>generators := AList.delete i (generators s), allowed_token_ids_mask_cpu := masks,
       bad_words_token_ids := AList.delete i (bad_words_token_ids s)\<rparr>))"

definition remove_request :: "string \<Rightarrow> input_batch \<Rightarrow> (int option \<times> input_batch) res" where
  "remove_request req_id b =
     (case map_of (req_id_to_index b) req_id of
        None \<Rightarrow> Inr (None, b)
      | Some i \<Rightarrow>
          rbind (removed_append i (builder b)) (\<lambda>u.
          rbind (py_set (req_ids b) i None) (\<lambda>ids.
          rbind (py_set (req_output_token_ids b) i None) (\<lambda>outs.
          rbind (py_set (spec_token_ids_of_rows b) i []) (\<lambda>specs.
          rbind (remove_lora req_id i (b\<lparr>req_id_to_index := AList.delete req_id (req_id_to_index b), builder := u,
             req_ids := ids, req_output_token_ids := outs, spec_token_ids_of_rows := specs\<rparr>)) (\<lambda>b.
          if is_pooling_model b
          then Inr (Some i, b\<lparr>pooling_params := AList.delete req_id (pooling_params b),
                              pooling_states := pooling_states b - {req_id}\<rparr>)
          else rbind (clear_sampling_rows i (samp b)) (\<lambda>rows.
               Inr (Some i, b\<lparr>samp := rows, sets := remove_sampling_sets req_id (sets b),
                 prev_req_id_to_index := map_option (AList.delete req_id) (prev_req_id_to_index b)\<rparr>))))))))"

section \<open>Moving rows\<close>

text \<open>\<open>xs[e] = xs[l]\<close>.\<close>

definition py_copy :: "int \<Rightarrow> int \<Rightarrow> 'a list \<Rightarrow> 'a list res" where
  "py_copy l e xs = rbind (py_get xs l) (py_set xs e)"

text \<open>\<open>swap_dict_values\<close>.\<close>

definition swap_dict_values :: "'k \<Rightarrow> 'k \<Rightarrow> ('k \<times> 'v) list \<Rightarrow> ('k \<times> 'v) list" where
  "swap_dict_values key1 key2 d =
     (let v1 = map_of d key1; v2 = map_of d key2;
          d1 = (case v1 of Some v \<Rightarrow> AList.update key2 v d | None \<Rightarrow> AList.delete key2 d)
      in case v2 of Some v \<Rightarrow> AList.update key1 v d1 | None \<Rightarrow> AList.delete key1 d1)"

text \<open>The rows of a tensor are views: the second row is read after the first was written.\<close>

definition swap_tensor_rows :: "int \<Rightarrow> int \<Rightarrow> 'a list \<Rightarrow> 'a list res" where
  "swap_tensor_rows i1 i2 rows =
     rbind (py_copy i2 i1 rows) (py_copy i1 i2)"

definition swap_sampling_rows :: "int \<Rightarrow> int \<Rightarrow> sampling_rows \<Rightarrow> sampling_rows res" where
  "swap_sampling_rows i1 i2 s =
     rbind (py_swap i1 i2 (temperature_cpu s)) (\<lambda>temps.
     rbind (py_swap i1 i2 (top_p_cpu s)) (\<lambda>ps.
     rbind (py_swap i1 i2 (top_k_cpu s)) (\<lambda>ks.
     rbind (py_swap i1 i2 (frequency_penalties_cpu s)) (\<lambda>freqs.
     rbind (py_swap i1 i2 (presence_penalties_cpu s)) (\<lambda>pres.
     rbind (py_swap i1 i2 (repetition_penalties_cpu s)) (\<lambda>reps.
     rbind (py_swap i1 i2 (num_accepted_tokens_cpu s)) (\<lambda>accepted.
     rbind (case allowed_token_ids_mask_cpu s of None \<Rightarrow> Inr None
        | Some rows \<Rightarrow> rbind (swap_tensor_rows i1 i2 rows) (\<lambda>rows. Inr (Some rows))) (\<lambda>masks.
     Inr \<lparr>temperature_cpu = temps, top_p_cpu = ps, top_k_cpu = ks, frequency_penalties_cpu = freqs,
       presence_penalties_cpu = pres, repetition_penalties_cpu = reps, num_accepted_tokens_cpu = accepted,
       generators = swap_dict_values i1 i2 (generators s), allowed_token_ids_mask_cpu = masks,
       bad_words_token_ids = swap_dict_values i1 i2 (bad_words_token_ids s)\<rparr>))))))))"

definition swap_states :: "int \<Rightarrow> int \<Rightarrow> input_batch \<Rightarrow> input_batch res" where
  "swap_states i1 i2 b =
     rbind (py_get (req_ids b) i1) (\<lambda>old1.
     rbind (py_get (req_ids b) i2) (\<lambda>old2.
     rbind (py_swap i1 i2 (req_ids b)) (\<lambda>ids.
     rbind (py_swap i1 i2 (req_output_token_ids b)) (\<lambda>outs.
     rbind (py_swap i1 i2 (spec_token_ids_of_rows b)) (\<lambda>specs.
     case (old1, old2) of (Some id1, Some id2) \<Rightarrow>
       (case (map_of (req_id_to_index b) id1, map_of (req_id_to_index b) id2) of (Some j1, Some j2) \<Rightarrow>
         rbind (py_swap i1 i2 (num_tokens_no_spec b)) (\<lambda>no_spec.
         rbind (py_swap i1 i2 (num_prompt_tokens_cpu b)) (\<lambda>prompts.
         rbind (py_swap i1 i2 (num_computed_tokens_cpu b)) (\<lambda>computed.
         rbind (py_swap i1 i2 (token_ids_cpu b)) (\<lambda>toks.
         rbind (py_swap i1 i2 (is_token_ids b)) (\<lambda>flags.
         rbind (swap_row i1 i2 (block_table b)) (\<lambda>tables.
         rbind (py_swap i1 i2 (request_lora_mapping b)) (\<lambda>loras.
         let b' = b\<lparr>req_ids := ids, req_output_token_ids := outs, spec_token_ids_of_rows := specs,
             req_id_to_index := AList.update id2 j1 (AList.update id1 j2 (req_id_to_index b)),
             num_tokens_no_spec := no_spec, num_prompt_tokens_cpu := prompts, num_computed_tokens_cpu := computed,
             token_ids_cpu := toks, is_token_ids := flags,
             req_prompt_embeds := swap_dict_values i1 i2 (req_prompt_embeds b),
             block_table := tables, request_lora_mapping := loras\<rparr>
         in if is_pooling_model b then Inr b'
            else rbind (swap_sampling_rows i1 i2 (samp b)) (\<lambda>rows.
                 Inr (b'\<lparr>samp := rows, builder := (builder b)\<lparr>bu_moved := bu_moved (builder b) @ [(i1, i2, SWAP)]\<rparr>\<rparr>)))))))))
       | _ \<Rightarrow> Inl KeyError)
     | _ \<Rightarrow> Inl AssertionError)))))"

text \<open>\<open>if v := d.pop(l): d[e] = v\<close>.\<close>

definition move_dict_value :: "'k \<Rightarrow> 'k \<Rightarrow> ('k \<times> 'v) list \<Rightarrow> ('k \<times> 'v) list" where
  "move_dict_value l e d = (case map_of d l of None \<Rightarrow> AList.delete l d | Some v \<Rightarrow> AList.update e v (AList.delete l d))"

definition move_sampling_rows :: "int \<Rightarrow> int \<Rightarrow> sampling_rows \<Rightarrow> sampling_rows res" where
  "move_sampling_rows l e s =
     rbind (py_copy l e (temperature_cpu s)) (\<lambda>temps.
     rbind (py_copy l e (top_p_cpu s)) (\<lambda>ps.
     rbind (py_copy l e (top_k_cpu s)) (\<lambda>ks.
     rbind (py_copy l e (frequency_penalties_cpu s)) (\<lambda>freqs.
     rbind (py_copy l e (presence_penalties_cpu s)) (\<lambda>pres.
     rbind (py_copy l e (repetition_penalties_cpu s)) (\<lambda>reps.
     rbind (py_copy l e (num_accepted_tokens_cpu s)) (\<lambda>accepted.
     rbind (case allowed_token_ids_mask_cpu s of None \<Rightarrow> Inr None
        | Some rows \<Rightarrow> rbind (py_copy l e rows) (\<lambda>rows. Inr (Some rows))) (\<lambda>masks.
     Inr \<lparr>temperature_cpu = temps, top_p_cpu = ps, top_k_cpu = ks, frequency_penalties_cpu = freqs,
       presence_penalties_cpu = pres, repetition_penalties_cpu = reps, num_accepted_tokens_cpu = accepted,
       generators = move_dict_value l e (generators s), allowed_token_ids_mask_cpu = masks,
       bad_words_token_ids = move_dict_value l e (bad_words_token_ids s)\<rparr>))))))))"

text \<open>Moving the request of the row \<open>l\<close> into the empty row \<open>e\<close>.\<close>

definition condense_move :: "int \<Rightarrow> int \<Rightarrow> input_batch \<Rightarrow> input_batch res" where
  "condense_move l e b =
     rbind (py_get (req_ids b) l) (\<lambda>found.
     rbind (py_get (req_output_token_ids b) l) (\<lambda>owner.
     case found of None \<Rightarrow> Inl AssertionError | Some req_id \<Rightarrow>
     rbind (rbind (py_set (req_ids b) e (Some req_id)) (\<lambda>ids. py_set ids l None)) (\<lambda>ids.
     rbind (rbind (py_set (req_output_token_ids b) e owner) (\<lambda>outs. py_set outs l None)) (\<lambda>outs.
     rbind (py_get (num_tokens_no_spec b) l) (\<lambda>no_spec_l.
     rbind (py_get (spec_token_ids_of_rows b) l) (\<lambda>spec_l.
     let n = no_spec_l + py_len spec_l in
     rbind (rbind (py_swap l e (spec_token_ids_of_rows b)) (\<lambda>specs. py_set specs l [])) (\<lambda>specs.
     rbind (py_get (token_ids_cpu b) l) (\<lambda>toks_l.
     rbind (on_row e (\<lambda>row. np_write row 0 (py_upto toks_l n)) (token_ids_cpu b)) (\<lambda>toks.
     rbind (py_get (is_token_ids b) l) (\<lambda>flags_l.
     rbind (on_row e (\<lambda>row. np_write row 0 (py_upto flags_l n)) (is_token_ids b)) (\<lambda>flags.
     rbind (py_copy l e (num_tokens_no_spec b)) (\<lambda>no_spec.
     rbind (py_copy l e (num_prompt_tokens_cpu b)) (\<lambda>prompts.
     rbind (py_copy l e (num_computed_tokens_cpu b)) (\<lambda>computed.
     rbind (move_row l e (block_table b)) (\<lambda>tables.
     rbind (py_copy l e (request_lora_mapping b)) (\<lambda>loras.
     let b' = b\<lparr>req_ids := ids, req_output_token_ids := outs, req_id_to_index := AList.update req_id e (req_id_to_index b),
         spec_token_ids_of_rows := specs, token_ids_cpu := toks, is_token_ids := flags,
         req_prompt_embeds := move_dict_value l e (req_prompt_embeds b),
         num_tokens_no_spec := no_spec, num_prompt_tokens_cpu := prompts, num_computed_tokens_cpu := computed,
         block_table := tables, request_lora_mapping := loras\<rparr>
     in if is_pooling_model b then Inr b'
        else rbind (move_sampling_rows l e (samp b)) (\<lambda>rows.
             Inr (b'\<lparr>samp := rows,
               builder := (builder b)\<lparr>bu_moved := bu_moved (builder b) @ [(l, e, UNIDIRECTIONAL)]\<rparr>\<rparr>))))))))))))))))))"

function skip_empty :: "int list \<Rightarrow> int \<Rightarrow> int" where
  "skip_empty es l = (if l \<in> set es then skip_empty es (l - 1) else l)"
  by pat_completeness auto
termination
proof (relation "measure (\<lambda>(es, l). card {x \<in> set es. x \<le> l})")
  fix es :: "int list" and l :: int
  assume l: "l \<in> set es"
  have "{x \<in> set es. x \<le> l - 1} \<subset> {x \<in> set es. x \<le> l}" using l by force
  then show "((es, l - 1), es, l) \<in> measure (\<lambda>(es, l). card {x \<in> set es. x \<le> l})"
    by (simp add: psubset_card_mono)
qed simp

declare skip_empty.simps [simp del]

text \<open>
  The loop of \<open>condense\<close>; its first argument are the removed rows in increasing order, which the
  builder holds in decreasing order.
\<close>

fun condense_loop :: "int list \<Rightarrow> int \<Rightarrow> input_batch \<Rightarrow> input_batch res" where
  "condense_loop [] last_req_index b = Inr b"
| "condense_loop (empty_index # es) last_req_index b =
     (let l = skip_empty (empty_index # es) last_req_index in
      if empty_index \<ge> l then Inr b
      else rbind (condense_move l empty_index (b\<lparr>builder := (builder b)\<lparr>bu_removed := rev es\<rparr>\<rparr>)) (condense_loop es (l - 1)))"

definition condense :: "input_batch \<Rightarrow> input_batch res" where
  "condense b =
     (let u = ensure_removed_sorted (builder b); b = b\<lparr>builder := u\<rparr>; n = num_reqs b in
      if bu_removed u = [] then Inr b
      else if n = 0 then Inr (b\<lparr>req_ids := [], req_output_token_ids := [], spec_token_ids_of_rows := []\<rparr>)
      else rbind (condense_loop (rev (bu_removed u)) (n + py_len (bu_removed u) - 1) b) (\<lambda>b.
           Inr (b\<lparr>req_ids := py_upto (req_ids b) n, req_output_token_ids := py_upto (req_output_token_ids b) n,
                  spec_token_ids_of_rows := py_upto (spec_token_ids_of_rows b) n\<rparr>)))"

section \<open>What the sampler gets\<close>

definition all_greedy :: "input_batch \<Rightarrow> bool" where "all_greedy b = (random_reqs (sets b) = {})"
definition all_random :: "input_batch \<Rightarrow> bool" where "all_random b = (greedy_reqs (sets b) = {})"
definition no_top_p :: "input_batch \<Rightarrow> bool" where "no_top_p b = (top_p_reqs (sets b) = {})"
definition no_top_k :: "input_batch \<Rightarrow> bool" where "no_top_k b = (top_k_reqs (sets b) = {})"

definition no_penalties :: "input_batch \<Rightarrow> bool" where
  "no_penalties b = (presence_penalties_reqs (sets b) = {} \<and> frequency_penalties_reqs (sets b) = {} \<and>
     repetition_penalties_reqs (sets b) = {})"

definition max_num_logprobs :: "input_batch \<Rightarrow> int option" where
  "max_num_logprobs b =
     (case map snd (num_logprobs (sets b)) of [] \<Rightarrow> None | k # ks \<Rightarrow> Some (fold max ks k))"

definition no_allowed_token_ids :: "input_batch \<Rightarrow> bool" where
  "no_allowed_token_ids b = (has_allowed_token_ids (sets b) = {})"

definition make_prompt_token_ids_tensor :: "input_batch \<Rightarrow> int list list res" where
  "make_prompt_token_ids_tensor b =
     (case py_upto (num_prompt_tokens_cpu b) (num_reqs b) of
        [] \<Rightarrow> Inl ValueError
      | k # ks \<Rightarrow> let max_prompt_len = fold max ks k in
          rmapv (\<lambda>i. rbind (py_get (num_prompt_tokens_cpu b) i) (\<lambda>n.
                     rbind (py_get (token_ids_cpu b) i) (\<lambda>row.
                     Inr (np_fill n max_prompt_len (vocab_size b) (py_upto row max_prompt_len)))))
            (arange (num_reqs b)))"

text \<open>
  Tensors that nothing reads are \<open>None\<close>: the penalties are buffers with old values when no request
  has penalties.
\<close>

record sampling_metadata =
  sm_temperature :: "rat list option"
  sm_all_greedy :: bool
  sm_all_random :: bool
  sm_top_p :: "rat list option"
  sm_top_k :: "int list option"
  sm_generators :: "(int \<times> nat) list"
  sm_max_num_logprobs :: "int option"
  sm_prompt_token_ids :: "int list list option"
  sm_penalties :: "(rat list \<times> rat list \<times> rat list) option"
  sm_output_token_ids :: "string option list"
  sm_spec_token_ids :: "int list list"
  sm_no_penalties :: bool
  sm_allowed_token_ids_mask :: "bool list list option"
  sm_bad_words_token_ids :: "(int \<times> int list list) list"

definition make_sampling_metadata :: "bool \<Rightarrow> input_batch \<Rightarrow> sampling_metadata res" where
  "make_sampling_metadata logitsprocs_need_output_token_ids b =
     (let n = num_reqs b; s = samp b in
      rbind (if \<not> no_penalties b \<or> True \<in> set (py_upto (logits_processing_needs_token_ids b) n)
         then rbind (make_prompt_token_ids_tensor b) (\<lambda>ps. Inr (Some ps)) else Inr None) (\<lambda>prompts.
      rbind (if no_allowed_token_ids b then Inr None
         else case allowed_token_ids_mask_cpu s of None \<Rightarrow> Inl AssertionError
            | Some rows \<Rightarrow> Inr (Some (py_upto rows n))) (\<lambda>masks.
      Inr \<lparr>sm_temperature = (if all_greedy b then None else Some (py_upto (temperature_cpu s) n)),
        sm_all_greedy = all_greedy b, sm_all_random = all_random b,
        sm_top_p = (if no_top_p b then None else Some (py_upto (top_p_cpu s) n)),
        sm_top_k = (if no_top_k b then None else Some (py_upto (top_k_cpu s) n)),
        sm_generators = generators s, sm_max_num_logprobs = max_num_logprobs b, sm_prompt_token_ids = prompts,
        sm_penalties = (if no_penalties b then None else Some (py_upto (frequency_penalties_cpu s) n,
          py_upto (presence_penalties_cpu s) n, py_upto (repetition_penalties_cpu s) n)),
        sm_output_token_ids = (if \<not> no_penalties b \<or> bad_words_token_ids s \<noteq> [] \<or> logitsprocs_need_output_token_ids
          then req_output_token_ids b else []),
        sm_spec_token_ids = spec_token_ids_of_rows b, sm_no_penalties = no_penalties b,
        sm_allowed_token_ids_mask = masks, sm_bad_words_token_ids = bad_words_token_ids s\<rparr>)))"

text \<open>
  The update for the logits processors, and the new metadata if the batch has changed.
\<close>

definition refresh_metadata ::
    "bool \<Rightarrow> input_batch \<Rightarrow> (batch_update option \<times> sampling_metadata option \<times> input_batch) res" where
  "refresh_metadata need_output b =
     (if is_pooling_model b then
        let (changed, u) = reset_update (builder b); b' = b\<lparr>builder := u\<rparr> in
        if changed then rbind (make_sampling_metadata need_output b') (\<lambda>m. Inr (None, Some m, b')) else Inr (None, None, b')
      else
        let (update, u) = get_and_reset (num_reqs b) (builder b); b' = b\<lparr>builder := u\<rparr> in
        case update of None \<Rightarrow> Inr (None, None, b')
        | Some x \<Rightarrow> rbind (make_sampling_metadata need_output b') (\<lambda>m. Inr (Some x, Some m, b')))"

definition get_pooling_params :: "input_batch \<Rightarrow> bool list res" where
  "get_pooling_params b =
     rbind (py_assert (length (req_ids b) = length (pooling_params b))) (\<lambda>_.
     rmapv (\<lambda>r. case r of None \<Rightarrow> Inl KeyError
        | Some req_id \<Rightarrow> (case map_of (pooling_params b) req_id of None \<Rightarrow> Inl KeyError | Some p \<Rightarrow> Inr p)) (req_ids b))"

text \<open>\<open>a.repeat(counts)\<close>.\<close>

definition np_repeat :: "'a list \<Rightarrow> int list \<Rightarrow> 'a list res" where
  "np_repeat xs counts =
     (if length xs \<noteq> length counts \<or> (\<exists>c \<in> set counts. c < 0) then Inl ValueError
      else Inr (concat (map2 (\<lambda>x c. py_repeat x c) xs counts)))"

definition make_lora_inputs :: "int list \<Rightarrow> int list \<Rightarrow> input_batch \<Rightarrow> (int list \<times> int list \<times> (int \<times> string) set) res" where
  "make_lora_inputs scheduled sampled b =
     (let ms = py_upto (request_lora_mapping b) (num_reqs b) in
      rbind (np_repeat ms sampled) (\<lambda>prompts.
      rbind (np_repeat ms scheduled) (\<lambda>toks.
      Inr (prompts, toks, set (lora_id_to_lora_request b)))))"

section \<open>The calls of a step\<close>

text \<open>What the model runner does to the batch in \<open>_update_states\<close>.\<close>

definition remove_requests :: "string list \<Rightarrow> input_batch \<Rightarrow> input_batch res" where
  "remove_requests rs = rfold (\<lambda>r b. rbind (remove_request r b) (\<lambda>(_, b). Inr b)) rs"

definition add_requests ::
    "(rat \<Rightarrow> rat) \<Rightarrow> (string \<times> int list) list \<Rightarrow> cached_request list \<Rightarrow> input_batch \<Rightarrow> input_batch res" where
  "add_requests f32 scheduled_spec_tokens qs =
     rfold (\<lambda>q b. rbind (batch_add_request f32 q b) (\<lambda>(_, b).
                  rbind (update_req_spec_token_ids q scheduled_spec_tokens b) (\<lambda>(_, b). Inr b))) qs"

end
