(* ===== verification/Batch_Facts.thy ===== *)
theory Batch_Facts
  imports Worker_Batch
begin

text \<open>
  What the rows of the persistent batch hold for a request, and that moving rows keeps it.
\<close>

section \<open>Lists, dictionaries and tables\<close>

lemma py_copy_nth: "l < length xs \<Longrightarrow> e < length xs \<Longrightarrow> py_copy (int l) (int e) xs = Inr (xs[e := xs ! l])"
  by (simp add: py_copy_def py_get_nth py_set_nth)

lemma map_of_move_dict:
  "l \<noteq> e \<Longrightarrow> map_of (move_dict_value l e d) k =
     (if k = l then None else if k = e \<and> map_of d l \<noteq> None then map_of d l else map_of d k)"
  by (auto simp: move_dict_value_def update_conv' delete_conv' split: option.splits)

lemma map_of_swap_dict:
  "map_of (swap_dict_values i j d) k = (if k = i then map_of d j else if k = j then map_of d i else map_of d k)"
  by (auto simp: swap_dict_values_def Let_def update_conv' delete_conv' split: option.splits)

definition tables_ok :: "nat \<Rightarrow> kernel_table list \<Rightarrow> bool" where
  "tables_ok n ts \<longleftrightarrow> (\<forall>t \<in> set ts. table_ok t \<and> length (kt_rows t) = n)"

definition rows_of :: "kernel_table list \<Rightarrow> nat \<Rightarrow> int list list" where
  "rows_of ts i = map (\<lambda>t. row_of t i) ts"

text \<open>What a table asks of the blocks of a request.\<close>

type_synonym table_shape = "bool \<times> int \<times> int"

definition table_shape_of :: "kernel_table \<Rightarrow> table_shape" where
  "table_shape_of t = (use_hybrid_blocks t, blocks_per_kv_block t, kt_max_num_blocks_per_req t)"

lemma same_shape_of: "same_shape t t' \<Longrightarrow> table_shape_of t' = table_shape_of t"
  by (simp add: same_shape_def table_shape_of_def)

lemma move_rows:
  assumes "tables_ok n ts" "l < n" "e < n"
  shows "\<exists>ts'. move_row (int l) (int e) ts = Inr ts' \<and> tables_ok n ts' \<and> map table_shape_of ts' = map table_shape_of ts \<and> rows_of ts' e = rows_of ts l \<and>
    (\<forall>k. k \<noteq> e \<longrightarrow> rows_of ts' k = rows_of ts k)"
  using assms(1)
proof (induction ts)
  case Nil
  then show ?case by (simp add: move_row_def tables_ok_def rows_of_def)
next
  case (Cons t ts)
  then have t: "table_ok t" "length (kt_rows t) = n" and ts: "tables_ok n ts" by (simp_all add: tables_ok_def)
  from move_row_spec [OF t(1), of l e] t(2) assms(2,3) obtain t' where t': "table_move_row (int l) (int e) t = Inr t'"
    "same_shape t t'" "row_of t' e = row_of t l" "\<forall>k. k \<noteq> e \<longrightarrow> row_of t' k = row_of t k" by auto
  from Cons.IH [OF ts] obtain ts' where ts': "move_row (int l) (int e) ts = Inr ts'" "tables_ok n ts'"
    "map table_shape_of ts' = map table_shape_of ts"
    "rows_of ts' e = rows_of ts l" "\<forall>k. k \<noteq> e \<longrightarrow> rows_of ts' k = rows_of ts k" by auto
  have "move_row (int l) (int e) (t # ts) = Inr (t' # ts')" using t'(1) ts'(1) by (simp add: move_row_def)
  moreover have "tables_ok n (t' # ts')" using ts'(2) t'(2) t by (simp add: tables_ok_def same_shape_def)
  ultimately show ?case using t' ts' by (simp add: rows_of_def same_shape_of)
qed

lemma swap_rows:
  assumes "tables_ok n ts" "i < n" "j < n"
  shows "\<exists>ts'. swap_row (int i) (int j) ts = Inr ts' \<and> tables_ok n ts' \<and> map table_shape_of ts' = map table_shape_of ts \<and> rows_of ts' i = rows_of ts j \<and>
    rows_of ts' j = rows_of ts i \<and> (\<forall>k. k \<noteq> i \<and> k \<noteq> j \<longrightarrow> rows_of ts' k = rows_of ts k)"
  using assms(1)
proof (induction ts)
  case Nil
  then show ?case by (simp add: swap_row_def tables_ok_def rows_of_def)
next
  case (Cons t ts)
  then have t: "table_ok t" "length (kt_rows t) = n" and ts: "tables_ok n ts" by (simp_all add: tables_ok_def)
  from swap_row_spec [OF t(1), of i j] t(2) assms(2,3) obtain t' where t': "table_swap_row (int i) (int j) t = Inr t'"
    "same_shape t t'" "row_of t' i = row_of t j" "row_of t' j = row_of t i"
    "\<forall>k. k \<noteq> i \<and> k \<noteq> j \<longrightarrow> row_of t' k = row_of t k" by auto
  from Cons.IH [OF ts] obtain ts' where ts': "swap_row (int i) (int j) ts = Inr ts'" "tables_ok n ts'"
    "map table_shape_of ts' = map table_shape_of ts"
    "rows_of ts' i = rows_of ts j" "rows_of ts' j = rows_of ts i"
    "\<forall>k. k \<noteq> i \<and> k \<noteq> j \<longrightarrow> rows_of ts' k = rows_of ts k" by auto
  have "swap_row (int i) (int j) (t # ts) = Inr (t' # ts')" using t'(1) ts'(1) by (simp add: swap_row_def)
  moreover have "tables_ok n (t' # ts')" using ts'(2) t'(2) t by (simp add: tables_ok_def same_shape_def)
  ultimately show ?case using t' ts' by (simp add: rows_of_def same_shape_of)
qed

section \<open>The index of the requests\<close>

lemma length_update_known: "map_of d k \<noteq> None \<Longrightarrow> length (AList.update k v d) = length d"
  by (induction d) auto

definition ids_indexed :: "string option list \<Rightarrow> (string \<times> int) list \<Rightarrow> bool" where
  "ids_indexed ids idx \<longleftrightarrow> distinct (map fst idx) \<and>
     (\<forall>r i. map_of idx r = Some i \<longleftrightarrow> (\<exists>k < length ids. i = int k \<and> ids ! k = Some r))"

lemma indexed_at: "ids_indexed ids idx \<Longrightarrow> map_of idx r = Some i \<Longrightarrow> \<exists>k < length ids. i = int k \<and> ids ! k = Some r"
  by (simp add: ids_indexed_def)

lemma indexed_of: "ids_indexed ids idx \<Longrightarrow> k < length ids \<Longrightarrow> ids ! k = Some r \<Longrightarrow> map_of idx r = Some (int k)"
  by (auto simp: ids_indexed_def)

lemma indexed_unique:
  assumes "ids_indexed ids idx" "k < length ids" "j < length ids" "ids ! k = Some r" "ids ! j = Some r"
  shows "k = j"
proof -
  have "map_of idx r = Some (int k)" "map_of idx r = Some (int j)" using indexed_of assms by blast+
  then show ?thesis by simp
qed

lemma indexedI:
  assumes "distinct (map fst idx)"
    and "\<And>r k. k < length ids \<Longrightarrow> ids ! k = Some r \<Longrightarrow> map_of idx r = Some (int k)"
    and "\<And>r i. map_of idx r = Some i \<Longrightarrow> \<exists>k < length ids. i = int k \<and> ids ! k = Some r"
  shows "ids_indexed ids idx"
  using assms unfolding ids_indexed_def by blast

lemma indexed_distinct: "ids_indexed ids idx \<Longrightarrow> distinct (map fst idx)"
  by (simp add: ids_indexed_def)

lemma indexed_move:
  assumes ok: "ids_indexed ids idx" and l: "l < length ids" "ids ! l = Some r" and e: "e < length ids" "ids ! e = None"
  shows "ids_indexed (ids[e := Some r, l := None]) (AList.update r (int e) idx)"
proof (rule indexedI)
  show "distinct (map fst (AList.update r (int e) idx))" using ok by (simp add: distinct_update ids_indexed_def)
  show "map_of (AList.update r (int e) idx) q = Some (int k)"
    if k: "k < length (ids[e := Some r, l := None])" "ids[e := Some r, l := None] ! k = Some q" for q k
  proof (cases "k = e")
    case True
    then show ?thesis using k l e by (auto simp: update_conv' nth_list_update split: if_splits)
  next
    case False
    then have "ids ! k = Some q" "k \<noteq> l" using k e l by (auto simp: nth_list_update split: if_splits)
    then show ?thesis using indexed_of [OF ok, of k q] indexed_unique [OF ok, of k l q] k l by (auto simp: update_conv')
  qed
  show "\<exists>k < length (ids[e := Some r, l := None]). i = int k \<and> ids[e := Some r, l := None] ! k = Some q"
    if i: "map_of (AList.update r (int e) idx) q = Some i" for q i
  proof (cases "q = r")
    case True
    then show ?thesis using i l e by (intro exI [of _ e]) (auto simp: update_conv' nth_list_update)
  next
    case False
    then obtain k where k: "k < length ids" "i = int k" "ids ! k = Some q"
      using i indexed_at [OF ok, of q i] by (auto simp: update_conv')
    then show ?thesis using l e False by (intro exI [of _ k]) (auto simp: nth_list_update)
  qed
qed

lemma indexed_remove:
  assumes ok: "ids_indexed ids idx" and k: "k < length ids" "ids ! k = Some r"
  shows "ids_indexed (ids[k := None]) (AList.delete r idx)"
proof (rule indexedI)
  show "distinct (map fst (AList.delete r idx))" using ok by (simp add: distinct_delete ids_indexed_def)
  show "map_of (AList.delete r idx) q = Some (int j)" if j: "j < length (ids[k := None])" "ids[k := None] ! j = Some q" for q j
  proof -
    have "ids ! j = Some q" "j \<noteq> k" using j k by (auto simp: nth_list_update split: if_splits)
    then show ?thesis using indexed_of [OF ok, of j q] indexed_unique [OF ok, of j k q] j k by (auto simp: delete_conv')
  qed
  show "\<exists>j < length (ids[k := None]). i = int j \<and> ids[k := None] ! j = Some q" if i: "map_of (AList.delete r idx) q = Some i" for q i
  proof -
    have q: "q \<noteq> r" "map_of idx q = Some i" using i by (auto simp: delete_conv' split: if_splits)
    then obtain j where "j < length ids" "i = int j" "ids ! j = Some q" using indexed_at [OF ok] by blast
    then show ?thesis using q k by (intro exI [of _ j]) (auto simp: nth_list_update)
  qed
qed

lemma indexed_put:
  assumes ok: "ids_indexed ids idx" and k: "k < length ids" "ids ! k = None" and new: "map_of idx r = None"
  shows "ids_indexed (ids[k := Some r]) (AList.update r (int k) idx)"
proof (rule indexedI)
  show "distinct (map fst (AList.update r (int k) idx))" using ok by (simp add: distinct_update ids_indexed_def)
  show "map_of (AList.update r (int k) idx) q = Some (int j)"
    if j: "j < length (ids[k := Some r])" "ids[k := Some r] ! j = Some q" for q j
  proof (cases "j = k")
    case True
    then show ?thesis using j by (auto simp: update_conv')
  next
    case False
    then have "ids ! j = Some q" using j by (auto simp: nth_list_update)
    then have "map_of idx q = Some (int j)" using indexed_of [OF ok] j by simp
    then show ?thesis using new by (auto simp: update_conv')
  qed
  show "\<exists>j < length (ids[k := Some r]). i = int j \<and> ids[k := Some r] ! j = Some q"
    if i: "map_of (AList.update r (int k) idx) q = Some i" for q i
  proof (cases "q = r")
    case True
    then show ?thesis using i k by (intro exI [of _ k]) (auto simp: update_conv')
  next
    case False
    then obtain j where "j < length ids" "i = int j" "ids ! j = Some q"
      using i indexed_at [OF ok, of q i] by (auto simp: update_conv')
    then show ?thesis using k by (intro exI [of _ j]) (auto simp: nth_list_update)
  qed
qed

lemma indexed_grow: "ids_indexed ids idx \<Longrightarrow> ids_indexed (ids @ [None]) idx"
  by (rule indexedI) (auto simp: ids_indexed_def nth_append less_Suc_eq split: if_splits)

lemma indexed_append:
  assumes ok: "ids_indexed ids idx" and new: "map_of idx r = None"
  shows "ids_indexed (ids @ [Some r]) (AList.update r (int (length ids)) idx)"
  using indexed_put [OF indexed_grow [OF ok], of "length ids" r] new by (simp add: nth_append)

lemma indexed_trim:
  assumes ok: "ids_indexed ids idx" and n: "\<And>k. n \<le> k \<Longrightarrow> k < length ids \<Longrightarrow> ids ! k = None"
  shows "ids_indexed (take n ids) idx"
proof (rule indexedI)
  show "distinct (map fst idx)" using ok by (rule indexed_distinct)
  show "map_of idx r = Some (int k)" if "k < length (take n ids)" "take n ids ! k = Some r" for r k
    using that indexed_of [OF ok] by simp
  show "\<exists>k < length (take n ids). i = int k \<and> take n ids ! k = Some r" if i: "map_of idx r = Some i" for r i
  proof -
    obtain k where k: "k < length ids" "i = int k" "ids ! k = Some r" using indexed_at [OF ok i] by blast
    then have "k < n" using n [of k] by (cases "n \<le> k") auto
    then show ?thesis using k by (intro exI [of _ k]) simp
  qed
qed

lemma indexed_swap:
  assumes ok: "ids_indexed ids idx" and i: "i < length ids" "ids ! i = Some r" and j: "j < length ids" "ids ! j = Some s"
  shows "ids_indexed (ids[i := ids ! j, j := ids ! i]) (AList.update s (int i) (AList.update r (int j) idx))"
proof (rule indexedI)
  let ?ids = "ids[i := ids ! j, j := ids ! i]"
  have rs: "r = s \<longleftrightarrow> i = j" using indexed_unique [OF ok] i j by auto
  show "distinct (map fst (AList.update s (int i) (AList.update r (int j) idx)))"
    using ok by (simp add: distinct_update ids_indexed_def)
  show "map_of (AList.update s (int i) (AList.update r (int j) idx)) q = Some (int k)"
    if k: "k < length ?ids" "?ids ! k = Some q" for q k
  proof (cases "k = i \<or> k = j")
    case True
    then show ?thesis using k i j rs by (auto simp: update_conv' nth_list_update split: if_splits)
  next
    case False
    then have q: "ids ! k = Some q" using k by (auto simp: nth_list_update)
    then have "q \<noteq> r" "q \<noteq> s" using False indexed_unique [OF ok] i j k by auto
    then show ?thesis using indexed_of [OF ok _ q] k by (simp add: update_conv')
  qed
  show "\<exists>k < length ?ids. n = int k \<and> ?ids ! k = Some q"
    if n: "map_of (AList.update s (int i) (AList.update r (int j) idx)) q = Some n" for q n
  proof -
    consider "q = s" | "q = r" "q \<noteq> s" | "q \<noteq> r" "q \<noteq> s" by blast
    then show ?thesis
    proof cases
      case 1
      then show ?thesis using n i j rs by (intro exI [of _ i]) (auto simp: update_conv' nth_list_update)
    next
      case 2
      then show ?thesis using n i j by (intro exI [of _ j]) (auto simp: update_conv' nth_list_update)
    next
      case 3
      then obtain k where "k < length ids" "n = int k" "ids ! k = Some q"
        using n indexed_at [OF ok, of q n] by (auto simp: update_conv')
      then show ?thesis using i j 3 by (intro exI [of _ k]) (auto simp: nth_list_update)
    qed
  qed
qed

lemma indexed_count:
  assumes ok: "ids_indexed ids idx"
  shows "length idx = card {k. k < length ids \<and> ids ! k \<noteq> None}"
proof -
  have "bij_betw (\<lambda>k. the (ids ! k)) {k. k < length ids \<and> ids ! k \<noteq> None} (fst ` set idx)"
    unfolding bij_betw_def
  proof
    show "inj_on (\<lambda>k. the (ids ! k)) {k. k < length ids \<and> ids ! k \<noteq> None}"
      by (rule inj_onI) (auto intro: indexed_unique [OF ok])
    show "(\<lambda>k. the (ids ! k)) ` {k. k < length ids \<and> ids ! k \<noteq> None} = fst ` set idx"
    proof (intro equalityI subsetI)
      fix r assume "r \<in> (\<lambda>k. the (ids ! k)) ` {k. k < length ids \<and> ids ! k \<noteq> None}"
      then obtain k where "k < length ids" "ids ! k = Some r" by auto
      then have "map_of idx r = Some (int k)" by (rule indexed_of [OF ok])
      then show "r \<in> fst ` set idx" by (metis map_of_eq_None_iff option.distinct(1))
    next
      fix r assume "r \<in> fst ` set idx"
      then obtain i where "map_of idx r = Some i" by (metis map_of_eq_None_iff not_None_eq)
      then obtain k where "k < length ids" "ids ! k = Some r" using indexed_at [OF ok] by blast
      then show "r \<in> (\<lambda>k. the (ids ! k)) ` {k. k < length ids \<and> ids ! k \<noteq> None}" by force
    qed
  qed
  then have "card {k. k < length ids \<and> ids ! k \<noteq> None} = card (fst ` set idx)" by (rule bij_betw_same_card)
  also have "\<dots> = length (map fst idx)" using indexed_distinct [OF ok] by (metis distinct_card set_map)
  finally show ?thesis by simp
qed

section \<open>What a row holds\<close>

record sampling_row =
  sr_temperature :: rat
  sr_top_p :: rat
  sr_top_k :: int
  sr_frequency :: rat
  sr_presence :: rat
  sr_repetition :: rat
  sr_accepted :: int
  sr_generator :: "nat option"
  sr_masked :: "nat set"
  sr_bad_words :: "int list list option"

text \<open>The tokens that the mask forbids.\<close>

definition masked_tokens :: "bool list list option \<Rightarrow> nat \<Rightarrow> nat set" where
  "masked_tokens masks i = (case masks of None \<Rightarrow> {} | Some rows \<Rightarrow> {t. t < length (rows ! i) \<and> rows ! i ! t})"

definition sampling_row_at :: "sampling_rows \<Rightarrow> nat \<Rightarrow> sampling_row" where
  "sampling_row_at s i =
     \<lparr>sr_temperature = temperature_cpu s ! i, sr_top_p = top_p_cpu s ! i, sr_top_k = top_k_cpu s ! i,
      sr_frequency = frequency_penalties_cpu s ! i, sr_presence = presence_penalties_cpu s ! i,
      sr_repetition = repetition_penalties_cpu s ! i, sr_accepted = num_accepted_tokens_cpu s ! i,
      sr_generator = map_of (generators s) (int i),
      sr_masked = masked_tokens (allowed_token_ids_mask_cpu s) i,
      sr_bad_words = map_of (bad_words_token_ids s) (int i)\<rparr>"

definition sampling_ok :: "nat \<Rightarrow> sampling_rows \<Rightarrow> bool" where
  "sampling_ok n s \<longleftrightarrow> length (temperature_cpu s) = n \<and> length (top_p_cpu s) = n \<and> length (top_k_cpu s) = n \<and>
     length (frequency_penalties_cpu s) = n \<and> length (presence_penalties_cpu s) = n \<and>
     length (repetition_penalties_cpu s) = n \<and> length (num_accepted_tokens_cpu s) = n \<and>
     (case allowed_token_ids_mask_cpu s of None \<Rightarrow> True | Some rows \<Rightarrow> length rows = n)"

text \<open>Nothing is left of the request that was in the row.\<close>

definition sampling_clean :: "sampling_rows \<Rightarrow> nat \<Rightarrow> bool" where
  "sampling_clean s i \<longleftrightarrow> map_of (generators s) (int i) = None \<and> map_of (bad_words_token_ids s) (int i) = None"

lemma move_sampling:
  assumes ok: "sampling_ok n s" and l: "l < n" and e: "e < n" "sampling_clean s e" "l \<noteq> e"
  shows "\<exists>s'. move_sampling_rows (int l) (int e) s = Inr s' \<and> sampling_ok n s' \<and>
    sampling_row_at s' e = sampling_row_at s l \<and> sampling_clean s' l \<and>
    allowed_token_ids_mask_cpu s' = map_option (\<lambda>rows. rows[e := rows ! l]) (allowed_token_ids_mask_cpu s) \<and>
    (\<forall>k. k \<noteq> e \<and> k \<noteq> l \<longrightarrow> sampling_row_at s' k = sampling_row_at s k \<and> sampling_clean s' k = sampling_clean s k)"
proof (cases "allowed_token_ids_mask_cpu s")
  case None
  then show ?thesis using assms
    by (simp add: move_sampling_rows_def sampling_ok_def py_copy_nth sampling_row_at_def sampling_clean_def map_of_move_dict
      masked_tokens_def split: option.splits)
next
  case (Some rows)
  then show ?thesis using assms
    by (simp add: move_sampling_rows_def sampling_ok_def py_copy_nth sampling_row_at_def sampling_clean_def map_of_move_dict
      masked_tokens_def split: option.splits)
qed

text \<open>Swapping exchanges the rows, but both end with the mask of the second one.\<close>

lemma swap_sampling:
  assumes ok: "sampling_ok n s" and i: "i < n" and j: "j < n"
  shows "\<exists>s'. swap_sampling_rows (int i) (int j) s = Inr s' \<and> sampling_ok n s' \<and>
    sampling_row_at s' i = sampling_row_at s j \<and>
    sampling_row_at s' j = (sampling_row_at s i)\<lparr>sr_masked := sr_masked (sampling_row_at s j)\<rparr> \<and>
    (\<forall>k. k \<noteq> i \<and> k \<noteq> j \<longrightarrow> sampling_row_at s' k = sampling_row_at s k \<and> sampling_clean s' k = sampling_clean s k)"
proof (cases "allowed_token_ids_mask_cpu s")
  case None
  then show ?thesis using assms
    by (simp add: swap_sampling_rows_def sampling_ok_def swap_nth sampling_row_at_def sampling_clean_def map_of_swap_dict
      nth_list_update masked_tokens_def)
next
  case (Some rows)
  then have "length rows = n" using ok by (simp add: sampling_ok_def)
  then have "swap_tensor_rows (int i) (int j) rows = Inr (rows[i := rows ! j, j := rows ! j])"
    using i j by (simp add: swap_tensor_rows_def py_copy_nth nth_list_update)
  then show ?thesis using assms Some
    by (simp add: swap_sampling_rows_def sampling_ok_def swap_nth sampling_row_at_def sampling_clean_def map_of_swap_dict
      nth_list_update masked_tokens_def)
qed

record row_state =
  rv_tokens :: "int list"
  rv_is_token :: "bool list"
  rv_embeds :: "bytes list option"
  rv_no_spec :: int
  rv_num_prompt :: int
  rv_num_computed :: int
  rv_blocks :: "int list list"
  rv_lora :: int
  rv_spec :: "int list"
  rv_output :: "string option"
  rv_sampling :: sampling_row

definition row_view :: "input_batch \<Rightarrow> nat \<Rightarrow> row_state" where
  "row_view b i =
     (let flags = take (nat (num_tokens_no_spec b ! i)) (is_token_ids b ! i) in
      \<lparr>rv_tokens = take (nat (num_tokens_no_spec b ! i) + length (spec_token_ids_of_rows b ! i)) (token_ids_cpu b ! i),
       rv_is_token = flags,
       rv_embeds = (if False \<in> set flags then map_of (req_prompt_embeds b) (int i) else None),
       rv_no_spec = num_tokens_no_spec b ! i, rv_num_prompt = num_prompt_tokens_cpu b ! i,
       rv_num_computed = num_computed_tokens_cpu b ! i, rv_blocks = rows_of (block_table b) i,
       rv_lora = request_lora_mapping b ! i, rv_spec = spec_token_ids_of_rows b ! i, rv_output = req_output_token_ids b ! i,
       rv_sampling = sampling_row_at (samp b) i\<rparr>)"

definition batch_view :: "input_batch \<Rightarrow> string \<Rightarrow> row_state option" where
  "batch_view b r = map_option (\<lambda>i. row_view b (nat i)) (map_of (req_id_to_index b) r)"

definition arrays_ok :: "nat \<Rightarrow> nat \<Rightarrow> input_batch \<Rightarrow> bool" where
  "arrays_ok n m b \<longleftrightarrow> length (token_ids_cpu b) = n \<and> (\<forall>i < n. length (token_ids_cpu b ! i) = m) \<and>
     length (is_token_ids b) = n \<and> (\<forall>i < n. length (is_token_ids b ! i) = m) \<and>
     length (num_tokens_no_spec b) = n \<and> (\<forall>i < n. 0 \<le> num_tokens_no_spec b ! i) \<and>
     length (num_prompt_tokens_cpu b) = n \<and> length (num_computed_tokens_cpu b) = n \<and>
     length (request_lora_mapping b) = n \<and> tables_ok n (block_table b) \<and> sampling_ok n (samp b)"

definition lists_ok :: "nat \<Rightarrow> input_batch \<Rightarrow> bool" where
  "lists_ok n b \<longleftrightarrow> length (req_ids b) \<le> n \<and> req_output_token_ids b = req_ids b \<and>
     length (req_ids b) \<le> length (spec_token_ids_of_rows b) \<and> ids_indexed (req_ids b) (req_id_to_index b)"

definition row_empty :: "input_batch \<Rightarrow> nat \<Rightarrow> bool" where
  "row_empty b i \<longleftrightarrow> (i < length (req_ids b) \<longrightarrow> req_ids b ! i = None)"

definition row_ok :: "input_batch \<Rightarrow> nat \<Rightarrow> bool" where
  "row_ok b i \<longleftrightarrow>
     (if row_empty b i
      then sampling_clean (samp b) i \<and> (i < length (spec_token_ids_of_rows b) \<longrightarrow> spec_token_ids_of_rows b ! i = [])
      else False \<in> set (take (nat (num_tokens_no_spec b ! i)) (is_token_ids b ! i)) \<longrightarrow>
        map_of (req_prompt_embeds b) (int i) \<noteq> None)"

definition batch_ok :: "nat \<Rightarrow> nat \<Rightarrow> input_batch \<Rightarrow> bool" where
  "batch_ok n m b \<longleftrightarrow> \<not> is_pooling_model b \<and> arrays_ok n m b \<and> lists_ok n b \<and> (\<forall>i. row_ok b i)"

section \<open>Moving one request\<close>

lemma write_prefix:
  assumes "e < length rows" "length src = length (rows ! e)" "0 \<le> n"
  shows "on_row (int e) (\<lambda>row. np_write row 0 (py_upto src n)) rows =
    Inr (rows[e := take (nat n) src @ drop (nat n) (rows ! e)])"
proof -
  have "np_write (rows ! e) 0 (py_upto src n) = Inr (take (nat n) src @ drop (nat (py_len (take (nat n) src))) (rows ! e))"
    using assms by (simp add: py_upto_nat np_write_fits py_len_def)
  moreover have "drop (nat (py_len (take (nat n) src))) (rows ! e) = drop (nat n) (rows ! e)"
    using assms by (simp add: py_len_def min_def)
  ultimately show ?thesis using assms(1) by (simp add: on_row_nth)
qed

lemma take_written: "length xs = length ys \<Longrightarrow> k \<le> n \<Longrightarrow> take k (take n xs @ drop n ys) = take k xs"
  by (cases "n \<le> length xs") (simp_all add: min_def)

lemma swap_then_clear:
  assumes "l < length xs" "e < length xs" "l \<noteq> e"
  shows "rbind (py_swap (int l) (int e) xs) (\<lambda>ys. py_set ys (int l) z) = Inr (xs[e := xs ! l, l := z])"
  using assms by (simp add: swap_nth py_set_nth list_update_swap)

lemma move_then_clear:
  assumes "l < length xs" "e < length xs"
  shows "rbind (py_set xs (int e) y) (\<lambda>ys. py_set ys (int l) z) = Inr (xs[e := y, l := z])"
  using assms by (simp add: py_set_nth)

text \<open>The row \<open>l\<close> moves to the empty row \<open>e\<close>.\<close>

definition same_frame :: "input_batch \<Rightarrow> input_batch \<Rightarrow> bool" where
  "same_frame b b' \<longleftrightarrow> sets b' = sets b \<and> max_num_reqs b' = max_num_reqs b \<and> vocab_size b' = vocab_size b \<and>
     lora_id_to_request_ids b' = lora_id_to_request_ids b \<and> lora_id_to_lora_request b' = lora_id_to_lora_request b \<and>
     logits_processing_needs_token_ids b' = logits_processing_needs_token_ids b \<and>
     (allowed_token_ids_mask_cpu (samp b') = None \<longleftrightarrow> allowed_token_ids_mask_cpu (samp b) = None) \<and>
     map table_shape_of (block_table b') = map table_shape_of (block_table b)"

definition row_moved :: "nat \<Rightarrow> nat \<Rightarrow> string \<Rightarrow> input_batch \<Rightarrow> input_batch \<Rightarrow> bool" where
  "row_moved l e r b b' \<longleftrightarrow> req_ids b' = (req_ids b)[e := Some r, l := None] \<and>
     req_id_to_index b' = AList.update r (int e) (req_id_to_index b) \<and>
     builder b' = (builder b)\<lparr>bu_moved := bu_moved (builder b) @ [(int l, int e, UNIDIRECTIONAL)]\<rparr> \<and>
     allowed_token_ids_mask_cpu (samp b') = map_option (\<lambda>rows. rows[e := rows ! l]) (allowed_token_ids_mask_cpu (samp b)) \<and>
     same_frame b b' \<and> row_view b' e = row_view b l \<and> (\<forall>k. k \<noteq> e \<and> k \<noteq> l \<longrightarrow> row_view b' k = row_view b k)"

lemma condense_move_spec:
  assumes ok: "batch_ok n m b" and l: "l < length (req_ids b)" "req_ids b ! l = Some r"
    and e: "e < length (req_ids b)" "req_ids b ! e = None"
  shows "\<exists>b'. condense_move (int l) (int e) b = Inr b' \<and> batch_ok n m b' \<and> row_moved l e r b b'"
proof -
  have np: "\<not> is_pooling_model b" and arr: "arrays_ok n m b" and lists: "lists_ok n b" and rows: "\<And>i. row_ok b i"
    using ok by (simp_all add: batch_ok_def)
  have ne: "l \<noteq> e" and ln: "l < n" "e < n" using l e lists by (auto simp: lists_ok_def)
  have lens: "length (spec_token_ids_of_rows b) > l" "length (spec_token_ids_of_rows b) > e"
    "req_output_token_ids b = req_ids b" using l e lists by (auto simp: lists_ok_def)
  have clean: "sampling_clean (samp b) e" "spec_token_ids_of_rows b ! e = []"
    using rows [of e] e lens by (simp_all add: row_ok_def row_empty_def)
  from arr have tabs: "tables_ok n (block_table b)" and samp: "sampling_ok n (samp b)" by (simp_all add: arrays_ok_def)
  from move_rows [OF tabs ln] obtain ts where ts: "move_row (int l) (int e) (block_table b) = Inr ts" "tables_ok n ts"
    "map table_shape_of ts = map table_shape_of (block_table b)"
    "rows_of ts e = rows_of (block_table b) l" "\<forall>k. k \<noteq> e \<longrightarrow> rows_of ts k = rows_of (block_table b) k" by blast
  from move_sampling [OF samp ln(1,2) clean(1) ne] obtain sr where sr: "move_sampling_rows (int l) (int e) (samp b) = Inr sr"
    "sampling_ok n sr" "sampling_row_at sr e = sampling_row_at (samp b) l" "sampling_clean sr l"
    "allowed_token_ids_mask_cpu sr = map_option (\<lambda>rows. rows[e := rows ! l]) (allowed_token_ids_mask_cpu (samp b))"
    "\<forall>k. k \<noteq> e \<and> k \<noteq> l \<longrightarrow> sampling_row_at sr k = sampling_row_at (samp b) k \<and> sampling_clean sr k = sampling_clean (samp b) k"
    by blast
  let ?ns = "num_tokens_no_spec b" and ?sp = "spec_token_ids_of_rows b" and ?tk = "token_ids_cpu b" and ?fl = "is_token_ids b"
  let ?n = "?ns ! l + py_len (?sp ! l)"
  let ?b' = "b\<lparr>req_ids := (req_ids b)[e := Some r, l := None],
     req_output_token_ids := (req_ids b)[e := Some r, l := None],
     req_id_to_index := AList.update r (int e) (req_id_to_index b), spec_token_ids_of_rows := ?sp[e := ?sp ! l, l := []],
     token_ids_cpu := ?tk[e := take (nat ?n) (?tk ! l) @ drop (nat ?n) (?tk ! e)],
     is_token_ids := ?fl[e := take (nat ?n) (?fl ! l) @ drop (nat ?n) (?fl ! e)],
     req_prompt_embeds := move_dict_value (int l) (int e) (req_prompt_embeds b),
     num_tokens_no_spec := ?ns[e := ?ns ! l], num_prompt_tokens_cpu := (num_prompt_tokens_cpu b)[e := num_prompt_tokens_cpu b ! l],
     num_computed_tokens_cpu := (num_computed_tokens_cpu b)[e := num_computed_tokens_cpu b ! l],
     block_table := ts, request_lora_mapping := (request_lora_mapping b)[e := request_lora_mapping b ! l], samp := sr,
     builder := (builder b)\<lparr>bu_moved := bu_moved (builder b) @ [(int l, int e, UNIDIRECTIONAL)]\<rparr>\<rparr>"
  have n0: "0 \<le> ?n" "0 \<le> ?ns ! l" "nat ?n = nat (?ns ! l) + length (?sp ! l)"
    using arr ln by (auto simp: arrays_ok_def py_len_def nat_add_distrib)
  have run: "condense_move (int l) (int e) b = Inr ?b'"
  proof -
    have "on_row (int e) (\<lambda>row. np_write row 0 (py_upto (?tk ! l) ?n)) ?tk = Inr (?tk[e := take (nat ?n) (?tk ! l) @ drop (nat ?n) (?tk ! e)])"
      "on_row (int e) (\<lambda>row. np_write row 0 (py_upto (?fl ! l) ?n)) ?fl = Inr (?fl[e := take (nat ?n) (?fl ! l) @ drop (nat ?n) (?fl ! e)])"
      using arr ln n0(1) by (intro write_prefix; simp add: arrays_ok_def)+
    then show ?thesis using arr ln l e lens np
      by (simp add: condense_move_def arrays_ok_def py_get_nth py_copy_nth swap_then_clear [OF _ _ ne] move_then_clear ts(1) sr(1) Let_def)
  qed
  have written: "take k (take (nat ?n) (?tk ! l) @ drop (nat ?n) (?tk ! e)) = take k (?tk ! l)"
    "take k (take (nat ?n) (?fl ! l) @ drop (nat ?n) (?fl ! e)) = take k (?fl ! l)" if "k \<le> nat ?n" for k
    using arr ln that by (intro take_written; simp add: arrays_ok_def)+
  have embeds: "map_of (req_prompt_embeds ?b') (int k) =
      (if k = l then None else if k = e \<and> map_of (req_prompt_embeds b) (int l) \<noteq> None then map_of (req_prompt_embeds b) (int l)
       else map_of (req_prompt_embeds b) (int k))" for k
    using ne by (simp add: map_of_move_dict)
  have has: "False \<in> set (take (nat (?ns ! l)) (?fl ! l)) \<Longrightarrow> map_of (req_prompt_embeds b) (int l) \<noteq> None"
    using rows [of l] l by (simp add: row_ok_def row_empty_def)
  have tokens_e: "take (nat (?ns ! l) + length (?sp ! l)) (take (nat ?n) (?tk ! l) @ drop (nat ?n) (?tk ! e)) =
      take (nat (?ns ! l) + length (?sp ! l)) (?tk ! l)"
    by (rule written) (simp add: n0(3))
  have "take (nat (?ns ! l)) (take (nat ?n) (?fl ! l) @ drop (nat ?n) (?fl ! e)) = take (nat (?ns ! l)) (?fl ! l)"
    by (rule written) (simp add: n0(3))
  then have flags_e: "take (nat (num_tokens_no_spec ?b' ! e)) (is_token_ids ?b' ! e) = take (nat (?ns ! l)) (?fl ! l)"
    using arr ln by (simp add: arrays_ok_def del: take_append)
  have embeds_e: "(if False \<in> set (take (nat (?ns ! l)) (?fl ! l)) then map_of (req_prompt_embeds ?b') (int e) else None) =
      (if False \<in> set (take (nat (?ns ! l)) (?fl ! l)) then map_of (req_prompt_embeds b) (int l) else None)"
  proof (cases "False \<in> set (take (nat (?ns ! l)) (?fl ! l))")
    case True
    then show ?thesis unfolding embeds [of e] if_P [OF True] using has [OF True] ne ne [symmetric] by (simp only: if_False if_True simp_thms)
  next
    case False
    then show ?thesis by (simp only: if_False)
  qed
  have at_e: "num_tokens_no_spec ?b' ! e = ?ns ! l" "spec_token_ids_of_rows ?b' ! e = ?sp ! l"
    "token_ids_cpu ?b' ! e = take (nat ?n) (?tk ! l) @ drop (nat ?n) (?tk ! e)"
    "num_prompt_tokens_cpu ?b' ! e = num_prompt_tokens_cpu b ! l" "num_computed_tokens_cpu ?b' ! e = num_computed_tokens_cpu b ! l"
    "rows_of (block_table ?b') e = rows_of (block_table b) l" "request_lora_mapping ?b' ! e = request_lora_mapping b ! l"
    "req_output_token_ids ?b' ! e = req_output_token_ids b ! l" "sampling_row_at (samp ?b') e = sampling_row_at (samp b) l"
    using arr ln lens ne ts(4) sr(3) l e by (simp_all add: arrays_ok_def)
  have "row_view ?b' e = row_view b l"
    unfolding row_view_def Let_def flags_e at_e(1,2,3) tokens_e unfolding at_e(4-) embeds_e flags_e [unfolded at_e(1)] ..
  moreover have "row_view ?b' k = row_view b k" if "k \<noteq> e" "k \<noteq> l" for k
    using that ts(5) sr(6) embeds [of k] lists by (simp add: row_view_def Let_def lists_ok_def)
  ultimately have moved: "row_moved l e r b ?b'" using sr(5) ts(3) by (simp add: row_moved_def same_frame_def)
  have "arrays_ok n m ?b'"
    using arr ln ts(2) sr(2) by (auto simp: arrays_ok_def nth_list_update)
  moreover have "lists_ok n ?b'" using lists indexed_move [OF _ l e] by (simp add: lists_ok_def)
  moreover have "row_ok ?b' i" for i
  proof -
    consider "i = e" | "i = l" | "i \<noteq> e" "i \<noteq> l" by blast
    then show ?thesis
    proof cases
      case 1
      then show ?thesis using flags_e has embeds [of e] e ne by (simp add: row_ok_def row_empty_def)
    next
      case 2
      then show ?thesis using sr(4) l lens by (simp add: row_ok_def row_empty_def)
    next
      case 3
      then show ?thesis using rows [of i] sr(6) embeds [of i] by (simp add: row_ok_def row_empty_def)
    qed
  qed
  ultimately have "batch_ok n m ?b'" using np by (simp add: batch_ok_def)
  then show ?thesis using run moved by blast
qed

section \<open>Condensing\<close>

lemma skip_empty_spec:
  "skip_empty es l \<le> l \<and> skip_empty es l \<notin> set es \<and> (\<forall>x. skip_empty es l < x \<and> x \<le> l \<longrightarrow> x \<in> set es)"
proof (induction es l rule: skip_empty.induct)
  case (1 es l)
  show ?case
  proof (cases "l \<in> set es")
    case True
    then show ?thesis using 1 [OF True] skip_empty.simps [of es l] by (auto simp: le_less)
  next
    case False
    then show ?thesis using skip_empty.simps [of es l] by auto
  qed
qed

lemma with_builder [simp]:
  "row_view (b\<lparr>builder := u\<rparr>) i = row_view b i" "batch_view (b\<lparr>builder := u\<rparr>) r = batch_view b r"
  "batch_ok n m (b\<lparr>builder := u\<rparr>) = batch_ok n m b"
  by (simp_all add: row_view_def batch_view_def batch_ok_def arrays_ok_def lists_ok_def row_ok_def row_empty_def Let_def
    cong: if_cong)

lemma moved_view:
  assumes idx: "ids_indexed (req_ids b) (req_id_to_index b)" and moved: "row_moved l e r b b'"
    and l: "l < length (req_ids b)" "req_ids b ! l = Some r" and e: "e < length (req_ids b)" "req_ids b ! e = None"
  shows "batch_view b' q = batch_view b q"
proof (cases "q = r")
  case True
  then show ?thesis using moved indexed_of [OF idx l] by (simp add: batch_view_def row_moved_def update_conv')
next
  case False
  have keep: "map_of (req_id_to_index b') q = map_of (req_id_to_index b) q"
    using moved False by (simp add: row_moved_def update_conv')
  show ?thesis
  proof (cases "map_of (req_id_to_index b) q")
    case (Some i)
    then obtain k where k: "i = int k" "req_ids b ! k = Some q" using indexed_at [OF idx] by blast
    then have "k \<noteq> l" "k \<noteq> e" using l e False by auto
    then show ?thesis using moved keep Some k(1) by (simp add: batch_view_def row_moved_def)
  qed (simp add: batch_view_def keep)
qed

text \<open>The rows up to \<open>l\<close> that are not in \<open>es\<close> have requests, no other row has one.\<close>

definition gaps_ok :: "int list \<Rightarrow> int \<Rightarrow> input_batch \<Rightarrow> bool" where
  "gaps_ok es l b \<longleftrightarrow> l < int (length (req_ids b)) \<and> sorted es \<and> distinct es \<and>
     (\<forall>x \<in> set es. 0 \<le> x \<and> x < int (length (req_ids b))) \<and>
     (\<forall>k < length (req_ids b). req_ids b ! k = None \<longleftrightarrow> int k \<in> set es \<or> l < int k) \<and>
     (\<exists>k < length (req_ids b). req_ids b ! k \<noteq> None)"

definition same_requests :: "input_batch \<Rightarrow> input_batch \<Rightarrow> bool" where
  "same_requests b b' \<longleftrightarrow> batch_view b' = batch_view b \<and> num_reqs b' = num_reqs b \<and> same_frame b b'"

lemma last_row:
  assumes "gaps_ok es hi b"
  shows "\<exists>l < length (req_ids b). skip_empty es hi = int l \<and> req_ids b ! l \<noteq> None \<and> int l \<le> hi"
proof -
  obtain k where k: "k < length (req_ids b)" "req_ids b ! k \<noteq> None" using assms by (auto simp: gaps_ok_def)
  then have kl: "int k \<le> hi" "int k \<notin> set es" using assms by (auto simp: gaps_ok_def)
  let ?l = "skip_empty es hi"
  have l: "?l \<le> hi" "?l \<notin> set es" "\<forall>x. ?l < x \<and> x \<le> hi \<longrightarrow> x \<in> set es" using skip_empty_spec [of es hi] by auto
  then have "int k \<le> ?l" using kl by (meson not_le)
  then obtain j where j: "?l = int j" by (metis nonneg_int_cases of_nat_0_le_iff order_trans)
  then have "j < length (req_ids b)" using l(1) assms by (simp add: gaps_ok_def)
  then show ?thesis using j l assms by (intro exI [of _ j]) (auto simp: gaps_ok_def)
qed

lemma gaps_step:
  assumes gaps: "gaps_ok (int e # es) hi b" and skip: "skip_empty (int e # es) hi = int l" and el: "e < l"
    and l: "l < length (req_ids b)" and ids: "req_ids b' = (req_ids b)[e := Some r, l := None]"
  shows "gaps_ok es (int l - 1) b'"
proof -
  have g: "sorted (int e # es)" "distinct (int e # es)" "\<forall>x \<in> set es. 0 \<le> x \<and> x < int (length (req_ids b))"
    "e < length (req_ids b)" "hi < int (length (req_ids b))"
    and none: "\<And>k. k < length (req_ids b) \<Longrightarrow> req_ids b ! k = None \<longleftrightarrow> int k \<in> set (int e # es) \<or> hi < int k"
    using gaps by (auto simp: gaps_ok_def)
  have s: "int l \<le> hi" "int l \<notin> set (int e # es)" "\<And>x. int l < x \<Longrightarrow> x \<le> hi \<Longrightarrow> x \<in> set (int e # es)"
    using skip_empty_spec [of "int e # es" hi] by (auto simp: skip)
  have "req_ids b' ! k = None \<longleftrightarrow> int k \<in> set es \<or> int l - 1 < int k" if k: "k < length (req_ids b)" for k
  proof -
    consider "k = e" | "k = l" | "k \<noteq> e" "k \<noteq> l" by blast
    then show ?thesis
    proof cases
      case 1
      then show ?thesis using ids k el g(2) by (simp add: nth_list_update)
    next
      case 2
      then show ?thesis using ids k by simp
    next
      case 3
      then have "req_ids b' ! k = None \<longleftrightarrow> int k \<in> set es \<or> hi < int k" using ids none [OF k] by simp
      moreover have "int k \<in> set es" if "int l - 1 < int k" "\<not> hi < int k" using s(3) [of "int k"] that 3 by auto
      moreover have "int l - 1 < int k" if "hi < int k" using that s(1) by linarith
      ultimately show ?thesis by blast
    qed
  qed
  moreover have "\<exists>k < length (req_ids b'). req_ids b' ! k \<noteq> None" using ids el g(4) by (intro exI [of _ e]) simp
  moreover have "length (req_ids b') = length (req_ids b)" by (simp add: ids)
  ultimately show ?thesis using g l by (simp add: gaps_ok_def)
qed

lemma condense_loop_spec:
  assumes "batch_ok n m b" and "gaps_ok es hi b"
  shows "\<exists>b' l. condense_loop es hi b = Inr b' \<and> batch_ok n m b' \<and> same_requests b b' \<and> gaps_ok [] l b'"
  using assms
proof (induction es arbitrary: hi b)
  case Nil
  then show ?case by (intro exI [of _ b] exI [of _ hi]) (simp add: same_requests_def same_frame_def)
next
  case (Cons e0 es)
  have "0 \<le> e0" using Cons.prems(2) by (simp add: gaps_ok_def)
  then obtain e where e0: "e0 = int e" by (rule nonneg_int_cases)
  from last_row [OF Cons.prems(2)] obtain l where l: "l < length (req_ids b)" "skip_empty (e0 # es) hi = int l"
    "req_ids b ! l \<noteq> None" "int l \<le> hi" by auto
  then obtain r where r: "req_ids b ! l = Some r" by auto
  show ?case
  proof (cases "e0 \<ge> int l")
    case True
    have s: "int l \<notin> set (e0 # es)" "\<And>x. int l < x \<Longrightarrow> x \<le> hi \<Longrightarrow> x \<in> set (e0 # es)"
      using skip_empty_spec [of "e0 # es" hi] by (auto simp: l(2))
    have "req_ids b ! k = None \<longleftrightarrow> int l < int k" if k: "k < length (req_ids b)" for k
    proof
      assume "req_ids b ! k = None"
      then have "int k \<in> set (e0 # es) \<or> hi < int k" using Cons.prems(2) k by (auto simp: gaps_ok_def)
      then show "int l < int k"
      proof
        assume in_es: "int k \<in> set (e0 # es)"
        then have "e0 \<le> int k" using Cons.prems(2) by (auto simp: gaps_ok_def)
        then show ?thesis using True in_es s(1) by (cases "int k = int l") (simp, linarith)
      qed (use l(4) in linarith)
    next
      assume "int l < int k"
      then have "int k \<in> set (e0 # es) \<or> hi < int k" using s(2) [of "int k"] by force
      then show "req_ids b ! k = None" using Cons.prems(2) k by (auto simp: gaps_ok_def)
    qed
    moreover have "\<exists>k < length (req_ids b). req_ids b ! k \<noteq> None" using l(1,3) by blast
    ultimately have "gaps_ok [] (int l) b" using l(1) by (simp add: gaps_ok_def)
    then show ?thesis using Cons.prems(1) True l(2) by (intro exI [of _ b] exI [of _ "int l"]) (simp add: same_requests_def same_frame_def)
  next
    case False
    let ?b1 = "b\<lparr>builder := (builder b)\<lparr>bu_removed := rev es\<rparr>\<rparr>"
    have el: "e < l" "e < length (req_ids b)" "req_ids b ! e = None"
      using False e0 Cons.prems(2) l(1) by (auto simp: gaps_ok_def)
    from condense_move_spec [of n m ?b1 l r e] Cons.prems(1) l(1) r el obtain b2 where b2:
      "condense_move (int l) (int e) ?b1 = Inr b2" "batch_ok n m b2" "row_moved l e r ?b1 b2" by auto
    have idx: "ids_indexed (req_ids b) (req_id_to_index b)" using Cons.prems(1) by (simp add: batch_ok_def lists_ok_def)
    have "batch_view b2 = batch_view b"
      using moved_view [OF _ b2(3)] idx l(1) r el by (intro ext) simp
    moreover have "num_reqs b2 = num_reqs b"
      using b2(3) indexed_of [OF idx l(1) r] by (simp add: num_reqs_def row_moved_def py_len_def length_update_known)
    ultimately have same: "same_requests b b2" using b2(3) by (simp add: same_requests_def row_moved_def same_frame_def)
    have "gaps_ok es (int l - 1) b2"
      using gaps_step [of e es hi b l b2 r] Cons.prems(2) e0 l el b2(3) by (simp add: row_moved_def)
    from Cons.IH [OF b2(2) this] same show ?thesis using False e0 l(2) b2(1) by (auto simp: same_requests_def same_frame_def)
  qed
qed

text \<open>The log knows the empty rows.\<close>

definition log_ok :: "input_batch \<Rightarrow> bool" where
  "log_ok b \<longleftrightarrow> (let u = builder b in distinct (bu_removed u) \<and>
     set (bu_removed u) = {int k | k. k < length (req_ids b) \<and> req_ids b ! k = None} \<and>
     (is_removed_sorted u \<longrightarrow> bu_removed u = rev (sort (bu_removed u))))"

definition dense :: "input_batch \<Rightarrow> bool" where
  "dense b \<longleftrightarrow> None \<notin> set (req_ids b) \<and> py_len (req_ids b) = num_reqs b"

lemma num_reqs_card: "lists_ok n b \<Longrightarrow> num_reqs b = int (card {k. k < length (req_ids b) \<and> req_ids b ! k \<noteq> None})"
  using indexed_count by (simp add: num_reqs_def py_len_def lists_ok_def)

lemma all_rows_dense:
  assumes "lists_ok n b" "\<forall>k < length (req_ids b). req_ids b ! k \<noteq> None"
  shows "dense b"
proof -
  have "{k. k < length (req_ids b) \<and> req_ids b ! k \<noteq> None} = {..< length (req_ids b)}" using assms(2) by auto
  then show ?thesis using num_reqs_card [OF assms(1)] assms(2) by (auto simp: dense_def py_len_def in_set_conv_nth)
qed

text \<open>Cutting the lists after the last request.\<close>

definition trim :: "int \<Rightarrow> input_batch \<Rightarrow> input_batch" where
  "trim n b = b\<lparr>req_ids := py_upto (req_ids b) n, req_output_token_ids := py_upto (req_output_token_ids b) n,
     spec_token_ids_of_rows := py_upto (spec_token_ids_of_rows b) n\<rparr>"

lemma trim_view: "i < n \<Longrightarrow> row_view (trim (int n) b) i = row_view b i"
  by (simp add: row_view_def trim_def py_upto_nat Let_def cong: if_cong)

lemma trim_spec:
  assumes ok: "batch_ok n m b" and gaps: "gaps_ok [] l b"
  shows "batch_ok n m (trim (num_reqs b) b) \<and> dense (trim (num_reqs b) b) \<and> same_requests b (trim (num_reqs b) b)"
proof -
  have lists: "lists_ok n b" and rows: "\<And>i. row_ok b i" using ok by (simp_all add: batch_ok_def)
  have g: "l < int (length (req_ids b))" "\<And>k. k < length (req_ids b) \<Longrightarrow> req_ids b ! k = None \<longleftrightarrow> l < int k"
    using gaps by (auto simp: gaps_ok_def)
  obtain k0 where "k0 < length (req_ids b)" "req_ids b ! k0 \<noteq> None" using gaps by (auto simp: gaps_ok_def)
  then have l0: "0 \<le> l" using g(2) [of k0] by auto
  have "k < length (req_ids b) \<and> req_ids b ! k \<noteq> None \<longleftrightarrow> k < Suc (nat l)" for k
    using g(1) g(2) [of k] l0 by (cases "k < length (req_ids b)") (simp_all, linarith+)
  then have "{k. k < length (req_ids b) \<and> req_ids b ! k \<noteq> None} = {..< Suc (nat l)}" by (simp add: lessThan_def)
  then have "num_reqs b = int (Suc (nat l))" using num_reqs_card [OF lists] by simp
  moreover define N where "N = Suc (nat l)"
  ultimately have n: "num_reqs b = int N" by simp
  let ?t = "trim (int N) b"
  have beyond: "req_ids b ! k = None" if "N \<le> k" "k < length (req_ids b)" for k using g(2) [OF that(2)] that(1) by (simp add: N_def)
  have idx: "ids_indexed (req_ids b) (req_id_to_index b)" using lists by (simp add: lists_ok_def)
  have ids: "req_ids ?t = take N (req_ids b)" by (simp add: trim_def py_upto_nat)
  have "lists_ok n ?t" using lists indexed_trim [OF idx beyond] by (auto simp: lists_ok_def trim_def py_upto_nat)
  moreover have "arrays_ok n m ?t" using ok by (simp add: batch_ok_def arrays_ok_def trim_def)
  moreover have "row_ok ?t i" for i
  proof (cases "i < N")
    case True
    then show ?thesis using rows [of i] by (simp add: row_ok_def row_empty_def trim_def py_upto_nat)
  next
    case False
    then have "row_empty b i" using beyond [of i] by (simp add: row_empty_def)
    then show ?thesis using False rows [of i] by (simp add: row_ok_def row_empty_def trim_def py_upto_nat)
  qed
  ultimately have "batch_ok n m ?t" using ok by (simp add: batch_ok_def trim_def)
  moreover have "dense ?t"
  proof (rule all_rows_dense [OF \<open>lists_ok n ?t\<close>], intro allI impI)
    fix k assume "k < length (req_ids ?t)"
    then have "k < N" "k < length (req_ids b)" by (simp_all add: ids)
    moreover from this have "\<not> l < int k" using l0 by (simp add: N_def)
    ultimately show "req_ids ?t ! k \<noteq> None" using g(2) [of k] by (simp add: ids)
  qed
  moreover have "batch_view ?t r = batch_view b r" for r
  proof (cases "map_of (req_id_to_index b) r")
    case (Some i)
    then obtain k where "i = int k" "k < length (req_ids b)" "req_ids b ! k = Some r" using indexed_at [OF idx] by blast
    then have "i = int k" "k < N" using beyond [of k] by (auto simp: not_less [symmetric])
    then show ?thesis using Some trim_view [of k N b] by (simp add: batch_view_def) (simp add: trim_def)
  qed (simp add: batch_view_def trim_def)
  ultimately show ?thesis by (simp add: n same_requests_def) (simp add: num_reqs_def trim_def fun_eq_iff n [unfolded num_reqs_def] same_frame_def)
qed

lemma sorted_log:
  assumes "log_ok b"
  shows "sorted (rev (bu_removed (ensure_removed_sorted (builder b))))" "distinct (bu_removed (ensure_removed_sorted (builder b)))"
    "set (bu_removed (ensure_removed_sorted (builder b))) = {int k | k. k < length (req_ids b) \<and> req_ids b ! k = None}"
    "is_removed_sorted (ensure_removed_sorted (builder b))"
proof -
  let ?r = "bu_removed (builder b)"
  have d: "distinct ?r" "set ?r = {int k | k. k < length (req_ids b) \<and> req_ids b ! k = None}"
    and s: "is_removed_sorted (builder b) \<Longrightarrow> ?r = rev (sort ?r)" using assms by (simp_all add: log_ok_def Let_def)
  show "sorted (rev (bu_removed (ensure_removed_sorted (builder b))))"
  proof (cases "is_removed_sorted (builder b)")
    case True
    then have "rev ?r = sort ?r" using s by (metis rev_rev_ident)
    then show ?thesis using True by (simp add: ensure_removed_sorted_def)
  qed (simp add: ensure_removed_sorted_def)
  show "distinct (bu_removed (ensure_removed_sorted (builder b)))"
    "set (bu_removed (ensure_removed_sorted (builder b))) = {int k | k. k < length (req_ids b) \<and> req_ids b ! k = None}"
    "is_removed_sorted (ensure_removed_sorted (builder b))"
    using d by (auto simp: ensure_removed_sorted_def)
qed

lemma empty_batch_ok:
  assumes ok: "batch_ok n m b" and none: "num_reqs b = 0"
  shows "batch_ok n m (b\<lparr>req_ids := [], req_output_token_ids := [], spec_token_ids_of_rows := []\<rparr>) \<and>
    dense (b\<lparr>req_ids := [], req_output_token_ids := [], spec_token_ids_of_rows := []\<rparr>) \<and>
    same_requests b (b\<lparr>req_ids := [], req_output_token_ids := [], spec_token_ids_of_rows := []\<rparr>)"
proof -
  have lists: "lists_ok n b" and rows: "\<And>i. row_ok b i" using ok by (simp_all add: batch_ok_def)
  have e: "req_id_to_index b = []" using none by (simp add: num_reqs_def py_len_def)
  then have "req_ids b ! k = None" if "k < length (req_ids b)" for k
    using indexed_of [of "req_ids b" "[]" k] lists that by (cases "req_ids b ! k") (auto simp: lists_ok_def)
  then have "row_empty b i" for i by (simp add: row_empty_def)
  then have "sampling_clean (samp b) i" for i using rows [of i] by (simp add: row_ok_def)
  then show ?thesis using ok e
    by (simp add: batch_ok_def arrays_ok_def lists_ok_def row_ok_def row_empty_def ids_indexed_def dense_def py_len_def
      num_reqs_def same_requests_def same_frame_def batch_view_def fun_eq_iff)
qed

lemma condense_spec:
  assumes ok: "batch_ok n m b" and log: "log_ok b"
  shows "\<exists>b'. condense b = Inr b' \<and> batch_ok n m b' \<and> dense b' \<and> same_requests b b'"
proof -
  define u where "u = ensure_removed_sorted (builder b)"
  have u: "sorted (rev (bu_removed u))" "distinct (bu_removed u)"
    "set (bu_removed u) = {int k | k. k < length (req_ids b) \<and> req_ids b ! k = None}" unfolding u_def by (rule sorted_log [OF log])+
  let ?b = "b\<lparr>builder := u\<rparr>"
  have okb: "batch_ok n m ?b" using ok by simp
  have lists: "lists_ok n ?b" using okb by (simp add: batch_ok_def)
  have same: "same_requests b ?b" by (simp add: same_requests_def same_frame_def num_reqs_def fun_eq_iff)
  consider (full) "bu_removed u = []" | (empty) "bu_removed u \<noteq> []" "num_reqs ?b = 0" | (some) "bu_removed u \<noteq> []" "num_reqs ?b \<noteq> 0"
    by blast
  then show ?thesis
  proof cases
    case full
    then have "dense ?b" using u(3) by (intro all_rows_dense [OF lists]) auto
    then show ?thesis using full okb same by (simp add: condense_def u_def [symmetric] Let_def)
  next
    case empty
    then show ?thesis using empty_batch_ok [OF okb empty(2)] same
      by (simp add: condense_def u_def [symmetric] Let_def) (simp add: same_requests_def same_frame_def)
  next
    case some
    have card: "card {k. k < length (req_ids b) \<and> req_ids b ! k \<noteq> None} + length (bu_removed u) = length (req_ids b)"
    proof -
      have "set (bu_removed u) = int ` {k. k < length (req_ids b) \<and> req_ids b ! k = None}" using u(3) by auto
      then have "length (bu_removed u) = card {k. k < length (req_ids b) \<and> req_ids b ! k = None}"
        using u(2) by (simp add: distinct_card [symmetric] card_image)
      moreover have "card {k. k < length (req_ids b) \<and> req_ids b ! k \<noteq> None} + card {k. k < length (req_ids b) \<and> req_ids b ! k = None} =
        card ({k. k < length (req_ids b) \<and> req_ids b ! k \<noteq> None} \<union> {k. k < length (req_ids b) \<and> req_ids b ! k = None})"
        by (rule card_Un_disjoint [symmetric]) auto
      moreover have "{k. k < length (req_ids b) \<and> req_ids b ! k \<noteq> None} \<union> {k. k < length (req_ids b) \<and> req_ids b ! k = None} =
        {..< length (req_ids b)}" by auto
      ultimately show ?thesis by simp
    qed
    let ?l = "num_reqs ?b + py_len (bu_removed u) - 1"
    have l: "?l = int (length (req_ids b)) - 1" using num_reqs_card [OF lists] card by (simp add: py_len_def)
    have "card {k. k < length (req_ids b) \<and> req_ids b ! k \<noteq> None} \<noteq> 0" using num_reqs_card [OF lists] some(2) by simp
    then have "\<exists>k < length (req_ids b). req_ids b ! k \<noteq> None" by (metis (mono_tags, lifting) card.empty empty_Collect_eq)
    then have "gaps_ok (rev (bu_removed u)) ?l ?b" using u l by (auto simp: gaps_ok_def)
    from condense_loop_spec [OF okb this] obtain b1 l1 where b1: "condense_loop (rev (bu_removed u)) ?l ?b = Inr b1"
      "batch_ok n m b1" "same_requests ?b b1" "gaps_ok [] l1 b1" by blast
    have n1: "num_reqs b1 = num_reqs ?b" using b1(3) by (simp add: same_requests_def)
    have run: "condense b = Inr (trim (num_reqs b1) b1)"
      using some b1(1) by (simp add: condense_def u_def [symmetric] Let_def trim_def n1)
    show ?thesis
      using trim_spec [OF b1(2,4)] run same b1(3) by (auto simp: same_requests_def same_frame_def)
  qed
qed

end
