(* ===== verification/Batch_Update.thy ===== *)
theory Batch_Update
  imports Batch_Facts
begin

text \<open>
  Removing and adding requests: what the persistent batch holds is a map from the requests to their
  state, and the calls of a step change it like updates of a map.
\<close>

section \<open>Adapters\<close>

definition lora_users :: "input_batch \<Rightarrow> int \<Rightarrow> string set" where
  "lora_users b x = {q. \<exists>v. batch_view b q = Some v \<and> rv_lora v = x}"

definition lora_ok :: "input_batch \<Rightarrow> bool" where
  "lora_ok b \<longleftrightarrow>
     (\<forall>x. map_of (lora_id_to_request_ids b) x = (if x = 0 \<or> lora_users b x = {} then None else Some (lora_users b x))) \<and>
     (\<forall>x. map_of (lora_id_to_lora_request b) x = None \<longleftrightarrow> map_of (lora_id_to_request_ids b) x = None)"

lemma lora_ok_same: "lora_ok b \<Longrightarrow> same_requests b b' \<Longrightarrow> lora_ok b'"
  by (simp add: lora_ok_def lora_users_def same_requests_def same_frame_def)

lemma remove_lora_spec:
  assumes i: "i < length (request_lora_mapping b)" and x: "request_lora_mapping b ! i = x"
    and known: "x \<noteq> 0 \<Longrightarrow> map_of (lora_id_to_request_ids b) x = Some S \<and> map_of (lora_id_to_lora_request b) x \<noteq> None"
  shows "\<exists>ds ls. remove_lora r (int i) b = Inr (b\<lparr>request_lora_mapping := (request_lora_mapping b)[i := 0],
      lora_id_to_request_ids := ds, lora_id_to_lora_request := ls\<rparr>) \<and>
    (\<forall>y. map_of ds y = (if y = x \<and> x \<noteq> 0 then if S - {r} = {} then None else Some (S - {r})
       else map_of (lora_id_to_request_ids b) y)) \<and>
    (\<forall>y. map_of ls y = (if y = x \<and> x \<noteq> 0 \<and> S - {r} = {} then None else map_of (lora_id_to_lora_request b) y))"
proof -
  consider "x = 0" | "x \<noteq> 0" "S - {r} = {}" | "x \<noteq> 0" "S - {r} \<noteq> {}" by blast
  then show ?thesis
  proof cases
    case 1
    then have "(request_lora_mapping b)[i := 0] = request_lora_mapping b" using x by (metis list_update_id)
    then show ?thesis using 1 i x by (intro exI [of _ "lora_id_to_request_ids b"] exI [of _ "lora_id_to_lora_request b"])
      (simp add: remove_lora_def py_get_nth)
  next
    case 2
    then show ?thesis using known i x
      by (intro exI [of _ "AList.delete x (lora_id_to_request_ids b)"] exI [of _ "AList.delete x (lora_id_to_lora_request b)"])
        (auto simp: remove_lora_def py_get_nth py_set_nth Let_def delete_conv')
  next
    case 3
    then show ?thesis using known i x
      by (intro exI [of _ "AList.update x (S - {r}) (lora_id_to_request_ids b)"] exI [of _ "lora_id_to_lora_request b"])
        (simp add: remove_lora_def py_get_nth py_set_nth Let_def update_conv')
  qed
qed

section \<open>Removing a request\<close>

lemma clear_sampling:
  assumes "sampling_ok n s" "i < n"
  shows "\<exists>s'. clear_sampling_rows (int i) s = Inr s' \<and> sampling_ok n s' \<and> sampling_clean s' i \<and>
    allowed_token_ids_mask_cpu s' = map_option (\<lambda>rows. rows[i := map (\<lambda>_. False) (rows ! i)]) (allowed_token_ids_mask_cpu s) \<and>
    (\<forall>k. k \<noteq> i \<longrightarrow> sampling_row_at s' k = sampling_row_at s k \<and> sampling_clean s' k = sampling_clean s k)"
  using assms
  by (cases "allowed_token_ids_mask_cpu s")
    (simp_all add: clear_sampling_rows_def sampling_ok_def sampling_clean_def sampling_row_at_def delete_conv' on_row_nth
      masked_tokens_def)

lemma view_of_row:
  assumes "lists_ok n b" "k < length (req_ids b)" "req_ids b ! k = Some r"
  shows "batch_view b r = Some (row_view b k)"
  using indexed_of [of "req_ids b" "req_id_to_index b" k r] assms by (simp add: batch_view_def lists_ok_def)

lemma view_row:
  assumes "lists_ok n b" "batch_view b r = Some v"
  shows "\<exists>k < length (req_ids b). req_ids b ! k = Some r \<and> v = row_view b k"
proof -
  obtain i where i: "map_of (req_id_to_index b) r = Some i" "v = row_view b (nat i)"
    using assms(2) by (auto simp: batch_view_def)
  then show ?thesis using indexed_at [of "req_ids b" "req_id_to_index b" r i] assms(1) by (auto simp: lists_ok_def)
qed

lemma remove_known:
  assumes ok: "batch_ok n m b" and log: "log_ok b" and lora: "lora_ok b" and unsorted: "\<not> is_removed_sorted (builder b)"
    and k: "k < length (req_ids b)" "req_ids b ! k = Some r"
  shows "\<exists>b'. remove_request r b = Inr (Some (int k), b') \<and> batch_ok n m b' \<and> log_ok b' \<and> lora_ok b' \<and>
    \<not> is_removed_sorted (builder b') \<and> batch_view b' = (batch_view b)(r := None) \<and>
    max_num_reqs b' = max_num_reqs b \<and> vocab_size b' = vocab_size b \<and> block_table b' = block_table b \<and>
    sets b' = remove_sampling_sets r (sets b) \<and>
    logits_processing_needs_token_ids b' = logits_processing_needs_token_ids b \<and> req_ids b' = (req_ids b)[k := None] \<and> bu_removed (builder b') = bu_removed (builder b) @ [int k] \<and>
    allowed_token_ids_mask_cpu (samp b') =
      map_option (\<lambda>rows. rows[k := map (\<lambda>_. False) (rows ! k)]) (allowed_token_ids_mask_cpu (samp b))"
proof -
  have np: "\<not> is_pooling_model b" and arr: "arrays_ok n m b" and lists: "lists_ok n b" and rows: "\<And>i. row_ok b i"
    using ok by (simp_all add: batch_ok_def)
  have idx: "ids_indexed (req_ids b) (req_id_to_index b)" and kn: "k < n" and ks: "k < length (spec_token_ids_of_rows b)"
    and outs: "req_output_token_ids b = req_ids b" using lists k by (auto simp: lists_ok_def)
  let ?x = "request_lora_mapping b ! k" and ?S = "lora_users b (request_lora_mapping b ! k)"
  have view: "batch_view b r = Some (row_view b k)" by (rule view_of_row [OF lists k])
  then have rS: "r \<in> ?S" by (simp add: lora_users_def row_view_def Let_def)
  let ?b0 = "b\<lparr>req_id_to_index := AList.delete r (req_id_to_index b),
     builder := (builder b)\<lparr>bu_removed := bu_removed (builder b) @ [int k], batch_changed := True\<rparr>,
     req_ids := (req_ids b)[k := None], req_output_token_ids := (req_ids b)[k := None],
     spec_token_ids_of_rows := (spec_token_ids_of_rows b)[k := []]\<rparr>"
  have known: "?x \<noteq> 0 \<Longrightarrow> map_of (lora_id_to_request_ids ?b0) ?x = Some ?S \<and> map_of (lora_id_to_lora_request ?b0) ?x \<noteq> None"
    using lora rS by (auto simp: lora_ok_def)
  have "k < length (request_lora_mapping ?b0)" "request_lora_mapping ?b0 ! k = ?x" using arr kn by (simp_all add: arrays_ok_def)
  from remove_lora_spec [OF this known, of r] obtain ds ls where
    rl: "remove_lora r (int k) ?b0 = Inr (?b0\<lparr>request_lora_mapping := (request_lora_mapping b)[k := 0],
      lora_id_to_request_ids := ds, lora_id_to_lora_request := ls\<rparr>)"
    and ds: "\<forall>y. map_of ds y = (if y = ?x \<and> ?x \<noteq> 0 then if ?S - {r} = {} then None else Some (?S - {r})
       else map_of (lora_id_to_request_ids b) y)"
    and ls: "\<forall>y. map_of ls y = (if y = ?x \<and> ?x \<noteq> 0 \<and> ?S - {r} = {} then None else map_of (lora_id_to_lora_request b) y)"
    by auto
  from clear_sampling [of n "samp b" k] arr kn obtain sr where sr: "clear_sampling_rows (int k) (samp b) = Inr sr"
    "sampling_ok n sr" "sampling_clean sr k"
    "allowed_token_ids_mask_cpu sr = map_option (\<lambda>rows. rows[k := map (\<lambda>_. False) (rows ! k)]) (allowed_token_ids_mask_cpu (samp b))"
    "\<forall>j. j \<noteq> k \<longrightarrow> sampling_row_at sr j = sampling_row_at (samp b) j \<and> sampling_clean sr j = sampling_clean (samp b) j"
    by (auto simp: arrays_ok_def)
  let ?b' = "?b0\<lparr>request_lora_mapping := (request_lora_mapping b)[k := 0], lora_id_to_request_ids := ds,
     lora_id_to_lora_request := ls, samp := sr, sets := remove_sampling_sets r (sets b),
     prev_req_id_to_index := map_option (AList.delete r) (prev_req_id_to_index b)\<rparr>"
  have run: "remove_request r b = Inr (Some (int k), ?b')"
    using indexed_of [OF idx k] unsorted k ks np rl sr(1) by (simp add: remove_request_def removed_append_def py_set_nth outs)
  have lists': "lists_ok n ?b'" using lists indexed_remove [OF idx k] by (simp add: lists_ok_def)
  have rows': "row_ok ?b' i" for i
  proof (cases "i = k")
    case True
    then show ?thesis using sr(3) k ks by (simp add: row_ok_def row_empty_def)
  next
    case False
    then show ?thesis using rows [of i] sr(5) by (simp add: row_ok_def row_empty_def)
  qed
  have ok': "batch_ok n m ?b'" using np arr sr(2) lists' rows' by (simp add: batch_ok_def arrays_ok_def)
  have "set (bu_removed (builder ?b')) = {int i | i. i < length (req_ids ?b') \<and> req_ids ?b' ! i = None}"
    using log k by (auto simp: log_ok_def Let_def nth_list_update)
  moreover have "int k \<notin> set (bu_removed (builder b))" using log k by (auto simp: log_ok_def Let_def)
  ultimately have log': "log_ok ?b'" using log unsorted by (simp add: log_ok_def Let_def)
  have view': "batch_view ?b' = (batch_view b)(r := None)"
  proof
    fix q
    show "batch_view ?b' q = ((batch_view b)(r := None)) q"
    proof (cases "q = r \<or> map_of (req_id_to_index b) q = None")
      case True
      then show ?thesis by (auto simp: batch_view_def delete_conv')
    next
      case False
      then obtain i where i: "map_of (req_id_to_index b) q = Some i" "q \<noteq> r" by auto
      then obtain j where j: "i = int j" "req_ids b ! j = Some q" using indexed_at [OF idx] by blast
      then have "j \<noteq> k" using k i(2) by auto
      then have "row_view ?b' j = row_view b j" using sr(5) outs by (simp add: row_view_def Let_def cong: if_cong)
      then show ?thesis using i j by (simp add: batch_view_def delete_conv')
    qed
  qed
  have users: "lora_users ?b' y = (if y = ?x then ?S - {r} else lora_users b y)" for y
    using view unfolding lora_users_def view' by (auto simp: row_view_def Let_def)
  have "lora_ok ?b'"
    using lora ds ls unfolding lora_ok_def users by auto
  then show ?thesis using run ok' log' view' unsorted sr(4) by (intro exI [of _ ?b']) simp
qed

section \<open>Adding a request\<close>

lemma add_rows:
  assumes "tables_ok n ts" "i < n" "length ts \<le> length (drop a ids)"
    and "\<forall>j < length ts. py_len (kernel_ids (ts ! j) (ids ! (a + j))) \<le> kt_max_num_blocks_per_req (ts ! j)"
  shows "\<exists>ts'. rmapv (\<lambda>(j, t). rbind (py_get ids (int j)) (\<lambda>x. table_add_row x (int i) t)) (zip [a..<a + length ts] ts) = Inr ts' \<and>
    tables_ok n ts' \<and> list_all2 same_shape ts ts' \<and> rows_of ts' i = map2 kernel_ids ts (drop a ids) \<and>
    (\<forall>k. k \<noteq> i \<longrightarrow> rows_of ts' k = rows_of ts k)"
  using assms
proof (induction ts arbitrary: a)
  case Nil
  then show ?case by (simp add: tables_ok_def rows_of_def)
next
  case (Cons t ts)
  have t: "table_ok t" "length (kt_rows t) = n" and ts: "tables_ok n ts" using Cons.prems(1) by (simp_all add: tables_ok_def)
  have a: "a < length ids" using Cons.prems(3) by simp
  have room: "py_len (kernel_ids t (ids ! a)) \<le> kt_max_num_blocks_per_req t" using Cons.prems(4) by force
  from add_row_spec [OF t(1) _ room, of i] t(2) assms(2) obtain t' where t': "table_add_row (ids ! a) (int i) t = Inr t'"
    "same_shape t t'" "row_of t' i = kernel_ids t (ids ! a)" "\<forall>k. k \<noteq> i \<longrightarrow> row_of t' k = row_of t k" by auto
  have "\<forall>j < length ts. py_len (kernel_ids (ts ! j) (ids ! (Suc a + j))) \<le> kt_max_num_blocks_per_req (ts ! j)"
  proof (intro allI impI)
    fix j assume "j < length ts"
    then show "py_len (kernel_ids (ts ! j) (ids ! (Suc a + j))) \<le> kt_max_num_blocks_per_req (ts ! j)"
      using Cons.prems(4) [rule_format, of "Suc j"] by simp
  qed
  moreover have "length ts \<le> length (drop (Suc a) ids)" using Cons.prems(3) by simp
  ultimately obtain ts' where ts':
    "rmapv (\<lambda>(j, t). rbind (py_get ids (int j)) (\<lambda>x. table_add_row x (int i) t)) (zip [Suc a..<Suc a + length ts] ts) = Inr ts'"
    "tables_ok n ts'" "list_all2 same_shape ts ts'" "rows_of ts' i = map2 kernel_ids ts (drop (Suc a) ids)"
    "\<forall>k. k \<noteq> i \<longrightarrow> rows_of ts' k = rows_of ts k" using Cons.IH [OF ts assms(2), of "Suc a"] by blast
  have z: "zip [a..<a + length (t # ts)] (t # ts) = (a, t) # zip [Suc a..<Suc a + length ts] ts"
    by (simp add: upt_conv_Cons del: upt_Suc)
  have "rmapv (\<lambda>(j, t). rbind (py_get ids (int j)) (\<lambda>x. table_add_row x (int i) t)) (zip [a..<a + length (t # ts)] (t # ts)) =
    Inr (t' # ts')" unfolding z using ts'(1) t'(1) a by (simp add: py_get_nth)
  moreover have "tables_ok n (t' # ts')" using ts'(2) t'(2) t by (simp add: tables_ok_def same_shape_def)
  moreover have "drop a ids = ids ! a # drop (Suc a) ids" using a by (simp add: Cons_nth_drop_Suc)
  ultimately show ?case using t' ts' by (simp add: rows_of_def)
qed

lemma add_row_all:
  assumes "tables_ok n ts" "i < n" "length ts \<le> length ids"
    and "\<forall>j < length ts. py_len (kernel_ids (ts ! j) (ids ! j)) \<le> kt_max_num_blocks_per_req (ts ! j)"
  shows "\<exists>ts'. add_row ids (int i) ts = Inr ts' \<and> tables_ok n ts' \<and> list_all2 same_shape ts ts' \<and>
    rows_of ts' i = map2 kernel_ids ts ids \<and> (\<forall>k. k \<noteq> i \<longrightarrow> rows_of ts' k = rows_of ts k)"
  using add_rows [of n ts i 0 ids] assms by (simp add: add_row_def each_group_def)

lemma register_spec:
  assumes ok: "batch_ok n m b" and log: "log_ok b" and room: "num_reqs b < max_num_reqs b" "max_num_reqs b = int n"
  shows "\<exists>i u. register_add_request q b = Inr (int i, b\<lparr>builder := u\<rparr>) \<and> i < n \<and> i \<le> length (req_ids b) \<and> row_empty b i \<and>
    distinct (bu_removed u) \<and> set (bu_removed u) = {int k | k. k < length (req_ids b) \<and> req_ids b ! k = None} - {int i} \<and>
    (is_removed_sorted u \<longrightarrow> bu_removed u = rev (sort (bu_removed u))) \<and>
    (bu_removed (builder b) = [] \<longrightarrow> i = length (req_ids b))"
proof (cases "bu_removed (builder b) = []")
  case True
  let ?n = "length (req_ids b)"
  let ?u = "case cr_sampling_params q of None \<Rightarrow> (builder b)\<lparr>batch_changed := True\<rparr>
     | Some p \<Rightarrow> (builder b)\<lparr>batch_changed := True, bu_added := bu_added (builder b) @ [(int ?n, p, cr_prompt_token_ids q, cr_req_id q)]\<rparr>"
  have lists: "lists_ok n b" using ok by (simp add: batch_ok_def)
  have none: "{int k | k. k < ?n \<and> req_ids b ! k = None} = {}" using log True by (simp add: log_ok_def Let_def)
  then have "dense b" by (intro all_rows_dense [OF lists]) auto
  then have n: "num_reqs b = int ?n" by (simp add: dense_def py_len_def)
  then have "register_add_request q b = Inr (int ?n, b\<lparr>builder := ?u\<rparr>)" using True room
    by (simp add: register_add_request_def pop_removed_def has_removed_def Let_def split: option.splits)
  moreover have "bu_removed ?u = []" using True by (simp split: option.splits)
  ultimately show ?thesis using room none n
    by (intro exI [of _ ?n] exI [of _ ?u]) (simp add: row_empty_def)
next
  case False
  define u where "u = ensure_removed_sorted (builder b)"
  have u: "sorted (rev (bu_removed u))" "distinct (bu_removed u)"
    "set (bu_removed u) = {int k | k. k < length (req_ids b) \<and> req_ids b ! k = None}" "is_removed_sorted u"
    unfolding u_def by (rule sorted_log [OF log])+
  have "set (bu_removed u) = set (bu_removed (builder b))" by (simp add: u_def ensure_removed_sorted_def)
  then have ne: "bu_removed u \<noteq> []" using False by (metis set_empty)
  then have "last (bu_removed u) \<in> set (bu_removed u)" by simp
  then obtain i where i: "last (bu_removed u) = int i" "i < length (req_ids b)" "req_ids b ! i = None" using u(3) by auto
  have li: "length (req_ids b) \<le> n" using ok by (simp add: batch_ok_def lists_ok_def)
  obtain xs where xs: "bu_removed u = xs @ [int i]" using ne i(1) by (metis append_butlast_last_id)
  have d: "distinct xs" "int i \<notin> set xs" using u(2) by (simp_all add: xs)
  have "sort xs = rev xs" using u(1) by (intro properties_for_sort) (simp_all add: xs)
  then have sorted: "xs = rev (sort xs)" by simp
  have set_xs: "set xs = {int k | k. k < length (req_ids b) \<and> req_ids b ! k = None} - {int i}"
    unfolding u(3) [symmetric] xs using d(2) by auto
  let ?u = "case cr_sampling_params q of None \<Rightarrow> u\<lparr>bu_removed := xs, batch_changed := True\<rparr>
     | Some p \<Rightarrow> u\<lparr>bu_removed := xs, batch_changed := True, bu_added := bu_added u @ [(int i, p, cr_prompt_token_ids q, cr_req_id q)]\<rparr>"
  have "register_add_request q b = Inr (int i, b\<lparr>builder := ?u\<rparr>)" using False i(2) li room
    by (simp add: register_add_request_def pop_removed_def has_removed_def Let_def u_def [symmetric] xs split: option.splits)
  moreover have "bu_removed ?u = xs" by (simp split: option.splits)
  ultimately show ?thesis using i li d(1) set_xs sorted
    using False by (intro exI [of _ i] exI [of _ ?u]) (simp add: row_empty_def)
qed

text \<open>The mask of a row with a list of allowed tokens.\<close>

lemma mask_row_spec:
  assumes "\<forall>t \<in> set ts. 0 \<le> t \<and> t < vocab"
  shows "mask_row vocab ts = Inr (map (\<lambda>k. int k \<notin> set ts) [0..<nat vocab])"
proof -
  have "rfold (\<lambda>t row. py_set row t False) ts row = Inr (map (\<lambda>k. row ! k \<and> int k \<notin> set ts) [0..<length row])"
    if "\<forall>t \<in> set ts. 0 \<le> t \<and> t < py_len row" for row
    using that
  proof (induction ts arbitrary: row)
    case Nil
    then show ?case by (simp add: map_nth)
  next
    case (Cons t ts)
    then obtain j where j: "t = int j" "j < length row" by (metis list.set_intros(1) nonneg_int_cases of_nat_less_iff py_len_def)
    have "rfold (\<lambda>t row. py_set row t False) ts (row[j := False]) =
      Inr (map (\<lambda>k. row[j := False] ! k \<and> int k \<notin> set ts) [0..<length row])"
      using Cons.IH [of "row[j := False]"] Cons.prems by (simp add: py_len_def)
    moreover have "map (\<lambda>k. row[j := False] ! k \<and> int k \<notin> set ts) [0..<length row] =
      map (\<lambda>k. row ! k \<and> int k \<notin> set (t # ts)) [0..<length row]"
      using j by (auto simp: nth_list_update)
    ultimately show ?case using j by (simp add: py_set_nth)
  qed
  from this [of "py_repeat True vocab"] show ?thesis using assms by (simp add: mask_row_def py_repeat_def py_len_def) force
qed

definition restricts :: "batch_sampling_params \<Rightarrow> bool" where
  "restricts p \<longleftrightarrow> bs_allowed_token_ids p \<noteq> None \<and> bs_allowed_token_ids p \<noteq> Some []"

definition params_row :: "(rat \<Rightarrow> rat) \<Rightarrow> int \<Rightarrow> batch_sampling_params \<Rightarrow> nat option \<Rightarrow> nat set \<Rightarrow> sampling_row" where
  "params_row f32 vocab p g stale =
     \<lparr>sr_temperature = (if bs_greedy p then 0 else f32 (bs_temperature p)), sr_top_p = f32 (bs_top_p p),
      sr_top_k = clip_top_k vocab (bs_top_k p), sr_frequency = f32 (bs_frequency_penalty p),
      sr_presence = f32 (bs_presence_penalty p), sr_repetition = f32 (bs_repetition_penalty p), sr_accepted = 1,
      sr_generator = g,
      sr_masked = (if restricts p then {t. int t < vocab \<and> int t \<notin> set (the (bs_allowed_token_ids p))} else stale),
      sr_bad_words = (if bs_bad_words_token_ids p = Some [] then None else bs_bad_words_token_ids p)\<rparr>"

lemma place_sampling:
  assumes ok: "sampling_ok n s" and i: "i < n" and clean: "sampling_clean s i"
    and allowed: "restricts p \<longrightarrow> (\<forall>t \<in> set (the (bs_allowed_token_ids p)). 0 \<le> t \<and> t < vocab)"
  shows "\<exists>s' acc. place_sampling_rows f32 (int n) vocab p g (int i) s = Inr s' \<and>
    py_set (num_accepted_tokens_cpu s') (int i) 1 = Inr acc \<and> sampling_ok n (s'\<lparr>num_accepted_tokens_cpu := acc\<rparr>) \<and>
    sampling_row_at (s'\<lparr>num_accepted_tokens_cpu := acc\<rparr>) i =
      params_row f32 vocab p g (masked_tokens (allowed_token_ids_mask_cpu s) i) \<and>
    (\<forall>k. k < n \<and> k \<noteq> i \<longrightarrow> sampling_row_at (s'\<lparr>num_accepted_tokens_cpu := acc\<rparr>) k = sampling_row_at s k) \<and>
    (\<forall>k. k \<noteq> i \<longrightarrow> sampling_clean (s'\<lparr>num_accepted_tokens_cpu := acc\<rparr>) k = sampling_clean s k) \<and>
    (allowed_token_ids_mask_cpu s' = None \<longleftrightarrow> \<not> restricts p \<and> allowed_token_ids_mask_cpu s = None)"
proof -
  let ?masks = "if restricts p then Some ((case allowed_token_ids_mask_cpu s of None \<Rightarrow> py_repeat (py_repeat False vocab) (int n)
      | Some rows \<Rightarrow> rows)[i := map (\<lambda>k. int k \<notin> set (the (bs_allowed_token_ids p))) [0..<nat vocab]])
    else allowed_token_ids_mask_cpu s"
  let ?s = "s\<lparr>temperature_cpu := (temperature_cpu s)[i := if bs_greedy p then 0 else f32 (bs_temperature p)],
     top_p_cpu := (top_p_cpu s)[i := f32 (bs_top_p p)], top_k_cpu := (top_k_cpu s)[i := clip_top_k vocab (bs_top_k p)],
     frequency_penalties_cpu := (frequency_penalties_cpu s)[i := f32 (bs_frequency_penalty p)],
     presence_penalties_cpu := (presence_penalties_cpu s)[i := f32 (bs_presence_penalty p)],
     repetition_penalties_cpu := (repetition_penalties_cpu s)[i := f32 (bs_repetition_penalty p)],
     generators := (case g of None \<Rightarrow> generators s | Some g \<Rightarrow> AList.update (int i) g (generators s)),
     allowed_token_ids_mask_cpu := ?masks,
     bad_words_token_ids := (case bs_bad_words_token_ids p of Some (w # ws) \<Rightarrow> AList.update (int i) (w # ws) (bad_words_token_ids s)
        | _ \<Rightarrow> bad_words_token_ids s)\<rparr>"
  have masks: "(case bs_allowed_token_ids p of
      Some (t # ts) \<Rightarrow> rbind (set_allowed_tokens (int n) vocab (int i) (t # ts) (allowed_token_ids_mask_cpu s)) (\<lambda>rows. Inr (Some rows))
    | _ \<Rightarrow> Inr (allowed_token_ids_mask_cpu s)) = Inr ?masks"
  proof (cases "bs_allowed_token_ids p")
    case (Some ts)
    show ?thesis
    proof (cases ts)
      case (Cons t us)
      then have r: "restricts p" "mask_row vocab ts = Inr (map (\<lambda>k. int k \<notin> set ts) [0..<nat vocab])"
        using Some allowed by (simp_all add: restricts_def mask_row_spec)
      have "length (case allowed_token_ids_mask_cpu s of None \<Rightarrow> py_repeat (py_repeat False vocab) (int n) | Some rows \<Rightarrow> rows) = n"
        using ok by (simp add: sampling_ok_def py_repeat_def split: option.splits)
      then show ?thesis using r Some Cons i by (simp add: set_allowed_tokens_def py_set_nth)
    qed (simp add: Some restricts_def)
  qed (simp add: restricts_def)
  have run: "place_sampling_rows f32 (int n) vocab p g (int i) s = Inr ?s"
    unfolding place_sampling_rows_def masks using ok i by (simp add: sampling_ok_def py_set_nth)
  have other: "masked_tokens ?masks k = masked_tokens (allowed_token_ids_mask_cpu s) k" if "k < n" "k \<noteq> i" for k
    using that i by (auto simp: masked_tokens_def py_repeat_def split: option.splits)
  have at_i: "masked_tokens ?masks i = (if restricts p then {t. int t < vocab \<and> int t \<notin> set (the (bs_allowed_token_ids p))}
      else masked_tokens (allowed_token_ids_mask_cpu s) i)"
    using i ok by (auto simp: masked_tokens_def py_repeat_def sampling_ok_def split: option.splits)
  have gens: "map_of (generators ?s) (int k) = (if k = i then g else map_of (generators s) (int k))" for k
    using clean by (auto simp: sampling_clean_def update_conv' split: option.splits)
  have bad: "map_of (bad_words_token_ids ?s) (int k) =
      (if k = i then if bs_bad_words_token_ids p = Some [] then None else bs_bad_words_token_ids p
       else map_of (bad_words_token_ids s) (int k))" for k
    using clean by (auto simp: sampling_clean_def update_conv' split: option.splits list.splits)
  have ms: "case ?masks of None \<Rightarrow> True | Some rows \<Rightarrow> length rows = n"
    using ok by (auto simp: sampling_ok_def py_repeat_def split: option.splits)
  let ?acc = "(num_accepted_tokens_cpu s)[i := 1]"
  have "py_set (num_accepted_tokens_cpu ?s) (int i) 1 = Inr ?acc" using ok i by (simp add: sampling_ok_def py_set_nth)
  moreover have "sampling_ok n (?s\<lparr>num_accepted_tokens_cpu := ?acc\<rparr>)" using ok ms by (simp add: sampling_ok_def)
  moreover have "sampling_row_at (?s\<lparr>num_accepted_tokens_cpu := ?acc\<rparr>) i =
      params_row f32 vocab p g (masked_tokens (allowed_token_ids_mask_cpu s) i)"
    using ok i gens [of i] bad [of i] at_i by (simp add: sampling_row_at_def params_row_def sampling_ok_def)
  moreover have "sampling_row_at (?s\<lparr>num_accepted_tokens_cpu := ?acc\<rparr>) k = sampling_row_at s k" if "k < n" "k \<noteq> i" for k
    using gens [of k] bad [of k] other [OF that] that by (simp add: sampling_row_at_def)
  moreover have "sampling_clean (?s\<lparr>num_accepted_tokens_cpu := ?acc\<rparr>) k = sampling_clean s k" if "k \<noteq> i" for k
    using gens [of k] bad [of k] that by (simp add: sampling_clean_def)
  moreover have "allowed_token_ids_mask_cpu ?s = None \<longleftrightarrow> \<not> restricts p \<and> allowed_token_ids_mask_cpu s = None" by simp
  ultimately show ?thesis using run by (intro exI [of _ ?s] exI [of _ ?acc]) blast
qed

text \<open>What a batch asks of a new request, and the row that it gets.\<close>

definition shape_ids :: "table_shape \<Rightarrow> int list \<Rightarrow> int list" where
  "shape_ids sh ids = (case sh of (hybrid, per, _) \<Rightarrow> if hybrid then map_to_kernel_blocks ids per else ids)"

lemma kernel_ids_shape: "kernel_ids t = shape_ids (table_shape_of t)"
  by (simp add: fun_eq_iff kernel_ids_def shape_ids_def table_shape_of_def)

lemma same_shapes: "list_all2 same_shape ts ts' \<Longrightarrow> map table_shape_of ts' = map table_shape_of ts"
  by (induction rule: list_all2_induct) (simp_all add: same_shape_def table_shape_of_def)

definition request_fits :: "nat \<Rightarrow> int \<Rightarrow> table_shape list \<Rightarrow> cached_request \<Rightarrow> bool" where
  "request_fits m vocab shapes q \<longleftrightarrow>
     (case cr_prompt_token_ids q of None \<Rightarrow> False
      | Some ts \<Rightarrow> cr_num_prompt_tokens q = py_len ts \<and> length ts + length (cr_output_token_ids q) \<le> m) \<and>
     cr_prompt_embeds q = None \<and>
     (case cr_sampling_params q of None \<Rightarrow> False
      | Some p \<Rightarrow> restricts p \<longrightarrow> (\<forall>t \<in> set (the (bs_allowed_token_ids p)). 0 \<le> t \<and> t < vocab)) \<and>
     (case cr_lora_request q of None \<Rightarrow> True | Some (x, _) \<Rightarrow> x \<noteq> 0) \<and>
     length shapes \<le> length (cr_block_ids q) \<and>
     (\<forall>j < length shapes. py_len (shape_ids (shapes ! j) (cr_block_ids q ! j)) \<le> snd (snd (shapes ! j)))"

definition new_row :: "(rat \<Rightarrow> rat) \<Rightarrow> int \<Rightarrow> table_shape list \<Rightarrow> nat set \<Rightarrow> cached_request \<Rightarrow> row_state" where
  "new_row f32 vocab shapes stale q =
     \<lparr>rv_tokens = the (cr_prompt_token_ids q) @ cr_output_token_ids q,
      rv_is_token = replicate (nat (cr_num_tokens q)) True, rv_embeds = None, rv_no_spec = cr_num_tokens q,
      rv_num_prompt = cr_num_prompt_tokens q, rv_num_computed = cr_num_computed_tokens q,
      rv_blocks = map2 shape_ids shapes (cr_block_ids q),
      rv_lora = (case cr_lora_request q of None \<Rightarrow> 0 | Some (x, _) \<Rightarrow> x), rv_spec = [], rv_output = Some (cr_req_id q),
      rv_sampling = params_row f32 vocab (the (cr_sampling_params q)) (cr_generator q) stale\<rparr>"

lemma np_fill_prefix:
  "n + k \<le> length row \<Longrightarrow> take (n + k) (np_fill (int n) (int n + int k) True (np_fill 0 (int n) True row)) = replicate (n + k) True"
  by (rule nth_equalityI) (auto simp: np_fill_def)

lemma on_row_twice:
  "i < length xs \<Longrightarrow> f (xs ! i) = Inr y \<Longrightarrow> g y = Inr z \<Longrightarrow>
   rbind (on_row (int i) f xs) (\<lambda>ys. rbind (on_row (int i) g ys) h) = h (xs[i := z])"
  by (simp add: on_row_nth)

lemma place_tokens_spec:
  assumes arr: "arrays_ok n m b" and i: "i < n" and fits: "request_fits m vocab (map table_shape_of (block_table b)) q"
  shows "\<exists>row flags tabs. place_tokens q (int i) b = Inr (b\<lparr>num_prompt_tokens_cpu := (num_prompt_tokens_cpu b)[i := cr_num_prompt_tokens q],
      token_ids_cpu := (token_ids_cpu b)[i := row], is_token_ids := (is_token_ids b)[i := flags],
      num_tokens_no_spec := (num_tokens_no_spec b)[i := cr_num_tokens q],
      num_computed_tokens_cpu := (num_computed_tokens_cpu b)[i := cr_num_computed_tokens q], block_table := tabs\<rparr>) \<and>
    length row = m \<and> take (nat (cr_num_tokens q)) row = the (cr_prompt_token_ids q) @ cr_output_token_ids q \<and>
    length flags = m \<and> take (nat (cr_num_tokens q)) flags = replicate (nat (cr_num_tokens q)) True \<and>
    tables_ok n tabs \<and> map table_shape_of tabs = map table_shape_of (block_table b) \<and>
    rows_of tabs i = map2 shape_ids (map table_shape_of (block_table b)) (cr_block_ids q) \<and>
    (\<forall>k. k \<noteq> i \<longrightarrow> rows_of tabs k = rows_of (block_table b) k)"
proof -
  obtain ts where ts: "cr_prompt_token_ids q = Some ts" "cr_num_prompt_tokens q = py_len ts" "cr_prompt_embeds q = None"
    "length ts + length (cr_output_token_ids q) \<le> m" using fits by (auto simp: request_fits_def split: option.splits)
  let ?out = "cr_output_token_ids q" and ?row = "token_ids_cpu b ! i" and ?flags = "is_token_ids b ! i"
  have l: "length ?row = m" "length ?flags = m" "i < length (token_ids_cpu b)" "i < length (is_token_ids b)"
    using arr i by (simp_all add: arrays_ok_def)
  have "tables_ok n (block_table b)" using arr by (simp add: arrays_ok_def)
  moreover have "length (block_table b) \<le> length (cr_block_ids q)" using fits by (simp add: request_fits_def)
  moreover have "\<forall>j < length (block_table b). py_len (kernel_ids (block_table b ! j) (cr_block_ids q ! j)) \<le>
      kt_max_num_blocks_per_req (block_table b ! j)"
    using fits by (auto simp: request_fits_def kernel_ids_shape) (simp add: table_shape_of_def)
  ultimately obtain tabs where tabs: "add_row (cr_block_ids q) (int i) (block_table b) = Inr tabs" "tables_ok n tabs"
    "list_all2 same_shape (block_table b) tabs" "rows_of tabs i = map2 kernel_ids (block_table b) (cr_block_ids q)"
    "\<forall>k. k \<noteq> i \<longrightarrow> rows_of tabs k = rows_of (block_table b) k"
    using add_row_all [of n "block_table b" i "cr_block_ids q"] i by blast
  let ?toks = "ts @ ?out @ drop (length ts + length ?out) ?row"
  let ?fl = "np_fill (py_len ts) (py_len ts + py_len ?out) True (np_fill 0 (py_len ts) True ?flags)"
  have w1: "np_write ?row 0 ts = Inr (ts @ drop (length ts) ?row)" using l ts(4) np_write_fits [of 0 ts ?row] by (simp add: py_len_def)
  have w2: "np_write (ts @ drop (length ts) ?row) (py_len ts) ?out = Inr ?toks"
    using l ts(4) np_write_fits [of "py_len ts" ?out "ts @ drop (length ts) ?row"] by (simp add: py_len_def nat_add_distrib add.commute)
  have run: "place_tokens q (int i) b = Inr (b\<lparr>num_prompt_tokens_cpu := (num_prompt_tokens_cpu b)[i := cr_num_prompt_tokens q],
      token_ids_cpu := (token_ids_cpu b)[i := ?toks], is_token_ids := (is_token_ids b)[i := ?fl],
      num_tokens_no_spec := (num_tokens_no_spec b)[i := cr_num_tokens q],
      num_computed_tokens_cpu := (num_computed_tokens_cpu b)[i := cr_num_computed_tokens q], block_table := tabs\<rparr>)"
    using arr i l ts w1 w2 tabs(1)
    by (simp add: place_tokens_def length_from_prompt_token_ids_or_embeds_def arrays_ok_def py_set_nth on_row_nth Let_def)
  have n: "nat (cr_num_tokens q) = length ts + length ?out" by (simp add: cr_num_tokens_def ts(2) py_len_def nat_add_distrib)
  have "take (length ts + length ?out) ?fl = replicate (length ts + length ?out) True"
    using np_fill_prefix [of "length ts" "length ?out" ?flags] l ts(4) by (simp add: py_len_def)
  moreover have "rows_of tabs i = map2 shape_ids (map table_shape_of (block_table b)) (cr_block_ids q)"
    by (simp add: tabs(4) kernel_ids_shape zip_map1 split_def comp_def)
  moreover have "length ?toks = m" using l ts(4) by simp
  moreover have "length ?fl = m" using l by (simp add: np_fill_def)
  moreover have "take (nat (cr_num_tokens q)) ?toks = ts @ ?out" by (simp add: n)
  ultimately show ?thesis using run tabs(2,5) same_shapes [OF tabs(3)] ts(1) n
    by (intro exI [of _ ?toks] exI [of _ ?fl] exI [of _ tabs]) (simp del: take_append)
qed

lemma place_id_spec:
  assumes lists: "lists_ok n b" and i: "i \<le> length (req_ids b)" "i < n" "row_empty b i" and new: "map_of (req_id_to_index b) r = None"
    and rows: "\<And>k. row_ok b k"
  shows "\<exists>ids specs. place_id r (int i) b = Inr (b\<lparr>req_ids := ids, req_output_token_ids := ids, spec_token_ids_of_rows := specs,
      req_id_to_index := AList.update r (int i) (req_id_to_index b)\<rparr>) \<and>
    lists_ok n (b\<lparr>req_ids := ids, req_output_token_ids := ids, spec_token_ids_of_rows := specs,
      req_id_to_index := AList.update r (int i) (req_id_to_index b)\<rparr>) \<and>
    i < length ids \<and> ids ! i = Some r \<and> specs ! i = [] \<and>
    (\<forall>k. k \<noteq> i \<longrightarrow> (k < length ids \<longleftrightarrow> k < length (req_ids b)) \<and> (k < length (req_ids b) \<longrightarrow> ids ! k = req_ids b ! k) \<and>
      (k < length (req_ids b) \<longrightarrow> specs ! k = spec_token_ids_of_rows b ! k) \<and>
      (k < length specs \<longrightarrow> specs ! k = [] \<or> k < length (spec_token_ids_of_rows b) \<and> specs ! k = spec_token_ids_of_rows b ! k))"
proof (cases "i = length (req_ids b)")
  case True
  let ?specs = "spec_token_ids_of_rows b"
  have ls: "length (req_ids b) \<le> length ?specs" and idx: "ids_indexed (req_ids b) (req_id_to_index b)"
    and outs: "req_output_token_ids b = req_ids b" using lists by (simp_all add: lists_ok_def)
  have "i < length ?specs \<Longrightarrow> ?specs ! i = []" using rows [of i] i(3) by (simp add: row_ok_def)
  then have "(?specs @ [[]]) ! i = []" using ls True by (cases "i < length ?specs") (simp_all add: nth_append)
  then show ?thesis using True i(2) ls indexed_append [OF idx new] outs
    by (intro exI [of _ "req_ids b @ [Some r]"] exI [of _ "?specs @ [[]]"])
      (auto simp: place_id_def py_len_def lists_ok_def nth_append)
next
  case False
  let ?specs = "spec_token_ids_of_rows b"
  have ls: "length (req_ids b) \<le> length ?specs" "length (req_ids b) \<le> n" and idx: "ids_indexed (req_ids b) (req_id_to_index b)"
    and outs: "req_output_token_ids b = req_ids b" using lists by (simp_all add: lists_ok_def)
  have li: "i < length (req_ids b)" "req_ids b ! i = None" using False i by (simp_all add: row_empty_def)
  show ?thesis using False li ls indexed_put [OF idx li new] outs
    by (intro exI [of _ "(req_ids b)[i := Some r]"] exI [of _ "?specs[i := []]"])
      (simp add: place_id_def py_len_def lists_ok_def py_set_nth)
qed

definition lora_id_of :: "cached_request \<Rightarrow> int" where
  "lora_id_of q = (case cr_lora_request q of None \<Rightarrow> 0 | Some (x, _) \<Rightarrow> x)"

lemma place_lora_spec:
  assumes i: "i < length (request_lora_mapping b)" and fits: "request_fits m vocab shapes q"
  shows "\<exists>ds ls. place_lora q (int i) b = Inr (b\<lparr>request_lora_mapping := (request_lora_mapping b)[i := lora_id_of q],
      lora_id_to_request_ids := ds, lora_id_to_lora_request := ls\<rparr>) \<and>
    (\<forall>y. map_of ds y = (if y = lora_id_of q \<and> y \<noteq> 0
       then Some (insert (cr_req_id q) (case map_of (lora_id_to_request_ids b) y of None \<Rightarrow> {} | Some A \<Rightarrow> A))
       else map_of (lora_id_to_request_ids b) y)) \<and>
    (\<forall>y. (map_of ls y = None) = (if y = lora_id_of q \<and> y \<noteq> 0 then False else map_of (lora_id_to_lora_request b) y = None))"
proof (cases "cr_lora_request q")
  case None
  then show ?thesis using i
    by (intro exI [of _ "lora_id_to_request_ids b"] exI [of _ "lora_id_to_lora_request b"])
      (simp add: place_lora_def lora_id_of_def py_set_nth)
next
  case (Some xn)
  then obtain x name where x: "cr_lora_request q = Some (x, name)" "x \<noteq> 0" using fits by (cases xn) (simp add: request_fits_def)
  then show ?thesis using i
    by (intro exI [of _ "AList.update x (insert (cr_req_id q) (dict_value x {} (lora_id_to_request_ids b))) (lora_id_to_request_ids b)"]
        exI [of _ "AList.update x name (lora_id_to_lora_request b)"])
      (simp add: place_lora_def lora_id_of_def py_set_nth update_conv' dict_value_def)
qed

lemma length_update_new: "map_of d k = None \<Longrightarrow> length (AList.update k v d) = Suc (length d)"
  by (induction d) (auto split: if_splits)

lemma add_spec:
  assumes ok: "batch_ok n m b" and log: "log_ok b" and lora: "lora_ok b" and max: "max_num_reqs b = int n"
    and room: "num_reqs b < int n" and fits: "request_fits m (vocab_size b) (map table_shape_of (block_table b)) q"
    and fresh: "batch_view b (cr_req_id q) = None"
  shows "\<exists>i b'. batch_add_request f32 q b = Inr (int i, b') \<and> batch_ok n m b' \<and> log_ok b' \<and> lora_ok b' \<and>
    max_num_reqs b' = int n \<and> vocab_size b' = vocab_size b \<and> num_reqs b' = num_reqs b + 1 \<and>
    map table_shape_of (block_table b') = map table_shape_of (block_table b) \<and>
    batch_view b' = (batch_view b)(cr_req_id q \<mapsto> new_row f32 (vocab_size b) (map table_shape_of (block_table b))
      (masked_tokens (allowed_token_ids_mask_cpu (samp b)) i) q) \<and>
    (bu_removed (builder b) = [] \<longrightarrow> i = length (req_ids b)) \<and>
    sets b' = place_sampling_sets (vocab_size b) (the (cr_sampling_params q)) (cr_req_id q) (sets b) \<and>
    (allowed_token_ids_mask_cpu (samp b') = None \<longleftrightarrow>
      \<not> restricts (the (cr_sampling_params q)) \<and> allowed_token_ids_mask_cpu (samp b) = None) \<and>
    logits_processing_needs_token_ids b' = logits_processing_needs_token_ids b"
proof -
  let ?r = "cr_req_id q" and ?shapes = "map table_shape_of (block_table b)"
  have np: "\<not> is_pooling_model b" and arr: "arrays_ok n m b" and lists: "lists_ok n b" and rows: "\<And>k. row_ok b k"
    using ok by (simp_all add: batch_ok_def)
  have idx: "ids_indexed (req_ids b) (req_id_to_index b)" using lists by (simp add: lists_ok_def)
  have new: "map_of (req_id_to_index b) ?r = None" using fresh by (simp add: batch_view_def)
  from register_spec [OF ok log, of q] max room obtain i u where reg: "register_add_request q b = Inr (int i, b\<lparr>builder := u\<rparr>)"
    and i: "i < n" "i \<le> length (req_ids b)" "row_empty b i" and u: "distinct (bu_removed u)"
    "set (bu_removed u) = {int k | k. k < length (req_ids b) \<and> req_ids b ! k = None} - {int i}"
    "is_removed_sorted u \<longrightarrow> bu_removed u = rev (sort (bu_removed u))"
    and at_end: "bu_removed (builder b) = [] \<longrightarrow> i = length (req_ids b)" by auto
  have "lists_ok n (b\<lparr>builder := u\<rparr>)" "row_empty (b\<lparr>builder := u\<rparr>) i" "\<And>k. row_ok (b\<lparr>builder := u\<rparr>) k"
    using lists i rows by (simp_all add: lists_ok_def row_empty_def row_ok_def)
  from place_id_spec [OF this(1) _ i(1) this(2) _ this(3), of ?r] i(2) new obtain ids specs where
    pid: "place_id ?r (int i) (b\<lparr>builder := u\<rparr>) = Inr (b\<lparr>builder := u, req_ids := ids, req_output_token_ids := ids,
      spec_token_ids_of_rows := specs, req_id_to_index := AList.update ?r (int i) (req_id_to_index b)\<rparr>)"
    and lists': "lists_ok n (b\<lparr>builder := u, req_ids := ids, req_output_token_ids := ids, spec_token_ids_of_rows := specs,
      req_id_to_index := AList.update ?r (int i) (req_id_to_index b)\<rparr>)"
    and ids: "i < length ids" "ids ! i = Some ?r" "specs ! i = []"
    and other: "\<And>k. k \<noteq> i \<Longrightarrow> (k < length ids \<longleftrightarrow> k < length (req_ids b)) \<and> (k < length (req_ids b) \<longrightarrow> ids ! k = req_ids b ! k) \<and>
      (k < length (req_ids b) \<longrightarrow> specs ! k = spec_token_ids_of_rows b ! k) \<and>
      (k < length specs \<longrightarrow> specs ! k = [] \<or> k < length (spec_token_ids_of_rows b) \<and> specs ! k = spec_token_ids_of_rows b ! k)"
    by auto
  let ?b2 = "b\<lparr>builder := u, req_ids := ids, req_output_token_ids := ids, spec_token_ids_of_rows := specs,
      req_id_to_index := AList.update ?r (int i) (req_id_to_index b)\<rparr>"
  have "arrays_ok n m ?b2" using arr by (simp add: arrays_ok_def)
  from place_tokens_spec [OF this i(1), of "vocab_size b" q] fits obtain row flags tabs where
    pt: "place_tokens q (int i) ?b2 = Inr (?b2\<lparr>num_prompt_tokens_cpu := (num_prompt_tokens_cpu b)[i := cr_num_prompt_tokens q],
      token_ids_cpu := (token_ids_cpu b)[i := row], is_token_ids := (is_token_ids b)[i := flags],
      num_tokens_no_spec := (num_tokens_no_spec b)[i := cr_num_tokens q],
      num_computed_tokens_cpu := (num_computed_tokens_cpu b)[i := cr_num_computed_tokens q], block_table := tabs\<rparr>)"
    and row: "length row = m" "take (nat (cr_num_tokens q)) row = the (cr_prompt_token_ids q) @ cr_output_token_ids q"
    "length flags = m" "take (nat (cr_num_tokens q)) flags = replicate (nat (cr_num_tokens q)) True"
    and tabs: "tables_ok n tabs" "map table_shape_of tabs = ?shapes" "rows_of tabs i = map2 shape_ids ?shapes (cr_block_ids q)"
    "\<forall>k. k \<noteq> i \<longrightarrow> rows_of tabs k = rows_of (block_table b) k" by auto
  obtain p where p: "cr_sampling_params q = Some p" "restricts p \<longrightarrow> (\<forall>t \<in> set (the (bs_allowed_token_ids p)). 0 \<le> t \<and> t < vocab_size b)"
    using fits by (auto simp: request_fits_def split: option.splits)
  have samp: "sampling_ok n (samp b)" "sampling_clean (samp b) i" using arr rows [of i] i(3) by (simp_all add: arrays_ok_def row_ok_def)
  let ?stale = "masked_tokens (allowed_token_ids_mask_cpu (samp b)) i"
  from place_sampling [where p = p and vocab = "vocab_size b" and ?f32.0 = f32 and g = "cr_generator q", OF samp(1) i(1) samp(2) p(2)] obtain sr acc where
    sr: "place_sampling_rows f32 (int n) (vocab_size b) p (cr_generator q) (int i) (samp b) = Inr sr"
    "py_set (num_accepted_tokens_cpu sr) (int i) 1 = Inr acc"
    and so: "sampling_ok n (sr\<lparr>num_accepted_tokens_cpu := acc\<rparr>)"
    "sampling_row_at (sr\<lparr>num_accepted_tokens_cpu := acc\<rparr>) i = params_row f32 (vocab_size b) p (cr_generator q) ?stale"
    "\<forall>k. k < n \<and> k \<noteq> i \<longrightarrow> sampling_row_at (sr\<lparr>num_accepted_tokens_cpu := acc\<rparr>) k = sampling_row_at (samp b) k"
    "\<forall>k. k \<noteq> i \<longrightarrow> sampling_clean (sr\<lparr>num_accepted_tokens_cpu := acc\<rparr>) k = sampling_clean (samp b) k"
    "allowed_token_ids_mask_cpu sr = None \<longleftrightarrow> \<not> restricts p \<and> allowed_token_ids_mask_cpu (samp b) = None" by (elim exE conjE) (rule that)
  let ?b4 = "?b2\<lparr>num_prompt_tokens_cpu := (num_prompt_tokens_cpu b)[i := cr_num_prompt_tokens q],
      token_ids_cpu := (token_ids_cpu b)[i := row], is_token_ids := (is_token_ids b)[i := flags],
      num_tokens_no_spec := (num_tokens_no_spec b)[i := cr_num_tokens q],
      num_computed_tokens_cpu := (num_computed_tokens_cpu b)[i := cr_num_computed_tokens q], block_table := tabs,
      sets := place_sampling_sets (vocab_size b) p ?r (sets b), samp := sr\<lparr>num_accepted_tokens_cpu := acc\<rparr>\<rparr>"
  have "i < length (request_lora_mapping ?b4)" using arr i(1) by (simp add: arrays_ok_def)
  from place_lora_spec [OF this fits] obtain ds ls where
    pl: "place_lora q (int i) ?b4 = Inr (?b4\<lparr>request_lora_mapping := (request_lora_mapping b)[i := lora_id_of q],
      lora_id_to_request_ids := ds, lora_id_to_lora_request := ls\<rparr>)"
    and ds: "\<forall>y. map_of ds y = (if y = lora_id_of q \<and> y \<noteq> 0
       then Some (insert ?r (case map_of (lora_id_to_request_ids b) y of None \<Rightarrow> {} | Some A \<Rightarrow> A))
       else map_of (lora_id_to_request_ids b) y)"
    and ls: "\<forall>y. (map_of ls y = None) = (if y = lora_id_of q \<and> y \<noteq> 0 then False else map_of (lora_id_to_lora_request b) y = None)"
    by auto
  let ?b' = "?b4\<lparr>request_lora_mapping := (request_lora_mapping b)[i := lora_id_of q],
      lora_id_to_request_ids := ds, lora_id_to_lora_request := ls\<rparr>"
  have run: "batch_add_request f32 q b = Inr (int i, ?b')"
    using reg pid pt p(1) max sr pl by (simp add: batch_add_request_def place_params_def)
  have tok0: "0 \<le> cr_num_tokens q" using fits by (auto simp: request_fits_def cr_num_tokens_def py_len_def split: option.splits)
  have arr': "arrays_ok n m ?b'" using arr i(1) row tabs(1) so(1) tok0 by (auto simp: arrays_ok_def nth_list_update)
  have lists'': "lists_ok n ?b'" using lists' by (simp add: lists_ok_def)
  have at_i: "row_view ?b' i = new_row f32 (vocab_size b) ?shapes ?stale q"
    using arr i(1) row(2,4) tabs(3) so(2) ids p(1)
    by (simp add: row_view_def new_row_def Let_def arrays_ok_def lora_id_of_def set_replicate_conv_if)
  have at_k: "row_view ?b' k = row_view b k" if "k \<noteq> i" "k < length (req_ids b)" for k
  proof -
    have "k < n" "req_output_token_ids b = req_ids b" using that(2) lists by (simp_all add: lists_ok_def)
    then show ?thesis using that other [of k] tabs(4) so(3) by (simp add: row_view_def Let_def cong: if_cong)
  qed
  have rows': "row_ok ?b' k" for k
  proof (cases "k = i")
    case True
    then show ?thesis using ids arr i(1) row(4) by (simp add: row_ok_def row_empty_def arrays_ok_def set_replicate_conv_if)
  next
    case False
    then have "row_empty ?b' k = row_empty b k" using other [of k] by (auto simp: row_empty_def)
    then show ?thesis using False rows [of k] other [of k] so(4) by (auto simp: row_ok_def)
  qed
  have ok': "batch_ok n m ?b'" using np arr' lists'' rows' by (simp add: batch_ok_def)
  have "{int k | k. k < length ids \<and> ids ! k = None} = {int k | k. k < length (req_ids b) \<and> req_ids b ! k = None} - {int i}"
  proof -
    have live: "(k < length ids \<and> ids ! k = None) = (k < length (req_ids b) \<and> req_ids b ! k = None \<and> k \<noteq> i)" for k
      using other [of k] ids(2) by (cases "k = i") auto
    show ?thesis unfolding live by auto
  qed
  then have log': "log_ok ?b'" using u by (simp add: log_ok_def Let_def)
  have view': "batch_view ?b' = (batch_view b)(?r \<mapsto> new_row f32 (vocab_size b) ?shapes ?stale q)"
  proof
    fix x
    show "batch_view ?b' x = ((batch_view b)(?r \<mapsto> new_row f32 (vocab_size b) ?shapes ?stale q)) x"
    proof (cases "x = ?r \<or> map_of (req_id_to_index b) x = None")
      case True
      then show ?thesis using at_i by (auto simp: batch_view_def update_conv')
    next
      case False
      then obtain k where k: "map_of (req_id_to_index b) x = Some (int k)" "k < length (req_ids b)" "req_ids b ! k = Some x"
        using indexed_at [OF idx] by blast
      then have "k \<noteq> i" using i(3) by (auto simp: row_empty_def)
      then show ?thesis using False k(1) at_k [OF _ k(2)] by (simp add: batch_view_def update_conv')
    qed
  qed
  have "rv_lora (new_row f32 (vocab_size b) ?shapes ?stale q) = lora_id_of q" by (simp add: new_row_def lora_id_of_def)
  then have users: "lora_users ?b' y = (if y = lora_id_of q then insert ?r (lora_users b y) else lora_users b y)" for y
    using fresh unfolding lora_users_def view' by auto
  have lora': "lora_ok ?b'" using lora ds ls unfolding lora_ok_def users by (auto simp: lora_users_def)
  have "num_reqs ?b' = num_reqs b + 1" using new by (simp add: num_reqs_def py_len_def length_update_new)
  then show ?thesis using run ok' log' lora' view' max tabs(2) at_end p(1) so(5) by (intro exI [of _ i] exI [of _ ?b']) simp
qed

end
