(* ===== verification/Batch_Step.thy ===== *)
theory Batch_Step
  imports Batch_Update
begin

text \<open>
  A whole step of the persistent batch: the requests that left are removed, new ones are added,
  the gaps are closed, and the sampler gets its metadata.
\<close>

section \<open>Draft tokens\<close>

definition with_drafts :: "int list \<Rightarrow> row_state \<Rightarrow> row_state" where
  "with_drafts sp v = v\<lparr>rv_spec := sp, rv_tokens := take (nat (rv_no_spec v)) (rv_tokens v) @ sp\<rparr>"

lemma drafts_spec:
  assumes ok: "batch_ok n m b" and v: "batch_view b (cr_req_id q) = Some v" and sp: "dict_value (cr_req_id q) [] drafts = sp"
    and room: "nat (rv_no_spec v) + length sp \<le> m"
  shows "\<exists>b'. update_req_spec_token_ids q drafts b = Inr (q\<lparr>prev_num_draft_len := py_len sp\<rparr>, b') \<and> batch_ok n m b' \<and>
    batch_view b' = (batch_view b)(cr_req_id q \<mapsto> with_drafts sp v) \<and>
    (\<exists>specs toks. b' = b\<lparr>spec_token_ids_of_rows := specs, token_ids_cpu := toks\<rparr>)"
proof -
  have arr: "arrays_ok n m b" and lists: "lists_ok n b" and rows: "\<And>k. row_ok b k" using ok by (simp_all add: batch_ok_def)
  obtain k where k: "k < length (req_ids b)" "req_ids b ! k = Some (cr_req_id q)" "v = row_view b k" using view_row [OF lists v] by blast
  have idx: "ids_indexed (req_ids b) (req_id_to_index b)" using lists by (simp add: lists_ok_def)
  have kn: "k < n" "k < length (spec_token_ids_of_rows b)" using k(1) lists by (simp_all add: lists_ok_def)
  let ?s = "num_tokens_no_spec b ! k" and ?row = "token_ids_cpu b ! k"
  have s: "0 \<le> ?s" "rv_no_spec v = ?s" "length ?row = m" using arr kn k(3) by (simp_all add: arrays_ok_def row_view_def Let_def)
  let ?row' = "take (nat ?s) ?row @ sp @ drop (nat ?s + length sp) ?row"
  define toks where "toks = (if sp = [] then token_ids_cpu b else (token_ids_cpu b)[k := ?row'])"
  let ?b' = "b\<lparr>spec_token_ids_of_rows := (spec_token_ids_of_rows b)[k := sp], token_ids_cpu := toks\<rparr>"
  have "np_write ?row ?s sp = Inr ?row'"
    using np_write_fits [of ?s sp ?row] s room by (simp add: py_len_def nat_add_distrib)
  then have run: "update_req_spec_token_ids q drafts b = Inr (q\<lparr>prev_num_draft_len := py_len sp\<rparr>, ?b')"
    using indexed_of [OF idx k(1,2)] kn arr sp
    by (simp add: update_req_spec_token_ids_def py_set_nth py_get_nth on_row_nth arrays_ok_def Let_def toks_def)
  have row': "toks ! k = ?row'" "length toks = n" "\<And>j. j \<noteq> k \<Longrightarrow> toks ! j = token_ids_cpu b ! j"
    using arr kn by (simp_all add: arrays_ok_def toks_def)
  have at_k: "row_view ?b' k = with_drafts sp v"
    using kn s room row'(1) by (simp add: row_view_def with_drafts_def Let_def k(3) cong: if_cong)
  have at_j: "row_view ?b' j = row_view b j" if "j \<noteq> k" for j using that row'(3) by (simp add: row_view_def Let_def cong: if_cong)
  have "length (toks ! j) = m" if "j < n" for j
    using that arr row' s room by (cases "j = k") (simp_all add: arrays_ok_def)
  then have "arrays_ok n m ?b'" using arr row'(2) by (simp add: arrays_ok_def)
  moreover have "lists_ok n ?b'" using lists by (simp add: lists_ok_def)
  moreover have "row_ok ?b' j" for j
    using rows [of j] k by (cases "j = k") (simp_all add: row_ok_def row_empty_def)
  ultimately have "batch_ok n m ?b'" using ok by (simp add: batch_ok_def)
  moreover have "batch_view ?b' = (batch_view b)(cr_req_id q \<mapsto> with_drafts sp v)"
  proof
    fix x
    show "batch_view ?b' x = ((batch_view b)(cr_req_id q \<mapsto> with_drafts sp v)) x"
    proof (cases "map_of (req_id_to_index b) x")
      case None
      then show ?thesis using indexed_of [OF idx k(1,2)] by (auto simp: batch_view_def)
    next
      case (Some i)
      then obtain j where j: "i = int j" "j < length (req_ids b)" "req_ids b ! j = Some x" using indexed_at [OF idx] by blast
      show ?thesis
      proof (cases "x = cr_req_id q")
        case True
        then have "j = k" using indexed_unique [OF idx j(2) k(1) j(3)] k(2) by simp
        then show ?thesis using Some j(1) True at_k by (simp add: batch_view_def)
      next
        case False
        then have "j \<noteq> k" using j(3) k(2) by auto
        then show ?thesis using Some j(1) False at_j by (simp add: batch_view_def)
      qed
    qed
  qed
  ultimately show ?thesis using run by (intro exI [of _ ?b']) auto
qed

section \<open>The sets of requests\<close>

definition sets_ok :: "input_batch \<Rightarrow> bool" where
  "sets_ok b \<longleftrightarrow>
     (\<forall>r \<in> frequency_penalties_reqs (sets b) \<union> presence_penalties_reqs (sets b) \<union> repetition_penalties_reqs (sets b).
        batch_view b r \<noteq> None) \<and>
     (has_allowed_token_ids (sets b) \<noteq> {} \<longrightarrow> allowed_token_ids_mask_cpu (samp b) \<noteq> None) \<and>
     True \<notin> set (logits_processing_needs_token_ids b)"

text \<open>
  Between the steps: the rows are dense, nothing is logged, and the batch has at most \<open>n\<close> rows of
  \<open>m\<close> tokens.
\<close>

definition step_ok :: "nat \<Rightarrow> nat \<Rightarrow> input_batch \<Rightarrow> bool" where
  "step_ok n m b \<longleftrightarrow> batch_ok n m b \<and> log_ok b \<and> lora_ok b \<and> sets_ok b \<and> max_num_reqs b = int n"

definition frame_of :: "input_batch \<Rightarrow> int \<times> table_shape list" where
  "frame_of b = (vocab_size b, map table_shape_of (block_table b))"

lemma num_reqs_dom: "batch_ok n m b \<Longrightarrow> num_reqs b = int (card (dom (batch_view b)))"
proof -
  assume "batch_ok n m b"
  then have d: "distinct (map fst (req_id_to_index b))" by (simp add: batch_ok_def lists_ok_def ids_indexed_def)
  have "dom (batch_view b) = dom (map_of (req_id_to_index b))" by (auto simp: batch_view_def dom_def)
  also have "\<dots> = set (map fst (req_id_to_index b))" by (simp add: dom_map_of_conv_image_fst)
  finally show ?thesis using distinct_card [OF d] by (simp add: num_reqs_def py_len_def)
qed

lemma finite_view: "finite (dom (batch_view b))"
proof -
  have "dom (batch_view b) = dom (map_of (req_id_to_index b))" by (auto simp: batch_view_def dom_def)
  then show ?thesis by (simp add: finite_dom_map_of)
qed

lemma remove_one:
  assumes ok: "step_ok n m b" and unsorted: "\<not> is_removed_sorted (builder b)"
  shows "\<exists>i b'. remove_request r b = Inr (i, b') \<and> step_ok n m b' \<and> \<not> is_removed_sorted (builder b') \<and>
    batch_view b' = (batch_view b)(r := None) \<and> frame_of b' = frame_of b"
proof (cases "map_of (req_id_to_index b) r")
  case None
  then have "(batch_view b)(r := None) = batch_view b" by (auto simp: batch_view_def)
  then show ?thesis using assms None by (simp add: remove_request_def)
next
  case (Some i)
  have b: "batch_ok n m b" "log_ok b" "lora_ok b" "sets_ok b" "max_num_reqs b = int n" using ok by (simp_all add: step_ok_def)
  obtain k where k: "k < length (req_ids b)" "req_ids b ! k = Some r"
    using Some indexed_at b(1) by (auto simp: batch_ok_def lists_ok_def dest: indexed_at)
  from remove_known [OF b(1,2,3) unsorted k] obtain b' where b': "remove_request r b = Inr (Some (int k), b')" "batch_ok n m b'"
    "log_ok b'" "lora_ok b'" "\<not> is_removed_sorted (builder b')" "batch_view b' = (batch_view b)(r := None)"
    "max_num_reqs b' = max_num_reqs b" "vocab_size b' = vocab_size b" "block_table b' = block_table b"
    "sets b' = remove_sampling_sets r (sets b)" "logits_processing_needs_token_ids b' = logits_processing_needs_token_ids b"
    "allowed_token_ids_mask_cpu (samp b') = map_option (\<lambda>rows. rows[k := map (\<lambda>_. False) (rows ! k)]) (allowed_token_ids_mask_cpu (samp b))"
    by auto
  have "sets_ok b'" using b(4) by (auto simp: sets_ok_def b'(6,10,11,12) remove_sampling_sets_def)
  then show ?thesis using b' b(5) by (intro exI [of _ "Some (int k)"] exI [of _ b']) (simp add: step_ok_def frame_of_def)
qed

lemma remove_all:
  assumes "step_ok n m b" and "\<not> is_removed_sorted (builder b)"
  shows "\<exists>b'. remove_requests rs b = Inr b' \<and> step_ok n m b' \<and> batch_view b' = (batch_view b) |` (- set rs) \<and>
    \<not> is_removed_sorted (builder b') \<and> frame_of b' = frame_of b"
  using assms
proof (induction rs arbitrary: b)
  case Nil
  then show ?case by (simp add: remove_requests_def)
next
  case (Cons r rs)
  from remove_one [OF Cons.prems, of r] obtain i b1 where b1: "remove_request r b = Inr (i, b1)" "step_ok n m b1"
    "\<not> is_removed_sorted (builder b1)" "batch_view b1 = (batch_view b)(r := None)" "frame_of b1 = frame_of b" by blast
  from Cons.IH [OF b1(2,3)] obtain b' where b': "remove_requests rs b1 = Inr b'" "step_ok n m b'"
    "batch_view b' = (batch_view b1) |` (- set rs)" "\<not> is_removed_sorted (builder b')" "frame_of b' = frame_of b1" by blast
  have "batch_view b' = (batch_view b) |` (- set (r # rs))" unfolding b'(3) b1(4) by (auto simp: restrict_map_def fun_eq_iff)
  then show ?case using b1 b' by (intro exI [of _ b']) (simp add: remove_requests_def)
qed

section \<open>Adding the requests of a step\<close>

text \<open>The row without its mask: a row can inherit the mask of another request (below).\<close>

definition unmask :: "row_state \<Rightarrow> row_state" where
  "unmask v = v\<lparr>rv_sampling := (rv_sampling v)\<lparr>sr_masked := {}\<rparr>\<rparr>"

definition added_row :: "(rat \<Rightarrow> rat) \<Rightarrow> int \<times> table_shape list \<Rightarrow> (string \<times> int list) list \<Rightarrow> cached_request \<Rightarrow> row_state" where
  "added_row f32 fr drafts q = with_drafts (dict_value (cr_req_id q) [] drafts) (new_row f32 (fst fr) (snd fr) {} q)"

definition step_request :: "nat \<Rightarrow> int \<times> table_shape list \<Rightarrow> (string \<times> int list) list \<Rightarrow> cached_request \<Rightarrow> bool" where
  "step_request m fr drafts q \<longleftrightarrow> request_fits m (fst fr) (snd fr) q \<and>
     nat (cr_num_tokens q) + length (dict_value (cr_req_id q) [] drafts) \<le> m"

lemma add_one:
  assumes ok: "step_ok n m b" and q: "step_request m (frame_of b) drafts q" and fresh: "batch_view b (cr_req_id q) = None"
    and room: "num_reqs b < int n"
  shows "\<exists>i b1 q' b'. batch_add_request f32 q b = Inr (i, b1) \<and> update_req_spec_token_ids q drafts b1 = Inr (q', b') \<and>
    step_ok n m b' \<and> num_reqs b' = num_reqs b + 1 \<and> frame_of b' = frame_of b \<and>
    (\<exists>v. batch_view b' = (batch_view b)(cr_req_id q \<mapsto> v) \<and> unmask v = unmask (added_row f32 (frame_of b) drafts q))"
proof -
  have b: "batch_ok n m b" "log_ok b" "lora_ok b" "sets_ok b" "max_num_reqs b = int n" using ok by (simp_all add: step_ok_def)
  let ?sp = "dict_value (cr_req_id q) [] drafts" and ?p = "the (cr_sampling_params q)"
  have fits: "request_fits m (vocab_size b) (map table_shape_of (block_table b)) q" using q by (simp add: step_request_def frame_of_def)
  from add_spec [OF b(1,2,3,5) room fits fresh, of f32] obtain i b1 where b1: "batch_add_request f32 q b = Inr (int i, b1)"
    "batch_ok n m b1" "log_ok b1" "lora_ok b1" "max_num_reqs b1 = int n" "vocab_size b1 = vocab_size b"
    "num_reqs b1 = num_reqs b + 1" "map table_shape_of (block_table b1) = map table_shape_of (block_table b)"
    "batch_view b1 = (batch_view b)(cr_req_id q \<mapsto> new_row f32 (vocab_size b) (map table_shape_of (block_table b))
      (masked_tokens (allowed_token_ids_mask_cpu (samp b)) i) q)"
    "sets b1 = place_sampling_sets (vocab_size b) ?p (cr_req_id q) (sets b)"
    "allowed_token_ids_mask_cpu (samp b1) = None \<longleftrightarrow> \<not> restricts ?p \<and> allowed_token_ids_mask_cpu (samp b) = None"
    "logits_processing_needs_token_ids b1 = logits_processing_needs_token_ids b" by (elim exE conjE) (rule that)
  let ?v = "new_row f32 (vocab_size b) (map table_shape_of (block_table b)) (masked_tokens (allowed_token_ids_mask_cpu (samp b)) i) q"
  have v: "batch_view b1 (cr_req_id q) = Some ?v" by (simp add: b1(9))
  have "nat (rv_no_spec ?v) + length ?sp \<le> m" using q by (simp add: step_request_def new_row_def)
  from drafts_spec [OF b1(2) v refl this] obtain b' where b': "update_req_spec_token_ids q drafts b1 =
      Inr (q\<lparr>prev_num_draft_len := py_len ?sp\<rparr>, b')" "batch_ok n m b'"
    "batch_view b' = (batch_view b1)(cr_req_id q \<mapsto> with_drafts ?sp ?v)"
    "\<exists>specs toks. b' = b1\<lparr>spec_token_ids_of_rows := specs, token_ids_cpu := toks\<rparr>" by blast
  then obtain specs toks where bt: "b' = b1\<lparr>spec_token_ids_of_rows := specs, token_ids_cpu := toks\<rparr>" by blast
  have view: "batch_view b' = (batch_view b)(cr_req_id q \<mapsto> with_drafts ?sp ?v)" by (simp add: b'(3) b1(9))
  have "lora_users b' y = lora_users b1 y" for y
    unfolding lora_users_def b'(3) using v by (auto simp: with_drafts_def split: if_splits)
  then have lora: "lora_ok b'" using b1(4) by (simp add: lora_ok_def bt)
  have log: "log_ok b'" using b1(3) by (simp add: log_ok_def bt)
  have "sets_ok b'"
    using b(4) b1(10,11,12) unfolding sets_ok_def view by (auto simp: bt place_sampling_sets_def insert_if_def restricts_def)
  then have "step_ok n m b'" using b'(2) lora log b1(5) by (simp add: step_ok_def bt)
  moreover have "num_reqs b' = num_reqs b + 1" "frame_of b' = frame_of b" using b1(6,7,8) by (simp_all add: bt num_reqs_def frame_of_def)
  moreover have "unmask (with_drafts ?sp ?v) = unmask (added_row f32 (frame_of b) drafts q)"
    by (simp add: added_row_def frame_of_def unmask_def with_drafts_def new_row_def params_row_def)
  ultimately show ?thesis using b1(1) b'(1) view by blast
qed

text \<open>The rows of the new requests.\<close>

definition added_rows ::
    "(rat \<Rightarrow> rat) \<Rightarrow> int \<times> table_shape list \<Rightarrow> (string \<times> int list) list \<Rightarrow> cached_request list \<Rightarrow> string \<Rightarrow> row_state option" where
  "added_rows f32 fr drafts qs = map_of (map (\<lambda>q. (cr_req_id q, added_row f32 fr drafts q)) qs)"

definition same_but_masks :: "(string \<Rightarrow> row_state option) \<Rightarrow> (string \<Rightarrow> row_state option) \<Rightarrow> bool" where
  "same_but_masks f g \<longleftrightarrow> (\<forall>r. map_option unmask (f r) = map_option unmask (g r))"

lemma same_but_masksD:
  assumes same: "same_but_masks f g" and h: "\<And>v. h (unmask v) = h v"
  shows "map_option h (f r) = map_option h (g r)"
proof -
  have "map_option h (map_option unmask (f r)) = map_option h (map_option unmask (g r))" using same by (simp add: same_but_masks_def)
  then show ?thesis using h by (simp add: option.map_comp comp_def)
qed

lemma same_but_masks_dom: "same_but_masks f g \<Longrightarrow> f r = None \<longleftrightarrow> g r = None"
  unfolding same_but_masks_def by (metis option.map_disc_iff)

lemma add_all:
  assumes "step_ok n m b" and "\<forall>q \<in> set qs. step_request m (frame_of b) drafts q \<and> batch_view b (cr_req_id q) = None"
    and "distinct (map cr_req_id qs)" and "num_reqs b + py_len qs \<le> int n"
  shows "\<exists>b'. add_requests f32 drafts qs b = Inr b' \<and> step_ok n m b' \<and> frame_of b' = frame_of b \<and>
    same_but_masks (batch_view b') (batch_view b ++ added_rows f32 (frame_of b) drafts qs)"
  using assms
proof (induction qs arbitrary: b)
  case Nil
  then show ?case by (simp add: add_requests_def added_rows_def same_but_masks_def)
next
  case (Cons q qs)
  have q: "step_request m (frame_of b) drafts q" "batch_view b (cr_req_id q) = None" "num_reqs b < int n"
    using Cons.prems(2,4) by (simp_all add: py_len_def)
  from add_one [OF Cons.prems(1) q, of f32] obtain i b1 q' b2 v where b2: "batch_add_request f32 q b = Inr (i, b1)"
    "update_req_spec_token_ids q drafts b1 = Inr (q', b2)" "step_ok n m b2" "num_reqs b2 = num_reqs b + 1" "frame_of b2 = frame_of b"
    "batch_view b2 = (batch_view b)(cr_req_id q \<mapsto> v)" "unmask v = unmask (added_row f32 (frame_of b) drafts q)" by blast
  have "\<forall>q' \<in> set qs. step_request m (frame_of b2) drafts q' \<and> batch_view b2 (cr_req_id q') = None"
    using Cons.prems(2,3) by (auto simp: b2(5,6)) (metis imageI)
  moreover have "num_reqs b2 + py_len qs \<le> int n" using Cons.prems(4) b2(4) by (simp add: py_len_def)
  ultimately obtain b' where b': "add_requests f32 drafts qs b2 = Inr b'" "step_ok n m b'" "frame_of b' = frame_of b2"
    "same_but_masks (batch_view b') (batch_view b2 ++ added_rows f32 (frame_of b2) drafts qs)"
    using Cons.IH [OF b2(3)] Cons.prems(3) by auto
  have "added_rows f32 (frame_of b) drafts qs (cr_req_id q) = None"
    using Cons.prems(3) by (auto simp: added_rows_def map_of_eq_None_iff)
  then have "map_option unmask ((batch_view b2 ++ added_rows f32 (frame_of b2) drafts qs) r) =
      map_option unmask ((batch_view b ++ added_rows f32 (frame_of b) drafts (q # qs)) r)" for r
    using b2(7) by (auto simp: b2(5,6) added_rows_def map_add_def split: option.splits)
  then have "same_but_masks (batch_view b') (batch_view b ++ added_rows f32 (frame_of b) drafts (q # qs))"
    using b'(4) by (simp add: same_but_masks_def)
  then show ?case using b2(1,2,5) b'(1,2,3) by (intro exI [of _ b']) (simp add: add_requests_def)
qed

section \<open>The metadata\<close>

lemma make_prompts:
  assumes ok: "batch_ok n m b" and d: "dense b" and some: "0 < num_reqs b"
  shows "\<exists>ps. make_prompt_token_ids_tensor b = Inr ps"
proof -
  have arr: "arrays_ok n m b" and le: "num_reqs b \<le> int n" using ok d by (simp_all add: batch_ok_def lists_ok_def dense_def py_len_def)
  have len: "length (num_prompt_tokens_cpu b) = n" "length (token_ids_cpu b) = n" using arr by (simp_all add: arrays_ok_def)
  have "py_upto (num_prompt_tokens_cpu b) (num_reqs b) \<noteq> []" using some le len by (simp add: py_upto_nat) auto
  then obtain k ks where k: "py_upto (num_prompt_tokens_cpu b) (num_reqs b) = k # ks" by (cases "py_upto (num_prompt_tokens_cpu b) (num_reqs b)") auto
  let ?row = "\<lambda>i. np_fill (num_prompt_tokens_cpu b ! nat i) (fold max ks k) (vocab_size b) (py_upto (token_ids_cpu b ! nat i) (fold max ks k))"
  have "rmapv (\<lambda>i. rbind (py_get (num_prompt_tokens_cpu b) i) (\<lambda>n. rbind (py_get (token_ids_cpu b) i) (\<lambda>row.
      Inr (np_fill n (fold max ks k) (vocab_size b) (py_upto row (fold max ks k)))))) (arange (num_reqs b)) = Inr (map ?row (arange (num_reqs b)))"
    using len le by (intro rmapv_pure) (auto simp: arange_def py_len_def)
  then show ?thesis by (simp add: make_prompt_token_ids_tensor_def k Let_def)
qed

lemma refresh_ok:
  assumes ok: "batch_ok n m b" and sets: "sets_ok b" and d: "dense b"
  shows "\<exists>x y u. refresh_metadata need b = Inr (x, y, b\<lparr>builder := u\<rparr>) \<and> bu_removed u = [] \<and> \<not> is_removed_sorted u"
proof -
  have "\<exists>x u. get_and_reset (num_reqs b) (builder b) = (x, u) \<and> bu_removed u = [] \<and> \<not> is_removed_sorted u"
    by (simp add: get_and_reset_def Let_def)
  then obtain x u where u: "get_and_reset (num_reqs b) (builder b) = (x, u)" "bu_removed u = []" "\<not> is_removed_sorted u" by blast
  let ?b = "b\<lparr>builder := u\<rparr>"
  have okb: "batch_ok n m ?b" "dense ?b" using ok d by (simp_all add: dense_def num_reqs_def)
  have "True \<notin> set (py_upto (logits_processing_needs_token_ids b) (num_reqs b))"
    using sets by (auto simp: sets_ok_def py_upto_def dest: in_set_takeD)
  moreover have "\<exists>ps. make_prompt_token_ids_tensor ?b = Inr ps" if pen: "\<not> no_penalties ?b"
  proof -
    obtain r where "r \<in> frequency_penalties_reqs (sets b) \<union> presence_penalties_reqs (sets b) \<union> repetition_penalties_reqs (sets b)"
      using pen by (auto simp: no_penalties_def)
    then have "batch_view b r \<noteq> None" using sets unfolding sets_ok_def by blast
    then have "req_id_to_index b \<noteq> []" by (auto simp: batch_view_def)
    then show ?thesis using make_prompts [OF okb] by (simp add: num_reqs_def py_len_def)
  qed
  moreover have "\<exists>rows. allowed_token_ids_mask_cpu (samp b) = Some rows" if "\<not> no_allowed_token_ids ?b"
    using that sets by (simp add: no_allowed_token_ids_def sets_ok_def)
  ultimately have "\<exists>mt. make_sampling_metadata need ?b = Inr mt"
    by (cases "no_penalties ?b"; cases "no_allowed_token_ids ?b") (auto simp: make_sampling_metadata_def Let_def num_reqs_def)
  moreover have "\<not> is_pooling_model b" using ok by (simp add: batch_ok_def)
  ultimately show ?thesis using u by (cases x) (auto simp: refresh_metadata_def Let_def)
qed

lemma same_step:
  assumes ok: "step_ok n m b" and b': "batch_ok n m b'" "log_ok b'" and same: "same_requests b b'"
  shows "step_ok n m b'"
proof -
  have "sets_ok b'" using ok same by (auto simp: step_ok_def sets_ok_def same_requests_def same_frame_def)
  then show ?thesis using ok b' lora_ok_same [OF _ same] same by (simp add: step_ok_def same_requests_def same_frame_def)
qed

section \<open>A step\<close>

text \<open>With an attention backend that leaves the order of the batch as it is.\<close>

definition update_batch ::
    "(rat \<Rightarrow> rat) \<Rightarrow> bool \<Rightarrow> string list \<Rightarrow> cached_request list \<Rightarrow> (string \<times> int list) list \<Rightarrow> input_batch \<Rightarrow>
     (batch_update option \<times> sampling_metadata option \<times> input_batch) res" where
  "update_batch f32 need_output removed added drafts b =
     rbind (remove_requests removed b) (\<lambda>b.
     rbind (add_requests f32 drafts added b) (\<lambda>b.
     rbind (condense b) (refresh_metadata need_output)))"

section \<open>A new batch\<close>

lemma BlockTable_ok:
  assumes made: "BlockTable bs (int n) per batched kbs w rank il = Inr t" and pos: "0 < kbs" "kbs \<le> bs" "0 \<le> per"
  shows "table_ok t \<and> length (kt_rows t) = n"
proof -
  have "0 < bs div kbs" using pos by (simp add: pos_imp_zdiv_pos_iff)
  then show ?thesis using made pos
    by (auto simp: BlockTable_def Let_def table_ok_def py_repeat_def py_len_def split: if_splits)
qed

lemma new_batch_ok:
  assumes made: "InputBatch temp0 top_p0 top_k0 freq0 pres0 rep0 (int n) (int m) batched vocab sizes ksizes blocks False w rank il = Inr b"
    and lens: "length temp0 = n" "length top_p0 = n" "length top_k0 = n" "length freq0 = n" "length pres0 = n" "length rep0 = n"
    and tabs: "tables_ok n (block_table b)"
  shows "step_ok n m b \<and> \<not> is_removed_sorted (builder b) \<and> dense b \<and> batch_view b = (\<lambda>_. None)"
proof -
  have b: "is_pooling_model b = False" "max_num_reqs b = int n" "req_ids b = []" "req_id_to_index b = []"
    "token_ids_cpu b = replicate n (replicate m 0)" "is_token_ids b = replicate n (replicate m False)"
    "num_tokens_no_spec b = replicate n 0" "num_prompt_tokens_cpu b = replicate n 0" "num_computed_tokens_cpu b = replicate n 0"
    "request_lora_mapping b = replicate n 0" "lora_id_to_request_ids b = []" "lora_id_to_lora_request b = []"
    "builder b = BatchUpdateBuilder" "logits_processing_needs_token_ids b = replicate n False" "req_output_token_ids b = []"
    "spec_token_ids_of_rows b = replicate n []" "sampling_ok n (samp b)" "generators (samp b) = []"
    "bad_words_token_ids (samp b) = []" "frequency_penalties_reqs (sets b) = {}" "presence_penalties_reqs (sets b) = {}"
    "repetition_penalties_reqs (sets b) = {}" "has_allowed_token_ids (sets b) = {}"
    using made lens by (auto simp: InputBatch_def py_repeat_def sampling_ok_def res_simps)
  have none: "batch_view b = (\<lambda>_. None)" by (simp add: batch_view_def b fun_eq_iff)
  have "batch_ok n m b"
    by (simp add: batch_ok_def arrays_ok_def lists_ok_def row_ok_def row_empty_def ids_indexed_def sampling_clean_def b tabs)
  moreover have "log_ok b" by (simp add: log_ok_def Let_def b BatchUpdateBuilder_def)
  moreover have "lora_ok b" by (simp add: lora_ok_def lora_users_def none b)
  moreover have "sets_ok b" by (auto simp: sets_ok_def b)
  ultimately show ?thesis by (simp add: step_ok_def none dense_def num_reqs_def b py_len_def BatchUpdateBuilder_def)
qed

lemma update_batch_ok:
  assumes "step_ok n m b" and "\<not> is_removed_sorted (builder b)"
    and "\<forall>q \<in> set added. step_request m (frame_of b) drafts q \<and> (batch_view b (cr_req_id q) = None \<or> cr_req_id q \<in> set removed)"
    and "distinct (map cr_req_id added)" and "card (dom (batch_view b) - set removed) + length added \<le> n"
  shows "\<exists>update metadata b'. update_batch f32 need_output removed added drafts b = Inr (update, metadata, b') \<and>
    step_ok n m b' \<and> \<not> is_removed_sorted (builder b') \<and> bu_removed (builder b') = [] \<and> dense b' \<and> frame_of b' = frame_of b \<and>
    same_but_masks (batch_view b') (batch_view b |` (- set removed) ++ added_rows f32 (frame_of b) drafts added)"
proof -
  from remove_all [OF assms(1,2), of removed] obtain b1 where b1: "remove_requests removed b = Inr b1" "step_ok n m b1"
    "batch_view b1 = batch_view b |` (- set removed)" "frame_of b1 = frame_of b" by blast
  have "num_reqs b1 = int (card (dom (batch_view b) - set removed))"
    using num_reqs_dom [of n m b1] b1(2) by (simp add: step_ok_def b1(3) Diff_eq)
  then have "num_reqs b1 + py_len added \<le> int n" using assms(5) by (simp add: py_len_def)
  moreover have "\<forall>q \<in> set added. step_request m (frame_of b1) drafts q \<and> batch_view b1 (cr_req_id q) = None"
    using assms(3) by (auto simp: b1(3,4) restrict_map_def)
  ultimately obtain b2 where b2: "add_requests f32 drafts added b1 = Inr b2" "step_ok n m b2" "frame_of b2 = frame_of b1"
    "same_but_masks (batch_view b2) (batch_view b1 ++ added_rows f32 (frame_of b1) drafts added)"
    using add_all [OF b1(2)] assms(4) by blast
  have "batch_ok n m b2" "log_ok b2" using b2(2) by (simp_all add: step_ok_def)
  from condense_spec [OF this] obtain b3 where b3: "condense b2 = Inr b3" "batch_ok n m b3" "dense b3" "same_requests b2 b3" by blast
  have again: "step_ok n m (b3\<lparr>builder := u\<rparr>)" if "bu_removed u = []" "\<not> is_removed_sorted u" for u
  proof (rule same_step [OF b2(2)])
    show "batch_ok n m (b3\<lparr>builder := u\<rparr>)" using b3(2) by simp
    show "log_ok (b3\<lparr>builder := u\<rparr>)" using b3(3) that by (auto simp: log_ok_def dense_def in_set_conv_nth)
    show "same_requests b2 (b3\<lparr>builder := u\<rparr>)"
      using b3(4) by (simp add: same_requests_def same_frame_def num_reqs_def fun_eq_iff)
  qed
  have "step_ok n m (b3\<lparr>builder := BatchUpdateBuilder\<rparr>)" by (rule again) (simp_all add: BatchUpdateBuilder_def)
  then have "sets_ok b3" by (simp add: step_ok_def sets_ok_def)
  from refresh_ok [OF b3(2) this b3(3)] obtain x y u where u: "refresh_metadata need_output b3 = Inr (x, y, b3\<lparr>builder := u\<rparr>)"
    "bu_removed u = []" "\<not> is_removed_sorted u" by blast
  have "same_but_masks (batch_view (b3\<lparr>builder := u\<rparr>)) (batch_view b |` (- set removed) ++ added_rows f32 (frame_of b) drafts added)"
    using b2(4) b3(4) by (simp add: same_but_masks_def same_requests_def b1(3,4))
  moreover have "dense (b3\<lparr>builder := u\<rparr>)" using b3(3) by (simp add: dense_def num_reqs_def)
  moreover have "frame_of (b3\<lparr>builder := u\<rparr>) = frame_of b"
    using b3(4) b2(3) b1(4) by (simp add: frame_of_def same_requests_def same_frame_def)
  moreover have "update_batch f32 need_output removed added drafts b = Inr (x, y, b3\<lparr>builder := u\<rparr>)"
    by (simp add: update_batch_def b1(1) b2(1) b3(1) u(1))
  ultimately show ?thesis using again [OF u(2,3)] u(2,3) by (intro exI [of _ x] exI [of _ y] exI [of _ "b3\<lparr>builder := u\<rparr>"]) simp
qed

text \<open>C5.
  The persistent batch of the model runner holds exactly the requests it is told to: a step that
  removes requests (finished, preempted and unscheduled ones, known or not), adds new ones, closes the
  gaps and refreshes the metadata never raises; afterwards the rows are dense, and the batch maps every
  request to the state it had, or to the row of its data if it was added, whichever rows they moved to:
  tokens, draft tokens, positions, blocks, adapter and sampling parameters, up to the mask of allowed
  tokens.  The invariant of the batch holds again for the next step.
\<close>

theorem update_batch_refines_map:
  assumes "step_ok n m b" and "\<not> is_removed_sorted (builder b)"
    and "\<forall>q \<in> set added. step_request m (frame_of b) drafts q \<and> (batch_view b (cr_req_id q) = None \<or> cr_req_id q \<in> set removed)"
    and "distinct (map cr_req_id added)" and "card (dom (batch_view b) - set removed) + length added \<le> n"
  shows "\<exists>update metadata b'. update_batch f32 need_output removed added drafts b = Inr (update, metadata, b') \<and>
    step_ok n m b' \<and> \<not> is_removed_sorted (builder b') \<and> bu_removed (builder b') = [] \<and> dense b' \<and> frame_of b' = frame_of b \<and>
    same_but_masks (batch_view b') (batch_view b |` (- set removed) ++ added_rows f32 (frame_of b) drafts added)"
  by (rule update_batch_ok [OF assms])

text \<open>Two steps of a small batch: a request and one with allowed tokens, then the first one is replaced.\<close>

definition demo_params :: "int list option \<Rightarrow> batch_sampling_params" where
  "demo_params allowed = \<lparr>bs_greedy = False, bs_temperature = 1/2, bs_top_p = 9/10, bs_top_k = 2, bs_frequency_penalty = 1,
     bs_presence_penalty = 0, bs_repetition_penalty = 1, bs_logprobs = None, bs_allowed_token_ids = allowed,
     bs_bad_words_token_ids = None\<rparr>"

definition demo_cached :: "string \<Rightarrow> int list option \<Rightarrow> (int \<times> string) option \<Rightarrow> cached_request" where
  "demo_cached r allowed lora = \<lparr>cr_req_id = r, cr_prompt_token_ids = Some [1, 0], cr_prompt_embeds = None,
     cr_sampling_params = Some (demo_params allowed), cr_pooling_requires_token_ids = None, cr_generator = None,
     cr_block_ids = [[3]], cr_num_computed_tokens = 0, cr_output_token_ids = [2], cr_lora_request = lora,
     prev_num_draft_len = 0, cr_num_prompt_tokens = 2\<rparr>"

definition demo_batch :: "input_batch res" where
  "demo_batch = InputBatch [0, 0] [0, 0] [0, 0] [0, 0] [0, 0] [0, 0] 2 8 8 4 [32] [16] (Some [2]) False 1 0 1"

lemma demo_batch_made:
  "\<exists>b. demo_batch = Inr b \<and> frame_of b = (4, [(True, 2, 4)]) \<and> step_ok 2 8 b \<and> \<not> is_removed_sorted (builder b) \<and>
    dense b \<and> batch_view b = (\<lambda>_. None)"
proof -
  have "MultiGroupBlockTable 2 8 8 [32] [16] (Some [2]) 1 0 1 = Inr [demo_table]"
    by (simp add: MultiGroupBlockTable_def demo_table_made)
  then obtain b where b: "demo_batch = Inr b" "block_table b = [demo_table]" "vocab_size b = 4"
    by (simp add: demo_batch_def InputBatch_def)
  have t: "table_ok demo_table \<and> length (kt_rows demo_table) = 2"
    using BlockTable_ok [of 32 2 2 8 16 1 0 1 demo_table] demo_table_made by simp
  have "InputBatch [0, 0] [0, 0] [0, 0] [0, 0] [0, 0] [0, 0] (int 2) (int 8) 8 4 [32] [16] (Some [2]) False 1 0 1 = Inr b"
    using b(1) by (simp add: demo_batch_def)
  from new_batch_ok [OF this] t have "step_ok 2 8 b \<and> \<not> is_removed_sorted (builder b) \<and> dense b \<and> batch_view b = (\<lambda>_. None)"
    by (simp add: tables_ok_def b(2))
  moreover have "frame_of b = (4, [(True, 2, 4)])" by (simp add: frame_of_def b(2,3) table_shape_of_def demo_table_def)
  ultimately show ?thesis using b(1) by blast
qed

lemma demo_request_fits:
  assumes "allowed = None \<or> allowed = Some [1]" and "lora = None \<or> lora = Some (1, a)" and "length (dict_value r [] drafts) \<le> 1"
  shows "step_request 8 (4, [(True, 2, 4)]) drafts (demo_cached r allowed lora)"
  using assms
  by (auto simp: step_request_def request_fits_def demo_cached_def demo_params_def restricts_def cr_num_tokens_def py_len_def shape_ids_def
    map_to_kernel_blocks_def arange_def)

theorem update_batch_refines_map_witness:
  "\<exists>b u1 m1 b1 u2 m2 b2. demo_batch = Inr b \<and>
    update_batch id False [] [demo_cached ''a'' None None, demo_cached ''b'' (Some [1]) (Some (1, ''x''))] [] b = Inr (u1, m1, b1) \<and>
    update_batch id False [''a'', ''z''] [demo_cached ''c'' None None] [(''c'', [5])] b1 = Inr (u2, m2, b2) \<and>
    dense b2 \<and> num_reqs b2 = 2 \<and> map_option rv_tokens (batch_view b2 ''c'') = Some [1, 0, 2, 5] \<and>
    map_option rv_lora (batch_view b2 ''b'') = Some 1"
proof -
  let ?a = "demo_cached ''a'' None None" and ?b = "demo_cached ''b'' (Some [1]) (Some (1, ''x''))" and ?c = "demo_cached ''c'' None None"
  let ?fr = "(4, [(True, 2, 4)]) :: int \<times> table_shape list"
  obtain b where b: "demo_batch = Inr b" "frame_of b = ?fr" "step_ok 2 8 b" "\<not> is_removed_sorted (builder b)"
    "batch_view b = (\<lambda>_. None)" using demo_batch_made by blast
  have ids: "cr_req_id ?a = ''a''" "cr_req_id ?b = ''b''" "cr_req_id ?c = ''c''" by (simp_all add: demo_cached_def)
  from update_batch_refines_map [OF b(3,4), of "[?a, ?b]" "[]" "[]" id False] b(2,5)
  obtain u1 m1 b1 where b1: "update_batch id False [] [?a, ?b] [] b = Inr (u1, m1, b1)" "step_ok 2 8 b1"
    "\<not> is_removed_sorted (builder b1)" "frame_of b1 = ?fr"
    "same_but_masks (batch_view b1) (batch_view b |` (- set []) ++ added_rows id ?fr [] [?a, ?b])"
    by (auto simp: demo_request_fits dict_value_def ids)
  have dom1: "batch_view b1 r = None \<longleftrightarrow> r \<noteq> ''a'' \<and> r \<noteq> ''b''" for r
    using same_but_masks_dom [OF b1(5)] b(5) by (auto simp: added_rows_def ids)
  then have "dom (batch_view b1) = {''a'', ''b''}" by (auto simp: dom_def)
  then have "card (dom (batch_view b1) - set [''a'', ''z'']) + length [?c] \<le> 2" by (simp add: insert_Diff_if)
  from update_batch_refines_map [OF b1(2,3) _ _ this, of "[(''c'', [5])]" id False] b1(4) dom1 [of "''c''"]
  obtain u2 m2 b2 where b2: "update_batch id False [''a'', ''z''] [?c] [(''c'', [5])] b1 = Inr (u2, m2, b2)" "step_ok 2 8 b2" "dense b2"
    "same_but_masks (batch_view b2) (batch_view b1 |` (- set [''a'', ''z'']) ++ added_rows id ?fr [(''c'', [5])] [?c])"
    by (auto simp: demo_request_fits dict_value_def ids)
  have "batch_view b2 r = None \<longleftrightarrow> r \<noteq> ''b'' \<and> r \<noteq> ''c''" for r
    using same_but_masks_dom [OF b2(4), of r] dom1 [of r] by (auto simp: added_rows_def ids restrict_map_def map_add_def split: option.splits)
  then have "dom (batch_view b2) = {''b'', ''c''}" by (auto simp: dom_def)
  then have n: "num_reqs b2 = 2" using num_reqs_dom [of 2 8 b2] b2(2) by (simp add: step_ok_def)
  have "map_option rv_tokens (batch_view b2 ''c'') = Some [1, 0, 2, 5]"
    using same_but_masksD [OF b2(4), of rv_tokens "''c''"]
    by (simp add: unmask_def added_rows_def ids added_row_def with_drafts_def new_row_def dict_value_def demo_cached_def cr_num_tokens_def py_len_def)
  moreover have "map_option rv_lora (batch_view b2 ''b'') = Some 1"
    using same_but_masksD [OF b2(4), of rv_lora "''b''"] same_but_masksD [OF b1(5), of rv_lora "''b''"]
    by (simp add: unmask_def added_rows_def ids added_row_def with_drafts_def new_row_def demo_cached_def restrict_map_def map_add_def)
  ultimately show ?thesis using b(1) b1(1) b2(1,3) n by blast
qed

end
