(* ===== verification/Batch_Masks.thy ===== *)
theory Batch_Masks
  imports Batch_Step
begin

text \<open>
  Where the persistent batch does not keep to its contract: the rows of the mask of allowed tokens.
\<close>

section \<open>A moved request leaves its mask behind\<close>

lemma num_reqs_le:
  assumes "batch_ok n m b"
  shows "num_reqs b \<le> int n"
proof -
  have "card {i. i < length (req_ids b) \<and> req_ids b ! i \<noteq> None} \<le> card {..<length (req_ids b)}" by (rule card_mono) auto
  then show ?thesis using assms num_reqs_card [of n b] by (auto simp: batch_ok_def lists_ok_def)
qed

lemma one_gap:
  assumes ok: "batch_ok n m b" and log: "log_ok b" and gap: "bu_removed (builder b) = [int k]" and l: "length (req_ids b) = Suc l" "k < l"
  shows "num_reqs b = int l" "req_ids b ! l \<noteq> None" "k < length (req_ids b)" "req_ids b ! k = None"
proof -
  have gaps: "{int i | i. i < length (req_ids b) \<and> req_ids b ! i = None} = {int k}" using log gap by (simp add: log_ok_def Let_def)
  have none: "i < length (req_ids b) \<and> req_ids b ! i = None \<longleftrightarrow> i = k" for i
  proof -
    have "int i \<in> {int i | i. i < length (req_ids b) \<and> req_ids b ! i = None} \<longleftrightarrow> int i \<in> {int k}" unfolding gaps ..
    then show ?thesis by simp
  qed
  have "{i. i < length (req_ids b) \<and> req_ids b ! i \<noteq> None} = {..l} - {k}"
  proof (rule set_eqI)
    fix i show "i \<in> {i. i < length (req_ids b) \<and> req_ids b ! i \<noteq> None} \<longleftrightarrow> i \<in> {..l} - {k}"
      using none [of i] l by (cases "i < length (req_ids b)") auto
  qed
  then have "card {i. i < length (req_ids b) \<and> req_ids b ! i \<noteq> None} = l" using l(2) by simp
  then show "num_reqs b = int l" using num_reqs_card [of n b] ok by (simp add: batch_ok_def)
  show "req_ids b ! l \<noteq> None" "k < length (req_ids b)" "req_ids b ! k = None" using none [of l] none [of k] l by auto
qed

lemma condense_one_gap:
  assumes ok: "batch_ok n m b" and log: "log_ok b" and gap: "bu_removed (builder b) = [int k]" and l: "length (req_ids b) = Suc l" "k < l"
  shows "\<exists>b'. condense b = Inr b' \<and> batch_ok n m b' \<and> dense b' \<and> same_requests b b' \<and>
    masked_tokens (allowed_token_ids_mask_cpu (samp b')) l = masked_tokens (allowed_token_ids_mask_cpu (samp b)) l"
proof -
  note one = one_gap [OF ok log gap l]
  obtain b' where b': "condense b = Inr b'" "batch_ok n m b'" "dense b'" "same_requests b b'" using condense_spec [OF ok log] by blast
  define u where "u = ensure_removed_sorted (builder b)"
  have u: "bu_removed u = [int k]" using gap by (simp add: u_def ensure_removed_sorted_def)
  obtain c where c: "req_ids b ! l = Some c" using one(2) by auto
  have "skip_empty [int k] (int l) = int l" using l(2) by (simp add: skip_empty.simps)
  moreover obtain b2 where b2: "condense_move (int l) (int k) (b\<lparr>builder := u\<lparr>bu_removed := []\<rparr>\<rparr>) = Inr b2"
    "row_moved l k c (b\<lparr>builder := u\<lparr>bu_removed := []\<rparr>\<rparr>) b2"
    using condense_move_spec [of n m "b\<lparr>builder := u\<lparr>bu_removed := []\<rparr>\<rparr>" l c k] ok l c one(3,4) by auto
  ultimately have "condense_loop [int k] (int l) (b\<lparr>builder := u\<rparr>) = Inr b2" using l(2) by simp
  moreover have "num_reqs (b\<lparr>builder := u\<rparr>) = int l" using one(1) by (simp add: num_reqs_def)
  ultimately have "condense b = Inr (trim (int l) b2)" using l(2) u
    by (simp add: condense_def u_def [symmetric] Let_def py_len_def trim_def)
  then have "samp b' = samp b2" using b'(1) by (simp add: trim_def)
  moreover have "masked_tokens (allowed_token_ids_mask_cpu (samp b2)) l = masked_tokens (allowed_token_ids_mask_cpu (samp b)) l"
    using b2(2) l(2) by (auto simp: row_moved_def masked_tokens_def split: option.splits)
  ultimately show ?thesis using b' by auto
qed

lemma refresh_frame:
  assumes "refresh_metadata need b = Inr (x, y, b')" and "\<not> is_pooling_model b"
  shows "\<exists>u. b' = b\<lparr>builder := u\<rparr> \<and> bu_removed u = []"
proof -
  obtain u where u: "get_and_reset (num_reqs b) (builder b) = (x, u)"
    using assms by (cases "get_and_reset (num_reqs b) (builder b)") (auto simp: refresh_metadata_def Let_def res_simps split: option.splits)
  then have "bu_removed u = []" by (auto simp: get_and_reset_def Let_def split: if_splits)
  moreover have "b' = b\<lparr>builder := u\<rparr>" using assms u by (auto simp: refresh_metadata_def Let_def res_simps split: option.splits)
  ultimately show ?thesis by blast
qed

text \<open>A step that only adds a request puts it at the end, with the mask of its row.\<close>

lemma add_at_end:
  assumes ok: "step_ok n m b" and d: "dense b" and quiet: "bu_removed (builder b) = []" "\<not> is_removed_sorted (builder b)"
    and fits: "step_request m (frame_of b) [] q" and fresh: "batch_view b (cr_req_id q) = None" and room: "num_reqs b < int n"
    and free: "\<not> restricts (the (cr_sampling_params q))"
  shows "\<exists>u2 m2 b2 v. update_batch f32 need [] [q] [] b = Inr (u2, m2, b2) \<and> batch_view b2 (cr_req_id q) = Some v \<and>
    sr_masked (rv_sampling v) = masked_tokens (allowed_token_ids_mask_cpu (samp b)) (length (req_ids b))"
proof -
  have b: "batch_ok n m b" "log_ok b" "lora_ok b" "max_num_reqs b = int n" using ok by (simp_all add: step_ok_def)
  have rf: "request_fits m (vocab_size b) (map table_shape_of (block_table b)) q" using fits by (simp add: step_request_def frame_of_def)
  from add_spec [OF b room rf fresh, of f32] quiet(1) obtain r1 where r1: "batch_add_request f32 q b = Inr (int (length (req_ids b)), r1)"
    "batch_ok n m r1" "batch_view r1 = (batch_view b)(cr_req_id q \<mapsto> new_row f32 (vocab_size b) (map table_shape_of (block_table b))
      (masked_tokens (allowed_token_ids_mask_cpu (samp b)) (length (req_ids b))) q)" by auto
  let ?v = "new_row f32 (vocab_size b) (map table_shape_of (block_table b))
      (masked_tokens (allowed_token_ids_mask_cpu (samp b)) (length (req_ids b))) q"
  have "batch_view r1 (cr_req_id q) = Some ?v" by (simp add: r1(3))
  moreover have "nat (rv_no_spec ?v) + length ([] :: int list) \<le> m" using fits by (simp add: step_request_def new_row_def)
  moreover have "dict_value (cr_req_id q) [] [] = ([] :: int list)" by (simp add: dict_value_def)
  ultimately obtain q' r2 where r2: "update_req_spec_token_ids q [] r1 = Inr (q', r2)" 
    "batch_view r2 = (batch_view r1)(cr_req_id q \<mapsto> with_drafts [] ?v)" using drafts_spec [OF r1(2)] by blast
  have added: "add_requests f32 [] [q] b = Inr r2" using r1(1) r2(1) by (simp add: add_requests_def)
  have "num_reqs b = int (card (dom (batch_view b)))" by (rule num_reqs_dom [OF b(1)])
  then have "card (dom (batch_view b) - set []) + length [q] \<le> n" using room by simp
  from update_batch_ok [OF ok quiet(2) _ _ this, of "[]" f32 need] fits fresh obtain u2 m2 b2 where
    run: "update_batch f32 need [] [q] [] b = Inr (u2, m2, b2)" by auto
  have "step_ok n m r2" using add_all [OF ok, of "[q]" "[]" f32] fits fresh room added by (simp add: py_len_def)
  then have "batch_ok n m r2" "log_ok r2" by (simp_all add: step_ok_def)
  from condense_spec [OF this] obtain c where c: "condense r2 = Inr c" "batch_ok n m c" "same_requests r2 c" by blast
  have "refresh_metadata need c = Inr (u2, m2, b2)" using run added c(1) by (simp add: update_batch_def remove_requests_def)
  from refresh_frame [OF this] c(2) have "batch_view b2 = batch_view c" by (auto simp: batch_ok_def)
  then have "batch_view b2 (cr_req_id q) = Some (with_drafts [] ?v)" using c(3) r2(2) by (simp add: same_requests_def)
  moreover have "sr_masked (rv_sampling (with_drafts [] ?v)) = masked_tokens (allowed_token_ids_mask_cpu (samp b)) (length (req_ids b))"
    using free by (simp add: with_drafts_def new_row_def params_row_def)
  ultimately show ?thesis using run by blast
qed

text \<open>C26.
  A request without a list of allowed tokens can be sampled under the mask of another request: when a
  request before the last one leaves, the last request moves into its row, but the row of its mask stays
  where it was, and the next request that is added to this row without allowed tokens of its own gets
  exactly the mask of the moved request.
\<close>

theorem moved_mask_is_inherited:
  assumes "step_ok n m b" and "\<not> is_removed_sorted (builder b)" and "bu_removed (builder b) = []"
    and "length (req_ids b) = Suc l" and "k < l" and "req_ids b ! k = Some a"
    and "step_request m (frame_of b) [] q" and "\<not> restricts (the (cr_sampling_params q))"
    and "batch_view b (cr_req_id q) = None"
  shows "\<exists>u1 m1 b1 u2 m2 b2 v. update_batch f32 need_output [a] [] [] b = Inr (u1, m1, b1) \<and>
    update_batch f32 need_output [] [q] [] b1 = Inr (u2, m2, b2) \<and> batch_view b2 (cr_req_id q) = Some v \<and>
    sr_masked (rv_sampling v) = sr_masked (rv_sampling (row_view b l))"
proof -
  have b: "batch_ok n m b" "log_ok b" "lora_ok b" using assms(1) by (simp_all add: step_ok_def)
  have k: "k < length (req_ids b)" using assms(4,5) by simp
  from remove_known [OF b assms(2) k assms(6)] obtain r1 where r1: "remove_request a b = Inr (Some (int k), r1)" "batch_ok n m r1"
    "log_ok r1" "req_ids r1 = (req_ids b)[k := None]" "bu_removed (builder r1) = bu_removed (builder b) @ [int k]"
    "allowed_token_ids_mask_cpu (samp r1) = map_option (\<lambda>rows. rows[k := map (\<lambda>_. False) (rows ! k)]) (allowed_token_ids_mask_cpu (samp b))"
    by blast
  have "bu_removed (builder r1) = [int k]" "length (req_ids r1) = Suc l" using assms(3,4) r1(4,5) by simp_all
  from condense_one_gap [OF r1(2,3) this assms(5)] one_gap(1) [OF r1(2,3) this assms(5)] obtain c1 where
    c1: "condense r1 = Inr c1" "batch_ok n m c1" "dense c1" "same_requests r1 c1" "num_reqs r1 = int l"
    "masked_tokens (allowed_token_ids_mask_cpu (samp c1)) l = masked_tokens (allowed_token_ids_mask_cpu (samp r1)) l" by blast
  have "card (dom (batch_view b) - set [a]) \<le> card (dom (batch_view b))" by (rule card_mono [OF finite_view]) auto
  moreover have "num_reqs b \<le> int n" by (rule num_reqs_le [OF b(1)])
  ultimately have "card (dom (batch_view b) - set [a]) + length ([] :: cached_request list) \<le> n" using num_reqs_dom [OF b(1)] by simp
  from update_batch_ok [OF assms(1,2) _ _ this, of "[]" f32 need_output] obtain u1 m1 b1 where
    run: "update_batch f32 need_output [a] [] [] b = Inr (u1, m1, b1)" and b1: "step_ok n m b1" "\<not> is_removed_sorted (builder b1)"
    "dense b1" "frame_of b1 = frame_of b" "same_but_masks (batch_view b1) (batch_view b |` (- set [a]) ++ added_rows f32 (frame_of b) [] [])"
    by auto
  have "refresh_metadata need_output c1 = Inr (u1, m1, b1)"
    using run r1(1) c1(1) by (simp add: update_batch_def remove_requests_def add_requests_def)
  from refresh_frame [OF this] c1(2) obtain u where u: "b1 = c1\<lparr>builder := u\<rparr>" "bu_removed u = []" by (auto simp: batch_ok_def)
  have n1: "num_reqs b1 = int l" "length (req_ids b1) = l"
    using c1(3,4,5) by (simp_all add: u(1) num_reqs_def same_requests_def dense_def py_len_def)
  have "batch_view b1 (cr_req_id q) = None"
    using same_but_masks_dom [OF b1(5), of "cr_req_id q"] assms(9) by (simp add: added_rows_def restrict_map_def)
  moreover have "num_reqs b1 < int n" using n1(1) assms(4) b(1) by (simp add: batch_ok_def lists_ok_def)
  moreover have "step_request m (frame_of b1) [] q" using assms(7) b1(4) by simp
  moreover have "bu_removed (builder b1) = []" by (simp add: u)
  ultimately obtain u2 m2 b2 v where b2: "update_batch f32 need_output [] [q] [] b1 = Inr (u2, m2, b2)"
    "batch_view b2 (cr_req_id q) = Some v"
    "sr_masked (rv_sampling v) = masked_tokens (allowed_token_ids_mask_cpu (samp b1)) (length (req_ids b1))"
    using add_at_end [OF b1(1,3) _ b1(2) _ _ _ assms(8)] by blast
  have "masked_tokens (allowed_token_ids_mask_cpu (samp b1)) l = masked_tokens (allowed_token_ids_mask_cpu (samp b)) l"
    using c1(6) r1(6) assms(5) by (auto simp: u(1) masked_tokens_def split: option.splits)
  then have "sr_masked (rv_sampling v) = sr_masked (rv_sampling (row_view b l))"
    using b2(3) n1(2) by (simp add: row_view_def Let_def sampling_row_at_def)
  then show ?thesis using run b2(1,2) by blast
qed

definition demo_rows :: "(string option list \<times> bool list list option) res" where
  "demo_rows = rbind demo_batch (\<lambda>b.
     rbind (update_batch id False [] [demo_cached ''a'' None None, demo_cached ''b'' (Some [1]) None] [] b) (\<lambda>(_, _, b1).
     Inr (req_ids b1, allowed_token_ids_mask_cpu (samp b1))))"

lemma demo_rows_value:
  "demo_rows = Inr ([Some ''a'', Some ''b''], Some [[False, False, False, False], [True, False, True, True]])"
  by code_simp

theorem moved_mask_is_inherited_witness:
  "\<exists>b u m b1 u1 m1 b2 u2 m2 b3 v. demo_batch = Inr b \<and>
    update_batch id False [] [demo_cached ''a'' None None, demo_cached ''b'' (Some [1]) None] [] b = Inr (u, m, b1) \<and>
    update_batch id False [''a''] [] [] b1 = Inr (u1, m1, b2) \<and>
    update_batch id False [] [demo_cached ''c'' None None] [] b2 = Inr (u2, m2, b3) \<and>
    batch_view b3 ''c'' = Some v \<and> sr_masked (rv_sampling v) = {t. t < 4 \<and> t \<noteq> 1}"
proof -
  let ?a = "demo_cached ''a'' None None" and ?b = "demo_cached ''b'' (Some [1]) None" and ?c = "demo_cached ''c'' None None"
  let ?fr = "(4, [(True, 2, 4)]) :: int \<times> table_shape list"
  obtain b where b: "demo_batch = Inr b" "frame_of b = ?fr" "step_ok 2 8 b" "\<not> is_removed_sorted (builder b)"
    "batch_view b = (\<lambda>_. None)" using demo_batch_made by blast
  have ids: "cr_req_id ?a = ''a''" "cr_req_id ?b = ''b''" "cr_req_id ?c = ''c''" by (simp_all add: demo_cached_def)
  have fits: "step_request 8 ?fr [] ?a" "step_request 8 ?fr [] ?b" "step_request 8 ?fr [] ?c"
    by (simp_all add: demo_request_fits [of _ _ "''x''"] dict_value_def)
  from update_batch_ok [OF b(3,4), of "[?a, ?b]" "[]" "[]" id False] b(2,5) fits
  obtain u m b1 where b1: "update_batch id False [] [?a, ?b] [] b = Inr (u, m, b1)" "step_ok 2 8 b1"
    "\<not> is_removed_sorted (builder b1)" "bu_removed (builder b1) = []" "frame_of b1 = ?fr"
    "same_but_masks (batch_view b1) (batch_view b |` (- set []) ++ added_rows id ?fr [] [?a, ?b])" by (auto simp: ids)
  have rows: "req_ids b1 = [Some ''a'', Some ''b'']"
    "allowed_token_ids_mask_cpu (samp b1) = Some [[False, False, False, False], [True, False, True, True]]"
    using demo_rows_value unfolding demo_rows_def b(1) rbind_Inr b1(1) prod.case by simp_all
  have "batch_view b1 ''c'' = None" using same_but_masks_dom [OF b1(6), of "''c''"] b(5) by (simp add: added_rows_def ids)
  then obtain u1 m1 b2 u2 m2 b3 v where run: "update_batch id False [''a''] [] [] b1 = Inr (u1, m1, b2)"
    "update_batch id False [] [?c] [] b2 = Inr (u2, m2, b3)" "batch_view b3 ''c'' = Some v"
    "sr_masked (rv_sampling v) = sr_masked (rv_sampling (row_view b1 1))"
    using moved_mask_is_inherited [OF b1(2-4), of 1 0 "''a''" ?c id False] rows(1) fits(3) b1(5)
    by (auto simp: ids demo_cached_def [of _ None] demo_params_def restricts_def)
  have "sr_masked (rv_sampling (row_view b1 1)) = {t. t < length [True, False, True, True] \<and> [True, False, True, True] ! t}"
    using rows(2) by (simp add: row_view_def Let_def sampling_row_at_def masked_tokens_def)
  also have "\<dots> = {t. t < 4 \<and> t \<noteq> 1}" by (auto simp: less_Suc_eq numeral_eq_Suc)
  finally show ?thesis using b(1) b1(1) run by auto
qed

end
