(* ===== verification/Batch_Reorder.thy ===== *)
theory Batch_Reorder
  imports Batch_Masks "HOL-Library.Multiset"
begin

text \<open>
  The order of the batch that an attention backend asks for (\<^verbatim>\<open>vllm/v1/attention/backends/utils.py\<close>):
  decodes first, then extended prompts, then new prompts, by swapping rows of the persistent batch; and
  the split of the reordered batch for the kernels.
\<close>

section \<open>Swapping two requests\<close>

lemma swap_states_spec:
  assumes ok: "batch_ok n m b" and i: "i < length (req_ids b)" "req_ids b ! i = Some r"
    and j: "j < length (req_ids b)" "req_ids b ! j = Some s"
  shows "\<exists>b'. swap_states (int i) (int j) b = Inr b' \<and> batch_ok n m b' \<and>
    req_ids b' = (req_ids b)[i := req_ids b ! j, j := req_ids b ! i] \<and>
    req_id_to_index b' = AList.update s (int i) (AList.update r (int j) (req_id_to_index b)) \<and>
    row_view b' i = row_view b j \<and>
    row_view b' j = (row_view b i)\<lparr>rv_sampling := (rv_sampling (row_view b i))\<lparr>sr_masked := sr_masked (rv_sampling (row_view b j))\<rparr>\<rparr> \<and>
    (\<forall>k. k \<noteq> i \<and> k \<noteq> j \<longrightarrow> row_view b' k = row_view b k)"
proof -
  have np: "\<not> is_pooling_model b" and arr: "arrays_ok n m b" and lists: "lists_ok n b" and rows: "\<And>k. row_ok b k"
    using ok by (simp_all add: batch_ok_def)
  have idx: "ids_indexed (req_ids b) (req_id_to_index b)" using lists by (simp add: lists_ok_def)
  have ln: "i < n" "j < n" "i < length (spec_token_ids_of_rows b)" "j < length (spec_token_ids_of_rows b)"
    and outs: "req_output_token_ids b = req_ids b" using i(1) j(1) lists by (simp_all add: lists_ok_def)
  from arr have tabs: "tables_ok n (block_table b)" and samp: "sampling_ok n (samp b)" by (simp_all add: arrays_ok_def)
  from swap_rows [OF tabs ln(1,2)] obtain ts where ts: "swap_row (int i) (int j) (block_table b) = Inr ts" "tables_ok n ts"
    "rows_of ts i = rows_of (block_table b) j" "rows_of ts j = rows_of (block_table b) i"
    "\<forall>k. k \<noteq> i \<and> k \<noteq> j \<longrightarrow> rows_of ts k = rows_of (block_table b) k" by blast
  from swap_sampling [OF samp ln(1,2)] obtain sr where sr: "swap_sampling_rows (int i) (int j) (samp b) = Inr sr" "sampling_ok n sr"
    "sampling_row_at sr i = sampling_row_at (samp b) j"
    "sampling_row_at sr j = (sampling_row_at (samp b) i)\<lparr>sr_masked := sr_masked (sampling_row_at (samp b) j)\<rparr>"
    "\<forall>k. k \<noteq> i \<and> k \<noteq> j \<longrightarrow> sampling_row_at sr k = sampling_row_at (samp b) k \<and> sampling_clean sr k = sampling_clean (samp b) k"
    by blast
  define sw where "sw = (\<lambda>xs :: int list. xs[i := xs ! j, j := xs ! i])"
  let ?ids = "(req_ids b)[i := req_ids b ! j, j := req_ids b ! i]"
  let ?sp = "spec_token_ids_of_rows b" and ?tk = "token_ids_cpu b" and ?fl = "is_token_ids b"
  let ?b' = "b\<lparr>req_ids := ?ids, req_output_token_ids := ?ids, spec_token_ids_of_rows := ?sp[i := ?sp ! j, j := ?sp ! i],
     req_id_to_index := AList.update s (int i) (AList.update r (int j) (req_id_to_index b)),
     num_tokens_no_spec := sw (num_tokens_no_spec b), num_prompt_tokens_cpu := sw (num_prompt_tokens_cpu b),
     num_computed_tokens_cpu := sw (num_computed_tokens_cpu b), token_ids_cpu := ?tk[i := ?tk ! j, j := ?tk ! i],
     is_token_ids := ?fl[i := ?fl ! j, j := ?fl ! i],
     req_prompt_embeds := swap_dict_values (int i) (int j) (req_prompt_embeds b),
     block_table := ts, request_lora_mapping := sw (request_lora_mapping b), samp := sr,
     builder := (builder b)\<lparr>bu_moved := bu_moved (builder b) @ [(int i, int j, SWAP)]\<rparr>\<rparr>"
  have run: "swap_states (int i) (int j) b = Inr ?b'"
    using i j ln arr np indexed_of [OF idx i] indexed_of [OF idx j] ts(1) sr(1) outs
    by (simp add: swap_states_def py_get_nth swap_nth arrays_ok_def sw_def Let_def)
  have embeds: "map_of (req_prompt_embeds ?b') (int k) = (if k = i then map_of (req_prompt_embeds b) (int j)
      else if k = j then map_of (req_prompt_embeds b) (int i) else map_of (req_prompt_embeds b) (int k))" for k
    by (simp add: map_of_swap_dict)
  have same: "j = i \<longrightarrow> r = s" using i j by auto
  have at_j: "row_view ?b' i = row_view b j"
    using ln arr ts(3) sr(3) embeds [of i] i j outs same
    by (simp add: row_view_def Let_def arrays_ok_def sw_def nth_list_update cong: if_cong)
  have at_i: "row_view ?b' j = (row_view b i)\<lparr>rv_sampling := (rv_sampling (row_view b i))\<lparr>sr_masked := sr_masked (rv_sampling (row_view b j))\<rparr>\<rparr>"
    using ln arr ts(4) sr(4) embeds [of j] i j outs same
    by (simp add: row_view_def Let_def arrays_ok_def sw_def nth_list_update cong: if_cong)
  have at_k: "row_view ?b' k = row_view b k" if "k \<noteq> i" "k \<noteq> j" for k
    using that ts(5) sr(5) embeds [of k] outs by (simp add: row_view_def Let_def sw_def cong: if_cong)
  have "arrays_ok n m ?b'" using arr ln ts(2) sr(2) by (auto simp: arrays_ok_def sw_def nth_list_update)
  moreover have "lists_ok n ?b'" using lists indexed_swap [OF idx i j] by (simp add: lists_ok_def)
  moreover have "row_ok ?b' k" for k
  proof (cases "k = i \<or> k = j")
    case True
    have "\<not> row_empty b i" "\<not> row_empty b j" using i j by (simp_all add: row_empty_def)
    then have "False \<in> set (take (nat (num_tokens_no_spec b ! l)) (is_token_ids b ! l)) \<Longrightarrow> map_of (req_prompt_embeds b) (int l) \<noteq> None"
      if "l = i \<or> l = j" for l using rows [of l] that by (auto simp: row_ok_def)
    moreover have "\<not> row_empty ?b' k" using True i j by (auto simp: row_empty_def nth_list_update)
    ultimately show ?thesis using True ln arr embeds [of k]
      by (auto simp: row_ok_def arrays_ok_def sw_def nth_list_update)
  next
    case False
    then show ?thesis using rows [of k] sr(5) embeds [of k] by (simp add: row_ok_def row_empty_def sw_def)
  qed
  ultimately have "batch_ok n m ?b'" using np by (simp add: batch_ok_def)
  then show ?thesis using run at_i at_j at_k by (intro exI [of _ ?b']) simp
qed

lemma swap_states_view:
  assumes ok: "batch_ok n m b" and i: "i < length (req_ids b)" "req_ids b ! i = Some r"
    and j: "j < length (req_ids b)" "req_ids b ! j = Some s" and ne: "i \<noteq> j"
  shows "\<exists>b'. swap_states (int i) (int j) b = Inr b' \<and> batch_ok n m b' \<and> req_ids b' = (req_ids b)[i := Some s, j := Some r] \<and>
    batch_view b' = (batch_view b)(r \<mapsto>
      (row_view b i)\<lparr>rv_sampling := (rv_sampling (row_view b i))\<lparr>sr_masked := sr_masked (rv_sampling (row_view b j))\<rparr>\<rparr>)"
proof -
  have lists: "lists_ok n b" using ok by (simp add: batch_ok_def)
  have idx: "ids_indexed (req_ids b) (req_id_to_index b)" using lists by (simp add: lists_ok_def)
  have rs: "r \<noteq> s" using indexed_unique [OF idx i(1) j(1)] i(2) j(2) ne by auto
  from swap_states_spec [OF ok i j] obtain b' where b': "swap_states (int i) (int j) b = Inr b'" "batch_ok n m b'"
    "req_ids b' = (req_ids b)[i := req_ids b ! j, j := req_ids b ! i]"
    "req_id_to_index b' = AList.update s (int i) (AList.update r (int j) (req_id_to_index b))"
    "row_view b' i = row_view b j"
    "row_view b' j = (row_view b i)\<lparr>rv_sampling := (rv_sampling (row_view b i))\<lparr>sr_masked := sr_masked (rv_sampling (row_view b j))\<rparr>\<rparr>"
    "\<forall>k. k \<noteq> i \<and> k \<noteq> j \<longrightarrow> row_view b' k = row_view b k" by blast
  have "batch_view b' x = ((batch_view b)(r \<mapsto> row_view b' j)) x" for x
  proof (cases "x = r \<or> x = s")
    case True
    then show ?thesis using rs b'(4,5) view_of_row [OF lists j] by (auto simp: batch_view_def update_conv')
  next
    case False
    then have keep: "map_of (req_id_to_index b') x = map_of (req_id_to_index b) x" by (simp add: b'(4) update_conv')
    show ?thesis
    proof (cases "map_of (req_id_to_index b) x")
      case (Some l)
      then obtain k where k: "l = int k" "req_ids b ! k = Some x" using indexed_at [OF idx] by blast
      then have "k \<noteq> i" "k \<noteq> j" using i(2) j(2) False by auto
      then show ?thesis using False keep Some k(1) b'(7) by (simp add: batch_view_def)
    qed (use False keep in \<open>simp add: batch_view_def\<close>)
  qed
  then show ?thesis using b'(1,2,3,6) i(2) j(2) by (intro exI [of _ b']) (simp add: fun_eq_iff)
qed

text \<open>C27.
  Swapping two requests of the batch exchanges everything that their rows hold but the mask of allowed
  tokens: both requests end with the mask of the second row, since the rows of the mask are exchanged
  as views.  The other requests, and the second one, keep what they had.
\<close>

theorem swap_states_merges_masks:
  assumes "batch_ok n m b" and "i < length (req_ids b)" and "req_ids b ! i = Some r" and "j < length (req_ids b)"
    and "req_ids b ! j = Some s" and "i \<noteq> j"
  shows "\<exists>b'. swap_states (int i) (int j) b = Inr b' \<and> batch_ok n m b' \<and> req_ids b' = (req_ids b)[i := Some s, j := Some r] \<and>
    batch_view b' = (batch_view b)(r \<mapsto>
      (row_view b i)\<lparr>rv_sampling := (rv_sampling (row_view b i))\<lparr>sr_masked := sr_masked (rv_sampling (row_view b j))\<rparr>\<rparr>)"
  by (rule swap_states_view [OF assms])

section \<open>Decodes first\<close>

partial_function (option) swap_cycle ::
    "nat \<Rightarrow> nat \<Rightarrow> (nat \<times> nat) list \<Rightarrow> input_batch \<Rightarrow> ((nat \<times> nat) list \<times> input_batch) res option" where
  "swap_cycle src dst src_dest_map b =
     (if src = dst then Some (Inr (src_dest_map, b))
      else case swap_states (int src) (int dst) b of
        Inl e \<Rightarrow> Some (Inl e)
      | Inr b' \<Rightarrow> swap_cycle src (dict_value dst dst src_dest_map) (AList.update dst dst src_dest_map) b')"

fun swap_cycles :: "nat list \<Rightarrow> (nat \<times> nat) list \<Rightarrow> input_batch \<Rightarrow> input_batch res option" where
  "swap_cycles [] src_dest_map b = Some (Inr b)"
| "swap_cycles (src # srcs) src_dest_map b =
     (case map_of src_dest_map src of
        None \<Rightarrow> Some (Inl KeyError)
      | Some dst \<Rightarrow>
          (case swap_cycle src dst src_dest_map b of
             None \<Rightarrow> None
           | Some (Inl e) \<Rightarrow> Some (Inl e)
           | Some (Inr (src_dest_map', b')) \<Rightarrow> swap_cycles srcs src_dest_map' b'))"

text \<open>0 for a decode, 1 for an extended prompt, 2 for a new prompt.\<close>

definition req_region :: "int \<Rightarrow> int \<Rightarrow> int \<Rightarrow> nat" where
  "req_region decode_threshold scheduled computed =
     (let is_prefill = (computed = 0); is_extend = (scheduled > decode_threshold \<and> \<not> is_prefill)
      in if is_prefill then 2 else if is_extend then 1 else 0)"

definition target_region :: "nat \<Rightarrow> nat \<Rightarrow> nat \<Rightarrow> nat" where
  "target_region num_decodes num_extends i = (if i < num_decodes then 0 else if i < num_decodes + num_extends then 1 else 2)"

text \<open>The moves of the rows that are not in the region of their position.\<close>

definition reorder_moves :: "nat list \<Rightarrow> (nat \<times> nat) list" where
  "reorder_moves regions =
     (let num_decodes = length (filter (\<lambda>r. r = 0) regions); num_extends = length (filter (\<lambda>r. r = 1) regions);
          orig_indices = filter (\<lambda>i. regions ! i \<noteq> target_region num_decodes num_extends i) [0..<length regions]
      in zip (sort_key (\<lambda>i. regions ! i) orig_indices) orig_indices)"

definition row_regions :: "int \<Rightarrow> (string \<times> int) list \<Rightarrow> input_batch \<Rightarrow> nat list res" where
  "row_regions decode_threshold scheduled_tokens b =
     rbind (rmapv (\<lambda>r. case Option.bind r (map_of scheduled_tokens) of None \<Rightarrow> Inl KeyError | Some k \<Rightarrow> Inr k) (req_ids b)) (\<lambda>scheduled.
     Inr (map2 (req_region decode_threshold) scheduled (take (length (req_ids b)) (num_computed_tokens_cpu b))))"

definition reorder_batch_to_split_decodes_and_prefills ::
    "int \<Rightarrow> (string \<times> int) list \<Rightarrow> input_batch \<Rightarrow> (bool \<times> input_batch) res option" where
  "reorder_batch_to_split_decodes_and_prefills decode_threshold scheduled_tokens b =
     (case row_regions decode_threshold scheduled_tokens b of
        Inl e \<Rightarrow> Some (Inl e)
      | Inr regions \<Rightarrow>
          let src_dest_map = reorder_moves regions in
          if src_dest_map = [] then Some (Inr (False, b))
          else map_option (\<lambda>r. rbind r (\<lambda>b. Inr (True, b))) (swap_cycles (map fst src_dest_map) src_dest_map b))"

section \<open>The cycles end\<close>

lemma same_but_masks_refl [simp]: "same_but_masks f f"
  by (simp add: same_but_masks_def)

lemma same_but_masks_trans: "same_but_masks f g \<Longrightarrow> same_but_masks g h \<Longrightarrow> same_but_masks f h"
  by (simp add: same_but_masks_def)

text \<open>
  The rows of a batch while it is reordered: \<open>e i\<close> is the position that the request of row \<open>i\<close> still has to
  go to, and the rows that are already in place are left alone.  \<open>G\<close> gives the region of a request.
\<close>

record 'g goal =
  g_rows :: nat
  g_region :: "string \<Rightarrow> 'g"
  g_target :: "nat \<Rightarrow> 'g"
  g_view :: "string \<Rightarrow> row_state option"
  g_ids :: "string option list"
  g_fixed :: "nat set"

definition row_reaches :: "'g goal \<Rightarrow> (nat \<Rightarrow> nat) \<Rightarrow> input_batch \<Rightarrow> nat \<Rightarrow> bool" where
  "row_reaches g e b i \<longleftrightarrow> (\<exists>r. req_ids b ! i = Some r \<and> g_region g r = g_target g (e i))"

definition reordering :: "nat \<Rightarrow> nat \<Rightarrow> 'g goal \<Rightarrow> (nat \<Rightarrow> nat) \<Rightarrow> input_batch \<Rightarrow> bool" where
  "reordering n m g e b \<longleftrightarrow> batch_ok n m b \<and> length (req_ids b) = g_rows g \<and> inj_on e {..<g_rows g} \<and>
     (\<forall>i < g_rows g. e i < g_rows g \<and> row_reaches g e b i) \<and> same_but_masks (batch_view b) (g_view g) \<and>
     (\<forall>i \<in> g_fixed g. e i = i \<and> req_ids b ! i = g_ids g ! i)"

definition map_ahead :: "nat \<Rightarrow> nat list \<Rightarrow> (nat \<Rightarrow> nat) \<Rightarrow> (nat \<times> nat) list \<Rightarrow> bool" where
  "map_ahead N rest e d \<longleftrightarrow> (\<forall>i \<in> set rest. i < N \<and> map_of d i = Some (e i))"

lemma swap_once:
  assumes st: "reordering n m g e b" and src: "src < g_rows g" "e src \<noteq> src"
  shows "\<exists>b'. swap_states (int src) (int (e src)) b = Inr b' \<and> reordering n m g (e(src := e (e src), e src := e src)) b' \<and> e (e src) \<noteq> e src"
proof -
  let ?d = "e src"
  let ?e = "e(src := e ?d, ?d := ?d)"
  have inv: "batch_ok n m b" "length (req_ids b) = g_rows g" "inj_on e {..<g_rows g}"
    "\<And>i. i < g_rows g \<Longrightarrow> e i < g_rows g \<and> row_reaches g e b i" "same_but_masks (batch_view b) (g_view g)"
    "\<And>i. i \<in> g_fixed g \<Longrightarrow> e i = i \<and> req_ids b ! i = g_ids g ! i" using st by (auto simp: reordering_def)
  have d: "?d < g_rows g" using inv(4) src(1) by simp
  have moves: "e ?d \<noteq> ?d" using inj_onD [OF inv(3), of ?d src] src d by auto
  obtain r s where r: "req_ids b ! src = Some r" "g_region g r = g_target g ?d" and s: "req_ids b ! ?d = Some s" "g_region g s = g_target g (e ?d)"
    using inv(4) [OF src(1)] inv(4) [OF d] by (auto simp: row_reaches_def)
  from swap_states_view [OF inv(1) _ r(1) _ s(1)] inv(2) src d obtain b' where b': "swap_states (int src) (int ?d) b = Inr b'"
    "batch_ok n m b'" "req_ids b' = (req_ids b)[src := Some s, ?d := Some r]"
    "batch_view b' = (batch_view b)(r \<mapsto> (row_view b src)\<lparr>rv_sampling := (rv_sampling (row_view b src))
        \<lparr>sr_masked := sr_masked (rv_sampling (row_view b ?d))\<rparr>\<rparr>)" by auto
  have "batch_view b r = Some (row_view b src)" using view_of_row [of n b src r] inv(1,2) src(1) r(1) by (simp add: batch_ok_def)
  then have "same_but_masks (batch_view b') (batch_view b)" by (simp add: b'(4) same_but_masks_def unmask_def)
  then have "same_but_masks (batch_view b') (g_view g)" using inv(5) same_but_masks_trans by blast
  moreover have "inj_on ?e {..<g_rows g}"
    using inv(3) src d by (auto simp: inj_on_def split: if_splits)
  moreover have "?e i < g_rows g \<and> row_reaches g ?e b' i" if i: "i < g_rows g" for i
    using inv(2) inv(4) [OF i] inv(4) [OF d] src d r s i by (auto simp: row_reaches_def b'(3) nth_list_update)
  moreover have "?e i = i \<and> req_ids b' ! i = g_ids g ! i" if "i \<in> g_fixed g" for i
    using inv(6) [OF that] src moves by (auto simp: b'(3))
  ultimately have "reordering n m g ?e b'" using b'(2,3) inv(2) by (simp add: reordering_def)
  then show ?thesis using b'(1) moves by blast
qed

lemma swap_cycle_ends:
  assumes "reordering n m g e b" and "src < g_rows g" and "src \<notin> set rest" and "map_ahead (g_rows g) rest e d"
    and "\<forall>i < g_rows g. i \<noteq> src \<and> e i \<noteq> i \<longrightarrow> i \<in> set rest"
  shows "\<exists>d' b' e'. swap_cycle src (e src) d b = Some (Inr (d', b')) \<and> reordering n m g e' b' \<and> map_ahead (g_rows g) rest e' d' \<and>
    (\<forall>i < g_rows g. e' i \<noteq> i \<longrightarrow> i \<in> set rest)"
  using assms
proof (induction "card {i. i < g_rows g \<and> e i \<noteq> i}" arbitrary: e d b rule: less_induct)
  case less
  note st = less.prems(1)
  let ?dst = "e src"
  show ?case
  proof (cases "src = ?dst")
    case True
    then have "swap_cycle src ?dst d b = Some (Inr (d, b))" by (simp add: swap_cycle.simps)
    moreover have "\<forall>i < g_rows g. e i \<noteq> i \<longrightarrow> i \<in> set rest" using less.prems(5) True by metis
    ultimately show ?thesis using st less.prems(4) by blast
  next
    case False
    let ?e = "e(src := e ?dst, ?dst := ?dst)" and ?d = "AList.update ?dst ?dst d"
    from swap_once [OF st less.prems(2)] False obtain b1 where b1: "swap_states (int src) (int ?dst) b = Inr b1"
      "reordering n m g ?e b1" "e ?dst \<noteq> ?dst" by auto
    have dst: "?dst < g_rows g" using st less.prems(2) by (simp add: reordering_def)
    then have "?dst \<in> set rest" using less.prems(5) b1(3) False by metis
    then have nxt: "dict_value ?dst ?dst d = ?e src" using less.prems(4) False by (auto simp: map_ahead_def dict_value_def)
    have "{i. i < g_rows g \<and> ?e i \<noteq> i} \<subset> {i. i < g_rows g \<and> e i \<noteq> i}"
      using dst b1(3) False less.prems(2) by (auto split: if_splits)
    then have "card {i. i < g_rows g \<and> ?e i \<noteq> i} < card {i. i < g_rows g \<and> e i \<noteq> i}" by (simp add: psubset_card_mono)
    moreover have "map_ahead (g_rows g) rest ?e ?d" using less.prems(3,4) by (auto simp: map_ahead_def update_conv')
    moreover have "\<forall>i < g_rows g. i \<noteq> src \<and> ?e i \<noteq> i \<longrightarrow> i \<in> set rest" using less.prems(5) by simp
    ultimately obtain d' b' e' where "swap_cycle src (?e src) ?d b1 = Some (Inr (d', b'))" "reordering n m g e' b'"
      "map_ahead (g_rows g) rest e' d'" "\<forall>i < g_rows g. e' i \<noteq> i \<longrightarrow> i \<in> set rest"
      using less.hyps [OF _ b1(2) less.prems(2,3)] by blast
    moreover have "swap_cycle src ?dst d b = swap_cycle src (?e src) ?d b1"
      using False b1(1) nxt by (subst swap_cycle.simps) simp
    ultimately show ?thesis by metis
  qed
qed

lemma swap_cycles_end:
  assumes "reordering n m g e b" and "distinct srcs" and "map_ahead (g_rows g) srcs e d"
    and "\<forall>i < g_rows g. e i \<noteq> i \<longrightarrow> i \<in> set srcs"
  shows "\<exists>b'. swap_cycles srcs d b = Some (Inr b') \<and> reordering n m g id b'"
  using assms
proof (induction srcs arbitrary: e d b)
  case Nil
  then show ?case by (auto simp: reordering_def row_reaches_def id_def)
next
  case (Cons src srcs)
  have "map_ahead (g_rows g) srcs e d" "src < g_rows g" "map_of d src = Some (e src)" using Cons.prems(3) by (auto simp: map_ahead_def)
  moreover have "src \<notin> set srcs" "distinct srcs" using Cons.prems(2) by simp_all
  moreover have "\<forall>i < g_rows g. i \<noteq> src \<and> e i \<noteq> i \<longrightarrow> i \<in> set srcs" using Cons.prems(4) by auto
  ultimately obtain d' b' e' where one: "swap_cycle src (e src) d b = Some (Inr (d', b'))" "reordering n m g e' b'"
    "map_ahead (g_rows g) srcs e' d'" "\<forall>i < g_rows g. e' i \<noteq> i \<longrightarrow> i \<in> set srcs"
    using swap_cycle_ends [OF Cons.prems(1), of src srcs d] by metis
  from Cons.IH [OF one(2) _ one(3,4)] Cons.prems(2) obtain b2 where "swap_cycles srcs d' b' = Some (Inr b2)" "reordering n m g id b2"
    by (metis distinct.simps(2))
  moreover have "swap_cycles (src # srcs) d b = swap_cycles srcs d' b'" using one(1) \<open>map_of d src = Some (e src)\<close> by simp
  ultimately show ?case by metis
qed

section \<open>The plan of the moves\<close>

lemma target_blocks: "map (target_region nd ne) [0..<nd + ne + np] = replicate nd 0 @ replicate ne 1 @ replicate np 2"
proof (rule nth_equalityI)
  fix i assume "i < length (map (target_region nd ne) [0..<nd + ne + np])"
  then show "map (target_region nd ne) [0..<nd + ne + np] ! i = (replicate nd 0 @ replicate ne 1 @ replicate np 2) ! i"
    by (simp add: target_region_def nth_append) arith
qed simp

lemma regions_counted:
  assumes "set rs \<subseteq> {..2::nat}"
  shows "map (target_region (length (filter (\<lambda>r. r = 0) rs)) (length (filter (\<lambda>r. r = 1) rs))) [0..<length rs] = sort rs"
proof -
  let ?n = "\<lambda>k. length (filter (\<lambda>r. r = k) rs)"
  let ?blocks = "replicate (?n 0) 0 @ replicate (?n 1) 1 @ replicate (?n 2) (2::nat)"
  have "mset (replicate (?n 0) 0 @ replicate (?n 1) 1 @ replicate (?n 2) 2) = mset rs"
    using assms
  proof (induction rs)
    case (Cons r rs)
    then consider "r = 0" | "r = 1" | "r = 2" by fastforce
    then show ?case using Cons by cases simp_all
  qed simp
  then have "mset ?blocks = mset rs" and len: "length rs = ?n 0 + ?n 1 + ?n 2"
    using mset_eq_length by (blast, fastforce)
  moreover have "sorted ?blocks" by (auto simp: sorted_append)
  ultimately have "sort rs = ?blocks" by (intro properties_for_sort) simp_all
  moreover have "map (target_region (?n 0) (?n 1)) [0..<length rs] = ?blocks"
    unfolding len by (rule target_blocks)
  ultimately show ?thesis by simp
qed

lemma target_region_mono: "mono (target_region nd ne)"
  by (auto simp: mono_def target_region_def)

text \<open>The requests in the wrong region are exactly enough for the places they are in.\<close>

lemma wrong_places_match:
  fixes rs :: "nat list"
  assumes srt: "map t [0..<length rs] = sort rs" and mono: "mono t"
  defines "orig \<equiv> filter (\<lambda>i. rs ! i \<noteq> t i) [0..<length rs]"
  shows "map (\<lambda>i. rs ! i) (sort_key (\<lambda>i. rs ! i) orig) = map t orig"
proof -
  let ?right = "filter (\<lambda>i. rs ! i = t i) [0..<length rs]"
  have parts: "mset (map f [0..<length rs]) = mset (map f ?right) + mset (map f orig)" for f :: "nat \<Rightarrow> nat"
  proof -
    have "mset [0..<length rs] = mset ?right + mset orig"
      using multiset_partition [of "mset [0..<length rs]" "\<lambda>i. rs ! i = t i"] by (simp only: orig_def mset_filter)
    then have "image_mset f (mset [0..<length rs]) = image_mset f (mset ?right) + image_mset f (mset orig)" by (simp only: image_mset_union)
    then show ?thesis by (simp only: mset_map)
  qed
  have "map (\<lambda>i. rs ! i) ?right = map t ?right" by simp
  moreover have "mset (map (\<lambda>i. rs ! i) [0..<length rs]) = mset (map t [0..<length rs])" by (simp only: map_nth srt mset_sort)
  ultimately have "mset (map (\<lambda>i. rs ! i) orig) = mset (map t orig)"
    using parts [of "\<lambda>i. rs ! i"] parts [of t] by (metis add_left_cancel)
  then have "mset (map (\<lambda>i. rs ! i) (sort_key (\<lambda>i. rs ! i) orig)) = mset (map t orig)" by simp
  moreover have "sorted (map t orig)"
    unfolding orig_def using mono by (intro sorted_map_mono) (auto simp: sorted_wrt_filter mono_def intro: mono_onI)
  ultimately show ?thesis by (metis properties_for_sort sorted_sort_key sorted_sort_id)
qed

definition planned :: "nat list \<Rightarrow> nat \<Rightarrow> nat" where
  "planned rs i = dict_value i i (reorder_moves rs)"

lemma reorder_plan:
  assumes rs: "set rs \<subseteq> {..2}"
  shows "distinct (map fst (reorder_moves rs))"
    and "map_ahead (length rs) (map fst (reorder_moves rs)) (planned rs) (reorder_moves rs)"
    and "i < length rs \<Longrightarrow> planned rs i < length rs \<and> rs ! i = sort rs ! planned rs i"
    and "inj_on (planned rs) {..<length rs}"
    and "planned rs i \<noteq> i \<Longrightarrow> i \<in> set (map fst (reorder_moves rs))"
    and "i < length rs \<Longrightarrow> rs ! i = sort rs ! i \<Longrightarrow> planned rs i = i"
    and "reorder_moves rs = [] \<longleftrightarrow> sort rs = rs"
proof -
  let ?t = "target_region (length (filter (\<lambda>r. r = 0) rs)) (length (filter (\<lambda>r. r = 1) rs))"
  define orig where "orig = filter (\<lambda>i. rs ! i \<noteq> ?t i) [0..<length rs]"
  define srcs where "srcs = sort_key (\<lambda>i. rs ! i) orig"
  have mv: "reorder_moves rs = zip srcs orig" by (simp add: reorder_moves_def orig_def srcs_def Let_def)
  have len: "length srcs = length orig" by (simp add: srcs_def)
  have srt: "map ?t [0..<length rs] = sort rs" by (rule regions_counted [OF rs])
  have t: "?t i = sort rs ! i" if "i < length rs" for i using that by (simp flip: srt)
  have same: "set srcs = set orig" "distinct srcs" "distinct orig" by (simp_all add: srcs_def orig_def)
  have orig: "i \<in> set orig \<longleftrightarrow> i < length rs \<and> rs ! i \<noteq> sort rs ! i" for i using t by (auto simp: orig_def)
  have keys: "map fst (reorder_moves rs) = srcs" using len by (simp add: mv)
  have at: "map_of (zip srcs orig) (srcs ! k) = Some (orig ! k)" if "k < length orig" for k
    using that len same(2) by (simp add: map_of_zip_nth)
  have out: "planned rs i = i" if "i \<notin> set srcs" for i
  proof -
    have "map_of (zip srcs orig) i = None" using that len by (simp add: map_of_zip_is_None)
    then show ?thesis by (simp add: planned_def mv dict_value_def)
  qed
  have on: "planned rs (srcs ! k) = orig ! k" if "k < length orig" for k using at [OF that] by (simp add: planned_def mv dict_value_def)
  have regions: "map (\<lambda>i. rs ! i) srcs = map ?t orig"
    unfolding srcs_def orig_def by (rule wrong_places_match [OF srt target_region_mono])
  show "distinct (map fst (reorder_moves rs))" using keys same(2) by simp
  have ahead: "i < length rs \<and> map_of (reorder_moves rs) i = Some (planned rs i)" if i: "i \<in> set srcs" for i
  proof -
    obtain k where "k < length orig" "i = srcs ! k" using i len by (auto simp: in_set_conv_nth)
    then show ?thesis using at on i same(1) orig by (simp add: mv)
  qed
  then show "map_ahead (length rs) (map fst (reorder_moves rs)) (planned rs) (reorder_moves rs)" by (simp add: map_ahead_def keys)
  show "planned rs i < length rs \<and> rs ! i = sort rs ! planned rs i" if i: "i < length rs" for i
  proof (cases "i \<in> set srcs")
    case True
    then obtain k where k: "k < length orig" "i = srcs ! k" using len by (auto simp: in_set_conv_nth)
    then have "orig ! k < length rs" using orig nth_mem by blast
    moreover have "rs ! (srcs ! k) = ?t (orig ! k)" using arg_cong [OF regions, of "\<lambda>l. l ! k"] k(1) len by simp
    ultimately show ?thesis using on [OF k(1)] k(2) t by simp
  next
    case False
    then show ?thesis using i out [OF False] orig same(1) by auto
  qed
  show "inj_on (planned rs) {..<length rs}"
  proof (rule inj_onI)
    fix i j assume eq: "planned rs i = planned rs j"
    have inside: "planned rs l \<in> set orig \<longleftrightarrow> l \<in> set srcs" for l
      using out [of l] on len same(1) by (metis in_set_conv_nth nth_mem)
    show "i = j"
    proof (cases "i \<in> set srcs")
      case True
      then have "j \<in> set srcs" using inside eq by metis
      then show ?thesis using True eq on len same(3) by (metis in_set_conv_nth nth_eq_iff_index_eq)
    next
      case False
      then have "j \<notin> set srcs" using inside eq by metis
      then show ?thesis using eq out False by simp
    qed
  qed
  show "planned rs i \<noteq> i \<Longrightarrow> i \<in> set (map fst (reorder_moves rs))" using out keys by auto
  show "planned rs i = i" if "i < length rs" "rs ! i = sort rs ! i" using that out orig same(1) by blast
  have "reorder_moves rs = [] \<longleftrightarrow> orig = []" using len by (cases orig) (auto simp: mv)
  also have "\<dots> \<longleftrightarrow> (\<forall>i < length rs. rs ! i = sort rs ! i)" using orig by (metis (no_types) emptyE empty_set last_in_set)
  also have "\<dots> \<longleftrightarrow> sort rs = rs" by (metis length_sort nth_equalityI)
  finally show "reorder_moves rs = [] \<longleftrightarrow> sort rs = rs" .
qed

section \<open>The batch is split\<close>

definition region_of :: "int \<Rightarrow> (string \<times> int) list \<Rightarrow> (string \<Rightarrow> row_state option) \<Rightarrow> string \<Rightarrow> nat" where
  "region_of thr sched view r = req_region thr (the (map_of sched r)) (the (map_option rv_num_computed (view r)))"

lemma region_of_same: "same_but_masks f g \<Longrightarrow> region_of thr sched f = region_of thr sched g"
  using same_but_masksD [of f g rv_num_computed] by (simp add: region_of_def fun_eq_iff unmask_def)

lemma no_gap: "None \<notin> set xs \<Longrightarrow> i < length xs \<Longrightarrow> \<exists>r. xs ! i = Some r"
  by (metis not_None_eq nth_mem)

lemma row_regions_dense:
  assumes ok: "batch_ok n m b" and d: "None \<notin> set (req_ids b)" and sched: "dom (batch_view b) \<subseteq> dom (map_of sched)"
  shows "row_regions thr sched b = Inr (map (\<lambda>r. region_of thr sched (batch_view b) (the r)) (req_ids b))"
proof -
  let ?N = "length (req_ids b)"
  have lists: "lists_ok n b" and len: "length (num_computed_tokens_cpu b) = n" "?N \<le> n"
    using ok by (simp_all add: batch_ok_def arrays_ok_def lists_ok_def)
  have row: "\<exists>r k. req_ids b ! i = Some r \<and> batch_view b r = Some (row_view b i) \<and> map_of sched r = Some k" if "i < ?N" for i
  proof -
    from no_gap [OF d that] obtain r where r: "req_ids b ! i = Some r" ..
    then have "batch_view b r = Some (row_view b i)" by (rule view_of_row [OF lists that])
    then show ?thesis using r sched by blast
  qed
  have "rmapv (\<lambda>r. case Option.bind r (map_of sched) of None \<Rightarrow> Inl KeyError | Some k \<Rightarrow> Inr k) (req_ids b)
      = Inr (map (\<lambda>r. the (map_of sched (the r))) (req_ids b))"
  proof (rule rmapv_pure)
    fix r assume "r \<in> set (req_ids b)"
    then obtain i where "i < ?N" "r = req_ids b ! i" by (auto simp: in_set_conv_nth)
    then show "(case Option.bind r (map_of sched) of None \<Rightarrow> Inl KeyError | Some k \<Rightarrow> Inr k) = Inr (the (map_of sched (the r)))"
      using row by fastforce
  qed
  moreover have "map2 (req_region thr) (map (\<lambda>r. the (map_of sched (the r))) (req_ids b)) (take ?N (num_computed_tokens_cpu b)) =
      map (\<lambda>r. region_of thr sched (batch_view b) (the r)) (req_ids b)"
  proof (rule nth_equalityI)
    fix i assume "i < length (map2 (req_region thr) (map (\<lambda>r. the (map_of sched (the r))) (req_ids b)) (take ?N (num_computed_tokens_cpu b)))"
    then have i: "i < ?N" by simp
    obtain r where "req_ids b ! i = Some r" "batch_view b r = Some (row_view b i)" using row [OF i] by blast
    then show "map2 (req_region thr) (map (\<lambda>r. the (map_of sched (the r))) (req_ids b)) (take ?N (num_computed_tokens_cpu b)) ! i =
        map (\<lambda>r. region_of thr sched (batch_view b) (the r)) (req_ids b) ! i"
      using i len by (simp add: region_of_def row_view_def Let_def)
  qed (use len in simp)
  ultimately show ?thesis by (simp add: row_regions_def)
qed

lemma reorder_ends:
  assumes ok: "batch_ok n m b" and d: "dense b" and sched: "dom (batch_view b) \<subseteq> dom (map_of sched)"
  shows "\<exists>regions changed b'. row_regions thr sched b = Inr regions \<and>
    reorder_batch_to_split_decodes_and_prefills thr sched b = Some (Inr (changed, b')) \<and>
    row_regions thr sched b' = Inr (sort regions) \<and> (changed \<longleftrightarrow> sort regions \<noteq> regions) \<and>
    batch_ok n m b' \<and> dense b' \<and> same_but_masks (batch_view b') (batch_view b) \<and>
    (\<forall>i < length regions. sort regions ! i = regions ! i \<longrightarrow> req_ids b' ! i = req_ids b ! i)"
proof -
  let ?G = "region_of thr sched (batch_view b)" and ?N = "length (req_ids b)"
  define rs where "rs = map (\<lambda>r. ?G (the r)) (req_ids b)"
  have none: "None \<notin> set (req_ids b)" using d by (simp add: dense_def)
  have regions: "row_regions thr sched b = Inr rs" unfolding rs_def by (rule row_regions_dense [OF ok none sched])
  have N: "length rs = ?N" by (simp add: rs_def)
  have small: "set rs \<subseteq> {..2}" by (auto simp: rs_def region_of_def req_region_def Let_def)
  note plan = reorder_plan [OF small]
  show ?thesis
  proof (cases "reorder_moves rs = []")
    case True
    then have "sort rs = rs" using plan(7) by simp
    moreover have "reorder_batch_to_split_decodes_and_prefills thr sched b = Some (Inr (False, b))"
      using regions True by (simp add: reorder_batch_to_split_decodes_and_prefills_def)
    ultimately show ?thesis using regions ok d by (intro exI [of _ rs] exI [of _ False] exI [of _ b]) simp
  next
    case False
    define g where "g = \<lparr>g_rows = ?N, g_region = ?G, g_target = (\<lambda>i. sort rs ! i), g_view = batch_view b, g_ids = req_ids b,
      g_fixed = {i. i < ?N \<and> rs ! i = sort rs ! i}\<rparr>"
    have "row_reaches g (planned rs) b i" if i: "i < ?N" for i
    proof -
      from no_gap [OF none i] obtain r where r: "req_ids b ! i = Some r" ..
      then have "rs ! i = ?G r" using i by (simp add: rs_def)
      then show ?thesis using plan(3) [of i] i N r by (simp add: row_reaches_def g_def)
    qed
    moreover have "planned rs i = i" if "i \<in> g_fixed g" for i using plan(6) that N by (simp add: g_def)
    ultimately have "reordering n m g (planned rs) b"
      using ok plan(3,4) N by (auto simp: reordering_def g_def)
    moreover have "map_ahead (g_rows g) (map fst (reorder_moves rs)) (planned rs) (reorder_moves rs)" using plan(2) N by (simp add: g_def)
    ultimately obtain b' where b': "swap_cycles (map fst (reorder_moves rs)) (reorder_moves rs) b = Some (Inr b')" "reordering n m g id b'"
      using swap_cycles_end [OF _ plan(1)] plan(5) by blast
    have at: "\<exists>r. req_ids b' ! i = Some r \<and> ?G r = sort rs ! i" if "i < ?N" for i
      using b'(2) that by (simp add: reordering_def row_reaches_def g_def)
    have fin: "batch_ok n m b'" "length (req_ids b') = ?N" "same_but_masks (batch_view b') (batch_view b)"
      "\<forall>i < ?N. sort rs ! i = rs ! i \<longrightarrow> req_ids b' ! i = req_ids b ! i" using b'(2) by (simp_all add: reordering_def g_def)
    have none': "None \<notin> set (req_ids b')" using at fin(2) by (metis in_set_conv_nth option.distinct(1))
    have "dom (batch_view b') = dom (batch_view b)" using same_but_masks_dom [OF fin(3)] by (simp add: dom_def)
    then have "row_regions thr sched b' = Inr (map (\<lambda>r. ?G (the r)) (req_ids b'))"
      using row_regions_dense [OF fin(1) none'] sched region_of_same [OF fin(3)] by simp
    moreover have "map (\<lambda>r. ?G (the r)) (req_ids b') = sort rs"
      using at fin(2) N by (intro nth_equalityI) (auto, metis option.sel)
    moreover have "{k. k < length (req_ids b') \<and> req_ids b' ! k \<noteq> None} = {..<length (req_ids b')}"
      using none' by (auto simp: in_set_conv_nth)
    then have "dense b'" using none' num_reqs_card [of n b'] fin(1) by (simp add: dense_def py_len_def batch_ok_def)
    moreover have "sort rs \<noteq> rs" using False plan(7) by simp
    moreover have "reorder_batch_to_split_decodes_and_prefills thr sched b = Some (Inr (True, b'))"
      using regions False b'(1) by (simp add: reorder_batch_to_split_decodes_and_prefills_def)
    ultimately show ?thesis using regions fin N by (intro exI [of _ rs] exI [of _ True] exI [of _ b']) simp
  qed
qed

text \<open>C6.
  Reordering the batch for an attention backend ends and succeeds: the requests stand in the order of
  their regions (decodes, then extended prompts, then new prompts), every request keeps the state of its
  row up to the mask of allowed tokens, a row that is already in its region is left alone, and the result
  tells whether anything had to move.
\<close>

theorem reorder_sorts_regions:
  assumes "batch_ok n m b" and "dense b" and "dom (batch_view b) \<subseteq> dom (map_of sched)"
  shows "\<exists>regions changed b'. row_regions thr sched b = Inr regions \<and>
    reorder_batch_to_split_decodes_and_prefills thr sched b = Some (Inr (changed, b')) \<and>
    row_regions thr sched b' = Inr (sort regions) \<and> (changed \<longleftrightarrow> sort regions \<noteq> regions) \<and>
    batch_ok n m b' \<and> dense b' \<and> same_but_masks (batch_view b') (batch_view b) \<and>
    (\<forall>i < length regions. sort regions ! i = regions ! i \<longrightarrow> req_ids b' ! i = req_ids b ! i)"
  by (rule reorder_ends [OF assms])

section \<open>Two requests\<close>

text \<open>A new prompt of two tokens and, in the second row, a request that decodes.\<close>

definition demo_decode :: cached_request where
  "demo_decode = (demo_cached ''b'' (Some [1]) None)\<lparr>cr_num_computed_tokens := 2\<rparr>"

definition demo_mixed :: "(string option list \<times> nat list \<times> bool list list option) res" where
  "demo_mixed = rbind demo_batch (\<lambda>b.
     rbind (update_batch id False [] [demo_cached ''a'' None None, demo_decode] [] b) (\<lambda>(_, _, b1).
     rbind (row_regions 1 [(''a'', 2), (''b'', 1)] b1) (\<lambda>rs. Inr (req_ids b1, rs, allowed_token_ids_mask_cpu (samp b1)))))"

lemma demo_mixed_value:
  "demo_mixed = Inr ([Some ''a'', Some ''b''], [2, 0], Some [[False, False, False, False], [True, False, True, True]])"
  by code_simp

lemma computed_fits: "step_request m fr drafts (q\<lparr>cr_num_computed_tokens := k\<rparr>) = step_request m fr drafts q"
  by (simp add: step_request_def request_fits_def cr_num_tokens_def cong: option.case_cong)

lemma demo_mixed_made:
  "\<exists>b u m b1. demo_batch = Inr b \<and> update_batch id False [] [demo_cached ''a'' None None, demo_decode] [] b = Inr (u, m, b1) \<and>
    batch_ok 2 8 b1 \<and> dense b1 \<and> dom (batch_view b1) = {''a'', ''b''} \<and> req_ids b1 = [Some ''a'', Some ''b''] \<and>
    row_regions 1 [(''a'', 2), (''b'', 1)] b1 = Inr [2, 0] \<and>
    allowed_token_ids_mask_cpu (samp b1) = Some [[False, False, False, False], [True, False, True, True]]"
proof -
  let ?a = "demo_cached ''a'' None None"
  let ?fr = "(4, [(True, 2, 4)]) :: int \<times> table_shape list"
  obtain b where b: "demo_batch = Inr b" "frame_of b = ?fr" "step_ok 2 8 b" "\<not> is_removed_sorted (builder b)"
    "batch_view b = (\<lambda>_. None)" using demo_batch_made by blast
  have ids: "cr_req_id ?a = ''a''" "cr_req_id demo_decode = ''b''" by (simp_all add: demo_cached_def demo_decode_def)
  have "step_request 8 ?fr [] ?a" "step_request 8 ?fr [] (demo_cached ''b'' (Some [1]) None)"
    by (simp_all add: demo_request_fits [of _ _ "''x''"] dict_value_def)
  then have fits: "step_request 8 ?fr [] ?a" "step_request 8 ?fr [] demo_decode" by (simp_all add: demo_decode_def computed_fits)
  from update_batch_ok [OF b(3,4), of "[?a, demo_decode]" "[]" "[]" id False] b(2,5) fits
  obtain u m b1 where b1: "update_batch id False [] [?a, demo_decode] [] b = Inr (u, m, b1)" "step_ok 2 8 b1" "dense b1"
    "same_but_masks (batch_view b1) (batch_view b |` (- set []) ++ added_rows id ?fr [] [?a, demo_decode])" by (auto simp: ids)
  have "batch_view b1 r = None \<longleftrightarrow> r \<noteq> ''a'' \<and> r \<noteq> ''b''" for r
    using same_but_masks_dom [OF b1(4)] b(5) by (auto simp: added_rows_def ids)
  then have "dom (batch_view b1) = {''a'', ''b''}" by (auto simp: dom_def)
  moreover have "rbind (row_regions 1 [(''a'', 2), (''b'', 1)] b1) (\<lambda>rs. Inr (req_ids b1, rs, allowed_token_ids_mask_cpu (samp b1))) =
      Inr ([Some ''a'', Some ''b''], [2, 0], Some [[False, False, False, False], [True, False, True, True]])"
    using demo_mixed_value unfolding demo_mixed_def b(1) rbind_Inr b1(1) prod.case by simp
  ultimately show ?thesis using b(1) b1 by (auto simp: res_simps step_ok_def)
qed

theorem reorder_sorts_regions_witness:
  "\<exists>b u m b1 b2. demo_batch = Inr b \<and> update_batch id False [] [demo_cached ''a'' None None, demo_decode] [] b = Inr (u, m, b1) \<and>
    row_regions 1 [(''a'', 2), (''b'', 1)] b1 = Inr [2, 0] \<and>
    reorder_batch_to_split_decodes_and_prefills 1 [(''a'', 2), (''b'', 1)] b1 = Some (Inr (True, b2)) \<and>
    row_regions 1 [(''a'', 2), (''b'', 1)] b2 = Inr [0, 2]"
proof -
  obtain b u m b1 where b1: "demo_batch = Inr b" "update_batch id False [] [demo_cached ''a'' None None, demo_decode] [] b = Inr (u, m, b1)"
    "batch_ok 2 8 b1" "dense b1" "dom (batch_view b1) = {''a'', ''b''}" "row_regions 1 [(''a'', 2), (''b'', 1)] b1 = Inr [2, 0]"
    using demo_mixed_made by (elim exE conjE) (rule that)
  have "dom (batch_view b1) \<subseteq> dom (map_of [(''a'', 2::int), (''b'', 1)])" using b1(5) by auto
  from reorder_sorts_regions [OF b1(3,4) this, of 1] b1(6) obtain b2 where
    "reorder_batch_to_split_decodes_and_prefills 1 [(''a'', 2), (''b'', 1)] b1 = Some (Inr (True, b2))"
    "row_regions 1 [(''a'', 2), (''b'', 1)] b2 = Inr [0, 2]" by auto
  then show ?thesis using b1(1,2,6) by (intro exI [of _ b] exI [of _ u] exI [of _ m] exI [of _ b1] exI [of _ b2]) simp
qed

theorem swap_states_merges_masks_witness:
  "\<exists>b u m b1 b2 v w. demo_batch = Inr b \<and> update_batch id False [] [demo_cached ''a'' None None, demo_decode] [] b = Inr (u, m, b1) \<and>
    swap_states 0 1 b1 = Inr b2 \<and> req_ids b2 = [Some ''b'', Some ''a''] \<and> batch_view b2 ''a'' = Some v \<and> batch_view b2 ''b'' = Some w \<and>
    sr_masked (rv_sampling (row_view b1 0)) = {} \<and> sr_masked (rv_sampling v) = {t. t < 4 \<and> t \<noteq> 1} \<and> sr_masked (rv_sampling w) = {t. t < 4 \<and> t \<noteq> 1}"
proof -
  obtain b u m b1 where b1: "demo_batch = Inr b" "update_batch id False [] [demo_cached ''a'' None None, demo_decode] [] b = Inr (u, m, b1)"
    "batch_ok 2 8 b1" "req_ids b1 = [Some ''a'', Some ''b'']"
    "allowed_token_ids_mask_cpu (samp b1) = Some [[False, False, False, False], [True, False, True, True]]"
    using demo_mixed_made by (elim exE conjE) (rule that)
  have rows: "{t. t < length row \<and> row ! t} = {}" if "row = [False, False, False, False]" for row
    using that by (auto simp: nth_Cons' split: if_splits)
  have "{t. t < length row \<and> row ! t} = {t. t < 4 \<and> t \<noteq> 1}" if "row = [True, False, True, True]" for row
    using that by (auto simp: nth_Cons' split: if_splits)
  then have masks: "sr_masked (rv_sampling (row_view b1 0)) = {}" "sr_masked (rv_sampling (row_view b1 1)) = {t. t < 4 \<and> t \<noteq> 1}"
    using b1(5) rows by (simp_all add: row_view_def Let_def sampling_row_at_def masked_tokens_def)
  have "batch_view b1 ''b'' = Some (row_view b1 1)" using view_of_row [of 2 b1 1 "''b''"] b1(3,4) by (simp add: batch_ok_def)
  moreover obtain b2 where "swap_states 0 1 b1 = Inr b2" "req_ids b2 = [Some ''b'', Some ''a'']"
    "batch_view b2 = (batch_view b1)(''a'' \<mapsto> (row_view b1 0)\<lparr>rv_sampling := (rv_sampling (row_view b1 0))
        \<lparr>sr_masked := sr_masked (rv_sampling (row_view b1 1))\<rparr>\<rparr>)"
    using swap_states_merges_masks [OF b1(3), of 0 "''a''" 1 "''b''"] b1(4) by auto
  ultimately show ?thesis using b1(1,2) masks
    by (intro exI [of _ b] exI [of _ u] exI [of _ m] exI [of _ b1] exI [of _ b2] exI [of _ "the (batch_view b2 ''a'')"]
        exI [of _ "row_view b1 1"]) simp
qed

end
