(* ===== verification/Batch_Split.thy ===== *)
theory Batch_Split
  imports Prelude
begin

text \<open>
  How the attention backends read a batch that is in order (\<^verbatim>\<open>vllm/v1/attention/backends/utils.py\<close>): what they
  count as decodes, extended prompts and new prompts, and the chunks of prompts that fit a workspace.
\<close>

section \<open>Boundaries\<close>







section \<open>The counts\<close>












section \<open>Chunks of prompts\<close>

text \<open>The inner loop: requests are added while the total fits.\<close>

function grow_chunk :: "int list \<Rightarrow> int \<Rightarrow> nat \<Rightarrow> int \<Rightarrow> nat" where
  "grow_chunk seq_lens workspace_size i chunk_total =
     (if i < length seq_lens \<and> chunk_total + seq_lens ! i \<le> workspace_size
      then grow_chunk seq_lens workspace_size (i + 1) (chunk_total + seq_lens ! i)
      else i)"
  by auto
termination by (relation "measure (\<lambda>(xs, _, i, _). length xs - i)") auto

declare grow_chunk.simps [simp del]

partial_function (option) chunk_loop :: "int list \<Rightarrow> int \<Rightarrow> int \<Rightarrow> nat \<Rightarrow> (int \<times> int) list \<Rightarrow> (int \<times> int) list option" where
  "chunk_loop seq_lens workspace_size request_offset i chunk_bounds =
     (if i < length seq_lens then
        let start = i; i' = grow_chunk seq_lens workspace_size i 0 in
        chunk_loop seq_lens workspace_size request_offset i' (chunk_bounds @ [(int start + request_offset, int i' + request_offset)])
      else Some chunk_bounds)"

definition split_prefill_chunks :: "int list \<Rightarrow> int \<Rightarrow> int \<Rightarrow> (int \<times> int) list res option" where
  "split_prefill_chunks seq_lens workspace_size request_offset =
     (if \<forall>s \<in> set seq_lens. s \<le> workspace_size
      then map_option Inr (chunk_loop seq_lens workspace_size request_offset 0 [])
      else Some (Inl AssertionError))"

lemma grow_chunk_spec:
  assumes "i \<le> length xs" and "t \<le> w"
  shows "i \<le> grow_chunk xs w i t \<and> grow_chunk xs w i t \<le> length xs \<and>
    t + sum_list (take (grow_chunk xs w i t - i) (drop i xs)) \<le> w \<and>
    (grow_chunk xs w i t < length xs \<longrightarrow> t + sum_list (take (Suc (grow_chunk xs w i t) - i) (drop i xs)) > w)"
  using assms
proof (induction xs w i t rule: grow_chunk.induct)
  case (1 xs w i t)
  show ?case
  proof (cases "i < length xs \<and> t + xs ! i \<le> w")
    case True
    let ?j = "grow_chunk xs w (i + 1) (t + xs ! i)"
    have j: "grow_chunk xs w i t = ?j" using True by (simp add: grow_chunk.simps [of xs w i t])
    have IH: "i + 1 \<le> ?j" "?j \<le> length xs" "t + xs ! i + sum_list (take (?j - (i + 1)) (drop (i + 1) xs)) \<le> w"
      "?j < length xs \<longrightarrow> t + xs ! i + sum_list (take (Suc ?j - (i + 1)) (drop (i + 1) xs)) > w" using "1.IH" [OF True] True by simp_all
    have one: "sum_list (take (k - i) (drop i xs)) = xs ! i + sum_list (take (k - (i + 1)) (drop (i + 1) xs))" if "i < k" for k
      using that True Cons_nth_drop_Suc [of i xs, symmetric] Suc_diff_Suc [OF that, symmetric] by simp
    show ?thesis unfolding j using IH one [of ?j] one [of "Suc ?j"] by (simp add: add.assoc)
  next
    case False
    then have "grow_chunk xs w i t = i" by (subst grow_chunk.simps) (rule if_not_P)
    then show ?thesis using False "1.prems" by (auto simp: Suc_diff_le Cons_nth_drop_Suc [of i xs, symmetric])
  qed
qed

definition chunk_ok :: "int list \<Rightarrow> int \<Rightarrow> int \<Rightarrow> int \<times> int \<Rightarrow> bool" where
  "chunk_ok xs w off c \<longleftrightarrow> (\<exists>a b. c = (int a + off, int b + off) \<and> a < b \<and> b \<le> length xs \<and>
     sum_list (take (b - a) (drop a xs)) \<le> w \<and> (b < length xs \<longrightarrow> sum_list (take (Suc b - a) (drop a xs)) > w))"

lemma chunk_loop_ends:
  assumes fits: "\<forall>s \<in> set xs. s \<le> w" "0 \<le> w" and i: "i \<le> length xs"
  shows "\<exists>cs. chunk_loop xs w off i bs = Some (bs @ cs) \<and>
    concat (map (\<lambda>(a, b). [a..b - 1]) cs) = [int i + off..py_len xs + off - 1] \<and> (\<forall>c \<in> set cs. chunk_ok xs w off c)"
  using i
proof (induction "length xs - i" arbitrary: i bs rule: less_induct)
  case less
  show ?case
  proof (cases "i < length xs")
    case True
    let ?j = "grow_chunk xs w i 0"
    have fit: "xs ! i \<le> w" using fits True by simp
    have j: "i \<le> ?j" "?j \<le> length xs" "sum_list (take (?j - i) (drop i xs)) \<le> w"
      "?j < length xs \<longrightarrow> sum_list (take (Suc ?j - i) (drop i xs)) > w"
      using grow_chunk_spec [of i xs 0 w] True fits(2) by simp_all
    have "?j \<noteq> i" using j(4) True fit Cons_nth_drop_Suc [of i xs, symmetric] by auto
    then have lt: "i < ?j" using j(1) by simp
    then obtain cs where cs: "chunk_loop xs w off ?j (bs @ [(int i + off, int ?j + off)]) = Some ((bs @ [(int i + off, int ?j + off)]) @ cs)"
      "concat (map (\<lambda>(a, b). [a..b - 1]) cs) = [int ?j + off..py_len xs + off - 1]" "\<forall>c \<in> set cs. chunk_ok xs w off c"
      using less.hyps [OF _ j(2), of "bs @ [(int i + off, int ?j + off)]"] diff_less_mono2 [OF lt True] by blast
    have "chunk_loop xs w off i bs = Some (bs @ (int i + off, int ?j + off) # cs)"
      using True cs(1) by (subst chunk_loop.simps) (simp add: Let_def)
    moreover have "[int i + off..py_len xs + off - 1] = [int i + off..int ?j + off - 1] @ [int ?j + off..py_len xs + off - 1]"
      using upto_split1 [of "int i + off" "int ?j + off" "py_len xs + off - 1"] upto_split2 lt j(2)
      by (cases "?j = length xs") (simp_all add: py_len_def)
    moreover have "chunk_ok xs w off (int i + off, int ?j + off)" using lt j by (auto simp: chunk_ok_def)
    ultimately show ?thesis using cs(2,3) by (intro exI [of _ "(int i + off, int ?j + off) # cs"]) simp
  next
    case False
    then show ?thesis using less.prems by (subst chunk_loop.simps) (simp add: py_len_def)
  qed
qed

section \<open>Properties\<close>




text \<open>C37.
  The chunks of the prompts follow each other and cover every request once, none is empty, the lengths of
  each add up to at most the workspace, and each is as long as it can be: the next request would not fit.
\<close>

theorem prefill_chunks_cover:
  assumes "\<forall>s \<in> set seq_lens. s \<le> workspace_size" and "0 \<le> workspace_size"
  shows "\<exists>chunks. split_prefill_chunks seq_lens workspace_size off = Some (Inr chunks) \<and>
    concat (map (\<lambda>(a, b). [a..b - 1]) chunks) = [off..off + py_len seq_lens - 1] \<and>
    (\<forall>c \<in> set chunks. chunk_ok seq_lens workspace_size off c)"
proof -
  obtain cs where "chunk_loop seq_lens workspace_size off 0 [] = Some cs"
    "concat (map (\<lambda>(a, b). [a..b - 1]) cs) = [off..off + py_len seq_lens - 1]" "\<forall>c \<in> set cs. chunk_ok seq_lens workspace_size off c"
    using chunk_loop_ends [OF assms, of 0 off "[]"] by (auto simp: add.commute)
  then show ?thesis using assms(1) by (simp add: split_prefill_chunks_def)
qed

theorem prefill_chunks_cover_witness:
  "\<exists>chunks. split_prefill_chunks [3, 4, 5, 2] 7 10 = Some (Inr chunks) \<and> concat (map (\<lambda>(a, b). [a..b - 1]) chunks) = [10, 11, 12, 13]"
proof -
  have "[10..13] = [10, 11, 12, 13::int]" by (simp add: upto.simps)
  then show ?thesis using prefill_chunks_cover [of "[3, 4, 5, 2]" 7 10] by (auto simp: py_len_def)
qed

end
