(* ===== verification/Spec2Isabelle.thy ===== *)
theory Spec2Isabelle
  imports KV_Properties Layer_Lengths Queue_Refinement Encoder_Scheduling Request_Queue_Facts Session_Facts Hash_Runs
    Engine_Safety Batch_Reorder Batch_Split
begin

text \<open>
  A verification development for UniPrefill: the fork of vLLM 0.16 under
  \<^verbatim>\<open>src/vllm-releases-v0.16.0/vllm\<close> in which the model drops the less important blocks of a
  prompt on the way through its layers.  Paths below are relative to that directory.

  \<^bold>\<open>The parts and how they interact.\<close>  The engine core takes new requests and aborts
  from its input queue and runs one step after the other: it lets the scheduler plan, the executor run
  the model, and the scheduler take over the sampled tokens.  In every step the scheduler asks the KV cache manager
  for slots, plans the encoder inputs of multi-modal requests and sends the step to the workers.  The
  KV cache manager hashes the full blocks of a request, looks for the longest cached prefix, and takes
  blocks from a pool with a free queue and a hash index; a coordinator passes its calls to one manager
  per group of layers, so that full attention, sliding windows, chunked local attention, Mamba and
  cross attention keep tables of their own.  In the worker the model runner marks which tokens of the
  step belong to prompts; a drop layer ranks the blocks of each prompt by their attention scores,
  selects those that carry the share p of the score, cuts the hidden states and writes the new borders
  and slots into the attention metadata of the later layers; the runner records the lengths that each
  layer has left, from which later decode steps compute the KV length and the slot of each layer.

  \<^bold>\<open>Theories and the code they model.\<close>
  \<^item> \<open>Prelude\<close>: Python exceptions as values (\<open>Inl e\<close>), fallible loops, slices, integer helpers
    (\<^verbatim>\<open>utils/math_utils.py\<close>).
  \<^item> \<open>Block_Hash\<close>, \<open>Request_Hash\<close>, \<open>Hash_Facts\<close>, \<open>Hash_Runs\<close>: block hash keys, the extra keys
    of a block, hashing of requests (\<^verbatim>\<open>v1/core/kv_cache_utils.py\<close>, \<^verbatim>\<open>v1/request.py\<close>).  \<open>Hash_Facts\<close> is about
    requests of text, \<open>Hash_Runs\<close> about requests with any inputs: incremental hashing is hashing from scratch
    when the multi-modal inputs are behind; without collisions equal hashes mean equal prefixes and extra
    keys; a block completed by output tokens forgets all inputs but the last one.
  \<^item> \<open>Free_Queue\<close>, \<open>Queue_Refinement\<close>: the doubly linked free queue on an explicit heap
    (\<^verbatim>\<open>v1/core/kv_cache_utils.py\<close>) and its refinement of a list.
  \<^item> \<open>Block_Pool\<close>, \<open>Pool_Inv\<close>: the hash index and the pool (\<^verbatim>\<open>v1/core/block_pool.py\<close>)
    and their invariant: reference counts, free blocks and index agree.
  \<^item> \<open>KV_Cache_Interface\<close>, \<open>KV_Cache_Config\<close>, \<open>KV_Config_Facts\<close>: the specifications of
    the layers (\<^verbatim>\<open>v1/kv_cache_interface.py\<close>), memory checks, grouping and worker configurations
    (\<^verbatim>\<open>v1/core/kv_cache_utils.py\<close>): the tensors fit, the groups partition the layers.
  \<^item> \<open>Single_Type_Manager\<close>, \<open>KV_Coordinator\<close>, \<open>KV_Manager\<close>: the managers of a group
    (\<^verbatim>\<open>v1/core/single_type_kv_cache_manager.py\<close>), the coordinators
    (\<^verbatim>\<open>v1/core/kv_cache_coordinator.py\<close>), the manager the scheduler calls
    (\<^verbatim>\<open>v1/core/kv_cache_manager.py\<close>).
  \<^item> \<open>Manager_Inv\<close>, \<open>Coordinator_Inv\<close>, \<open>Cache_Hit\<close>, \<open>Allocation\<close>, \<open>KV_System\<close>,
    \<open>KV_Properties\<close>: the invariant of the whole KV cache, that lookups keep to it, that
    \<open>allocate_slots\<close> never raises and grants what it promises, the step relation of all calls,
    and the properties of its reachable states.
  \<^item> \<open>Encoder_Cache\<close>, \<open>Encoder_Cache_Facts\<close>, \<open>Encoder_Scheduling\<close>: the cache of encoder
    outputs (\<^verbatim>\<open>v1/core/encoder_cache_manager.py\<close>), the planning of encoder inputs
    (\<^verbatim>\<open>v1/core/sched/scheduler.py\<close>) and what the runner gathers
    (\<^verbatim>\<open>v1/worker/gpu_model_runner.py\<close>): a plan can be allocated and serves the step.
  \<^item> \<open>Request_Queue\<close>, \<open>Request_Queue_Facts\<close>: the queues of waiting requests
    (\<^verbatim>\<open>v1/core/sched/request_queue.py\<close>), with the heap of Python's library: heaps stay heaps,
    iteration is in priority order, nothing is lost.
  \<^item> \<open>Scheduler\<close>, \<open>Scheduler_Update\<close>: \<open>schedule\<close> with its preemption loop and
    everything that changes the scheduler between two steps (\<^verbatim>\<open>v1/core/sched/scheduler.py\<close>,
    \<^verbatim>\<open>async_scheduler.py\<close>, \<^verbatim>\<open>utils.py\<close>, \<^verbatim>\<open>output.py\<close>).
  \<^item> \<open>KV_Provider\<close>, \<open>Scheduler_Inv\<close>, \<open>Scheduler_Step\<close>, \<open>Scheduler_Waiting\<close>,
    \<open>Scheduler_Safety\<close>: what the scheduler relies on in the KV cache manager, as a locale that is
    interpreted on the manager; the invariant of the scheduler, that the running loop with its
    preemptions, the waiting loop and the end of the step keep it, and that \<open>schedule\<close> never fails.
  \<^item> \<open>Scheduler_Frame\<close>: what a step leaves of a request, and how far a scheduled request gets.
  \<^item> \<open>Session_Facts\<close>: the next input of a streaming session; it keeps stale block hashes.
  \<^item> \<open>Engine_Core\<close>: the constructor of requests (\<^verbatim>\<open>v1/request.py\<close>), the engine core with
    its synchronous step, its step with a batch queue and its busy loop (\<^verbatim>\<open>v1/engine/core.py\<close>).
  \<^item> \<open>Engine_Inv\<close>, \<open>Engine_Loop\<close>, \<open>Engine_Safety\<close>: the invariant of the scheduler
    between the calls of the engine (\<open>idle_inv\<close>: the requests are those that run or wait, their
    hashes are those of their tokens, the caches are consistent with them), that new requests, aborts,
    the output of the model and draft tokens keep it, and from that: a round of the busy loop never
    fails.  The executor is held to \<open>output_ok\<close>: an output for every scheduled request, with at most
    one token more than its draft tokens.  New requests have fresh ids, are no streaming sessions and fit in
    the model length (\<open>clients_ok\<close>).  With prefix caching these theorems are about requests of text
    and a hash function without collisions on the inputs that occur (\<open>st_inputs\<close>); a concrete engine with
    prefix caching shows that the hypotheses can hold.
    Also: what the constructor of a request checks, that generations end, and when they do not.
  \<^item> \<open>Tensor_Ops\<close>: the one-dimensional tensor operations the worker code uses.
  \<^item> \<open>Token_Selection\<close>, \<open>Selection_Facts\<close>, \<open>Ranking_Facts\<close>: from block scores to the
    kept tokens (\<^verbatim>\<open>model_executor/layers/fused_top_p_selection_tp_pd.py\<close>): mask and borders agree,
    the ends of a prompt stay, the kept blocks carry the share p up to the rounding error of the running
    sums (with IEEE binary32 arithmetic on rationals, \<open>ieee_floats\<close>, as an instance), the packed sort keys.
  \<^item> \<open>Token_Drop\<close>, \<open>Drop_Facts\<close>, \<open>Decode_Facts\<close>, \<open>Layer_Lengths\<close>: the drop layers
    (\<^verbatim>\<open>model_executor/models/llama.py\<close>), the lengths per layer
    (\<^verbatim>\<open>v1/worker/gpu_model_runner.py\<close>, \<^verbatim>\<open>v1/attention/backends/flash_attn.py\<close>), the slots at which a
    layer stores its keys (\<open>kv_update_slots\<close>, \<^verbatim>\<open>model_executor/layers/attention/attention.py\<close>): for a prompt
    computed in one step, what a decode step attends to at a layer is what the prefill stored there;
    cached prefixes, chunks and decode tokens next to a drop are counterexamples.
  \<^item> \<open>Worker_Table\<close>: the block tables of the model runner (\<^verbatim>\<open>v1/worker/block_table.py\<close>):
    a token gets the slot of its block in the KV cache, whatever block size the kernel uses.
  \<^item> \<open>Worker_Batch\<close>, \<open>Batch_Facts\<close>, \<open>Batch_Update\<close>, \<open>Batch_Step\<close>, \<open>Batch_Masks\<close>: the
    persistent batch of the model runner (\<^verbatim>\<open>v1/worker/gpu_input_batch.py\<close>) with the log for the logits processors
    (\<^verbatim>\<open>v1/sample/logits_processor/state.py\<close>): what a row holds of its request (\<open>row_view\<close>), the
    map from requests to rows that the batch stands for (\<open>batch_view\<close>), that a step changes it like a
    map, and where the mask of allowed tokens does not keep to this.
  \<^item> \<open>Batch_Reorder\<close>, \<open>Batch_Split\<close>: the order that the attention backends ask for
    (\<^verbatim>\<open>v1/attention/backends/utils.py\<close>): the swaps along the cycles of a permutation end and
    sort the rows by region, what the functions that split a batch count as decodes, extended and new
    prompts, the chunks of prompts.  The loops that follow a cycle or cut chunks are partial functions; that they return is
    part of the theorems.

  \<^bold>\<open>Conventions.\<close>  Python integers are \<open>int\<close>, 32 and 64 bit integers of the kernels are words,
  objects that the code shares by reference (the blocks) live in a heap, other objects are passed as
  state.  Dictionaries whose order matters are association lists.  Loops are structural recursions, or
  functions with a measure; the only fuel is that of loops over linked lists, which is the number of
  blocks plus one and cannot run out on a well-formed queue, and the scan of the hybrid lookup, whose
  result \<open>None\<close> is excluded by a lemma.  An engine that waits for input is a call without a
  result (\<open>None\<close>).

  \<^bold>\<open>Parameters.\<close>  The hash function and the sizes of data types; floating point arithmetic
  (\<open>float_ops\<close>), with the laws that a theorem needs as its hypotheses; the scores of the blocks,
  computed by a CUDA kernel; what a transformer layer does to a row of hidden states; the exchange of
  scores between tensor parallel ranks; the encoder cache connector; the model executor and the order
  in which client requests arrive.

  \<^bold>\<open>Not modelled.\<close>  Attention kernels and model layers (tensor code), HTTP servers, processes and
  sockets, compilation passes, distributed communication, log output and metrics that nothing reads.
  In the scheduler: KV connectors (transfer of blocks between hosts), the grammar of structured output
  (a parameter says which requests have theirs compiled), encoder-decoder models, statistics, and the
  construction of the scheduler from the configuration.  In the engine core: its construction,
  utility calls other than pause and resume, data parallel waves; of the
  step with a batch queue only the bound of the queue is shown, since with asynchronous scheduling
  tokens are scheduled before those of the last step are known.
\<close>

end
